(* ===== verification/Prelude.thy ===== *)
theory Prelude
  imports Main "HOL-Library.Word"
begin

text \<open>
  Shared vocabulary of the development: the error codes of \<open>src/src/util/error.h\<close>, the
  arithmetic of \<open>size_t\<close> (64-bit unsigned, written out on \<open>nat\<close> with its wrap-around), the
  allocator seen by every operation that calls \<open>malloc\<close>/\<open>realloc\<close>, C strings, and the list,
  word and option facts that several components use.  The collections \<open>size_simps\<close>,
  \<open>c_str_simps\<close> and \<open>invar_intros\<close> are filled by the component theories.
\<close>

named_theorems size_simps \<open>facts that remove the wrap-around of size arithmetic within bounds\<close>
named_theorems c_str_simps \<open>facts about bytes up to the first NUL\<close>
named_theorems invar_intros \<open>preservation of a component's well-formedness invariant\<close>

section \<open>Error codes\<close>

datatype agent_error =
    AGENT_OK
  | AGENT_ERR_OOM
  | AGENT_ERR_IO
  | AGENT_ERR_JSON
  | AGENT_ERR_HTTP
  | AGENT_ERR_MODEL
  | AGENT_ERR_TOOL
  | AGENT_ERR_PROCESS
  | AGENT_ERR_CANCELLED
  | AGENT_ERR_AUTH

fun error_name :: "agent_error \<Rightarrow> string" where
  "error_name AGENT_OK = ''ok''"
| "error_name AGENT_ERR_OOM = ''out of memory''"
| "error_name AGENT_ERR_IO = ''io error''"
| "error_name AGENT_ERR_JSON = ''json error''"
| "error_name AGENT_ERR_HTTP = ''http error''"
| "error_name AGENT_ERR_MODEL = ''model error''"
| "error_name AGENT_ERR_TOOL = ''tool error''"
| "error_name AGENT_ERR_PROCESS = ''process error''"
| "error_name AGENT_ERR_CANCELLED = ''cancelled''"
| "error_name AGENT_ERR_AUTH = ''authentication error''"

lemma error_name_inj: "error_name a = error_name b \<Longrightarrow> a = b"
  by (cases a; cases b) simp_all

section \<open>Arithmetic of size\_t\<close>

definition SIZE_MAX :: nat where
  "SIZE_MAX = 2 ^ 64 - 1"

definition size_add :: "nat \<Rightarrow> nat \<Rightarrow> nat" where
  "size_add a b = (a + b) mod 2 ^ 64"

definition size_mul :: "nat \<Rightarrow> nat \<Rightarrow> nat" where
  "size_mul a b = (a * b) mod 2 ^ 64"

text \<open>C subtracts unsigned numbers modulo \<open>2 ^ 64\<close>; both arguments are below \<open>2 ^ 64\<close>.\<close>

definition size_sub :: "nat \<Rightarrow> nat \<Rightarrow> nat" where
  "size_sub a b = (a + (2 ^ 64 - b mod 2 ^ 64)) mod 2 ^ 64"

lemma SIZE_MAX_eq: "SIZE_MAX = 18446744073709551615"
  by (simp add: SIZE_MAX_def)

lemma Suc_SIZE_MAX [simp]: "Suc SIZE_MAX = 2 ^ 64"
  by (simp add: SIZE_MAX_def)

lemma le_SIZE_MAX_iff: "n \<le> SIZE_MAX \<longleftrightarrow> n < 2 ^ 64"
  by (auto simp: SIZE_MAX_def)

lemma size_add_id [size_simps]: "a + b \<le> SIZE_MAX \<Longrightarrow> size_add a b = a + b"
  by (simp add: size_add_def le_SIZE_MAX_iff)

lemma size_mul_id [size_simps]: "a * b \<le> SIZE_MAX \<Longrightarrow> size_mul a b = a * b"
  by (simp add: size_mul_def le_SIZE_MAX_iff)

lemma size_sub_id [size_simps]:
  assumes "b \<le> a" and "a \<le> SIZE_MAX"
  shows "size_sub a b = a - b"
proof -
  from assms have "a < 2 ^ 64" and "b < 2 ^ 64" by (auto simp: le_SIZE_MAX_iff)
  with assms(1) have "a + (2 ^ 64 - b mod 2 ^ 64) = (a - b) + 2 ^ 64" by simp
  then have "size_sub a b = ((a - b) + 2 ^ 64) mod 2 ^ 64"
    by (simp add: size_sub_def)
  with \<open>a < 2 ^ 64\<close> show ?thesis by simp
qed

lemma size_sub_wraps:
  assumes "a < b" and "b \<le> SIZE_MAX"
  shows "size_sub a b = 2 ^ 64 - (b - a)"
proof -
  from assms have "b < 2 ^ 64" by (simp add: le_SIZE_MAX_iff)
  with assms(1) have "a + (2 ^ 64 - b mod 2 ^ 64) = 2 ^ 64 - (b - a)" and "2 ^ 64 - (b - a) < (2::nat) ^ 64"
    by auto
  then show ?thesis by (simp add: size_sub_def)
qed

section \<open>The allocator\<close>

text \<open>
  \<open>realloc\<close> may fail, and the bytes it adds are unspecified.  Both are inputs of every
  operation that allocates: \<open>grants h n\<close> says whether a request of \<open>n\<close> bytes succeeds and
  \<open>junk h i\<close> is what the fresh slot \<open>i\<close> holds.
\<close>

record 'a allocator =
  grants :: "nat \<Rightarrow> bool"
  junk :: "nat \<Rightarrow> 'a"

definition realloc_slots :: "'a allocator \<Rightarrow> 'a list \<Rightarrow> nat \<Rightarrow> 'a list" where
  "realloc_slots h old n = take n old @ map (junk h) [length old..<n]"

lemma length_realloc_slots [simp]: "length (realloc_slots h old n) = n"
  by (simp add: realloc_slots_def)

lemma take_realloc_slots:
  "k \<le> length old \<Longrightarrow> k \<le> n \<Longrightarrow> take k (realloc_slots h old n) = take k old"
  by (simp add: realloc_slots_def min_def)

text \<open>
  The doubling loop shared by the growth functions of \<open>vector.c\<close>, \<open>buffer.c\<close> and
  \<open>string.c\<close>: \<open>None\<close> is the overflow exit.  Every caller starts at a positive capacity; from
  zero the C loop would spin, so the equation stops there and
  \<open>double_until_ge\<close> carries the precondition.
\<close>

function double_until :: "nat \<Rightarrow> nat \<Rightarrow> nat option" where
  "double_until new_cap need =
     (if new_cap < need \<and> 0 < new_cap then
        (if new_cap > SIZE_MAX div 2 then None else double_until (new_cap * 2) need)
      else Some new_cap)"
  by pat_completeness auto
termination
  by (relation "measure (\<lambda>(c, n). n - c)") auto

declare double_until.simps [simp del]

lemma double_until_ge:
  "double_until c n = Some c' \<Longrightarrow> 0 < c \<Longrightarrow> n \<le> c' \<and> c \<le> c'"
proof (induction c n rule: double_until.induct)
  case (1 c n)
  show ?case
  proof (cases "c < n")
    case True
    with "1.prems" have "double_until (c * 2) n = Some c'" and "\<not> c > SIZE_MAX div 2"
      by (auto simp: double_until.simps [of c n] split: if_splits)
    with "1.IH" True "1.prems"(2) show ?thesis by fastforce
  next
    case False
    with "1.prems" show ?thesis by (auto simp: double_until.simps [of c n])
  qed
qed

lemma double_until_bound:
  "double_until c n = Some c' \<Longrightarrow> c < SIZE_MAX \<Longrightarrow> c' < SIZE_MAX"
proof (induction c n rule: double_until.induct)
  case (1 c n)
  then show ?case
    by (auto simp: double_until.simps [of c n] SIZE_MAX_eq split: if_splits)
qed

lemma double_until_lt_twice:
  "double_until c n = Some c' \<Longrightarrow> 0 < c \<Longrightarrow> c < n \<Longrightarrow> c' < 2 * n"
proof (induction c n rule: double_until.induct)
  case (1 c n)
  from "1.prems" have step: "double_until (c * 2) n = Some c'" and nb: "\<not> c > SIZE_MAX div 2"
    by (auto simp: double_until.simps [of c n] split: if_splits)
  show ?case
  proof (cases "c * 2 < n")
    case True
    with "1.IH" step nb "1.prems" show ?thesis by simp
  next
    case False
    with step have "c' = c * 2" by (simp add: double_until.simps [of "c * 2" n])
    with "1.prems" show ?thesis by simp
  qed
qed

lemma double_until_small:
  "0 < c \<Longrightarrow> n \<le> 2 ^ 63 \<Longrightarrow> \<exists>c'. double_until c n = Some c'"
proof (induction c n rule: double_until.induct)
  case (1 c n)
  show ?case
  proof (cases "c < n")
    case True
    with "1.prems" have nb: "\<not> c > SIZE_MAX div 2" by (simp add: SIZE_MAX_eq)
    with "1.IH" "1.prems" True obtain c' where "double_until (c * 2) n = Some c'" by auto
    with True nb "1.prems" show ?thesis by (auto simp: double_until.simps [of c n])
  next
    case False
    then show ?thesis by (auto simp: double_until.simps [of c n])
  qed
qed

section \<open>C strings\<close>

text \<open>The C string stored in a byte array: the bytes before the first NUL.\<close>

definition c_str :: "string \<Rightarrow> string" where
  "c_str bs = takeWhile (\<lambda>c. c \<noteq> CHR 0x00) bs"

definition no_nul :: "string \<Rightarrow> bool" where
  "no_nul bs \<longleftrightarrow> CHR 0x00 \<notin> set bs"

lemma c_str_no_nul [simp]: "no_nul (c_str bs)"
  by (auto simp: no_nul_def c_str_def dest: set_takeWhileD)

lemma c_str_id [c_str_simps]: "no_nul bs \<Longrightarrow> c_str bs = bs"
  by (auto simp: c_str_def no_nul_def takeWhile_eq_all_conv)

lemma c_str_append_nul [c_str_simps]: "no_nul bs \<Longrightarrow> c_str (bs @ CHR 0x00 # rest) = bs"
  by (auto simp: c_str_def no_nul_def takeWhile_tail)

text \<open>\<open>strstr\<close>: the offset of the first occurrence.\<close>

fun strstr :: "string \<Rightarrow> string \<Rightarrow> nat option" where
  "strstr hay needle =
     (if take (length needle) hay = needle then Some 0
      else (case hay of [] \<Rightarrow> None | _ # rest \<Rightarrow> map_option Suc (strstr rest needle)))"

declare strstr.simps [simp del]

lemma strstr_some:
  "strstr hay needle = Some k \<Longrightarrow>
   take (length needle) (drop k hay) = needle \<and> k + length needle \<le> length hay \<and>
   (\<forall>j<k. take (length needle) (drop j hay) \<noteq> needle)"
proof (induction hay arbitrary: k)
  case Nil
  then show ?case by (auto simp: strstr.simps split: if_splits)
next
  case (Cons x hay)
  show ?case
  proof (cases "take (length needle) (x # hay) = needle")
    case True
    with Cons.prems have "k = 0" by (simp add: strstr.simps [of "x # hay"])
    moreover have "length needle \<le> length (x # hay)" using True by (metis length_take min.cobounded1)
    ultimately show ?thesis using True by simp
  next
    case False
    with Cons.prems obtain j where j: "strstr hay needle = Some j" "k = Suc j" by (auto simp: strstr.simps [of "x # hay"])
    from Cons.IH [OF j(1)] j(2) False show ?thesis by (auto simp: less_Suc_eq_0_disj)
  qed
qed

lemma strstr_none: "strstr hay needle = None \<Longrightarrow> take (length needle) (drop j hay) \<noteq> needle"
proof (induction hay arbitrary: j)
  case Nil
  then show ?case by (auto simp: strstr.simps split: if_splits)
next
  case (Cons x hay)
  then have "take (length needle) (x # hay) \<noteq> needle" "strstr hay needle = None"
    by (auto simp: strstr.simps [of "x # hay"] split: if_splits)
  with Cons.IH show ?case by (cases j) auto
qed

text \<open>The \<open>unsigned char\<close> of a \<open>char\<close>.\<close>

definition byte :: "char \<Rightarrow> 8 word" where
  "byte c = of_char c"

section \<open>Lists and options\<close>

lemma take_append_drop_replace:
  assumes "k + length xs \<le> length zs"
  shows "take (k + length xs) (take k zs @ xs @ drop (k + length xs) zs) = take k zs @ xs"
  using assms by simp

lemma foldl_invariant:
  assumes "I s" and "\<And>s x. I s \<Longrightarrow> x \<in> set xs \<Longrightarrow> I (f s x)"
  shows "I (foldl f s xs)"
  using assms by (induction xs arbitrary: s) auto

lemma in_concat_nth: "x \<in> set (concat bs) \<longleftrightarrow> (\<exists>i < length bs. x \<in> set (bs ! i))"
  by (auto simp: in_set_conv_nth [where xs = bs] intro: bexI [OF _ nth_mem])

lemma map_of_Some_in: "map_of xs k = Some v \<Longrightarrow> (k, v) \<in> set xs"
  by (rule map_of_SomeD)

section \<open>Decimal numbers\<close>

text \<open>What \<open>printf\<close> writes for \<open>%zu\<close> and for a \<open>%d\<close> that is not negative.\<close>

definition digit_char :: "nat \<Rightarrow> char" where
  "digit_char d = char_of (48 + d)"

function show_nat :: "nat \<Rightarrow> string" where
  "show_nat n = (if n < 10 then [digit_char n] else show_nat (n div 10) @ [digit_char (n mod 10)])"
  by pat_completeness auto
termination
  by (relation "measure id") auto

declare show_nat.simps [simp del]

lemma show_nat_nonempty [simp]: "show_nat n \<noteq> []"
  by (subst show_nat.simps) simp

definition digit_value :: "char \<Rightarrow> nat" where
  "digit_value c = of_char c - 48"

definition read_nat :: "string \<Rightarrow> nat" where
  "read_nat s = foldl (\<lambda>n c. 10 * n + digit_value c) 0 s"

lemma digit_value_char [simp]: "d < 10 \<Longrightarrow> digit_value (digit_char d) = d"
  by (simp add: digit_value_def digit_char_def)

lemma read_show_nat [simp]: "read_nat (show_nat n) = n"
proof (induction n rule: show_nat.induct)
  case (1 n)
  show ?case
  proof (cases "n < 10")
    case True
    then show ?thesis by (simp add: show_nat.simps [of n] read_nat_def)
  next
    case False
    with 1 show ?thesis by (simp add: show_nat.simps [of n] read_nat_def)
  qed
qed

lemma show_nat_inj: "show_nat m = show_nat n \<longleftrightarrow> m = n"
  by (metis read_show_nat)

text \<open>\<open>%d\<close> and \<open>%lld\<close> of any value.\<close>

definition show_int :: "int \<Rightarrow> string" where
  "show_int i = (if i < 0 then CHR ''-'' # show_nat (nat (- i)) else show_nat (nat i))"

end
