(* ===== verification/Byte_Store.thy ===== *)
theory Byte_Store
  imports Prelude
begin

text \<open>
  The growable byte stores of \<open>src/src/util/string.c\<close> (a NUL-terminated \<open>String\<close>) and
  \<open>src/src/util/buffer.c\<close> (a binary \<open>Buffer\<close>).  The model keeps the allocated array: a
  \<open>String\<close> of capacity \<open>c\<close> owns \<open>c + 1\<close> bytes, a \<open>Buffer\<close> owns \<open>c\<close>, and the bytes past
  \<open>len\<close> are whatever the allocator left there.  \<open>text_of\<close> and \<open>bytes_of\<close> read the contents;
  the locale \<open>byte_sink\<close> is the contract both offer to the parser and the agent loop.
\<close>

section \<open>The contract of an append-only byte store\<close>

locale byte_sink =
  fixes append :: "'h \<Rightarrow> 's \<Rightarrow> string \<Rightarrow> agent_error \<times> 's"
    and contents :: "'s \<Rightarrow> string"
    and invar :: "'s \<Rightarrow> bool"
  assumes append_ok: "invar s \<Longrightarrow> append h s xs = (AGENT_OK, s') \<Longrightarrow> contents s' = contents s @ xs"
    and append_fail: "invar s \<Longrightarrow> append h s xs = (e, s') \<Longrightarrow> e \<noteq> AGENT_OK \<Longrightarrow> s' = s"
    and append_invar: "invar s \<Longrightarrow> append h s xs = (e, s') \<Longrightarrow> invar s'"

text \<open>Appending chunk after chunk, stopping at the first failure.\<close>

fun append_chunks ::
  "('h \<Rightarrow> 's \<Rightarrow> string \<Rightarrow> agent_error \<times> 's) \<Rightarrow> 's \<Rightarrow> ('h \<times> string) list \<Rightarrow> agent_error \<times> 's" where
  "append_chunks app s [] = (AGENT_OK, s)"
| "append_chunks app s ((h, xs) # rest) =
     (case app h s xs of
        (AGENT_OK, s') \<Rightarrow> append_chunks app s' rest
      | (e, s') \<Rightarrow> (e, s'))"

context byte_sink
begin

lemma chunks_invar: "invar s \<Longrightarrow> append_chunks append s cs = (e, s') \<Longrightarrow> invar s'"
proof (induction cs arbitrary: s)
  case (Cons c cs)
  obtain h xs where c: "c = (h, xs)" by (cases c)
  obtain e1 s1 where ap: "append h s xs = (e1, s1)" by (cases "append h s xs")
  have inv1: "invar s1" using append_invar [OF Cons.prems(1) ap] .
  show ?case
  proof (cases "e1 = AGENT_OK")
    case True
    with Cons.prems(2) c ap have "append_chunks append s1 cs = (e, s')" by simp
    then show ?thesis by (rule Cons.IH [OF inv1])
  next
    case False
    with Cons.prems(2) c ap have "s' = s1" by (cases e1) auto
    with inv1 show ?thesis by simp
  qed
qed simp

lemma chunks_contents:
  "invar s \<Longrightarrow> append_chunks append s cs = (AGENT_OK, s') \<Longrightarrow>
   contents s' = contents s @ concat (map snd cs)"
proof (induction cs arbitrary: s)
  case (Cons c cs)
  obtain h xs where c: "c = (h, xs)" by (cases c)
  obtain e1 s1 where ap: "append h s xs = (e1, s1)" by (cases "append h s xs")
  have ok: "e1 = AGENT_OK" using Cons.prems(2) c ap by (cases e1) auto
  with Cons.prems(2) c ap have rest: "append_chunks append s1 cs = (AGENT_OK, s')" by simp
  have "contents s1 = contents s @ xs" using append_ok [OF Cons.prems(1)] ap ok by simp
  with Cons.IH [OF append_invar [OF Cons.prems(1) ap] rest] c show ?case by simp
qed simp

lemma chunks_prefix:
  "invar s \<Longrightarrow> append_chunks append s cs = (e, s') \<Longrightarrow>
   \<exists>k \<le> length cs. contents s' = contents s @ concat (map snd (take k cs))"
proof (induction cs arbitrary: s)
  case (Cons c cs)
  obtain h xs where c: "c = (h, xs)" by (cases c)
  obtain e1 s1 where ap: "append h s xs = (e1, s1)" by (cases "append h s xs")
  show ?case
  proof (cases "e1 = AGENT_OK")
    case True
    with Cons.prems(2) c ap have "append_chunks append s1 cs = (e, s')" by simp
    from Cons.IH [OF append_invar [OF Cons.prems(1) ap] this]
    obtain k where "k \<le> length cs" "contents s' = contents s1 @ concat (map snd (take k cs))"
      by blast
    moreover have "contents s1 = contents s @ xs"
      using append_ok [OF Cons.prems(1)] ap True by simp
    ultimately show ?thesis using c by (intro exI [of _ "Suc k"]) simp
  next
    case False
    with append_fail [OF Cons.prems(1) ap] Cons.prems(2) c ap have "s' = s" by (cases e1) auto
    then show ?thesis by (intro exI [of _ 0]) simp
  qed
qed simp

end

section \<open>String\<close>

record cstring =
  sdata :: "char list option"  \<comment> \<open>\<open>None\<close> is the NULL pointer\<close>
  slen :: nat
  scap :: nat

definition STRING_MIN_CAP :: nat where
  "STRING_MIN_CAP = 32"

definition string_new :: cstring where
  "string_new = \<lparr>sdata = None, slen = 0, scap = 0\<rparr>"

definition string_free :: "cstring \<Rightarrow> cstring" where
  "string_free s = \<lparr>sdata = None, slen = 0, scap = 0\<rparr>"

definition slot_bytes :: "char list option \<Rightarrow> char list" where
  "slot_bytes d = (case d of None \<Rightarrow> [] | Some bs \<Rightarrow> bs)"

definition write_at :: "'a list \<Rightarrow> nat \<Rightarrow> 'a list \<Rightarrow> 'a list" where
  "write_at d k xs = take k d @ xs @ drop (k + length xs) d"

definition string_grow :: "char allocator \<Rightarrow> cstring \<Rightarrow> nat \<Rightarrow> agent_error \<times> cstring" where
  "string_grow h s need =
     (if scap s \<ge> need then (AGENT_OK, s)
      else
        (case double_until (if scap s > 0 then scap s else STRING_MIN_CAP) need of
           None \<Rightarrow> (AGENT_ERR_OOM, s)
         | Some new_cap \<Rightarrow>
             (if grants h (size_add new_cap 1) then
                (AGENT_OK, s\<lparr>sdata := Some (realloc_slots h (slot_bytes (sdata s)) (size_add new_cap 1)),
                             scap := new_cap\<rparr>)
              else (AGENT_ERR_OOM, s))))"

definition string_reserve :: "char allocator \<Rightarrow> cstring \<Rightarrow> nat \<Rightarrow> agent_error \<times> cstring" where
  "string_reserve h s extra =
     (if extra > size_sub SIZE_MAX (slen s) then (AGENT_ERR_OOM, s)
      else string_grow h s (size_add (slen s) extra))"

definition string_append_n ::
  "char allocator \<Rightarrow> cstring \<Rightarrow> string option \<Rightarrow> nat \<Rightarrow> agent_error \<times> cstring" where
  "string_append_n h s src n =
     (if n = 0 then (AGENT_OK, s)
      else
        (case src of
           None \<Rightarrow> (AGENT_ERR_OOM, s)
         | Some bytes \<Rightarrow>
             (if n > size_sub (size_sub SIZE_MAX (slen s)) 1 then (AGENT_ERR_OOM, s)
              else
                (case string_grow h s (size_add (slen s) n) of
                   (AGENT_OK, s') \<Rightarrow>
                     (AGENT_OK, s'\<lparr>sdata := Some (write_at (slot_bytes (sdata s')) (slen s')
                                                    (take n bytes @ [CHR 0x00])),
                                  slen := slen s' + n\<rparr>)
                 | (err, s') \<Rightarrow> (err, s')))))"

definition string_append :: "char allocator \<Rightarrow> cstring \<Rightarrow> string \<Rightarrow> agent_error \<times> cstring" where
  "string_append h s src = string_append_n h s (Some src) (length src)"

definition string_append_char :: "char allocator \<Rightarrow> cstring \<Rightarrow> char \<Rightarrow> agent_error \<times> cstring" where
  "string_append_char h s c = string_append_n h s (Some [c]) 1"

text \<open>
  \<open>string_printf\<close> formats through the C library: \<open>out\<close> is the text \<open>vsnprintf\<close> produces
  (\<open>None\<close> for its negative return).  The call writes at \<open>data + len\<close>, so when \<open>data\<close> is still
  NULL the write of the terminator is undefined behaviour: the outer \<open>None\<close>.
\<close>

definition string_printf ::
  "char allocator \<Rightarrow> cstring \<Rightarrow> string option \<Rightarrow> (agent_error \<times> cstring) option" where
  "string_printf h s out =
     (case out of
        None \<Rightarrow> Some (AGENT_ERR_IO, s)
      | Some txt \<Rightarrow>
          (case string_reserve h s (length txt) of
             (AGENT_OK, s') \<Rightarrow>
               (case sdata s' of
                  None \<Rightarrow> None
                | Some d \<Rightarrow>
                    Some (AGENT_OK,
                      s'\<lparr>sdata := Some (write_at d (slen s')
                            (take (scap s' - slen s') txt @ [CHR 0x00])),
                         slen := slen s' + length txt\<rparr>))
           | (err, s') \<Rightarrow> Some (err, s')))"

definition string_take :: "cstring \<Rightarrow> char list option \<times> cstring" where
  "string_take s = (sdata s, s\<lparr>sdata := None, slen := 0, scap := 0\<rparr>)"

definition string_clear :: "cstring \<Rightarrow> cstring" where
  "string_clear s =
     s\<lparr>slen := 0, sdata := map_option (\<lambda>d. write_at d 0 [CHR 0x00]) (sdata s)\<rparr>"

text \<open>Well-formedness, the stored text, and the NUL after it.\<close>

definition string_ok :: "cstring \<Rightarrow> bool" where
  "string_ok s \<longleftrightarrow>
     (case sdata s of
        None \<Rightarrow> slen s = 0 \<and> scap s = 0
      | Some d \<Rightarrow> length d = scap s + 1 \<and> slen s \<le> scap s \<and> 0 < scap s \<and> scap s < SIZE_MAX)"

definition nul_terminated :: "cstring \<Rightarrow> bool" where
  "nul_terminated s \<longleftrightarrow> (case sdata s of None \<Rightarrow> True | Some d \<Rightarrow> d ! slen s = CHR 0x00)"

definition text_of :: "cstring \<Rightarrow> string" where
  "text_of s = take (slen s) (slot_bytes (sdata s))"

lemma length_write_at [simp]:
  "k + length xs \<le> length d \<Longrightarrow> length (write_at d k xs) = length d"
  by (simp add: write_at_def)

lemma take_write_at:
  "k + length xs \<le> length d \<Longrightarrow> j \<le> length xs \<Longrightarrow>
   take (k + j) (write_at d k xs) = take k d @ take j xs"
  by (simp add: write_at_def)

lemma nth_write_at_last:
  "k + length xs < length d \<Longrightarrow> write_at d k (xs @ [x]) ! (k + length xs) = x"
  by (simp add: write_at_def nth_append)

lemma text_of_new [simp]: "text_of string_new = []"
  by (simp add: text_of_def string_new_def slot_bytes_def)

lemma string_ok_new [invar_intros]: "string_ok string_new" and nul_new: "nul_terminated string_new"
  by (simp_all add: string_ok_def string_new_def nul_terminated_def)

lemma length_text_of: "string_ok s \<Longrightarrow> length (text_of s) = slen s"
  by (auto simp: string_ok_def text_of_def slot_bytes_def split: option.splits)

text \<open>Growth keeps the bytes up to and including the terminator, or leaves the string alone.\<close>

lemma string_grow_fail: "string_grow h s n = (e, s') \<Longrightarrow> e \<noteq> AGENT_OK \<Longrightarrow> s' = s"
  by (auto simp: string_grow_def split: if_splits option.splits)

lemma string_grow_ok:
  assumes ok: "string_ok s" and eq: "string_grow h s n = (AGENT_OK, s')"
  shows "string_ok s'" and "n \<le> scap s'" and "slen s' = slen s" and "text_of s' = text_of s"
    and "sdata s \<noteq> None \<Longrightarrow> slot_bytes (sdata s') ! slen s = slot_bytes (sdata s) ! slen s"
    and "0 < n \<Longrightarrow> sdata s' \<noteq> None"
proof -
  let ?start = "if scap s > 0 then scap s else STRING_MIN_CAP"
  have "string_ok s' \<and> n \<le> scap s' \<and> slen s' = slen s \<and> text_of s' = text_of s \<and>
        (sdata s \<noteq> None \<longrightarrow> slot_bytes (sdata s') ! slen s = slot_bytes (sdata s) ! slen s) \<and>
        (0 < n \<longrightarrow> sdata s' \<noteq> None)"
  proof (cases "scap s \<ge> n")
    case True
    with eq ok show ?thesis
      by (auto simp: string_grow_def string_ok_def split: option.splits)
  next
    case False
    with eq obtain c where c: "double_until ?start n = Some c"
      and s': "s' = s\<lparr>sdata := Some (realloc_slots h (slot_bytes (sdata s)) (size_add c 1)), scap := c\<rparr>"
      by (auto simp: string_grow_def split: if_splits option.splits)
    have pos: "0 < ?start" by (simp add: STRING_MIN_CAP_def)
    have ge: "n \<le> c" "?start \<le> c" using double_until_ge [OF c pos] by auto
    have lt: "c < SIZE_MAX"
      using double_until_bound [OF c] ok
      by (auto simp: string_ok_def STRING_MIN_CAP_def SIZE_MAX_eq split: option.splits)
    then have sz: "size_add c 1 = c + 1" by (simp add: size_simps)
    show ?thesis
    proof (cases "sdata s")
      case None
      with ok have "slen s = 0" by (simp add: string_ok_def)
      with None s' sz ge lt pos show ?thesis
        by (simp add: string_ok_def text_of_def slot_bytes_def)
    next
      case (Some d)
      with ok have d: "length d = scap s + 1" "slen s \<le> scap s" "0 < scap s"
        by (auto simp: string_ok_def)
      with ge have le: "scap s \<le> c" by simp
      from d le have "realloc_slots h d (c + 1) ! slen s = d ! slen s"
        by (simp add: realloc_slots_def nth_append)
      moreover from d le have "take (slen s) (realloc_slots h d (c + 1)) = take (slen s) d"
        by (simp add: take_realloc_slots)
      ultimately show ?thesis using Some s' sz ge lt d
        by (simp add: string_ok_def text_of_def slot_bytes_def)
    qed
  qed
  then show "string_ok s'" and "n \<le> scap s'" and "slen s' = slen s" and "text_of s' = text_of s"
    and "sdata s \<noteq> None \<Longrightarrow> slot_bytes (sdata s') ! slen s = slot_bytes (sdata s) ! slen s"
    and "0 < n \<Longrightarrow> sdata s' \<noteq> None"
    by auto
qed

text \<open>The overflow guard of \<open>string_append_n\<close> never lets \<open>len + n\<close> wrap.\<close>

lemma append_guard:
  assumes "string_ok s" and "\<not> n > size_sub (size_sub SIZE_MAX (slen s)) 1"
  shows "size_add (slen s) n = slen s + n"
proof -
  from assms(1) have lt: "slen s < SIZE_MAX"
    by (auto simp: string_ok_def SIZE_MAX_eq split: option.splits)
  then have "size_sub SIZE_MAX (slen s) = SIZE_MAX - slen s" by (simp add: size_simps)
  moreover have "size_sub (SIZE_MAX - slen s) 1 = SIZE_MAX - slen s - 1"
    using lt by (intro size_sub_id) auto
  ultimately show ?thesis using assms(2) lt by (intro size_add_id) auto
qed

lemma string_append_n_fail:
  "string_append_n h s src n = (e, s') \<Longrightarrow> e \<noteq> AGENT_OK \<Longrightarrow> s' = s"
  by (auto simp: string_append_n_def dest: string_grow_fail
      split: if_splits option.splits prod.splits agent_error.splits)

lemma string_append_n_ok:
  assumes ok: "string_ok s" and n: "n \<le> length bytes"
    and eq: "string_append_n h s (Some bytes) n = (AGENT_OK, s')"
  shows "string_ok s'" and "text_of s' = text_of s @ take n bytes"
    and "nul_terminated s \<Longrightarrow> nul_terminated s'" and "0 < n \<Longrightarrow> nul_terminated s'"
proof -
  have "string_ok s' \<and> text_of s' = text_of s @ take n bytes \<and>
        (nul_terminated s \<longrightarrow> nul_terminated s') \<and> (0 < n \<longrightarrow> nul_terminated s')"
  proof (cases "n = 0")
    case True
    with eq ok show ?thesis by (simp add: string_append_n_def)
  next
    case False
    with eq have g: "\<not> n > size_sub (size_sub SIZE_MAX (slen s)) 1"
      by (auto simp: string_append_n_def split: if_splits)
    from False g eq obtain s1 where gr: "string_grow h s (slen s + n) = (AGENT_OK, s1)"
      and s': "s' = s1\<lparr>sdata := Some (write_at (slot_bytes (sdata s1)) (slen s1)
                        (take n bytes @ [CHR 0x00])), slen := slen s1 + n\<rparr>"
      by (auto simp: string_append_n_def append_guard [OF ok g]
          split: prod.splits agent_error.splits)
    note gok = string_grow_ok [OF ok gr]
    from gok(6) False obtain d where d: "sdata s1 = Some d" by auto
    with gok(1-3) have dl: "length d = scap s1 + 1" "slen s1 + n \<le> scap s1"
      by (auto simp: string_ok_def)
    have "take (slen s1 + n) (write_at d (slen s1) (take n bytes @ [CHR 0x00]))
          = take (slen s1) d @ take n bytes"
      using dl n take_write_at [of "slen s1" "take n bytes @ [CHR 0x00]" d n] by simp
    moreover have "write_at d (slen s1) (take n bytes @ [CHR 0x00]) ! (slen s1 + n) = CHR 0x00"
      using dl n nth_write_at_last [of "slen s1" "take n bytes" d "CHR 0x00"] by simp
    moreover have "take (slen s1) d = text_of s"
      using gok(4) d by (simp add: text_of_def slot_bytes_def)
    ultimately show ?thesis using s' d dl n gok(1)
      by (auto simp: string_ok_def text_of_def slot_bytes_def nul_terminated_def)
  qed
  then show "string_ok s'" and "text_of s' = text_of s @ take n bytes"
    and "nul_terminated s \<Longrightarrow> nul_terminated s'" and "0 < n \<Longrightarrow> nul_terminated s'"
    by auto
qed

interpretation str: byte_sink string_append text_of string_ok
proof unfold_locales
  fix h s xs s'
  assume "string_ok s" and "string_append h s xs = (AGENT_OK, s')"
  then show "text_of s' = text_of s @ xs"
    using string_append_n_ok(2) [of s "length xs" xs h s'] by (simp add: string_append_def)
next
  fix h s xs e s'
  assume ok: "string_ok s" and ap: "string_append h s xs = (e, s')"
  from ap show "e \<noteq> AGENT_OK \<Longrightarrow> s' = s"
    unfolding string_append_def by (rule string_append_n_fail)
  then show "string_ok s'"
    using ok ap string_append_n_ok(1) [of s "length xs" xs h s']
    by (cases "e = AGENT_OK") (auto simp: string_append_def)
qed

text \<open>Appending to a well-formed string either stores exactly the old text followed by the
  new bytes, NUL-terminated, or fails and leaves the string unchanged.\<close>

theorem string_append_spec:
  assumes "string_ok s" and "nul_terminated s" and "string_append h s xs = (e, s')"
  shows "if e = AGENT_OK
         then string_ok s' \<and> nul_terminated s' \<and> text_of s' = text_of s @ xs
         else s' = s"
  using assms string_append_n_ok [of s "length xs" xs h s'] str.append_fail [OF assms(1,3)]
  by (auto simp: string_append_def)

theorem string_append_spec_witness:
  "\<exists>s'. string_append \<lparr>grants = (\<lambda>_. True), junk = (\<lambda>_. CHR ''z'')\<rparr> string_new ''ab'' = (AGENT_OK, s') \<and>
        text_of s' = ''ab'' \<and> nul_terminated s'"
proof -
  let ?h = "\<lparr>grants = (\<lambda>_::nat. True), junk = (\<lambda>_::nat. CHR ''z'')\<rparr>"
  obtain s' where ap: "string_append ?h string_new ''ab'' = (AGENT_OK, s')"
    by (simp add: string_append_def string_append_n_def string_new_def string_grow_def
        STRING_MIN_CAP_def double_until.simps SIZE_MAX_eq size_sub_def size_add_def)
  then show ?thesis
    using string_append_spec [OF string_ok_new nul_new ap] by simp
qed

lemma string_clear_ok [invar_intros]:
  assumes "string_ok s"
  shows "string_ok (string_clear s)" and "text_of (string_clear s) = []"
    and "nul_terminated (string_clear s)" and "scap (string_clear s) = scap s"
  using assms
  by (auto simp: string_ok_def string_clear_def text_of_def nul_terminated_def write_at_def
      split: option.splits)

lemma string_free_new [simp]: "string_free s = string_new"
  by (simp add: string_free_def string_new_def)

lemma string_take_new [simp]: "snd (string_take s) = string_new"
  by (simp add: string_take_def string_new_def)

text \<open>What \<open>string_take\<close> hands over reads back, as a C string, as the stored text.\<close>

lemma string_take_c_str:
  assumes "string_ok s" and "nul_terminated s" and "no_nul (text_of s)"
    and "fst (string_take s) = Some d"
  shows "c_str d = text_of s"
proof -
  from assms(4) have d: "sdata s = Some d" by (simp add: string_take_def)
  with assms(1,2) have len: "slen s < length d" and nul: "d ! slen s = CHR 0x00"
    by (auto simp: string_ok_def nul_terminated_def)
  have "d = take (slen s) d @ CHR 0x00 # drop (Suc (slen s)) d"
    using id_take_nth_drop [OF len] nul by simp
  then have "c_str d = c_str (text_of s @ CHR 0x00 # drop (Suc (slen s)) d)"
    using d by (simp add: text_of_def slot_bytes_def)
  with assms(3) show ?thesis by (simp add: c_str_simps)
qed

lemma string_reserve_guard:
  assumes "string_ok s" and "\<not> extra > size_sub SIZE_MAX (slen s)"
  shows "size_add (slen s) extra = slen s + extra"
proof -
  from assms(1) have lt: "slen s < SIZE_MAX"
    by (auto simp: string_ok_def SIZE_MAX_eq split: option.splits)
  then have "size_sub SIZE_MAX (slen s) = SIZE_MAX - slen s" by (simp add: size_simps)
  with assms(2) lt show ?thesis by (intro size_add_id) auto
qed

lemma string_reserve_ok:
  assumes "string_ok s" and "string_reserve h s extra = (AGENT_OK, s')"
  shows "string_ok s'" and "slen s' + extra \<le> scap s'" and "text_of s' = text_of s"
    and "slen s' = slen s" and "0 < extra \<Longrightarrow> sdata s' \<noteq> None"
    and "sdata s \<noteq> None \<Longrightarrow> nul_terminated s \<Longrightarrow> nul_terminated s'"
proof -
  from assms(2) have g: "\<not> extra > size_sub SIZE_MAX (slen s)"
    by (auto simp: string_reserve_def split: if_splits)
  with assms have gr: "string_grow h s (slen s + extra) = (AGENT_OK, s')"
    by (simp add: string_reserve_def string_reserve_guard)
  note gok = string_grow_ok [OF assms(1) gr]
  from gok show "string_ok s'" "slen s' + extra \<le> scap s'" "text_of s' = text_of s"
    "slen s' = slen s" "0 < extra \<Longrightarrow> sdata s' \<noteq> None"
    by auto
  show "nul_terminated s'" if "sdata s \<noteq> None" and "nul_terminated s"
    using that gok(3,5) by (auto simp: nul_terminated_def slot_bytes_def split: option.splits)
qed

text \<open>Formatted appending, for every output that is not empty, or a string whose storage
  exists, appends exactly the formatted text and terminates it; a failure leaves the string
  as it was.\<close>

theorem string_printf_spec:
  assumes "string_ok s" and "txt \<noteq> [] \<or> sdata s \<noteq> None"
  shows "\<exists>e s'. string_printf h s (Some txt) = Some (e, s') \<and>
           (if e = AGENT_OK
            then string_ok s' \<and> nul_terminated s' \<and> text_of s' = text_of s @ txt
            else s' = s)"
proof (cases "string_reserve h s (length txt)")
  case (Pair e s1)
  show ?thesis
  proof (cases "e = AGENT_OK")
    case False
    with Pair have "s1 = s"
      by (auto simp: string_reserve_def dest: string_grow_fail split: if_splits)
    with False Pair show ?thesis by (cases e) (auto simp: string_printf_def)
  next
    case True
    note rok = string_reserve_ok [OF assms(1) Pair [unfolded True]]
    have "sdata s1 \<noteq> None"
    proof (cases "txt = []")
      case True
      with assms(2) Pair show ?thesis
        by (auto simp: string_reserve_def string_grow_def split: if_splits option.splits)
    qed (use rok in auto)
    then obtain d where d: "sdata s1 = Some d" by auto
    with rok have dl: "length d = scap s1 + 1" "slen s1 + length txt \<le> scap s1"
      by (auto simp: string_ok_def)
    let ?d = "write_at d (slen s1) (txt @ [CHR 0x00])"
    have "take (slen s1 + length txt) ?d = take (slen s1) d @ txt"
      using dl take_write_at [of "slen s1" "txt @ [CHR 0x00]" d "length txt"] by simp
    moreover have "?d ! (slen s1 + length txt) = CHR 0x00"
      using dl nth_write_at_last [of "slen s1" "txt" d "CHR 0x00"] by simp
    moreover have "take (slen s1) d = text_of s"
      using rok(3) d by (simp add: text_of_def slot_bytes_def)
    ultimately show ?thesis using Pair True d dl rok(1)
      by (auto simp: string_printf_def string_ok_def text_of_def slot_bytes_def nul_terminated_def)
  qed
qed

theorem string_printf_spec_witness:
  "\<exists>e s'. string_printf \<lparr>grants = (\<lambda>_. False), junk = (\<lambda>_. CHR ''z'')\<rparr> string_new (Some ''ab'') = Some (e, s') \<and>
     (if e = AGENT_OK then string_ok s' \<and> nul_terminated s' \<and> text_of s' = text_of string_new @ ''ab''
      else s' = string_new)"
  by (rule string_printf_spec [OF string_ok_new]) simp

text \<open>An empty formatted output appended to a string that owns no storage writes the
  terminator through the NULL data pointer (undefined behaviour), whatever the allocator does.\<close>

theorem string_printf_empty_undefined:
  "string_printf h string_new (Some []) = None"
  by (simp add: string_printf_def string_reserve_def string_grow_def string_new_def
      size_add_def size_sub_def SIZE_MAX_eq)

text \<open>Reserving room in a fresh string leaves storage without a terminator, whenever the
  allocator's first fresh byte is not NUL.\<close>

theorem string_reserve_unterminated:
  assumes "0 < extra" and "junk h 0 \<noteq> CHR 0x00" and "string_reserve h string_new extra = (AGENT_OK, s')"
  shows "\<not> nul_terminated s'"
proof -
  have g: "\<not> extra > size_sub SIZE_MAX (slen string_new)"
    using assms(3) by (auto simp: string_reserve_def split: if_splits)
  with assms(1,3) obtain c where c: "double_until STRING_MIN_CAP extra = Some c"
    and s': "s' = string_new\<lparr>sdata := Some (realloc_slots h [] (size_add c 1)), scap := c\<rparr>"
    using string_reserve_guard [OF string_ok_new g]
    by (auto simp: string_reserve_def string_grow_def string_new_def slot_bytes_def
        split: if_splits option.splits)
  have "c < SIZE_MAX" using double_until_bound [OF c] by (simp add: STRING_MIN_CAP_def SIZE_MAX_eq)
  then have "size_add c 1 = c + 1" by (simp add: size_simps)
  moreover have "realloc_slots h [] (c + 1) ! 0 = junk h 0"
    by (simp add: realloc_slots_def upt_conv_Cons del: upt_Suc)
  ultimately show ?thesis using s' assms(2)
    by (simp add: nul_terminated_def string_new_def)
qed

theorem string_reserve_unterminated_witness:
  "\<exists>s'. string_reserve \<lparr>grants = (\<lambda>_. True), junk = (\<lambda>_. CHR ''z'')\<rparr> string_new 1 = (AGENT_OK, s') \<and>
        \<not> nul_terminated s'"
proof -
  let ?h = "\<lparr>grants = (\<lambda>_::nat. True), junk = (\<lambda>_::nat. CHR ''z'')\<rparr>"
  obtain s' where r: "string_reserve ?h string_new 1 = (AGENT_OK, s')"
    by (simp add: string_reserve_def string_new_def string_grow_def
        STRING_MIN_CAP_def double_until.simps SIZE_MAX_eq size_sub_def size_add_def)
  have "\<not> nul_terminated s'"
    by (rule string_reserve_unterminated [OF _ _ r]) simp_all
  with r show ?thesis by blast
qed

section \<open>Buffer\<close>

record cbuffer =
  bdata :: "char list option"
  blen :: nat
  bcap :: nat

definition BUFFER_MIN_CAP :: nat where
  "BUFFER_MIN_CAP = 32"

definition buffer_new :: cbuffer where
  "buffer_new = \<lparr>bdata = None, blen = 0, bcap = 0\<rparr>"

definition buffer_free :: "cbuffer \<Rightarrow> cbuffer" where
  "buffer_free b = \<lparr>bdata = None, blen = 0, bcap = 0\<rparr>"

definition buffer_grow :: "char allocator \<Rightarrow> cbuffer \<Rightarrow> nat \<Rightarrow> agent_error \<times> cbuffer" where
  "buffer_grow h b need =
     (if bcap b \<ge> need then (AGENT_OK, b)
      else
        (case double_until (if bcap b > 0 then bcap b else BUFFER_MIN_CAP) need of
           None \<Rightarrow> (AGENT_ERR_OOM, b)
         | Some new_cap \<Rightarrow>
             (if grants h new_cap then
                (AGENT_OK, b\<lparr>bdata := Some (realloc_slots h (slot_bytes (bdata b)) new_cap),
                             bcap := new_cap\<rparr>)
              else (AGENT_ERR_OOM, b))))"

definition buffer_reserve :: "char allocator \<Rightarrow> cbuffer \<Rightarrow> nat \<Rightarrow> agent_error \<times> cbuffer" where
  "buffer_reserve h b extra =
     (if extra > size_sub SIZE_MAX (blen b) then (AGENT_ERR_OOM, b)
      else buffer_grow h b (size_add (blen b) extra))"

definition buffer_append ::
  "char allocator \<Rightarrow> cbuffer \<Rightarrow> string option \<Rightarrow> nat \<Rightarrow> agent_error \<times> cbuffer" where
  "buffer_append h b src n =
     (if n = 0 then (AGENT_OK, b)
      else
        (case src of
           None \<Rightarrow> (AGENT_ERR_OOM, b)
         | Some bytes \<Rightarrow>
             (if n > size_sub SIZE_MAX (blen b) then (AGENT_ERR_OOM, b)
              else
                (case buffer_grow h b (size_add (blen b) n) of
                   (AGENT_OK, b') \<Rightarrow>
                     (AGENT_OK, b'\<lparr>bdata := Some (write_at (slot_bytes (bdata b')) (blen b')
                                                    (take n bytes)),
                                  blen := blen b' + n\<rparr>)
                 | (err, b') \<Rightarrow> (err, b')))))"

definition buffer_clear :: "cbuffer \<Rightarrow> cbuffer" where
  "buffer_clear b = b\<lparr>blen := 0\<rparr>"

definition buffer_ok :: "cbuffer \<Rightarrow> bool" where
  "buffer_ok b \<longleftrightarrow>
     (case bdata b of
        None \<Rightarrow> blen b = 0 \<and> bcap b = 0
      | Some d \<Rightarrow> length d = bcap b \<and> blen b \<le> bcap b \<and> 0 < bcap b \<and> bcap b < SIZE_MAX)"

definition bytes_of :: "cbuffer \<Rightarrow> string" where
  "bytes_of b = take (blen b) (slot_bytes (bdata b))"

text \<open>\<open>buffer_append\<close> of a whole byte slice, the form every caller uses.\<close>

definition buffer_push :: "char allocator \<Rightarrow> cbuffer \<Rightarrow> string \<Rightarrow> agent_error \<times> cbuffer" where
  "buffer_push h b src = buffer_append h b (Some src) (length src)"

lemma buffer_ok_new [invar_intros]: "buffer_ok buffer_new" and bytes_of_new [simp]: "bytes_of buffer_new = []"
  by (simp_all add: buffer_ok_def buffer_new_def bytes_of_def slot_bytes_def)

lemma buffer_free_new [simp]: "buffer_free b = buffer_new"
  by (simp add: buffer_free_def buffer_new_def)

lemma length_bytes_of: "buffer_ok b \<Longrightarrow> length (bytes_of b) = blen b"
  by (auto simp: buffer_ok_def bytes_of_def slot_bytes_def split: option.splits)

lemma buffer_clear_ok [invar_intros]: "buffer_ok b \<Longrightarrow> buffer_ok (buffer_clear b)"
  and bytes_of_clear [simp]: "bytes_of (buffer_clear b) = []"
  by (auto simp: buffer_ok_def buffer_clear_def bytes_of_def split: option.splits)

lemma buffer_grow_fail: "buffer_grow h b n = (e, b') \<Longrightarrow> e \<noteq> AGENT_OK \<Longrightarrow> b' = b"
  by (auto simp: buffer_grow_def split: if_splits option.splits)

lemma buffer_grow_ok:
  assumes ok: "buffer_ok b" and eq: "buffer_grow h b n = (AGENT_OK, b')"
  shows "buffer_ok b'" and "n \<le> bcap b'" and "blen b' = blen b" and "bytes_of b' = bytes_of b"
    and "0 < n \<Longrightarrow> bdata b' \<noteq> None"
proof -
  let ?start = "if bcap b > 0 then bcap b else BUFFER_MIN_CAP"
  have "buffer_ok b' \<and> n \<le> bcap b' \<and> blen b' = blen b \<and> bytes_of b' = bytes_of b \<and>
        (0 < n \<longrightarrow> bdata b' \<noteq> None)"
  proof (cases "bcap b \<ge> n")
    case True
    with eq ok show ?thesis by (auto simp: buffer_grow_def buffer_ok_def split: option.splits)
  next
    case False
    with eq obtain c where c: "double_until ?start n = Some c"
      and b': "b' = b\<lparr>bdata := Some (realloc_slots h (slot_bytes (bdata b)) c), bcap := c\<rparr>"
      by (auto simp: buffer_grow_def split: if_splits option.splits)
    have pos: "0 < ?start" by (simp add: BUFFER_MIN_CAP_def)
    have ge: "n \<le> c" "?start \<le> c" using double_until_ge [OF c pos] by auto
    have lt: "c < SIZE_MAX"
      using double_until_bound [OF c] ok
      by (auto simp: buffer_ok_def BUFFER_MIN_CAP_def SIZE_MAX_eq split: option.splits)
    from ok b' ge lt pos show ?thesis
      by (auto simp: buffer_ok_def bytes_of_def slot_bytes_def take_realloc_slots split: option.splits)
  qed
  then show "buffer_ok b'" and "n \<le> bcap b'" and "blen b' = blen b" and "bytes_of b' = bytes_of b"
    and "0 < n \<Longrightarrow> bdata b' \<noteq> None"
    by auto
qed

lemma buffer_guard:
  assumes "buffer_ok b" and "\<not> n > size_sub SIZE_MAX (blen b)"
  shows "size_add (blen b) n = blen b + n"
proof -
  from assms(1) have lt: "blen b < SIZE_MAX"
    by (auto simp: buffer_ok_def SIZE_MAX_eq split: option.splits)
  then have "size_sub SIZE_MAX (blen b) = SIZE_MAX - blen b" by (simp add: size_simps)
  with assms(2) lt show ?thesis by (intro size_add_id) auto
qed

lemma buffer_push_fail: "buffer_push h b xs = (e, b') \<Longrightarrow> e \<noteq> AGENT_OK \<Longrightarrow> b' = b"
  by (auto simp: buffer_push_def buffer_append_def dest: buffer_grow_fail
      split: if_splits option.splits prod.splits agent_error.splits)

lemma buffer_push_ok:
  assumes ok: "buffer_ok b" and eq: "buffer_push h b xs = (AGENT_OK, b')"
  shows "buffer_ok b' \<and> bytes_of b' = bytes_of b @ xs"
proof (cases "xs = []")
  case True
  with eq ok show ?thesis by (simp add: buffer_push_def buffer_append_def)
next
  case False
  with eq have g: "\<not> length xs > size_sub SIZE_MAX (blen b)"
    by (auto simp: buffer_push_def buffer_append_def split: if_splits)
  from False g eq obtain b1 where gr: "buffer_grow h b (blen b + length xs) = (AGENT_OK, b1)"
    and b': "b' = b1\<lparr>bdata := Some (write_at (slot_bytes (bdata b1)) (blen b1) xs),
                     blen := blen b1 + length xs\<rparr>"
    by (auto simp: buffer_push_def buffer_append_def buffer_guard [OF ok g]
        split: prod.splits agent_error.splits)
  note gok = buffer_grow_ok [OF ok gr]
  from gok(5) False obtain d where d: "bdata b1 = Some d" by auto
  with gok(1-3) have dl: "length d = bcap b1" "blen b1 + length xs \<le> bcap b1"
    by (auto simp: buffer_ok_def)
  have "take (blen b1 + length xs) (write_at d (blen b1) xs) = take (blen b1) d @ xs"
    using dl take_write_at [of "blen b1" xs d "length xs"] by simp
  moreover have "take (blen b1) d = bytes_of b"
    using gok(4) d by (simp add: bytes_of_def slot_bytes_def)
  ultimately show ?thesis using b' d dl gok(1)
    by (auto simp: buffer_ok_def bytes_of_def slot_bytes_def)
qed

interpretation buf: byte_sink buffer_push bytes_of buffer_ok
proof unfold_locales
  fix h b xs e b'
  assume "buffer_ok b" and "buffer_push h b xs = (e, b')"
  then show "buffer_ok b'"
    using buffer_push_ok [of b h xs b'] buffer_push_fail [of h b xs e b'] by (cases "e = AGENT_OK") auto
qed (use buffer_push_ok buffer_push_fail in blast)+

text \<open>However a byte stream is cut into chunks, a buffer that accepts them all holds
  their concatenation after its old contents, and one that fails holds a prefix of it.\<close>

theorem buffer_chunks_concat:
  assumes "buffer_ok b" and "append_chunks buffer_push b cs = (e, b')"
  shows "buffer_ok b' \<and>
         (if e = AGENT_OK then bytes_of b' = bytes_of b @ concat (map snd cs)
          else \<exists>k \<le> length cs. bytes_of b' = bytes_of b @ concat (map snd (take k cs)))"
  using buf.chunks_invar [OF assms] buf.chunks_prefix [OF assms] buf.chunks_contents [OF assms(1)] assms(2)
  by auto

theorem buffer_chunks_concat_witness:
  "\<exists>e b'. append_chunks buffer_push buffer_new
            [(\<lparr>grants = (\<lambda>_. True), junk = (\<lambda>_. CHR ''z'')\<rparr>, ''ab''), (\<lparr>grants = (\<lambda>_. False), junk = (\<lambda>_. CHR ''z'')\<rparr>, ''c'')]
          = (e, b') \<and> bytes_of b' = ''abc''"
proof -
  let ?cs = "[(\<lparr>grants = (\<lambda>_::nat. True), junk = (\<lambda>_::nat. CHR ''z'')\<rparr>, ''ab''),
              (\<lparr>grants = (\<lambda>_. False), junk = (\<lambda>_. CHR ''z'')\<rparr>, ''c'')]"
  obtain b' where r: "append_chunks buffer_push buffer_new ?cs = (AGENT_OK, b')"
    by (simp add: buffer_push_def buffer_append_def buffer_new_def buffer_grow_def
        BUFFER_MIN_CAP_def double_until.simps SIZE_MAX_eq size_sub_def size_add_def)
  with buffer_chunks_concat [OF buffer_ok_new r] show ?thesis by simp
qed

end
