(* ===== verification/Vector.thy ===== *)
theory Vector
  imports Prelude
begin

text \<open>
  The generic dynamic array of \<open>src/src/util/vector.c\<close>.  A vector keeps its allocated slots
  (\<open>vcap\<close> of them, those past \<open>vlen\<close> holding leftovers or allocator junk); \<open>elems\<close> reads
  the live elements.  The locale \<open>sequence_store\<close> is what clients rely on: a list with push,
  indexed read, pop and clear, where a failed push changes nothing.
\<close>

section \<open>The contract of a sequence\<close>

locale sequence_store =
  fixes push :: "'h \<Rightarrow> 's \<Rightarrow> 'a \<Rightarrow> nat option \<times> 's"
    and at :: "'s \<Rightarrow> nat \<Rightarrow> 'a option"
    and pop :: "'s \<Rightarrow> 's"
    and seq_of :: "'s \<Rightarrow> 'a list"
    and invar :: "'s \<Rightarrow> bool"
  assumes push_some: "invar s \<Longrightarrow> push h s x = (Some i, s') \<Longrightarrow> i = length (seq_of s) \<and> seq_of s' = seq_of s @ [x]"
    and push_none: "invar s \<Longrightarrow> push h s x = (None, s') \<Longrightarrow> s' = s"
    and push_invar: "invar s \<Longrightarrow> push h s x = (r, s') \<Longrightarrow> invar s'"
    and at_seq: "invar s \<Longrightarrow> at s i = (if i < length (seq_of s) then Some (seq_of s ! i) else None)"
    and pop_seq: "invar s \<Longrightarrow> seq_of (pop s) = butlast (seq_of s)"
    and pop_invar: "invar s \<Longrightarrow> invar (pop s)"
begin

lemma push_at_new: "invar s \<Longrightarrow> push h s x = (Some i, s') \<Longrightarrow> at s' i = Some x"
  using push_some push_invar at_seq by (metis length_append_singleton lessI nth_append_length)

lemma push_at_old:
  assumes "invar s" and "push h s x = (Some i, s')" and "at s j = Some y"
  shows "at s' j = Some y"
proof -
  have "seq_of s' = seq_of s @ [x]" and "invar s'"
    using assms push_some push_invar by blast+
  moreover have "j < length (seq_of s)" and "seq_of s ! j = y"
    using assms at_seq by (auto split: if_splits)
  ultimately show ?thesis by (simp add: at_seq nth_append)
qed

lemma push_pop: "invar s \<Longrightarrow> push h s x = (Some i, s') \<Longrightarrow> seq_of (pop s') = seq_of s"
  using push_some push_invar pop_seq by (metis butlast_snoc)

end

section \<open>Vector\<close>

record 'a cvector =
  vslots :: "'a list option"
  vlen :: nat
  vcap :: nat
  velem_size :: nat

definition VECTOR_MIN_CAP :: nat where
  "VECTOR_MIN_CAP = 8"

definition vector_new :: "nat \<Rightarrow> 'a cvector" where
  "vector_new esz = \<lparr>vslots = None, vlen = 0, vcap = 0, velem_size = esz\<rparr>"

definition vector_free :: "'a cvector \<Rightarrow> 'a cvector" where
  "vector_free v = v\<lparr>vslots := None, vlen := 0, vcap := 0\<rparr>"

definition slot_list :: "'a list option \<Rightarrow> 'a list" where
  "slot_list d = (case d of None \<Rightarrow> [] | Some xs \<Rightarrow> xs)"

definition vector_grow :: "'a allocator \<Rightarrow> 'a cvector \<Rightarrow> nat \<Rightarrow> agent_error \<times> 'a cvector" where
  "vector_grow h v need =
     (if vcap v \<ge> need then (AGENT_OK, v)
      else
        (case double_until (if vcap v > 0 then vcap v else VECTOR_MIN_CAP) need of
           None \<Rightarrow> (AGENT_ERR_OOM, v)
         | Some new_cap \<Rightarrow>
             (if new_cap > SIZE_MAX div velem_size v then (AGENT_ERR_OOM, v)
              else if grants h (size_mul new_cap (velem_size v)) then
                (AGENT_OK, v\<lparr>vslots := Some (realloc_slots h (slot_list (vslots v)) new_cap),
                             vcap := new_cap\<rparr>)
              else (AGENT_ERR_OOM, v))))"

definition vector_reserve :: "'a allocator \<Rightarrow> 'a cvector \<Rightarrow> nat \<Rightarrow> agent_error \<times> 'a cvector" where
  "vector_reserve h v extra =
     (if extra > size_sub SIZE_MAX (vlen v) then (AGENT_ERR_OOM, v)
      else vector_grow h v (size_add (vlen v) extra))"

text \<open>The result of \<open>vector_push\<close> is the index of the stored copy, or \<open>None\<close> for NULL.\<close>

definition vector_push :: "'a allocator \<Rightarrow> 'a cvector \<Rightarrow> 'a option \<Rightarrow> nat option \<times> 'a cvector" where
  "vector_push h v elem =
     (case elem of
        None \<Rightarrow> (None, v)
      | Some x \<Rightarrow>
          (case vector_grow h v (size_add (vlen v) 1) of
             (AGENT_OK, v') \<Rightarrow>
               (Some (vlen v'), v'\<lparr>vslots := Some ((slot_list (vslots v'))[vlen v' := x]),
                                   vlen := vlen v' + 1\<rparr>)
           | (err, v') \<Rightarrow> (None, v')))"

definition vector_at :: "'a cvector option \<Rightarrow> nat \<Rightarrow> 'a option" where
  "vector_at v index =
     (case v of
        None \<Rightarrow> None
      | Some w \<Rightarrow> if index \<ge> vlen w then None else Some (slot_list (vslots w) ! index))"

definition vector_data :: "'a cvector option \<Rightarrow> 'a list option" where
  "vector_data v = (case v of None \<Rightarrow> None | Some w \<Rightarrow> vslots w)"

definition vector_len :: "'a cvector option \<Rightarrow> nat" where
  "vector_len v = (case v of None \<Rightarrow> 0 | Some w \<Rightarrow> vlen w)"

definition vector_elem_size :: "'a cvector option \<Rightarrow> nat" where
  "vector_elem_size v = (case v of None \<Rightarrow> 0 | Some w \<Rightarrow> velem_size w)"

definition vector_pop :: "'a cvector \<Rightarrow> 'a cvector" where
  "vector_pop v = (if vlen v > 0 then v\<lparr>vlen := vlen v - 1\<rparr> else v)"

definition vector_clear :: "'a cvector \<Rightarrow> 'a cvector" where
  "vector_clear v = v\<lparr>vlen := 0\<rparr>"

definition vector_ok :: "'a cvector \<Rightarrow> bool" where
  "vector_ok v \<longleftrightarrow> 0 < velem_size v \<and>
     (case vslots v of
        None \<Rightarrow> vlen v = 0 \<and> vcap v = 0
      | Some d \<Rightarrow> length d = vcap v \<and> vlen v \<le> vcap v \<and> 0 < vcap v \<and> vcap v < SIZE_MAX
                  \<and> vcap v * velem_size v \<le> SIZE_MAX)"

definition elems :: "'a cvector \<Rightarrow> 'a list" where
  "elems v = take (vlen v) (slot_list (vslots v))"

lemma vector_ok_new [invar_intros]: "0 < esz \<Longrightarrow> vector_ok (vector_new esz)"
  and elems_new [simp]: "elems (vector_new esz) = []"
  by (simp_all add: vector_ok_def vector_new_def elems_def)

lemma length_elems: "vector_ok v \<Longrightarrow> length (elems v) = vlen v"
  by (auto simp: vector_ok_def elems_def slot_list_def split: option.splits)

lemma vector_len_elems: "vector_ok v \<Longrightarrow> vector_len (Some v) = length (elems v)"
  by (simp add: vector_len_def length_elems)

lemma vector_pop_ok [invar_intros]: "vector_ok v \<Longrightarrow> vector_ok (vector_pop v)"
  and vector_clear_ok [invar_intros]: "vector_ok v \<Longrightarrow> vector_ok (vector_clear v)"
  and vector_free_ok [invar_intros]: "vector_ok v \<Longrightarrow> vector_ok (vector_free v)"
  by (auto simp: vector_ok_def vector_pop_def vector_clear_def vector_free_def split: option.splits)

lemma elems_clear [simp]: "elems (vector_clear v) = []" and elems_free [simp]: "elems (vector_free v) = []"
  by (simp_all add: elems_def vector_clear_def vector_free_def)

lemma elems_pop: "vector_ok v \<Longrightarrow> elems (vector_pop v) = butlast (elems v)"
  by (auto simp: vector_ok_def elems_def vector_pop_def slot_list_def butlast_take
      split: option.splits)

lemma vector_grow_fail: "vector_grow h v n = (e, v') \<Longrightarrow> e \<noteq> AGENT_OK \<Longrightarrow> v' = v"
  by (auto simp: vector_grow_def split: if_splits option.splits)

lemma vector_grow_ok:
  assumes ok: "vector_ok v" and eq: "vector_grow h v n = (AGENT_OK, v')"
  shows "vector_ok v'" and "n \<le> vcap v'" and "vlen v' = vlen v" and "elems v' = elems v"
    and "0 < n \<Longrightarrow> vslots v' \<noteq> None" and "velem_size v' = velem_size v"
proof -
  let ?start = "if vcap v > 0 then vcap v else VECTOR_MIN_CAP"
  have "vector_ok v' \<and> n \<le> vcap v' \<and> vlen v' = vlen v \<and> elems v' = elems v \<and>
        (0 < n \<longrightarrow> vslots v' \<noteq> None) \<and> velem_size v' = velem_size v"
  proof (cases "vcap v \<ge> n")
    case True
    with eq ok show ?thesis by (auto simp: vector_grow_def vector_ok_def split: option.splits)
  next
    case False
    with eq obtain c where c: "double_until ?start n = Some c"
      and fits: "\<not> c > SIZE_MAX div velem_size v"
      and v': "v' = v\<lparr>vslots := Some (realloc_slots h (slot_list (vslots v)) c), vcap := c\<rparr>"
      by (auto simp: vector_grow_def split: if_splits option.splits)
    have pos: "0 < ?start" by (simp add: VECTOR_MIN_CAP_def)
    have ge: "n \<le> c" "?start \<le> c" using double_until_ge [OF c pos] by auto
    have lt: "c < SIZE_MAX"
      using double_until_bound [OF c] ok
      by (auto simp: vector_ok_def VECTOR_MIN_CAP_def SIZE_MAX_eq split: option.splits)
    have "c * velem_size v \<le> SIZE_MAX"
      using fits ok by (simp add: vector_ok_def less_eq_div_iff_mult_less_eq not_less)
    with ok v' ge lt pos show ?thesis
      by (auto simp: vector_ok_def elems_def slot_list_def take_realloc_slots split: option.splits)
  qed
  then show "vector_ok v'" and "n \<le> vcap v'" and "vlen v' = vlen v" and "elems v' = elems v"
    and "0 < n \<Longrightarrow> vslots v' \<noteq> None" and "velem_size v' = velem_size v"
    by auto
qed

lemma vector_push_fail: "vector_push h v x = (None, v') \<Longrightarrow> v' = v"
  by (auto simp: vector_push_def dest: vector_grow_fail
      split: option.splits prod.splits agent_error.splits)

lemma vector_push_ok:
  assumes ok: "vector_ok v" and eq: "vector_push h v (Some x) = (Some i, v')"
  shows "vector_ok v' \<and> i = length (elems v) \<and> elems v' = elems v @ [x]"
proof -
  have "vlen v + 1 \<le> SIZE_MAX" using ok by (auto simp: vector_ok_def SIZE_MAX_eq split: option.splits)
  with eq obtain v1 where gr: "vector_grow h v (vlen v + 1) = (AGENT_OK, v1)" and i: "i = vlen v1"
    and v': "v' = v1\<lparr>vslots := Some ((slot_list (vslots v1))[vlen v1 := x]), vlen := vlen v1 + 1\<rparr>"
    by (auto simp: vector_push_def size_simps split: prod.splits agent_error.splits)
  note gok = vector_grow_ok [OF ok gr]
  from gok(5) obtain d where d: "vslots v1 = Some d" by auto
  with gok(1-3) have dl: "length d = vcap v1" "vlen v1 < vcap v1" by (auto simp: vector_ok_def)
  have "take (vlen v1 + 1) (d[vlen v1 := x]) = take (vlen v1) d @ [x]"
    using dl by (simp add: take_Suc_conv_app_nth)
  moreover have "take (vlen v1) d = elems v" using gok(4) d by (simp add: elems_def slot_list_def)
  ultimately show ?thesis using v' i d dl gok(1,3) length_elems [OF ok]
    by (auto simp: vector_ok_def elems_def slot_list_def)
qed

interpretation vec: sequence_store
  "\<lambda>h v x. vector_push h v (Some x)" "\<lambda>v. vector_at (Some v)" vector_pop elems vector_ok
proof unfold_locales
  fix v :: "'a cvector" and i
  assume "vector_ok v"
  then show "vector_at (Some v) i = (if i < length (elems v) then Some (elems v ! i) else None)"
    using length_elems [of v] by (simp add: vector_at_def elems_def)
next
  fix v h x r v'
  assume "vector_ok (v :: 'a cvector)" and "vector_push h v (Some x) = (r, v')"
  then show "vector_ok v'"
    using vector_push_ok [of v h x _ v'] vector_push_fail [of h v "Some x" v'] by (cases r) auto
qed (simp_all add: vector_push_fail vector_push_ok elems_pop vector_pop_ok)

text \<open>Pushing onto a vector stores the element at the old length and keeps every earlier
  element readable at its index; a push that fails leaves the vector unchanged.\<close>

theorem vector_push_spec:
  assumes "vector_ok v" and "vector_push h v (Some x) = (r, v')"
  shows "case r of
           None \<Rightarrow> v' = v
         | Some i \<Rightarrow> vector_ok v' \<and> i = vector_len (Some v) \<and> vector_at (Some v') i = Some x \<and>
                     (\<forall>j < i. vector_at (Some v') j = vector_at (Some v) j)"
proof (cases r)
  case None
  with assms show ?thesis by (simp add: vec.push_none)
next
  case (Some i)
  with assms have p: "vector_push h v (Some x) = (Some i, v')" by simp
  have i: "i = length (elems v)" using vec.push_some [OF assms(1) p] by simp
  have "vector_at (Some v') j = vector_at (Some v) j" if "j < i" for j
    using vec.push_at_old [OF assms(1) p] vec.at_seq [OF assms(1)] that i by simp
  with Some i show ?thesis
    using vec.push_invar [OF assms(1) p] vec.push_at_new [OF assms(1) p]
    by (simp add: vector_len_elems [OF assms(1)])
qed

theorem vector_push_spec_witness:
  "\<exists>v'. vector_push \<lparr>grants = (\<lambda>_. True), junk = (\<lambda>_. 0)\<rparr> (vector_new 4) (Some (7::nat)) = (Some 0, v') \<and>
        vector_at (Some v') 0 = Some 7"
proof -
  let ?h = "\<lparr>grants = (\<lambda>_::nat. True), junk = (\<lambda>_::nat. 0::nat)\<rparr>"
  obtain v' where p: "vector_push ?h (vector_new 4) (Some 7) = (Some 0, v')"
    by (simp add: vector_push_def vector_new_def vector_grow_def VECTOR_MIN_CAP_def
        double_until.simps SIZE_MAX_eq size_add_def)
  have ok: "vector_ok (vector_new 4 :: nat cvector)" by (rule vector_ok_new) simp
  from vector_push_spec [OF ok p] p show ?thesis by simp
qed

end
