(* ===== verification/Hash_Map.thy ===== *)
theory Hash_Map
  imports Prelude
begin

text \<open>
  The string-keyed chained hash map of \<open>src/src/util/hashmap.c\<close>: FNV-1a hashing on 64-bit
  words, growth at a load above 75 percent, chains that grow at the head.  A chain is the list
  of its entries in link order; a stored \<open>void*\<close> value is an option, \<open>None\<close> being the NULL
  pointer.  The locale \<open>keyed_store\<close> is the finite-map contract of \<open>hashmap.h\<close>.
\<close>

unbundle bit_operations_syntax

section \<open>The contract of a keyed store\<close>

locale keyed_store =
  fixes put :: "'h \<Rightarrow> 'm \<Rightarrow> string \<Rightarrow> 'v \<Rightarrow> agent_error \<times> 'm"
    and del :: "'m \<Rightarrow> string \<Rightarrow> agent_error \<times> 'm"
    and view :: "'m \<Rightarrow> string \<Rightarrow> 'v option"
    and invar :: "'m \<Rightarrow> bool"
    and room :: "'m \<Rightarrow> bool"  \<comment> \<open>below the size at which its counters could wrap\<close>
  assumes put_ok: "invar m \<Longrightarrow> room m \<Longrightarrow> put h m k v = (AGENT_OK, m') \<Longrightarrow> view m' = (view m)(k \<mapsto> v)"
    and put_fail: "invar m \<Longrightarrow> room m \<Longrightarrow> put h m k v = (e, m') \<Longrightarrow> e \<noteq> AGENT_OK \<Longrightarrow> view m' = view m"
    and put_invar: "invar m \<Longrightarrow> room m \<Longrightarrow> put h m k v = (e, m') \<Longrightarrow> invar m'"
    and del_view: "invar m \<Longrightarrow> del m k = (e, m') \<Longrightarrow> view m' = (view m)(k := None)"
    and del_code: "invar m \<Longrightarrow> del m k = (e, m') \<Longrightarrow> e = AGENT_OK \<longleftrightarrow> view m k \<noteq> None"
    and del_invar: "invar m \<Longrightarrow> del m k = (e, m') \<Longrightarrow> invar m'"
begin

lemma put_other:
  "invar m \<Longrightarrow> room m \<Longrightarrow> put h m k v = (e, m') \<Longrightarrow> k' \<noteq> k \<Longrightarrow> view m' k' = view m k'"
  using put_ok [of m h k v m'] put_fail [of m h k v e m'] by (cases "e = AGENT_OK") auto

lemma put_dom:
  "invar m \<Longrightarrow> room m \<Longrightarrow> put h m k v = (AGENT_OK, m') \<Longrightarrow>
   dom (view m') = insert k (dom (view m))"
  by (simp add: put_ok)

lemma put_then_del:
  assumes "invar m" and "room m" and "put h m k v = (AGENT_OK, m1)" and "del m1 k = (e, m2)"
  shows "e = AGENT_OK" and "view m2 = (view m)(k := None)"
proof -
  have inv: "invar m1" using put_invar assms(1-3) by blast
  have v: "view m1 = (view m)(k \<mapsto> v)" using put_ok assms(1-3) by blast
  show "e = AGENT_OK" using del_code [OF inv assms(4)] v by simp
  show "view m2 = (view m)(k := None)" using del_view [OF inv assms(4)] v by simp
qed

end

section \<open>Hash and chains\<close>

definition HASHMAP_MIN_BUCKETS :: nat where
  "HASHMAP_MIN_BUCKETS = 16"

definition HASHMAP_MAX_LOAD :: nat where
  "HASHMAP_MAX_LOAD = 75"

type_synonym 'v hm_entry = "string \<times> 'v option"

record 'v hashmap =
  buckets :: "'v hm_entry list list"
  n_buckets :: nat
  n_entries :: nat

definition hash_fnv1a :: "string \<Rightarrow> 64 word" where
  "hash_fnv1a s = foldl (\<lambda>h c. (h XOR of_char c) * 1099511628211) 14695981039346656037 s"

definition slot_index :: "nat \<Rightarrow> string \<Rightarrow> nat" where
  "slot_index n key = unat (hash_fnv1a key) mod n"

definition hashmap_new :: "bool \<Rightarrow> bool \<Rightarrow> 'v hashmap option" where
  "hashmap_new ok_map ok_buckets =
     (if \<not> ok_map then None
      else if \<not> ok_buckets then None
      else Some \<lparr>buckets = replicate HASHMAP_MIN_BUCKETS [], n_buckets = HASHMAP_MIN_BUCKETS,
                 n_entries = 0\<rparr>)"

fun chain_replace :: "string \<Rightarrow> 'v option \<Rightarrow> 'v hm_entry list \<Rightarrow> ('v option \<times> 'v hm_entry list) option" where
  "chain_replace key v [] = None"
| "chain_replace key v ((k, old) # es) =
     (if k = key then Some (old, (k, v) # es)
      else map_option (\<lambda>(o1, es'). (o1, (k, old) # es')) (chain_replace key v es))"

fun chain_remove :: "string \<Rightarrow> 'v hm_entry list \<Rightarrow> ('v option \<times> 'v hm_entry list) option" where
  "chain_remove key [] = None"
| "chain_remove key ((k, old) # es) =
     (if k = key then Some (old, es)
      else map_option (\<lambda>(o1, es'). (o1, (k, old) # es')) (chain_remove key es))"

fun move_entry :: "nat \<Rightarrow> 'v hm_entry list list \<Rightarrow> 'v hm_entry \<Rightarrow> 'v hm_entry list list" where
  "move_entry new_n nb (k, v) = nb[slot_index new_n k := (k, v) # nb ! slot_index new_n k]"

definition hashmap_rehash :: "bool \<Rightarrow> 'v hashmap \<Rightarrow> agent_error \<times> 'v hashmap" where
  "hashmap_rehash ok m =
     (let new_n = size_mul (n_buckets m) 2 in
      if \<not> ok then (AGENT_ERR_OOM, m)
      else (AGENT_OK,
            m\<lparr>buckets := foldl (foldl (move_entry new_n)) (replicate new_n []) (buckets m),
              n_buckets := new_n\<rparr>))"

text \<open>
  The allocations of one \<open>hashmap_put\<close>: the new bucket array, the entry, the key copy.  The
  results are the code, the old value reported through \<open>old_value_out\<close>, and the map.
\<close>

record put_allocs =
  ok_rehash :: bool
  ok_entry :: bool
  ok_key :: bool

definition put_in ::
  "put_allocs \<Rightarrow> 'v hashmap \<Rightarrow> string \<Rightarrow> 'v option \<Rightarrow> agent_error \<times> 'v option \<times> 'v hashmap" where
  "put_in h m key value =
     (let idx = slot_index (n_buckets m) key in
      case chain_replace key value (buckets m ! idx) of
        Some (old, chain) \<Rightarrow> (AGENT_OK, old, m\<lparr>buckets := (buckets m)[idx := chain]\<rparr>)
      | None \<Rightarrow>
          (let (err, m1) =
             (if size_mul (size_add (n_entries m) 1) 100 div n_buckets m > HASHMAP_MAX_LOAD
              then hashmap_rehash (ok_rehash h) m else (AGENT_OK, m)) in
           if err \<noteq> AGENT_OK then (err, None, m1)
           else if \<not> ok_entry h then (AGENT_ERR_OOM, None, m1)
           else if \<not> ok_key h then (AGENT_ERR_OOM, None, m1)
           else
             (let idx1 = slot_index (n_buckets m1) key in
              (AGENT_OK, None,
               m1\<lparr>buckets := (buckets m1)[idx1 := (key, value) # buckets m1 ! idx1],
                  n_entries := size_add (n_entries m1) 1\<rparr>))))"

definition hashmap_put ::
  "put_allocs \<Rightarrow> 'v hashmap option \<Rightarrow> string option \<Rightarrow> 'v option
     \<Rightarrow> agent_error \<times> 'v option \<times> 'v hashmap option" where
  "hashmap_put h mo ko value =
     (case (mo, ko) of
        (Some m, Some key) \<Rightarrow> (case put_in h m key value of (e, old, m') \<Rightarrow> (e, old, Some m'))
      | _ \<Rightarrow> (AGENT_ERR_OOM, None, mo))"

definition hashmap_get :: "'v hashmap option \<Rightarrow> string option \<Rightarrow> 'v option" where
  "hashmap_get mo ko =
     (case (mo, ko) of
        (Some m, Some key) \<Rightarrow>
          (case map_of (buckets m ! slot_index (n_buckets m) key) key of
             Some v \<Rightarrow> v
           | None \<Rightarrow> None)
      | _ \<Rightarrow> None)"

definition hashmap_contains :: "'v hashmap option \<Rightarrow> string option \<Rightarrow> bool" where
  "hashmap_contains mo ko \<longleftrightarrow> hashmap_get mo ko \<noteq> None"

definition remove_in :: "'v hashmap \<Rightarrow> string \<Rightarrow> agent_error \<times> 'v option \<times> 'v hashmap" where
  "remove_in m key =
     (let idx = slot_index (n_buckets m) key in
      case chain_remove key (buckets m ! idx) of
        Some (old, chain) \<Rightarrow>
          (AGENT_OK, old, m\<lparr>buckets := (buckets m)[idx := chain],
                           n_entries := size_sub (n_entries m) 1\<rparr>)
      | None \<Rightarrow> (AGENT_ERR_IO, None, m))"

definition hashmap_remove ::
  "'v hashmap option \<Rightarrow> string option \<Rightarrow> agent_error \<times> 'v option \<times> 'v hashmap option" where
  "hashmap_remove mo ko =
     (case (mo, ko) of
        (Some m, Some key) \<Rightarrow> (case remove_in m key of (e, old, m') \<Rightarrow> (e, old, Some m'))
      | _ \<Rightarrow> (AGENT_ERR_IO, None, mo))"

definition hashmap_len :: "'v hashmap option \<Rightarrow> nat" where
  "hashmap_len mo = (case mo of None \<Rightarrow> 0 | Some m \<Rightarrow> n_entries m)"

section \<open>Iteration\<close>

text \<open>
  An iterator is the bucket it stands in and the rest of that chain, the current entry first;
  the empty rest is the exhausted iterator (its \<open>key\<close> is NULL).
\<close>

record 'v hm_iter =
  bucket_index :: nat
  chain_rest :: "'v hm_entry list"

fun seek_bucket :: "nat \<Rightarrow> 'v hm_entry list list \<Rightarrow> 'v hm_iter" where
  "seek_bucket i [] = \<lparr>bucket_index = 0, chain_rest = []\<rparr>"
| "seek_bucket i (c # cs) =
     (if c \<noteq> [] then \<lparr>bucket_index = i, chain_rest = c\<rparr> else seek_bucket (Suc i) cs)"

definition hashmap_iter_first :: "'v hashmap \<Rightarrow> 'v hm_iter" where
  "hashmap_iter_first m = seek_bucket 0 (take (n_buckets m) (buckets m))"

definition hashmap_iter_next :: "'v hashmap \<Rightarrow> 'v hm_iter \<Rightarrow> 'v hm_iter" where
  "hashmap_iter_next m it =
     (case chain_rest it of
        e # e' # es \<Rightarrow> \<lparr>bucket_index = bucket_index it, chain_rest = e' # es\<rparr>
      | _ \<Rightarrow> seek_bucket (Suc (bucket_index it))
               (drop (Suc (bucket_index it)) (take (n_buckets m) (buckets m))))"

definition iter_remaining :: "'v hashmap \<Rightarrow> 'v hm_iter \<Rightarrow> 'v hm_entry list" where
  "iter_remaining m it =
     chain_rest it @ concat (drop (Suc (bucket_index it)) (take (n_buckets m) (buckets m)))"

lemma seek_bucket_spec:
  "chain_rest (seek_bucket i cs) = [] \<and> concat cs = [] \<or>
   (\<exists>k. bucket_index (seek_bucket i cs) = i + k \<and> chain_rest (seek_bucket i cs) \<noteq> [] \<and>
        concat cs = chain_rest (seek_bucket i cs) @ concat (drop (Suc k) cs))"
proof (induction cs arbitrary: i)
  case (Cons c cs)
  show ?case
  proof (cases "c = []")
    case True
    with Cons.IH [of "Suc i"] show ?thesis by (auto intro: exI [of _ "Suc _"])
  next
    case False
    then show ?thesis by (auto intro: exI [of _ 0])
  qed
qed simp

lemma iter_next_remaining:
  assumes "chain_rest it \<noteq> []"
  shows "chain_rest (hashmap_iter_next m it) = [] \<and> tl (iter_remaining m it) = [] \<or>
         chain_rest (hashmap_iter_next m it) \<noteq> [] \<and>
         iter_remaining m (hashmap_iter_next m it) = tl (iter_remaining m it)"
proof (cases "tl (chain_rest it)")
  case Nil
  with assms obtain e where e: "chain_rest it = [e]" by (cases "chain_rest it") auto
  show ?thesis
    using seek_bucket_spec [of "Suc (bucket_index it)"
        "drop (Suc (bucket_index it)) (take (n_buckets m) (buckets m))"] e
    by (auto simp: hashmap_iter_next_def iter_remaining_def add.commute)
next
  case (Cons e' es)
  with assms obtain e where e: "chain_rest it = e # e' # es" by (cases "chain_rest it") auto
  then show ?thesis by (simp add: hashmap_iter_next_def iter_remaining_def)
qed

text \<open>The loop of \<open>hashmap.h\<close>: \<open>while (it.key != NULL) { ...; it = hashmap_iter_next(&it); }\<close>\<close>

function iter_collect :: "'v hashmap \<Rightarrow> 'v hm_iter \<Rightarrow> 'v hm_entry list" where
  "iter_collect m it =
     (case chain_rest it of
        [] \<Rightarrow> []
      | e # es \<Rightarrow> e # iter_collect m (hashmap_iter_next m it))"
  by pat_completeness auto
termination
proof (relation "measure (\<lambda>(m, it). if chain_rest it = [] then 0 else length (iter_remaining m it))")
  fix m :: "'a hashmap" and it :: "'a hm_iter" and e es
  assume c: "chain_rest it = e # es"
  then have "iter_remaining m it \<noteq> []" by (simp add: iter_remaining_def)
  then have "length (tl (iter_remaining m it)) < length (iter_remaining m it)"
    by (cases "iter_remaining m it") auto
  with iter_next_remaining [of it m] c
  show "((m, hashmap_iter_next m it), m, it)
        \<in> measure (\<lambda>(m, it). if chain_rest it = [] then 0 else length (iter_remaining m it))"
    by auto
qed simp

declare iter_collect.simps [simp del]

lemma iter_collect_remaining:
  "chain_rest it \<noteq> [] \<Longrightarrow> iter_collect m it = iter_remaining m it"
proof (induction m it rule: iter_collect.induct)
  case (1 m it)
  then obtain e es where c: "chain_rest it = e # es" by (cases "chain_rest it") auto
  then have hd: "iter_remaining m it = e # tl (iter_remaining m it)"
    by (simp add: iter_remaining_def)
  from iter_next_remaining [OF "1.prems", of m] "1.IH" [OF c]
  have "iter_collect m (hashmap_iter_next m it) = tl (iter_remaining m it)"
    by (auto simp: iter_collect.simps [of m "hashmap_iter_next m it"])
  with c hd show ?case by (simp add: iter_collect.simps [of m it])
qed

section \<open>Well-formedness and the abstract map\<close>

definition hm_ok :: "'v hashmap \<Rightarrow> bool" where
  "hm_ok m \<longleftrightarrow>
     length (buckets m) = n_buckets m \<and> HASHMAP_MIN_BUCKETS \<le> n_buckets m \<and> n_buckets m \<le> 2 ^ 56 \<and>
     (\<forall>i < n_buckets m. \<forall>e \<in> set (buckets m ! i). slot_index (n_buckets m) (fst e) = i) \<and>
     (\<forall>i < n_buckets m. distinct (map fst (buckets m ! i))) \<and>
     n_entries m = length (concat (buckets m)) \<and>
     n_entries m * 100 div n_buckets m \<le> HASHMAP_MAX_LOAD"

text \<open>Room for one more doubling: the only bound a put needs on the size of the map.\<close>

definition hm_small :: "'v hashmap \<Rightarrow> bool" where
  "hm_small m \<longleftrightarrow> n_buckets m \<le> 2 ^ 55"

definition hm_view :: "'v hashmap \<Rightarrow> string \<Rightarrow> 'v option option" where
  "hm_view m key = map_of (buckets m ! slot_index (n_buckets m) key) key"

lemma hm_ok_pos: "hm_ok m \<Longrightarrow> 0 < n_buckets m"
  by (simp add: hm_ok_def HASHMAP_MIN_BUCKETS_def)

lemma slot_index_less [simp]: "0 < n \<Longrightarrow> slot_index n key < n"
  by (simp add: slot_index_def)

lemma chain_replace_None: "chain_replace key v c = None \<longleftrightarrow> key \<notin> fst ` set c"
  by (induction key v c rule: chain_replace.induct) (auto split: if_splits)

lemma chain_replace_Some:
  assumes "chain_replace key v c = Some (old, c')"
  shows "map fst c' = map fst c" and "map_of c key = Some old"
    and "map_of c' = (map_of c)(key \<mapsto> v)" and "length c' = length c"
proof -
  have "map fst c' = map fst c \<and> map_of c key = Some old \<and> map_of c' = (map_of c)(key \<mapsto> v) \<and>
        length c' = length c"
    using assms
    by (induction c arbitrary: c') (auto split: if_splits simp: fun_eq_iff)
  then show "map fst c' = map fst c" "map_of c key = Some old" "map_of c' = (map_of c)(key \<mapsto> v)"
    "length c' = length c" by auto
qed

lemma chain_remove_None: "chain_remove key c = None \<longleftrightarrow> key \<notin> fst ` set c"
  by (induction key c rule: chain_remove.induct) (auto split: if_splits)

lemma chain_remove_Some:
  assumes "chain_remove key c = Some (old, c')" and "distinct (map fst c)"
  shows "map_of c key = Some old" and "map_of c' = (map_of c)(key := None)"
    and "distinct (map fst c')" and "set c' \<subseteq> set c" and "length c = Suc (length c')"
proof -
  have "map_of c key = Some old \<and> map_of c' = (map_of c)(key := None) \<and> distinct (map fst c') \<and>
        set c' \<subseteq> set c \<and> length c = Suc (length c')"
    using assms
  proof (induction c arbitrary: c')
    case (Cons e es)
    obtain k v where e: "e = (k, v)" by (cases e)
    show ?case
    proof (cases "k = key")
      case True
      with Cons.prems e have "map_of es key = None" by (auto simp: map_of_eq_None_iff)
      with True Cons.prems e show ?thesis by (auto simp: fun_eq_iff)
    next
      case False
      with Cons.prems(1) e obtain es' where r: "chain_remove key es = Some (old, es')"
        and c': "c' = (k, v) # es'" by auto
      with Cons.IH [OF r] Cons.prems(2) e have ih:
        "map_of es key = Some old" "map_of es' = (map_of es)(key := None)"
        "distinct (map fst es')" "set es' \<subseteq> set es" "length es = Suc (length es')" by auto
      moreover have "k \<notin> fst ` set es'" using ih(4) Cons.prems(2) e by auto
      ultimately show ?thesis using False c' e by (auto simp: fun_eq_iff)
    qed
  qed simp
  then show "map_of c key = Some old" "map_of c' = (map_of c)(key := None)"
    "distinct (map fst c')" "set c' \<subseteq> set c" "length c = Suc (length c')" by auto
qed

lemma length_concat_update:
  "i < length xs \<Longrightarrow>
   length (concat (xs[i := c])) + length (xs ! i) = length (concat xs) + length c"
proof (induction xs arbitrary: i)
  case (Cons x xs)
  then show ?case by (cases i) (auto simp: add.assoc)
qed simp

text \<open>The entry chain a key hashes to decides its view.\<close>

lemma hm_view_update:
  assumes "i < length (buckets m)" and "n_buckets m = length (buckets m)"
  shows "hm_view (m\<lparr>buckets := (buckets m)[i := c], n_entries := k\<rparr>) key =
         (if slot_index (n_buckets m) key = i then map_of c key else hm_view m key)"
  using assms by (simp add: hm_view_def)

lemma hm_ok_update:
  assumes ok: "hm_ok m" and i: "i < n_buckets m"
    and place: "\<forall>e \<in> set c. slot_index (n_buckets m) (fst e) = i"
    and dist: "distinct (map fst c)"
    and cnt: "k = length (concat ((buckets m)[i := c]))"
    and load: "k * 100 div n_buckets m \<le> HASHMAP_MAX_LOAD"
  shows "hm_ok (m\<lparr>buckets := (buckets m)[i := c], n_entries := k\<rparr>)"
  using assms by (auto simp: hm_ok_def nth_list_update)

section \<open>Rehashing\<close>

lemma foldl_foldl_concat: "foldl (foldl f) a xss = foldl f a (concat xss)"
  by (induction xss arbitrary: a) auto

lemma length_move: "length (foldl (move_entry n) nb es) = length nb"
  by (induction es arbitrary: nb) auto

text \<open>Moving entries whose keys are distinct puts each at the head of its new chain.\<close>

lemma move_chain:
  assumes "length nb = n" and "i < n"
  shows "foldl (move_entry n) nb es ! i = rev (filter (\<lambda>e. slot_index n (fst e) = i) es) @ nb ! i"
  using assms
proof (induction es arbitrary: nb)
  case (Cons e es)
  obtain k v where e: "e = (k, v)" by (cases e)
  from Cons.prems have "length (move_entry n nb e) = n" by (simp add: e)
  with Cons.IH Cons.prems show ?case by (simp add: e nth_list_update)
qed simp

lemma concat_keys_distinct:
  assumes "\<forall>i < length bs. \<forall>e \<in> set (bs ! i). f (fst e) = i"
    and "\<forall>i < length bs. distinct (map fst (bs ! i))"
  shows "distinct (map fst (concat bs))"
  using assms
proof (induction bs rule: rev_induct)
  case (snoc b bs)
  have old: "(bs @ [b]) ! i = bs ! i" if "i < length bs" for i
    using that by (simp add: nth_append)
  from snoc.prems have pb: "\<forall>e \<in> set b. f (fst e) = length bs" and db: "distinct (map fst b)"
    by (auto dest: spec [of _ "length bs"])
  have ps: "\<forall>i < length bs. \<forall>e \<in> set (bs ! i). f (fst e) = i"
    and ds: "\<forall>i < length bs. distinct (map fst (bs ! i))"
    using snoc.prems old by (metis length_append_singleton less_SucI)+
  have "fst ` set b \<inter> fst ` set (concat bs) = {}"
  proof -
    have "f (fst e) \<noteq> length bs" if "e \<in> set (concat bs)" for e
    proof -
      from that obtain i where "i < length bs" "e \<in> set (bs ! i)" unfolding in_concat_nth by blast
      with ps show ?thesis by auto
    qed
    with pb show ?thesis by force
  qed
  with snoc.IH [OF ps ds] db show ?case by auto
qed simp

lemma map_of_concat:
  assumes "\<forall>i < length bs. \<forall>e \<in> set (bs ! i). f (fst e) = i" and "f key < length bs"
  shows "map_of (concat bs) key = map_of (bs ! f key) key"
  using assms
proof (induction bs rule: rev_induct)
  case (snoc b bs)
  have old: "(bs @ [b]) ! i = bs ! i" if "i < length bs" for i
    using that by (simp add: nth_append)
  have ps: "\<forall>i < length bs. \<forall>e \<in> set (bs ! i). f (fst e) = i"
    using snoc.prems(1) old by (metis length_append_singleton less_SucI)
  show ?case
  proof (cases "f key = length bs")
    case True
    have "key \<notin> fst ` set (concat bs)"
    proof
      assume "key \<in> fst ` set (concat bs)"
      then obtain i v where "i < length bs" "(key, v) \<in> set (bs ! i)"
        using in_concat_nth [of _ bs] by fastforce
      with ps True show False by fastforce
    qed
    then have "map_of (concat bs) key = None" by (rule map_of_eq_None_iff [THEN iffD2])
    with True show ?thesis by (simp add: map_add_def split: option.splits)
  next
    case False
    with snoc.prems(2) have lt: "f key < length bs" by simp
    have "key \<notin> fst ` set b"
      using snoc.prems(1) False by (force dest: spec [of _ "length bs"])
    then have "map_of b key = None" by (rule map_of_eq_None_iff [THEN iffD2])
    with snoc.IH [OF ps lt] old [OF lt] show ?thesis
      by (simp add: map_add_def split: option.splits)
  qed
qed simp

lemma map_of_filter_key:
  "map_of (filter (\<lambda>e. P (fst e)) es) key = (if P key then map_of es key else None)"
  by (induction es) auto

lemma map_of_rev_distinct: "distinct (map fst es) \<Longrightarrow> map_of (rev es) = map_of es"
  by (rule map_of_inject_set [THEN iffD2]) (simp_all add: rev_map [symmetric])

lemma sum_filter_lengths:
  assumes "\<forall>e \<in> set es. g e < (n::nat)"
  shows "(\<Sum>i < n. length (filter (\<lambda>e. g e = i) es)) = length es"
  using assms
proof (induction es)
  case (Cons e es)
  have "(\<Sum>i < n. length (filter (\<lambda>x. g x = i) (e # es)))
        = (\<Sum>i < n. (if g e = i then 1 else 0) + length (filter (\<lambda>x. g x = i) es))"
    by (rule sum.cong) auto
  also have "\<dots> = (\<Sum>i < n. if g e = i then 1 else 0) + length es"
    using Cons by (simp add: sum.distrib)
  also have "(\<Sum>i < n. if g e = i then 1 else 0) = (1::nat)"
    using Cons.prems by (subst sum.delta') auto
  finally show ?case by simp
qed simp

lemma length_concat_sum: "length (concat bs) = (\<Sum>i < length bs. length (bs ! i))"
  by (simp add: length_concat sum_list_sum_nth atLeast0LessThan)

lemma rehash_ok:
  assumes ok: "hm_ok m" and small: "hm_small m" and r: "hashmap_rehash True m = (e, m')"
  shows "e = AGENT_OK" and "hm_ok m'" and "hm_view m' = hm_view m"
    and "n_entries m' = n_entries m" and "n_buckets m' = 2 * n_buckets m"
proof -
  let ?n = "2 * n_buckets m" and ?es = "concat (buckets m)"
  have pos: "0 < n_buckets m" using ok by (rule hm_ok_pos)
  have n2: "size_mul (n_buckets m) 2 = ?n"
    using small by (simp add: hm_small_def size_mul_id SIZE_MAX_eq)
  have m': "m' = m\<lparr>buckets := foldl (move_entry ?n) (replicate ?n []) ?es, n_buckets := ?n\<rparr>"
    and e: "e = AGENT_OK"
    using r by (simp_all add: hashmap_rehash_def n2 foldl_foldl_concat Let_def)
  have chain: "buckets m' ! i = rev (filter (\<lambda>e. slot_index ?n (fst e) = i) ?es)" if "i < ?n" for i
    using that by (simp add: m' move_chain)
  have len: "length (buckets m') = ?n" by (simp add: m' length_move)
  from ok have place: "\<forall>i < length (buckets m). \<forall>e \<in> set (buckets m ! i). slot_index (n_buckets m) (fst e) = i"
    and dist: "\<forall>i < length (buckets m). distinct (map fst (buckets m ! i))"
    and lb: "length (buckets m) = n_buckets m" by (auto simp: hm_ok_def)
  have dk: "distinct (map fst ?es)" by (rule concat_keys_distinct [OF place dist])
  have view: "hm_view m' key = hm_view m key" for key
  proof -
    have "hm_view m' key = map_of (filter (\<lambda>e. slot_index ?n (fst e) = slot_index ?n key) ?es) key"
      using pos dk
      by (simp add: hm_view_def m' move_chain map_of_rev_distinct distinct_map_filter)
    also have "\<dots> = map_of ?es key"
      by (simp add: map_of_filter_key [where P = "\<lambda>k. slot_index ?n k = slot_index ?n key"])
    also have "\<dots> = hm_view m key"
      using map_of_concat [OF place, of key] pos lb by (simp add: hm_view_def)
    finally show ?thesis .
  qed
  have "length (concat (buckets m')) = (\<Sum>i < ?n. length (filter (\<lambda>e. slot_index ?n (fst e) = i) ?es))"
    by (simp add: length_concat_sum [of "buckets m'"] len chain)
  also have "\<dots> = length ?es" by (rule sum_filter_lengths) (simp add: pos)
  finally have cnt: "length (concat (buckets m')) = n_entries m"
    using ok by (simp add: hm_ok_def)
  have load: "n_entries m * 100 div ?n \<le> HASHMAP_MAX_LOAD"
  proof -
    have "n_entries m * 100 div ?n \<le> n_entries m * 100 div n_buckets m"
      by (rule div_le_mono2) (use pos in auto)
    also have "\<dots> \<le> HASHMAP_MAX_LOAD" using ok unfolding hm_ok_def by blast
    finally show ?thesis .
  qed
  show "hm_ok m'"
    unfolding hm_ok_def
    using ok small len cnt load chain dk
    by (auto simp: m' hm_small_def hm_ok_def distinct_map_filter rev_map [symmetric])
  show "e = AGENT_OK" by (rule e)
  show "hm_view m' = hm_view m" using view by (rule ext)
  show "n_entries m' = n_entries m" "n_buckets m' = ?n" by (simp_all add: m')
qed

section \<open>Put and remove refine the finite map\<close>

lemma hm_slot:
  assumes "hm_ok m"
  shows "slot_index (n_buckets m) key < length (buckets m)" and "slot_index (n_buckets m) key < n_buckets m"
    and "n_buckets m = length (buckets m)"
    and "distinct (map fst (buckets m ! slot_index (n_buckets m) key))"
    and "\<forall>e \<in> set (buckets m ! slot_index (n_buckets m) key). slot_index (n_buckets m) (fst e) = slot_index (n_buckets m) key"
    and "n_entries m = length (concat (buckets m))"
    and "n_entries m * 100 div n_buckets m \<le> HASHMAP_MAX_LOAD"
  using assms hm_ok_pos [OF assms] by (auto simp: hm_ok_def simp del: length_concat)

lemma hm_load_room:
  assumes "hm_ok m" and "hm_small m"
  shows "(n_entries m + 1) * 100 \<le> SIZE_MAX"
    and "size_mul (size_add (n_entries m) 1) 100 = (n_entries m + 1) * 100"
    and "(n_entries m + 1) * 100 div (2 * n_buckets m) \<le> HASHMAP_MAX_LOAD"
proof -
  have pos: "0 < n_buckets m" and ge: "16 \<le> n_buckets m" and le: "n_buckets m \<le> 2 ^ 55"
    using assms by (auto simp: hm_ok_def hm_small_def HASHMAP_MIN_BUCKETS_def)
  have "n_entries m * 100 div n_buckets m < 76"
    using hm_slot(7) [OF assms(1)] by (simp add: HASHMAP_MAX_LOAD_def)
  then have lt: "n_entries m * 100 < 76 * n_buckets m"
    using pos by (simp only: less_mult_imp_div_less div_less_iff_less_mult)
  with le show b: "(n_entries m + 1) * 100 \<le> SIZE_MAX" by (simp add: SIZE_MAX_eq)
  then have "n_entries m + 1 \<le> SIZE_MAX" by simp
  then have "size_add (n_entries m) 1 = n_entries m + 1" by (rule size_add_id)
  with b show "size_mul (size_add (n_entries m) 1) 100 = (n_entries m + 1) * 100"
    using size_mul_id by presburger
  have "(n_entries m + 1) * 100 < 76 * (2 * n_buckets m)" using lt ge by simp
  then have "(n_entries m + 1) * 100 div (2 * n_buckets m) < 76"
    by (rule less_mult_imp_div_less)
  then show "(n_entries m + 1) * 100 div (2 * n_buckets m) \<le> HASHMAP_MAX_LOAD"
    by (simp add: HASHMAP_MAX_LOAD_def)
qed

text \<open>Adding a fresh key at the head of its chain.\<close>

lemma hm_insert_fresh:
  assumes ok: "hm_ok m" and fresh: "hm_view m key = None"
    and load: "(n_entries m + 1) * 100 div n_buckets m \<le> HASHMAP_MAX_LOAD"
    and bound: "n_entries m + 1 \<le> SIZE_MAX"
    and m': "m' = m\<lparr>buckets := (buckets m)[slot_index (n_buckets m) key :=
                      (key, v) # buckets m ! slot_index (n_buckets m) key],
                   n_entries := size_add (n_entries m) 1\<rparr>"
  shows "hm_ok m'" and "hm_view m' = (hm_view m)(key \<mapsto> v)" and "n_entries m' = n_entries m + 1"
proof -
  let ?i = "slot_index (n_buckets m) key"
  note sl = hm_slot(1,2) [OF ok, of key] hm_slot(3) [OF ok] hm_slot(4,5) [OF ok, of key] hm_slot(6,7) [OF ok]
  have sz: "size_add (n_entries m) 1 = n_entries m + 1" using bound by (rule size_add_id)
  have "key \<notin> fst ` set (buckets m ! ?i)"
    using fresh unfolding hm_view_def by (rule map_of_eq_None_iff [THEN iffD1])
  moreover have "length (concat ((buckets m)[?i := (key, v) # buckets m ! ?i])) = n_entries m + 1"
    using length_concat_update [OF sl(1), of "(key, v) # buckets m ! ?i"] sl(6) by simp
  ultimately show "hm_ok m'"
    unfolding m' sz using sl load by (intro hm_ok_update [OF ok]) auto
  show "hm_view m' = (hm_view m)(key \<mapsto> v)"
    unfolding m' by (rule ext, unfold hm_view_update [OF sl(1,3)]) (simp add: hm_view_def)
  show "n_entries m' = n_entries m + 1" unfolding m' sz by simp
qed

lemma put_existing:
  assumes ok: "hm_ok m"
    and c: "chain_replace key v (buckets m ! slot_index (n_buckets m) key) = Some (old, c)"
  shows "hm_ok (m\<lparr>buckets := (buckets m)[slot_index (n_buckets m) key := c]\<rparr>)"
    and "hm_view (m\<lparr>buckets := (buckets m)[slot_index (n_buckets m) key := c]\<rparr>) = (hm_view m)(key \<mapsto> v)"
    and "hm_view m key = Some old"
proof -
  let ?i = "slot_index (n_buckets m) key"
  note sl = hm_slot(1,2) [OF ok, of key] hm_slot(3) [OF ok] hm_slot(4,5) [OF ok, of key] hm_slot(6,7) [OF ok] and cr = chain_replace_Some [OF c]
  have eq: "m\<lparr>buckets := (buckets m)[?i := c]\<rparr> = m\<lparr>buckets := (buckets m)[?i := c], n_entries := n_entries m\<rparr>"
    by simp
  have keys: "fst ` set c = fst ` set (buckets m ! ?i)" using cr(1) by (metis list.set_map)
  have "slot_index (n_buckets m) (fst e) = ?i" if "e \<in> set c" for e
    using that keys sl(5) by (metis (no_types, lifting) imageE image_eqI)
  moreover have "length (concat ((buckets m)[?i := c])) = n_entries m"
    using length_concat_update [OF sl(1), of c] cr(4) sl(6) by simp
  ultimately show "hm_ok (m\<lparr>buckets := (buckets m)[?i := c]\<rparr>)"
    using sl cr(1) by (subst eq, intro hm_ok_update [OF ok]) auto
  show "hm_view (m\<lparr>buckets := (buckets m)[?i := c]\<rparr>) = (hm_view m)(key \<mapsto> v)"
    by (subst eq, rule ext, unfold hm_view_update [OF sl(1,3)]) (simp add: cr(3) hm_view_def)
  show "hm_view m key = Some old" using cr(2) by (simp add: hm_view_def)
qed

lemma put_in_spec:
  assumes ok: "hm_ok m" and small: "hm_small m" and p: "put_in h m key v = (e, old, m')"
  shows "hm_ok m'" and "e = AGENT_OK \<Longrightarrow> hm_view m' = (hm_view m)(key \<mapsto> v)"
    and "e \<noteq> AGENT_OK \<Longrightarrow> hm_view m' = hm_view m"
    and "old = (if e = AGENT_OK then Option.bind (hm_view m key) id else None)"
proof -
  let ?chain = "buckets m ! slot_index (n_buckets m) key"
  have "hm_ok m' \<and> (e = AGENT_OK \<longrightarrow> hm_view m' = (hm_view m)(key \<mapsto> v)) \<and>
        (e \<noteq> AGENT_OK \<longrightarrow> hm_view m' = hm_view m) \<and>
        old = (if e = AGENT_OK then Option.bind (hm_view m key) id else None)"
  proof (cases "chain_replace key v ?chain")
    case (Some oc)
    obtain o1 c where oc: "oc = (o1, c)" by (cases oc)
    note pe = put_existing [OF ok Some [unfolded oc]]
    from p Some oc have "e = AGENT_OK" "old = o1"
      "m' = m\<lparr>buckets := (buckets m)[slot_index (n_buckets m) key := c]\<rparr>"
      by (auto simp: put_in_def Let_def)
    with pe show ?thesis by simp
  next
    case None
    then have fresh: "hm_view m key = None"
      unfolding hm_view_def by (simp add: chain_replace_None map_of_eq_None_iff)
    let ?grow = "(n_entries m + 1) * 100 div n_buckets m > HASHMAP_MAX_LOAD"
    obtain e1 m1 where g: "(if ?grow then hashmap_rehash (ok_rehash h) m else (AGENT_OK, m)) = (e1, m1)"
      by (cases "if ?grow then hashmap_rehash (ok_rehash h) m else (AGENT_OK, m)")
    have m1: "hm_ok m1 \<and> hm_view m1 = hm_view m \<and> n_entries m1 = n_entries m \<and>
              (e1 = AGENT_OK \<longrightarrow> (n_entries m1 + 1) * 100 div n_buckets m1 \<le> HASHMAP_MAX_LOAD)"
    proof (cases ?grow)
      case True
      show ?thesis
      proof (cases "ok_rehash h")
        case t: True
        with True g have "hashmap_rehash True m = (e1, m1)" by simp
        from rehash_ok [OF ok small this] hm_load_room [OF ok small] show ?thesis by simp
      next
        case False
        with True g ok show ?thesis by (auto simp: hashmap_rehash_def Let_def)
      qed
    next
      case False
      with g ok show ?thesis by auto
    qed
    have bound: "n_entries m1 + 1 \<le> SIZE_MAX" using hm_load_room(1) [OF ok small] m1 by simp
    let ?new = "m1\<lparr>buckets := (buckets m1)[slot_index (n_buckets m1) key :=
                      (key, v) # buckets m1 ! slot_index (n_buckets m1) key],
                   n_entries := size_add (n_entries m1) 1\<rparr>"
    have pv: "(e, old, m') =
      (if e1 \<noteq> AGENT_OK then (e1, None, m1)
       else if \<not> ok_entry h then (AGENT_ERR_OOM, None, m1)
       else if \<not> ok_key h then (AGENT_ERR_OOM, None, m1)
       else (AGENT_OK, None, ?new))"
      using p unfolding put_in_def Let_def hm_load_room(2) [OF ok small] None option.case g prod.case
      by simp
    show ?thesis
    proof (cases "e1 = AGENT_OK \<and> ok_entry h \<and> ok_key h")
      case True
      with pv have r: "e = AGENT_OK" "old = None" "m' = ?new" by auto
      from True m1 have load: "(n_entries m1 + 1) * 100 div n_buckets m1 \<le> HASHMAP_MAX_LOAD" by blast
      have fresh1: "hm_view m1 key = None" and ok1: "hm_ok m1" using fresh m1 by auto
      from hm_insert_fresh [OF ok1 fresh1 load bound r(3)] m1 r fresh show ?thesis by simp
    next
      case False
      with pv m1 show ?thesis by (auto split: if_splits)
    qed
  qed
  then show "hm_ok m'" and "e = AGENT_OK \<Longrightarrow> hm_view m' = (hm_view m)(key \<mapsto> v)"
    and "e \<noteq> AGENT_OK \<Longrightarrow> hm_view m' = hm_view m"
    and "old = (if e = AGENT_OK then Option.bind (hm_view m key) id else None)"
    by auto
qed

lemma remove_in_spec:
  assumes ok: "hm_ok m" and r: "remove_in m key = (e, old, m')"
  shows "hm_ok m'" and "hm_view m' = (hm_view m)(key := None)"
    and "e = AGENT_OK \<longleftrightarrow> hm_view m key \<noteq> None" and "old = Option.bind (hm_view m key) id"
proof -
  let ?i = "slot_index (n_buckets m) key"
  note sl = hm_slot(1,2) [OF ok, of key] hm_slot(3) [OF ok] hm_slot(4,5) [OF ok, of key] hm_slot(6,7) [OF ok]
  have "hm_ok m' \<and> hm_view m' = (hm_view m)(key := None) \<and>
        (e = AGENT_OK \<longleftrightarrow> hm_view m key \<noteq> None) \<and> old = Option.bind (hm_view m key) id"
  proof (cases "chain_remove key (buckets m ! ?i)")
    case None
    with r have "e = AGENT_ERR_IO" "old = None" "m' = m" by (auto simp: remove_in_def Let_def)
    moreover from None have "hm_view m key = None"
      unfolding hm_view_def by (simp add: chain_remove_None map_of_eq_None_iff)
    ultimately show ?thesis using ok by (simp add: fun_upd_idem)
  next
    case (Some oc)
    obtain o1 c where oc: "oc = (o1, c)" by (cases oc)
    note cr = chain_remove_Some [OF Some [unfolded oc] sl(4)]
    have len: "length (concat ((buckets m)[?i := c])) + 1 = n_entries m"
      using length_concat_update [OF sl(1), of c] cr(5) sl(6) by simp
    have "n_entries m \<le> SIZE_MAX"
    proof -
      have "n_entries m * 100 div n_buckets m < 76"
        using sl(7) by (simp add: HASHMAP_MAX_LOAD_def)
      then have "n_entries m * 100 < 76 * n_buckets m"
        using hm_ok_pos [OF ok] by (simp only: div_less_iff_less_mult)
      moreover have "n_buckets m \<le> 2 ^ 56" using ok by (simp add: hm_ok_def)
      ultimately show ?thesis by (simp add: SIZE_MAX_eq)
    qed
    with len have sz: "size_sub (n_entries m) 1 = n_entries m - 1" by (intro size_sub_id) auto
    from r Some oc have res: "e = AGENT_OK" "old = o1"
      and m': "m' = m\<lparr>buckets := (buckets m)[?i := c], n_entries := n_entries m - 1\<rparr>"
      by (auto simp: remove_in_def Let_def sz [simplified])
    have "(n_entries m - 1) * 100 div n_buckets m \<le> n_entries m * 100 div n_buckets m"
      by (intro div_le_mono mult_le_mono1) simp
    with sl(7) have "(n_entries m - 1) * 100 div n_buckets m \<le> HASHMAP_MAX_LOAD" by linarith
    then have "hm_ok m'"
      unfolding m' using sl cr len by (intro hm_ok_update [OF ok]) auto
    moreover have "hm_view m' = (hm_view m)(key := None)"
      unfolding m' by (rule ext, unfold hm_view_update [OF sl(1,3)]) (simp add: cr(2) hm_view_def)
    moreover have "hm_view m key = Some o1" using cr(1) by (simp add: hm_view_def)
    ultimately show ?thesis using res by simp
  qed
  then show "hm_ok m'" and "hm_view m' = (hm_view m)(key := None)"
    and "e = AGENT_OK \<longleftrightarrow> hm_view m key \<noteq> None" and "old = Option.bind (hm_view m key) id"
    by auto
qed

interpretation hm: keyed_store
  "\<lambda>h m k v. case put_in h m k v of (e, old, m') \<Rightarrow> (e, m')"
  "\<lambda>m k. case remove_in m k of (e, old, m') \<Rightarrow> (e, m')"
  hm_view hm_ok hm_small
  by unfold_locales (auto split: prod.splits dest: put_in_spec remove_in_spec)

lemma hm_new:
  assumes "hashmap_new True True = Some m"
  shows "hm_ok m" and "hm_view m = Map.empty" and "hm_small m" and "n_entries m = 0"
  using assms
  by (auto simp: hashmap_new_def hm_ok_def hm_view_def hm_small_def HASHMAP_MIN_BUCKETS_def
      HASHMAP_MAX_LOAD_def)

lemma hashmap_get_view: "hashmap_get (Some m) (Some k) = Option.bind (hm_view m k) id"
  by (simp add: hashmap_get_def hm_view_def bind_eq_Some_conv split: option.splits)

lemma hm_len_dom:
  assumes "hm_ok m"
  shows "hashmap_len (Some m) = card (dom (hm_view m))"
proof -
  have place: "\<forall>i < length (buckets m). \<forall>e \<in> set (buckets m ! i). slot_index (n_buckets m) (fst e) = i"
    and dist: "\<forall>i < length (buckets m). distinct (map fst (buckets m ! i))"
    using assms by (auto simp: hm_ok_def)
  have dk: "distinct (map fst (concat (buckets m)))" by (rule concat_keys_distinct [OF place dist])
  have "hm_view m = map_of (concat (buckets m))"
    using map_of_concat [OF place] hm_slot(1) [OF assms] by (auto simp: hm_view_def)
  then have "card (dom (hm_view m)) = card (fst ` set (concat (buckets m)))"
    by (simp add: dom_map_of_conv_image_fst)
  also have "\<dots> = length (concat (buckets m))"
    using distinct_card [OF dk] by (metis length_map list.set_map)
  finally show ?thesis using hm_slot(6) [OF assms] by (simp add: hashmap_len_def)
qed

lemma iter_all:
  assumes "hm_ok m"
  shows "iter_collect m (hashmap_iter_first m) = concat (buckets m)"
proof -
  have t: "take (n_buckets m) (buckets m) = buckets m" using assms by (simp add: hm_ok_def)
  show ?thesis
  proof (cases "chain_rest (seek_bucket 0 (buckets m)) = []")
    case True
    with seek_bucket_spec [of 0 "buckets m"] show ?thesis
      by (auto simp: hashmap_iter_first_def t iter_collect.simps [of m "seek_bucket 0 (buckets m)"])
  next
    case False
    with seek_bucket_spec [of 0 "buckets m"] show ?thesis
      by (auto simp: hashmap_iter_first_def t iter_collect_remaining [OF False] iter_remaining_def)
  qed
qed

text \<open>A put on a well-formed map keeps it well-formed (entries in their hash chain, keys
  unique, counter exact, load at most 75 percent); on success the key maps to the new value,
  every other key keeps its value and the reported old value is the previous one, and on an
  allocation failure no key changes its value, even when the table was rehashed before it.\<close>

theorem hashmap_put_spec:
  assumes "hm_ok m" and "hm_small m" and "hashmap_put h (Some m) (Some key) value = (e, old, mo)"
  shows "\<exists>m'. mo = Some m' \<and> hm_ok m' \<and>
           (if e = AGENT_OK
            then old = hashmap_get (Some m) (Some key) \<and>
                 hashmap_get mo (Some key) = value \<and>
                 (\<forall>k. k \<noteq> key \<longrightarrow> hashmap_get mo (Some k) = hashmap_get (Some m) (Some k)) \<and>
                 hashmap_len mo = card (insert key (dom (hm_view m)))
            else \<forall>k. hashmap_get mo (Some k) = hashmap_get (Some m) (Some k))"
proof -
  obtain m' where p: "put_in h m key value = (e, old, m')" and mo: "mo = Some m'"
    using assms(3) by (auto simp: hashmap_put_def split: prod.splits)
  note ps = put_in_spec [OF assms(1,2) p]
  have "hashmap_len (Some m') = card (insert key (dom (hm_view m)))" if "e = AGENT_OK"
    using hm_len_dom [OF ps(1)] ps(2) [OF that] by simp
  with ps mo show ?thesis by (auto simp: hashmap_get_view)
qed

theorem hashmap_put_spec_witness:
  "\<exists>m. hashmap_new True True = Some m \<and>
       (\<exists>mo. hashmap_put \<lparr>ok_rehash = True, ok_entry = True, ok_key = True\<rparr> (Some m) (Some ''read'') (Some (7::nat))
              = (AGENT_OK, None, mo) \<and> hashmap_get mo (Some ''read'') = Some 7)"
proof -
  let ?h = "\<lparr>ok_rehash = True, ok_entry = True, ok_key = True\<rparr>"
  obtain m :: "nat hashmap" where m: "hashmap_new True True = Some m"
    by (auto simp: hashmap_new_def)
  obtain e old mo where p: "hashmap_put ?h (Some m) (Some ''read'') (Some 7) = (e, old, mo)"
    by (cases "hashmap_put ?h (Some m) (Some ''read'') (Some 7)") auto
  have "e = AGENT_OK" using p m
    by (auto simp: hashmap_put_def put_in_def hashmap_new_def HASHMAP_MIN_BUCKETS_def Let_def
        size_add_def size_mul_def HASHMAP_MAX_LOAD_def nth_replicate)
  with hashmap_put_spec [OF hm_new(1) [OF m] hm_new(3) [OF m] p] p m hm_new(2) [OF m]
  show ?thesis by (auto simp: hashmap_get_view)
qed

text \<open>Removing a key keeps the map well-formed, makes exactly that key absent, succeeds
  exactly when the key was present, and reports the value that was stored.\<close>

theorem hashmap_remove_spec:
  assumes "hm_ok m" and "hashmap_remove (Some m) (Some key) = (e, old, mo)"
  shows "\<exists>m'. mo = Some m' \<and> hm_ok m' \<and> hm_view m' = (hm_view m)(key := None) \<and>
           (e = AGENT_OK \<longleftrightarrow> key \<in> dom (hm_view m)) \<and> old = hashmap_get (Some m) (Some key)"
proof -
  obtain m' where r: "remove_in m key = (e, old, m')" and mo: "mo = Some m'"
    using assms(2) by (auto simp: hashmap_remove_def split: prod.splits)
  from remove_in_spec [OF assms(1) r] mo show ?thesis by (auto simp: hashmap_get_view)
qed

theorem hashmap_remove_spec_witness:
  "\<exists>m. hashmap_new True True = Some (m :: nat hashmap) \<and>
       (\<exists>mo. hashmap_remove (Some m) (Some ''read'') = (AGENT_ERR_IO, None, mo) \<and> hm_view (the mo) = Map.empty)"
proof -
  obtain m :: "nat hashmap" where m: "hashmap_new True True = Some m"
    by (auto simp: hashmap_new_def)
  obtain e old mo where r: "hashmap_remove (Some m) (Some ''read'') = (e, old, mo)"
    by (cases "hashmap_remove (Some m) (Some ''read'')") auto
  have "e = AGENT_ERR_IO" using r m
    by (auto simp: hashmap_remove_def remove_in_def hashmap_new_def HASHMAP_MIN_BUCKETS_def Let_def
        nth_replicate)
  with hashmap_remove_spec [OF hm_new(1) [OF m] r] r m hm_new(2) [OF m]
  show ?thesis by (auto simp: hashmap_get_view)
qed

text \<open>Iterating over a well-formed map ends and visits every stored entry exactly once:
  the visited keys are distinct, they are the keys of the map, and each comes with its value.\<close>

theorem hashmap_iteration_complete:
  assumes "hm_ok m"
  shows "distinct (map fst (iter_collect m (hashmap_iter_first m))) \<and>
         map_of (iter_collect m (hashmap_iter_first m)) = hm_view m \<and>
         length (iter_collect m (hashmap_iter_first m)) = hashmap_len (Some m)"
proof -
  have place: "\<forall>i < length (buckets m). \<forall>e \<in> set (buckets m ! i). slot_index (n_buckets m) (fst e) = i"
    and dist: "\<forall>i < length (buckets m). distinct (map fst (buckets m ! i))"
    using assms by (auto simp: hm_ok_def)
  have "map_of (concat (buckets m)) = hm_view m"
    using map_of_concat [OF place] hm_slot(1) [OF assms] by (auto simp: hm_view_def)
  with concat_keys_distinct [OF place dist] hm_slot(6) [OF assms] show ?thesis
    by (simp add: iter_all [OF assms] hashmap_len_def del: length_concat)
qed

theorem hashmap_iteration_complete_witness:
  "\<exists>m. hashmap_new True True = Some (m :: nat hashmap) \<and> iter_collect m (hashmap_iter_first m) = []"
proof -
  obtain m :: "nat hashmap" where m: "hashmap_new True True = Some m"
    by (auto simp: hashmap_new_def)
  from hashmap_iteration_complete [OF hm_new(1) [OF m]] hm_new(4) [OF m] m
  show ?thesis by (auto simp: hashmap_len_def)
qed

end
