(* ===== verification/Messages.thy ===== *)
theory Messages
  imports Prelude
begin

text \<open>
  The conversation of \<open>src/src/agent/message.c\<close>: tool calls, messages, and the message list
  with its capacity.  Owned \<open>char*\<close> fields are string options (\<open>None\<close> is NULL); a zeroed
  \<open>Message\<close> slot is \<open>zero_message\<close>.  \<open>tool_grouped\<close> is the tool protocol every provider
  demands of a history: a tool result follows, contiguously, the assistant message that made
  the calls.  The lemmas show that the list operations are the list functions they promise to
  be and that prefixes cut by \<open>message_list_tool_safe_prefix_count\<close> respect the protocol.
\<close>

section \<open>Data\<close>

datatype message_role = MSG_SYSTEM | MSG_USER | MSG_ASSISTANT | MSG_TOOL

record tool_call =
  tc_id :: "string option"
  tc_name :: "string option"
  tc_arguments :: "string option"
  tc_result :: "string option"
  tc_is_error :: bool

record usage =
  input_tokens :: int
  output_tokens :: int
  cached_tokens :: int
  total_tokens :: int

record message =
  m_role :: message_role
  m_content :: "string option"
  m_reasoning :: "string option"
  m_tool_call_id :: "string option"
  m_tool_calls :: "tool_call list"
  m_usage :: usage
  m_is_error :: bool

record message_list =
  mitems :: "message list"
  mcap :: nat

record tool_call_list =
  titems :: "tool_call list"
  tcap :: nat

definition zero_tool_call :: tool_call where
  "zero_tool_call = \<lparr>tc_id = None, tc_name = None, tc_arguments = None, tc_result = None,
                     tc_is_error = False\<rparr>"

definition zero_usage :: usage where
  "zero_usage = \<lparr>input_tokens = 0, output_tokens = 0, cached_tokens = 0, total_tokens = 0\<rparr>"

definition message_new :: "message_role \<Rightarrow> message" where
  "message_new role = \<lparr>m_role = role, m_content = None, m_reasoning = None, m_tool_call_id = None,
                       m_tool_calls = [], m_usage = zero_usage, m_is_error = False\<rparr>"

text \<open>A slot cleared with \<open>memset\<close>: role 0 is \<open>MSG_SYSTEM\<close>.\<close>

definition zero_message :: message where
  "zero_message = message_new MSG_SYSTEM"

fun message_role_name :: "message_role \<Rightarrow> string" where
  "message_role_name MSG_SYSTEM = ''system''"
| "message_role_name MSG_USER = ''user''"
| "message_role_name MSG_ASSISTANT = ''assistant''"
| "message_role_name MSG_TOOL = ''tool''"

section \<open>List operations\<close>

definition LIST_MIN_CAP :: nat where
  "LIST_MIN_CAP = 4"

text \<open>\<open>sizeof\<close> on the LP64 ABI the program targets.\<close>

definition sizeof_message :: nat where
  "sizeof_message = 96"

definition sizeof_tool_call :: nat where
  "sizeof_tool_call = 40"

definition message_set_content :: "bool \<Rightarrow> message option \<Rightarrow> string option \<Rightarrow> agent_error \<times> message option" where
  "message_set_content strdup_ok m text1 =
     (case (m, text1) of
        (Some mm, Some t) \<Rightarrow>
          if strdup_ok then (AGENT_OK, Some (mm\<lparr>m_content := Some t\<rparr>)) else (AGENT_ERR_OOM, m)
      | _ \<Rightarrow> (AGENT_ERR_OOM, m))"

definition tool_call_list_free :: "tool_call_list \<Rightarrow> tool_call_list" where
  "tool_call_list_free l = \<lparr>titems = [], tcap = 0\<rparr>"

definition tool_call_list_append ::
  "bool \<Rightarrow> tool_call_list \<Rightarrow> tool_call \<Rightarrow> agent_error \<times> tool_call_list" where
  "tool_call_list_append realloc_ok l tc =
     (if length (titems l) = tcap l then
        (let new_cap = (if tcap l = 0 then LIST_MIN_CAP else size_mul (tcap l) 2) in
         if new_cap > SIZE_MAX div sizeof_tool_call then (AGENT_ERR_OOM, l)
         else if \<not> realloc_ok then (AGENT_ERR_OOM, l)
         else (AGENT_OK, \<lparr>titems = titems l @ [tc], tcap = new_cap\<rparr>))
      else (AGENT_OK, l\<lparr>titems := titems l @ [tc]\<rparr>))"

text \<open>Room for one more message: the growth step shared by append and insert.\<close>

definition message_list_room :: "bool \<Rightarrow> message_list \<Rightarrow> agent_error \<times> message_list" where
  "message_list_room realloc_ok l =
     (if length (mitems l) = mcap l then
        (let new_cap = (if mcap l = 0 then LIST_MIN_CAP else size_mul (mcap l) 2) in
         if new_cap > SIZE_MAX div sizeof_message then (AGENT_ERR_OOM, l)
         else if \<not> realloc_ok then (AGENT_ERR_OOM, l)
         else (AGENT_OK, l\<lparr>mcap := new_cap\<rparr>))
      else (AGENT_OK, l))"

definition message_list_append_copy :: "bool \<Rightarrow> message_list \<Rightarrow> message \<Rightarrow> agent_error \<times> message_list" where
  "message_list_append_copy realloc_ok l m =
     (case message_list_room realloc_ok l of
        (AGENT_OK, l') \<Rightarrow> (AGENT_OK, l'\<lparr>mitems := mitems l' @ [m]\<rparr>)
      | (err, l') \<Rightarrow> (err, l'))"

definition message_list_append :: "bool \<Rightarrow> message_list \<Rightarrow> message \<Rightarrow> agent_error \<times> message_list" where
  "message_list_append realloc_ok l m = message_list_append_copy realloc_ok l m"

definition message_list_free :: "message_list \<Rightarrow> message_list" where
  "message_list_free l = \<lparr>mitems = [], mcap = 0\<rparr>"

definition message_list_last :: "message_list \<Rightarrow> message option" where
  "message_list_last l = (if mitems l = [] then None else Some (mitems l ! (length (mitems l) - 1)))"

definition message_list_insert ::
  "bool \<Rightarrow> message_list \<Rightarrow> nat \<Rightarrow> message \<Rightarrow> agent_error \<times> message_list" where
  "message_list_insert realloc_ok l index m =
     (let i = (if index > length (mitems l) then length (mitems l) else index) in
      case message_list_room realloc_ok l of
        (AGENT_OK, l') \<Rightarrow> (AGENT_OK, l'\<lparr>mitems := take i (mitems l') @ m # drop i (mitems l')\<rparr>)
      | (err, l') \<Rightarrow> (err, l'))"

definition message_list_remove_range :: "message_list \<Rightarrow> nat \<Rightarrow> nat \<Rightarrow> message_list" where
  "message_list_remove_range l start count =
     (if start \<ge> length (mitems l) \<or> count = 0 then l
      else
        (let c = (if count > length (mitems l) - start then length (mitems l) - start else count) in
         l\<lparr>mitems := take start (mitems l) @ drop (start + c) (mitems l)\<rparr>))"

text \<open>
  The backward scan of \<open>message_list_tool_safe_prefix_count\<close>:
  \<open>while (end > start && items[end].role == MSG_TOOL) end--;\<close>
\<close>

fun back_over_tools :: "message list \<Rightarrow> nat \<Rightarrow> nat \<Rightarrow> nat" where
  "back_over_tools items start 0 = 0"
| "back_over_tools items start (Suc e) =
     (if Suc e > start \<and> m_role (items ! Suc e) = MSG_TOOL
      then back_over_tools items start e else Suc e)"

definition message_list_tool_safe_prefix_count :: "message list \<Rightarrow> nat \<Rightarrow> nat \<Rightarrow> nat" where
  "message_list_tool_safe_prefix_count items start count0 =
     (if start \<ge> length items \<or> count0 = 0 then 0
      else
        (let count = (if count0 > length items - start then length items - start else count0);
             end0 = start + count in
         if end0 \<ge> length items \<or> m_role (items ! end0) \<noteq> MSG_TOOL then count
         else
           (let e = back_over_tools items start end0 in
            if m_role (items ! e) = MSG_ASSISTANT \<and> m_tool_calls (items ! e) \<noteq> []
            then e - start else count)))"

text \<open>
  \<open>message_list_move_range\<close> between two distinct lists; \<open>oks\<close> are the outcomes of the
  reallocations, one per moved message.
\<close>

fun move_loop ::
  "(nat \<Rightarrow> bool) \<Rightarrow> message_list \<Rightarrow> message_list \<Rightarrow> nat \<Rightarrow> nat \<Rightarrow> nat \<Rightarrow> agent_error \<times> message_list \<times> message_list" where
  "move_loop oks dest src start i 0 = (AGENT_OK, dest, src)"
| "move_loop oks dest src start i (Suc n) =
     (case message_list_append_copy (oks i) dest (mitems src ! (start + i)) of
        (AGENT_OK, dest') \<Rightarrow>
          move_loop oks dest' (src\<lparr>mitems := (mitems src)[start + i := zero_message]\<rparr>) start (Suc i) n
      | (err, dest') \<Rightarrow> (AGENT_ERR_OOM, dest', src))"

definition message_list_move_range ::
  "(nat \<Rightarrow> bool) \<Rightarrow> message_list \<Rightarrow> message_list \<Rightarrow> nat \<Rightarrow> nat \<Rightarrow> agent_error \<times> message_list \<times> message_list" where
  "message_list_move_range oks dest src start count =
     (if start \<ge> length (mitems src) \<or> count = 0 then (AGENT_OK, dest, src)
      else
        (let c = (if count > length (mitems src) - start then length (mitems src) - start else count) in
         move_loop oks dest src start 0 c))"

section \<open>Functional behaviour\<close>

definition message_list_ok :: "message_list \<Rightarrow> bool" where
  "message_list_ok l \<longleftrightarrow> length (mitems l) \<le> mcap l \<and> mcap l \<le> SIZE_MAX div sizeof_message"

lemma room_items: "message_list_room ok l = (e, l') \<Longrightarrow> mitems l' = mitems l"
  by (auto simp: message_list_room_def Let_def split: if_splits)

lemma room_ok:
  assumes "message_list_ok l" and "message_list_room ok l = (AGENT_OK, l')"
  shows "length (mitems l') < mcap l' \<and> mcap l' \<le> SIZE_MAX div sizeof_message"
  using assms
  by (auto simp: message_list_ok_def message_list_room_def Let_def size_mul_id LIST_MIN_CAP_def
      sizeof_message_def SIZE_MAX_eq split: if_splits)

lemma room_fail: "message_list_room ok l = (e, l') \<Longrightarrow> e \<noteq> AGENT_OK \<Longrightarrow> l' = l"
  by (auto simp: message_list_room_def Let_def split: if_splits)

lemma append_copy_items:
  "message_list_append_copy ok l m = (e, l') \<Longrightarrow>
   mitems l' = (if e = AGENT_OK then mitems l @ [m] else mitems l)"
  using room_items [of ok l]
  by (auto simp: message_list_append_copy_def split: prod.splits agent_error.splits)

lemma append_copy_ok [invar_intros]:
  assumes "message_list_ok l" and "message_list_append_copy ok l m = (e, l')"
  shows "message_list_ok l'"
proof (cases "message_list_room ok l")
  case (Pair e1 l1)
  show ?thesis
  proof (cases "e1 = AGENT_OK")
    case True
    with assms Pair room_ok [of l ok l1] show ?thesis
      by (auto simp: message_list_append_copy_def message_list_ok_def)
  next
    case False
    with Pair room_fail [OF Pair] assms show ?thesis
      by (cases e1) (auto simp: message_list_append_copy_def)
  qed
qed

lemma insert_items:
  "message_list_insert ok l i m = (e, l') \<Longrightarrow>
   mitems l' = (if e = AGENT_OK then take i (mitems l) @ m # drop i (mitems l) else mitems l)"
  using room_items [of ok l]
  by (auto simp: message_list_insert_def Let_def split: prod.splits agent_error.splits if_splits)

lemma insert_ok [invar_intros]:
  assumes "message_list_ok l" and "message_list_insert ok l i m = (e, l')"
  shows "message_list_ok l'"
proof (cases "message_list_room ok l")
  case (Pair e1 l1)
  show ?thesis
  proof (cases "e1 = AGENT_OK")
    case True
    with assms Pair room_ok [of l ok l1] room_items [OF Pair] show ?thesis
      by (auto simp: message_list_insert_def message_list_ok_def Let_def split: if_splits)
  next
    case False
    with Pair room_fail [OF Pair] assms show ?thesis
      by (cases e1) (auto simp: message_list_insert_def Let_def)
  qed
qed

lemma insert_fail: "message_list_insert ok l i m = (e, l') \<Longrightarrow> e \<noteq> AGENT_OK \<Longrightarrow> l' = l"
  using room_fail [of ok l]
  by (auto simp: message_list_insert_def Let_def split: prod.splits agent_error.splits)

lemma remove_range_items:
  "mitems (message_list_remove_range l start count) =
   take start (mitems l) @ drop (start + count) (mitems l)"
  by (auto simp: message_list_remove_range_def Let_def)

lemma remove_range_ok [invar_intros]:
  "message_list_ok l \<Longrightarrow> message_list_ok (message_list_remove_range l start count)"
  by (auto simp: message_list_ok_def message_list_remove_range_def Let_def)

lemma move_loop_items:
  assumes "move_loop oks dest src start i n = (e, dest', src')" and "start + i + n \<le> length (mitems src)"
  shows "\<exists>k \<le> n. (e = AGENT_OK \<longrightarrow> k = n) \<and>
           mitems dest' = mitems dest @ take k (drop (start + i) (mitems src)) \<and>
           mitems src' = take (start + i) (mitems src) @ replicate k zero_message
                           @ drop (start + i + k) (mitems src)"
  using assms
proof (induction n arbitrary: dest src i)
  case 0
  then show ?case by simp
next
  case (Suc n)
  let ?x = "mitems src ! (start + i)"
  obtain e1 d1 where ap: "message_list_append_copy (oks i) dest ?x = (e1, d1)"
    by (cases "message_list_append_copy (oks i) dest ?x")
  note it = append_copy_items [OF ap]
  show ?case
  proof (cases "e1 = AGENT_OK")
    case False
    with Suc.prems(1) ap have "e = AGENT_ERR_OOM \<and> dest' = d1 \<and> src' = src" by (cases e1) auto
    with it False show ?thesis by (intro exI [of _ 0]) simp
  next
    case True
    let ?s = "src\<lparr>mitems := (mitems src)[start + i := zero_message]\<rparr>"
    from True Suc.prems ap have r: "move_loop oks d1 ?s start (Suc i) n = (e, dest', src')" by simp
    from Suc.IH [OF r] Suc.prems(2) obtain k where k: "k \<le> n" "e = AGENT_OK \<longrightarrow> k = n"
      "mitems dest' = mitems d1 @ take k (drop (start + Suc i) (mitems ?s))"
      "mitems src' = take (start + Suc i) (mitems ?s) @ replicate k zero_message
                       @ drop (start + Suc i + k) (mitems ?s)" by auto
    have lt: "start + i < length (mitems src)" using Suc.prems(2) by simp
    have dr: "drop (start + i) (mitems src) = ?x # drop (Suc (start + i)) (mitems src)"
      using lt by (rule Cons_nth_drop_Suc [symmetric])
    have tk: "take (Suc (start + i)) ((mitems src)[start + i := zero_message])
              = take (start + i) (mitems src) @ [zero_message]"
      using lt by (simp add: take_Suc_conv_app_nth)
    from k it True lt dr tk show ?thesis
      by (intro exI [of _ "Suc k"]) (simp add: replicate_app_Cons_same)
  qed
qed

text \<open>Moving a range between two lists appends the moved messages in order and leaves
  zeroed slots behind; when an append fails part-way, what was moved so far is a prefix of the
  range, and every message is still in exactly one of the lists.\<close>

theorem move_range_transfers:
  assumes "message_list_move_range oks dest src start count = (e, dest', src')"
    and "start < length (mitems src)"
  shows "\<exists>k \<le> min count (length (mitems src) - start).
           (e = AGENT_OK \<longrightarrow> k = min count (length (mitems src) - start)) \<and>
           mitems dest' = mitems dest @ take k (drop start (mitems src)) \<and>
           mitems src' = take start (mitems src) @ replicate k zero_message
                           @ drop (start + k) (mitems src)"
proof (cases "count = 0")
  case True
  with assms show ?thesis by (simp add: message_list_move_range_def)
next
  case False
  let ?c = "min count (length (mitems src) - start)"
  from False assms have "move_loop oks dest src start 0 ?c = (e, dest', src')"
    by (auto simp: message_list_move_range_def Let_def min_def split: if_splits)
  from move_loop_items [OF this] assms(2) show ?thesis by simp
qed

theorem move_range_transfers_witness:
  "\<exists>d s. message_list_move_range (\<lambda>_. True) \<lparr>mitems = [], mcap = 0\<rparr>
           \<lparr>mitems = [message_new MSG_USER, message_new MSG_TOOL], mcap = 4\<rparr> 1 5 = (AGENT_OK, d, s) \<and>
         mitems d = [message_new MSG_TOOL]"
proof -
  let ?d = "\<lparr>mitems = [], mcap = 0\<rparr>" and ?s = "\<lparr>mitems = [message_new MSG_USER, message_new MSG_TOOL], mcap = 4\<rparr>"
  obtain d s where r: "message_list_move_range (\<lambda>_. True) ?d ?s 1 5 = (AGENT_OK, d, s)"
    by (simp add: message_list_move_range_def message_list_append_copy_def message_list_room_def
        LIST_MIN_CAP_def sizeof_message_def SIZE_MAX_eq)
  with move_range_transfers [OF r] show ?thesis by (auto simp: min_def)
qed

section \<open>The tool protocol of a history\<close>

text \<open>\<open>opens\<close> says whether a tool result may follow; \<open>grouped_from b\<close> checks a history that
  continues one in state \<open>b\<close>.\<close>

definition opens :: "bool \<Rightarrow> message \<Rightarrow> bool" where
  "opens b m = (case m_role m of
     MSG_TOOL \<Rightarrow> b | MSG_ASSISTANT \<Rightarrow> m_tool_calls m \<noteq> [] | _ \<Rightarrow> False)"

fun grouped_from :: "bool \<Rightarrow> message list \<Rightarrow> bool" where
  "grouped_from b [] = True"
| "grouped_from b (m # ms) = ((m_role m = MSG_TOOL \<longrightarrow> b) \<and> grouped_from (opens b m) ms)"

definition tool_grouped :: "message list \<Rightarrow> bool" where
  "tool_grouped items = grouped_from False items"

lemma grouped_from_append:
  "grouped_from b (xs @ ys) = (grouped_from b xs \<and> grouped_from (foldl opens b xs) ys)"
  by (induction xs arbitrary: b) auto

lemma grouped_from_start:
  "ys = [] \<or> m_role (hd ys) \<noteq> MSG_TOOL \<Longrightarrow> grouped_from b ys = grouped_from c ys"
  by (cases ys) (auto simp: opens_def split: message_role.splits)

lemma grouped_from_mono: "grouped_from False xs \<Longrightarrow> grouped_from b xs"
proof (induction xs arbitrary: b)
  case (Cons m ms)
  have "opens b m = opens False m" if "m_role m \<noteq> MSG_TOOL"
    using that by (simp add: opens_def split: message_role.splits)
  with Cons show ?case by auto
qed simp

lemma grouped_prev:
  assumes g: "tool_grouped items" and lt: "Suc e < length items"
    and tool: "m_role (items ! Suc e) = MSG_TOOL" and nt: "m_role (items ! e) \<noteq> MSG_TOOL"
  shows "m_role (items ! e) = MSG_ASSISTANT \<and> m_tool_calls (items ! e) \<noteq> []"
proof -
  have "items = take e items @ items ! e # items ! Suc e # drop (Suc (Suc e)) items"
    using lt by (metis Cons_nth_drop_Suc Suc_lessD append_take_drop_id)
  then have "grouped_from False (take e items @ items ! e # items ! Suc e # drop (Suc (Suc e)) items)"
    using g by (simp add: tool_grouped_def)
  then have "opens (foldl opens False (take e items)) (items ! e)"
    using tool by (simp add: grouped_from_append)
  with nt show ?thesis by (simp add: opens_def split: message_role.splits)
qed

lemma back_over_tools_spec:
  assumes "start \<le> e0"
  shows "start \<le> back_over_tools items start e0 \<and> back_over_tools items start e0 \<le> e0 \<and>
         (\<forall>k. back_over_tools items start e0 < k \<and> k \<le> e0 \<longrightarrow> m_role (items ! k) = MSG_TOOL) \<and>
         (back_over_tools items start e0 = start \<or>
          m_role (items ! back_over_tools items start e0) \<noteq> MSG_TOOL)"
  using assms
proof (induction e0)
  case (Suc e)
  show ?case
  proof (cases "Suc e > start \<and> m_role (items ! Suc e) = MSG_TOOL")
    case True
    with Suc.IH show ?thesis by (auto simp: le_Suc_eq)
  next
    case False
    with Suc.prems show ?thesis by auto
  qed
qed simp

lemma safe_prefix_unfold:
  assumes "start < length items" and "count \<noteq> 0" and "c = min count (length items - start)"
    and "e = back_over_tools items start (start + c)"
  shows "message_list_tool_safe_prefix_count items start count =
           (if start + c \<ge> length items \<or> m_role (items ! (start + c)) \<noteq> MSG_TOOL then c
            else if m_role (items ! e) = MSG_ASSISTANT \<and> m_tool_calls (items ! e) \<noteq> []
                 then e - start else c)"
proof -
  have "(if count > length items - start then length items - start else count) = c"
    using assms(3) by simp
  with assms show ?thesis by (simp add: message_list_tool_safe_prefix_count_def Let_def)
qed

lemma safe_prefix_le_min:
  "message_list_tool_safe_prefix_count items start count \<le> min count (length items - start)"
proof (cases "start < length items \<and> count \<noteq> 0")
  case True
  let ?c = "min count (length items - start)"
  have "back_over_tools items start (start + ?c) - start \<le> ?c"
    using back_over_tools_spec [of start "start + ?c" items] by linarith
  moreover have "start < length items" and "count \<noteq> 0" using True by auto
  note safe_prefix_unfold [OF this refl refl]
  ultimately show ?thesis by (simp only: split: if_split) simp
next
  case False
  then show ?thesis by (auto simp: message_list_tool_safe_prefix_count_def)
qed

lemma safe_prefix_le: "message_list_tool_safe_prefix_count items start count \<le> count"
  using safe_prefix_le_min [of items start count] by simp

lemma safe_prefix_in_range:
  "start < length items \<Longrightarrow> start + message_list_tool_safe_prefix_count items start count \<le> length items"
  using safe_prefix_le_min [of items start count] by linarith

lemma safe_prefix_cut:
  assumes "tool_grouped items" and "start < length items" and "m_role (items ! start) \<noteq> MSG_TOOL"
    and "r = message_list_tool_safe_prefix_count items start count"
  shows "r \<le> count \<and> start + r \<le> length items \<and>
         (start + r < length items \<longrightarrow> m_role (items ! (start + r)) \<noteq> MSG_TOOL)"
proof -
  have "m_role (items ! (start + r)) \<noteq> MSG_TOOL" if lt: "start + r < length items"
  proof (cases "count = 0")
    case True
    with assms show ?thesis by (simp add: message_list_tool_safe_prefix_count_def)
  next
    case False
    let ?c = "min count (length items - start)"
    let ?stop = "start + ?c"
    let ?e = "back_over_tools items start ?stop"
    note r = safe_prefix_unfold [OF assms(2) False refl refl, folded assms(4)]
    show ?thesis
    proof (cases "?stop \<ge> length items \<or> m_role (items ! ?stop) \<noteq> MSG_TOOL")
      case True
      with r have "r = ?c" by simp
      with True lt show ?thesis by auto
    next
      case inside: False
      note b = back_over_tools_spec [of start ?stop items]
      have nt: "m_role (items ! ?e) \<noteq> MSG_TOOL" using b assms(3) by auto
      with inside b have "?e < ?stop" by (metis le_add1 nat_less_le)
      then have "m_role (items ! Suc ?e) = MSG_TOOL" and "Suc ?e < length items"
        using b inside by auto
      with grouped_prev [OF assms(1)] nt
      have "m_role (items ! ?e) = MSG_ASSISTANT \<and> m_tool_calls (items ! ?e) \<noteq> []" by blast
      with r inside have "r = ?e - start" by simp
      with b nt show ?thesis by simp
    qed
  qed
  with safe_prefix_le [of items start count] safe_prefix_in_range [OF assms(2), of count] assms(4)
  show ?thesis by simp
qed

text \<open>In a history that follows the tool protocol, cutting off the prefix this function
  allows never separates a tool result from its assistant message: what remains starts at a
  message that is not a tool result (or is empty), and no more is cut than was asked for.\<close>

theorem safe_prefix_boundary:
  assumes "tool_grouped items" and "start < length items" and "m_role (items ! start) \<noteq> MSG_TOOL"
    and "r = message_list_tool_safe_prefix_count items start count"
  shows "r \<le> count \<and> start + r \<le> length items \<and>
         (start + r < length items \<longrightarrow> m_role (items ! (start + r)) \<noteq> MSG_TOOL)"
  using assms by (rule safe_prefix_cut)

theorem safe_prefix_boundary_witness:
  "let a = (message_new MSG_ASSISTANT)\<lparr>m_tool_calls := [zero_tool_call]\<rparr>;
       items = [message_new MSG_USER, a, message_new MSG_TOOL, message_new MSG_USER] in
   tool_grouped items \<and> message_list_tool_safe_prefix_count items 0 2 = 1 \<and>
   m_role (items ! (0 + message_list_tool_safe_prefix_count items 0 2)) \<noteq> MSG_TOOL"
proof -
  let ?a = "(message_new MSG_ASSISTANT)\<lparr>m_tool_calls := [zero_tool_call]\<rparr>"
  let ?items = "[message_new MSG_USER, ?a, message_new MSG_TOOL, message_new MSG_USER]"
  have g: "tool_grouped ?items" by (simp add: tool_grouped_def opens_def message_new_def)
  have v: "message_list_tool_safe_prefix_count ?items 0 2 = 1"
    by (simp add: message_list_tool_safe_prefix_count_def message_new_def numeral_2_eq_2)
  show ?thesis
    using safe_prefix_boundary [OF g, of 0 _ 2] g v by (simp add: message_new_def)
qed

text \<open>Asking again for the prefix that was granted changes nothing.\<close>

lemma safe_prefix_idem:
  assumes "r = message_list_tool_safe_prefix_count items start count"
  shows "message_list_tool_safe_prefix_count items start r = r"
proof (cases "start \<ge> length items \<or> count = 0")
  case True
  with assms show ?thesis by (auto simp: message_list_tool_safe_prefix_count_def)
next
  case False
  let ?c = "min count (length items - start)"
  let ?stop = "start + ?c"
  let ?e = "back_over_tools items start ?stop"
  from False have st: "start < length items" and c0: "count \<noteq> 0" by auto
  note r = safe_prefix_unfold [OF st c0 refl refl, folded assms]
  note b = back_over_tools_spec [of start ?stop items]
  have again: "message_list_tool_safe_prefix_count items start r = r"
    if "r \<noteq> 0" and "start + r \<ge> length items \<or> m_role (items ! (start + r)) \<noteq> MSG_TOOL"
    using that safe_prefix_unfold [OF st that(1) refl refl] safe_prefix_le_min [of items start count] assms
    by (simp add: min_absorb1)
  show ?thesis
  proof (cases "?stop \<ge> length items \<or> m_role (items ! ?stop) \<noteq> MSG_TOOL")
    case True
    with r have "r = ?c" by simp
    with True st c0 show ?thesis by (intro again) auto
  next
    case inside: False
    show ?thesis
    proof (cases "m_role (items ! ?e) = MSG_ASSISTANT \<and> m_tool_calls (items ! ?e) \<noteq> []")
      case True
      with r inside have re: "r = ?e - start" by simp
      then have "start + r = ?e" using b by simp
      with True again show ?thesis
        by (cases "r = 0") (simp_all add: message_list_tool_safe_prefix_count_def)
    next
      case nope: False
      with r inside have rc: "r = ?c" by simp
      with st c0 have "r \<noteq> 0" and "min r (length items - start) = r" by auto
      with safe_prefix_unfold [OF st this(1) refl refl] rc inside nope show ?thesis by simp
    qed
  qed
qed

end
