(* ===== verification/Context.thy ===== *)
theory Context
  imports Messages
begin

text \<open>
  Context management of \<open>src/src/agent/context.c\<close>: the local token estimate, the compaction
  threshold, the choice of the range to compact, the transcript prompt, and the two ways a
  compaction is applied (a model's summary, or the deterministic fallback).  Strings are built
  on plain byte lists (\<open>Byte_Store\<close> justifies appending as concatenation); the size of the
  serialised tool schema, which a JSON library produces, is an argument.
\<close>

unbundle bit_operations_syntax

definition OUTPUT_RESERVE :: int where
  "OUTPUT_RESERVE = 8192"

definition COMPACT_MIN_KEEP :: nat where
  "COMPACT_MIN_KEEP = 4"

definition SUMMARY_INPUT_MAX_CHARS :: nat where
  "SUMMARY_INPUT_MAX_CHARS = 256 * 1024"

section \<open>Token estimate\<close>

definition is_cont :: "char \<Rightarrow> bool" where
  "is_cont c \<longleftrightarrow> byte c AND 0xc0 = 0x80"

text \<open>The width the scan advances by at a byte that is not ASCII; \<open>bs\<close> is the text from there.\<close>

definition utf8_width :: "string \<Rightarrow> nat" where
  "utf8_width bs =
     (let c = byte (bs ! 0); n = length bs in
      if c AND 0xe0 = 0xc0 \<and> 1 < n \<and> is_cont (bs ! 1) then 2
      else if c AND 0xf0 = 0xe0 \<and> 2 < n \<and> is_cont (bs ! 1) \<and> is_cont (bs ! 2) then 3
      else if c AND 0xf8 = 0xf0 \<and> 3 < n \<and> is_cont (bs ! 1) \<and> is_cont (bs ! 2) \<and> is_cont (bs ! 3) then 4
      else 1)"

lemma utf8_width_pos: "1 \<le> utf8_width bs"
  by (simp add: utf8_width_def Let_def)

lemma utf8_width_le:
  assumes "bs \<noteq> []"
  shows "utf8_width bs \<le> length bs"
proof -
  from assms have "0 < length bs" by simp
  then show ?thesis unfolding utf8_width_def Let_def by (simp add: Suc_le_eq split: if_split)
qed

text \<open>The loop of \<open>count_text_units\<close> over the rest of the text.\<close>

function count_units :: "string \<Rightarrow> int \<Rightarrow> int \<Rightarrow> int \<times> int" where
  "count_units bs ascii_bytes codepoints =
     (if bs = [] then (ascii_bytes, codepoints)
      else if byte (hd bs) < 0x80 then count_units (tl bs) (ascii_bytes + 1) codepoints
      else count_units (drop (utf8_width bs) bs) ascii_bytes (codepoints + 1))"
  by pat_completeness auto
termination
proof (relation "measure (\<lambda>(bs, a, c). length bs)")
  fix bs :: string and a c :: int
  assume "bs \<noteq> []"
  then show "((drop (utf8_width bs) bs, a, c + 1), bs, a, c) \<in> measure (\<lambda>(bs, a, c). length bs)"
    using utf8_width_pos [of bs] by (cases bs) auto
qed auto

declare count_units.simps [simp del]

definition count_text_units :: "string option \<Rightarrow> int \<times> int \<Rightarrow> int \<times> int" where
  "count_text_units txt acc =
     (case txt of None \<Rightarrow> acc | Some bs \<Rightarrow> count_units bs (fst acc) (snd acc))"

definition units_to_tokens :: "int \<times> int \<Rightarrow> int" where
  "units_to_tokens acc = fst acc div 4 + snd acc"

definition count_tool_call_units :: "int \<times> int \<Rightarrow> tool_call \<Rightarrow> int \<times> int" where
  "count_tool_call_units acc tc =
     count_text_units (tc_result tc)
       (count_text_units (tc_arguments tc) (count_text_units (tc_name tc) acc))"

definition count_message_units :: "int \<times> int \<Rightarrow> message \<Rightarrow> int \<times> int" where
  "count_message_units acc m =
     foldl count_tool_call_units
       (count_text_units (m_reasoning m) (count_text_units (m_content m) acc)) (m_tool_calls m)"

definition context_estimate_tokens :: "message list \<Rightarrow> int" where
  "context_estimate_tokens msgs = units_to_tokens (foldl count_message_units (0, 0) msgs)"

definition text_estimate_tokens :: "string option \<Rightarrow> int" where
  "text_estimate_tokens txt = units_to_tokens (count_text_units txt (0, 0))"

text \<open>\<open>schema\<close>: no registry, or the result of \<open>tool_registry_schema_bytes\<close>.\<close>

definition context_estimate_request_tokens ::
  "string option \<Rightarrow> message list \<Rightarrow> (agent_error \<times> nat) option \<Rightarrow> int" where
  "context_estimate_request_tokens system_prompt msgs schema =
     context_estimate_tokens msgs + text_estimate_tokens system_prompt +
     (case schema of
        None \<Rightarrow> 0
      | Some (rc, schema_bytes) \<Rightarrow> if rc = AGENT_OK then int (schema_bytes div 4) else 0)"

text \<open>\<open>window\<close> is the model's \<open>context_window\<close>; \<open>None\<close> is a NULL model.\<close>

definition context_needs_compact_request ::
  "int option \<Rightarrow> string option \<Rightarrow> message list \<Rightarrow> (agent_error \<times> nat) option \<Rightarrow> bool" where
  "context_needs_compact_request window0 system_prompt msgs schema =
     (let estimate = context_estimate_request_tokens system_prompt msgs schema;
          window = (case window0 of None \<Rightarrow> 0 | Some w \<Rightarrow> w) in
      if window \<le> 0 then estimate \<ge> 256 * 1024
      else
        (let reserve = (if window div 2 < OUTPUT_RESERVE then window div 2 else OUTPUT_RESERVE) in
         estimate + reserve > window))"

definition context_needs_compact :: "int option \<Rightarrow> message list \<Rightarrow> bool" where
  "context_needs_compact window msgs = context_needs_compact_request window None msgs None"

section \<open>Choosing the range\<close>

record compaction_request =
  cr_start :: nat
  cr_count :: nat
  cr_messages :: "message list"

definition no_compaction :: compaction_request where
  "no_compaction = \<lparr>cr_start = 0, cr_count = 0, cr_messages = []\<rparr>"

definition compaction_bounds :: "message list \<Rightarrow> nat \<Rightarrow> nat \<times> nat" where
  "compaction_bounds items keep0 =
     (if length items \<le> COMPACT_MIN_KEEP + 2 then (0, 0)
      else
        (let keep = (if keep0 < COMPACT_MIN_KEEP then COMPACT_MIN_KEEP else keep0) in
         if length items \<le> keep + 1 then (0, 0)
         else
           (let start = (if m_role (items ! 0) = MSG_SYSTEM then 1 else 0);
                count = length items - start - keep in
            (start, message_list_tool_safe_prefix_count items start count))))"

section \<open>The transcript prompt\<close>

definition append_prompt_text :: "string \<Rightarrow> string option \<Rightarrow> string" where
  "append_prompt_text out txt =
     (case txt of
        None \<Rightarrow> out
      | Some t \<Rightarrow> if length out \<ge> SUMMARY_INPUT_MAX_CHARS then out
                  else out @ take (SUMMARY_INPUT_MAX_CHARS - length out) t)"

definition str_or_empty :: "string option \<Rightarrow> string" where
  "str_or_empty s = (case s of None \<Rightarrow> [] | Some t \<Rightarrow> t)"

fun append_tool_transcripts :: "string \<Rightarrow> tool_call list \<Rightarrow> string" where
  "append_tool_transcripts out [] = out"
| "append_tool_transcripts out (tc # tcs) =
     (let o1 = out @ ''\<newline>[tool call '' @ str_or_empty (tc_id tc) @ ''] '' @ str_or_empty (tc_name tc)
                   @ ''\<newline>arguments: '';
          o2 = append_prompt_text o1 (tc_arguments tc);
          o3 = append_prompt_text (o2 @ ''\<newline>result: '') (tc_result tc) in
      if length o3 \<ge> SUMMARY_INPUT_MAX_CHARS then o3 else append_tool_transcripts o3 tcs)"

definition append_message_transcript :: "string \<Rightarrow> message \<Rightarrow> string" where
  "append_message_transcript out m =
     (let o1 = append_prompt_text (out @ ''\<newline>--- '' @ message_role_name (m_role m) @ '' ---\<newline>'')
                 (m_content m) in
      if length o1 \<ge> SUMMARY_INPUT_MAX_CHARS then o1
      else if m_reasoning m \<noteq> None then
        (let o2 = append_prompt_text (o1 @ ''\<newline>[reasoning]\<newline>'') (m_reasoning m) in
         if length o2 \<ge> SUMMARY_INPUT_MAX_CHARS then o2
         else append_tool_transcripts o2 (m_tool_calls m))
      else append_tool_transcripts o1 (m_tool_calls m))"

definition summary_instruction :: string where
  "summary_instruction =
     ''Summarize the earlier conversation below for a coding agent. '' @
     ''Preserve concrete facts, decisions, files, tool findings, '' @
     ''unfinished work, errors, and constraints needed to continue. '' @
     ''Be concise and do not invent facts. Return only the summary.\<newline>''"

definition truncation_marker :: string where
  "truncation_marker = ''\<newline>[transcript truncated]\<newline>''"

definition build_summary_prompt :: "message list \<Rightarrow> nat \<Rightarrow> nat \<Rightarrow> string" where
  "build_summary_prompt items start count =
     (let out = foldl append_message_transcript summary_instruction (take count (drop start items)) in
      if length out \<ge> SUMMARY_INPUT_MAX_CHARS \<and> length out \<ge> length truncation_marker
      then take (length out - length truncation_marker) out @ truncation_marker
      else out)"

section \<open>Preparing and applying a compaction\<close>

record compaction_allocs =
  ok_prompt :: bool    \<comment> \<open>every append of the prompt\<close>
  ok_message :: bool   \<comment> \<open>\<open>message_new\<close> and its content\<close>
  ok_list :: bool      \<comment> \<open>the slot in the target list\<close>

definition context_compaction_prepare ::
  "compaction_allocs \<Rightarrow> message list \<Rightarrow> nat \<Rightarrow> agent_error \<times> compaction_request" where
  "context_compaction_prepare al items keep_recent =
     (let (start, count) = compaction_bounds items keep_recent;
          out = \<lparr>cr_start = start, cr_count = count, cr_messages = []\<rparr> in
      if count = 0 then (AGENT_OK, out)
      else if \<not> ok_prompt al then (AGENT_ERR_OOM, out)
      else if \<not> ok_message al then (AGENT_ERR_OOM, out)
      else if \<not> ok_list al then (AGENT_ERR_OOM, no_compaction)
      else (AGENT_OK,
            out\<lparr>cr_messages := [(message_new MSG_USER)
                 \<lparr>m_content := Some (build_summary_prompt items start count)\<rparr>]\<rparr>))"

definition context_compaction_apply ::
  "compaction_allocs \<Rightarrow> message_list \<Rightarrow> compaction_request \<Rightarrow> string option \<Rightarrow> agent_error \<times> message_list" where
  "context_compaction_apply al msgs request summary =
     (case summary of
        None \<Rightarrow> (AGENT_ERR_MODEL, msgs)
      | Some text1 \<Rightarrow>
          if cr_count request = 0 \<or> cr_start request \<ge> length (mitems msgs) \<or>
             cr_count request > length (mitems msgs) - cr_start request
          then (AGENT_ERR_MODEL, msgs)
          else
            (let safe_count = message_list_tool_safe_prefix_count (mitems msgs)
                                (cr_start request) (cr_count request) in
             if safe_count = 0 then (AGENT_ERR_MODEL, msgs)
             else if \<not> ok_message al then (AGENT_ERR_OOM, msgs)
             else
               (let sm = (message_new MSG_USER)\<lparr>m_content := Some text1\<rparr> in
                case message_list_insert (ok_list al) msgs (cr_start request) sm of
                  (AGENT_OK, msgs') \<Rightarrow>
                    (AGENT_OK, message_list_remove_range msgs' (cr_start request + 1) safe_count)
                | (err, msgs') \<Rightarrow> (AGENT_ERR_OOM, msgs'))))"

definition count_role :: "message list \<Rightarrow> message_role \<Rightarrow> nat" where
  "count_role items r = length (filter (\<lambda>m. m_role m = r) items)"

definition fallback_summary :: "message list \<Rightarrow> nat \<Rightarrow> nat \<Rightarrow> string" where
  "fallback_summary items start count =
     (let omitted = take count (drop start items) in
      ''[context compaction: '' @ show_nat count @ '' earlier message(s) omitted to '' @
      ''stay within the context window. Omitted: '' @ show_nat (count_role omitted MSG_USER) @ '' user, '' @
      show_nat (count_role omitted MSG_ASSISTANT) @ '' assistant, '' @
      show_nat (count_role omitted MSG_TOOL) @ '' tool, '' @
      show_nat (count_role omitted MSG_SYSTEM) @ '' system. The most recent messages, '' @
      ''the current goal and the latest tool results are preserved below.]'')"

definition context_compaction_apply_fallback ::
  "compaction_allocs \<Rightarrow> message_list \<Rightarrow> compaction_request \<Rightarrow> agent_error \<times> message_list" where
  "context_compaction_apply_fallback al msgs request =
     (if cr_count request = 0 \<or> cr_start request \<ge> length (mitems msgs) \<or>
         cr_count request > length (mitems msgs) - cr_start request
      then (AGENT_OK, msgs)
      else if \<not> ok_prompt al then (AGENT_ERR_OOM, msgs)
      else context_compaction_apply al msgs request
             (Some (fallback_summary (mitems msgs) (cr_start request) (cr_count request))))"

definition context_compact ::
  "compaction_allocs \<Rightarrow> compaction_allocs \<Rightarrow> message_list \<Rightarrow> nat \<Rightarrow> agent_error \<times> message_list" where
  "context_compact al1 al2 msgs keep_recent =
     (let (rc, request) = context_compaction_prepare al1 (mitems msgs) keep_recent in
      if rc = AGENT_OK \<and> cr_count request > 0
      then context_compaction_apply_fallback al2 msgs request
      else (rc, msgs))"

section \<open>What the estimate counts\<close>

lemma utf8_width_le4: "utf8_width bs \<le> 4"
  by (simp add: utf8_width_def Let_def)

lemma count_units_acc:
  "count_units bs a c = (a + fst (count_units bs 0 0), c + snd (count_units bs 0 0))"
proof (induction bs arbitrary: a c rule: length_induct)
  case (1 bs)
  show ?case
  proof (cases "bs = []")
    case True
    then show ?thesis by (simp add: count_units.simps [of "[]"])
  next
    case ne: False
    have IH: "count_units ys a c = (a + fst (count_units ys 0 0), c + snd (count_units ys 0 0))"
      if "length ys < length bs" for ys a c
      using 1 that by blast
    have t: "length (tl bs) < length bs" using ne by simp
    have d: "length (drop (utf8_width bs) bs) < length bs"
      using ne utf8_width_pos [of bs] by (cases bs) auto
    show ?thesis
      using ne IH [OF t, of "a + 1" c] IH [OF t, of 1 0] IH [OF d, of a "c + 1"] IH [OF d, of 0 1]
      by (simp add: count_units.simps [of bs a c] count_units.simps [of bs 0 0])
  qed
qed

definition units :: "string \<Rightarrow> int \<times> int" where
  "units bs = count_units bs 0 0"

lemma units_Nil [simp]: "units [] = (0, 0)"
  by (simp add: units_def count_units.simps)

lemma units_ascii: "byte b < 0x80 \<Longrightarrow> units (b # bs) = (fst (units bs) + 1, snd (units bs))"
  using count_units_acc [of bs 1 0] by (simp add: units_def count_units.simps [of "b # bs"])

lemma units_wide:
  "bs \<noteq> [] \<Longrightarrow> \<not> byte (hd bs) < 0x80 \<Longrightarrow>
   units bs = (fst (units (drop (utf8_width bs) bs)), snd (units (drop (utf8_width bs) bs)) + 1)"
  using count_units_acc [of "drop (utf8_width bs) bs" 0 1]
  by (simp add: units_def count_units.simps [of bs 0 0])

lemma count_text_units_acc: "count_text_units (Some bs) (a, c) = (a + fst (units bs), c + snd (units bs))"
  using count_units_acc [of bs a c] by (simp add: count_text_units_def units_def)

lemma units_bounds:
  "0 \<le> fst (units bs) \<and> 0 \<le> snd (units bs) \<and>
   fst (units bs) + snd (units bs) \<le> int (length bs) \<and>
   int (length bs) \<le> fst (units bs) + 4 * snd (units bs)"
proof (induction bs rule: length_induct)
  case (1 bs)
  show ?case
  proof (cases bs)
    case (Cons b rest)
    show ?thesis
    proof (cases "byte b < 0x80")
      case True
      with 1 Cons units_ascii [OF True, of rest] show ?thesis by auto
    next
      case False
      let ?d = "drop (utf8_width bs) bs"
      have l: "length ?d < length bs" "length bs \<le> length ?d + 4" "length ?d + 1 \<le> length bs"
        using utf8_width_pos [of bs] utf8_width_le4 [of bs] Cons by auto
      from 1 l(1) have ih: "0 \<le> fst (units ?d) \<and> 0 \<le> snd (units ?d) \<and>
          fst (units ?d) + snd (units ?d) \<le> int (length ?d) \<and>
          int (length ?d) \<le> fst (units ?d) + 4 * snd (units ?d)" by blast
      have "units bs = (fst (units ?d), snd (units ?d) + 1)"
        using units_wide [of bs] Cons False by simp
      with ih l(2,3) show ?thesis by auto
    qed
  qed simp
qed

text \<open>The estimate of a text of \<open>n\<close> bytes never exceeds \<open>n\<close> tokens and never falls below a
  quarter of it (up to the rounding of the ASCII part), whatever the bytes are.\<close>

theorem text_estimate_bounds:
  "text_estimate_tokens (Some bs) \<le> int (length bs) \<and>
   int (length bs) \<le> 4 * text_estimate_tokens (Some bs) + 3"
proof -
  have "text_estimate_tokens (Some bs) = fst (units bs) div 4 + snd (units bs)"
    using count_text_units_acc [of bs 0 0] by (simp add: text_estimate_tokens_def units_to_tokens_def)
  moreover have "fst (units bs) div 4 \<le> fst (units bs)" and "fst (units bs) \<le> 4 * (fst (units bs) div 4) + 3"
    using units_bounds [of bs] by linarith+
  ultimately show ?thesis using units_bounds [of bs] by linarith
qed

text \<open>A multi-byte sequence the scan recognises as a whole.\<close>

definition utf8_seq :: "string \<Rightarrow> bool" where
  "utf8_seq bs \<longleftrightarrow> 2 \<le> length bs \<and> \<not> byte (hd bs) < 0x80 \<and> utf8_width bs = length bs"

lemma utf8_width_append:
  assumes "utf8_seq bs"
  shows "utf8_width (bs @ rest) = length bs"
proof -
  from assms utf8_width_le4 [of bs] have len: "length bs \<in> {2, 3, 4}" by (auto simp: utf8_seq_def)
  then consider a b where "bs = [a, b]" | a b c where "bs = [a, b, c]" | a b c d where "bs = [a, b, c, d]"
    by (auto simp: length_Suc_conv numeral_eq_Suc)
  then show ?thesis
    using assms by cases (auto simp: utf8_seq_def utf8_width_def Let_def split: if_splits)
qed

text \<open>On a text made of ASCII bytes and multi-byte sequences, the scan counts exactly the
  ASCII bytes and the sequences, so the estimate is a quarter of the ASCII bytes plus one token
  for every other character.\<close>

theorem text_estimate_utf8:
  assumes "\<forall>ch \<in> set chs. (\<exists>b. ch = [b] \<and> byte b < 0x80) \<or> utf8_seq ch"
  shows "text_estimate_tokens (Some (concat chs)) =
         int (length (filter (\<lambda>ch. length ch = 1) chs)) div 4 +
         int (length (filter (\<lambda>ch. length ch \<noteq> 1) chs))"
proof -
  have "units (concat chs) = (int (length (filter (\<lambda>ch. length ch = 1) chs)),
                              int (length (filter (\<lambda>ch. length ch \<noteq> 1) chs)))"
    using assms
  proof (induction chs)
    case (Cons ch chs)
    show ?case
    proof (cases "\<exists>b. ch = [b] \<and> byte b < 0x80")
      case True
      with Cons show ?thesis by (auto simp: units_ascii)
    next
      case False
      with Cons.prems have u: "utf8_seq ch" by auto
      then have "ch \<noteq> []" and "\<not> byte (hd ch) < 0x80" and "length ch \<noteq> 1"
        by (auto simp: utf8_seq_def)
      with units_wide [of "ch @ concat chs"] utf8_width_append [OF u] Cons show ?thesis by simp
    qed
  qed simp
  then show ?thesis
    using count_text_units_acc [of "concat chs" 0 0]
    by (simp add: text_estimate_tokens_def units_to_tokens_def)
qed

theorem text_estimate_utf8_witness:
  "text_estimate_tokens (Some (concat [''a'', [CHR 0xC3, CHR 0xA9], [CHR 0xE4, CHR 0xBD, CHR 0xA0]])) = 2"
proof -
  have "\<forall>ch \<in> set [''a'', [CHR 0xC3, CHR 0xA9], [CHR 0xE4, CHR 0xBD, CHR 0xA0]].
          (\<exists>b. ch = [b] \<and> byte b < 0x80) \<or> utf8_seq ch"
    by (simp add: utf8_seq_def utf8_width_def byte_def is_cont_def Let_def)
  from text_estimate_utf8 [OF this] show ?thesis by simp
qed

section \<open>What a compaction keeps\<close>

lemma compaction_bounds_range:
  assumes "compaction_bounds items keep = (start, count)" and "0 < count"
  shows "start + count + max COMPACT_MIN_KEEP keep \<le> length items" and "start \<le> 1"
    and "start = 1 \<longleftrightarrow> m_role (items ! 0) = MSG_SYSTEM" and "items \<noteq> []"
proof -
  let ?k = "if keep < COMPACT_MIN_KEEP then COMPACT_MIN_KEEP else keep"
  from assms have len: "\<not> length items \<le> COMPACT_MIN_KEEP + 2" "\<not> length items \<le> ?k + 1"
    and st: "start = (if m_role (items ! 0) = MSG_SYSTEM then 1 else 0)"
    and ct: "count = message_list_tool_safe_prefix_count items start (length items - start - ?k)"
    by (auto simp: compaction_bounds_def Let_def split: if_splits)
  have "count \<le> length items - start - ?k" unfolding ct by (rule safe_prefix_le)
  moreover have "start + ?k \<le> length items" using len st by auto
  ultimately show "start + count + max COMPACT_MIN_KEEP keep \<le> length items"
    by (auto simp: max_def split: if_splits)
  show "start \<le> 1" "start = 1 \<longleftrightarrow> m_role (items ! 0) = MSG_SYSTEM" "items \<noteq> []"
    using st len by auto
qed

lemma apply_ok_items:
  assumes "context_compaction_apply al msgs req (Some s) = (AGENT_OK, msgs')"
  shows "cr_start req < length (mitems msgs)"
    and "0 < message_list_tool_safe_prefix_count (mitems msgs) (cr_start req) (cr_count req)"
    and "mitems msgs' = take (cr_start req) (mitems msgs)
           @ (message_new MSG_USER)\<lparr>m_content := Some s\<rparr>
           # drop (cr_start req + message_list_tool_safe_prefix_count (mitems msgs) (cr_start req) (cr_count req))
               (mitems msgs)"
proof -
  let ?n = "message_list_tool_safe_prefix_count (mitems msgs) (cr_start req) (cr_count req)"
  let ?sm = "(message_new MSG_USER)\<lparr>m_content := Some s\<rparr>"
  from assms show lt: "cr_start req < length (mitems msgs)" and "0 < ?n"
    by (auto simp: context_compaction_apply_def Let_def split: if_splits)
  from assms obtain m1 where ins: "message_list_insert (ok_list al) msgs (cr_start req) ?sm = (AGENT_OK, m1)"
    and m': "msgs' = message_list_remove_range m1 (cr_start req + 1) ?n"
    by (auto simp: context_compaction_apply_def Let_def split: if_splits prod.splits agent_error.splits)
  from insert_items [OF ins] lt show "mitems msgs' = take (cr_start req) (mitems msgs) @ ?sm
        # drop (cr_start req + ?n) (mitems msgs)"
    by (simp add: m' remove_range_items min_def add.commute)
qed

lemma apply_fail:
  "context_compaction_apply al msgs req s = (e, msgs') \<Longrightarrow> e \<noteq> AGENT_OK \<Longrightarrow> msgs' = msgs"
  by (auto simp: context_compaction_apply_def Let_def dest: insert_fail
      split: option.splits if_splits prod.splits agent_error.splits)

lemma tool_grouped_start:
  assumes "tool_grouped items" and "items \<noteq> []"
  shows "m_role (items ! 0) \<noteq> MSG_TOOL"
  using assms by (cases items) (auto simp: tool_grouped_def)

lemma tool_grouped_after_system:
  assumes "tool_grouped items" and "1 < length items" and "m_role (items ! 0) = MSG_SYSTEM"
  shows "m_role (items ! 1) \<noteq> MSG_TOOL"
  using assms by (cases items; cases "tl items") (auto simp: tool_grouped_def opens_def)

lemma grouped_splice:
  assumes g: "tool_grouped items" and tail: "drop k items = [] \<or> m_role (hd (drop k items)) \<noteq> MSG_TOOL"
    and sm: "m_role sm = MSG_USER"
  shows "tool_grouped (take j items @ sm # drop k items)"
proof -
  have t: "grouped_from False (take j items)"
    using g grouped_from_append [of False "take j items" "drop j items"] by (simp add: tool_grouped_def)
  have "grouped_from (foldl opens False (take k items)) (drop k items)"
    using g grouped_from_append [of False "take k items" "drop k items"] by (simp add: tool_grouped_def)
  with tail have "grouped_from False (drop k items)" using grouped_from_start by blast
  with t sm show ?thesis
    by (simp add: tool_grouped_def grouped_from_append opens_def grouped_from_mono)
qed

lemma compaction_apply_splice:
  assumes "context_compaction_apply al msgs req (Some s) = (e, msgs')"
    and "tool_grouped (mitems msgs)"
    and "cr_start req < length (mitems msgs) \<Longrightarrow> m_role (mitems msgs ! cr_start req) \<noteq> MSG_TOOL"
  shows "if e = AGENT_OK
         then tool_grouped (mitems msgs') \<and>
              (\<exists>n. 0 < n \<and> n \<le> cr_count req \<and>
                   mitems msgs' = take (cr_start req) (mitems msgs)
                     @ (message_new MSG_USER)\<lparr>m_content := Some s\<rparr>
                     # drop (cr_start req + n) (mitems msgs))
         else msgs' = msgs"
proof (cases "e = AGENT_OK")
  case False
  with apply_fail [OF assms(1)] show ?thesis by simp
next
  case True
  let ?n = "message_list_tool_safe_prefix_count (mitems msgs) (cr_start req) (cr_count req)"
  note ok = apply_ok_items [OF assms(1) [unfolded True]]
  from safe_prefix_cut [OF assms(2) ok(1) assms(3) [OF ok(1)] refl]
  have tail: "drop (cr_start req + ?n) (mitems msgs) = [] \<or>
              m_role (hd (drop (cr_start req + ?n) (mitems msgs))) \<noteq> MSG_TOOL"
    by (auto simp: hd_drop_conv_nth not_le)
  have "tool_grouped (mitems msgs')"
    unfolding ok(3) by (rule grouped_splice [OF assms(2) tail]) (simp add: message_new_def)
  with True ok(2,3) safe_prefix_le show ?thesis by auto
qed

text \<open>C40: applying a compaction is atomic and keeps the history usable.  On failure the
  messages are untouched; on success one user message with the summary replaces a non-empty
  range at the requested start, no longer than requested, everything before and after it is
  kept in order, and a history that follows the tool protocol still follows it.\<close>

theorem compaction_apply_safe:
  assumes "context_compaction_apply al msgs req (Some s) = (e, msgs')"
    and "tool_grouped (mitems msgs)"
    and "cr_start req < length (mitems msgs) \<Longrightarrow> m_role (mitems msgs ! cr_start req) \<noteq> MSG_TOOL"
  shows "if e = AGENT_OK
         then tool_grouped (mitems msgs') \<and>
              (\<exists>n. 0 < n \<and> n \<le> cr_count req \<and>
                   mitems msgs' = take (cr_start req) (mitems msgs)
                     @ (message_new MSG_USER)\<lparr>m_content := Some s\<rparr>
                     # drop (cr_start req + n) (mitems msgs))
         else msgs' = msgs"
  using assms by (rule compaction_apply_splice)

theorem compaction_apply_safe_witness:
  "\<exists>msgs'. context_compaction_apply \<lparr>ok_prompt = True, ok_message = True, ok_list = True\<rparr>
            \<lparr>mitems = [message_new MSG_USER, message_new MSG_USER], mcap = 4\<rparr>
            \<lparr>cr_start = 0, cr_count = 1, cr_messages = []\<rparr> (Some ''s'') = (AGENT_OK, msgs') \<and>
          tool_grouped (mitems msgs')"
proof -
  let ?al = "\<lparr>ok_prompt = True, ok_message = True, ok_list = True\<rparr>"
  let ?l = "\<lparr>mitems = [message_new MSG_USER, message_new MSG_USER], mcap = 4\<rparr>"
  let ?r = "\<lparr>cr_start = 0, cr_count = 1, cr_messages = []\<rparr>"
  have g: "tool_grouped (mitems ?l)" by (simp add: tool_grouped_def opens_def message_new_def)
  have nt: "cr_start ?r < length (mitems ?l) \<Longrightarrow> m_role (mitems ?l ! cr_start ?r) \<noteq> MSG_TOOL"
    by (simp add: message_new_def)
  obtain msgs' where ap: "context_compaction_apply ?al ?l ?r (Some ''s'') = (AGENT_OK, msgs')"
    by (simp add: context_compaction_apply_def message_list_insert_def message_list_room_def Let_def
        message_list_tool_safe_prefix_count_def message_new_def)
  from compaction_apply_safe [OF ap g nt] ap show ?thesis by simp
qed

lemma fallback_eq:
  "context_compaction_apply_fallback al msgs req = (e, msgs') \<Longrightarrow>
   msgs' = msgs \<or> (e = AGENT_OK \<and> (\<exists>s. context_compaction_apply al msgs req (Some s) = (AGENT_OK, msgs')))"
  by (cases "e = AGENT_OK")
     (auto simp: context_compaction_apply_fallback_def dest: apply_fail split: if_splits)

lemma compact_eq:
  assumes "context_compact al1 al2 msgs keep = (e, msgs')"
  shows "msgs' = msgs \<or>
    (\<exists>start count req s. compaction_bounds (mitems msgs) keep = (start, count) \<and> 0 < count \<and>
       cr_start req = start \<and> cr_count req = count \<and>
       context_compaction_apply al2 msgs req (Some s) = (AGENT_OK, msgs'))"
proof -
  obtain rc req where p: "context_compaction_prepare al1 (mitems msgs) keep = (rc, req)"
    by (cases "context_compaction_prepare al1 (mitems msgs) keep")
  obtain start count where b: "compaction_bounds (mitems msgs) keep = (start, count)"
    by (cases "compaction_bounds (mitems msgs) keep")
  show ?thesis
  proof (cases "rc = AGENT_OK \<and> cr_count req > 0")
    case True
    with p b have "cr_start req = start" "cr_count req = count" "0 < count"
      by (auto simp: context_compaction_prepare_def Let_def split: if_splits)
    moreover have "context_compaction_apply_fallback al2 msgs req = (e, msgs')"
      using assms p True by (simp add: context_compact_def)
    ultimately show ?thesis using fallback_eq b by blast
  next
    case False
    with assms p show ?thesis by (auto simp: context_compact_def)
  qed
qed

lemma drop_splice:
  assumes "i + n + k \<le> length xs"
  shows "drop (length xs - n + 1 - k) (take i xs @ y # drop (i + n) xs) = drop (length xs - k) xs"
proof -
  define d where "d = length xs - (i + n + k)"
  have i: "length xs - n + 1 - k = i + Suc d" and j: "length xs - k = i + n + d"
    using assms by (auto simp: d_def)
  have "min (length xs) i = i" using assms by simp
  then show ?thesis unfolding i j by (simp add: add.commute add.left_commute)
qed

lemma context_compact_splice:
  assumes "context_compact al1 al2 msgs keep = (e, msgs')" and "tool_grouped (mitems msgs)"
    and "k \<le> max COMPACT_MIN_KEEP keep" and "k \<le> length (mitems msgs)"
  shows "tool_grouped (mitems msgs') \<and>
         length (mitems msgs') \<le> length (mitems msgs) \<and>
         drop (length (mitems msgs') - k) (mitems msgs') = drop (length (mitems msgs) - k) (mitems msgs) \<and>
         (mitems msgs \<noteq> [] \<and> m_role (mitems msgs ! 0) = MSG_SYSTEM \<longrightarrow>
            mitems msgs' ! 0 = mitems msgs ! 0)"
  using compact_eq [OF assms(1)]
proof (elim disjE exE conjE)
  assume "msgs' = msgs"
  with assms(2) show ?thesis by simp
next
  fix start count req s
  assume b: "compaction_bounds (mitems msgs) keep = (start, count)" and c0: "0 < count"
    and st: "cr_start req = start" and ct: "cr_count req = count"
    and ap: "context_compaction_apply al2 msgs req (Some s) = (AGENT_OK, msgs')"
  let ?n = "message_list_tool_safe_prefix_count (mitems msgs) start count"
  note br = compaction_bounds_range [OF b c0]
  note ok = apply_ok_items [OF ap, unfolded st ct]
  have "m_role (mitems msgs ! start) \<noteq> MSG_TOOL"
  proof (cases "start = 0")
    case True
    then show ?thesis using tool_grouped_start [OF assms(2) br(4)] by simp
  next
    case False
    with br(2) have "start = 1" by simp
    then show ?thesis using tool_grouped_after_system [OF assms(2)] br(3) ok(1) by simp
  qed
  with compaction_apply_splice [OF ap assms(2)] st have g: "tool_grouped (mitems msgs')" by simp
  have n: "?n \<le> count" by (rule safe_prefix_le)
  have len: "length (mitems msgs') = length (mitems msgs) - ?n + 1"
    using ok n br(1) by simp
  have suffix: "drop (length (mitems msgs') - k) (mitems msgs') = drop (length (mitems msgs) - k) (mitems msgs)"
  proof -
    have "start + ?n + k \<le> length (mitems msgs)" using br(1) n assms(3) by linarith
    from drop_splice [OF this] show ?thesis unfolding len unfolding ok(3) .
  qed
  have "mitems msgs' ! 0 = mitems msgs ! 0" if "m_role (mitems msgs ! 0) = MSG_SYSTEM"
    using that br(3) ok(1,3) by (simp add: nth_append)
  moreover have "length (mitems msgs') \<le> length (mitems msgs)"
    using len ok(2) n br(1) by linarith
  ultimately show ?thesis using g suffix by blast
qed

text \<open>The one-shot compaction, whatever the allocator does: the history does not grow, the
  most recent messages (at least four, or as many as asked for) are kept unchanged at the end,
  a leading system message stays first, and the tool protocol is preserved.\<close>

theorem context_compact_keeps:
  assumes "context_compact al1 al2 msgs keep = (e, msgs')" and "tool_grouped (mitems msgs)"
    and "k \<le> max COMPACT_MIN_KEEP keep" and "k \<le> length (mitems msgs)"
  shows "tool_grouped (mitems msgs') \<and>
         length (mitems msgs') \<le> length (mitems msgs) \<and>
         drop (length (mitems msgs') - k) (mitems msgs') = drop (length (mitems msgs) - k) (mitems msgs) \<and>
         (mitems msgs \<noteq> [] \<and> m_role (mitems msgs ! 0) = MSG_SYSTEM \<longrightarrow>
            mitems msgs' ! 0 = mitems msgs ! 0)"
  using assms by (rule context_compact_splice)

theorem context_compact_keeps_witness:
  "\<exists>e msgs'. context_compact \<lparr>ok_prompt = True, ok_message = True, ok_list = True\<rparr>
            \<lparr>ok_prompt = True, ok_message = True, ok_list = True\<rparr>
            \<lparr>mitems = replicate 9 (message_new MSG_USER), mcap = 16\<rparr> 4 = (e, msgs') \<and>
          drop (length (mitems msgs') - 4) (mitems msgs') = drop (9 - 4) (replicate 9 (message_new MSG_USER))"
proof -
  let ?al = "\<lparr>ok_prompt = True, ok_message = True, ok_list = True\<rparr>"
  let ?l = "\<lparr>mitems = replicate 9 (message_new MSG_USER), mcap = 16\<rparr>"
  obtain e msgs' where c: "context_compact ?al ?al ?l 4 = (e, msgs')"
    by (cases "context_compact ?al ?al ?l 4")
  have g: "tool_grouped (mitems ?l)"
    by (simp add: tool_grouped_def opens_def message_new_def numeral_eq_Suc)
  have "4 \<le> max COMPACT_MIN_KEEP 4" and "4 \<le> length (mitems ?l)" by simp_all
  from context_compact_keeps [OF c g this] c show ?thesis by simp
qed

lemma append_prompt_text_length:
  "length out \<le> length (append_prompt_text out t)"
  "length (append_prompt_text out t) \<le> max (length out) SUMMARY_INPUT_MAX_CHARS"
  by (auto simp: append_prompt_text_def split: option.splits)

lemma append_tool_transcripts_length: "length out \<le> length (append_tool_transcripts out tcs)"
proof (induction out tcs rule: append_tool_transcripts.induct)
  case (2 out tc tcs)
  let ?o1 = "out @ ''\<newline>[tool call '' @ str_or_empty (tc_id tc) @ ''] '' @ str_or_empty (tc_name tc)
                   @ ''\<newline>arguments: ''"
  let ?o2 = "append_prompt_text ?o1 (tc_arguments tc) @ ''\<newline>result: ''"
  have "length out \<le> length ?o1" by simp
  also have "\<dots> \<le> length ?o2" using append_prompt_text_length(1) [of ?o1 "tc_arguments tc"] by simp
  also have "\<dots> \<le> length (append_prompt_text ?o2 (tc_result tc))" by (rule append_prompt_text_length(1))
  finally show ?case
    using 2 by (auto simp: Let_def intro: order_trans)
qed simp

lemma transcript_header: "length out + 14 \<le> length (append_message_transcript out m)"
proof -
  let ?h = "out @ ''\<newline>--- '' @ message_role_name (m_role m) @ '' ---\<newline>''"
  let ?o1 = "append_prompt_text ?h (m_content m)"
  let ?o2 = "append_prompt_text (?o1 @ ''\<newline>[reasoning]\<newline>'') (m_reasoning m)"
  have "length out + 14 \<le> length ?h" by (cases "m_role m") auto
  also have "\<dots> \<le> length ?o1" by (rule append_prompt_text_length(1))
  finally have o1: "length out + 14 \<le> length ?o1" .
  moreover have "length ?o1 \<le> length ?o2"
    using append_prompt_text_length(1) [of "?o1 @ ''\<newline>[reasoning]\<newline>''" "m_reasoning m"] by simp
  ultimately show ?thesis
    using append_tool_transcripts_length [of ?o1 "m_tool_calls m"]
      append_tool_transcripts_length [of ?o2 "m_tool_calls m"]
    by (auto simp: append_message_transcript_def Let_def)
qed

text \<open>The transcript prompt has no fixed bound: every compacted message adds its header even
  when the prompt already passed the input limit.\<close>

theorem summary_prompt_grows:
  assumes "start + count \<le> length items"
  shows "14 * count \<le> length (build_summary_prompt items start count)"
proof -
  have fold: "length out + 14 * length ms \<le> length (foldl append_message_transcript out ms)" for out ms
  proof (induction ms arbitrary: out)
    case (Cons m ms)
    from Cons.IH [of "append_message_transcript out m"] transcript_header [of out m]
    show ?case by simp
  qed simp
  have "length (take count (drop start items)) = count" using assms by simp
  with fold [of summary_instruction "take count (drop start items)"]
  show ?thesis by (auto simp: build_summary_prompt_def Let_def)
qed

theorem summary_prompt_grows_witness:
  "262144 < length (build_summary_prompt (replicate 20000 (message_new MSG_USER)) 0 20000)"
proof -
  have "0 + 20000 \<le> length (replicate 20000 (message_new MSG_USER))" by (simp only: length_replicate)
  from summary_prompt_grows [OF this] show ?thesis by linarith
qed

end
