(* ===== verification/Json.thy ===== *)
theory Json
  imports Prelude
begin

text \<open>
  The JSON layer of \<open>src/src/util/json.c\<close>.  The program adapts the yyjson library (not under
  \<open>src/\<close>); its values are trees, and the adapter's accessors and builders are the functions
  below.  A possibly-NULL \<open>JsonVal*\<close> is \<open>json option\<close>.  The parser and the writer of the
  library are the parameters \<open>read\<close> and \<open>render\<close> of the operations that use them.
  Builder calls append a member at the end of an object, as \<open>yyjson_mut_obj_add_val\<close> does,
  and lookups return the first member of that name.
\<close>

section \<open>Values\<close>

datatype json =
    JNull
  | JBool bool
  | JInt int
  | JReal int
  | JStr string
  | JArr "json list"
  | JObj "(string \<times> json) list"

text \<open>
  A double is represented by its value truncated toward zero, which is all the program's code
  reads of it (\<open>(int64_t)yyjson_get_real(v)\<close>).  \<open>int64_wrap\<close> is the cast to \<open>int64_t\<close>.
\<close>

definition int64_wrap :: "int \<Rightarrow> int" where
  "int64_wrap i = (i + 2 ^ 63) mod 2 ^ 64 - 2 ^ 63"

lemma int64_wrap_id: "- (2 ^ 63) \<le> i \<Longrightarrow> i < 2 ^ 63 \<Longrightarrow> int64_wrap i = i"
  by (simp add: int64_wrap_def)

section \<open>Access\<close>

definition json_parse :: "(string \<Rightarrow> json option) \<Rightarrow> string \<Rightarrow> json option" where
  "json_parse read data = read data"

definition json_val_is_obj :: "json option \<Rightarrow> bool" where
  "json_val_is_obj v = (case v of Some (JObj _) \<Rightarrow> True | _ \<Rightarrow> False)"

definition json_val_is_arr :: "json option \<Rightarrow> bool" where
  "json_val_is_arr v = (case v of Some (JArr _) \<Rightarrow> True | _ \<Rightarrow> False)"

definition json_val_is_str :: "json option \<Rightarrow> bool" where
  "json_val_is_str v = (case v of Some (JStr _) \<Rightarrow> True | _ \<Rightarrow> False)"

definition is_int :: "json option \<Rightarrow> bool" where
  "is_int v = (case v of Some (JInt _) \<Rightarrow> True | _ \<Rightarrow> False)"

definition is_real :: "json option \<Rightarrow> bool" where
  "is_real v = (case v of Some (JReal _) \<Rightarrow> True | _ \<Rightarrow> False)"

definition is_bool :: "json option \<Rightarrow> bool" where
  "is_bool v = (case v of Some (JBool _) \<Rightarrow> True | _ \<Rightarrow> False)"

definition json_val_str :: "json option \<Rightarrow> string option" where
  "json_val_str v = (case v of Some (JStr s) \<Rightarrow> Some s | _ \<Rightarrow> None)"

definition json_val_int :: "json option \<Rightarrow> int" where
  "json_val_int v = (case v of Some (JInt i) \<Rightarrow> int64_wrap i | Some (JReal q) \<Rightarrow> int64_wrap q | _ \<Rightarrow> 0)"

definition json_val_bool :: "json option \<Rightarrow> bool" where
  "json_val_bool v = (case v of Some (JBool b) \<Rightarrow> b | _ \<Rightarrow> False)"

definition json_val_obj_get :: "json option \<Rightarrow> string \<Rightarrow> json option" where
  "json_val_obj_get obj key = (case obj of Some (JObj kvs) \<Rightarrow> map_of kvs key | _ \<Rightarrow> None)"

definition json_val_arr_size :: "json option \<Rightarrow> nat" where
  "json_val_arr_size arr = (case arr of Some (JArr vs) \<Rightarrow> length vs | _ \<Rightarrow> 0)"

definition json_val_arr_get :: "json option \<Rightarrow> nat \<Rightarrow> json option" where
  "json_val_arr_get arr i =
     (case arr of Some (JArr vs) \<Rightarrow> if i < length vs then Some (vs ! i) else None | _ \<Rightarrow> None)"

definition json_obj_get_str :: "json option \<Rightarrow> string \<Rightarrow> string option" where
  "json_obj_get_str obj key = json_val_str (json_val_obj_get obj key)"

definition json_obj_get_int :: "json option \<Rightarrow> string \<Rightarrow> int \<Rightarrow> int" where
  "json_obj_get_int obj key dflt =
     (case json_val_obj_get obj key of
        Some (JInt i) \<Rightarrow> int64_wrap i
      | Some (JReal q) \<Rightarrow> int64_wrap q
      | _ \<Rightarrow> dflt)"

definition json_obj_get_bool :: "json option \<Rightarrow> string \<Rightarrow> bool \<Rightarrow> bool" where
  "json_obj_get_bool obj key dflt =
     (case json_val_obj_get obj key of Some (JBool b) \<Rightarrow> b | _ \<Rightarrow> dflt)"

text \<open>A member read as a C string ends at its first NUL.\<close>

definition c_get_str :: "json option \<Rightarrow> string \<Rightarrow> string option" where
  "c_get_str obj key = map_option c_str (json_obj_get_str obj key)"

text \<open>\<open>json_obj_foreach\<close>: the members in order until the callback reports an error; the
  callback threads its own state \<open>'s\<close>.\<close>

fun foreach_members ::
  "(string \<Rightarrow> json \<Rightarrow> 's \<Rightarrow> agent_error \<times> 's) \<Rightarrow> (string \<times> json) list \<Rightarrow> 's \<Rightarrow> agent_error \<times> 's" where
  "foreach_members cb [] s = (AGENT_OK, s)"
| "foreach_members cb ((k, v) # kvs) s =
     (let (rc, s') = cb k v s in
      if rc \<noteq> AGENT_OK then (rc, s') else foreach_members cb kvs s')"

definition json_obj_foreach ::
  "json option \<Rightarrow> (string \<Rightarrow> json \<Rightarrow> 's \<Rightarrow> agent_error \<times> 's) \<Rightarrow> 's \<Rightarrow> agent_error \<times> 's" where
  "json_obj_foreach obj cb s =
     (case obj of Some (JObj kvs) \<Rightarrow> foreach_members cb kvs s | _ \<Rightarrow> (AGENT_ERR_JSON, s))"

section \<open>Building\<close>

text \<open>
  A builder call on an object under construction; children are attached once complete.  The
  library's allocations are assumed to succeed.  Adding to a value that is not an object is
  an error, as in yyjson.
\<close>

definition json_builder_obj_add_val_copy :: "json \<Rightarrow> string \<Rightarrow> json option \<Rightarrow> agent_error \<times> json" where
  "json_builder_obj_add_val_copy obj key src =
     (case (obj, src) of
        (JObj kvs, Some v) \<Rightarrow> (AGENT_OK, JObj (kvs @ [(key, v)]))
      | _ \<Rightarrow> (AGENT_ERR_OOM, obj))"

definition json_builder_obj_add_str :: "json \<Rightarrow> string \<Rightarrow> string option \<Rightarrow> agent_error \<times> json" where
  "json_builder_obj_add_str obj key value =
     (case (obj, value) of
        (JObj kvs, Some s) \<Rightarrow> (AGENT_OK, JObj (kvs @ [(key, JStr s)]))
      | _ \<Rightarrow> (AGENT_ERR_OOM, obj))"

definition json_builder_obj_add_int :: "json \<Rightarrow> string \<Rightarrow> int \<Rightarrow> agent_error \<times> json" where
  "json_builder_obj_add_int obj key value =
     (case obj of
        JObj kvs \<Rightarrow> (AGENT_OK, JObj (kvs @ [(key, JInt value)]))
      | _ \<Rightarrow> (AGENT_ERR_OOM, obj))"

definition json_builder_obj_add_bool :: "json \<Rightarrow> string \<Rightarrow> bool \<Rightarrow> agent_error \<times> json" where
  "json_builder_obj_add_bool obj key value =
     (case obj of
        JObj kvs \<Rightarrow> (AGENT_OK, JObj (kvs @ [(key, JBool value)]))
      | _ \<Rightarrow> (AGENT_ERR_OOM, obj))"

definition json_builder_arr_add :: "json \<Rightarrow> json \<Rightarrow> json" where
  "json_builder_arr_add arr v = (case arr of JArr vs \<Rightarrow> JArr (vs @ [v]) | _ \<Rightarrow> arr)"

text \<open>\<open>json_builder_stringify\<close>: the text, or \<open>AGENT_ERR_JSON\<close> when the writer refuses.\<close>

definition json_builder_stringify ::
  "(json \<Rightarrow> string option) \<Rightarrow> json \<Rightarrow> string \<Rightarrow> agent_error \<times> string" where
  "json_builder_stringify render doc out =
     (case render doc of None \<Rightarrow> (AGENT_ERR_JSON, out) | Some txt1 \<Rightarrow> (AGENT_OK, out @ txt1))"

text \<open>
  What files of one document expect of the library: a printed document, with the newline that ends the
  file, reads back as the value that was printed.
\<close>

definition reads_back :: "(string \<Rightarrow> json option) \<Rightarrow> (json \<Rightarrow> string option) \<Rightarrow> bool" where
  "reads_back read render \<longleftrightarrow> (\<forall>j t. render j = Some t \<longrightarrow> read (t @ [CHR 0x0A]) = Some j)"

section \<open>Facts\<close>

named_theorems json_simps \<open>evaluation of the JSON accessors and builders\<close>

declare json_val_obj_get_def [json_simps] json_obj_get_str_def [json_simps]
  json_obj_get_int_def [json_simps] json_obj_get_bool_def [json_simps]
  json_val_str_def [json_simps] json_val_is_obj_def [json_simps]
  json_builder_obj_add_str_def [json_simps] json_builder_obj_add_int_def [json_simps]
  json_builder_obj_add_bool_def [json_simps] json_builder_obj_add_val_copy_def [json_simps]

lemma obj_get_add_str:
  assumes "json_builder_obj_add_str obj key (Some s) = (AGENT_OK, obj')"
  shows "json_obj_get_str (Some obj') k =
         (if k = key \<and> json_val_obj_get (Some obj) k = None then Some s else json_obj_get_str (Some obj) k)"
  using assms by (cases obj) (auto simp: json_simps map_add_def split: option.splits if_splits)

lemma foreach_all:
  assumes "\<And>k v s. fst (cb k v s) = AGENT_OK"
  shows "foreach_members cb kvs s = (AGENT_OK, foldl (\<lambda>s (k, v). snd (cb k v s)) s kvs)"
proof (induction kvs arbitrary: s)
  case (Cons kv kvs)
  obtain k v where kv: "kv = (k, v)" by (cases kv)
  have "fst (cb k v s) = AGENT_OK" by (rule assms)
  with Cons kv show ?case by (simp add: split_beta)
qed simp

end
