(* ===== verification/Registry.thy ===== *)
theory Registry
  imports Json
begin

text \<open>
  Tools and the tool registry: \<open>src/src/tool/tool.h\<close> and \<open>src/src/tool/registry.c\<close>.  A tool's
  entry points are function pointers; here they are optional functions on the world \<open>'w\<close> the
  tools act on (files, processes, child agents), so that every tool implementation is covered.
  A pending task is the record of its three function pointers.  The registry keeps the parallel
  arrays \<open>tools\<close> and \<open>enabled\<close>, with registration, lookup, enabling and the provider schema.
\<close>

section \<open>Tools\<close>

record tool_result =
  tr_content :: "string option"
  tr_is_error :: bool

definition zero_result :: tool_result where
  "zero_result = \<lparr>tr_content = None, tr_is_error = False\<rparr>"

record 'w tool_task =
  tk_poll :: "('w \<Rightarrow> (agent_error \<times> tool_result \<times> bool) \<times> 'w) option"
  tk_cancel :: "('w \<Rightarrow> 'w) option"
  tk_destroy :: "('w \<Rightarrow> 'w) option"

record 'w tool =
  t_name :: string
  t_description :: string
  t_input_schema :: string
  t_flags :: "32 word"
  t_preview :: "(string \<Rightarrow> 'w \<Rightarrow> (agent_error \<times> tool_result) \<times> 'w) option"
  t_execute :: "(string \<Rightarrow> 'w \<Rightarrow> (agent_error \<times> tool_result) \<times> 'w) option"
  t_start :: "(string \<Rightarrow> 'w \<Rightarrow> (agent_error \<times> tool_result \<times> 'w tool_task option) \<times> 'w) option"

definition TOOL_FLAG_APPROVAL_REQUIRED :: "32 word" where
  "TOOL_FLAG_APPROVAL_REQUIRED = 1"

definition TOOL_FLAG_PARALLEL_SAFE :: "32 word" where
  "TOOL_FLAG_PARALLEL_SAFE = 2"

definition approval_required :: "'w tool \<Rightarrow> bool" where
  "approval_required t \<longleftrightarrow> and (t_flags t) TOOL_FLAG_APPROVAL_REQUIRED \<noteq> 0"

definition parallel_safe :: "'w tool \<Rightarrow> bool" where
  "parallel_safe t \<longleftrightarrow> and (t_flags t) TOOL_FLAG_PARALLEL_SAFE \<noteq> 0"

section \<open>The registry\<close>

record 'w tool_registry =
  r_tools :: "'w tool list"
  r_enabled :: "bool list"
  r_cap :: nat

definition REGISTRY_MIN_CAP :: nat where
  "REGISTRY_MIN_CAP = 8"

definition sizeof_ptr :: nat where
  "sizeof_ptr = 8"

definition tool_registry_new :: "'w allocator \<Rightarrow> 't tool_registry option" where
  "tool_registry_new h =
     (if grants h (REGISTRY_MIN_CAP * sizeof_ptr) \<and> grants h REGISTRY_MIN_CAP
      then Some \<lparr>r_tools = [], r_enabled = [], r_cap = REGISTRY_MIN_CAP\<rparr> else None)"

definition tool_registry_find :: "'w tool_registry \<Rightarrow> string \<Rightarrow> 'w tool option" where
  "tool_registry_find reg name =
     map_option fst (find (\<lambda>(t, on). on \<and> t_name t = name) (zip (r_tools reg) (r_enabled reg)))"

definition tool_registry_register ::
  "'h allocator \<Rightarrow> 'w tool_registry \<Rightarrow> 'w tool \<Rightarrow> agent_error \<times> 'w tool_registry" where
  "tool_registry_register h reg tool =
     (if tool_registry_find reg (t_name tool) \<noteq> None then (AGENT_ERR_TOOL, reg)
      else
        (let push = (\<lambda>r. r\<lparr>r_tools := r_tools r @ [tool], r_enabled := r_enabled r @ [True]\<rparr>) in
         if length (r_tools reg) = r_cap reg then
           (if r_cap reg > SIZE_MAX div 2 then (AGENT_ERR_OOM, reg)
            else
              (let new_cap = r_cap reg * 2 in
               if new_cap > SIZE_MAX div sizeof_ptr then (AGENT_ERR_OOM, reg)
               else if \<not> grants h (new_cap * sizeof_ptr) then (AGENT_ERR_OOM, reg)
               else if \<not> grants h new_cap then (AGENT_ERR_OOM, reg)
               else (AGENT_OK, push (reg\<lparr>r_cap := new_cap\<rparr>))))
         else (AGENT_OK, push reg)))"

text \<open>The index of the first tool of that name, enabled or not.\<close>

fun name_index :: "string \<Rightarrow> 'w tool list \<Rightarrow> nat option" where
  "name_index name [] = None"
| "name_index name (t # ts) = (if t_name t = name then Some 0 else map_option Suc (name_index name ts))"

definition tool_registry_set_enabled :: "'w tool_registry \<Rightarrow> string \<Rightarrow> bool \<Rightarrow> 'w tool_registry" where
  "tool_registry_set_enabled reg name on =
     (case name_index name (r_tools reg) of
        None \<Rightarrow> reg
      | Some i \<Rightarrow> reg\<lparr>r_enabled := (r_enabled reg)[i := on]\<rparr>)"

definition tool_registry_is_enabled :: "'w tool_registry \<Rightarrow> string \<Rightarrow> bool" where
  "tool_registry_is_enabled reg name =
     (case name_index name (r_tools reg) of None \<Rightarrow> False | Some i \<Rightarrow> r_enabled reg ! i)"

definition tool_registry_count :: "'w tool_registry \<Rightarrow> nat" where
  "tool_registry_count reg = length (r_tools reg)"

text \<open>One entry of the provider's tools array, and the array of the enabled tools.\<close>

definition schema_entry :: "(string \<Rightarrow> json option) \<Rightarrow> 'w tool \<Rightarrow> agent_error \<times> json" where
  "schema_entry read t =
     (case json_parse read (t_input_schema t) of
        None \<Rightarrow> (AGENT_ERR_JSON, JNull)
      | Some schema \<Rightarrow>
          if \<not> json_val_is_obj (Some schema) then (AGENT_ERR_JSON, JNull)
          else (AGENT_OK,
                JObj [(''function'', JObj [(''name'', JStr (t_name t)),
                                          (''description'', JStr (t_description t)),
                                          (''parameters'', schema)]),
                      (''type'', JStr ''function'')]))"

fun schema_entries :: "(string \<Rightarrow> json option) \<Rightarrow> ('w tool \<times> bool) list \<Rightarrow> json list \<Rightarrow> agent_error \<times> json list" where
  "schema_entries read [] acc = (AGENT_OK, acc)"
| "schema_entries read ((t, on) # ts) acc =
     (if \<not> on then schema_entries read ts acc
      else
        (let (rc, j) = schema_entry read t in
         if rc \<noteq> AGENT_OK then (rc, acc) else schema_entries read ts (acc @ [j])))"

definition tool_registry_schema_json ::
  "(string \<Rightarrow> json option) \<Rightarrow> (json \<Rightarrow> string option) \<Rightarrow> 'w tool_registry \<Rightarrow> string \<Rightarrow> agent_error \<times> string" where
  "tool_registry_schema_json read render reg out =
     (let (rc, arr) = schema_entries read (zip (r_tools reg) (r_enabled reg)) [] in
      if rc \<noteq> AGENT_OK then (rc, out) else json_builder_stringify render (JArr arr) out)"

definition tool_registry_schema_bytes ::
  "(string \<Rightarrow> json option) \<Rightarrow> (json \<Rightarrow> string option) \<Rightarrow> 'w tool_registry \<Rightarrow> agent_error \<times> nat" where
  "tool_registry_schema_bytes read render reg =
     (let (rc, schema) = tool_registry_schema_json read render reg [] in
      (rc, if rc = AGENT_OK then length schema else 0))"

section \<open>Behaviour\<close>

definition registry_ok :: "'w tool_registry \<Rightarrow> bool" where
  "registry_ok reg \<longleftrightarrow> length (r_enabled reg) = length (r_tools reg) \<and> length (r_tools reg) \<le> r_cap reg \<and>
     0 < r_cap reg"

lemma name_index_None: "name_index name ts = None \<longleftrightarrow> name \<notin> t_name ` set ts"
  by (induction ts) auto

lemma name_index_Some:
  "name_index name ts = Some i \<Longrightarrow> i < length ts \<and> t_name (ts ! i) = name \<and> (\<forall>j<i. t_name (ts ! j) \<noteq> name)"
proof (induction ts arbitrary: i)
  case (Cons t ts)
  show ?case
  proof (cases "t_name t = name")
    case True
    with Cons.prems show ?thesis by simp
  next
    case False
    with Cons.prems obtain k where "name_index name ts = Some k" "i = Suc k" by auto
    with Cons.IH [of k] False show ?thesis by (auto simp: nth_Cons split: nat.splits)
  qed
qed simp

lemma find_None_enabled:
  assumes "registry_ok reg"
  shows "tool_registry_find reg name = None \<longleftrightarrow>
         (\<forall>i<length (r_tools reg). r_enabled reg ! i \<longrightarrow> t_name (r_tools reg ! i) \<noteq> name)"
  using assms by (auto simp: tool_registry_find_def find_None_iff in_set_zip registry_ok_def)

lemma find_Some_registered:
  assumes "tool_registry_find reg name = Some t"
  shows "t \<in> set (r_tools reg) \<and> t_name t = name"
proof -
  from assms obtain on where "find (\<lambda>(t, on). on \<and> t_name t = name) (zip (r_tools reg) (r_enabled reg)) = Some (t, on)"
    by (auto simp: tool_registry_find_def)
  from this [unfolded find_Some_iff] obtain i where
    i: "i < length (zip (r_tools reg) (r_enabled reg))" "(t, on) = zip (r_tools reg) (r_enabled reg) ! i" "t_name t = name"
    by (metis (mono_tags, lifting) case_prod_conv)
  then have "t = r_tools reg ! i" and "i < length (r_tools reg)" by simp_all
  with i(3) show ?thesis by simp
qed

lemma find_append_new:
  "find P (xs @ [x]) = (case find P xs of Some y \<Rightarrow> Some y | None \<Rightarrow> if P x then Some x else None)"
  by (induction xs) auto

lemma find_update_other: "\<not> P y \<Longrightarrow> k < length xs \<longrightarrow> \<not> P (xs ! k) \<Longrightarrow> find P (xs[k := y]) = find P xs"
  by (induction xs arbitrary: k) (auto split: nat.splits)

lemma register_ok_fields:
  assumes "registry_ok reg" and "tool_registry_register h reg tool = (AGENT_OK, reg')"
  shows "r_tools reg' = r_tools reg @ [tool] \<and> r_enabled reg' = r_enabled reg @ [True] \<and> registry_ok reg' \<and>
         tool_registry_find reg (t_name tool) = None"
  using assms by (auto simp: tool_registry_register_def registry_ok_def Let_def split: if_splits)

text \<open>Registering a tool. A name that some enabled tool already has is refused and nothing
  changes; a failed registration (out of memory) changes nothing; after a successful one the new
  tool is found under its name and every other name finds what it found before.\<close>

theorem register_spec:
  assumes "registry_ok reg" and "tool_registry_register h reg tool = (rc, reg')"
  shows "registry_ok reg' \<and>
         (rc \<noteq> AGENT_OK \<longrightarrow> reg' = reg) \<and>
         (tool_registry_find reg (t_name tool) \<noteq> None \<longrightarrow> rc = AGENT_ERR_TOOL) \<and>
         (rc = AGENT_OK \<longrightarrow>
            tool_registry_find reg' (t_name tool) = Some tool \<and>
            tool_registry_count reg' = tool_registry_count reg + 1 \<and>
            (\<forall>name. name \<noteq> t_name tool \<longrightarrow> tool_registry_find reg' name = tool_registry_find reg name))"
proof (cases "rc = AGENT_OK")
  case True
  from register_ok_fields [OF assms(1)] assms(2) True
  have f: "r_tools reg' = r_tools reg @ [tool]" "r_enabled reg' = r_enabled reg @ [True]" "registry_ok reg'"
    "tool_registry_find reg (t_name tool) = None" by auto
  have z: "zip (r_tools reg') (r_enabled reg') = zip (r_tools reg) (r_enabled reg) @ [(tool, True)]"
    using f(1,2) assms(1) by (simp add: registry_ok_def)
  have "tool_registry_find reg' name =
     (case tool_registry_find reg name of Some t \<Rightarrow> Some t
      | None \<Rightarrow> if t_name tool = name then Some tool else None)" for name
    unfolding tool_registry_find_def z find_append_new
    by (cases "find (\<lambda>(t, on). on \<and> t_name t = name) (zip (r_tools reg) (r_enabled reg))") auto
  with f True show ?thesis by (auto simp: tool_registry_count_def split: option.splits)
next
  case False
  with assms show ?thesis
    by (auto simp: tool_registry_register_def Let_def split: if_splits)
qed

definition sample_tool :: "string \<Rightarrow> 32 word \<Rightarrow> 'w tool" where
  "sample_tool name flags = \<lparr>t_name = name, t_description = ''d'', t_input_schema = ''{}'', t_flags = flags,
     t_preview = None, t_execute = None, t_start = None\<rparr>"

theorem register_spec_witness:
  "\<exists>rc reg'. tool_registry_register \<lparr>grants = (\<lambda>_. True), junk = (\<lambda>_. ())\<rparr>
      (\<lparr>r_tools = [], r_enabled = [], r_cap = 8\<rparr> :: nat tool_registry) (sample_tool ''read'' 2) = (rc, reg') \<and>
    rc = AGENT_OK \<and> tool_registry_find reg' ''read'' = Some (sample_tool ''read'' 2)"
proof -
  let ?reg = "\<lparr>r_tools = [], r_enabled = [], r_cap = 8\<rparr> :: nat tool_registry"
  let ?r = "tool_registry_register \<lparr>grants = (\<lambda>_. True), junk = (\<lambda>_. ())\<rparr> ?reg (sample_tool ''read'' 2)"
  have ok: "registry_ok ?reg" by (simp add: registry_ok_def)
  have rc: "fst ?r = AGENT_OK" by (simp add: tool_registry_register_def tool_registry_find_def)
  have "t_name (sample_tool ''read'' 2 :: nat tool) = ''read''" by (simp add: sample_tool_def)
  with register_spec [OF ok prod.collapse [symmetric, of ?r]] rc
  show ?thesis by (metis prod.collapse)
qed

text \<open>Disabling and enabling. The switch affects only the first tool of that name: lookups
  of every other name are unchanged, a disabled tool with a unique name is not found, and
  enabling it again restores the lookup.\<close>

theorem set_enabled_spec:
  assumes "registry_ok reg" and "distinct (map t_name (r_tools reg))" and "t \<in> set (r_tools reg)"
  shows "tool_registry_find (tool_registry_set_enabled reg (t_name t) on) (t_name t) = (if on then Some t else None) \<and>
         tool_registry_is_enabled (tool_registry_set_enabled reg (t_name t) on) (t_name t) = on \<and>
         (name \<noteq> t_name t \<longrightarrow>
            tool_registry_find (tool_registry_set_enabled reg (t_name t) on) name = tool_registry_find reg name)"
proof -
  obtain i where ni: "name_index (t_name t) (r_tools reg) = Some i"
    using assms(3) name_index_None [of "t_name t" "r_tools reg"] by (cases "name_index (t_name t) (r_tools reg)") auto
  note i = name_index_Some [OF ni]
  have uniq: "k = i" if "k < length (r_tools reg)" "t_name (r_tools reg ! k) = t_name t" for k
    using that i assms(2) by (metis distinct_conv_nth length_map nth_map)
  have ti: "r_tools reg ! i = t" using assms(3) uniq by (metis in_set_conv_nth)
  let ?reg' = "tool_registry_set_enabled reg (t_name t) on"
  have f: "r_tools ?reg' = r_tools reg" "r_enabled ?reg' = (r_enabled reg)[i := on]" "r_cap ?reg' = r_cap reg"
    by (simp_all add: tool_registry_set_enabled_def ni)
  have len: "length (r_enabled reg) = length (r_tools reg)" using assms(1) by (simp add: registry_ok_def)
  have ok': "registry_ok ?reg'" using assms(1) f by (simp add: registry_ok_def)
  have "tool_registry_find ?reg' (t_name t) = (if on then Some t else None)"
  proof (cases on)
    case True
    have "tool_registry_find ?reg' (t_name t) \<noteq> None"
      unfolding find_None_enabled [OF ok'] using i ti True f len by auto
    then obtain u where u: "tool_registry_find ?reg' (t_name t) = Some u" by auto
    from find_Some_registered [OF this] f uniq ti have "u = t" by (metis in_set_conv_nth)
    with u True show ?thesis by simp
  next
    case False
    have "tool_registry_find ?reg' (t_name t) = None"
      unfolding find_None_enabled [OF ok'] using uniq False f len by (auto simp: nth_list_update)
    with False show ?thesis by simp
  qed
  moreover have "tool_registry_is_enabled ?reg' (t_name t) = on"
    using i len by (simp add: tool_registry_is_enabled_def f ni)
  moreover have "tool_registry_find ?reg' name = tool_registry_find reg name" if "name \<noteq> t_name t"
  proof -
    have zu: "zip (r_tools reg) ((r_enabled reg)[i := on]) = (zip (r_tools reg) (r_enabled reg))[i := (t, on)]"
      using update_zip [of "r_tools reg" "r_enabled reg" i "(t, on)"] ti i by (metis fst_conv snd_conv list_update_id)
    let ?P = "\<lambda>(t, on). on \<and> t_name t = name" and ?z = "zip (r_tools reg) (r_enabled reg)"
    have "\<not> ?P (t, on)" and "i < length ?z \<longrightarrow> \<not> ?P (?z ! i)" using that ti len i by auto
    from find_update_other [of ?P, OF this] show ?thesis
      by (simp only: tool_registry_find_def f zu)
  qed
  ultimately show ?thesis by blast
qed

theorem set_enabled_spec_witness:
  "tool_registry_find (tool_registry_set_enabled
      (\<lparr>r_tools = [sample_tool ''read'' 2], r_enabled = [True], r_cap = 8\<rparr> :: nat tool_registry) ''read'' False)
      ''read'' = None"
proof -
  let ?reg = "\<lparr>r_tools = [sample_tool ''read'' 2], r_enabled = [True], r_cap = 8\<rparr> :: nat tool_registry"
  have "registry_ok ?reg" "distinct (map t_name (r_tools ?reg))" "sample_tool ''read'' 2 \<in> set (r_tools ?reg)"
    by (simp_all add: registry_ok_def)
  from set_enabled_spec [OF this, where on = False and name = "''x''"] show ?thesis
    by (simp add: sample_tool_def)
qed

text \<open>The duplicate check only sees enabled tools: once the tool of a name is disabled,
  another tool of the same name is accepted (whenever memory suffices), the registry then holds
  two tools of that name, and enabling the name again brings back the first one and hides the
  second.\<close>

theorem register_accepts_disabled_duplicate:
  assumes "registry_ok reg" and "distinct (map t_name (r_tools reg))" and "t \<in> set (r_tools reg)"
    and "t_name u = t_name t" and "length (r_tools reg) < r_cap reg"
  shows "\<exists>reg'. tool_registry_register h (tool_registry_set_enabled reg (t_name t) False) u = (AGENT_OK, reg') \<and>
           \<not> distinct (map t_name (r_tools reg')) \<and>
           tool_registry_find reg' (t_name t) = Some u \<and>
           tool_registry_is_enabled reg' (t_name t) = False"
proof -
  obtain i where ni: "name_index (t_name t) (r_tools reg) = Some i"
    using assms(3) name_index_None [of "t_name t" "r_tools reg"] by (cases "name_index (t_name t) (r_tools reg)") auto
  note i = name_index_Some [OF ni]
  let ?off = "tool_registry_set_enabled reg (t_name t) False"
  let ?reg' = "?off\<lparr>r_tools := r_tools ?off @ [u], r_enabled := r_enabled ?off @ [True]\<rparr>"
  have f: "r_tools ?off = r_tools reg" "r_enabled ?off = (r_enabled reg)[i := False]" "r_cap ?off = r_cap reg"
    by (simp_all add: tool_registry_set_enabled_def ni)
  have len: "length (r_enabled reg) = length (r_tools reg)" using assms(1) by (simp add: registry_ok_def)
  have ok: "registry_ok ?off" using assms(1) f by (simp add: registry_ok_def)
  have uniq: "k = i" if "k < length (r_tools reg)" "t_name (r_tools reg ! k) = t_name t" for k
    using that i assms(2) by (metis distinct_conv_nth length_map nth_map)
  have none: "tool_registry_find ?off (t_name t) = None"
    unfolding find_None_enabled [OF ok] using uniq f len by (auto simp: nth_list_update)
  have reg: "tool_registry_register h ?off u = (AGENT_OK, ?reg')"
    using none assms(4,5) by (simp add: tool_registry_register_def f)
  have dup: "\<not> distinct (map t_name (r_tools ?reg'))"
    using assms(3,4) f by auto
  have find: "tool_registry_find ?reg' (t_name t) = Some u"
  proof -
    have z: "zip (r_tools ?off @ [u]) (r_enabled ?off @ [True]) = zip (r_tools ?off) (r_enabled ?off) @ [(u, True)]"
      using f len by simp
    have "find (\<lambda>(s, on). on \<and> t_name s = t_name t) (zip (r_tools ?off) (r_enabled ?off)) = None"
      using none by (simp add: tool_registry_find_def)
    then show ?thesis using assms(4) by (simp add: tool_registry_find_def z find_append_new del: find.simps)
  qed
  have ni': "name_index n (xs @ ys) = Some k" if "name_index n xs = Some k" for n k and xs ys :: "'a tool list"
    using that by (induction xs arbitrary: k) (auto split: if_splits)
  have "tool_registry_is_enabled ?reg' (t_name t) = False"
    using ni' [OF ni, of "[u]"] i len by (simp add: tool_registry_is_enabled_def f nth_append)
  with reg dup find show ?thesis by blast
qed

theorem register_accepts_disabled_duplicate_witness:
  "\<exists>reg'. tool_registry_register \<lparr>grants = (\<lambda>_. True), junk = (\<lambda>_. ())\<rparr>
     (tool_registry_set_enabled (\<lparr>r_tools = [sample_tool ''read'' 2], r_enabled = [True], r_cap = 8\<rparr>
        :: nat tool_registry) (t_name (sample_tool ''read'' 2 :: nat tool)) False) (sample_tool ''read'' 1) = (AGENT_OK, reg') \<and>
     \<not> distinct (map t_name (r_tools reg'))"
proof -
  let ?reg = "\<lparr>r_tools = [sample_tool ''read'' 2], r_enabled = [True], r_cap = 8\<rparr> :: nat tool_registry"
  have "registry_ok ?reg" "distinct (map t_name (r_tools ?reg))" "sample_tool ''read'' 2 \<in> set (r_tools ?reg)"
    "t_name (sample_tool ''read'' 1 :: nat tool) = t_name (sample_tool ''read'' 2 :: nat tool)"
    "length (r_tools ?reg) < r_cap ?reg"
    by (simp_all add: registry_ok_def sample_tool_def)
  from register_accepts_disabled_duplicate [OF this] show ?thesis by blast
qed

end
