(* ===== verification/Session.thy ===== *)
theory Session
  imports Context Json
begin

text \<open>
  Session persistence: \<open>src/src/session/session.c\<close>.  A session is the C struct plus the
  content of its append-only JSONL file (\<open>s_file\<close>), whether the file can be opened for
  appending (\<open>s_writable\<close>), and how many bytes of each of the next lines reach the file
  (\<open>s_writes\<close>; empty: all of every line).  \<open>append_line\<close> looks at the result of neither \<open>fwrite\<close> nor
  \<open>fclose\<close>, so a line that is cut short is reported as appended; the round trips therefore assume
  \<open>takes_json\<close>, that the line reaches the file, and \<open>short_append_loses\<close> shows what happens when it
  does not.  JSON text is read and written by the yyjson library, the
  parameters \<open>read\<close> and \<open>render\<close>; \<open>json_roundtrips\<close> states what the code relies on: compact
  output has no newline and reads back as the value written.  \<open>now\<close> is the result of
  \<open>time(NULL)\<close>.  Allocations are assumed to succeed.  The lemmas show that loading replays
  exactly what was written: messages up to the fields that are not persisted, compactions as
  they were applied, memory records, and the statistics.
\<close>

section \<open>State\<close>

record session =
  s_id :: string
  s_cwd :: "string option"
  s_model_name :: "string option"
  s_provider :: "string option"
  s_created_at :: int
  s_updated_at :: int
  s_usage :: usage
  s_request_count :: "64 word"
  s_tool_call_count :: "64 word"
  s_model_time_ms :: int
  s_memory :: "string option"
  s_file :: string
  s_writable :: bool
  s_writes :: "nat list"

definition zero_session :: session where
  "zero_session = \<lparr>s_id = [], s_cwd = None, s_model_name = None, s_provider = None, s_created_at = 0,
     s_updated_at = 0, s_usage = zero_usage, s_request_count = 0, s_tool_call_count = 0,
     s_model_time_ms = 0, s_memory = None, s_file = [], s_writable = True, s_writes = []\<rparr>"

definition SESSION_MEMORY_MAX :: nat where
  "SESSION_MEMORY_MAX = 32 * 1024"

definition or_default :: "string option \<Rightarrow> string \<Rightarrow> string" where
  "or_default kind dflt = (case kind of Some k \<Rightarrow> if k \<noteq> [] then k else dflt | None \<Rightarrow> dflt)"

definition memory_add :: "session \<Rightarrow> string option \<Rightarrow> string option \<Rightarrow> session" where
  "memory_add s kind content =
     (let old = (case s_memory s of Some m \<Rightarrow> m | None \<Rightarrow> []) in
      case content of
        None \<Rightarrow> s
      | Some c \<Rightarrow>
          if s_memory s \<noteq> None \<and> length old \<ge> SESSION_MEMORY_MAX then s
          else
            (let label = or_default kind ''note'';
                 room = SESSION_MEMORY_MAX - length old;
                 need = length label + length c + 6;
                 content_len = (if need > room
                                then (if room > length label + 6 then room - length label - 6 else 0)
                                else length c) in
             if content_len = 0 \<and> need > room then s
             else s\<lparr>s_memory := Some (old @ ''['' @ label @ ''] '' @ take content_len c @ [CHR 0x0A])\<rparr>))"

definition session_memory :: "session option \<Rightarrow> string option" where
  "session_memory s = (case s of None \<Rightarrow> None | Some t \<Rightarrow> s_memory t)"

section \<open>Writing\<close>

definition opt_str :: "string \<Rightarrow> string option \<Rightarrow> (string \<times> json) list" where
  "opt_str key v = (case v of None \<Rightarrow> [] | Some s \<Rightarrow> [(key, JStr s)])"

definition tool_call_json :: "tool_call \<Rightarrow> json" where
  "tool_call_json tc =
     JObj (opt_str ''id'' (tc_id tc) @ opt_str ''name'' (tc_name tc) @ opt_str ''arguments'' (tc_arguments tc))"

definition usage_json :: "usage \<Rightarrow> json" where
  "usage_json u = JObj [(''in'', JInt (input_tokens u)), (''out'', JInt (output_tokens u)),
                        (''cached'', JInt (cached_tokens u)), (''total'', JInt (total_tokens u))]"

definition message_json :: "message \<Rightarrow> json" where
  "message_json m =
     JObj ([(''type'', JStr ''message''), (''role'', JStr (message_role_name (m_role m)))] @
           opt_str ''content'' (m_content m) @
           opt_str ''reasoning'' (m_reasoning m) @
           opt_str ''tool_call_id'' (m_tool_call_id m) @
           (if m_is_error m then [(''is_error'', JBool True)] else []) @
           (if m_tool_calls m \<noteq> [] then [(''tool_calls'', JArr (map tool_call_json (m_tool_calls m)))] else []) @
           (if total_tokens (m_usage m) > 0 \<or> input_tokens (m_usage m) > 0
            then [(''usage'', usage_json (m_usage m))] else []))"

text \<open>The bytes of a line that reach the file; the code does not look.\<close>

definition written :: "session \<Rightarrow> string \<Rightarrow> string" where
  "written s line = (case s_writes s of [] \<Rightarrow> line | n # _ \<Rightarrow> take n line)"

definition append_line :: "int \<Rightarrow> session \<Rightarrow> string \<Rightarrow> agent_error \<times> session" where
  "append_line now s line =
     (if \<not> s_writable s then (AGENT_ERR_IO, s)
      else (AGENT_OK, s\<lparr>s_file := s_file s @ written s line, s_writes := tl (s_writes s),
                         s_updated_at := now\<rparr>))"

text \<open>The common tail of the append functions: stringify, add the newline, append.\<close>

definition append_json :: "(json \<Rightarrow> string option) \<Rightarrow> int \<Rightarrow> session \<Rightarrow> json \<Rightarrow> agent_error \<times> session" where
  "append_json render now s j =
     (let (err, line) = json_builder_stringify render j [] in
      if err \<noteq> AGENT_OK then (err, s) else append_line now s (line @ [CHR 0x0A]))"

definition session_append_message ::
  "(json \<Rightarrow> string option) \<Rightarrow> int \<Rightarrow> session \<Rightarrow> message \<Rightarrow> agent_error \<times> session" where
  "session_append_message render now s m = append_json render now s (message_json m)"

definition compaction_json :: "nat \<Rightarrow> nat \<Rightarrow> string \<Rightarrow> json" where
  "compaction_json start count summary =
     JObj [(''type'', JStr ''compaction''), (''start'', JInt (int64_wrap (int start))),
           (''count'', JInt (int64_wrap (int count))), (''summary'', JStr summary)]"

definition session_append_compaction ::
  "(json \<Rightarrow> string option) \<Rightarrow> int \<Rightarrow> session \<Rightarrow> nat \<Rightarrow> nat \<Rightarrow> string option \<Rightarrow> agent_error \<times> session" where
  "session_append_compaction render now s start count summary =
     (case summary of
        None \<Rightarrow> (AGENT_ERR_IO, s)
      | Some txt1 \<Rightarrow>
          if count = 0 then (AGENT_ERR_IO, s)
          else append_json render now s (compaction_json start count txt1))"

definition session_append_memory ::
  "(json \<Rightarrow> string option) \<Rightarrow> int \<Rightarrow> session \<Rightarrow> string option \<Rightarrow> string option \<Rightarrow> agent_error \<times> session" where
  "session_append_memory render now s kind content =
     (case content of
        None \<Rightarrow> (AGENT_ERR_IO, s)
      | Some c \<Rightarrow>
          if c = [] then (AGENT_ERR_IO, s)
          else
            (let (err, s') = append_json render now s
                   (JObj [(''type'', JStr ''memory''), (''kind'', JStr (or_default kind ''note'')),
                          (''content'', JStr c)]) in
             if err = AGENT_OK then (AGENT_OK, memory_add s' kind content) else (err, s')))"

definition session_append_stats :: "(json \<Rightarrow> string option) \<Rightarrow> int \<Rightarrow> session \<Rightarrow> agent_error \<times> session" where
  "session_append_stats render now s =
     append_json render now s
       (JObj [(''type'', JStr ''stats''), (''requests'', JInt (sint (s_request_count s))),
              (''tool_calls'', JInt (sint (s_tool_call_count s))),
              (''model_time_ms'', JInt (s_model_time_ms s)),
              (''tokens_in'', JInt (input_tokens (s_usage s))),
              (''tokens_out'', JInt (output_tokens (s_usage s))),
              (''cached'', JInt (cached_tokens (s_usage s))),
              (''total'', JInt (total_tokens (s_usage s)))])"

text \<open>
  \<open>session_create\<close>, once the directory exists: \<open>gid\<close> is the generated id and \<open>ok\<close> whether the
  file could be created, \<open>writes\<close> how much of this and the next lines reaches it.  The meta line is
  the first line of the file.
\<close>

definition session_create ::
  "(json \<Rightarrow> string option) \<Rightarrow> int \<Rightarrow> bool \<Rightarrow> nat list \<Rightarrow> string \<Rightarrow> string option \<Rightarrow> string option \<Rightarrow>
   string option \<Rightarrow> session option" where
  "session_create render now ok writes gid cwd model_name provider =
     (let s = zero_session\<lparr>s_id := gid, s_cwd := cwd, s_model_name := model_name, s_provider := provider,
                           s_created_at := now, s_updated_at := now, s_writes := writes\<rparr>;
          meta = JObj ([(''type'', JStr ''meta''), (''id'', JStr gid)] @ opt_str ''cwd'' cwd @
                       opt_str ''model'' model_name @ opt_str ''provider'' provider @
                       [(''created_at'', JInt now)]);
          line = snd (json_builder_stringify render meta []) @ [CHR 0x0A] in
      if ok then Some (s\<lparr>s_file := written s line, s_writes := tl writes\<rparr>) else None)"

section \<open>Loading\<close>

text \<open>The scan of both readers: lines end at a newline; the last may lack it.\<close>

function file_lines :: "string \<Rightarrow> string list" where
  "file_lines data =
     (if data = [] then []
      else (let line = takeWhile (\<lambda>c. c \<noteq> CHR 0x0A) data in line # file_lines (drop (length line + 1) data)))"
  by pat_completeness auto
termination by (relation "measure length") auto

declare file_lines.simps [simp del]

definition open_line :: "(string \<Rightarrow> json option) \<Rightarrow> session \<Rightarrow> string \<Rightarrow> session" where
  "open_line read s line =
     (case json_parse read line of
        None \<Rightarrow> s
      | Some j \<Rightarrow>
          (let root1 = Some j; type1 = json_obj_get_str root1 ''type'';
               upd = (\<lambda>key old. case json_obj_get_str root1 key of Some v \<Rightarrow> Some v | None \<Rightarrow> old) in
           if \<not> json_val_is_obj root1 then s
           else if type1 = Some ''meta'' then
             s\<lparr>s_cwd := upd ''cwd'' (s_cwd s), s_model_name := upd ''model'' (s_model_name s),
               s_provider := upd ''provider'' (s_provider s),
               s_created_at := json_obj_get_int root1 ''created_at'' 0\<rparr>
           else if type1 = Some ''memory'' then
             memory_add s (json_obj_get_str root1 ''kind'') (json_obj_get_str root1 ''content'')
           else if type1 = Some ''stats'' then
             s\<lparr>s_request_count := word_of_int (json_obj_get_int root1 ''requests'' 0),
               s_tool_call_count := word_of_int (json_obj_get_int root1 ''tool_calls'' 0),
               s_model_time_ms := json_obj_get_int root1 ''model_time_ms'' 0,
               s_usage := \<lparr>input_tokens = json_obj_get_int root1 ''tokens_in'' 0,
                           output_tokens = json_obj_get_int root1 ''tokens_out'' 0,
                           cached_tokens = json_obj_get_int root1 ''cached'' 0,
                           total_tokens = json_obj_get_int root1 ''total'' 0\<rparr>\<rparr>
           else s))"

text \<open>\<open>session_open\<close> on an existing file with this content.\<close>

definition session_open :: "(string \<Rightarrow> json option) \<Rightarrow> int \<Rightarrow> string \<Rightarrow> string \<Rightarrow> session" where
  "session_open read now gid content =
     (foldl (open_line read) (zero_session\<lparr>s_id := gid, s_file := content\<rparr>) (file_lines content))
       \<lparr>s_updated_at := now\<rparr>"

definition parse_tool_call :: "json \<Rightarrow> tool_call" where
  "parse_tool_call c = zero_tool_call\<lparr>tc_id := json_obj_get_str (Some c) ''id'',
     tc_name := json_obj_get_str (Some c) ''name'', tc_arguments := json_obj_get_str (Some c) ''arguments''\<rparr>"

definition parse_tool_calls :: "json option \<Rightarrow> tool_call list" where
  "parse_tool_calls j =
     (case json_val_obj_get j ''tool_calls'' of
        Some (JArr cs) \<Rightarrow> map parse_tool_call cs
      | _ \<Rightarrow> [])"

definition role_of_name :: "string option \<Rightarrow> message_role option" where
  "role_of_name name =
     (if name = None \<or> name = Some ''system'' then Some MSG_SYSTEM
      else if name = Some ''user'' then Some MSG_USER
      else if name = Some ''assistant'' then Some MSG_ASSISTANT
      else if name = Some ''tool'' then Some MSG_TOOL
      else None)"

definition parse_message :: "json option \<Rightarrow> message option" where
  "parse_message j =
     (case role_of_name (json_obj_get_str j ''role'') of
        None \<Rightarrow> None
      | Some r \<Rightarrow>
          (let u = json_val_obj_get j ''usage'' in
           Some \<lparr>m_role = r, m_content = json_obj_get_str j ''content'',
                 m_reasoning = json_obj_get_str j ''reasoning'',
                 m_tool_call_id = json_obj_get_str j ''tool_call_id'',
                 m_tool_calls = parse_tool_calls j,
                 m_usage = (if json_val_is_obj u
                            then \<lparr>input_tokens = json_obj_get_int u ''in'' 0,
                                  output_tokens = json_obj_get_int u ''out'' 0,
                                  cached_tokens = json_obj_get_int u ''cached'' 0,
                                  total_tokens = json_obj_get_int u ''total'' 0\<rparr>
                            else zero_usage),
                 m_is_error = json_obj_get_bool j ''is_error'' False\<rparr>))"

definition load_compaction :: "json option \<Rightarrow> message_list \<Rightarrow> agent_error \<times> message_list" where
  "load_compaction j out =
     (let start = json_obj_get_int j ''start'' (-1); count = json_obj_get_int j ''count'' (-1) in
      case json_obj_get_str j ''summary'' of
        None \<Rightarrow> (AGENT_ERR_JSON, out)
      | Some summary \<Rightarrow>
          if start < 0 \<or> count \<le> 0 \<or> nat start > length (mitems out) \<or>
             nat count > length (mitems out) - nat start
          then (AGENT_ERR_JSON, out)
          else
            (let safe_count = message_list_tool_safe_prefix_count (mitems out) (nat start) (nat count) in
             if safe_count > 0 then
               (case message_list_insert True out (nat start)
                       ((message_new MSG_USER)\<lparr>m_content := Some summary\<rparr>) of
                  (AGENT_OK, out') \<Rightarrow> (AGENT_OK, message_list_remove_range out' (nat start + 1) safe_count)
                | (_, out') \<Rightarrow> (AGENT_ERR_OOM, out'))
             else (AGENT_OK, out)))"

definition load_line :: "(string \<Rightarrow> json option) \<Rightarrow> message_list \<Rightarrow> string \<Rightarrow> agent_error \<times> message_list" where
  "load_line read out line =
     (case json_parse read line of
        None \<Rightarrow> (AGENT_OK, out)
      | Some j \<Rightarrow>
          if json_obj_get_str (Some j) ''type'' = Some ''message'' then
            (case parse_message (Some j) of
               None \<Rightarrow> (AGENT_ERR_JSON, out)
             | Some m \<Rightarrow>
                 (case message_list_append True out m of
                    (AGENT_OK, out') \<Rightarrow> (AGENT_OK, out')
                  | (_, out') \<Rightarrow> (AGENT_ERR_JSON, out')))
          else if json_obj_get_str (Some j) ''type'' = Some ''compaction'' then load_compaction (Some j) out
          else (AGENT_OK, out))"

fun load_lines ::
  "(string \<Rightarrow> json option) \<Rightarrow> message_list \<Rightarrow> string list \<Rightarrow> agent_error \<times> message_list" where
  "load_lines read out [] = (AGENT_OK, out)"
| "load_lines read out (l # ls) =
     (case load_line read out l of
        (AGENT_OK, out') \<Rightarrow> load_lines read out' ls
      | (err, out') \<Rightarrow> (err, out'))"

definition session_load_messages ::
  "(string \<Rightarrow> json option) \<Rightarrow> session \<Rightarrow> message_list \<Rightarrow> agent_error \<times> message_list" where
  "session_load_messages read s out = load_lines read out (file_lines (s_file s))"

section \<open>Lines and lookups\<close>

definition json_roundtrips :: "(string \<Rightarrow> json option) \<Rightarrow> (json \<Rightarrow> string option) \<Rightarrow> bool" where
  "json_roundtrips read render \<longleftrightarrow>
     (\<forall>j t. render j = Some t \<longrightarrow> read t = Some j \<and> CHR 0x0A \<notin> set t)"

definition file_ok :: "session \<Rightarrow> bool" where
  "file_ok s \<longleftrightarrow> s_file s = [] \<or> last (s_file s) = CHR 0x0A"

text \<open>The line of this value reaches the file; \<open>intact\<close>: every later line does.\<close>

definition takes_json :: "(json \<Rightarrow> string option) \<Rightarrow> session \<Rightarrow> json \<Rightarrow> bool" where
  "takes_json render s j \<longleftrightarrow>
     (case render j of None \<Rightarrow> True | Some t \<Rightarrow> written s (t @ [CHR 0x0A]) = t @ [CHR 0x0A])"

definition intact :: "session \<Rightarrow> bool" where
  "intact s \<longleftrightarrow> s_writes s = []"

lemma intact_takes: "intact s \<Longrightarrow> takes_json render s j"
  by (simp add: intact_def takes_json_def written_def split: option.split)

lemma file_lines_Nil [simp]: "file_lines [] = []"
  by (simp add: file_lines.simps)

lemma takeWhile_line: "CHR 0x0A \<notin> set t \<Longrightarrow> takeWhile (\<lambda>c. c \<noteq> CHR 0x0A) (t @ [CHR 0x0A]) = t"
  by (induction t) auto

lemma file_lines_one: "CHR 0x0A \<notin> set t \<Longrightarrow> file_lines (t @ [CHR 0x0A]) = [t]"
  by (subst file_lines.simps) (simp add: takeWhile_line)

lemma file_lines_snoc:
  "data = [] \<or> last data = CHR 0x0A \<Longrightarrow> CHR 0x0A \<notin> set t \<Longrightarrow>
   file_lines (data @ t @ [CHR 0x0A]) = file_lines data @ [t]"
proof (induction data rule: file_lines.induct)
  case (1 data)
  show ?case
  proof (cases "data = []")
    case True
    with 1(3) show ?thesis by (simp add: file_lines_one)
  next
    case False
    define line where "line = takeWhile (\<lambda>c. c \<noteq> CHR 0x0A) data"
    have nl: "CHR 0x0A \<in> set data" using False 1(2) by (metis last_in_set)
    then have tw: "takeWhile (\<lambda>c. c \<noteq> CHR 0x0A) (data @ t @ [CHR 0x0A]) = line"
      by (simp add: line_def takeWhile_append1)
    have len: "length line < length data"
      using nl unfolding line_def
      by (metis (mono_tags, lifting) length_takeWhile_le nat_less_le set_takeWhileD takeWhile_eq_take take_all_iff linorder_not_less)
    have rest: "drop (length line + 1) data = [] \<or> last (drop (length line + 1) data) = CHR 0x0A"
      using 1(2) False by (cases "length line + 1 < length data") (auto simp: last_drop)
    from 1(1) [OF False line_def rest 1(3)]
    have "file_lines (drop (length line + 1) data @ t @ [CHR 0x0A]) = file_lines (drop (length line + 1) data) @ [t]" .
    with False tw len show ?thesis
      by (simp add: file_lines.simps [of "data @ _"] file_lines.simps [of data] line_def [symmetric] Let_def)
  qed
qed

lemma load_lines_snoc:
  "load_lines read out (ls @ [l]) =
   (case load_lines read out ls of (AGENT_OK, out') \<Rightarrow> load_line read out' l | r \<Rightarrow> r)"
  by (induction read out ls rule: load_lines.induct)
     (auto split: prod.splits agent_error.splits)

lemma append_json_effect:
  assumes "append_json render now s j = (rc, s')"
  shows "(rc \<noteq> AGENT_OK \<longrightarrow> s' = s) \<and>
         (rc = AGENT_OK \<longrightarrow> (\<exists>t. render j = Some t \<and>
            s' = s\<lparr>s_file := s_file s @ written s (t @ [CHR 0x0A]), s_writes := tl (s_writes s),
                    s_updated_at := now\<rparr>))"
  using assms
  by (auto simp: append_json_def append_line_def json_builder_stringify_def split: option.splits if_splits)

lemma append_json_file_ok [invar_intros]:
  "file_ok s \<Longrightarrow> takes_json render s j \<Longrightarrow> append_json render now s j = (rc, s') \<Longrightarrow> file_ok s'"
  using append_json_effect [of render now s j rc s']
  by (cases "rc = AGENT_OK") (auto simp: file_ok_def takes_json_def)

lemma append_json_intact [invar_intros]:
  "intact s \<Longrightarrow> append_json render now s j = (rc, s') \<Longrightarrow> intact s'"
  using append_json_effect [of render now s j rc s'] by (cases "rc = AGENT_OK") (auto simp: intact_def)

text \<open>What one appended value adds to a reader of the file.\<close>

lemma append_json_lines:
  assumes "json_roundtrips read render" and "file_ok s" and "takes_json render s j"
    and "append_json render now s j = (AGENT_OK, s')"
  shows "\<exists>t. file_lines (s_file s') = file_lines (s_file s) @ [t] \<and> read t = Some j"
proof -
  from append_json_effect [OF assms(4)] assms(3) obtain t where
    t: "render j = Some t" "s_file s' = s_file s @ t @ [CHR 0x0A]" by (auto simp: takes_json_def)
  with assms(1) have "read t = Some j" "CHR 0x0A \<notin> set t" by (auto simp: json_roundtrips_def)
  with file_lines_snoc [of "s_file s" t] assms(2) t(2) show ?thesis
    by (auto simp: file_ok_def)
qed

lemma map_of_opt_str [json_simps]:
  "map_of (opt_str k v @ xs) k = (case v of None \<Rightarrow> map_of xs k | Some s \<Rightarrow> Some (JStr s))"
  "k' \<noteq> k \<Longrightarrow> map_of (opt_str k v @ xs) k' = map_of xs k'"
  by (cases v; simp add: opt_str_def)+

lemma map_of_opt_str_end [json_simps]:
  "map_of (opt_str k v) k = map_option JStr v"
  "k' \<noteq> k \<Longrightarrow> map_of (opt_str k v) k' = None"
  by (cases v; simp add: opt_str_def)+

lemma map_of_if_member [json_simps]:
  "map_of ((if b then [(k, v)] else []) @ xs) k = (if b then Some v else map_of xs k)"
  "k' \<noteq> k \<Longrightarrow> map_of ((if b then [(k, v)] else []) @ xs) k' = map_of xs k'"
  by simp_all

lemma map_of_if_member_end [json_simps]:
  "map_of (if b then [(k, v)] else []) k = (if b then Some v else None)"
  "k' \<noteq> k \<Longrightarrow> map_of (if b then [(k, v)] else []) k' = None"
  by simp_all

section \<open>Messages\<close>

definition persisted_usage :: "usage \<Rightarrow> usage" where
  "persisted_usage u =
     (if total_tokens u > 0 \<or> input_tokens u > 0
      then \<lparr>input_tokens = int64_wrap (input_tokens u), output_tokens = int64_wrap (output_tokens u),
            cached_tokens = int64_wrap (cached_tokens u), total_tokens = int64_wrap (total_tokens u)\<rparr>
      else zero_usage)"

definition persisted :: "message \<Rightarrow> message" where
  "persisted m = m\<lparr>m_tool_calls := map (\<lambda>tc. tc\<lparr>tc_result := None, tc_is_error := False\<rparr>) (m_tool_calls m),
                   m_usage := persisted_usage (m_usage m)\<rparr>"

lemma val_str_JStr [json_simps]:
  "json_val_str (map_option JStr v) = v"
  "json_val_str (case v of None \<Rightarrow> None | Some s \<Rightarrow> Some (JStr s)) = v"
  by (cases v; simp add: json_val_str_def)+

lemma get_str_obj: "json_obj_get_str (Some (JObj kvs)) k = json_val_str (map_of kvs k)"
  by (simp add: json_obj_get_str_def json_val_obj_get_def)

lemma parse_tool_call_json:
  "parse_tool_call (tool_call_json tc) = tc\<lparr>tc_result := None, tc_is_error := False\<rparr>"
proof -
  have "json_obj_get_str (Some (tool_call_json tc)) ''id'' = tc_id tc"
    "json_obj_get_str (Some (tool_call_json tc)) ''name'' = tc_name tc"
    "json_obj_get_str (Some (tool_call_json tc)) ''arguments'' = tc_arguments tc"
    by (simp_all add: tool_call_json_def get_str_obj map_of_opt_str map_of_opt_str_end val_str_JStr json_val_str_def
        del: map_of_append split: option.split split del: if_split)
  then show ?thesis by (simp add: parse_tool_call_def zero_tool_call_def)
qed

lemmas message_members = message_json_def json_val_obj_get_def map_of_opt_str map_of_if_member
  map_of_opt_str_end map_of_if_member_end

lemma parse_message_json: "parse_message (Some (message_json m)) = Some (persisted m)"
proof -
  have "json_val_obj_get (Some (message_json m)) ''tool_calls'' =
      (if m_tool_calls m \<noteq> [] then Some (JArr (map tool_call_json (m_tool_calls m))) else None)"
    by (simp add: message_members del: map_of_append split del: if_split cong: if_cong)
  then have tcs: "parse_tool_calls (Some (message_json m)) =
      map (\<lambda>tc. tc\<lparr>tc_result := None, tc_is_error := False\<rparr>) (m_tool_calls m)"
    by (simp add: parse_tool_calls_def parse_tool_call_json)
  have "json_obj_get_str (Some (message_json m)) ''role'' = Some (message_role_name (m_role m))"
    by (simp add: message_json_def get_str_obj json_val_str_def del: map_of_append)
  then have role: "role_of_name (json_obj_get_str (Some (message_json m)) ''role'') = Some (m_role m)"
    by (cases "m_role m") (simp_all add: role_of_name_def)
  have strs: "json_obj_get_str (Some (message_json m)) ''content'' = m_content m"
    "json_obj_get_str (Some (message_json m)) ''reasoning'' = m_reasoning m"
    "json_obj_get_str (Some (message_json m)) ''tool_call_id'' = m_tool_call_id m"
    by (simp_all add: message_members json_obj_get_str_def val_str_JStr json_val_str_def
        del: map_of_append split: option.split split del: if_split)
  have err: "json_obj_get_bool (Some (message_json m)) ''is_error'' False = m_is_error m"
    by (simp add: message_members json_obj_get_bool_def del: map_of_append)
  have usage: "json_val_obj_get (Some (message_json m)) ''usage'' =
      (if total_tokens (m_usage m) > 0 \<or> input_tokens (m_usage m) > 0 then Some (usage_json (m_usage m)) else None)"
    by (simp add: message_members del: map_of_append split del: if_split)
  have members: "json_obj_get_int (Some (usage_json u)) ''in'' 0 = int64_wrap (input_tokens u)"
    "json_obj_get_int (Some (usage_json u)) ''out'' 0 = int64_wrap (output_tokens u)"
    "json_obj_get_int (Some (usage_json u)) ''cached'' 0 = int64_wrap (cached_tokens u)"
    "json_obj_get_int (Some (usage_json u)) ''total'' 0 = int64_wrap (total_tokens u)"
    "json_val_is_obj (Some (usage_json u))" "\<not> json_val_is_obj None" for u
    by (simp_all add: usage_json_def json_simps)
  show ?thesis
    by (simp add: parse_message_def role strs err usage tcs persisted_def persisted_usage_def members)
qed

lemma load_line_message:
  assumes "read t = Some (message_json m)"
  shows "load_line read out t =
         (case message_list_append True out (persisted m) of
            (AGENT_OK, out') \<Rightarrow> (AGENT_OK, out') | (_, out') \<Rightarrow> (AGENT_ERR_JSON, out'))"
proof -
  have "json_obj_get_str (Some (message_json m)) ''type'' = Some ''message''"
    by (simp add: message_json_def get_str_obj json_val_str_def del: map_of_append)
  with assms show ?thesis by (simp add: load_line_def json_parse_def parse_message_json)
qed


text \<open>What a line cut short costs: the append reports success, the message is not loaded, and the
  next line, though written whole, is glued to the fragment and lost with it.\<close>

lemma load_unreadable:
  assumes "file_lines (s_file s') = file_lines (s_file s) @ [t]" and "json_parse read t = None"
  shows "session_load_messages read s' out = session_load_messages read s out"
  using assms
  by (auto simp: session_load_messages_def load_lines_snoc load_line_def split: prod.split agent_error.split)

lemma file_lines_cut:
  assumes "data = [] \<or> last data = CHR 0x0A" and "CHR 0x0A \<notin> set t" and "t \<noteq> []"
  shows "file_lines (data @ t) = file_lines data @ [t]"
  using assms
proof (induction data rule: file_lines.induct)
  case (1 data)
  have tw: "takeWhile (\<lambda>c. c \<noteq> CHR 0x0A) t = t" using 1(3) by (simp add: takeWhile_eq_all_conv) metis
  show ?case
  proof (cases "data = []")
    case True
    have "file_lines t = [t]" by (subst file_lines.simps) (simp only: tw Let_def 1(4) if_False, simp)
    with True show ?thesis by simp
  next
    case False
    define line where "line = takeWhile (\<lambda>c. c \<noteq> CHR 0x0A) data"
    have nl: "CHR 0x0A \<in> set data" using False 1(2) by (metis last_in_set)
    then have l: "takeWhile (\<lambda>c. c \<noteq> CHR 0x0A) (data @ t) = line"
      by (simp add: line_def takeWhile_append1)
    have len: "length line < length data"
      using nl unfolding line_def
      by (metis (mono_tags, lifting) length_takeWhile_le nat_less_le set_takeWhileD takeWhile_eq_take take_all_iff linorder_not_less)
    have rest: "drop (length line + 1) data = [] \<or> last (drop (length line + 1) data) = CHR 0x0A"
      using 1(2) False by (cases "length line + 1 < length data") (auto simp: last_drop)
    from 1(1) [OF False line_def rest 1(3,4)] False l len show ?thesis
      by (simp add: file_lines.simps [of "data @ _"] file_lines.simps [of data] line_def [symmetric] Let_def)
  qed
qed

theorem short_append_loses:
  assumes "json_roundtrips read render" and "file_ok s" and "s_writes s = [k]"
    and "append_json render now s j = (AGENT_OK, s1)" and "append_json render now s1 j2 = (AGENT_OK, s2)"
    and "render j = Some t" and "render j2 = Some t2" and "0 < k" and "k \<le> length t"
    and "json_parse read (take k t) = None" and "json_parse read (take k t @ t2) = None"
  shows "session_load_messages read s1 out = session_load_messages read s out \<and> \<not> file_ok s1 \<and>
         session_load_messages read s2 out = session_load_messages read s out"
proof -
  have nl: "CHR 0x0A \<notin> set t" "CHR 0x0A \<notin> set t2"
    using assms(1,6,7) by (auto simp: json_roundtrips_def)
  from append_json_effect [OF assms(4)] assms(3,6,9)
  have s1: "s_file s1 = s_file s @ take k t" "s_writes s1 = []" by (auto simp: written_def)
  from append_json_effect [OF assms(5)] assms(7) s1
  have s2: "s_file s2 = s_file s @ (take k t @ t2) @ [CHR 0x0A]" by (auto simp: written_def)
  have p: "CHR 0x0A \<notin> set (take k t)" using nl(1) by (auto dest: in_set_takeD)
  have ne: "take k t \<noteq> []" using assms(8,9) by auto
  have f: "s_file s = [] \<or> last (s_file s) = CHR 0x0A" using assms(2) by (simp add: file_ok_def)
  from load_unreadable [of s1 s "take k t"] file_lines_cut [OF f p ne] s1(1) assms(10)
  have "session_load_messages read s1 out = session_load_messages read s out" by simp
  moreover from load_unreadable [of s2 s "take k t @ t2"] file_lines_snoc [OF f, of "take k t @ t2"] s2 p nl(2) assms(11)
  have "session_load_messages read s2 out = session_load_messages read s out" by simp
  moreover have "\<not> file_ok s1"
  proof -
    have "last (take k t) \<noteq> CHR 0x0A" using last_in_set [OF ne] p by auto
    with s1(1) ne show ?thesis by (simp add: file_ok_def)
  qed
  ultimately show ?thesis by simp
qed


section \<open>Compactions\<close>

lemma persisted_role [simp]: "m_role (persisted m) = m_role m"
  and persisted_no_calls [simp]: "m_tool_calls (persisted m) = [] \<longleftrightarrow> m_tool_calls m = []"
  by (simp_all add: persisted_def)

lemma back_over_tools_persisted:
  "e < length xs \<Longrightarrow> back_over_tools (map persisted xs) start e = back_over_tools xs start e"
  by (induction e) simp_all

lemma back_over_tools_le: "back_over_tools xs start e \<le> e"
  by (induction e) simp_all

lemma safe_prefix_persisted:
  "message_list_tool_safe_prefix_count (map persisted xs) start count =
   message_list_tool_safe_prefix_count xs start count"
proof (cases "start < length xs \<and> count \<noteq> 0")
  case True
  then have st: "start < length xs" and c0: "count \<noteq> 0" by auto
  define c where "c = min count (length xs - start)"
  define e where "e = back_over_tools xs start (start + c)"
  have lhs: "start < length (map persisted xs)" "c = min count (length (map persisted xs) - start)"
    using st by (simp_all add: c_def)
  show ?thesis
  proof (cases "start + c < length xs")
    case lt: True
    have e: "e = back_over_tools (map persisted xs) start (start + c)" and "e < length xs"
      using lt back_over_tools_le [of xs start "start + c"] by (simp_all add: e_def back_over_tools_persisted)
    with lt safe_prefix_unfold [OF lhs(1) c0 lhs(2) e] safe_prefix_unfold [OF st c0 c_def e_def]
    show ?thesis by simp
  next
    case False
    with safe_prefix_unfold [OF lhs(1) c0 lhs(2) refl] safe_prefix_unfold [OF st c0 c_def e_def]
    show ?thesis by simp
  qed
next
  case False
  then show ?thesis by (auto simp: message_list_tool_safe_prefix_count_def)
qed

lemma persisted_user_text:
  "persisted ((message_new MSG_USER)\<lparr>m_content := Some t\<rparr>) = (message_new MSG_USER)\<lparr>m_content := Some t\<rparr>"
  by (simp add: persisted_def message_new_def persisted_usage_def zero_usage_def)

lemma room_small:
  assumes "message_list_ok l" and "length (mitems l) < 2 ^ 56"
  shows "\<exists>l'. message_list_room True l = (AGENT_OK, l') \<and> mitems l' = mitems l"
proof -
  have "mcap l * 2 \<le> SIZE_MAX div sizeof_message" if "length (mitems l) = mcap l"
    using that assms(2) by (simp add: SIZE_MAX_eq sizeof_message_def)
  then show ?thesis
    by (auto simp: message_list_room_def Let_def size_mul_def SIZE_MAX_eq sizeof_message_def LIST_MIN_CAP_def)
qed

text \<open>The loaded conversation agrees with the live one.\<close>

definition replays :: "(string \<Rightarrow> json option) \<Rightarrow> session \<Rightarrow> message list \<Rightarrow> bool" where
  "replays read s msgs \<longleftrightarrow>
     (\<exists>l. session_load_messages read s \<lparr>mitems = [], mcap = 0\<rparr> = (AGENT_OK, l) \<and>
          message_list_ok l \<and> mitems l = map persisted msgs)"

lemma insert_small:
  assumes "message_list_ok l" and "length (mitems l) < 2 ^ 56" and "i \<le> length (mitems l)"
  shows "\<exists>l'. message_list_insert True l i m = (AGENT_OK, l') \<and> message_list_ok l' \<and>
              mitems l' = take i (mitems l) @ m # drop i (mitems l)"
proof -
  obtain l1 where r: "message_list_room True l = (AGENT_OK, l1)" "mitems l1 = mitems l"
    using room_small [OF assms(1,2)] by auto
  from room_ok [OF assms(1) r(1)] r(2) assms(3)
  have "message_list_ok (l1\<lparr>mitems := take i (mitems l) @ m # drop i (mitems l)\<rparr>)"
    by (simp add: message_list_ok_def)
  with r assms(3) show ?thesis by (simp add: message_list_insert_def Let_def)
qed

lemma append_small:
  assumes "message_list_ok l" and "length (mitems l) < 2 ^ 56"
  shows "\<exists>l'. message_list_append True l m = (AGENT_OK, l') \<and> message_list_ok l' \<and> mitems l' = mitems l @ [m]"
proof -
  obtain l1 where r: "message_list_room True l = (AGENT_OK, l1)" "mitems l1 = mitems l"
    using room_small [OF assms] by auto
  from room_ok [OF assms(1) r(1)] r show ?thesis
    by (simp add: message_list_append_def message_list_append_copy_def message_list_ok_def)
qed

lemma replays_message:
  assumes "json_roundtrips read render" and "file_ok s" and "replays read s msgs" and "length msgs < 2 ^ 56"
    and "takes_json render s (message_json m)" and "session_append_message render now s m = (AGENT_OK, s')"
  shows "replays read s' (msgs @ [m])"
proof -
  from assms(3) obtain l where l: "session_load_messages read s \<lparr>mitems = [], mcap = 0\<rparr> = (AGENT_OK, l)"
    "message_list_ok l" "mitems l = map persisted msgs" by (auto simp: replays_def)
  with append_small [of l "persisted m"] assms(4) obtain l' where
    l': "message_list_append True l (persisted m) = (AGENT_OK, l')" "message_list_ok l'"
    "mitems l' = mitems l @ [persisted m]" by auto
  from append_json_lines [OF assms(1,2,5)] assms(6) obtain t where
    t: "file_lines (s_file s') = file_lines (s_file s) @ [t]" "read t = Some (message_json m)"
    unfolding session_append_message_def by blast
  from l(1) t(1) load_line_message [where read = read and m = m and out = l, OF t(2)] l'(1)
  have "session_load_messages read s' \<lparr>mitems = [], mcap = 0\<rparr> = (AGENT_OK, l')"
    by (simp add: session_load_messages_def load_lines_snoc)
  with l l' show ?thesis by (simp add: replays_def)
qed

lemma load_compaction_applies:
  assumes "message_list_ok l" and "mitems l = map persisted msgs" and "length msgs < 2 ^ 56"
    and "start + count \<le> length msgs"
    and n: "n = message_list_tool_safe_prefix_count msgs start count" and "0 < n"
  shows "\<exists>l'. load_compaction (Some (compaction_json start count txt1)) l = (AGENT_OK, l') \<and> message_list_ok l' \<and>
              mitems l' = map persisted (take start msgs @ (message_new MSG_USER)\<lparr>m_content := Some txt1\<rparr>
                                         # drop (start + n) msgs)"
proof -
  let ?sm = "(message_new MSG_USER)\<lparr>m_content := Some txt1\<rparr>"
  have c0: "0 < count" using n assms(6) safe_prefix_le [of msgs start count] by simp
  have w: "int64_wrap (int start) = int start" "int64_wrap (int count) = int count"
    using assms(3,4) by (auto intro!: int64_wrap_id)
  have ints: "json_obj_get_int (Some (compaction_json start count txt1)) ''start'' (-1) = int start"
    "json_obj_get_int (Some (compaction_json start count txt1)) ''count'' (-1) = int count"
    "json_obj_get_str (Some (compaction_json start count txt1)) ''summary'' = Some txt1"
    using w by (simp_all add: compaction_json_def json_simps int64_wrap_id)
  from insert_small [OF assms(1), of start ?sm] assms(2-4) obtain l1 where
    l1: "message_list_insert True l start ?sm = (AGENT_OK, l1)" "message_list_ok l1"
    "mitems l1 = take start (mitems l) @ ?sm # drop start (mitems l)" by auto
  let ?l' = "message_list_remove_range l1 (start + 1) n"
  have nc: "n \<le> count" unfolding n by (rule safe_prefix_le)
  then have rr: "mitems ?l' = take start (mitems l) @ ?sm # drop (start + n) (mitems l)"
    using l1(3) assms(2,4) by (auto simp: message_list_remove_range_def Let_def min_def add.commute)
  have ok: "message_list_ok ?l'"
    using l1(2) by (auto simp: message_list_ok_def message_list_remove_range_def Let_def)
  have "load_compaction (Some (compaction_json start count txt1)) l = (AGENT_OK, ?l')"
    using l1(1) assms(2,4,6) c0 n by (simp add: load_compaction_def ints Let_def safe_prefix_persisted)
  with ok rr assms(2) show ?thesis
    by (simp add: take_map drop_map persisted_user_text)
qed



section \<open>Memory and statistics\<close>

text \<open>The session memory is bounded by its limit and only ever grows at its end, whatever record
  is added.\<close>

theorem session_memory_bounded:
  assumes "length (str_or_empty (s_memory s)) \<le> SESSION_MEMORY_MAX"
  shows "length (str_or_empty (s_memory (memory_add s kind content))) \<le> SESSION_MEMORY_MAX \<and>
         (\<exists>rest. str_or_empty (s_memory (memory_add s kind content)) = str_or_empty (s_memory s) @ rest)"
proof (cases content)
  case None
  then show ?thesis using assms by (simp add: memory_add_def Let_def)
next
  case (Some c)
  define old where "old = str_or_empty (s_memory s)"
  define label where "label = or_default kind ''note''"
  define room where "room = SESSION_MEMORY_MAX - length old"
  define need where "need = length label + length c + 6"
  define n where "n = (if need > room then (if room > length label + 6 then room - length label - 6 else 0) else length c)"
  have old: "(case s_memory s of Some m \<Rightarrow> m | None \<Rightarrow> []) = old"
    by (simp add: old_def str_or_empty_def split: option.split)
  have eq: "memory_add s kind content =
     (if s_memory s \<noteq> None \<and> length old \<ge> SESSION_MEMORY_MAX then s
      else if n = 0 \<and> need > room then s
      else s\<lparr>s_memory := Some (old @ ''['' @ label @ ''] '' @ take n c @ [CHR 0x0A])\<rparr>)"
    unfolding memory_add_def Let_def old Some option.case
    unfolding label_def [symmetric] room_def [symmetric] need_def [symmetric] n_def [symmetric] by (rule refl)
  show ?thesis
  proof (cases "(s_memory s \<noteq> None \<and> length old \<ge> SESSION_MEMORY_MAX) \<or> (n = 0 \<and> need > room)")
    case True
    then have "memory_add s kind content = s" unfolding eq by auto
    with assms show ?thesis by simp
  next
    case False
    then have m: "str_or_empty (s_memory (memory_add s kind content)) =
        old @ ''['' @ label @ ''] '' @ take n c @ [CHR 0x0A]"
      unfolding eq by (auto simp: str_or_empty_def)
    have "length label + n + 6 \<le> room"
      using False by (auto simp: n_def need_def split: if_splits)
    moreover have "length (take n c) \<le> n" by simp
    ultimately have "length (old @ ''['' @ label @ ''] '' @ take n c @ [CHR 0x0A]) \<le> SESSION_MEMORY_MAX"
      unfolding room_def by simp
    with m show ?thesis by (auto simp: old_def)
  qed
qed

theorem session_memory_bounded_witness:
  "length (str_or_empty (s_memory (memory_add zero_session (Some ''k'') (Some (replicate 40000 CHR ''x''))))) \<le> 32768"
proof -
  have "length (str_or_empty (s_memory zero_session)) \<le> SESSION_MEMORY_MAX"
    by (simp add: zero_session_def str_or_empty_def)
  from session_memory_bounded [OF this, of "Some ''k''" "Some (replicate 40000 CHR ''x'')"]
  show ?thesis by (simp add: SESSION_MEMORY_MAX_def)
qed

lemma memory_add_file: "s_file (memory_add s k c) = s_file s"
  by (simp add: memory_add_def Let_def split: option.split)

lemma memory_add_update: "memory_add (s\<lparr>s_file := f\<rparr>) k c = (memory_add s k c)\<lparr>s_file := f\<rparr>"
  by (simp add: memory_add_def Let_def split: option.split)

lemmas memory_add_frame = memory_add_update memory_add_file

lemma memory_add_cong: "s_memory s = s_memory t \<Longrightarrow> s_memory (memory_add s k c) = s_memory (memory_add t k c)"
  by (simp add: memory_add_def Let_def split: option.split)

lemma or_default_idem: "or_default (Some (or_default kind ''note'')) ''note'' = or_default kind ''note''"
  by (auto simp: or_default_def split: option.split)

lemma memory_add_kind: "memory_add s (Some (or_default kind ''note'')) c = memory_add s kind c"
  unfolding memory_add_def or_default_idem by (rule refl)

lemma open_line_frame: "open_line read (s\<lparr>s_file := f\<rparr>) l = (open_line read s l)\<lparr>s_file := f\<rparr>"
  by (simp add: open_line_def memory_add_frame Let_def split: option.split)

lemma fold_open_frame:
  "foldl (open_line read) (s\<lparr>s_file := f\<rparr>) ls = (foldl (open_line read) s ls)\<lparr>s_file := f\<rparr>"
  by (induction ls arbitrary: s) (simp_all add: open_line_frame)

lemma reopen_snoc:
  assumes "file_lines (s_file s') = file_lines (s_file s) @ [t]"
  shows "session_open read now gid (s_file s') =
         (open_line read (session_open read now gid (s_file s)) t)\<lparr>s_file := s_file s', s_updated_at := now\<rparr>"
proof -
  have u: "open_line read (x\<lparr>s_updated_at := v\<rparr>) l = (open_line read x l)\<lparr>s_updated_at := v\<rparr>" for x v l
    by (simp add: open_line_def memory_add_def Let_def split: option.split)
  show ?thesis
    by (simp add: session_open_def assms u fold_open_frame [where s = "zero_session\<lparr>s_id := gid\<rparr>", simplified]
        open_line_frame)
qed

definition reopened_memory :: "(string \<Rightarrow> json option) \<Rightarrow> session \<Rightarrow> string option" where
  "reopened_memory read s = s_memory (session_open read 0 (s_id s) (s_file s))"

lemma open_line_other:
  assumes "read t = Some j" and "json_obj_get_str (Some j) ''type'' \<notin> {Some ''meta'', Some ''memory'', Some ''stats''}"
  shows "open_line read s t = s"
  using assms by (simp add: open_line_def json_parse_def Let_def)

lemma reopen_append:
  assumes "json_roundtrips read render" and "file_ok s" and "intact s" and "append_json render now s j = (AGENT_OK, s')"
  shows "\<exists>t. read t = Some j \<and>
           session_open read now' gid (s_file s') =
           (open_line read (session_open read now' gid (s_file s)) t)\<lparr>s_file := s_file s', s_updated_at := now'\<rparr>"
  using append_json_lines [OF assms(1,2) intact_takes [OF assms(3)] assms(4)] reopen_snoc by blast

lemma reopened_memory_other:
  assumes "json_roundtrips read render" and "file_ok s" and "intact s" and "append_json render now s j = (rc, s')"
    and "json_obj_get_str (Some j) ''type'' \<notin> {Some ''meta'', Some ''memory'', Some ''stats''}"
  shows "reopened_memory read s' = reopened_memory read s \<and> s_memory s' = s_memory s"
proof (cases "rc = AGENT_OK")
  case True
  with assms(4) have a: "append_json render now s j = (AGENT_OK, s')" by simp
  from append_json_effect [OF a] have f: "s_id s' = s_id s" "s_memory s' = s_memory s" by auto
  from reopen_append [OF assms(1-3) a, of 0 "s_id s"] open_line_other [OF _ assms(5)] f
  show ?thesis by (auto simp: reopened_memory_def)
next
  case False
  with append_json_effect [OF assms(4)] show ?thesis by simp
qed

lemma append_memory_reopened:
  assumes "json_roundtrips read render" and "file_ok s" and "intact s" and "reopened_memory read s = s_memory s"
    and "session_append_memory render now s kind content = (rc, s')"
  shows "reopened_memory read s' = s_memory s'"
proof (cases "rc = AGENT_OK")
  case True
  let ?j = "\<lambda>c. JObj [(''type'', JStr ''memory''), (''kind'', JStr (or_default kind ''note'')), (''content'', JStr c)]"
  from assms(5) True obtain c s1 where c: "content = Some c"
    and a: "append_json render now s (?j c) = (AGENT_OK, s1)" and s': "s' = memory_add s1 kind content"
    by (auto simp: session_append_memory_def split: option.splits if_splits prod.splits)
  from append_json_effect [OF a] have f: "s_id s1 = s_id s" "s_memory s1 = s_memory s" by auto
  have id': "s_id s' = s_id s"
    unfolding s' using f(1) by (simp add: memory_add_def Let_def split: option.split)
  have ol: "open_line read x t = memory_add x kind (Some c)" if "read t = Some (?j c)" for x t
    using that by (simp add: open_line_def json_parse_def json_simps Let_def memory_add_kind)
  from reopen_append [OF assms(1-3) a, of 0 "s_id s"] ol
  have "s_memory (session_open read 0 (s_id s) (s_file s1)) =
        s_memory (memory_add (session_open read 0 (s_id s) (s_file s)) kind (Some c))" by auto
  also have "\<dots> = s_memory (memory_add s1 kind (Some c))"
    using assms(4) f by (intro memory_add_cong) (simp add: reopened_memory_def)
  finally show ?thesis
    using id' by (simp add: reopened_memory_def s' c memory_add_frame)
next
  case False
  with assms(5) have "s' = s"
    by (auto simp: session_append_memory_def split: option.splits if_splits prod.splits dest: append_json_effect)
  with assms(4) show ?thesis by simp
qed

text \<open>The memory and the statistics survive reopening when every line reaches the file: if reopening the file gives the live
  memory, it still does after a message, a compaction or a memory record was appended (or failed to
  be), and after a statistics record reopening also gives the live totals.\<close>

theorem session_reopen_restores:
  assumes "json_roundtrips read render" and "file_ok s" and "intact s" and "reopened_memory read s = s_memory s"
  shows "(session_append_message render now s m = (rc, s1) \<longrightarrow> reopened_memory read s1 = s_memory s1) \<and>
         (session_append_compaction render now s start count summary = (rc, s2) \<longrightarrow>
            reopened_memory read s2 = s_memory s2) \<and>
         (session_append_memory render now s kind content = (rc, s3) \<longrightarrow> reopened_memory read s3 = s_memory s3) \<and>
         (session_append_stats render now s = (AGENT_OK, s4) \<longrightarrow>
            s_memory (session_open read now' gid (s_file s4)) =
              s_memory (session_open read now' gid (s_file s)) \<and>
            s_request_count (session_open read now' gid (s_file s4)) = s_request_count s4 \<and>
            s_tool_call_count (session_open read now' gid (s_file s4)) = s_tool_call_count s4 \<and>
            s_model_time_ms (session_open read now' gid (s_file s4)) = int64_wrap (s_model_time_ms s4))"
proof (intro conjI impI)
  assume a: "session_append_message render now s m = (rc, s1)"
  have "json_obj_get_str (Some (message_json m)) ''type'' = Some ''message''"
    by (simp add: message_json_def get_str_obj json_val_str_def del: map_of_append)
  with reopened_memory_other [OF assms(1-3) a [unfolded session_append_message_def]] assms(4)
  show "reopened_memory read s1 = s_memory s1" by simp
next
  assume a: "session_append_compaction render now s start count summary = (rc, s2)"
  show "reopened_memory read s2 = s_memory s2"
  proof (cases "summary = None \<or> count = 0")
    case True
    with a assms(4) show ?thesis by (auto simp: session_append_compaction_def split: option.splits)
  next
    case False
    then obtain t where t: "summary = Some t" by auto
    with a False have b: "append_json render now s (compaction_json start count t) = (rc, s2)"
      by (simp add: session_append_compaction_def)
    have "json_obj_get_str (Some (compaction_json start count t)) ''type'' = Some ''compaction''"
      by (simp add: compaction_json_def json_simps)
    with reopened_memory_other [OF assms(1-3) b] assms(4) show ?thesis by simp
  qed
next
  assume "session_append_memory render now s kind content = (rc, s3)"
  with append_memory_reopened [OF assms] show "reopened_memory read s3 = s_memory s3" .
next
  assume a: "session_append_stats render now s = (AGENT_OK, s4)"
  have w: "int64_wrap (sint (x :: 64 word)) = sint x" for x
    using sint_range_size [of x] by (intro int64_wrap_id) (simp_all add: word_size)
  from reopen_append [OF assms(1-3) a [unfolded session_append_stats_def], of now' gid] obtain t where
    t: "read t = Some (JObj [(''type'', JStr ''stats''), (''requests'', JInt (sint (s_request_count s))),
              (''tool_calls'', JInt (sint (s_tool_call_count s))),
              (''model_time_ms'', JInt (s_model_time_ms s)),
              (''tokens_in'', JInt (input_tokens (s_usage s))),
              (''tokens_out'', JInt (output_tokens (s_usage s))),
              (''cached'', JInt (cached_tokens (s_usage s))),
              (''total'', JInt (total_tokens (s_usage s)))])"
    "session_open read now' gid (s_file s4) =
       (open_line read (session_open read now' gid (s_file s)) t)\<lparr>s_file := s_file s4, s_updated_at := now'\<rparr>" by auto
  from append_json_effect [OF a [unfolded session_append_stats_def]]
  have f: "s_request_count s4 = s_request_count s" "s_tool_call_count s4 = s_tool_call_count s"
    "s_model_time_ms s4 = s_model_time_ms s" by auto
  show "s_memory (session_open read now' gid (s_file s4)) = s_memory (session_open read now' gid (s_file s))"
    and "s_request_count (session_open read now' gid (s_file s4)) = s_request_count s4"
    and "s_tool_call_count (session_open read now' gid (s_file s4)) = s_tool_call_count s4"
    and "s_model_time_ms (session_open read now' gid (s_file s4)) = int64_wrap (s_model_time_ms s4)"
    by (simp_all add: t open_line_def json_parse_def json_simps Let_def f w)
qed

theorem session_reopen_restores_witness:
  "let j = JObj [(''type'', JStr ''memory''), (''kind'', JStr ''k''), (''content'', JStr ''c'')];
       read = (\<lambda>t. if t = ''m'' then Some j else None);
       render = (\<lambda>k. if k = j then Some ''m'' else None);
       s3 = snd (session_append_memory render 7 zero_session (Some ''k'') (Some ''c''))
   in reopened_memory read s3 = s_memory s3 \<and> s_memory s3 = Some ''[k] c\<newline>''"
proof -
  define j where "j = JObj [(''type'', JStr ''memory''), (''kind'', JStr ''k''), (''content'', JStr ''c'')]"
  define read where "read = (\<lambda>t. if t = ''m'' then Some j else None)"
  define render where "render = (\<lambda>k. if k = j then Some ''m'' else None)"
  have jr: "json_roundtrips read render" by (auto simp: json_roundtrips_def read_def render_def)
  have ok: "file_ok zero_session" by (simp add: file_ok_def zero_session_def)
  have int: "intact zero_session" by (simp add: intact_def zero_session_def)
  have mem: "reopened_memory read zero_session = s_memory zero_session"
    by (simp add: reopened_memory_def session_open_def zero_session_def)
  obtain rc s3 where a: "session_append_memory render 7 zero_session (Some ''k'') (Some ''c'') = (rc, s3)"
    by (cases "session_append_memory render 7 zero_session (Some ''k'') (Some ''c'')")
  then have "s_memory s3 = Some ''[k] c\<newline>''"
    by (auto simp: session_append_memory_def append_json_def append_line_def json_builder_stringify_def
        render_def j_def or_default_def zero_session_def memory_add_def SESSION_MEMORY_MAX_def)
  with session_reopen_restores [OF jr ok _ mem] a int show ?thesis
    by (simp add: Let_def flip: j_def read_def render_def)
qed

end
