(* ===== verification/Agent.thy ===== *)
theory Agent
  imports Context Registry Session
begin

text \<open>
  The agent: \<open>src/src/agent/agent.h\<close>, \<open>src/src/agent/agent.c\<close>, and the model interface of
  \<open>src/src/model/model.h\<close> it drives.  Function pointers (the model's \<open>ModelOps\<close>, the event and
  approval callbacks, the tools) are functions on the world \<open>'w\<close> they act on; tools also see
  the agent's session, so the registry is over \<open>session option \<times> 'w\<close>.  A callback is given
  back to the agent as the list of host calls it makes (\<open>host_call\<close>).  Parents are known by
  their id; the tokens of an agent's ancestors are read through the environment.
\<close>

section \<open>Data\<close>

datatype agent_state =
    AGENT_READY
  | AGENT_WAIT_MODEL
  | AGENT_WAIT_TOOL
  | AGENT_WAIT_CHILD
  | AGENT_WAIT_USER
  | AGENT_DONE
  | AGENT_ERROR
  | AGENT_CANCELLED

datatype agent_step = AGENT_STEP_BUSY | AGENT_STEP_DONE | AGENT_STEP_ERROR | AGENT_STEP_CANCELLED

record cancel_token =
  ct_cancelled :: bool
  ct_generation :: "64 word"

record agent_config =
  cfg_system_prompt :: "string option"
  cfg_model_name :: "string option"
  cfg_cwd :: "string option"

datatype agent_event_type =
    AGENT_EVT_TEXT
  | AGENT_EVT_TOOL_START
  | AGENT_EVT_TOOL_APPROVAL
  | AGENT_EVT_TOOL_END
  | AGENT_EVT_STATUS
  | AGENT_EVT_ERROR

record agent_event =
  ev_type :: agent_event_type
  ev_text :: "string option"
  ev_preview :: "string option"
  ev_name :: "string option"
  ev_is_error :: bool

definition agent_event_of :: "agent_event_type \<Rightarrow> agent_event" where
  "agent_event_of ty = \<lparr>ev_type = ty, ev_text = None, ev_preview = None, ev_name = None, ev_is_error = False\<rparr>"

text \<open>What a host may call on the agent from inside a callback.\<close>

datatype host_call = Approve bool | Cancel | Trust bool

datatype model_stop_reason =
    MODEL_STOP_UNKNOWN
  | MODEL_STOP_COMPLETE
  | MODEL_STOP_TOOL_CALLS
  | MODEL_STOP_MAX_TOKENS
  | MODEL_STOP_CONTENT_FILTER
  | MODEL_STOP_INCOMPLETE

datatype model_event_body =
    Text_Delta string
  | Reasoning_Delta string
  | Tool_Call_Start nat "string option" "string option"
  | Tool_Call_Delta nat string
  | Tool_Call_End nat
  | Usage_Report usage
  | Done_Event model_stop_reason
  | Error_Event int "string option"

text \<open>The events that end a stream.\<close>

definition terminal_event :: "model_event_body \<Rightarrow> bool" where
  "terminal_event b \<longleftrightarrow> (\<exists>r. b = Done_Event r) \<or> (\<exists>code msg. b = Error_Event code msg)"

record model_event =
  me_request_id :: "64 word"
  me_body :: model_event_body

record model_request =
  rq_id :: "64 word"
  rq_tools :: bool
  rq_system_prompt :: "string option"
  rq_messages :: "message list"
  rq_is_compaction :: bool
  rq_max_tokens :: int

text \<open>
  A model with its vtable: \<open>request\<close> and \<open>cancel\<close> may deliver events before they return; the
  list they return is what they delivered.
\<close>

record 'w model =
  md_request :: "model_request \<Rightarrow> 'w \<Rightarrow> (agent_error \<times> model_event list) \<times> 'w"
  md_cancel :: "(64 word \<Rightarrow> 'w \<Rightarrow> model_event list \<times> 'w) option"
  md_context_window :: int
  md_max_output :: int

record 'w runtime =
  rt_model :: "'w model option"
  rt_tools :: "(session option \<times> 'w) tool_registry option"
  rt_cwd :: "string option"
  rt_max_tokens :: int
  rt_max_retries :: int
  rt_model_by_name :: "string \<Rightarrow> 'w model option"

record 'w agent =
  a_id :: "64 word"
  a_runtime :: "'w runtime option"
  a_model :: "'w model option"
  a_messages :: message_list
  a_tools :: "(session option \<times> 'w) tool_registry option"
  a_session :: "session option"
  a_cancel :: cancel_token
  a_state :: agent_state
  a_parent :: "64 word option"
  a_config :: agent_config
  a_event_cb :: "(agent_event \<Rightarrow> 'w \<Rightarrow> host_call list \<times> 'w) option"
  a_approval_available :: bool
  a_session_trusted :: bool
  a_approval_cb :: "(agent_event \<Rightarrow> 'w \<Rightarrow> (bool \<times> host_call list) \<times> 'w) option"
  a_usage_total :: usage
  a_request_count :: "64 word"
  a_model_time_ms :: int
  a_tool_call_count :: "64 word"

section \<open>Cancellation\<close>

text \<open>The token, then its parent, and so on: the loop of \<open>cancel_token_check\<close>.\<close>

fun cancel_token_check :: "cancel_token list \<Rightarrow> bool" where
  "cancel_token_check [] = False"
| "cancel_token_check (cur # parents) = (if ct_cancelled cur then True else cancel_token_check parents)"

definition cancel_token_cancel :: "cancel_token \<Rightarrow> cancel_token" where
  "cancel_token_cancel t = t\<lparr>ct_cancelled := True, ct_generation := ct_generation t + 1\<rparr>"

section \<open>Lifecycle\<close>

definition zero_cancel :: cancel_token where
  "zero_cancel = \<lparr>ct_cancelled = False, ct_generation = 0\<rparr>"

definition zero_config :: agent_config where
  "zero_config = \<lparr>cfg_system_prompt = None, cfg_model_name = None, cfg_cwd = None\<rparr>"

text \<open>\<open>agent_new\<close> with \<open>next_id\<close> the global counter; the allocations are assumed to succeed.\<close>

definition agent_new :: "64 word \<Rightarrow> 'w runtime option \<Rightarrow> agent_config option \<Rightarrow> 'w agent \<times> 64 word" where
  "agent_new next_id rt cfg =
     (let default_model = (case rt of None \<Rightarrow> None | Some r \<Rightarrow> rt_model r);
          named_model = (case (cfg, rt) of
              (Some g, Some r) \<Rightarrow>
                (case cfg_model_name g of
                   None \<Rightarrow> default_model
                 | Some name \<Rightarrow>
                     (case rt_model_by_name r name of Some m \<Rightarrow> Some m | None \<Rightarrow> default_model))
            | _ \<Rightarrow> default_model);
          cwd = (case cfg of
              Some g \<Rightarrow> (case cfg_cwd g of Some d \<Rightarrow> Some d
                        | None \<Rightarrow> (case rt of None \<Rightarrow> None | Some r \<Rightarrow> rt_cwd r))
            | None \<Rightarrow> (case rt of None \<Rightarrow> None | Some r \<Rightarrow> rt_cwd r))
      in (\<lparr>a_id = next_id, a_runtime = rt, a_model = named_model,
           a_messages = \<lparr>mitems = [], mcap = 0\<rparr>,
           a_tools = (case rt of None \<Rightarrow> None | Some r \<Rightarrow> rt_tools r),
           a_session = None, a_cancel = zero_cancel, a_state = AGENT_READY, a_parent = None,
           a_config = \<lparr>cfg_system_prompt = (case cfg of None \<Rightarrow> None | Some g \<Rightarrow> cfg_system_prompt g),
                       cfg_model_name = (case cfg of None \<Rightarrow> None | Some g \<Rightarrow> cfg_model_name g),
                       cfg_cwd = cwd\<rparr>,
           a_event_cb = None, a_approval_available = False, a_session_trusted = False,
           a_approval_cb = None, a_usage_total = zero_usage, a_request_count = 0,
           a_model_time_ms = 0, a_tool_call_count = 0\<rparr>,
          next_id + 1))"

definition agent_spawn ::
  "64 word \<Rightarrow> ('w, 'z) agent_scheme \<Rightarrow> agent_config option \<Rightarrow> 'w agent \<times> 64 word" where
  "agent_spawn next_id parent cfg =
     (let base = (case cfg of None \<Rightarrow> zero_config | Some g \<Rightarrow> g);
          inherited = base
            \<lparr>cfg_system_prompt := (case cfg_system_prompt base of
                None \<Rightarrow> cfg_system_prompt (a_config parent) | Some p \<Rightarrow> Some p),
             cfg_cwd := (case cfg_cwd base of None \<Rightarrow> cfg_cwd (a_config parent) | Some d \<Rightarrow> Some d)\<rparr>;
          (child, next') = agent_new next_id (a_runtime parent) (Some inherited);
          child' = child\<lparr>a_parent := Some (a_id parent)\<rparr>
      in (if cfg_model_name base = None then child'\<lparr>a_model := a_model parent\<rparr> else child', next'))"

definition agent_set_approval_available :: "('w, 'z) agent_scheme \<Rightarrow> bool \<Rightarrow> ('w, 'z) agent_scheme" where
  "agent_set_approval_available a available = a\<lparr>a_approval_available := available\<rparr>"

definition agent_set_approval_cb ::
  "('w, 'z) agent_scheme \<Rightarrow> (agent_event \<Rightarrow> 'w \<Rightarrow> (bool \<times> host_call list) \<times> 'w) option \<Rightarrow>
   ('w, 'z) agent_scheme" where
  "agent_set_approval_cb a cb =
     (let a' = a\<lparr>a_approval_cb := cb\<rparr> in
      if cb \<noteq> None then a'\<lparr>a_approval_available := True\<rparr> else a')"

definition agent_set_session_trusted :: "('w, 'z) agent_scheme \<Rightarrow> bool \<Rightarrow> ('w, 'z) agent_scheme" where
  "agent_set_session_trusted a trusted =
     (if a_parent a = None then a\<lparr>a_session_trusted := trusted\<rparr> else a)"

definition agent_session_trusted :: "('w, 'z) agent_scheme \<Rightarrow> bool" where
  "agent_session_trusted a \<longleftrightarrow> a_parent a = None \<and> a_session_trusted a"

section \<open>Context estimate\<close>

definition AGENT_MEMORY_INJECTION_MAX :: nat where
  "AGENT_MEMORY_INJECTION_MAX = 8192"

text \<open>The prompt that \<open>agent_context_estimate_tokens\<close> builds before it asks the estimator.\<close>

definition estimate_prompt :: "('w, 'z) agent_scheme \<Rightarrow> string" where
  "estimate_prompt a =
     (let base = str_or_empty (cfg_system_prompt (a_config a)) in
      case session_memory (a_session a) of
        None \<Rightarrow> base
      | Some memory \<Rightarrow>
          if memory = [] then base
          else
            (let truncated = length memory > AGENT_MEMORY_INJECTION_MAX;
                 n = (if truncated then AGENT_MEMORY_INJECTION_MAX else length memory) in
             base @ ''\<newline>\<newline>Session memory (current session; verify against files):\<newline>'' @ take n memory @
             (if truncated then ''\<newline>[memory truncated]'' else [])))"

text \<open>\<open>prompt.data\<close> is NULL when nothing was appended.\<close>

definition agent_context_estimate_tokens ::
  "(string \<Rightarrow> json option) \<Rightarrow> (json \<Rightarrow> string option) \<Rightarrow> ('w, 'z) agent_scheme \<Rightarrow> int" where
  "agent_context_estimate_tokens read render a =
     (let p = estimate_prompt a in
      context_estimate_request_tokens (if p = [] then None else Some p) (mitems (a_messages a))
        (map_option (tool_registry_schema_bytes read render) (a_tools a)))"

section \<open>Facts\<close>

lemma cancel_token_check_iff: "cancel_token_check ts \<longleftrightarrow> (\<exists>t\<in>set ts. ct_cancelled t)"
  by (induction ts) auto

lemma agent_spawn_parent: "a_parent (fst (agent_spawn g parent cfg)) = Some (a_id parent)"
  by (simp add: agent_spawn_def agent_new_def Let_def split_beta)

text \<open>A child agent: it runs under the parent's runtime, tools and, unless it names its own
  model, the parent's model; it starts ready with an empty history; no call can make its session
  trusted; and cancelling its parent (or any further ancestor) cancels it.\<close>

theorem agent_spawn_spec:
  fixes parent :: "('w, 'z) agent_scheme"
  assumes "agent_spawn next_id parent cfg = (child, next')"
  shows "a_id child = next_id \<and> next' = next_id + 1 \<and>
         a_runtime child = a_runtime parent \<and>
         (cfg = None \<or> cfg_model_name (the cfg) = None \<longrightarrow> a_model child = a_model parent) \<and>
         a_state child = AGENT_READY \<and> mitems (a_messages child) = [] \<and>
         \<not> agent_session_trusted (agent_set_session_trusted child trusted) \<and>
         cancel_token_check (a_cancel child # cancel_token_cancel (a_cancel parent) # ancestors) \<and>
         cancel_token_check (a_cancel child # a_cancel parent # ancestors) =
           cancel_token_check (a_cancel parent # ancestors)"
proof -
  have p: "a_parent child = Some (a_id parent)"
    using agent_spawn_parent [of next_id parent cfg] assms by simp
  then have t: "\<not> agent_session_trusted (agent_set_session_trusted child trusted)"
    by (simp add: agent_session_trusted_def agent_set_session_trusted_def)
  have "a_id child = next_id" "next' = next_id + 1" "a_runtime child = a_runtime parent"
    "cfg = None \<or> cfg_model_name (the cfg) = None \<longrightarrow> a_model child = a_model parent"
    "a_state child = AGENT_READY" "mitems (a_messages child) = []" "a_cancel child = zero_cancel"
    using assms
    by (auto simp: agent_spawn_def agent_new_def Let_def zero_config_def split: if_splits option.splits)
  with t show ?thesis by (simp add: zero_cancel_def cancel_token_cancel_def)
qed

theorem agent_spawn_spec_witness:
  "\<exists>child next'. agent_spawn 5 (fst (agent_new 1 None None) :: nat agent) None = (child, next') \<and>
     a_id child = 5 \<and> \<not> agent_session_trusted (agent_set_session_trusted child True)"
proof -
  obtain child next' where s: "agent_spawn 5 (fst (agent_new 1 None None) :: nat agent) None = (child, next')"
    by (cases "agent_spawn 5 (fst (agent_new 1 None None) :: nat agent) None")
  from agent_spawn_spec [OF this, where trusted = True] s show ?thesis by auto
qed

declare cancel_token_check.simps [simp del]

end
