(* ===== verification/Loop.thy ===== *)
theory Loop
  imports Agent
begin

text \<open>
  The agent loop of \<open>src/src/agent/loop.c\<close>: the turn of one agent as a suspend/resume state
  machine.  The record \<open>loop\<close> extends the agent with \<open>AgentLoopState\<close> and the world; every
  function of the file is a function on it, with its early returns.  The environment \<open>env\<close>
  holds the clock, SHA-256, the ancestors' cancel tokens and the JSON library; the model, the
  tools and the callbacks are reached through the agent.  One pass of \<open>agent_resume\<close>'s
  \<open>for (;;)\<close> is \<open>resume_iter\<close>, where \<open>None\<close> means \<open>continue\<close>.  Memory allocation is assumed to
  succeed throughout; the branches that only report exhaustion are left out.
\<close>

section \<open>State\<close>

record loop_ctx =
  lc_text :: "string option"       \<comment> \<open>\<open>None\<close>: \<open>data\<close> is NULL\<close>
  lc_reasoning :: "string option"
  lc_tool_calls :: "tool_call list"
  lc_usage :: usage
  lc_stop_reason :: model_stop_reason
  lc_error :: bool
  lc_error_code :: int
  lc_error_msg :: string

record 'w parallel_call =
  pc_tool_index :: nat
  pc_task :: "(session option \<times> 'w) tool_task option"
  pc_result :: tool_result
  pc_done :: bool
  pc_cancel_requested :: bool

type_synonym timespec = "int \<times> int"

record 'w loop = "'w agent" +
  in_turn :: bool
  request_done :: bool
  request_cancel_requested :: bool
  request_id :: "64 word"
  request_max_tokens :: int
  lctx :: loop_ctx
  tool_message_index :: nat
  tool_index :: nat
  tool_task :: "(session option \<times> 'w) tool_task option"
  tool_cancel_requested :: bool
  parallel_tools :: "'w parallel_call list"
  approval_pending :: bool
  approval_decided :: bool
  approval_granted :: bool
  approval_tool_index :: nat
  approval_stored_digest :: string
  approval_digest_valid :: bool
  request_retries :: nat
  retry_pending :: bool
  retry_at :: timespec
  output_limit_continuations :: nat
  output_continuation_active :: bool
  request_sequence :: "64 word"
  compaction_active :: bool
  compaction_done :: bool
  compaction_error :: bool
  compaction :: compaction_request
  compaction_text :: "string option"
  skip_compaction_once :: bool
  t0 :: timespec
  world :: 'w

record 'w env =
  e_clock :: "'w \<Rightarrow> timespec \<times> 'w"
  e_wall :: "'w \<Rightarrow> int"
  e_sha256 :: "string \<Rightarrow> string option"
  e_ancestors :: "'w \<Rightarrow> cancel_token list"
  e_read :: "string \<Rightarrow> json option"
  e_render :: "json \<Rightarrow> string option"

text \<open>An environment in which nothing happens: a stopped clock, no digest, no ancestors.\<close>

definition still_env :: "'w env" where
  "still_env = \<lparr>e_clock = (\<lambda>w. ((0, 0), w)), e_wall = (\<lambda>_. 0), e_sha256 = (\<lambda>_. None),
     e_ancestors = (\<lambda>_. []), e_read = (\<lambda>_. None), e_render = (\<lambda>_. None)\<rparr>"

definition MAX_OUTPUT_LIMIT_CONTINUATIONS :: nat where
  "MAX_OUTPUT_LIMIT_CONTINUATIONS = 3"

definition zero_ctx :: loop_ctx where
  "zero_ctx = \<lparr>lc_text = None, lc_reasoning = None, lc_tool_calls = [], lc_usage = zero_usage,
     lc_stop_reason = MODEL_STOP_UNKNOWN, lc_error = False, lc_error_code = 0, lc_error_msg = []\<rparr>"

text \<open>\<open>loop_state\<close>: the state allocated, zeroed, on first use.\<close>

definition loop_state :: "'w agent \<Rightarrow> 'w \<Rightarrow> 'w loop" where
  "loop_state a w = agent.extend a
     (loop.fields False False False 0 0 zero_ctx 0 0 None False [] False False False 0 [] False
        0 False (0, 0) 0 False 0 False False False no_compaction None False (0, 0) w)"

text \<open>Numeric values of \<open>AgentError\<close>.\<close>

fun error_value :: "agent_error \<Rightarrow> int" where
  "error_value AGENT_OK = 0"
| "error_value AGENT_ERR_OOM = 1"
| "error_value AGENT_ERR_IO = 2"
| "error_value AGENT_ERR_JSON = 3"
| "error_value AGENT_ERR_HTTP = 4"
| "error_value AGENT_ERR_MODEL = 5"
| "error_value AGENT_ERR_TOOL = 6"
| "error_value AGENT_ERR_PROCESS = 7"
| "error_value AGENT_ERR_CANCELLED = 8"
| "error_value AGENT_ERR_AUTH = 9"

definition all_ok :: compaction_allocs where
  "all_ok = \<lparr>ok_prompt = True, ok_message = True, ok_list = True\<rparr>"

text \<open>A \<open>String\<close> that grows by \<open>string_append_n\<close> without allocation failure, its clear, its
  length.\<close>

definition text_add :: "string option \<Rightarrow> string \<Rightarrow> string option" where
  "text_add t bs = (if bs = [] then t else Some (str_or_empty t @ bs))"

definition text_clear :: "string option \<Rightarrow> string option" where
  "text_clear t = map_option (\<lambda>_. []) t"

definition text_len :: "string option \<Rightarrow> nat" where
  "text_len t = length (str_or_empty t)"

text \<open>Appending to the history when memory suffices: the capacity doubles when it is full.\<close>

definition history_append :: "message_list \<Rightarrow> message \<Rightarrow> message_list" where
  "history_append l m =
     \<lparr>mitems = mitems l @ [m],
      mcap = (if length (mitems l) = mcap l then (if mcap l = 0 then LIST_MIN_CAP else mcap l * 2) else mcap l)\<rparr>"

text \<open>The 64-bit difference of two clock readings in milliseconds: C division truncates.\<close>

definition c_div :: "int \<Rightarrow> int \<Rightarrow> int" where
  "c_div a b = (if a < 0 then - ((- a) div b) else a div b)"

definition elapsed_ms :: "timespec \<Rightarrow> timespec \<Rightarrow> int" where
  "elapsed_ms later earlier = (fst later - fst earlier) * 1000 + c_div (snd later - snd earlier) 1000000"

section \<open>Host calls and events\<close>

definition agent_set_approval_result :: "'w loop \<Rightarrow> bool \<Rightarrow> agent_error \<times> 'w loop" where
  "agent_set_approval_result c approved =
     (if a_state c \<noteq> AGENT_WAIT_USER \<or> \<not> approval_pending c \<or> approval_decided c then (AGENT_ERR_TOOL, c)
      else (AGENT_OK, c\<lparr>approval_decided := True, approval_granted := approved\<rparr>))"

fun do_host_call :: "'w loop \<Rightarrow> host_call \<Rightarrow> 'w loop" where
  "do_host_call c (Approve b) = snd (agent_set_approval_result c b)"
| "do_host_call c Cancel = c\<lparr>a_cancel := cancel_token_cancel (a_cancel c)\<rparr>"
| "do_host_call c (Trust b) = agent_set_session_trusted c b"

definition emit :: "agent_event \<Rightarrow> 'w loop \<Rightarrow> 'w loop" where
  "emit ev c =
     (case a_event_cb c of
        None \<Rightarrow> c
      | Some cb \<Rightarrow> (let (calls, w') = cb ev (world c) in foldl do_host_call (c\<lparr>world := w'\<rparr>) calls))"

definition ask_clock :: "'w env \<Rightarrow> 'w loop \<Rightarrow> timespec \<times> 'w loop" where
  "ask_clock env c = (let (t, w') = e_clock env (world c) in (t, c\<lparr>world := w'\<rparr>))"

definition with_session :: "(session \<Rightarrow> session) \<Rightarrow> 'w loop \<Rightarrow> 'w loop" where
  "with_session f c = c\<lparr>a_session := map_option f (a_session c)\<rparr>"

definition log_message :: "'w env \<Rightarrow> message \<Rightarrow> 'w loop \<Rightarrow> 'w loop" where
  "log_message env m c =
     with_session (\<lambda>s. snd (session_append_message (e_render env) (e_wall env (world c)) s m)) c"

text \<open>Running a tool entry point on the world it sees.\<close>

definition run_tool :: "(session option \<times> 'w \<Rightarrow> 'r \<times> (session option \<times> 'w)) \<Rightarrow> 'w loop \<Rightarrow> 'r \<times> 'w loop" where
  "run_tool f c = (let (r, s', w') = f (a_session c, world c) in (r, c\<lparr>a_session := s', world := w'\<rparr>))"

definition run_hook :: "(session option \<times> 'w \<Rightarrow> session option \<times> 'w) option \<Rightarrow> 'w loop \<Rightarrow> 'w loop" where
  "run_hook f c =
     (case f of None \<Rightarrow> c
      | Some g \<Rightarrow> (let (s', w') = g (a_session c, world c) in c\<lparr>a_session := s', world := w'\<rparr>))"

section \<open>Approval digest\<close>

definition digest_input :: "tool_call \<Rightarrow> string" where
  "digest_input tc =
     (case tc_name tc of None \<Rightarrow> [] | Some n \<Rightarrow> n @ [CHR 0x00]) @
     (case tc_arguments tc of None \<Rightarrow> [] | Some a \<Rightarrow> a @ [CHR 0x00])"

definition approval_digest :: "'w env \<Rightarrow> tool_call \<Rightarrow> string option" where
  "approval_digest env tc =
     (case e_sha256 env (digest_input tc) of
        Some d \<Rightarrow> if length d = 32 then Some d else None
      | None \<Rightarrow> None)"

definition approval_matches :: "'w env \<Rightarrow> 'w loop \<Rightarrow> tool_call \<Rightarrow> bool" where
  "approval_matches env c tc \<longleftrightarrow>
     approval_digest_valid c \<and>
     (case approval_digest env tc of None \<Rightarrow> False | Some d \<Rightarrow> d = approval_stored_digest c)"

section \<open>Model events\<close>

definition ensure_tool_call :: "tool_call list \<Rightarrow> nat \<Rightarrow> tool_call list" where
  "ensure_tool_call tcs index =
     (if length tcs \<le> index then tcs @ replicate (index + 1 - length tcs) zero_tool_call else tcs)"

definition add_start :: "string option \<Rightarrow> string option \<Rightarrow> tool_call \<Rightarrow> tool_call" where
  "add_start id1 name tc =
     tc\<lparr>tc_id := (if id1 \<noteq> None \<and> tc_id tc = None then id1 else tc_id tc),
        tc_name := (if name \<noteq> None \<and> tc_name tc = None then name else tc_name tc)\<rparr>"

definition add_delta :: "string \<Rightarrow> tool_call \<Rightarrow> tool_call" where
  "add_delta delta tc =
     tc\<lparr>tc_arguments := Some (case tc_arguments tc of
          None \<Rightarrow> c_str delta | Some old \<Rightarrow> c_str (old @ delta))\<rparr>"

definition add_usage :: "usage \<Rightarrow> usage \<Rightarrow> usage" where
  "add_usage a b = \<lparr>input_tokens = input_tokens a + input_tokens b,
                    output_tokens = output_tokens a + output_tokens b,
                    cached_tokens = cached_tokens a + cached_tokens b,
                    total_tokens = total_tokens a + total_tokens b\<rparr>"

definition finish_stats :: "'w env \<Rightarrow> model_stop_reason \<Rightarrow> 'w loop \<Rightarrow> 'w loop" where
  "finish_stats env reason c =
     (let (t1, c1) = ask_clock env (c\<lparr>request_done := True, lctx := (lctx c)\<lparr>lc_stop_reason := reason\<rparr>\<rparr>);
          c2 = c1\<lparr>a_request_count := a_request_count c1 + 1,
                 a_model_time_ms := a_model_time_ms c1 + elapsed_ms t1 (t0 c1),
                 a_usage_total := add_usage (a_usage_total c1) (lc_usage (lctx c1))\<rparr> in
      with_session (\<lambda>s. s\<lparr>s_request_count := a_request_count c2, s_model_time_ms := a_model_time_ms c2,
                          s_usage := a_usage_total c2\<rparr>) c2)"

definition on_model_event :: "'w env \<Rightarrow> 'w loop \<Rightarrow> model_event \<Rightarrow> 'w loop" where
  "on_model_event env c ev =
     (if me_request_id ev \<noteq> request_id c then c
      else
        (let ctx = lctx c in
         case me_body ev of
           Text_Delta d \<Rightarrow>
             (let c1 = c\<lparr>lctx := ctx\<lparr>lc_text := text_add (lc_text ctx) d\<rparr>\<rparr> in
              if d \<noteq> [] then emit ((agent_event_of AGENT_EVT_TEXT)\<lparr>ev_text := Some d\<rparr>) c1 else c1)
         | Reasoning_Delta d \<Rightarrow> c\<lparr>lctx := ctx\<lparr>lc_reasoning := text_add (lc_reasoning ctx) d\<rparr>\<rparr>
         | Tool_Call_Start i id1 name \<Rightarrow>
             (let tcs = ensure_tool_call (lc_tool_calls ctx) i in
              c\<lparr>lctx := ctx\<lparr>lc_tool_calls := tcs[i := add_start id1 name (tcs ! i)]\<rparr>\<rparr>)
         | Tool_Call_Delta i d \<Rightarrow>
             (let tcs = ensure_tool_call (lc_tool_calls ctx) i in
              c\<lparr>lctx := ctx\<lparr>lc_tool_calls := tcs[i := add_delta d (tcs ! i)]\<rparr>\<rparr>)
         | Tool_Call_End i \<Rightarrow> c
         | Usage_Report u \<Rightarrow> c\<lparr>lctx := ctx\<lparr>lc_usage := u\<rparr>\<rparr>
         | Done_Event reason \<Rightarrow> finish_stats env reason c
         | Error_Event code msg \<Rightarrow>
             c\<lparr>request_done := True,
               lctx := ctx\<lparr>lc_error := True, lc_error_code := code,
                 lc_error_msg := take 511 (case msg of None \<Rightarrow> ''model error'' | Some t \<Rightarrow> t)\<rparr>\<rparr>))"

definition on_compaction_event :: "'w loop \<Rightarrow> model_event \<Rightarrow> 'w loop" where
  "on_compaction_event c ev =
     (if me_request_id ev \<noteq> request_id c then c
      else
        (case me_body ev of
           Text_Delta d \<Rightarrow> c\<lparr>compaction_text := text_add (compaction_text c) d\<rparr>
         | Done_Event _ \<Rightarrow> c\<lparr>compaction_done := True\<rparr>
         | Error_Event _ _ \<Rightarrow> c\<lparr>compaction_done := True, compaction_error := True\<rparr>
         | _ \<Rightarrow> c))"

section \<open>Tool execution\<close>

definition call_at :: "'w loop \<Rightarrow> nat \<Rightarrow> tool_call" where
  "call_at c k = m_tool_calls (mitems (a_messages c) ! tool_message_index c) ! k"

definition calls_len :: "'w loop \<Rightarrow> nat" where
  "calls_len c = length (m_tool_calls (mitems (a_messages c) ! tool_message_index c))"

definition set_call :: "nat \<Rightarrow> tool_call \<Rightarrow> 'w loop \<Rightarrow> 'w loop" where
  "set_call k tc c =
     c\<lparr>a_messages := (a_messages c)\<lparr>mitems := (mitems (a_messages c))
         [tool_message_index c := (mitems (a_messages c) ! tool_message_index c)
            \<lparr>m_tool_calls := (m_tool_calls (mitems (a_messages c) ! tool_message_index c))[k := tc]\<rparr>]\<rparr>\<rparr>"

definition find_tool :: "'w loop \<Rightarrow> tool_call \<Rightarrow> (session option \<times> 'w) tool option" where
  "find_tool c tc =
     (case a_tools c of None \<Rightarrow> None | Some r \<Rightarrow> tool_registry_find r (str_or_empty (tc_name tc)))"

definition tool_args :: "tool_call \<Rightarrow> string" where
  "tool_args tc = (case tc_arguments tc of None \<Rightarrow> ''{}'' | Some a \<Rightarrow> a)"

definition error_result :: "string \<Rightarrow> tool_result" where
  "error_result msg = \<lparr>tr_content = Some msg, tr_is_error = True\<rparr>"

definition failure_memory :: "tool_call \<Rightarrow> string \<Rightarrow> string" where
  "failure_memory tc content =
     take 2303 (''tool '' @ (case tc_name tc of None \<Rightarrow> ''unknown'' | Some n \<Rightarrow> n) @ '' failed: '' @ take 2048 content)"

definition append_tool_result :: "'w env \<Rightarrow> 'w loop \<Rightarrow> nat \<Rightarrow> tool_result \<Rightarrow> agent_error \<times> 'w loop" where
  "append_tool_result env c k result =
     (let res = (case tr_content result of
           None \<Rightarrow> error_result ''error: tool returned no result'' | Some _ \<Rightarrow> result);
          content = str_or_empty (tr_content res);
          tc = call_at c k;
          c1 = set_call k (tc\<lparr>tc_result := Some content, tc_is_error := tr_is_error res\<rparr>) c;
          c2 = (if tr_is_error res
                then with_session (\<lambda>s. snd (session_append_memory (e_render env) (e_wall env (world c1)) s
                       (Some ''tool_error'') (Some (failure_memory tc content)))) c1
                else c1) in
      if tc_id tc = None \<or> tc_id tc = Some [] then (AGENT_ERR_OOM, c2)
      else
        (let tm = (message_new MSG_TOOL)\<lparr>m_tool_call_id := tc_id tc, m_content := Some content,
                                         m_is_error := tr_is_error res\<rparr>;
             c3 = log_message env tm c2 in
         (AGENT_OK, c3\<lparr>a_messages := history_append (a_messages c3) tm\<rparr>)))"

definition append_tool_rejection :: "'w env \<Rightarrow> 'w loop \<Rightarrow> nat \<Rightarrow> string \<Rightarrow> agent_error \<times> 'w loop" where
  "append_tool_rejection env c k reason = append_tool_result env c k (error_result reason)"

definition normalize_tool_failure :: "agent_error \<Rightarrow> tool_result \<Rightarrow> tool_result" where
  "normalize_tool_failure rc result =
     (if rc = AGENT_OK \<and> tr_content result \<noteq> None then result
      else \<lparr>tr_content = (case tr_content result of None \<Rightarrow> Some ''error: tool invocation failed'' | Some t \<Rightarrow> Some t),
            tr_is_error = True\<rparr>)"

text \<open>
  Entering a tool: what \<open>start_tool_call\<close> and \<open>start_parallel_tools\<close> do with its entry points.
  The first component is the pending task, the second the result when there is none.
\<close>

definition enter_tool ::
  "(session option \<times> 'w) tool \<Rightarrow> tool_call \<Rightarrow> 'w loop \<Rightarrow>
   ((session option \<times> 'w) tool_task option \<times> tool_result) \<times> 'w loop" where
  "enter_tool tool tc c =
     (case t_start tool of
        Some start \<Rightarrow>
          (let ((rc, result, task), c1) = run_tool (start (tool_args tc)) c in
           case task of
             Some t \<Rightarrow>
               if rc = AGENT_OK then
                 (if tk_poll t = None \<or> tk_destroy t = None
                  then ((None, error_result ''error: invalid asynchronous tool task''), run_hook (tk_destroy t) c1)
                  else ((Some t, zero_result), c1))
               else ((None, normalize_tool_failure rc result), run_hook (tk_destroy t) c1)
           | None \<Rightarrow> ((None, normalize_tool_failure rc result), c1))
      | None \<Rightarrow>
          (case t_execute tool of
             Some execute \<Rightarrow>
               (let ((rc, result), c1) = run_tool (execute (tool_args tc)) c in
                ((None, normalize_tool_failure rc result), c1))
           | None \<Rightarrow> ((None, error_result ''error: tool has no implementation''), c)))"

text \<open>\<open>start_tool_call\<close>: the flag says whether the invocation is pending.\<close>

definition start_tool_call :: "'w env \<Rightarrow> 'w loop \<Rightarrow> nat \<Rightarrow> agent_error \<times> bool \<times> 'w loop" where
  "start_tool_call env c k =
     (let tc = call_at c k in
      case find_tool c tc of
        None \<Rightarrow> (let (rc, c1) = append_tool_result env c k (error_result ''error: unknown tool'') in (rc, False, c1))
      | Some tool \<Rightarrow>
          (let ((task, result), c1) = enter_tool tool tc c in
           case task of
             Some t \<Rightarrow> (AGENT_OK, True, c1\<lparr>tool_task := Some t, tool_cancel_requested := False\<rparr>)
           | None \<Rightarrow> (let (rc, c2) = append_tool_result env c1 k result in (rc, False, c2))))"

definition build_tool_preview :: "(session option \<times> 'w) tool \<Rightarrow> tool_call \<Rightarrow> 'w loop \<Rightarrow> string option \<times> 'w loop" where
  "build_tool_preview tool tc c =
     (case t_preview tool of
        None \<Rightarrow> (None, c)
      | Some preview \<Rightarrow>
          (let ((rc, result), c1) = run_tool (preview (tool_args tc)) c in
           (if rc \<noteq> AGENT_OK \<and> tr_content result = None
            then Some ''preview unavailable; review the raw arguments carefully''
            else tr_content result, c1)))"

text \<open>Polling a task: its report, or not done yet.\<close>

definition poll_task ::
  "(session option \<times> 'w) tool_task \<Rightarrow> 'w loop \<Rightarrow> (agent_error \<times> tool_result \<times> bool) \<times> 'w loop" where
  "poll_task t c = (case tk_poll t of Some p \<Rightarrow> run_tool p c | None \<Rightarrow> ((AGENT_OK, zero_result, False), c))"

definition poll_tool_call :: "'w env \<Rightarrow> 'w loop \<Rightarrow> nat \<Rightarrow> agent_error \<times> bool \<times> 'w loop" where
  "poll_tool_call env c k =
     (case tool_task c of
        None \<Rightarrow> (AGENT_OK, False, c)
      | Some t \<Rightarrow>
          (let ((rc, result, task_done), c1) = poll_task t c in
           if \<not> task_done \<and> rc = AGENT_OK then (AGENT_OK, False, c1)
           else
             (let c2 = (run_hook (tk_destroy t) c1)\<lparr>tool_task := None, tool_cancel_requested := False\<rparr>;
                  (rc2, c3) = append_tool_result env c2 k (normalize_tool_failure rc result) in
              (rc2, True, c3))))"

section \<open>Parallel tools\<close>

definition parallel_batch_eligible :: "'w loop \<Rightarrow> message \<Rightarrow> bool" where
  "parallel_batch_eligible c assistant \<longleftrightarrow>
     length (m_tool_calls assistant) \<ge> 2 \<and>
     (\<forall>tc\<in>set (m_tool_calls assistant).
        case find_tool c tc of None \<Rightarrow> False | Some tool \<Rightarrow> parallel_safe tool)"

definition tool_start_event :: "tool_call \<Rightarrow> agent_event" where
  "tool_start_event tc = (agent_event_of AGENT_EVT_TOOL_START)\<lparr>ev_name := tc_name tc, ev_text := tc_arguments tc\<rparr>"

definition tool_end_event :: "tool_call \<Rightarrow> bool \<Rightarrow> agent_event" where
  "tool_end_event tc err = (agent_event_of AGENT_EVT_TOOL_END)\<lparr>ev_name := tc_name tc, ev_is_error := err\<rparr>"

definition start_parallel_one :: "'w loop \<Rightarrow> nat \<Rightarrow> 'w parallel_call \<times> 'w loop" where
  "start_parallel_one c i =
     (let tc = call_at c i; c1 = emit (tool_start_event tc) c;
          call = \<lparr>pc_tool_index = i, pc_task = None, pc_result = zero_result, pc_done = False,
                  pc_cancel_requested = False\<rparr> in
      case find_tool c tc of
        None \<Rightarrow> (call, c1)   \<comment> \<open>not reached: the batch was found eligible\<close>
      | Some tool \<Rightarrow>
          (let ((task, result), c2) = enter_tool tool tc c1 in
           case task of
             Some t \<Rightarrow> (call\<lparr>pc_task := Some t\<rparr>, c2)
           | None \<Rightarrow> (call\<lparr>pc_result := result, pc_done := True\<rparr>, c2)))"

fun start_parallel_calls :: "nat list \<Rightarrow> 'w loop \<Rightarrow> 'w parallel_call list \<times> 'w loop" where
  "start_parallel_calls [] c = ([], c)"
| "start_parallel_calls (i # is) c =
     (let (call, c1) = start_parallel_one c i; (calls, c2) = start_parallel_calls is c1 in (call # calls, c2))"

definition start_parallel_tools :: "'w loop \<Rightarrow> 'w loop" where
  "start_parallel_tools c =
     (let (calls, c1) = start_parallel_calls [0..<calls_len c] c in c1\<lparr>parallel_tools := calls\<rparr>)"

definition poll_parallel_one :: "'w parallel_call \<Rightarrow> 'w loop \<Rightarrow> 'w parallel_call \<times> 'w loop" where
  "poll_parallel_one call c =
     (case pc_task call of
        None \<Rightarrow> (call, c)
      | Some t \<Rightarrow>
          if pc_done call then (call, c)
          else
            (let ((rc, result, task_done), c1) = poll_task t c in
             if \<not> task_done \<and> rc = AGENT_OK then (call, c1)
             else (call\<lparr>pc_task := None, pc_result := normalize_tool_failure rc result, pc_done := True\<rparr>,
                   run_hook (tk_destroy t) c1)))"

fun poll_parallel_calls :: "'w parallel_call list \<Rightarrow> 'w loop \<Rightarrow> 'w parallel_call list \<times> 'w loop" where
  "poll_parallel_calls [] c = ([], c)"
| "poll_parallel_calls (call # calls) c =
     (let (call', c1) = poll_parallel_one call c; (calls', c2) = poll_parallel_calls calls c1 in
      (call' # calls', c2))"

fun append_parallel_results :: "'w env \<Rightarrow> 'w parallel_call list \<Rightarrow> 'w loop \<Rightarrow> agent_error \<times> 'w loop" where
  "append_parallel_results env [] c = (AGENT_OK, c)"
| "append_parallel_results env (call # calls) c =
     (let (rc, c1) = append_tool_result env c (pc_tool_index call) (pc_result call) in
      if rc \<noteq> AGENT_OK then (rc, c1)
      else
        (let tc = call_at c1 (pc_tool_index call) in
         append_parallel_results env calls (emit (tool_end_event tc (tc_is_error tc)) c1)))"

definition poll_parallel_tools :: "'w env \<Rightarrow> 'w loop \<Rightarrow> agent_error \<times> bool \<times> 'w loop" where
  "poll_parallel_tools env c =
     (let (calls, c1) = poll_parallel_calls (parallel_tools c) c; c2 = c1\<lparr>parallel_tools := calls\<rparr> in
      if \<not> list_all pc_done calls then (AGENT_OK, False, c2)
      else (let (rc, c3) = append_parallel_results env calls c2 in (rc, rc = AGENT_OK, c3)))"

text \<open>\<open>parallel_tools_free\<close>: cancel and destroy what is still pending.\<close>

definition parallel_tools_free :: "'w loop \<Rightarrow> 'w loop" where
  "parallel_tools_free c =
     (foldl (\<lambda>c call. case pc_task call of None \<Rightarrow> c | Some t \<Rightarrow> run_hook (tk_destroy t) (run_hook (tk_cancel t) c))
        c (parallel_tools c))\<lparr>parallel_tools := []\<rparr>"

section \<open>Request initiation\<close>

definition next_request_id :: "'w loop \<Rightarrow> 64 word \<times> 'w loop" where
  "next_request_id c =
     (let seq = request_sequence c + 1;
          low0 = and seq 0xFFFFFFFF;
          low = (if low0 = 0 then 1 else low0) in
      (or (push_bit 32 (a_id c)) low, c\<lparr>request_sequence := seq\<rparr>))"

definition is_blank :: "char \<Rightarrow> bool" where
  "is_blank ch \<longleftrightarrow> ch = CHR '' '' \<or> ch = CHR 0x09 \<or> ch = CHR 0x0A \<or> ch = CHR 0x0D"

definition summary_has_text :: "string option \<Rightarrow> bool" where
  "summary_has_text t = (case t of None \<Rightarrow> False | Some bs \<Rightarrow> list_ex (\<lambda>ch. \<not> is_blank ch) bs)"

definition persist_compaction :: "'w env \<Rightarrow> compaction_request \<Rightarrow> string option \<Rightarrow> 'w loop \<Rightarrow> 'w loop" where
  "persist_compaction env request summary c =
     (if summary = None then c
      else with_session (\<lambda>s. snd (session_append_compaction (e_render env) (e_wall env (world c)) s
             (cr_start request) (cr_count request) summary)) c)"

text \<open>\<open>a->model\<close>; every caller runs after \<open>agent_start\<close> checked that it is not NULL.\<close>

definition model_of :: "'w loop \<Rightarrow> 'w model" where
  "model_of c = the (a_model c)"

definition start_compaction_request :: "'w env \<Rightarrow> 'w loop \<Rightarrow> agent_error \<times> 'w loop" where
  "start_compaction_request env c =
     (let (rc, req) = context_compaction_prepare all_ok (mitems (a_messages c)) 10;
          c1 = c\<lparr>compaction := req\<rparr> in
      if rc \<noteq> AGENT_OK \<or> cr_count req = 0 then (rc, c1)
      else
        (let (rid, c2) = next_request_id (c1\<lparr>compaction_text := text_clear (compaction_text c1),
                 compaction_done := False, compaction_error := False, compaction_active := True\<rparr>);
             limit = (if md_max_output (model_of c) > 0 then md_max_output (model_of c) else 2048);
             request = \<lparr>rq_id = rid, rq_tools = False,
                        rq_system_prompt = cfg_system_prompt (a_config c2),
                        rq_messages = cr_messages req, rq_is_compaction = True,
                        rq_max_tokens = (if limit > 2048 then 2048 else limit)\<rparr>;
             c3 = c2\<lparr>request_id := rid, a_state := AGENT_WAIT_MODEL\<rparr>;
             ((rc2, evs), w') = md_request (model_of c) request (world c3);
             c4 = foldl on_compaction_event (c3\<lparr>world := w'\<rparr>) evs in
         (rc2, if rc2 \<noteq> AGENT_OK then c4\<lparr>compaction_active := False, compaction := no_compaction\<rparr> else c4)))"

definition finish_compaction :: "'w env \<Rightarrow> 'w loop \<Rightarrow> 'w loop" where
  "finish_compaction env c =
     (let before = length (mitems (a_messages c));
          summary = map_option c_str (compaction_text c);
          ok1 = (\<not> compaction_error c \<and> summary_has_text (compaction_text c));
          (rc1, msgs1) = (if ok1 then context_compaction_apply all_ok (a_messages c) (compaction c) summary
                          else (AGENT_ERR_MODEL, a_messages c));
          c1 = (if ok1 \<and> rc1 = AGENT_OK
                then persist_compaction env (compaction c) summary (c\<lparr>a_messages := msgs1\<rparr>)
                else
                  (let (rc2, msgs2) = context_compaction_apply_fallback all_ok msgs1 (compaction c);
                       c2 = c\<lparr>a_messages := msgs2\<rparr> in
                   if rc2 = AGENT_OK \<and> length (mitems msgs2) < before
                   then persist_compaction env (compaction c) (m_content (mitems msgs2 ! cr_start (compaction c))) c2
                   else c2)) in
      c1\<lparr>compaction := no_compaction, compaction_text := text_clear (compaction_text c1),
         compaction_active := False, skip_compaction_once := True, a_state := AGENT_READY\<rparr>)"

definition continuation_instruction :: string where
  "continuation_instruction =
     ''\<newline>\<newline>The previous model response reached its output-token limit before '' @
     ''completing the user's request. Continue the same task now. Do not stop at '' @
     ''analysis or a progress update: use tools as needed, finish the requested work, '' @
     ''verify it, and only then provide the final answer. Regenerate any interrupted '' @
     ''tool call from scratch.''"

definition memory_section :: "string \<Rightarrow> string" where
  "memory_section mem =
     (let truncated = length mem > AGENT_MEMORY_INJECTION_MAX;
          n = (if truncated then AGENT_MEMORY_INJECTION_MAX else length mem) in
      ''\<newline>\<newline>--- BEGIN UNTRUSTED SESSION MEMORY (Session memory; verify against files) ---\<newline>'' @ take n mem @
      ''\<newline>--- END UNTRUSTED SESSION MEMORY ---\<newline>'' @
      (if truncated then ''\<newline>[memory truncated]'' else []))"

definition build_turn_system_prompt :: "'w loop \<Rightarrow> string" where
  "build_turn_system_prompt c =
     str_or_empty (cfg_system_prompt (a_config c)) @
     (case session_memory (a_session c) of
        None \<Rightarrow> [] | Some mem \<Rightarrow> if mem = [] then [] else memory_section mem) @
     (if output_continuation_active c then continuation_instruction else [])"

definition start_model_request :: "'w env \<Rightarrow> 'w loop \<Rightarrow> agent_error \<times> 'w loop" where
  "start_model_request env c =
     (let ctx = \<lparr>lc_text = text_clear (lc_text (lctx c)), lc_reasoning = text_clear (lc_reasoning (lctx c)),
                 lc_tool_calls = [], lc_usage = zero_usage, lc_stop_reason = MODEL_STOP_UNKNOWN,
                 lc_error = False, lc_error_code = 0, lc_error_msg = []\<rparr>;
          (rid, c1) = next_request_id (c\<lparr>lctx := ctx, request_done := False, request_cancel_requested := False\<rparr>);
          limit = (case a_runtime c1 of Some rt \<Rightarrow> rt_max_tokens rt | None \<Rightarrow> 4096);
          request = \<lparr>rq_id = rid, rq_tools = (a_tools c1 \<noteq> None),
                     rq_system_prompt = Some (build_turn_system_prompt c1),
                     rq_messages = mitems (a_messages c1), rq_is_compaction = False, rq_max_tokens = limit\<rparr>;
          (t, c2) = ask_clock env (c1\<lparr>request_id := rid, request_max_tokens := limit, a_state := AGENT_WAIT_MODEL\<rparr>);
          c3 = c2\<lparr>t0 := t\<rparr>;
          ((rc, evs), w') = md_request (model_of c) request (world c3) in
      (rc, foldl (on_model_event env) (c3\<lparr>world := w'\<rparr>) evs))"

definition needs_compaction :: "'w env \<Rightarrow> 'w loop \<Rightarrow> bool" where
  "needs_compaction env c =
     context_needs_compact_request (map_option md_context_window (a_model c)) (Some (build_turn_system_prompt c))
       (mitems (a_messages c)) (map_option (tool_registry_schema_bytes (e_read env) (e_render env)) (a_tools c))"

definition start_request :: "'w env \<Rightarrow> 'w loop \<Rightarrow> agent_error \<times> 'w loop" where
  "start_request env c0 =
     (let c = c0\<lparr>request_retries := 0, retry_pending := False\<rparr> in
      if \<not> skip_compaction_once c \<and> needs_compaction env c then
        (let (rc, c1) = start_compaction_request env c in
         if rc = AGENT_OK \<and> compaction_active c1 then (AGENT_OK, c1)
         else
           (let (_, msgs) = context_compact all_ok all_ok (a_messages c1) 10 in
            start_model_request env (c1\<lparr>a_messages := msgs, skip_compaction_once := False\<rparr>)))
      else start_model_request env (c\<lparr>skip_compaction_once := False\<rparr>))"

definition retryable_model_error :: "int \<Rightarrow> bool" where
  "retryable_model_error code \<longleftrightarrow>
     code = error_value AGENT_ERR_HTTP \<or> code = 408 \<or> code = 425 \<or> code = 429 \<or> code = 500 \<or>
     code = 502 \<or> code = 503 \<or> code = 504"

definition retry_delay_ms :: "nat \<Rightarrow> int" where
  "retry_delay_ms retries =
     (let d = push_bit (if retries > 5 then 5 else retries - 1) 250 in if d > 8000 then 8000 else d)"

definition retry_delay_elapsed :: "'w env \<Rightarrow> 'w loop \<Rightarrow> bool \<times> 'w loop" where
  "retry_delay_elapsed env c =
     (let (now, c1) = ask_clock env c; deadline = retry_at c in
      (fst now > fst deadline \<or> (fst now = fst deadline \<and> snd now \<ge> snd deadline), c1))"

definition schedule_retry_delay :: "'w env \<Rightarrow> 'w loop \<Rightarrow> 'w loop" where
  "schedule_retry_delay env c =
     (let d = retry_delay_ms (request_retries c);
          ((sec, nsec), c1) = ask_clock env c;
          sec1 = sec + c_div d 1000;
          nsec1 = nsec + (d - c_div d 1000 * 1000) * 1000000 in
      c1\<lparr>retry_at := (if nsec1 \<ge> 1000000000 then (sec1 + 1, nsec1 - 1000000000) else (sec1, nsec1)),
         retry_pending := True\<rparr>)"

definition request_hit_output_limit :: "'w loop \<Rightarrow> bool" where
  "request_hit_output_limit c \<longleftrightarrow>
     lc_stop_reason (lctx c) = MODEL_STOP_MAX_TOKENS \<or>
     (lc_stop_reason (lctx c) = MODEL_STOP_UNKNOWN \<and> request_max_tokens c > 0 \<and>
      output_tokens (lc_usage (lctx c)) \<ge> request_max_tokens c)"

definition request_ended_incomplete :: "'w loop \<Rightarrow> bool" where
  "request_ended_incomplete c \<longleftrightarrow>
     lc_stop_reason (lctx c) = MODEL_STOP_CONTENT_FILTER \<or> lc_stop_reason (lctx c) = MODEL_STOP_INCOMPLETE"

section \<open>The state machine\<close>

text \<open>The result of one pass: \<open>None\<close> continues the loop.\<close>

type_synonym 'w pass = "agent_step option \<times> 'w loop"

definition fail_turn :: "'w loop \<Rightarrow> 'w pass" where
  "fail_turn c = (Some AGENT_STEP_ERROR, c\<lparr>a_state := AGENT_ERROR, in_turn := False\<rparr>)"

definition suspend_or_fail :: "agent_error \<times> 'w loop \<Rightarrow> 'w pass" where
  "suspend_or_fail r =
     (case r of (rc, c) \<Rightarrow> if rc \<noteq> AGENT_OK then fail_turn c else (Some AGENT_STEP_BUSY, c))"

definition error_event :: "string \<Rightarrow> agent_event" where
  "error_event msg = (agent_event_of AGENT_EVT_ERROR)\<lparr>ev_text := Some msg\<rparr>"

definition status_event :: "string \<Rightarrow> agent_event" where
  "status_event msg = (agent_event_of AGENT_EVT_STATUS)\<lparr>ev_text := Some msg\<rparr>"

text \<open>The request still in flight, as the cancellation branch decides it.\<close>

definition model_pending :: "'w loop \<Rightarrow> bool" where
  "model_pending c \<longleftrightarrow>
     (compaction_active c \<and> \<not> compaction_done c) \<or> (\<not> compaction_active c \<and> \<not> request_done c)"

definition deliver_events :: "'w env \<Rightarrow> 'w loop \<Rightarrow> model_event list \<Rightarrow> 'w loop" where
  "deliver_events env c evs =
     (if compaction_active c then foldl on_compaction_event c evs else foldl (on_model_event env) c evs)"

definition cancel_model_request :: "'w env \<Rightarrow> 'w loop \<Rightarrow> 'w loop" where
  "cancel_model_request env c =
     (case a_model c of
        None \<Rightarrow> c
      | Some m \<Rightarrow>
          (case md_cancel m of
             None \<Rightarrow> c
           | Some cancel \<Rightarrow>
               if request_cancel_requested c then c
               else
                 (let (evs, w') = cancel (request_id c) (world c) in
                  deliver_events env (c\<lparr>request_cancel_requested := True, world := w'\<rparr>) evs)))"

text \<open>The pending serial tool under cancellation; the flag says it is still running.\<close>

definition cancel_tool_task :: "'w loop \<Rightarrow> bool \<times> 'w loop" where
  "cancel_tool_task c =
     (case tool_task c of
        None \<Rightarrow> (False, c)
      | Some t \<Rightarrow>
          (let c1 = (if \<not> tool_cancel_requested c \<and> tk_cancel t \<noteq> None
                     then (run_hook (tk_cancel t) c)\<lparr>tool_cancel_requested := True\<rparr> else c);
               ((rc, _, done), c2) = poll_task t c1 in
           if \<not> done \<and> rc = AGENT_OK then (True, c2)
           else (False, (run_hook (tk_destroy t) c2)\<lparr>tool_task := None, tool_cancel_requested := False\<rparr>)))"

fun cancel_parallel_calls :: "'w parallel_call list \<Rightarrow> 'w loop \<Rightarrow> 'w parallel_call list \<times> 'w loop" where
  "cancel_parallel_calls [] c = ([], c)"
| "cancel_parallel_calls (call # calls) c =
     (let (call', c1) = (case pc_task call of
            Some t \<Rightarrow> if \<not> pc_cancel_requested call \<and> tk_cancel t \<noteq> None
                      then (call\<lparr>pc_cancel_requested := True\<rparr>, run_hook (tk_cancel t) c) else (call, c)
          | None \<Rightarrow> (call, c));
          (calls', c2) = cancel_parallel_calls calls c1 in
      (call' # calls', c2))"

text \<open>Reaping in order, stopping at the first call that is still running.\<close>

fun reap_parallel_calls :: "'w parallel_call list \<Rightarrow> 'w loop \<Rightarrow> bool \<times> 'w parallel_call list \<times> 'w loop" where
  "reap_parallel_calls [] c = (False, [], c)"
| "reap_parallel_calls (call # calls) c =
     (case pc_task call of
        None \<Rightarrow> (let (busy, calls', c1) = reap_parallel_calls calls c in (busy, call # calls', c1))
      | Some t \<Rightarrow>
          (let ((rc, _, done), c1) = poll_task t c in
           if \<not> done \<and> rc = AGENT_OK then (True, call # calls, c1)
           else
             (let (busy, calls', c2) = reap_parallel_calls calls (run_hook (tk_destroy t) c1) in
              (busy, call\<lparr>pc_task := None\<rparr> # calls', c2))))"

definition cancel_step :: "'w env \<Rightarrow> 'w loop \<Rightarrow> 'w pass" where
  "cancel_step env c =
     (let pending = (a_state c = AGENT_WAIT_MODEL \<and> model_pending c);
          c1 = (if pending then cancel_model_request env c else c) in
      if pending \<and> model_pending c1 then (Some AGENT_STEP_BUSY, c1)
      else
        (let c2 = (if compaction_active c1
                   then c1\<lparr>compaction := no_compaction, compaction_text := text_clear (compaction_text c1),
                           compaction_active := False\<rparr>
                   else c1);
             (tool_busy, c3) = cancel_tool_task c2 in
         if tool_busy then (Some AGENT_STEP_BUSY, c3)
         else
           (let (calls, c4) = cancel_parallel_calls (parallel_tools c3) c3;
                (busy, calls', c5) = reap_parallel_calls calls c4;
                c6 = c5\<lparr>parallel_tools := calls'\<rparr> in
            if busy then (Some AGENT_STEP_BUSY, c6)
            else (Some AGENT_STEP_CANCELLED,
                  (parallel_tools_free c6)\<lparr>a_state := AGENT_CANCELLED, in_turn := False\<rparr>))))"

text \<open>\<open>AGENT_WAIT_MODEL\<close> when the request reported an error.\<close>

definition report_model_error :: "'w loop \<Rightarrow> 'w pass" where
  "report_model_error c = fail_turn (emit (error_event (lc_error_msg (lctx c))) c)"

definition no_partial_output :: "'w loop \<Rightarrow> bool" where
  "no_partial_output c \<longleftrightarrow>
     text_len (lc_text (lctx c)) = 0 \<and> text_len (lc_reasoning (lctx c)) = 0 \<and> lc_tool_calls (lctx c) = []"

definition max_retries :: "'w loop \<Rightarrow> int" where
  "max_retries c = (case a_runtime c of Some rt \<Rightarrow> rt_max_retries rt | None \<Rightarrow> 0)"

definition wait_model_error :: "'w env \<Rightarrow> 'w loop \<Rightarrow> 'w pass" where
  "wait_model_error env c =
     (if retry_pending c then
        (let (elapsed, c1) = retry_delay_elapsed env c in
         if \<not> elapsed then (Some AGENT_STEP_BUSY, c1)
         else
           (let (rc, c2) = start_model_request env (c1\<lparr>retry_pending := False\<rparr>) in
            if rc = AGENT_OK then (Some AGENT_STEP_BUSY, c2)
            else report_model_error
                   (c2\<lparr>lctx := (lctx c2)\<lparr>lc_error := True, lc_error_code := error_value rc,
                                         lc_error_msg := ''failed to restart model request''\<rparr>\<rparr>)))
      else if no_partial_output c \<and> retryable_model_error (lc_error_code (lctx c)) \<and>
              int (request_retries c) < max_retries c
      then
        (let c1 = schedule_retry_delay env (c\<lparr>request_retries := request_retries c + 1\<rparr>) in
         (Some AGENT_STEP_BUSY,
          emit (status_event (take 95 (''model retry '' @ show_nat (request_retries c1) @ ''/'' @
                  show_nat (nat (max_retries c)) @ '' after transient error''))) c1))
      else report_model_error c)"

definition assistant_message :: "'w loop \<Rightarrow> message" where
  "assistant_message c =
     (let cut = request_hit_output_limit c \<or> request_ended_incomplete c;
          calls = (if cut \<and> lc_tool_calls (lctx c) \<noteq> [] then [] else lc_tool_calls (lctx c));
          content = map_option c_str (lc_text (lctx c)) in
      (message_new MSG_ASSISTANT)
        \<lparr>m_content := (if content = None \<and> calls = [] then Some [] else content),
         m_reasoning := map_option c_str (lc_reasoning (lctx c)),
         m_usage := lc_usage (lctx c),
         m_tool_calls := calls\<rparr>)"

text \<open>\<open>AGENT_WAIT_USER\<close>: a decision of the host is applied.\<close>

definition wait_user_step :: "'w env \<Rightarrow> 'w loop \<Rightarrow> 'w pass" where
  "wait_user_step env c =
     (if \<not> approval_pending c \<or> \<not> approval_decided c then (Some AGENT_STEP_BUSY, c)
      else
        (let tc = call_at c (tool_index c);
             stale = approval_granted c \<and>
                     (tool_index c \<noteq> approval_tool_index c \<or> \<not> approval_matches env c tc) in
         if \<not> approval_granted c \<or> stale then
           (let (rc, c1) = append_tool_rejection env c (tool_index c)
                  (if stale then ''error: approval is stale; tool call changed''
                   else ''error: tool execution denied by user'') in
            if rc \<noteq> AGENT_OK then fail_turn c1
            else
              (let c2 = emit (tool_end_event (call_at c1 (tool_index c1)) True) c1 in
               (None, c2\<lparr>tool_index := tool_index c2 + 1, approval_pending := False,
                         approval_decided := False, approval_granted := False,
                         approval_digest_valid := False, a_state := AGENT_WAIT_TOOL\<rparr>)))
         else
           (None, c\<lparr>approval_pending := False, approval_decided := False, approval_digest_valid := False,
                    a_state := AGENT_WAIT_TOOL\<rparr>)))"

text \<open>\<open>AGENT_WAIT_MODEL\<close> when the request completed.\<close>

definition wait_model_complete :: "'w env \<Rightarrow> 'w loop \<Rightarrow> 'w pass" where
  "wait_model_complete env c0 =
     (let limited = request_hit_output_limit c0;
          incomplete = request_ended_incomplete c0;
          am = assistant_message c0;
          c = c0\<lparr>output_continuation_active := False,
                 output_limit_continuations := (if \<not> limited then 0 else output_limit_continuations c0),
                 lctx := (lctx c0)\<lparr>lc_text := None, lc_reasoning := None, lc_tool_calls := []\<rparr>,
                 a_messages := history_append (a_messages c0) am\<rparr>;
          c1 = log_message env am c in
      if limited then
        (if output_limit_continuations c1 \<ge> MAX_OUTPUT_LIMIT_CONTINUATIONS then
           fail_turn (emit (error_event
             (''model output reached max_tokens after '' @ show_nat MAX_OUTPUT_LIMIT_CONTINUATIONS @
              '' consecutive automatic continuations; task remains incomplete (increase max_tokens or '' @
              ''submit a narrower request)'')) c1)
         else
           (let c2 = c1\<lparr>output_limit_continuations := output_limit_continuations c1 + 1,
                       output_continuation_active := True\<rparr>;
                c3 = emit (status_event
                  (''model output limit reached; continuing automatically ('' @
                   show_nat (output_limit_continuations c2) @ ''/'' @
                   show_nat MAX_OUTPUT_LIMIT_CONTINUATIONS @ '')'')) c2 in
            suspend_or_fail (start_request env c3)))
      else if incomplete then
        fail_turn (emit (error_event
          (if lc_stop_reason (lctx c1) = MODEL_STOP_CONTENT_FILTER
           then ''model response was stopped by a content filter''
           else ''model response ended incomplete'')) c1)
      else if m_tool_calls am = [] then
        (Some AGENT_STEP_DONE, c1\<lparr>a_state := AGENT_DONE, in_turn := False\<rparr>)
      else
        (let c2 = c1\<lparr>a_state := AGENT_WAIT_TOOL,
                    a_tool_call_count := a_tool_call_count c1 + of_nat (length (m_tool_calls am))\<rparr>;
             c3 = with_session (\<lambda>s. s\<lparr>s_tool_call_count := a_tool_call_count c2\<rparr>) c2 in
         wait_user_step env
           (c3\<lparr>tool_message_index := length (mitems (a_messages c3)) - 1, tool_index := 0\<rparr>)))"

definition wait_model_step :: "'w env \<Rightarrow> 'w loop \<Rightarrow> 'w pass" where
  "wait_model_step env c =
     (if compaction_active c then
        (if \<not> compaction_done c then (Some AGENT_STEP_BUSY, c) else (None, finish_compaction env c))
      else if \<not> request_done c then (Some AGENT_STEP_BUSY, c)
      else if lc_error (lctx c) then wait_model_error env c
      else wait_model_complete env c)"

text \<open>\<open>AGENT_WAIT_TOOL\<close>.\<close>

definition after_tool :: "'w loop \<Rightarrow> 'w pass" where
  "after_tool c =
     (let tc = call_at c (tool_index c); c1 = emit (tool_end_event tc (tc_is_error tc)) c in
      (None, c1\<lparr>tool_index := tool_index c1 + 1\<rparr>))"

definition run_serial_tool :: "'w env \<Rightarrow> 'w loop \<Rightarrow> 'w pass" where
  "run_serial_tool env c =
     (let (rc, pending, c1) = start_tool_call env (emit (tool_start_event (call_at c (tool_index c))) c) (tool_index c) in
      if rc \<noteq> AGENT_OK then fail_turn c1
      else if pending then (Some AGENT_STEP_BUSY, c1)
      else after_tool c1)"

definition ask_approval_cb :: "agent_event \<Rightarrow> 'w loop \<Rightarrow> 'w loop" where
  "ask_approval_cb ev c =
     (case a_approval_cb c of
        None \<Rightarrow> c
      | Some cb \<Rightarrow>
          if approval_decided c then c
          else
            (let ((granted, calls), w') = cb ev (world c);
                 c1 = foldl do_host_call (c\<lparr>approval_decided := True, world := w'\<rparr>) calls in
             c1\<lparr>approval_granted := granted\<rparr>))"

definition request_approval :: "'w env \<Rightarrow> (session option \<times> 'w) tool \<Rightarrow> 'w loop \<Rightarrow> 'w pass" where
  "request_approval env tool c =
     (let tc = call_at c (tool_index c);
          digest = approval_digest env tc;
          c1 = c\<lparr>approval_pending := True, approval_decided := False, approval_tool_index := tool_index c,
                 approval_digest_valid := (digest \<noteq> None),
                 approval_stored_digest := (case digest of Some d \<Rightarrow> d | None \<Rightarrow> approval_stored_digest c),
                 a_state := AGENT_WAIT_USER\<rparr>;
          (preview, c2) = build_tool_preview tool tc c1;
          ev = (agent_event_of AGENT_EVT_TOOL_APPROVAL)
                 \<lparr>ev_name := tc_name tc, ev_text := tc_arguments tc, ev_preview := preview\<rparr>;
          c3 = ask_approval_cb ev (emit ev c2) in
      (if approval_decided c3 then None else Some AGENT_STEP_BUSY, c3))"

definition approval_host_missing :: "'w loop \<Rightarrow> bool" where
  "approval_host_missing c \<longleftrightarrow> a_parent c \<noteq> None \<or> \<not> a_approval_available c \<or> a_event_cb c = None"

text \<open>A serial call that has no pending task yet: the approval gate, then the tool.\<close>

definition begin_serial_tool :: "'w env \<Rightarrow> 'w loop \<Rightarrow> 'w pass" where
  "begin_serial_tool env c =
     (case find_tool c (call_at c (tool_index c)) of
        Some tool \<Rightarrow>
          if approval_required tool then
            (if approval_host_missing c then
               (let (rc, c1) = append_tool_rejection env c (tool_index c)
                      ''error: side-effecting tool denied; no approval host is available'' in
                if rc \<noteq> AGENT_OK then fail_turn c1
                else
                  (let c2 = emit (tool_end_event (call_at c1 (tool_index c1)) True) c1 in
                   (None, c2\<lparr>tool_index := tool_index c2 + 1\<rparr>)))
             else if \<not> agent_session_trusted c \<and> \<not> approval_granted c then request_approval env tool c
             else run_serial_tool env (c\<lparr>approval_granted := False\<rparr>))
          else run_serial_tool env c
      | None \<Rightarrow> run_serial_tool env c)"

definition wait_tool_step :: "'w env \<Rightarrow> 'w loop \<Rightarrow> 'w pass" where
  "wait_tool_step env c0 =
     (let assistant = mitems (a_messages c0) ! tool_message_index c0;
          c = (if parallel_tools c0 = [] \<and> tool_index c0 = 0 \<and> parallel_batch_eligible c0 assistant
               then start_parallel_tools c0 else c0) in
      if parallel_tools c \<noteq> [] then
        (let (rc, done, c1) = poll_parallel_tools env c in
         if rc \<noteq> AGENT_OK then fail_turn (parallel_tools_free c1)
         else if \<not> done then (Some AGENT_STEP_BUSY, c1)
         else (None, parallel_tools_free (c1\<lparr>tool_index := calls_len c1\<rparr>)))
      else if tool_index c < calls_len c then
        (if tool_task c \<noteq> None then
           (let (rc, done, c1) = poll_tool_call env c (tool_index c) in
            if rc \<noteq> AGENT_OK then fail_turn c1
            else if \<not> done then (Some AGENT_STEP_BUSY, c1)
            else after_tool c1)
         else begin_serial_tool env c)
      else suspend_or_fail (start_request env c))"

definition resume_iter :: "'w env \<Rightarrow> 'w loop \<Rightarrow> 'w pass" where
  "resume_iter env c =
     (if cancel_token_check (a_cancel c # e_ancestors env (world c)) then cancel_step env c
      else
        (case a_state c of
           AGENT_READY \<Rightarrow> suspend_or_fail (start_request env c)
         | AGENT_WAIT_MODEL \<Rightarrow> wait_model_step env c
         | AGENT_WAIT_USER \<Rightarrow> wait_user_step env c
         | AGENT_WAIT_TOOL \<Rightarrow> wait_tool_step env c
         | AGENT_DONE \<Rightarrow> (Some AGENT_STEP_DONE, c\<lparr>in_turn := False\<rparr>)
         | _ \<Rightarrow> (Some AGENT_STEP_ERROR, c\<lparr>in_turn := False\<rparr>)))"

partial_function (option) agent_resume :: "'w env \<Rightarrow> 'w loop \<Rightarrow> (agent_step \<times> 'w loop) option" where
  "agent_resume env c =
     (case resume_iter env c of
        (Some r, c') \<Rightarrow> Some (r, c')
      | (None, c') \<Rightarrow> agent_resume env c')"

definition begin_turn :: "'w env \<Rightarrow> string \<Rightarrow> 'w loop \<Rightarrow> 'w loop" where
  "begin_turn env user_input c =
     (let c1 = (if a_state c = AGENT_CANCELLED then c\<lparr>a_cancel := (a_cancel c)\<lparr>ct_cancelled := False\<rparr>\<rparr> else c);
          um = (message_new MSG_USER)\<lparr>m_content := Some user_input\<rparr>;
          c2 = log_message env um c1 in
      c2\<lparr>a_messages := history_append (a_messages c2) um, in_turn := True,
         output_limit_continuations := 0, output_continuation_active := False, request_retries := 0,
         retry_pending := False, approval_pending := False, approval_decided := False,
         approval_granted := False, a_state := AGENT_READY\<rparr>)"

definition agent_start :: "'w env \<Rightarrow> string \<Rightarrow> 'w loop \<Rightarrow> (agent_error \<times> 'w loop) option" where
  "agent_start env user_input c =
     (if a_model c = None then Some (AGENT_ERR_MODEL, c)
      else
        (case agent_resume env (begin_turn env user_input c) of
           None \<Rightarrow> None
         | Some (r, c') \<Rightarrow>
             Some (case r of
                     AGENT_STEP_BUSY \<Rightarrow> AGENT_OK
                   | AGENT_STEP_DONE \<Rightarrow> AGENT_OK
                   | AGENT_STEP_CANCELLED \<Rightarrow> AGENT_ERR_CANCELLED
                   | AGENT_STEP_ERROR \<Rightarrow> AGENT_ERR_MODEL, c')))"

text \<open>\<open>agent_run\<close>; \<open>pump\<close> is \<open>runtime_pump\<close>, which delivers events to the agent.\<close>

partial_function (option) run_until_done ::
  "'w env \<Rightarrow> ('w loop \<Rightarrow> 'w loop) \<Rightarrow> 'w loop \<Rightarrow> (agent_step \<times> 'w loop) option" where
  "run_until_done env pump c =
     (case agent_resume env (if a_runtime c \<noteq> None then pump c else c) of
        None \<Rightarrow> None
      | Some (r, c') \<Rightarrow> if r = AGENT_STEP_BUSY then run_until_done env pump c' else Some (r, c'))"

definition agent_run ::
  "'w env \<Rightarrow> ('w loop \<Rightarrow> 'w loop) \<Rightarrow> string \<Rightarrow> 'w loop \<Rightarrow> (agent_error \<times> 'w loop) option" where
  "agent_run env pump user_input c =
     (case agent_start env user_input c of
        None \<Rightarrow> None
      | Some (rc, c') \<Rightarrow>
          if rc \<noteq> AGENT_OK then Some (rc, c')
          else
            (case run_until_done env pump c' of
               None \<Rightarrow> None
             | Some (r, c'') \<Rightarrow>
                 Some (if r = AGENT_STEP_DONE then AGENT_OK
                       else if r = AGENT_STEP_CANCELLED then AGENT_ERR_CANCELLED
                       else AGENT_ERR_MODEL, c'')))"

text \<open>
  \<open>agent_loop_state_cleanup\<close>: what happens to the world before the state is freed.  Events
  delivered by the model's \<open>cancel\<close> still find the state.
\<close>

definition agent_loop_state_cleanup :: "'w env \<Rightarrow> 'w loop \<Rightarrow> 'w loop" where
  "agent_loop_state_cleanup env c =
     (let c1 = (if a_state c = AGENT_WAIT_MODEL \<and> \<not> request_done c then
                  (case a_model c of
                     None \<Rightarrow> c
                   | Some m \<Rightarrow>
                       (case md_cancel m of
                          None \<Rightarrow> c
                        | Some cancel \<Rightarrow>
                            (let (evs, w') = cancel (request_id c) (world c) in
                             deliver_events env (c\<lparr>request_cancel_requested := True, world := w'\<rparr>) evs)))
                else c);
          c2 = (case tool_task c1 of
                  None \<Rightarrow> c1
                | Some t \<Rightarrow> (run_hook (tk_destroy t) (run_hook (tk_cancel t) c1))\<lparr>tool_task := None\<rparr>) in
      parallel_tools_free c2)"

end
