(* ===== verification/Loop_Frames.thy ===== *)
theory Loop_Frames
  imports Loop
begin

text \<open>
  What the pieces of the agent loop leave alone, and the loop around one pass.  \<open>steady\<close> lists
  the fields that neither the host's callbacks, the tools, nor the model's events can change;
  every function of the loop is a few field updates around steady pieces.  The locale
  \<open>pass_loop\<close> is the contract of a \<open>for (;;)\<close> whose passes either return or make a rank
  smaller: such a loop returns, and what every pass preserves holds of its result.
\<close>

section \<open>The loop contract\<close>

locale pass_loop =
  fixes pass :: "'c \<Rightarrow> 'r option \<times> 'c"
    and run :: "'c \<Rightarrow> ('r \<times> 'c) option"
    and ready :: "'c \<Rightarrow> bool"
    and rank :: "'c \<Rightarrow> nat"
  assumes run_unfold: "run c = (case pass c of (Some r, c') \<Rightarrow> Some (r, c') | (None, c') \<Rightarrow> run c')"
    and continue: "ready c \<Longrightarrow> pass c = (None, c') \<Longrightarrow> ready c' \<and> rank c' < rank c"
begin

lemma returns: "ready c \<Longrightarrow> \<exists>r c'. run c = Some (r, c')"
proof (induction "rank c" arbitrary: c rule: less_induct)
  case less
  obtain o1 c1 where p: "pass c = (o1, c1)" by (cases "pass c")
  show ?case
  proof (cases o1)
    case None
    with p less.prems continue have "ready c1" "rank c1 < rank c" by auto
    with less.hyps obtain r c' where "run c1 = Some (r, c')" by blast
    with None p show ?thesis by (simp add: run_unfold [of c])
  next
    case (Some r)
    with p show ?thesis by (simp add: run_unfold [of c])
  qed
qed

lemma result_of_pass:
  assumes "ready c" and "run c = Some (r, c')" and "J c"
    and keep: "\<And>c o1 c1. ready c \<Longrightarrow> J c \<Longrightarrow> pass c = (o1, c1) \<Longrightarrow> J c1"
  shows "J c'"
  using assms(1-3)
proof (induction "rank c" arbitrary: c rule: less_induct)
  case less
  obtain o1 c1 where p: "pass c = (o1, c1)" by (cases "pass c")
  with keep less.prems have j: "J c1" by blast
  show ?case
  proof (cases o1)
    case None
    with p less.prems continue have "ready c1" "rank c1 < rank c" by auto
    moreover have "run c1 = Some (r, c')" using less.prems(2) None p by (simp add: run_unfold [of c])
    ultimately show ?thesis using less.hyps j by blast
  next
    case (Some r1)
    with less.prems(2) p have "c' = c1" by (simp add: run_unfold [of c])
    with j show ?thesis by simp
  qed
qed

lemma last_pass:
  assumes "ready c" and "run c = Some (r, c')"
  shows "\<exists>c0. ready c0 \<and> pass c0 = (Some r, c')"
  using assms
proof (induction "rank c" arbitrary: c rule: less_induct)
  case less
  obtain o1 c1 where p: "pass c = (o1, c1)" by (cases "pass c")
  show ?case
  proof (cases o1)
    case None
    with p less.prems continue have "ready c1" "rank c1 < rank c" by auto
    moreover have "run c1 = Some (r, c')" using less.prems(2) None p by (simp add: run_unfold [of c])
    ultimately show ?thesis using less.hyps by blast
  next
    case (Some r1)
    with less.prems p show ?thesis by (auto simp: run_unfold [of c])
  qed
qed

end

section \<open>Steady fields\<close>

definition steady :: "'w loop \<Rightarrow> 'w loop \<Rightarrow> bool" where
  "steady c c' \<longleftrightarrow>
     a_id c' = a_id c \<and> a_runtime c' = a_runtime c \<and> a_model c' = a_model c \<and>
     a_messages c' = a_messages c \<and> a_tools c' = a_tools c \<and> a_state c' = a_state c \<and>
     a_parent c' = a_parent c \<and> a_config c' = a_config c \<and> a_event_cb c' = a_event_cb c \<and>
     a_approval_available c' = a_approval_available c \<and> a_approval_cb c' = a_approval_cb c \<and>
     a_tool_call_count c' = a_tool_call_count c \<and> in_turn c' = in_turn c \<and>
     request_id c' = request_id c \<and> request_max_tokens c' = request_max_tokens c \<and>
     request_cancel_requested c' = request_cancel_requested c \<and>
     tool_message_index c' = tool_message_index c \<and> tool_index c' = tool_index c \<and>
     tool_task c' = tool_task c \<and> tool_cancel_requested c' = tool_cancel_requested c \<and>
     parallel_tools c' = parallel_tools c \<and> approval_pending c' = approval_pending c \<and>
     approval_tool_index c' = approval_tool_index c \<and>
     approval_stored_digest c' = approval_stored_digest c \<and>
     approval_digest_valid c' = approval_digest_valid c \<and>
     request_retries c' = request_retries c \<and> retry_pending c' = retry_pending c \<and>
     retry_at c' = retry_at c \<and>
     output_limit_continuations c' = output_limit_continuations c \<and>
     output_continuation_active c' = output_continuation_active c \<and>
     request_sequence c' = request_sequence c \<and> compaction_active c' = compaction_active c \<and>
     compaction c' = compaction c \<and> skip_compaction_once c' = skip_compaction_once c \<and> t0 c' = t0 c"

text \<open>
  \<open>quiet\<close>: also the request's accumulation is untouched and the approval decision can only move
  while the agent waits for it.
\<close>

definition quiet :: "'w loop \<Rightarrow> 'w loop \<Rightarrow> bool" where
  "quiet c c' \<longleftrightarrow> steady c c' \<and> lctx c' = lctx c \<and> request_done c' = request_done c \<and>
     compaction_text c' = compaction_text c \<and> compaction_done c' = compaction_done c \<and>
     compaction_error c' = compaction_error c \<and>
     (a_state c \<noteq> AGENT_WAIT_USER \<longrightarrow>
        approval_decided c' = approval_decided c \<and> approval_granted c' = approval_granted c)"

lemma steady_refl [simp]: "steady c c"
  by (simp add: steady_def)

lemma steady_trans: "steady c c' \<Longrightarrow> steady c' c'' \<Longrightarrow> steady c c''"
  by (simp add: steady_def)

lemma quiet_refl [simp]: "quiet c c"
  by (simp add: quiet_def)

lemma quiet_steady: "quiet c c' \<Longrightarrow> steady c c'"
  by (simp add: quiet_def)

lemma quiet_trans: "quiet c c' \<Longrightarrow> quiet c' c'' \<Longrightarrow> quiet c c''"
  by (simp add: quiet_def steady_def)

named_theorems frame \<open>steady and quiet pieces\<close>

lemma do_host_call_quiet [frame]: "quiet c (do_host_call c h)"
  by (cases h) (auto simp: quiet_def steady_def agent_set_approval_result_def agent_set_session_trusted_def)

lemma host_calls_quiet [frame]: "quiet c (foldl do_host_call c hs)"
proof (induction hs arbitrary: c)
  case (Cons h hs)
  from quiet_trans [OF do_host_call_quiet Cons.IH] show ?case by simp
qed simp

lemma world_quiet: "quiet c (c\<lparr>world := w\<rparr>)"
  by (simp add: quiet_def steady_def)

lemma emit_quiet [frame]: "quiet c (emit ev c)"
proof (cases "a_event_cb c")
  case (Some cb)
  obtain calls w' where cb: "cb ev (world c) = (calls, w')" by (cases "cb ev (world c)")
  with quiet_trans [OF world_quiet [of c w'] host_calls_quiet [of "c\<lparr>world := w'\<rparr>" calls]] Some show ?thesis
    by (simp add: emit_def)
qed (simp add: emit_def)

lemma with_session_quiet [frame]: "quiet c (with_session f c)"
  by (simp add: with_session_def quiet_def steady_def)

lemma log_message_quiet [frame]: "quiet c (log_message env m c)"
  by (simp add: log_message_def with_session_quiet)

lemma run_tool_quiet: "run_tool f c = (r, c') \<Longrightarrow> quiet c c'"
  by (auto simp: run_tool_def quiet_def steady_def split: prod.splits)

lemma run_hook_quiet [frame]: "quiet c (run_hook f c)"
  by (auto simp: run_hook_def quiet_def steady_def split: option.splits prod.splits)

lemma poll_task_quiet: "poll_task t c = (r, c') \<Longrightarrow> quiet c c'"
  by (auto simp: poll_task_def split: option.splits intro: run_tool_quiet)

lemma ask_clock_quiet: "ask_clock env c = (t, c') \<Longrightarrow> quiet c c'"
  by (auto simp: ask_clock_def quiet_def steady_def split: prod.splits)

lemma enter_tool_quiet:
  assumes "enter_tool tool tc c = (r, c')"
  shows "quiet c c'"
proof -
  have h: "quiet c c2" if "quiet c c1" "c2 = run_hook f c1" for c1 c2 f
    using that quiet_trans run_hook_quiet by blast
  show ?thesis
    using assms
    by (auto simp: enter_tool_def split: option.splits prod.splits if_splits
        intro: h run_tool_quiet)
qed

lemma build_tool_preview_quiet: "build_tool_preview tool tc c = (p, c') \<Longrightarrow> quiet c c'"
  by (auto simp: build_tool_preview_def split: option.splits prod.splits dest: run_tool_quiet)

section \<open>Events\<close>

lemma finish_stats_steady [frame]: "steady c (finish_stats env reason c)"
  by (auto simp: finish_stats_def ask_clock_def with_session_def steady_def Let_def split: prod.splits)

lemma on_model_event_steady [frame]: "steady c (on_model_event env c ev)"
proof -
  have "steady c (emit e (c\<lparr>lctx := x\<rparr>))" for e x
    using emit_quiet [of "c\<lparr>lctx := x\<rparr>" e] by (simp add: quiet_def steady_def)
  then show ?thesis
    using finish_stats_steady [of c env]
    by (cases "me_body ev") (auto simp: on_model_event_def Let_def, (simp add: steady_def)+)
qed

lemma on_compaction_event_steady [frame]: "steady c (on_compaction_event c ev)"
  by (cases "me_body ev") (auto simp: on_compaction_event_def steady_def)

lemma model_events_steady [frame]: "steady c (foldl (on_model_event env) c evs)"
  by (induction evs arbitrary: c) (auto intro: steady_trans on_model_event_steady)

lemma compaction_events_steady [frame]: "steady c (foldl on_compaction_event c evs)"
  by (induction evs arbitrary: c) (auto intro: steady_trans on_compaction_event_steady)

lemma deliver_events_steady [frame]: "steady c (deliver_events env c evs)"
  by (simp add: deliver_events_def frame)

text \<open>An event that belongs to another request leaves the agent exactly as it was, whether the
  agent waits for a normal request or for a summary.\<close>

theorem stale_events_ignored:
  assumes "\<forall>ev\<in>set evs. me_request_id ev \<noteq> request_id c"
  shows "foldl (on_model_event env) c evs = c \<and> foldl on_compaction_event c evs = c"
  using assms by (induction evs) (auto simp: on_model_event_def on_compaction_event_def)

theorem stale_events_ignored_witness:
  "foldl (on_model_event still_env) (loop_state (fst (agent_new 1 None None)) (0 :: nat))
     [\<lparr>me_request_id = 9, me_body = Text_Delta ''late''\<rparr>] = loop_state (fst (agent_new 1 None None)) 0"
proof -
  let ?c = "loop_state (fst (agent_new 1 None None)) (0 :: nat)"
  have "\<forall>ev\<in>set [\<lparr>me_request_id = 9, me_body = Text_Delta ''late''\<rparr>]. me_request_id ev \<noteq> request_id ?c"
    by (simp add: loop_state_def agent.extend_def loop.fields_def)
  from stale_events_ignored [OF this, of still_env] show ?thesis by blast
qed

end
