(* ===== verification/Loop_History.thy ===== *)
theory Loop_History
  imports Loop_Frames
begin

text \<open>
  The conversation kept by the agent loop, and that every resume returns.  \<open>history_ok\<close> is the
  invariant between passes: the history follows the tool protocol, the results of the current
  batch of tool calls follow their assistant message in call order, nothing is pending outside
  the state that polls it.  Every pass keeps it, and a pass that continues makes \<open>rank\<close>
  smaller, so \<open>agent_resume\<close> returns.
\<close>

section \<open>Results of the current batch\<close>

abbreviation items :: "('w, 'z) agent_scheme \<Rightarrow> message list" where
  "items c \<equiv> mitems (a_messages c)"

definition results_ok :: "'w loop \<Rightarrow> nat \<Rightarrow> bool" where
  "results_ok c n \<longleftrightarrow>
     tool_message_index c < length (items c) \<and>
     m_role (items c ! tool_message_index c) = MSG_ASSISTANT \<and>
     n \<le> calls_len c \<and>
     length (items c) = tool_message_index c + 1 + n \<and>
     (\<forall>j<n. m_role (items c ! (tool_message_index c + 1 + j)) = MSG_TOOL \<and>
            m_tool_call_id (items c ! (tool_message_index c + 1 + j)) = tc_id (call_at c j))"

text \<open>The current batch is not one that runs in parallel.\<close>

definition not_batch :: "'w loop \<Rightarrow> bool" where
  "not_batch c \<longleftrightarrow>
     \<not> (tool_index c = 0 \<and> parallel_batch_eligible c (items c ! tool_message_index c))"

definition history_ok :: "'w loop \<Rightarrow> bool" where
  "history_ok c \<longleftrightarrow>
     tool_grouped (items c) \<and>
     (compaction_active c \<longrightarrow> a_state c = AGENT_WAIT_MODEL \<and>
        compaction_bounds (items c) 10 = (cr_start (compaction c), cr_count (compaction c)) \<and>
        0 < cr_count (compaction c)) \<and>
     (a_state c \<in> {AGENT_WAIT_TOOL, AGENT_WAIT_USER} \<longrightarrow> results_ok c (tool_index c)) \<and>
     (a_state c \<noteq> AGENT_WAIT_TOOL \<longrightarrow> parallel_tools c = [] \<and> tool_task c = None) \<and>
     (parallel_tools c \<noteq> [] \<longrightarrow> tool_index c = 0 \<and> tool_task c = None \<and>
        map pc_tool_index (parallel_tools c) = [0..<calls_len c]) \<and>
     (a_state c = AGENT_WAIT_USER \<longrightarrow> tool_index c < calls_len c) \<and>
     (tool_task c \<noteq> None \<longrightarrow> not_batch c \<and> tool_index c < calls_len c) \<and>
     (a_state c \<in> {AGENT_READY, AGENT_WAIT_MODEL, AGENT_WAIT_TOOL} \<longrightarrow> \<not> approval_pending c)"

lemma items_history_append [simp]: "mitems (history_append l m) = mitems l @ [m]"
  by (simp add: history_append_def)

lemma tool_grouped_snoc:
  "tool_grouped xs \<Longrightarrow> m_role m \<noteq> MSG_TOOL \<Longrightarrow> tool_grouped (xs @ [m])"
  by (simp add: tool_grouped_def grouped_from_append)

lemma foldl_opens_tools:
  "\<forall>m\<in>set ms. m_role m = MSG_TOOL \<Longrightarrow> foldl opens b ms = b"
  by (induction ms arbitrary: b) (auto simp: opens_def)

lemma tool_grouped_result:
  assumes "tool_grouped (pre @ a # rs)" and "m_role a = MSG_ASSISTANT" and "m_tool_calls a \<noteq> []"
    and "\<forall>m\<in>set rs. m_role m = MSG_TOOL"
  shows "tool_grouped ((pre @ a # rs) @ [m])"
proof -
  have "opens b a" for b using assms(2,3) by (simp add: opens_def)
  with assms(1,4) show ?thesis
    by (simp add: tool_grouped_def grouped_from_append foldl_opens_tools)
qed

lemma tool_grouped_update:
  assumes "tool_grouped xs" and "i < length xs" and "m_role m = m_role (xs ! i)"
    and "m_tool_calls m = [] \<longleftrightarrow> m_tool_calls (xs ! i) = []"
  shows "tool_grouped (xs[i := m])"
proof -
  have "opens b m = opens b (xs ! i)" for b
    using assms(3,4) by (simp add: opens_def split: message_role.split)
  moreover have "tool_grouped (take i xs @ xs ! i # drop (Suc i) xs)"
    using assms(1,2) by (simp add: id_take_nth_drop [symmetric])
  ultimately have "tool_grouped (take i xs @ m # drop (Suc i) xs)"
    using assms(3) by (simp add: tool_grouped_def grouped_from_append)
  with assms(2) show ?thesis by (simp add: upd_conv_take_nth_drop)
qed

section \<open>Appending one result\<close>

lemma set_call_quiet: "quiet (c\<lparr>a_messages := a_messages (set_call k tc c)\<rparr>) (set_call k tc c)"
  by (simp add: set_call_def quiet_def steady_def)

text \<open>What one appended result changes: the history alone, by the mirror in the assistant's call and
  the tool message at the end.\<close>

lemma append_tool_result_effect:
  assumes "append_tool_result env c k result = (rc, c')"
  shows "quiet (c\<lparr>a_messages := a_messages c'\<rparr>) c' \<and>
         (\<exists>tc'. tc_id tc' = tc_id (call_at c k) \<and> tc_name tc' = tc_name (call_at c k) \<and>
            tc_arguments tc' = tc_arguments (call_at c k) \<and>
            (if rc = AGENT_OK
             then \<exists>tm. items c' = items (set_call k tc' c) @ [tm] \<and> m_role tm = MSG_TOOL \<and>
                       m_tool_call_id tm = tc_id (call_at c k)
             else items c' = items (set_call k tc' c)))"
proof -
  define res where "res = (case tr_content result of
           None \<Rightarrow> error_result ''error: tool returned no result'' | Some _ \<Rightarrow> result)"
  define tc' where "tc' = (call_at c k)\<lparr>tc_result := Some (str_or_empty (tr_content res)), tc_is_error := tr_is_error res\<rparr>"
  define c1 where "c1 = set_call k tc' c"
  define c2 where "c2 = (if tr_is_error res
                then with_session (\<lambda>s. snd (session_append_memory (e_render env) (e_wall env (world c1)) s
                       (Some ''tool_error'') (Some (failure_memory (call_at c k) (str_or_empty (tr_content res)))))) c1
                else c1)"
  define tm where "tm = (message_new MSG_TOOL)\<lparr>m_tool_call_id := tc_id (call_at c k),
       m_content := Some (str_or_empty (tr_content res)), m_is_error := tr_is_error res\<rparr>"
  have q2: "quiet c1 c2" by (simp add: c2_def with_session_quiet)
  have i2: "items c2 = items c1" using q2 by (simp add: quiet_def steady_def)
  have eq: "append_tool_result env c k result =
     (if tc_id (call_at c k) = None \<or> tc_id (call_at c k) = Some [] then (AGENT_ERR_OOM, c2)
      else (AGENT_OK, (log_message env tm c2)\<lparr>a_messages := history_append (a_messages (log_message env tm c2)) tm\<rparr>))"
    unfolding append_tool_result_def Let_def tm_def c2_def c1_def tc'_def res_def by (rule refl)
  have ids: "tc_id tc' = tc_id (call_at c k)" "tc_name tc' = tc_name (call_at c k)"
    "tc_arguments tc' = tc_arguments (call_at c k)" by (simp_all add: tc'_def)
  have q1: "quiet (c\<lparr>a_messages := a_messages c1\<rparr>) c1" by (simp add: c1_def set_call_quiet)
  show ?thesis
  proof (cases "rc = AGENT_OK")
    case True
    with eq assms have c': "c' = (log_message env tm c2)\<lparr>a_messages := history_append (a_messages (log_message env tm c2)) tm\<rparr>"
      by (auto split: if_splits)
    have ql: "quiet c2 (log_message env tm c2)" by (rule log_message_quiet)
    have "quiet (c\<lparr>a_messages := a_messages c'\<rparr>) c'"
      using q1 q2 ql by (simp add: c' quiet_def steady_def)
    moreover have "items c' = items (set_call k tc' c) @ [tm]"
      using ql i2 by (simp add: c' c1_def quiet_def steady_def)
    moreover have "m_role tm = MSG_TOOL" "m_tool_call_id tm = tc_id (call_at c k)"
      by (simp_all add: tm_def message_new_def)
    ultimately show ?thesis using True ids by auto
  next
    case False
    with eq assms have c': "c' = c2" by (auto split: if_splits)
    have "quiet (c\<lparr>a_messages := a_messages c'\<rparr>) c'"
      using q1 q2 by (simp add: c' quiet_def steady_def)
    with False ids i2 show ?thesis by (auto simp: c' c1_def)
  qed
qed

lemma set_call_items:
  assumes "tc_id tc' = tc_id (call_at c k)"
  shows "length (items (set_call k tc' c)) = length (items c)"
    and "tool_message_index (set_call k tc' c) = tool_message_index c"
    and "calls_len (set_call k tc' c) = calls_len c"
    and "j < length (items c) \<Longrightarrow> m_role (items (set_call k tc' c) ! j) = m_role (items c ! j) \<and>
           m_tool_call_id (items (set_call k tc' c) ! j) = m_tool_call_id (items c ! j)"
    and "tool_message_index c < length (items c) \<Longrightarrow> tc_id (call_at (set_call k tc' c) j) = tc_id (call_at c j)"
proof -
  let ?a = "items c ! tool_message_index c"
  show "calls_len (set_call k tc' c) = calls_len c"
    by (cases "tool_message_index c < length (items c)")
       (simp_all add: set_call_def calls_len_def list_update_beyond)
  show "m_role (items (set_call k tc' c) ! j) = m_role (items c ! j) \<and>
           m_tool_call_id (items (set_call k tc' c) ! j) = m_tool_call_id (items c ! j)" if "j < length (items c)"
    using that by (cases "tool_message_index c = j") (simp_all add: set_call_def)
  show "tc_id (call_at (set_call k tc' c) j) = tc_id (call_at c j)" if "tool_message_index c < length (items c)"
    using that assms by (cases "k < length (m_tool_calls ?a)"; cases "k = j")
       (simp_all add: set_call_def call_at_def list_update_beyond)
qed (simp_all add: set_call_def)

lemma results_ok_snoc:
  assumes "results_ok c n" and "n < calls_len c" and "tool_grouped (items c)"
    and "append_tool_result env c n result = (rc, c')"
  shows "tool_grouped (items c')" and "rc = AGENT_OK \<Longrightarrow> results_ok c' (Suc n)"
    and "calls_len c' = calls_len c" and "j < calls_len c \<Longrightarrow> tc_id (call_at c' j) = tc_id (call_at c j)"
proof -
  from append_tool_result_effect [OF assms(4)] obtain tc' where
    q: "quiet (c\<lparr>a_messages := a_messages c'\<rparr>) c'" and id1: "tc_id tc' = tc_id (call_at c n)"
    and it: "if rc = AGENT_OK
             then \<exists>tm. items c' = items (set_call n tc' c) @ [tm] \<and> m_role tm = MSG_TOOL \<and>
                       m_tool_call_id tm = tc_id (call_at c n)
             else items c' = items (set_call n tc' c)" by blast
  let ?s = "set_call n tc' c" and ?t = "tool_message_index c"
  note sc = set_call_items [OF id1]
  from assms(1) have t: "?t < length (items c)" and role: "m_role (items c ! ?t) = MSG_ASSISTANT"
    and len: "length (items c) = ?t + 1 + n"
    and res: "\<forall>j<n. m_role (items c ! (?t + 1 + j)) = MSG_TOOL \<and>
            m_tool_call_id (items c ! (?t + 1 + j)) = tc_id (call_at c j)"
    by (auto simp: results_ok_def)
  have ti: "tool_message_index c' = ?t" using q by (simp add: quiet_def steady_def)
  have at: "items c' ! ?t = items ?s ! ?t" using it t sc(1) by (auto simp: nth_append split: if_splits)
  show cl: "calls_len c' = calls_len c" using ti at sc(2,3) by (simp add: calls_len_def)
  show ids: "tc_id (call_at c' j) = tc_id (call_at c j)" for j
    using ti at sc(2) sc(5) [OF t, of j] by (simp add: call_at_def)
  have gs: "tool_grouped (items ?s)"
    unfolding set_call_def using assms(3) t by (simp add: tool_grouped_update)
  show "tool_grouped (items c')"
  proof (cases "rc = AGENT_OK")
    case True
    with it obtain tm where tm: "items c' = items ?s @ [tm]" by auto
    have st: "?t < length (items ?s)" using t sc(1) by simp
    have split: "items ?s = take ?t (items ?s) @ items ?s ! ?t # drop (Suc ?t) (items ?s)"
      using st by (rule id_take_nth_drop)
    have "m_tool_calls (items ?s ! ?t) \<noteq> []"
      using assms(2) sc(2,3) by (auto simp: calls_len_def)
    moreover have "m_role (items ?s ! ?t) = MSG_ASSISTANT" using sc(4) [OF t] role by simp
    moreover have "\<forall>m\<in>set (drop (Suc ?t) (items ?s)). m_role m = MSG_TOOL"
    proof
      fix m assume "m \<in> set (drop (Suc ?t) (items ?s))"
      then obtain j where "j < n" "m = items ?s ! (?t + 1 + j)"
        using sc(1) len by (auto simp: in_set_conv_nth)
      with res sc(4) [of "?t + 1 + j"] len show "m_role m = MSG_TOOL" by simp
    qed
    ultimately show ?thesis
      using tool_grouped_result [of "take ?t (items ?s)" "items ?s ! ?t" "drop (Suc ?t) (items ?s)" tm] gs
      unfolding tm split [symmetric] by blast
  next
    case False
    with it gs show ?thesis by simp
  qed
  show "results_ok c' (Suc n)" if "rc = AGENT_OK"
  proof -
    from it that obtain tm where tm: "items c' = items ?s @ [tm]" "m_role tm = MSG_TOOL"
      "m_tool_call_id tm = tc_id (call_at c n)" by auto
    have "m_role (items c' ! (?t + 1 + j)) = MSG_TOOL \<and>
          m_tool_call_id (items c' ! (?t + 1 + j)) = tc_id (call_at c' j)" if "j < Suc n" for j
    proof (cases "j = n")
      case True
      with tm len sc(1) ids show ?thesis by (simp add: nth_append)
    next
      case False
      with that have "j < n" by simp
      with res sc(4) [of "?t + 1 + j"] len sc(1) ids tm(1) show ?thesis by (simp add: nth_append)
    qed
    moreover have "m_role (items c' ! ?t) = MSG_ASSISTANT" using at sc(4) [OF t] role by simp
    ultimately show ?thesis using ti tm(1) sc(1) len assms(2) cl by (auto simp: results_ok_def)
  qed
qed

section \<open>Requests\<close>

text \<open>What issuing a request leaves alone.\<close>

definition request_frame :: "'w loop \<Rightarrow> 'w loop \<Rightarrow> bool" where
  "request_frame c c' \<longleftrightarrow>
     a_id c' = a_id c \<and> a_runtime c' = a_runtime c \<and> a_model c' = a_model c \<and> a_tools c' = a_tools c \<and>
     a_parent c' = a_parent c \<and> a_config c' = a_config c \<and> a_event_cb c' = a_event_cb c \<and>
     a_approval_available c' = a_approval_available c \<and> a_approval_cb c' = a_approval_cb c \<and>
     in_turn c' = in_turn c \<and> tool_message_index c' = tool_message_index c \<and> tool_index c' = tool_index c \<and>
     tool_task c' = tool_task c \<and> parallel_tools c' = parallel_tools c \<and>
     approval_pending c' = approval_pending c"

lemma request_frame_refl [simp]: "request_frame c c"
  by (simp add: request_frame_def)

lemma request_frame_trans: "request_frame c c' \<Longrightarrow> request_frame c' c'' \<Longrightarrow> request_frame c c''"
  by (simp add: request_frame_def)

lemma steady_request_frame: "steady c c' \<Longrightarrow> request_frame c c'"
  by (simp add: steady_def request_frame_def)

lemma next_request_id_frame:
  "next_request_id c = (rid, c') \<Longrightarrow> c' = c\<lparr>request_sequence := request_sequence c + 1\<rparr>"
  by (auto simp: next_request_id_def Let_def)

lemma start_model_request_effect:
  assumes "start_model_request env c = (rc, c')"
  shows "request_frame c c' \<and> a_messages c' = a_messages c \<and> a_state c' = AGENT_WAIT_MODEL \<and>
         compaction_active c' = compaction_active c \<and> compaction c' = compaction c \<and>
         skip_compaction_once c' = skip_compaction_once c \<and>
         output_limit_continuations c' = output_limit_continuations c \<and>
         request_retries c' = request_retries c \<and> retry_pending c' = retry_pending c"
proof -
  define ctx where "ctx = \<lparr>lc_text = text_clear (lc_text (lctx c)), lc_reasoning = text_clear (lc_reasoning (lctx c)),
                 lc_tool_calls = [], lc_usage = zero_usage, lc_stop_reason = MODEL_STOP_UNKNOWN,
                 lc_error = False, lc_error_code = 0, lc_error_msg = []\<rparr>"
  define c0 where "c0 = c\<lparr>lctx := ctx, request_done := False, request_cancel_requested := False\<rparr>"
  obtain rid c1 where n: "next_request_id c0 = (rid, c1)" by (cases "next_request_id c0")
  define limit where "limit = (case a_runtime c1 of Some rt \<Rightarrow> rt_max_tokens rt | None \<Rightarrow> 4096)"
  obtain t c2 where k: "ask_clock env (c1\<lparr>request_id := rid, request_max_tokens := limit, a_state := AGENT_WAIT_MODEL\<rparr>) = (t, c2)"
    by (metis surj_pair)
  obtain evs w' where c': "c' = foldl (on_model_event env) (c2\<lparr>t0 := t, world := w'\<rparr>) evs"
    using assms n k unfolding start_model_request_def Let_def ctx_def [symmetric] c0_def [symmetric]
    by (auto simp: limit_def split: prod.splits)
  from next_request_id_frame [OF n] ask_clock_quiet [OF k] model_events_steady [of "c2\<lparr>t0 := t, world := w'\<rparr>" env evs]
  show ?thesis
    by (simp add: c' request_frame_def quiet_def steady_def c0_def)
qed

lemma start_compaction_request_effect:
  assumes "start_compaction_request env c = (rc, c')" and "\<not> compaction_active c"
  shows "request_frame c c' \<and> a_messages c' = a_messages c \<and>
         request_cancel_requested c' = request_cancel_requested c \<and>
         skip_compaction_once c' = skip_compaction_once c \<and>
         output_limit_continuations c' = output_limit_continuations c \<and>
         (if rc = AGENT_OK \<and> compaction_active c'
          then a_state c' = AGENT_WAIT_MODEL \<and>
               compaction_bounds (items c) 10 = (cr_start (compaction c'), cr_count (compaction c')) \<and>
               0 < cr_count (compaction c')
          else \<not> compaction_active c')"
proof -
  obtain prc req where p: "context_compaction_prepare all_ok (items c) 10 = (prc, req)"
    by (cases "context_compaction_prepare all_ok (items c) 10")
  show ?thesis
  proof (cases "prc \<noteq> AGENT_OK \<or> cr_count req = 0")
    case True
    with assms p show ?thesis by (auto simp: start_compaction_request_def request_frame_def)
  next
    case False
    from p False have b: "compaction_bounds (items c) 10 = (cr_start req, cr_count req)"
      by (auto simp: context_compaction_prepare_def all_ok_def Let_def split: prod.splits if_splits)
    define c1 where "c1 = c\<lparr>compaction := req\<rparr>"
    define c1' where "c1' = c1\<lparr>compaction_text := text_clear (compaction_text c1),
                 compaction_done := False, compaction_error := False, compaction_active := True\<rparr>"
    obtain rid c2 where n: "next_request_id c1' = (rid, c2)" by (cases "next_request_id c1'")
    obtain c3 evs w' where c3: "c3 = foldl on_compaction_event (c2\<lparr>request_id := rid, a_state := AGENT_WAIT_MODEL, world := w'\<rparr>) evs"
      and c': "c' = (if rc \<noteq> AGENT_OK then c3\<lparr>compaction_active := False, compaction := no_compaction\<rparr> else c3)"
      using assms(1) p n False unfolding start_compaction_request_def Let_def c1_def [symmetric] c1'_def [symmetric]
      by (auto simp: c1_def [symmetric] c1'_def [symmetric] split: prod.splits if_splits)
    from next_request_id_frame [OF n]
      compaction_events_steady [of "c2\<lparr>request_id := rid, a_state := AGENT_WAIT_MODEL, world := w'\<rparr>" evs] b False
    show ?thesis by (auto simp: c' c3 request_frame_def steady_def c1'_def c1_def)
  qed
qed

lemma context_compact_grouped:
  assumes "context_compact al1 al2 msgs keep = (e, msgs')" and "tool_grouped (mitems msgs)"
  shows "tool_grouped (mitems msgs')"
  using context_compact_splice [OF assms, of 0] by simp

lemma start_request_effect:
  assumes "start_request env c = (rc, c')" and "\<not> compaction_active c" and "tool_grouped (items c)"
  shows "request_frame c c' \<and> tool_grouped (items c') \<and> a_state c' = AGENT_WAIT_MODEL \<and>
         (compaction_active c' \<longrightarrow> rc = AGENT_OK \<and> a_messages c' = a_messages c \<and>
            compaction_bounds (items c') 10 = (cr_start (compaction c'), cr_count (compaction c')) \<and>
            0 < cr_count (compaction c')) \<and>
         output_limit_continuations c' = output_limit_continuations c"
proof -
  define b where "b = c\<lparr>request_retries := 0, retry_pending := False\<rparr>"
  have eq: "start_request env c =
     (if \<not> skip_compaction_once b \<and> needs_compaction env b then
        (case start_compaction_request env b of (rc, c1) \<Rightarrow>
           if rc = AGENT_OK \<and> compaction_active c1 then (AGENT_OK, c1)
           else (case context_compact all_ok all_ok (a_messages c1) 10 of (_, msgs) \<Rightarrow>
                   start_model_request env (c1\<lparr>a_messages := msgs, skip_compaction_once := False\<rparr>)))
      else start_model_request env (b\<lparr>skip_compaction_once := False\<rparr>))"
    unfolding start_request_def Let_def b_def by (rule refl)
  have bf: "request_frame c b" "a_messages b = a_messages c" "\<not> compaction_active b"
    "output_limit_continuations b = output_limit_continuations c"
    using assms(2) by (simp_all add: b_def request_frame_def)
  show ?thesis
  proof (cases "\<not> skip_compaction_once b \<and> needs_compaction env b")
    case False
    then have "start_model_request env (b\<lparr>skip_compaction_once := False\<rparr>) = (rc, c')"
      using assms(1) by (auto simp: eq)
    from start_model_request_effect [OF this] bf assms(3) show ?thesis
      by (simp add: request_frame_def)
  next
    case True
    obtain rc1 c1 where sc: "start_compaction_request env b = (rc1, c1)"
      by (cases "start_compaction_request env b")
    note e = start_compaction_request_effect [OF sc bf(3)]
    show ?thesis
    proof (cases "rc1 = AGENT_OK \<and> compaction_active c1")
      case act: True
      with True assms(1) sc have "rc = AGENT_OK" "c' = c1"
        by (simp_all add: eq)
      with e act bf assms(3) show ?thesis by (auto simp: request_frame_def)
    next
      case inact: False
      obtain e2 msgs where cc: "context_compact all_ok all_ok (a_messages c1) 10 = (e2, msgs)"
        by (cases "context_compact all_ok all_ok (a_messages c1) 10")
      with True assms(1) sc inact
      have "start_model_request env (c1\<lparr>a_messages := msgs, skip_compaction_once := False\<rparr>) = (rc, c')"
        by (auto simp: eq)
      from start_model_request_effect [OF this] e inact bf assms(3) context_compact_grouped [OF cc]
      show ?thesis by (auto simp: request_frame_def)
    qed
  qed
qed

lemma history_ok_request:
  assumes "start_request env c = (rc, c')" and "\<not> compaction_active c" and "tool_grouped (items c)"
    and "parallel_tools c = []" and "tool_task c = None" and "\<not> approval_pending c"
    and "suspend_or_fail (rc, c') = (o1, c1)"
  shows "history_ok c1 \<and> o1 \<noteq> None"
  using start_request_effect [OF assms(1-3)] assms(4-7)
  by (auto simp: suspend_or_fail_def fail_turn_def history_ok_def request_frame_def split: if_splits)

section \<open>One pass\<close>

lemma bounds_start_not_tool:
  assumes "tool_grouped xs" and "compaction_bounds xs keep = (start, count)" and "0 < count"
  shows "m_role (xs ! start) \<noteq> MSG_TOOL"
proof -
  note br = compaction_bounds_range [OF assms(2,3)]
  show ?thesis
  proof (cases "start = 0")
    case True
    then show ?thesis using tool_grouped_start [OF assms(1) br(4)] by simp
  next
    case False
    with br(1,2) assms(3) have "start = 1" "1 < length xs" by auto
    then show ?thesis using tool_grouped_after_system [OF assms(1)] br(3) by simp
  qed
qed

lemma apply_no_summary: "context_compaction_apply al msgs req None = (AGENT_ERR_MODEL, msgs)"
  by (simp add: context_compaction_apply_def)

lemma finish_compaction_effect:
  "request_frame c (finish_compaction env c) \<and>
   (a_messages (finish_compaction env c) = a_messages c \<or>
    (\<exists>s. context_compaction_apply all_ok (a_messages c) (compaction c) (Some s) =
         (AGENT_OK, a_messages (finish_compaction env c)))) \<and>
   \<not> compaction_active (finish_compaction env c) \<and> skip_compaction_once (finish_compaction env c) \<and>
   a_state (finish_compaction env c) = AGENT_READY"
proof -
  define summary where "summary = map_option c_str (compaction_text c)"
  define ok1 where "ok1 = (\<not> compaction_error c \<and> summary_has_text (compaction_text c))"
  obtain rc1 msgs1 where m1: "(if ok1 then context_compaction_apply all_ok (a_messages c) (compaction c) summary
                          else (AGENT_ERR_MODEL, a_messages c)) = (rc1, msgs1)"
    by (metis surj_pair)
  obtain rc2 msgs2 where m2: "context_compaction_apply_fallback all_ok msgs1 (compaction c) = (rc2, msgs2)"
    by (metis surj_pair)
  define c1 where "c1 = (if ok1 \<and> rc1 = AGENT_OK
                then persist_compaction env (compaction c) summary (c\<lparr>a_messages := msgs1\<rparr>)
                else if rc2 = AGENT_OK \<and> length (mitems msgs2) < length (items c)
                   then persist_compaction env (compaction c) (m_content (mitems msgs2 ! cr_start (compaction c)))
                          (c\<lparr>a_messages := msgs2\<rparr>)
                   else c\<lparr>a_messages := msgs2\<rparr>)"
  have fc: "finish_compaction env c = c1\<lparr>compaction := no_compaction, compaction_text := text_clear (compaction_text c1),
         compaction_active := False, skip_compaction_once := True, a_state := AGENT_READY\<rparr>"
    unfolding finish_compaction_def Let_def summary_def [symmetric] ok1_def [symmetric]
    by (simp add: m1 m2 c1_def split: prod.splits if_splits)
  have pq: "quiet x (persist_compaction env r t x)" for r t x
    by (simp add: persist_compaction_def with_session_quiet)
  have frame: "request_frame c c1" and msgs: "a_messages c1 = (if ok1 \<and> rc1 = AGENT_OK then msgs1 else msgs2)"
    using pq [of "c\<lparr>a_messages := msgs1\<rparr>" "compaction c" summary]
      pq [of "c\<lparr>a_messages := msgs2\<rparr>" "compaction c" "m_content (mitems msgs2 ! cr_start (compaction c))"]
    by (auto simp: c1_def quiet_def steady_def request_frame_def)
  have ap: "rc1 = AGENT_OK \<Longrightarrow> ok1 \<Longrightarrow> \<exists>s. context_compaction_apply all_ok (a_messages c) (compaction c) (Some s) = (AGENT_OK, msgs1)"
    using m1 apply_no_summary [of all_ok "a_messages c" "compaction c"] by (cases summary) auto
  have fb: "rc1 \<noteq> AGENT_OK \<or> \<not> ok1 \<Longrightarrow> msgs1 = a_messages c"
    using m1 apply_fail by (auto split: if_splits)
  have "a_messages c1 = a_messages c \<or>
    (\<exists>s. context_compaction_apply all_ok (a_messages c) (compaction c) (Some s) = (AGENT_OK, a_messages c1))"
  proof (cases "ok1 \<and> rc1 = AGENT_OK")
    case True
    with ap msgs show ?thesis by auto
  next
    case False
    with fb have "msgs1 = a_messages c" by auto
    with fallback_eq m2 msgs False show ?thesis by metis
  qed
  with frame show ?thesis by (simp add: fc request_frame_def)
qed

lemma finish_compaction_ok:
  assumes "history_ok c" and "compaction_active c"
  shows "history_ok (finish_compaction env c)"
proof -
  note e = finish_compaction_effect [of c env]
  from assms have g: "tool_grouped (items c)"
    and b: "compaction_bounds (items c) 10 = (cr_start (compaction c), cr_count (compaction c))" "0 < cr_count (compaction c)"
    and st: "a_state c = AGENT_WAIT_MODEL" by (auto simp: history_ok_def)
  have "tool_grouped (items (finish_compaction env c))"
  proof (cases "a_messages (finish_compaction env c) = a_messages c")
    case False
    with e obtain s where "context_compaction_apply all_ok (a_messages c) (compaction c) (Some s) =
         (AGENT_OK, a_messages (finish_compaction env c))" by auto
    from compaction_apply_splice [OF this g] bounds_start_not_tool [OF g b] show ?thesis by simp
  qed (simp add: g)
  with e assms st show ?thesis by (auto simp: history_ok_def request_frame_def)
qed

text \<open>The invariant reads these fields only.\<close>

lemma history_ok_same:
  assumes "history_ok c" and "a_messages c' = a_messages c" and "a_tools c' = a_tools c" and "a_state c' = a_state c"
    and "compaction_active c' = compaction_active c" and "compaction c' = compaction c"
    and "tool_message_index c' = tool_message_index c" and "tool_index c' = tool_index c"
    and "tool_task c' = tool_task c" and "parallel_tools c' = parallel_tools c"
    and "approval_pending c' = approval_pending c"
  shows "history_ok c'"
proof -
  have "calls_len c' = calls_len c" "call_at c' j = call_at c j" "results_ok c' n = results_ok c n"
    "not_batch c' = not_batch c" for j n
    using assms by (simp_all add: calls_len_def call_at_def results_ok_def not_batch_def
        parallel_batch_eligible_def find_tool_def)
  with assms show ?thesis by (simp add: history_ok_def)
qed

lemma history_ok_steady: "history_ok c \<Longrightarrow> steady c c' \<Longrightarrow> history_ok c'"
  by (rule history_ok_same) (simp_all add: steady_def)

lemma fail_turn_ok:
  assumes "tool_grouped (items c)" and "\<not> compaction_active c" and "parallel_tools c = []" and "tool_task c = None"
  shows "history_ok (snd (fail_turn c)) \<and> fst (fail_turn c) \<noteq> None"
  using assms by (auto simp: fail_turn_def history_ok_def)

lemma fail_turn_eq: "fail_turn c = (o1, c1) \<Longrightarrow> o1 = fst (fail_turn c) \<and> c1 = snd (fail_turn c)"
  by simp

definition rank :: "'w loop \<Rightarrow> nat" where
  "rank c =
     (let n = calls_len c - tool_index c in
      case a_state c of
        AGENT_WAIT_MODEL \<Rightarrow> 1
      | AGENT_WAIT_USER \<Rightarrow> 4 * n + 2
      | AGENT_WAIT_TOOL \<Rightarrow>
          if n = 0 \<and> parallel_tools c = [] then 0 else 4 * n + (if approval_granted c then 1 else 3)
      | _ \<Rightarrow> 0)"

lemma wait_model_error_ok:
  assumes "history_ok c" and "a_state c = AGENT_WAIT_MODEL" and "\<not> compaction_active c"
    and "wait_model_error env c = (o1, c1)"
  shows "history_ok c1 \<and> o1 \<noteq> None"
proof -
  have inv: "tool_grouped (items c)" "parallel_tools c = []" "tool_task c = None" "\<not> approval_pending c"
    using assms by (auto simp: history_ok_def)
  have report: "history_ok c1 \<and> o1 \<noteq> None"
    if "report_model_error x = (o1, c1)" "request_frame c x" "items x = items c" "\<not> compaction_active x" for x
  proof -
    let ?e = "emit (error_event (lc_error_msg (lctx x))) x"
    have "steady x ?e" using emit_quiet quiet_steady by blast
    with that inv have "tool_grouped (items ?e)" "\<not> compaction_active ?e" "parallel_tools ?e = []" "tool_task ?e = None"
      by (simp_all add: steady_def request_frame_def)
    from fail_turn_ok [OF this] fail_turn_eq [of ?e o1 c1] that(1) show ?thesis
      by (simp add: report_model_error_def)
  qed
  show ?thesis
  proof (cases "retry_pending c")
    case True
    obtain el c2 where r: "retry_delay_elapsed env c = (el, c2)" by (cases "retry_delay_elapsed env c")
    then have q: "quiet c c2"
      by (auto simp: retry_delay_elapsed_def Let_def split: prod.splits dest: ask_clock_quiet)
    then have s: "steady c c2" by (rule quiet_steady)
    show ?thesis
    proof (cases el)
      case False
      with True r assms(4) history_ok_steady [OF assms(1) s] show ?thesis
        by (auto simp: wait_model_error_def)
    next
      case el: True
      obtain rc c3 where m: "start_model_request env (c2\<lparr>retry_pending := False\<rparr>) = (rc, c3)" by (metis surj_pair)
      note e = start_model_request_effect [OF m]
      have f: "request_frame c c3" "items c3 = items c" "\<not> compaction_active c3" "a_state c3 = AGENT_WAIT_MODEL"
        using e s assms(3) by (simp_all add: request_frame_def steady_def)
      show ?thesis
      proof (cases "rc = AGENT_OK")
        case ok: True
        with True r el m assms(4) f inv show ?thesis
          by (auto simp: wait_model_error_def history_ok_def request_frame_def)
      next
        case bad: False
        let ?x = "c3\<lparr>lctx := (lctx c3)\<lparr>lc_error := True, lc_error_code := error_value rc,
                                         lc_error_msg := ''failed to restart model request''\<rparr>\<rparr>"
        have "report_model_error ?x = (o1, c1)"
          using True r el m assms(4) bad by (simp add: wait_model_error_def)
        moreover have "request_frame c ?x" using f(1) by (simp add: request_frame_def)
        ultimately show ?thesis using report [of ?x] f by simp
      qed
    qed
  next
    case False
    show ?thesis
    proof (cases "no_partial_output c \<and> retryable_model_error (lc_error_code (lctx c)) \<and>
              int (request_retries c) < max_retries c")
      case True
      define b where "b = c\<lparr>request_retries := request_retries c + 1\<rparr>"
      obtain c2 t where k: "ask_clock env b = (t, c2)" by (metis surj_pair)
      have sch: "\<exists>ra. schedule_retry_delay env b = c2\<lparr>retry_at := ra, retry_pending := True\<rparr>"
        by (rule exI, unfold schedule_retry_delay_def Let_def k split_beta fst_conv snd_conv, rule refl)
      then obtain ra where ra: "schedule_retry_delay env b = c2\<lparr>retry_at := ra, retry_pending := True\<rparr>" by blast
      have hb: "history_ok (c2\<lparr>retry_at := ra, retry_pending := True\<rparr>)"
        by (rule history_ok_same [OF assms(1)]) (use ask_clock_quiet [OF k] in \<open>simp_all add: quiet_def steady_def b_def\<close>)
      have "history_ok (emit ev (c2\<lparr>retry_at := ra, retry_pending := True\<rparr>))" for ev
        using history_ok_steady [OF hb] emit_quiet quiet_steady by blast
      moreover have "\<exists>ev. wait_model_error env c = (Some AGENT_STEP_BUSY, emit ev (schedule_retry_delay env b))"
        unfolding wait_model_error_def Let_def b_def if_not_P [OF False] if_P [OF True] by blast
      ultimately show ?thesis using assms(4) ra by auto
    next
      case no: False
      with False assms(4) have "report_model_error c = (o1, c1)" by (auto simp: wait_model_error_def)
      with report [of c] assms(3) show ?thesis by simp
    qed
  qed
qed

lemma assistant_role [simp]: "m_role (assistant_message c) = MSG_ASSISTANT"
  by (simp add: assistant_message_def Let_def message_new_def)

lemma wait_user_busy: "\<not> approval_pending c \<Longrightarrow> wait_user_step env c = (Some AGENT_STEP_BUSY, c)"
  by (simp add: wait_user_step_def)

lemma wait_model_complete_ok:
  assumes "history_ok c0" and "a_state c0 = AGENT_WAIT_MODEL" and "\<not> compaction_active c0"
    and "wait_model_complete env c0 = (o1, c')"
  shows "history_ok c' \<and> o1 \<noteq> None"
proof -
  define limited where "limited = request_hit_output_limit c0"
  define incomplete where "incomplete = request_ended_incomplete c0"
  define am where "am = assistant_message c0"
  define c where "c = c0\<lparr>output_continuation_active := False,
                 output_limit_continuations := (if \<not> limited then 0 else output_limit_continuations c0),
                 lctx := (lctx c0)\<lparr>lc_text := None, lc_reasoning := None, lc_tool_calls := []\<rparr>,
                 a_messages := history_append (a_messages c0) am\<rparr>"
  define c1 where "c1 = log_message env am c"
  from assms have inv: "tool_grouped (items c0)" "parallel_tools c0 = []" "tool_task c0 = None" "\<not> approval_pending c0"
    by (auto simp: history_ok_def)
  have q: "quiet c c1" by (simp add: c1_def log_message_quiet)
  have it: "items c1 = items c0 @ [am]" using q by (simp add: quiet_def steady_def c_def)
  have g: "tool_grouped (items c1)" unfolding it am_def by (simp add: inv(1) tool_grouped_snoc)
  have f: "\<not> compaction_active c1" "parallel_tools c1 = []" "tool_task c1 = None" "\<not> approval_pending c1"
    "a_state c1 = AGENT_WAIT_MODEL"
    using q inv assms(2,3) by (simp_all add: quiet_def steady_def c_def)
  have fail: "history_ok (snd (fail_turn (emit ev c1))) \<and> fst (fail_turn (emit ev c1)) \<noteq> None" for ev
  proof -
    have "steady c1 (emit ev c1)" using emit_quiet quiet_steady by blast
    with g f show ?thesis by (intro fail_turn_ok) (simp_all add: steady_def)
  qed
  have eq: "wait_model_complete env c0 =
     (if limited then
        (if output_limit_continuations c1 \<ge> MAX_OUTPUT_LIMIT_CONTINUATIONS then
           fail_turn (emit (error_event
             (''model output reached max_tokens after '' @ show_nat MAX_OUTPUT_LIMIT_CONTINUATIONS @
              '' consecutive automatic continuations; task remains incomplete (increase max_tokens or '' @
              ''submit a narrower request)'')) c1)
         else
           suspend_or_fail (start_request env (emit (status_event
                  (''model output limit reached; continuing automatically ('' @
                   show_nat (output_limit_continuations (c1\<lparr>output_limit_continuations := output_limit_continuations c1 + 1,
                       output_continuation_active := True\<rparr>)) @ ''/'' @
                   show_nat MAX_OUTPUT_LIMIT_CONTINUATIONS @ '')''))
              (c1\<lparr>output_limit_continuations := output_limit_continuations c1 + 1,
                       output_continuation_active := True\<rparr>))))
      else if incomplete then
        fail_turn (emit (error_event
          (if lc_stop_reason (lctx c1) = MODEL_STOP_CONTENT_FILTER
           then ''model response was stopped by a content filter''
           else ''model response ended incomplete'')) c1)
      else if m_tool_calls am = [] then
        (Some AGENT_STEP_DONE, c1\<lparr>a_state := AGENT_DONE, in_turn := False\<rparr>)
      else
         (case c1\<lparr>a_state := AGENT_WAIT_TOOL,
                    a_tool_call_count := a_tool_call_count c1 + of_nat (length (m_tool_calls am))\<rparr> of c2 \<Rightarrow>
          case with_session (\<lambda>s. s\<lparr>s_tool_call_count := a_tool_call_count c2\<rparr>) c2 of c3 \<Rightarrow>
         wait_user_step env
           (c3\<lparr>tool_message_index := length (items c3) - 1, tool_index := 0\<rparr>)))"
    unfolding wait_model_complete_def Let_def c1_def c_def am_def limited_def incomplete_def by (rule refl)
  show ?thesis
  proof (cases limited)
    case True
    show ?thesis
    proof (cases "output_limit_continuations c1 \<ge> MAX_OUTPUT_LIMIT_CONTINUATIONS")
      case True2: True
      with True assms(4) fail show ?thesis unfolding eq by (metis fst_conv snd_conv)
    next
      case False
      define c2 where "c2 = c1\<lparr>output_limit_continuations := output_limit_continuations c1 + 1,
                       output_continuation_active := True\<rparr>"
      obtain ev where e: "wait_model_complete env c0 = suspend_or_fail (start_request env (emit ev c2))"
        unfolding eq if_P [OF True] if_not_P [OF False] c2_def by blast
      have st: "steady c2 (emit ev c2)" using emit_quiet quiet_steady by blast
      obtain rc c3 where r: "start_request env (emit ev c2) = (rc, c3)" by (metis surj_pair)
      have sus: "suspend_or_fail (rc, c3) = (o1, c')" using e r assms(4) by simp
      have "\<not> compaction_active (emit ev c2)" "tool_grouped (items (emit ev c2))" "parallel_tools (emit ev c2) = []"
        "tool_task (emit ev c2) = None" "\<not> approval_pending (emit ev c2)"
        using st g f by (simp_all add: steady_def c2_def)
      from history_ok_request [OF r this sus] show ?thesis .
    qed
  next
    case False
    show ?thesis
    proof (cases incomplete)
      case True
      with False assms(4) fail show ?thesis unfolding eq by (metis fst_conv snd_conv)
    next
      case ni: False
      show ?thesis
      proof (cases "m_tool_calls am = []")
        case True
        with False ni assms(4) g f show ?thesis unfolding eq by (auto simp: history_ok_def)
      next
        case calls: False
        obtain c3 where c3: "wait_model_complete env c0 = wait_user_step env c3"
          "items c3 = items c1" "a_state c3 = AGENT_WAIT_TOOL" "\<not> approval_pending c3" "\<not> compaction_active c3"
          "parallel_tools c3 = []" "tool_task c3 = None" "tool_message_index c3 = length (items c1) - 1" "tool_index c3 = 0"
          using False ni calls f unfolding eq by (auto simp: with_session_def)
        from c3(1) wait_user_busy [OF c3(4), of env] assms(4) have r: "o1 = Some AGENT_STEP_BUSY" "c' = c3" by simp_all
        have "results_ok c3 0"
          using c3 it by (simp add: results_ok_def am_def)
        with r c3 g show ?thesis by (simp add: history_ok_def)
      qed
    qed
  qed
qed

lemma history_tool_state:
  assumes "history_ok c" and "a_state c = AGENT_WAIT_TOOL"
  shows "tool_grouped (items c)" and "results_ok c (tool_index c)" and "\<not> compaction_active c"
    and "\<not> approval_pending c"
  using assms by (auto simp: history_ok_def)

text \<open>A result appended for the current call, then the cursor moved on.\<close>

lemma next_call_ok:
  assumes "results_ok c1 (Suc k)" and "tool_grouped (items c1)"
    and "a_messages c3 = a_messages c1" and "tool_message_index c3 = tool_message_index c1"
    and "tool_index c3 = Suc k" and "a_state c3 = AGENT_WAIT_TOOL" and "\<not> approval_pending c3"
    and "\<not> compaction_active c3" and "parallel_tools c3 = []" and "tool_task c3 = None"
  shows "history_ok c3 \<and> rank c3 \<le> 4 * (calls_len c1 - Suc k) + 3"
proof -
  have cl: "calls_len c3 = calls_len c1" and ca: "call_at c3 j = call_at c1 j" for j
    using assms(3,4) by (simp_all add: calls_len_def call_at_def)
  have "results_ok c3 (Suc k)" using assms(1,3,4) cl ca by (simp add: results_ok_def)
  with assms(2-) have "history_ok c3" by (simp add: history_ok_def)
  moreover have "rank c3 \<le> 4 * (calls_len c1 - Suc k) + 3"
    using assms(5,6) cl by (simp add: rank_def)
  ultimately show ?thesis ..
qed

lemma wait_user_ok:
  assumes "history_ok c" and "a_state c = AGENT_WAIT_USER" and "wait_user_step env c = (o1, c')"
  shows "history_ok c' \<and> (o1 = None \<longrightarrow> rank c' < rank c)"
proof -
  let ?k = "tool_index c"
  from assms have inv: "tool_grouped (items c)" "\<not> compaction_active c" "results_ok c ?k"
    "parallel_tools c = []" "tool_task c = None" "?k < calls_len c" by (auto simp: history_ok_def)
  define stale where "stale = (approval_granted c \<and>
                     (?k \<noteq> approval_tool_index c \<or> \<not> approval_matches env c (call_at c ?k)))"
  show ?thesis
  proof (cases "\<not> approval_pending c \<or> \<not> approval_decided c")
    case True
    with assms show ?thesis by (auto simp: wait_user_step_def)
  next
    case False
    show ?thesis
    proof (cases "\<not> approval_granted c \<or> stale")
      case True
      obtain rc c1 where a: "append_tool_rejection env c ?k
         (if stale then ''error: approval is stale; tool call changed'' else ''error: tool execution denied by user'') = (rc, c1)"
        by (metis surj_pair)
      note a' = a [unfolded append_tool_rejection_def]
      note rs = results_ok_snoc [OF inv(3,6,1) a']
      have q: "quiet (c\<lparr>a_messages := a_messages c1\<rparr>) c1" using append_tool_result_effect [OF a'] by blast
      then have f: "tool_index c1 = ?k" "\<not> compaction_active c1" "parallel_tools c1 = []" "tool_task c1 = None"
        using inv by (simp_all add: quiet_def steady_def)
      have eq: "wait_user_step env c =
          (if rc \<noteq> AGENT_OK then fail_turn c1
           else (None, (emit (tool_end_event (call_at c1 (tool_index c1)) True) c1)
              \<lparr>tool_index := tool_index (emit (tool_end_event (call_at c1 (tool_index c1)) True) c1) + 1,
               approval_pending := False, approval_decided := False, approval_granted := False,
               approval_digest_valid := False, a_state := AGENT_WAIT_TOOL\<rparr>))"
        unfolding wait_user_step_def Let_def stale_def [symmetric] if_not_P [OF False] if_P [OF True] a
        by simp
      show ?thesis
      proof (cases "rc = AGENT_OK")
        case True
        let ?e = "emit (tool_end_event (call_at c1 (tool_index c1)) True) c1"
        have st: "steady c1 ?e" using emit_quiet quiet_steady by blast
        have c': "o1 = None" "c' = ?e\<lparr>tool_index := tool_index ?e + 1, approval_pending := False,
            approval_decided := False, approval_granted := False,
            approval_digest_valid := False, a_state := AGENT_WAIT_TOOL\<rparr>"
          using eq assms(3) True by auto
        have h: "history_ok c' \<and> rank c' \<le> 4 * (calls_len c1 - Suc ?k) + 3"
          by (rule next_call_ok [OF rs(2) [OF True] rs(1)]) (use st f in \<open>simp_all add: c' steady_def\<close>)
        have "rank c = 4 * (calls_len c - ?k) + 2" using assms(2) by (simp add: rank_def)
        moreover have "calls_len c - ?k = Suc (calls_len c - Suc ?k)" using inv(6) by simp
        ultimately have "rank c' < rank c" using h rs(3) by simp
        with h show ?thesis by simp
      next
        case bad: False
        with eq assms(3) fail_turn_ok [OF rs(1) f(2-4)] show ?thesis by (metis fst_conv snd_conv)
      qed
    next
      case granted: False
      then have eq: "wait_user_step env c = (None, c\<lparr>approval_pending := False, approval_decided := False,
          approval_digest_valid := False, a_state := AGENT_WAIT_TOOL\<rparr>)"
        using False unfolding wait_user_step_def Let_def stale_def by simp
      define x where "x = c\<lparr>approval_pending := False, approval_decided := False,
          approval_digest_valid := False, a_state := AGENT_WAIT_TOOL\<rparr>"
      have c': "o1 = None" "c' = x" using eq assms(3) by (auto simp: x_def)
      have same: "calls_len x = calls_len c" "call_at x j = call_at c j" "tool_index x = ?k" for j
        by (simp_all add: x_def calls_len_def call_at_def)
      have "results_ok x ?k" using inv(3) same by (simp add: results_ok_def x_def)
      with inv same have "history_ok x" by (simp add: history_ok_def x_def)
      moreover have "rank x < rank c"
        using inv(6) assms(2) granted same by (simp add: rank_def x_def)
      ultimately show ?thesis by (simp add: c')
    qed
  qed
qed

section \<open>Tools\<close>

lemma enter_tool_steady: "enter_tool tool tc c = (r, c') \<Longrightarrow> steady c c'"
  by (intro quiet_steady enter_tool_quiet)

lemma results_ok_steady: "steady c c' \<Longrightarrow> results_ok c' n = results_ok c n"
  and calls_len_steady: "steady c c' \<Longrightarrow> calls_len c' = calls_len c"
  and call_at_steady: "steady c c' \<Longrightarrow> call_at c' j = call_at c j"
  by (simp_all add: steady_def results_ok_def calls_len_def call_at_def)

lemma append_frame:
  assumes "append_tool_result env c k result = (rc, c')"
  shows "tool_index c' = tool_index c" "a_state c' = a_state c" "compaction_active c' = compaction_active c"
    "parallel_tools c' = parallel_tools c" "tool_task c' = tool_task c" "approval_pending c' = approval_pending c"
    "tool_message_index c' = tool_message_index c" "approval_granted c' = approval_granted c \<or> a_state c = AGENT_WAIT_USER"
proof -
  have "quiet (c\<lparr>a_messages := a_messages c'\<rparr>) c'" using append_tool_result_effect [OF assms] by blast
  then show "tool_index c' = tool_index c" "a_state c' = a_state c" "compaction_active c' = compaction_active c"
    "parallel_tools c' = parallel_tools c" "tool_task c' = tool_task c" "approval_pending c' = approval_pending c"
    "tool_message_index c' = tool_message_index c" "approval_granted c' = approval_granted c \<or> a_state c = AGENT_WAIT_USER"
    by (auto simp: quiet_def steady_def)
qed

lemma start_tool_call_cases:
  assumes "start_tool_call env c k = (rc, pending, c')"
  shows "(pending \<and> rc = AGENT_OK \<and> (\<exists>c1 t. steady c c1 \<and> c' = c1\<lparr>tool_task := Some t, tool_cancel_requested := False\<rparr>)) \<or>
         (\<not> pending \<and> (\<exists>c1 result. steady c c1 \<and> append_tool_result env c1 k result = (rc, c')))"
proof (cases "find_tool c (call_at c k)")
  case None
  with assms show ?thesis
    by (auto simp: start_tool_call_def Let_def split: prod.splits intro: steady_refl)
next
  case (Some tool)
  obtain task result c1 where e: "enter_tool tool (call_at c k) c = ((task, result), c1)" by (metis surj_pair)
  from enter_tool_steady [OF e] assms Some e show ?thesis
    by (cases task) (auto simp: start_tool_call_def Let_def split: prod.splits)
qed

lemma poll_tool_call_cases:
  assumes "poll_tool_call env c k = (rc, done, c')" and "tool_task c = Some t"
  shows "(\<not> done \<and> rc = AGENT_OK \<and> steady c c') \<or>
         (done \<and> (\<exists>c1 result. steady c c1 \<and>
            append_tool_result env (c1\<lparr>tool_task := None, tool_cancel_requested := False\<rparr>) k result = (rc, c')))"
proof -
  obtain prc result td c1 where p: "poll_task t c = ((prc, result, td), c1)" by (metis surj_pair)
  have s: "steady c c1" "steady c (run_hook (tk_destroy t) c1)"
    using poll_task_quiet [OF p] run_hook_quiet quiet_steady quiet_trans by blast+
  with assms p show ?thesis
    by (auto simp: poll_tool_call_def Let_def split: if_splits prod.splits)
qed

text \<open>A call handled by an appended result: the cursor moves and the rank falls, or the turn fails.\<close>

lemma serial_result_ok:
  assumes "history_ok c" and "a_state c = AGENT_WAIT_TOOL" and "parallel_tools c = []"
    and "tool_index c < calls_len c" and "steady c c1"
    and "append_tool_result env (c1\<lparr>tool_task := None, tool_cancel_requested := tcr\<rparr>) (tool_index c) result = (rc, c2)"
  shows "rc \<noteq> AGENT_OK \<Longrightarrow> history_ok (snd (fail_turn c2))"
    and "rc = AGENT_OK \<Longrightarrow> steady c2 c3 \<Longrightarrow>
         history_ok (c3\<lparr>tool_index := tool_index c3 + 1\<rparr>) \<and>
         rank (c3\<lparr>tool_index := tool_index c3 + 1\<rparr>) \<le> 4 * (calls_len c - Suc (tool_index c)) + 3"
proof -
  let ?b = "c1\<lparr>tool_task := None, tool_cancel_requested := tcr\<rparr>"
  note inv = history_tool_state [OF assms(1,2)]
  have b: "results_ok ?b (tool_index c)" "tool_grouped (items ?b)" "calls_len ?b = calls_len c"
    "\<not> compaction_active ?b" "parallel_tools ?b = []" "tool_task ?b = None" "\<not> approval_pending ?b"
    "a_state ?b = AGENT_WAIT_TOOL" "tool_index ?b = tool_index c"
    using inv assms(2,3,5) by (simp_all add: steady_def results_ok_def calls_len_def call_at_def)
  note rs = results_ok_snoc [OF b(1) _ b(2) assms(6)]
  note af = append_frame [OF assms(6)]
  have lt: "tool_index c < calls_len ?b" using b(3) assms(4) by simp
  show "history_ok (snd (fail_turn c2))" if "rc \<noteq> AGENT_OK"
    using fail_turn_ok [of c2] rs(1) [OF lt] af b by simp
  show "history_ok (c3\<lparr>tool_index := tool_index c3 + 1\<rparr>) \<and>
        rank (c3\<lparr>tool_index := tool_index c3 + 1\<rparr>) \<le> 4 * (calls_len c - Suc (tool_index c)) + 3"
    if ok: "rc = AGENT_OK" and st: "steady c2 c3"
  proof -
    have "history_ok (c3\<lparr>tool_index := tool_index c3 + 1\<rparr>) \<and>
          rank (c3\<lparr>tool_index := tool_index c3 + 1\<rparr>) \<le> 4 * (calls_len c2 - Suc (tool_index c)) + 3"
      by (rule next_call_ok [OF rs(2) [OF lt ok] rs(1) [OF lt]]) (use st af b in \<open>simp_all add: steady_def\<close>)
    moreover have "calls_len c2 = calls_len c" using rs(3) [OF lt] b(3) by simp
    ultimately show ?thesis by simp
  qed
qed

lemma rank_drop:
  assumes "a_state c = AGENT_WAIT_TOOL" and "tool_index c < calls_len c"
    and "r \<le> 4 * (calls_len c - Suc (tool_index c)) + 3"
  shows "r < rank c"
proof -
  have "calls_len c - tool_index c = Suc (calls_len c - Suc (tool_index c))" using assms(2) by simp
  with assms show ?thesis by (simp add: rank_def)
qed

lemma task_clear_id:
  assumes "tool_task c = None"
  shows "c\<lparr>tool_task := None, tool_cancel_requested := tool_cancel_requested c\<rparr> = c"
proof -
  have "c\<lparr>tool_task := tool_task c, tool_cancel_requested := tool_cancel_requested c\<rparr> = c" by simp
  then show ?thesis unfolding assms .
qed

lemma run_serial_ok:
  assumes "history_ok c" and "a_state c = AGENT_WAIT_TOOL" and "parallel_tools c = []" and "tool_task c = None"
    and "tool_index c < calls_len c" and "not_batch c" and "run_serial_tool env c = (o1, c')"
  shows "history_ok c' \<and> (o1 = None \<longrightarrow> rank c' \<le> 4 * (calls_len c - Suc (tool_index c)) + 3)"
proof -
  let ?e = "emit (tool_start_event (call_at c (tool_index c))) c"
  obtain rc pending c2 where s: "start_tool_call env ?e (tool_index c) = (rc, pending, c2)" by (metis surj_pair)
  have se: "steady c ?e" using emit_quiet quiet_steady by blast
  from start_tool_call_cases [OF s] show ?thesis
  proof (elim disjE conjE exE)
    fix c1 t assume p: pending "rc = AGENT_OK" "steady ?e c1"
      "c2 = c1\<lparr>tool_task := Some t, tool_cancel_requested := False\<rparr>"
    have st: "steady c c1" using se p(3) steady_trans by blast
    have "history_ok c2"
      using assms(1-6) st unfolding p(4)
      by (simp add: history_ok_def steady_def results_ok_def calls_len_def call_at_def
          not_batch_def parallel_batch_eligible_def find_tool_def)
    with p s assms(7) show ?thesis by (auto simp: run_serial_tool_def)
  next
    fix c1 result assume np: "\<not> pending" "steady ?e c1" and a: "append_tool_result env c1 (tool_index c) result = (rc, c2)"
    have st: "steady c c1" using se np(2) steady_trans by blast
    then have "tool_task c1 = None" using assms(4) by (simp add: steady_def)
    with a have a': "append_tool_result env (c1\<lparr>tool_task := None, tool_cancel_requested := tool_cancel_requested c1\<rparr>)
        (tool_index c) result = (rc, c2)" by (simp only: task_clear_id)
    note sr = serial_result_ok [OF assms(1-3,5) st a']
    show ?thesis
    proof (cases "rc = AGENT_OK")
      case True
      let ?f = "emit (tool_end_event (call_at c2 (tool_index c2)) (tc_is_error (call_at c2 (tool_index c2)))) c2"
      have sf: "steady c2 ?f" using emit_quiet quiet_steady by blast
      have "o1 = None" "c' = ?f\<lparr>tool_index := tool_index ?f + 1\<rparr>"
        using True np s assms(7) by (auto simp: run_serial_tool_def after_tool_def Let_def)
      with sr(2) [OF True sf] show ?thesis by simp
    next
      case False
      with np s assms(7) sr(1) show ?thesis by (auto simp: run_serial_tool_def fail_turn_def)
    qed
  qed
qed

lemma ask_approval_cb_steady: "steady c (ask_approval_cb ev c)"
proof (cases "a_approval_cb c")
  case (Some cb)
  obtain granted calls w' where cb: "cb ev (world c) = ((granted, calls), w')" by (metis surj_pair)
  let ?b = "c\<lparr>approval_decided := True, world := w'\<rparr>"
  have "steady ?b (foldl do_host_call ?b calls)" using host_calls_quiet quiet_steady by blast
  with Some cb show ?thesis by (simp add: ask_approval_cb_def steady_def)
qed (simp add: ask_approval_cb_def)

lemma request_approval_ok:
  assumes "history_ok c" and "a_state c = AGENT_WAIT_TOOL" and "parallel_tools c = []" and "tool_task c = None"
    and "tool_index c < calls_len c" and "\<not> approval_granted c" and "request_approval env tool c = (o1, c')"
  shows "history_ok c' \<and> rank c' < rank c"
proof -
  let ?k = "tool_index c" and ?d = "approval_digest env (call_at c (tool_index c))"
  define c1 where "c1 = c\<lparr>approval_pending := True, approval_decided := False, approval_tool_index := ?k,
                 approval_digest_valid := (?d \<noteq> None),
                 approval_stored_digest := (case ?d of Some d \<Rightarrow> d | None \<Rightarrow> approval_stored_digest c),
                 a_state := AGENT_WAIT_USER\<rparr>"
  obtain preview c2 where p: "build_tool_preview tool (call_at c ?k) c1 = (preview, c2)" by (metis surj_pair)
  define ev where "ev = (agent_event_of AGENT_EVT_TOOL_APPROVAL)
      \<lparr>ev_name := tc_name (call_at c ?k), ev_text := tc_arguments (call_at c ?k), ev_preview := preview\<rparr>"
  have "request_approval env tool c =
      (if approval_decided (ask_approval_cb ev (emit ev c2)) then None else Some AGENT_STEP_BUSY,
       ask_approval_cb ev (emit ev c2))"
    unfolding request_approval_def Let_def c1_def [symmetric] p prod.case ev_def by (rule refl)
  with assms(7) have c': "c' = ask_approval_cb ev (emit ev c2)" by simp
  have st: "steady c1 c'"
    unfolding c' by (rule steady_trans [OF quiet_steady [OF build_tool_preview_quiet [OF p]]
        steady_trans [OF quiet_steady [OF emit_quiet] ask_approval_cb_steady]])
  note inv = history_tool_state [OF assms(1,2)]
  have "history_ok c1"
    using assms inv by (simp add: c1_def history_ok_def results_ok_def calls_len_def call_at_def)
  moreover have "rank c' < rank c"
  proof -
    have "a_state c' = AGENT_WAIT_USER" "tool_index c' = ?k" "calls_len c' = calls_len c"
      using st calls_len_steady [OF st] by (simp_all add: steady_def c1_def calls_len_def)
    with assms show ?thesis by (simp add: rank_def)
  qed
  ultimately show ?thesis using history_ok_steady st by blast
qed

lemma begin_serial_ok:
  assumes "history_ok c" and "a_state c = AGENT_WAIT_TOOL" and "parallel_tools c = []" and "tool_task c = None"
    and "tool_index c < calls_len c" and "not_batch c" and "begin_serial_tool env c = (o1, c')"
  shows "history_ok c' \<and> (o1 = None \<longrightarrow> rank c' < rank c)"
proof -
  note drop = rank_drop [OF assms(2,5)]
  have serial: ?thesis if "run_serial_tool env c = (o1, c')"
    using run_serial_ok [OF assms(1-6) that] drop by blast
  have serial': ?thesis if r: "run_serial_tool env (c\<lparr>approval_granted := False\<rparr>) = (o1, c')"
  proof -
    let ?b = "c\<lparr>approval_granted := False\<rparr>"
    have b: "history_ok ?b" "a_state ?b = AGENT_WAIT_TOOL" "parallel_tools ?b = []" "tool_task ?b = None" "tool_index ?b < calls_len ?b"
      "not_batch ?b"
      and same: "calls_len ?b = calls_len c" "tool_index ?b = tool_index c"
      using assms(1-6) by (simp_all add: history_ok_def results_ok_def calls_len_def call_at_def
          not_batch_def parallel_batch_eligible_def find_tool_def)
    from run_serial_ok [OF b r] drop show ?thesis unfolding same by blast
  qed
  have reject: ?thesis if a: "append_tool_rejection env c (tool_index c) msg = (rc, c1)"
    and r: "(o1, c') = (if rc \<noteq> AGENT_OK then fail_turn c1
        else (None, (emit (tool_end_event (call_at c1 (tool_index c1)) True) c1)
            \<lparr>tool_index := tool_index (emit (tool_end_event (call_at c1 (tool_index c1)) True) c1) + 1\<rparr>))" for msg rc c1
  proof -
    have a': "append_tool_result env (c\<lparr>tool_task := None, tool_cancel_requested := tool_cancel_requested c\<rparr>)
        (tool_index c) (error_result msg) = (rc, c1)"
      using a assms(4) by (simp only: task_clear_id append_tool_rejection_def)
    note sr = serial_result_ok [OF assms(1-3,5) steady_refl a']
    let ?f = "emit (tool_end_event (call_at c1 (tool_index c1)) True) c1"
    have "steady c1 ?f" using emit_quiet quiet_steady by blast
    with sr r drop show ?thesis by (cases "rc = AGENT_OK") (auto simp: fail_turn_def)
  qed
  show ?thesis
  proof (cases "find_tool c (call_at c (tool_index c))")
    case None
    with serial assms(7) show ?thesis by (simp add: begin_serial_tool_def)
  next
    case (Some tool)
    show ?thesis
    proof (cases "approval_required tool")
      case False
      with Some serial assms(7) show ?thesis by (simp add: begin_serial_tool_def)
    next
      case req: True
      show ?thesis
      proof (cases "approval_host_missing c")
        case True
        obtain rc c1 where a: "append_tool_rejection env c (tool_index c)
            ''error: side-effecting tool denied; no approval host is available'' = (rc, c1)" by (metis surj_pair)
        have "(o1, c') = (if rc \<noteq> AGENT_OK then fail_turn c1
           else (None, (emit (tool_end_event (call_at c1 (tool_index c1)) True) c1)
              \<lparr>tool_index := tool_index (emit (tool_end_event (call_at c1 (tool_index c1)) True) c1) + 1\<rparr>))"
          unfolding assms(7) [symmetric] begin_serial_tool_def Some option.case if_P [OF req] if_P [OF True] a
            prod.case Let_def by (rule refl)
        with reject [OF a] show ?thesis by blast
      next
        case False
        show ?thesis
        proof (cases "\<not> agent_session_trusted c \<and> \<not> approval_granted c")
          case True
          with Some req False assms(7) request_approval_ok [OF assms(1-5)] show ?thesis
            by (simp add: begin_serial_tool_def)
        next
          case no: False
          with Some req False assms(7) serial' show ?thesis by (auto simp: begin_serial_tool_def)
        qed
      qed
    qed
  qed
qed

section \<open>Parallel batches\<close>

lemma start_parallel_one_effect:
  assumes "start_parallel_one c i = (call, c')"
  shows "steady c c' \<and> pc_tool_index call = i"
proof -
  let ?tc = "call_at c i" and ?c1 = "emit (tool_start_event (call_at c i)) c"
  have s1: "steady c ?c1" by (rule quiet_steady [OF emit_quiet])
  show ?thesis
  proof (cases "find_tool c ?tc")
    case None
    with assms s1 show ?thesis by (auto simp: start_parallel_one_def Let_def)
  next
    case (Some tool)
    obtain task result c2 where e: "enter_tool tool ?tc ?c1 = ((task, result), c2)" by (metis surj_pair)
    have "steady c c2" by (rule steady_trans [OF s1 enter_tool_steady [OF e]])
    with assms Some e show ?thesis
      by (cases task) (auto simp: start_parallel_one_def Let_def)
  qed
qed

lemma start_parallel_calls_effect:
  "start_parallel_calls is c = (calls, c') \<Longrightarrow> steady c c' \<and> map pc_tool_index calls = is"
proof (induction "is" arbitrary: c calls c')
  case (Cons i "is")
  obtain call c1 where o: "start_parallel_one c i = (call, c1)" by (metis surj_pair)
  obtain cs c2 where r: "start_parallel_calls is c1 = (cs, c2)" by (metis surj_pair)
  from Cons.IH [OF r] start_parallel_one_effect [OF o] steady_trans Cons.prems o r show ?case by auto
qed simp

lemma poll_parallel_one_effect:
  assumes "poll_parallel_one call c = (call', c')"
  shows "steady c c' \<and> pc_tool_index call' = pc_tool_index call"
proof (cases "pc_task call")
  case None
  with assms show ?thesis by (simp add: poll_parallel_one_def)
next
  case (Some t)
  obtain r result td c1 where p: "poll_task t c = ((r, result, td), c1)" by (metis surj_pair)
  have "steady c c1" by (rule quiet_steady [OF poll_task_quiet [OF p]])
  moreover have "steady c (run_hook (tk_destroy t) c1)"
    by (rule steady_trans [OF \<open>steady c c1\<close> quiet_steady [OF run_hook_quiet]])
  ultimately show ?thesis using assms Some p by (auto simp: poll_parallel_one_def split: if_splits)
qed

lemma poll_parallel_calls_effect:
  "poll_parallel_calls calls c = (calls', c') \<Longrightarrow>
   steady c c' \<and> map pc_tool_index calls' = map pc_tool_index calls"
proof (induction calls arbitrary: c calls' c')
  case (Cons call calls)
  obtain d c1 where o: "poll_parallel_one call c = (d, c1)" by (metis surj_pair)
  obtain ds c2 where r: "poll_parallel_calls calls c1 = (ds, c2)" by (metis surj_pair)
  from Cons.IH [OF r] poll_parallel_one_effect [OF o] steady_trans Cons.prems o r show ?case by auto
qed simp

definition but_history :: "'w loop \<Rightarrow> 'w loop \<Rightarrow> bool" where
  "but_history c c' \<longleftrightarrow> steady (c\<lparr>a_messages := a_messages c'\<rparr>) c'"

lemma but_history_trans: "but_history c c' \<Longrightarrow> but_history c' c'' \<Longrightarrow> but_history c c''"
  by (simp add: but_history_def steady_def)

lemma but_history_steady: "but_history c c' \<Longrightarrow> steady c' c'' \<Longrightarrow> but_history c c''"
  by (simp add: but_history_def steady_def)

lemma append_parallel_results_ok:
  assumes "append_parallel_results env calls c = (rc, c')"
    and "results_ok c k" and "tool_grouped (items c)" and "map pc_tool_index calls = [k..<calls_len c]"
  shows "but_history c c' \<and> tool_grouped (items c') \<and>
         (rc = AGENT_OK \<longrightarrow> results_ok c' (calls_len c) \<and> calls_len c' = calls_len c)"
  using assms
proof (induction calls arbitrary: c k)
  case Nil
  then have "[k..<calls_len c] = []" by simp
  then have "\<not> k < calls_len c" by (auto simp: upt_eq_Nil_conv)
  with Nil show ?case by (auto simp: but_history_def results_ok_def)
next
  case (Cons call calls)
  from Cons.prems(4) have k: "k < calls_len c" "pc_tool_index call = k" "map pc_tool_index calls = [Suc k..<calls_len c]"
    by (cases "k < calls_len c"; simp add: upt_conv_Cons)+
  obtain rc1 c1 where a: "append_tool_result env c k (pc_result call) = (rc1, c1)" by (metis surj_pair)
  note rs = results_ok_snoc [OF Cons.prems(2) k(1) Cons.prems(3) a]
  have bh: "but_history c c1" using append_tool_result_effect [OF a] quiet_steady by (auto simp: but_history_def)
  show ?case
  proof (cases "rc1 = AGENT_OK")
    case False
    with Cons.prems(1) a k(2) have "rc = rc1" "c' = c1" by auto
    with False bh rs show ?thesis by simp
  next
    case True
    let ?e = "emit (tool_end_event (call_at c1 k) (tc_is_error (call_at c1 k))) c1"
    have se: "steady c1 ?e" by (rule quiet_steady [OF emit_quiet])
    from Cons.prems(1) a k(2) True have r: "append_parallel_results env calls ?e = (rc, c')" by (simp add: Let_def)
    have e: "results_ok ?e (Suc k)" "tool_grouped (items ?e)" "map pc_tool_index calls = [Suc k..<calls_len ?e]"
      "calls_len ?e = calls_len c"
      using rs(1,2,3) True se k(3) results_ok_steady [OF se] calls_len_steady [OF se]
      by (simp_all add: steady_def)
    from Cons.IH [OF r e(1-3)] e(4) but_history_trans [OF but_history_steady [OF bh se]]
    show ?thesis by auto
  qed
qed

lemma parallel_free_steady: "steady (c\<lparr>parallel_tools := []\<rparr>) (parallel_tools_free c)"
proof -
  have "steady c (foldl (\<lambda>c call. case pc_task call of None \<Rightarrow> c
      | Some t \<Rightarrow> run_hook (tk_destroy t) (run_hook (tk_cancel t) c)) c calls)" for calls and c :: "'a loop"
  proof (induction calls arbitrary: c)
    case (Cons call calls)
    have "steady c (run_hook f (run_hook g c))" for f g
      by (rule quiet_steady [OF quiet_trans [OF run_hook_quiet run_hook_quiet]])
    then have "steady c (case pc_task call of None \<Rightarrow> c | Some t \<Rightarrow> run_hook (tk_destroy t) (run_hook (tk_cancel t) c))"
      by (simp split: option.split)
    from steady_trans [OF this Cons.IH] show ?case by simp
  qed simp
  from this [of c "parallel_tools c"] show ?thesis by (simp add: parallel_tools_free_def steady_def)
qed

text \<open>A batch that runs in parallel, just started or being polled.\<close>

definition batch_running :: "'w loop \<Rightarrow> bool" where
  "batch_running c \<longleftrightarrow> history_ok c \<and> a_state c = AGENT_WAIT_TOOL \<and> parallel_tools c \<noteq> []"

lemma start_batch:
  assumes "history_ok c" and "a_state c = AGENT_WAIT_TOOL" and "parallel_tools c = []" and "\<not> not_batch c"
  shows "batch_running (start_parallel_tools c) \<and> 0 < rank c"
proof -
  obtain calls c1 where sp: "start_parallel_calls [0..<calls_len c] c = (calls, c1)" by (metis surj_pair)
  note se = start_parallel_calls_effect [OF sp]
  have eq: "start_parallel_tools c = c1\<lparr>parallel_tools := calls\<rparr>"
    using sp by (simp add: start_parallel_tools_def)
  from assms(4) have z: "tool_index c = 0" and n: "calls_len c \<ge> 2"
    by (auto simp: not_batch_def parallel_batch_eligible_def calls_len_def)
  have tt: "tool_task c = None" using assms(1,4) by (auto simp: history_ok_def)
  have st: "steady c c1" and ix: "map pc_tool_index calls = [0..<calls_len c]" using se by auto
  have "map pc_tool_index calls \<noteq> []" using ix n by simp
  then have ne: "calls \<noteq> []" by auto
  have h1: "history_ok c1" by (rule history_ok_steady [OF assms(1) st])
  have f: "tool_index c1 = 0" "tool_task c1 = None" "calls_len c1 = calls_len c" "a_state c1 = AGENT_WAIT_TOOL"
    using st z tt assms(2) calls_len_steady [OF st] by (simp_all add: steady_def)
  have "history_ok (c1\<lparr>parallel_tools := calls\<rparr>)"
    using h1 f ix by (simp add: history_ok_def results_ok_def calls_len_def call_at_def)
  moreover have "0 < rank c" using assms(2) n z by (simp add: rank_def)
  ultimately show ?thesis using ne f(4) by (simp add: batch_running_def eq)
qed

lemma poll_batch:
  assumes "batch_running c" and "poll_parallel_tools env c = (rc, done, c1)"
  shows "(rc \<noteq> AGENT_OK \<longrightarrow> history_ok (snd (fail_turn (parallel_tools_free c1)))) \<and>
         (rc = AGENT_OK \<and> \<not> done \<longrightarrow> history_ok c1) \<and>
         (rc = AGENT_OK \<and> done \<longrightarrow>
            history_ok (parallel_tools_free (c1\<lparr>tool_index := calls_len c1\<rparr>)) \<and>
            rank (parallel_tools_free (c1\<lparr>tool_index := calls_len c1\<rparr>)) = 0)"
proof -
  from assms(1) have h: "history_ok c" and ws: "a_state c = AGENT_WAIT_TOOL" and ne: "parallel_tools c \<noteq> []"
    by (auto simp: batch_running_def)
  from h ne have z: "tool_index c = 0" "tool_task c = None"
    and ix: "map pc_tool_index (parallel_tools c) = [0..<calls_len c]" by (auto simp: history_ok_def)
  note inv = history_tool_state [OF h ws, unfolded z]
  obtain calls c2 where p: "poll_parallel_calls (parallel_tools c) c = (calls, c2)" by (metis surj_pair)
  note pe = poll_parallel_calls_effect [OF p]
  then have st: "steady c c2" and ix2: "map pc_tool_index calls = [0..<calls_len c]" using ix by auto
  let ?c3 = "c2\<lparr>parallel_tools := calls\<rparr>"
  have h3: "history_ok ?c3"
    using history_ok_steady [OF h st] st z ix2 ne ws calls_len_steady [OF st]
    by (simp add: history_ok_def results_ok_def calls_len_def call_at_def steady_def not_batch_def)
  show ?thesis
  proof (cases "list_all pc_done calls")
    case False
    with assms(2) p h3 show ?thesis by (auto simp: poll_parallel_tools_def Let_def)
  next
    case True
    obtain rc2 c4 where a: "append_parallel_results env calls ?c3 = (rc2, c4)" by (metis surj_pair)
    with True assms(2) p have r: "rc = rc2" "done = (rc = AGENT_OK)" "c1 = c4"
      by (auto simp: poll_parallel_tools_def Let_def)
    have "results_ok ?c3 0" "tool_grouped (items ?c3)" "map pc_tool_index calls = [0..<calls_len ?c3]"
      and f3: "calls_len ?c3 = calls_len c" "a_state ?c3 = AGENT_WAIT_TOOL" "tool_task ?c3 = None"
        "\<not> compaction_active ?c3" "\<not> approval_pending ?c3"
      using inv st ix2 z ws calls_len_steady [OF st]
      by (simp_all add: steady_def results_ok_def calls_len_def call_at_def)
    note ap = append_parallel_results_ok [OF a this(1-3)]
    have f4: "a_state c4 = AGENT_WAIT_TOOL" "tool_task c4 = None" "\<not> compaction_active c4" "\<not> approval_pending c4"
      using ap f3 by (simp_all add: but_history_def steady_def)
    note ps = parallel_free_steady
    show ?thesis
    proof (cases "rc = AGENT_OK")
      case False
      have "history_ok (snd (fail_turn (parallel_tools_free c4)))"
        using fail_turn_ok [of "parallel_tools_free c4"] ps [of c4] ap f4 by (simp add: steady_def)
      with False r show ?thesis by simp
    next
      case ok: True
      let ?x = "c4\<lparr>tool_index := calls_len c4\<rparr>"
      have cl: "calls_len c4 = calls_len c" "results_ok c4 (calls_len c4)" using ap r ok f3 by auto
      have x: "calls_len ?x = calls_len c4" "call_at ?x j = call_at c4 j" for j
        by (simp_all add: calls_len_def call_at_def)
      have fr: "a_messages (parallel_tools_free ?x) = a_messages c4" "parallel_tools (parallel_tools_free ?x) = []"
        "a_state (parallel_tools_free ?x) = AGENT_WAIT_TOOL" "tool_task (parallel_tools_free ?x) = None"
        "tool_index (parallel_tools_free ?x) = calls_len c4" "\<not> compaction_active (parallel_tools_free ?x)"
        "\<not> approval_pending (parallel_tools_free ?x)"
        "tool_message_index (parallel_tools_free ?x) = tool_message_index c4"
        using ps [of ?x] f4 by (simp_all add: steady_def)
      have cl': "calls_len (parallel_tools_free ?x) = calls_len c4" "call_at (parallel_tools_free ?x) j = call_at c4 j" for j
        using fr by (simp_all add: calls_len_def call_at_def)
      have "results_ok (parallel_tools_free ?x) (calls_len c4)"
        using cl(2) fr cl' by (simp add: results_ok_def)
      then have "history_ok (parallel_tools_free ?x)"
        using fr ap by (simp add: history_ok_def)
      moreover have "rank (parallel_tools_free ?x) = 0" using fr cl' by (simp add: rank_def)
      ultimately show ?thesis using r ok by simp
    qed
  qed
qed

lemma wait_tool_ok:
  assumes "history_ok c0" and "a_state c0 = AGENT_WAIT_TOOL" and "wait_tool_step env c0 = (o1, c')"
  shows "history_ok c' \<and> (o1 = None \<longrightarrow> rank c' < rank c0)"
proof -
  define c where "c = (if parallel_tools c0 = [] \<and> \<not> not_batch c0 then start_parallel_tools c0 else c0)"
  have eq: "wait_tool_step env c0 =
     (if parallel_tools c \<noteq> [] then
        (let (rc, done, c1) = poll_parallel_tools env c in
         if rc \<noteq> AGENT_OK then fail_turn (parallel_tools_free c1)
         else if \<not> done then (Some AGENT_STEP_BUSY, c1)
         else (None, parallel_tools_free (c1\<lparr>tool_index := calls_len c1\<rparr>)))
      else if tool_index c < calls_len c then
        (if tool_task c \<noteq> None then
           (let (rc, done, c1) = poll_tool_call env c (tool_index c) in
            if rc \<noteq> AGENT_OK then fail_turn c1
            else if \<not> done then (Some AGENT_STEP_BUSY, c1)
            else after_tool c1)
         else begin_serial_tool env c)
      else suspend_or_fail (start_request env c))"
    by (simp add: wait_tool_step_def c_def not_batch_def Let_def)
  show ?thesis
  proof (cases "parallel_tools c = []")
    case False
    have run: "batch_running c \<and> 0 < rank c0"
    proof (cases "parallel_tools c0 = [] \<and> \<not> not_batch c0")
      case True
      with start_batch [OF assms(1,2)] show ?thesis by (simp add: c_def)
    next
      case no: False
      with False have "c = c0" "parallel_tools c0 \<noteq> []" by (auto simp: c_def)
      moreover from this assms(1,2) have "0 < rank c0" by (simp add: rank_def)
      ultimately show ?thesis using assms(1,2) by (simp add: batch_running_def)
    qed
    obtain rc dn c1 where p: "poll_parallel_tools env c = (rc, dn, c1)" by (metis surj_pair)
    from poll_batch [OF conjunct1 [OF run] p] run eq assms(3) False p show ?thesis
      by (auto simp: fail_turn_def split: if_splits)
  next
    case True
    have c0: "c = c0"
    proof (rule ccontr)
      assume "c \<noteq> c0"
      then have "parallel_tools c0 = []" "\<not> not_batch c0" "c = start_parallel_tools c0" by (auto simp: c_def split: if_splits)
      with start_batch [OF assms(1,2)] True show False by (simp add: batch_running_def)
    qed
    then have nb: "not_batch c0" using True start_batch [OF assms(1,2)] by (auto simp: c_def batch_running_def split: if_splits)
    note inv = history_tool_state [OF assms(1,2)]
    show ?thesis
    proof (cases "tool_index c0 < calls_len c0")
      case lt: True
      show ?thesis
      proof (cases "tool_task c0")
        case None
        have pz: "parallel_tools c0 = []" using True c0 by simp
        have "begin_serial_tool env c0 = (o1, c')" using eq True c0 lt assms(3) None by simp
        from begin_serial_ok [OF assms(1,2) pz None lt nb this] show ?thesis .
      next
        case (Some t)
        obtain rc dn c1 where p: "poll_tool_call env c0 (tool_index c0) = (rc, dn, c1)" by (metis surj_pair)
        have e: "(if rc \<noteq> AGENT_OK then fail_turn c1 else if \<not> dn then (Some AGENT_STEP_BUSY, c1) else after_tool c1) = (o1, c')"
          using eq True c0 lt assms(3) Some p by simp
        from poll_tool_call_cases [OF p Some] show ?thesis
        proof (elim disjE conjE exE)
          assume "\<not> dn" "rc = AGENT_OK" "steady c0 c1"
          with e history_ok_steady [OF assms(1)] show ?thesis by auto
        next
          fix c2 result assume dn and st: "steady c0 c2"
            and a: "append_tool_result env (c2\<lparr>tool_task := None, tool_cancel_requested := False\<rparr>) (tool_index c0) result = (rc, c1)"
          have pz: "parallel_tools c0 = []" using True c0 by simp
          note sr = serial_result_ok [OF assms(1,2) pz lt st a]
          show ?thesis
          proof (cases "rc = AGENT_OK")
            case False
            with e sr(1) show ?thesis by (auto simp: fail_turn_def)
          next
            case ok: True
            let ?f = "emit (tool_end_event (call_at c1 (tool_index c1)) (tc_is_error (call_at c1 (tool_index c1)))) c1"
            have sf: "steady c1 ?f" by (rule quiet_steady [OF emit_quiet])
            have "o1 = None" "c' = ?f\<lparr>tool_index := tool_index ?f + 1\<rparr>"
              using e ok \<open>dn\<close> by (auto simp: after_tool_def Let_def)
            with sr(2) [OF ok sf] rank_drop [OF assms(2) lt] show ?thesis by blast
          qed
        qed
      qed
    next
      case False
      obtain rc c1 where r: "start_request env c0 = (rc, c1)" by (metis surj_pair)
      have tt: "tool_task c0 = None" using assms(1) False by (auto simp: history_ok_def)
      have "suspend_or_fail (rc, c1) = (o1, c')" using eq True c0 False r assms(3) by simp
      moreover have "parallel_tools c0 = []" using True c0 by simp
      ultimately show ?thesis using history_ok_request [OF r inv(3,1) _ tt inv(4)] by auto
    qed
  qed
qed

section \<open>Cancellation\<close>

lemma cancel_model_request_steady:
  "steady (c\<lparr>request_cancel_requested := request_cancel_requested (cancel_model_request env c)\<rparr>)
          (cancel_model_request env c)"
proof (cases "a_model c")
  case (Some m)
  show ?thesis
  proof (cases "md_cancel m")
    case (Some cancel)
    obtain evs w' where k: "cancel (request_id c) (world c) = (evs, w')" by (metis surj_pair)
    have "steady (c\<lparr>request_cancel_requested := True, world := w'\<rparr>)
             (deliver_events env (c\<lparr>request_cancel_requested := True, world := w'\<rparr>) evs)"
      by (rule deliver_events_steady)
    with \<open>a_model c = Some m\<close> Some k show ?thesis by (auto simp: cancel_model_request_def steady_def)
  qed (simp add: cancel_model_request_def \<open>a_model c = Some m\<close>)
qed (simp add: cancel_model_request_def)

lemma cancel_tool_task_effect:
  assumes "cancel_tool_task c = (busy, c')"
  shows "steady (c\<lparr>tool_task := tool_task c', tool_cancel_requested := tool_cancel_requested c'\<rparr>) c' \<and>
         tool_task c' = (if busy then tool_task c else None)"
proof (cases "tool_task c")
  case None
  with assms show ?thesis by (auto simp: cancel_tool_task_def steady_def)
next
  case (Some t)
  define c1 where "c1 = (if \<not> tool_cancel_requested c \<and> tk_cancel t \<noteq> None
                     then (run_hook (tk_cancel t) c)\<lparr>tool_cancel_requested := True\<rparr> else c)"
  obtain rc r dn c2 where p: "poll_task t c1 = ((rc, r, dn), c2)" by (metis surj_pair)
  have s1: "steady (c\<lparr>tool_cancel_requested := tool_cancel_requested c1\<rparr>) c1"
    using quiet_steady [OF run_hook_quiet [of c "tk_cancel t"]] by (simp add: c1_def steady_def)
  have s2: "steady c1 c2" by (rule quiet_steady [OF poll_task_quiet [OF p]])
  have s3: "steady c2 (run_hook (tk_destroy t) c2)" by (rule quiet_steady [OF run_hook_quiet])
  have eq: "cancel_tool_task c = (if \<not> dn \<and> rc = AGENT_OK then (True, c2)
        else (False, (run_hook (tk_destroy t) c2)\<lparr>tool_task := None, tool_cancel_requested := False\<rparr>))"
    unfolding cancel_tool_task_def Some option.case Let_def c1_def [symmetric] p prod.case by (rule refl)
  show ?thesis
  proof (cases "\<not> dn \<and> rc = AGENT_OK")
    case True
    then have "busy" "c' = c2" using assms eq by auto
    with s1 s2 show ?thesis by (simp add: steady_def)
  next
    case False
    then have "\<not> busy" "c' = (run_hook (tk_destroy t) c2)\<lparr>tool_task := None, tool_cancel_requested := False\<rparr>"
      using assms eq by (auto simp del: de_Morgan_conj)
    with s1 s2 s3 show ?thesis by (simp add: steady_def)
  qed
qed

lemma cancel_parallel_calls_effect:
  "cancel_parallel_calls calls c = (calls', c') \<Longrightarrow>
   steady c c' \<and> map pc_tool_index calls' = map pc_tool_index calls"
proof (induction calls arbitrary: c calls' c')
  case (Cons call calls)
  define p where "p = (case pc_task call of
            Some t \<Rightarrow> if \<not> pc_cancel_requested call \<and> tk_cancel t \<noteq> None
                      then (call\<lparr>pc_cancel_requested := True\<rparr>, run_hook (tk_cancel t) c) else (call, c)
          | None \<Rightarrow> (call, c))"
  obtain d c1 where d: "p = (d, c1)" by (cases p)
  obtain ds c2 where r: "cancel_parallel_calls calls c1 = (ds, c2)" by (metis surj_pair)
  have "steady c c1 \<and> pc_tool_index d = pc_tool_index call"
    using d quiet_steady [OF run_hook_quiet] by (auto simp: p_def split: option.splits if_splits)
  moreover have "calls' = d # ds" "c' = c2"
    using Cons.prems d r by (simp_all add: p_def [symmetric])
  ultimately show ?case using Cons.IH [OF r] steady_trans by auto
qed simp

lemma reap_parallel_calls_effect:
  "reap_parallel_calls calls c = (busy, calls', c') \<Longrightarrow>
   steady c c' \<and> map pc_tool_index calls' = map pc_tool_index calls"
proof (induction calls arbitrary: c busy calls' c')
  case (Cons call calls)
  show ?case
  proof (cases "pc_task call")
    case None
    obtain b ds c1 where r: "reap_parallel_calls calls c = (b, ds, c1)" by (metis surj_pair)
    with Cons.IH [OF r] Cons.prems None show ?thesis by auto
  next
    case (Some t)
    obtain rc rr dn c1 where p: "poll_task t c = ((rc, rr, dn), c1)" by (metis surj_pair)
    have s1: "steady c c1" by (rule quiet_steady [OF poll_task_quiet [OF p]])
    show ?thesis
    proof (cases "\<not> dn \<and> rc = AGENT_OK")
      case True
      with Cons.prems Some p s1 show ?thesis by auto
    next
      case False
      obtain b ds c2 where r: "reap_parallel_calls calls (run_hook (tk_destroy t) c1) = (b, ds, c2)" by (metis surj_pair)
      have "steady c (run_hook (tk_destroy t) c1)" by (rule steady_trans [OF s1 quiet_steady [OF run_hook_quiet]])
      with Cons.IH [OF r] Cons.prems Some p False r steady_trans show ?thesis by auto
    qed
  qed
qed simp

text \<open>Cancellation never continues the loop and never touches the history.\<close>

lemma cancel_step_effect:
  assumes "cancel_step env c = (o1, c')"
  shows "a_messages c' = a_messages c \<and> tool_message_index c' = tool_message_index c \<and>
         tool_index c' = tool_index c \<and> a_tools c' = a_tools c \<and> approval_pending c' = approval_pending c \<and>
         ((o1 = Some AGENT_STEP_BUSY \<and> a_state c' = a_state c \<and>
           (tool_task c' = tool_task c \<or> tool_task c' = None) \<and>
           map pc_tool_index (parallel_tools c') = map pc_tool_index (parallel_tools c) \<and>
           (compaction_active c' \<longrightarrow> compaction_active c \<and> compaction c' = compaction c)) \<or>
          (o1 = Some AGENT_STEP_CANCELLED \<and> a_state c' = AGENT_CANCELLED \<and> \<not> in_turn c' \<and>
           tool_task c' = None \<and> parallel_tools c' = [] \<and> \<not> compaction_active c'))"
proof -
  define pending where "pending = (a_state c = AGENT_WAIT_MODEL \<and> model_pending c)"
  define c1 where "c1 = (if pending then cancel_model_request env c else c)"
  define c2 where "c2 = (if compaction_active c1
                   then c1\<lparr>compaction := no_compaction, compaction_text := text_clear (compaction_text c1),
                           compaction_active := False\<rparr>
                   else c1)"
  obtain tb c3 where t: "cancel_tool_task c2 = (tb, c3)" by (metis surj_pair)
  obtain calls c4 where k: "cancel_parallel_calls (parallel_tools c3) c3 = (calls, c4)" by (metis surj_pair)
  obtain busy calls' c5 where r: "reap_parallel_calls calls c4 = (busy, calls', c5)" by (metis surj_pair)
  define c6 where "c6 = c5\<lparr>parallel_tools := calls'\<rparr>"
  have eq: "cancel_step env c =
     (if pending \<and> model_pending c1 then (Some AGENT_STEP_BUSY, c1)
      else if tb then (Some AGENT_STEP_BUSY, c3)
      else if busy then (Some AGENT_STEP_BUSY, c6)
      else (Some AGENT_STEP_CANCELLED,
                  (parallel_tools_free c6)\<lparr>a_state := AGENT_CANCELLED, in_turn := False\<rparr>))"
    unfolding cancel_step_def Let_def pending_def [symmetric] c1_def [symmetric] c2_def [symmetric] t k r
      prod.case c6_def [symmetric] by (rule refl)
  have s1: "steady (c\<lparr>request_cancel_requested := request_cancel_requested c1\<rparr>) c1"
    using cancel_model_request_steady [where c = c and env = env] by (simp add: c1_def)
  note s2 = cancel_tool_task_effect [OF t]
  note s3 = cancel_parallel_calls_effect [OF k]
  note s4 = reap_parallel_calls_effect [OF r]
  have s5: "steady (c6\<lparr>parallel_tools := []\<rparr>) (parallel_tools_free c6)" by (rule parallel_free_steady)
  have p6: "map pc_tool_index (parallel_tools c6) = map pc_tool_index (parallel_tools c3)"
    using s3 s4 by (simp add: c6_def)
  have f1: "a_messages c1 = a_messages c" "tool_message_index c1 = tool_message_index c" "tool_index c1 = tool_index c"
    "a_tools c1 = a_tools c" "approval_pending c1 = approval_pending c" "a_state c1 = a_state c"
    "tool_task c1 = tool_task c" "parallel_tools c1 = parallel_tools c" "compaction_active c1 = compaction_active c"
    "compaction c1 = compaction c"
    using s1 by (simp_all add: steady_def)
  have f3: "a_messages c3 = a_messages c" "tool_message_index c3 = tool_message_index c" "tool_index c3 = tool_index c"
    "a_tools c3 = a_tools c" "approval_pending c3 = approval_pending c" "a_state c3 = a_state c"
    "parallel_tools c3 = parallel_tools c" "\<not> compaction_active c3"
    "tool_task c3 = (if tb then tool_task c else None)"
    using s2 f1 by (simp_all add: steady_def c2_def)
  have f6: "a_messages c6 = a_messages c" "tool_message_index c6 = tool_message_index c" "tool_index c6 = tool_index c"
    "a_tools c6 = a_tools c" "approval_pending c6 = approval_pending c" "a_state c6 = a_state c"
    "\<not> compaction_active c6" "tool_task c6 = tool_task c3"
    using s3 s4 f3 by (simp_all add: steady_def c6_def)
  let ?x = "(parallel_tools_free c6)\<lparr>a_state := AGENT_CANCELLED, in_turn := False\<rparr>"
  have f7: "a_messages ?x = a_messages c" "tool_message_index ?x = tool_message_index c" "tool_index ?x = tool_index c"
    "a_tools ?x = a_tools c" "approval_pending ?x = approval_pending c" "parallel_tools ?x = []"
    "\<not> compaction_active ?x" "tool_task ?x = tool_task c3"
    using s5 f6 by (simp_all add: steady_def)
  consider "pending \<and> model_pending c1" | "\<not> (pending \<and> model_pending c1)" tb
    | "\<not> (pending \<and> model_pending c1)" "\<not> tb" busy | "\<not> (pending \<and> model_pending c1)" "\<not> tb" "\<not> busy"
    by blast
  then show ?thesis
  proof cases
    case 1
    then have "o1 = Some AGENT_STEP_BUSY" "c' = c1" using assms eq by auto
    with f1 show ?thesis by simp
  next
    case 2
    then have "o1 = Some AGENT_STEP_BUSY" "c' = c3" using assms eq by auto
    with f3 show ?thesis by simp
  next
    case 3
    then have "o1 = Some AGENT_STEP_BUSY" "c' = c6" using assms eq by auto
    with f3 f6 p6 3 show ?thesis by simp
  next
    case 4
    then have "o1 = Some AGENT_STEP_CANCELLED" "c' = ?x" using assms eq by auto
    with f3 f7 4 show ?thesis by simp
  qed
qed

lemma cancel_step_ok:
  assumes "history_ok c" and "cancel_step env c = (o1, c')"
  shows "history_ok c' \<and> o1 \<noteq> None"
proof -
  note e = cancel_step_effect [OF assms(2)]
  have same: "calls_len c' = calls_len c" "call_at c' j = call_at c j" "results_ok c' n = results_ok c n"
    "not_batch c' = not_batch c" "items c' = items c" for j n
    using e by (simp_all add: calls_len_def call_at_def results_ok_def not_batch_def
        parallel_batch_eligible_def find_tool_def)
  consider (busy) "o1 = Some AGENT_STEP_BUSY" "a_state c' = a_state c" "tool_task c' \<in> {tool_task c, None}"
      "map pc_tool_index (parallel_tools c') = map pc_tool_index (parallel_tools c)"
      "compaction_active c' \<longrightarrow> compaction_active c \<and> compaction c' = compaction c"
    | (done_) "o1 = Some AGENT_STEP_CANCELLED" "a_state c' = AGENT_CANCELLED" "tool_task c' = None"
      "parallel_tools c' = []" "\<not> compaction_active c'"
    using e by auto
  then show ?thesis
  proof cases
    case busy
    have pn: "parallel_tools c' = [] \<longleftrightarrow> parallel_tools c = []" using busy(4) by (metis map_is_Nil_conv)
    have tt: "tool_task c' \<noteq> None \<longrightarrow> tool_task c \<noteq> None" "tool_task c = None \<longrightarrow> tool_task c' = None"
      using busy(3) by auto
    have keep: "tool_index c' = tool_index c" "approval_pending c' = approval_pending c" using e by simp_all
    have "history_ok c'"
      unfolding history_ok_def same busy(2,4) keep pn
      using assms(1)[unfolded history_ok_def] busy(5) tt by auto
    with busy(1) show ?thesis by simp
  next
    case done_
    with assms(1) show ?thesis unfolding history_ok_def by (simp add: same)
  qed
qed

end
