(* ===== verification/Loop_Pass.thy ===== *)
theory Loop_Pass
  imports Loop_History
begin

text \<open>The loop as a whole: every pass of \<open>agent_resume\<close> keeps \<open>history_ok\<close> and, when it does not
  return to the host, decreases \<open>rank\<close>. So the loop always returns.  What the history looks like in
  every reachable state is in \<open>Loop_Protocol\<close>.\<close>

section \<open>The whole pass\<close>

lemma wait_model_ok:
  assumes "history_ok c" and "a_state c = AGENT_WAIT_MODEL" and "wait_model_step env c = (o1, c')"
  shows "history_ok c' \<and> (o1 = None \<longrightarrow> rank c' < rank c)"
proof (cases "compaction_active c")
  case True
  note e = finish_compaction_effect [of c env]
  have "rank (finish_compaction env c) < rank c" using e assms(2) by (simp add: rank_def)
  with True assms finish_compaction_ok [OF assms(1) True] show ?thesis
    by (auto simp: wait_model_step_def split: if_splits)
next
  case False
  show ?thesis
  proof (cases "request_done c")
    case False2: False
    with False assms show ?thesis by (auto simp: wait_model_step_def)
  next
    case done1: True
    show ?thesis
    proof (cases "lc_error (lctx c)")
      case True
      with False done1 assms(3) have "wait_model_error env c = (o1, c')" by (simp add: wait_model_step_def)
      from wait_model_error_ok [OF assms(1,2) False this] show ?thesis by auto
    next
      case ok: False
      with False done1 assms(3) have "wait_model_complete env c = (o1, c')" by (simp add: wait_model_step_def)
      from wait_model_complete_ok [OF assms(1,2) False this] show ?thesis by auto
    qed
  qed
qed

lemma resume_iter_ok:
  assumes "history_ok c" and "resume_iter env c = (o1, c')"
  shows "history_ok c' \<and> (o1 = None \<longrightarrow> rank c' < rank c)"
proof (cases "cancel_token_check (a_cancel c # e_ancestors env (world c))")
  case True
  with assms(2) have "cancel_step env c = (o1, c')" by (simp add: resume_iter_def)
  from cancel_step_ok [OF assms(1) this] show ?thesis by auto
next
  case False
  have stop: "history_ok (c\<lparr>in_turn := b\<rparr>)" for b by (rule history_ok_same [OF assms(1)]) simp_all
  show ?thesis
  proof (cases "a_state c")
    case AGENT_READY
    obtain rc c1 where r: "start_request env c = (rc, c1)" by (metis surj_pair)
    from AGENT_READY assms have inv: "\<not> compaction_active c" "tool_grouped (items c)" "parallel_tools c = []"
      "tool_task c = None" "\<not> approval_pending c" by (auto simp: history_ok_def)
    have "suspend_or_fail (rc, c1) = (o1, c')" using assms(2) False AGENT_READY r by (simp add: resume_iter_def)
    from history_ok_request [OF r inv this] show ?thesis by auto
  next
    case AGENT_WAIT_MODEL
    with False assms(2) have "wait_model_step env c = (o1, c')" by (simp add: resume_iter_def)
    from wait_model_ok [OF assms(1) AGENT_WAIT_MODEL this] show ?thesis .
  next
    case AGENT_WAIT_TOOL
    with False assms(2) have "wait_tool_step env c = (o1, c')" by (simp add: resume_iter_def)
    from wait_tool_ok [OF assms(1) AGENT_WAIT_TOOL this] show ?thesis .
  next
    case AGENT_WAIT_USER
    with False assms(2) have "wait_user_step env c = (o1, c')" by (simp add: resume_iter_def)
    from wait_user_ok [OF assms(1) AGENT_WAIT_USER this] show ?thesis .
  qed (use False assms(2) stop in \<open>auto simp: resume_iter_def\<close>)
qed

interpretation agent_loop: pass_loop "resume_iter env" "agent_resume env" history_ok rank for env :: "'w env"
proof
  show "agent_resume env c = (case resume_iter env c of (Some r, c') \<Rightarrow> Some (r, c') | (None, c') \<Rightarrow> agent_resume env c')"
    for c :: "'w loop" by (rule agent_resume.simps)
  show "history_ok c' \<and> rank c' < rank c" if "history_ok c" "resume_iter env c = (None, c')" for c c' :: "'w loop"
    using resume_iter_ok [OF that] by simp
qed

lemma history_ok_begin:
  assumes "tool_grouped (items c)" and "parallel_tools c = []" and "tool_task c = None" and "\<not> compaction_active c"
  shows "history_ok (begin_turn env txt c)"
proof -
  define c1 where "c1 = (if a_state c = AGENT_CANCELLED then c\<lparr>a_cancel := (a_cancel c)\<lparr>ct_cancelled := False\<rparr>\<rparr> else c)"
  define um where "um = (message_new MSG_USER)\<lparr>m_content := Some txt\<rparr>"
  have f: "items (log_message env um c1) = items c" "parallel_tools (log_message env um c1) = []"
    "tool_task (log_message env um c1) = None" "\<not> compaction_active (log_message env um c1)"
    using assms log_message_quiet [of c1 env um] by (simp_all add: quiet_def steady_def c1_def)
  have "m_role um = MSG_USER" by (simp add: um_def message_new_def)
  then have "tool_grouped (items c @ [um])" by (intro tool_grouped_snoc assms(1)) simp
  with f show ?thesis
    by (simp add: begin_turn_def Let_def c1_def [symmetric] um_def [symmetric] history_ok_def)
qed

text \<open>An agent at rest: between turns, nothing pending.\<close>

definition at_rest :: "'w loop \<Rightarrow> bool" where
  "at_rest c \<longleftrightarrow> history_ok c \<and> a_state c \<in> {AGENT_READY, AGENT_DONE, AGENT_ERROR, AGENT_CANCELLED}"

lemma at_rest_fresh: "at_rest (loop_state (fst (agent_new g rt cfg)) w)"
  by (simp add: at_rest_def history_ok_def loop_state_def agent_new_def agent.extend_def loop.fields_def
      tool_grouped_def Let_def)

lemma at_rest_fields:
  "at_rest c \<Longrightarrow> tool_grouped (items c) \<and> parallel_tools c = [] \<and> tool_task c = None \<and> \<not> compaction_active c"
proof -
  assume "at_rest c"
  then have st: "a_state c \<noteq> AGENT_WAIT_MODEL" "a_state c \<noteq> AGENT_WAIT_TOOL" and h: "history_ok c"
    unfolding at_rest_def by auto
  from h st show ?thesis unfolding history_ok_def by blast
qed

section \<open>Driving an agent\<close>

text \<open>
  What can happen to an agent between and during turns: a turn is started on an agent that is not
  in one, \<open>agent_resume\<close> is called, the runtime delivers model events or changes the world, the
  host calls in from outside a callback.  \<open>H\<close> bounds the host's calls and \<open>W\<close> the changes of
  the world.
\<close>

inductive host_step :: "'w env \<Rightarrow> (host_call \<Rightarrow> bool) \<Rightarrow> ('w \<Rightarrow> 'w \<Rightarrow> bool) \<Rightarrow> 'w loop \<Rightarrow> 'w loop \<Rightarrow> bool"
  for env :: "'w env" and H :: "host_call \<Rightarrow> bool" and W :: "'w \<Rightarrow> 'w \<Rightarrow> bool" where
  Start: "a_state c \<in> {AGENT_READY, AGENT_DONE, AGENT_ERROR, AGENT_CANCELLED} \<Longrightarrow>
          agent_start env txt c = Some (e, c') \<Longrightarrow> host_step env H W c c'"
| Resume: "agent_resume env c = Some (r, c') \<Longrightarrow> host_step env H W c c'"
| Events: "host_step env H W c (deliver_events env c evs)"
| World: "W (world c) w \<Longrightarrow> host_step env H W c (c\<lparr>world := w\<rparr>)"
| Call: "H h \<Longrightarrow> host_step env H W c (do_host_call c h)"

lemma resume_history_ok:
  assumes "history_ok c" and "agent_resume env c = Some (r, c')"
  shows "history_ok c'"
  using agent_loop.result_of_pass [where J = history_ok, OF assms assms(1)] resume_iter_ok by blast

lemma resume_returns: "history_ok c \<Longrightarrow> \<exists>r c'. agent_resume env c = Some (r, c') \<and> history_ok c'"
  using agent_loop.returns resume_history_ok by blast

lemma start_returns:
  assumes "at_rest c"
  shows "\<exists>rc c'. agent_start env txt c = Some (rc, c') \<and> history_ok c'"
proof (cases "a_model c = None")
  case True
  with assms show ?thesis by (simp add: agent_start_def at_rest_def)
next
  case False
  have "history_ok (begin_turn env txt c)" using history_ok_begin at_rest_fields [OF assms] by blast
  from resume_returns [OF this] obtain r d where "agent_resume env (begin_turn env txt c) = Some (r, d)" "history_ok d"
    by blast
  with False show ?thesis by (auto simp: agent_start_def)
qed

lemma host_step_history_ok:
  assumes "host_step env H W c c'" and "history_ok c"
  shows "history_ok c'"
  using assms(1)
proof (cases rule: host_step.cases)
  case (Start inp e)
  with assms(2) have "at_rest c" by (simp add: at_rest_def)
  with start_returns [of c env inp] Start(2) show ?thesis by auto
next
  case Resume
  with resume_history_ok [OF assms(2)] show ?thesis by blast
next
  case (Events evs)
  with history_ok_steady [OF assms(2) deliver_events_steady] show ?thesis by simp
next
  case (World w)
  with history_ok_steady [OF assms(2) quiet_steady [OF world_quiet]] show ?thesis by simp
next
  case (Call h)
  with history_ok_steady [OF assms(2) quiet_steady [OF do_host_call_quiet]] show ?thesis by simp
qed

lemma reachable_history_ok:
  assumes "(host_step env H W)\<^sup>*\<^sup>* c c'" and "history_ok c"
  shows "history_ok c'"
  using assms by induction (auto intro: host_step_history_ok)

text \<open>C2: the agent loop returns. Whatever the model, the tools, the host and the runtime did since the
  agent was at rest, the next \<open>agent_resume\<close> returns to its caller, and so does starting a turn
  on an agent that is not in one.\<close>

theorem agent_resume_returns:
  assumes "at_rest c" and "(host_step env H W)\<^sup>*\<^sup>* c c'"
  shows "(\<exists>r d. agent_resume env c' = Some (r, d)) \<and>
         (a_state c' \<in> {AGENT_READY, AGENT_DONE, AGENT_ERROR, AGENT_CANCELLED} \<longrightarrow>
            (\<exists>e d. agent_start env txt c' = Some (e, d)))"
proof -
  have h: "history_ok c'" using reachable_history_ok assms by (auto simp: at_rest_def)
  with resume_returns start_returns show ?thesis by (auto simp: at_rest_def) blast+
qed

theorem agent_resume_returns_witness:
  "\<exists>r d. agent_resume still_env (loop_state (fst (agent_new 1 None None)) (0 :: nat)) = Some (r, d)"
  using agent_resume_returns [OF at_rest_fresh [of 1 None None "0 :: nat"] rtranclp.rtrancl_refl, of still_env] by blast

end
