(* ===== verification/Loop_Approval.thy ===== *)
theory Loop_Approval
  imports Loop_Pass
begin

text \<open>
  The approval gate of \<open>agent/loop.c\<close>.  \<open>P\<close> is any predicate on the world that everything
  except the tools with \<open>TOOL_FLAG_APPROVAL_REQUIRED\<close> preserves: "no such tool has acted".
  \<open>unapproved env P c\<close> says that \<open>P\<close> holds, that nothing pending can break it, and that no
  approval can be obtained: the host is missing (as for every child agent), or it denies.
  Every function of the loop keeps it, so a tool that needs approval is never entered.
  The second half ties a grant to the call that was shown to the host.
\<close>

section \<open>Harmless components\<close>

definition harmless_task :: "('w \<Rightarrow> bool) \<Rightarrow> (session option \<times> 'w) tool_task \<Rightarrow> bool" where
  "harmless_task P t \<longleftrightarrow>
     (\<forall>f x. tk_poll t = Some f \<longrightarrow> P (snd x) \<longrightarrow> P (snd (snd (f x)))) \<and>
     (\<forall>f x. tk_cancel t = Some f \<longrightarrow> P (snd x) \<longrightarrow> P (snd (f x))) \<and>
     (\<forall>f x. tk_destroy t = Some f \<longrightarrow> P (snd x) \<longrightarrow> P (snd (f x)))"

definition harmless_tool :: "('w \<Rightarrow> bool) \<Rightarrow> (session option \<times> 'w) tool \<Rightarrow> bool" where
  "harmless_tool P t \<longleftrightarrow>
     (\<forall>f a x. t_execute t = Some f \<longrightarrow> P (snd x) \<longrightarrow> P (snd (snd (f a x)))) \<and>
     (\<forall>f a x. t_start t = Some f \<longrightarrow> P (snd x) \<longrightarrow>
        P (snd (snd (f a x))) \<and> pred_option (harmless_task P) (snd (snd (fst (f a x)))))"

definition harmless_preview :: "('w \<Rightarrow> bool) \<Rightarrow> (session option \<times> 'w) tool \<Rightarrow> bool" where
  "harmless_preview P t \<longleftrightarrow> (\<forall>f a x. t_preview t = Some f \<longrightarrow> P (snd x) \<longrightarrow> P (snd (snd (f a x))))"

definition harmless_model :: "('w \<Rightarrow> bool) \<Rightarrow> 'w model \<Rightarrow> bool" where
  "harmless_model P m \<longleftrightarrow>
     (\<forall>rq w. P w \<longrightarrow> P (snd (md_request m rq w))) \<and>
     (\<forall>f i w. md_cancel m = Some f \<longrightarrow> P w \<longrightarrow> P (snd (f i w)))"

text \<open>What the registry may contain: approval is required of every tool that could break \<open>P\<close>, and
  no such tool is marked parallel-safe.\<close>

definition guarded_registry :: "('w \<Rightarrow> bool) \<Rightarrow> (session option \<times> 'w) tool_registry \<Rightarrow> bool" where
  "guarded_registry P r \<longleftrightarrow>
     (\<forall>t\<in>set (r_tools r). harmless_preview P t \<and> (approval_required t \<or> harmless_tool P t) \<and>
        \<not> (approval_required t \<and> parallel_safe t))"

definition no_grant :: "host_call list \<Rightarrow> bool" where
  "no_grant calls \<longleftrightarrow> Approve True \<notin> set calls \<and> Trust True \<notin> set calls"

text \<open>The host's callbacks leave \<open>P\<close> alone; \<open>denying\<close> hosts never approve and never trust.\<close>

definition harmless_host :: "('w \<Rightarrow> bool) \<Rightarrow> 'w loop \<Rightarrow> bool" where
  "harmless_host P c \<longleftrightarrow>
     (\<forall>f ev w. a_event_cb c = Some f \<longrightarrow> P w \<longrightarrow> P (snd (f ev w))) \<and>
     (\<forall>f ev w. a_approval_cb c = Some f \<longrightarrow> P w \<longrightarrow> P (snd (f ev w)))"

definition denying_host :: "'w loop \<Rightarrow> bool" where
  "denying_host c \<longleftrightarrow>
     (\<forall>f ev w. a_event_cb c = Some f \<longrightarrow> no_grant (fst (f ev w))) \<and>
     (\<forall>f ev w. a_approval_cb c = Some f \<longrightarrow> \<not> fst (fst (f ev w)) \<and> no_grant (snd (fst (f ev w)))) \<and>
     \<not> a_session_trusted c \<and> \<not> approval_granted c"

definition harmless :: "'w env \<Rightarrow> ('w \<Rightarrow> bool) \<Rightarrow> 'w loop \<Rightarrow> bool" where
  "harmless env P c \<longleftrightarrow>
     (\<forall>w. P w \<longrightarrow> P (snd (e_clock env w))) \<and>
     a_model c \<noteq> None \<and> pred_option (harmless_model P) (a_model c) \<and>
     pred_option (guarded_registry P) (a_tools c) \<and> harmless_host P c"

definition unapproved :: "'w env \<Rightarrow> ('w \<Rightarrow> bool) \<Rightarrow> 'w loop \<Rightarrow> bool" where
  "unapproved env P c \<longleftrightarrow>
     harmless env P c \<and> P (world c) \<and>
     pred_option (harmless_task P) (tool_task c) \<and>
     (\<forall>call\<in>set (parallel_tools c). pred_option (harmless_task P) (pc_task call)) \<and>
     (approval_host_missing c \<or> denying_host c)"

lemmas unapproved_defs = unapproved_def harmless_def harmless_host_def denying_host_def approval_host_missing_def

section \<open>What keeps it\<close>

text \<open>Only these fields matter.\<close>

lemma unapproved_cong:
  assumes "unapproved env P c" and "a_model c' = a_model c" "a_tools c' = a_tools c" "a_event_cb c' = a_event_cb c"
    "a_approval_cb c' = a_approval_cb c" "a_parent c' = a_parent c"
    "a_approval_available c' = a_approval_available c" "a_session_trusted c' = a_session_trusted c"
    "approval_granted c' = approval_granted c" "tool_task c' = tool_task c"
    "parallel_tools c' = parallel_tools c" "P (world c')"
  shows "unapproved env P c'"
  using assms by (simp add: unapproved_defs)

lemma unapproved_update [simp]:
  "unapproved env P (c\<lparr>a_messages := ms\<rparr>) = unapproved env P c"
  "unapproved env P (c\<lparr>a_session := s\<rparr>) = unapproved env P c"
  "unapproved env P (c\<lparr>a_cancel := ct\<rparr>) = unapproved env P c"
  "unapproved env P (c\<lparr>a_state := st\<rparr>) = unapproved env P c"
  "unapproved env P (c\<lparr>a_usage_total := u\<rparr>) = unapproved env P c"
  "unapproved env P (c\<lparr>a_request_count := w\<rparr>) = unapproved env P c"
  "unapproved env P (c\<lparr>a_model_time_ms := i\<rparr>) = unapproved env P c"
  "unapproved env P (c\<lparr>a_tool_call_count := w\<rparr>) = unapproved env P c"
  "unapproved env P (c\<lparr>in_turn := b\<rparr>) = unapproved env P c"
  "unapproved env P (c\<lparr>request_done := b\<rparr>) = unapproved env P c"
  "unapproved env P (c\<lparr>request_cancel_requested := b\<rparr>) = unapproved env P c"
  "unapproved env P (c\<lparr>request_id := w\<rparr>) = unapproved env P c"
  "unapproved env P (c\<lparr>request_max_tokens := i\<rparr>) = unapproved env P c"
  "unapproved env P (c\<lparr>lctx := x\<rparr>) = unapproved env P c"
  "unapproved env P (c\<lparr>tool_message_index := n\<rparr>) = unapproved env P c"
  "unapproved env P (c\<lparr>tool_index := n\<rparr>) = unapproved env P c"
  "unapproved env P (c\<lparr>tool_cancel_requested := b\<rparr>) = unapproved env P c"
  "unapproved env P (c\<lparr>approval_pending := b\<rparr>) = unapproved env P c"
  "unapproved env P (c\<lparr>approval_decided := b\<rparr>) = unapproved env P c"
  "unapproved env P (c\<lparr>approval_tool_index := n\<rparr>) = unapproved env P c"
  "unapproved env P (c\<lparr>approval_stored_digest := d\<rparr>) = unapproved env P c"
  "unapproved env P (c\<lparr>approval_digest_valid := b\<rparr>) = unapproved env P c"
  "unapproved env P (c\<lparr>request_retries := n\<rparr>) = unapproved env P c"
  "unapproved env P (c\<lparr>retry_pending := b\<rparr>) = unapproved env P c"
  "unapproved env P (c\<lparr>retry_at := ts\<rparr>) = unapproved env P c"
  "unapproved env P (c\<lparr>output_limit_continuations := n\<rparr>) = unapproved env P c"
  "unapproved env P (c\<lparr>output_continuation_active := b\<rparr>) = unapproved env P c"
  "unapproved env P (c\<lparr>request_sequence := w\<rparr>) = unapproved env P c"
  "unapproved env P (c\<lparr>compaction_active := b\<rparr>) = unapproved env P c"
  "unapproved env P (c\<lparr>compaction_done := b\<rparr>) = unapproved env P c"
  "unapproved env P (c\<lparr>compaction_error := b\<rparr>) = unapproved env P c"
  "unapproved env P (c\<lparr>compaction := cr\<rparr>) = unapproved env P c"
  "unapproved env P (c\<lparr>compaction_text := t\<rparr>) = unapproved env P c"
  "unapproved env P (c\<lparr>skip_compaction_once := b\<rparr>) = unapproved env P c"
  "unapproved env P (c\<lparr>t0 := ts\<rparr>) = unapproved env P c"
  by (simp_all add: unapproved_defs)

lemma unapproved_world: "unapproved env P c \<Longrightarrow> P w \<Longrightarrow> unapproved env P (c\<lparr>world := w\<rparr>)"
  by (simp add: unapproved_defs)

lemma unapproved_session_world:
  "unapproved env P c \<Longrightarrow> P w \<Longrightarrow> unapproved env P (c\<lparr>a_session := s, world := w\<rparr>)"
  using unapproved_world [of env P "c\<lparr>a_session := s\<rparr>" w] by simp

lemma unapproved_no_grant: "unapproved env P c \<Longrightarrow> unapproved env P (c\<lparr>approval_granted := False\<rparr>)"
  by (auto simp: unapproved_defs)

lemma unapproved_tool_task:
  "unapproved env P c \<Longrightarrow> pred_option (harmless_task P) t \<Longrightarrow> unapproved env P (c\<lparr>tool_task := t\<rparr>)"
  by (simp add: unapproved_defs)

lemma unapproved_parallel:
  "unapproved env P c \<Longrightarrow> \<forall>call\<in>set calls. pred_option (harmless_task P) (pc_task call) \<Longrightarrow>
   unapproved env P (c\<lparr>parallel_tools := calls\<rparr>)"
  by (simp add: unapproved_defs)

lemma unapproved_host_call:
  assumes "unapproved env P c" and "approval_host_missing c \<or> h \<noteq> Approve True \<and> h \<noteq> Trust True"
  shows "unapproved env P (do_host_call c h)"
  using assms
  by (cases h)
     (auto simp: unapproved_defs agent_set_approval_result_def agent_set_session_trusted_def)

lemma do_host_call_missing [simp]: "approval_host_missing (do_host_call c h) = approval_host_missing c"
  by (cases h) (auto simp: approval_host_missing_def agent_set_approval_result_def agent_set_session_trusted_def)

lemma unapproved_host_calls:
  "unapproved env P c \<Longrightarrow> approval_host_missing c \<or> no_grant hs \<Longrightarrow> unapproved env P (foldl do_host_call c hs)"
proof (induction hs arbitrary: c)
  case (Cons h hs)
  have "unapproved env P (do_host_call c h)"
    by (rule unapproved_host_call) (use Cons.prems in \<open>auto simp: no_grant_def\<close>)
  moreover have "approval_host_missing (do_host_call c h) \<or> no_grant hs"
    using Cons.prems(2) by (auto simp: no_grant_def)
  ultimately show ?case using Cons.IH by simp
qed simp

named_theorems gated \<open>functions of the loop that keep \<open>unapproved\<close>\<close>

lemma unapproved_emit [gated]:
  assumes "unapproved env P c"
  shows "unapproved env P (emit ev c)"
proof (cases "a_event_cb c")
  case (Some cb)
  obtain calls w' where cb: "cb ev (world c) = (calls, w')" by (cases "cb ev (world c)")
  have "P w'" "approval_host_missing c \<or> no_grant calls"
    using assms Some cb unfolding unapproved_defs by (metis fst_conv snd_conv)+
  with unapproved_host_calls [OF unapproved_world [OF assms], of w' calls] Some cb show ?thesis
    by (auto simp: emit_def approval_host_missing_def)
qed (use assms in \<open>simp add: emit_def\<close>)

lemma unapproved_clock:
  assumes "unapproved env P c" and "ask_clock env c = (t, c')"
  shows "unapproved env P c'"
proof -
  have "P (snd (e_clock env (world c)))" using assms(1) by (simp add: unapproved_def harmless_def)
  with assms(2) unapproved_world [OF assms(1)] show ?thesis by (auto simp: ask_clock_def split: prod.splits)
qed

lemma unapproved_with_session [gated]: "unapproved env P c \<Longrightarrow> unapproved env P (with_session f c)"
  by (simp add: with_session_def)

lemma unapproved_log [gated]: "unapproved env P c \<Longrightarrow> unapproved env P (log_message env m c)"
  by (simp add: log_message_def gated)

lemma unapproved_run_tool:
  assumes "unapproved env P c" and "run_tool f c = (r, c')"
    and "\<And>x. P (snd x) \<Longrightarrow> P (snd (snd (f x)))"
  shows "unapproved env P c'"
proof -
  obtain r1 s1 w1 where f: "f (a_session c, world c) = (r1, s1, w1)" by (metis surj_pair)
  have "P w1" using assms(3) [of "(a_session c, world c)"] assms(1) f by (simp add: unapproved_def)
  with unapproved_session_world [OF assms(1)] assms(2) f show ?thesis by (auto simp: run_tool_def)
qed

lemma unapproved_run_hook:
  assumes "unapproved env P c" and "\<And>g x. f = Some g \<Longrightarrow> P (snd x) \<Longrightarrow> P (snd (g x))"
  shows "unapproved env P (run_hook f c)"
proof (cases f)
  case (Some g)
  obtain s1 w1 where g: "g (a_session c, world c) = (s1, w1)" by (cases "g (a_session c, world c)")
  have "P w1" using assms(2) [OF Some, of "(a_session c, world c)"] assms(1) g by (simp add: unapproved_def)
  with unapproved_session_world [OF assms(1)] Some g show ?thesis by (simp add: run_hook_def)
qed (use assms in \<open>simp add: run_hook_def\<close>)

lemma unapproved_cancel_hook: "unapproved env P c \<Longrightarrow> harmless_task P t \<Longrightarrow> unapproved env P (run_hook (tk_cancel t) c)"
  by (rule unapproved_run_hook) (auto simp: harmless_task_def)

lemma unapproved_destroy_hook: "unapproved env P c \<Longrightarrow> harmless_task P t \<Longrightarrow> unapproved env P (run_hook (tk_destroy t) c)"
  by (rule unapproved_run_hook) (auto simp: harmless_task_def)

lemma unapproved_poll: "unapproved env P c \<Longrightarrow> harmless_task P t \<Longrightarrow> poll_task t c = (r, c') \<Longrightarrow> unapproved env P c'"
  by (auto simp: poll_task_def harmless_task_def split: option.splits elim!: unapproved_run_tool)

lemma unapproved_finish_stats [gated]:
  assumes "unapproved env P c"
  shows "unapproved env P (finish_stats env reason c)"
proof -
  obtain t c1 where clk: "ask_clock env (c\<lparr>request_done := True, lctx := (lctx c)\<lparr>lc_stop_reason := reason\<rparr>\<rparr>) = (t, c1)"
    by (metis surj_pair)
  have "unapproved env P c1" by (rule unapproved_clock [OF _ clk]) (use assms in simp)
  with clk show ?thesis by (simp add: finish_stats_def with_session_def)
qed

lemma unapproved_model_event [gated]:
  assumes "unapproved env P c"
  shows "unapproved env P (on_model_event env c ev)"
proof -
  have "unapproved env P (emit e (c\<lparr>lctx := x\<rparr>))" for e x
    by (rule unapproved_emit) (use assms in simp)
  with assms unapproved_finish_stats [OF assms] show ?thesis
    by (cases "me_body ev") (simp_all add: on_model_event_def Let_def)
qed

lemma unapproved_compaction_event [gated]: "unapproved env P c \<Longrightarrow> unapproved env P (on_compaction_event c ev)"
  by (cases "me_body ev") (simp_all add: on_compaction_event_def)

lemma unapproved_model_events [gated]: "unapproved env P c \<Longrightarrow> unapproved env P (foldl (on_model_event env) c evs)"
  by (rule foldl_invariant [where I = "unapproved env P"]) (simp_all add: unapproved_model_event)

lemma unapproved_compaction_events [gated]: "unapproved env P c \<Longrightarrow> unapproved env P (foldl on_compaction_event c evs)"
  by (rule foldl_invariant [where I = "unapproved env P"]) (simp_all add: unapproved_compaction_event)

lemma unapproved_deliver [gated]: "unapproved env P c \<Longrightarrow> unapproved env P (deliver_events env c evs)"
  by (simp add: deliver_events_def unapproved_model_events unapproved_compaction_events)

section \<open>Requests\<close>

lemma unapproved_request_world:
  assumes "unapproved env P c" and "md_request (model_of c) rq (world c') = (r, w')" and "P (world c')"
  shows "P w'"
proof -
  from assms(1) have "harmless_model P (model_of c)" by (auto simp: unapproved_def harmless_def model_of_def)
  with assms(2,3) show ?thesis unfolding harmless_model_def by (metis snd_conv)
qed

lemma unapproved_next_id: "unapproved env P c \<Longrightarrow> next_request_id c = (rid, c') \<Longrightarrow> unapproved env P c'"
  by (auto simp: next_request_id_def Let_def)

lemma unapproved_start_model_request:
  assumes "unapproved env P c" and "start_model_request env c = (rc, c')"
  shows "unapproved env P c'"
proof -
  define ctx where "ctx = \<lparr>lc_text = text_clear (lc_text (lctx c)), lc_reasoning = text_clear (lc_reasoning (lctx c)),
                 lc_tool_calls = [], lc_usage = zero_usage, lc_stop_reason = MODEL_STOP_UNKNOWN,
                 lc_error = False, lc_error_code = 0, lc_error_msg = []\<rparr>"
  obtain rid c1 where n: "next_request_id (c\<lparr>lctx := ctx, request_done := False, request_cancel_requested := False\<rparr>) = (rid, c1)"
    by (metis surj_pair)
  have j1: "unapproved env P c1" by (rule unapproved_next_id [OF _ n]) (use assms(1) in simp)
  define limit where "limit = (case a_runtime c1 of Some rt \<Rightarrow> rt_max_tokens rt | None \<Rightarrow> 4096)"
  obtain t c2 where k: "ask_clock env (c1\<lparr>request_id := rid, request_max_tokens := limit, a_state := AGENT_WAIT_MODEL\<rparr>) = (t, c2)"
    by (metis surj_pair)
  have j2: "unapproved env P c2" by (rule unapproved_clock [OF _ k]) (use j1 in simp)
  then have j3: "unapproved env P (c2\<lparr>t0 := t\<rparr>)" by simp
  define request where "request = \<lparr>rq_id = rid, rq_tools = (a_tools c1 \<noteq> None),
                     rq_system_prompt = Some (build_turn_system_prompt c1),
                     rq_messages = mitems (a_messages c1), rq_is_compaction = False, rq_max_tokens = limit\<rparr>"
  obtain r evs w' where m: "md_request (model_of c) request (world (c2\<lparr>t0 := t\<rparr>)) = ((r, evs), w')"
    by (metis surj_pair)
  have pw: "P w'" by (rule unapproved_request_world [OF assms(1) m]) (use j3 in \<open>simp add: unapproved_def\<close>)
  have "unapproved env P (foldl (on_model_event env) (c2\<lparr>t0 := t, world := w'\<rparr>) evs)"
    using unapproved_model_events [OF unapproved_world [OF j3 pw]] by simp
  moreover have "c' = foldl (on_model_event env) (c2\<lparr>t0 := t, world := w'\<rparr>) evs"
    using assms(2) n k m
    by (simp add: start_model_request_def ctx_def limit_def request_def Let_def)
  ultimately show ?thesis by simp
qed

lemma unapproved_start_compaction:
  assumes "unapproved env P c" and "start_compaction_request env c = (rc, c')"
  shows "unapproved env P c'"
proof -
  obtain rc1 req where p: "context_compaction_prepare all_ok (mitems (a_messages c)) 10 = (rc1, req)" by (metis surj_pair)
  show ?thesis
  proof (cases "rc1 \<noteq> AGENT_OK \<or> cr_count req = 0")
    case True
    with assms p show ?thesis by (auto simp: start_compaction_request_def)
  next
    case False
    obtain rid c2 where n: "next_request_id (c\<lparr>compaction := req, compaction_text := text_clear (compaction_text c),
                 compaction_done := False, compaction_error := False, compaction_active := True\<rparr>) = (rid, c2)"
      by (metis surj_pair)
    have j2: "unapproved env P c2" by (rule unapproved_next_id [OF _ n]) (use assms(1) in simp)
    then have j3: "unapproved env P (c2\<lparr>request_id := rid, a_state := AGENT_WAIT_MODEL\<rparr>)" by simp
    define c1 where "c1 = c\<lparr>compaction := req\<rparr>"
    define c1' where "c1' = c1\<lparr>compaction_text := text_clear (compaction_text c1),
                 compaction_done := False, compaction_error := False, compaction_active := True\<rparr>"
    have n': "next_request_id c1' = (rid, c2)" using n by (simp add: c1'_def c1_def)
    obtain rq evs w' where m: "md_request (model_of c) rq (world (c2\<lparr>request_id := rid, a_state := AGENT_WAIT_MODEL\<rparr>)) = ((rc, evs), w')"
      and c': "c' = (let c3 = foldl on_compaction_event (c2\<lparr>request_id := rid, a_state := AGENT_WAIT_MODEL, world := w'\<rparr>) evs
          in if rc \<noteq> AGENT_OK then c3\<lparr>compaction_active := False, compaction := no_compaction\<rparr> else c3)"
      using assms(2) p n' False unfolding start_compaction_request_def Let_def c1_def [symmetric] c1'_def [symmetric]
      by (auto simp: c1_def [symmetric] c1'_def [symmetric] split: prod.splits if_splits)
    have pw: "P w'" by (rule unapproved_request_world [OF assms(1) m]) (use j3 in \<open>simp add: unapproved_def\<close>)
    from unapproved_compaction_events [OF unapproved_world [OF j3 pw], of evs] c' show ?thesis by (simp add: Let_def)
  qed
qed

lemma unapproved_start_request:
  assumes "unapproved env P c" and "start_request env c = (rc, c')"
  shows "unapproved env P c'"
proof -
  define c0 where "c0 = c\<lparr>request_retries := 0, retry_pending := False\<rparr>"
  have j0: "unapproved env P c0" using assms(1) by (simp add: c0_def)
  show ?thesis
  proof (cases "\<not> skip_compaction_once c0 \<and> needs_compaction env c0")
    case False
    then have "start_model_request env (c0\<lparr>skip_compaction_once := False\<rparr>) = (rc, c')"
      using assms(2) by (auto simp: start_request_def c0_def [symmetric] Let_def)
    from unapproved_start_model_request [OF _ this] j0 show ?thesis by simp
  next
    case True
    obtain rc1 c1 where s: "start_compaction_request env c0 = (rc1, c1)" by (metis surj_pair)
    have j1: "unapproved env P c1" by (rule unapproved_start_compaction [OF j0 s])
    obtain e msgs where k: "context_compact all_ok all_ok (a_messages c1) 10 = (e, msgs)" by (metis surj_pair)
    have "(rc, c') = (if rc1 = AGENT_OK \<and> compaction_active c1 then (AGENT_OK, c1)
                      else start_model_request env (c1\<lparr>a_messages := msgs, skip_compaction_once := False\<rparr>))"
      using assms(2) True s k by (auto simp: start_request_def c0_def [symmetric] Let_def split: if_splits)
    with j1 unapproved_start_model_request [of env P "c1\<lparr>a_messages := msgs, skip_compaction_once := False\<rparr>" rc c']
    show ?thesis by (auto split: if_splits)
  qed
qed

lemma unapproved_finish_compaction [gated]: "unapproved env P c \<Longrightarrow> unapproved env P (finish_compaction env c)"
  by (auto simp: finish_compaction_def persist_compaction_def with_session_def Let_def split: prod.splits)

lemma unapproved_suspend:
  "unapproved env P c \<Longrightarrow> suspend_or_fail (rc, c) = (o1, c') \<Longrightarrow> unapproved env P c'"
  by (auto simp: suspend_or_fail_def fail_turn_def split: if_splits)

section \<open>Tools\<close>

lemma unapproved_append_result:
  "unapproved env P c \<Longrightarrow> append_tool_result env c k r = (rc, c') \<Longrightarrow> unapproved env P c'"
  by (auto simp: append_tool_result_def set_call_def log_message_def with_session_def Let_def split: if_splits)

lemma unapproved_append_rejection:
  "unapproved env P c \<Longrightarrow> append_tool_rejection env c k r = (rc, c') \<Longrightarrow> unapproved env P c'"
  by (auto simp: append_tool_rejection_def dest: unapproved_append_result)

lemma unapproved_enter_tool:
  assumes "unapproved env P c" and "harmless_tool P tool" and "enter_tool tool tc c = ((task, result), c')"
  shows "unapproved env P c' \<and> pred_option (harmless_task P) task"
proof (cases "t_start tool")
  case None
  show ?thesis
  proof (cases "t_execute tool")
    case None2: None
    with None assms show ?thesis by (auto simp: enter_tool_def)
  next
    case (Some f)
    obtain r c1 where r: "run_tool (f (tool_args tc)) c = (r, c1)" by (metis surj_pair)
    have "unapproved env P c1"
      by (rule unapproved_run_tool [OF assms(1) r]) (use assms(2) [unfolded harmless_tool_def] Some in blast)
    with None Some r assms(3) show ?thesis by (auto simp: enter_tool_def split: prod.splits)
  qed
next
  case (Some f)
  obtain rc res tk c1 where r: "run_tool (f (tool_args tc)) c = ((rc, res, tk), c1)" by (metis surj_pair)
  have j1: "unapproved env P c1"
    by (rule unapproved_run_tool [OF assms(1) r]) (use assms(2) [unfolded harmless_tool_def] Some in blast)
  obtain s1 w1 where f: "f (tool_args tc) (a_session c, world c) = ((rc, res, tk), s1, w1)"
    using r by (auto simp: run_tool_def split: prod.splits)
  have pw: "P (snd (a_session c, world c))" using assms(1) by (simp add: unapproved_def)
  have t: "pred_option (harmless_task P) tk"
    using assms(2) [unfolded harmless_tool_def, THEN conjunct2, rule_format, OF Some pw, of "tool_args tc"] f by simp
  show ?thesis
  proof (cases tk)
    case None
    with Some r assms(3) j1 show ?thesis by (auto simp: enter_tool_def)
  next
    case (Some t1)
    with t have "harmless_task P t1" by simp
    with unapproved_destroy_hook [OF j1] \<open>t_start tool = Some f\<close> Some r assms(3) j1 show ?thesis
      by (auto simp: enter_tool_def split: if_splits)
  qed
qed

lemma find_tool_registered: "unapproved env P c \<Longrightarrow> find_tool c tc = Some t \<Longrightarrow>
    harmless_preview P t \<and> (approval_required t \<or> harmless_tool P t) \<and> \<not> (approval_required t \<and> parallel_safe t)"
  by (auto simp: find_tool_def unapproved_def harmless_def guarded_registry_def
      dest: find_Some_registered split: option.splits)

lemma unapproved_start_tool:
  assumes "unapproved env P c" and "\<And>t. find_tool c (call_at c k) = Some t \<Longrightarrow> \<not> approval_required t"
    and "start_tool_call env c k = (rc, pending, c')"
  shows "unapproved env P c'"
proof (cases "find_tool c (call_at c k)")
  case None
  with assms show ?thesis
    by (auto simp: start_tool_call_def dest: unapproved_append_result split: prod.splits)
next
  case (Some t)
  obtain task res c1 where e: "enter_tool t (call_at c k) c = ((task, res), c1)" by (metis surj_pair)
  have "harmless_tool P t" using find_tool_registered [OF assms(1) Some] assms(2) [OF Some] by blast
  from unapproved_enter_tool [OF assms(1) this e] have j: "unapproved env P c1" "pred_option (harmless_task P) task"
    by auto
  then have "unapproved env P (c1\<lparr>tool_task := task\<rparr>)" by (rule unapproved_tool_task)
  with j Some e assms(3) show ?thesis
    by (cases task) (auto simp: start_tool_call_def dest: unapproved_append_result split: prod.splits)
qed

lemma unapproved_poll_tool:
  assumes "unapproved env P c" and "poll_tool_call env c k = (rc, dn, c')"
  shows "unapproved env P c'"
proof (cases "tool_task c")
  case None
  with assms show ?thesis by (simp add: poll_tool_call_def)
next
  case (Some t)
  have h: "harmless_task P t" using assms(1) Some by (simp add: unapproved_def)
  obtain rc1 res td c1 where p: "poll_task t c = ((rc1, res, td), c1)" by (metis surj_pair)
  have j1: "unapproved env P c1" by (rule unapproved_poll [OF assms(1) h p])
  have "unapproved env P ((run_hook (tk_destroy t) c1)\<lparr>tool_task := None\<rparr>)"
    using unapproved_destroy_hook [OF j1 h] by (rule unapproved_tool_task) simp
  with j1 Some p assms(2) show ?thesis
    by (auto simp: poll_tool_call_def Let_def dest: unapproved_append_result [rotated] split: if_splits prod.splits)
qed

lemma unapproved_preview:
  "unapproved env P c \<Longrightarrow> harmless_preview P t \<Longrightarrow> build_tool_preview t tc c = (p, c') \<Longrightarrow> unapproved env P c'"
  by (auto simp: build_tool_preview_def harmless_preview_def split: option.splits prod.splits elim!: unapproved_run_tool)

section \<open>Batches and cancellation\<close>

text \<open>The conversation, the tools and the cursor do not move while a batch is started.\<close>

lemma find_tool_steady: "steady c c' \<Longrightarrow> find_tool c' (call_at c' i) = find_tool c (call_at c i)"
  by (simp add: find_tool_def call_at_def steady_def)

lemma unapproved_start_one:
  assumes "unapproved env P c" and "find_tool c (call_at c i) = Some t" and "parallel_safe t"
    and "start_parallel_one c i = (call, c')"
  shows "unapproved env P c' \<and> pred_option (harmless_task P) (pc_task call)"
proof -
  have h: "harmless_tool P t" using find_tool_registered [OF assms(1,2)] assms(3) by blast
  obtain task res c2 where e: "enter_tool t (call_at c i) (emit (tool_start_event (call_at c i)) c) = ((task, res), c2)"
    by (metis surj_pair)
  from unapproved_enter_tool [OF unapproved_emit [OF assms(1)] h e] assms(2,4) e show ?thesis
    by (cases task) (auto simp: start_parallel_one_def)
qed

lemma unapproved_start_calls:
  assumes "unapproved env P c" and "start_parallel_calls is c = (calls, c')"
    and "\<forall>i\<in>set is. \<exists>t. find_tool c (call_at c i) = Some t \<and> parallel_safe t"
  shows "unapproved env P c' \<and> (\<forall>call\<in>set calls. pred_option (harmless_task P) (pc_task call))"
  using assms
proof (induction "is" arbitrary: c c' calls)
  case (Cons i is1)
  obtain call c1 where o: "start_parallel_one c i = (call, c1)" by (metis surj_pair)
  obtain calls1 c2 where r: "start_parallel_calls is1 c1 = (calls1, c2)" by (metis surj_pair)
  obtain t where t: "find_tool c (call_at c i) = Some t" "parallel_safe t" using Cons.prems(3) by auto
  note j1 = unapproved_start_one [OF Cons.prems(1) t o]
  have st: "steady c c1" using start_parallel_one_effect [OF o] by (simp add: quiet_steady)
  have "\<forall>i\<in>set is1. \<exists>t. find_tool c1 (call_at c1 i) = Some t \<and> parallel_safe t"
    using Cons.prems(3) find_tool_steady [OF st] by simp
  with Cons.IH [OF _ r] j1 Cons.prems(2) o r show ?case by auto
qed simp

lemma unapproved_start_batch:
  assumes "unapproved env P c" and "parallel_batch_eligible c (mitems (a_messages c) ! tool_message_index c)"
  shows "unapproved env P (start_parallel_tools c)"
proof -
  obtain calls c1 where s: "start_parallel_calls [0..<calls_len c] c = (calls, c1)" by (metis surj_pair)
  have "\<forall>i\<in>set [0..<calls_len c]. \<exists>t. find_tool c (call_at c i) = Some t \<and> parallel_safe t"
    using assms(2) by (force simp: parallel_batch_eligible_def calls_len_def call_at_def split: option.splits)
  from unapproved_start_calls [OF assms(1) s this] s show ?thesis
    by (simp add: start_parallel_tools_def unapproved_parallel)
qed

lemma unapproved_poll_one:
  assumes "unapproved env P c" and "pred_option (harmless_task P) (pc_task call)"
    and "poll_parallel_one call c = (call', c')"
  shows "unapproved env P c' \<and> pred_option (harmless_task P) (pc_task call')"
proof (cases "pc_task call")
  case (Some t)
  obtain rc res td c1 where p: "poll_task t c = ((rc, res, td), c1)" by (metis surj_pair)
  from assms(2) Some have h: "harmless_task P t" by simp
  from unapproved_poll [OF assms(1) h p] have "unapproved env P c1" .
  with unapproved_destroy_hook [OF this h] Some p assms show ?thesis
    by (auto simp: poll_parallel_one_def split: if_splits)
qed (use assms in \<open>auto simp: poll_parallel_one_def\<close>)

lemma unapproved_poll_calls:
  assumes "unapproved env P c" and "\<forall>call\<in>set calls. pred_option (harmless_task P) (pc_task call)"
    and "poll_parallel_calls calls c = (calls', c')"
  shows "unapproved env P c' \<and> (\<forall>call\<in>set calls'. pred_option (harmless_task P) (pc_task call))"
  using assms
proof (induction calls arbitrary: c c' calls')
  case (Cons call calls)
  obtain call1 c1 where o: "poll_parallel_one call c = (call1, c1)" by (metis surj_pair)
  obtain calls1 c2 where r: "poll_parallel_calls calls c1 = (calls1, c2)" by (metis surj_pair)
  have "pred_option (harmless_task P) (pc_task call)" using Cons.prems(2) by simp
  note j1 = unapproved_poll_one [OF Cons.prems(1) this o]
  with Cons.IH [OF _ _ r] Cons.prems o r show ?case by auto
qed simp

lemma unapproved_append_results:
  "unapproved env P c \<Longrightarrow> append_parallel_results env calls c = (rc, c') \<Longrightarrow> unapproved env P c'"
proof (induction calls arbitrary: c)
  case (Cons call calls)
  obtain rc1 c1 where a: "append_tool_result env c (pc_tool_index call) (pc_result call) = (rc1, c1)"
    by (metis surj_pair)
  note j = unapproved_append_result [OF Cons.prems(1) a]
  with Cons.IH [OF unapproved_emit [OF j]] Cons.prems(2) a show ?case
    by (auto simp: Let_def split: if_splits)
qed simp

lemma unapproved_poll_batch:
  assumes "unapproved env P c" and "poll_parallel_tools env c = (rc, dn, c')"
  shows "unapproved env P c'"
proof -
  obtain calls c1 where p: "poll_parallel_calls (parallel_tools c) c = (calls, c1)" by (metis surj_pair)
  have t: "\<forall>call\<in>set (parallel_tools c). pred_option (harmless_task P) (pc_task call)"
    using assms(1) by (simp add: unapproved_def)
  have j: "unapproved env P (c1\<lparr>parallel_tools := calls\<rparr>)"
    using unapproved_poll_calls [OF assms(1) t p] by (simp add: unapproved_parallel)
  obtain rc1 c3 where a: "append_parallel_results env calls (c1\<lparr>parallel_tools := calls\<rparr>) = (rc1, c3)"
    by (metis surj_pair)
  from unapproved_append_results [OF j a] j p a assms(2) show ?thesis
    by (auto simp: poll_parallel_tools_def Let_def split: if_splits)
qed

lemma unapproved_free [gated]:
  assumes "unapproved env P c"
  shows "unapproved env P (parallel_tools_free c)"
proof -
  have "unapproved env P (foldl (\<lambda>c call. case pc_task call of None \<Rightarrow> c
      | Some t \<Rightarrow> run_hook (tk_destroy t) (run_hook (tk_cancel t) c)) c (parallel_tools c))"
  proof (rule foldl_invariant [where I = "unapproved env P", OF assms])
    fix d call assume d: "unapproved env P d" and "call \<in> set (parallel_tools c)"
    with assms have "pred_option (harmless_task P) (pc_task call)" by (simp add: unapproved_def)
    with d show "unapproved env P (case pc_task call of None \<Rightarrow> d
        | Some t \<Rightarrow> run_hook (tk_destroy t) (run_hook (tk_cancel t) d))"
      by (cases "pc_task call") (auto intro: unapproved_destroy_hook unapproved_cancel_hook)
  qed
  then show ?thesis unfolding parallel_tools_free_def by (rule unapproved_parallel) simp
qed

lemma unapproved_cancel_calls:
  assumes "unapproved env P c" and "\<forall>call\<in>set calls. pred_option (harmless_task P) (pc_task call)"
    and "cancel_parallel_calls calls c = (calls', c')"
  shows "unapproved env P c' \<and> (\<forall>call\<in>set calls'. pred_option (harmless_task P) (pc_task call))"
  using assms
proof (induction calls arbitrary: c c' calls')
  case (Cons call calls)
  define r where "r = (case pc_task call of
            Some t \<Rightarrow> if \<not> pc_cancel_requested call \<and> tk_cancel t \<noteq> None
                      then (call\<lparr>pc_cancel_requested := True\<rparr>, run_hook (tk_cancel t) c) else (call, c)
          | None \<Rightarrow> (call, c))"
  have j: "unapproved env P (snd r) \<and> pred_option (harmless_task P) (pc_task (fst r))"
  proof (cases "pc_task call")
    case (Some t)
    with Cons.prems(2) have "harmless_task P t" by simp
    with Some Cons.prems(1) unapproved_cancel_hook [OF Cons.prems(1) this] show ?thesis by (simp add: r_def)
  qed (use Cons.prems(1) in \<open>simp add: r_def\<close>)
  obtain calls1 c2 where k: "cancel_parallel_calls calls (snd r) = (calls1, c2)" by (metis surj_pair)
  have "calls' = fst r # calls1" "c' = c2"
    using Cons.prems(3) k by (auto simp: r_def [symmetric] split: prod.splits)
  with Cons.IH [OF _ _ k] j Cons.prems(2) show ?case by auto
qed simp

lemma unapproved_reap_calls:
  assumes "unapproved env P c" and "\<forall>call\<in>set calls. pred_option (harmless_task P) (pc_task call)"
    and "reap_parallel_calls calls c = (busy, calls', c')"
  shows "unapproved env P c' \<and> (\<forall>call\<in>set calls'. pred_option (harmless_task P) (pc_task call))"
  using assms
proof (induction calls arbitrary: c c' busy calls')
  case (Cons call calls)
  show ?case
  proof (cases "pc_task call")
    case None
    with Cons show ?thesis by (auto split: prod.splits)
  next
    case (Some t)
    obtain rc res td c1 where p: "poll_task t c = ((rc, res, td), c1)" by (metis surj_pair)
    from Cons.prems(2) Some have h: "harmless_task P t" by simp
    note j1 = unapproved_poll [OF Cons.prems(1) h p]
    obtain b1 calls1 c2 where r: "reap_parallel_calls calls (run_hook (tk_destroy t) c1) = (b1, calls1, c2)"
      by (metis surj_pair)
    from Cons.IH [OF unapproved_destroy_hook [OF j1 h] _ r] j1 Cons.prems(2,3) Some p r show ?thesis
      by (auto split: if_splits)
  qed
qed simp

lemma unapproved_cancel_request [gated]:
  assumes "unapproved env P c"
  shows "unapproved env P (cancel_model_request env c)"
proof (cases "a_model c")
  case (Some m)
  show ?thesis
  proof (cases "md_cancel m")
    case (Some f)
    obtain evs w' where f: "f (request_id c) (world c) = (evs, w')" by (cases "f (request_id c) (world c)")
    have "harmless_model P m" "P (world c)" using assms \<open>a_model c = Some m\<close> by (auto simp: unapproved_def harmless_def)
    with Some f have pw: "P w'" unfolding harmless_model_def by (metis snd_conv)
    have "unapproved env P (c\<lparr>request_cancel_requested := True\<rparr>)" using assms by simp
    from unapproved_deliver [OF unapproved_world [OF this pw]] show ?thesis
      using assms \<open>a_model c = Some m\<close> Some f by (simp add: cancel_model_request_def)
  qed (use assms Some in \<open>simp add: cancel_model_request_def\<close>)
qed (use assms in \<open>simp add: cancel_model_request_def\<close>)

lemma unapproved_cancel_task:
  assumes "unapproved env P c" and "cancel_tool_task c = (busy, c')"
  shows "unapproved env P c'"
proof (cases "tool_task c")
  case (Some t)
  with assms(1) have h: "harmless_task P t" by (simp add: unapproved_def)
  define c1 where "c1 = (if \<not> tool_cancel_requested c \<and> tk_cancel t \<noteq> None
                     then (run_hook (tk_cancel t) c)\<lparr>tool_cancel_requested := True\<rparr> else c)"
  have j1: "unapproved env P c1" using assms(1) unapproved_cancel_hook [OF assms(1) h] by (simp add: c1_def)
  obtain rc res td c2 where p: "poll_task t c1 = ((rc, res, td), c2)" by (metis surj_pair)
  note j2 = unapproved_poll [OF j1 h p]
  have j3: "unapproved env P ((run_hook (tk_destroy t) c2)\<lparr>tool_task := None\<rparr>)"
    using unapproved_destroy_hook [OF j2 h] by (rule unapproved_tool_task) simp
  have "cancel_tool_task c = (if \<not> td \<and> rc = AGENT_OK then (True, c2)
              else (False, (run_hook (tk_destroy t) c2)\<lparr>tool_task := None, tool_cancel_requested := False\<rparr>))"
    unfolding cancel_tool_task_def Some option.case Let_def c1_def [symmetric] p prod.case by (rule refl)
  with assms(2) have "c' = (if \<not> td \<and> rc = AGENT_OK then c2
              else (run_hook (tk_destroy t) c2)\<lparr>tool_task := None, tool_cancel_requested := False\<rparr>)"
    by (auto split: if_splits)
  with j2 j3 show ?thesis by simp
qed (use assms in \<open>simp add: cancel_tool_task_def\<close>)

lemma unapproved_cancel_step:
  assumes "unapproved env P c" and "cancel_step env c = (o1, c')"
  shows "unapproved env P c'"
proof -
  define pending where "pending = (a_state c = AGENT_WAIT_MODEL \<and> model_pending c)"
  define c1 where "c1 = (if pending then cancel_model_request env c else c)"
  define c2 where "c2 = (if compaction_active c1
                   then c1\<lparr>compaction := no_compaction, compaction_text := text_clear (compaction_text c1),
                           compaction_active := False\<rparr>
                   else c1)"
  obtain tb c3 where t: "cancel_tool_task c2 = (tb, c3)" by (metis surj_pair)
  obtain calls c4 where k: "cancel_parallel_calls (parallel_tools c3) c3 = (calls, c4)" by (metis surj_pair)
  obtain busy calls' c5 where r: "reap_parallel_calls calls c4 = (busy, calls', c5)" by (metis surj_pair)
  define c6 where "c6 = c5\<lparr>parallel_tools := calls'\<rparr>"
  have eq: "cancel_step env c =
     (if pending \<and> model_pending c1 then (Some AGENT_STEP_BUSY, c1)
      else if tb then (Some AGENT_STEP_BUSY, c3)
      else if busy then (Some AGENT_STEP_BUSY, c6)
      else (Some AGENT_STEP_CANCELLED,
                  (parallel_tools_free c6)\<lparr>a_state := AGENT_CANCELLED, in_turn := False\<rparr>))"
    unfolding cancel_step_def Let_def pending_def [symmetric] c1_def [symmetric] c2_def [symmetric] t k r
      prod.case c6_def [symmetric] by (rule refl)
  have j1: "unapproved env P c1" using assms(1) by (simp add: c1_def gated)
  have j2: "unapproved env P c2" using j1 by (simp add: c2_def)
  note j3 = unapproved_cancel_task [OF j2 t]
  have "\<forall>call\<in>set (parallel_tools c3). pred_option (harmless_task P) (pc_task call)"
    using j3 by (simp add: unapproved_def)
  note j4 = unapproved_cancel_calls [OF j3 this k]
  note j5 = unapproved_reap_calls [OF conjunct1 [OF j4] conjunct2 [OF j4] r]
  have j6: "unapproved env P c6" using j5 by (simp add: c6_def unapproved_parallel)
  have j7: "unapproved env P (parallel_tools_free c6)" by (rule unapproved_free [OF j6])
  from assms(2) eq j1 j3 j6 j7 show ?thesis by (auto split: if_splits)
qed

section \<open>The passes\<close>

lemma unapproved_fail: "unapproved env P c \<Longrightarrow> fail_turn c = (o1, c') \<Longrightarrow> unapproved env P c'"
  by (auto simp: fail_turn_def)

lemma unapproved_wait_model_error:
  assumes "unapproved env P c" and "wait_model_error env c = (o1, c')"
  shows "unapproved env P c'"
proof -
  have report: "unapproved env P c'" if "report_model_error d = (o1, c')" "unapproved env P d" for d
    using that by (auto simp: report_model_error_def intro: unapproved_fail unapproved_emit)
  show ?thesis
  proof (cases "retry_pending c")
    case True
    obtain el c1 where r: "retry_delay_elapsed env c = (el, c1)" by (metis surj_pair)
    have j1: "unapproved env P c1"
      using r unapproved_clock [OF assms(1)] by (auto simp: retry_delay_elapsed_def Let_def split: prod.splits)
    obtain rc c2 where s: "start_model_request env (c1\<lparr>retry_pending := False\<rparr>) = (rc, c2)" by (metis surj_pair)
    have j2: "unapproved env P c2" by (rule unapproved_start_model_request [OF _ s]) (use j1 in simp)
    from True r s j1 j2 assms(2) show ?thesis
      by (auto simp: wait_model_error_def split: if_splits dest: report)
  next
    case False
    obtain t c1 where k: "ask_clock env (c\<lparr>request_retries := request_retries c + 1\<rparr>) = (t, c1)" by (metis surj_pair)
    have j1: "unapproved env P c1" by (rule unapproved_clock [OF _ k]) (use assms(1) in simp)
    have "unapproved env P (schedule_retry_delay env (c\<lparr>request_retries := request_retries c + 1\<rparr>))"
      using k j1 by (auto simp: schedule_retry_delay_def Let_def split: prod.splits)
    with False assms show ?thesis
      by (auto simp: wait_model_error_def Let_def split: if_splits intro: report unapproved_emit)
  qed
qed

lemma unapproved_wait_user:
  assumes "unapproved env P c" and "wait_user_step env c = (o1, c')"
  shows "unapproved env P c'"
proof -
  define why where "why = (if approval_granted c \<and>
                     (tool_index c \<noteq> approval_tool_index c \<or> \<not> approval_matches env c (call_at c (tool_index c)))
                   then ''error: approval is stale; tool call changed''
                   else ''error: tool execution denied by user'')"
  obtain rc c1 where a: "append_tool_rejection env c (tool_index c) why = (rc, c1)" by (metis surj_pair)
  have j1: "unapproved env P c1" by (rule unapproved_append_rejection [OF assms(1) a])
  define c2 where "c2 = emit (tool_end_event (call_at c1 (tool_index c1)) True) c1"
  define c3 where "c3 = c2\<lparr>tool_index := tool_index c2 + 1, approval_pending := False, approval_decided := False,
                         approval_granted := False, approval_digest_valid := False, a_state := AGENT_WAIT_TOOL\<rparr>"
  have j3: "unapproved env P c3"
    using unapproved_no_grant [of env P "c2\<lparr>tool_index := tool_index c2 + 1, approval_pending := False, approval_decided := False\<rparr>"]
      j1 by (simp add: c3_def c2_def unapproved_emit)
  have "wait_user_step env c =
     (if \<not> approval_pending c \<or> \<not> approval_decided c then (Some AGENT_STEP_BUSY, c)
      else if \<not> approval_granted c \<or> approval_granted c \<and>
         (tool_index c \<noteq> approval_tool_index c \<or> \<not> approval_matches env c (call_at c (tool_index c)))
      then (if rc \<noteq> AGENT_OK then fail_turn c1 else (None, c3))
      else (None, c\<lparr>approval_pending := False, approval_decided := False, approval_digest_valid := False,
                    a_state := AGENT_WAIT_TOOL\<rparr>))"
    unfolding wait_user_step_def Let_def why_def [symmetric] a prod.case c2_def [symmetric] c3_def [symmetric]
    by (rule refl)
  with assms j1 j3 show ?thesis by (auto simp: fail_turn_def split: if_splits)
qed

lemma unapproved_wait_model_complete:
  assumes "unapproved env P c0" and "wait_model_complete env c0 = (o1, c')"
  shows "unapproved env P c'"
proof -
  define am where "am = assistant_message c0"
  define c where "c = c0\<lparr>output_continuation_active := False,
                 output_limit_continuations := (if \<not> request_hit_output_limit c0 then 0 else output_limit_continuations c0),
                 lctx := (lctx c0)\<lparr>lc_text := None, lc_reasoning := None, lc_tool_calls := []\<rparr>,
                 a_messages := history_append (a_messages c0) am\<rparr>"
  define c1 where "c1 = log_message env am c"
  have j1: "unapproved env P c1" using assms(1) by (simp add: c1_def c_def gated)
  have susp: "unapproved env P c'" if "suspend_or_fail (start_request env d) = (o1, c')" "unapproved env P d" for d
  proof -
    obtain rc d' where s: "start_request env d = (rc, d')" by (metis surj_pair)
    from unapproved_suspend [OF unapproved_start_request [OF that(2) s]] that(1) s show ?thesis by simp
  qed
  have fail: "unapproved env P c'" if "fail_turn (emit ev d) = (o1, c')" "unapproved env P d" for ev d
    using that by (auto intro: unapproved_fail unapproved_emit)
  show ?thesis
    using assms(2) j1 unfolding wait_model_complete_def Let_def am_def [symmetric] c_def [symmetric] c1_def [symmetric]
    by (auto split: if_splits intro: susp fail dest: unapproved_wait_user [rotated] simp: gated with_session_def)
qed

lemma unapproved_wait_model:
  "unapproved env P c \<Longrightarrow> wait_model_step env c = (o1, c') \<Longrightarrow> unapproved env P c'"
  by (auto simp: wait_model_step_def gated split: if_splits
      intro: unapproved_wait_model_error unapproved_wait_model_complete)

lemma unapproved_after_tool: "unapproved env P c \<Longrightarrow> after_tool c = (o1, c') \<Longrightarrow> unapproved env P c'"
  by (auto simp: after_tool_def Let_def gated)

lemma unapproved_run_serial:
  assumes "unapproved env P c" and "\<And>t. find_tool c (call_at c (tool_index c)) = Some t \<Longrightarrow> \<not> approval_required t"
    and "run_serial_tool env c = (o1, c')"
  shows "unapproved env P c'"
proof -
  define c0 where "c0 = emit (tool_start_event (call_at c (tool_index c))) c"
  have st: "steady c c0" unfolding c0_def by (rule quiet_steady [OF emit_quiet])
  obtain rc pd c1 where s: "start_tool_call env c0 (tool_index c) = (rc, pd, c1)" by (metis surj_pair)
  have "unapproved env P c1"
    by (rule unapproved_start_tool [OF _ _ s])
       (use assms(1,2) find_tool_steady [OF st] in \<open>auto simp: c0_def gated\<close>)
  with assms(3) s show ?thesis
    by (auto simp: run_serial_tool_def c0_def [symmetric] fail_turn_def split: if_splits dest: unapproved_after_tool)
qed

lemma unapproved_ask_approval [gated]:
  assumes "unapproved env P c"
  shows "unapproved env P (ask_approval_cb ev c)"
proof (cases "a_approval_cb c")
  case (Some cb)
  show ?thesis
  proof (cases "approval_decided c")
    case False
    obtain granted calls w' where cb: "cb ev (world c) = ((granted, calls), w')" by (metis surj_pair)
    have h: "P w'" "approval_host_missing c \<or> \<not> granted \<and> no_grant calls"
      using assms Some cb unfolding unapproved_defs by (metis fst_conv snd_conv)+
    define c1 where "c1 = foldl do_host_call (c\<lparr>approval_decided := True, world := w'\<rparr>) calls"
    have j0: "unapproved env P (c\<lparr>approval_decided := True, world := w'\<rparr>)"
      using unapproved_world [of env P "c\<lparr>approval_decided := True\<rparr>" w'] assms h(1) by simp
    have j1: "unapproved env P c1" unfolding c1_def
      by (rule unapproved_host_calls [OF j0]) (use h(2) in \<open>auto simp: approval_host_missing_def\<close>)
    have "steady (c\<lparr>approval_decided := True, world := w'\<rparr>) c1" unfolding c1_def by (rule quiet_steady [OF host_calls_quiet])
    then have m: "approval_host_missing c1 = approval_host_missing c"
      by (simp add: steady_def approval_host_missing_def)
    have "unapproved env P (c1\<lparr>approval_granted := granted\<rparr>)"
    proof (cases granted)
      case True
      with j1 h(2) m show ?thesis by (simp add: unapproved_defs)
    next
      case False
      with unapproved_no_grant [OF j1] show ?thesis by simp
    qed
    with Some False cb show ?thesis by (simp add: ask_approval_cb_def c1_def)
  qed (use assms Some in \<open>simp add: ask_approval_cb_def\<close>)
qed (use assms in \<open>simp add: ask_approval_cb_def\<close>)

lemma unapproved_request_approval:
  assumes "unapproved env P c" and "harmless_preview P t" and "request_approval env t c = (o1, c')"
  shows "unapproved env P c'"
proof -
  define c1 where "c1 = c\<lparr>approval_pending := True, approval_decided := False, approval_tool_index := tool_index c,
                 approval_digest_valid := (approval_digest env (call_at c (tool_index c)) \<noteq> None),
                 approval_stored_digest := (case approval_digest env (call_at c (tool_index c)) of
                    Some d \<Rightarrow> d | None \<Rightarrow> approval_stored_digest c),
                 a_state := AGENT_WAIT_USER\<rparr>"
  obtain pv c2 where b: "build_tool_preview t (call_at c (tool_index c)) c1 = (pv, c2)" by (metis surj_pair)
  have "unapproved env P c1" using assms(1) by (simp add: c1_def)
  from unapproved_preview [OF this assms(2) b] have "unapproved env P (ask_approval_cb ev (emit ev c2))" for ev
    by (simp add: gated)
  with assms(3) show ?thesis
    unfolding request_approval_def Let_def c1_def [symmetric] b prod.case by auto
qed

lemma unapproved_begin_serial:
  assumes "unapproved env P c" and "begin_serial_tool env c = (o1, c')"
  shows "unapproved env P c'"
proof (cases "find_tool c (call_at c (tool_index c))")
  case None
  with assms show ?thesis by (auto simp: begin_serial_tool_def intro: unapproved_run_serial)
next
  case (Some t)
  show ?thesis
  proof (cases "approval_required t")
    case False
    with Some assms show ?thesis by (auto simp: begin_serial_tool_def intro: unapproved_run_serial)
  next
    case guarded: True
    have pv: "harmless_preview P t" using find_tool_registered [OF assms(1) Some] by blast
    show ?thesis
    proof (cases "approval_host_missing c")
      case True
      obtain rc c1 where a: "append_tool_rejection env c (tool_index c)
                 ''error: side-effecting tool denied; no approval host is available'' = (rc, c1)" by (metis surj_pair)
      have "unapproved env P c1" by (rule unapproved_append_rejection [OF assms(1) a])
      with Some guarded True a assms(2) show ?thesis
        by (auto simp: begin_serial_tool_def Let_def fail_turn_def gated split: if_splits)
    next
      case False
      with assms(1) have "\<not> agent_session_trusted c \<and> \<not> approval_granted c"
        by (simp add: unapproved_def denying_host_def agent_session_trusted_def)
      with Some guarded False assms(2) have "request_approval env t c = (o1, c')" by (simp add: begin_serial_tool_def)
      from unapproved_request_approval [OF assms(1) pv this] show ?thesis .
    qed
  qed
qed

lemma unapproved_wait_tool:
  assumes "unapproved env P c0" and "wait_tool_step env c0 = (o1, c')"
  shows "unapproved env P c'"
proof -
  define c where "c = (if parallel_tools c0 = [] \<and> tool_index c0 = 0 \<and>
      parallel_batch_eligible c0 (mitems (a_messages c0) ! tool_message_index c0) then start_parallel_tools c0 else c0)"
  have j: "unapproved env P c" using assms(1) by (simp add: c_def unapproved_start_batch)
  obtain rc dn c1 where p: "poll_parallel_tools env c = (rc, dn, c1)" by (metis surj_pair)
  have jp: "unapproved env P c1" by (rule unapproved_poll_batch [OF j p])
  obtain rc2 dn2 c2 where q: "poll_tool_call env c (tool_index c) = (rc2, dn2, c2)" by (metis surj_pair)
  have jq: "unapproved env P c2" by (rule unapproved_poll_tool [OF j q])
  obtain rc3 c3 where r: "start_request env c = (rc3, c3)" by (metis surj_pair)
  have jr: "unapproved env P c3" by (rule unapproved_start_request [OF j r])
  have free: "unapproved env P (parallel_tools_free c1)"
    "unapproved env P (parallel_tools_free (c1\<lparr>tool_index := calls_len c1\<rparr>))" using jp by (simp_all add: gated)
  show ?thesis
    using assms(2) jp jq unfolding wait_tool_step_def Let_def c_def [symmetric] p q r prod.case
    by (auto split: if_splits dest: unapproved_begin_serial [OF j] unapproved_after_tool [OF jq]
        unapproved_suspend [OF jr] simp: fail_turn_def free)
qed

lemma unapproved_resume_iter:
  assumes "unapproved env P c" and "resume_iter env c = (o1, c')"
  shows "unapproved env P c'"
proof -
  obtain rc1 c1 where r: "start_request env c = (rc1, c1)" by (metis surj_pair)
  have jr: "unapproved env P c1" by (rule unapproved_start_request [OF assms(1) r])
  show ?thesis
    using assms unfolding resume_iter_def r
    by (auto split: if_splits agent_state.splits intro: unapproved_cancel_step unapproved_wait_model
        unapproved_wait_user unapproved_wait_tool unapproved_suspend [OF jr])
qed

section \<open>No effect without approval\<close>

lemma unapproved_resume:
  assumes "history_ok c" and "unapproved env P c" and "agent_resume env c = Some (r, c')"
  shows "unapproved env P c'"
  using agent_loop.result_of_pass [where J = "unapproved env P", OF assms(1,3,2)] unapproved_resume_iter by blast

lemma unapproved_begin_turn:
  assumes "unapproved env P c"
  shows "unapproved env P (begin_turn env txt c)"
proof -
  define c1 where "c1 = (if a_state c = AGENT_CANCELLED then c\<lparr>a_cancel := (a_cancel c)\<lparr>ct_cancelled := False\<rparr>\<rparr> else c)"
  define um where "um = (message_new MSG_USER)\<lparr>m_content := Some txt\<rparr>"
  define c2 where "c2 = log_message env um c1"
  have j: "unapproved env P c2" using assms by (simp add: c2_def c1_def gated)
  define c3 where "c3 = c2\<lparr>a_messages := history_append (a_messages c2) um, in_turn := True,
         output_limit_continuations := 0, output_continuation_active := False, request_retries := 0,
         retry_pending := False, approval_pending := False, approval_decided := False\<rparr>"
  have "unapproved env P c3" using j by (simp add: c3_def)
  then have "unapproved env P (c3\<lparr>approval_granted := False, a_state := AGENT_READY\<rparr>)"
    using unapproved_no_grant by simp
  then show ?thesis
    by (simp add: begin_turn_def Let_def c1_def [symmetric] um_def [symmetric] c2_def [symmetric] c3_def)
qed

lemma unapproved_host_step:
  assumes "host_step env H W c c'" and "history_ok c" and "unapproved env P c"
    and "\<forall>h. H h \<longrightarrow> h \<noteq> Approve True \<and> h \<noteq> Trust True" and "\<forall>w w'. W w w' \<longrightarrow> P w \<longrightarrow> P w'"
  shows "unapproved env P c'"
  using assms(1)
proof (cases rule: host_step.cases)
  case (Start inp e)
  show ?thesis
  proof (cases "a_model c = None")
    case True
    with Start assms(3) show ?thesis by (simp add: agent_start_def)
  next
    case False
    from Start assms(2) have "at_rest c" by (simp add: at_rest_def)
    from history_ok_begin at_rest_fields [OF this] have h: "history_ok (begin_turn env inp c)" by blast
    from resume_returns [OF h] obtain r d where "agent_resume env (begin_turn env inp c) = Some (r, d)" by blast
    with unapproved_resume [OF h unapproved_begin_turn [OF assms(3)] this] Start(2) False show ?thesis
      by (simp add: agent_start_def)
  qed
next
  case Resume
  with unapproved_resume [OF assms(2,3)] show ?thesis by blast
next
  case Events
  with unapproved_deliver [OF assms(3)] show ?thesis by simp
next
  case (World w)
  with unapproved_world [OF assms(3)] assms(3,5) show ?thesis by (auto simp: unapproved_def)
next
  case (Call h)
  with unapproved_host_call [OF assms(3)] assms(4) show ?thesis by blast
qed

text \<open>C1: a tool that requires approval has no effect without one. Let \<open>P\<close> hold of the world and let
  everything but those tools preserve it. Then as long as the approval host is missing (which is
  how every child agent runs) or denies, and nobody approves or trusts the session from outside, \<open>P\<close>
  holds in every state the agent can reach, whatever tool calls the model makes.\<close>

theorem no_effect_without_approval:
  assumes "at_rest c" and "unapproved env P c" and "(host_step env H W)\<^sup>*\<^sup>* c c'"
    and "\<forall>h. H h \<longrightarrow> h \<noteq> Approve True \<and> h \<noteq> Trust True" and "\<forall>w w'. W w w' \<longrightarrow> P w \<longrightarrow> P w'"
  shows "P (world c')"
proof -
  from assms(3) have "history_ok c' \<and> unapproved env P c'"
  proof induction
    case base
    with assms(1,2) show ?case by (simp add: at_rest_def)
  next
    case (step d d')
    with host_step_history_ok unapproved_host_step [OF step.hyps(2) _ _ assms(4,5)] show ?case by blast
  qed
  then show ?thesis by (simp add: unapproved_def)
qed

text \<open>A model that asks for the guarded tool \<open>erase\<close> at once; the world records whether it ran.\<close>

definition erase_tool :: "(session option \<times> bool) tool" where
  "erase_tool = \<lparr>t_name = ''erase'', t_description = [], t_input_schema = ''{}'',
     t_flags = TOOL_FLAG_APPROVAL_REQUIRED, t_preview = None,
     t_execute = Some (\<lambda>_ (s, _). ((AGENT_OK, \<lparr>tr_content = Some ''erased'', tr_is_error = False\<rparr>), (s, True))),
     t_start = None\<rparr>"

definition eager_model :: "bool model" where
  "eager_model = \<lparr>md_request = (\<lambda>rq w. ((AGENT_OK,
       map (\<lambda>b. \<lparr>me_request_id = rq_id rq, me_body = b\<rparr>)
         [Tool_Call_Start 0 (Some ''c1'') (Some ''erase''), Done_Event MODEL_STOP_TOOL_CALLS]), w)),
     md_cancel = None, md_context_window = 0, md_max_output = 0\<rparr>"

definition erase_agent :: "bool agent" where
  "erase_agent = (fst (agent_new 1 None None))
     \<lparr>a_model := Some eager_model,
      a_tools := Some \<lparr>r_tools = [erase_tool], r_enabled = [True], r_cap = 8\<rparr>,
      a_event_cb := Some (\<lambda>_ w. ([], w)), a_approval_available := True,
      a_approval_cb := Some (\<lambda>_ w. ((False, []), w))\<rparr>"

lemma erase_agent_rest: "at_rest (loop_state erase_agent False)"
  by (simp add: at_rest_def history_ok_def loop_state_def erase_agent_def agent_new_def agent.extend_def loop.fields_def
      tool_grouped_def Let_def)

lemma erase_agent_unapproved: "unapproved still_env Not (loop_state erase_agent False)"
  by (simp add: unapproved_defs loop_state_def erase_agent_def agent_new_def agent.extend_def loop.fields_def Let_def
      still_env_def harmless_model_def eager_model_def guarded_registry_def harmless_preview_def harmless_tool_def
      erase_tool_def approval_required_def parallel_safe_def TOOL_FLAG_APPROVAL_REQUIRED_def
      TOOL_FLAG_PARALLEL_SAFE_def no_grant_def)

theorem no_effect_without_approval_witness:
  "\<exists>e c'. agent_start still_env ''go'' (loop_state erase_agent False) = Some (e, c') \<and> \<not> world c'"
proof -
  let ?c = "loop_state erase_agent False"
  obtain e c' where s: "agent_start still_env ''go'' ?c = Some (e, c')" using start_returns [OF erase_agent_rest] by blast
  have "a_state ?c \<in> {AGENT_READY, AGENT_DONE, AGENT_ERROR, AGENT_CANCELLED}"
    using erase_agent_rest unfolding at_rest_def by blast
  from host_step.Start [OF this s] have "(host_step still_env (\<lambda>_. False) (\<lambda>_ _. False))\<^sup>*\<^sup>* ?c c'" by blast
  from no_effect_without_approval [OF erase_agent_rest erase_agent_unapproved this] s show ?thesis by blast
qed

section \<open>What a grant covers\<close>

lemma append_nul_inject:
  assumes "(x :: string) @ CHR 0x00 # u = y @ CHR 0x00 # v" and "no_nul x" and "no_nul y"
  shows "x = y \<and> u = v"
proof -
  have t: "takeWhile (\<lambda>ch. ch \<noteq> CHR 0x00) (z @ CHR 0x00 # w) = z" if "no_nul z" for z w
    using that by (induction z) (auto simp: no_nul_def)
  from assms t have "x = y" by metis
  with assms(1) show ?thesis by simp
qed

lemma digest_input_inject:
  assumes "digest_input t1 = digest_input t2" and "tc_name t1 = Some n1" and "tc_name t2 = Some n2"
    and "no_nul n1" "no_nul n2" and "\<forall>a. tc_arguments t1 = Some a \<longrightarrow> no_nul a" "\<forall>a. tc_arguments t2 = Some a \<longrightarrow> no_nul a"
  shows "n1 = n2 \<and> tc_arguments t1 = tc_arguments t2"
proof -
  define f where "f = (\<lambda>t :: tool_call. case tc_arguments t of None \<Rightarrow> [] | Some a \<Rightarrow> a @ [CHR 0x00 :: char])"
  from assms(1-3) have "n1 @ CHR 0x00 # f t1 = n2 @ CHR 0x00 # f t2" by (simp add: digest_input_def f_def)
  from append_nul_inject [OF this assms(4,5)] have e: "n1 = n2" "f t1 = f t2" by auto
  have "tc_arguments t1 = tc_arguments t2"
  proof (cases "tc_arguments t1")
    case None
    with e(2) show ?thesis by (auto simp: f_def split: option.splits)
  next
    case (Some a)
    with e(2) obtain b where b: "tc_arguments t2 = Some b" by (auto simp: f_def split: option.splits)
    with Some e(2) have "a = b" by (simp add: f_def)
    with Some b show ?thesis by simp
  qed
  with e show ?thesis by simp
qed

text \<open>What asking for approval records.\<close>

lemma request_approval_records:
  assumes "request_approval env t c = (o1, c1)"
  shows "a_state c1 = AGENT_WAIT_USER \<and> approval_pending c1 \<and> approval_tool_index c1 = tool_index c \<and>
         a_messages c1 = a_messages c \<and> tool_index c1 = tool_index c \<and> tool_message_index c1 = tool_message_index c \<and>
         approval_digest_valid c1 = (approval_digest env (call_at c (tool_index c)) \<noteq> None) \<and>
         (\<forall>d. approval_digest env (call_at c (tool_index c)) = Some d \<longrightarrow> approval_stored_digest c1 = d)"
proof -
  define c2 where "c2 = c\<lparr>approval_pending := True, approval_decided := False, approval_tool_index := tool_index c,
                 approval_digest_valid := (approval_digest env (call_at c (tool_index c)) \<noteq> None),
                 approval_stored_digest := (case approval_digest env (call_at c (tool_index c)) of
                    Some d \<Rightarrow> d | None \<Rightarrow> approval_stored_digest c),
                 a_state := AGENT_WAIT_USER\<rparr>"
  obtain pv c3 where b: "build_tool_preview t (call_at c (tool_index c)) c2 = (pv, c3)" by (metis surj_pair)
  have "steady c2 (ask_approval_cb ev (emit ev c3))" for ev
    using quiet_steady [OF build_tool_preview_quiet [OF b]] quiet_steady [OF emit_quiet [of c3 ev]]
      ask_approval_cb_steady steady_trans by blast
  moreover have "\<exists>ev. c1 = ask_approval_cb ev (emit ev c3)"
    using assms unfolding request_approval_def Let_def c2_def [symmetric] b prod.case by auto
  ultimately have "steady c2 c1" by blast
  then show ?thesis by (auto simp: steady_def c2_def)
qed

text \<open>C4: a grant covers the call that was shown, and no other. Suppose approval was asked for one call
  and later, however the history changed in between, a grant is accepted for the call under the
  cursor. If SHA-256 tells the two calls apart whenever they differ, the accepted call has the
  name and the arguments of the shown one, at the same position.\<close>

theorem approval_binds_call:
  assumes ask: "request_approval env t c = (o1, c1)"
    and kept: "approval_stored_digest c2 = approval_stored_digest c1" "approval_digest_valid c2 = approval_digest_valid c1"
      "approval_tool_index c2 = approval_tool_index c1"
    and accept: "wait_user_step env c2 = (None, c3)" "approval_granted c3"
    and named: "tc_name (call_at c (tool_index c)) = Some n1" "tc_name (call_at c2 (tool_index c2)) = Some n2"
      "no_nul n1" "no_nul n2"
      "\<forall>a. tc_arguments (call_at c (tool_index c)) = Some a \<longrightarrow> no_nul a"
      "\<forall>a. tc_arguments (call_at c2 (tool_index c2)) = Some a \<longrightarrow> no_nul a"
    and sha: "e_sha256 env (digest_input (call_at c (tool_index c))) = e_sha256 env (digest_input (call_at c2 (tool_index c2))) \<Longrightarrow>
              digest_input (call_at c (tool_index c)) = digest_input (call_at c2 (tool_index c2))"
  shows "n2 = n1 \<and> tc_arguments (call_at c2 (tool_index c2)) = tc_arguments (call_at c (tool_index c)) \<and>
         tool_index c2 = tool_index c"
proof -
  have g: "approval_granted c2 \<and> tool_index c2 = approval_tool_index c2 \<and> approval_matches env c2 (call_at c2 (tool_index c2))"
    using accept by (auto simp: wait_user_step_def Let_def fail_turn_def split: if_splits prod.splits)
  note r = request_approval_records [OF ask]
  from g obtain d2 where d2: "approval_digest env (call_at c2 (tool_index c2)) = Some d2" "d2 = approval_stored_digest c2"
    and v: "approval_digest_valid c2" by (auto simp: approval_matches_def split: option.splits)
  from v kept r obtain d1 where d1: "approval_digest env (call_at c (tool_index c)) = Some d1" by auto
  with r kept d2 have "d1 = d2" by auto
  with d1 d2 have "e_sha256 env (digest_input (call_at c (tool_index c))) = e_sha256 env (digest_input (call_at c2 (tool_index c2)))"
    by (auto simp: approval_digest_def split: option.splits if_splits)
  from digest_input_inject [OF sha [OF this] named] g r kept show ?thesis by simp
qed

text \<open>A digest for the witness: 32 bytes that start with the input.\<close>

definition pad_env :: "'w env" where
  "pad_env = still_env\<lparr>e_sha256 := (\<lambda>x. Some (take 32 (x @ replicate 32 (CHR ''-''))))\<rparr>"

definition shown_call :: tool_call where
  "shown_call = zero_tool_call\<lparr>tc_id := Some ''c1'', tc_name := Some ''erase'', tc_arguments := Some ''{}''\<rparr>"

definition waiting_agent :: "bool loop" where
  "waiting_agent = (loop_state erase_agent False)
     \<lparr>a_state := AGENT_WAIT_TOOL, a_approval_cb := None,
      a_messages := \<lparr>mitems = [(message_new MSG_ASSISTANT)\<lparr>m_tool_calls := [shown_call]\<rparr>], mcap = 4\<rparr>\<rparr>"

theorem approval_binds_call_witness:
  "\<exists>c2 c3 :: bool loop. wait_user_step pad_env c2 = (None, c3) \<and> approval_granted c3 \<and>
     tc_name (call_at c2 (tool_index c2)) = Some ''erase'' \<and>
     tc_arguments (call_at c2 (tool_index c2)) = Some ''{}'' \<and> tool_index c2 = 0"
proof -
  have call: "call_at waiting_agent (tool_index waiting_agent) = shown_call" "tool_index waiting_agent = 0"
    by (simp_all add: call_at_def waiting_agent_def loop_state_def agent.extend_def loop.fields_def)
  obtain o1 c1 where ask: "request_approval pad_env erase_tool waiting_agent = (o1, c1)" by (metis surj_pair)
  note r = request_approval_records [OF ask, unfolded call]
  define c2 where "c2 = c1\<lparr>approval_decided := True, approval_granted := True\<rparr>"
  define d where "d = take 32 (digest_input shown_call @ replicate 32 (CHR ''-''))"
  have dg: "approval_digest (pad_env :: bool env) shown_call = Some d"
    by (simp add: approval_digest_def pad_env_def d_def)
  have c2: "call_at c2 (tool_index c2) = shown_call" "tool_index c2 = 0" "approval_tool_index c2 = 0"
    "approval_pending c2" "approval_decided c2" "approval_granted c2" "approval_digest_valid c2" "approval_stored_digest c2 = d"
    using r call dg by (simp_all add: c2_def call_at_def)
  obtain c3 where w: "wait_user_step pad_env c2 = (None, c3)" "approval_granted c3"
    using c2 dg by (simp add: wait_user_step_def approval_matches_def)
  have nm: "tc_name shown_call = Some ''erase''" "tc_arguments shown_call = Some ''{}''" by (simp_all add: shown_call_def)
  have kept: "approval_stored_digest c2 = approval_stored_digest c1" "approval_digest_valid c2 = approval_digest_valid c1"
      "approval_tool_index c2 = approval_tool_index c1" by (simp_all add: c2_def)
  have "''erase'' = ''erase'' \<and> tc_arguments (call_at c2 (tool_index c2)) = tc_arguments (call_at waiting_agent (tool_index waiting_agent)) \<and>
        tool_index c2 = tool_index waiting_agent"
    by (rule approval_binds_call [OF ask kept w]) (simp_all add: call c2 call(1) [unfolded call(2)] c2(1) [unfolded c2(2)] nm no_nul_def)
  then have "tool_index c2 = tool_index waiting_agent" by (elim conjE)
  with call(2) have i: "tool_index c2 = 0" by simp
  have "tc_name (call_at c2 (tool_index c2)) = Some ''erase''" "tc_arguments (call_at c2 (tool_index c2)) = Some ''{}''"
    by (subst c2(1), rule nm)+
  with w i show ?thesis by blast
qed

end
