(* ===== verification/Loop_Asks.thy ===== *)
theory Loop_Asks
  imports Loop_Approval
begin

text \<open>
  How often the host is asked (\<open>begin_serial_tool\<close>, \<open>request_approval\<close> and the waiting state of
  \<open>src/src/agent/loop.c\<close>).  \<open>asked\<close> reads off the world the approval events a recording host has seen so
  far; \<open>records\<close> says that the event callback adds each approval event to them and that nothing else
  the loop calls does.
\<close>

definition silent_tool :: "('w \<Rightarrow> agent_event list) \<Rightarrow> (session option \<times> 'w) tool \<Rightarrow> bool" where
  "silent_tool asked t \<longleftrightarrow>
     (\<forall>f a x. t_preview t = Some f \<longrightarrow> asked (snd (snd (f a x))) = asked (snd x)) \<and>
     (\<forall>f a x. t_execute t = Some f \<longrightarrow> asked (snd (snd (f a x))) = asked (snd x)) \<and>
     (\<forall>f a x. t_start t = Some f \<longrightarrow> asked (snd (snd (f a x))) = asked (snd x) \<and>
        (\<forall>task d y. snd (snd (fst (f a x))) = Some task \<longrightarrow> tk_destroy task = Some d \<longrightarrow> asked (snd (d y)) = asked (snd y)))"

definition records :: "('w \<Rightarrow> agent_event list) \<Rightarrow> 'w loop \<Rightarrow> bool" where
  "records asked c \<longleftrightarrow>
     (\<exists>cb. a_event_cb c = Some cb \<and>
        (\<forall>ev w. asked (snd (cb ev w)) = (if ev_type ev = AGENT_EVT_TOOL_APPROVAL then asked w @ [ev] else asked w))) \<and>
     (\<forall>cb ev w. a_approval_cb c = Some cb \<longrightarrow> asked (snd (cb ev w)) = asked w)"

lemma records_same:
  "records asked c \<Longrightarrow> a_event_cb c' = a_event_cb c \<Longrightarrow> a_approval_cb c' = a_approval_cb c \<Longrightarrow> records asked c'"
  unfolding records_def by auto

lemma records_steady: "records asked c \<Longrightarrow> steady c c' \<Longrightarrow> records asked c'"
  by (simp add: records_def steady_def)

lemma host_calls_world [simp]: "world (foldl do_host_call c hs) = world c"
proof (induction hs arbitrary: c)
  case (Cons h hs)
  have "world (do_host_call c h) = world c"
    by (cases h) (simp_all add: agent_set_approval_result_def agent_set_session_trusted_def)
  with Cons show ?case by simp
qed simp

lemma emit_asked:
  assumes "records asked c"
  shows "asked (world (emit ev c)) =
         (if ev_type ev = AGENT_EVT_TOOL_APPROVAL then asked (world c) @ [ev] else asked (world c))"
proof -
  from assms obtain cb where cb: "a_event_cb c = Some cb"
    "\<And>ev w. asked (snd (cb ev w)) = (if ev_type ev = AGENT_EVT_TOOL_APPROVAL then asked w @ [ev] else asked w)"
    by (auto simp: records_def)
  obtain hs w where r: "cb ev (world c) = (hs, w)" by (cases "cb ev (world c)")
  with cb(2) [of ev "world c"] show ?thesis by (simp add: emit_def cb(1))
qed

lemma ask_cb_asked: "records asked c \<Longrightarrow> asked (world (ask_approval_cb ev c)) = asked (world c)"
proof (cases "a_approval_cb c")
  case (Some cb)
  assume "records asked c"
  with Some have k: "asked (snd (cb ev (world c))) = asked (world c)" by (auto simp: records_def)
  obtain g hs w where r: "cb ev (world c) = ((g, hs), w)" by (metis surj_pair)
  with k Some show ?thesis by (simp add: ask_approval_cb_def)
qed (simp add: ask_approval_cb_def)

lemma run_tool_world: "run_tool f c = (r, c') \<Longrightarrow> world c' = snd (snd (f (a_session c, world c)))"
  by (auto simp: run_tool_def split: prod.splits)

lemma run_hook_world: "world (run_hook f c) = (case f of None \<Rightarrow> world c | Some g \<Rightarrow> snd (g (a_session c, world c)))"
  by (simp add: run_hook_def split: option.split prod.split)

lemma preview_asked:
  assumes "silent_tool asked t" and "build_tool_preview t tc c = (p, c')"
  shows "asked (world c') = asked (world c)"
  using assms by (auto simp: build_tool_preview_def silent_tool_def split: option.splits prod.splits dest!: run_tool_world)

lemma enter_asked:
  assumes "silent_tool asked t" and "enter_tool t tc c = (r, c')"
  shows "asked (world c') = asked (world c)"
proof (cases "t_start t")
  case None
  with assms show ?thesis
    by (auto simp: enter_tool_def silent_tool_def split: option.splits prod.splits dest!: run_tool_world)
next
  case (Some start)
  obtain rc res task c1 where f: "run_tool (start (tool_args tc)) c = ((rc, res, task), c1)" by (metis surj_pair)
  have a1: "asked (world c1) = asked (world c)" using run_tool_world [OF f] assms(1) Some by (simp add: silent_tool_def)
  have "fst (start (tool_args tc) (a_session c, world c)) = (rc, res, task)"
    using f by (auto simp: run_tool_def split: prod.splits)
  then have d: "asked (world (run_hook (tk_destroy tk) c1)) = asked (world c1)" if "task = Some tk" for tk
    using assms(1) Some that unfolding silent_tool_def run_hook_world by (simp split: option.split) (metis snd_conv)
  from assms(2) Some f a1 d show ?thesis
    by (auto simp: enter_tool_def split: option.splits if_splits)
qed

lemma append_result_world: "append_tool_result env c k r = (rc, c') \<Longrightarrow> world c' = world c"
  by (auto simp: append_tool_result_def set_call_def log_message_def with_session_def Let_def split: if_splits)

definition asks_for :: "tool_call \<Rightarrow> string option \<Rightarrow> agent_event" where
  "asks_for tc pv = (agent_event_of AGENT_EVT_TOOL_APPROVAL)
     \<lparr>ev_name := tc_name tc, ev_text := tc_arguments tc, ev_preview := pv\<rparr>"

lemma request_asks_once:
  assumes "records asked c" and "silent_tool asked t" and req: "request_approval env t c = (o1, c')"
  shows "(\<exists>pv. asked (world c') = asked (world c) @ [asks_for (call_at c (tool_index c)) pv]) \<and>
     a_state c' = AGENT_WAIT_USER \<and> approval_pending c' \<and> approval_tool_index c' = tool_index c \<and>
     a_messages c' = a_messages c \<and> tool_index c' = tool_index c \<and> tool_task c' = tool_task c"
proof -
  define b where "b = c\<lparr>approval_pending := True, approval_decided := False, approval_tool_index := tool_index c,
      approval_digest_valid := (approval_digest env (call_at c (tool_index c)) \<noteq> None),
      approval_stored_digest := (case approval_digest env (call_at c (tool_index c)) of
         Some d \<Rightarrow> d | None \<Rightarrow> approval_stored_digest c),
      a_state := AGENT_WAIT_USER\<rparr>"
  obtain pv c3 where p: "build_tool_preview t (call_at c (tool_index c)) b = (pv, c3)" by (metis surj_pair)
  define ev where "ev = (agent_event_of AGENT_EVT_TOOL_APPROVAL)
      \<lparr>ev_name := tc_name (call_at c (tool_index c)), ev_text := tc_arguments (call_at c (tool_index c)), ev_preview := pv\<rparr>"
  have "request_approval env t c =
      (if approval_decided (ask_approval_cb ev (emit ev c3)) then None else Some AGENT_STEP_BUSY,
       ask_approval_cb ev (emit ev c3))"
    unfolding request_approval_def Let_def b_def [symmetric] p prod.case ev_def by (rule refl)
  with req have c': "c' = ask_approval_cb ev (emit ev c3)" by simp
  have s3: "steady b c3" by (rule quiet_steady [OF build_tool_preview_quiet [OF p]])
  have s4: "steady c3 (emit ev c3)" by (rule quiet_steady [OF emit_quiet])
  have "records asked b" by (rule records_same [OF assms(1)]) (simp_all add: b_def)
  from records_steady [OF this s3] have r3: "records asked c3" .
  have "asked (world c') = asked (world (emit ev c3))"
    unfolding c' by (rule ask_cb_asked [OF records_steady [OF r3 s4]])
  also have "\<dots> = asked (world c3) @ [ev]" using emit_asked [OF r3, of ev] by (simp add: ev_def agent_event_of_def)
  also have "asked (world c3) = asked (world c)" using preview_asked [OF assms(2) p] by (simp add: b_def)
  finally have "\<exists>pv. asked (world c') = asked (world c) @ [asks_for (call_at c (tool_index c)) pv]" by (auto simp: ev_def asks_for_def)
  moreover have "tool_task c' = tool_task c"
    using s3 s4 ask_approval_cb_steady [of "emit ev c3" ev] by (simp add: c' steady_def b_def)
  ultimately show ?thesis using request_approval_records [OF req] by simp
qed

lemma granted_asks_nothing:
  assumes "records asked c" and "silent_tool asked t"
    and "a_state c = AGENT_WAIT_TOOL" and "find_tool c (call_at c (tool_index c)) = Some t" and "approval_required t"
    and "\<not> approval_host_missing c" and "\<not> agent_session_trusted c" and "begin_serial_tool env c = (o1, c')"
    and "approval_granted c"
  shows "asked (world c') = asked (world c) \<and> \<not> approval_granted c'"
proof -
  define c0 where "c0 = c\<lparr>approval_granted := False\<rparr>"
  have run: "run_serial_tool env c0 = (o1, c')"
    using assms(4-9) by (simp add: begin_serial_tool_def c0_def)
  define keep where "keep = (\<lambda>d :: 'a loop. a_state d = AGENT_WAIT_TOOL \<and> \<not> approval_granted d \<and>
     records asked d \<and> asked (world d) = asked (world c))"
  have q: "keep d \<Longrightarrow> quiet d d' \<Longrightarrow> asked (world d') = asked (world d) \<Longrightarrow> keep d'" for d d'
    using records_steady [OF _ quiet_steady, of asked d d'] by (auto simp: keep_def quiet_def steady_def)
  have em: "keep d \<Longrightarrow> ev_type ev \<noteq> AGENT_EVT_TOOL_APPROVAL \<Longrightarrow> keep (emit ev d)" for d ev
    by (rule q [OF _ emit_quiet]) (auto simp: keep_def emit_asked)
  have app: "keep d \<Longrightarrow> append_tool_result env d k r = (rc, d') \<Longrightarrow> keep d'" for d k r rc d'
    using append_result_world [of env d k r rc d'] append_tool_result_effect [of env d k r rc d']
    by (auto simp: keep_def records_def quiet_def steady_def)
  define c1 where "c1 = emit (tool_start_event (call_at c0 (tool_index c0))) c0"
  have k0: "keep c0" using assms(1,3) by (simp add: keep_def c0_def records_def)
  have k1: "keep c1" unfolding c1_def by (rule em [OF k0]) (simp add: tool_start_event_def agent_event_of_def)
  have ft: "find_tool c1 (call_at c1 (tool_index c0)) = Some t"
    using find_tool_steady [OF quiet_steady [OF emit_quiet], of "tool_start_event (call_at c0 (tool_index c0))" c0]
      assms(4) by (simp add: c1_def c0_def find_tool_def call_at_def)
  obtain rc pd c2 where s: "start_tool_call env c1 (tool_index c0) = (rc, pd, c2)" by (metis surj_pair)
  obtain task res d where e: "enter_tool t (call_at c1 (tool_index c0)) c1 = ((task, res), d)" by (metis surj_pair)
  have kd: "keep d" by (rule q [OF k1 enter_tool_quiet [OF e] enter_asked [OF assms(2) e]])
  have k2: "keep c2"
  proof (cases task)
    case None
    with s ft e have "append_tool_result env d (tool_index c0) res = (rc, c2)"
      by (auto simp: start_tool_call_def split: prod.splits)
    from app [OF kd this] show ?thesis .
  next
    case (Some tk)
    with s ft e have "c2 = d\<lparr>tool_task := Some tk, tool_cancel_requested := False\<rparr>"
      by (simp add: start_tool_call_def)
    with kd show ?thesis by (simp add: keep_def records_def)
  qed
  have "keep (emit (tool_end_event tc b) c2)" for tc b
    by (rule em [OF k2]) (simp add: tool_end_event_def agent_event_of_def)
  then show ?thesis
    using run s k2 unfolding run_serial_tool_def c1_def [symmetric]
    by (auto simp: fail_turn_def after_tool_def Let_def keep_def split: if_splits)
qed

lemma rejection_asks_nothing:
  assumes "records asked d" and "append_tool_rejection env d (tool_index d) msg = (rc, x)"
  shows "asked (world x) = asked (world d)" "asked (world (emit (tool_end_event tc b) x)) = asked (world d)"
    "tool_index (emit (tool_end_event tc b) x) = tool_index d"
proof -
  note eff = append_tool_result_effect [OF assms(2) [unfolded append_tool_rejection_def]]
  have w: "world x = world d" using append_result_world assms(2) [unfolded append_tool_rejection_def] by blast
  moreover have "records asked x" using assms(1) eff by (auto simp: records_def quiet_def steady_def)
  ultimately show "asked (world x) = asked (world d)" "asked (world (emit (tool_end_event tc b) x)) = asked (world d)"
    using emit_asked [of asked x] by (simp_all add: tool_end_event_def agent_event_of_def)
  show "tool_index (emit (tool_end_event tc b) x) = tool_index d"
  proof -
    have "steady x (emit (tool_end_event tc b) x)" by (rule quiet_steady [OF emit_quiet])
    with eff show ?thesis by (auto simp: quiet_def steady_def)
  qed
qed

text \<open>What the waiting state does with a decision: the call under the cursor was granted and is entered next, or
  it was rejected and the cursor is on the next call.\<close>

definition decision_applied :: "'w loop \<Rightarrow> 'w loop \<Rightarrow> bool" where
  "decision_applied d d' \<longleftrightarrow>
     a_state d' = AGENT_WAIT_TOOL \<and> \<not> approval_pending d' \<and>
     (if approval_granted d' then approval_granted d \<and> tool_index d' = tool_index d \<and> a_messages d' = a_messages d
      else tool_index d' = tool_index d + 1)"

lemma waiting_asks_nothing:
  assumes r: "records asked d" and w: "wait_user_step env d = (o2, d')"
  shows "asked (world d') = asked (world d) \<and> (o2 = None \<longrightarrow> decision_applied d d')"
proof -
  note e = rejection_asks_nothing [OF r]
  from w show ?thesis
    unfolding wait_user_step_def Let_def decision_applied_def
    by (auto simp: fail_turn_def e dest: e(1) split: if_splits prod.splits)
qed

text \<open>C7: the host is asked for every call of a guarded tool, exactly once.  In a session that is not trusted,
  a call that has no grant adds one approval event to what the host has seen, with the name and the
  arguments of the call, and the agent waits with the history and the cursor as they were.  Nothing is asked while it
  waits or when the decision is applied, which either leaves the cursor on the call with the grant, or moves it on.  A call
  that has a grant asks nothing more, and the grant is gone when the tool was entered.\<close>

theorem approval_asked_once:
  assumes "records asked c" and "silent_tool asked t"
    and "a_state c = AGENT_WAIT_TOOL" and "find_tool c (call_at c (tool_index c)) = Some t" and "approval_required t"
    and "\<not> approval_host_missing c" and "\<not> agent_session_trusted c" and "begin_serial_tool env c = (o1, c')"
  shows "(if approval_granted c
          then asked (world c') = asked (world c) \<and> \<not> approval_granted c'
          else (\<exists>pv. asked (world c') = asked (world c) @ [asks_for (call_at c (tool_index c)) pv]) \<and>
               a_state c' = AGENT_WAIT_USER \<and> approval_pending c' \<and> approval_tool_index c' = tool_index c \<and>
               a_messages c' = a_messages c \<and> tool_index c' = tool_index c \<and> tool_task c' = tool_task c) \<and>
         (\<forall>d o2 d'. records asked d \<longrightarrow> wait_user_step env d = (o2, d') \<longrightarrow>
            asked (world d') = asked (world d) \<and> (o2 = None \<longrightarrow> decision_applied d d'))"
proof (intro conjI allI impI)
  show "if approval_granted c
      then asked (world c') = asked (world c) \<and> \<not> approval_granted c'
      else (\<exists>pv. asked (world c') = asked (world c) @ [asks_for (call_at c (tool_index c)) pv]) \<and>
           a_state c' = AGENT_WAIT_USER \<and> approval_pending c' \<and> approval_tool_index c' = tool_index c \<and>
           a_messages c' = a_messages c \<and> tool_index c' = tool_index c \<and> tool_task c' = tool_task c"
  proof (cases "approval_granted c")
    case False
    with assms(3-8) have "request_approval env t c = (o1, c')" by (simp add: begin_serial_tool_def)
    from request_asks_once [OF assms(1,2) this] False show ?thesis by simp
  qed (use granted_asks_nothing [OF assms] in simp)
qed (use waiting_asks_nothing in blast)+

text \<open>A host that records what it is asked.\<close>

definition log_tool :: "(session option \<times> agent_event list) tool" where
  "log_tool = \<lparr>t_name = ''erase'', t_description = [], t_input_schema = ''{}'',
     t_flags = TOOL_FLAG_APPROVAL_REQUIRED, t_preview = None,
     t_execute = Some (\<lambda>_ x. ((AGENT_OK, \<lparr>tr_content = Some ''erased'', tr_is_error = False\<rparr>), x)), t_start = None\<rparr>"

definition log_agent :: "agent_event list loop" where
  "log_agent = (loop_state (fst (agent_new 1 None None)) [])
     \<lparr>a_tools := Some \<lparr>r_tools = [log_tool], r_enabled = [True], r_cap = 8\<rparr>,
      a_event_cb := Some (\<lambda>ev w. ([], if ev_type ev = AGENT_EVT_TOOL_APPROVAL then w @ [ev] else w)),
      a_approval_available := True, a_state := AGENT_WAIT_TOOL,
      a_messages := \<lparr>mitems = [(message_new MSG_ASSISTANT)\<lparr>m_tool_calls := [shown_call]\<rparr>], mcap = 4\<rparr>\<rparr>"

theorem approval_asked_once_witness:
  "\<exists>o1 c'. begin_serial_tool pad_env log_agent = (o1, c') \<and> a_state c' = AGENT_WAIT_USER \<and>
     length (world c') = 1 \<and> ev_name (hd (world c')) = Some ''erase''"
proof -
  have call: "call_at log_agent (tool_index log_agent) = shown_call"
    by (simp add: call_at_def log_agent_def loop_state_def agent.extend_def loop.fields_def)
  have f: "find_tool log_agent (call_at log_agent (tool_index log_agent)) = Some log_tool"
    unfolding call
    by (simp add: find_tool_def log_agent_def loop_state_def agent.extend_def loop.fields_def
        shown_call_def tool_registry_find_def log_tool_def str_or_empty_def)
  have s: "a_state log_agent = AGENT_WAIT_TOOL" "\<not> approval_granted log_agent" "\<not> approval_host_missing log_agent"
    "\<not> agent_session_trusted log_agent" "world log_agent = []"
    by (simp_all add: log_agent_def loop_state_def agent.extend_def loop.fields_def agent_new_def
        approval_host_missing_def agent_session_trusted_def Let_def)
  have r: "approval_required log_tool" by (simp add: approval_required_def log_tool_def TOOL_FLAG_APPROVAL_REQUIRED_def)
  have rec: "records (\<lambda>w. w) log_agent"
    by (simp add: records_def log_agent_def loop_state_def agent.extend_def loop.fields_def agent_new_def Let_def)
  have sil: "silent_tool (\<lambda>w. w) log_tool" by (simp add: silent_tool_def log_tool_def)
  obtain o1 c' where b: "begin_serial_tool pad_env log_agent = (o1, c')" by (metis surj_pair)
  from approval_asked_once [OF rec sil s(1) f r s(3,4) b] s(2,5) b call
  show ?thesis by (auto simp: shown_call_def asks_for_def)
qed

end
