(* ===== verification/Loop_Protocol.thy ===== *)
theory Loop_Protocol
  imports Loop_Pass
begin

text \<open>
  The tool protocol of a chat history, as the providers check it and
  \<open>message_list_tool_safe_prefix_count\<close> (\<open>src/src/agent/message.c\<close>) respects it: the calls of an
  assistant message are answered by the tool messages right after it, in call order, each with its
  call's id, and nothing but an answer comes while a call is open.  \<open>protocol strict\<close> checks it;
  without \<open>strict\<close> a user or system message may leave calls unanswered, which happens when a turn was
  cancelled or failed in the middle of a batch and another one was started.  The theory proves which
  of the two holds in every reachable state of the loop.
\<close>

section \<open>The protocol\<close>

text \<open>The ids of the calls that are open after a message.\<close>

definition awaits :: "string option list \<Rightarrow> message \<Rightarrow> string option list" where
  "awaits p m = (case m_role m of
     MSG_TOOL \<Rightarrow> tl p
   | MSG_ASSISTANT \<Rightarrow> map tc_id (m_tool_calls m)
   | _ \<Rightarrow> [])"

definition admits :: "bool \<Rightarrow> string option list \<Rightarrow> message \<Rightarrow> bool" where
  "admits strict p m = (case m_role m of
     MSG_TOOL \<Rightarrow> p \<noteq> [] \<and> m_tool_call_id m = hd p
   | MSG_ASSISTANT \<Rightarrow> p = []
   | _ \<Rightarrow> strict \<longrightarrow> p = [])"

fun protocol_from :: "bool \<Rightarrow> string option list \<Rightarrow> message list \<Rightarrow> bool" where
  "protocol_from strict p [] = True"
| "protocol_from strict p (m # ms) = (admits strict p m \<and> protocol_from strict (awaits p m) ms)"

definition protocol :: "bool \<Rightarrow> message list \<Rightarrow> bool" where
  "protocol strict xs = protocol_from strict [] xs"

definition unanswered :: "message list \<Rightarrow> string option list" where
  "unanswered xs = foldl awaits [] xs"

text \<open>A history a request may be sent with: no call is open at its end.\<close>

definition settled :: "bool \<Rightarrow> message list \<Rightarrow> bool" where
  "settled strict xs \<longleftrightarrow> protocol strict xs \<and> unanswered xs = []"

lemma protocol_from_append:
  "protocol_from s p (xs @ ys) = (protocol_from s p xs \<and> protocol_from s (foldl awaits p xs) ys)"
  by (induction xs arbitrary: p) auto

lemma protocol_append:
  "protocol s (xs @ ys) = (protocol s xs \<and> protocol_from s (unanswered xs) ys)"
  by (simp add: protocol_def unanswered_def protocol_from_append)

lemma unanswered_append: "unanswered (xs @ ys) = foldl awaits (unanswered xs) ys"
  by (simp add: unanswered_def)

lemma settled_user:
  assumes "m_role m = MSG_USER" and "protocol s xs" and "s \<longrightarrow> unanswered xs = []"
  shows "settled s (xs @ [m])"
  using assms by (simp add: settled_def protocol_append unanswered_append admits_def awaits_def)

lemma settled_assistant:
  assumes "m_role m = MSG_ASSISTANT" and "settled s xs"
  shows "protocol s (xs @ [m]) \<and> unanswered (xs @ [m]) = map tc_id (m_tool_calls m)"
  using assms by (simp add: settled_def protocol_append unanswered_append admits_def awaits_def)

lemma answers_protocol:
  assumes "\<forall>m\<in>set rs. m_role m = MSG_TOOL" and "map m_tool_call_id rs = take (length rs) p"
    and "length rs \<le> length p"
  shows "protocol_from s p rs \<and> foldl awaits p rs = drop (length rs) p"
  using assms
proof (induction rs arbitrary: p)
  case (Cons m rs)
  then obtain x q where p: "p = x # q" by (cases p) auto
  from Cons.prems p have "protocol_from s q rs \<and> foldl awaits q rs = drop (length rs) q"
    by (intro Cons.IH) simp_all
  moreover have "awaits p m = q" "admits s p m" using Cons.prems p by (simp_all add: admits_def awaits_def)
  ultimately show ?case using p by simp
qed simp

text \<open>The history in the middle of a batch: a settled one, the assistant message, some answers.\<close>

lemma batch_protocol:
  assumes "settled s (take t xs)" and "t < length xs" and "m_role (xs ! t) = MSG_ASSISTANT"
    and "\<forall>m\<in>set (drop (Suc t) xs). m_role m = MSG_TOOL"
    and "map m_tool_call_id (drop (Suc t) xs) = take n (map tc_id (m_tool_calls (xs ! t)))"
    and "n \<le> length (m_tool_calls (xs ! t))"
  shows "protocol s xs \<and> unanswered xs = drop n (map tc_id (m_tool_calls (xs ! t)))"
proof -
  let ?p = "map tc_id (m_tool_calls (xs ! t))" and ?rs = "drop (Suc t) xs"
  have "length ?rs = n" using arg_cong [OF assms(5), of length] assms(6) by simp
  with answers_protocol [OF assms(4), of ?p s] assms(5,6)
  have a: "protocol_from s ?p ?rs \<and> foldl awaits ?p ?rs = drop n ?p" by simp
  have split: "xs = (take t xs @ [xs ! t]) @ ?rs" using assms(2) by (simp add: id_take_nth_drop [symmetric])
  note sa = settled_assistant [OF assms(3,1)]
  have "protocol s ((take t xs @ [xs ! t]) @ ?rs) \<and> unanswered ((take t xs @ [xs ! t]) @ ?rs) = drop n ?p"
    using sa a protocol_append [of s "take t xs @ [xs ! t]" ?rs] unanswered_append [of "take t xs @ [xs ! t]" ?rs] by simp
  then show ?thesis unfolding split [symmetric] .
qed

section \<open>Compaction\<close>

lemma protocol_tail:
  assumes "ys = [] \<or> m_role (hd ys) \<noteq> MSG_TOOL" and "protocol_from s p ys"
  shows "protocol_from s [] ys" and "ys \<noteq> [] \<Longrightarrow> foldl awaits p ys = foldl awaits q ys"
  using assms by (cases ys; auto simp: admits_def awaits_def split: message_role.splits)+

lemma settled_splice:
  assumes "settled s xs" and "j < length xs" and "m_role (xs ! j) \<noteq> MSG_TOOL"
    and tail: "drop k xs = [] \<or> m_role (hd (drop k xs)) \<noteq> MSG_TOOL" and "m_role sm = MSG_USER"
  shows "settled s (take j xs @ sm # drop k xs)"
proof -
  have "protocol s (take j xs @ xs ! j # drop (Suc j) xs)"
    using assms(1,2) by (simp add: settled_def id_take_nth_drop [symmetric])
  then have h: "protocol s (take j xs)" "admits s (unanswered (take j xs)) (xs ! j)"
    by (simp_all add: protocol_append)
  then have u: "s \<longrightarrow> unanswered (take j xs) = []"
    using assms(3) by (cases "m_role (xs ! j)") (auto simp: admits_def)
  note first = settled_user [OF assms(5) h(1) u]
  have p: "protocol_from s (unanswered (take k xs)) (drop k xs)" and e: "foldl awaits (unanswered (take k xs)) (drop k xs) = []"
    using assms(1) protocol_append [of s "take k xs" "drop k xs"] unanswered_append [of "take k xs" "drop k xs"]
    by (simp_all add: settled_def)
  from protocol_tail(1) [OF tail p] protocol_tail(2) [OF tail p, of "[]"] e first
  have "settled s ((take j xs @ [sm]) @ drop k xs)"
    by (cases "drop k xs = []") (simp_all add: settled_def protocol_append unanswered_append)
  then show ?thesis by simp
qed

lemma apply_settled:
  assumes "context_compaction_apply al msgs req (Some t) = (AGENT_OK, msgs')"
    and "tool_grouped (mitems msgs)" and "settled s (mitems msgs)"
    and "cr_start req < length (mitems msgs) \<Longrightarrow> m_role (mitems msgs ! cr_start req) \<noteq> MSG_TOOL"
  shows "settled s (mitems msgs')"
proof -
  let ?n = "message_list_tool_safe_prefix_count (mitems msgs) (cr_start req) (cr_count req)"
  note ok = apply_ok_items [OF assms(1)]
  from safe_prefix_cut [OF assms(2) ok(1) assms(4) [OF ok(1)] refl]
  have tail: "drop (cr_start req + ?n) (mitems msgs) = [] \<or>
              m_role (hd (drop (cr_start req + ?n) (mitems msgs))) \<noteq> MSG_TOOL"
    by (auto simp: hd_drop_conv_nth not_le)
  show ?thesis
    unfolding ok(3) by (rule settled_splice [OF assms(3) ok(1) assms(4) [OF ok(1)] tail]) (simp add: message_new_def)
qed

lemma compact_settled:
  assumes "context_compact al1 al2 msgs keep = (e, msgs')" and "tool_grouped (mitems msgs)"
    and "settled s (mitems msgs)"
  shows "settled s (mitems msgs')"
  using compact_eq [OF assms(1)]
proof (elim disjE exE conjE)
  fix start count req t
  assume b: "compaction_bounds (mitems msgs) keep = (start, count)" "0 < count" and st: "cr_start req = start"
    and ap: "context_compaction_apply al2 msgs req (Some t) = (AGENT_OK, msgs')"
  from bounds_start_not_tool [OF assms(2) b] st show ?thesis
    by (intro apply_settled [OF ap assms(2,3)]) simp
qed (use assms(3) in simp)

section \<open>The loop\<close>

text \<open>What is known of the history in each state: settled when a request may go out or is out and when
  a turn is done, and settled up to the assistant message of the batch while the batch is answered.\<close>

definition conversation :: "bool \<Rightarrow> 'w loop \<Rightarrow> bool" where
  "conversation strict c =
     (if a_state c \<in> {AGENT_WAIT_TOOL, AGENT_WAIT_USER} then settled strict (take (tool_message_index c) (items c))
      else if a_state c \<in> {AGENT_READY, AGENT_WAIT_MODEL, AGENT_DONE} then settled strict (items c)
      else protocol strict (items c))"

lemma conversation_same:
  "conversation s c \<Longrightarrow> a_messages c' = a_messages c \<Longrightarrow> a_state c' = a_state c \<Longrightarrow>
   tool_message_index c' = tool_message_index c \<Longrightarrow> conversation s c'"
  by (simp add: conversation_def)

lemma conversation_steady: "conversation s c \<Longrightarrow> steady c c' \<Longrightarrow> conversation s c'"
  by (rule conversation_same) (simp_all add: steady_def)

lemma results_protocol:
  assumes "results_ok c n" and "settled s (take (tool_message_index c) (items c))"
  shows "protocol s (items c) \<and>
         unanswered (items c) = map tc_id (drop n (m_tool_calls (items c ! tool_message_index c)))"
proof -
  let ?t = "tool_message_index c" and ?cs = "m_tool_calls (items c ! tool_message_index c)"
  have len: "length (items c) = ?t + 1 + n" and le: "n \<le> length ?cs"
    using assms(1) by (auto simp: results_ok_def calls_len_def)
  have tools: "\<forall>m\<in>set (drop (Suc ?t) (items c)). m_role m = MSG_TOOL"
  proof
    fix m assume "m \<in> set (drop (Suc ?t) (items c))"
    then obtain j where "j < n" "m = items c ! (?t + 1 + j)" using len by (auto simp: in_set_conv_nth)
    with assms(1) show "m_role m = MSG_TOOL" by (simp add: results_ok_def)
  qed
  have ids: "map m_tool_call_id (drop (Suc ?t) (items c)) = take n (map tc_id ?cs)"
    by (rule nth_equalityI) (use assms(1) len le in \<open>auto simp: results_ok_def calls_len_def call_at_def\<close>)
  from batch_protocol [OF assms(2) _ _ tools ids le] assms(1) show ?thesis
    by (simp add: results_ok_def drop_map)
qed

text \<open>What answering calls does: the history before the batch stays, the batch stays a batch.\<close>

definition batch_kept :: "'w loop \<Rightarrow> 'w loop \<Rightarrow> bool" where
  "batch_kept c c' \<longleftrightarrow>
     tool_message_index c' = tool_message_index c \<and>
     take (tool_message_index c) (items c') = take (tool_message_index c) (items c) \<and>
     (\<exists>n. results_ok c' n)"

lemma batch_kept_trans: "batch_kept c c' \<Longrightarrow> batch_kept c' c'' \<Longrightarrow> batch_kept c c''"
  by (simp add: batch_kept_def)

lemma batch_kept_same:
  assumes "a_messages c' = a_messages c" and "tool_message_index c' = tool_message_index c" and "results_ok c n"
  shows "batch_kept c c'"
proof -
  have "results_ok c' n" using assms by (simp add: results_ok_def calls_len_def call_at_def)
  with assms show ?thesis by (auto simp: batch_kept_def)
qed

lemma batch_kept_then:
  assumes "batch_kept c c'" and "a_messages c'' = a_messages c'" and "tool_message_index c'' = tool_message_index c'"
  shows "batch_kept c c''"
  using assms(1) batch_kept_same [OF assms(2,3)] batch_kept_trans by (auto simp: batch_kept_def)

lemma batch_kept_steady: "batch_kept c c' \<Longrightarrow> steady c' c'' \<Longrightarrow> batch_kept c c''"
  by (rule batch_kept_then) (simp_all add: steady_def)

lemma append_batch_kept:
  assumes "results_ok c n" and "n < calls_len c" and "tool_grouped (items c)"
    and "append_tool_result env c n result = (rc, c')"
  shows "batch_kept c c'"
proof -
  from append_tool_result_effect [OF assms(4)] obtain tc' where
    q: "quiet (c\<lparr>a_messages := a_messages c'\<rparr>) c'" and id1: "tc_id tc' = tc_id (call_at c n)"
    and it: "if rc = AGENT_OK
             then \<exists>tm. items c' = items (set_call n tc' c) @ [tm] \<and> m_role tm = MSG_TOOL \<and>
                       m_tool_call_id tm = tc_id (call_at c n)
             else items c' = items (set_call n tc' c)" by blast
  let ?s = "set_call n tc' c" and ?t = "tool_message_index c"
  note sc = set_call_items [OF id1]
  have t: "?t < length (items c)" using assms(1) by (simp add: results_ok_def)
  have ti: "tool_message_index c' = ?t" using q by (simp add: quiet_def steady_def)
  have "take ?t (items c') = take ?t (items ?s)" using it t sc(1) by (auto split: if_splits)
  moreover have "take ?t (items ?s) = take ?t (items c)" by (simp add: set_call_def)
  moreover have "\<exists>n'. results_ok c' n'"
  proof (cases "rc = AGENT_OK")
    case True
    with results_ok_snoc(2) [OF assms] show ?thesis by blast
  next
    case False
    with it have "items c' = items ?s" by simp
    with ti sc(2) have same: "results_ok c' n = results_ok ?s n"
      by (simp add: results_ok_def calls_len_def call_at_def)
    have "results_ok ?s n"
      using assms(1) sc(1-3) sc(4) sc(5) [OF t] by (simp add: results_ok_def)
    with same show ?thesis by blast
  qed
  ultimately show ?thesis by (simp add: batch_kept_def ti)
qed

lemma append_step_kept:
  assumes "results_ok c n" and "n < calls_len c" and "tool_grouped (items c)" and "steady c c1"
    and "append_tool_result env (c1\<lparr>tool_task := tt, tool_cancel_requested := tcr\<rparr>) n result = (rc, c')"
  shows "batch_kept c c'"
proof -
  let ?b = "c1\<lparr>tool_task := tt, tool_cancel_requested := tcr\<rparr>"
  have "results_ok ?b n" "n < calls_len ?b" "tool_grouped (items ?b)"
    using assms(1-4) by (simp_all add: steady_def results_ok_def calls_len_def call_at_def)
  from append_batch_kept [OF this assms(5)] have "batch_kept ?b c'" .
  moreover have "batch_kept c ?b" using batch_kept_same [OF _ _ assms(1)] assms(4) by (simp add: steady_def)
  ultimately show ?thesis by (rule batch_kept_trans [rotated])
qed

text \<open>The steps of a batch: they keep it, and they stay in the tool states or end the turn.\<close>

definition kept :: "'w loop \<Rightarrow> 'w loop \<Rightarrow> bool" where
  "kept c c' \<longleftrightarrow> batch_kept c c' \<and> a_state c' \<in> {AGENT_WAIT_TOOL, AGENT_WAIT_USER, AGENT_ERROR}"

lemma kept_fail: "batch_kept c c' \<Longrightarrow> fail_turn c' = (o1, c'') \<Longrightarrow> kept c c''"
  using batch_kept_then [of c c' c''] by (auto simp: fail_turn_def kept_def)

lemma kept_steady: "kept c c' \<Longrightarrow> steady c' c'' \<Longrightarrow> kept c c''"
  using batch_kept_steady [of c c' c''] by (auto simp: kept_def steady_def)

lemma kept_then:
  assumes "batch_kept c c'" and "a_messages c'' = a_messages c'" and "tool_message_index c'' = tool_message_index c'"
    and "a_state c'' \<in> {AGENT_WAIT_TOOL, AGENT_WAIT_USER}"
  shows "kept c c''"
  using batch_kept_then [OF assms(1-3)] assms(4) by (auto simp: kept_def)

text \<open>After a result was appended: the turn fails, or an event is emitted and the cursor moves.\<close>

lemma after_append_kept:
  assumes "batch_kept c c1" and "a_state c1 = AGENT_WAIT_TOOL"
    and "(o1, c') = (if rc \<noteq> AGENT_OK then fail_turn c1
           else (None, (emit ev c1)\<lparr>tool_index := tool_index (emit ev c1) + 1\<rparr>))"
  shows "kept c c'"
proof (cases "rc = AGENT_OK")
  case True
  have "steady c1 (emit ev c1)" by (rule quiet_steady [OF emit_quiet])
  with True assms show ?thesis by (intro kept_then [OF assms(1)]) (simp_all add: steady_def)
next
  case False
  with assms(3) kept_fail [OF assms(1)] show ?thesis by metis
qed

lemma wait_user_kept:
  assumes "history_ok c" and "a_state c = AGENT_WAIT_USER" and "wait_user_step env c = (o1, c')"
  shows "kept c c'"
proof -
  let ?k = "tool_index c"
  from assms have inv: "tool_grouped (items c)" "results_ok c ?k" "?k < calls_len c" by (auto simp: history_ok_def)
  have same: "kept c c''" if "a_messages c'' = a_messages c" "tool_message_index c'' = tool_message_index c"
    "a_state c'' \<in> {AGENT_WAIT_TOOL, AGENT_WAIT_USER}" for c''
    using that batch_kept_same [OF that(1,2) inv(2)] by (auto simp: kept_def)
  define msg where "msg = (if approval_granted c \<and> (?k \<noteq> approval_tool_index c \<or> \<not> approval_matches env c (call_at c ?k))
     then ''error: approval is stale; tool call changed'' else ''error: tool execution denied by user'')"
  obtain rc c1 where a: "append_tool_rejection env c ?k msg = (rc, c1)" by (metis surj_pair)
  have k: "batch_kept c c1" by (rule append_batch_kept [OF inv(2,3,1) a [unfolded append_tool_rejection_def]])
  let ?e = "emit (tool_end_event (call_at c1 (tool_index c1)) True) c1"
  have se: "steady c1 ?e" by (rule quiet_steady [OF emit_quiet])
  have "c' = c \<or> fail_turn c1 = (o1, c') \<or>
    c' = ?e\<lparr>tool_index := tool_index ?e + 1, approval_pending := False, approval_decided := False,
            approval_granted := False, approval_digest_valid := False, a_state := AGENT_WAIT_TOOL\<rparr> \<or>
    c' = c\<lparr>approval_pending := False, approval_decided := False, approval_digest_valid := False,
           a_state := AGENT_WAIT_TOOL\<rparr>"
    using assms(3) a by (auto simp: wait_user_step_def Let_def msg_def split: if_splits prod.splits)
  then show ?thesis
  proof (elim disjE)
    assume "c' = c" with same assms(2) show ?thesis by simp
  next
    assume "fail_turn c1 = (o1, c')" with kept_fail [OF k] show ?thesis .
  next
    assume "c' = ?e\<lparr>tool_index := tool_index ?e + 1, approval_pending := False, approval_decided := False,
            approval_granted := False, approval_digest_valid := False, a_state := AGENT_WAIT_TOOL\<rparr>"
    with se kept_then [OF k, of c'] show ?thesis by (simp add: steady_def)
  next
    assume "c' = c\<lparr>approval_pending := False, approval_decided := False, approval_digest_valid := False,
           a_state := AGENT_WAIT_TOOL\<rparr>"
    with same show ?thesis by simp
  qed
qed

text \<open>A serial call, from a state that is steady with the batch or differs in the approval only.\<close>

lemma run_serial_kept:
  assumes "results_ok c (tool_index c)" and "tool_index c < calls_len c" and "tool_grouped (items c)"
    and "a_state c = AGENT_WAIT_TOOL" and "run_serial_tool env c = (o1, c')"
  shows "kept c c'"
proof -
  let ?e = "emit (tool_start_event (call_at c (tool_index c))) c"
  obtain rc pending c2 where s: "start_tool_call env ?e (tool_index c) = (rc, pending, c2)" by (metis surj_pair)
  have se: "steady c ?e" by (rule quiet_steady [OF emit_quiet])
  from start_tool_call_cases [OF s] show ?thesis
  proof (elim disjE conjE exE)
    fix c1 t assume p: pending "rc = AGENT_OK" "steady ?e c1"
      "c2 = c1\<lparr>tool_task := Some t, tool_cancel_requested := False\<rparr>"
    have st: "steady c c1" using se p(3) steady_trans by blast
    have "batch_kept c c2" using st batch_kept_same [OF _ _ assms(1)] by (simp add: p(4) steady_def)
    moreover have "a_state c2 = AGENT_WAIT_TOOL" using st assms(4) by (simp add: p(4) steady_def)
    moreover have "c' = c2" using p s assms(5) by (auto simp: run_serial_tool_def)
    ultimately show ?thesis by (simp add: kept_def)
  next
    fix c1 result assume np: "\<not> pending" "steady ?e c1" and a: "append_tool_result env c1 (tool_index c) result = (rc, c2)"
    have st: "steady c c1" using se np(2) steady_trans by blast
    have "c1\<lparr>tool_task := tool_task c1, tool_cancel_requested := tool_cancel_requested c1\<rparr> = c1" by simp
    with a have a': "append_tool_result env (c1\<lparr>tool_task := tool_task c1, tool_cancel_requested := tool_cancel_requested c1\<rparr>)
        (tool_index c) result = (rc, c2)" by simp
    have k: "batch_kept c c2" by (rule append_step_kept [OF assms(1-3) st a'])
    have "a_state c2 = AGENT_WAIT_TOOL" using append_frame(2) [OF a] st assms(4) by (simp add: steady_def)
    let ?ev = "tool_end_event (call_at c2 (tool_index c2)) (tc_is_error (call_at c2 (tool_index c2)))"
    have "(o1, c') = (if rc \<noteq> AGENT_OK then fail_turn c2
           else (None, (emit ?ev c2)\<lparr>tool_index := tool_index (emit ?ev c2) + 1\<rparr>))"
      unfolding assms(5) [symmetric] using np s by (simp add: run_serial_tool_def after_tool_def Let_def)
    from after_append_kept [OF k \<open>a_state c2 = AGENT_WAIT_TOOL\<close> this] show ?thesis .
  qed
qed

lemma begin_serial_kept:
  assumes "results_ok c (tool_index c)" and "tool_index c < calls_len c" and "tool_grouped (items c)"
    and "a_state c = AGENT_WAIT_TOOL" and "begin_serial_tool env c = (o1, c')"
  shows "kept c c'"
proof (cases "find_tool c (call_at c (tool_index c))")
  case None
  with run_serial_kept [OF assms(1-4)] assms(5) show ?thesis by (simp add: begin_serial_tool_def)
next
  case (Some tool)
  have quiet': "kept (c\<lparr>approval_granted := False\<rparr>) c' \<Longrightarrow> kept c c'"
    by (simp add: kept_def batch_kept_def)
  have serial': "kept c c'" if "run_serial_tool env (c\<lparr>approval_granted := False\<rparr>) = (o1, c')"
    by (rule quiet', rule run_serial_kept [OF _ _ _ _ that])
       (use assms in \<open>simp_all add: results_ok_def calls_len_def call_at_def\<close>)
  have reject: "kept c c'" if a: "append_tool_rejection env c (tool_index c) msg = (rc, c1)"
    and r: "(o1, c') = (if rc \<noteq> AGENT_OK then fail_turn c1
        else (None, (emit (tool_end_event (call_at c1 (tool_index c1)) True) c1)
            \<lparr>tool_index := tool_index (emit (tool_end_event (call_at c1 (tool_index c1)) True) c1) + 1\<rparr>))" for msg rc c1
  proof -
    note a' = a [unfolded append_tool_rejection_def]
    have "a_state c1 = AGENT_WAIT_TOOL" using append_frame(2) [OF a'] assms(4) by simp
    from after_append_kept [OF append_batch_kept [OF assms(1-3) a'] this r] show ?thesis .
  qed
  have ask: "kept c c'" if req: "request_approval env tool c = (o1, c')"
  proof -
    obtain c1 where c1: "a_messages c1 = a_messages c" "tool_message_index c1 = tool_message_index c"
      "a_state c1 = AGENT_WAIT_USER" "steady c1 c'"
    proof -
      let ?d = "approval_digest env (call_at c (tool_index c))"
      define b where "b = c\<lparr>approval_pending := True, approval_decided := False, approval_tool_index := tool_index c,
                 approval_digest_valid := (?d \<noteq> None),
                 approval_stored_digest := (case ?d of Some d \<Rightarrow> d | None \<Rightarrow> approval_stored_digest c),
                 a_state := AGENT_WAIT_USER\<rparr>"
      obtain preview c2 where p: "build_tool_preview tool (call_at c (tool_index c)) b = (preview, c2)" by (metis surj_pair)
      have "\<exists>ev. c' = ask_approval_cb ev (emit ev c2)"
        using req unfolding request_approval_def Let_def b_def [symmetric] p by auto
      moreover have "steady b (ask_approval_cb ev (emit ev c2))" for ev
        by (rule steady_trans [OF quiet_steady [OF build_tool_preview_quiet [OF p]]
            steady_trans [OF quiet_steady [OF emit_quiet] ask_approval_cb_steady]])
      ultimately show thesis using that [of b] by (auto simp: b_def)
    qed
    have "kept c c1" using batch_kept_same [OF c1(1,2) assms(1)] c1(3) by (simp add: kept_def)
    with c1(4) show ?thesis by (rule kept_steady [rotated])
  qed
  show ?thesis
  proof (cases "approval_required tool \<and> approval_host_missing c")
    case True
    obtain rc c1 where a: "append_tool_rejection env c (tool_index c)
        ''error: side-effecting tool denied; no approval host is available'' = (rc, c1)" by (metis surj_pair)
    have "(o1, c') = (if rc \<noteq> AGENT_OK then fail_turn c1
        else (None, (emit (tool_end_event (call_at c1 (tool_index c1)) True) c1)
            \<lparr>tool_index := tool_index (emit (tool_end_event (call_at c1 (tool_index c1)) True) c1) + 1\<rparr>))"
      unfolding assms(5) [symmetric] begin_serial_tool_def Let_def Some using True a by simp
    from reject [OF a this] show ?thesis .
  next
    case False
    with Some assms(5) ask serial' run_serial_kept [OF assms(1-4)] show ?thesis
      by (auto simp: begin_serial_tool_def split: if_splits)
  qed
qed

lemma append_parallel_kept:
  assumes "append_parallel_results env calls c = (rc, c')"
    and "results_ok c k" and "tool_grouped (items c)" and "map pc_tool_index calls = [k..<calls_len c]"
  shows "batch_kept c c'"
  using assms
proof (induction calls arbitrary: c k)
  case Nil
  then show ?case by (auto simp: batch_kept_def)
next
  case (Cons call calls)
  from Cons.prems(4) have k: "k < calls_len c" "pc_tool_index call = k" "map pc_tool_index calls = [Suc k..<calls_len c]"
    by (cases "k < calls_len c"; simp add: upt_conv_Cons)+
  obtain rc1 c1 where a: "append_tool_result env c k (pc_result call) = (rc1, c1)" by (metis surj_pair)
  note rs = results_ok_snoc [OF Cons.prems(2) k(1) Cons.prems(3) a]
  have kp: "batch_kept c c1" by (rule append_batch_kept [OF Cons.prems(2) k(1) Cons.prems(3) a])
  show ?case
  proof (cases "rc1 = AGENT_OK")
    case False
    with Cons.prems(1) a k(2) kp show ?thesis by auto
  next
    case True
    let ?e = "emit (tool_end_event (call_at c1 k) (tc_is_error (call_at c1 k))) c1"
    have se: "steady c1 ?e" by (rule quiet_steady [OF emit_quiet])
    from Cons.prems(1) a k(2) True have r: "append_parallel_results env calls ?e = (rc, c')" by (simp add: Let_def)
    have e: "results_ok ?e (Suc k)" "tool_grouped (items ?e)" "map pc_tool_index calls = [Suc k..<calls_len ?e]"
      using rs(1,2,3) True se k(3) results_ok_steady [OF se] calls_len_steady [OF se]
      by (simp_all add: steady_def)
    from batch_kept_trans [OF batch_kept_steady [OF kp se] Cons.IH [OF r e]] show ?thesis .
  qed
qed

lemma poll_batch_kept:
  assumes "batch_running c" and "poll_parallel_tools env c = (rc, done, c1)"
  shows "batch_kept c c1 \<and> a_state c1 = AGENT_WAIT_TOOL"
proof -
  from assms(1) have h: "history_ok c" and ws: "a_state c = AGENT_WAIT_TOOL" and ne: "parallel_tools c \<noteq> []"
    by (auto simp: batch_running_def)
  from h ne have z: "tool_index c = 0"
    and ix: "map pc_tool_index (parallel_tools c) = [0..<calls_len c]" by (auto simp: history_ok_def)
  note inv = history_tool_state [OF h ws, unfolded z]
  obtain calls c2 where p: "poll_parallel_calls (parallel_tools c) c = (calls, c2)" by (metis surj_pair)
  note pe = poll_parallel_calls_effect [OF p]
  then have st: "steady c c2" and ix2: "map pc_tool_index calls = [0..<calls_len c]" using ix by auto
  let ?c3 = "c2\<lparr>parallel_tools := calls\<rparr>"
  have k3: "batch_kept c ?c3" using batch_kept_same [OF _ _ inv(2)] st by (simp add: steady_def)
  show ?thesis
  proof (cases "list_all pc_done calls")
    case False
    then have c1: "c1 = ?c3" using assms(2) p by (simp add: poll_parallel_tools_def Let_def)
    have "a_state ?c3 = AGENT_WAIT_TOOL" using st ws by (simp add: steady_def)
    with c1 k3 show ?thesis by simp
  next
    case True
    obtain rc2 c4 where a: "append_parallel_results env calls ?c3 = (rc2, c4)" by (metis surj_pair)
    with True assms(2) p have r: "c1 = c4" by (auto simp: poll_parallel_tools_def Let_def)
    have o: "results_ok ?c3 0" "tool_grouped (items ?c3)" "map pc_tool_index calls = [0..<calls_len ?c3]"
      using inv st ix2 calls_len_steady [OF st] by (simp_all add: steady_def results_ok_def calls_len_def call_at_def)
    have "but_history ?c3 c4" using append_parallel_results_ok [OF a o] by simp
    then have "a_state c4 = AGENT_WAIT_TOOL" using st ws by (simp add: but_history_def steady_def)
    with batch_kept_trans [OF k3 append_parallel_kept [OF a o]] r show ?thesis by simp
  qed
qed

lemma wait_tool_kept:
  assumes "history_ok c0" and "a_state c0 = AGENT_WAIT_TOOL" and "wait_tool_step env c0 = (o1, c')"
  shows "kept c0 c' \<or>
    (parallel_tools c0 = [] \<and> tool_index c0 = calls_len c0 \<and> suspend_or_fail (start_request env c0) = (o1, c'))"
proof -
  define c where "c = (if parallel_tools c0 = [] \<and> \<not> not_batch c0 then start_parallel_tools c0 else c0)"
  have eq: "wait_tool_step env c0 =
     (if parallel_tools c \<noteq> [] then
        (let (rc, done, c1) = poll_parallel_tools env c in
         if rc \<noteq> AGENT_OK then fail_turn (parallel_tools_free c1)
         else if \<not> done then (Some AGENT_STEP_BUSY, c1)
         else (None, parallel_tools_free (c1\<lparr>tool_index := calls_len c1\<rparr>)))
      else if tool_index c < calls_len c then
        (if tool_task c \<noteq> None then
           (let (rc, done, c1) = poll_tool_call env c (tool_index c) in
            if rc \<noteq> AGENT_OK then fail_turn c1
            else if \<not> done then (Some AGENT_STEP_BUSY, c1)
            else after_tool c1)
         else begin_serial_tool env c)
      else suspend_or_fail (start_request env c))"
    by (simp add: wait_tool_step_def c_def not_batch_def Let_def)
  note inv = history_tool_state [OF assms(1,2)]
  show ?thesis
  proof (cases "parallel_tools c = []")
    case False
    have run: "batch_running c" and k0: "batch_kept c0 c"
    proof -
      consider "parallel_tools c0 = []" "\<not> not_batch c0" "c = start_parallel_tools c0" | "c = c0" "parallel_tools c0 \<noteq> []"
        using False by (auto simp: c_def split: if_splits)
      then have "batch_running c \<and> batch_kept c0 c"
      proof cases
        case 1
        obtain calls c1 where sp: "start_parallel_calls [0..<calls_len c0] c0 = (calls, c1)" by (metis surj_pair)
        with 1(3) have c: "c = c1\<lparr>parallel_tools := calls\<rparr>" by (simp add: start_parallel_tools_def)
        from start_parallel_calls_effect [OF sp] have "steady c0 c1" by simp
        then have "a_messages c = a_messages c0" "tool_message_index c = tool_message_index c0"
          by (simp_all add: c steady_def)
        from batch_kept_same [OF this inv(2)] start_batch [OF assms(1,2) 1(1,2)] 1(3) show ?thesis by simp
      next
        case 2
        with assms(1,2) batch_kept_same [OF _ _ inv(2), of c0] show ?thesis by (simp add: batch_running_def)
      qed
      then show "batch_running c" "batch_kept c0 c" by auto
    qed
    obtain rc dn c1 where p: "poll_parallel_tools env c = (rc, dn, c1)" by (metis surj_pair)
    from poll_batch_kept [OF run p] k0 have k1: "batch_kept c0 c1" "a_state c1 = AGENT_WAIT_TOOL"
      by (blast intro: batch_kept_trans)+
    have fr: "a_messages (parallel_tools_free x) = a_messages x \<and> a_state (parallel_tools_free x) = a_state x \<and>
        tool_message_index (parallel_tools_free x) = tool_message_index x" for x :: "'a loop"
      using parallel_free_steady [of x] by (simp add: steady_def)
    have free: "batch_kept c0 (parallel_tools_free (c1\<lparr>tool_index := i\<rparr>))" for i
      by (rule batch_kept_then [OF k1(1)]) (simp_all add: fr)
    have st: "a_state (parallel_tools_free (c1\<lparr>tool_index := i\<rparr>)) = AGENT_WAIT_TOOL" for i
      using k1(2) by (simp add: fr)
    have free1: "batch_kept c0 (parallel_tools_free c1)"
      by (rule batch_kept_then [OF k1(1)]) (simp_all add: fr)
    consider "fail_turn (parallel_tools_free c1) = (o1, c')" | "c' = c1"
      | "c' = parallel_tools_free (c1\<lparr>tool_index := calls_len c1\<rparr>)"
      using eq False assms(3) p by (auto split: if_splits)
    then have "kept c0 c'"
      by cases (use kept_fail [OF free1] k1 free st in \<open>auto simp: kept_def\<close>)
    then show ?thesis ..
  next
    case True
    have c0: "c = c0"
    proof (rule ccontr)
      assume "c \<noteq> c0"
      then have "parallel_tools c0 = []" "\<not> not_batch c0" "c = start_parallel_tools c0" by (auto simp: c_def split: if_splits)
      with start_batch [OF assms(1,2)] True show False by (simp add: batch_running_def)
    qed
    show ?thesis
    proof (cases "tool_index c0 < calls_len c0")
      case lt: True
      show ?thesis
      proof (cases "tool_task c0")
        case None
        have "begin_serial_tool env c0 = (o1, c')" using eq True c0 lt assms(3) None by simp
        from begin_serial_kept [OF inv(2) lt inv(1) assms(2) this] show ?thesis ..
      next
        case (Some t)
        obtain rc dn c1 where p: "poll_tool_call env c0 (tool_index c0) = (rc, dn, c1)" by (metis surj_pair)
        have e: "(if rc \<noteq> AGENT_OK then fail_turn c1 else if \<not> dn then (Some AGENT_STEP_BUSY, c1) else after_tool c1) = (o1, c')"
          using eq True c0 lt assms(3) Some p by simp
        from poll_tool_call_cases [OF p Some] show ?thesis
        proof (elim disjE conjE exE)
          assume "\<not> dn" "rc = AGENT_OK" and st: "steady c0 c1"
          with e have "c' = c1" by simp
          with batch_kept_same [OF _ _ inv(2), of c1] st assms(2) show ?thesis by (simp add: steady_def kept_def)
        next
          fix c2 result assume dn and st: "steady c0 c2"
            and a: "append_tool_result env (c2\<lparr>tool_task := None, tool_cancel_requested := False\<rparr>) (tool_index c0) result = (rc, c1)"
          have k: "batch_kept c0 c1" by (rule append_step_kept [OF inv(2) lt inv(1) st a])
          have "a_state c1 = AGENT_WAIT_TOOL" using append_frame(2) [OF a] st assms(2) by (simp add: steady_def)
          let ?ev = "tool_end_event (call_at c1 (tool_index c1)) (tc_is_error (call_at c1 (tool_index c1)))"
          have "(o1, c') = (if rc \<noteq> AGENT_OK then fail_turn c1
                 else (None, (emit ?ev c1)\<lparr>tool_index := tool_index (emit ?ev c1) + 1\<rparr>))"
            unfolding e [symmetric] using \<open>dn\<close> by (simp add: after_tool_def Let_def)
          from after_append_kept [OF k \<open>a_state c1 = AGENT_WAIT_TOOL\<close> this] show ?thesis ..
        qed
      qed
    next
      case False
      have "tool_index c0 \<le> calls_len c0" using inv(2) by (simp add: results_ok_def)
      with False True c0 eq assms(3) show ?thesis by simp
    qed
  qed
qed

section \<open>Every pass\<close>

lemma start_request_settled:
  assumes "start_request env c = (rc, c')" and "\<not> compaction_active c" and "tool_grouped (items c)"
    and "settled s (items c)"
  shows "settled s (items c') \<and> a_state c' = AGENT_WAIT_MODEL"
proof -
  define b where "b = c\<lparr>request_retries := 0, retry_pending := False\<rparr>"
  have eq: "start_request env c =
     (if \<not> skip_compaction_once b \<and> needs_compaction env b then
        (case start_compaction_request env b of (rc, c1) \<Rightarrow>
           if rc = AGENT_OK \<and> compaction_active c1 then (AGENT_OK, c1)
           else (case context_compact all_ok all_ok (a_messages c1) 10 of (_, msgs) \<Rightarrow>
                   start_model_request env (c1\<lparr>a_messages := msgs, skip_compaction_once := False\<rparr>)))
      else start_model_request env (b\<lparr>skip_compaction_once := False\<rparr>))"
    unfolding start_request_def Let_def b_def by (rule refl)
  have bf: "a_messages b = a_messages c" "\<not> compaction_active b" using assms(2) by (simp_all add: b_def)
  note st = start_request_effect [OF assms(1-3)]
  have "settled s (items c')"
  proof (cases "\<not> skip_compaction_once b \<and> needs_compaction env b")
    case False
    then have "start_model_request env (b\<lparr>skip_compaction_once := False\<rparr>) = (rc, c')"
      using assms(1) by (auto simp: eq)
    from start_model_request_effect [OF this] bf assms(4) show ?thesis by simp
  next
    case True
    obtain rc1 c1 where sc: "start_compaction_request env b = (rc1, c1)"
      by (cases "start_compaction_request env b")
    from start_compaction_request_effect [OF sc bf(2)] bf(1) have m: "a_messages c1 = a_messages c" by simp
    show ?thesis
    proof (cases "rc1 = AGENT_OK \<and> compaction_active c1")
      case act: True
      with True assms(1) sc have "c' = c1" by (simp add: eq)
      with m assms(4) show ?thesis by simp
    next
      case inact: False
      obtain e2 msgs where cc: "context_compact all_ok all_ok (a_messages c1) 10 = (e2, msgs)"
        by (cases "context_compact all_ok all_ok (a_messages c1) 10")
      with True assms(1) sc inact
      have "start_model_request env (c1\<lparr>a_messages := msgs, skip_compaction_once := False\<rparr>) = (rc, c')"
        by (auto simp: eq)
      from start_model_request_effect [OF this] compact_settled [OF cc [unfolded m] assms(3,4)] show ?thesis by simp
    qed
  qed
  with st show ?thesis by simp
qed

lemma request_conversation:
  assumes "start_request env c = (rc, c1)" and "\<not> compaction_active c" and "tool_grouped (items c)"
    and "settled s (items c)" and "suspend_or_fail (rc, c1) = (o1, c')"
  shows "conversation s c'"
  using start_request_settled [OF assms(1-4)] assms(5)
  by (auto simp: suspend_or_fail_def fail_turn_def conversation_def settled_def split: if_splits)

lemma finish_compaction_settled:
  assumes "history_ok c" and "compaction_active c" and "settled s (items c)"
  shows "settled s (items (finish_compaction env c))"
proof -
  from assms have g: "tool_grouped (items c)"
    and b: "compaction_bounds (items c) 10 = (cr_start (compaction c), cr_count (compaction c))" "0 < cr_count (compaction c)"
    by (auto simp: history_ok_def)
  show ?thesis
  proof (cases "a_messages (finish_compaction env c) = a_messages c")
    case False
    with finish_compaction_effect [of c env] obtain t where
      "context_compaction_apply all_ok (a_messages c) (compaction c) (Some t) =
         (AGENT_OK, a_messages (finish_compaction env c))" by auto
    from apply_settled [OF this g assms(3)] bounds_start_not_tool [OF g b] show ?thesis by simp
  qed (simp add: assms(3))
qed

lemma wait_model_error_items:
  assumes "a_state c = AGENT_WAIT_MODEL" and "wait_model_error env c = (o1, c')"
  shows "items c' = items c \<and> a_state c' \<in> {AGENT_WAIT_MODEL, AGENT_ERROR}"
proof -
  have report: "items c' = items c \<and> a_state c' \<in> {AGENT_WAIT_MODEL, AGENT_ERROR}"
    if "report_model_error x = (o1, c')" "items x = items c" for x
  proof -
    have "steady x (emit ev x)" for ev by (rule quiet_steady [OF emit_quiet])
    with that show ?thesis by (auto simp: report_model_error_def fail_turn_def steady_def)
  qed
  show ?thesis
  proof (cases "retry_pending c")
    case True
    obtain el c2 where r: "retry_delay_elapsed env c = (el, c2)" by (cases "retry_delay_elapsed env c")
    then have s: "steady c c2"
      by (auto simp: retry_delay_elapsed_def Let_def split: prod.splits dest: ask_clock_quiet intro: quiet_steady)
    obtain rc c3 where m: "start_model_request env (c2\<lparr>retry_pending := False\<rparr>) = (rc, c3)" by (metis surj_pair)
    note e = start_model_request_effect [OF m]
    show ?thesis
    proof (cases "el \<and> rc \<noteq> AGENT_OK")
      case True2: True
      with True r m assms(2) report [of "c3\<lparr>lctx := (lctx c3)\<lparr>lc_error := True, lc_error_code := error_value rc,
          lc_error_msg := ''failed to restart model request''\<rparr>\<rparr>"] e s show ?thesis
        by (simp add: wait_model_error_def steady_def)
    next
      case False
      have "c' = c2 \<or> c' = c3" using False True r m assms(2) by (auto simp: wait_model_error_def split: if_splits)
      moreover have "items c2 = items c" "a_state c2 = AGENT_WAIT_MODEL" using s assms(1) by (simp_all add: steady_def)
      ultimately show ?thesis using e by auto
    qed
  next
    case False
    define b where "b = c\<lparr>request_retries := request_retries c + 1\<rparr>"
    obtain c2 t where k: "ask_clock env b = (t, c2)" by (metis surj_pair)
    have "\<exists>ra. schedule_retry_delay env b = c2\<lparr>retry_at := ra, retry_pending := True\<rparr>"
      by (rule exI, unfold schedule_retry_delay_def Let_def k split_beta fst_conv snd_conv, rule refl)
    then obtain ra where ra: "schedule_retry_delay env b = c2\<lparr>retry_at := ra, retry_pending := True\<rparr>" by blast
    have "items c2 = items c" "a_state c2 = AGENT_WAIT_MODEL"
      using quiet_steady [OF ask_clock_quiet [OF k]] assms(1) by (simp_all add: steady_def b_def)
    moreover have "steady (c2\<lparr>retry_at := ra, retry_pending := True\<rparr>) (emit ev (c2\<lparr>retry_at := ra, retry_pending := True\<rparr>))" for ev
      by (rule quiet_steady [OF emit_quiet])
    ultimately have se: "items (emit ev (schedule_retry_delay env b)) = items c \<and>
        a_state (emit ev (schedule_retry_delay env b)) = AGENT_WAIT_MODEL" for ev
      unfolding ra by (simp add: steady_def)
    have "report_model_error c = (o1, c') \<or> (\<exists>ev. c' = emit ev (schedule_retry_delay env b))"
      using assms(2) False by (auto simp: wait_model_error_def Let_def b_def split: if_splits)
    with report [of c] se show ?thesis by auto
  qed
qed

lemma cut_no_calls: "request_hit_output_limit c \<Longrightarrow> m_tool_calls (assistant_message c) = []"
  by (simp add: assistant_message_def Let_def)

lemma wait_model_complete_conversation:
  assumes "history_ok c0" and "a_state c0 = AGENT_WAIT_MODEL" and "\<not> compaction_active c0"
    and "settled s (items c0)" and "wait_model_complete env c0 = (o1, c')"
  shows "conversation s c'"
proof -
  define am where "am = assistant_message c0"
  define c where "c = c0\<lparr>output_continuation_active := False,
                 output_limit_continuations := (if \<not> request_hit_output_limit c0 then 0 else output_limit_continuations c0),
                 lctx := (lctx c0)\<lparr>lc_text := None, lc_reasoning := None, lc_tool_calls := []\<rparr>,
                 a_messages := history_append (a_messages c0) am\<rparr>"
  define c1 where "c1 = log_message env am c"
  have q: "steady c c1" by (simp add: c1_def quiet_steady [OF log_message_quiet])
  have it: "items c1 = items c0 @ [am]" using q by (simp add: steady_def c_def)
  have p: "protocol s (items c1) \<and> unanswered (items c1) = map tc_id (m_tool_calls am)"
    unfolding it by (rule settled_assistant [OF _ assms(4)]) (simp add: am_def)
  have g: "tool_grouped (items c1)" using assms(1) it by (simp add: history_ok_def am_def tool_grouped_snoc)
  have f: "\<not> compaction_active c1" "\<not> approval_pending c1"
    using q assms(1-3) by (simp_all add: steady_def c_def history_ok_def)
  have fail: "conversation s x" if "fail_turn (emit ev c1) = (o1, x)" for ev x
  proof -
    have "items (emit ev c1) = items c1" using quiet_steady [OF emit_quiet [of c1 ev]] by (simp add: steady_def)
    moreover have "x = (emit ev c1)\<lparr>a_state := AGENT_ERROR, in_turn := False\<rparr>" using that by (simp add: fail_turn_def)
    ultimately show ?thesis using p by (simp add: conversation_def)
  qed
  show ?thesis
  proof (cases "request_hit_output_limit c0")
    case True
    define c2 where "c2 = c1\<lparr>output_limit_continuations := output_limit_continuations c1 + 1,
                       output_continuation_active := True\<rparr>"
    have "(\<exists>ev. fail_turn (emit ev c1) = (o1, c')) \<or> (\<exists>ev. suspend_or_fail (start_request env (emit ev c2)) = (o1, c'))"
      using assms(5) True unfolding wait_model_complete_def Let_def am_def [symmetric] c2_def c1_def c_def
      by (auto simp: am_def [symmetric] split: if_splits)
    then show ?thesis
    proof (elim disjE exE)
      fix ev assume su: "suspend_or_fail (start_request env (emit ev c2)) = (o1, c')"
      obtain rc c3 where r: "start_request env (emit ev c2) = (rc, c3)" by (metis surj_pair)
      have st: "steady c2 (emit ev c2)" by (rule quiet_steady [OF emit_quiet])
      have "\<not> compaction_active (emit ev c2)" "tool_grouped (items (emit ev c2))" "settled s (items (emit ev c2))"
        using st f g p cut_no_calls [OF True] by (simp_all add: steady_def c2_def settled_def am_def)
      from request_conversation [OF r this] su r show ?thesis by simp
    qed (use fail in blast)
  next
    case no: False
    define c3 where "c3 = (let c2 = c1\<lparr>a_state := AGENT_WAIT_TOOL,
                    a_tool_call_count := a_tool_call_count c1 + of_nat (length (m_tool_calls am))\<rparr> in
             with_session (\<lambda>s. s\<lparr>s_tool_call_count := a_tool_call_count c2\<rparr>) c2)"
    have i3: "items c3 = items c1" "a_state c3 = AGENT_WAIT_TOOL" "\<not> approval_pending c3"
      using f(2) by (simp_all add: c3_def with_session_def Let_def split: option.split)
    have "(\<exists>ev. fail_turn (emit ev c1) = (o1, c')) \<or>
        (m_tool_calls am = [] \<and> c' = c1\<lparr>a_state := AGENT_DONE, in_turn := False\<rparr>) \<or>
        wait_user_step env (c3\<lparr>tool_message_index := length (items c3) - 1, tool_index := 0\<rparr>) = (o1, c')"
      using assms(5) no unfolding wait_model_complete_def Let_def am_def [symmetric] c3_def c1_def c_def
      by (auto simp: am_def [symmetric] split: if_splits)
    then show ?thesis
    proof (elim disjE exE conjE)
      assume "m_tool_calls am = []" "c' = c1\<lparr>a_state := AGENT_DONE, in_turn := False\<rparr>"
      with p show ?thesis by (simp add: conversation_def settled_def)
    next
      assume "wait_user_step env (c3\<lparr>tool_message_index := length (items c3) - 1, tool_index := 0\<rparr>) = (o1, c')"
      with wait_user_busy [of "c3\<lparr>tool_message_index := length (items c3) - 1, tool_index := 0\<rparr>" env] i3
      have c': "c' = c3\<lparr>tool_message_index := length (items c3) - 1, tool_index := 0\<rparr>" by simp
      with assms(4) i3 it show ?thesis by (simp add: conversation_def)
    qed (use fail in blast)
  qed
qed

lemma kept_conversation:
  assumes "conversation s c" and "a_state c \<in> {AGENT_WAIT_TOOL, AGENT_WAIT_USER}" and "kept c c'"
  shows "conversation s c'"
proof -
  have base: "settled s (take (tool_message_index c') (items c'))"
    using assms by (auto simp: conversation_def kept_def batch_kept_def)
  moreover obtain n where "results_ok c' n" using assms(3) by (auto simp: kept_def batch_kept_def)
  ultimately have "protocol s (items c')" using results_protocol by blast
  with base assms(3) show ?thesis by (auto simp: conversation_def kept_def)
qed

lemma conversation_protocol:
  assumes "history_ok c" and "conversation s c"
  shows "protocol s (items c)"
  using assms results_protocol [of c "tool_index c" s]
  by (auto simp: conversation_def settled_def history_ok_def split: if_splits)

lemma cancel_conversation:
  assumes "history_ok c" and "conversation s c" and "cancel_step env c = (o1, c')"
  shows "conversation s c'"
proof -
  note e = cancel_step_effect [OF assms(3)]
  have p: "protocol s (items c')" using conversation_protocol [OF assms(1,2)] e by simp
  show ?thesis
  proof (cases "a_state c' = a_state c")
    case True
    with e show ?thesis by (intro conversation_same [OF assms(2)]) auto
  next
    case False
    with e p show ?thesis by (auto simp: conversation_def)
  qed
qed

lemma resume_iter_conversation:
  assumes "history_ok c" and "conversation s c" and "resume_iter env c = (o1, c')"
  shows "conversation s c'"
proof (cases "cancel_token_check (a_cancel c # e_ancestors env (world c))")
  case True
  with assms(3) have "cancel_step env c = (o1, c')" by (simp add: resume_iter_def)
  from cancel_conversation [OF assms(1,2) this] show ?thesis .
next
  case False
  have stop: "conversation s (c\<lparr>in_turn := b\<rparr>)" for b by (rule conversation_same [OF assms(2)]) simp_all
  show ?thesis
  proof (cases "a_state c")
    case AGENT_READY
    obtain rc c1 where r: "start_request env c = (rc, c1)" by (metis surj_pair)
    from AGENT_READY assms(1,2) have "\<not> compaction_active c" "tool_grouped (items c)" "settled s (items c)"
      by (auto simp: history_ok_def conversation_def)
    from request_conversation [OF r this] assms(3) False AGENT_READY r show ?thesis by (simp add: resume_iter_def)
  next
    case AGENT_WAIT_MODEL
    with False assms(3) have w: "wait_model_step env c = (o1, c')" by (simp add: resume_iter_def)
    have st: "settled s (items c)" using assms(2) AGENT_WAIT_MODEL by (simp add: conversation_def)
    consider "c' = c" | "compaction_active c" "c' = finish_compaction env c"
      | "\<not> compaction_active c" "wait_model_error env c = (o1, c')"
      | "\<not> compaction_active c" "wait_model_complete env c = (o1, c')"
      using w by (auto simp: wait_model_step_def split: if_splits)
    then show ?thesis
    proof cases
      case 1
      with assms(2) show ?thesis by simp
    next
      case 2
      with finish_compaction_settled [OF assms(1) _ st] finish_compaction_effect [of c env] show ?thesis
        by (simp add: conversation_def)
    next
      case 3
      from wait_model_error_items [OF AGENT_WAIT_MODEL 3(2)] st show ?thesis
        by (auto simp: conversation_def settled_def)
    next
      case 4
      from wait_model_complete_conversation [OF assms(1) AGENT_WAIT_MODEL 4(1) st 4(2)] show ?thesis .
    qed
  next
    case AGENT_WAIT_TOOL
    with False assms(3) have w: "wait_tool_step env c = (o1, c')" by (simp add: resume_iter_def)
    from wait_tool_kept [OF assms(1) AGENT_WAIT_TOOL w] show ?thesis
    proof (elim disjE conjE)
      assume "kept c c'"
      with kept_conversation [OF assms(2)] AGENT_WAIT_TOOL show ?thesis by simp
    next
      assume e: "tool_index c = calls_len c" "suspend_or_fail (start_request env c) = (o1, c')"
      obtain rc c1 where r: "start_request env c = (rc, c1)" by (metis surj_pair)
      note inv = history_tool_state [OF assms(1) AGENT_WAIT_TOOL]
      have "settled s (take (tool_message_index c) (items c))"
        using assms(2) AGENT_WAIT_TOOL by (simp add: conversation_def)
      from results_protocol [OF inv(2) this] e(1) have "settled s (items c)"
        by (simp add: settled_def calls_len_def)
      from request_conversation [OF r inv(3,1) this] e(2) r show ?thesis by simp
    qed
  next
    case AGENT_WAIT_USER
    with False assms(3) have "wait_user_step env c = (o1, c')" by (simp add: resume_iter_def)
    from wait_user_kept [OF assms(1) AGENT_WAIT_USER this] kept_conversation [OF assms(2)] AGENT_WAIT_USER
    show ?thesis by simp
  qed (use False assms(3) stop in \<open>auto simp: resume_iter_def\<close>)
qed

lemma resume_conversation:
  assumes "history_ok c" and "conversation s c" and "agent_resume env c = Some (r, c')"
  shows "conversation s c'"
  using agent_loop.result_of_pass [where J = "conversation s", OF assms(1,3,2)] resume_iter_conversation by blast

text \<open>A new turn: its user message leaves nothing open, and interrupts nothing unless the turn before
  it was cancelled or failed.\<close>

lemma begin_conversation:
  assumes "protocol s (items c)" and "s \<longrightarrow> unanswered (items c) = []"
  shows "conversation s (begin_turn env txt c)"
proof -
  define c1 where "c1 = (if a_state c = AGENT_CANCELLED then c\<lparr>a_cancel := (a_cancel c)\<lparr>ct_cancelled := False\<rparr>\<rparr> else c)"
  define um where "um = (message_new MSG_USER)\<lparr>m_content := Some txt\<rparr>"
  have f: "items (log_message env um c1) = items c"
    using quiet_steady [OF log_message_quiet [of c1 env um]] by (simp add: steady_def c1_def)
  have "m_role um = MSG_USER" by (simp add: um_def message_new_def)
  from settled_user [OF this assms] f show ?thesis
    by (simp add: begin_turn_def Let_def c1_def [symmetric] um_def [symmetric] conversation_def)
qed

definition clean_step :: "bool \<Rightarrow> 'w env \<Rightarrow> (host_call \<Rightarrow> bool) \<Rightarrow> ('w \<Rightarrow> 'w \<Rightarrow> bool) \<Rightarrow> 'w loop \<Rightarrow> 'w loop \<Rightarrow> bool" where
  "clean_step strict env H W c c' \<longleftrightarrow>
     host_step env H W c c' \<and> (strict \<longrightarrow> a_state c \<notin> {AGENT_ERROR, AGENT_CANCELLED})"

lemma clean_step_conversation:
  assumes "clean_step s env H W c c'" and "history_ok c" and "conversation s c"
  shows "conversation s c'"
proof -
  from assms(1) have h: "host_step env H W c c'" and cl: "s \<longrightarrow> a_state c \<notin> {AGENT_ERROR, AGENT_CANCELLED}"
    by (auto simp: clean_step_def)
  from h show ?thesis
  proof (cases rule: host_step.cases)
    case (Start inp e)
    have b: "conversation s (begin_turn env inp c)"
      by (rule begin_conversation [OF conversation_protocol [OF assms(2,3)]])
         (use assms(3) cl Start(1) in \<open>auto simp: conversation_def settled_def\<close>)
    have hb: "history_ok (begin_turn env inp c)"
      by (rule history_ok_begin) (use at_rest_fields [of c] assms(2) Start(1) in \<open>simp_all add: at_rest_def\<close>)
    consider "c' = c" | r where "agent_resume env (begin_turn env inp c) = Some (r, c')"
      using Start(2) by (auto simp: agent_start_def split: if_splits option.splits)
    then show ?thesis by cases (use assms(3) resume_conversation [OF hb b] in auto)
  next
    case (Resume r)
    with resume_conversation [OF assms(2,3)] show ?thesis by blast
  next
    case (Events evs)
    with conversation_steady [OF assms(3) deliver_events_steady] show ?thesis by simp
  next
    case (World w)
    with conversation_steady [OF assms(3) quiet_steady [OF world_quiet]] show ?thesis by simp
  next
    case (Call h)
    with conversation_steady [OF assms(3) quiet_steady [OF do_host_call_quiet]] show ?thesis by simp
  qed
qed

lemma reachable_conversation:
  assumes "(clean_step s env H W)\<^sup>*\<^sup>* c c'" and "history_ok c" and "conversation s c"
  shows "history_ok c' \<and> conversation s c'"
  using assms
proof induction
  case (step y z)
  with clean_step_conversation [OF step.hyps(2)] host_step_history_ok show ?case by (auto simp: clean_step_def)
qed simp

text \<open>C3: the conversation the loop builds follows the tool protocol in every state that can be
  reached from an agent at rest whose history does.  Without \<open>strict\<close>, whatever happened: every
  tool message answers the next open call of the assistant message before it, with its id, in call
  order, and no assistant message comes while a call is open.  With \<open>strict\<close>, as long as no turn is
  started after one that failed or was cancelled, nothing at all comes between the calls and their
  answers.  Whenever a request may go out or is out, and when a turn is done, no call is open;
  during a batch exactly the calls from the current one on are.\<close>

theorem tool_results_in_order:
  assumes "at_rest c" and "protocol strict (items c)"
    and "a_state c \<in> {AGENT_READY, AGENT_DONE} \<Longrightarrow> unanswered (items c) = []"
    and "(clean_step strict env H W)\<^sup>*\<^sup>* c c'"
  shows "protocol strict (items c') \<and>
         (a_state c' \<in> {AGENT_READY, AGENT_WAIT_MODEL, AGENT_DONE} \<longrightarrow> unanswered (items c') = []) \<and>
         (a_state c' \<in> {AGENT_WAIT_TOOL, AGENT_WAIT_USER} \<longrightarrow>
            length (items c') = tool_message_index c' + 1 + tool_index c' \<and>
            map m_tool_call_id (drop (tool_message_index c' + 1) (items c')) =
              map tc_id (take (tool_index c') (m_tool_calls (items c' ! tool_message_index c'))) \<and>
            unanswered (items c') =
              map tc_id (drop (tool_index c') (m_tool_calls (items c' ! tool_message_index c'))))"
proof -
  have c: "conversation strict c"
    using assms(1-3) by (auto simp: at_rest_def conversation_def settled_def)
  have "history_ok c" using assms(1) by (simp add: at_rest_def)
  from reachable_conversation [OF assms(4) this c] have h: "history_ok c'" and k: "conversation strict c'" by auto
  have "length (items c') = tool_message_index c' + 1 + tool_index c' \<and>
        map m_tool_call_id (drop (tool_message_index c' + 1) (items c')) =
          map tc_id (take (tool_index c') (m_tool_calls (items c' ! tool_message_index c'))) \<and>
        unanswered (items c') =
          map tc_id (drop (tool_index c') (m_tool_calls (items c' ! tool_message_index c')))"
    if "a_state c' \<in> {AGENT_WAIT_TOOL, AGENT_WAIT_USER}"
  proof -
    have r: "results_ok c' (tool_index c')" using h that by (auto simp: history_ok_def)
    have "settled strict (take (tool_message_index c') (items c'))" using k that by (simp add: conversation_def)
    moreover have "map m_tool_call_id (drop (tool_message_index c' + 1) (items c')) =
        map tc_id (take (tool_index c') (m_tool_calls (items c' ! tool_message_index c')))"
      by (rule nth_equalityI) (use r in \<open>auto simp: results_ok_def calls_len_def call_at_def\<close>)
    ultimately show ?thesis using results_protocol [OF r] r by (simp add: results_ok_def)
  qed
  moreover have "unanswered (items c') = []" if "a_state c' \<in> {AGENT_READY, AGENT_WAIT_MODEL, AGENT_DONE}"
    using k that by (auto simp: conversation_def settled_def)
  ultimately show ?thesis using conversation_protocol [OF h k] by blast
qed

theorem tool_results_in_order_witness:
  "\<exists>r d. agent_resume still_env (loop_state (fst (agent_new 1 None None)) (0 :: nat)) = Some (r, d) \<and> protocol True (items d)"
proof -
  let ?c = "loop_state (fst (agent_new 1 None None)) (0 :: nat)"
  have rest: "at_rest ?c" by (rule at_rest_fresh)
  then have "history_ok ?c" unfolding at_rest_def by blast
  from resume_returns [OF this] obtain r d where r: "agent_resume still_env ?c = Some (r, d)" by blast
  have e: "items ?c = []" "a_state ?c = AGENT_READY"
    by (simp_all add: loop_state_def agent_new_def agent.extend_def loop.fields_def Let_def)
  have "clean_step True still_env (\<lambda>_. True) (\<lambda>_ _. True) ?c d"
    using host_step.Resume [OF r] e(2) by (simp add: clean_step_def)
  then have "(clean_step True still_env (\<lambda>_. True) (\<lambda>_ _. True))\<^sup>*\<^sup>* ?c d" by blast
  from tool_results_in_order [OF rest _ _ this] e r show ?thesis by (simp add: protocol_def unanswered_def)
qed

text \<open>Why \<open>strict\<close> needs its restriction: a turn cancelled with calls open leaves them open, and the
  user message of the next turn comes right after them, so its request is one the providers refuse.\<close>

theorem interrupted_batch_refused:
  assumes "history_ok c" and "conversation False c" and "a_state c = AGENT_WAIT_TOOL" and "tool_index c < calls_len c"
    and "cancel_step env c = (Some AGENT_STEP_CANCELLED, d)"
  shows "\<not> protocol True (items (begin_turn env txt d))"
proof -
  have i: "items d = items c" using cancel_step_effect [OF assms(5)] by simp
  have r: "results_ok c (tool_index c)" using history_tool_state [OF assms(1,3)] by simp
  have "settled False (take (tool_message_index c) (items c))" using assms(2,3) by (simp add: conversation_def)
  from results_protocol [OF r this] assms(4) have u: "unanswered (items c) \<noteq> []" by (simp add: calls_len_def)
  define um where "um = (message_new MSG_USER)\<lparr>m_content := Some txt\<rparr>"
  have f: "items (begin_turn env txt d) = items d @ [um]"
    using quiet_steady [OF log_message_quiet [where env = env and m = um]]
    by (simp add: begin_turn_def Let_def um_def [symmetric] steady_def)
  have "m_role um = MSG_USER" by (simp add: um_def message_new_def)
  with u show ?thesis by (simp add: f i protocol_append admits_def)
qed

end
