(* ===== verification/Loop_Props.thy ===== *)
theory Loop_Props
  imports Loop_Pass
begin

text \<open>
  Further behaviour of the agent loop: retries with back-off, truncated model output,
  cancellation, request ids, and what compaction and its cancellation leave undone.
\<close>

section \<open>Retries\<close>

lemma retry_delay_values:
  assumes "0 < n"
  shows "retry_delay_ms n = (if n > 5 then 8000 else 250 * 2 ^ (n - 1))"
proof (cases "n > 5")
  case False
  with assms have "n = 1 \<or> n = 2 \<or> n = 3 \<or> n = 4 \<or> n = 5" by arith
  then show ?thesis by (elim disjE) (simp_all add: retry_delay_ms_def push_bit_eq_mult)
qed (simp add: retry_delay_ms_def push_bit_eq_mult)

lemma retry_delay_range: "0 < n \<Longrightarrow> 250 \<le> retry_delay_ms n \<and> retry_delay_ms n \<le> 8000"
proof -
  assume n: "0 < n"
  show ?thesis
  proof (cases "n > 5")
    case False
    with n have "n = 1 \<or> n = 2 \<or> n = 3 \<or> n = 4 \<or> n = 5" by arith
    then show ?thesis by (elim disjE) (simp_all add: retry_delay_values)
  qed (simp add: retry_delay_values)
qed

text \<open>The deadline in nanoseconds.\<close>

definition nanoseconds :: "timespec \<Rightarrow> int" where
  "nanoseconds t = fst t * 1000000000 + snd t"

lemma schedule_deadline:
  assumes "e_clock env (world c) = (now, w)" and "0 \<le> snd now" and "snd now < 1000000000" and "0 < request_retries c"
  shows "retry_pending (schedule_retry_delay env c) \<and>
         nanoseconds (retry_at (schedule_retry_delay env c)) = nanoseconds now + retry_delay_ms (request_retries c) * 1000000 \<and>
         0 \<le> snd (retry_at (schedule_retry_delay env c)) \<and> snd (retry_at (schedule_retry_delay env c)) < 1000000000"
proof -
  define d where "d = retry_delay_ms (request_retries c)"
  have d: "0 \<le> d" "c_div d 1000 = d div 1000" using retry_delay_range [OF assms(4)] by (simp_all add: d_def c_div_def)
  have m: "d - d div 1000 * 1000 = d mod 1000" by (simp add: minus_div_mult_eq_mod)
  have b: "0 \<le> d mod 1000" "d mod 1000 < 1000" by simp_all
  obtain sec nsec where now: "now = (sec, nsec)" by (cases now)
  define ns where "ns = nsec + (d mod 1000) * 1000000"
  have ns: "0 \<le> ns" "ns < 2000000000" using assms(2,3) now b by (simp_all add: ns_def)
  have r: "retry_at (schedule_retry_delay env c) =
      (if ns \<ge> 1000000000 then (sec + d div 1000 + 1, ns - 1000000000) else (sec + d div 1000, ns))"
    and p: "retry_pending (schedule_retry_delay env c)"
    using assms(1) d m by (simp_all add: schedule_retry_delay_def ask_clock_def Let_def now d_def [symmetric] ns_def)
  have e: "d div 1000 * 1000000000 + d mod 1000 * 1000000 = d * 1000000"
    using div_mult_mod_eq [of d 1000] by linarith
  show ?thesis using p ns e by (auto simp: r nanoseconds_def now d_def [symmetric] ns_def algebra_simps)
qed

lemma schedule_retry_frame:
  "a_messages (schedule_retry_delay env c) = a_messages c \<and> request_retries (schedule_retry_delay env c) = request_retries c \<and>
   a_state (schedule_retry_delay env c) = a_state c \<and> a_runtime (schedule_retry_delay env c) = a_runtime c"
  by (simp add: schedule_retry_delay_def ask_clock_def Let_def split: prod.splits)

lemma emit_frame:
  "a_messages (emit ev c) = a_messages c \<and> request_retries (emit ev c) = request_retries c \<and> a_state (emit ev c) = a_state c \<and>
   retry_pending (emit ev c) = retry_pending c \<and> retry_at (emit ev c) = retry_at c"
  using quiet_steady [OF emit_quiet [of c ev]] by (simp add: steady_def)

text \<open>Retries. A failed request is retried exactly when nothing of the answer has arrived yet, the
  error is transient and the configured number of retries is not used up; the retry waits for 250 ms
  doubled per retry, at most 8 s, after the current time, on a normalised deadline. Otherwise the
  turn ends with an error. Either way the history is left as it is.\<close>

theorem retry_backoff:
  assumes "\<not> retry_pending c" and "wait_model_error env c = (o1, c')"
    and "e_clock env (world c) = (now, w)" and "0 \<le> snd now" and "snd now < 1000000000"
  shows "a_messages c' = a_messages c \<and>
    (if no_partial_output c \<and> retryable_model_error (lc_error_code (lctx c)) \<and> int (request_retries c) < max_retries c
     then o1 = Some AGENT_STEP_BUSY \<and> a_state c' = a_state c \<and> retry_pending c' \<and>
          request_retries c' = request_retries c + 1 \<and> int (request_retries c') \<le> max_retries c \<and>
          nanoseconds (retry_at c') = nanoseconds now +
            (if request_retries c' > 5 then 8000 else 250 * 2 ^ request_retries c) * 1000000 \<and>
          0 \<le> snd (retry_at c') \<and> snd (retry_at c') < 1000000000
     else o1 = Some AGENT_STEP_ERROR \<and> a_state c' = AGENT_ERROR \<and> \<not> in_turn c')"
proof (cases "no_partial_output c \<and> retryable_model_error (lc_error_code (lctx c)) \<and> int (request_retries c) < max_retries c")
  case True
  define c0 where "c0 = c\<lparr>request_retries := request_retries c + 1\<rparr>"
  have pos: "0 < request_retries c0" "world c0 = world c" by (simp_all add: c0_def)
  note d = schedule_deadline [of env c0, unfolded pos(2), OF assms(3-5) pos(1)]
  note f = schedule_retry_frame [of env c0]
  obtain ev where "o1 = Some AGENT_STEP_BUSY" "c' = emit ev (schedule_retry_delay env c0)"
    using True assms(1,2) by (auto simp: wait_model_error_def c0_def Let_def)
  with True d f emit_frame [of ev "schedule_retry_delay env c0"] retry_delay_values [OF pos(1)]
  show ?thesis by (auto simp: c0_def)
next
  case False
  with assms(1,2) have "report_model_error c = (o1, c')" by (auto simp: wait_model_error_def)
  with emit_frame [of "error_event (lc_error_msg (lctx c))" c] False show ?thesis
    by (auto simp: report_model_error_def fail_turn_def)
qed

theorem retry_backoff_witness:
  "\<exists>c' :: nat loop. wait_model_error still_env ((loop_state (fst (agent_new 1 None None)) 0)
       \<lparr>lctx := zero_ctx\<lparr>lc_error := True, lc_error_code := 429\<rparr>,
        a_runtime := Some \<lparr>rt_model = None, rt_tools = None, rt_cwd = None, rt_max_tokens = 1, rt_max_retries = 2,
                           rt_model_by_name = (\<lambda>_. None)\<rparr>\<rparr>) = (Some AGENT_STEP_BUSY, c') \<and>
     request_retries c' = 1 \<and> nanoseconds (retry_at c') = 250000000"
proof -
  let ?c = "(loop_state (fst (agent_new 1 None None)) (0 :: nat))
       \<lparr>lctx := zero_ctx\<lparr>lc_error := True, lc_error_code := 429\<rparr>,
        a_runtime := Some \<lparr>rt_model = None, rt_tools = None, rt_cwd = None, rt_max_tokens = 1, rt_max_retries = 2,
                           rt_model_by_name = (\<lambda>_. None)\<rparr>\<rparr>"
  have s: "\<not> retry_pending ?c" "no_partial_output ?c" "retryable_model_error (lc_error_code (lctx ?c))"
    "request_retries ?c = 0" "max_retries ?c = 2" "e_clock still_env (world ?c) = ((0, 0), 0)"
    by (simp_all add: loop_state_def agent.extend_def loop.fields_def no_partial_output_def text_len_def str_or_empty_def
        zero_ctx_def retryable_model_error_def max_retries_def still_env_def)
  obtain o1 c' where w: "wait_model_error still_env ?c = (o1, c')" by (metis surj_pair)
  from retry_backoff [OF s(1) w s(6)] s(2-5) w show ?thesis by (simp add: nanoseconds_def)
qed

section \<open>Truncated output\<close>

text \<open>C19: what a model sent before its output was cut is never executed. When the answer reached the token
  limit or ended incomplete, the stored message carries no tool call and the agent does not go on to
  tools: it asks for a continuation, at most three times in a row, and then ends the turn with an
  error; an incomplete or filtered answer ends it at once.\<close>

theorem truncated_calls_dropped:
  assumes "history_ok c" and "\<not> compaction_active c" and "a_state c = AGENT_WAIT_MODEL"
    and "request_hit_output_limit c \<or> request_ended_incomplete c"
    and "output_limit_continuations c \<le> MAX_OUTPUT_LIMIT_CONTINUATIONS" and "wait_model_complete env c = (o1, c')"
  shows "m_tool_calls (assistant_message c) = [] \<and> a_state c' \<in> {AGENT_WAIT_MODEL, AGENT_ERROR} \<and>
         output_limit_continuations c' \<le> MAX_OUTPUT_LIMIT_CONTINUATIONS \<and>
         (if request_hit_output_limit c \<and> output_limit_continuations c < MAX_OUTPUT_LIMIT_CONTINUATIONS
          then output_limit_continuations c' = output_limit_continuations c + 1
          else o1 = Some AGENT_STEP_ERROR \<and> a_state c' = AGENT_ERROR)"
proof -
  define am where "am = assistant_message c"
  define c0 where "c0 = c\<lparr>output_continuation_active := False,
                 output_limit_continuations := (if \<not> request_hit_output_limit c then 0 else output_limit_continuations c),
                 lctx := (lctx c)\<lparr>lc_text := None, lc_reasoning := None, lc_tool_calls := []\<rparr>,
                 a_messages := history_append (a_messages c) am\<rparr>"
  define c1 where "c1 = log_message env am c0"
  have calls: "m_tool_calls am = []" using assms(4) by (auto simp: am_def assistant_message_def Let_def)
  have s1: "steady c0 c1" unfolding c1_def by (rule quiet_steady [OF log_message_quiet])
  have g: "tool_grouped (items c1)"
    using tool_grouped_snoc [of "items c" am] assms(1) s1
    by (simp add: steady_def c0_def history_ok_def am_def assistant_role)
  have cnt: "output_limit_continuations c1 = (if \<not> request_hit_output_limit c then 0 else output_limit_continuations c)"
    "\<not> compaction_active c1" using s1 assms(2) by (simp_all add: steady_def c0_def)
  have em: "output_limit_continuations (emit ev d) = output_limit_continuations d \<and> a_messages (emit ev d) = a_messages d \<and>
            compaction_active (emit ev d) = compaction_active d" for ev and d :: "'a loop"
    using quiet_steady [OF emit_quiet [of d ev]] by (simp add: steady_def)
  show ?thesis
  proof (cases "request_hit_output_limit c \<and> output_limit_continuations c < MAX_OUTPUT_LIMIT_CONTINUATIONS")
    case True
    define c2 where "c2 = c1\<lparr>output_limit_continuations := output_limit_continuations c1 + 1, output_continuation_active := True\<rparr>"
    obtain ev where susp: "suspend_or_fail (start_request env (emit ev c2)) = (o1, c')"
      using assms(6) True cnt unfolding wait_model_complete_def Let_def am_def [symmetric] c0_def [symmetric]
        c1_def [symmetric] c2_def [symmetric]
      by (auto split: if_splits)
    obtain rc c3 where r: "start_request env (emit ev c2) = (rc, c3)" by (metis surj_pair)
    have "\<not> compaction_active (emit ev c2)" "tool_grouped (items (emit ev c2))" using em g cnt by (simp_all add: c2_def)
    from start_request_effect [OF r this] have "output_limit_continuations c3 = output_limit_continuations c2"
      "a_state c3 = AGENT_WAIT_MODEL" using em by simp_all
    with susp r True cnt calls show ?thesis
      by (auto simp: suspend_or_fail_def fail_turn_def c2_def am_def split: if_splits)
  next
    case False
    have "fail_turn (emit ev c1) = (Some AGENT_STEP_ERROR, (emit ev c1)\<lparr>a_state := AGENT_ERROR, in_turn := False\<rparr>)" for ev
      by (simp add: fail_turn_def)
    moreover have "\<exists>ev. fail_turn (emit ev c1) = (o1, c')"
      using assms(4-6) False cnt unfolding wait_model_complete_def Let_def am_def [symmetric] c0_def [symmetric]
        c1_def [symmetric]
      by (auto split: if_splits)
    ultimately obtain ev where "o1 = Some AGENT_STEP_ERROR" "c' = (emit ev c1)\<lparr>a_state := AGENT_ERROR, in_turn := False\<rparr>"
      by auto
    with False calls cnt em assms(5) show ?thesis by (auto simp: am_def)
  qed
qed

definition cut_agent :: "nat loop" where
  "cut_agent = (loop_state (fst (agent_new 1 None None)) 0)
     \<lparr>a_state := AGENT_WAIT_MODEL, output_limit_continuations := 3,
      lctx := zero_ctx\<lparr>lc_tool_calls := [zero_tool_call], lc_stop_reason := MODEL_STOP_MAX_TOKENS\<rparr>\<rparr>"

theorem truncated_calls_dropped_witness:
  "\<exists>c'. wait_model_complete still_env cut_agent = (Some AGENT_STEP_ERROR, c') \<and> a_state c' = AGENT_ERROR \<and>
     m_tool_calls (assistant_message cut_agent) = []"
proof -
  have h: "history_ok cut_agent" "\<not> compaction_active cut_agent" "a_state cut_agent = AGENT_WAIT_MODEL"
    "request_hit_output_limit cut_agent" "output_limit_continuations cut_agent = MAX_OUTPUT_LIMIT_CONTINUATIONS"
    by (simp_all add: cut_agent_def history_ok_def loop_state_def agent.extend_def loop.fields_def agent_new_def Let_def
        tool_grouped_def request_hit_output_limit_def zero_ctx_def MAX_OUTPUT_LIMIT_CONTINUATIONS_def)
  obtain o1 c' where w: "wait_model_complete still_env cut_agent = (o1, c')" by (metis surj_pair)
  from truncated_calls_dropped [OF h(1-3) disjI1 [OF h(4)] _ w] h(5) w show ?thesis by auto
qed

section \<open>The final event of a request\<close>

lemma model_event_done:
  "request_done c \<or> me_request_id ev = request_id c \<and> terminal_event (me_body ev) \<Longrightarrow> request_done (on_model_event env c ev)"
proof -
  have e: "request_done (emit e d) = request_done d" for e and d :: "'a loop"
    using emit_quiet [of d e] by (simp add: quiet_def)
  show "request_done c \<or> me_request_id ev = request_id c \<and> terminal_event (me_body ev) \<Longrightarrow> request_done (on_model_event env c ev)"
    by (cases "me_body ev")
       (auto simp: on_model_event_def terminal_event_def Let_def e finish_stats_def ask_clock_def with_session_def
          split: prod.splits)
qed

lemma model_events_done:
  "request_done c \<or> (\<exists>ev\<in>set evs. me_request_id ev = request_id c \<and> terminal_event (me_body ev)) \<Longrightarrow>
   request_done (foldl (on_model_event env) c evs)"
proof (induction evs arbitrary: c)
  case (Cons ev evs)
  have "request_id (on_model_event env c ev) = request_id c" using on_model_event_steady [of c env ev] by (simp add: steady_def)
  with Cons.prems model_event_done [of c ev env]
  have "request_done (on_model_event env c ev) \<or> (\<exists>e\<in>set evs. me_request_id e = request_id (on_model_event env c ev) \<and>
      terminal_event (me_body e))" by auto
  from Cons.IH [OF this] show ?case by simp
qed simp

lemma compaction_events_done:
  "compaction_done c \<or> (\<exists>ev\<in>set evs. me_request_id ev = request_id c \<and> terminal_event (me_body ev)) \<Longrightarrow>
   compaction_done (foldl on_compaction_event c evs)"
proof (induction evs arbitrary: c)
  case (Cons ev evs)
  have "request_id (on_compaction_event c ev) = request_id c" using on_compaction_event_steady [of c ev] by (simp add: steady_def)
  moreover have "compaction_done c \<or> me_request_id ev = request_id c \<and> terminal_event (me_body ev) \<Longrightarrow>
      compaction_done (on_compaction_event c ev)"
    by (cases "me_body ev") (auto simp: on_compaction_event_def terminal_event_def)
  ultimately have "compaction_done (on_compaction_event c ev) \<or> (\<exists>e\<in>set evs.
      me_request_id e = request_id (on_compaction_event c ev) \<and> terminal_event (me_body e))" using Cons.prems by auto
  from Cons.IH [OF this] show ?case by simp
qed simp

lemma deliver_events_done:
  assumes "\<exists>ev\<in>set evs. me_request_id ev = request_id c \<and> terminal_event (me_body ev)"
  shows "\<not> model_pending (deliver_events env c evs)"
proof -
  have "compaction_active (deliver_events env c evs) = compaction_active c"
    using deliver_events_steady [of c env evs] by (simp add: steady_def)
  with assms model_events_done [of c evs env] compaction_events_done [of c evs] show ?thesis
    by (auto simp: model_pending_def deliver_events_def)
qed

section \<open>Request ids\<close>

text \<open>The low half of the next id, from the sequence number before it.\<close>

definition id_low :: "64 word \<Rightarrow> 64 word" where
  "id_low seq = (let low = and (seq + 1) 0xFFFFFFFF in if low = 0 then 1 else low)"

lemma low_mask: "(0xFFFFFFFF :: 64 word) = mask 32"
  by (simp add: mask_eq_exp_minus_1)

lemma id_low_small: "and (id_low seq) (mask 32) = id_low seq"
  by (auto simp: id_low_def Let_def low_mask bit_simps intro!: bit_word_eqI)

lemma id_parts:
  assumes "drop_bit 32 (a :: 64 word) = 0" and "and low (mask 32) = (low :: 64 word)"
  shows "drop_bit 32 (or (push_bit 32 a) low) = a \<and> and (or (push_bit 32 a) low) (mask 32) = low"
proof
  have l: "\<not> bit low n" if "32 \<le> n" for n
  proof
    assume "bit low n"
    then have "bit (and low (mask 32)) n" using assms(2) by simp
    with that show False by (simp add: bit_simps)
  qed
  have a: "\<not> bit a n" if "32 \<le> n" for n
  proof
    assume "bit a n"
    with that have "bit (drop_bit 32 a) (n - 32)" by (simp add: bit_simps)
    with assms(1) show False by simp
  qed
  have a': "bit a n \<Longrightarrow> n < 32" for n using a [of n] by (metis not_le)
  show "drop_bit 32 (or (push_bit 32 a) low) = a"
    by (intro bit_word_eqI) (auto simp: bit_simps l dest: a')
  show "and (or (push_bit 32 a) low) (mask 32) = low"
  proof (rule bit_word_eqI)
    fix n assume "n < LENGTH(64)"
    show "bit (and (or (push_bit 32 a) low) (mask 32)) n = bit low n"
      using l [of n] by (cases "n < 32") (auto simp: bit_simps)
  qed
qed

text \<open>Request ids separate the agents that share a model. For agent ids below 2^32 the high half of an
  id is the agent's id, so requests of different agents never share one; two requests of the same
  agent share an id exactly when their sequence numbers agree modulo 2^32, where a multiple of 2^32
  counts as 1 (so two consecutive requests collide once in every 2^32).\<close>

theorem request_ids_separate:
  assumes "drop_bit 32 (a_id c) = 0" and "drop_bit 32 (a_id d) = 0"
    and "next_request_id c = (r, c')" and "next_request_id d = (q, d')"
  shows "drop_bit 32 r = a_id c \<and> (r = q \<longleftrightarrow> a_id c = a_id d \<and> id_low (request_sequence c) = id_low (request_sequence d))"
proof -
  have r: "r = or (push_bit 32 (a_id c)) (id_low (request_sequence c))"
    and q: "q = or (push_bit 32 (a_id d)) (id_low (request_sequence d))"
    using assms(3,4) by (simp_all add: next_request_id_def id_low_def Let_def)
  from id_parts [OF assms(1) id_low_small] id_parts [OF assms(2) id_low_small] show ?thesis
    unfolding r q by metis
qed

theorem request_ids_separate_witness:
  "\<exists>r q. next_request_id (loop_state (fst (agent_new 1 None None)) (0 :: nat)) =
           (r, (loop_state (fst (agent_new 1 None None)) 0)\<lparr>request_sequence := 1\<rparr>) \<and>
         next_request_id (loop_state (fst (agent_new 2 None None)) (0 :: nat)) =
           (q, (loop_state (fst (agent_new 2 None None)) 0)\<lparr>request_sequence := 1\<rparr>) \<and> r \<noteq> q"
proof -
  let ?c = "\<lambda>i. loop_state (fst (agent_new i None None)) (0 :: nat)"
  have s: "request_sequence (?c i) = 0" "a_id (?c i) = i" for i
    by (simp_all add: loop_state_def agent.extend_def loop.fields_def agent_new_def Let_def)
  obtain r c' q d' where n: "next_request_id (?c 1) = (r, c')" "next_request_id (?c 2) = (q, d')" by (metis surj_pair)
  have small: "drop_bit 32 (a_id (?c 1)) = 0" "drop_bit 32 (a_id (?c 2)) = 0" unfolding s by simp_all
  from request_ids_separate [OF small n] have "r \<noteq> q" by (simp add: s)
  with n next_request_id_frame [OF n(1)] next_request_id_frame [OF n(2)] show ?thesis by (auto simp: s)
qed

section \<open>What a summary request leaves undone\<close>

lemma compaction_events_frame:
  "request_done (foldl on_compaction_event c evs) = request_done c \<and>
   a_session (foldl on_compaction_event c evs) = a_session c"
proof (induction evs arbitrary: c)
  case (Cons ev evs)
  have "request_done (on_compaction_event c ev) = request_done c \<and> a_session (on_compaction_event c ev) = a_session c"
    by (cases "me_body ev") (simp_all add: on_compaction_event_def)
  with Cons show ?case by simp
qed simp

lemma start_compaction_frame:
  assumes "start_compaction_request env c = (rc, c')"
  shows "request_done c' = request_done c \<and> a_session c' = a_session c \<and>
         request_cancel_requested c' = request_cancel_requested c \<and> tool_task c' = tool_task c \<and>
         parallel_tools c' = parallel_tools c"
proof -
  obtain rc1 req where p: "context_compaction_prepare all_ok (items c) 10 = (rc1, req)" by (metis surj_pair)
  show ?thesis
  proof (cases "rc1 \<noteq> AGENT_OK \<or> cr_count req = 0")
    case True
    with assms p show ?thesis by (auto simp: start_compaction_request_def)
  next
    case False
    define c1 where "c1 = c\<lparr>compaction := req\<rparr>"
    define c1' where "c1' = c1\<lparr>compaction_text := text_clear (compaction_text c1),
                 compaction_done := False, compaction_error := False, compaction_active := True\<rparr>"
    obtain rid c2 where n: "next_request_id c1' = (rid, c2)" by (metis surj_pair)
    obtain c3 evs w' where c3: "c3 = foldl on_compaction_event (c2\<lparr>request_id := rid, a_state := AGENT_WAIT_MODEL, world := w'\<rparr>) evs"
      and c': "c' = (if rc \<noteq> AGENT_OK then c3\<lparr>compaction_active := False, compaction := no_compaction\<rparr> else c3)"
      using assms p n False unfolding start_compaction_request_def Let_def c1_def [symmetric] c1'_def [symmetric]
      by (auto simp: c1_def [symmetric] c1'_def [symmetric] split: prod.splits if_splits)
    from next_request_id_frame [OF n]
      compaction_events_steady [of "c2\<lparr>request_id := rid, a_state := AGENT_WAIT_MODEL, world := w'\<rparr>" evs]
      compaction_events_frame [of "c2\<lparr>request_id := rid, a_state := AGENT_WAIT_MODEL, world := w'\<rparr>" evs]
    show ?thesis by (auto simp: c' c3 steady_def c1'_def c1_def)
  qed
qed

text \<open>A conversation of twelve messages before a model with a tiny window: the first request is a summary.\<close>

definition short_message :: message where
  "short_message = (message_new MSG_USER)\<lparr>m_content := Some ''abcd''\<rparr>"

definition tiny_model :: "agent_error \<Rightarrow> nat model" where
  "tiny_model rc = \<lparr>md_request = (\<lambda>rq w. ((if rq_is_compaction rq then rc else AGENT_OK, []), w + 1)),
     md_cancel = Some (\<lambda>i w. ([], w + 1)), md_context_window = 1, md_max_output = 0\<rparr>"

definition long_agent :: "agent_error \<Rightarrow> nat \<Rightarrow> nat loop" where
  "long_agent rc n = (loop_state (fst (agent_new 1 None None)) 0)
     \<lparr>a_model := Some (tiny_model rc), a_messages := \<lparr>mitems = replicate n short_message, mcap = 16\<rparr>\<rparr>"

lemma short_estimate: "context_estimate_tokens (replicate 12 short_message) = 12"
  by code_simp

lemma text_estimate_nonneg: "0 \<le> text_estimate_tokens (Some bs)"
proof -
  have "0 \<le> fst (units bs) div 4" "0 \<le> snd (units bs)" using units_bounds [of bs] by (simp_all add: pos_imp_zdiv_nonneg_iff)
  with count_text_units_acc [of bs 0 0] show ?thesis by (simp add: text_estimate_tokens_def units_to_tokens_def)
qed

lemma long_needs_compaction:
  assumes "mitems (a_messages c) = replicate 12 short_message" and "a_model c = Some (tiny_model rc)" and "a_tools c = None"
  shows "needs_compaction env c"
proof -
  have "0 \<le> text_estimate_tokens (Some p)" for p using text_estimate_nonneg .
  from this [of "build_turn_system_prompt c"] show ?thesis using assms
    by (simp add: needs_compaction_def context_needs_compact_request_def context_estimate_request_tokens_def
        tiny_model_def short_estimate Let_def OUTPUT_RESERVE_def)
qed

lemma long_bounds: "compaction_bounds (replicate 12 short_message) 10 = (0, 2)"
  by code_simp

lemma long_prepare: "\<exists>ms. context_compaction_prepare all_ok (replicate 12 short_message) 10 =
   (AGENT_OK, \<lparr>cr_start = 0, cr_count = 2, cr_messages = ms\<rparr>)"
  by (simp add: context_compaction_prepare_def long_bounds all_ok_def)

lemma long_agent_fields [simp]:
  "a_model (long_agent rc n) = Some (tiny_model rc)" "mitems (a_messages (long_agent rc n)) = replicate n short_message"
  "\<not> compaction_active (long_agent rc n)" "tool_task (long_agent rc n) = None" "parallel_tools (long_agent rc n) = []"
  "a_session (long_agent rc n) = None" "\<not> skip_compaction_once (long_agent rc n)" "a_state (long_agent rc n) = AGENT_READY"
  "a_tools (long_agent rc n) = None" "\<not> approval_pending (long_agent rc n)" "a_event_cb (long_agent rc n) = None"
  by (simp_all add: long_agent_def loop_state_def agent.extend_def loop.fields_def agent_new_def Let_def)

lemma tiny_request: "md_request (tiny_model rc) rq w = ((if rq_is_compaction rq then rc else AGENT_OK, []), w + 1)"
  by (simp add: tiny_model_def)

lemma long_start_compaction:
  assumes "mitems (a_messages c) = replicate 12 short_message" and "a_model c = Some (tiny_model rc)"
  shows "\<exists>c'. start_compaction_request env c = (rc, c') \<and> (rc = AGENT_OK \<longrightarrow> compaction_active c' \<and> \<not> compaction_done c')"
proof -
  obtain ms where p: "context_compaction_prepare all_ok (replicate 12 short_message) 10 =
     (AGENT_OK, \<lparr>cr_start = 0, cr_count = 2, cr_messages = ms\<rparr>)" using long_prepare by blast
  obtain r where r: "start_compaction_request env c = r" by simp
  with p assms show ?thesis
    by (auto simp: start_compaction_request_def next_request_id_def Let_def model_of_def tiny_request split: prod.splits)
qed

text \<open>Freeing an agent does not cancel a summary request. The cleanup asks the provider to cancel only
  when no normal request has finished before; after the first finished request of an agent, a summary
  request in flight is left running with the freed state as its callback data.\<close>

theorem cleanup_leaves_summary:
  assumes "start_compaction_request env c = (AGENT_OK, c')" and "compaction_active c'" and "\<not> compaction_active c"
    and "request_done c" and "tool_task c = None" and "parallel_tools c = []"
  shows "a_state c' = AGENT_WAIT_MODEL \<and> agent_loop_state_cleanup env c' = c'"
proof -
  have "a_state c' = AGENT_WAIT_MODEL" using start_compaction_request_effect [OF assms(1,3)] assms(2) by simp
  moreover have "request_done c'" "tool_task c' = None" "parallel_tools c' = []"
    using start_compaction_frame [OF assms(1)] assms(4-6) by simp_all
  ultimately show ?thesis by (simp add: agent_loop_state_cleanup_def parallel_tools_free_def)
qed

theorem cleanup_leaves_summary_witness:
  "\<exists>c'. start_compaction_request still_env ((long_agent AGENT_OK 12)\<lparr>request_done := True\<rparr>) = (AGENT_OK, c') \<and>
        \<not> compaction_done c' \<and> world (agent_loop_state_cleanup still_env c') = world c'"
proof -
  let ?c = "(long_agent AGENT_OK 12)\<lparr>request_done := True\<rparr>"
  obtain c' where s: "start_compaction_request still_env ?c = (AGENT_OK, c')" "compaction_active c'" "\<not> compaction_done c'"
    using long_start_compaction [of ?c AGENT_OK still_env] by auto
  from cleanup_leaves_summary [OF s(1,2)] s show ?thesis by simp
qed

lemma begin_turn_frame:
  "request_cancel_requested (begin_turn env txt c) = request_cancel_requested c \<and>
   compaction_active (begin_turn env txt c) = compaction_active c \<and> a_model (begin_turn env txt c) = a_model c"
  using quiet_steady [OF log_message_quiet [of
        "if a_state c = AGENT_CANCELLED then c\<lparr>a_cancel := (a_cancel c)\<lparr>ct_cancelled := False\<rparr>\<rparr> else c" env
        "(message_new MSG_USER)\<lparr>m_content := Some txt\<rparr>"]]
  by (simp add: begin_turn_def Let_def steady_def)

lemma start_request_compacting:
  assumes "start_request env c = (rc, c')" and "compaction_active c'" and "\<not> compaction_active c"
  shows "rc = AGENT_OK \<and> start_compaction_request env (c\<lparr>request_retries := 0, retry_pending := False\<rparr>) = (AGENT_OK, c')"
proof -
  define b where "b = c\<lparr>request_retries := 0, retry_pending := False\<rparr>"
  obtain rc1 c1 where s: "start_compaction_request env b = (rc1, c1)" by (metis surj_pair)
  obtain e msgs where k: "context_compact all_ok all_ok (a_messages c1) 10 = (e, msgs)" by (metis surj_pair)
  have nb: "\<not> compaction_active b" using assms(3) by (simp add: b_def)
  have eq: "(if \<not> skip_compaction_once b \<and> needs_compaction env b
         then if rc1 = AGENT_OK \<and> compaction_active c1 then (AGENT_OK, c1)
              else start_model_request env (c1\<lparr>a_messages := msgs, skip_compaction_once := False\<rparr>)
         else start_model_request env (b\<lparr>skip_compaction_once := False\<rparr>)) = (rc, c')"
    using assms(1) unfolding start_request_def Let_def b_def [symmetric] s k prod.case by simp
  have act: "compaction_active d" if "start_model_request env d = (rc, c')" for d
    using start_model_request_effect [OF that] assms(2) by simp
  have n1: "start_model_request env (b\<lparr>skip_compaction_once := False\<rparr>) \<noteq> (rc, c')"
    using act [of "b\<lparr>skip_compaction_once := False\<rparr>"] nb by auto
  have n2: "rc1 = AGENT_OK \<and> compaction_active c1"
    if "start_model_request env (c1\<lparr>a_messages := msgs, skip_compaction_once := False\<rparr>) = (rc, c')"
    using act [OF that] start_compaction_request_effect [OF s nb] by (simp split: if_splits)
  have "(AGENT_OK, c1) = (rc, c') \<and> rc1 = AGENT_OK" using eq n1 n2 by (simp split: if_splits)
  with s show ?thesis unfolding b_def [symmetric] by simp
qed

text \<open>Cancelling a turn whose first request is a summary is not passed on when the turn before was
  cancelled too. The flag that the provider was told survives into the new turn, so cancelling does
  nothing at all: the agent stays busy and the world and the state are the ones before.\<close>

theorem summary_cancel_lost:
  assumes "at_rest c" and "request_cancel_requested c" and "start_request env (begin_turn env txt c) = (rc, c')"
    and "compaction_active c'" and "\<not> compaction_done c'"
  shows "cancel_step env c' = (Some AGENT_STEP_BUSY, c')"
proof -
  have na: "\<not> compaction_active (begin_turn env txt c)" using at_rest_fields [OF assms(1)] by (simp add: begin_turn_frame)
  note s = conjunct2 [OF start_request_compacting [OF assms(3,4) na]]
  have "request_cancel_requested c'" using start_compaction_frame [OF s] assms(2) by (simp add: begin_turn_frame)
  moreover have "a_state c' = AGENT_WAIT_MODEL" using start_compaction_request_effect [OF s] na assms(4) by simp
  ultimately have "cancel_model_request env c' = c'" "a_state c' = AGENT_WAIT_MODEL \<and> model_pending c'"
    using assms(4,5) by (auto simp: cancel_model_request_def model_pending_def split: option.splits)
  then show ?thesis by (simp add: cancel_step_def)
qed

lemma replicate_grouped: "tool_grouped (replicate n short_message)"
proof -
  have "grouped_from b (replicate n short_message)" for b
    by (induction n arbitrary: b) (simp_all add: short_message_def message_new_def)
  then show ?thesis by (simp add: tool_grouped_def)
qed

theorem summary_cancel_lost_witness:
  "\<exists>c'. start_request still_env (begin_turn still_env ''abcd'' ((long_agent AGENT_OK 11)\<lparr>request_cancel_requested := True\<rparr>)) =
          (AGENT_OK, c') \<and> cancel_step still_env c' = (Some AGENT_STEP_BUSY, c')"
proof -
  let ?c = "(long_agent AGENT_OK 11)\<lparr>request_cancel_requested := True\<rparr>"
  have rest: "at_rest ?c" by (simp add: at_rest_def history_ok_def replicate_grouped)
  define d where "d = (begin_turn still_env ''abcd'' ?c)\<lparr>request_retries := 0, retry_pending := False\<rparr>"
  have d: "mitems (a_messages d) = replicate 12 short_message" "a_model d = Some (tiny_model AGENT_OK)" "a_tools d = None"
    "\<not> skip_compaction_once d"
    by (simp_all add: d_def begin_turn_def Let_def log_message_def with_session_def history_append_def
        short_message_def [symmetric] replicate_append_same [symmetric] eval_nat_numeral)
  obtain c' where s: "start_compaction_request still_env d = (AGENT_OK, c')" "compaction_active c'" "\<not> compaction_done c'"
    using long_start_compaction [OF d(1,2)] by auto
  have r: "start_request still_env (begin_turn still_env ''abcd'' ?c) = (AGENT_OK, c')"
    using long_needs_compaction [OF d(1-3)] d(4) s
    unfolding start_request_def Let_def d_def [symmetric] by simp
  from summary_cancel_lost [OF rest _ r s(2,3)] r show ?thesis by simp
qed

section \<open>The fallback and the session file\<close>

definition session_file :: "'w loop \<Rightarrow> string option" where
  "session_file c = map_option s_file (a_session c)"

lemma host_call_session: "a_session (do_host_call c h) = a_session c"
  by (cases h) (simp_all add: agent_set_approval_result_def agent_set_session_trusted_def)

lemma emit_session: "a_session (emit ev c) = a_session c"
proof -
  have "a_session (foldl do_host_call d hs) = a_session d" for hs and d :: "'a loop"
    by (induction hs arbitrary: d) (simp_all add: host_call_session)
  then show ?thesis by (simp add: emit_def split: option.split prod.split)
qed

lemma model_event_file: "session_file (on_model_event env c ev) = session_file c"
proof -
  have "session_file (finish_stats env r c) = session_file c" for r
    by (simp add: session_file_def finish_stats_def ask_clock_def with_session_def option.map_comp comp_def Let_def
        split: prod.split)
  then show ?thesis
    by (cases "me_body ev") (simp_all add: on_model_event_def Let_def session_file_def emit_session)
qed

lemma model_events_file: "session_file (foldl (on_model_event env) c evs) = session_file c"
  by (induction evs arbitrary: c) (simp_all add: model_event_file)

lemma start_model_request_file:
  assumes "start_model_request env c = (rc, c')"
  shows "session_file c' = session_file c"
proof -
  have n: "a_session d' = a_session d" if "next_request_id d = (rid, d')" for rid and d d' :: "'a loop"
    using next_request_id_frame [OF that] by simp
  have k: "a_session d' = a_session d" if "ask_clock env d = (t, d')" for t d d'
    using that by (auto simp: ask_clock_def split: prod.splits)
  have f: "session_file (d\<lparr>t0 := t, world := w\<rparr>) = session_file d" for t w and d :: "'a loop"
    by (simp add: session_file_def)
  show ?thesis
    using assms unfolding start_model_request_def Let_def
    by (auto simp: model_events_file f split: prod.splits dest!: n k) (simp_all add: session_file_def)
qed

text \<open>A deterministic compaction is lost on reload. When the summary request cannot be started, the
  history is cut by the fallback, but no compaction record is written: a session file that replayed
  the history before does not replay it any more, so a later reload brings the old messages back
  (and later compaction records then name ranges of another history).\<close>

theorem fallback_not_replayed:
  assumes "start_request env c = (rc, c')" and "length (items c') < length (items c)"
    and "a_session c = Some s" and "replays (e_read env) s (items c)"
  shows "\<exists>s'. a_session c' = Some s' \<and> s_file s' = s_file s \<and> \<not> replays (e_read env) s' (items c')"
proof -
  define b where "b = c\<lparr>request_retries := 0, retry_pending := False\<rparr>"
  obtain rc1 c1 where s: "start_compaction_request env b = (rc1, c1)" by (metis surj_pair)
  obtain e msgs where k: "context_compact all_ok all_ok (a_messages c1) 10 = (e, msgs)" by (metis surj_pair)
  have eq: "(if \<not> skip_compaction_once b \<and> needs_compaction env b
         then if rc1 = AGENT_OK \<and> compaction_active c1 then (AGENT_OK, c1)
              else start_model_request env (c1\<lparr>a_messages := msgs, skip_compaction_once := False\<rparr>)
         else start_model_request env (b\<lparr>skip_compaction_once := False\<rparr>)) = (rc, c')"
    using assms(1) unfolding start_request_def Let_def b_def [symmetric] s k prod.case by simp
  have f1: "session_file b = session_file c" by (simp add: b_def session_file_def)
  have f2: "session_file c1 = session_file c" using start_compaction_frame [OF s] f1 by (simp add: session_file_def)
  have f3: "session_file (d\<lparr>skip_compaction_once := x\<rparr>) = session_file d"
    "session_file (d\<lparr>a_messages := m, skip_compaction_once := x\<rparr>) = session_file d" for x m and d :: "'a loop"
    by (simp_all add: session_file_def)
  have f4: "session_file (d\<lparr>a_messages := m\<rparr>) = session_file d" for m and d :: "'a loop"
    by (simp add: session_file_def)
  have "session_file c' = session_file c"
    using eq f1 f2 by (auto simp: f3 f4 split: if_splits dest!: start_model_request_file)
  then obtain s' where s': "a_session c' = Some s'" "s_file s' = s_file s"
    using assms(3) by (auto simp: session_file_def)
  have "\<not> replays (e_read env) s' (items c')"
  proof
    assume "replays (e_read env) s' (items c')"
    with assms(4) s'(2) have "map persisted (items c') = map persisted (items c)"
      by (auto simp: replays_def session_load_messages_def)
    then have "length (items c') = length (items c)" by (rule map_eq_imp_length_eq)
    with assms(2) show False by simp
  qed
  with s' show ?thesis by blast
qed

text \<open>A file that holds \<open>n\<close> lines, each the short message, and a JSON library that knows one value.\<close>

definition one_reader :: "nat env" where
  "one_reader = still_env\<lparr>e_read := (\<lambda>_. Some (message_json short_message)),
     e_render := (\<lambda>j. if j = message_json short_message then Some ''m'' else None)\<rparr>"

lemma repeated_file:
  "n \<le> 12 \<Longrightarrow> \<exists>s. s_writable s \<and> intact s \<and> file_ok s \<and> replays (e_read one_reader) s (replicate n short_message)"
proof (induction n)
  case 0
  have "replays (e_read one_reader) (zero_session\<lparr>s_writable := True\<rparr>) []"
    by (simp add: replays_def session_load_messages_def zero_session_def file_lines.simps message_list_ok_def)
  then show ?case by (intro exI [of _ "zero_session\<lparr>s_writable := True\<rparr>"]) (simp add: file_ok_def intact_def zero_session_def)
next
  case (Suc n)
  then obtain s where s: "s_writable s" "file_ok s" "replays (e_read one_reader) s (replicate n short_message)"
    and i: "intact s" by auto
  have rt: "json_roundtrips (e_read one_reader) (e_render one_reader)"
    by (auto simp: json_roundtrips_def one_reader_def split: if_splits)
  obtain s' where a: "session_append_message (e_render one_reader) 0 s short_message = (AGENT_OK, s')"
    using s(1) by (simp add: session_append_message_def append_json_def json_builder_stringify_def one_reader_def append_line_def)
  note a' = a [unfolded session_append_message_def]
  from replays_message [OF rt s(2,3) _ intact_takes [OF i] a] Suc.prems
  have "replays (e_read one_reader) s' (replicate (Suc n) short_message)" by (simp add: replicate_append_same)
  moreover have "file_ok s'" by (rule append_json_file_ok [OF s(2) intact_takes [OF i] a'])
  moreover have "s_writable s'" using append_json_effect [OF a'] s(1) by auto
  moreover have "intact s'" by (rule append_json_intact [OF i a'])
  ultimately show ?case by blast
qed

lemma short_compact:
  assumes "mitems l = replicate 12 short_message" and "mcap l = 16"
  shows "length (mitems (snd (context_compact all_ok all_ok l 10))) = 11"
proof -
  obtain ms where p: "context_compaction_prepare all_ok (replicate 12 short_message) 10 =
     (AGENT_OK, \<lparr>cr_start = 0, cr_count = 2, cr_messages = ms\<rparr>)" using long_prepare by blast
  have sp: "message_list_tool_safe_prefix_count (replicate 12 short_message) 0 2 = 2" by code_simp
  show ?thesis
    using assms p
    by (simp add: context_compact_def context_compaction_apply_fallback_def context_compaction_apply_def sp all_ok_def
        message_list_insert_def message_list_room_def message_list_remove_range_def Let_def)
qed

theorem fallback_not_replayed_witness:
  "\<exists>c c' s'. start_request one_reader c = (AGENT_OK, c') \<and> length (items c) = 12 \<and> length (items c') = 11 \<and>
     a_session c' = Some s' \<and> \<not> replays (e_read one_reader) s' (items c')"
proof -
  obtain s where s: "replays (e_read one_reader) s (replicate 12 short_message)" using repeated_file [of 12] by auto
  define c where "c = (long_agent AGENT_ERR_HTTP 12)\<lparr>a_session := Some s\<rparr>"
  define b where "b = c\<lparr>request_retries := 0, retry_pending := False\<rparr>"
  have b: "mitems (a_messages b) = replicate 12 short_message" "a_model b = Some (tiny_model AGENT_ERR_HTTP)"
    "a_tools b = None" "\<not> skip_compaction_once b" "\<not> compaction_active b" "mcap (a_messages b) = 16"
    by (simp_all add: b_def c_def) (simp add: long_agent_def)
  obtain c1 where c1: "start_compaction_request one_reader b = (AGENT_ERR_HTTP, c1)"
    using long_start_compaction [OF b(1,2)] by blast
  note e = start_compaction_request_effect [OF c1 b(5)]
  obtain e2 msgs where k: "context_compact all_ok all_ok (a_messages c1) 10 = (e2, msgs)" by (metis surj_pair)
  have l: "length (mitems msgs) = 11" using short_compact [of "a_messages c1"] k e b(1,6) by simp
  obtain rc c' where m: "start_model_request one_reader (c1\<lparr>a_messages := msgs, skip_compaction_once := False\<rparr>) = (rc, c')"
    by (metis surj_pair)
  have "a_model c1 = Some (tiny_model AGENT_ERR_HTTP)" using e b(2) by (simp add: request_frame_def)
  then have "rc = AGENT_OK"
    using m by (auto simp: start_model_request_def Let_def model_of_def tiny_request next_request_id_def ask_clock_def
        split: prod.splits)
  with m have r: "start_request one_reader c = (AGENT_OK, c')"
    using long_needs_compaction [OF b(1-3)] b(4) unfolding start_request_def Let_def b_def [symmetric] c1 prod.case k
    by simp
  have i: "length (items c') = 11" "length (items c) = 12" using start_model_request_effect [OF m] l by (simp_all add: c_def)
  from fallback_not_replayed [OF r] i s obtain s' where "a_session c' = Some s'" "\<not> replays (e_read one_reader) s' (items c')"
    by (auto simp: c_def)
  with r i show ?thesis by blast
qed

end
