(* ===== verification/Loop_Cancel.thy ===== *)
theory Loop_Cancel
  imports Loop_Props
begin

text \<open>
  What it takes for a cancelled turn to end (\<open>agent_resume\<close> of \<open>src/src/agent/loop.c\<close>, driven by a
  host that pumps the event loop between two resumes like \<open>run_agent_interruptible\<close> of
  \<open>src/src/main.c\<close>).  \<open>tool/tool.h\<close> says that \<open>cancel\<close> begins a best-effort cancellation and that
  \<open>poll\<close> is called until it reports completion.  \<open>stops\<close> states that contract for the tasks of an
  agent: \<open>told t\<close> holds of the world once \<open>cancel\<close> was called on the task \<open>t\<close>, \<open>left\<close> bounds the
  rounds of the event loop a task that was told still needs, and a task that was told reports
  completion when none is left.  A task that was never told may run on for ever.
\<close>

section \<open>The contract\<close>

type_synonym 'w host_state = "session option \<times> 'w"

abbreviation host_of :: "'w loop \<Rightarrow> 'w host_state" where
  "host_of c \<equiv> (a_session c, world c)"

text \<open>Nothing a task does delays another one or makes it forget that it was told.\<close>

definition host_kept ::
  "('w host_state \<Rightarrow> nat) \<Rightarrow> ('w host_state tool_task \<Rightarrow> 'w host_state \<Rightarrow> bool) \<Rightarrow> 'w host_state tool_task set \<Rightarrow>
   'w host_state \<Rightarrow> 'w host_state \<Rightarrow> bool" where
  "host_kept left told T x y \<longleftrightarrow> left y \<le> left x \<and> (\<forall>u\<in>T. told u x \<longrightarrow> told u y)"

definition stops ::
  "('w host_state \<Rightarrow> nat) \<Rightarrow> ('w host_state tool_task \<Rightarrow> 'w host_state \<Rightarrow> bool) \<Rightarrow> 'w host_state tool_task set \<Rightarrow> bool" where
  "stops left told T \<longleftrightarrow>
     (\<forall>t\<in>T. \<exists>cancel poll. tk_cancel t = Some cancel \<and> tk_poll t = Some poll \<and>
        (\<forall>x. told t (cancel x) \<and> host_kept left told T x (cancel x) \<and> host_kept left told T x (snd (poll x)) \<and>
             (told t x \<and> left x = 0 \<longrightarrow> snd (snd (fst (poll x))) \<or> fst (fst (poll x)) \<noteq> AGENT_OK)) \<and>
        (\<forall>destroy. tk_destroy t = Some destroy \<longrightarrow> (\<forall>x. host_kept left told T x (destroy x))))"

text \<open>One round of the event loop: time passes for the tasks that were told.\<close>

definition pump_passes ::
  "('w \<Rightarrow> 'w \<Rightarrow> bool) \<Rightarrow> ('w host_state \<Rightarrow> nat) \<Rightarrow> ('w host_state tool_task \<Rightarrow> 'w host_state \<Rightarrow> bool) \<Rightarrow>
   'w host_state tool_task set \<Rightarrow> bool" where
  "pump_passes pump left told T \<longleftrightarrow>
     (\<forall>s w w'. pump w w' \<longrightarrow> left (s, w') \<le> left (s, w) - 1 \<and> (\<forall>u\<in>T. told u (s, w) \<longrightarrow> told u (s, w')))"

text \<open>A resume that leaves the agent waiting, and the pump after it.\<close>

definition busy_round :: "'w env \<Rightarrow> ('w \<Rightarrow> 'w \<Rightarrow> bool) \<Rightarrow> 'w loop \<Rightarrow> 'w loop \<Rightarrow> bool" where
  "busy_round env pump c c' \<longleftrightarrow>
     (\<exists>d w. agent_resume env c = Some (AGENT_STEP_BUSY, d) \<and> pump (world d) w \<and> c' = d\<lparr>world := w\<rparr>)"

text \<open>The tasks of an agent, and that those marked as cancelled were told.\<close>

definition tasks_of :: "'w loop \<Rightarrow> 'w host_state tool_task set" where
  "tasks_of c = set_option (tool_task c) \<union> {t. Some t \<in> set (map pc_task (parallel_tools c))}"

definition calls_told ::
  "('w host_state tool_task \<Rightarrow> 'w host_state \<Rightarrow> bool) \<Rightarrow> 'w host_state tool_task set \<Rightarrow> 'w parallel_call list \<Rightarrow>
   'w host_state \<Rightarrow> bool" where
  "calls_told told T calls x \<longleftrightarrow>
     (\<forall>call\<in>set calls. \<forall>t. pc_task call = Some t \<longrightarrow> t \<in> T \<and> (pc_cancel_requested call \<longrightarrow> told t x))"

definition marked_told ::
  "('w host_state tool_task \<Rightarrow> 'w host_state \<Rightarrow> bool) \<Rightarrow> 'w host_state tool_task set \<Rightarrow> 'w loop \<Rightarrow> bool" where
  "marked_told told T c \<longleftrightarrow>
     (\<forall>t. tool_task c = Some t \<longrightarrow> t \<in> T \<and> (tool_cancel_requested c \<longrightarrow> told t (host_of c))) \<and>
     calls_told told T (parallel_tools c) (host_of c)"

lemma host_kept_refl [simp]: "host_kept left told T x x"
  by (simp add: host_kept_def)

lemma host_kept_trans: "host_kept left told T x y \<Longrightarrow> host_kept left told T y z \<Longrightarrow> host_kept left told T x z"
  by (auto simp: host_kept_def)

lemma calls_told_kept: "calls_told told T calls x \<Longrightarrow> host_kept left told T x y \<Longrightarrow> calls_told told T calls y"
  by (auto simp: calls_told_def host_kept_def)

lemma run_hook_host: "host_of (run_hook f c) = (case f of None \<Rightarrow> host_of c | Some g \<Rightarrow> g (host_of c))"
  by (simp add: run_hook_def split: option.split prod.split)

lemma run_hook_keeps [simp]: "a_cancel (run_hook f c) = a_cancel c" "tool_task (run_hook f c) = tool_task c"
  by (simp_all add: run_hook_def split: option.split prod.split)

lemma poll_task_host:
  assumes "tk_poll t = Some p" and "poll_task t c = ((rc, res, dn), c')"
  shows "fst (p (host_of c)) = (rc, res, dn) \<and> host_of c' = snd (p (host_of c))"
  using assms by (auto simp: poll_task_def run_tool_def split: prod.splits)

text \<open>The contract at the loop's calls.\<close>

lemma told_cancel:
  assumes "stops left told T" and "t \<in> T"
  shows "tk_cancel t \<noteq> None \<and> told t (host_of (run_hook (tk_cancel t) c)) \<and>
         host_kept left told T (host_of c) (host_of (run_hook (tk_cancel t) c))"
  using assms by (fastforce simp: stops_def run_hook_host)

lemma told_destroy:
  assumes "stops left told T" and "t \<in> T"
  shows "host_kept left told T (host_of c) (host_of (run_hook (tk_destroy t) c))"
  using assms by (fastforce simp: stops_def run_hook_host split: option.split)

lemma told_poll:
  assumes "stops left told T" and "t \<in> T" and "poll_task t c = ((rc, res, dn), c')"
  shows "host_kept left told T (host_of c) (host_of c') \<and>
         (told t (host_of c) \<and> left (host_of c) = 0 \<longrightarrow> dn \<or> rc \<noteq> AGENT_OK)"
proof -
  from assms(1,2) obtain p where p: "tk_poll t = Some p" "\<And>x. host_kept left told T x (snd (p x))"
    "\<And>x. told t x \<and> left x = 0 \<longrightarrow> snd (snd (fst (p x))) \<or> fst (fst (p x)) \<noteq> AGENT_OK"
    unfolding stops_def by blast
  from poll_task_host [OF p(1) assms(3)] p(2,3) [of "host_of c"] show ?thesis by simp
qed

section \<open>The step of a cancelled agent\<close>

lemma cancel_tool_told:
  assumes "stops left told T" and "cancel_tool_task c = (busy, c')"
    and "\<And>t. tool_task c = Some t \<Longrightarrow> t \<in> T \<and> (tool_cancel_requested c \<longrightarrow> told t (host_of c))"
  shows "host_kept left told T (host_of c) (host_of c') \<and> a_cancel c' = a_cancel c \<and>
         (busy \<longrightarrow> (\<exists>t. tool_task c' = Some t \<and> t \<in> T \<and> told t (host_of c'))) \<and>
         (left (host_of c) = 0 \<longrightarrow> \<not> busy)"
proof (cases "tool_task c")
  case None
  with assms(2) show ?thesis by (auto simp: cancel_tool_task_def)
next
  case (Some t)
  with assms(3) have t: "t \<in> T" "tool_cancel_requested c \<longrightarrow> told t (host_of c)" by auto
  define d where "d = (if \<not> tool_cancel_requested c \<and> tk_cancel t \<noteq> None
                     then (run_hook (tk_cancel t) c)\<lparr>tool_cancel_requested := True\<rparr> else c)"
  obtain rc res dn d' where p: "poll_task t d = ((rc, res, dn), d')" by (metis surj_pair)
  have eq: "cancel_tool_task c = (if \<not> dn \<and> rc = AGENT_OK then (True, d')
            else (False, (run_hook (tk_destroy t) d')\<lparr>tool_task := None, tool_cancel_requested := False\<rparr>))"
    unfolding cancel_tool_task_def Some option.case Let_def d_def [symmetric] p prod.case by (rule refl)
  note k = told_cancel [OF assms(1) t(1), of c]
  have d: "told t (host_of d)" "host_kept left told T (host_of c) (host_of d)" "tool_task d = Some t" "a_cancel d = a_cancel c"
    using k t(2) Some by (auto simp: d_def)
  note pd = told_poll [OF assms(1) t(1) p]
  have d': "tool_task d' = Some t" "a_cancel d' = a_cancel c"
    using p d(3,4) by (auto simp: poll_task_def run_tool_def split: option.splits prod.splits)
  have cm: "host_kept left told T (host_of c) (host_of d')" using host_kept_trans d(2) pd by blast
  have told': "told t (host_of d')" using pd d(1) t(1) by (auto simp: host_kept_def)
  have z: "left (host_of d) = 0" if "left (host_of c) = 0" using that d(2) by (simp add: host_kept_def)
  show ?thesis
  proof (cases "\<not> dn \<and> rc = AGENT_OK")
    case True
    then have "busy" "c' = d'" using assms(2) eq by auto
    with cm told' d' t(1) pd d(1) z True show ?thesis by auto
  next
    case False
    then have c': "\<not> busy" "c' = (run_hook (tk_destroy t) d')\<lparr>tool_task := None, tool_cancel_requested := False\<rparr>"
      using assms(2) eq by (auto simp del: de_Morgan_conj)
    with c' host_kept_trans [OF cm told_destroy [OF assms(1) t(1), of d']] d'(2) show ?thesis by simp
  qed
qed

lemma cancel_calls_told:
  assumes "stops left told T"
  shows "cancel_parallel_calls calls c = (calls', c') \<Longrightarrow> calls_told told T calls (host_of c) \<Longrightarrow>
    host_kept left told T (host_of c) (host_of c') \<and> a_cancel c' = a_cancel c \<and> tool_task c' = tool_task c \<and>
    (\<forall>call\<in>set calls'. \<forall>t. pc_task call = Some t \<longrightarrow> t \<in> T \<and> pc_cancel_requested call \<and> told t (host_of c'))"
proof (induction calls arbitrary: c calls' c')
  case (Cons call calls)
  define r where "r = (case pc_task call of
            Some t \<Rightarrow> if \<not> pc_cancel_requested call \<and> tk_cancel t \<noteq> None
                      then (call\<lparr>pc_cancel_requested := True\<rparr>, run_hook (tk_cancel t) c) else (call, c)
          | None \<Rightarrow> (call, c))"
  obtain call1 c1 where r1: "r = (call1, c1)" by (cases r)
  obtain cs c2 where k: "cancel_parallel_calls calls c1 = (cs, c2)" by (metis surj_pair)
  have e: "calls' = call1 # cs" "c' = c2" using Cons.prems(1) r1 k by (simp_all add: r_def [symmetric])
  have h: "pc_task call = Some t \<Longrightarrow> t \<in> T \<and> (pc_cancel_requested call \<longrightarrow> told t (host_of c))" for t
    using Cons.prems(2) by (simp add: calls_told_def)
  have fg: "host_kept left told T (host_of c) (host_of c1) \<and> a_cancel c1 = a_cancel c \<and> tool_task c1 = tool_task c \<and>
      (\<forall>t. pc_task call1 = Some t \<longrightarrow> t \<in> T \<and> pc_cancel_requested call1 \<and> told t (host_of c1))"
  proof (cases "pc_task call")
    case None
    with r1 show ?thesis by (auto simp: r_def)
  next
    case (Some t)
    with h have t: "t \<in> T" "pc_cancel_requested call \<longrightarrow> told t (host_of c)" by auto
    with told_cancel [OF assms t(1), of c] r1 Some show ?thesis by (cases "pc_cancel_requested call") (auto simp: r_def)
  qed
  then have f: "host_kept left told T (host_of c) (host_of c1)" "a_cancel c1 = a_cancel c" "tool_task c1 = tool_task c"
    and g: "\<And>t. pc_task call1 = Some t \<Longrightarrow> t \<in> T \<and> pc_cancel_requested call1 \<and> told t (host_of c1)" by auto
  have "calls_told told T calls (host_of c1)"
    by (rule calls_told_kept [OF _ f(1)]) (use Cons.prems(2) in \<open>simp add: calls_told_def\<close>)
  from Cons.IH [OF k this] f g e show ?case by (auto intro: host_kept_trans simp: host_kept_def)
qed simp

lemma reap_calls_told:
  assumes "stops left told T"
  shows "reap_parallel_calls calls c = (busy, calls', c') \<Longrightarrow>
    (\<forall>call\<in>set calls. \<forall>t. pc_task call = Some t \<longrightarrow> t \<in> T \<and> told t (host_of c)) \<Longrightarrow>
    host_kept left told T (host_of c) (host_of c') \<and> a_cancel c' = a_cancel c \<and> tool_task c' = tool_task c \<and>
    (\<forall>call\<in>set calls'. \<forall>t. pc_task call = Some t \<longrightarrow> t \<in> T \<and> told t (host_of c')) \<and>
    (left (host_of c) = 0 \<longrightarrow> \<not> busy)"
proof (induction calls arbitrary: c busy calls' c')
  case (Cons call calls)
  show ?case
  proof (cases "pc_task call")
    case None
    obtain b cs c1 where r: "reap_parallel_calls calls c = (b, cs, c1)" by (metis surj_pair)
    with Cons.IH [OF r] Cons.prems None show ?thesis by auto
  next
    case (Some t)
    obtain rc res dn c1 where p: "poll_task t c = ((rc, res, dn), c1)" by (metis surj_pair)
    have t: "t \<in> T" "told t (host_of c)" using Cons.prems(2) Some by auto
    note pd = told_poll [OF assms t(1) p]
    have f1: "a_cancel c1 = a_cancel c" "tool_task c1 = tool_task c"
      using p by (auto simp: poll_task_def run_tool_def split: option.splits prod.splits)
    show ?thesis
    proof (cases "\<not> dn \<and> rc = AGENT_OK")
      case True
      then have e: "busy" "calls' = call # calls" "c' = c1" using Cons.prems(1) Some p by auto
      have "\<forall>call'\<in>set calls'. \<forall>u. pc_task call' = Some u \<longrightarrow> u \<in> T \<and> told u (host_of c')"
        using Cons.prems(2) pd unfolding e host_kept_def by blast
      with e pd f1 t True show ?thesis by auto
    next
      case False
      let ?d = "run_hook (tk_destroy t) c1"
      obtain b cs c2 where r: "reap_parallel_calls calls ?d = (b, cs, c2)" by (metis surj_pair)
      have e: "busy = b" "calls' = call\<lparr>pc_task := None\<rparr> # cs" "c' = c2"
        using Cons.prems(1) Some p False r by auto
      have cm: "host_kept left told T (host_of c) (host_of ?d)"
        using host_kept_trans pd told_destroy [OF assms t(1), of c1] by blast
      have "\<forall>call\<in>set calls. \<forall>u. pc_task call = Some u \<longrightarrow> u \<in> T \<and> told u (host_of ?d)"
        using Cons.prems(2) cm unfolding host_kept_def by (metis list.set_intros(2))
      from Cons.IH [OF r this] e cm f1 show ?thesis
        by (auto intro: host_kept_trans simp: host_kept_def)
    qed
  qed
qed simp

text \<open>The step when no request is pending.\<close>

lemma cancel_step_told:
  assumes "stops left told T" and "marked_told told T c" and "\<not> (a_state c = AGENT_WAIT_MODEL \<and> model_pending c)"
    and "cancel_step env c = (o1, c')"
  shows "a_cancel c' = a_cancel c \<and> host_kept left told T (host_of c) (host_of c') \<and>
         (o1 = Some AGENT_STEP_BUSY \<longrightarrow> marked_told told T c') \<and>
         (left (host_of c) = 0 \<longrightarrow> o1 = Some AGENT_STEP_CANCELLED)"
proof -
  define pending where "pending = (a_state c = AGENT_WAIT_MODEL \<and> model_pending c)"
  define c1 where "c1 = (if pending then cancel_model_request env c else c)"
  define c2 where "c2 = (if compaction_active c1
                   then c1\<lparr>compaction := no_compaction, compaction_text := text_clear (compaction_text c1),
                           compaction_active := False\<rparr>
                   else c1)"
  obtain tb c3 where t: "cancel_tool_task c2 = (tb, c3)" by (metis surj_pair)
  obtain calls c4 where k: "cancel_parallel_calls (parallel_tools c3) c3 = (calls, c4)" by (metis surj_pair)
  obtain busy calls' c5 where r: "reap_parallel_calls calls c4 = (busy, calls', c5)" by (metis surj_pair)
  define c6 where "c6 = c5\<lparr>parallel_tools := calls'\<rparr>"
  have "cancel_step env c =
     (if pending \<and> model_pending c1 then (Some AGENT_STEP_BUSY, c1)
      else if tb then (Some AGENT_STEP_BUSY, c3)
      else if busy then (Some AGENT_STEP_BUSY, c6)
      else (Some AGENT_STEP_CANCELLED,
                  (parallel_tools_free c6)\<lparr>a_state := AGENT_CANCELLED, in_turn := False\<rparr>))"
    unfolding cancel_step_def Let_def pending_def [symmetric] c1_def [symmetric] c2_def [symmetric] t k r
      prod.case c6_def [symmetric] by (rule refl)
  moreover have np: "\<not> pending" using assms(3) by (simp add: pending_def)
  ultimately have eq: "cancel_step env c =
     (if tb then (Some AGENT_STEP_BUSY, c3)
      else if busy then (Some AGENT_STEP_BUSY, c6)
      else (Some AGENT_STEP_CANCELLED,
                  (parallel_tools_free c6)\<lparr>a_state := AGENT_CANCELLED, in_turn := False\<rparr>))"
    by simp
  have f2: "host_of c2 = host_of c" "tool_task c2 = tool_task c" "tool_cancel_requested c2 = tool_cancel_requested c"
    "parallel_tools c2 = parallel_tools c" "a_cancel c2 = a_cancel c" using np by (simp_all add: c2_def c1_def)
  have m: "\<And>u. tool_task c2 = Some u \<Longrightarrow> u \<in> T \<and> (tool_cancel_requested c2 \<longrightarrow> told u (host_of c2))"
    using assms(2) unfolding f2 marked_told_def by blast
  note s3 = cancel_tool_told [OF assms(1) t m]
  have p3: "parallel_tools c3 = parallel_tools c"
    using cancel_tool_task_effect [OF t] f2 by (simp add: steady_def)
  have cm3: "host_kept left told T (host_of c) (host_of c3)" using s3 f2 by simp
  have ct: "calls_told told T (parallel_tools c3) (host_of c3)"
    using assms(2) calls_told_kept [OF _ cm3] by (simp add: p3 marked_told_def)
  note s4 = cancel_calls_told [OF assms(1) k ct]
  have "\<forall>call\<in>set calls. \<forall>u. pc_task call = Some u \<longrightarrow> u \<in> T \<and> told u (host_of c4)" using s4 by blast
  note s5 = reap_calls_told [OF assms(1) r this]
  have cm6: "host_kept left told T (host_of c) (host_of c6)"
    using host_kept_trans [OF host_kept_trans [OF cm3] conjunct1 [OF s5]] s4 by (simp add: c6_def)
  have t6: "tool_task c6 = None" if "\<not> tb"
    using that cancel_tool_task_effect [OF t] s4 s5 by (simp add: c6_def)
  have z: "left (host_of c3) = 0 \<and> left (host_of c4) = 0" if "left (host_of c) = 0"
    using that cm3 s4 by (simp add: host_kept_def)
  consider tb | "\<not> tb" busy | "\<not> tb" "\<not> busy" by blast
  then show ?thesis
  proof cases
    case 1
    then have o: "o1 = Some AGENT_STEP_BUSY" "c' = c3" using assms(4) eq by auto
    moreover have "marked_told told T c3" using s3 1 ct by (auto simp: marked_told_def)
    ultimately show ?thesis using s3 f2 cm3 1 by auto
  next
    case 2
    then have o: "o1 = Some AGENT_STEP_BUSY" "c' = c6" using assms(4) eq by auto
    moreover have "marked_told told T c6" using t6 2 s5 by (auto simp: marked_told_def calls_told_def c6_def)
    moreover have "a_cancel c6 = a_cancel c" using s3 s4 s5 f2 by (simp add: c6_def)
    ultimately show ?thesis using cm6 s5 z 2 by auto
  next
    case 3
    then have o: "o1 = Some AGENT_STEP_CANCELLED"
      "c' = (parallel_tools_free c6)\<lparr>a_state := AGENT_CANCELLED, in_turn := False\<rparr>" using assms(4) eq by auto
    have "calls_told told T calls' (host_of c6)" using s5 by (auto simp: calls_told_def c6_def)
    have free: "host_kept left told T (host_of x) (host_of (foldl (\<lambda>c call. case pc_task call of None \<Rightarrow> c
        | Some t \<Rightarrow> run_hook (tk_destroy t) (run_hook (tk_cancel t) c)) x cs)) \<and>
        a_cancel (foldl (\<lambda>c call. case pc_task call of None \<Rightarrow> c
        | Some t \<Rightarrow> run_hook (tk_destroy t) (run_hook (tk_cancel t) c)) x cs) = a_cancel x"
      if "\<forall>call\<in>set cs. \<forall>t. pc_task call = Some t \<longrightarrow> t \<in> T" for cs and x :: "'a loop"
      using that
    proof (induction cs arbitrary: x)
      case (Cons call cs)
      show ?case
      proof (cases "pc_task call")
        case None
        with Cons show ?thesis by simp
      next
        case (Some u)
        with Cons.prems have u: "u \<in> T" by simp
        let ?y = "run_hook (tk_destroy u) (run_hook (tk_cancel u) x)"
        have "host_kept left told T (host_of x) (host_of ?y)"
          using told_cancel [OF assms(1) u, of x] told_destroy [OF assms(1) u, of "run_hook (tk_cancel u) x"]
          by (blast intro: host_kept_trans)
        with Cons.IH [of ?y] Cons.prems Some show ?thesis by (auto intro: host_kept_trans)
      qed
    qed simp
    have "\<forall>call\<in>set (parallel_tools c6). \<forall>t. pc_task call = Some t \<longrightarrow> t \<in> T" using s5 by (simp add: c6_def)
    from free [OF this, of c6] have "host_kept left told T (host_of c6) (host_of c')" "a_cancel c' = a_cancel c6"
      by (simp_all add: o(2) parallel_tools_free_def)
    moreover have "a_cancel c6 = a_cancel c" using s3 s4 s5 f2 by (simp add: c6_def)
    ultimately show ?thesis using o(1) cm6 by (auto intro: host_kept_trans)
  qed
qed

section \<open>Cancellation takes effect\<close>

definition stays_cancelled :: "'w env \<Rightarrow> 'w loop \<Rightarrow> bool" where
  "stays_cancelled env c \<longleftrightarrow> ct_cancelled (a_cancel c) \<or> (\<forall>w. cancel_token_check (e_ancestors env w))"

lemma cancelled_resume:
  assumes "stays_cancelled env c" and "cancel_step env c = (o1, d)"
  shows "\<exists>r. o1 = Some r \<and> agent_resume env c = Some (r, d) \<and> r \<in> {AGENT_STEP_BUSY, AGENT_STEP_CANCELLED}"
proof -
  from cancel_step_effect [OF assms(2)] obtain r where r: "o1 = Some r" "r \<in> {AGENT_STEP_BUSY, AGENT_STEP_CANCELLED}" by auto
  have "cancel_token_check (a_cancel c # e_ancestors env (world c))"
    using assms(1) by (auto simp: stays_cancelled_def cancel_token_check_iff)
  with assms(2) r show ?thesis by (simp add: agent_resume.simps resume_iter_def)
qed

text \<open>What the end of the turn leaves: nothing pending, and the history that was there.\<close>

definition turn_ended :: "'w loop \<Rightarrow> 'w loop \<Rightarrow> bool" where
  "turn_ended c d \<longleftrightarrow> a_state d = AGENT_CANCELLED \<and> \<not> in_turn d \<and> tool_task d = None \<and> parallel_tools d = [] \<and>
     \<not> compaction_active d \<and> a_messages d = a_messages c"

lemma step_turn_ended: "cancel_step env c = (Some AGENT_STEP_CANCELLED, d) \<Longrightarrow> turn_ended c d"
  using cancel_step_effect [of env c "Some AGENT_STEP_CANCELLED" d] by (auto simp: turn_ended_def)

text \<open>With a request out there are no tasks, and the first resume ends the turn.\<close>

lemma waiting_model_ends:
  assumes "history_ok c" and "a_state c = AGENT_WAIT_MODEL" and "stays_cancelled env c"
    and "model_pending c \<longrightarrow> \<not> request_cancel_requested c \<and> (\<exists>m f. a_model c = Some m \<and> md_cancel m = Some f \<and>
        (\<exists>ev\<in>set (fst (f (request_id c) (world c))). me_request_id ev = request_id c \<and> terminal_event (me_body ev)))"
  shows "\<exists>d. agent_resume env c = Some (AGENT_STEP_CANCELLED, d) \<and> turn_ended c d"
proof -
  define pending where "pending = (a_state c = AGENT_WAIT_MODEL \<and> model_pending c)"
  define c1 where "c1 = (if pending then cancel_model_request env c else c)"
  define c2 where "c2 = (if compaction_active c1
                   then c1\<lparr>compaction := no_compaction, compaction_text := text_clear (compaction_text c1),
                           compaction_active := False\<rparr>
                   else c1)"
  have tt: "tool_task c = None" "parallel_tools c = []" using assms(1,2) by (auto simp: history_ok_def)
  have np: "\<not> (pending \<and> model_pending c1)"
  proof
    assume p: "pending \<and> model_pending c1"
    with assms(4) obtain m f evs w' where m: "\<not> request_cancel_requested c" "a_model c = Some m" "md_cancel m = Some f"
      "f (request_id c) (world c) = (evs, w')"
      "\<exists>ev\<in>set evs. me_request_id ev = request_id c \<and> terminal_event (me_body ev)"
      unfolding pending_def by (metis fst_conv surj_pair)
    then have "c1 = deliver_events env (c\<lparr>request_cancel_requested := True, world := w'\<rparr>) evs"
      using p by (simp add: c1_def cancel_model_request_def)
    with deliver_events_done [of evs "c\<lparr>request_cancel_requested := True, world := w'\<rparr>" env] m(5) p show False by simp
  qed
  have "steady (c\<lparr>request_cancel_requested := request_cancel_requested c1\<rparr>) c1"
    using cancel_model_request_steady [where c = c and env = env] by (simp add: c1_def)
  with tt have f2: "tool_task c2 = None" "parallel_tools c2 = []" by (simp_all add: steady_def c2_def)
  have "fst (cancel_step env c) = Some AGENT_STEP_CANCELLED"
    unfolding cancel_step_def Let_def pending_def [symmetric] c1_def [symmetric] c2_def [symmetric] if_not_P [OF np]
    by (simp add: cancel_tool_task_def f2)
  then obtain d where d: "cancel_step env c = (Some AGENT_STEP_CANCELLED, d)" by (metis prod.collapse)
  from cancelled_resume [OF assms(3) d] step_turn_ended [OF d] show ?thesis by auto
qed

lemma busy_round_told:
  assumes "stops left told T" and "pump_passes pump left told T" and "marked_told told T c"
    and "a_state c \<noteq> AGENT_WAIT_MODEL" and "stays_cancelled env c" and "busy_round env pump c c'"
  shows "marked_told told T c' \<and> a_state c' \<noteq> AGENT_WAIT_MODEL \<and> stays_cancelled env c' \<and>
         left (host_of c') \<le> left (host_of c) - 1 \<and> a_messages c' = a_messages c"
proof -
  from assms(6) obtain d w where d: "agent_resume env c = Some (AGENT_STEP_BUSY, d)" "pump (world d) w" "c' = d\<lparr>world := w\<rparr>"
    by (auto simp: busy_round_def)
  obtain o1 e where e: "cancel_step env c = (o1, e)" by (cases "cancel_step env c")
  from cancelled_resume [OF assms(5) e] d(1) have o: "o1 = Some AGENT_STEP_BUSY" "e = d" by auto
  from cancel_step_told [OF assms(1,3) _ e] assms(4)
  have s: "a_cancel d = a_cancel c" "host_kept left told T (host_of c) (host_of d)" "marked_told told T d" using o by auto
  from cancel_step_effect [OF e] o have f: "a_state d = a_state c" "a_messages d = a_messages c" by auto
  from assms(2) d(2) have p: "left (host_of c') \<le> left (host_of d) - 1" "\<And>u. u \<in> T \<Longrightarrow> told u (host_of d) \<Longrightarrow> told u (host_of c')"
    unfolding pump_passes_def by (auto simp: d(3))
  have "marked_told told T c'" using s(3) p(2) by (auto simp: marked_told_def calls_told_def d(3))
  moreover have "left (host_of c') \<le> left (host_of c) - 1"
    using p(1) s(2) diff_le_mono [of "left (host_of d)" "left (host_of c)" 1] by (simp add: host_kept_def)
  ultimately show ?thesis using f assms(4,5) s(1) by (simp add: d(3) stays_cancelled_def)
qed

lemma busy_rounds_told:
  assumes "stops left told T" and "pump_passes pump left told T" and "marked_told told T c"
    and "a_state c \<noteq> AGENT_WAIT_MODEL" and "stays_cancelled env c" and "(busy_round env pump ^^ n) c c'"
  shows "marked_told told T c' \<and> a_state c' \<noteq> AGENT_WAIT_MODEL \<and> stays_cancelled env c' \<and>
         left (host_of c') \<le> left (host_of c) - n \<and> a_messages c' = a_messages c"
  using assms(6)
proof (induction n arbitrary: c')
  case 0
  with assms show ?case by simp
next
  case (Suc n)
  then obtain b where b: "(busy_round env pump ^^ n) c b" "busy_round env pump b c'" by auto
  from Suc.IH [OF b(1)] have i: "marked_told told T b" "a_state b \<noteq> AGENT_WAIT_MODEL" "stays_cancelled env b"
    "left (host_of b) \<le> left (host_of c) - n" "a_messages b = a_messages c" by auto
  from busy_round_told [OF assms(1,2) i(1-3) b(2)] i(4,5) show ?case by auto
qed


text \<open>A task that needs two rounds after it was told, and runs on for ever if it is not.\<close>

definition slow_task :: "(bool \<times> nat) host_state tool_task" where
  "slow_task = \<lparr>tk_poll = Some (\<lambda>x. ((AGENT_OK, zero_result, fst (snd x) \<and> snd (snd x) = 0), x)),
     tk_cancel = Some (\<lambda>(s, w). (s, (True, snd w))), tk_destroy = None\<rparr>"

definition slow_agent :: "(bool \<times> nat) loop" where
  "slow_agent = (loop_state (fst (agent_new 1 None None)) (False, 2))
     \<lparr>a_cancel := \<lparr>ct_cancelled = True, ct_generation = 1\<rparr>, a_state := AGENT_WAIT_TOOL,
      a_messages := \<lparr>mitems = [(message_new MSG_ASSISTANT)\<lparr>m_tool_calls := [zero_tool_call]\<rparr>], mcap = 4\<rparr>,
      tool_task := Some slow_task\<rparr>"

definition slow_state :: "nat \<Rightarrow> (bool \<times> nat) loop \<Rightarrow> bool" where
  "slow_state n x \<longleftrightarrow> tool_task x = Some slow_task \<and> parallel_tools x = [] \<and> a_state x = AGENT_WAIT_TOOL \<and>
     ct_cancelled (a_cancel x) \<and> \<not> compaction_active x \<and> snd (world x) = n \<and>
     (tool_cancel_requested x \<longrightarrow> fst (world x))"

lemma slow_round:
  assumes "slow_state (Suc n) x"
  shows "\<exists>y. busy_round still_env (\<lambda>w w'. w' = (fst w, snd w - 1)) x y \<and> slow_state n y"
proof -
  obtain o1 d where d: "cancel_step still_env x = (o1, d)" by (cases "cancel_step still_env x")
  have f: "o1 = Some AGENT_STEP_BUSY \<and> slow_state (Suc n) d"
    using assms d by (cases "tool_cancel_requested x"; cases "world x")
      (auto simp: cancel_step_def cancel_tool_task_def slow_state_def slow_task_def poll_task_def run_tool_def
        run_hook_def Let_def split_beta)
  have "stays_cancelled still_env x" using assms by (simp add: stays_cancelled_def slow_state_def)
  from cancelled_resume [OF this d] f have "agent_resume still_env x = Some (AGENT_STEP_BUSY, d)" by auto
  with f show ?thesis by (intro exI [of _ "d\<lparr>world := (fst (world d), n)\<rparr>"]) (simp add: busy_round_def slow_state_def)
qed


section \<open>A cancelled agent stays cancelled\<close>

definition token_kept :: "'w loop \<Rightarrow> 'w loop \<Rightarrow> bool" where
  "token_kept c c' \<longleftrightarrow> (ct_cancelled (a_cancel c) \<longrightarrow> ct_cancelled (a_cancel c'))"

lemma token_kept_same: "a_cancel c' = a_cancel c \<Longrightarrow> token_kept c c'"
  by (simp add: token_kept_def)

lemma token_kept_trans: "token_kept c c' \<Longrightarrow> token_kept c' c'' \<Longrightarrow> token_kept c c''"
  by (simp add: token_kept_def)

lemma token_kept_calls: "token_kept c (foldl do_host_call c hs)"
proof (induction hs arbitrary: c)
  case (Cons h hs)
  have "token_kept c (do_host_call c h)"
    by (cases h) (auto simp: token_kept_def cancel_token_cancel_def agent_set_approval_result_def agent_set_session_trusted_def)
  with Cons show ?case by (auto intro: token_kept_trans)
qed (simp add: token_kept_def)

lemma token_kept_emit: "token_kept c (emit ev c)"
proof (cases "a_event_cb c")
  case (Some cb)
  obtain calls w' where "cb ev (world c) = (calls, w')" by (cases "cb ev (world c)")
  with Some token_kept_calls [of "c\<lparr>world := w'\<rparr>" calls] show ?thesis by (simp add: emit_def token_kept_def)
qed (simp add: emit_def token_kept_def)

lemma token_kept_model_event: "token_kept c (on_model_event env c ev)"
proof (cases "me_body ev")
  case (Text_Delta d)
  let ?c1 = "c\<lparr>lctx := (lctx c)\<lparr>lc_text := text_add (lc_text (lctx c)) d\<rparr>\<rparr>"
  have "token_kept c (emit e ?c1)" for e using token_kept_emit [of ?c1 e] by (simp add: token_kept_def)
  with Text_Delta show ?thesis by (simp add: on_model_event_def Let_def token_kept_same)
qed (simp_all add: on_model_event_def Let_def token_kept_same finish_stats_def ask_clock_def with_session_def split_beta)

lemma token_kept_events: "token_kept c (deliver_events env c evs)"
proof -
  have "token_kept x (foldl (on_model_event env) x evs)" for x :: "'a loop"
  proof (induction evs arbitrary: x)
    case (Cons ev evs)
    from token_kept_trans [OF token_kept_model_event Cons.IH] show ?case by simp
  qed (simp add: token_kept_def)
  moreover have "token_kept x (foldl on_compaction_event x evs)" for x :: "'a loop"
  proof (induction evs arbitrary: x)
    case (Cons ev evs)
    have "token_kept x (on_compaction_event x ev)"
      by (rule token_kept_same) (simp add: on_compaction_event_def split: model_event_body.split)
    from token_kept_trans [OF this Cons.IH] show ?case by simp
  qed (simp add: token_kept_def)
  ultimately show ?thesis by (simp add: deliver_events_def)
qed

lemma poll_task_keeps: "poll_task t c = (r, c') \<Longrightarrow> a_cancel c' = a_cancel c"
  by (auto simp: poll_task_def run_tool_def split: option.splits prod.splits)

lemma cancel_tool_token: "cancel_tool_task c = (busy, c') \<Longrightarrow> a_cancel c' = a_cancel c"
  by (auto simp: cancel_tool_task_def Let_def split: option.splits prod.splits if_splits dest!: poll_task_keeps)

lemma cancel_calls_token: "cancel_parallel_calls calls c = (calls', c') \<Longrightarrow> a_cancel c' = a_cancel c"
proof (induction calls arbitrary: c calls' c')
  case (Cons call calls)
  define r where "r = (case pc_task call of
            Some t \<Rightarrow> if \<not> pc_cancel_requested call \<and> tk_cancel t \<noteq> None
                      then (call\<lparr>pc_cancel_requested := True\<rparr>, run_hook (tk_cancel t) c) else (call, c)
          | None \<Rightarrow> (call, c))"
  obtain call1 c1 where r1: "r = (call1, c1)" by (cases r)
  then have "a_cancel c1 = a_cancel c" by (auto simp: r_def split: option.splits if_splits)
  moreover obtain cs c2 where k: "cancel_parallel_calls calls c1 = (cs, c2)" by (metis surj_pair)
  moreover have "c' = c2" using Cons.prems r1 k by (simp add: r_def [symmetric])
  ultimately show ?case using Cons.IH [OF k] by simp
qed simp

lemma reap_calls_token: "reap_parallel_calls calls c = (busy, calls', c') \<Longrightarrow> a_cancel c' = a_cancel c"
proof (induction calls arbitrary: c busy calls' c')
  case (Cons call calls)
  then show ?case
    by (fastforce split: option.splits prod.splits if_splits dest: poll_task_keeps)
qed simp

lemma free_token: "a_cancel (parallel_tools_free c) = a_cancel c"
proof -
  have "a_cancel (foldl (\<lambda>c call. case pc_task call of None \<Rightarrow> c
      | Some t \<Rightarrow> run_hook (tk_destroy t) (run_hook (tk_cancel t) c)) c cs) = a_cancel c" for cs and c :: "'a loop"
    by (induction cs arbitrary: c) (auto split: option.split)
  then show ?thesis by (simp add: parallel_tools_free_def)
qed

text \<open>An agent with nothing outstanding is cancelled at once.\<close>

definition outstanding :: "'w loop \<Rightarrow> bool" where
  "outstanding c \<longleftrightarrow> (a_state c = AGENT_WAIT_MODEL \<and> model_pending c) \<or> tasks_of c \<noteq> {}"

lemma cancel_step_token:
  assumes "cancel_step env c = (o1, c')"
  shows "token_kept c c' \<and> (\<not> outstanding c \<longrightarrow> o1 = Some AGENT_STEP_CANCELLED)"
proof -
  define pending where "pending = (a_state c = AGENT_WAIT_MODEL \<and> model_pending c)"
  define c1 where "c1 = (if pending then cancel_model_request env c else c)"
  define c2 where "c2 = (if compaction_active c1
                   then c1\<lparr>compaction := no_compaction, compaction_text := text_clear (compaction_text c1),
                           compaction_active := False\<rparr>
                   else c1)"
  obtain tb c3 where t: "cancel_tool_task c2 = (tb, c3)" by (metis surj_pair)
  obtain calls c4 where k: "cancel_parallel_calls (parallel_tools c3) c3 = (calls, c4)" by (metis surj_pair)
  obtain busy calls' c5 where r: "reap_parallel_calls calls c4 = (busy, calls', c5)" by (metis surj_pair)
  define c6 where "c6 = c5\<lparr>parallel_tools := calls'\<rparr>"
  have eq: "cancel_step env c =
     (if pending \<and> model_pending c1 then (Some AGENT_STEP_BUSY, c1)
      else if tb then (Some AGENT_STEP_BUSY, c3)
      else if busy then (Some AGENT_STEP_BUSY, c6)
      else (Some AGENT_STEP_CANCELLED,
                  (parallel_tools_free c6)\<lparr>a_state := AGENT_CANCELLED, in_turn := False\<rparr>))"
    unfolding cancel_step_def Let_def pending_def [symmetric] c1_def [symmetric] c2_def [symmetric] t k r
      prod.case c6_def [symmetric] by (rule refl)
  have "token_kept c (cancel_model_request env c)"
  proof -
    have "token_kept c (deliver_events env (c\<lparr>request_cancel_requested := True, world := w\<rparr>) evs)" for w evs
      using token_kept_events [of "c\<lparr>request_cancel_requested := True, world := w\<rparr>" env evs] by (simp add: token_kept_def)
    then show ?thesis by (simp add: cancel_model_request_def token_kept_same split: option.split prod.split)
  qed
  then have f1: "token_kept c c1" by (simp add: c1_def token_kept_same)
  have f2: "a_cancel c2 = a_cancel c1" by (simp add: c2_def)
  have f3: "a_cancel c3 = a_cancel c1" using cancel_tool_token [OF t] f2 by simp
  have f6: "a_cancel c6 = a_cancel c1" using reap_calls_token [OF r] cancel_calls_token [OF k] f3 by (simp add: c6_def)
  have "token_kept c c'"
    using assms eq f1 f3 f6 by (auto simp: token_kept_def free_token split: if_splits)
  moreover have "o1 = Some AGENT_STEP_CANCELLED" if no: "\<not> outstanding c"
  proof -
    have np: "\<not> pending" and tt: "tool_task c = None" and "\<forall>t. Some t \<notin> pc_task ` set (parallel_tools c)"
      using no by (auto simp: outstanding_def pending_def tasks_of_def)
    then have pt: "\<forall>call\<in>set (parallel_tools c). pc_task call = None" by (metis image_eqI option.exhaust)
    have c2: "tool_task c2 = None" "parallel_tools c2 = parallel_tools c"
      using np tt by (simp_all add: c2_def c1_def)
    then have c3: "\<not> tb" "c3 = c2" using t by (simp_all add: cancel_tool_task_def)
    have ck: "\<forall>call\<in>set cs. pc_task call = None \<Longrightarrow> cancel_parallel_calls cs x = (cs, x)" for cs and x :: "'a loop"
      by (induction cs) auto
    have rk: "\<forall>call\<in>set cs. pc_task call = None \<Longrightarrow> reap_parallel_calls cs x = (False, cs, x)" for cs and x :: "'a loop"
      by (induction cs) auto
    have "\<not> busy" using k r ck [of "parallel_tools c3"] rk [of "parallel_tools c3"] pt by (simp add: c3 c2)
    with np c3(1) assms eq show ?thesis by simp
  qed
  ultimately show ?thesis by blast
qed

end
