(* ===== verification/Scheduler.thy ===== *)
theory Scheduler
  imports Loop_Pass
begin

text \<open>
  The agent scheduler of \<open>src/src/runtime/scheduler.c\<close>, on top of the agent loop.  A scheduler
  holds its agents with their pending inputs in one list (the parallel arrays \<open>agents\<close> and
  \<open>inputs\<close>).  The agents act on one world: it is handed to each agent before it runs and taken
  back afterwards.  \<open>agent_start\<close> and \<open>agent_resume\<close> are those of the loop.
\<close>

section \<open>What a resume reports\<close>

text \<open>The state an agent is left in, for each result of \<open>agent_resume\<close>.\<close>

definition in_flight :: "agent_state \<Rightarrow> bool" where
  "in_flight s \<longleftrightarrow> s \<in> {AGENT_WAIT_MODEL, AGENT_WAIT_TOOL, AGENT_WAIT_USER}"

definition gave_up :: "agent_state \<Rightarrow> bool" where
  "gave_up s \<longleftrightarrow> s \<in> {AGENT_ERROR, AGENT_CANCELLED}"

definition reported :: "agent_step option \<times> 'w loop \<Rightarrow> bool" where
  "reported p \<longleftrightarrow>
     a_state (snd p) \<noteq> AGENT_WAIT_CHILD \<and>
     (fst p = Some AGENT_STEP_BUSY \<longrightarrow> in_flight (a_state (snd p))) \<and>
     (fst p = Some AGENT_STEP_DONE \<longrightarrow> a_state (snd p) = AGENT_DONE) \<and>
     (fst p = Some AGENT_STEP_ERROR \<longrightarrow> gave_up (a_state (snd p))) \<and>
     (fst p = Some AGENT_STEP_CANCELLED \<longrightarrow> a_state (snd p) = AGENT_CANCELLED)"

lemma reported_fail [simp]: "reported (fail_turn c)"
  by (simp add: reported_def fail_turn_def gave_up_def)

lemma reported_busy [simp]: "reported (Some AGENT_STEP_BUSY, c) \<longleftrightarrow> in_flight (a_state c)"
  by (auto simp: reported_def in_flight_def)

lemma reported_continue [simp]: "reported (None, c) \<longleftrightarrow> a_state c \<noteq> AGENT_WAIT_CHILD"
  by (simp add: reported_def)

lemma steady_state: "steady c c' \<Longrightarrow> a_state c' = a_state c"
  by (simp add: steady_def)

lemma emit_state [simp]: "a_state (emit ev c) = a_state c"
  by (rule steady_state) (rule quiet_steady [OF emit_quiet])

lemma reported_if: "(b \<Longrightarrow> reported p) \<Longrightarrow> (\<not> b \<Longrightarrow> reported q) \<Longrightarrow> reported (if b then p else q)"
  by simp

lemma in_flight_not_child: "in_flight s \<Longrightarrow> s \<noteq> AGENT_WAIT_CHILD"
  by (auto simp: in_flight_def)

lemma suspend_reported:
  assumes "\<not> compaction_active c" and "tool_grouped (items c)"
  shows "reported (suspend_or_fail (start_request env c))"
proof -
  obtain rc c' where r: "start_request env c = (rc, c')" by (metis surj_pair)
  from start_request_effect [OF r assms] have "a_state c' = AGENT_WAIT_MODEL" by simp
  then show ?thesis by (simp add: r suspend_or_fail_def in_flight_def)
qed

lemma rejection_state:
  "append_tool_rejection env c k msg = (rc, c') \<Longrightarrow> a_state c' = a_state c"
  by (simp add: append_tool_rejection_def append_frame(2))

lemma wait_user_reported:
  assumes "in_flight (a_state c)"
  shows "reported (wait_user_step env c)"
proof -
  obtain rc c1 where r: "append_tool_rejection env c (tool_index c)
      (if approval_granted c \<and> (tool_index c \<noteq> approval_tool_index c \<or> \<not> approval_matches env c (call_at c (tool_index c)))
       then ''error: approval is stale; tool call changed''
       else ''error: tool execution denied by user'') = (rc, c1)" by (metis surj_pair)
  show ?thesis
    unfolding wait_user_step_def Let_def r prod.case by (intro reported_if) (simp_all add: assms)
qed

lemma after_tool_reported: "in_flight (a_state c) \<Longrightarrow> reported (after_tool c)"
  by (simp add: after_tool_def Let_def in_flight_not_child)

lemma start_tool_state:
  assumes "start_tool_call env c k = (rc, pending, c')"
  shows "a_state c' = a_state c"
  using start_tool_call_cases [OF assms]
proof (elim disjE exE conjE)
  fix c1 result assume "steady c c1" "append_tool_result env c1 k result = (rc, c')"
  from steady_state [OF this(1)] append_frame(2) [OF this(2)] show ?thesis by simp
qed (simp add: steady_state)

lemma poll_tool_state:
  assumes "poll_tool_call env c k = (rc, dn, c')" and "tool_task c = Some t"
  shows "a_state c' = a_state c"
  using poll_tool_call_cases [OF assms]
proof (elim disjE exE conjE)
  fix c1 result assume "steady c c1"
    "append_tool_result env (c1\<lparr>tool_task := None, tool_cancel_requested := False\<rparr>) k result = (rc, c')"
  from steady_state [OF this(1)] append_frame(2) [OF this(2)] show ?thesis by simp
qed (rule steady_state)

lemma run_serial_reported:
  assumes "in_flight (a_state c)"
  shows "reported (run_serial_tool env c)"
proof -
  obtain rc pending c1 where s: "start_tool_call env (emit (tool_start_event (call_at c (tool_index c))) c) (tool_index c) =
    (rc, pending, c1)" by (metis surj_pair)
  from start_tool_state [OF this] assms have "in_flight (a_state c1)" by simp
  then show ?thesis
    unfolding run_serial_tool_def Let_def s prod.case by (intro reported_if) (simp_all add: after_tool_reported)
qed

lemma request_approval_reported: "reported (request_approval env tool c)"
proof -
  let ?d = "approval_digest env (call_at c (tool_index c))"
  let ?c1 = "c\<lparr>approval_pending := True, approval_decided := False, approval_tool_index := tool_index c,
                 approval_digest_valid := (?d \<noteq> None),
                 approval_stored_digest := (case ?d of Some d \<Rightarrow> d | None \<Rightarrow> approval_stored_digest c),
                 a_state := AGENT_WAIT_USER\<rparr>"
  obtain preview c2 where p: "build_tool_preview tool (call_at c (tool_index c)) ?c1 = (preview, c2)" by (metis surj_pair)
  have c2: "a_state c2 = AGENT_WAIT_USER"
    using steady_state [OF quiet_steady [OF build_tool_preview_quiet [OF p]]] by simp
  have c3: "a_state (ask_approval_cb ev (emit ev c2)) = AGENT_WAIT_USER" for ev
    using steady_state [OF ask_approval_cb_steady [of "emit ev c2" ev]] c2 by simp
  have "reported (if b then None else Some AGENT_STEP_BUSY, d)" if "a_state d = AGENT_WAIT_USER" for b and d :: "'a loop"
    using that by (simp add: in_flight_def)
  from this [OF c3] show ?thesis unfolding request_approval_def Let_def p prod.case .
qed

lemma begin_serial_reported:
  assumes "in_flight (a_state c)"
  shows "reported (begin_serial_tool env c)"
proof -
  obtain rc c1 where r: "append_tool_rejection env c (tool_index c)
    ''error: side-effecting tool denied; no approval host is available'' = (rc, c1)" by (metis surj_pair)
  from rejection_state [OF r] assms have "in_flight (a_state c1)" by simp
  with assms show ?thesis
    unfolding begin_serial_tool_def Let_def r prod.case
    by (cases "find_tool c (call_at c (tool_index c))")
      (simp_all add: run_serial_reported request_approval_reported in_flight_not_child)
qed

lemma append_parallel_state:
  "append_parallel_results env calls c = (rc, c') \<Longrightarrow> a_state c' = a_state c"
proof (induction calls arbitrary: c)
  case (Cons call calls)
  obtain rc1 c1 where a: "append_tool_result env c (pc_tool_index call) (pc_result call) = (rc1, c1)" by (metis surj_pair)
  have c1: "a_state c1 = a_state c" by (rule append_frame(2) [OF a])
  show ?case
  proof (cases "rc1 = AGENT_OK")
    case True
    let ?tc = "call_at c1 (pc_tool_index call)"
    from Cons.prems a True have
      "append_parallel_results env calls (emit (tool_end_event ?tc (tc_is_error ?tc)) c1) = (rc, c')" by (simp add: Let_def)
    from Cons.IH [OF this] c1 show ?thesis by simp
  qed (use Cons.prems a c1 in auto)
qed simp

lemma wait_tool_reported:
  assumes "history_ok c0" and "a_state c0 = AGENT_WAIT_TOOL"
  shows "reported (wait_tool_step env c0)"
proof -
  define c where "c = (if parallel_tools c0 = [] \<and> \<not> not_batch c0 then start_parallel_tools c0 else c0)"
  obtain rc dn c1 where p: "poll_parallel_tools env c = (rc, dn, c1)" by (metis surj_pair)
  obtain rc' dn' c1' where t: "poll_tool_call env c (tool_index c) = (rc', dn', c1')" by (metis surj_pair)
  have "wait_tool_step env c0 =
     (if parallel_tools c \<noteq> [] then
        (let (rc, done, c1) = poll_parallel_tools env c in
         if rc \<noteq> AGENT_OK then fail_turn (parallel_tools_free c1)
         else if \<not> done then (Some AGENT_STEP_BUSY, c1)
         else (None, parallel_tools_free (c1\<lparr>tool_index := calls_len c1\<rparr>)))
      else if tool_index c < calls_len c then
        (if tool_task c \<noteq> None then
           (let (rc, done, c1) = poll_tool_call env c (tool_index c) in
            if rc \<noteq> AGENT_OK then fail_turn c1
            else if \<not> done then (Some AGENT_STEP_BUSY, c1)
            else after_tool c1)
         else begin_serial_tool env c)
      else suspend_or_fail (start_request env c))"
    by (simp add: wait_tool_step_def c_def not_batch_def Let_def)
  then have eq: "wait_tool_step env c0 =
     (if parallel_tools c \<noteq> [] then
        (if rc \<noteq> AGENT_OK then fail_turn (parallel_tools_free c1)
         else if \<not> dn then (Some AGENT_STEP_BUSY, c1)
         else (None, parallel_tools_free (c1\<lparr>tool_index := calls_len c1\<rparr>)))
      else if tool_index c < calls_len c then
        (if tool_task c \<noteq> None then
           (if rc' \<noteq> AGENT_OK then fail_turn c1'
            else if \<not> dn' then (Some AGENT_STEP_BUSY, c1')
            else after_tool c1')
         else begin_serial_tool env c)
      else suspend_or_fail (start_request env c))"
    unfolding p t Let_def prod.case .
  have st: "a_state c = AGENT_WAIT_TOOL"
    using start_batch [OF assms] assms(2) by (auto simp: c_def batch_running_def)
  have c1: "a_state c1 = AGENT_WAIT_TOOL"
  proof -
    obtain calls c2 where pc: "poll_parallel_calls (parallel_tools c) c = (calls, c2)" by (metis surj_pair)
    have c2: "a_state c2 = AGENT_WAIT_TOOL" using steady_state [OF conjunct1 [OF poll_parallel_calls_effect [OF pc]]] st by simp
    obtain rc2 c3 where a: "append_parallel_results env calls (c2\<lparr>parallel_tools := calls\<rparr>) = (rc2, c3)" by (metis surj_pair)
    from append_parallel_state [OF a] c2 p pc a show ?thesis
      by (auto simp: poll_parallel_tools_def Let_def split: if_splits)
  qed
  have "a_state (parallel_tools_free (c1\<lparr>tool_index := calls_len c1\<rparr>)) = AGENT_WAIT_TOOL"
    using steady_state [OF parallel_free_steady [of "c1\<lparr>tool_index := calls_len c1\<rparr>"]] c1 by simp
  moreover have "a_state c1' = AGENT_WAIT_TOOL" if "tool_task c \<noteq> None"
    using that poll_tool_state [OF t] st by auto
  moreover have "reported (suspend_or_fail (start_request env c))" if "parallel_tools c = []"
  proof -
    have "c = c0" using that start_batch [OF assms] by (auto simp: c_def batch_running_def)
    with assms have "tool_grouped (items c)" "\<not> compaction_active c" by (auto simp: history_ok_def)
    with suspend_reported show ?thesis by blast
  qed
  ultimately show ?thesis
    unfolding eq using c1 st
    by (intro reported_if) (simp_all add: in_flight_def after_tool_reported begin_serial_reported)
qed

lemma wait_model_reported:
  assumes "history_ok c" and "a_state c = AGENT_WAIT_MODEL"
  shows "reported (wait_model_step env c)"
proof -
  have busy: "reported (Some AGENT_STEP_BUSY, c)" using assms(2) by (simp add: in_flight_def)
  have report: "reported (report_model_error d)" for d :: "'a loop" by (simp add: report_model_error_def)
  have g: "tool_grouped (items c)" using assms(1) by (simp add: history_ok_def)
  have "reported (wait_model_error env c)"
  proof -
    obtain el c2 where r: "retry_delay_elapsed env c = (el, c2)" by (metis surj_pair)
    then have "quiet c c2" by (auto simp: retry_delay_elapsed_def Let_def split: prod.splits dest: ask_clock_quiet)
    then have c2: "a_state c2 = AGENT_WAIT_MODEL" using assms(2) steady_state quiet_steady by metis
    obtain rc c3 where m: "start_model_request env (c2\<lparr>retry_pending := False\<rparr>) = (rc, c3)" by (metis surj_pair)
    have c3: "a_state c3 = AGENT_WAIT_MODEL" using start_model_request_effect [OF m] by simp
    define b where "b = c\<lparr>request_retries := request_retries c + 1\<rparr>"
    obtain t c4 where k: "ask_clock env b = (t, c4)" by (metis surj_pair)
    have "a_state b = AGENT_WAIT_MODEL" using assms(2) by (simp add: b_def)
    then have "a_state (schedule_retry_delay env b) = AGENT_WAIT_MODEL"
      using steady_state [OF quiet_steady [OF ask_clock_quiet [OF k]]]
      by (simp add: schedule_retry_delay_def Let_def k split_beta)
    with c2 c3 show ?thesis
      unfolding wait_model_error_def Let_def r m prod.case b_def [symmetric]
      by (intro reported_if) (simp_all add: report in_flight_def)
  qed
  moreover have "reported (wait_model_complete env c)" if "\<not> compaction_active c"
  proof -
    define am where "am = assistant_message c"
    define b where "b = c\<lparr>output_continuation_active := False,
                 output_limit_continuations := (if \<not> request_hit_output_limit c then 0 else output_limit_continuations c),
                 lctx := (lctx c)\<lparr>lc_text := None, lc_reasoning := None, lc_tool_calls := []\<rparr>,
                 a_messages := history_append (a_messages c) am\<rparr>"
    define c1 where "c1 = log_message env am b"
    have st1: "steady b c1" unfolding c1_def by (rule quiet_steady [OF log_message_quiet])
    have "m_role am \<noteq> MSG_TOOL" by (simp add: am_def)
    with g have gb: "tool_grouped (items b)" by (simp add: b_def tool_grouped_snoc)
    define c2 where "c2 = c1\<lparr>output_limit_continuations := output_limit_continuations c1 + 1, output_continuation_active := True\<rparr>"
    have cont: "reported (suspend_or_fail (start_request env (emit ev c2)))" for ev
    proof (rule suspend_reported)
      have "steady c2 (emit ev c2)" by (rule quiet_steady [OF emit_quiet])
      with st1 gb that show "\<not> compaction_active (emit ev c2)" "tool_grouped (items (emit ev c2))"
        by (simp_all add: steady_def c2_def b_def)
    qed
    have done_: "reported (Some AGENT_STEP_DONE, c1\<lparr>a_state := AGENT_DONE, in_turn := False\<rparr>)"
      by (simp add: reported_def)
    show ?thesis
      unfolding wait_model_complete_def Let_def am_def [symmetric] b_def [symmetric] c1_def [symmetric] c2_def [symmetric]
      by (intro reported_if reported_fail cont done_ wait_user_reported) (simp add: with_session_def in_flight_def)
  qed
  moreover have "reported (None, finish_compaction env c)" using finish_compaction_effect [of c env] by simp
  ultimately show ?thesis using busy by (simp add: wait_model_step_def)
qed

text \<open>An agent outside a turn has nothing to wait for when it is cancelled.\<close>

lemma cancel_idle:
  assumes "history_ok c" and "\<not> in_flight (a_state c)"
  shows "fst (cancel_step env c) = Some AGENT_STEP_CANCELLED"
proof -
  from assms have n: "a_state c \<noteq> AGENT_WAIT_MODEL" "tool_task c = None" "parallel_tools c = []"
    by (auto simp: in_flight_def history_ok_def)
  define c2 where "c2 = (if compaction_active c
      then c\<lparr>compaction := no_compaction, compaction_text := text_clear (compaction_text c), compaction_active := False\<rparr> else c)"
  have "tool_task c2 = None" "parallel_tools c2 = []" using n by (simp_all add: c2_def)
  then have "cancel_tool_task c2 = (False, c2)" "cancel_parallel_calls (parallel_tools c2) c2 = ([], c2)"
    by (simp_all add: cancel_tool_task_def)
  with n(1) show ?thesis by (simp add: cancel_step_def c2_def [symmetric])
qed

text \<open>Every pass of \<open>agent_resume\<close> reports the state it leaves.\<close>

lemma resume_iter_reported:
  assumes "history_ok c" and "a_state c \<noteq> AGENT_WAIT_CHILD"
  shows "reported (resume_iter env c)"
proof (cases "cancel_token_check (a_cancel c # e_ancestors env (world c))")
  case True
  obtain o1 c' where k: "cancel_step env c = (o1, c')" by (metis surj_pair)
  note e = cancel_step_effect [OF k]
  have stop: "o1 = Some AGENT_STEP_CANCELLED" if "\<not> in_flight (a_state c)"
    using cancel_idle [OF assms(1) that, of env] k by simp
  have "resume_iter env c = (o1, c')" using True k by (simp add: resume_iter_def)
  moreover have "o1 = Some AGENT_STEP_BUSY \<and> a_state c' = a_state c \<or> o1 = Some AGENT_STEP_CANCELLED \<and> a_state c' = AGENT_CANCELLED"
    using e by blast
  ultimately show ?thesis using stop assms(2) by (cases "in_flight (a_state c)") (auto simp: reported_def)
next
  case False
  show ?thesis
  proof (cases "a_state c")
    case AGENT_READY
    with assms(1) have "\<not> compaction_active c" "tool_grouped (items c)" by (auto simp: history_ok_def)
    from suspend_reported [OF this] False AGENT_READY show ?thesis by (simp add: resume_iter_def)
  next
    case AGENT_WAIT_MODEL
    with wait_model_reported [OF assms(1)] False show ?thesis by (simp add: resume_iter_def)
  next
    case AGENT_WAIT_TOOL
    with wait_tool_reported [OF assms(1)] False show ?thesis by (simp add: resume_iter_def)
  next
    case AGENT_WAIT_USER
    with wait_user_reported [of c env] False show ?thesis by (simp add: resume_iter_def in_flight_def)
  qed (use False assms(2) in \<open>simp_all add: resume_iter_def reported_def gave_up_def\<close>)
qed

definition resumable :: "'w loop \<Rightarrow> bool" where
  "resumable c \<longleftrightarrow> history_ok c \<and> a_state c \<noteq> AGENT_WAIT_CHILD"

interpretation resume_loop: pass_loop "resume_iter env" "agent_resume env" resumable rank for env :: "'w env"
proof
  show "agent_resume env c = (case resume_iter env c of (Some r, c') \<Rightarrow> Some (r, c') | (None, c') \<Rightarrow> agent_resume env c')"
    for c :: "'w loop" by (rule agent_resume.simps)
  show "resumable c' \<and> rank c' < rank c" if "resumable c" "resume_iter env c = (None, c')" for c c' :: "'w loop"
    using that resume_iter_ok [OF _ that(2)] resume_iter_reported [of c env] by (simp add: resumable_def)
qed

lemma resumable_resume:
  assumes "resumable c"
  shows "\<exists>r c'. agent_resume env c = Some (r, c') \<and> resumable c' \<and> reported (Some r, c')"
proof -
  obtain r c' where r: "agent_resume env c = Some (r, c')" using resume_loop.returns [OF assms] by blast
  then have "history_ok c'" using resume_history_ok assms by (auto simp: resumable_def)
  moreover obtain c0 where "resumable c0" "resume_iter env c0 = (Some r, c')"
    using resume_loop.last_pass [OF assms r] by blast
  then have "reported (Some r, c')" using resume_iter_reported by (metis resumable_def)
  ultimately show ?thesis using r by (auto simp: resumable_def reported_def)
qed

section \<open>The scheduler\<close>

record 'w scheduler =
  sc_slots :: "('w loop \<times> string option) list"
  sc_cap :: nat
  sc_max_concurrent :: nat
  sc_running :: nat
  sc_world :: 'w

definition agent_terminal :: "'w loop \<Rightarrow> bool" where
  "agent_terminal a \<longleftrightarrow> a_state a = AGENT_DONE \<or> a_state a = AGENT_ERROR \<or> a_state a = AGENT_CANCELLED"

text \<open>\<open>ok\<close>: the allocation succeeds.\<close>

definition scheduler_new :: "bool \<Rightarrow> nat \<Rightarrow> 'w \<Rightarrow> 'w scheduler option" where
  "scheduler_new ok max_concurrent w =
     (if \<not> ok then None
      else Some \<lparr>sc_slots = [], sc_cap = 0, sc_max_concurrent = (if max_concurrent > 0 then max_concurrent else 1),
                 sc_running = 0, sc_world = w\<rparr>)"

text \<open>The three allocations of \<open>scheduler_add\<close>: the two arrays and the copy of the input.\<close>

definition scheduler_add ::
  "bool \<Rightarrow> bool \<Rightarrow> bool \<Rightarrow> 'w scheduler \<Rightarrow> 'w loop \<Rightarrow> string \<Rightarrow> agent_error \<times> 'w scheduler" where
  "scheduler_add ok_agents ok_inputs ok_copy s a input =
     (let full = (length (sc_slots s) = sc_cap s);
          s1 = (if full then s\<lparr>sc_cap := (if sc_cap s = 0 then 8 else sc_cap s * 2)\<rparr> else s) in
      if full \<and> \<not> (ok_agents \<and> ok_inputs) then (AGENT_ERR_OOM, s)
      else if \<not> ok_copy then (AGENT_ERR_OOM, s1)
      else (AGENT_OK, s1\<lparr>sc_slots := sc_slots s1 @ [(a, Some input)]\<rparr>))"

text \<open>Starting an admitted agent; an agent whose input is gone is started already.\<close>

definition start_slot ::
  "'w env \<Rightarrow> 'w loop \<Rightarrow> string option \<Rightarrow> nat \<Rightarrow> ('w loop \<times> nat) option" where
  "start_slot env a input running =
     (case input of
        None \<Rightarrow> Some (a, running)
      | Some txt \<Rightarrow>
          (case agent_start env txt a of
             None \<Rightarrow> None
           | Some (rc, a1) \<Rightarrow>
               Some (if rc = AGENT_OK then (a1, running + 1) else (a1\<lparr>a_state := AGENT_ERROR\<rparr>, running))))"

text \<open>One agent's turn in the loop of \<open>scheduler_pump\<close>.\<close>

definition pump_slot ::
  "'w env \<Rightarrow> nat \<Rightarrow> 'w loop \<times> string option \<Rightarrow> nat \<Rightarrow> (('w loop \<times> string option) \<times> nat) option" where
  "pump_slot env max_concurrent slot running =
     (let (a, input) = slot; ready = (a_state a = AGENT_READY) in
      if agent_terminal a then Some ((a, input), running)
      else if ready \<and> running \<ge> max_concurrent then Some ((a, input), running)
      else
        (case (if ready then start_slot env a input running else Some (a, running)) of
           None \<Rightarrow> None
         | Some (a1, running1) \<Rightarrow>
             (case agent_resume env a1 of
                None \<Rightarrow> None
              | Some (r, a2) \<Rightarrow>
                  Some ((a2, if ready then None else input),
                        if r \<noteq> AGENT_STEP_BUSY \<and> running1 > 0 then running1 - 1 else running1))))"

fun pump_slots ::
  "'w env \<Rightarrow> nat \<Rightarrow> ('w loop \<times> string option) list \<Rightarrow> nat \<Rightarrow> 'w \<Rightarrow>
   (('w loop \<times> string option) list \<times> nat \<times> 'w) option" where
  "pump_slots env max_concurrent [] running w = Some ([], running, w)"
| "pump_slots env max_concurrent ((a, input) # slots) running w =
     (case pump_slot env max_concurrent (a\<lparr>world := w\<rparr>, input) running of
        None \<Rightarrow> None
      | Some (slot', running1) \<Rightarrow>
          (case pump_slots env max_concurrent slots running1 (world (fst slot')) of
             None \<Rightarrow> None
           | Some (slots', running2, w') \<Rightarrow> Some (slot' # slots', running2, w')))"

definition scheduler_pump :: "'w env \<Rightarrow> 'w scheduler \<Rightarrow> 'w scheduler option" where
  "scheduler_pump env s =
     (case pump_slots env (sc_max_concurrent s) (sc_slots s) (sc_running s) (sc_world s) of
        None \<Rightarrow> None
      | Some (slots, running, w) \<Rightarrow> Some (s\<lparr>sc_slots := slots, sc_running := running, sc_world := w\<rparr>))"

definition scheduler_all_done :: "'w scheduler \<Rightarrow> bool" where
  "scheduler_all_done s \<longleftrightarrow> list_all (\<lambda>(a, _). agent_terminal a) (sc_slots s)"

section \<open>Counting agents\<close>

definition count_in :: "(agent_state \<Rightarrow> bool) \<Rightarrow> ('w loop \<times> string option) list \<Rightarrow> nat" where
  "count_in P slots = length (filter (\<lambda>(a, _). P (a_state a)) slots)"

lemma count_in_simps [simp]:
  "count_in P [] = 0"
  "count_in P ((a, i) # slots) = (if P (a_state a) then 1 else 0) + count_in P slots"
  "count_in P (xs @ ys) = count_in P xs + count_in P ys"
  by (simp_all add: count_in_def)

abbreviation "flying \<equiv> count_in in_flight"
abbreviation "failed \<equiv> count_in gave_up"
abbreviation "waiting \<equiv> count_in (\<lambda>s. s = AGENT_READY)"

definition slot_ok :: "'w loop \<times> string option \<Rightarrow> bool" where
  "slot_ok slot \<longleftrightarrow>
     resumable (fst slot) \<and> (snd slot = None \<longrightarrow> a_state (fst slot) \<noteq> AGENT_READY) \<and>
     (snd slot \<noteq> None \<longrightarrow> \<not> in_flight (a_state (fst slot)))"

definition sched_ok :: "'w scheduler \<Rightarrow> bool" where
  "sched_ok s \<longleftrightarrow>
     list_all slot_ok (sc_slots s) \<and> 0 < sc_max_concurrent s \<and> sc_running s \<le> sc_max_concurrent s \<and>
     sc_running s \<le> flying (sc_slots s) \<and> flying (sc_slots s) \<le> sc_running s + failed (sc_slots s)"

lemma resumable_world: "resumable a \<Longrightarrow> resumable (a\<lparr>world := w\<rparr>)"
  using history_ok_steady [OF _ quiet_steady [OF world_quiet [of a w]]] by (simp add: resumable_def)

lemma resumable_error:
  assumes "resumable a" and "\<not> in_flight (a_state a)"
  shows "resumable (a\<lparr>a_state := AGENT_ERROR\<rparr>)"
proof -
  from assms have "tool_grouped (items a)" "\<not> compaction_active a" "parallel_tools a = []" "tool_task a = None"
    by (auto simp: resumable_def history_ok_def in_flight_def)
  then show ?thesis by (simp add: resumable_def history_ok_def)
qed

lemma state_cases [case_names ready flight done_ failed]:
  assumes "resumable a"
  obtains "a_state a = AGENT_READY" | "in_flight (a_state a)" | "a_state a = AGENT_DONE" | "gave_up (a_state a)"
  using assms by (cases "a_state a") (auto simp: resumable_def in_flight_def gave_up_def)

text \<open>Starting an agent that waits for its turn.\<close>

lemma start_slot_ok:
  assumes "resumable a" and "a_state a = AGENT_READY"
  shows "\<exists>a1 n1. start_slot env a (Some txt) n = Some (a1, n1) \<and> resumable a1 \<and>
           ((n1 = n + 1 \<and> (in_flight (a_state a1) \<or> a_state a1 = AGENT_DONE)) \<or>
            (n1 = n \<and> a_state a1 = AGENT_ERROR))"
proof (cases "a_model a = None")
  case True
  have "resumable (a\<lparr>a_state := AGENT_ERROR\<rparr>)"
    by (rule resumable_error) (use assms in \<open>simp_all add: in_flight_def\<close>)
  with True show ?thesis by (simp add: start_slot_def agent_start_def)
next
  case False
  have "at_rest a" using assms by (simp add: at_rest_def resumable_def)
  then have "resumable (begin_turn env txt a)"
    using history_ok_begin at_rest_fields by (fastforce simp: resumable_def begin_turn_def Let_def)
  from resumable_resume [OF this] obtain r a1 where r: "agent_resume env (begin_turn env txt a) = Some (r, a1)"
    "resumable a1" "reported (Some r, a1)" by blast
  show ?thesis
  proof (cases "r = AGENT_STEP_BUSY \<or> r = AGENT_STEP_DONE")
    case True
    with r False show ?thesis by (auto simp: start_slot_def agent_start_def reported_def)
  next
    case bad: False
    with r(3) have "\<not> in_flight (a_state a1)" by (cases r) (auto simp: reported_def gave_up_def in_flight_def)
    with r(2) have "resumable (a1\<lparr>a_state := AGENT_ERROR\<rparr>)" by (rule resumable_error)
    with bad r False show ?thesis by (cases r) (auto simp: start_slot_def agent_start_def)
  qed
qed

text \<open>What one agent's turn does to the counts.\<close>

definition turn_counts :: "nat \<Rightarrow> nat \<Rightarrow> 'w loop \<Rightarrow> nat \<Rightarrow> 'w loop \<Rightarrow> bool" where
  "turn_counts m n a n' a' \<longleftrightarrow>
     (let u = (\<lambda>P b. if P (a_state b) then (1::nat) else 0) in
      (n \<le> m \<longrightarrow> n' \<le> m) \<and>
      u in_flight a' + n + u gave_up a \<le> u in_flight a + n' + u gave_up a' \<and>
      (n' = 0 \<or> n' + u in_flight a \<le> u in_flight a' + n) \<and>
      (a_state a \<noteq> AGENT_READY \<longrightarrow> n' \<le> n \<and> a_state a' \<noteq> AGENT_READY) \<and>
      (a_state a = AGENT_READY \<longrightarrow> (if n < m then a_state a' \<noteq> AGENT_READY else a' = a \<and> n' = n)))"

lemma resume_counts:
  assumes "resumable a1" and "agent_resume env a1 = Some (r, a2)" and "reported (Some r, a2)"
  shows "(r = AGENT_STEP_BUSY \<longleftrightarrow> in_flight (a_state a2)) \<and>
         (r \<noteq> AGENT_STEP_BUSY \<longrightarrow> a_state a2 = AGENT_DONE \<or> gave_up (a_state a2))"
  using assms(3) by (cases r) (auto simp: reported_def in_flight_def gave_up_def)

lemma terminal_stays:
  assumes "resumable a" and "agent_terminal a" and "agent_resume env a = Some (r, a')"
  shows "r \<noteq> AGENT_STEP_BUSY \<and> (a_state a' = a_state a \<or> a_state a' = AGENT_CANCELLED)"
proof -
  have "\<not> in_flight (a_state a)" using assms(2) by (auto simp: agent_terminal_def in_flight_def)
  with assms(1) have k: "fst (cancel_step env a) = Some AGENT_STEP_CANCELLED" by (simp add: cancel_idle resumable_def)
  have "\<exists>q a1. resume_iter env a = (Some q, a1) \<and> q \<noteq> AGENT_STEP_BUSY \<and>
      (a_state a1 = a_state a \<or> a_state a1 = AGENT_CANCELLED)"
  proof (cases "cancel_token_check (a_cancel a # e_ancestors env (world a))")
    case True
    obtain a1 where c: "cancel_step env a = (Some AGENT_STEP_CANCELLED, a1)" using k by (metis prod.collapse)
    with True cancel_step_effect [OF c] show ?thesis by (simp add: resume_iter_def)
  next
    case False
    with assms(2) show ?thesis by (auto simp: resume_iter_def agent_terminal_def)
  qed
  with assms(3) show ?thesis by (auto simp: agent_resume.simps [of env a])
qed

lemma pump_slot_ok:
  assumes "slot_ok (a, input)"
  shows "\<exists>a' input' n'. pump_slot env m (a, input) n = Some ((a', input'), n') \<and> slot_ok (a', input') \<and>
           turn_counts m n a n' a'"
proof -
  from assms have res: "resumable a" by (simp add: slot_ok_def)
  show ?thesis
  proof (cases rule: state_cases [OF res])
    case 1
    with assms obtain tx where inp: "input = Some tx" by (cases input) (simp_all add: slot_ok_def)
    show ?thesis
    proof (cases "n < m")
      case False
      with 1 assms show ?thesis
        by (simp add: pump_slot_def agent_terminal_def turn_counts_def Let_def in_flight_def gave_up_def)
    next
      case True
      from start_slot_ok [OF res 1, of env tx n] obtain a1 n1 where s: "start_slot env a (Some tx) n = Some (a1, n1)"
        "resumable a1" and n1: "(n1 = n + 1 \<and> (in_flight (a_state a1) \<or> a_state a1 = AGENT_DONE)) \<or>
            (n1 = n \<and> a_state a1 = AGENT_ERROR)" by blast
      from resumable_resume [OF s(2)] obtain r a2 where r: "agent_resume env a1 = Some (r, a2)" "resumable a2"
        "reported (Some r, a2)" by blast
      have p: "pump_slot env m (a, input) n =
          Some ((a2, None), if r \<noteq> AGENT_STEP_BUSY \<and> n1 > 0 then n1 - 1 else n1)"
        using True 1 s r by (simp add: pump_slot_def agent_terminal_def Let_def inp)
      have fail: "r \<noteq> AGENT_STEP_BUSY \<and> gave_up (a_state a2)" if "a_state a1 = AGENT_ERROR"
        using terminal_stays [OF s(2) _ r(1)] that by (auto simp: agent_terminal_def gave_up_def)
      note rc = resume_counts [OF s(2) r(1,3)]
      have ok: "slot_ok (a2, None)" using r(2) rc by (auto simp: slot_ok_def in_flight_def gave_up_def)
      have "turn_counts m n a (if r \<noteq> AGENT_STEP_BUSY \<and> n1 > 0 then n1 - 1 else n1) a2"
        using True 1 rc n1 fail
        by (cases "r = AGENT_STEP_BUSY")
          (auto simp: turn_counts_def Let_def in_flight_def gave_up_def)
      with p ok show ?thesis by blast
    qed
  next
    case 2
    from resumable_resume [OF res] obtain r a2 where r: "agent_resume env a = Some (r, a2)" "resumable a2"
      "reported (Some r, a2)" by blast
    note rc = resume_counts [OF res r(1,3)]
    have st: "a_state a \<noteq> AGENT_READY" "\<not> agent_terminal a" "input = None"
      using 2 assms by (auto simp: in_flight_def agent_terminal_def slot_ok_def)
    have p: "pump_slot env m (a, input) n = Some ((a2, input), if r \<noteq> AGENT_STEP_BUSY \<and> n > 0 then n - 1 else n)"
      using st r by (simp add: pump_slot_def Let_def)
    have ok: "slot_ok (a2, input)" using r(2) rc st by (auto simp: slot_ok_def in_flight_def gave_up_def)
    have "turn_counts m n a (if r \<noteq> AGENT_STEP_BUSY \<and> n > 0 then n - 1 else n) a2"
      using 2 rc st
      by (cases "r = AGENT_STEP_BUSY") (auto simp: turn_counts_def Let_def in_flight_def gave_up_def)
    with p ok show ?thesis by blast
  next
    case 3
    with assms show ?thesis
      by (simp add: pump_slot_def agent_terminal_def turn_counts_def Let_def)
  next
    case 4
    with assms show ?thesis
      by (auto simp: pump_slot_def agent_terminal_def turn_counts_def Let_def gave_up_def)
  qed
qed

text \<open>The whole loop: at least one waiting agent is admitted when a slot is free.\<close>

lemma pump_slots_ok:
  assumes "list_all slot_ok slots"
  shows "\<exists>slots' n' w'. pump_slots env m slots n w = Some (slots', n', w') \<and> list_all slot_ok slots' \<and>
           length slots' = length slots \<and>
           (n \<le> m \<longrightarrow> n' \<le> m) \<and>
           flying slots' + n + failed slots \<le> flying slots + n' + failed slots' \<and>
           (\<forall>k. n \<le> k + flying slots \<longrightarrow> n' \<le> k + flying slots') \<and>
           waiting slots' \<le> waiting slots \<and>
           (n < m \<and> 0 < waiting slots \<longrightarrow> waiting slots' < waiting slots)"
  using assms
proof (induction slots arbitrary: n w)
  case Nil
  then show ?case by simp
next
  case (Cons slot slots)
  obtain a0 input where slot: "slot = (a0, input)" by (cases slot)
  let ?a = "a0\<lparr>world := w\<rparr>"
  have "slot_ok (?a, input)" using Cons.prems slot by (simp add: slot_ok_def resumable_world)
  from pump_slot_ok [OF this, of env m n] obtain a' input' n1 where
    p: "pump_slot env m (?a, input) n = Some ((a', input'), n1)" "slot_ok (a', input')" and t: "turn_counts m n ?a n1 a'" by blast
  from Cons.IH [of n1 "world a'"] Cons.prems obtain slots' n2 w' where
    r: "pump_slots env m slots n1 (world a') = Some (slots', n2, w')" "list_all slot_ok slots'" "length slots' = length slots"
    and c: "n1 \<le> m \<longrightarrow> n2 \<le> m" "flying slots' + n1 + failed slots \<le> flying slots + n2 + failed slots'"
      "\<And>k. n1 \<le> k + flying slots \<Longrightarrow> n2 \<le> k + flying slots'"
      "waiting slots' \<le> waiting slots" "n1 < m \<and> 0 < waiting slots \<longrightarrow> waiting slots' < waiting slots" by auto
  have "pump_slots env m (slot # slots) n w = Some ((a', input') # slots', n2, w')"
    using p r by (simp add: slot)
  moreover have "flying ((a', input') # slots') + n + failed (slot # slots) \<le>
      flying (slot # slots) + n2 + failed ((a', input') # slots')"
    using t c(2) by (simp add: turn_counts_def Let_def slot)
  moreover have "n2 \<le> k + flying ((a', input') # slots')" if "n \<le> k + flying (slot # slots)" for k
  proof -
    let ?u = "if in_flight (a_state a') then 1 else 0 :: nat"
    have "n1 \<le> (k + ?u) + flying slots" using t that by (auto simp: turn_counts_def Let_def slot split: if_splits)
    from c(3) [OF this] show ?thesis by simp
  qed
  moreover have "n \<le> m \<longrightarrow> n2 \<le> m" using t c(1) by (simp add: turn_counts_def Let_def)
  moreover have "waiting ((a', input') # slots') \<le> waiting (slot # slots)"
    using t c(4) by (auto simp: turn_counts_def Let_def slot)
  moreover have "n < m \<and> 0 < waiting (slot # slots) \<longrightarrow> waiting ((a', input') # slots') < waiting (slot # slots)"
    using t c(4,5) by (auto simp: turn_counts_def Let_def slot)
  ultimately show ?case using p(2) r(2,3) by simp
qed

lemma scheduler_pump_ok:
  assumes "sched_ok s"
  shows "\<exists>s'. scheduler_pump env s = Some s' \<and> sched_ok s' \<and> sc_max_concurrent s' = sc_max_concurrent s \<and>
           (flying (sc_slots s) < sc_max_concurrent s \<and> 0 < waiting (sc_slots s) \<longrightarrow>
              waiting (sc_slots s') < waiting (sc_slots s))"
proof -
  from assms have "list_all slot_ok (sc_slots s)" by (simp add: sched_ok_def)
  from pump_slots_ok [OF this, of env "sc_max_concurrent s" "sc_running s" "sc_world s"]
  obtain slots' n' w' where p: "pump_slots env (sc_max_concurrent s) (sc_slots s) (sc_running s) (sc_world s) = Some (slots', n', w')"
      "list_all slot_ok slots'"
    and c: "sc_running s \<le> sc_max_concurrent s \<longrightarrow> n' \<le> sc_max_concurrent s"
      "flying slots' + sc_running s + failed (sc_slots s) \<le> flying (sc_slots s) + n' + failed slots'"
      "\<forall>k. sc_running s \<le> k + flying (sc_slots s) \<longrightarrow> n' \<le> k + flying slots'"
      "sc_running s < sc_max_concurrent s \<and> 0 < waiting (sc_slots s) \<longrightarrow> waiting slots' < waiting (sc_slots s)"
    by blast
  from assms have i: "sc_running s \<le> sc_max_concurrent s" "sc_running s \<le> flying (sc_slots s)"
    "flying (sc_slots s) \<le> sc_running s + failed (sc_slots s)" "0 < sc_max_concurrent s" by (simp_all add: sched_ok_def)
  have "n' \<le> flying slots'" using c(3) [THEN spec, of 0] i by simp
  with p c i show ?thesis by (simp add: scheduler_pump_def sched_ok_def)
qed

section \<open>Reachable schedulers\<close>

text \<open>
  What can happen to a scheduler: an agent that is not in a turn is added, the runtime pumps, a
  model event or a host call reaches an agent, the world changes.
\<close>

definition touch_agent :: "nat \<Rightarrow> ('w loop \<Rightarrow> 'w loop) \<Rightarrow> 'w scheduler \<Rightarrow> 'w scheduler" where
  "touch_agent i f s =
     (let (a, input) = sc_slots s ! i; a' = f (a\<lparr>world := sc_world s\<rparr>) in
      s\<lparr>sc_slots := (sc_slots s)[i := (a', input)], sc_world := world a'\<rparr>)"

inductive scheduler_step :: "'w env \<Rightarrow> 'w scheduler \<Rightarrow> 'w scheduler \<Rightarrow> bool" for env :: "'w env" where
  Add: "at_rest a \<Longrightarrow> scheduler_add ok_agents ok_inputs ok_copy s a input = (rc, s') \<Longrightarrow> scheduler_step env s s'"
| Pump: "scheduler_pump env s = Some s' \<Longrightarrow> scheduler_step env s s'"
| Events: "i < length (sc_slots s) \<Longrightarrow> scheduler_step env s (touch_agent i (\<lambda>a. deliver_events env a evs) s)"
| Call: "i < length (sc_slots s) \<Longrightarrow> scheduler_step env s (touch_agent i (\<lambda>a. do_host_call a h) s)"
| World: "scheduler_step env s (s\<lparr>sc_world := w\<rparr>)"

lemma count_in_update:
  "i < length slots \<Longrightarrow> slots ! i = (a, input) \<Longrightarrow> a_state a' = a_state a \<Longrightarrow>
   count_in P (slots[i := (a', input)]) = count_in P slots"
proof (induction slots arbitrary: i)
  case (Cons slot slots)
  then show ?case by (cases i; cases slot) auto
qed simp

lemma touch_agent_ok:
  assumes "sched_ok s" and "i < length (sc_slots s)" and f: "\<And>a. steady a (f a)"
  shows "sched_ok (touch_agent i f s) \<and> sc_max_concurrent (touch_agent i f s) = sc_max_concurrent s"
proof -
  obtain a input where slot: "sc_slots s ! i = (a, input)" by (metis surj_pair)
  let ?a = "f (a\<lparr>world := sc_world s\<rparr>)"
  have eq: "touch_agent i f s = s\<lparr>sc_slots := (sc_slots s)[i := (?a, input)], sc_world := world ?a\<rparr>"
    by (simp add: touch_agent_def slot Let_def)
  have ok: "list_all slot_ok (sc_slots s)" using assms(1) by (simp add: sched_ok_def)
  then have sl: "slot_ok (a, input)" using slot assms(2) by (metis list_all_length)
  have st: "a_state ?a = a_state a" using steady_state [OF f [of "a\<lparr>world := sc_world s\<rparr>"]] by simp
  have "resumable (a\<lparr>world := sc_world s\<rparr>)" using sl by (simp add: slot_ok_def resumable_world)
  then have "resumable ?a" using history_ok_steady [OF _ f] st by (simp add: resumable_def)
  with sl st have "slot_ok (?a, input)" by (simp add: slot_ok_def)
  with ok have "list_all slot_ok ((sc_slots s)[i := (?a, input)])"
    by (auto simp: list_all_iff dest: set_update_subset_insert [THEN subsetD])
  with assms(1) show ?thesis by (simp add: eq sched_ok_def count_in_update [OF assms(2) slot st])
qed

lemma scheduler_step_ok:
  assumes "scheduler_step env s s'" and "sched_ok s"
  shows "sched_ok s' \<and> sc_max_concurrent s' = sc_max_concurrent s"
  using assms(1)
proof (cases rule: scheduler_step.cases)
  case (Add a ok_agents ok_inputs ok_copy input rc)
  have "resumable a" "\<not> in_flight (a_state a)" using Add(1) by (auto simp: at_rest_def resumable_def in_flight_def)
  then have "slot_ok (a, Some input)" by (simp add: slot_ok_def)
  with Add(2) assms(2) \<open>\<not> in_flight (a_state a)\<close> show ?thesis
    by (auto simp: scheduler_add_def sched_ok_def Let_def split: if_splits)
next
  case Pump
  with scheduler_pump_ok [OF assms(2), of env] show ?thesis by auto
next
  case (Events i evs)
  with touch_agent_ok [OF assms(2) Events(2)] show ?thesis by (simp add: deliver_events_steady)
next
  case (Call i h)
  with touch_agent_ok [OF assms(2) Call(2)] show ?thesis by (simp add: quiet_steady [OF do_host_call_quiet])
next
  case World
  with assms(2) show ?thesis by (simp add: sched_ok_def)
qed

lemma reachable_sched_ok:
  assumes "(scheduler_step env)\<^sup>*\<^sup>* s0 s" and "scheduler_new ok n w = Some s0"
  shows "sched_ok s \<and> sc_max_concurrent s = max 1 n"
  using assms
proof (induction rule: rtranclp_induct)
  case base
  then show ?case by (auto simp: scheduler_new_def sched_ok_def split: if_splits)
next
  case (step y z)
  with scheduler_step_ok [OF step(2)] show ?case by auto
qed

text \<open>C37: the concurrency limit. However agents are added, started, resumed, cancelled and answered, the number
  of agents in a turn never exceeds the limit by more than the number of agents that ended in an
  error or were cancelled; while no agent has failed it is within the limit, and the counter of
  running agents is exact.\<close>

theorem scheduler_limits_agents:
  assumes "scheduler_new ok n w = Some s0" and "(scheduler_step env)\<^sup>*\<^sup>* s0 s"
  shows "flying (sc_slots s) \<le> max 1 n + failed (sc_slots s) \<and>
         sc_running s \<le> max 1 n \<and>
         (failed (sc_slots s) = 0 \<longrightarrow> sc_running s = flying (sc_slots s))"
  using reachable_sched_ok [OF assms(2,1)] by (auto simp: sched_ok_def)

text \<open>The scheduler is never stuck. Pumping always returns; as long as fewer agents are in a turn than the
  limit allows, each pump admits an agent that waits for its first turn, and a scheduler in which
  no agent is in a turn has either finished or admits one at the next pump.\<close>

theorem scheduler_pump_progress:
  assumes "scheduler_new ok n w = Some s0" and "(scheduler_step env)\<^sup>*\<^sup>* s0 s"
  shows "\<exists>s'. scheduler_pump env s = Some s' \<and>
           (flying (sc_slots s) < max 1 n \<and> 0 < waiting (sc_slots s) \<longrightarrow>
              waiting (sc_slots s') < waiting (sc_slots s)) \<and>
           (flying (sc_slots s) = 0 \<longrightarrow> scheduler_all_done s \<or> waiting (sc_slots s') < waiting (sc_slots s))"
proof -
  note inv = reachable_sched_ok [OF assms(2,1)]
  have "scheduler_all_done s" if "flying (sc_slots s) = 0" "waiting (sc_slots s) = 0"
  proof -
    have "agent_terminal a" if "(a, inp) \<in> set (sc_slots s)" for a inp
    proof -
      have "resumable a" using inv that by (auto simp: sched_ok_def slot_ok_def list_all_iff)
      moreover have "\<not> in_flight (a_state a)" "a_state a \<noteq> AGENT_READY"
        using \<open>flying (sc_slots s) = 0\<close> \<open>waiting (sc_slots s) = 0\<close> that by (auto simp: count_in_def filter_empty_conv)
      ultimately show ?thesis by (cases rule: state_cases) (auto simp: agent_terminal_def gave_up_def)
    qed
    then show ?thesis by (auto simp: scheduler_all_done_def list_all_iff)
  qed
  moreover obtain s' where "scheduler_pump env s = Some s'"
    "flying (sc_slots s) < max 1 n \<and> 0 < waiting (sc_slots s) \<longrightarrow> waiting (sc_slots s') < waiting (sc_slots s)"
    using scheduler_pump_ok [of s env] inv by auto
  ultimately show ?thesis by (cases "waiting (sc_slots s) = 0") auto
qed

section \<open>A failed start frees a slot that was never taken\<close>

text \<open>A model that accepts every request and never answers, and an agent of it.\<close>

definition silent_model :: "unit model" where
  "silent_model = \<lparr>md_request = (\<lambda>_ w. ((AGENT_OK, []), w)), md_cancel = None, md_context_window = 0, md_max_output = 0\<rparr>"

definition silent_agent :: "unit loop" where
  "silent_agent = (loop_state (fst (agent_new 1 None None)) ())\<lparr>a_model := Some silent_model\<rparr>"

definition orphan_agent :: "unit loop" where
  "orphan_agent = loop_state (fst (agent_new 2 None None)) ()"

definition crowd :: "unit scheduler" where
  "crowd = \<lparr>sc_slots = [(silent_agent, Some ''x''), (orphan_agent, Some ''x''), (silent_agent, Some ''x''),
       (silent_agent, Some ''x'')], sc_cap = 8, sc_max_concurrent = 2, sc_running = 0, sc_world = ()\<rparr>"

lemma silent_request:
  assumes "a_model d = Some silent_model"
  shows "\<exists>c'. start_model_request still_env d = (AGENT_OK, c') \<and> a_state c' = AGENT_WAIT_MODEL \<and> \<not> request_done c' \<and>
           compaction_active c' = compaction_active d \<and> a_cancel c' = a_cancel d"
proof -
  obtain rc c' where m: "start_model_request still_env d = (rc, c')" by (metis surj_pair)
  moreover have "rc = AGENT_OK \<and> a_state c' = AGENT_WAIT_MODEL \<and> \<not> request_done c' \<and>
      compaction_active c' = compaction_active d \<and> a_cancel c' = a_cancel d"
    using m assms by (auto simp: start_model_request_def Let_def next_request_id_def ask_clock_def still_env_def
        model_of_def silent_model_def split: prod.splits)
  ultimately show ?thesis by blast
qed

lemma small_estimate:
  "context_estimate_tokens [(message_new MSG_USER)\<lparr>m_content := Some ''x''\<rparr>] + text_estimate_tokens (Some []) < 256 * 1024"
  by code_simp

lemma still_ancestors: "e_ancestors still_env w = []"
  by (simp add: still_env_def)

lemma silent_start:
  "\<exists>d. agent_start still_env ''x'' silent_agent = Some (AGENT_OK, d) \<and> a_state d = AGENT_WAIT_MODEL \<and>
       agent_resume still_env d = Some (AGENT_STEP_BUSY, d)"
proof -
  define b where "b = begin_turn still_env ''x'' silent_agent"
  have b: "a_state b = AGENT_READY" "\<not> ct_cancelled (a_cancel b)" "a_model b = Some silent_model" "a_tools b = None"
    "a_runtime b = None" "\<not> compaction_active b" "a_event_cb b = None" "request_retries b = 0" "\<not> retry_pending b"
    "items b = [(message_new MSG_USER)\<lparr>m_content := Some ''x''\<rparr>]" "build_turn_system_prompt b = []"
    by (simp_all add: b_def silent_agent_def begin_turn_def loop_state_def agent_new_def agent.extend_def loop.fields_def
        log_message_def with_session_def zero_cancel_def history_append_def build_turn_system_prompt_def Let_def
        str_or_empty_def session_memory_def)
  define b1 where "b1 = b\<lparr>request_retries := 0, retry_pending := False\<rparr>"
  have nc: "\<not> needs_compaction still_env b1"
    using b small_estimate
    by (simp add: b1_def needs_compaction_def context_needs_compact_request_def context_estimate_request_tokens_def
        silent_model_def build_turn_system_prompt_def)
  from silent_request [of "b1\<lparr>skip_compaction_once := False\<rparr>"] b obtain d where
    d: "start_model_request still_env (b1\<lparr>skip_compaction_once := False\<rparr>) = (AGENT_OK, d)" "a_state d = AGENT_WAIT_MODEL"
      "\<not> request_done d" "\<not> compaction_active d" "\<not> ct_cancelled (a_cancel d)" by (auto simp: b1_def)
  have "start_request still_env b = (AGENT_OK, d)"
    unfolding start_request_def Let_def b1_def [symmetric] using nc d by simp
  then have "agent_resume still_env b = Some (AGENT_STEP_BUSY, d)"
    using b by (simp add: agent_resume.simps [of still_env b] resume_iter_def suspend_or_fail_def still_ancestors cancel_token_check.simps)
  then have "agent_start still_env ''x'' silent_agent = Some (AGENT_OK, d)"
    by (simp add: agent_start_def b_def [symmetric]) (simp add: silent_agent_def)
  moreover have "agent_resume still_env d = Some (AGENT_STEP_BUSY, d)"
    using d by (simp add: agent_resume.simps [of still_env d] resume_iter_def wait_model_step_def still_ancestors cancel_token_check.simps)
  ultimately show ?thesis using d by blast
qed

lemma crowd_reachable: "(scheduler_step still_env)\<^sup>*\<^sup>* (crowd\<lparr>sc_slots := [], sc_cap := 0\<rparr>) crowd"
proof -
  define s where "s k = crowd\<lparr>sc_slots := take k (sc_slots crowd), sc_cap := (if k = 0 then 0 else 8)\<rparr>" for k
  have rest: "at_rest silent_agent" "at_rest orphan_agent"
    using at_rest_fresh [of 2 None None "()"]
    by (simp_all add: silent_agent_def orphan_agent_def at_rest_def history_ok_def results_ok_def loop_state_def agent_new_def
        agent.extend_def loop.fields_def Let_def tool_grouped_def)
  have add: "scheduler_step still_env y z" if "at_rest a" "scheduler_add True True True y a ''x'' = (AGENT_OK, z)" for a y z
    by (rule scheduler_step.Add [OF that])
  have "scheduler_step still_env (s 0) (s 1)" "scheduler_step still_env (s 2) (s 3)" "scheduler_step still_env (s 3) (s 4)"
    by (rule add [OF rest(1)]; simp add: s_def crowd_def scheduler_add_def eval_nat_numeral)+
  moreover have "scheduler_step still_env (s 1) (s 2)"
    by (rule add [OF rest(2)]) (simp add: s_def crowd_def scheduler_add_def eval_nat_numeral)
  ultimately have "(scheduler_step still_env)\<^sup>*\<^sup>* (s 0) (s 4)" by (meson converse_rtranclp_into_rtranclp rtranclp.rtrancl_refl)
  then show ?thesis by (simp add: s_def) (simp add: crowd_def)
qed

lemma crowd_states [simp]:
  "a_state silent_agent = AGENT_READY" "a_state orphan_agent = AGENT_READY" "a_model orphan_agent = None"
  "\<not> ct_cancelled (a_cancel orphan_agent)"
  by (simp_all add: silent_agent_def orphan_agent_def loop_state_def agent_new_def agent.extend_def loop.fields_def
      zero_cancel_def)

lemma crowd_start: "scheduler_new True 2 () = Some (crowd\<lparr>sc_slots := [], sc_cap := 0\<rparr>)"
  by (simp add: scheduler_new_def crowd_def)

text \<open>The limit is not a limit. A start that fails is not counted, but its turn in the loop still takes one
  from the counter of running agents: with a limit of two, one failed start lets three agents run
  at once.\<close>

theorem scheduler_overadmits:
  "\<exists>s. scheduler_pump still_env crowd = Some s \<and> flying (sc_slots s) = 3 \<and> sc_max_concurrent s = 2 \<and> sc_running s = 2"
proof -
  obtain d where d: "agent_start still_env ''x'' silent_agent = Some (AGENT_OK, d)" "a_state d = AGENT_WAIT_MODEL"
    "agent_resume still_env d = Some (AGENT_STEP_BUSY, d)" using silent_start by blast
  let ?e = "orphan_agent\<lparr>a_state := AGENT_ERROR\<rparr>"
  have silent: "pump_slot still_env 2 (silent_agent, Some ''x'') n = Some ((d, None), n + 1)" if "n < 2" for n
    using d that by (simp add: pump_slot_def start_slot_def agent_terminal_def)
  have "agent_resume still_env ?e = Some (AGENT_STEP_ERROR, ?e\<lparr>in_turn := False\<rparr>)"
    by (simp add: agent_resume.simps [of still_env ?e] resume_iter_def still_ancestors cancel_token_check.simps)
  then have orphan: "pump_slot still_env 2 (orphan_agent, Some ''x'') 1 = Some ((?e\<lparr>in_turn := False\<rparr>, None), 0)"
    by (simp add: pump_slot_def start_slot_def agent_start_def agent_terminal_def)
  have w: "a\<lparr>world := w\<rparr> = a" for a :: "unit loop" and w by simp
  have "pump_slots still_env 2 (sc_slots crowd) 0 () =
      Some ([(d, None), (?e\<lparr>in_turn := False\<rparr>, None), (d, None), (d, None)], 2, ())"
    using silent [of 0] silent [of 1] orphan by (simp add: crowd_def w)
  with d(2) show ?thesis
    by (simp add: scheduler_pump_def crowd_def in_flight_def)
qed

theorem scheduler_limits_agents_witness:
  "flying (sc_slots crowd) \<le> 2 + failed (sc_slots crowd) \<and> sc_running crowd \<le> 2 \<and> sc_running crowd = flying (sc_slots crowd)"
  using scheduler_limits_agents [OF crowd_start crowd_reachable] by (simp add: crowd_def in_flight_def gave_up_def)

theorem scheduler_pump_progress_witness:
  "\<exists>s. scheduler_pump still_env crowd = Some s \<and> waiting (sc_slots s) < waiting (sc_slots crowd)"
proof -
  have "flying (sc_slots crowd) = 0" "0 < waiting (sc_slots crowd)"
    by (simp_all add: crowd_def in_flight_def)
  with scheduler_pump_progress [OF crowd_start crowd_reachable] show ?thesis by auto
qed

end
