(* ===== verification/Path_Policy.thy ===== *)
theory Path_Policy
  imports Prelude
begin

text \<open>
  The workspace policy of the file tools, \<open>src/src/tool/path_policy.c\<close>.  The file system is the
  parameter \<open>file_system\<close>: what \<open>realpath\<close> and \<open>lstat\<close> answer.  Paths are C strings, so they
  hold no NUL; their formatting into fixed buffers is modelled with its length checks.
\<close>

section \<open>The policy\<close>

definition PATH_MAX :: nat where
  "PATH_MAX = 4096"

definition ENOENT :: int where
  "ENOENT = 2"

text \<open>\<open>realpath\<close>: an error number or the resolved path.  \<open>lstat\<close>: \<open>None\<close> when the name exists.\<close>

record file_system =
  fs_realpath :: "string \<Rightarrow> int + string"
  fs_lstat :: "string \<Rightarrow> int option"

abbreviation not_slash :: "char \<Rightarrow> bool" where
  "not_slash ch \<equiv> ch \<noteq> CHR ''/''"

text \<open>The loop of \<open>safe_relative\<close> over the components of the rest of the path.\<close>

function safe_components :: "string \<Rightarrow> bool" where
  "safe_components p =
     (if p = [] then True
      else
        (let start = dropWhile (\<lambda>ch. ch = CHR ''/'') p in
         if takeWhile not_slash start = ''..'' then False
         else safe_components (dropWhile not_slash start)))"
  by pat_completeness auto
termination
proof (relation "measure length")
  fix p start :: string
  assume p: "p \<noteq> []" and s: "start = dropWhile (\<lambda>ch. ch = CHR ''/'') p"
  have "length (dropWhile not_slash start) < length p"
  proof (cases "hd p = CHR ''/''")
    case True
    with p s have "start = dropWhile (\<lambda>ch. ch = CHR ''/'') (tl p)" by (cases p) auto
    then have "length start \<le> length (tl p)" by (simp only: length_dropWhile_le)
    with p length_dropWhile_le [of not_slash start] show ?thesis by (cases p) auto
  next
    case False
    with p s have "dropWhile not_slash start = dropWhile not_slash (tl p)" by (cases p) auto
    with p length_dropWhile_le [of not_slash "tl p"] show ?thesis by (cases p) auto
  qed
  then show "(dropWhile not_slash start, p) \<in> measure length" by simp
qed simp

declare safe_components.simps [simp del]

definition safe_relative :: "string option \<Rightarrow> bool" where
  "safe_relative path =
     (case path of
        None \<Rightarrow> False
      | Some p \<Rightarrow> if p = [] \<or> hd p = CHR ''/'' then False else safe_components p)"

definition inside_root :: "string \<Rightarrow> string \<Rightarrow> bool" where
  "inside_root root path \<longleftrightarrow>
     root = ''/'' \<or>
     (take (length root) path = root \<and>
      (length path = length root \<or> path ! length root = CHR ''/''))"

text \<open>\<open>snprintf\<close> of a whole string into a buffer of \<open>buf_size\<close> bytes, when it fits.\<close>

definition copy_path :: "string \<Rightarrow> nat \<Rightarrow> string option" where
  "copy_path path buf_size = (if length path < buf_size then Some path else None)"

definition missing_leaf :: "file_system \<Rightarrow> string \<Rightarrow> string \<Rightarrow> nat \<Rightarrow> string option" where
  "missing_leaf fs workspace candidate out_size =
     (case copy_path candidate PATH_MAX of
        None \<Rightarrow> None
      | Some parent \<Rightarrow>
          (let leaf = rev (takeWhile not_slash (rev parent)) in
           if CHR ''/'' \<notin> set parent \<or> leaf = [] then None
           else
             (case fs_realpath fs (take (length parent - length leaf - 1) parent) of
                Inl _ \<Rightarrow> None
              | Inr resolved_parent \<Rightarrow>
                  if \<not> inside_root workspace resolved_parent then None
                  else
                    (case copy_path (resolved_parent @ ''/'' @ leaf) PATH_MAX of
                       None \<Rightarrow> None
                     | Some resolved \<Rightarrow> copy_path resolved out_size))))"

text \<open>\<open>None\<close> is \<open>AGENT_ERR_TOOL\<close>, \<open>Some\<close> the path stored in \<open>out\<close>.\<close>

definition tool_path_resolve :: "file_system \<Rightarrow> string option \<Rightarrow> string option \<Rightarrow> bool \<Rightarrow> nat \<Rightarrow> string option" where
  "tool_path_resolve fs cwd path allow_missing_leaf out_size =
     (if out_size = 0 \<or> cwd = None \<or> \<not> safe_relative path then None
      else
        (case fs_realpath fs (the cwd) of
           Inl _ \<Rightarrow> None
         | Inr workspace \<Rightarrow>
             (case copy_path (workspace @ ''/'' @ the path) PATH_MAX of
                None \<Rightarrow> None
              | Some candidate \<Rightarrow>
                  (case fs_realpath fs candidate of
                     Inr resolved \<Rightarrow> if inside_root workspace resolved then copy_path resolved out_size else None
                   | Inl realpath_errno \<Rightarrow>
                       if \<not> allow_missing_leaf \<or> realpath_errno \<noteq> ENOENT then None
                       else if fs_lstat fs candidate \<noteq> Some ENOENT then None
                       else missing_leaf fs workspace candidate out_size))))"

section \<open>Paths as components\<close>

text \<open>The specification: a canonical absolute path is a list of names.\<close>

definition name_ok :: "string \<Rightarrow> bool" where
  "name_ok n \<longleftrightarrow> n \<noteq> [] \<and> CHR ''/'' \<notin> set n"

definition join_names :: "string list \<Rightarrow> string" where
  "join_names ns = concat (map (\<lambda>n. CHR ''/'' # n) ns)"

definition absolute :: "string list \<Rightarrow> string" where
  "absolute ns = (if ns = [] then ''/'' else join_names ns)"

lemma join_simps [simp]:
  "join_names [] = []" "join_names (n # ns) = CHR ''/'' # n @ join_names ns"
  "join_names (xs @ ys) = join_names xs @ join_names ys"
  by (simp_all add: join_names_def)

lemma join_head: "join_names ns = [] \<or> hd (join_names ns) = CHR ''/''"
  by (cases ns) simp_all

lemma name_split:
  assumes "CHR ''/'' \<notin> set m" and "CHR ''/'' \<notin> set n" and "xs = [] \<or> hd xs = CHR ''/''" and "ys = [] \<or> hd ys = CHR ''/''"
    and "m @ xs = n @ ys"
  shows "m = n \<and> xs = ys"
proof -
  have t: "takeWhile not_slash (k @ zs) = k" if "CHR ''/'' \<notin> set k" "zs = [] \<or> hd zs = CHR ''/''" for k zs
    using that by (cases zs) (auto simp: takeWhile_append2 takeWhile_tail)
  from t [OF assms(1,3)] t [OF assms(2,4)] assms(5) have "m = n" by simp
  with assms(5) show ?thesis by simp
qed

lemma join_prefix:
  assumes "list_all name_ok xs" and "list_all name_ok ys" and "join_names ys = join_names xs @ rest"
    and "rest = [] \<or> hd rest = CHR ''/''"
  shows "\<exists>zs. ys = xs @ zs"
  using assms
proof (induction xs arbitrary: ys)
  case (Cons x xs)
  then obtain y ys' where ys: "ys = y # ys'" by (cases ys) auto
  have "y @ join_names ys' = x @ (join_names xs @ rest)" using Cons.prems(3) by (simp add: ys)
  moreover have "join_names xs @ rest = [] \<or> hd (join_names xs @ rest) = CHR ''/''"
    using join_head [of xs] Cons.prems(4) by (cases xs) auto
  ultimately have "y = x" "join_names ys' = join_names xs @ rest"
    using name_split [of y x "join_names ys'" "join_names xs @ rest"] Cons.prems(1,2) join_head [of ys']
    by (auto simp: ys name_ok_def)
  with Cons.IH [of ys'] Cons.prems ys show ?case by auto
qed simp

text \<open>On canonical paths the byte comparison of the policy is exactly "lies in the subtree": a path is inside
  the workspace when the workspace's names are a prefix of its own.\<close>

theorem inside_root_subtree:
  assumes "list_all name_ok root" and "list_all name_ok path"
  shows "inside_root (absolute root) (absolute path) \<longleftrightarrow> (\<exists>rest. path = root @ rest)"
proof (cases "root = []")
  case True
  then show ?thesis by (simp add: inside_root_def absolute_def)
next
  case r: False
  then have nr: "join_names root \<noteq> ''/''" "join_names root \<noteq> []" using assms(1) by (cases root; auto simp: name_ok_def)+
  let ?r = "join_names root"
  show ?thesis
  proof (cases "path = []")
    case True
    with r nr show ?thesis by (cases "join_names root") (auto simp: inside_root_def absolute_def)
  next
    case False
    let ?p = "join_names path"
    have "(take (length ?r) ?p = ?r \<and> (length ?p = length ?r \<or> ?p ! length ?r = CHR ''/'')) \<longleftrightarrow> (\<exists>rest. path = root @ rest)"
    proof
      assume a: "take (length ?r) ?p = ?r \<and> (length ?p = length ?r \<or> ?p ! length ?r = CHR ''/'')"
      define rest where "rest = drop (length ?r) ?p"
      have p: "?p = ?r @ rest" using a append_take_drop_id [of "length ?r" ?p] by (simp add: rest_def)
      then have "rest = [] \<or> hd rest = CHR ''/''" using a by (cases rest) (auto simp: nth_append)
      from join_prefix [OF assms p this] show "\<exists>rest. path = root @ rest" .
    next
      assume "\<exists>rest. path = root @ rest"
      then obtain rest where "path = root @ rest" by blast
      then show "take (length ?r) ?p = ?r \<and> (length ?p = length ?r \<or> ?p ! length ?r = CHR ''/'')"
        using join_head [of rest] by (cases "join_names rest") (auto simp: nth_append)
    qed
    with r False nr show ?thesis by (simp add: inside_root_def absolute_def)
  qed
qed

theorem inside_root_subtree_witness:
  "inside_root (absolute [''home'', ''w'']) (absolute [''home'', ''w'', ''a'']) \<and>
   \<not> inside_root (absolute [''home'', ''w'']) (absolute [''home'', ''wx''])"
  using inside_root_subtree [of "[''home'', ''w'']" "[''home'', ''w'', ''a'']"]
    inside_root_subtree [of "[''home'', ''w'']" "[''home'', ''wx'']"]
  by (simp add: name_ok_def)

section \<open>Confinement\<close>

lemma safe_no_dotdot:
  assumes "safe_components p"
  shows "\<not> (\<exists>xs ys. p = xs @ ''..'' @ ys \<and> (xs = [] \<or> last xs = CHR ''/'') \<and> (ys = [] \<or> hd ys = CHR ''/''))"
  using assms
proof (induction p rule: safe_components.induct)
  case (1 p)
  define start where "start = dropWhile (\<lambda>ch. ch = CHR ''/'') p"
  define rest where "rest = dropWhile not_slash start"
  show ?case
  proof (rule notI, elim exE conjE)
    fix xs ys assume p: "p = xs @ ''..'' @ ys" and x: "xs = [] \<or> last xs = CHR ''/''" and y: "ys = [] \<or> hd ys = CHR ''/''"
    have ne: "p \<noteq> []" using p by simp
    from "1.prems" ne have st: "takeWhile not_slash start \<noteq> ''..''" and sc: "safe_components rest"
      by (auto simp: safe_components.simps [of p] start_def rest_def Let_def split: if_splits)
    have lead: "p = takeWhile (\<lambda>ch. ch = CHR ''/'') p @ start" by (simp add: start_def)
    show False
    proof (cases "\<forall>ch\<in>set xs. ch = CHR ''/''")
      case True
      then have "start = ''..'' @ ys" using p by (simp add: start_def dropWhile_append2)
      with y st show False by (cases ys) auto
    next
      case False
      then obtain s0 where s0: "start = s0 @ ''..'' @ ys" "s0 \<noteq> []" "last s0 = CHR ''/''" "hd s0 \<noteq> CHR ''/''"
      proof -
        let ?s0 = "dropWhile (\<lambda>ch. ch = CHR ''/'') xs"
        have n: "?s0 \<noteq> []" using False by (simp add: dropWhile_eq_Nil_conv)
        then have "start = ?s0 @ ''..'' @ ys" using False p by (auto simp: start_def dropWhile_append1)
        moreover have "last ?s0 = CHR ''/''" 
        using n x by (metis dropWhile.simps(1) last_appendR takeWhile_dropWhile_id)
        moreover have "hd ?s0 \<noteq> CHR ''/''" using n hd_dropWhile [of "\<lambda>ch. ch = CHR ''/''" xs] by simp
        ultimately show ?thesis using that n by blast
      qed
      let ?x = "dropWhile not_slash s0"
      have n: "?x \<noteq> []" using s0(2,3) last_in_set [of s0] by (auto simp: dropWhile_eq_Nil_conv)
      then have "rest = ?x @ ''..'' @ ys" using s0(1) by (auto simp: rest_def dropWhile_append1 dropWhile_eq_Nil_conv)
      moreover have "last ?x = CHR ''/''" using n s0(3) by (metis last_appendR takeWhile_dropWhile_id)
      ultimately show False
        using "1.IH" [OF ne start_def st sc [unfolded rest_def]] y unfolding rest_def [symmetric] by blast
    qed
  qed
qed

text \<open>A path the policy lets through: inside the workspace, and either resolved by \<open>realpath\<close> as a whole, or
  a new name in a directory that \<open>realpath\<close> resolved inside the workspace.\<close>

definition confined :: "file_system \<Rightarrow> string \<Rightarrow> string \<Rightarrow> string \<Rightarrow> bool" where
  "confined fs workspace request out \<longleftrightarrow>
     inside_root workspace out \<and>
     (fs_realpath fs (workspace @ ''/'' @ request) = Inr out \<or>
      (fs_lstat fs (workspace @ ''/'' @ request) = Some ENOENT \<and>
       (\<exists>dir parent leaf. workspace @ ''/'' @ request = dir @ ''/'' @ leaf \<and> fs_realpath fs dir = Inr parent \<and>
          inside_root workspace parent \<and> out = parent @ ''/'' @ leaf \<and> name_ok leaf \<and> leaf \<noteq> ''..'')))"

lemma inside_root_child: "inside_root ws p \<Longrightarrow> inside_root ws (p @ CHR ''/'' # leaf)"
  by (auto simp: inside_root_def nth_append)

lemma copy_path_some: "copy_path p n = Some q \<longleftrightarrow> q = p \<and> length p < n"
  by (auto simp: copy_path_def)

lemma leaf_split:
  assumes "CHR ''/'' \<in> set c"
  shows "\<exists>before. c = before @ CHR ''/'' # rev (takeWhile not_slash (rev c))"
proof -
  have ne: "dropWhile not_slash (rev c) \<noteq> []" using assms by (auto simp: dropWhile_eq_Nil_conv)
  then obtain z zs where z: "dropWhile not_slash (rev c) = z # zs" by (cases "dropWhile not_slash (rev c)") auto
  then have "z = CHR ''/''" using hd_dropWhile [OF ne] by simp
  with z have "rev c = takeWhile not_slash (rev c) @ CHR ''/'' # zs" by (metis takeWhile_dropWhile_id)
  then have "rev (rev c) = rev (takeWhile not_slash (rev c) @ CHR ''/'' # zs)" by (rule arg_cong)
  then have "c = rev zs @ CHR ''/'' # rev (takeWhile not_slash (rev c))"
    unfolding rev_rev_ident rev_append rev.simps by simp
  then show ?thesis by blast
qed

lemma missing_leaf_confined:
  assumes "missing_leaf fs ws (ws @ ''/'' @ p) n = Some out" and "safe_components p"
  shows "\<exists>dir parent leaf. ws @ ''/'' @ p = dir @ ''/'' @ leaf \<and> fs_realpath fs dir = Inr parent \<and>
          inside_root ws parent \<and> out = parent @ ''/'' @ leaf \<and> name_ok leaf \<and> leaf \<noteq> ''..'' \<and> inside_root ws out \<and> length out < n"
proof -
  let ?c = "ws @ ''/'' @ p"
  define leaf where "leaf = rev (takeWhile not_slash (rev ?c))"
  define dir where "dir = take (length ?c - length leaf - 1) ?c"
  from assms(1) obtain parent where r: "leaf \<noteq> []" "fs_realpath fs dir = Inr parent" "inside_root ws parent"
    "out = parent @ ''/'' @ leaf" "length out < n"
    by (auto simp: missing_leaf_def copy_path_some Let_def leaf_def dir_def split: option.splits sum.splits if_splits)
  have sl: "CHR ''/'' \<notin> set leaf" by (auto simp: leaf_def dest: set_takeWhileD)
  obtain before where b: "?c = before @ CHR ''/'' # leaf"
    using leaf_split [of ?c] unfolding leaf_def by auto
  then have d: "dir = before" unfolding dir_def by simp
  have "leaf \<noteq> ''..''"
  proof
    assume dd: "leaf = ''..''"
    have "\<exists>xs. p = xs @ ''..'' \<and> (xs = [] \<or> last xs = CHR ''/'')"
    proof -
      have eq: "(ws @ ''/'') @ p = (before @ ''/'') @ ''..''" using b dd by simp
      then obtain us where "(ws @ ''/'' = (before @ ''/'') @ us \<and> us @ p = ''..'') \<or>
          ((ws @ ''/'') @ us = before @ ''/'' \<and> p = us @ ''..'')"
        unfolding append_eq_append_conv2 by blast
      then show ?thesis
      proof (elim disjE conjE)
        assume u: "ws @ ''/'' = (before @ ''/'') @ us" "us @ p = ''..''"
        from u(1) have "us = [] \<or> last us = CHR ''/''" by (metis last_appendR last_snoc)
        with u(2) show ?thesis by (cases us; cases "tl us"; auto)
      next
        assume u: "(ws @ ''/'') @ us = before @ ''/''" "p = us @ ''..''"
        from u(1) have "us = [] \<or> last us = CHR ''/''" by (metis last_appendR last_snoc)
        with u(2) show ?thesis by blast
      qed
    qed
    then obtain xs where "p = xs @ ''..'' @ []" "xs = [] \<or> last xs = CHR ''/''" by auto
    with safe_no_dotdot [OF assms(2)] show False by blast
  qed
  with b d r sl inside_root_child [OF r(3)] show ?thesis
    by (intro exI [of _ before] exI [of _ parent] exI [of _ leaf]) (simp add: name_ok_def)
qed

text \<open>The policy confines. Whatever the request and whatever the file system contains, a path that is let
  through lies in the resolved workspace; it is either an existing file after all symbolic links
  were resolved, or a new name, without a slash and not "..", in an existing directory of the
  workspace. It fits the caller's buffer.\<close>

theorem path_resolve_confined:
  assumes "tool_path_resolve fs cwd path missing n = Some out"
  shows "\<exists>dir ws p. cwd = Some dir \<and> path = Some p \<and> fs_realpath fs dir = Inr ws \<and> confined fs ws p out \<and> length out < n"
proof -
  from assms obtain dir p ws where a: "cwd = Some dir" "safe_relative path" "fs_realpath fs dir = Inr ws" "path = Some p"
    by (cases path) (auto simp: tool_path_resolve_def safe_relative_def [of None] split: option.splits sum.splits if_splits)
  from a(2,4) have sc: "safe_components p" by (auto simp: safe_relative_def split: if_splits)
  let ?c = "ws @ ''/'' @ p"
  show ?thesis
  proof (cases "fs_realpath fs ?c")
    case (Inr r)
    with assms a have "inside_root ws r" "copy_path r n = Some out"
      by (auto simp: tool_path_resolve_def copy_path_some split: option.splits if_splits)
    with a Inr show ?thesis by (auto simp: confined_def copy_path_some)
  next
    case (Inl e)
    with assms a have "fs_lstat fs ?c = Some ENOENT" "missing_leaf fs ws ?c n = Some out"
      by (auto simp: tool_path_resolve_def copy_path_some split: option.splits if_splits)
    with missing_leaf_confined [OF this(2) sc] a show ?thesis by (auto simp: confined_def)
  qed
qed

lemma path_resolve_length: "tool_path_resolve fs cwd path missing n = Some out \<Longrightarrow> length out < n"
  by (auto simp: tool_path_resolve_def missing_leaf_def copy_path_some Let_def split: option.splits sum.splits if_splits)

lemma path_resolve_inside:
  "tool_path_resolve fs (Some dir) path missing n = Some out \<Longrightarrow> fs_realpath fs dir = Inr ws \<Longrightarrow> inside_root ws out"
  by (auto simp: tool_path_resolve_def missing_leaf_def copy_path_some Let_def inside_root_child
      split: option.splits sum.splits if_splits)

definition small_fs :: file_system where
  "small_fs = \<lparr>fs_realpath = (\<lambda>p. if p \<in> {''/w'', ''/link''} then Inr ''/w'' else if p = ''/w/out'' then Inr ''/etc'' else Inl ENOENT),
     fs_lstat = (\<lambda>_. Some ENOENT)\<rparr>"

theorem path_resolve_confined_witness:
  "confined small_fs ''/w'' ''new'' ''/w/new'' \<and> tool_path_resolve small_fs (Some ''/link'') (Some ''out'') True 4096 = None"
proof -
  have "tool_path_resolve small_fs (Some ''/link'') (Some ''new'') True 4096 = Some ''/w/new''" by code_simp
  from path_resolve_confined [OF this] have "confined small_fs ''/w'' ''new'' ''/w/new''" by (auto simp: small_fs_def)
  moreover have "tool_path_resolve small_fs (Some ''/link'') (Some ''out'') True 4096 = None" by code_simp
  ultimately show ?thesis by blast
qed

end
