(* ===== verification/Diff.thy ===== *)
theory Diff
  imports Prelude
begin

text \<open>
  The change preview shown with an approval request, \<open>src/src/util/diff.c\<close>.  The output is a
  growing text; memory suffices.  A NULL text is \<open>None\<close>.
\<close>

section \<open>Building the preview\<close>

definition DIFF_PREVIEW_MAX_BYTES :: nat where
  "DIFF_PREVIEW_MAX_BYTES = 16 * 1024"

definition DIFF_PREVIEW_MAX_LINES :: nat where
  "DIFF_PREVIEW_MAX_LINES = 120"

abbreviation newline :: char where
  "newline \<equiv> CHR 0x0A"

definition line_count :: "string option \<Rightarrow> nat" where
  "line_count text1 =
     (case text1 of
        None \<Rightarrow> 0
      | Some bs \<Rightarrow> if bs = [] then 0 else 1 + length (filter (\<lambda>ch. ch = newline) (butlast bs)))"

text \<open>The loop of \<open>append_lines\<close>: the rest of the text, the output, the lines emitted so far.\<close>

function append_lines :: "char \<Rightarrow> string \<Rightarrow> string \<Rightarrow> nat \<Rightarrow> bool \<Rightarrow> string \<times> nat \<times> bool" where
  "append_lines prefix rest out emitted truncated =
     (if rest = [] then (out, emitted, truncated)
      else if emitted \<ge> DIFF_PREVIEW_MAX_LINES \<or> length out \<ge> DIFF_PREVIEW_MAX_BYTES then (out, emitted, True)
      else
        (let line = takeWhile (\<lambda>ch. ch \<noteq> newline) rest;
             available = DIFF_PREVIEW_MAX_BYTES - length out in
         if available < 4 then (out, emitted, True)
         else
           (let too_long = length line + 1 > available - 1;
                shown = (if too_long then take (if available > 5 then available - 5 else 0) line else line);
                truncated1 = (truncated \<or> too_long);
                out1 = out @ [prefix] @ shown @ (if truncated1 then ''...'' else []) @ [newline] in
            if truncated1 then (out1, emitted + 1, True)
            else append_lines prefix (drop (length line + 1) rest) out1 (emitted + 1) truncated1)))"
  by pat_completeness auto
termination
  by (relation "measure (\<lambda>(prefix, rest, out, emitted, truncated). length rest)") auto

declare append_lines.simps [simp del]

definition diff_header :: "string \<Rightarrow> string \<Rightarrow> nat \<Rightarrow> nat \<Rightarrow> string" where
  "diff_header mark label len lines =
     mark @ '' '' @ label @ '' ('' @ show_nat len @ '' bytes, '' @ show_nat lines @ '' lines)'' @ [newline]"

definition text_bytes :: "string option \<Rightarrow> string" where
  "text_bytes t = (case t of None \<Rightarrow> [] | Some bs \<Rightarrow> bs)"

definition diff_start :: "string option \<Rightarrow> string option \<Rightarrow> string option \<Rightarrow> string" where
  "diff_start path old_text new_text =
     (let label = (case path of None \<Rightarrow> ''file'' | Some p \<Rightarrow> p) in
      diff_header ''---'' label (length (text_bytes old_text)) (line_count old_text) @
      diff_header ''+++'' label (length (text_bytes new_text)) (line_count new_text) @
      ''@@ proposed change @@'' @ [newline])"

definition diff_preview_build :: "string option \<Rightarrow> string option \<Rightarrow> string option \<Rightarrow> string \<Rightarrow> string" where
  "diff_preview_build path old_text new_text out =
     (let (out2, emitted, truncated) =
            append_lines CHR ''-'' (text_bytes old_text) (out @ diff_start path old_text new_text) 0 False;
          (out3, _, truncated1) =
            (if truncated then (out2, emitted, True)
             else append_lines CHR ''+'' (text_bytes new_text) out2 emitted truncated) in
      if truncated1 then out3 @ ''...[preview truncated]'' @ [newline] else out3)"

section \<open>Bounds\<close>

lemma append_lines_bound:
  "append_lines prefix rest out emitted truncated = (out', emitted', t) \<Longrightarrow> emitted \<le> DIFF_PREVIEW_MAX_LINES \<Longrightarrow>
   \<not> truncated \<Longrightarrow>
   length out' \<le> max (length out) (DIFF_PREVIEW_MAX_BYTES + 1) \<and> emitted' \<le> DIFF_PREVIEW_MAX_LINES \<and>
   (\<not> t \<longrightarrow> length out' \<le> max (length out) DIFF_PREVIEW_MAX_BYTES)"
proof (induction prefix rest out emitted truncated arbitrary: out' emitted' t rule: append_lines.induct)
  case (1 prefix rest out emitted truncated)
  define line where "line = takeWhile (\<lambda>ch. ch \<noteq> newline) rest"
  define available where "available = DIFF_PREVIEW_MAX_BYTES - length out"
  define too_long where "too_long = (length line + 1 > available - 1)"
  define shown where "shown = (if too_long then take (if available > 5 then available - 5 else 0) line else line)"
  define cut where "cut = (truncated \<or> too_long)"
  have cut: "cut = too_long" using "1.prems"(3) by (simp add: cut_def)
  define out1 where "out1 = out @ [prefix] @ shown @ (if cut then ''...'' else []) @ [newline]"
  show ?case
  proof (cases "rest = [] \<or> emitted \<ge> DIFF_PREVIEW_MAX_LINES \<or> length out \<ge> DIFF_PREVIEW_MAX_BYTES \<or> available < 4")
    case True
    with "1.prems" have "out' = out" "emitted' = emitted"
      by (auto simp: append_lines.simps [of prefix rest] available_def [symmetric] Let_def split: if_splits)
    with "1.prems" show ?thesis by simp
  next
    case False
    have eq: "append_lines prefix rest out emitted truncated =
      (if too_long then (out1, emitted + 1, True)
       else append_lines prefix (drop (length line + 1) rest) out1 (emitted + 1) False)"
      using False "1.prems"(3)
      unfolding append_lines.simps [of prefix rest] Let_def line_def [symmetric] available_def [symmetric]
        too_long_def [symmetric] shown_def [symmetric] cut_def [symmetric] out1_def [symmetric]
      by (simp add: cut)
    have len: "length out + available = DIFF_PREVIEW_MAX_BYTES" "4 \<le> available" using False by (auto simp: available_def)
    show ?thesis
    proof (cases too_long)
      case True
      then have "length shown \<le> available - 5" by (simp add: shown_def)
      with True len have "length out1 \<le> DIFF_PREVIEW_MAX_BYTES + 1" by (simp add: out1_def cut)
      with True eq "1.prems" False show ?thesis by auto
    next
      case short: False
      then have "length out1 \<le> DIFF_PREVIEW_MAX_BYTES"
        using len by (simp add: out1_def shown_def cut) (simp add: too_long_def)
      moreover have "append_lines prefix (drop (length line + 1) rest) out1 (emitted + 1) False = (out', emitted', t)"
        using eq short "1.prems"(1) by simp
      moreover have "length out' \<le> max (length out1) (DIFF_PREVIEW_MAX_BYTES + 1) \<and> emitted' \<le> DIFF_PREVIEW_MAX_LINES \<and>
          (\<not> t \<longrightarrow> length out' \<le> max (length out1) DIFF_PREVIEW_MAX_BYTES)"
        using "1.IH" [OF _ _ line_def available_def _ too_long_def shown_def cut_def out1_def, of out' emitted' t]
          False short calculation by (auto simp: cut)
      ultimately show ?thesis by auto
    qed
  qed
qed

text \<open>A preview is bounded. Whatever the size of a change, the preview is no longer than 16 KiB, or than its
  header when the path makes the header longer, plus one byte and the line that says it was cut.\<close>

theorem diff_preview_bounded:
  "length (diff_preview_build path old_text new_text []) \<le>
     max (length (diff_start path old_text new_text)) (DIFF_PREVIEW_MAX_BYTES + 1) + 23"
proof -
  let ?h = "diff_start path old_text new_text"
  obtain out2 e2 t2 where a: "append_lines CHR ''-'' (text_bytes old_text) ?h 0 False = (out2, e2, t2)" by (metis surj_pair)
  obtain out3 e3 t3 where b: "append_lines CHR ''+'' (text_bytes new_text) out2 e2 False = (out3, e3, t3)" by (metis surj_pair)
  have la: "length out2 \<le> max (length ?h) (DIFF_PREVIEW_MAX_BYTES + 1)" "e2 \<le> DIFF_PREVIEW_MAX_LINES"
    using append_lines_bound [OF a] by auto
  have lb: "length out3 \<le> max (length out2) (DIFF_PREVIEW_MAX_BYTES + 1)"
    using append_lines_bound [OF b] la(2) by auto
  have "diff_preview_build path old_text new_text [] =
     (if t2 then out2 @ ''...[preview truncated]'' @ [newline]
      else if t3 then out3 @ ''...[preview truncated]'' @ [newline] else out3)"
    using a b by (simp add: diff_preview_build_def)
  with la(1) lb show ?thesis by auto
qed

section \<open>Small changes are shown whole\<close>

definition mark_lines :: "char \<Rightarrow> string list \<Rightarrow> string" where
  "mark_lines prefix ls = concat (map (\<lambda>l. prefix # l @ [newline]) ls)"

definition join_lines :: "string list \<Rightarrow> string" where
  "join_lines ls = concat (map (\<lambda>l. l @ [newline]) ls)"

lemma append_lines_whole:
  assumes "\<forall>l\<in>set ls. newline \<notin> set l" and "emitted + length ls \<le> DIFF_PREVIEW_MAX_LINES"
    and "length out + length (mark_lines prefix ls) + 2 \<le> DIFF_PREVIEW_MAX_BYTES"
  shows "append_lines prefix (join_lines ls) out emitted False = (out @ mark_lines prefix ls, emitted + length ls, False)"
  using assms
proof (induction ls arbitrary: out emitted)
  case Nil
  then show ?case by (simp add: join_lines_def mark_lines_def append_lines.simps)
next
  case (Cons l ls)
  let ?rest = "join_lines (l # ls)"
  have t: "takeWhile (\<lambda>ch. ch \<noteq> newline) (l @ newline # x) = l" for x using Cons.prems(1) by (induction l) auto
  have r: "?rest = l @ newline # join_lines ls" by (simp add: join_lines_def)
  have m: "mark_lines prefix (l # ls) = prefix # l @ newline # mark_lines prefix ls" by (simp add: mark_lines_def)
  have ih: "append_lines prefix (join_lines ls) (out @ prefix # l @ [newline]) (Suc emitted) False =
      ((out @ prefix # l @ [newline]) @ mark_lines prefix ls, Suc emitted + length ls, False)"
    using Cons.IH [of "Suc emitted" "out @ prefix # l @ [newline]"] Cons.prems by (simp add: m)
  have g: "\<not> emitted \<ge> DIFF_PREVIEW_MAX_LINES" "\<not> length out \<ge> DIFF_PREVIEW_MAX_BYTES"
    "\<not> DIFF_PREVIEW_MAX_BYTES - length out < 4" "\<not> length l + 1 > DIFF_PREVIEW_MAX_BYTES - length out - 1"
    using Cons.prems by (simp_all add: m)
  show ?case
    unfolding append_lines.simps [of prefix ?rest] Let_def unfolding r t
    using g by (simp add: ih m)
qed

text \<open>A change that fits is shown whole: every removed line with a minus, then every added line with a plus, in
  order, and no note that anything was cut.\<close>

theorem diff_preview_whole:
  assumes "\<forall>l\<in>set (olds @ news). newline \<notin> set l" and "length olds + length news \<le> DIFF_PREVIEW_MAX_LINES"
    and "length (diff_start path (Some (join_lines olds)) (Some (join_lines news))) +
         length (mark_lines CHR ''-'' olds) + length (mark_lines CHR ''+'' news) + 2 \<le> DIFF_PREVIEW_MAX_BYTES"
  shows "diff_preview_build path (Some (join_lines olds)) (Some (join_lines news)) [] =
         diff_start path (Some (join_lines olds)) (Some (join_lines news)) @
         mark_lines CHR ''-'' olds @ mark_lines CHR ''+'' news"
proof -
  let ?h = "diff_start path (Some (join_lines olds)) (Some (join_lines news))"
  have "append_lines CHR ''-'' (join_lines olds) ?h 0 False = (?h @ mark_lines CHR ''-'' olds, 0 + length olds, False)"
    by (rule append_lines_whole) (use assms in auto)
  moreover have "append_lines CHR ''+'' (join_lines news) (?h @ mark_lines CHR ''-'' olds) (length olds) False =
      ((?h @ mark_lines CHR ''-'' olds) @ mark_lines CHR ''+'' news, length olds + length news, False)"
    by (rule append_lines_whole) (use assms in auto)
  ultimately show ?thesis by (simp add: diff_preview_build_def text_bytes_def)
qed

theorem diff_preview_whole_witness:
  "diff_preview_build (Some ''f'') (Some (join_lines [''a''])) (Some (join_lines [''b'', ''c''])) [] =
   diff_start (Some ''f'') (Some (join_lines [''a''])) (Some (join_lines [''b'', ''c''])) @
   mark_lines CHR ''-'' [''a''] @ mark_lines CHR ''+'' [''b'', ''c'']"
  by (rule diff_preview_whole)
    (simp_all add: DIFF_PREVIEW_MAX_LINES_def DIFF_PREVIEW_MAX_BYTES_def diff_start_def diff_header_def mark_lines_def
      text_bytes_def join_lines_def line_count_def show_nat.simps)

end
