(* ===== verification/File_Tools.thy ===== *)
theory File_Tools
  imports Path_Policy Diff Registry
begin

text \<open>
  The tools that read and change files: \<open>src/src/tool/edit.c\<close>, \<open>src/src/tool/write.c\<close> and
  \<open>src/src/tool/read.c\<close>.  A file system is the contents of its files; a symbolic link that waits under the
  name of the temporary file is part of it (\<open>ei_link\<close>).  What each call of the
  operating system answers during one execution of a tool is a record (\<open>edit_io\<close>, \<open>write_io\<close>,
  \<open>preview_io\<close>).  The texts of error numbers are a parameter of these records.  Allocating the
  messages succeeds; the three appends of \<open>edit_execute\<close>, whose results the code ignores, may fail.
\<close>

section \<open>Arguments and results\<close>

type_synonym files = "string \<Rightarrow> string option"

text \<open>A string argument is used as a C string.\<close>

definition arg_str :: "json \<Rightarrow> string \<Rightarrow> string option" where
  "arg_str root key = map_option c_str (json_obj_get_str (Some root) key)"

definition tool_error :: "string \<Rightarrow> tool_result" where
  "tool_error msg = \<lparr>tr_content = Some msg, tr_is_error = True\<rparr>"

definition tool_text :: "string \<Rightarrow> tool_result" where
  "tool_text msg = \<lparr>tr_content = Some msg, tr_is_error = False\<rparr>"

text \<open>\<open>string_take\<close> of a text that was built by appending: empty means nothing was ever stored.\<close>

definition taken :: "string \<Rightarrow> string option" where
  "taken out = (if out = [] then None else Some out)"

section \<open>Matching\<close>

text \<open>The loop that counts the matches: the offsets found, each after the end of the one before.\<close>

function match_offsets :: "string \<Rightarrow> string \<Rightarrow> nat \<Rightarrow> nat list" where
  "match_offsets hay needle p =
     (if needle = [] then []
      else
        (case strstr (drop p hay) needle of
           None \<Rightarrow> []
         | Some k \<Rightarrow> (p + k) # match_offsets hay needle (p + k + length needle)))"
  by pat_completeness auto
termination
proof (relation "measure (\<lambda>(hay, needle, p). length hay - p)")
  fix hay needle :: string and p k
  assume "needle \<noteq> []" "strstr (drop p hay) needle = Some k"
  with strstr_some [of "drop p hay" needle k]
  show "((hay, needle, p + k + length needle), hay, needle, p) \<in> measure (\<lambda>(hay, needle, p). length hay - p)"
    by (cases needle) auto
qed simp

declare match_offsets.simps [simp del]

section \<open>The edit tool\<close>

definition EDIT_MAX_FILE :: nat where
  "EDIT_MAX_FILE = 8 * 1024 * 1024"

record edit_io =
  ei_stat :: "int + nat"
  ei_open :: "int option"
  ei_malloc :: bool
  ei_got :: nat
  ei_append_before :: bool
  ei_append_new :: bool
  ei_append_after :: bool
  ei_tmp :: "int option"
  ei_link :: "string option"
  ei_chmod :: "int option"
  ei_written :: nat
  ei_left :: string
  ei_close :: bool
  ei_rename :: bool
  ei_commit_errno :: int
  ei_pid :: string
  ei_strerror :: "int \<Rightarrow> string"
  ei_mebibytes :: "nat \<Rightarrow> string"

text \<open>\<open>ei_got\<close> is how many bytes \<open>fread\<close> can deliver, \<open>ei_link\<close> the file a symbolic link under the temporary name leads
  to, \<open>ei_left\<close> what a write that did not complete leaves.\<close>

definition edit_data :: "edit_io \<Rightarrow> files \<Rightarrow> string \<Rightarrow> nat \<Rightarrow> string" where
  "edit_data io files full st_size = take (min (ei_got io) st_size) (case files full of None \<Rightarrow> [] | Some contents \<Rightarrow> contents)"

text \<open>The new contents: what is before the match, the new text, what is after it.  An append that
  fails leaves the text as it was.\<close>

definition edit_output :: "edit_io \<Rightarrow> string \<Rightarrow> nat \<Rightarrow> nat \<Rightarrow> string \<Rightarrow> string" where
  "edit_output io data hit old_len new_text =
     (if ei_append_before io then take hit data else []) @
     (if ei_append_new io then new_text else []) @
     (if ei_append_after io then drop (hit + old_len) data else [])"

definition edit_tmp_path :: "edit_io \<Rightarrow> string \<Rightarrow> string" where
  "edit_tmp_path io full = take (PATH_MAX + 8 - 1) (full @ ''.tmp'' @ ei_pid io)"

text \<open>Opening the temporary name follows a link, removing it removes the link, renaming it moves the link.  A link that is
  moved onto its own target leads nowhere.\<close>

definition tmp_target :: "edit_io \<Rightarrow> string \<Rightarrow> string" where
  "tmp_target io full = (case ei_link io of None \<Rightarrow> edit_tmp_path io full | Some target \<Rightarrow> target)"

definition unlink_tmp :: "edit_io \<Rightarrow> string \<Rightarrow> files \<Rightarrow> files" where
  "unlink_tmp io full files = (case ei_link io of None \<Rightarrow> files(edit_tmp_path io full := None) | Some _ \<Rightarrow> files)"

definition rename_tmp :: "edit_io \<Rightarrow> string \<Rightarrow> files \<Rightarrow> files" where
  "rename_tmp io full files =
     (case ei_link io of
        None \<Rightarrow> (files(edit_tmp_path io full := None))(full := files (edit_tmp_path io full))
      | Some target \<Rightarrow> files(full := if target = full then None else files target))"

text \<open>From the temporary file to the result.\<close>

definition edit_commit ::
  "edit_io \<Rightarrow> string \<Rightarrow> string \<Rightarrow> string \<Rightarrow> string \<Rightarrow> files \<Rightarrow> tool_result \<times> files" where
  "edit_commit io full out old_text new_text files =
     (let tmp = edit_tmp_path io full; target = tmp_target io full;
          failed = tool_error (''error: failed to commit edit to '' @ full @ '': '' @ ei_strerror io (ei_commit_errno io)) in
      case ei_tmp io of
        Some e \<Rightarrow> (tool_error (''error: cannot write '' @ tmp @ '': '' @ ei_strerror io e), files)
      | None \<Rightarrow>
          (case ei_chmod io of
             Some e \<Rightarrow>
               (tool_error (''error: cannot preserve permissions for '' @ full @ '': '' @ ei_strerror io e),
                unlink_tmp io full (files(target := Some [])))
           | None \<Rightarrow>
               if \<not> ei_close io \<or> ei_written io \<noteq> length out then
                 (failed, unlink_tmp io full (files(target := Some (ei_left io))))
               else if \<not> ei_rename io then (failed, unlink_tmp io full (files(target := Some out)))
               else
                 (tool_text (''edited '' @ full @ '': replaced 1 occurrence ('' @
                    show_nat (size_sub (length new_text) (length old_text)) @ '' bytes)''),
                  rename_tmp io full (files(target := Some out)))))"

definition edit_apply :: "edit_io \<Rightarrow> string \<Rightarrow> string \<Rightarrow> string \<Rightarrow> files \<Rightarrow> tool_result \<times> files" where
  "edit_apply io full old_text new_text files =
     (case ei_stat io of
        Inl e \<Rightarrow> (tool_error (''error: cannot stat '' @ full @ '': '' @ ei_strerror io e), files)
      | Inr st_size \<Rightarrow>
          if st_size > EDIT_MAX_FILE then
            (tool_error (''error: '' @ full @ '' is '' @ ei_mebibytes io st_size @ '' MiB (limit 8 MiB); refusing''), files)
          else
            (case ei_open io of
               Some e \<Rightarrow> (tool_error (''error: cannot open '' @ full @ '': '' @ ei_strerror io e), files)
             | None \<Rightarrow>
                 if \<not> ei_malloc io then (tool_error ''error: out of memory'', files)
                 else
                   (let data = edit_data io files full st_size; hits = match_offsets (c_str data) old_text 0 in
                    if hits = [] then (tool_error (''error: old_text not found in '' @ full), files)
                    else if length hits > 1 then
                      (tool_error (''error: old_text matches '' @ show_nat (length hits) @ '' times in '' @ full @
                         ''; provide more context to make the match unique''), files)
                    else
                      edit_commit io full (edit_output io data (last hits) (length old_text) new_text)
                        old_text new_text files)))"

definition edit_execute ::
  "(string \<Rightarrow> json option) \<Rightarrow> file_system \<Rightarrow> edit_io \<Rightarrow> string option \<Rightarrow> string \<Rightarrow> files \<Rightarrow>
   agent_error \<times> tool_result \<times> files" where
  "edit_execute read fs io cwd arguments files =
     (AGENT_OK,
      case json_parse read arguments of
        None \<Rightarrow> (tool_error ''error: arguments are not valid JSON'', files)
      | Some root \<Rightarrow>
          (case (arg_str root ''path'', arg_str root ''old_text'', arg_str root ''new_text'') of
             (Some path, Some old_text, Some new_text) \<Rightarrow>
               if old_text = [] then (tool_error ''error: old_text must not be empty'', files)
               else
                 (case tool_path_resolve fs cwd (Some path) True PATH_MAX of
                    None \<Rightarrow> (tool_error ''error: path must stay inside the workspace'', files)
                  | Some full \<Rightarrow> edit_apply io full old_text new_text files)
           | _ \<Rightarrow> (tool_error ''error: \"path\", \"old_text\" and \"new_text\" are all required'', files)))"

text \<open>The calls of a preview: \<open>stat\<close> with its error number or size, opening, memory, reading.\<close>

record preview_io =
  pi_stat :: "int + nat"
  pi_open :: "int option"
  pi_malloc :: bool
  pi_read :: string
  pi_strerror :: "int \<Rightarrow> string"
  pi_stat_errno :: int

definition edit_preview ::
  "(string \<Rightarrow> json option) \<Rightarrow> file_system \<Rightarrow> preview_io \<Rightarrow> string option \<Rightarrow> string \<Rightarrow> agent_error \<times> tool_result" where
  "edit_preview read fs io cwd arguments =
     (case json_parse read arguments of
        None \<Rightarrow> (AGENT_OK, tool_error ''error: arguments are not valid JSON'')
      | Some root \<Rightarrow>
          (case (arg_str root ''path'', arg_str root ''old_text'', arg_str root ''new_text'') of
             (Some path, Some old_text, Some new_text) \<Rightarrow>
               if old_text = [] then (AGENT_OK, tool_error ''error: path, non-empty old_text, and new_text are required'')
               else
                 (case tool_path_resolve fs cwd (Some path) True PATH_MAX of
                    None \<Rightarrow> (AGENT_OK, tool_error ''error: path must stay inside the workspace'')
                  | Some full \<Rightarrow>
                      let cannot = (\<lambda>e. tool_error (''error: cannot preview '' @ full @ '': '' @ pi_strerror io e)) in
                      (case pi_stat io of
                         Inl e \<Rightarrow> (AGENT_OK, cannot e)
                       | Inr st_size \<Rightarrow>
                           if st_size > EDIT_MAX_FILE then
                             (AGENT_OK, tool_error (''error: '' @ full @ '' exceeds the 8 MiB edit limit''))
                           else
                             (case pi_open io of
                                Some e \<Rightarrow> (AGENT_OK, cannot e)
                              | None \<Rightarrow>
                                  if \<not> pi_malloc io then (AGENT_ERR_OOM, zero_result)
                                  else
                                    (let count = length (match_offsets (c_str (pi_read io)) old_text 0) in
                                     if count \<noteq> 1 then
                                       (AGENT_OK, tool_error
                                          (if count = 0 then ''error: old_text not found in '' @ full
                                           else ''error: old_text matches '' @ show_nat count @ '' times in '' @ full))
                                     else
                                       (AGENT_OK, \<lparr>tr_content = taken (diff_preview_build (Some full) (Some old_text) (Some new_text) []),
                                                   tr_is_error = False\<rparr>)))))
           | _ \<Rightarrow> (AGENT_OK, tool_error ''error: path, non-empty old_text, and new_text are required'')))"

section \<open>The write tool\<close>

record write_io =
  wi_open :: "int option"
  wi_written :: nat
  wi_close :: bool
  wi_left :: string
  wi_errno :: int
  wi_strerror :: "int \<Rightarrow> string"

text \<open>\<open>wi_left\<close>: what the file holds after a write that did not complete.\<close>

definition write_execute ::
  "(string \<Rightarrow> json option) \<Rightarrow> file_system \<Rightarrow> write_io \<Rightarrow> string option \<Rightarrow> string \<Rightarrow> files \<Rightarrow>
   agent_error \<times> tool_result \<times> files" where
  "write_execute read fs io cwd arguments files =
     (AGENT_OK,
      case json_parse read arguments of
        None \<Rightarrow> (tool_error ''error: arguments are not valid JSON'', files)
      | Some root \<Rightarrow>
          (case (arg_str root ''path'', arg_str root ''content'') of
             (Some path, Some content) \<Rightarrow>
               if path = [] then (tool_error ''error: both \"path\" and \"content\" are required'', files)
               else
                 (case tool_path_resolve fs cwd (Some path) True PATH_MAX of
                    None \<Rightarrow> (tool_error ''error: path must stay inside the workspace'', files)
                  | Some full \<Rightarrow>
                      (case wi_open io of
                         Some e \<Rightarrow> (tool_error (''error: cannot write '' @ full @ '': '' @ wi_strerror io e), files)
                       | None \<Rightarrow>
                           if \<not> wi_close io \<or> wi_written io \<noteq> length content then
                             (tool_error (''error: short write to '' @ full @ '': '' @ wi_strerror io (wi_errno io)),
                              files(full := Some (wi_left io)))
                           else
                             (tool_text (''wrote '' @ show_nat (wi_written io) @ '' bytes to '' @ full),
                              files(full := Some content))))
           | _ \<Rightarrow> (tool_error ''error: both \"path\" and \"content\" are required'', files)))"

definition write_preview ::
  "(string \<Rightarrow> json option) \<Rightarrow> file_system \<Rightarrow> preview_io \<Rightarrow> string option \<Rightarrow> string \<Rightarrow> agent_error \<times> tool_result" where
  "write_preview read fs io cwd arguments =
     (case json_parse read arguments of
        None \<Rightarrow> (AGENT_OK, tool_error ''error: arguments are not valid JSON'')
      | Some root \<Rightarrow>
          (case (arg_str root ''path'', arg_str root ''content'') of
             (Some path, Some content) \<Rightarrow>
               if path = [] then (AGENT_OK, tool_error ''error: both \"path\" and \"content\" are required'')
               else
                 (case tool_path_resolve fs cwd (Some path) True PATH_MAX of
                    None \<Rightarrow> (AGENT_OK, tool_error ''error: path must stay inside the workspace'')
                  | Some full \<Rightarrow>
                      let cannot = (\<lambda>e. tool_error (''error: cannot preview '' @ full @ '': '' @ pi_strerror io e));
                          preview = (\<lambda>old. (AGENT_OK, \<lparr>tr_content = taken (diff_preview_build (Some full) old (Some content) []),
                                                       tr_is_error = False\<rparr>)) in
                      (case pi_stat io of
                         Inl e \<Rightarrow> if e \<noteq> ENOENT then (AGENT_OK, cannot e) else preview None
                       | Inr st_size \<Rightarrow>
                           if st_size > 1024 * 1024 then
                             (AGENT_OK, tool_text (''overwrite '' @ full @ '': existing file is '' @ show_nat st_size @
                                '' bytes; new content is '' @ show_nat (length content) @ '' bytes\<newline>'' @
                                ''[line preview omitted for files larger than 1 MiB]''))
                           else
                             (case pi_open io of
                                Some e \<Rightarrow> (AGENT_OK, cannot e)
                              | None \<Rightarrow>
                                  if \<not> pi_malloc io then (AGENT_ERR_OOM, zero_result) else preview (Some (pi_read io)))))
           | _ \<Rightarrow> (AGENT_OK, tool_error ''error: both \"path\" and \"content\" are required'')))"

section \<open>The read tool\<close>

definition READ_BINARY_SCAN :: nat where
  "READ_BINARY_SCAN = 8192"

definition READ_DEFAULT_LIMIT :: int where
  "READ_DEFAULT_LIMIT = 200"

definition READ_MAX_LIMIT :: int where
  "READ_MAX_LIMIT = 2000"

definition READ_LINE_MAX :: nat where
  "READ_LINE_MAX = 65536"

definition check_binary :: "string \<Rightarrow> bool" where
  "check_binary data \<longleftrightarrow> CHR 0x00 \<in> set (take READ_BINARY_SCAN data)"

text \<open>\<open>fgets\<close>: at most \<open>READ_LINE_MAX - 1\<close> bytes, up to and including a newline.\<close>

definition fgets_line :: "string \<Rightarrow> string" where
  "fgets_line data =
     (let piece = take (READ_LINE_MAX - 1) data; line = takeWhile (\<lambda>ch. ch \<noteq> newline) piece in
      if length line < length piece then line @ [newline] else piece)"

text \<open>The loop of \<open>read_execute\<close>: the rest of the file, the lines read and emitted, the output.\<close>

function read_lines :: "int \<Rightarrow> int \<Rightarrow> string \<Rightarrow> int \<Rightarrow> int \<Rightarrow> string \<Rightarrow> string \<times> int \<times> int \<times> bool" where
  "read_lines offset limit data lineno emitted out =
     (if data = [] then (out, lineno, emitted, False)
      else
        (let buf = fgets_line data; rest = drop (length buf) data; lineno1 = lineno + 1; line = c_str buf in
         if lineno1 < offset then read_lines offset limit rest lineno1 emitted out
         else if emitted \<ge> limit then (out, lineno1, emitted, True)
         else
           (let shown = (if line \<noteq> [] \<and> last line = newline then butlast line else line) in
            read_lines offset limit rest lineno1 (emitted + 1)
              (out @ ''L'' @ show_nat (nat lineno1) @ '': '' @ shown @ [newline]))))"
  by pat_completeness auto
termination
  by (relation "measure (\<lambda>(offset, limit, data, lineno, emitted, out). length data)")
    (auto simp: fgets_line_def READ_LINE_MAX_def Let_def neq_Nil_conv)

declare read_lines.simps [simp del]

definition read_text :: "int \<Rightarrow> int \<Rightarrow> string \<Rightarrow> tool_result" where
  "read_text offset limit data =
     (if check_binary data then
        tool_error ''error: file looks binary (NUL byte found); refusing to dump it as text''
      else
        (let (out, lineno, emitted, truncated) = read_lines offset limit data 0 0 [];
             out1 = (if truncated
                     then out @ ''...[file has more lines; use offset/limit to read further]\<newline>'' else out);
             out2 = (if emitted = 0 \<and> lineno = 0 then out1 @ ''(empty file)\<newline>'' else out1) in
         \<lparr>tr_content = taken out2, tr_is_error = False\<rparr>))"

text \<open>\<open>Inl\<close>: \<open>fopen\<close> fails; \<open>Inr\<close>: the contents of the file.\<close>

definition read_execute ::
  "(string \<Rightarrow> json option) \<Rightarrow> file_system \<Rightarrow> (string \<Rightarrow> int + string) \<Rightarrow> (int \<Rightarrow> string) \<Rightarrow> string option \<Rightarrow>
   string \<Rightarrow> agent_error \<times> tool_result" where
  "read_execute read fs open_read strerror cwd arguments =
     (AGENT_OK,
      case json_parse read arguments of
        None \<Rightarrow> tool_error ''error: arguments are not valid JSON''
      | Some root \<Rightarrow>
          (case arg_str root ''path'' of
             None \<Rightarrow> tool_error ''error: missing required argument \"path\"''
           | Some path \<Rightarrow>
               if path = [] then tool_error ''error: missing required argument \"path\"''
               else
                 (let offset0 = json_obj_get_int (Some root) ''offset'' 1;
                      limit0 = json_obj_get_int (Some root) ''limit'' READ_DEFAULT_LIMIT;
                      offset = (if offset0 < 1 then 1 else offset0);
                      limit1 = (if limit0 < 1 then 1 else limit0);
                      limit = (if limit1 > READ_MAX_LIMIT then READ_MAX_LIMIT else limit1) in
                  case tool_path_resolve fs cwd (Some path) True PATH_MAX of
                    None \<Rightarrow> tool_error ''error: path must stay inside the workspace''
                  | Some full \<Rightarrow>
                      (case open_read full of
                         Inl e \<Rightarrow> tool_error (''error: cannot open '' @ full @ '': '' @ strerror e)
                       | Inr data \<Rightarrow> read_text offset limit data))))"

section \<open>What an edit does\<close>

lemma take_c_str_match:
  assumes "take (length needle) (drop j (c_str data)) = needle" and "needle \<noteq> []"
  shows "data = take j data @ needle @ drop (j + length needle) data \<and> j \<le> length data"
proof -
  have "\<exists>rest. data = c_str data @ rest" unfolding c_str_def by (metis takeWhile_dropWhile_id)
  then obtain rest where d: "data = c_str data @ rest" by blast
  have "length (take (length needle) (drop j (c_str data))) = length needle" by (simp only: assms(1))
  then have "length needle \<le> length (c_str data) - j" by simp
  with assms(2) have "j + length needle \<le> length (c_str data)" by (cases needle) auto
  then have "take (length needle) (drop j data) = needle" using assms(1) by (subst d) simp
  then have "data = take j data @ needle @ drop (j + length needle) data" by (metis add.commute append_take_drop_id drop_drop)
  moreover have "j \<le> length data" using \<open>j + length needle \<le> length (c_str data)\<close> by (subst d) simp
  ultimately show ?thesis by blast
qed

lemma match_offsets_sound:
  "h \<in> set (match_offsets hay needle p) \<Longrightarrow> p \<le> h \<and> take (length needle) (drop h hay) = needle"
proof (induction hay needle p rule: match_offsets.induct)
  case (1 hay needle p)
  from "1.prems" have ne: "needle \<noteq> []" by (auto simp: match_offsets.simps [of hay needle p])
  with "1.prems" obtain k where k: "strstr (drop p hay) needle = Some k"
    by (cases "strstr (drop p hay) needle") (auto simp: match_offsets.simps [of hay needle p])
  with ne "1.prems" have h: "h = p + k \<or> h \<in> set (match_offsets hay needle (p + k + length needle))"
    by (simp add: match_offsets.simps [of hay needle p])
  have "take (length needle) (drop (p + k) hay) = needle" using strstr_some [OF k] by (simp add: add.commute)
  moreover have "p + k + length needle \<le> h \<and> take (length needle) (drop h hay) = needle"
    if "h \<in> set (match_offsets hay needle (p + k + length needle))"
    using "1.IH" [OF ne k that] .
  ultimately show ?case using h by auto
qed

text \<open>An occurrence the loop does not report overlaps one that it does.\<close>

lemma match_offsets_complete:
  assumes "needle \<noteq> []" and "p \<le> j" and "take (length needle) (drop j hay) = needle"
  shows "\<exists>h\<in>set (match_offsets hay needle p). h \<le> j \<and> j < h + length needle"
  using assms
proof (induction hay needle p rule: match_offsets.induct)
  case (1 hay needle p)
  have "take (length needle) (drop (j - p) (drop p hay)) = needle" using "1.prems"(2,3) by simp
  with strstr_none obtain k where k: "strstr (drop p hay) needle = Some k" by (metis option.exhaust)
  have eq: "match_offsets hay needle p = (p + k) # match_offsets hay needle (p + k + length needle)"
    using "1.prems"(1) k by (simp add: match_offsets.simps [of hay needle p])
  have le: "p + k \<le> j"
  proof (rule ccontr)
    assume "\<not> p + k \<le> j"
    then have "j - p < k" using "1.prems"(2) by simp
    with strstr_some [OF k] have "take (length needle) (drop (j - p) (drop p hay)) \<noteq> needle" by blast
    with "1.prems"(2,3) show False by simp
  qed
  show ?case
  proof (cases "j < p + k + length needle")
    case True
    with le show ?thesis by (simp add: eq)
  next
    case False
    then have "p + k + length needle \<le> j" by simp
    from "1.IH" [OF "1.prems"(1) k "1.prems"(1) this "1.prems"(3)] show ?thesis by (auto simp: eq)
  qed
qed

lemma edit_tmp_longer:
  assumes "length full < PATH_MAX"
  shows "\<exists>rest. rest \<noteq> [] \<and> edit_tmp_path io full = full @ rest"
proof (intro exI conjI)
  let ?rest = "take (PATH_MAX + 8 - 1 - length full) (''.tmp'' @ ei_pid io)"
  show "edit_tmp_path io full = full @ ?rest" using assms by (simp add: edit_tmp_path_def PATH_MAX_def)
  show "?rest \<noteq> []" using assms by (simp add: PATH_MAX_def)
qed

text \<open>What a failed and what a completed edit leave behind.\<close>

definition files_after_failure :: "edit_io \<Rightarrow> string \<Rightarrow> string option \<Rightarrow> files \<Rightarrow> files" where
  "files_after_failure io full c files =
     (case ei_link io of None \<Rightarrow> files(edit_tmp_path io full := None) | Some target \<Rightarrow> files(target := c))"

definition files_after_edit :: "edit_io \<Rightarrow> string \<Rightarrow> string \<Rightarrow> files \<Rightarrow> files" where
  "files_after_edit io full out files =
     (case ei_link io of
        None \<Rightarrow> (files(edit_tmp_path io full := None))(full := Some out)
      | Some target \<Rightarrow> (files(target := Some out))(full := if target = full then None else Some out))"

lemma edit_commit_cases:
  "edit_commit io full out old_text new_text files = (res, files') \<Longrightarrow>
   (tr_is_error res \<and> (files' = files \<or> (\<exists>c. files' = files_after_failure io full c files))) \<or>
   (\<not> tr_is_error res \<and> files' = files_after_edit io full out files)"
  by (cases "ei_link io")
    (auto simp: edit_commit_def Let_def tool_error_def tool_text_def tmp_target_def unlink_tmp_def rename_tmp_def
      files_after_failure_def files_after_edit_def split: option.splits if_splits)

lemma edit_apply_cases:
  assumes "edit_apply io full old_text new_text files = (res, files')"
  shows "(tr_is_error res \<and> (files' = files \<or>
            (\<exists>c n. files' = files_after_failure io full c files \<and> match_offsets (c_str (edit_data io files full n)) old_text 0 \<noteq> []))) \<or>
         (\<not> tr_is_error res \<and> (\<exists>hit n. ei_stat io = Inr n \<and> match_offsets (c_str (edit_data io files full n)) old_text 0 = [hit] \<and>
            files' = files_after_edit io full (edit_output io (edit_data io files full n) hit (length old_text) new_text) files))"
proof (cases "ei_stat io")
  case (Inl e)
  with assms show ?thesis by (auto simp: edit_apply_def tool_error_def)
next
  case (Inr n)
  let ?hits = "match_offsets (c_str (edit_data io files full n)) old_text 0"
  show ?thesis
  proof (cases "\<exists>hit. ?hits = [hit]")
    case True
    then obtain hit where h: "?hits = [hit]" by blast
    with assms Inr edit_commit_cases show ?thesis
      by (fastforce simp: edit_apply_def Let_def tool_error_def split: option.splits if_splits)
  next
    case False
    then have "?hits = [] \<or> 1 < length ?hits" by (cases ?hits; cases "tl ?hits") auto
    with assms Inr show ?thesis
      by (auto simp: edit_apply_def Let_def tool_error_def split: option.splits if_splits)
  qed
qed

lemma edit_execute_cases:
  assumes "edit_execute read fs io cwd arguments files = (rc, res, files')"
  shows "rc = AGENT_OK \<and>
     ((tr_is_error res \<and> files' = files) \<or>
      (\<exists>root path old_text new_text full. json_parse read arguments = Some root \<and> arg_str root ''path'' = Some path \<and>
         arg_str root ''old_text'' = Some old_text \<and> arg_str root ''new_text'' = Some new_text \<and> old_text \<noteq> [] \<and>
         tool_path_resolve fs cwd (Some path) True PATH_MAX = Some full \<and>
         edit_apply io full old_text new_text files = (res, files')))"
  using assms
  by (auto simp: edit_execute_def tool_error_def split: option.splits if_splits)

text \<open>C35: an edit replaces the one match.  When the tool reports success, the file held one occurrence of
  \<open>old_text\<close> that is now \<open>new_text\<close>, everything before and after it is as it was, every other
  occurrence in the text part of the file overlaps the replaced one, and no other file but the temporary one and
  what a link under its name leads to is touched.  This needs what the code does not check: that the whole file was read and that the
  three appends of the new contents succeeded; and no link from the temporary name to the file itself.\<close>

theorem edit_replaces_match:
  assumes "edit_execute read fs io cwd arguments files = (rc, res, files')" and "\<not> tr_is_error res"
    and "json_parse read arguments = Some root" and "arg_str root ''path'' = Some path"
    and "arg_str root ''old_text'' = Some old_text" and "arg_str root ''new_text'' = Some new_text"
    and "tool_path_resolve fs cwd (Some path) True PATH_MAX = Some full"
    and "files full = Some contents" and "ei_stat io = Inr (length contents)" and "length contents \<le> ei_got io"
    and "ei_append_before io" and "ei_append_new io" and "ei_append_after io" and "ei_link io \<noteq> Some full"
  shows "\<exists>before after. contents = before @ old_text @ after \<and> files' full = Some (before @ new_text @ after) \<and>
     (\<forall>p. p \<noteq> full \<and> p \<noteq> edit_tmp_path io full \<and> ei_link io \<noteq> Some p \<longrightarrow> files' p = files p) \<and>
     (\<forall>j. take (length old_text) (drop j (c_str contents)) = old_text \<longrightarrow>
        length before \<le> j \<and> j < length before + length old_text)"
proof -
  have d: "edit_data io files full (length contents) = contents" using assms(8,10) by (simp add: edit_data_def)
  from edit_execute_cases [OF assms(1)] assms(2-7) have a: "old_text \<noteq> []" "edit_apply io full old_text new_text files = (res, files')"
    by auto
  from edit_apply_cases [OF a(2)] assms(2,9) d obtain hit where h: "match_offsets (c_str contents) old_text 0 = [hit]"
    "files' = files_after_edit io full (edit_output io contents hit (length old_text) new_text) files" by auto
  have m: "take (length old_text) (drop hit (c_str contents)) = old_text"
    using match_offsets_sound [of hit "c_str contents" old_text 0] h(1) by simp
  note sp = take_c_str_match [OF m a(1)]
  then have lb: "length (take hit contents) = hit" by simp
  have out: "edit_output io contents hit (length old_text) new_text = take hit contents @ new_text @ drop (hit + length old_text) contents"
    using assms(11-13) by (simp add: edit_output_def)
  have "hit \<le> j \<and> j < hit + length old_text" if "take (length old_text) (drop j (c_str contents)) = old_text" for j
    using match_offsets_complete [OF a(1) _ that, of 0] h(1) by auto
  moreover have "files' full = Some (take hit contents @ new_text @ drop (hit + length old_text) contents)"
    using h(2) out assms(14) by (auto simp: files_after_edit_def split: option.split)
  moreover have "files' p = files p" if "p \<noteq> full" "p \<noteq> edit_tmp_path io full" "ei_link io \<noteq> Some p" for p
    using that h(2) by (auto simp: files_after_edit_def split: option.split)
  ultimately show ?thesis using sp lb by (intro exI [of _ "take hit contents"] exI [of _ "drop (hit + length old_text) contents"]) auto
qed

text \<open>A file system with one directory, a reader that knows one request, calls that all succeed.\<close>

definition edit_request :: "string \<Rightarrow> string \<Rightarrow> json" where
  "edit_request old_text new_text =
     JObj [(''path'', JStr ''f''), (''old_text'', JStr old_text), (''new_text'', JStr new_text)]"

definition flat_fs :: file_system where
  "flat_fs = \<lparr>fs_realpath = (\<lambda>p. Inr p), fs_lstat = (\<lambda>_. None)\<rparr>"

definition smooth_io :: "string \<Rightarrow> nat \<Rightarrow> edit_io" where
  "smooth_io data written = \<lparr>ei_stat = Inr (length data), ei_open = None, ei_malloc = True, ei_got = length data,
     ei_append_before = True, ei_append_new = True, ei_append_after = True, ei_tmp = None, ei_link = None, ei_chmod = None,
     ei_written = written, ei_left = [], ei_close = True, ei_rename = True, ei_commit_errno = 0, ei_pid = ''7'',
     ei_strerror = (\<lambda>_. []), ei_mebibytes = (\<lambda>_. [])\<rparr>"

definition one_file :: "string \<Rightarrow> files" where
  "one_file data = [''/w/f'' \<mapsto> data]"

lemma smooth_edit:
  assumes "match_offsets (c_str data) old_text 0 = [hit]" and "old_text \<noteq> []" and "no_nul old_text" and "no_nul new_text"
    and "length data \<le> EDIT_MAX_FILE"
  shows "edit_execute (\<lambda>_. Some (edit_request old_text new_text)) flat_fs (smooth_io data written) (Some ''/w'') ''q'' (one_file data) =
     (AGENT_OK, edit_commit (smooth_io data written)
        ''/w/f'' (take hit data @ new_text @ drop (hit + length old_text) data) old_text new_text (one_file data))"
proof -
  have r: "tool_path_resolve flat_fs (Some ''/w'') (Some ''f'') True PATH_MAX = Some ''/w/f''" by code_simp
  have a: "arg_str (edit_request old_text new_text) ''path'' = Some ''f''"
    "arg_str (edit_request old_text new_text) ''old_text'' = Some old_text"
    "arg_str (edit_request old_text new_text) ''new_text'' = Some new_text"
    using assms(3,4) by (simp_all add: arg_str_def edit_request_def json_simps c_str_simps no_nul_def)
  have d: "edit_data (smooth_io data written) (one_file data) ''/w/f'' (length data) = data"
    by (simp add: edit_data_def smooth_io_def one_file_def)
  have i: "ei_stat (smooth_io data written) = Inr (length data)" "ei_open (smooth_io data written) = None" "ei_malloc (smooth_io data written)"
    "ei_append_before (smooth_io data written)" "ei_append_new (smooth_io data written)" "ei_append_after (smooth_io data written)"
    by (simp_all add: smooth_io_def)
  show ?thesis
    using assms(1,2,5) by (simp add: edit_execute_def json_parse_def a r edit_apply_def d i edit_output_def Let_def)
qed

lemma abc_args:
  "arg_str (edit_request ''b'' ''xy'') ''path'' = Some ''f''" "arg_str (edit_request ''b'' ''xy'') ''old_text'' = Some ''b''"
  "arg_str (edit_request ''b'' ''xy'') ''new_text'' = Some ''xy''"
  "tool_path_resolve flat_fs (Some ''/w'') (Some ''f'') True PATH_MAX = Some ''/w/f''"
  "match_offsets (c_str ''abc'') ''b'' 0 = [1]"
  by code_simp+

lemma abc_edit:
  "edit_execute (\<lambda>_. Some (edit_request ''b'' ''xy'')) flat_fs (smooth_io ''abc'' n) (Some ''/w'') ''q'' (one_file ''abc'') =
     (AGENT_OK, edit_commit (smooth_io ''abc'' n) ''/w/f'' ''axyc'' ''b'' ''xy'' (one_file ''abc''))"
  using smooth_edit [OF abc_args(5), of "''xy''" n] by (simp add: no_nul_def EDIT_MAX_FILE_def)

theorem edit_replaces_match_witness:
  "\<exists>res files'. edit_execute (\<lambda>_. Some (edit_request ''b'' ''xy'')) flat_fs (smooth_io ''abc'' 4) (Some ''/w'') ''q'' (one_file ''abc'') =
       (AGENT_OK, res, files') \<and> one_file ''abc'' ''/w/f'' = Some ''abc'' \<and> files' ''/w/f'' = Some ''axyc''"
proof -
  obtain res files' where e: "edit_execute (\<lambda>_. Some (edit_request ''b'' ''xy'')) flat_fs (smooth_io ''abc'' 4) (Some ''/w'') ''q'' (one_file ''abc'') =
       (AGENT_OK, res, files')" "\<not> tr_is_error res"
    by (simp add: abc_edit edit_commit_def) (simp add: tool_text_def smooth_io_def Let_def)
  have i: "one_file ''abc'' ''/w/f'' = Some ''abc''" "ei_stat (smooth_io ''abc'' 4) = Inr (length ''abc'')"
    "length ''abc'' \<le> ei_got (smooth_io ''abc'' 4)" "ei_append_before (smooth_io ''abc'' 4)" "ei_append_new (smooth_io ''abc'' 4)"
    "ei_append_after (smooth_io ''abc'' 4)" "ei_link (smooth_io ''abc'' 4) \<noteq> Some ''/w/f''"
    by (simp_all add: smooth_io_def one_file_def)
  from edit_replaces_match [OF e _ abc_args(1-4) i] obtain before after where
    b: "''abc'' = before @ ''b'' @ after" "files' ''/w/f'' = Some (before @ ''xy'' @ after)"
    by (auto simp: json_parse_def)
  from b(1) have "before = ''a''" by (cases before; cases "tl before"; cases "tl (tl before)"; auto)
  with b e i(1) show ?thesis by auto
qed

text \<open>C36: a failed edit loses nothing. When the tool reports an error, whatever call failed, every file other than
  its temporary one is exactly as it was; in particular the edited file is, since the temporary
  name is always another one.  Only a symbolic link that waits under the temporary name makes it touch another file, the one the link
  leads to.\<close>

theorem edit_failure_keeps_files:
  assumes "edit_execute read fs io cwd arguments files = (rc, res, files')" and "tr_is_error res"
  shows "files' = files \<or>
         (\<exists>root path full c. json_parse read arguments = Some root \<and> arg_str root ''path'' = Some path \<and>
            tool_path_resolve fs cwd (Some path) True PATH_MAX = Some full \<and>
            edit_tmp_path io full \<noteq> full \<and>
            files' = (case ei_link io of None \<Rightarrow> files(edit_tmp_path io full := None) | Some target \<Rightarrow> files(target := c)))"
proof -
  from edit_execute_cases [OF assms(1)] show ?thesis
  proof (elim conjE disjE exE)
    fix root path old_text new_text full
    assume p: "json_parse read arguments = Some root" "arg_str root ''path'' = Some path"
      "tool_path_resolve fs cwd (Some path) True PATH_MAX = Some full"
      and a: "edit_apply io full old_text new_text files = (res, files')"
    from path_resolve_length [OF p(3)] edit_tmp_longer [of full io] have "edit_tmp_path io full \<noteq> full" by auto
    with edit_apply_cases [OF a] assms(2) p show ?thesis unfolding files_after_failure_def by blast
  qed simp
qed

theorem edit_failure_keeps_files_witness:
  "\<exists>res files'. edit_execute (\<lambda>_. Some (edit_request ''b'' ''xy'')) flat_fs (smooth_io ''abc'' 3) (Some ''/w'') ''q'' (one_file ''abc'') =
       (AGENT_OK, res, files') \<and> tr_is_error res \<and> files' ''/w/f'' = Some ''abc''"
proof -
  obtain res files' where e: "edit_execute (\<lambda>_. Some (edit_request ''b'' ''xy'')) flat_fs (smooth_io ''abc'' 3) (Some ''/w'') ''q'' (one_file ''abc'') =
       (AGENT_OK, res, files')" "tr_is_error res"
    by (simp add: abc_edit edit_commit_def) (simp add: tool_error_def smooth_io_def Let_def)
  have "ei_link (smooth_io ''abc'' 3) = None" by (simp add: smooth_io_def)
  with edit_failure_keeps_files [OF e] have "files' ''/w/f'' = Some ''abc''"
    by (auto simp: json_parse_def abc_args one_file_def)
  with e show ?thesis by blast
qed

text \<open>C34: the tools stay in the workspace, but for one way out. Every file an edit or a write changes, creates or removes lies inside
  the resolved workspace directory, or it is the file to which a symbolic link leads that waits under the predictable name of the temporary file
  of the edit. (The workspace directory itself is not a file.)\<close>

theorem file_tools_confined:
  assumes "fs_realpath fs dir = Inr ws"
    and "edit_execute read fs io (Some dir) arguments files = (rc, res, files') \<or>
         write_execute read fs wio (Some dir) arguments files = (rc, res, files')"
    and "files ws = None"
    and "files' p \<noteq> files p"
  shows "inside_root ws p \<or>
    (ei_link io = Some p \<and> edit_execute read fs io (Some dir) arguments files = (rc, res, files'))"
  using assms(2)
proof
  assume e: "edit_execute read fs io (Some dir) arguments files = (rc, res, files')"
  from edit_execute_cases [OF e] assms(4) obtain root path old_text new_text full where
    a: "arg_str root ''path'' = Some path" "old_text \<noteq> []" "tool_path_resolve fs (Some dir) (Some path) True PATH_MAX = Some full"
      "edit_apply io full old_text new_text files = (res, files')" by auto
  have full: "inside_root ws full" by (rule path_resolve_inside [OF a(3) assms(1)])
  from edit_apply_cases [OF a(4)] assms(4) have p: "p = edit_tmp_path io full \<or> p = full \<or> ei_link io = Some p"
    by (auto simp: files_after_failure_def files_after_edit_def split: if_splits option.splits)
  obtain rest where tmp: "edit_tmp_path io full = full @ rest"
    using edit_tmp_longer [OF path_resolve_length [OF a(3)], of io] by blast
  have "full \<noteq> ws"
  proof
    assume "full = ws"
    with assms(3) have "edit_data io files full n = []" for n by (simp add: edit_data_def)
    then have "match_offsets (c_str (edit_data io files full n)) old_text 0 = []" for n
      using a(2) by (simp add: c_str_def match_offsets.simps strstr.simps)
    with edit_apply_cases [OF a(4)] assms(4) show False by auto
  qed
  with full have "inside_root ws (full @ rest)" by (auto simp: inside_root_def nth_append)
  with p full tmp e show ?thesis by auto
next
  assume w: "write_execute read fs wio (Some dir) arguments files = (rc, res, files')"
  with assms(4) obtain path full where r: "tool_path_resolve fs (Some dir) path True PATH_MAX = Some full" "p = full"
    by (auto simp: write_execute_def split: option.splits if_splits)
  from path_resolve_inside [OF r(1) assms(1)] r(2) show ?thesis by simp
qed

theorem file_tools_confined_witness:
  "\<exists>res files'. write_execute (\<lambda>_. Some (JObj [(''path'', JStr ''f''), (''content'', JStr ''hi'')])) flat_fs
       \<lparr>wi_open = None, wi_written = 2, wi_close = True, wi_left = [], wi_errno = 0, wi_strerror = (\<lambda>_. [])\<rparr>
       (Some ''/w'') ''q'' Map.empty = (AGENT_OK, res, files') \<and> files' ''/w/f'' = Some ''hi'' \<and> inside_root ''/w'' ''/w/f''"
proof -
  let ?r = "\<lambda>_. Some (JObj [(''path'', JStr ''f''), (''content'', JStr ''hi'')])"
  let ?io = "\<lparr>wi_open = None, wi_written = 2, wi_close = True, wi_left = [], wi_errno = 0, wi_strerror = (\<lambda>_. [])\<rparr>"
  have r: "tool_path_resolve flat_fs (Some ''/w'') (Some ''f'') True PATH_MAX = Some ''/w/f''" by code_simp
  have a: "arg_str (JObj [(''path'', JStr ''f''), (''content'', JStr ''hi'')]) ''path'' = Some ''f''"
    "arg_str (JObj [(''path'', JStr ''f''), (''content'', JStr ''hi'')]) ''content'' = Some ''hi''" by code_simp+
  obtain res files' where w: "write_execute ?r flat_fs ?io (Some ''/w'') ''q'' Map.empty = (AGENT_OK, res, files')"
    "files' ''/w/f'' = Some ''hi''"
    by (simp add: write_execute_def json_parse_def a r eval_nat_numeral)
  have root: "fs_realpath flat_fs ''/w'' = Inr ''/w''" by (simp add: flat_fs_def)
  have l: "ei_link (smooth_io [] 0) = None" by (simp add: smooth_io_def)
  from file_tools_confined [OF root disjI2 [OF w(1)], of "''/w/f''" "smooth_io [] 0"] w(2) l
  have "inside_root ''/w'' ''/w/f''" by simp
  with w show ?thesis by blast
qed

text \<open>Five ways an edit is not what the tool says it is: a short read and an append that fails silently lose the tail of
  the file, a link under the temporary name sends the new contents to another file, a match that overlaps itself is not counted,
  and a replacement that shortens the file is reported with a size near \<open>2 ^ 64\<close>.\<close>

definition commits :: "edit_io \<Rightarrow> string \<Rightarrow> bool" where
  "commits io out \<longleftrightarrow> ei_open io = None \<and> ei_malloc io \<and> ei_tmp io = None \<and> ei_chmod io = None \<and> ei_close io \<and> ei_rename io \<and>
     ei_written io = length out"

lemma edit_commits:
  assumes "match_offsets (c_str (edit_data io files full n)) old_text 0 = [hit]" and "ei_stat io = Inr n" and "n \<le> EDIT_MAX_FILE"
    and "commits io (edit_output io (edit_data io files full n) hit (length old_text) new_text)"
  shows "\<exists>res files'. edit_apply io full old_text new_text files = (res, files') \<and> \<not> tr_is_error res \<and>
     files' = files_after_edit io full (edit_output io (edit_data io files full n) hit (length old_text) new_text) files"
  using assms
  by (cases "ei_link io")
    (auto simp: edit_apply_def edit_commit_def commits_def tool_text_def tmp_target_def rename_tmp_def files_after_edit_def Let_def)

lemma edit_drops_tail:
  assumes "match_offsets (c_str (edit_data io files full n)) old_text 0 = [hit]" and "ei_stat io = Inr n" and "n \<le> EDIT_MAX_FILE"
    and "ei_append_before io" and "ei_append_new io" and "\<not> ei_append_after io" and "ei_link io = None"
    and "commits io (take hit (edit_data io files full n) @ new_text)"
  shows "\<exists>res files'. edit_apply io full old_text new_text files = (res, files') \<and> \<not> tr_is_error res \<and>
     files' full = Some (take hit (edit_data io files full n) @ new_text)"
proof -
  have "edit_output io (edit_data io files full n) hit (length old_text) new_text = take hit (edit_data io files full n) @ new_text"
    using assms(4-6) by (simp add: edit_output_def)
  with edit_commits [OF assms(1-3), of new_text] assms(7,8) show ?thesis by (fastforce simp: files_after_edit_def)
qed

lemma edit_short_read:
  assumes "files full = Some contents" and "ei_got io < length contents" and "ei_stat io = Inr (length contents)"
    and "length contents \<le> EDIT_MAX_FILE" and "match_offsets (c_str (take (ei_got io) contents)) old_text 0 = [hit]"
    and "ei_append_before io" and "ei_append_new io" and "ei_append_after io" and "ei_link io = None"
    and "commits io (take hit contents @ new_text @ drop (hit + length old_text) (take (ei_got io) contents))" and "hit \<le> ei_got io"
  shows "\<exists>res files'. edit_apply io full old_text new_text files = (res, files') \<and> \<not> tr_is_error res \<and>
     files' full = Some (take hit contents @ new_text @ drop (hit + length old_text) (take (ei_got io) contents))"
proof -
  have d: "edit_data io files full (length contents) = take (ei_got io) contents" using assms(1,2) by (simp add: edit_data_def)
  have o: "edit_output io (take (ei_got io) contents) hit (length old_text) new_text =
      take hit contents @ new_text @ drop (hit + length old_text) (take (ei_got io) contents)"
    using assms(6-8,11) by (simp add: edit_output_def)
  from edit_commits [of io files full "length contents" old_text hit new_text] assms(3-5,9,10) show ?thesis
    unfolding d o by (fastforce simp: files_after_edit_def)
qed

lemma edit_follows_link:
  assumes "match_offsets (c_str (edit_data io files full n)) old_text 0 = [hit]" and "ei_stat io = Inr n" and "n \<le> EDIT_MAX_FILE"
    and "commits io (edit_output io (edit_data io files full n) hit (length old_text) new_text)" and "ei_link io = Some target" and "target \<noteq> full"
  shows "\<exists>res files'. edit_apply io full old_text new_text files = (res, files') \<and> \<not> tr_is_error res \<and>
     files' target = Some (edit_output io (edit_data io files full n) hit (length old_text) new_text)"
  using edit_commits [OF assms(1-4)] assms(5,6) by (fastforce simp: files_after_edit_def)

lemma edit_overlap_not_counted:
  "match_offsets ''aaa'' ''aa'' 0 = [0] \<and> take 2 (drop 0 ''aaa'') = ''aa'' \<and> take 2 (drop 1 ''aaa'') = ''aa''"
  by code_simp

lemma edit_shrink_message:
  assumes "length new_text < length old_text" and "length old_text \<le> SIZE_MAX"
    and "edit_commit io full out old_text new_text files = (res, files')" and "\<not> tr_is_error res"
  shows "tr_content res = Some (''edited '' @ full @ '': replaced 1 occurrence ('' @
     show_nat (2 ^ 64 - (length old_text - length new_text)) @ '' bytes)'')"
  using assms size_sub_wraps [OF assms(1,2)]
  by (auto simp: edit_commit_def tool_error_def tool_text_def Let_def split: option.splits if_splits)

section \<open>What a read shows\<close>

fun numbered :: "nat \<Rightarrow> string list \<Rightarrow> string" where
  "numbered i [] = []"
| "numbered i (l # ls) = ''L'' @ show_nat i @ '': '' @ l @ [newline] @ numbered (Suc i) ls"

definition short_line :: "string \<Rightarrow> bool" where
  "short_line l \<longleftrightarrow> newline \<notin> set l \<and> no_nul l \<and> length l + 1 < READ_LINE_MAX"

lemma fgets_short:
  assumes "short_line l"
  shows "fgets_line (l @ newline # rest) = l @ [newline]"
proof -
  have tw: "takeWhile (\<lambda>ch. ch \<noteq> newline) (l @ newline # x) = l" for x
    using assms by (induction l) (auto simp: short_line_def no_nul_def)
  have "take (READ_LINE_MAX - 1) (l @ newline # rest) = l @ newline # take (READ_LINE_MAX - 2 - length l) rest"
    using assms by (simp add: short_line_def take_Cons' READ_LINE_MAX_def)
  then show ?thesis by (simp add: fgets_line_def Let_def tw)
qed

lemma short_not_binary:
  assumes "list_all short_line ls"
  shows "\<not> check_binary (join_lines ls)"
proof -
  have "CHR 0x00 \<notin> set (join_lines ls)" using assms by (auto simp: join_lines_def list_all_iff short_line_def no_nul_def)
  then show ?thesis by (auto simp: check_binary_def dest: in_set_takeD)
qed

lemma read_lines_slice:
  assumes "list_all short_line ls" and "0 \<le> lineno" and "0 \<le> emitted" and "emitted \<le> limit"
  shows "read_lines offset limit (join_lines ls) lineno emitted out =
     (let k = nat (offset - 1 - lineno); n = nat (limit - emitted); shown = take n (drop k ls) in
      (out @ numbered (nat lineno + k + 1) shown,
       lineno + (if k + n < length ls then int (k + n) + 1 else int (length ls)),
       emitted + int (length shown), k + n < length ls))"
  using assms
proof (induction ls arbitrary: lineno emitted out)
  case Nil
  then show ?case by (simp add: join_lines_def read_lines.simps)
next
  case (Cons l ls)
  let ?data = "join_lines (l # ls)"
  have d: "?data = l @ newline # join_lines ls" by (simp add: join_lines_def)
  have l: "short_line l" using Cons.prems(1) by simp
  have g: "fgets_line ?data = l @ [newline]" unfolding d by (rule fgets_short [OF l])
  have "no_nul (l @ [newline])" using l by (auto simp: short_line_def no_nul_def)
  then have cs: "c_str (l @ [newline]) = l @ [newline]" by (rule c_str_id)
  have step: "read_lines offset limit ?data lineno emitted out =
     (if lineno + 1 < offset then read_lines offset limit (join_lines ls) (lineno + 1) emitted out
      else if emitted \<ge> limit then (out, lineno + 1, emitted, True)
      else read_lines offset limit (join_lines ls) (lineno + 1) (emitted + 1)
             (out @ ''L'' @ show_nat (nat (lineno + 1)) @ '': '' @ l @ [newline]))"
    unfolding read_lines.simps [of offset limit ?data] Let_def g cs
    by (simp add: d)
  consider (skip) "lineno + 1 < offset" | (stop) "\<not> lineno + 1 < offset" "emitted \<ge> limit"
    | (show_) "\<not> lineno + 1 < offset" "\<not> emitted \<ge> limit" by blast
  then show ?case
  proof cases
    case skip
    then have k: "nat (offset - 1 - lineno) = Suc (nat (offset - 1 - (lineno + 1)))" by simp
    have b: "nat (lineno + 1) + nat (offset - 1 - (lineno + 1)) + 1 = nat lineno + Suc (nat (offset - 1 - (lineno + 1))) + 1"
      using Cons.prems(2) by simp
    from skip Cons.IH [of "lineno + 1" emitted out] Cons.prems show ?thesis
      unfolding step k Let_def b by simp
  next
    case stop
    with Cons.prems show ?thesis unfolding step by (simp add: Let_def)
  next
    case show_
    then have k: "nat (offset - 1 - lineno) = 0" "nat (offset - 1 - (lineno + 1)) = 0"
      and n: "nat (limit - emitted) = Suc (nat (limit - (emitted + 1)))" by simp_all
    from show_ Cons.IH [of "lineno + 1" "emitted + 1"] Cons.prems show ?thesis
      unfolding step n Let_def k by (simp add: nat_add_distrib)
  qed
qed

text \<open>A read shows the lines asked for. For a text file whose lines fit the buffer, the result is exactly the
  requested slice, each line with its number, and the note about more lines appears precisely when
  there are more; a slice that starts beyond the end has no content at all.\<close>

theorem read_shows_slice:
  assumes "list_all short_line ls" and "ls \<noteq> []" and "1 \<le> offset" and "1 \<le> limit"
  shows "read_text offset limit (join_lines ls) =
     (let k = nat (offset - 1); n = nat limit in
      \<lparr>tr_content = taken (numbered (k + 1) (take n (drop k ls)) @
          (if k + n < length ls then ''...[file has more lines; use offset/limit to read further]\<newline>'' else [])),
       tr_is_error = False\<rparr>)"
proof -
  note short_not_binary [OF assms(1)]
  with read_lines_slice [OF assms(1), of 0 0 limit offset "[]"] assms(2-4) show ?thesis
    by (auto simp: read_text_def Let_def)
qed

theorem read_shows_slice_witness:
  "tr_content (read_text 2 1 (join_lines [''a'', ''b'', ''c''])) =
     Some (''L2: b\<newline>...[file has more lines; use offset/limit to read further]\<newline>'')"
proof -
  have "show_nat (Suc (Suc 0)) = ''2''" by code_simp
  with read_shows_slice [of "[''a'', ''b'', ''c'']" 2 1] show ?thesis
    by (simp add: short_line_def READ_LINE_MAX_def no_nul_def Let_def taken_def)
qed

text \<open>A slice beyond the end is not an empty answer but no answer, which the agent loop reports as
  "tool returned no result".\<close>

lemma read_past_end:
  assumes "list_all short_line ls" and "ls \<noteq> []" and "int (length ls) < offset" and "1 \<le> limit"
  shows "tr_content (read_text offset limit (join_lines ls)) = None"
proof -
  have lt: "length ls \<le> nat (offset - 1)" and "1 \<le> offset" using assms(2,3) by (cases ls; simp)+
  with short_not_binary [OF assms(1)] read_lines_slice [OF assms(1), of 0 0 limit offset "[]"] assms(2,4) show ?thesis
    by (auto simp: read_text_def Let_def taken_def)
qed

end
