(* ===== verification/Sse.thy ===== *)
theory Sse
  imports Prelude
begin

text \<open>
  The parser of server-sent event streams, \<open>src/src/model/stream.c\<close>.  The callback is a list of
  the events it received.  \<open>sse_mem\<close> holds the outcomes of the two allocations of a call:
  growing the buffer of unparsed bytes and growing the payload of the current event.
\<close>

section \<open>The parser\<close>

datatype sse_event = Sse_Data string | Sse_Done string

record sse_parser =
  p_pending :: string
  p_event_data :: string
  p_have_event :: bool
  p_done :: bool

record sse_mem =
  ok_pending :: bool
  ok_payload :: bool

definition sse_ok :: sse_mem where
  "sse_ok = \<lparr>ok_pending = True, ok_payload = True\<rparr>"

definition SSE_MAX_LINE_BYTES :: nat where
  "SSE_MAX_LINE_BYTES = 1024 * 1024"

definition sse_parser_new :: sse_parser where
  "sse_parser_new = \<lparr>p_pending = [], p_event_data = [], p_have_event = False, p_done = False\<rparr>"

definition sse_flush_event :: "sse_parser \<Rightarrow> sse_event list \<times> sse_parser" where
  "sse_flush_event p =
     (if p_have_event p then ([Sse_Data (p_event_data p)], p\<lparr>p_event_data := [], p_have_event := False\<rparr>)
      else ([], p))"

definition strip_cr :: "string \<Rightarrow> string" where
  "strip_cr line = (if line \<noteq> [] \<and> last line = CHR 0x0D then butlast line else line)"

definition field_value :: "string \<Rightarrow> string" where
  "field_value line = (let v = drop 5 line in if v \<noteq> [] \<and> hd v = CHR '' '' then tl v else v)"

definition sse_process_line :: "sse_mem \<Rightarrow> sse_parser \<Rightarrow> string \<Rightarrow> sse_event list \<times> sse_parser" where
  "sse_process_line mem p line0 =
     (let line = strip_cr line0 in
      if line = [] then sse_flush_event p
      else if length line < 5 \<or> take 5 line \<noteq> ''data:'' then ([], p)
      else
        (let value = field_value line in
         if \<not> p_have_event p \<and> value = ''[DONE]'' then
           (let (evs, p1) = sse_flush_event (p\<lparr>p_done := True\<rparr>) in
            (evs @ [Sse_Done (p_event_data p1)], p1))
         else if value \<noteq> [] \<and> \<not> ok_payload mem then ([], p\<lparr>p_done := True\<rparr>)
         else ([], p\<lparr>p_event_data := p_event_data p @ value, p_have_event := True\<rparr>)))"

text \<open>The loop of \<open>sse_parser_feed\<close> over the buffered bytes.\<close>

function sse_drain :: "sse_mem \<Rightarrow> sse_parser \<Rightarrow> agent_error \<times> sse_event list \<times> sse_parser" where
  "sse_drain mem p =
     (if p_pending p = [] then (AGENT_OK, [], p)
      else if CHR 0x0A \<notin> set (p_pending p) then
        (if length (p_pending p) > SSE_MAX_LINE_BYTES then AGENT_ERR_IO else AGENT_OK, [], p)
      else
        (let line = takeWhile (\<lambda>ch. ch \<noteq> CHR 0x0A) (p_pending p);
             (evs, p1) = sse_process_line mem p line in
         if p_done p1 then (AGENT_OK, evs, p1\<lparr>p_pending := []\<rparr>)
         else
           (let (rc, evs', p2) = sse_drain mem (p1\<lparr>p_pending := drop (length line + 1) (p_pending p)\<rparr>) in
            (rc, evs @ evs', p2))))"
  by pat_completeness auto
termination
  by (relation "measure (\<lambda>(mem, p). length (p_pending p))") (auto simp: neq_Nil_conv)

declare sse_drain.simps [simp del]

definition sse_parser_feed :: "sse_mem \<Rightarrow> sse_parser \<Rightarrow> string \<Rightarrow> agent_error \<times> sse_event list \<times> sse_parser" where
  "sse_parser_feed mem p data =
     (if p_done p then (AGENT_OK, [], p)
      else if data = [] then (AGENT_OK, [], p)
      else if \<not> ok_pending mem then (AGENT_ERR_OOM, [], p)
      else sse_drain mem (p\<lparr>p_pending := p_pending p @ data\<rparr>))"

definition sse_parser_finish :: "sse_mem \<Rightarrow> sse_parser \<Rightarrow> sse_event list \<times> sse_parser" where
  "sse_parser_finish mem p =
     (if p_done p then ([], p)
      else
        (let (evs, p1) = (if p_pending p \<noteq> []
               then (let (evs, p1) = sse_process_line mem p (p_pending p) in (evs, p1\<lparr>p_pending := []\<rparr>))
               else ([], p));
             (evs', p2) = sse_flush_event p1 in
         (evs @ evs', p2\<lparr>p_done := True\<rparr>)))"

text \<open>A stream in the chunks it arrives in, as the write callbacks of the providers feed it: the first chunk that is
  refused aborts the transfer.\<close>

fun sse_feed_all :: "sse_parser \<Rightarrow> string list \<Rightarrow> agent_error \<times> sse_event list \<times> sse_parser" where
  "sse_feed_all p [] = (AGENT_OK, [], p)"
| "sse_feed_all p (c # cs) =
     (let (rc, evs, p1) = sse_parser_feed sse_ok p c in
      if rc \<noteq> AGENT_OK then (rc, evs, p1)
      else (let (rc', evs', p2) = sse_feed_all p1 cs in (rc', evs @ evs', p2)))"

text \<open>No line is longer than the parser takes; \<open>n\<close> bytes of the first one have been seen.\<close>

fun lines_short :: "nat \<Rightarrow> string \<Rightarrow> bool" where
  "lines_short n [] \<longleftrightarrow> n \<le> SSE_MAX_LINE_BYTES"
| "lines_short n (c # cs) \<longleftrightarrow> n \<le> SSE_MAX_LINE_BYTES \<and> lines_short (if c = CHR 0x0A then 0 else Suc n) cs"

section \<open>Chunks\<close>

lemma flush_frame: "sse_flush_event p = (evs, p') \<Longrightarrow> p_pending p' = p_pending p \<and> p_done p' = p_done p"
  by (auto simp: sse_flush_event_def split: if_splits)

lemma process_frame:
  assumes "sse_process_line mem p line = (evs, p')"
  shows "p_pending p' = p_pending p"
  using assms by (auto simp: sse_process_line_def sse_flush_event_def Let_def split: if_splits)

lemma process_pending:
  "sse_process_line mem (p\<lparr>p_pending := x\<rparr>) line =
   (fst (sse_process_line mem p line), (snd (sse_process_line mem p line))\<lparr>p_pending := x\<rparr>)"
  by (simp add: sse_process_line_def sse_flush_event_def Let_def)

text \<open>Draining leaves no complete line behind, so draining later input starts at a line.\<close>

lemma drain_no_newline:
  "sse_drain mem p = (rc, evs, p') \<Longrightarrow> CHR 0x0A \<notin> set (p_pending p')"
proof (induction mem p arbitrary: rc evs p' rule: sse_drain.induct)
  case (1 mem p)
  show ?case
  proof (cases "CHR 0x0A \<in> set (p_pending p)")
    case False
    with "1.prems" show ?thesis by (auto simp: sse_drain.simps [of mem p] split: if_splits)
  next
    case True
    then have ne: "p_pending p \<noteq> []" by auto
    obtain evs1 p1 where l: "sse_process_line mem p (takeWhile (\<lambda>ch. ch \<noteq> CHR 0x0A) (p_pending p)) = (evs1, p1)"
      by (metis surj_pair)
    show ?thesis
    proof (cases "p_done p1")
      case d: True
      with "1.prems" True ne l show ?thesis by (auto simp: sse_drain.simps [of mem p])
    next
      case nd: False
      obtain rc2 evs2 p2 where r: "sse_drain mem (p1\<lparr>p_pending :=
          drop (length (takeWhile (\<lambda>ch. ch \<noteq> CHR 0x0A) (p_pending p)) + 1) (p_pending p)\<rparr>) = (rc2, evs2, p2)"
        by (metis surj_pair)
      have "CHR 0x0A \<notin> set (p_pending p2)" using "1.IH" [OF ne _ refl l [symmetric] refl nd r] True by simp
      moreover have "p' = p2" using "1.prems" True ne l nd r by (simp add: sse_drain.simps [of mem p])
      ultimately show ?thesis by simp
    qed
  qed
qed

text \<open>One step of the loop on a first line \<open>line\<close>.\<close>

lemma drain_line:
  assumes "CHR 0x0A \<notin> set line" and "sse_process_line mem p line = (evs, p1)"
  shows "sse_drain mem (p\<lparr>p_pending := line @ CHR 0x0A # rest\<rparr>) =
     (if p_done p1 then (AGENT_OK, evs, p1\<lparr>p_pending := []\<rparr>)
      else (let (rc, evs', p2) = sse_drain mem (p1\<lparr>p_pending := rest\<rparr>) in (rc, evs @ evs', p2)))"
proof -
  have t: "takeWhile (\<lambda>ch. ch \<noteq> CHR 0x0A) (line @ CHR 0x0A # rest) = line" using assms(1) by (induction line) auto
  show ?thesis
    by (subst sse_drain.simps) (simp add: t process_pending assms(2))
qed

lemma drain_partial:
  "CHR 0x0A \<notin> set x \<Longrightarrow>
   sse_drain mem (p\<lparr>p_pending := x\<rparr>) =
     (if x \<noteq> [] \<and> length x > SSE_MAX_LINE_BYTES then AGENT_ERR_IO else AGENT_OK, [], p\<lparr>p_pending := x\<rparr>)"
  by (subst sse_drain.simps) auto

lemma drain_append:
  assumes "\<not> p_done p" and "sse_drain mem (p\<lparr>p_pending := x\<rparr>) = (rc1, evs1, p1)"
  shows "sse_drain mem (p\<lparr>p_pending := x @ y\<rparr>) =
     (if p_done p1 then (rc1, evs1, p1)
      else (let (rc2, evs2, p2) = sse_drain mem (p1\<lparr>p_pending := p_pending p1 @ y\<rparr>) in (rc2, evs1 @ evs2, p2)))"
  using assms
proof (induction "length x" arbitrary: x p evs1 rule: less_induct)
  case less
  show ?case
  proof (cases "CHR 0x0A \<in> set x")
    case False
    with less.prems have "p1 = p\<lparr>p_pending := x\<rparr>" "evs1 = []" by (simp_all add: drain_partial split: if_splits)
    with less.prems(1) show ?thesis by (simp split: prod.split)
  next
    case True
    then obtain line rest where x: "x = line @ CHR 0x0A # rest" "CHR 0x0A \<notin> set line" by (metis split_list_first)
    obtain evs q where l: "sse_process_line mem p line = (evs, q)" by (metis surj_pair)
    show ?thesis
    proof (cases "p_done q")
      case d: True
      with less.prems(2) x drain_line [OF x(2) l, of rest] drain_line [OF x(2) l, of "rest @ y"] show ?thesis by auto
    next
      case nd: False
      obtain rc2 evs2 q2 where r: "sse_drain mem (q\<lparr>p_pending := rest\<rparr>) = (rc2, evs2, q2)" by (metis surj_pair)
      have e: "rc1 = rc2" "evs1 = evs @ evs2" "p1 = q2"
        using less.prems(2) x drain_line [OF x(2) l, of rest] nd r by auto
      have "length rest < length x" using x by simp
      from less.hyps [OF this nd] r e have
        "sse_drain mem (q\<lparr>p_pending := rest @ y\<rparr>) =
          (if p_done p1 then (rc1, evs2, p1)
           else (let (rc2, evs3, p2) = sse_drain mem (p1\<lparr>p_pending := p_pending p1 @ y\<rparr>) in (rc2, evs2 @ evs3, p2)))"
        by simp
      with x drain_line [OF x(2) l, of "rest @ y"] nd e show ?thesis by (simp split: prod.split)
    qed
  qed
qed

lemma feed_append:
  assumes "sse_parser_feed sse_ok p c = (rc1, evs1, p1)" and "CHR 0x0A \<notin> set (p_pending p)"
  shows "snd (sse_parser_feed sse_ok p (c @ d)) =
           (let (rc2, evs2, p2) = sse_parser_feed sse_ok p1 d in (evs1 @ evs2, p2)) \<and>
         CHR 0x0A \<notin> set (p_pending p1)"
proof (cases "p_done p \<or> c = []")
  case True
  with assms(1) have "evs1 = []" "p1 = p" by (auto simp: sse_parser_feed_def split: if_splits)
  with assms(2) True show ?thesis by (cases "p_done p") (simp_all add: sse_parser_feed_def split: prod.split)
next
  case False
  with assms(1) have r: "sse_drain sse_ok (p\<lparr>p_pending := p_pending p @ c\<rparr>) = (rc1, evs1, p1)"
    by (simp add: sse_parser_feed_def sse_ok_def)
  from drain_append [OF _ r, of d] False
  have a: "sse_drain sse_ok (p\<lparr>p_pending := (p_pending p @ c) @ d\<rparr>) =
     (if p_done p1 then (rc1, evs1, p1)
      else (let (rc2, evs2, p2) = sse_drain sse_ok (p1\<lparr>p_pending := p_pending p1 @ d\<rparr>) in (rc2, evs1 @ evs2, p2)))"
    by simp
  have n: "CHR 0x0A \<notin> set (p_pending p1)" by (rule drain_no_newline [OF r])
  have "sse_drain sse_ok p1 = (fst (sse_drain sse_ok p1), [], p1)"
    using drain_partial [OF n, of sse_ok p1] by simp
  with False a n show ?thesis
    by (cases "d = []") (auto simp: sse_parser_feed_def sse_ok_def split: prod.split)
qed

lemma lines_short_bound: "lines_short n s \<Longrightarrow> n \<le> SSE_MAX_LINE_BYTES"
  by (cases s) auto

lemma lines_short_append:
  "CHR 0x0A \<notin> set x \<Longrightarrow> lines_short n (x @ y) \<longleftrightarrow> lines_short (n + length x) y"
  by (induction x arbitrary: n) (auto dest: lines_short_bound)

lemma short_line_rest: "CHR 0x0A \<notin> set l \<Longrightarrow> lines_short 0 (l @ CHR 0x0A # y) \<longleftrightarrow> length l \<le> SSE_MAX_LINE_BYTES \<and> lines_short 0 y"
  by (simp add: lines_short_append)

text \<open>While the lines are short no chunk is refused, and what waits for the next chunk is the start of a line.\<close>

lemma drain_short:
  "sse_drain mem p = (rc, evs, p') \<Longrightarrow> lines_short 0 (p_pending p @ y) \<Longrightarrow>
    rc = AGENT_OK \<and> (\<not> p_done p' \<longrightarrow> lines_short 0 (p_pending p' @ y))"
proof (induction mem p arbitrary: rc evs p' rule: sse_drain.induct)
  case (1 mem p)
  show ?case
  proof (cases "CHR 0x0A \<in> set (p_pending p)")
    case False
    have "length (p_pending p) \<le> SSE_MAX_LINE_BYTES"
      using "1.prems"(2) lines_short_bound by (simp add: lines_short_append [OF False])
    with "1.prems" False show ?thesis by (auto simp: sse_drain.simps [of mem p] split: if_splits)
  next
    case True
    then have ne: "p_pending p \<noteq> []" by auto
    let ?line = "takeWhile (\<lambda>ch. ch \<noteq> CHR 0x0A) (p_pending p)" and ?rest = "drop (length (takeWhile (\<lambda>ch. ch \<noteq> CHR 0x0A) (p_pending p)) + 1) (p_pending p)"
    have parts: "p_pending p = ?line @ CHR 0x0A # ?rest" "CHR 0x0A \<notin> set ?line"
    proof -
      obtain line rest where x: "p_pending p = line @ CHR 0x0A # rest" "CHR 0x0A \<notin> set line" using True by (metis split_list_first)
      have t: "takeWhile (\<lambda>ch. ch \<noteq> CHR 0x0A) (l @ CHR 0x0A # k) = l" if "CHR 0x0A \<notin> set l" for l k
        using that by (induction l) auto
      from x t [OF x(2), of rest] show "p_pending p = ?line @ CHR 0x0A # ?rest" "CHR 0x0A \<notin> set ?line" by simp_all
    qed
    obtain evs1 p1 where l: "sse_process_line mem p ?line = (evs1, p1)" by (metis surj_pair)
    show ?thesis
    proof (cases "p_done p1")
      case d: True
      with "1.prems" True ne l show ?thesis by (auto simp: sse_drain.simps [of mem p])
    next
      case nd: False
      obtain rc2 evs2 p2 where r: "sse_drain mem (p1\<lparr>p_pending := ?rest\<rparr>) = (rc2, evs2, p2)" by (metis surj_pair)
      have "lines_short 0 (?rest @ y)"
        using "1.prems"(2) short_line_rest [OF parts(2), of "?rest @ y"] parts(1) by (metis append.assoc append_Cons)
      with "1.IH" [OF ne _ refl l [symmetric] refl nd r] True
      have "rc2 = AGENT_OK \<and> (\<not> p_done p2 \<longrightarrow> lines_short 0 (p_pending p2 @ y))" by simp
      moreover have "rc = rc2 \<and> p' = p2" using "1.prems"(1) True ne l nd r by (simp add: sse_drain.simps [of mem p])
      ultimately show ?thesis by simp
    qed
  qed
qed

lemma feed_short:
  assumes "sse_parser_feed sse_ok p c = (rc, evs, p')" and "\<not> p_done p \<longrightarrow> lines_short 0 (p_pending p @ c @ y)"
  shows "rc = AGENT_OK \<and> (\<not> p_done p' \<longrightarrow> lines_short 0 (p_pending p' @ y))"
  using assms drain_short [of sse_ok "p\<lparr>p_pending := p_pending p @ c\<rparr>" rc evs p' y]
  by (auto simp: sse_parser_feed_def sse_ok_def split: if_splits)

lemma feed_all_short:
  "\<not> p_done p \<longrightarrow> lines_short 0 (p_pending p @ concat cs) \<Longrightarrow> fst (sse_feed_all p cs) = AGENT_OK"
proof (induction cs arbitrary: p)
  case (Cons c cs)
  obtain rc1 evs1 p1 where f: "sse_parser_feed sse_ok p c = (rc1, evs1, p1)" by (metis surj_pair)
  from feed_short [OF f, of "concat cs"] Cons.prems
  have "rc1 = AGENT_OK" "\<not> p_done p1 \<longrightarrow> lines_short 0 (p_pending p1 @ concat cs)" by auto
  with Cons.IH [of p1] f show ?case by (simp add: split_beta)
qed simp

lemma feed_error: "sse_parser_feed sse_ok p c = (rc, evs, p') \<Longrightarrow> rc \<noteq> AGENT_OK \<Longrightarrow> rc = AGENT_ERR_IO"
proof -
  have d: "fst (sse_drain mem q) \<in> {AGENT_OK, AGENT_ERR_IO}" for mem q
  proof (induction mem q rule: sse_drain.induct)
    case (1 mem q)
    obtain evs1 p1 where l: "sse_process_line mem q (takeWhile (\<lambda>ch. ch \<noteq> CHR 0x0A) (p_pending q)) = (evs1, p1)" by (metis surj_pair)
    show ?case using "1.IH" [OF _ _ refl l [symmetric] refl] l by (subst sse_drain.simps) (simp add: split_beta Let_def)
  qed
  show "sse_parser_feed sse_ok p c = (rc, evs, p') \<Longrightarrow> rc \<noteq> AGENT_OK \<Longrightarrow> rc = AGENT_ERR_IO"
    using d [of sse_ok "p\<lparr>p_pending := p_pending p @ c\<rparr>"] by (auto simp: sse_parser_feed_def sse_ok_def split: if_splits)
qed

lemma feed_all_concat:
  assumes "CHR 0x0A \<notin> set (p_pending p)" and "sse_feed_all p cs = (rc, evs, q)"
  shows "\<exists>zs. fst (snd (sse_parser_feed sse_ok p (concat cs))) = evs @ zs \<and>
    (rc = AGENT_OK \<longrightarrow> zs = [] \<and> snd (snd (sse_parser_feed sse_ok p (concat cs))) = q) \<and> (rc \<noteq> AGENT_OK \<longrightarrow> rc = AGENT_ERR_IO)"
  using assms
proof (induction cs arbitrary: p evs rc q)
  case Nil
  then show ?case by (simp add: sse_parser_feed_def)
next
  case (Cons c cs)
  obtain rc1 evs1 p1 where f: "sse_parser_feed sse_ok p c = (rc1, evs1, p1)" by (metis surj_pair)
  obtain rc2 evs2 p2 where g: "sse_parser_feed sse_ok p1 (concat cs) = (rc2, evs2, p2)" by (metis surj_pair)
  have a: "snd (sse_parser_feed sse_ok p (concat (c # cs))) = (evs1 @ evs2, p2)" "CHR 0x0A \<notin> set (p_pending p1)"
    using feed_append [OF f Cons.prems(1), of "concat cs"] g by simp_all
  show ?case
  proof (cases "rc1 = AGENT_OK")
    case False
    with Cons.prems(2) f feed_error [OF f] a(1) show ?thesis by simp
  next
    case True
    obtain rc3 evs3 q3 where r: "sse_feed_all p1 cs = (rc3, evs3, q3)" by (metis surj_pair)
    with True Cons.prems(2) f have "rc = rc3" "evs = evs1 @ evs3" "q = q3" by simp_all
    with Cons.IH [OF a(2) r] g a(1) show ?thesis by auto
  qed
qed

lemma feed_new: "sse_parser_feed sse_ok sse_parser_new s = sse_drain sse_ok (sse_parser_new\<lparr>p_pending := s\<rparr>)"
  by (cases "s = []") (simp_all add: sse_parser_feed_def sse_ok_def sse_parser_new_def sse_drain.simps)

lemma feed_whole:
  assumes "lines_short 0 s" and "concat cs = s"
  shows "sse_feed_all sse_parser_new cs = sse_drain sse_ok (sse_parser_new\<lparr>p_pending := s\<rparr>)"
proof -
  have n: "CHR 0x0A \<notin> set (p_pending sse_parser_new)" by (simp add: sse_parser_new_def)
  obtain rc evs q where r: "sse_feed_all sse_parser_new cs = (rc, evs, q)" by (metis surj_pair)
  have ok: "rc = AGENT_OK" using feed_all_short [of sse_parser_new cs] assms r by (simp add: sse_parser_new_def)
  obtain rc' evs' q' where d: "sse_drain sse_ok (sse_parser_new\<lparr>p_pending := s\<rparr>) = (rc', evs', q')" by (metis surj_pair)
  from drain_short [OF d, of "[]"] assms(1) have "rc' = AGENT_OK" by simp
  with feed_all_concat [OF n r] ok assms(2) feed_new [of s] d r show ?thesis by auto
qed

text \<open>C38: fragmentation does not matter.  A stream fed in chunks reports the same events and ends in the same state as if it had
  come at once, unless a chunk is refused; then the stream holds a line that is longer than 1 MiB, and what was reported until
  then is the beginning of what the whole stream reports.\<close>

theorem sse_chunks_equal:
  assumes "concat cs = s" and "sse_feed_all sse_parser_new cs = (rc, evs, p)" and "sse_parser_feed sse_ok sse_parser_new s = (rw, whole, pw)"
  shows "if rc = AGENT_OK then evs = whole \<and> p = pw
         else rc = AGENT_ERR_IO \<and> \<not> lines_short 0 s \<and> (\<exists>later. whole = evs @ later)"
proof -
  have "CHR 0x0A \<notin> set (p_pending sse_parser_new)" by (simp add: sse_parser_new_def)
  moreover have "lines_short 0 s \<Longrightarrow> rc = AGENT_OK"
    using feed_all_short [of sse_parser_new cs] assms(1,2) by (simp add: sse_parser_new_def)
  ultimately show ?thesis using feed_all_concat [OF _ assms(2)] assms(1,3) by auto
qed

theorem sse_chunks_equal_witness:
  "\<exists>p. sse_feed_all sse_parser_new [''data: a'', ''bc'', [CHR 0x0A], [CHR 0x0A]] = (AGENT_OK, [Sse_Data ''abc''], p) \<and>
     snd (sse_parser_feed sse_ok sse_parser_new (''data: abc'' @ [CHR 0x0A, CHR 0x0A])) = ([Sse_Data ''abc''], p)"
proof -
  let ?cs = "[''data: a'', ''bc'', [CHR 0x0A], [CHR 0x0A]]"
  obtain rc evs p where r: "sse_feed_all sse_parser_new ?cs = (rc, evs, p)" by (metis surj_pair)
  obtain rw whole pw where w: "sse_parser_feed sse_ok sse_parser_new (''data: abc'' @ [CHR 0x0A, CHR 0x0A]) = (rw, whole, pw)" by (metis surj_pair)
  have "lines_short 0 (''data: abc'' @ [CHR 0x0A, CHR 0x0A])" by (simp add: SSE_MAX_LINE_BYTES_def)
  moreover have "whole = [Sse_Data ''abc'']"
    using w by (simp add: sse_parser_feed_def sse_parser_new_def sse_ok_def sse_drain.simps sse_process_line_def strip_cr_def
        field_value_def sse_flush_event_def)
  moreover note sse_chunks_equal [of ?cs "''data: abc'' @ [CHR 0x0A, CHR 0x0A]", OF _ r w]
  ultimately show ?thesis using r w by (auto split: if_splits)
qed

section \<open>Events come back\<close>

text \<open>How a provider sends one payload per event.\<close>

definition sse_encode :: "string list \<Rightarrow> string" where
  "sse_encode ds = concat (map (\<lambda>d. ''data: '' @ d @ [CHR 0x0A, CHR 0x0A]) ds)"

definition plain_payload :: "string \<Rightarrow> bool" where
  "plain_payload d \<longleftrightarrow> CHR 0x0A \<notin> set d \<and> (d = [] \<or> last d \<noteq> CHR 0x0D) \<and> d \<noteq> ''[DONE]'' \<and> length d + 6 \<le> SSE_MAX_LINE_BYTES"

lemma encode_short: "list_all plain_payload ds \<Longrightarrow> lines_short 0 (sse_encode ds)"
proof (induction ds)
  case (Cons d ds)
  then have "lines_short 0 ((''data: '' @ d) @ CHR 0x0A # CHR 0x0A # sse_encode ds)"
    by (subst short_line_rest) (auto simp: plain_payload_def)
  then show ?case by (simp add: sse_encode_def)
qed (simp add: sse_encode_def)

lemma process_data:
  assumes "plain_payload d"
  shows "sse_process_line sse_ok p (''data: '' @ d) =
         ([], p\<lparr>p_event_data := p_event_data p @ d, p_have_event := True\<rparr>)"
  using assms
  by (auto simp: sse_process_line_def strip_cr_def field_value_def plain_payload_def Let_def sse_ok_def)

lemma drain_event:
  assumes "plain_payload d" and "\<not> p_done p" and "\<not> p_have_event p" and "p_event_data p = []"
  shows "sse_drain sse_ok (p\<lparr>p_pending := ''data: '' @ d @ CHR 0x0A # CHR 0x0A # rest\<rparr>) =
         (let (rc, evs, p1) = sse_drain sse_ok (p\<lparr>p_pending := rest\<rparr>) in (rc, Sse_Data d # evs, p1))"
proof -
  let ?q = "p\<lparr>p_event_data := p_event_data p @ d, p_have_event := True\<rparr>"
  have n: "CHR 0x0A \<notin> set (''data: '' @ d)" using assms(1) by (simp add: plain_payload_def)
  have e: "sse_process_line sse_ok ?q [] = ([Sse_Data d], p\<lparr>p_event_data := [], p_have_event := False\<rparr>)"
    using assms(4) by (simp add: sse_process_line_def strip_cr_def sse_flush_event_def)
  have p: "p\<lparr>p_event_data := [], p_have_event := False\<rparr> = p" using assms(3,4) by simp
  from drain_line [OF n process_data [OF assms(1), of p], of "CHR 0x0A # rest"] drain_line [OF _ e, of rest] assms(2)
  show ?thesis by (simp add: p split: prod.split)
qed

lemma drain_encoded:
  "list_all plain_payload ds \<Longrightarrow>
    sse_drain sse_ok (sse_parser_new\<lparr>p_pending := sse_encode ds\<rparr>) = (AGENT_OK, map Sse_Data ds, sse_parser_new)"
proof (induction ds)
  case Nil
  then show ?case by (simp add: sse_encode_def sse_drain.simps sse_parser_new_def)
next
  case (Cons d ds)
  have "sse_drain sse_ok (sse_parser_new\<lparr>p_pending := ''data: '' @ d @ CHR 0x0A # CHR 0x0A # sse_encode ds\<rparr>) =
       (let (rc, evs, p1) = sse_drain sse_ok (sse_parser_new\<lparr>p_pending := sse_encode ds\<rparr>) in (rc, Sse_Data d # evs, p1))"
    by (rule drain_event) (use Cons.prems in \<open>simp_all add: sse_parser_new_def\<close>)
  with Cons show ?case by (simp add: sse_encode_def)
qed

text \<open>C39: what is sent as events is received as events: a stream that carries each payload in an event of its
  own, none longer than a line may be, is accepted in whatever chunks it arrives, and delivers exactly these payloads, in order
  and once each, with nothing left over.\<close>

theorem sse_roundtrip:
  assumes "list_all plain_payload ds" and "concat cs = sse_encode ds"
  shows "sse_feed_all sse_parser_new cs = (AGENT_OK, map Sse_Data ds, sse_parser_new) \<and>
         sse_parser_finish sse_ok sse_parser_new = ([], sse_parser_new\<lparr>p_done := True\<rparr>)"
proof -
  have "sse_drain sse_ok (sse_parser_new\<lparr>p_pending := sse_encode ds\<rparr>) = (AGENT_OK, map Sse_Data ds, sse_parser_new)"
    using assms(1) by (rule drain_encoded)
  with feed_whole [OF encode_short [OF assms(1)] assms(2)] show ?thesis
    by (simp add: sse_parser_finish_def sse_parser_new_def sse_flush_event_def)
qed

theorem sse_roundtrip_witness:
  "sse_feed_all sse_parser_new [''dat'', ''a: {}'' @ [CHR 0x0A], [CHR 0x0A], ''data: x'' @ [CHR 0x0A, CHR 0x0A]] =
   (AGENT_OK, [Sse_Data ''{}'', Sse_Data ''x''], sse_parser_new)"
  using sse_roundtrip [of "[''{}'', ''x'']" "[''dat'', ''a: {}'' @ [CHR 0x0A], [CHR 0x0A], ''data: x'' @ [CHR 0x0A, CHR 0x0A]]"]
  by (simp add: plain_payload_def sse_encode_def SSE_MAX_LINE_BYTES_def)

text \<open>Several data lines of one event are glued together. The event carries the payloads without the
  newline that the header of the parser promises between them.\<close>

theorem sse_lines_glued:
  assumes "plain_payload d1" and "plain_payload d2"
  shows "sse_feed_all sse_parser_new [''data: '' @ d1 @ CHR 0x0A # ''data: '' @ d2 @ [CHR 0x0A, CHR 0x0A]] =
         (AGENT_OK, [Sse_Data (d1 @ d2)], sse_parser_new)"
proof -
  let ?p = "sse_parser_new" and ?q = "sse_parser_new\<lparr>p_event_data := d1, p_have_event := True\<rparr>"
    and ?r = "sse_parser_new\<lparr>p_event_data := d1 @ d2, p_have_event := True\<rparr>"
  have n: "CHR 0x0A \<notin> set (''data: '' @ d)" if "plain_payload d" for d using that by (simp add: plain_payload_def)
  have l1: "sse_process_line sse_ok ?p (''data: '' @ d1) = ([], ?q)" using process_data [OF assms(1), of ?p]
    by (simp add: sse_parser_new_def)
  have l2: "sse_process_line sse_ok ?q (''data: '' @ d2) = ([], ?r)" using process_data [OF assms(2), of ?q] by simp
  have l3: "sse_process_line sse_ok ?r [] = ([Sse_Data (d1 @ d2)], ?p)"
    by (simp add: sse_process_line_def strip_cr_def sse_flush_event_def sse_parser_new_def)
  have e: "sse_drain sse_ok (?p\<lparr>p_pending := []\<rparr>) = (AGENT_OK, [], ?p\<lparr>p_pending := []\<rparr>)" by (simp add: drain_partial)
  from drain_line [OF n [OF assms(1)] l1, of "''data: '' @ d2 @ [CHR 0x0A, CHR 0x0A]"]
    drain_line [OF n [OF assms(2)] l2, of "[CHR 0x0A]"] drain_line [OF _ l3, of "[]"] e
  have "sse_drain sse_ok (?p\<lparr>p_pending := ''data: '' @ d1 @ CHR 0x0A # ''data: '' @ d2 @ [CHR 0x0A, CHR 0x0A]\<rparr>) =
        (AGENT_OK, [Sse_Data (d1 @ d2)], ?p)" by (simp add: sse_parser_new_def)
  moreover have "lines_short 0 (''data: '' @ d1 @ CHR 0x0A # ''data: '' @ d2 @ [CHR 0x0A, CHR 0x0A])"
    using assms short_line_rest [OF n [OF assms(1)], of "''data: '' @ d2 @ [CHR 0x0A, CHR 0x0A]"]
      short_line_rest [OF n [OF assms(2)], of "[CHR 0x0A]"] by (simp add: plain_payload_def)
  ultimately show ?thesis by (subst feed_whole) simp_all
qed

theorem sse_lines_glued_witness:
  "sse_feed_all sse_parser_new [''data: a'' @ CHR 0x0A # ''data: b'' @ [CHR 0x0A, CHR 0x0A]] = (AGENT_OK, [Sse_Data ''ab''], sse_parser_new)"
  using sse_lines_glued [of "''a''" "''b''"] by (simp add: plain_payload_def SSE_MAX_LINE_BYTES_def)

end
