(* ===== verification/Http.thy ===== *)
theory Http
  imports Prelude "HOL-Library.Multiset"
begin

text \<open>
  The transfers of \<open>src/src/runtime/http.c\<close>.  The callbacks of a request act on a world
  \<open>'w\<close> (the state of whoever started it); a request is known by its address.  libcurl is not
  under \<open>src/\<close>: what it does with a transfer reaches this file as chunks handed to
  \<open>http_write_cb\<close> and as completion messages, and these are the inputs of the operations
  below.  Sockets, timers and the wakeup of the event loop are not modelled.
\<close>

section \<open>Requests\<close>

text \<open>The two result codes of libcurl that the program names.\<close>

definition CURLE_OK :: int where
  "CURLE_OK = 0"

definition CURLE_ABORTED_BY_CALLBACK :: int where
  "CURLE_ABORTED_BY_CALLBACK = 42"

text \<open>What is sent: the address, the headers and the body.\<close>

record http_out =
  ho_url :: string
  ho_headers :: "string list"
  ho_body :: string

record http_done_info =
  info_rc :: int
  info_http_status :: int
  info_body :: string

record 'w http_request =
  hq_addr :: nat
  hq_out :: http_out
  hq_response :: string
  hq_response_capped :: bool
  hq_response_cap :: nat
  hq_write_cb :: "(string \<Rightarrow> 'w \<Rightarrow> nat \<times> 'w) option"
  hq_done_cb :: "(http_done_info \<Rightarrow> 'w \<Rightarrow> 'w) option"
  hq_http_status :: int
  hq_rc :: int
  hq_finished :: bool

record 'w http_runtime =
  h_requests :: "'w http_request list"
  h_active :: nat

definition http_new :: "'w http_runtime" where
  "http_new = \<lparr>h_requests = [], h_active = 0\<rparr>"

definition find_request :: "'w http_runtime \<Rightarrow> nat \<Rightarrow> 'w http_request option" where
  "find_request h addr = find (\<lambda>r. hq_addr r = addr) (h_requests h)"

definition set_request :: "'w http_runtime \<Rightarrow> 'w http_request \<Rightarrow> 'w http_runtime" where
  "set_request h req = h\<lparr>h_requests := map (\<lambda>r. if hq_addr r = hq_addr req then req else r) (h_requests h)\<rparr>"

text \<open>The removal of the slot found first: the last slot takes its place.\<close>

fun first_slot :: "('a \<Rightarrow> bool) \<Rightarrow> 'a list \<Rightarrow> nat option" where
  "first_slot p [] = None"
| "first_slot p (x # xs) = (if p x then Some 0 else map_option Suc (first_slot p xs))"

definition swap_remove :: "('a \<Rightarrow> bool) \<Rightarrow> 'a list \<Rightarrow> 'a list" where
  "swap_remove p xs =
     (case first_slot p xs of
        None \<Rightarrow> xs
      | Some i \<Rightarrow> butlast (xs[i := last xs]))"

section \<open>Life of a request\<close>

text \<open>
  \<open>http_request_start\<close>: \<open>addr\<close> is where the request was allocated and \<open>started\<close> says
  whether the allocations and libcurl accepted it.
\<close>

definition http_request_start ::
  "bool \<Rightarrow> nat \<Rightarrow> http_out \<Rightarrow> nat \<Rightarrow> (string \<Rightarrow> 'w \<Rightarrow> nat \<times> 'w) option \<Rightarrow>
   (http_done_info \<Rightarrow> 'w \<Rightarrow> 'w) option \<Rightarrow> 'w http_runtime \<Rightarrow> agent_error \<times> 'w http_runtime" where
  "http_request_start started addr out cap write_cb done_cb h =
     (if \<not> started then (AGENT_ERR_OOM, h)
      else (AGENT_OK,
            h\<lparr>h_requests := h_requests h @
                [\<lparr>hq_addr = addr, hq_out = out, hq_response = [], hq_response_capped = False,
                  hq_response_cap = cap, hq_write_cb = write_cb, hq_done_cb = done_cb,
                  hq_http_status = 0, hq_rc = CURLE_OK, hq_finished = False\<rparr>],
              h_active := h_active h + 1\<rparr>))"

definition cap_response :: "'w http_request \<Rightarrow> string \<Rightarrow> 'w http_request" where
  "cap_response req data =
     (if hq_response_cap req > 0 \<and> length (hq_response req) + length data > hq_response_cap req then
        req\<lparr>hq_response := hq_response req @
               take (hq_response_cap req - length (hq_response req)) data,
             hq_response_capped := True\<rparr>
      else req\<lparr>hq_response := hq_response req @ data\<rparr>)"

text \<open>\<open>http_write_cb\<close> answers 0 to make libcurl abort the transfer.\<close>

definition http_write_cb :: "nat \<Rightarrow> string \<Rightarrow> 'w http_runtime \<times> 'w \<Rightarrow> nat \<times> 'w http_runtime \<times> 'w" where
  "http_write_cb addr data s =
     (case find_request (fst s) addr of
        None \<Rightarrow> (0, s)
      | Some req \<Rightarrow>
          (let h = set_request (fst s) (cap_response req data) in
           case hq_write_cb req of
             None \<Rightarrow> (length data, h, snd s)
           | Some cb \<Rightarrow>
               (let (n, w) = cb data (snd s) in (if n = 0 then 0 else length data, h, w))))"

definition finish_request :: "'w http_request \<Rightarrow> 'w http_runtime \<times> 'w \<Rightarrow> 'w http_runtime \<times> 'w" where
  "finish_request req s =
     (if hq_finished req then s
      else
        (let info = \<lparr>info_rc = hq_rc req, info_http_status = hq_http_status req, info_body = hq_response req\<rparr>;
             w = (case hq_done_cb req of None \<Rightarrow> snd s | Some cb \<Rightarrow> cb info (snd s)) in
         ((fst s)\<lparr>h_requests := swap_remove (\<lambda>r. hq_addr r = hq_addr req) (h_requests (fst s)),
                 h_active := h_active (fst s) - 1\<rparr>, w)))"

text \<open>A completion message of libcurl: the request, the result and the status of its response.\<close>

definition process_message :: "nat \<times> int \<times> int \<Rightarrow> 'w http_runtime \<times> 'w \<Rightarrow> 'w http_runtime \<times> 'w" where
  "process_message m s =
     (let (addr, rc, status) = m in
      case find_request (fst s) addr of
        None \<Rightarrow> s
      | Some req \<Rightarrow> finish_request (req\<lparr>hq_rc := rc, hq_http_status := status\<rparr>) s)"

definition process_multi_info :: "(nat \<times> int \<times> int) list \<Rightarrow> 'w http_runtime \<times> 'w \<Rightarrow> 'w http_runtime \<times> 'w" where
  "process_multi_info ms s = foldl (\<lambda>s m. process_message m s) s ms"

definition http_request_abort :: "nat option \<Rightarrow> 'w http_runtime \<times> 'w \<Rightarrow> 'w http_runtime \<times> 'w" where
  "http_request_abort hr s =
     (case hr of
        None \<Rightarrow> s
      | Some addr \<Rightarrow>
          (case find_request (fst s) addr of
             None \<Rightarrow> s
           | Some req \<Rightarrow>
               if hq_finished req then s
               else finish_request (req\<lparr>hq_rc := CURLE_ABORTED_BY_CALLBACK, hq_http_status := 0\<rparr>) s))"

text \<open>\<open>http_free\<close> aborts from the last slot down.\<close>

fun abort_from :: "nat \<Rightarrow> 'w http_runtime \<times> 'w \<Rightarrow> 'w http_runtime \<times> 'w" where
  "abort_from 0 s = s"
| "abort_from (Suc i) s = abort_from i (http_request_abort (Some (hq_addr (h_requests (fst s) ! i))) s)"

definition http_free :: "'w http_runtime \<times> 'w \<Rightarrow> 'w" where
  "http_free s = snd (abort_from (length (h_requests (fst s))) s)"

section \<open>Facts\<close>

definition http_ok :: "'w http_runtime \<Rightarrow> bool" where
  "http_ok h \<longleftrightarrow> distinct (map hq_addr (h_requests h)) \<and> h_active h = length (h_requests h) \<and>
     (\<forall>r\<in>set (h_requests h). \<not> hq_finished r)"

lemma first_slot_None: "first_slot p xs = None \<longleftrightarrow> (\<forall>x\<in>set xs. \<not> p x)"
  by (induction xs) auto

lemma first_slot_Some: "first_slot p xs = Some i \<Longrightarrow> i < length xs \<and> p (xs ! i) \<and> (\<forall>j<i. \<not> p (xs ! j))"
proof (induction xs arbitrary: i)
  case (Cons x xs)
  show ?case
  proof (cases "p x")
    case False
    with Cons.prems obtain k where "first_slot p xs = Some k" "i = Suc k" by auto
    with Cons.IH [of k] False show ?thesis by (auto simp: less_Suc_eq_0_disj)
  qed (use Cons.prems in auto)
qed simp

text \<open>Removing the one slot that matches keeps the others, in whatever order.\<close>

lemma first_slot_append: "(\<And>y. y \<in> set ys \<Longrightarrow> \<not> p y) \<Longrightarrow> p x \<Longrightarrow> first_slot p (ys @ x # zs) = Some (length ys)"
  by (induction ys) auto

lemma swap_remove_append:
  assumes "\<And>y. y \<in> set ys \<Longrightarrow> \<not> p y" and "p x"
  shows "swap_remove p (ys @ x # zs) = (if zs = [] then ys else ys @ last zs # butlast zs)"
  using first_slot_append [of ys p x zs, OF assms] by (simp add: swap_remove_def butlast_append)

lemma mset_last: "zs \<noteq> [] \<Longrightarrow> add_mset (last zs) (mset (butlast zs)) = mset zs"
  by (cases zs rule: rev_cases) simp_all

lemma swap_remove_mset:
  assumes "x \<in> set xs" and "p x" and "\<And>y. y \<in> set xs \<Longrightarrow> p y \<Longrightarrow> y = x"
  shows "mset (swap_remove p xs) = mset xs - {#x#}"
proof -
  from assms(1) obtain ys zs where xs: "xs = ys @ x # zs" "x \<notin> set ys" by (metis split_list_first)
  have n: "\<not> p y" if "y \<in> set ys" for y using assms(3) [of y] that xs by fastforce
  have "swap_remove p xs = (if zs = [] then ys else ys @ last zs # butlast zs)"
    unfolding xs(1) by (rule swap_remove_append) (use n assms(2) in simp_all)
  with xs mset_last [of zs] show ?thesis by (cases "zs = []") simp_all
qed

lemma swap_remove_none: "\<forall>x\<in>set xs. \<not> p x \<Longrightarrow> swap_remove p xs = xs"
  by (simp add: swap_remove_def first_slot_None [symmetric])

end
