(* ===== verification/Model_Transfer.thy ===== *)
theory Model_Transfer
  imports Loop Sse Http
begin

text \<open>
  What the three providers share.  \<open>src/src/model/openai.c\<close>, \<open>anthropic.c\<close> and
  \<open>responses.c\<close> each hold their own copy of the code of this theory; the lines of the
  definitions are those of \<open>openai.c\<close>.  An accumulator extends \<open>stream\<close>, whose \<open>st_out\<close>
  is the list of the events the callback of the request has received.  A provider is given by its
  \<open>protocol\<close>: the accumulator a request starts with, its \<open>sse_cb\<close> (\<open>sp_on_event\<close>), and what its done
  callback does with a stream that ended well but without a terminal event (\<open>sp_settle\<close>).  The callback of the request is
  never NULL (the agent loop always passes one).
\<close>

section \<open>Events\<close>

record stream =
  st_request_id :: "64 word"
  st_out :: "model_event list"
  error_emitted :: bool
  done_emitted :: bool

definition emit_model_event :: "model_event_body \<Rightarrow> 'a stream_scheme \<Rightarrow> 'a stream_scheme" where
  "emit_model_event b a =
     (if \<not> error_emitted a \<and> \<not> done_emitted a
      then a\<lparr>st_out := st_out a @ [\<lparr>me_request_id = st_request_id a, me_body = b\<rparr>]\<rparr> else a)"

definition emit_text :: "string \<Rightarrow> 'a stream_scheme \<Rightarrow> 'a stream_scheme" where
  "emit_text data a = emit_model_event (Text_Delta data) a"

definition emit_reasoning :: "string \<Rightarrow> 'a stream_scheme \<Rightarrow> 'a stream_scheme" where
  "emit_reasoning data a = emit_model_event (Reasoning_Delta data) a"

definition emit_tool_start :: "nat \<Rightarrow> string option \<Rightarrow> string option \<Rightarrow> 'a stream_scheme \<Rightarrow> 'a stream_scheme" where
  "emit_tool_start i id1 name a = emit_model_event (Tool_Call_Start i id1 name) a"

definition emit_tool_delta :: "nat \<Rightarrow> string \<Rightarrow> 'a stream_scheme \<Rightarrow> 'a stream_scheme" where
  "emit_tool_delta i delta a = emit_model_event (Tool_Call_Delta i delta) a"

definition emit_tool_end :: "nat \<Rightarrow> 'a stream_scheme \<Rightarrow> 'a stream_scheme" where
  "emit_tool_end i a = emit_model_event (Tool_Call_End i) a"

definition emit_error :: "int \<Rightarrow> string option \<Rightarrow> 'a stream_scheme \<Rightarrow> 'a stream_scheme" where
  "emit_error code msg a =
     (if error_emitted a \<or> done_emitted a then a
      else (emit_model_event (Error_Event code msg) a)\<lparr>error_emitted := True\<rparr>)"

definition emit_done :: "model_stop_reason \<Rightarrow> 'a stream_scheme \<Rightarrow> 'a stream_scheme" where
  "emit_done reason a =
     (if error_emitted a \<or> done_emitted a then a
      else (emit_model_event (Done_Event reason) a)\<lparr>done_emitted := True\<rparr>)"

section \<open>Tool calls of a stream\<close>

record tool_call_state =
  tcs_index :: nat
  tcs_seen_start :: bool

definition MAX_TOOL_CALLS :: nat where
  "MAX_TOOL_CALLS = 64"

text \<open>\<open>accum_ensure_call\<close>: the slot of the call of that index, created when there is none.\<close>

definition accum_ensure_call ::
  "nat \<Rightarrow> 'c tool_call_state_scheme \<Rightarrow> 'c tool_call_state_scheme list \<Rightarrow>
   nat option \<times> 'c tool_call_state_scheme list" where
  "accum_ensure_call index new calls =
     (if index \<ge> MAX_TOOL_CALLS then (None, calls)
      else
        (case first_slot (\<lambda>s. tcs_index s = index) calls of
           Some k \<Rightarrow> (Some k, calls)
         | None \<Rightarrow> (Some (length calls), calls @ [new])))"

section \<open>Transfers\<close>

record 'a protocol =
  sp_fresh :: "64 word \<Rightarrow> 'a"
  sp_on_event :: "sse_event \<Rightarrow> 'a \<Rightarrow> 'a"
  sp_settle :: "'a \<Rightarrow> 'a"

definition RAW_BODY_CAP :: nat where
  "RAW_BODY_CAP = 8192"

record 'a transfer =
  tr_accum :: 'a
  tr_sse :: sse_parser
  tr_raw_body :: string
  tr_hr :: "nat option"
  tr_finished :: bool

text \<open>
  The state of a provider: the table of its transfers, which are known by their address, and
  what is stored there.  \<open>pv_released\<close> lists, for every request answered so far, its id and the
  events its callback received; \<open>pv_mem\<close> and \<open>pv_raw_ok\<close> are the outcomes of the next allocations.
\<close>

record 'a provider_io =
  pv_transfers :: "nat list"
  pv_heap :: "nat \<Rightarrow> 'a transfer option"
  pv_released :: "(64 word \<times> model_event list) list"
  pv_mem :: sse_mem
  pv_raw_ok :: bool

definition transfer_unregister :: "nat \<Rightarrow> 'a provider_io \<Rightarrow> 'a provider_io" where
  "transfer_unregister addr pv = pv\<lparr>pv_transfers := swap_remove (\<lambda>t. t = addr) (pv_transfers pv)\<rparr>"

definition transfer_free :: "nat \<Rightarrow> 'a stream_scheme provider_io \<Rightarrow> 'a stream_scheme provider_io" where
  "transfer_free addr pv =
     (case pv_heap pv addr of
        None \<Rightarrow> pv
      | Some t \<Rightarrow>
          pv\<lparr>pv_heap := (pv_heap pv)(addr := None),
             pv_released := pv_released pv @ [(st_request_id (tr_accum t), st_out (tr_accum t))]\<rparr>)"

definition put_transfer :: "nat \<Rightarrow> 'a transfer \<Rightarrow> 'a provider_io \<Rightarrow> 'a provider_io" where
  "put_transfer addr t pv = pv\<lparr>pv_heap := (pv_heap pv)(addr := Some t)\<rparr>"

text \<open>\<open>write_cb\<close>: a snippet of the body for error messages, and the parser.\<close>

definition feed_transfer ::
  "'a protocol \<Rightarrow> bool \<Rightarrow> sse_mem \<Rightarrow> string \<Rightarrow> 'a transfer \<Rightarrow> nat \<times> 'a transfer" where
  "feed_transfer sp raw_ok mem data t =
     (let room = RAW_BODY_CAP - length (tr_raw_body t);
          raw = (if length (tr_raw_body t) < RAW_BODY_CAP \<and> raw_ok
                 then tr_raw_body t @ take room data else tr_raw_body t);
          (rc, evs, p) = sse_parser_feed mem (tr_sse t) data in
      (if rc \<noteq> AGENT_OK then 0 else length data,
       t\<lparr>tr_raw_body := raw, tr_sse := p, tr_accum := foldl (\<lambda>a ev. sp_on_event sp ev a) (tr_accum t) evs\<rparr>))"

definition write_cb ::
  "'a protocol \<Rightarrow> nat \<Rightarrow> string \<Rightarrow> 'a provider_io \<Rightarrow> nat \<times> 'a provider_io" where
  "write_cb sp addr data pv =
     (case pv_heap pv addr of
        None \<Rightarrow> (0, pv)
      | Some t \<Rightarrow>
          (let (n, t') = feed_transfer sp (pv_raw_ok pv) (pv_mem pv) data t in
           (n, put_transfer addr t' pv)))"

section \<open>The end of a transfer\<close>

definition http_success :: "http_done_info \<Rightarrow> bool" where
  "http_success info \<longleftrightarrow> info_rc info = CURLE_OK \<and> info_http_status info \<ge> 200 \<and> info_http_status info < 300"

definition report_failure ::
  "(int \<Rightarrow> string) \<Rightarrow> http_done_info \<Rightarrow> string \<Rightarrow> 'a stream_scheme \<Rightarrow> 'a stream_scheme" where
  "report_failure strerror info raw a =
     (if info_rc info \<noteq> CURLE_OK then
        emit_error (error_value AGENT_ERR_HTTP) (Some (''http transport error: '' @ strerror (info_rc info))) a
      else if info_http_status info < 200 \<or> info_http_status info \<ge> 300 then
        emit_error (info_http_status info)
          (Some (''http status '' @ show_int (info_http_status info) @ '': '' @
                 (if raw \<noteq> [] then c_str raw else ''(empty response body)''))) a
      else a)"

text \<open>The accumulator when the transfer ends: the rest of the parser's input first.\<close>

definition end_stream ::
  "'a stream_scheme protocol \<Rightarrow> (int \<Rightarrow> string) \<Rightarrow> sse_mem \<Rightarrow> http_done_info \<Rightarrow> 'a stream_scheme transfer \<Rightarrow> 'a stream_scheme transfer" where
  "end_stream sp strerror mem info t =
     (let (evs, p) = sse_parser_finish mem (tr_sse t);
          a1 = foldl (\<lambda>a ev. sp_on_event sp ev a) (tr_accum t) evs;
          a2 = (if http_success info \<and> \<not> done_emitted a1 \<and> \<not> error_emitted a1 then sp_settle sp a1 else a1) in
      t\<lparr>tr_sse := p, tr_accum := report_failure strerror info (tr_raw_body t) a2, tr_finished := True\<rparr>)"

definition transfer_done_cb ::
  "'a stream_scheme protocol \<Rightarrow> (int \<Rightarrow> string) \<Rightarrow> nat \<Rightarrow> http_done_info \<Rightarrow> 'a stream_scheme provider_io \<Rightarrow> 'a stream_scheme provider_io" where
  "transfer_done_cb sp strerror addr info pv =
     (case pv_heap pv addr of
        None \<Rightarrow> pv
      | Some t \<Rightarrow>
          if tr_finished t then pv
          else transfer_free addr
                 (put_transfer addr (end_stream sp strerror (pv_mem pv) info t)
                   (transfer_unregister addr pv)))"

section \<open>Requests\<close>

text \<open>
  What a request finds: the addresses of its transfer and of its HTTP request (None: the
  allocation failed), and whether the parser, the slot in the table, the HTTP runtime and the start
  of the HTTP request are to be had.
\<close>

record send_outcomes =
  so_transfer :: "nat option"
  so_parser :: bool
  so_http :: bool
  so_slot :: bool
  so_started :: bool
  so_request :: nat

definition new_transfer :: "'a protocol \<Rightarrow> 64 word \<Rightarrow> 'a transfer" where
  "new_transfer sp i = \<lparr>tr_accum = sp_fresh sp i, tr_sse = sse_parser_new, tr_raw_body = [], tr_hr = None, tr_finished = False\<rparr>"

text \<open>A request that is answered on the spot, from an accumulator or a transfer of its own.\<close>

definition refuse :: "'a stream_scheme protocol \<Rightarrow> 64 word \<Rightarrow> int \<Rightarrow> string \<Rightarrow>
    'a stream_scheme provider_io \<Rightarrow> 'a stream_scheme provider_io" where
  "refuse sp i code msg pv =
     pv\<lparr>pv_released := pv_released pv @ [(i, st_out (emit_error code (Some msg) (sp_fresh sp i)))]\<rparr>"

type_synonym 'a provider_state = "'a provider_io http_runtime \<times> 'a provider_io"

text \<open>The part of \<open>openai_request\<close> after the request body is built.\<close>

definition send_request ::
  "'a stream_scheme protocol \<Rightarrow> (int \<Rightarrow> string) \<Rightarrow> send_outcomes \<Rightarrow> 64 word \<Rightarrow> http_out \<Rightarrow>
   'a stream_scheme provider_state \<Rightarrow> agent_error \<times> 'a stream_scheme provider_state" where
  "send_request sp strerror so i body s =
     (let (h, pv) = s in
      case so_transfer so of
        None \<Rightarrow> (AGENT_ERR_OOM, s)
      | Some addr \<Rightarrow>
          if \<not> so_parser so then (AGENT_ERR_OOM, s)
          else if \<not> so_http so then
            (AGENT_OK, h, refuse sp i (error_value AGENT_ERR_HTTP) ''no HTTP runtime (async runtime not initialized)'' pv)
          else if \<not> so_slot so then (AGENT_ERR_OOM, s)
          else
            (let pv1 = (put_transfer addr (new_transfer sp i) pv)\<lparr>pv_transfers := pv_transfers pv @ [addr]\<rparr>;
                 (err, h1) = http_request_start (so_started so) (so_request so) body RAW_BODY_CAP
                   (Some (write_cb sp addr)) (Some (transfer_done_cb sp strerror addr)) h in
             if err \<noteq> AGENT_OK then
               (AGENT_OK, h1,
                transfer_free addr
                  (put_transfer addr
                    ((new_transfer sp i)\<lparr>tr_accum := emit_error (error_value AGENT_ERR_HTTP)
                        (Some ''failed to start HTTP request'') (sp_fresh sp i)\<rparr>)
                    (transfer_unregister addr pv1)))
             else (AGENT_OK, h1, put_transfer addr ((new_transfer sp i)\<lparr>tr_hr := Some (so_request so)\<rparr>) pv1)))"

text \<open>
  The whole request: \<open>auth\<close> is the outcome of \<open>provider_prepare_auth\<close> (the key, or the error text)
  and \<open>body\<close> that of the serialization.
\<close>

definition provider_request ::
  "'a stream_scheme protocol \<Rightarrow> (int \<Rightarrow> string) \<Rightarrow> string + string \<Rightarrow> agent_error \<times> http_out \<Rightarrow> send_outcomes \<Rightarrow> 64 word \<Rightarrow>
   'a stream_scheme provider_state \<Rightarrow> agent_error \<times> 'a stream_scheme provider_state" where
  "provider_request sp strerror auth body so i s =
     (case auth of
        Inl msg \<Rightarrow> (AGENT_OK, fst s, refuse sp i 401 msg (snd s))
      | Inr key \<Rightarrow>
          if fst body \<noteq> AGENT_OK then
            (AGENT_OK, fst s, refuse sp i (error_value (fst body)) ''failed to serialize request body'' (snd s))
          else send_request sp strerror so i (snd body) s)"

text \<open>The first transfer of that id is aborted; an unknown id is no error.\<close>

definition owns_request :: "64 word \<Rightarrow> 'a stream_scheme provider_io \<Rightarrow> nat \<Rightarrow> bool" where
  "owns_request i pv addr \<longleftrightarrow>
     (case pv_heap pv addr of None \<Rightarrow> False | Some t \<Rightarrow> st_request_id (tr_accum t) = i)"

definition provider_cancel ::
  "bool \<Rightarrow> 64 word \<Rightarrow> 'a stream_scheme provider_state \<Rightarrow> agent_error \<times> 'a stream_scheme provider_state" where
  "provider_cancel has_runtime i s =
     (if \<not> has_runtime then (AGENT_ERR_MODEL, s)
      else
        (case find (owns_request i (snd s)) (pv_transfers (snd s)) of
           None \<Rightarrow> (AGENT_OK, s)
         | Some addr \<Rightarrow>
             (case pv_heap (snd s) addr of
                None \<Rightarrow> (AGENT_OK, s)
              | Some t \<Rightarrow> (AGENT_OK, http_request_abort (tr_hr t) s))))"

text \<open>The loop of \<open>openai_destroy\<close>: it may not end, if an abort left its transfer in the table.\<close>

partial_function (option) drain_transfers ::
  "bool \<Rightarrow> 'a stream_scheme provider_state \<Rightarrow> 'a stream_scheme provider_state option" where
  "drain_transfers has_runtime s =
     (if pv_transfers (snd s) = [] then Some s
      else
        (let addr = last (pv_transfers (snd s)) in
         case pv_heap (snd s) addr of
           None \<Rightarrow> None
         | Some t \<Rightarrow>
             if has_runtime \<and> tr_hr t \<noteq> None then drain_transfers has_runtime (http_request_abort (tr_hr t) s)
             else drain_transfers has_runtime (fst s, transfer_free addr (transfer_unregister addr (snd s)))))"

end
