(* ===== verification/Model_Streams.thy ===== *)
theory Model_Streams
  imports Model_Transfer
begin

text \<open>
  The contract of a provider and what follows from it.  \<open>stream_ok\<close> is the protocol of the events a
  request delivers: one terminal event, the last; each tool call started once, before its fragments.
  The locale \<open>stream_protocol\<close> states what a provider promises about its accumulator, and
  concludes what the transfers, the HTTP requests and the table of a provider do together.
\<close>

section \<open>Well-formed streams\<close>

fun started :: "model_event list \<Rightarrow> nat list" where
  "started [] = []"
| "started (e # es) = (case me_body e of Tool_Call_Start i _ _ \<Rightarrow> i # started es | _ \<Rightarrow> started es)"

text \<open>What an event may refer to, given the calls started before.\<close>

fun tool_allowed :: "nat list \<Rightarrow> model_event_body \<Rightarrow> bool" where
  "tool_allowed begun (Tool_Call_Start i _ _) = (i \<notin> set begun)"
| "tool_allowed begun (Tool_Call_Delta i _) = (i \<in> set begun)"
| "tool_allowed begun (Tool_Call_End i) = (i \<in> set begun)"
| "tool_allowed begun _ = True"

fun tools_ok_rev :: "model_event list \<Rightarrow> bool" where
  "tools_ok_rev [] = True"
| "tools_ok_rev (e # older) = (tools_ok_rev older \<and> tool_allowed (started (rev older)) (me_body e))"

definition tools_ok :: "model_event list \<Rightarrow> bool" where
  "tools_ok out = tools_ok_rev (rev out)"

text \<open>All that a request delivers when its stream is over.\<close>

definition complete_stream :: "64 word \<Rightarrow> model_event list \<Rightarrow> bool" where
  "complete_stream i out \<longleftrightarrow>
     out \<noteq> [] \<and> terminal_event (me_body (last out)) \<and> (\<forall>e\<in>set (butlast out). \<not> terminal_event (me_body e)) \<and>
     (\<forall>e\<in>set out. me_request_id e = i) \<and> tools_ok out"

definition stream_closed :: "'a stream_scheme \<Rightarrow> bool" where
  "stream_closed a \<longleftrightarrow> error_emitted a \<or> done_emitted a"

definition stream_ok :: "'a stream_scheme \<Rightarrow> bool" where
  "stream_ok a \<longleftrightarrow>
     (if stream_closed a then complete_stream (st_request_id a) (st_out a)
      else (\<forall>e\<in>set (st_out a). me_request_id e = st_request_id a \<and> \<not> terminal_event (me_body e)) \<and>
           tools_ok (st_out a))"

lemma started_append [simp]: "started (xs @ ys) = started xs @ started ys"
  by (induction xs) (auto split: model_event_body.splits)

lemma tools_ok_Nil [simp]: "tools_ok []"
  by (simp add: tools_ok_def)

lemma tools_ok_snoc [simp]: "tools_ok (out @ [e]) \<longleftrightarrow> tools_ok out \<and> tool_allowed (started out) (me_body e)"
  by (simp add: tools_ok_def)

lemma terminal_simps [simp]:
  "terminal_event (Done_Event r)" "terminal_event (Error_Event c m)" "\<not> terminal_event (Text_Delta d)"
  "\<not> terminal_event (Reasoning_Delta d)" "\<not> terminal_event (Tool_Call_Start i x n)"
  "\<not> terminal_event (Tool_Call_Delta i d)" "\<not> terminal_event (Tool_Call_End i)" "\<not> terminal_event (Usage_Report u)"
  by (simp_all add: terminal_event_def)

named_theorems emit_defs \<open>the functions that deliver an event\<close>

declare emit_model_event_def [emit_defs] emit_text_def [emit_defs] emit_reasoning_def [emit_defs]
  emit_tool_start_def [emit_defs] emit_tool_delta_def [emit_defs] emit_tool_end_def [emit_defs]
  emit_error_def [emit_defs] emit_done_def [emit_defs]

lemma emit_fields [simp]:
  "st_request_id (emit_model_event b a) = st_request_id a"
  "error_emitted (emit_model_event b a) = error_emitted a"
  "done_emitted (emit_model_event b a) = done_emitted a"
  "stream.more (emit_model_event b a) = stream.more a"
  by (simp_all add: emit_model_event_def)

lemma emit_out:
  "st_out (emit_model_event b a) =
   (if stream_closed a then st_out a else st_out a @ [\<lparr>me_request_id = st_request_id a, me_body = b\<rparr>])"
  by (simp add: emit_model_event_def stream_closed_def)

lemma emit_event_ok:
  assumes "stream_ok a" and "\<not> stream_closed a \<Longrightarrow> \<not> terminal_event b \<and> tool_allowed (started (st_out a)) b"
  shows "stream_ok (emit_model_event b a)"
  using assms by (auto simp: stream_ok_def emit_out stream_closed_def)

lemma emit_error_ok:
  "stream_ok a \<Longrightarrow> stream_ok (emit_error code msg a) \<and> stream_closed (emit_error code msg a)"
  by (auto simp: stream_ok_def emit_error_def stream_closed_def emit_model_event_def complete_stream_def)

lemma emit_done_ok:
  "stream_ok a \<Longrightarrow> stream_ok (emit_done reason a) \<and> stream_closed (emit_done reason a)"
  by (auto simp: stream_ok_def emit_done_def stream_closed_def emit_model_event_def complete_stream_def)

lemma closing_fields [simp]:
  "st_request_id (emit_error code msg a) = st_request_id a" "st_request_id (emit_done reason a) = st_request_id a"
  "stream.more (emit_error code msg a) = stream.more a" "stream.more (emit_done reason a) = stream.more a"
  "stream_closed (emit_error code msg a)" "stream_closed (emit_done reason a)"
  by (simp_all add: emit_error_def emit_done_def stream_closed_def)

lemma closed_complete: "stream_ok a \<Longrightarrow> stream_closed a \<Longrightarrow> complete_stream (st_request_id a) (st_out a)"
  by (simp add: stream_ok_def)

section \<open>States of a provider\<close>

definition request_ids :: "'a stream_scheme provider_io \<Rightarrow> 64 word list" where
  "request_ids pv = map (\<lambda>addr. st_request_id (tr_accum (the (pv_heap pv addr)))) (pv_transfers pv)"

text \<open>The transfer at \<open>addr\<close> is served by the HTTP request \<open>r\<close>.\<close>

definition serves ::
  "'a stream_scheme protocol \<Rightarrow> (int \<Rightarrow> string) \<Rightarrow> 'a stream_scheme provider_io http_request \<Rightarrow>
   nat \<Rightarrow> 'a stream_scheme transfer \<Rightarrow> bool" where
  "serves sp strerror r addr t \<longleftrightarrow> tr_hr t = Some (hq_addr r) \<and> hq_write_cb r = Some (write_cb sp addr) \<and>
     hq_done_cb r = Some (transfer_done_cb sp strerror addr)"

text \<open>What a request has received when it is answered: the output of an accumulator that is closed.\<close>

definition final :: "('a stream_scheme \<Rightarrow> bool) \<Rightarrow> 64 word \<Rightarrow> model_event list \<Rightarrow> bool" where
  "final ok i out \<longleftrightarrow> (\<exists>a. ok a \<and> stream_closed a \<and> st_request_id a = i \<and> st_out a = out)"

definition io_ok ::
  "('a stream_scheme \<Rightarrow> bool) \<Rightarrow> 'a stream_scheme protocol \<Rightarrow> (int \<Rightarrow> string) \<Rightarrow> 'a stream_scheme provider_state \<Rightarrow> bool" where
  "io_ok ok sp strerror s \<longleftrightarrow>
     http_ok (fst s) \<and> distinct (pv_transfers (snd s)) \<and>
     (\<forall>addr. pv_heap (snd s) addr \<noteq> None \<longleftrightarrow> addr \<in> set (pv_transfers (snd s))) \<and>
     (\<forall>addr t. pv_heap (snd s) addr = Some t \<longrightarrow> ok (tr_accum t) \<and> \<not> tr_finished t \<and>
        (\<exists>r\<in>set (h_requests (fst s)). serves sp strerror r addr t)) \<and>
     (\<forall>r\<in>set (h_requests (fst s)). \<exists>addr t. pv_heap (snd s) addr = Some t \<and> serves sp strerror r addr t) \<and>
     (\<forall>a b t u. pv_heap (snd s) a = Some t \<and> pv_heap (snd s) b = Some u \<and> tr_hr t = tr_hr u \<longrightarrow> a = b) \<and>
     (\<forall>(i, out)\<in>set (pv_released (snd s)). final ok i out)"

text \<open>Every accepted request is either in the table or answered.\<close>

definition accounted :: "64 word list \<Rightarrow> 'a stream_scheme provider_io \<Rightarrow> bool" where
  "accounted ids pv \<longleftrightarrow> mset ids = mset (request_ids pv) + mset (map fst (pv_released pv))"

text \<open>What happens to a provider: requests, chunks, completions, cancels, and memory that comes and goes.\<close>

inductive io_reach ::
  "'a stream_scheme protocol \<Rightarrow> (int \<Rightarrow> string) \<Rightarrow> 'a stream_scheme provider_state \<Rightarrow> 64 word list \<Rightarrow> bool"
  for sp strerror where
  Start: "io_reach sp strerror (http_new, \<lparr>pv_transfers = [], pv_heap = (\<lambda>_. None), pv_released = [], pv_mem = m, pv_raw_ok = b\<rparr>) []"
| Request: "io_reach sp strerror s ids \<Longrightarrow>
    (\<forall>addr. so_transfer so = Some addr \<longrightarrow> pv_heap (snd s) addr = None) \<Longrightarrow> find_request (fst s) (so_request so) = None \<Longrightarrow>
    provider_request sp strerror auth body so i s = (rc, s') \<Longrightarrow>
    io_reach sp strerror s' (if rc = AGENT_OK then ids @ [i] else ids)"
| Chunk: "io_reach sp strerror s ids \<Longrightarrow> http_write_cb hr data s = (n, s') \<Longrightarrow> io_reach sp strerror s' ids"
| Completed: "io_reach sp strerror s ids \<Longrightarrow> io_reach sp strerror (process_multi_info ms s) ids"
| Cancelled: "io_reach sp strerror s ids \<Longrightarrow> provider_cancel rt i s = (rc, s') \<Longrightarrow> io_reach sp strerror s' ids"
| Memory: "io_reach sp strerror (h, pv) ids \<Longrightarrow> io_reach sp strerror (h, pv\<lparr>pv_mem := m, pv_raw_ok := b\<rparr>) ids"

text \<open>The promises: each accepted request is in flight or answered, and an answer is complete.\<close>

definition answered_all :: "'a stream_scheme provider_state \<Rightarrow> 64 word list \<Rightarrow> bool" where
  "answered_all s ids \<longleftrightarrow>
     mset ids = mset (request_ids (snd s)) + mset (map fst (pv_released (snd s))) \<and>
     (\<forall>(i, out)\<in>set (pv_released (snd s)). complete_stream i out) \<and>
     (h_requests (fst s) = [] \<longrightarrow> mset ids = mset (map fst (pv_released (snd s))))"

text \<open>One request of that id is answered, and every other transfer is as it was.\<close>

definition cancels_one :: "64 word \<Rightarrow> 'a stream_scheme provider_state \<Rightarrow> 'a stream_scheme provider_state \<Rightarrow> bool" where
  "cancels_one i s s' \<longleftrightarrow> (\<exists>addr t out. pv_heap (snd s) addr = Some t \<and> st_request_id (tr_accum t) = i \<and>
     complete_stream i out \<and> pv_released (snd s') = pv_released (snd s) @ [(i, out)] \<and>
     pv_heap (snd s') = (pv_heap (snd s))(addr := None))"

section \<open>The contract of a provider\<close>

lemma feed_transfer_frame:
  assumes "feed_transfer sp raw_ok mem data t = (n, t')"
  shows "tr_hr t' = tr_hr t \<and> tr_finished t' = tr_finished t \<and>
         (\<exists>evs. tr_accum t' = foldl (\<lambda>a ev. sp_on_event sp ev a) (tr_accum t) evs)"
proof -
  obtain rc evs p where f: "sse_parser_feed mem (tr_sse t) data = (rc, evs, p)" by (metis surj_pair)
  with assms have "tr_accum t' = foldl (\<lambda>a ev. sp_on_event sp ev a) (tr_accum t) evs"
    "tr_hr t' = tr_hr t" "tr_finished t' = tr_finished t"
    by (auto simp: feed_transfer_def Let_def)
  then show ?thesis by blast
qed

lemma find_request_Some:
  "find_request h addr = Some r \<Longrightarrow> r \<in> set (h_requests h) \<and> hq_addr r = addr"
  by (auto simp: find_request_def find_Some_iff)

lemma find_request_None: "find_request h addr = None \<longleftrightarrow> (\<forall>r\<in>set (h_requests h). hq_addr r \<noteq> addr)"
  by (auto simp: find_request_def find_None_iff)

lemma http_ok_unique:
  "http_ok h \<Longrightarrow> r \<in> set (h_requests h) \<Longrightarrow> r' \<in> set (h_requests h) \<Longrightarrow> hq_addr r = hq_addr r' \<Longrightarrow> r = r'"
  by (auto simp: http_ok_def distinct_map inj_on_def)

lemma http_ok_find: "http_ok h \<Longrightarrow> r \<in> set (h_requests h) \<Longrightarrow> find_request h (hq_addr r) = Some r"
proof (cases "find_request h (hq_addr r)")
  case (Some q)
  assume "http_ok h" "r \<in> set (h_requests h)"
  with http_ok_unique [of h r q] find_request_Some [OF Some] Some show ?thesis by metis
qed (metis find_request_None)

lemma mset_minus_one:
  assumes "mset ys = mset xs - {#x#}" and "distinct xs"
  shows "distinct ys \<and> set ys = set xs - {x}"
proof -
  have "mset ys = mset (remove1 x xs)" using assms(1) by simp
  with assms(2) show ?thesis by (metis distinct_remove1 mset_eq_imp_distinct_iff mset_eq_setD set_remove1_eq)
qed

lemma mset_minus_length: "mset ys = mset xs - {#x#} \<Longrightarrow> x \<in> set xs \<Longrightarrow> length ys = length xs - 1"
  by (metis length_remove1 mset_remove1 size_mset)

lemma io_okD:
  assumes "io_ok ok sp strerror s"
  shows "http_ok (fst s)" "distinct (pv_transfers (snd s))"
    "pv_heap (snd s) addr \<noteq> None \<longleftrightarrow> addr \<in> set (pv_transfers (snd s))"
    "pv_heap (snd s) addr = Some t \<Longrightarrow> ok (tr_accum t) \<and> \<not> tr_finished t"
    "pv_heap (snd s) addr = Some t \<Longrightarrow> \<exists>r\<in>set (h_requests (fst s)). serves sp strerror r addr t"
    "r \<in> set (h_requests (fst s)) \<Longrightarrow> \<exists>addr t. pv_heap (snd s) addr = Some t \<and> serves sp strerror r addr t"
    "pv_heap (snd s) addr = Some t \<Longrightarrow> pv_heap (snd s) b = Some u \<Longrightarrow> tr_hr t = tr_hr u \<Longrightarrow> addr = b"
    "(i, out) \<in> set (pv_released (snd s)) \<Longrightarrow> final ok i out"
  using assms unfolding io_ok_def by blast+

lemma request_ids_removed:
  assumes "distinct (pv_transfers pv)" and "addr \<in> set (pv_transfers pv)" and "pv_heap pv addr = Some t"
    and "pv_heap pv' = (pv_heap pv)(addr := None)" and "mset (pv_transfers pv') = mset (pv_transfers pv) - {#addr#}"
  shows "mset (request_ids pv) = add_mset (st_request_id (tr_accum t)) (mset (request_ids pv'))"
proof -
  let ?f = "\<lambda>pv a. st_request_id (tr_accum (the (pv_heap pv a)))"
  have e: "mset (pv_transfers pv) = add_mset addr (mset (pv_transfers pv'))"
    using assms(2,5) by simp
  have n: "addr \<notin> set (pv_transfers pv')" using mset_minus_one [OF assms(5,1)] by simp
  have "image_mset (?f pv) (mset (pv_transfers pv')) = image_mset (?f pv') (mset (pv_transfers pv'))"
    by (rule image_mset_cong) (use n assms(4) in auto)
  with e assms(3) show ?thesis by (simp add: request_ids_def)
qed

locale stream_protocol =
  fixes sp :: "'b stream_scheme protocol"
    and ok :: "'b stream_scheme \<Rightarrow> bool"
  assumes fresh_ok: "ok (sp_fresh sp i)"
    and fresh_open: "\<not> stream_closed (sp_fresh sp i)"
    and fresh_id: "st_request_id (sp_fresh sp i) = i"
    and ok_stream: "ok a \<Longrightarrow> stream_ok a"
    and event_ok: "ok a \<Longrightarrow> ok (sp_on_event sp ev a)"
    and event_id: "st_request_id (sp_on_event sp ev a) = st_request_id a"
    and settle_ok: "ok a \<Longrightarrow> ok (sp_settle sp a)"
    and settle_id: "st_request_id (sp_settle sp a) = st_request_id a"
    and settle_closes: "ok a \<Longrightarrow> \<not> stream_closed a \<Longrightarrow> stream_closed (sp_settle sp a)"
    and error_ok: "ok a \<Longrightarrow> ok (emit_error code msg a)"
begin

lemma events_ok:
  "ok a \<Longrightarrow> ok (foldl (\<lambda>a ev. sp_on_event sp ev a) a evs) \<and>
     st_request_id (foldl (\<lambda>a ev. sp_on_event sp ev a) a evs) = st_request_id a"
  by (induction evs arbitrary: a) (simp_all add: event_ok event_id)

lemma end_stream_complete:
  assumes "ok (tr_accum t)" and "end_stream sp strerror mem info t = t'"
  shows "final ok (st_request_id (tr_accum t)) (st_out (tr_accum t')) \<and>
         st_request_id (tr_accum t') = st_request_id (tr_accum t)"
proof -
  obtain evs p where f: "sse_parser_finish mem (tr_sse t) = (evs, p)" by (metis surj_pair)
  let ?a1 = "foldl (\<lambda>a ev. sp_on_event sp ev a) (tr_accum t) evs"
  let ?a2 = "if http_success info \<and> \<not> done_emitted ?a1 \<and> \<not> error_emitted ?a1 then sp_settle sp ?a1 else ?a1"
  let ?a3 = "report_failure strerror info (tr_raw_body t) ?a2"
  note e = events_ok [OF assms(1), of evs]
  have a2: "ok ?a2" "st_request_id ?a2 = st_request_id (tr_accum t)" using e by (auto simp: settle_ok settle_id)
  have c: "http_success info \<longrightarrow> stream_closed ?a2"
    using e settle_closes [of ?a1] by (auto simp: stream_closed_def)
  have a3: "ok ?a3" "st_request_id ?a3 = st_request_id (tr_accum t)" "stream_closed ?a3"
    using a2 c by (auto simp: report_failure_def error_ok http_success_def)
  from assms(2) f have "tr_accum t' = ?a3" by (auto simp: end_stream_def Let_def)
  with a3 show ?thesis by (auto simp: final_def)
qed

lemma refuse_ok:
  "final ok i (st_out (emit_error code msg (sp_fresh sp i)))"
  unfolding final_def
  by (rule exI [of _ "emit_error code msg (sp_fresh sp i)"]) (simp add: error_ok fresh_ok fresh_id)

lemma final_complete: "final ok i out \<Longrightarrow> complete_stream i out"
  using closed_complete ok_stream by (auto simp: final_def)

lemma done_cb_effect:
  assumes "pv_heap pv addr = Some t" and "\<not> tr_finished t"
  shows "transfer_done_cb sp strerror addr info pv =
     pv\<lparr>pv_transfers := swap_remove (\<lambda>x. x = addr) (pv_transfers pv), pv_heap := (pv_heap pv)(addr := None),
        pv_released := pv_released pv @ [(st_request_id (tr_accum (end_stream sp strerror (pv_mem pv) info t)),
                                          st_out (tr_accum (end_stream sp strerror (pv_mem pv) info t)))]\<rparr>"
  using assms by (simp add: transfer_done_cb_def transfer_free_def put_transfer_def transfer_unregister_def)

text \<open>Ending one HTTP request answers its transfer and leaves the others alone.\<close>

lemma finish_effect:
  assumes inv: "io_ok ok sp strerror s" and r: "r \<in> set (h_requests (fst s))"
    and t: "pv_heap (snd s) addr = Some t" "serves sp strerror r addr t"
    and f: "finish_request (r\<lparr>hq_rc := c, hq_http_status := st\<rparr>) s = s'"
  shows "\<exists>out. final ok (st_request_id (tr_accum t)) out \<and>
     pv_released (snd s') = pv_released (snd s) @ [(st_request_id (tr_accum t), out)] \<and>
     pv_heap (snd s') = (pv_heap (snd s))(addr := None) \<and>
     mset (pv_transfers (snd s')) = mset (pv_transfers (snd s)) - {#addr#} \<and>
     mset (h_requests (fst s')) = mset (h_requests (fst s)) - {#r#} \<and>
     h_active (fst s') = h_active (fst s) - 1"
proof -
  obtain h pv where s: "s = (h, pv)" by (metis surj_pair)
  let ?info = "\<lparr>info_rc = c, info_http_status = st, info_body = hq_response r\<rparr>"
  let ?t' = "end_stream sp strerror (pv_mem pv) ?info t"
  have n: "\<not> hq_finished r" "\<not> tr_finished t" "ok (tr_accum t)"
    using io_okD(1,4) [OF inv] r t(1) by (auto simp: http_ok_def)
  have e: "final ok (st_request_id (tr_accum t)) (st_out (tr_accum ?t'))"
    "st_request_id (tr_accum ?t') = st_request_id (tr_accum t)"
    using end_stream_complete [OF n(3) refl, of strerror "pv_mem pv" ?info] by auto
  have cb: "hq_done_cb r = Some (transfer_done_cb sp strerror addr)" using t(2) by (simp add: serves_def)
  have s': "s' = (h\<lparr>h_requests := swap_remove (\<lambda>x. hq_addr x = hq_addr r) (h_requests h), h_active := h_active h - 1\<rparr>,
      transfer_done_cb sp strerror addr ?info pv)"
    using f n(1) cb s by (simp add: finish_request_def)
  have m1: "mset (swap_remove (\<lambda>x. hq_addr x = hq_addr r) (h_requests h)) = mset (h_requests h) - {#r#}"
  proof (rule swap_remove_mset)
    show "r \<in> set (h_requests h)" using r s by simp
    show "y = r" if "y \<in> set (h_requests h)" "hq_addr y = hq_addr r" for y
      by (rule http_ok_unique [of h]) (use that r s io_okD(1) [OF inv] in simp_all)
  qed simp
  have a: "addr \<in> set (pv_transfers pv)" using io_okD(3) [OF inv, of addr] t(1) s by simp
  have m2: "mset (swap_remove (\<lambda>x. x = addr) (pv_transfers pv)) = mset (pv_transfers pv) - {#addr#}"
    by (rule swap_remove_mset) (use a in simp_all)
  have pv': "snd s' = pv\<lparr>pv_transfers := swap_remove (\<lambda>x. x = addr) (pv_transfers pv), pv_heap := (pv_heap pv)(addr := None),
        pv_released := pv_released pv @ [(st_request_id (tr_accum ?t'), st_out (tr_accum ?t'))]\<rparr>"
    using s' done_cb_effect [OF _ n(2), of pv addr strerror ?info] t(1) s by simp
  show ?thesis
    by (rule exI [of _ "st_out (tr_accum ?t')"]) (use e s s' pv' m1 m2 in simp)
qed

lemma finish_io_ok:
  assumes inv: "io_ok ok sp strerror s" and r: "r \<in> set (h_requests (fst s))"
    and t: "pv_heap (snd s) addr = Some t" "serves sp strerror r addr t"
    and f: "finish_request (r\<lparr>hq_rc := c, hq_http_status := st\<rparr>) s = s'"
  shows "io_ok ok sp strerror s'"
proof -
  from finish_effect [OF assms] obtain out where o: "final ok (st_request_id (tr_accum t)) out"
    "pv_released (snd s') = pv_released (snd s) @ [(st_request_id (tr_accum t), out)]"
    "pv_heap (snd s') = (pv_heap (snd s))(addr := None)"
    "mset (pv_transfers (snd s')) = mset (pv_transfers (snd s)) - {#addr#}"
    "mset (h_requests (fst s')) = mset (h_requests (fst s)) - {#r#}" "h_active (fst s') = h_active (fst s) - 1" by blast
  have d: "distinct (map hq_addr (h_requests (fst s)))" "distinct (pv_transfers (snd s))"
    "h_active (fst s) = length (h_requests (fst s))" using inv by (auto simp: io_ok_def http_ok_def)
  have dr: "distinct (h_requests (fst s))" using d(1) by (simp add: distinct_map)
  have sr: "set (h_requests (fst s')) = set (h_requests (fst s)) - {r}" "distinct (map hq_addr (h_requests (fst s')))"
    using mset_minus_one [OF o(5) dr] d(1) by (auto simp: distinct_map inj_on_def)
  note sa = mset_minus_one [OF o(4) d(2)]
  have la: "h_active (fst s') = length (h_requests (fst s'))"
    using o(6) d(3) mset_minus_length [OF o(5) r] by simp
  have ok': "http_ok (fst s')" using inv la sr by (auto simp: io_ok_def http_ok_def)
  have inj: "b = addr" if "pv_heap (snd s) b = Some u" "tr_hr u = Some (hq_addr r)" for b u
    using io_okD(7) [OF inv that(1) t(1)] that(2) t(2) by (simp add: serves_def)
  show ?thesis
    unfolding io_ok_def
  proof (intro conjI allI impI ballI)
    show "http_ok (fst s')" "distinct (pv_transfers (snd s'))" using ok' sa by simp_all
  next
    fix b show "(pv_heap (snd s') b \<noteq> None) = (b \<in> set (pv_transfers (snd s')))"
      using io_okD(3) [OF inv, of b] o(3) sa by auto
  next
    fix b u assume "pv_heap (snd s') b = Some u"
    then have b: "b \<noteq> addr" "pv_heap (snd s) b = Some u" using o(3) by (auto split: if_splits)
    then obtain q where q: "q \<in> set (h_requests (fst s))" "serves sp strerror q b u"
      using io_okD(5) [OF inv] by blast
    with inj [OF b(2)] b(1) have "q \<noteq> r" by (auto simp: serves_def)
    then show "\<exists>r\<in>set (h_requests (fst s')). serves sp strerror r b u" using q sr(1) by auto
    show "ok (tr_accum u)" "\<not> tr_finished u" using io_okD(4) [OF inv b(2)] by simp_all
  next
    fix q assume q: "q \<in> set (h_requests (fst s'))"
    then obtain b u where b: "pv_heap (snd s) b = Some u" "serves sp strerror q b u"
      using io_okD(6) [OF inv] sr(1) by blast
    have "b \<noteq> addr"
    proof
      assume "b = addr"
      with b t have "hq_addr q = hq_addr r" by (simp add: serves_def)
      with http_ok_unique [OF io_okD(1) [OF inv] _ r] q sr(1) show False by blast
    qed
    with b o(3) show "\<exists>b u. pv_heap (snd s') b = Some u \<and> serves sp strerror q b u" by auto
  next
    fix a b u v assume "pv_heap (snd s') a = Some u \<and> pv_heap (snd s') b = Some v \<and> tr_hr u = tr_hr v"
    then have "pv_heap (snd s) a = Some u" "pv_heap (snd s) b = Some v" "tr_hr u = tr_hr v"
      using o(3) by (simp_all split: if_splits)
    then show "a = b" by (rule io_okD(7) [OF inv])
  next
    fix x assume "x \<in> set (pv_released (snd s'))"
    then show "case x of (i, out) \<Rightarrow> final ok i out" using io_okD(8) [OF inv] o(1,2) by auto
  qed
qed

lemma finish_ok:
  assumes inv: "io_ok ok sp strerror s" and acc: "accounted ids (snd s)" and r: "r \<in> set (h_requests (fst s))"
    and f: "finish_request (r\<lparr>hq_rc := c, hq_http_status := st\<rparr>) s = s'"
  shows "io_ok ok sp strerror s' \<and> accounted ids (snd s')"
proof -
  obtain addr t where t: "pv_heap (snd s) addr = Some t" "serves sp strerror r addr t"
    using io_okD(6) [OF inv r] by blast
  from finish_effect [OF inv r t f] obtain out where o:
    "pv_released (snd s') = pv_released (snd s) @ [(st_request_id (tr_accum t), out)]"
    "pv_heap (snd s') = (pv_heap (snd s))(addr := None)"
    "mset (pv_transfers (snd s')) = mset (pv_transfers (snd s)) - {#addr#}" by blast
  have a: "addr \<in> set (pv_transfers (snd s))" using io_okD(3) [OF inv, of addr] t(1) by simp
  from request_ids_removed [OF io_okD(2) [OF inv] a t(1) o(2,3)] acc o(1)
  have "accounted ids (snd s')" by (simp add: accounted_def)
  with finish_io_ok [OF inv r t f] show ?thesis by simp
qed

lemma message_ok:
  assumes "io_ok ok sp strerror s" and "accounted ids (snd s)"
  shows "io_ok ok sp strerror (process_message m s) \<and> accounted ids (snd (process_message m s))"
proof -
  obtain addr rc st where m: "m = (addr, rc, st)" by (metis surj_pair)
  show ?thesis
  proof (cases "find_request (fst s) addr")
    case None
    with assms m show ?thesis by (simp add: process_message_def)
  next
    case (Some r)
    then have "process_message m s = finish_request (r\<lparr>hq_rc := rc, hq_http_status := st\<rparr>) s"
      using m by (simp add: process_message_def)
    with finish_ok [OF assms] find_request_Some [OF Some] show ?thesis by metis
  qed
qed

lemma messages_ok:
  "io_ok ok sp strerror s \<Longrightarrow> accounted ids (snd s) \<Longrightarrow>
   io_ok ok sp strerror (process_multi_info ms s) \<and> accounted ids (snd (process_multi_info ms s))"
proof (induction ms arbitrary: s)
  case (Cons m ms)
  with message_ok [OF Cons.prems, of m] show ?case by (simp add: process_multi_info_def)
qed (simp add: process_multi_info_def)

lemma abort_ok:
  assumes "io_ok ok sp strerror s" and "accounted ids (snd s)"
  shows "io_ok ok sp strerror (http_request_abort hr s) \<and> accounted ids (snd (http_request_abort hr s))"
proof (cases "\<exists>addr r. hr = Some addr \<and> find_request (fst s) addr = Some r \<and> \<not> hq_finished r")
  case True
  then obtain addr r where h: "hr = Some addr" "find_request (fst s) addr = Some r" "\<not> hq_finished r" by blast
  then have "http_request_abort hr s = finish_request (r\<lparr>hq_rc := CURLE_ABORTED_BY_CALLBACK, hq_http_status := 0\<rparr>) s"
    by (simp add: http_request_abort_def)
  with finish_ok [OF assms] find_request_Some [OF h(2)] show ?thesis by metis
next
  case False
  then have "http_request_abort hr s = s" by (auto simp: http_request_abort_def split: option.splits)
  with assms show ?thesis by simp
qed

lemma cancel_ok:
  assumes "io_ok ok sp strerror s" and "accounted ids (snd s)"
  shows "io_ok ok sp strerror (snd (provider_cancel rt i s)) \<and> accounted ids (snd (snd (provider_cancel rt i s)))"
  using assms abort_ok [OF assms] by (simp add: provider_cancel_def split: option.split)

lemma refuse_io_ok:
  assumes "io_ok ok sp strerror (h, pv)" and "accounted ids pv"
  shows "io_ok ok sp strerror (h, refuse sp i code msg pv) \<and> accounted (ids @ [i]) (refuse sp i code msg pv)"
  using assms by (simp add: io_ok_def refuse_def refuse_ok accounted_def request_ids_def)

lemma set_request_ok:
  assumes "http_ok h" and "r \<in> set (h_requests h)"
  shows "http_ok (set_request h (cap_response r data)) \<and>
    h_requests (set_request h (cap_response r data)) = map (\<lambda>q. if q = r then cap_response r data else q) (h_requests h)"
proof -
  have c: "hq_addr (cap_response r data) = hq_addr r" "hq_finished (cap_response r data) = hq_finished r"
    by (simp_all add: cap_response_def)
  have e: "h_requests (set_request h (cap_response r data)) = map (\<lambda>q. if q = r then cap_response r data else q) (h_requests h)"
    using http_ok_unique [OF assms(1) _ assms(2)] c by (auto simp: set_request_def)
  have a: "map hq_addr (h_requests (set_request h (cap_response r data))) = map hq_addr (h_requests h)"
    unfolding e using c by auto
  have l: "h_active (set_request h (cap_response r data)) = length (h_requests (set_request h (cap_response r data)))"
    using assms(1) by (simp add: http_ok_def set_request_def)
  have "\<forall>q\<in>set (h_requests (set_request h (cap_response r data))). \<not> hq_finished q"
    unfolding e using assms c by (auto simp: http_ok_def)
  moreover have "distinct (map hq_addr (h_requests (set_request h (cap_response r data))))"
    unfolding a using assms(1) by (simp add: http_ok_def)
  ultimately show ?thesis using l e unfolding http_ok_def by blast
qed

lemma serves_capped [simp]: "serves sp strerror (cap_response r data) addr t = serves sp strerror r addr t"
  by (simp add: serves_def cap_response_def)

lemma chunk_ok:
  assumes inv: "io_ok ok sp strerror s" and acc: "accounted ids (snd s)" and w: "http_write_cb hr data s = (n, s')"
  shows "io_ok ok sp strerror s' \<and> accounted ids (snd s')"
proof (cases "find_request (fst s) hr")
  case None
  with w inv acc show ?thesis by (simp add: http_write_cb_def)
next
  case (Some r)
  note r = find_request_Some [OF Some]
  obtain addr t where t: "pv_heap (snd s) addr = Some t" "serves sp strerror r addr t"
    using io_okD(6) [OF inv] r by blast
  obtain m t' where ft: "feed_transfer sp (pv_raw_ok (snd s)) (pv_mem (snd s)) data t = (m, t')" by (metis surj_pair)
  note fr = feed_transfer_frame [OF ft]
  have s': "s' = (set_request (fst s) (cap_response r data), put_transfer addr t' (snd s))"
    using w Some t ft by (simp add: http_write_cb_def serves_def write_cb_def)
  note sr = set_request_ok [OF io_okD(1) [OF inv], of r data]
  have live: "pv_heap (snd s') b = Some u \<Longrightarrow>
      \<exists>v. pv_heap (snd s) b = Some v \<and> tr_hr v = tr_hr u \<and> ok (tr_accum u) \<and> \<not> tr_finished u \<and>
        st_request_id (tr_accum v) = st_request_id (tr_accum u)" for b u
    using io_okD(4) [OF inv, of b] t fr events_ok s' by (auto simp: put_transfer_def split: if_splits)
  have some: "pv_heap (snd s') b = None \<longleftrightarrow> pv_heap (snd s) b = None" for b using s' t by (simp add: put_transfer_def)
  have sv: "tr_hr u = tr_hr v \<Longrightarrow> serves sp strerror q b u = serves sp strerror q b v" for q b u v by (simp add: serves_def)
  have "io_ok ok sp strerror s'"
    unfolding io_ok_def
  proof (intro conjI allI impI ballI)
    show "http_ok (fst s')" using sr r s' by simp
    show "distinct (pv_transfers (snd s'))" using io_okD(2) [OF inv] s' by (simp add: put_transfer_def)
    show "(pv_heap (snd s') b \<noteq> None) = (b \<in> set (pv_transfers (snd s')))" for b
      using io_okD(3) [OF inv, of b] some [of b] s' by (simp add: put_transfer_def)
  next
    fix b u assume u: "pv_heap (snd s') b = Some u"
    from live [OF u] obtain v where v: "pv_heap (snd s) b = Some v" "tr_hr v = tr_hr u" "ok (tr_accum u)" "\<not> tr_finished u" by blast
    show "ok (tr_accum u)" "\<not> tr_finished u" by fact+
    from io_okD(5) [OF inv v(1)] obtain q where q: "q \<in> set (h_requests (fst s))" "serves sp strerror q b v" by blast
    then have "(if q = r then cap_response r data else q) \<in> set (h_requests (fst s'))" using sr r s' by auto
    moreover have "serves sp strerror (if q = r then cap_response r data else q) b u"
      using q(2) sv [OF v(2)] by (cases "q = r") simp_all
    ultimately show "\<exists>r\<in>set (h_requests (fst s')). serves sp strerror r b u" by blast
  next
    fix q assume "q \<in> set (h_requests (fst s'))"
    then obtain q0 where q0: "q0 \<in> set (h_requests (fst s))" "q = (if q0 = r then cap_response r data else q0)"
      using sr r s' by fastforce
    from io_okD(6) [OF inv q0(1)] obtain b v where b: "pv_heap (snd s) b = Some v" "serves sp strerror q0 b v" by blast
    obtain u where u: "pv_heap (snd s') b = Some u" using some [of b] b(1) by (cases "pv_heap (snd s') b") auto
    from live [OF u] b(1) have "tr_hr v = tr_hr u" by auto
    from sv [OF this] b(2) have "serves sp strerror q0 b u" by simp
    then have "serves sp strerror q b u" using q0(2) by (cases "q0 = r") simp_all
    with u show "\<exists>b u. pv_heap (snd s') b = Some u \<and> serves sp strerror q b u" by blast
  next
    fix a b u v assume "pv_heap (snd s') a = Some u \<and> pv_heap (snd s') b = Some v \<and> tr_hr u = tr_hr v"
    then have uv: "pv_heap (snd s') a = Some u" "pv_heap (snd s') b = Some v" "tr_hr u = tr_hr v" by simp_all
    obtain u' v' where "pv_heap (snd s) a = Some u'" "pv_heap (snd s) b = Some v'" "tr_hr u' = tr_hr u" "tr_hr v' = tr_hr v"
      using live [OF uv(1)] live [OF uv(2)] by blast
    with uv(3) have "pv_heap (snd s) a = Some u'" "pv_heap (snd s) b = Some v'" "tr_hr u' = tr_hr v'" by simp_all
    then show "a = b" by (rule io_okD(7) [OF inv])
  next
    fix x assume "x \<in> set (pv_released (snd s'))"
    then show "case x of (i, out) \<Rightarrow> final ok i out" using io_okD(8) [OF inv] s' by (auto simp: put_transfer_def)
  qed
  moreover have "request_ids (snd s') = request_ids (snd s)"
    using s' t(1) fr events_ok io_okD(4) [OF inv t(1)] by (auto simp: request_ids_def put_transfer_def)
  ultimately show ?thesis using acc s' by (simp add: accounted_def put_transfer_def)
qed

lemma send_accepted_ok:
  fixes i :: "64 word" and body :: http_out and cap :: nat and hr :: nat
  assumes inv: "io_ok ok sp strerror (h, pv)" and acc: "accounted ids pv"
    and fresh: "pv_heap pv addr = None" "find_request h hr = None"
  defines "t \<equiv> (new_transfer sp i)\<lparr>tr_hr := Some hr\<rparr>"
  defines "h' \<equiv> snd (http_request_start True hr body cap (Some (write_cb sp addr)) (Some (transfer_done_cb sp strerror addr)) h)"
  defines "pv' \<equiv> (put_transfer addr t pv)\<lparr>pv_transfers := pv_transfers pv @ [addr]\<rparr>"
  shows "io_ok ok sp strerror (h', pv') \<and> accounted (ids @ [i]) pv'"
proof -
  obtain q where h': "h_requests h' = h_requests h @ [q]" "h_active h' = h_active h + 1" "hq_addr q = hr" "\<not> hq_finished q"
    "serves sp strerror q addr t"
    by (simp add: h'_def http_request_start_def serves_def t_def)
  have new: "\<forall>r\<in>set (h_requests h). hq_addr r \<noteq> hr" using fresh(2) by (simp add: find_request_None)
  have a: "addr \<notin> set (pv_transfers pv)" using io_okD(3) [OF inv, of addr] fresh(1) by simp
  have t: "ok (tr_accum t)" "\<not> tr_finished t" "tr_hr t = Some hr" "st_request_id (tr_accum t) = i"
    by (simp_all add: t_def new_transfer_def fresh_ok fresh_id)
  have heap: "pv_heap pv' = (pv_heap pv)(addr := Some t)" "pv_transfers pv' = pv_transfers pv @ [addr]"
    "pv_released pv' = pv_released pv" by (simp_all add: pv'_def put_transfer_def)
  have other: "tr_hr u \<noteq> Some hr" if "pv_heap pv b = Some u" for b u
    using io_okD(5) [OF inv, of b u] that new by (auto simp: serves_def)
  have ho: "http_ok h'"
    using io_okD(1) [OF inv] h' new by (auto simp: http_ok_def)
  have "io_ok ok sp strerror (h', pv')"
    unfolding io_ok_def fst_conv snd_conv
  proof (intro conjI allI impI ballI)
    show "http_ok h'" by (rule ho)
    show "distinct (pv_transfers pv')" using io_okD(2) [OF inv] a heap(2) by simp
    show "(pv_heap pv' b \<noteq> None) = (b \<in> set (pv_transfers pv'))" for b
      using io_okD(3) [OF inv, of b] heap by simp
  next
    fix b u assume u: "pv_heap pv' b = Some u"
    have "ok (tr_accum u) \<and> \<not> tr_finished u \<and> (\<exists>r\<in>set (h_requests h'). serves sp strerror r b u)"
    proof (cases "b = addr")
      case True
      with u heap(1) have "u = t" by simp
      with t h'(1,5) True show ?thesis by auto
    next
      case False
      with u heap(1) have o: "pv_heap pv b = Some u" by simp
      from io_okD(4,5) [OF inv, of b u] o h'(1) show ?thesis by auto
    qed
    then show "ok (tr_accum u)" "\<not> tr_finished u" "\<exists>r\<in>set (h_requests h'). serves sp strerror r b u" by blast+
  next
    fix r assume "r \<in> set (h_requests h')"
    then have "r = q \<or> r \<in> set (h_requests h)" using h'(1) by auto
    then show "\<exists>b u. pv_heap pv' b = Some u \<and> serves sp strerror r b u"
    proof
      assume "r = q"
      with h'(5) heap(1) show ?thesis by (intro exI [of _ addr] exI [of _ t]) simp
    next
      assume "r \<in> set (h_requests h)"
      then obtain b u where b: "pv_heap pv b = Some u" "serves sp strerror r b u" using io_okD(6) [OF inv, of r] by auto
      then have "b \<noteq> addr" using fresh(1) by auto
      with b heap(1) show ?thesis by (intro exI [of _ b] exI [of _ u]) simp
    qed
  next
    fix b c u v assume "pv_heap pv' b = Some u \<and> pv_heap pv' c = Some v \<and> tr_hr u = tr_hr v"
    then have "pv_heap pv' b = Some u" "pv_heap pv' c = Some v" "tr_hr u = tr_hr v" by simp_all
    then show "b = c"
      using other [of b u] other [of c v] io_okD(7) [OF inv, of b u c v] t(3) heap(1) by (simp split: if_splits)
  next
    fix x assume "x \<in> set (pv_released pv')"
    then show "case x of (i, out) \<Rightarrow> final ok i out" using io_okD(8) [OF inv] heap(3) by auto
  qed
  moreover have "request_ids pv' = request_ids pv @ [i]"
    using a t(4) heap by (auto simp: request_ids_def)
  ultimately show ?thesis using acc heap(3) by (simp add: accounted_def)
qed

lemma send_refused:
  assumes "pv_heap pv addr = None" and "addr \<notin> set (pv_transfers pv)"
  shows "transfer_free addr (put_transfer addr ((new_transfer sp i)\<lparr>tr_accum := emit_error c (Some m) (sp_fresh sp i)\<rparr>)
      (transfer_unregister addr ((put_transfer addr (new_transfer sp i) pv)\<lparr>pv_transfers := pv_transfers pv @ [addr]\<rparr>))) =
    refuse sp i c m pv"
proof -
  have n: "\<And>y. y \<in> set (pv_transfers pv) \<Longrightarrow> \<not> y = addr" using assms(2) by auto
  have "swap_remove (\<lambda>x. x = addr) (pv_transfers pv @ addr # []) = pv_transfers pv"
    using swap_remove_append [of "pv_transfers pv" "\<lambda>x. x = addr" addr "[]", OF n] by simp
  moreover have "(pv_heap pv)(addr := None) = pv_heap pv" using assms(1) by auto
  ultimately show ?thesis
    by (simp add: transfer_free_def put_transfer_def transfer_unregister_def refuse_def fresh_id)
qed

lemma request_ok:
  assumes inv: "io_ok ok sp strerror s" and acc: "accounted ids (snd s)"
    and fresh: "\<forall>addr. so_transfer so = Some addr \<longrightarrow> pv_heap (snd s) addr = None" "find_request (fst s) (so_request so) = None"
    and req: "provider_request sp strerror auth body so i s = (rc, s')"
  shows "io_ok ok sp strerror s' \<and> accounted (if rc = AGENT_OK then ids @ [i] else ids) (snd s')"
proof -
  obtain h pv where s: "s = (h, pv)" by (metis surj_pair)
  note ref = refuse_io_ok [OF inv [unfolded s] acc [unfolded s snd_conv]]
  show ?thesis
  proof (cases "\<exists>key. auth = Inr key \<and> fst body = AGENT_OK")
    case False
    then have "\<exists>c m. (rc, s') = (AGENT_OK, h, refuse sp i c m pv)"
      using req s by (auto simp: provider_request_def split: sum.splits if_splits)
    with ref show ?thesis by auto
  next
    case True
    then have snd: "send_request sp strerror so i (snd body) s = (rc, s')" using req by (auto simp: provider_request_def)
    show ?thesis
    proof (cases "so_transfer so")
      case None
      with snd s inv acc show ?thesis by (simp add: send_request_def)
    next
      case (Some addr)
      have f: "pv_heap pv addr = None" "find_request h (so_request so) = None" using fresh Some s by auto
      have a: "addr \<notin> set (pv_transfers pv)" using io_okD(3) [OF inv, of addr] f(1) s by simp
      consider "rc \<noteq> AGENT_OK \<and> s' = s" | c m where "rc = AGENT_OK" "s' = (h, refuse sp i c m pv)"
        | "rc = AGENT_OK" "s' = (snd (http_request_start True (so_request so) (snd body) RAW_BODY_CAP
              (Some (write_cb sp addr)) (Some (transfer_done_cb sp strerror addr)) h),
            (put_transfer addr ((new_transfer sp i)\<lparr>tr_hr := Some (so_request so)\<rparr>) pv)\<lparr>pv_transfers := pv_transfers pv @ [addr]\<rparr>)"
      proof (cases "so_parser so \<and> so_http so \<and> so_slot so")
        case False
        with snd Some s that(1,2) show ?thesis by (auto simp: send_request_def split: if_splits)
      next
        case c: True
        show ?thesis
        proof (cases "so_started so")
          case True
          with snd Some s c have "rc = AGENT_OK" "s' = (snd (http_request_start True (so_request so) (snd body) RAW_BODY_CAP
              (Some (write_cb sp addr)) (Some (transfer_done_cb sp strerror addr)) h),
            (put_transfer addr ((new_transfer sp i)\<lparr>tr_hr := Some (so_request so)\<rparr>) pv)\<lparr>pv_transfers := pv_transfers pv @ [addr]\<rparr>)"
            by (cases pv; auto simp: send_request_def http_request_start_def put_transfer_def)+
          then show ?thesis by (rule that(3))
        next
          case False
          with snd Some s c have "(rc, s') = (AGENT_OK, h, refuse sp i (error_value AGENT_ERR_HTTP) ''failed to start HTTP request'' pv)"
            by (simp add: send_request_def http_request_start_def send_refused [OF f(1) a])
          with that(2) show ?thesis by simp
        qed
      qed
      then show ?thesis
      proof cases
        case 1
        with inv acc show ?thesis by simp
      next
        case 2
        with ref show ?thesis by simp
      next
        case 3
        with send_accepted_ok [OF inv [unfolded s] acc [unfolded s snd_conv] f, where i = i and body = "snd body" and cap = RAW_BODY_CAP] show ?thesis by simp
      qed
    qed
  qed
qed

lemma reach_ok:
  "io_reach sp strerror s ids \<Longrightarrow> io_ok ok sp strerror s \<and> accounted ids (snd s)"
proof (induction rule: io_reach.induct)
  case (Start m b)
  show ?case by (simp add: io_ok_def http_ok_def http_new_def accounted_def request_ids_def)
next
  case (Request s ids so auth body i rc s')
  then show ?case using request_ok by blast
next
  case (Chunk s ids hr data n s')
  then show ?case using chunk_ok by blast
next
  case (Completed s ids ms)
  then show ?case using messages_ok by blast
next
  case (Cancelled s ids rt i rc s')
  then show ?case using cancel_ok [of strerror s ids rt i] by simp
next
  case (Memory h pv ids m b)
  then show ?case by (auto simp: io_ok_def accounted_def request_ids_def)
qed

text \<open>The conclusions for the client: every request answered once, and at rest all of them.\<close>

lemma answered:
  assumes "io_reach sp strerror s ids"
  shows "mset ids = mset (request_ids (snd s)) + mset (map fst (pv_released (snd s)))"
    and "\<forall>(i, out)\<in>set (pv_released (snd s)). final ok i out \<and> complete_stream i out"
    and "h_requests (fst s) = [] \<longrightarrow> mset ids = mset (map fst (pv_released (snd s)))"
proof -
  from reach_ok [OF assms] have inv: "io_ok ok sp strerror s" "accounted ids (snd s)" by simp_all
  then show a: "mset ids = mset (request_ids (snd s)) + mset (map fst (pv_released (snd s)))" by (simp add: accounted_def)
  show "\<forall>(i, out)\<in>set (pv_released (snd s)). final ok i out \<and> complete_stream i out"
    using io_okD(8) [OF inv(1)] final_complete by blast
  have "h_requests (fst s) = [] \<longrightarrow> pv_transfers (snd s) = []"
    using io_okD(3,5) [OF inv(1)] by (cases "pv_transfers (snd s)") fastforce+
  with a show "h_requests (fst s) = [] \<longrightarrow> mset ids = mset (map fst (pv_released (snd s)))"
    by (simp add: request_ids_def)
qed

lemma reach_answered: "io_reach sp strerror s ids \<Longrightarrow> answered_all s ids"
  using answered [of strerror s ids] by (simp add: answered_all_def) blast

lemma abort_served:
  assumes inv: "io_ok ok sp strerror s" and t: "pv_heap (snd s) addr = Some t"
  shows "\<exists>out. final ok (st_request_id (tr_accum t)) out \<and>
     pv_released (snd (http_request_abort (tr_hr t) s)) = pv_released (snd s) @ [(st_request_id (tr_accum t), out)] \<and>
     pv_heap (snd (http_request_abort (tr_hr t) s)) = (pv_heap (snd s))(addr := None) \<and>
     mset (pv_transfers (snd (http_request_abort (tr_hr t) s))) = mset (pv_transfers (snd s)) - {#addr#}"
proof -
  from io_okD(5) [OF inv t] obtain r where r: "r \<in> set (h_requests (fst s))" "serves sp strerror r addr t" by blast
  have n: "\<not> hq_finished r" "find_request (fst s) (hq_addr r) = Some r"
    using io_okD(1) [OF inv] r(1) http_ok_find by (auto simp: http_ok_def)
  have "http_request_abort (tr_hr t) s = finish_request (r\<lparr>hq_rc := CURLE_ABORTED_BY_CALLBACK, hq_http_status := 0\<rparr>) s"
    using n r(2) by (simp add: http_request_abort_def serves_def)
  with finish_effect [OF inv r(1) t r(2)] show ?thesis by metis
qed

lemma cancel_answers:
  assumes inv: "io_ok ok sp strerror s" and i: "i \<in> set (request_ids (snd s))"
    and c: "provider_cancel True i s = (rc, s')"
  shows "rc = AGENT_OK \<and> cancels_one i s s'"
proof -
  from i obtain a where a: "a \<in> set (pv_transfers (snd s))" "owns_request i (snd s) a"
  proof -
    from i obtain a where "a \<in> set (pv_transfers (snd s))" "i = st_request_id (tr_accum (the (pv_heap (snd s) a)))"
      by (auto simp: request_ids_def)
    with io_okD(3) [OF inv, of a] that [of a] show ?thesis by (cases "pv_heap (snd s) a") (auto simp: owns_request_def)
  qed
  then obtain addr where f: "find (owns_request i (snd s)) (pv_transfers (snd s)) = Some addr"
    by (cases "find (owns_request i (snd s)) (pv_transfers (snd s))") (auto simp: find_None_iff)
  then have "owns_request i (snd s) addr" by (auto simp: find_Some_iff)
  then obtain t where t: "pv_heap (snd s) addr = Some t" "st_request_id (tr_accum t) = i"
    by (auto simp: owns_request_def split: option.splits)
  from c f t(1) have "rc = AGENT_OK" "s' = http_request_abort (tr_hr t) s" by (simp_all add: provider_cancel_def)
  with abort_served [OF inv t(1)] t final_complete show ?thesis unfolding cancels_one_def by metis
qed

lemma reach_cancel:
  "io_reach sp strerror s ids \<Longrightarrow> i \<in> set (request_ids (snd s)) \<Longrightarrow> provider_cancel True i s = (rc, s') \<Longrightarrow>
   rc = AGENT_OK \<and> cancels_one i s s'"
  using cancel_answers reach_ok by blast

lemma drain_answers:
  assumes "io_ok ok sp strerror s" and "accounted ids (snd s)"
  shows "\<exists>s'. drain_transfers True s = Some s' \<and> pv_transfers (snd s') = [] \<and> io_ok ok sp strerror s' \<and> accounted ids (snd s')"
  using assms
proof (induction "length (pv_transfers (snd s))" arbitrary: s rule: less_induct)
  case less
  show ?case
  proof (cases "pv_transfers (snd s) = []")
    case True
    with less.prems show ?thesis by (subst drain_transfers.simps) simp
  next
    case False
    let ?addr = "last (pv_transfers (snd s))"
    have m: "?addr \<in> set (pv_transfers (snd s))" using False by simp
    then obtain t where t: "pv_heap (snd s) ?addr = Some t" using io_okD(3) [OF less.prems(1), of ?addr] by auto
    let ?s = "http_request_abort (tr_hr t) s"
    have hr: "tr_hr t \<noteq> None" using io_okD(5) [OF less.prems(1) t] by (auto simp: serves_def)
    have "length (pv_transfers (snd ?s)) < length (pv_transfers (snd s))"
      using abort_served [OF less.prems(1) t] mset_minus_length [OF _ m] m by (metis diff_less length_pos_if_in_set zero_less_one)
    from less.hyps [OF this] abort_ok [OF less.prems, of "tr_hr t"] obtain s' where s':
      "drain_transfers True ?s = Some s'" "pv_transfers (snd s') = []" "io_ok ok sp strerror s'" "accounted ids (snd s')"
      by blast
    have "drain_transfers True s = drain_transfers True ?s"
      using False t hr by (subst drain_transfers.simps) (simp add: Let_def)
    with s' show ?thesis by metis
  qed
qed

lemma reach_drain:
  assumes "io_reach sp strerror s ids"
  shows "\<exists>s'. drain_transfers True s = Some s' \<and> h_requests (fst s') = [] \<and> answered_all s' ids \<and>
    mset ids = mset (map fst (pv_released (snd s')))"
proof -
  from reach_ok [OF assms] drain_answers obtain s' where s': "drain_transfers True s = Some s'" "pv_transfers (snd s') = []"
    "io_ok ok sp strerror s'" "accounted ids (snd s')" by blast
  have "h_requests (fst s') = []"
    using io_okD(3,6) [OF s'(3)] s'(2) by (cases "h_requests (fst s')") fastforce+
  moreover have "mset ids = mset (map fst (pv_released (snd s')))" using s'(2,4) by (simp add: accounted_def request_ids_def)
  moreover have "request_ids (snd s') = []" using s'(2) by (simp add: request_ids_def)
  moreover have "\<forall>(i, out)\<in>set (pv_released (snd s')). complete_stream i out"
    using io_okD(8) [OF s'(3)] final_complete by blast
  ultimately show ?thesis using s'(1) by (simp add: answered_all_def)
qed

end

end
