(* ===== verification/Openai.thy ===== *)
theory Openai
  imports Model_Streams
begin

text \<open>
  The OpenAI-compatible provider, \<open>src/src/model/openai.c\<close>: the accumulator that turns the chunks
  of a completion into model events, the serialization of a request, and the contract of
  \<open>Model_Streams\<close> for it.  The JSON reader and writer are the parameters \<open>read\<close> and \<open>render\<close>;
  strings of a payload are read up to their first NUL, as C does.
\<close>

section \<open>The accumulator\<close>

record openai_accum = stream +
  oa_calls :: "tool_call_state list"
  oa_usage_emitted :: bool
  oa_stop_reason :: model_stop_reason

definition openai_fresh :: "64 word \<Rightarrow> openai_accum" where
  "openai_fresh i = \<lparr>st_request_id = i, st_out = [], error_emitted = False, done_emitted = False,
     oa_calls = [], oa_usage_emitted = False, oa_stop_reason = MODEL_STOP_UNKNOWN\<rparr>"

definition parse_finish_reason :: "string option \<Rightarrow> model_stop_reason" where
  "parse_finish_reason reason =
     (case reason of
        None \<Rightarrow> MODEL_STOP_UNKNOWN
      | Some r \<Rightarrow>
          if r = ''stop'' then MODEL_STOP_COMPLETE
          else if r = ''tool_calls'' \<or> r = ''function_call'' then MODEL_STOP_TOOL_CALLS
          else if r = ''length'' then MODEL_STOP_MAX_TOKENS
          else if r = ''content_filter'' then MODEL_STOP_CONTENT_FILTER
          else MODEL_STOP_INCOMPLETE)"

definition openai_emit_usage :: "usage \<Rightarrow> openai_accum \<Rightarrow> openai_accum" where
  "openai_emit_usage u a = emit_model_event (Usage_Report u) (a\<lparr>oa_usage_emitted := True\<rparr>)"

definition chunk_usage :: "json option \<Rightarrow> usage" where
  "chunk_usage u =
     \<lparr>input_tokens = json_obj_get_int u ''prompt_tokens'' 0,
      output_tokens = json_obj_get_int u ''completion_tokens'' 0,
      cached_tokens = (if json_obj_get_int u ''prompt_tokens_details'' 0 = 0
                       then json_obj_get_int (json_val_obj_get u ''prompt_tokens_details'') ''cached_tokens'' 0 else 0),
      total_tokens = json_obj_get_int u ''total_tokens'' 0\<rparr>"

text \<open>One fragment of a tool call; the first one carries the id and the name.\<close>

definition chunk_call :: "json option \<Rightarrow> openai_accum \<Rightarrow> openai_accum" where
  "chunk_call item a =
     (if \<not> json_val_is_obj item then a
      else
        (let idx = json_obj_get_int item ''index'' (-1) in
         if idx < 0 then a
         else
           (case accum_ensure_call (nat idx) \<lparr>tcs_index = nat idx, tcs_seen_start = False\<rparr> (oa_calls a) of
              (None, _) \<Rightarrow> a
            | (Some k, calls) \<Rightarrow>
                (let a1 = a\<lparr>oa_calls := calls\<rparr>;
                     id1 = c_get_str item ''id'';
                     fn = json_val_obj_get item ''function'';
                     name = (if json_val_is_obj fn then c_get_str fn ''name'' else None);
                     args = (if json_val_is_obj fn then c_get_str fn ''arguments'' else None);
                     a2 = (if \<not> tcs_seen_start (calls ! k)
                           then (emit_tool_start (nat idx) id1 name a1)\<lparr>oa_calls := calls[k := (calls ! k)\<lparr>tcs_seen_start := True\<rparr>]\<rparr>
                           else a1) in
                 case args of
                   Some d \<Rightarrow> if d \<noteq> [] then emit_tool_delta (nat idx) d a2 else a2
                 | None \<Rightarrow> a2))))"

text \<open>The part of a chunk under \<open>delta\<close>.\<close>

definition chunk_delta :: "json option \<Rightarrow> openai_accum \<Rightarrow> openai_accum" where
  "chunk_delta delta a =
     (let a1 = (case c_get_str delta ''content'' of Some s \<Rightarrow> emit_text s a | None \<Rightarrow> a);
          a2 = (case c_get_str delta ''reasoning_content'' of Some s \<Rightarrow> emit_reasoning s a1 | None \<Rightarrow> a1);
          calls = json_val_obj_get delta ''tool_calls'' in
      if json_val_is_arr calls
      then foldl (\<lambda>a i. chunk_call (json_val_arr_get calls i) a) a2 [0..<json_val_arr_size calls]
      else a2)"

definition handle_chunk :: "(string \<Rightarrow> json option) \<Rightarrow> string \<Rightarrow> openai_accum \<Rightarrow> agent_error \<times> openai_accum" where
  "handle_chunk read txt0 a =
     (let root = json_parse read txt0 in
      if \<not> json_val_is_obj root then (AGENT_ERR_JSON, a)
      else
        (let usage_val = json_val_obj_get root ''usage'';
             a1 = (if json_val_is_obj usage_val then openai_emit_usage (chunk_usage usage_val) a else a);
             choices = json_val_obj_get root ''choices'' in
         if choices = None \<or> json_val_arr_size choices = 0 then (AGENT_OK, a1)
         else
           (let choice = json_val_arr_get choices 0;
                a2 = (case c_get_str choice ''finish_reason'' of
                        Some r \<Rightarrow> a1\<lparr>oa_stop_reason := parse_finish_reason (Some r)\<rparr>
                      | None \<Rightarrow> a1);
                delta = json_val_obj_get choice ''delta'' in
            if \<not> json_val_is_obj delta then (AGENT_OK, a2) else (AGENT_OK, chunk_delta delta a2))))"

definition close_calls :: "openai_accum \<Rightarrow> openai_accum" where
  "close_calls a = emit_done (oa_stop_reason a) (foldl (\<lambda>a s. emit_tool_end (tcs_index s) a) a (oa_calls a))"

definition openai_sse_cb :: "(string \<Rightarrow> json option) \<Rightarrow> sse_event \<Rightarrow> openai_accum \<Rightarrow> openai_accum" where
  "openai_sse_cb read ev a =
     (case ev of
        Sse_Done _ \<Rightarrow> close_calls a
      | Sse_Data d \<Rightarrow>
          (let (rc, a1) = handle_chunk read d a in
           if rc \<noteq> AGENT_OK then emit_error (error_value AGENT_ERR_JSON) (Some ''malformed stream JSON'') a1 else a1))"

text \<open>A stream that ended well without its \<open>[DONE]\<close>.\<close>

definition openai_settle :: "openai_accum \<Rightarrow> openai_accum" where
  "openai_settle a =
     (if oa_stop_reason a \<noteq> MODEL_STOP_UNKNOWN \<or> oa_usage_emitted a then close_calls a
      else emit_error (error_value AGENT_ERR_HTTP) (Some ''stream ended before [DONE]'') a)"

definition openai_protocol :: "(string \<Rightarrow> json option) \<Rightarrow> openai_accum protocol" where
  "openai_protocol read = \<lparr>sp_fresh = openai_fresh, sp_on_event = openai_sse_cb read, sp_settle = openai_settle\<rparr>"

section \<open>The contract\<close>

text \<open>Every call with a slot has been started, and was ended when the stream is done.\<close>

definition calls_ended :: "model_event list \<Rightarrow> bool" where
  "calls_ended out \<longleftrightarrow> (\<forall>i\<in>set (started out). Tool_Call_End i \<in> set (map me_body out))"

definition is_done :: "model_event list \<Rightarrow> bool" where
  "is_done out \<longleftrightarrow> out \<noteq> [] \<and> (case me_body (last out) of Done_Event _ \<Rightarrow> True | _ \<Rightarrow> False)"

definition openai_ok :: "openai_accum \<Rightarrow> bool" where
  "openai_ok a \<longleftrightarrow> stream_ok a \<and> (\<forall>s\<in>set (oa_calls a). tcs_seen_start s) \<and>
     (\<not> stream_closed a \<longrightarrow> set (started (st_out a)) = tcs_index ` set (oa_calls a)) \<and>
     (stream_closed a \<and> is_done (st_out a) \<longrightarrow> calls_ended (st_out a))"

lemma openai_emit_ok:
  assumes "openai_ok a" and "\<not> terminal_event b" and "\<And>i x n. b \<noteq> Tool_Call_Start i x n"
    and "\<not> stream_closed a \<Longrightarrow> tool_allowed (started (st_out a)) b"
  shows "openai_ok (emit_model_event b a)"
proof -
  have s: "stream_ok (emit_model_event b a)" by (rule emit_event_ok) (use assms in \<open>auto simp: openai_ok_def\<close>)
  have st: "started [\<lparr>me_request_id = r, me_body = b\<rparr>] = []" for r using assms(3) by (cases b) auto
  have c: "stream_closed (emit_model_event b a) = stream_closed a" "oa_calls (emit_model_event b a) = oa_calls a"
    by (simp_all add: stream_closed_def emit_model_event_def)
  show ?thesis
    using assms(1) s st c by (auto simp: openai_ok_def emit_out)
qed

lemma openai_error_ok: "openai_ok a \<Longrightarrow> openai_ok (emit_error code msg a)"
  using emit_error_ok [of a code msg] by (auto simp: openai_ok_def emit_error_def stream_closed_def emit_model_event_def is_done_def)

lemma openai_fields_ok:
  "openai_ok a \<Longrightarrow> openai_ok (a\<lparr>oa_usage_emitted := u\<rparr>)" "openai_ok a \<Longrightarrow> openai_ok (a\<lparr>oa_stop_reason := r\<rparr>)"
  by (simp_all add: openai_ok_def stream_ok_def stream_closed_def)

lemma openai_usage_ok: "openai_ok a \<Longrightarrow> openai_ok (openai_emit_usage u a)"
  unfolding openai_emit_usage_def
  by (rule openai_emit_ok) (use openai_fields_ok(1) [of a True] in simp_all)

lemma ensure_call_spec:
  assumes "accum_ensure_call i new calls = (Some k, calls')" and "tcs_index new = i"
  shows "k < length calls' \<and> tcs_index (calls' ! k) = i \<and>
    (calls' = calls \<or> calls' = calls @ [new] \<and> k = length calls \<and> i \<notin> tcs_index ` set calls)"
  using assms first_slot_Some [of "\<lambda>s. tcs_index s = i" calls] first_slot_None [of "\<lambda>s. tcs_index s = i" calls]
  by (auto simp: accum_ensure_call_def split: if_splits option.splits)

text \<open>The start of a call: its slot is new, so the call has not been started before.\<close>

lemma openai_start_ok:
  assumes "openai_ok a" and "accum_ensure_call i \<lparr>tcs_index = i, tcs_seen_start = False\<rparr> (oa_calls a) = (Some k, calls)"
    and "\<not> tcs_seen_start (calls ! k)"
  shows "openai_ok ((emit_tool_start i id1 name (a\<lparr>oa_calls := calls\<rparr>))\<lparr>oa_calls := calls[k := (calls ! k)\<lparr>tcs_seen_start := True\<rparr>]\<rparr>) \<and>
         tcs_index ` set (calls[k := (calls ! k)\<lparr>tcs_seen_start := True\<rparr>]) = insert i (tcs_index ` set (oa_calls a))"
proof -
  note e = ensure_call_spec [OF assms(2), simplified]
  have "calls \<noteq> oa_calls a" using e assms(1,3) by (auto simp: openai_ok_def)
  with e have c: "calls = oa_calls a @ [\<lparr>tcs_index = i, tcs_seen_start = False\<rparr>]" "k = length (oa_calls a)"
    "i \<notin> tcs_index ` set (oa_calls a)" by auto
  then have u: "calls[k := (calls ! k)\<lparr>tcs_seen_start := True\<rparr>] = oa_calls a @ [\<lparr>tcs_index = i, tcs_seen_start = True\<rparr>]" by simp
  have "stream_ok (emit_model_event (Tool_Call_Start i id1 name) (a\<lparr>oa_calls := calls\<rparr>))"
    by (rule emit_event_ok) (use assms(1) c(3) in \<open>auto simp: openai_ok_def stream_ok_def stream_closed_def\<close>)
  then show ?thesis
    unfolding u using assms(1)
    by (auto simp: openai_ok_def stream_ok_def stream_closed_def emit_tool_start_def emit_model_event_def)
qed

lemma openai_call_ok:
  assumes "openai_ok a"
  shows "openai_ok (chunk_call item a)"
proof -
  let ?i = "nat (json_obj_get_int item ''index'' (-1))"
  obtain ko calls where e: "accum_ensure_call ?i \<lparr>tcs_index = ?i, tcs_seen_start = False\<rparr> (oa_calls a) = (ko, calls)"
    by (metis surj_pair)
  show ?thesis
  proof (cases "json_val_is_obj item \<and> \<not> json_obj_get_int item ''index'' (-1) < 0 \<and> ko \<noteq> None")
    case False
    with assms e show ?thesis by (auto simp: chunk_call_def Let_def split: option.splits)
  next
    case True
    then obtain k where k: "ko = Some k" by auto
    note sp = ensure_call_spec [OF e [unfolded k], simplified]
    define a2 where "a2 = (if \<not> tcs_seen_start (calls ! k)
        then (emit_tool_start ?i (c_get_str item ''id'') (if json_val_is_obj (json_val_obj_get item ''function'')
               then c_get_str (json_val_obj_get item ''function'') ''name'' else None) (a\<lparr>oa_calls := calls\<rparr>))
             \<lparr>oa_calls := calls[k := (calls ! k)\<lparr>tcs_seen_start := True\<rparr>]\<rparr>
        else a\<lparr>oa_calls := calls\<rparr>)"
    have a2: "openai_ok a2 \<and> ?i \<in> tcs_index ` set (oa_calls a2)"
    proof (cases "tcs_seen_start (calls ! k)")
      case True
      with sp assms have c: "calls = oa_calls a" by auto
      have "tcs_index (calls ! k) \<in> tcs_index ` set (oa_calls a)" using sp c by (intro imageI) simp
      with True sp c assms show ?thesis by (simp add: a2_def)
    next
      case False
      with openai_start_ok [OF assms e [unfolded k] False] show ?thesis by (auto simp: a2_def)
    qed
    then have d: "openai_ok (emit_tool_delta ?i s a2)" for s
      unfolding emit_tool_delta_def by (intro openai_emit_ok) (auto simp: openai_ok_def)
    have "chunk_call item a = a2 \<or> (\<exists>s. chunk_call item a = emit_tool_delta ?i s a2)"
      using True e k by (auto simp: chunk_call_def Let_def a2_def split: option.splits)
    with a2 d show ?thesis by auto
  qed
qed

lemma openai_delta_ok: "openai_ok a \<Longrightarrow> openai_ok (chunk_delta delta a)"
proof -
  have t: "openai_ok a \<Longrightarrow> openai_ok (emit_text s a)" "openai_ok a \<Longrightarrow> openai_ok (emit_reasoning s a)" for s a
    unfolding emit_text_def emit_reasoning_def by (rule openai_emit_ok; simp)+
  have f: "openai_ok a \<Longrightarrow> openai_ok (foldl (\<lambda>a i. chunk_call (json_val_arr_get calls i) a) a js)" for calls js and a
    by (induction js arbitrary: a) (simp_all add: openai_call_ok)
  show "openai_ok a \<Longrightarrow> openai_ok (chunk_delta delta a)"
    by (auto simp: chunk_delta_def Let_def intro!: f t split: option.split)
qed

lemma openai_chunk_ok: "openai_ok a \<Longrightarrow> openai_ok (snd (handle_chunk read d a))"
  by (auto simp: handle_chunk_def Let_def openai_usage_ok intro!: openai_delta_ok
      openai_fields_ok split: option.split)

lemma ends_out:
  fixes a :: "'a stream_scheme" and ss :: "'c tool_call_state_scheme list"
  shows "\<not> stream_closed a \<Longrightarrow> foldl (\<lambda>a s. emit_tool_end (tcs_index s) a) a ss =
    a\<lparr>st_out := st_out a @ map (\<lambda>s. \<lparr>me_request_id = st_request_id a, me_body = Tool_Call_End (tcs_index s)\<rparr>) ss\<rparr>"
proof (induction ss arbitrary: a)
  case (Cons s ss)
  let ?a = "a\<lparr>st_out := st_out a @ [\<lparr>me_request_id = st_request_id a, me_body = Tool_Call_End (tcs_index s)\<rparr>]\<rparr>"
  have "emit_tool_end (tcs_index s) a = ?a"
    using Cons.prems by (simp add: emit_tool_end_def emit_model_event_def stream_closed_def)
  with Cons.IH [of ?a] Cons.prems show ?case by (simp add: stream_closed_def)
qed simp

lemma ends_ok:
  "openai_ok a \<Longrightarrow> set ss \<subseteq> set (oa_calls a) \<Longrightarrow> openai_ok (foldl (\<lambda>a s. emit_tool_end (tcs_index s) a) a ss) \<and>
    oa_calls (foldl (\<lambda>a s. emit_tool_end (tcs_index s) a) a ss) = oa_calls a"
proof (induction ss arbitrary: a)
  case (Cons s ss)
  have "openai_ok (emit_tool_end (tcs_index s) a)"
    unfolding emit_tool_end_def by (rule openai_emit_ok) (use Cons.prems in \<open>auto simp: openai_ok_def\<close>)
  moreover have "oa_calls (emit_tool_end (tcs_index s) a) = oa_calls a" by (simp add: emit_tool_end_def emit_model_event_def)
  ultimately show ?case using Cons.IH [of "emit_tool_end (tcs_index s) a"] Cons.prems(2) by simp
qed simp

lemma ends_closed:
  fixes a :: openai_accum
  shows "stream_closed a \<Longrightarrow> foldl (\<lambda>a s. emit_tool_end (tcs_index s) a) a ss = a"
proof (induction ss)
  case (Cons s ss)
  then have "emit_tool_end (tcs_index s) a = a" by (auto simp: emit_tool_end_def emit_model_event_def stream_closed_def)
  with Cons show ?case by simp
qed simp

lemma started_ends [simp]: "started (map (\<lambda>s. \<lparr>me_request_id = r, me_body = Tool_Call_End (f s)\<rparr>) ss) = []"
  by (induction ss) simp_all

lemma close_calls_ok:
  assumes "openai_ok a"
  shows "openai_ok (close_calls a) \<and> stream_closed (close_calls a) \<and> st_request_id (close_calls a) = st_request_id a"
proof (cases "stream_closed a")
  case True
  then have "close_calls a = a" unfolding close_calls_def ends_closed [OF True] by (simp add: emit_done_def stream_closed_def)
  with assms True show ?thesis by simp
next
  case False
  let ?b = "foldl (\<lambda>a s. emit_tool_end (tcs_index s) a) a (oa_calls a)"
  note b = ends_out [OF False, of "oa_calls a"]
  have ok: "openai_ok ?b" using ends_ok [OF assms, of "oa_calls a"] by simp
  have cl: "\<not> stream_closed ?b" unfolding b using False by (simp add: stream_closed_def)
  have ce: "calls_ended (st_out ?b)"
    unfolding b using assms False by (auto simp: openai_ok_def calls_ended_def)
  have d: "st_out (emit_done (oa_stop_reason a) ?b) = st_out ?b @ [\<lparr>me_request_id = st_request_id ?b, me_body = Done_Event (oa_stop_reason a)\<rparr>]"
    "oa_calls (emit_done (oa_stop_reason a) ?b) = oa_calls ?b"
    using cl by (simp_all add: emit_done_def emit_model_event_def stream_closed_def)
  have "calls_ended (st_out (emit_done (oa_stop_reason a) ?b))" unfolding d using ce by (simp add: calls_ended_def)
  moreover have "stream_ok (emit_done (oa_stop_reason a) ?b)" using emit_done_ok ok by (auto simp: openai_ok_def)
  ultimately have "openai_ok (emit_done (oa_stop_reason a) ?b)" using ok d(2) by (simp add: openai_ok_def)
  moreover have "st_request_id ?b = st_request_id a" unfolding b by simp
  ultimately show ?thesis by (simp add: close_calls_def)
qed

lemma request_id_frame:
  "st_request_id (chunk_call item a) = st_request_id a"
  "st_request_id (snd (handle_chunk read d a)) = st_request_id a"
proof -
  show c: "st_request_id (chunk_call item a) = st_request_id a" for item a
    by (auto simp: chunk_call_def Let_def emit_tool_start_def emit_tool_delta_def split: option.split prod.split)
  have "st_request_id (foldl (\<lambda>a i. chunk_call (json_val_arr_get calls i) a) a js) = st_request_id a" for calls js a
    by (induction js arbitrary: a) (simp_all add: c)
  then show "st_request_id (snd (handle_chunk read d a)) = st_request_id a"
    by (simp add: handle_chunk_def chunk_delta_def Let_def emit_text_def emit_reasoning_def openai_emit_usage_def split: option.split)
qed

lemma openai_event:
  "openai_sse_cb read ev a = (case ev of Sse_Done _ \<Rightarrow> close_calls a
     | Sse_Data d \<Rightarrow> if fst (handle_chunk read d a) \<noteq> AGENT_OK
         then emit_error (error_value AGENT_ERR_JSON) (Some ''malformed stream JSON'') (snd (handle_chunk read d a))
         else snd (handle_chunk read d a))"
  by (simp add: openai_sse_cb_def split_beta split: sse_event.split)

interpretation openai_stream: stream_protocol "openai_protocol read" openai_ok
proof unfold_locales
  fix a i ev code msg
  show "openai_ok (sp_fresh (openai_protocol read) i)" "\<not> stream_closed (sp_fresh (openai_protocol read) i)"
    "st_request_id (sp_fresh (openai_protocol read) i) = i"
    by (simp_all add: openai_protocol_def openai_fresh_def openai_ok_def stream_ok_def stream_closed_def)
  assume ok: "openai_ok a"
  show "stream_ok a" using ok by (simp add: openai_ok_def)
  show "openai_ok (sp_on_event (openai_protocol read) ev a)"
    using openai_chunk_ok [OF ok, of read] openai_error_ok close_calls_ok [OF ok]
    by (auto simp: openai_protocol_def openai_event split: sse_event.split)
  show "openai_ok (sp_settle (openai_protocol read) a)"
    using openai_error_ok [OF ok] close_calls_ok [OF ok] by (simp add: openai_protocol_def openai_settle_def)
  show "stream_closed (sp_settle (openai_protocol read) a)"
    using close_calls_ok [OF ok] by (simp add: openai_protocol_def openai_settle_def)
  show "openai_ok (emit_error code msg a)" by (rule openai_error_ok [OF ok])
next
  have cc: "st_request_id (close_calls a) = st_request_id a" for a
  proof (cases "stream_closed a")
    case True
    then show ?thesis unfolding close_calls_def ends_closed [OF True] by simp
  next
    case False
    then show ?thesis unfolding close_calls_def ends_out [OF False] by simp
  qed
  fix a ev
  show "st_request_id (sp_on_event (openai_protocol read) ev a) = st_request_id a"
    using request_id_frame(2) [of read _ a] cc [of a]
    by (auto simp: openai_protocol_def openai_event split: sse_event.split)
  show "st_request_id (sp_settle (openai_protocol read) a) = st_request_id a"
    using cc [of a] by (simp add: openai_protocol_def openai_settle_def)
qed

end
