(* ===== verification/Anthropic.thy ===== *)
theory Anthropic
  imports Openai
begin

text \<open>
  The Anthropic provider, \<open>src/src/model/anthropic.c\<close>: its accumulator over typed stream events,
  and the serialization that merges adjacent messages of one role.  As in \<open>Openai\<close>, the
  JSON reader and writer are parameters, and strings are read up to their first NUL.
\<close>

section \<open>The accumulator\<close>

record anthropic_accum = stream +
  an_calls :: "tool_call_state list"
  an_current_is_tool :: bool
  an_current_tool_idx :: nat
  an_tool_counter :: nat
  an_usage :: usage
  an_stop_reason :: model_stop_reason

definition anthropic_fresh :: "64 word \<Rightarrow> anthropic_accum" where
  "anthropic_fresh i = \<lparr>st_request_id = i, st_out = [], error_emitted = False, done_emitted = False,
     an_calls = [], an_current_is_tool = False, an_current_tool_idx = 0, an_tool_counter = 0,
     an_usage = zero_usage, an_stop_reason = MODEL_STOP_UNKNOWN\<rparr>"

definition parse_stop_reason :: "string option \<Rightarrow> model_stop_reason" where
  "parse_stop_reason reason =
     (case reason of
        None \<Rightarrow> MODEL_STOP_UNKNOWN
      | Some r \<Rightarrow>
          if r = ''end_turn'' \<or> r = ''stop_sequence'' then MODEL_STOP_COMPLETE
          else if r = ''tool_use'' then MODEL_STOP_TOOL_CALLS
          else if r = ''max_tokens'' then MODEL_STOP_MAX_TOKENS
          else if r = ''refusal'' then MODEL_STOP_CONTENT_FILTER
          else MODEL_STOP_INCOMPLETE)"

definition anthropic_emit_usage :: "usage \<Rightarrow> anthropic_accum \<Rightarrow> anthropic_accum" where
  "anthropic_emit_usage u a = emit_model_event (Usage_Report u) a"

definition on_message_start :: "json option \<Rightarrow> anthropic_accum \<Rightarrow> anthropic_accum" where
  "on_message_start root a =
     (let msg = json_val_obj_get root ''message''; u = json_val_obj_get msg ''usage'' in
      if json_val_is_obj msg \<and> json_val_is_obj u
      then a\<lparr>an_usage := (an_usage a)
               \<lparr>input_tokens := json_obj_get_int u ''input_tokens'' 0,
                cached_tokens := (if json_obj_get_int u ''cache_read_input_tokens'' 0 > 0
                                  then json_obj_get_int u ''cache_read_input_tokens'' 0
                                  else json_obj_get_int u ''cached_tokens'' 0)\<rparr>\<rparr>
      else a)"

definition on_block_start :: "json option \<Rightarrow> anthropic_accum \<Rightarrow> anthropic_accum" where
  "on_block_start root a =
     (let cb = json_val_obj_get root ''content_block'' in
      if \<not> json_val_is_obj cb then a
      else if c_get_str cb ''type'' = Some ''tool_use'' then
        (let idx = an_tool_counter a;
             (ko, calls) = accum_ensure_call idx \<lparr>tcs_index = idx, tcs_seen_start = False\<rparr> (an_calls a);
             calls' = (case ko of Some k \<Rightarrow> calls[k := (calls ! k)\<lparr>tcs_seen_start := True\<rparr>] | None \<Rightarrow> calls) in
         emit_tool_start idx (c_get_str cb ''id'') (c_get_str cb ''name'')
           (a\<lparr>an_current_is_tool := True, an_current_tool_idx := idx, an_tool_counter := idx + 1, an_calls := calls'\<rparr>))
      else a\<lparr>an_current_is_tool := False\<rparr>)"

definition on_block_delta :: "json option \<Rightarrow> anthropic_accum \<Rightarrow> anthropic_accum" where
  "on_block_delta root a =
     (let delta = json_val_obj_get root ''delta'' in
      if \<not> json_val_is_obj delta then a
      else if c_get_str delta ''type'' = Some ''text_delta'' then
        (case c_get_str delta ''text'' of Some d \<Rightarrow> emit_text d a | None \<Rightarrow> a)
      else if c_get_str delta ''type'' = Some ''input_json_delta'' then
        (case c_get_str delta ''partial_json'' of
           Some d \<Rightarrow> if an_current_is_tool a then emit_tool_delta (an_current_tool_idx a) d a else a
         | None \<Rightarrow> a)
      else a)"

text \<open>The open tool call, if any, is ended.\<close>

definition end_block :: "anthropic_accum \<Rightarrow> anthropic_accum" where
  "end_block a =
     (if an_current_is_tool a then (emit_tool_end (an_current_tool_idx a) a)\<lparr>an_current_is_tool := False\<rparr> else a)"

definition on_message_delta :: "json option \<Rightarrow> anthropic_accum \<Rightarrow> anthropic_accum" where
  "on_message_delta root a =
     (let delta = json_val_obj_get root ''delta'';
          a1 = (if json_val_is_obj delta
                then (case c_get_str delta ''stop_reason'' of
                        Some r \<Rightarrow> a\<lparr>an_stop_reason := parse_stop_reason (Some r)\<rparr>
                      | None \<Rightarrow> a)
                else a);
          u = json_val_obj_get root ''usage'' in
      if json_val_is_obj u
      then a1\<lparr>an_usage := (an_usage a1)\<lparr>output_tokens := json_obj_get_int u ''output_tokens'' 0\<rparr>\<rparr> else a1)"

text \<open>The total is reported, then the stream is done; \<open>int64_t\<close> addition is taken to wrap.\<close>

definition finish_message :: "anthropic_accum \<Rightarrow> anthropic_accum" where
  "finish_message a =
     (let u = (an_usage a)\<lparr>total_tokens := int64_wrap (input_tokens (an_usage a) + output_tokens (an_usage a))\<rparr> in
      emit_done (an_stop_reason a) (anthropic_emit_usage u (a\<lparr>an_usage := u\<rparr>)))"

definition handle_event :: "(string \<Rightarrow> json option) \<Rightarrow> string \<Rightarrow> anthropic_accum \<Rightarrow> anthropic_accum" where
  "handle_event read txt0 a =
     (let root = json_parse read txt0 in
      if \<not> json_val_is_obj root then emit_error (error_value AGENT_ERR_JSON) (Some ''malformed stream JSON'') a
      else
        (case c_get_str root ''type'' of
           None \<Rightarrow> a
         | Some ty \<Rightarrow>
             if ty = ''message_start'' then on_message_start root a
             else if ty = ''content_block_start'' then on_block_start root a
             else if ty = ''content_block_delta'' then on_block_delta root a
             else if ty = ''content_block_stop'' then end_block a
             else if ty = ''message_delta'' then on_message_delta root a
             else if ty = ''message_stop'' then finish_message a
             else if ty = ''error'' then
               emit_error (error_value AGENT_ERR_MODEL)
                 (case c_get_str (json_val_obj_get root ''error'') ''message'' of
                    Some m \<Rightarrow> Some m | None \<Rightarrow> Some ''anthropic stream error'') a
             else a))"

definition anthropic_sse_cb :: "(string \<Rightarrow> json option) \<Rightarrow> sse_event \<Rightarrow> anthropic_accum \<Rightarrow> anthropic_accum" where
  "anthropic_sse_cb read ev a =
     (case ev of
        Sse_Data d \<Rightarrow> handle_event read d a
      | Sse_Done _ \<Rightarrow> finish_message (end_block a))"

text \<open>A stream that ended well without a \<open>message_stop\<close>.\<close>

definition anthropic_settle :: "anthropic_accum \<Rightarrow> anthropic_accum" where
  "anthropic_settle a =
     (if an_stop_reason a \<noteq> MODEL_STOP_UNKNOWN \<or> input_tokens (an_usage a) > 0 then finish_message (end_block a)
      else emit_error (error_value AGENT_ERR_HTTP) (Some ''stream ended before message_stop'') a)"

definition anthropic_protocol :: "(string \<Rightarrow> json option) \<Rightarrow> anthropic_accum protocol" where
  "anthropic_protocol read =
     \<lparr>sp_fresh = anthropic_fresh, sp_on_event = anthropic_sse_cb read, sp_settle = anthropic_settle\<rparr>"

section \<open>The contract\<close>

text \<open>Calls are numbered in the order they start; the open call has been started.\<close>

definition anthropic_ok :: "anthropic_accum \<Rightarrow> bool" where
  "anthropic_ok a \<longleftrightarrow> stream_ok a \<and>
     (\<not> stream_closed a \<longrightarrow> set (started (st_out a)) = {..<an_tool_counter a} \<and>
        (an_current_is_tool a \<longrightarrow> an_current_tool_idx a < an_tool_counter a))"

lemma anthropic_emit_ok:
  assumes "anthropic_ok a" and "\<not> terminal_event b" and "\<And>i x n. b \<noteq> Tool_Call_Start i x n"
    and "\<not> stream_closed a \<Longrightarrow> tool_allowed (started (st_out a)) b"
  shows "anthropic_ok (emit_model_event b a)"
proof -
  have s: "stream_ok (emit_model_event b a)" by (rule emit_event_ok) (use assms in \<open>auto simp: anthropic_ok_def\<close>)
  have st: "started [\<lparr>me_request_id = r, me_body = b\<rparr>] = []" for r using assms(3) by (cases b) auto
  have c: "stream_closed (emit_model_event b a) = stream_closed a"
    "an_tool_counter (emit_model_event b a) = an_tool_counter a"
    "an_current_is_tool (emit_model_event b a) = an_current_is_tool a"
    "an_current_tool_idx (emit_model_event b a) = an_current_tool_idx a"
    by (simp_all add: stream_closed_def emit_model_event_def)
  show ?thesis using assms(1) s st c by (auto simp: anthropic_ok_def emit_out)
qed

lemma anthropic_error_ok: "anthropic_ok a \<Longrightarrow> anthropic_ok (emit_error code msg a)"
  using emit_error_ok [of a code msg] by (auto simp: anthropic_ok_def)

lemma anthropic_fields_ok:
  "anthropic_ok a \<Longrightarrow> anthropic_ok (a\<lparr>an_usage := u\<rparr>)" "anthropic_ok a \<Longrightarrow> anthropic_ok (a\<lparr>an_stop_reason := r\<rparr>)"
  "anthropic_ok a \<Longrightarrow> anthropic_ok (a\<lparr>an_current_is_tool := False\<rparr>)"
  by (simp_all add: anthropic_ok_def stream_ok_def stream_closed_def)

lemma finish_message_ok:
  assumes "anthropic_ok a"
  shows "anthropic_ok (finish_message a) \<and> stream_closed (finish_message a) \<and>
    st_request_id (finish_message a) = st_request_id a"
proof -
  let ?u = "(an_usage a)\<lparr>total_tokens := int64_wrap (input_tokens (an_usage a) + output_tokens (an_usage a))\<rparr>"
  have "anthropic_ok (anthropic_emit_usage ?u (a\<lparr>an_usage := ?u\<rparr>))"
    unfolding anthropic_emit_usage_def
    by (rule anthropic_emit_ok) (use anthropic_fields_ok(1) [OF assms] in simp_all)
  then have "stream_ok (finish_message a)" using emit_done_ok by (auto simp: finish_message_def anthropic_ok_def Let_def)
  then show ?thesis by (simp add: anthropic_ok_def finish_message_def Let_def anthropic_emit_usage_def)
qed

lemma end_block_ok: "anthropic_ok a \<Longrightarrow> anthropic_ok (end_block a)"
proof -
  assume ok: "anthropic_ok a"
  show ?thesis
  proof (cases "an_current_is_tool a")
    case True
    have "anthropic_ok (emit_tool_end (an_current_tool_idx a) a)"
      unfolding emit_tool_end_def by (rule anthropic_emit_ok) (use ok True in \<open>auto simp: anthropic_ok_def\<close>)
    from anthropic_fields_ok(3) [OF this] True show ?thesis by (simp add: end_block_def)
  qed (simp add: end_block_def ok)
qed

lemma block_start_ok:
  assumes "anthropic_ok a"
  shows "anthropic_ok (on_block_start root a)"
proof (cases "json_val_is_obj (json_val_obj_get root ''content_block'') \<and>
    c_get_str (json_val_obj_get root ''content_block'') ''type'' = Some ''tool_use''")
  case True
  let ?n = "an_tool_counter a"
  have "\<exists>b id1 name calls. b = a\<lparr>an_current_is_tool := True, an_current_tool_idx := ?n, an_tool_counter := ?n + 1, an_calls := calls\<rparr> \<and>
      on_block_start root a = emit_model_event (Tool_Call_Start ?n id1 name) b"
    using True by (auto simp: on_block_start_def Let_def emit_tool_start_def split_beta)
  then obtain b id1 name calls where
    b: "b = a\<lparr>an_current_is_tool := True, an_current_tool_idx := ?n, an_tool_counter := ?n + 1, an_calls := calls\<rparr>"
    and e: "on_block_start root a = emit_model_event (Tool_Call_Start ?n id1 name) b" by blast
  have "stream_ok b" "stream_closed b = stream_closed a" "st_out b = st_out a"
    using assms by (simp_all add: b anthropic_ok_def stream_ok_def stream_closed_def)
  moreover have "stream_ok (emit_model_event (Tool_Call_Start ?n id1 name) b)"
    by (rule emit_event_ok) (use assms calculation in \<open>auto simp: anthropic_ok_def\<close>)
  moreover have "an_tool_counter (emit_model_event c b) = ?n + 1" "an_current_tool_idx (emit_model_event c b) = ?n"
    "stream_closed (emit_model_event c b) = stream_closed a" for c
    by (simp_all add: b emit_model_event_def stream_closed_def)
  ultimately show ?thesis
    unfolding e using assms by (auto simp: anthropic_ok_def emit_out less_Suc_eq)
next
  case False
  with assms anthropic_fields_ok(3) show ?thesis by (auto simp: on_block_start_def Let_def)
qed

lemma block_delta_ok:
  assumes ok: "anthropic_ok a"
  shows "anthropic_ok (on_block_delta root a)"
proof -
  have t: "anthropic_ok (emit_text d a)" for d
    unfolding emit_text_def by (rule anthropic_emit_ok) (use ok in simp_all)
  have d: "anthropic_ok (emit_tool_delta (an_current_tool_idx a) d a)" if "an_current_is_tool a" for d
    unfolding emit_tool_delta_def by (rule anthropic_emit_ok) (use ok that in \<open>simp_all add: anthropic_ok_def\<close>)
  from ok t d show ?thesis by (simp add: on_block_delta_def Let_def split: option.split)
qed

lemma handle_event_ok:
  assumes ok: "anthropic_ok a"
  shows "anthropic_ok (handle_event read d a)"
proof -
  have u: "anthropic_ok (on_message_start root a)" for root
    using ok anthropic_fields_ok(1) by (simp add: on_message_start_def Let_def)
  have m: "anthropic_ok (on_message_delta root a)" for root
  proof -
    have "anthropic_ok (if json_val_is_obj (json_val_obj_get root ''delta'')
          then (case c_get_str (json_val_obj_get root ''delta'') ''stop_reason'' of
                  Some r \<Rightarrow> a\<lparr>an_stop_reason := parse_stop_reason (Some r)\<rparr> | None \<Rightarrow> a) else a)"
      using ok anthropic_fields_ok(2) by (simp split: option.split)
    then show ?thesis using anthropic_fields_ok(1) by (simp add: on_message_delta_def Let_def)
  qed
  show ?thesis
    using ok u m anthropic_error_ok [OF ok] block_start_ok [OF ok] block_delta_ok [OF ok] end_block_ok [OF ok]
      finish_message_ok [OF ok]
    by (simp add: handle_event_def Let_def split: option.split)
qed

lemma end_block_id [simp]: "st_request_id (end_block a) = st_request_id a"
  by (simp add: end_block_def emit_tool_end_def)

lemma finish_message_id [simp]: "st_request_id (finish_message a) = st_request_id a"
  by (simp add: finish_message_def Let_def anthropic_emit_usage_def)

lemma handle_event_id [simp]: "st_request_id (handle_event read d a) = st_request_id a"
proof -
  have "st_request_id (on_block_start root a) = st_request_id a" for root
    by (simp add: on_block_start_def Let_def emit_tool_start_def split_beta)
  moreover have "st_request_id (on_block_delta root a) = st_request_id a" for root
    by (simp add: on_block_delta_def Let_def emit_text_def emit_tool_delta_def split: option.split)
  moreover have "st_request_id (on_message_delta root a) = st_request_id a" for root
    by (simp add: on_message_delta_def Let_def split: option.split)
  ultimately show ?thesis
    by (simp add: handle_event_def Let_def on_message_start_def split: option.split)
qed

interpretation anthropic_stream: stream_protocol "anthropic_protocol read" anthropic_ok
proof unfold_locales
  fix a i ev code msg
  show "anthropic_ok (sp_fresh (anthropic_protocol read) i)" "\<not> stream_closed (sp_fresh (anthropic_protocol read) i)"
    "st_request_id (sp_fresh (anthropic_protocol read) i) = i"
    by (auto simp: anthropic_protocol_def anthropic_fresh_def anthropic_ok_def stream_ok_def stream_closed_def)
  show "st_request_id (sp_on_event (anthropic_protocol read) ev a) = st_request_id a"
    "st_request_id (sp_settle (anthropic_protocol read) a) = st_request_id a"
    by (simp_all add: anthropic_protocol_def anthropic_sse_cb_def anthropic_settle_def split: sse_event.split)
  assume ok: "anthropic_ok a"
  note fin = finish_message_ok [OF end_block_ok [OF ok]]
  show "stream_ok a" using ok by (simp add: anthropic_ok_def)
  show "anthropic_ok (sp_on_event (anthropic_protocol read) ev a)"
    using fin handle_event_ok [OF ok] by (simp add: anthropic_protocol_def anthropic_sse_cb_def split: sse_event.split)
  show "anthropic_ok (sp_settle (anthropic_protocol read) a)" "stream_closed (sp_settle (anthropic_protocol read) a)"
    using fin anthropic_error_ok [OF ok] by (simp_all add: anthropic_protocol_def anthropic_settle_def)
  show "anthropic_ok (emit_error code msg a)" by (rule anthropic_error_ok [OF ok])
qed

end
