(* ===== verification/Responses.thy ===== *)
theory Responses
  imports Openai
begin

text \<open>
  The provider of the Responses API, \<open>src/src/model/responses.c\<close>: an accumulator that holds
  arguments back until a call has its id, and a stream that does not end well while a call has none.
  As in \<open>Openai\<close>, the JSON reader and writer are parameters.
\<close>

section \<open>The accumulator\<close>

record responses_call = tool_call_state +
  rc_call_id :: "string option"
  rc_name :: "string option"
  rc_pending :: string
  rc_argument_len :: nat

record responses_accum = stream +
  rs_calls :: "responses_call list"
  rs_usage_emitted :: bool

definition responses_fresh :: "64 word \<Rightarrow> responses_accum" where
  "responses_fresh i = \<lparr>st_request_id = i, st_out = [], error_emitted = False, done_emitted = False,
     rs_calls = [], rs_usage_emitted = False\<rparr>"

definition new_call :: "nat \<Rightarrow> responses_call" where
  "new_call i = \<lparr>tcs_index = i, tcs_seen_start = False, rc_call_id = None, rc_name = None, rc_pending = [], rc_argument_len = 0\<rparr>"

definition responses_emit_usage :: "usage \<Rightarrow> responses_accum \<Rightarrow> responses_accum" where
  "responses_emit_usage u a =
     (if rs_usage_emitted a \<or> error_emitted a \<or> done_emitted a then a
      else emit_model_event (Usage_Report u) (a\<lparr>rs_usage_emitted := True\<rparr>))"

text \<open>\<open>call_state_set\<close>: an empty value is no value, and the first real one stays.\<close>

definition call_state_set :: "string option \<Rightarrow> string option \<Rightarrow> string option" where
  "call_state_set dst value =
     (case value of
        None \<Rightarrow> dst
      | Some v \<Rightarrow>
          if v = [] then dst
          else (case dst of Some d \<Rightarrow> if d \<noteq> [] then dst else Some v | None \<Rightarrow> Some v))"

definition has_call_id :: "responses_call \<Rightarrow> bool" where
  "has_call_id s \<longleftrightarrow> (case rc_call_id s of Some d \<Rightarrow> d \<noteq> [] | None \<Rightarrow> False)"

definition finish_stream :: "model_stop_reason \<Rightarrow> responses_accum \<Rightarrow> responses_accum" where
  "finish_stream reason a =
     (if done_emitted a \<or> error_emitted a then a
      else if \<exists>s\<in>set (rs_calls a). \<not> tcs_seen_start s \<or> \<not> has_call_id s then
        emit_error (error_value AGENT_ERR_MODEL) (Some ''Responses function call missing call_id'') a
      else
        (let a1 = foldl (\<lambda>a s. emit_tool_end (tcs_index s) a) a (rs_calls a) in
         emit_done (if reason = MODEL_STOP_COMPLETE \<and> rs_calls a \<noteq> [] then MODEL_STOP_TOOL_CALLS else reason) a1))"

text \<open>Slot \<open>k\<close> is announced once it has an id, and what was held back follows.\<close>

definition emit_call_start_if_needed :: "nat \<Rightarrow> responses_accum \<Rightarrow> responses_accum" where
  "emit_call_start_if_needed k a =
     (let s = rs_calls a ! k in
      if \<not> tcs_seen_start s \<and> has_call_id s then
        (let a1 = emit_tool_start (tcs_index s) (rc_call_id s) (rc_name s) a; s1 = s\<lparr>tcs_seen_start := True\<rparr> in
         if rc_pending s \<noteq> [] then
           (emit_tool_delta (tcs_index s) (rc_pending s) a1)
             \<lparr>rs_calls := (rs_calls a)[k := s1\<lparr>rc_argument_len := rc_argument_len s + length (rc_pending s), rc_pending := []\<rparr>]\<rparr>
         else a1\<lparr>rs_calls := (rs_calls a)[k := s1]\<rparr>)
      else a)"

definition response_usage :: "json option \<Rightarrow> usage" where
  "response_usage u =
     \<lparr>input_tokens = json_obj_get_int u ''input_tokens'' 0,
      output_tokens = json_obj_get_int u ''output_tokens'' 0,
      cached_tokens = (if json_val_is_obj (json_val_obj_get u ''input_tokens_details'')
                       then json_obj_get_int (json_val_obj_get u ''input_tokens_details'') ''cached_tokens'' 0 else 0),
      total_tokens = json_obj_get_int u ''total_tokens'' 0\<rparr>"

definition parse_usage :: "json option \<Rightarrow> responses_accum \<Rightarrow> responses_accum" where
  "parse_usage u a = (if json_val_is_obj u then responses_emit_usage (response_usage u) a else a)"

definition parse_incomplete_reason :: "json option \<Rightarrow> model_stop_reason" where
  "parse_incomplete_reason response =
     (case c_get_str (json_val_obj_get response ''incomplete_details'') ''reason'' of
        None \<Rightarrow> MODEL_STOP_INCOMPLETE
      | Some r \<Rightarrow>
          if r = ''max_output_tokens'' \<or> r = ''max_tokens'' then MODEL_STOP_MAX_TOKENS
          else if r = ''content_filter'' then MODEL_STOP_CONTENT_FILTER
          else MODEL_STOP_INCOMPLETE)"

text \<open>\<open>response.output_item.added\<close> and \<open>.done\<close>.\<close>

definition on_output_item :: "json option \<Rightarrow> responses_accum \<Rightarrow> agent_error \<times> responses_accum" where
  "on_output_item root a =
     (let index = json_obj_get_int root ''output_index'' (-1); item = json_val_obj_get root ''item'' in
      if index < 0 \<or> c_get_str item ''type'' \<noteq> Some ''function_call'' then (AGENT_OK, a)
      else
        (case accum_ensure_call (nat index) (new_call (nat index)) (rs_calls a) of
           (None, _) \<Rightarrow> (AGENT_ERR_OOM, a)
         | (Some k, calls) \<Rightarrow>
             (let call_id = (case c_get_str item ''call_id'' of
                               Some v \<Rightarrow> if v \<noteq> [] then Some v else c_get_str root ''call_id''
                             | None \<Rightarrow> c_get_str root ''call_id'');
                  s = (calls ! k)\<lparr>rc_call_id := call_state_set (rc_call_id (calls ! k)) call_id,
                                  rc_name := call_state_set (rc_name (calls ! k)) (c_get_str item ''name'')\<rparr>;
                  a1 = a\<lparr>rs_calls := calls[k := s]\<rparr>;
                  a2 = (case c_get_str item ''arguments'' of
                          None \<Rightarrow> a1
                        | Some args \<Rightarrow>
                            if args \<noteq> [] \<and> rc_argument_len s = 0 then
                              (if tcs_seen_start s then
                                 (emit_tool_delta (tcs_index s) args a1)\<lparr>rs_calls := calls[k := s\<lparr>rc_argument_len := length args\<rparr>]\<rparr>
                               else if rc_pending s = [] then a1\<lparr>rs_calls := calls[k := s\<lparr>rc_pending := args\<rparr>]\<rparr>
                               else a1)
                            else a1) in
              (AGENT_OK, emit_call_start_if_needed k a2))))"

definition on_arguments_delta :: "json option \<Rightarrow> responses_accum \<Rightarrow> agent_error \<times> responses_accum" where
  "on_arguments_delta root a =
     (let index = json_obj_get_int root ''output_index'' (-1) in
      case c_get_str root ''delta'' of
        None \<Rightarrow> (AGENT_OK, a)
      | Some d \<Rightarrow>
          if index < 0 then (AGENT_OK, a)
          else
            (case accum_ensure_call (nat index) (new_call (nat index)) (rs_calls a) of
               (None, _) \<Rightarrow> (AGENT_ERR_OOM, a)
             | (Some k, calls) \<Rightarrow>
                 (let s = calls ! k; a1 = a\<lparr>rs_calls := calls\<rparr> in
                  (AGENT_OK,
                   if tcs_seen_start s
                   then (emit_tool_delta (tcs_index s) d a1)\<lparr>rs_calls := calls[k := s\<lparr>rc_argument_len := rc_argument_len s + length d\<rparr>]\<rparr>
                   else a1\<lparr>rs_calls := calls[k := s\<lparr>rc_pending := rc_pending s @ d\<rparr>]\<rparr>))))"

definition on_arguments_done :: "json option \<Rightarrow> responses_accum \<Rightarrow> agent_error \<times> responses_accum" where
  "on_arguments_done root a =
     (let index = json_obj_get_int root ''output_index'' (-1) in
      case c_get_str root ''arguments'' of
        None \<Rightarrow> (AGENT_OK, a)
      | Some args \<Rightarrow>
          if index < 0 then (AGENT_OK, a)
          else
            (case accum_ensure_call (nat index) (new_call (nat index)) (rs_calls a) of
               (None, _) \<Rightarrow> (AGENT_ERR_OOM, a)
             | (Some k, calls) \<Rightarrow>
                 (let s = calls ! k;
                      s1 = (if \<not> tcs_seen_start s \<and> args \<noteq> [] \<and> rc_argument_len s = 0 \<and> rc_pending s = []
                            then s\<lparr>rc_pending := args\<rparr> else s);
                      a1 = emit_call_start_if_needed k (a\<lparr>rs_calls := calls[k := s1]\<rparr>);
                      s2 = rs_calls a1 ! k in
                  (AGENT_OK,
                   if tcs_seen_start s2 \<and> rc_argument_len s2 = 0 \<and> args \<noteq> []
                   then (emit_tool_delta (tcs_index s2) args a1)\<lparr>rs_calls := (rs_calls a1)[k := s2\<lparr>rc_argument_len := length args\<rparr>]\<rparr>
                   else a1))))"

definition on_response_end :: "json option \<Rightarrow> responses_accum \<Rightarrow> responses_accum" where
  "on_response_end response a =
     (if json_val_is_obj response then parse_usage (json_val_obj_get response ''usage'') a else a)"

definition handle_response_event :: "(string \<Rightarrow> json option) \<Rightarrow> string \<Rightarrow> responses_accum \<Rightarrow> agent_error \<times> responses_accum" where
  "handle_response_event read txt0 a =
     (let root = json_parse read txt0 in
      case c_get_str root ''type'' of
        None \<Rightarrow> (AGENT_ERR_JSON, a)
      | Some ty \<Rightarrow>
          if ty = ''response.output_text.delta'' then
            (AGENT_OK, case c_get_str root ''delta'' of Some d \<Rightarrow> emit_text d a | None \<Rightarrow> a)
          else if ty = ''response.reasoning_summary_text.delta'' \<or> ty = ''response.reasoning_text.delta'' then
            (AGENT_OK, case c_get_str root ''delta'' of Some d \<Rightarrow> emit_reasoning d a | None \<Rightarrow> a)
          else if ty = ''response.output_item.added'' \<or> ty = ''response.output_item.done'' then on_output_item root a
          else if ty = ''response.function_call_arguments.delta'' then on_arguments_delta root a
          else if ty = ''response.function_call_arguments.done'' then on_arguments_done root a
          else if ty = ''response.usage.updated'' then (AGENT_OK, parse_usage (json_val_obj_get root ''usage'') a)
          else if ty = ''response.completed'' then
            (AGENT_OK, finish_stream MODEL_STOP_COMPLETE (on_response_end (json_val_obj_get root ''response'') a))
          else if ty = ''response.incomplete'' then
            (AGENT_OK, finish_stream (parse_incomplete_reason (json_val_obj_get root ''response''))
               (on_response_end (json_val_obj_get root ''response'') a))
          else if ty = ''response.failed'' \<or> ty = ''error'' then
            (AGENT_OK, emit_error (error_value AGENT_ERR_MODEL)
               (case c_get_str (json_val_obj_get root ''error'') ''message'' of
                  Some m \<Rightarrow> Some m | None \<Rightarrow> Some ''Responses API error'') a)
          else (AGENT_OK, a))"

definition responses_sse_cb :: "(string \<Rightarrow> json option) \<Rightarrow> sse_event \<Rightarrow> responses_accum \<Rightarrow> responses_accum" where
  "responses_sse_cb read ev a =
     (case ev of
        Sse_Done _ \<Rightarrow> finish_stream MODEL_STOP_UNKNOWN a
      | Sse_Data d \<Rightarrow>
          (let (rc, a1) = handle_response_event read d a in
           if rc \<noteq> AGENT_OK then emit_error (error_value AGENT_ERR_JSON) (Some ''malformed stream JSON'') a1 else a1))"

text \<open>A stream that ended well without a terminal event.\<close>

definition responses_settle :: "responses_accum \<Rightarrow> responses_accum" where
  "responses_settle a =
     (if rs_usage_emitted a then finish_stream MODEL_STOP_UNKNOWN a
      else emit_error (error_value AGENT_ERR_HTTP) (Some ''stream ended before a terminal response event'') a)"

definition responses_protocol :: "(string \<Rightarrow> json option) \<Rightarrow> responses_accum protocol" where
  "responses_protocol read =
     \<lparr>sp_fresh = responses_fresh, sp_on_event = responses_sse_cb read, sp_settle = responses_settle\<rparr>"

section \<open>The contract\<close>

text \<open>What the stream knows of its calls: their indices and whether they have been announced.\<close>

definition slots :: "responses_call list \<Rightarrow> (nat \<times> bool) list" where
  "slots calls = map (\<lambda>s. (tcs_index s, tcs_seen_start s)) calls"

definition announced :: "responses_call list \<Rightarrow> nat set" where
  "announced calls = {i. (i, True) \<in> set (slots calls)}"

definition started_with_id :: "model_event list \<Rightarrow> bool" where
  "started_with_id out \<longleftrightarrow> list_all (\<lambda>e. case me_body e of Tool_Call_Start _ id1 _ \<Rightarrow> id1 \<noteq> None \<and> id1 \<noteq> Some [] | _ \<Rightarrow> True) out"

definition responses_ok :: "responses_accum \<Rightarrow> bool" where
  "responses_ok a \<longleftrightarrow> stream_ok a \<and> distinct (map fst (slots (rs_calls a))) \<and>
     (\<not> stream_closed a \<longrightarrow> set (started (st_out a)) = announced (rs_calls a)) \<and>
     (stream_closed a \<and> is_done (st_out a) \<longrightarrow> calls_ended (st_out a)) \<and> started_with_id (st_out a)"

lemma slots_update [simp]:
  "k < length calls \<Longrightarrow> tcs_index s = tcs_index (calls ! k) \<Longrightarrow> tcs_seen_start s = tcs_seen_start (calls ! k) \<Longrightarrow>
   slots (calls[k := s]) = slots calls"
  by (simp add: slots_def map_update) (metis (mono_tags, lifting) list_update_id nth_map map_update)

lemma length_slots [simp]: "length (slots calls) = length calls"
  by (simp add: slots_def)

lemma responses_slots:
  "responses_ok a \<Longrightarrow> slots calls = slots (rs_calls a) \<Longrightarrow> responses_ok (a\<lparr>rs_calls := calls\<rparr>)"
  by (simp add: responses_ok_def announced_def stream_ok_def stream_closed_def)

lemma responses_usage_flag: "responses_ok a \<Longrightarrow> responses_ok (a\<lparr>rs_usage_emitted := u\<rparr>)"
  by (simp add: responses_ok_def stream_ok_def stream_closed_def)

lemma responses_emit_ok:
  assumes "responses_ok a" and "\<not> terminal_event b" and "\<And>i x n. b \<noteq> Tool_Call_Start i x n"
    and "\<not> stream_closed a \<Longrightarrow> tool_allowed (started (st_out a)) b"
  shows "responses_ok (emit_model_event b a)"
proof -
  have s: "stream_ok (emit_model_event b a)" by (rule emit_event_ok) (use assms in \<open>auto simp: responses_ok_def\<close>)
  have st: "started [\<lparr>me_request_id = r, me_body = b\<rparr>] = []" "started_with_id [\<lparr>me_request_id = r, me_body = b\<rparr>]" for r
    using assms(3) by (cases b; simp add: started_with_id_def)+
  have c: "stream_closed (emit_model_event b a) = stream_closed a" "rs_calls (emit_model_event b a) = rs_calls a"
    by (simp_all add: stream_closed_def emit_model_event_def)
  have w: "started_with_id (xs @ ys) = (started_with_id xs \<and> started_with_id ys)" for xs ys
    by (simp add: started_with_id_def)
  show ?thesis
    using assms(1) s st c w by (auto simp: responses_ok_def emit_out)
qed

lemma responses_delta_ok:
  assumes "responses_ok a" and "k < length (rs_calls a)" and "tcs_seen_start (rs_calls a ! k)"
  shows "responses_ok (emit_tool_delta (tcs_index (rs_calls a ! k)) d a)"
  unfolding emit_tool_delta_def
proof (rule responses_emit_ok [OF assms(1)])
  assume "\<not> stream_closed a"
  moreover have "(tcs_index (rs_calls a ! k), True) \<in> set (slots (rs_calls a))"
    using assms(2,3) by (force simp: slots_def)
  ultimately show "tool_allowed (started (st_out a)) (Tool_Call_Delta (tcs_index (rs_calls a ! k)) d)"
    using assms(1) by (simp add: responses_ok_def announced_def)
qed simp_all

lemma responses_error_ok: "responses_ok a \<Longrightarrow> responses_ok (emit_error code msg a)"
  using emit_error_ok [of a code msg]
  by (auto simp: responses_ok_def emit_error_def stream_closed_def emit_model_event_def started_with_id_def is_done_def)

lemma responses_ensure_ok:
  assumes "responses_ok a" and "accum_ensure_call i (new_call i) (rs_calls a) = (Some k, calls)"
  shows "responses_ok (a\<lparr>rs_calls := calls\<rparr>) \<and> k < length calls"
proof -
  from ensure_call_spec [OF assms(2)] have e: "k < length calls"
    "calls = rs_calls a \<or> calls = rs_calls a @ [new_call i] \<and> i \<notin> tcs_index ` set (rs_calls a)"
    by (simp_all add: new_call_def) blast+
  from e(2) show ?thesis
  proof
    assume "calls = rs_calls a"
    with assms(1) e(1) show ?thesis by simp
  next
    assume c: "calls = rs_calls a @ [new_call i] \<and> i \<notin> tcs_index ` set (rs_calls a)"
    then have "slots calls = slots (rs_calls a) @ [(i, False)]" "i \<notin> set (map fst (slots (rs_calls a)))"
      by (auto simp: slots_def new_call_def)
    with assms(1) e(1) show ?thesis by (auto simp: responses_ok_def announced_def stream_ok_def stream_closed_def)
  qed
qed

lemma emit_calls_commute: "emit_model_event b (a\<lparr>rs_calls := x\<rparr>) = (emit_model_event b a)\<lparr>rs_calls := x\<rparr>"
  by (simp add: emit_model_event_def)

lemma emit_keeps_calls [simp]:
  "rs_calls (emit_model_event b a) = rs_calls a" "rs_calls (emit_tool_delta i d a) = rs_calls a"
  "rs_calls (emit_tool_start i x n a) = rs_calls a"
  by (simp_all add: emit_model_event_def emit_tool_delta_def emit_tool_start_def)

lemma responses_start_ok:
  assumes ok: "responses_ok a" and k: "k < length (rs_calls a)" and n: "\<not> tcs_seen_start (rs_calls a ! k)"
    and id: "has_call_id (rs_calls a ! k)"
  defines "s \<equiv> rs_calls a ! k"
  shows "responses_ok ((emit_tool_start (tcs_index s) (rc_call_id s) (rc_name s) a)\<lparr>rs_calls := (rs_calls a)[k := s\<lparr>tcs_seen_start := True\<rparr>]\<rparr>)"
proof -
  let ?i = "tcs_index s" and ?calls = "(rs_calls a)[k := s\<lparr>tcs_seen_start := True\<rparr>]"
  have sl: "slots ?calls = (slots (rs_calls a))[k := (?i, True)]" by (simp add: slots_def map_update)
  have at: "slots (rs_calls a) ! k = (?i, False)" using k n by (simp add: slots_def s_def)
  have d: "distinct (map fst (slots (rs_calls a)))" using ok by (simp add: responses_ok_def)
  have other: "(?i, c) \<in> set (slots (rs_calls a)) \<Longrightarrow> c = False" for c
  proof -
    assume "(?i, c) \<in> set (slots (rs_calls a))"
    then obtain j where j: "j < length (rs_calls a)" "slots (rs_calls a) ! j = (?i, c)" by (auto simp: in_set_conv_nth)
    then have "map fst (slots (rs_calls a)) ! j = map fst (slots (rs_calls a)) ! k" using at k by simp
    with nth_eq_iff_index_eq [OF d, of j k] j(1) k have "j = k" by simp
    with j at show "c = False" by simp
  qed
  have fst: "map fst (slots ?calls) = map fst (slots (rs_calls a))"
    unfolding sl using at k by (simp add: map_update) (metis fst_conv length_map length_slots list_update_id nth_map)
  have an: "announced ?calls = insert ?i (announced (rs_calls a))"
  proof -
    have "j \<in> announced ?calls \<longleftrightarrow> j = ?i \<or> j \<in> announced (rs_calls a)" for j
    proof -
      have "(j, True) \<in> set ((slots (rs_calls a))[k := (?i, True)]) \<longleftrightarrow> j = ?i \<or> (j, True) \<in> set (slots (rs_calls a))"
        using at k by (auto simp: in_set_conv_nth nth_list_update) (metis Pair_inject)
      then show ?thesis unfolding announced_def sl by simp
    qed
    then show ?thesis by auto
  qed
  have fresh: "\<not> stream_closed a \<Longrightarrow> ?i \<notin> set (started (st_out a))"
    using ok other by (auto simp: responses_ok_def announced_def)
  have so: "stream_ok (emit_model_event (Tool_Call_Start ?i (rc_call_id s) (rc_name s)) a)"
    by (rule emit_event_ok) (use ok fresh in \<open>auto simp: responses_ok_def\<close>)
  have ids: "rc_call_id s \<noteq> None \<and> rc_call_id s \<noteq> Some []"
    using id by (auto simp: has_call_id_def s_def split: option.splits)
  show ?thesis
    using ok so ids an fst d
    by (auto simp: responses_ok_def emit_tool_start_def emit_model_event_def stream_ok_def stream_closed_def started_with_id_def)
qed

lemma call_start_ok:
  assumes ok: "responses_ok a" and k: "k < length (rs_calls a)"
  shows "responses_ok (emit_call_start_if_needed k a) \<and> length (rs_calls (emit_call_start_if_needed k a)) = length (rs_calls a)"
proof (cases "\<not> tcs_seen_start (rs_calls a ! k) \<and> has_call_id (rs_calls a ! k)")
  case True
  let ?s = "rs_calls a ! k"
  let ?s1 = "?s\<lparr>tcs_seen_start := True\<rparr>"
  let ?b = "(emit_tool_start (tcs_index ?s) (rc_call_id ?s) (rc_name ?s) a)\<lparr>rs_calls := (rs_calls a)[k := ?s1]\<rparr>"
  let ?d = "emit_tool_delta (tcs_index ?s) (rc_pending ?s) ?b"
  have b: "responses_ok ?b" using responses_start_ok [OF ok k] True by simp
  have d: "responses_ok ?d" using responses_delta_ok [OF b, of k "rc_pending ?s"] k by simp
  have e: "emit_call_start_if_needed k a = (if rc_pending ?s = [] then ?b
      else ?d\<lparr>rs_calls := (rs_calls a)[k := ?s1\<lparr>rc_argument_len := rc_argument_len ?s + length (rc_pending ?s), rc_pending := []\<rparr>]\<rparr>)"
    using True by (simp add: emit_call_start_if_needed_def Let_def emit_tool_delta_def emit_calls_commute)
  have f: "responses_ok (?d\<lparr>rs_calls := (rs_calls a)[k := ?s1\<lparr>rc_argument_len := rc_argument_len ?s + length (rc_pending ?s), rc_pending := []\<rparr>]\<rparr>)"
    by (rule responses_slots [OF d]) (use k in \<open>simp add: slots_def map_update\<close>)
  from b f k show ?thesis unfolding e by simp
next
  case False
  with ok show ?thesis by (auto simp: emit_call_start_if_needed_def Let_def)
qed

text \<open>Each of the three events about one call.\<close>

lemma slot_update_ok:
  "responses_ok a \<Longrightarrow> k < length (rs_calls a) \<Longrightarrow> tcs_index s = tcs_index (rs_calls a ! k) \<Longrightarrow>
   tcs_seen_start s = tcs_seen_start (rs_calls a ! k) \<Longrightarrow> responses_ok (a\<lparr>rs_calls := (rs_calls a)[k := s]\<rparr>)"
  by (rule responses_slots) simp_all

lemma seen_delta_ok:
  assumes "responses_ok a" and "k < length (rs_calls a)" and "tcs_seen_start (rs_calls a ! k)"
    and "tcs_index s = tcs_index (rs_calls a ! k)" and "tcs_seen_start s"
  shows "responses_ok ((emit_tool_delta (tcs_index (rs_calls a ! k)) d a)\<lparr>rs_calls := (rs_calls a)[k := s]\<rparr>)"
  by (rule responses_slots [OF responses_delta_ok [OF assms(1-3)]]) (use assms in simp)

lemma output_item_ok:
  assumes ok: "responses_ok a"
  shows "responses_ok (snd (on_output_item root a))"
proof (cases "json_obj_get_int root ''output_index'' (-1) < 0 \<or>
    c_get_str (json_val_obj_get root ''item'') ''type'' \<noteq> Some ''function_call''")
  case True
  with ok show ?thesis by (auto simp: on_output_item_def Let_def)
next
  case False
  let ?i = "nat (json_obj_get_int root ''output_index'' (-1))"
  obtain ko calls where e: "accum_ensure_call ?i (new_call ?i) (rs_calls a) = (ko, calls)" by (metis surj_pair)
  show ?thesis
  proof (cases ko)
    case None
    with False e ok show ?thesis by (simp add: on_output_item_def Let_def)
  next
    case (Some k)
    note en = responses_ensure_ok [OF ok e [unfolded Some]]
    define s where "s = (calls ! k)\<lparr>rc_call_id := call_state_set (rc_call_id (calls ! k))
        (case c_get_str (json_val_obj_get root ''item'') ''call_id'' of
           Some v \<Rightarrow> if v \<noteq> [] then Some v else c_get_str root ''call_id'' | None \<Rightarrow> c_get_str root ''call_id''),
        rc_name := call_state_set (rc_name (calls ! k)) (c_get_str (json_val_obj_get root ''item'') ''name'')\<rparr>"
    let ?a1 = "a\<lparr>rs_calls := calls[k := s]\<rparr>"
    have a1: "responses_ok ?a1"
      using slot_update_ok [of "a\<lparr>rs_calls := calls\<rparr>" k s] en by (simp add: s_def)
    have pend: "responses_ok (a\<lparr>rs_calls := calls[k := s\<lparr>rc_pending := d\<rparr>]\<rparr>)" for d
      using slot_update_ok [OF a1, of k "s\<lparr>rc_pending := d\<rparr>"] en by (simp add: s_def)
    have del: "responses_ok ((emit_tool_delta (tcs_index s) d ?a1)\<lparr>rs_calls := calls[k := s\<lparr>rc_argument_len := n\<rparr>]\<rparr>)"
      if "tcs_seen_start s" for d n
      using seen_delta_ok [OF a1, of k "s\<lparr>rc_argument_len := n\<rparr>" d] en that by simp
    define a2 where "a2 = (case c_get_str (json_val_obj_get root ''item'') ''arguments'' of
        None \<Rightarrow> ?a1
      | Some args \<Rightarrow>
          if args \<noteq> [] \<and> rc_argument_len s = 0 then
            (if tcs_seen_start s then
               (emit_tool_delta (tcs_index s) args ?a1)\<lparr>rs_calls := calls[k := s\<lparr>rc_argument_len := length args\<rparr>]\<rparr>
             else if rc_pending s = [] then ?a1\<lparr>rs_calls := calls[k := s\<lparr>rc_pending := args\<rparr>]\<rparr>
             else ?a1)
          else ?a1)"
    have a2: "responses_ok a2 \<and> k < length (rs_calls a2)"
      using a1 pend del en by (auto simp: a2_def split: option.split)
    have "on_output_item root a = (AGENT_OK, emit_call_start_if_needed k a2)"
      unfolding a2_def s_def on_output_item_def Let_def using False e Some by simp
    with call_start_ok [of a2 k] a2 show ?thesis by simp
  qed
qed

lemma arguments_delta_ok:
  assumes ok: "responses_ok a"
  shows "responses_ok (snd (on_arguments_delta root a))"
proof (cases "c_get_str root ''delta''")
  case None
  with ok show ?thesis by (simp add: on_arguments_delta_def)
next
  case (Some d)
  let ?i = "nat (json_obj_get_int root ''output_index'' (-1))"
  obtain ko calls where e: "accum_ensure_call ?i (new_call ?i) (rs_calls a) = (ko, calls)" by (metis surj_pair)
  show ?thesis
  proof (cases ko)
    case None
    with Some e ok show ?thesis by (simp add: on_arguments_delta_def Let_def)
  next
    case k: (Some k)
    let ?a1 = "a\<lparr>rs_calls := calls\<rparr>"
    note en = responses_ensure_ok [OF ok e [unfolded k]]
    have pend: "responses_ok (a\<lparr>rs_calls := calls[k := (calls ! k)\<lparr>rc_pending := x\<rparr>]\<rparr>)" for x
      using slot_update_ok [of ?a1 k "(calls ! k)\<lparr>rc_pending := x\<rparr>"] en by simp
    have del: "responses_ok ((emit_tool_delta (tcs_index (calls ! k)) d ?a1)\<lparr>rs_calls := calls[k := (calls ! k)\<lparr>rc_argument_len := n\<rparr>]\<rparr>)"
      if "tcs_seen_start (calls ! k)" for n
      using seen_delta_ok [of ?a1 k "(calls ! k)\<lparr>rc_argument_len := n\<rparr>" d] en that by simp
    from Some e k ok pend del show ?thesis by (simp add: on_arguments_delta_def Let_def)
  qed
qed

lemma arguments_done_ok:
  assumes ok: "responses_ok a"
  shows "responses_ok (snd (on_arguments_done root a))"
proof (cases "c_get_str root ''arguments''")
  case None
  with ok show ?thesis by (simp add: on_arguments_done_def)
next
  case (Some d)
  let ?i = "nat (json_obj_get_int root ''output_index'' (-1))"
  obtain ko calls where e: "accum_ensure_call ?i (new_call ?i) (rs_calls a) = (ko, calls)" by (metis surj_pair)
  show ?thesis
  proof (cases ko)
    case None
    with Some e ok show ?thesis by (simp add: on_arguments_done_def Let_def)
  next
    case k: (Some k)
    note en = responses_ensure_ok [OF ok e [unfolded k]]
    let ?s1 = "if \<not> tcs_seen_start (calls ! k) \<and> d \<noteq> [] \<and> rc_argument_len (calls ! k) = 0 \<and> rc_pending (calls ! k) = []
               then (calls ! k)\<lparr>rc_pending := d\<rparr> else calls ! k"
    let ?a1 = "emit_call_start_if_needed k (a\<lparr>rs_calls := calls[k := ?s1]\<rparr>)"
    have "responses_ok (a\<lparr>rs_calls := calls[k := ?s1]\<rparr>)"
      using slot_update_ok [of "a\<lparr>rs_calls := calls\<rparr>" k ?s1] en by simp
    then have a1: "responses_ok ?a1 \<and> k < length (rs_calls ?a1)"
      using call_start_ok [of "a\<lparr>rs_calls := calls[k := ?s1]\<rparr>" k] en by simp
    have del: "responses_ok ((emit_tool_delta (tcs_index (rs_calls ?a1 ! k)) d ?a1)
        \<lparr>rs_calls := (rs_calls ?a1)[k := (rs_calls ?a1 ! k)\<lparr>rc_argument_len := n\<rparr>]\<rparr>)"
      if "tcs_seen_start (rs_calls ?a1 ! k)" for n
      using seen_delta_ok [of ?a1 k "(rs_calls ?a1 ! k)\<lparr>rc_argument_len := n\<rparr>" d] a1 that by simp
    have "snd (on_arguments_done root a) = a \<or>
        snd (on_arguments_done root a) = ?a1 \<or> (tcs_seen_start (rs_calls ?a1 ! k) \<and> snd (on_arguments_done root a) =
        (emit_tool_delta (tcs_index (rs_calls ?a1 ! k)) d ?a1)
          \<lparr>rs_calls := (rs_calls ?a1)[k := (rs_calls ?a1 ! k)\<lparr>rc_argument_len := length d\<rparr>]\<rparr>)"
      using Some e k by (simp add: on_arguments_done_def Let_def)
    with ok a1 del show ?thesis by metis
  qed
qed

lemma response_ends_ok:
  "responses_ok a \<Longrightarrow> set ss \<subseteq> set (rs_calls a) \<Longrightarrow> \<forall>s\<in>set ss. tcs_seen_start s \<Longrightarrow>
   responses_ok (foldl (\<lambda>a s. emit_tool_end (tcs_index s) a) a ss)"
proof (induction ss arbitrary: a)
  case (Cons s ss)
  have "responses_ok (emit_tool_end (tcs_index s) a)"
    unfolding emit_tool_end_def
    by (rule responses_emit_ok) (use Cons.prems in \<open>auto simp: responses_ok_def announced_def slots_def rev_image_eqI\<close>)
  moreover have "rs_calls (emit_tool_end (tcs_index s) a) = rs_calls a" by (simp add: emit_tool_end_def)
  ultimately show ?case using Cons.IH [of "emit_tool_end (tcs_index s) a"] Cons.prems(2,3) by simp
qed simp

lemma finish_stream_ok:
  assumes ok: "responses_ok a"
  shows "responses_ok (finish_stream reason a) \<and> stream_closed (finish_stream reason a) \<and>
    st_request_id (finish_stream reason a) = st_request_id a"
proof (cases "stream_closed a")
  case True
  then have "finish_stream reason a = a" by (auto simp: finish_stream_def stream_closed_def)
  with ok True show ?thesis by simp
next
  case open1: False
  show ?thesis
  proof (cases "\<exists>s\<in>set (rs_calls a). \<not> tcs_seen_start s \<or> \<not> has_call_id s")
    case True
    with open1 have "finish_stream reason a =
        emit_error (error_value AGENT_ERR_MODEL) (Some ''Responses function call missing call_id'') a"
      by (simp add: finish_stream_def stream_closed_def)
    with responses_error_ok [OF ok] show ?thesis by simp
  next
    case False
    let ?b = "foldl (\<lambda>a s. emit_tool_end (tcs_index s) a) a (rs_calls a)"
    let ?r = "if reason = MODEL_STOP_COMPLETE \<and> rs_calls a \<noteq> [] then MODEL_STOP_TOOL_CALLS else reason"
    have e: "finish_stream reason a = emit_done ?r ?b" using False open1 by (simp add: finish_stream_def stream_closed_def Let_def)
    note b = ends_out [OF open1, of "rs_calls a"]
    have okb: "responses_ok ?b" using response_ends_ok [OF ok, of "rs_calls a"] False by blast
    have cl: "\<not> stream_closed ?b" unfolding b using open1 by (simp add: stream_closed_def)
    have ce: "calls_ended (st_out ?b)"
      unfolding b using ok open1 by (auto simp: responses_ok_def calls_ended_def announced_def slots_def)
    have d: "st_out (emit_done ?r ?b) = st_out ?b @ [\<lparr>me_request_id = st_request_id ?b, me_body = Done_Event ?r\<rparr>]"
      "rs_calls (emit_done ?r ?b) = rs_calls ?b"
      using cl by (simp_all add: emit_done_def emit_model_event_def stream_closed_def)
    have "calls_ended (st_out (emit_done ?r ?b))" unfolding d using ce by (simp add: calls_ended_def)
    moreover have "started_with_id (st_out (emit_done ?r ?b))"
      unfolding d using okb by (simp add: responses_ok_def started_with_id_def)
    moreover have "stream_ok (emit_done ?r ?b)" using emit_done_ok okb by (auto simp: responses_ok_def)
    ultimately have "responses_ok (emit_done ?r ?b)" using okb d(2) by (simp add: responses_ok_def)
    moreover have "st_request_id ?b = st_request_id a" unfolding b by simp
    ultimately show ?thesis unfolding e by simp
  qed
qed

lemma finish_stream_id [simp]: "st_request_id (finish_stream reason a) = st_request_id a"
proof (cases "stream_closed a")
  case True
  then show ?thesis by (auto simp: finish_stream_def stream_closed_def)
next
  case False
  then show ?thesis unfolding finish_stream_def by (simp add: Let_def ends_out)
qed

lemma responses_usage_ok: "responses_ok a \<Longrightarrow> responses_ok (parse_usage u a)"
  by (auto simp: parse_usage_def responses_emit_usage_def intro!: responses_emit_ok responses_usage_flag)

lemma response_event_ok:
  assumes ok: "responses_ok a"
  shows "responses_ok (snd (handle_response_event read d a))"
proof -
  have t: "responses_ok (emit_text x a)" "responses_ok (emit_reasoning x a)" for x
    unfolding emit_text_def emit_reasoning_def by (rule responses_emit_ok; simp add: ok)+
  have e: "responses_ok (on_response_end r a)" for r
    using ok responses_usage_ok by (simp add: on_response_end_def)
  show ?thesis
    using ok t output_item_ok [OF ok] arguments_delta_ok [OF ok] arguments_done_ok [OF ok] responses_usage_ok [OF ok]
      responses_error_ok [OF ok] finish_stream_ok [OF e]
    by (simp add: handle_response_event_def Let_def split: option.split)
qed

lemma call_start_id [simp]: "st_request_id (emit_call_start_if_needed k a) = st_request_id a"
  by (simp add: emit_call_start_if_needed_def Let_def emit_tool_start_def emit_tool_delta_def)

lemma response_event_id: "st_request_id (snd (handle_response_event read d a)) = st_request_id a"
proof -
  have "st_request_id (snd (on_output_item root a)) = st_request_id a" for root
    by (auto simp: on_output_item_def Let_def emit_tool_delta_def split: option.split prod.split)
  moreover have "st_request_id (snd (on_arguments_delta root a)) = st_request_id a" for root
    by (auto simp: on_arguments_delta_def Let_def emit_tool_delta_def split: option.split prod.split)
  moreover have "st_request_id (snd (on_arguments_done root a)) = st_request_id a" for root
    by (auto simp: on_arguments_done_def Let_def emit_tool_delta_def split: option.split prod.split)
  moreover have "st_request_id (parse_usage u a) = st_request_id a" for u
    by (simp add: parse_usage_def responses_emit_usage_def)
  ultimately show ?thesis
    by (simp add: handle_response_event_def Let_def emit_text_def emit_reasoning_def on_response_end_def split: option.split)
qed

lemma responses_event:
  "responses_sse_cb read ev a = (case ev of Sse_Done _ \<Rightarrow> finish_stream MODEL_STOP_UNKNOWN a
     | Sse_Data d \<Rightarrow> if fst (handle_response_event read d a) \<noteq> AGENT_OK
         then emit_error (error_value AGENT_ERR_JSON) (Some ''malformed stream JSON'') (snd (handle_response_event read d a))
         else snd (handle_response_event read d a))"
  by (simp add: responses_sse_cb_def split_beta split: sse_event.split)

interpretation responses_stream: stream_protocol "responses_protocol read" responses_ok
proof unfold_locales
  fix a i ev code msg
  show "responses_ok (sp_fresh (responses_protocol read) i)" "\<not> stream_closed (sp_fresh (responses_protocol read) i)"
    "st_request_id (sp_fresh (responses_protocol read) i) = i"
    by (simp_all add: responses_protocol_def responses_fresh_def responses_ok_def stream_ok_def stream_closed_def
        slots_def announced_def started_with_id_def)
  show "st_request_id (sp_on_event (responses_protocol read) ev a) = st_request_id a"
    "st_request_id (sp_settle (responses_protocol read) a) = st_request_id a"
    by (simp_all add: responses_protocol_def responses_event responses_settle_def response_event_id split: sse_event.split)
  assume ok: "responses_ok a"
  show "stream_ok a" using ok by (simp add: responses_ok_def)
  show "responses_ok (sp_on_event (responses_protocol read) ev a)"
    using finish_stream_ok [OF ok] response_event_ok [OF ok] responses_error_ok
    by (auto simp: responses_protocol_def responses_event split: sse_event.split)
  show "responses_ok (sp_settle (responses_protocol read) a)" "stream_closed (sp_settle (responses_protocol read) a)"
    using finish_stream_ok [OF ok] responses_error_ok [OF ok] by (simp_all add: responses_protocol_def responses_settle_def)
  show "responses_ok (emit_error code msg a)" by (rule responses_error_ok [OF ok])
qed

end
