(* ===== verification/Request_Bodies.thy ===== *)
theory Request_Bodies
  imports Agent
begin

text \<open>
  The request bodies of the three providers: \<open>openai_build_request_body\<close>,
  \<open>anthropic_build_request_body\<close> and \<open>responses_build_request_body\<close> of \<open>src/src/model/\<close>.  The
  JSON reader and writer are \<open>read\<close> and \<open>render\<close>; the allocations of the builder succeed.  A
  request is the \<open>model_request\<close> of the agent loop with the model's name, the registry of the agent and the
  fields \<open>temperature\<close> and \<open>stream\<close>, which the loop sets to 0 and true.
\<close>

section \<open>Shared steps\<close>

record body_request =
  br_request :: model_request
  br_model_name :: string
  br_temperature :: int
  br_stream :: bool

definition add_member :: "string \<Rightarrow> json option \<Rightarrow> (string \<times> json) list" where
  "add_member key v = (case v of Some j \<Rightarrow> [(key, j)] | None \<Rightarrow> [])"

definition nonempty :: "string option \<Rightarrow> bool" where
  "nonempty s \<longleftrightarrow> s \<noteq> None \<and> s \<noteq> Some []"

section \<open>OpenAI\<close>

definition openai_call_json :: "tool_call \<Rightarrow> json" where
  "openai_call_json tc =
     JObj ([(''function'', JObj (opt_str ''name'' (tc_name tc) @ [(''arguments'', JStr (str_or_empty (tc_arguments tc)))])),
            (''type'', JStr ''function'')] @ opt_str ''id'' (tc_id tc))"

definition openai_message_json :: "message \<Rightarrow> json" where
  "openai_message_json m =
     JObj ((''role'', JStr (message_role_name (m_role m))) #
       (case m_role m of
          MSG_SYSTEM \<Rightarrow> [(''content'', JStr (str_or_empty (m_content m)))]
        | MSG_USER \<Rightarrow> [(''content'', JStr (str_or_empty (m_content m)))]
        | MSG_ASSISTANT \<Rightarrow> (''content'', JStr (str_or_empty (m_content m))) #
            (if m_tool_calls m \<noteq> [] then [(''tool_calls'', JArr (map openai_call_json (m_tool_calls m)))] else [])
        | MSG_TOOL \<Rightarrow> opt_str ''tool_call_id'' (m_tool_call_id m) @ [(''content'', JStr (str_or_empty (m_content m)))]))"

definition openai_message_array :: "message list \<Rightarrow> string option \<Rightarrow> json list" where
  "openai_message_array msgs system_prompt =
     (if nonempty system_prompt
      then JObj [(''role'', JStr ''system''), (''content'', JStr (the system_prompt))] #
           map openai_message_json (filter (\<lambda>m. m_role m \<noteq> MSG_SYSTEM) msgs)
      else map openai_message_json msgs)"

definition openai_serialize_messages ::
  "(json \<Rightarrow> string option) \<Rightarrow> message list \<Rightarrow> string option \<Rightarrow> agent_error \<times> string" where
  "openai_serialize_messages render msgs system_prompt =
     json_builder_stringify render (JArr (openai_message_array msgs system_prompt)) []"

text \<open>The \<open>messages\<close> member: serialized, parsed again and copied.\<close>

definition openai_messages_member ::
  "(string \<Rightarrow> json option) \<Rightarrow> (json \<Rightarrow> string option) \<Rightarrow> model_request \<Rightarrow> agent_error \<times> (string \<times> json) list" where
  "openai_messages_member read render rq =
     (if rq_messages rq \<noteq> [] then
        (let (err, msgs) = openai_serialize_messages render (rq_messages rq) (rq_system_prompt rq) in
         if err \<noteq> AGENT_OK then (err, [])
         else
           (case json_parse read msgs of
              None \<Rightarrow> (AGENT_ERR_JSON, [])
            | Some j \<Rightarrow> if json_val_is_arr (Some j) then (AGENT_OK, [(''messages'', j)]) else (AGENT_ERR_JSON, [])))
      else if nonempty (rq_system_prompt rq) then
        (let (err, msgs) = openai_serialize_messages render [] (rq_system_prompt rq) in
         if err \<noteq> AGENT_OK then (err, [])
         else
           (case json_parse read msgs of
              None \<Rightarrow> (AGENT_ERR_JSON, [])
            | Some j \<Rightarrow> (AGENT_OK, [(''messages'', j)])))
      else (AGENT_OK, [(''messages'', JArr [])]))"

definition openai_tools_member ::
  "(string \<Rightarrow> json option) \<Rightarrow> (json \<Rightarrow> string option) \<Rightarrow> 'w tool_registry option \<Rightarrow> agent_error \<times> (string \<times> json) list" where
  "openai_tools_member read render tools =
     (case tools of
        None \<Rightarrow> (AGENT_OK, [])
      | Some reg \<Rightarrow>
          if tool_registry_count reg = 0 then (AGENT_OK, [])
          else
            (let (err, schema) = tool_registry_schema_json read render reg [] in
             if err \<noteq> AGENT_OK then (err, [])
             else
               (case json_parse read schema of
                  None \<Rightarrow> (AGENT_ERR_JSON, [])
                | Some j \<Rightarrow> if json_val_is_arr (Some j) then (AGENT_OK, [(''tools'', j)]) else (AGENT_ERR_JSON, []))))"

definition openai_build_request_body ::
  "(string \<Rightarrow> json option) \<Rightarrow> (json \<Rightarrow> string option) \<Rightarrow> 'w tool_registry option \<Rightarrow> body_request \<Rightarrow> agent_error \<times> string" where
  "openai_build_request_body read render tools br =
     (let rq = br_request br;
          head = [(''model'', JStr (br_model_name br)), (''stream'', JBool (br_stream br))] @
                 (if rq_max_tokens rq > 0 then [(''max_tokens'', JInt (rq_max_tokens rq))] else []) @
                 [(''temperature'', JReal (br_temperature br))];
          (err, msgs) = openai_messages_member read render rq in
      if err \<noteq> AGENT_OK then (err, [])
      else
        (let (err2, ts) = openai_tools_member read render tools in
         if err2 \<noteq> AGENT_OK then (err2, [])
         else json_builder_stringify render (JObj (head @ msgs @ ts)) []))"

section \<open>Anthropic\<close>

text \<open>
  \<open>msg_start\<close> and the block it is called for: the block joins the last message if that has the
  role, and starts a new message otherwise.
\<close>

fun append_content :: "json \<Rightarrow> (string \<times> json) list \<Rightarrow> (string \<times> json) list" where
  "append_content block [] = []"
| "append_content block ((k, v) # kvs) =
     (if k = ''content'' then (k, json_builder_arr_add v block) # kvs else (k, v) # append_content block kvs)"

definition merge_block :: "json \<Rightarrow> json \<Rightarrow> json" where
  "merge_block block msg = (case msg of JObj kvs \<Rightarrow> JObj (append_content block kvs) | _ \<Rightarrow> msg)"

definition msg_add_block :: "string \<Rightarrow> json \<Rightarrow> json list \<Rightarrow> json list" where
  "msg_add_block role block msgs =
     (if msgs \<noteq> [] \<and> json_obj_get_str (Some (last msgs)) ''role'' = Some role
      then butlast msgs @ [merge_block block (last msgs)]
      else msgs @ [JObj [(''role'', JStr role), (''content'', JArr [block])]])"

definition text_block :: "string \<Rightarrow> json" where
  "text_block t = JObj [(''type'', JStr ''text''), (''text'', JStr t)]"

definition tool_use_block :: "(string \<Rightarrow> json option) \<Rightarrow> tool_call \<Rightarrow> json" where
  "tool_use_block read tc =
     (let parsed = (if nonempty (tc_arguments tc) then json_parse read (the (tc_arguments tc)) else None) in
      JObj ([(''type'', JStr ''tool_use'')] @ opt_str ''id'' (tc_id tc) @ opt_str ''name'' (tc_name tc) @
            [(''input'', if json_val_is_obj parsed then the parsed else JObj [])]))"

definition tool_result_block :: "message \<Rightarrow> json" where
  "tool_result_block m =
     JObj ([(''type'', JStr ''tool_result'')] @ opt_str ''tool_use_id'' (m_tool_call_id m) @
           [(''content'', JStr (str_or_empty (m_content m)))])"

text \<open>The blocks of one message, each with the role it is added under.\<close>

definition message_blocks :: "(string \<Rightarrow> json option) \<Rightarrow> message \<Rightarrow> (string \<times> json) list" where
  "message_blocks read m =
     (case m_role m of
        MSG_SYSTEM \<Rightarrow> []
      | MSG_USER \<Rightarrow> (case m_content m of Some t \<Rightarrow> [(''user'', text_block t)] | None \<Rightarrow> [])
      | MSG_ASSISTANT \<Rightarrow>
          (if nonempty (m_content m) then [(''assistant'', text_block (the (m_content m)))]
           else if m_tool_calls m = [] then [(''assistant'', text_block [])] else []) @
          map (\<lambda>tc. (''assistant'', tool_use_block read tc)) (m_tool_calls m)
      | MSG_TOOL \<Rightarrow> [(''user'', tool_result_block m)])"

definition anthropic_message_array :: "(string \<Rightarrow> json option) \<Rightarrow> message list \<Rightarrow> json list" where
  "anthropic_message_array read msgs =
     foldl (\<lambda>acc m. foldl (\<lambda>acc (role, block). msg_add_block role block acc) acc (message_blocks read m)) [] msgs"

text \<open>The system text: the prompt and the system messages, one per line.\<close>

definition add_system :: "string \<Rightarrow> message \<Rightarrow> string" where
  "add_system sys m =
     (case m_content m of
        Some t \<Rightarrow> if m_role m = MSG_SYSTEM then (if sys \<noteq> [] then sys @ [CHR 0x0A] else sys) @ t else sys
      | None \<Rightarrow> sys)"

definition anthropic_system_text :: "message list \<Rightarrow> string option \<Rightarrow> string" where
  "anthropic_system_text msgs system_prompt = foldl add_system (str_or_empty system_prompt) msgs"

definition anthropic_serialize_messages ::
  "(string \<Rightarrow> json option) \<Rightarrow> (json \<Rightarrow> string option) \<Rightarrow> message list \<Rightarrow> string option \<Rightarrow> agent_error \<times> string" where
  "anthropic_serialize_messages read render msgs system_prompt =
     json_builder_stringify render
       (JObj ((''messages'', JArr (anthropic_message_array read msgs)) #
          (if anthropic_system_text msgs system_prompt \<noteq> [] then [(''system'', JStr (anthropic_system_text msgs system_prompt))] else []))) []"

text \<open>The tools array in the shape of Anthropic.\<close>

definition anthropic_tool :: "json \<Rightarrow> json option" where
  "anthropic_tool t0 =
     (case json_val_obj_get (Some t0) ''function'' of
        None \<Rightarrow> None
      | Some fn \<Rightarrow>
          Some (JObj (opt_str ''name'' (json_obj_get_str (Some fn) ''name'') @
                      opt_str ''description'' (json_obj_get_str (Some fn) ''description'') @
                      (if json_val_is_obj (json_val_obj_get (Some fn) ''parameters'')
                       then add_member ''input_schema'' (json_val_obj_get (Some fn) ''parameters'') else []))))"

definition anthropic_tools_member ::
  "(string \<Rightarrow> json option) \<Rightarrow> (json \<Rightarrow> string option) \<Rightarrow> 'w tool_registry option \<Rightarrow> agent_error \<times> (string \<times> json) list" where
  "anthropic_tools_member read render tools =
     (case tools of
        None \<Rightarrow> (AGENT_OK, [])
      | Some reg \<Rightarrow>
          if tool_registry_count reg = 0 then (AGENT_OK, [])
          else
            (let (err, schema) = tool_registry_schema_json read render reg [] in
             if err \<noteq> AGENT_OK then (err, [])
             else
               (case json_parse read schema of
                  Some (JArr ts) \<Rightarrow>
                    if list_all (\<lambda>t. anthropic_tool t \<noteq> None) ts
                    then (AGENT_OK, [(''tools'', JArr (map (\<lambda>t. the (anthropic_tool t)) ts))])
                    else (AGENT_ERR_JSON, [])
                | _ \<Rightarrow> (AGENT_ERR_JSON, []))))"

definition anthropic_build_request_body ::
  "(string \<Rightarrow> json option) \<Rightarrow> (json \<Rightarrow> string option) \<Rightarrow> 'w tool_registry option \<Rightarrow> body_request \<Rightarrow> agent_error \<times> string" where
  "anthropic_build_request_body read render tools br =
     (let rq = br_request br;
          head = [(''model'', JStr (br_model_name br)),
                  (''max_tokens'', JInt (if rq_max_tokens rq > 0 then rq_max_tokens rq else 4096)), (''stream'', JBool True)];
          (err, msgs) = anthropic_serialize_messages read render (rq_messages rq) (rq_system_prompt rq) in
      if err \<noteq> AGENT_OK then (err, [])
      else
        (case json_parse read msgs of
           None \<Rightarrow> (AGENT_ERR_JSON, [])
         | Some doc \<Rightarrow>
             (let arr = json_val_obj_get (Some doc) ''messages'';
                  body = head @ add_member ''system'' (json_val_obj_get (Some doc) ''system'') @
                         [(''messages'', if json_val_is_arr arr then the arr else JArr [])];
                  (err2, ts) = anthropic_tools_member read render tools in
              if err2 \<noteq> AGENT_OK then (err2, [])
              else json_builder_stringify render (JObj (body @ ts)) [])))"

section \<open>Responses\<close>

text \<open>What the body takes from the provider: its name, and whether it is the ChatGPT one.\<close>

definition api_model_name :: "string \<Rightarrow> string option \<Rightarrow> string" where
  "api_model_name model provider =
     (case provider of
        None \<Rightarrow> model
      | Some p \<Rightarrow> if take (length p + 1) model = p @ ''/'' then drop (length p + 1) model else model)"

definition append_instruction :: "string \<Rightarrow> string option \<Rightarrow> string" where
  "append_instruction instructions t =
     (if nonempty t then (if instructions \<noteq> [] then instructions @ [CHR 0x0A] else instructions) @ the t
      else instructions)"

definition input_message :: "string \<Rightarrow> string \<Rightarrow> string option \<Rightarrow> json" where
  "input_message role ty t =
     JObj [(''content'', JArr [JObj [(''type'', JStr ty), (''text'', JStr (str_or_empty t))]]),
           (''type'', JStr ''message''), (''role'', JStr role)]"

definition add_function_call :: "tool_call \<Rightarrow> agent_error \<times> json list" where
  "add_function_call tc =
     (if \<not> nonempty (tc_id tc) \<or> \<not> nonempty (tc_name tc) then (AGENT_ERR_MODEL, [])
      else (AGENT_OK, [JObj [(''type'', JStr ''function_call''), (''call_id'', JStr (the (tc_id tc))),
                             (''name'', JStr (the (tc_name tc))), (''arguments'', JStr (str_or_empty (tc_arguments tc)))]]))"

definition add_function_output :: "message \<Rightarrow> agent_error \<times> json list" where
  "add_function_output m =
     (if \<not> nonempty (m_tool_call_id m) then (AGENT_ERR_MODEL, [])
      else (AGENT_OK, [JObj [(''type'', JStr ''function_call_output''), (''call_id'', JStr (the (m_tool_call_id m))),
                             (''output'', JStr (str_or_empty (m_content m)))]]))"

fun add_function_calls :: "tool_call list \<Rightarrow> agent_error \<times> json list" where
  "add_function_calls [] = (AGENT_OK, [])"
| "add_function_calls (tc # tcs) =
     (let (rc, js) = add_function_call tc in
      if rc \<noteq> AGENT_OK then (rc, js) else (let (rc2, js2) = add_function_calls tcs in (rc2, js @ js2)))"

text \<open>One message: the input items it adds, and the instructions after it.\<close>

definition input_items :: "message \<Rightarrow> agent_error \<times> json list" where
  "input_items m =
     (case m_role m of
        MSG_SYSTEM \<Rightarrow> (AGENT_OK, [])
      | MSG_USER \<Rightarrow> (AGENT_OK, [input_message ''user'' ''input_text'' (m_content m)])
      | MSG_ASSISTANT \<Rightarrow>
          (let (rc, js) = add_function_calls (m_tool_calls m) in
           (rc, (if nonempty (m_content m) then [input_message ''assistant'' ''output_text'' (m_content m)]
                 else if m_tool_calls m = [] then [input_message ''assistant'' ''output_text'' (Some [])] else []) @ js))
      | MSG_TOOL \<Rightarrow> add_function_output m)"

definition next_instructions :: "string \<Rightarrow> message \<Rightarrow> string" where
  "next_instructions instr m = (if m_role m = MSG_SYSTEM then append_instruction instr (m_content m) else instr)"

fun responses_input :: "message list \<Rightarrow> string \<Rightarrow> agent_error \<times> string \<times> json list" where
  "responses_input [] instr = (AGENT_OK, instr, [])"
| "responses_input (m # ms) instr =
     (let (rc, js) = input_items m in
      if rc \<noteq> AGENT_OK then (rc, instr, js)
      else (let (rc2, instr2, js2) = responses_input ms (next_instructions instr m) in (rc2, instr2, js @ js2)))"

fun responses_tools :: "(string \<Rightarrow> json option) \<Rightarrow> ('w tool \<times> bool) list \<Rightarrow> agent_error \<times> json list" where
  "responses_tools read [] = (AGENT_OK, [])"
| "responses_tools read ((t, on) # ts) =
     (if \<not> on then responses_tools read ts
      else
        (case json_parse read (t_input_schema t) of
           None \<Rightarrow> (AGENT_ERR_JSON, [])
         | Some schema \<Rightarrow>
             if \<not> json_val_is_obj (Some schema) then (AGENT_ERR_JSON, [])
             else
               (let (rc, js) = responses_tools read ts in
                (rc, JObj [(''type'', JStr ''function''), (''name'', JStr (t_name t)),
                           (''description'', JStr (t_description t)), (''parameters'', schema)] # js))))"

definition responses_tools_member ::
  "(string \<Rightarrow> json option) \<Rightarrow> 'w tool_registry option \<Rightarrow> agent_error \<times> (string \<times> json) list" where
  "responses_tools_member read tools =
     (case tools of
        None \<Rightarrow> (AGENT_OK, [])
      | Some reg \<Rightarrow>
          if tool_registry_count reg = 0 then (AGENT_OK, [])
          else
            (let (rc, js) = responses_tools read (zip (r_tools reg) (r_enabled reg)) in
             (rc, [(''tools'', JArr js)])))"

definition responses_head :: "bool \<Rightarrow> string option \<Rightarrow> body_request \<Rightarrow> (string \<times> json) list" where
  "responses_head chatgpt provider br =
     [(''model'', JStr (api_model_name (br_model_name br) provider))] @
     (if chatgpt then [(''store'', JBool False)] else []) @ [(''stream'', JBool (br_stream br))] @
     (if \<not> chatgpt \<and> rq_max_tokens (br_request br) > 0
      then [(''max_output_tokens'', JInt (rq_max_tokens (br_request br)))] else []) @
     (if \<not> chatgpt then [(''temperature'', JReal (br_temperature br)),
        (''include'', JArr [JStr ''response.output_text.delta'', JStr ''response.function_call_arguments.delta''])] else [])"

definition responses_build_request_body ::
  "(string \<Rightarrow> json option) \<Rightarrow> (json \<Rightarrow> string option) \<Rightarrow> bool \<Rightarrow> string option \<Rightarrow> 'w tool_registry option \<Rightarrow>
   body_request \<Rightarrow> agent_error \<times> string" where
  "responses_build_request_body read render chatgpt provider tools br =
     (let (rc, instr, items) = responses_input (rq_messages (br_request br))
            (append_instruction [] (rq_system_prompt (br_request br))) in
      if rc \<noteq> AGENT_OK then (rc, [])
      else
        (let (rc2, ts) = responses_tools_member read tools in
         if rc2 \<noteq> AGENT_OK then (rc2, [])
         else json_builder_stringify render
                (JObj ([(''input'', JArr items)] @ responses_head chatgpt provider br @
                       (if instr \<noteq> [] then [(''instructions'', JStr instr)] else []) @ ts)) []))"

section \<open>The bodies of Anthropic\<close>

text \<open>The API refuses two messages of one role in a row, and an empty message.\<close>

definition role_of :: "json \<Rightarrow> string option" where
  "role_of msg = json_obj_get_str (Some msg) ''role''"

definition content_of :: "json \<Rightarrow> json list" where
  "content_of msg = (case json_val_obj_get (Some msg) ''content'' of Some (JArr bs) \<Rightarrow> bs | _ \<Rightarrow> [])"

definition array_ok :: "json list \<Rightarrow> bool" where
  "array_ok msgs \<longleftrightarrow> distinct_adj (map role_of msgs) \<and>
     (\<forall>msg\<in>set msgs. \<exists>role blocks. msg = JObj [(''role'', JStr role), (''content'', JArr blocks)] \<and> blocks \<noteq> [])"

text \<open>The blocks of the whole array with the roles they stand under.\<close>

definition array_blocks :: "json list \<Rightarrow> (string \<times> json) list" where
  "array_blocks msgs = concat (map (\<lambda>msg. map (\<lambda>b. (the (role_of msg), b)) (content_of msg)) msgs)"

lemma distinct_adj_snoc: "distinct_adj (xs @ [x]) \<longleftrightarrow> distinct_adj xs \<and> (xs = [] \<or> last xs \<noteq> x)"
  by (induction xs rule: induct_list012) auto

lemma role_of_simp [simp]: "role_of (JObj [(''role'', JStr role), (''content'', JArr bs)]) = Some role"
  by (simp add: role_of_def json_simps)

lemma content_of_simp [simp]: "content_of (JObj [(''role'', JStr role), (''content'', JArr bs)]) = bs"
  by (simp add: content_of_def json_simps)

lemma array_ok_snoc:
  "array_ok (msgs @ [msg]) \<longleftrightarrow> array_ok msgs \<and> (msgs = [] \<or> role_of (last msgs) \<noteq> role_of msg) \<and>
     (\<exists>role blocks. msg = JObj [(''role'', JStr role), (''content'', JArr blocks)] \<and> blocks \<noteq> [])"
  by (auto simp: array_ok_def distinct_adj_snoc last_map)

lemma add_block_ok:
  assumes "array_ok msgs"
  shows "array_ok (msg_add_block role block msgs) \<and>
         array_blocks (msg_add_block role block msgs) = array_blocks msgs @ [(role, block)]"
proof (cases "msgs \<noteq> [] \<and> role_of (last msgs) = Some role")
  case False
  with assms have "array_ok (msgs @ [JObj [(''role'', JStr role), (''content'', JArr [block])]])"
    by (auto simp: array_ok_snoc)
  with False show ?thesis by (auto simp: msg_add_block_def role_of_def [symmetric] array_blocks_def)
next
  case True
  then obtain pre where p: "msgs = pre @ [last msgs]" by (metis append_butlast_last_id)
  with assms have "\<exists>r bs. last msgs = JObj [(''role'', JStr r), (''content'', JArr bs)] \<and> bs \<noteq> []"
    using array_ok_snoc [of pre "last msgs"] by simp
  then obtain r bs where l: "last msgs = JObj [(''role'', JStr r), (''content'', JArr bs)]" "bs \<noteq> []" by blast
  with True have r: "r = role" by simp
  have m: "merge_block block (last msgs) = JObj [(''role'', JStr role), (''content'', JArr (bs @ [block]))]"
    unfolding l(1) r by (simp add: merge_block_def json_builder_arr_add_def)
  have a: "msg_add_block role block msgs = pre @ [JObj [(''role'', JStr role), (''content'', JArr (bs @ [block]))]]"
    using True p m by (simp add: msg_add_block_def role_of_def [symmetric]) (metis butlast_snoc)
  from assms p have pre: "array_ok (pre @ [JObj [(''role'', JStr role), (''content'', JArr bs)]])" using l r by simp
  then have "array_ok (pre @ [JObj [(''role'', JStr role), (''content'', JArr (bs @ [block]))]])"
    by (auto simp: array_ok_snoc)
  moreover have "array_blocks msgs = array_blocks (pre @ [JObj [(''role'', JStr role), (''content'', JArr bs)]])"
    using p l r by simp
  ultimately show ?thesis by (simp add: a array_blocks_def)
qed

lemma add_blocks_ok:
  "array_ok msgs \<Longrightarrow> array_ok (foldl (\<lambda>acc (role, block). msg_add_block role block acc) msgs bs) \<and>
     array_blocks (foldl (\<lambda>acc (role, block). msg_add_block role block acc) msgs bs) = array_blocks msgs @ bs"
proof (induction bs arbitrary: msgs)
  case (Cons b bs)
  obtain role block where b: "b = (role, block)" by (metis surj_pair)
  from Cons.IH [of "msg_add_block role block msgs"] add_block_ok [OF Cons.prems, of role block] show ?case by (simp add: b)
qed simp

lemma message_array_ok:
  "array_ok (anthropic_message_array read msgs) \<and>
   array_blocks (anthropic_message_array read msgs) = concat (map (message_blocks read) msgs)"
proof (induction msgs rule: rev_induct)
  case Nil
  show ?case by (simp add: anthropic_message_array_def array_ok_def array_blocks_def)
next
  case (snoc m msgs)
  then show ?case using add_blocks_ok [of "anthropic_message_array read msgs" "message_blocks read m"]
    by (simp add: anthropic_message_array_def)
qed

definition sample_body :: body_request where
  "sample_body = \<lparr>br_request = \<lparr>rq_id = 1, rq_tools = False, rq_system_prompt = None,
       rq_messages = [(message_new MSG_USER)\<lparr>m_content := Some ''hi''\<rparr>, (message_new MSG_USER)\<lparr>m_content := Some ''there''\<rparr>],
       rq_is_compaction = False, rq_max_tokens = 0\<rparr>,
     br_model_name = ''m'', br_temperature = 0, br_stream = True\<rparr>"

text \<open>C16: an Anthropic request never breaks the rules of the API. In every body that is built no two
  neighbouring messages have the same role and no message is empty; and merging loses nothing: the
  blocks of the array are those of the messages of the conversation, in order and each under its role.\<close>

theorem anthropic_body_alternates:
  assumes "json_roundtrips read render" and "anthropic_build_request_body read render tools br = (AGENT_OK, body)"
  shows "\<exists>doc arr. read body = Some doc \<and> json_val_obj_get (Some doc) ''messages'' = Some (JArr arr) \<and> array_ok arr \<and>
     array_blocks arr = concat (map (message_blocks read) (rq_messages (br_request br)))"
proof -
  let ?rq = "br_request br"
  let ?arr = "anthropic_message_array read (rq_messages ?rq)"
  let ?sys = "anthropic_system_text (rq_messages ?rq) (rq_system_prompt ?rq)"
  let ?doc = "JObj ((''messages'', JArr ?arr) # (if ?sys \<noteq> [] then [(''system'', JStr ?sys)] else []))"
  let ?head = "[(''model'', JStr (br_model_name br)),
      (''max_tokens'', JInt (if rq_max_tokens ?rq > 0 then rq_max_tokens ?rq else 4096)), (''stream'', JBool True)]"
  have rt: "\<And>j t. render j = Some t \<Longrightarrow> read t = Some j" using assms(1) by (simp add: json_roundtrips_def)
  obtain msgs where m: "render ?doc = Some msgs"
    using assms(2)
    by (cases "render ?doc") (auto simp: anthropic_build_request_body_def anthropic_serialize_messages_def json_builder_stringify_def Let_def)
  obtain err2 ts where t: "anthropic_tools_member read render tools = (err2, ts)" by (metis surj_pair)
  let ?body = "JObj (?head @ add_member ''system'' (json_val_obj_get (Some ?doc) ''system'') @ [(''messages'', JArr ?arr)] @ ts)"
  have "json_builder_stringify render ?body [] = (AGENT_OK, body)"
    using assms(2) m rt [OF m] t
    by (auto simp: anthropic_build_request_body_def anthropic_serialize_messages_def json_builder_stringify_def Let_def
        json_parse_def json_simps json_val_is_arr_def split: if_splits)
  then have "render ?body = Some body" by (auto simp: json_builder_stringify_def split: option.splits)
  from rt [OF this] have r: "read body = Some ?body" .
  have "json_val_obj_get (Some ?body) ''messages'' = Some (JArr ?arr)"
    by (simp add: json_simps add_member_def split: option.split)
  with r message_array_ok [of read "rq_messages ?rq"] show ?thesis by blast
qed

text \<open>A writer of two documents and its reader, for the witness.\<close>

definition two_docs :: "json \<times> json" where
  "two_docs =
     (let arr = JArr [JObj [(''role'', JStr ''user''), (''content'', JArr [text_block ''hi'', text_block ''there''])]] in
      (JObj [(''messages'', arr)],
       JObj [(''model'', JStr ''m''), (''max_tokens'', JInt 4096), (''stream'', JBool True), (''messages'', arr)]))"

definition write_two :: "json \<Rightarrow> string option" where
  "write_two j = (if j = fst two_docs then Some ''a'' else if j = snd two_docs then Some ''b'' else None)"

definition read_two :: "string \<Rightarrow> json option" where
  "read_two t = (if t = ''a'' then Some (fst two_docs) else if t = ''b'' then Some (snd two_docs) else None)"

lemma two_roundtrip: "json_roundtrips read_two write_two"
  by (simp add: json_roundtrips_def read_two_def write_two_def)

lemma two_docs_simps:
  "write_two (fst two_docs) = Some ''a''" "write_two (snd two_docs) = Some ''b''" "read_two ''a'' = Some (fst two_docs)"
  by (simp_all add: write_two_def read_two_def two_docs_def Let_def)

theorem anthropic_body_alternates_witness:
  "\<exists>doc arr. read_two ''b'' = Some doc \<and> json_val_obj_get (Some doc) ''messages'' = Some (JArr arr) \<and> array_ok arr \<and>
     array_blocks arr = [(''user'', text_block ''hi''), (''user'', text_block ''there'')]"
proof -
  have a: "anthropic_message_array read_two (rq_messages (br_request sample_body)) =
      [JObj [(''role'', JStr ''user''), (''content'', JArr [text_block ''hi'', text_block ''there''])]]"
    by (simp add: anthropic_message_array_def sample_body_def message_blocks_def message_new_def msg_add_block_def
        merge_block_def json_simps json_builder_arr_add_def)
  have s: "anthropic_system_text (rq_messages (br_request sample_body)) (rq_system_prompt (br_request sample_body)) = []"
    by (simp add: anthropic_system_text_def sample_body_def add_system_def message_new_def str_or_empty_def)
  let ?arr = "JArr [JObj [(''role'', JStr ''user''), (''content'', JArr [text_block ''hi'', text_block ''there''])]]"
  have d1: "fst two_docs = JObj [(''messages'', ?arr)]" and
    d2: "snd two_docs = JObj [(''model'', JStr ''m''), (''max_tokens'', JInt 4096), (''stream'', JBool True), (''messages'', ?arr)]"
    by (simp_all add: two_docs_def Let_def)
  have "anthropic_serialize_messages read_two write_two (rq_messages (br_request sample_body)) (rq_system_prompt (br_request sample_body)) =
      json_builder_stringify write_two (fst two_docs) []"
    unfolding anthropic_serialize_messages_def a s d1 by simp
  also have "\<dots> = (AGENT_OK, ''a'')" by (simp add: json_builder_stringify_def two_docs_simps)
  finally have m: "anthropic_serialize_messages read_two write_two (rq_messages (br_request sample_body))
      (rq_system_prompt (br_request sample_body)) = (AGENT_OK, ''a'')" .
  have "anthropic_build_request_body read_two write_two None sample_body = json_builder_stringify write_two (snd two_docs) []"
    unfolding anthropic_build_request_body_def Let_def m json_parse_def
    by (simp add: two_docs_simps d1 d2 sample_body_def anthropic_tools_member_def json_simps json_val_is_arr_def add_member_def)
  then have "anthropic_build_request_body read_two write_two None sample_body = (AGENT_OK, ''b'')"
    by (simp add: json_builder_stringify_def two_docs_simps)
  from anthropic_body_alternates [OF two_roundtrip this] show ?thesis
    by (simp add: sample_body_def message_blocks_def message_new_def)
qed

section \<open>The bodies of the Responses API\<close>

text \<open>What the API needs of a message: calls with id and name, answers with the id of their call.\<close>

definition sendable :: "message \<Rightarrow> bool" where
  "sendable m \<longleftrightarrow>
     (m_role m = MSG_ASSISTANT \<longrightarrow> list_all (\<lambda>tc. nonempty (tc_id tc) \<and> nonempty (tc_name tc)) (m_tool_calls m)) \<and>
     (m_role m = MSG_TOOL \<longrightarrow> nonempty (m_tool_call_id m))"

lemma function_calls_rc:
  "fst (add_function_calls tcs) =
     (if list_all (\<lambda>tc. nonempty (tc_id tc) \<and> nonempty (tc_name tc)) tcs then AGENT_OK else AGENT_ERR_MODEL)"
  by (induction tcs) (auto simp: add_function_call_def Let_def split_beta)

lemma input_items_rc: "fst (input_items m) = (if sendable m then AGENT_OK else AGENT_ERR_MODEL)"
  by (cases "m_role m")
    (auto simp: input_items_def sendable_def add_function_output_def function_calls_rc split_beta Let_def)

lemma responses_input_rc:
  "fst (responses_input ms instr) = (if list_all sendable ms then AGENT_OK else AGENT_ERR_MODEL)"
proof (induction ms arbitrary: instr)
  case (Cons m ms)
  from Cons.IH [of "next_instructions instr m"] input_items_rc [of m] show ?case by (auto simp: split_beta Let_def)
qed simp

text \<open>A conversation with one call that has no id or no name cannot be sent to the Responses API any more:
  every request that contains it is refused before anything is sent.\<close>

theorem responses_body_refused:
  assumes "m \<in> set (rq_messages (br_request br))" and "\<not> sendable m"
  shows "responses_build_request_body read render chatgpt provider tools br = (AGENT_ERR_MODEL, [])"
proof -
  have "\<not> list_all sendable (rq_messages (br_request br))" using assms by (auto simp: list_all_iff)
  with responses_input_rc have
    "fst (responses_input (rq_messages (br_request br)) (append_instruction [] (rq_system_prompt (br_request br)))) = AGENT_ERR_MODEL"
    by simp
  then show ?thesis by (simp add: responses_build_request_body_def split_beta)
qed

theorem responses_body_refused_witness:
  "responses_build_request_body read_two write_two False None None
     (sample_body\<lparr>br_request := (br_request sample_body)\<lparr>rq_messages :=
        [(message_new MSG_ASSISTANT)\<lparr>m_tool_calls := [zero_tool_call]\<rparr>]\<rparr>\<rparr>) = (AGENT_ERR_MODEL, [])"
  by (rule responses_body_refused [of "(message_new MSG_ASSISTANT)\<lparr>m_tool_calls := [zero_tool_call]\<rparr>"])
     (simp_all add: sendable_def message_new_def zero_tool_call_def nonempty_def)

end
