(* ===== verification/Providers.thy ===== *)
theory Providers
  imports Anthropic Responses Request_Bodies Loop_Props
begin

text \<open>
  What the three providers promise together: every request is answered exactly once and properly,
  a cancel concerns one request only, destroying a model answers what is in flight, and the
  agent loop that waits for a request gets its end.  All of it rests on the interpretations of
  \<open>stream_protocol\<close>.
\<close>

section \<open>The vtables\<close>

text \<open>
  \<open>auth\<close> is the outcome of \<open>provider_prepare_auth\<close>: the key, or the text of the error.  \<open>base\<close> is the
  address of the provider.
\<close>

definition trim_slashes :: "string \<Rightarrow> string" where
  "trim_slashes base = rev (dropWhile (\<lambda>ch. ch = CHR ''/'') (rev base))"

definition openai_out :: "string \<Rightarrow> string \<Rightarrow> string \<Rightarrow> http_out" where
  "openai_out base key body =
     \<lparr>ho_url = trim_slashes base @ ''/chat/completions'',
      ho_headers = [''Content-Type: application/json'', ''Accept: text/event-stream'', ''Authorization: Bearer '' @ key],
      ho_body = body\<rparr>"

definition anthropic_out :: "string \<Rightarrow> string \<Rightarrow> string \<Rightarrow> http_out" where
  "anthropic_out base key body =
     (let b = trim_slashes base in
      \<lparr>ho_url = b @ (if length b \<ge> 3 \<and> drop (length b - 3) b = ''/v1'' then ''/messages'' else ''/v1/messages''),
       ho_headers = [''Content-Type: application/json'', ''anthropic-version: 2023-06-01'', ''x-api-key: '' @ key],
       ho_body = body\<rparr>)"

definition responses_out :: "bool \<Rightarrow> string option \<Rightarrow> string \<Rightarrow> string \<Rightarrow> string \<Rightarrow> http_out" where
  "responses_out chatgpt account base key body =
     \<lparr>ho_url = trim_slashes base @ ''/responses'',
      ho_headers = [''Content-Type: application/json'', ''Accept: text/event-stream'', ''Authorization: Bearer '' @ key] @
        (case account of
           Some acc \<Rightarrow> if chatgpt then [''ChatGPT-Account-Id: '' @ acc, ''originator: codex_cli_rs''] else []
         | None \<Rightarrow> []),
      ho_body = body\<rparr>"

definition openai_request where
  "openai_request read render strerror base auth tools so br s =
     (let (rc, body) = openai_build_request_body read render tools br in
      provider_request (openai_protocol read) strerror auth
        (rc, openai_out base (case auth of Inr key \<Rightarrow> key | Inl _ \<Rightarrow> []) body) so (rq_id (br_request br)) s)"

definition anthropic_request where
  "anthropic_request read render strerror base auth tools so br s =
     (let (rc, body) = anthropic_build_request_body read render tools br in
      provider_request (anthropic_protocol read) strerror auth
        (rc, anthropic_out base (case auth of Inr key \<Rightarrow> key | Inl _ \<Rightarrow> []) body) so (rq_id (br_request br)) s)"

definition responses_request where
  "responses_request read render strerror chatgpt provider account base auth tools so br s =
     (let (rc, body) = responses_build_request_body read render chatgpt provider tools br in
      provider_request (responses_protocol read) strerror auth
        (rc, responses_out chatgpt account base (case auth of Inr key \<Rightarrow> key | Inl _ \<Rightarrow> []) body) so (rq_id (br_request br)) s)"

definition openai_done_cb :: "(string \<Rightarrow> json option) \<Rightarrow> (int \<Rightarrow> string) \<Rightarrow> nat \<Rightarrow> http_done_info \<Rightarrow>
    openai_accum provider_io \<Rightarrow> openai_accum provider_io" where
  "openai_done_cb read = transfer_done_cb (openai_protocol read)"

definition anthropic_done_cb :: "(string \<Rightarrow> json option) \<Rightarrow> (int \<Rightarrow> string) \<Rightarrow> nat \<Rightarrow> http_done_info \<Rightarrow>
    anthropic_accum provider_io \<Rightarrow> anthropic_accum provider_io" where
  "anthropic_done_cb read = transfer_done_cb (anthropic_protocol read)"

definition responses_done_cb :: "(string \<Rightarrow> json option) \<Rightarrow> (int \<Rightarrow> string) \<Rightarrow> nat \<Rightarrow> http_done_info \<Rightarrow>
    responses_accum provider_io \<Rightarrow> responses_accum provider_io" where
  "responses_done_cb read = transfer_done_cb (responses_protocol read)"

definition openai_cancel :: "bool \<Rightarrow> 64 word \<Rightarrow> openai_accum provider_state \<Rightarrow> agent_error \<times> openai_accum provider_state" where
  "openai_cancel = provider_cancel"

definition anthropic_cancel :: "bool \<Rightarrow> 64 word \<Rightarrow> anthropic_accum provider_state \<Rightarrow> agent_error \<times> anthropic_accum provider_state" where
  "anthropic_cancel = provider_cancel"

definition responses_cancel :: "bool \<Rightarrow> 64 word \<Rightarrow> responses_accum provider_state \<Rightarrow> agent_error \<times> responses_accum provider_state" where
  "responses_cancel = provider_cancel"

definition openai_destroy :: "bool \<Rightarrow> openai_accum provider_state \<Rightarrow> openai_accum provider_state option" where
  "openai_destroy = drain_transfers"

definition anthropic_destroy :: "bool \<Rightarrow> anthropic_accum provider_state \<Rightarrow> anthropic_accum provider_state option" where
  "anthropic_destroy = drain_transfers"

definition responses_destroy :: "bool \<Rightarrow> responses_accum provider_state \<Rightarrow> responses_accum provider_state option" where
  "responses_destroy = drain_transfers"

section \<open>Every request is answered\<close>

text \<open>A run for the witnesses: one request, and a server that answers with an error.\<close>

definition lucky :: send_outcomes where
  "lucky = \<lparr>so_transfer = Some 1, so_parser = True, so_http = True, so_slot = True, so_started = True, so_request = 1\<rparr>"

definition idle_state :: "'a stream_scheme provider_state" where
  "idle_state = (http_new, \<lparr>pv_transfers = [], pv_heap = (\<lambda>_. None), pv_released = [], pv_mem = sse_ok, pv_raw_ok = True\<rparr>)"

definition empty_out :: http_out where
  "empty_out = \<lparr>ho_url = [], ho_headers = [], ho_body = ''{}''\<rparr>"

definition one_request :: "'a stream_scheme protocol \<Rightarrow> 'a stream_scheme provider_state" where
  "one_request sp = snd (provider_request sp (\<lambda>_. []) (Inr ''key'') (AGENT_OK, empty_out) lucky 7 idle_state)"

lemma one_request_reach: "io_reach sp (\<lambda>_. []) (one_request sp) [7]"
proof -
  have s: "io_reach sp (\<lambda>_. []) idle_state []" unfolding idle_state_def by (rule io_reach.Start)
  have "provider_request sp (\<lambda>_. []) (Inr ''key'') (AGENT_OK, empty_out) lucky 7 idle_state = (AGENT_OK, one_request sp)"
    by (simp add: one_request_def provider_request_def send_request_def lucky_def idle_state_def http_request_start_def)
  from io_reach.Request [OF s _ _ this] show ?thesis
    by (simp add: idle_state_def find_request_def http_new_def)
qed

lemma one_request_ids: "request_ids (snd (one_request (openai_protocol read))) = [7]"
  "request_ids (snd (one_request (anthropic_protocol read))) = [7]"
  "request_ids (snd (one_request (responses_protocol read))) = [7]"
  by (simp_all add: one_request_def provider_request_def send_request_def lucky_def idle_state_def http_request_start_def
      request_ids_def put_transfer_def new_transfer_def openai_protocol_def openai_fresh_def
      anthropic_protocol_def anthropic_fresh_def responses_protocol_def responses_fresh_def)

text \<open>C14: every request a provider accepts is answered exactly once, whatever the server, the network and the
  memory do: at any time each accepted request is either in flight or answered, an answered one has
  received exactly one terminal event, as its last, with every event under its id and every tool
  call started once and before its fragments; and when nothing is in flight all are answered.\<close>

theorem providers_answer_requests:
  "(io_reach (openai_protocol read) e s1 ids1 \<longrightarrow> answered_all s1 ids1) \<and>
   (io_reach (anthropic_protocol read) e s2 ids2 \<longrightarrow> answered_all s2 ids2) \<and>
   (io_reach (responses_protocol read) e s3 ids3 \<longrightarrow> answered_all s3 ids3)"
  using openai_stream.reach_answered anthropic_stream.reach_answered responses_stream.reach_answered by blast

theorem providers_answer_requests_witness:
  "answered_all (process_multi_info [(1, 0, 500)] (one_request (openai_protocol (\<lambda>_. None)))) [7] \<and>
   answered_all (one_request (anthropic_protocol (\<lambda>_. None))) [7] \<and>
   answered_all (one_request (responses_protocol (\<lambda>_. None))) [7]"
  using providers_answer_requests [of "\<lambda>_. None" "\<lambda>_. []"
      "process_multi_info [(1, 0, 500)] (one_request (openai_protocol (\<lambda>_. None)))" "[7]"
      "one_request (anthropic_protocol (\<lambda>_. None))" "[7]" "one_request (responses_protocol (\<lambda>_. None))" "[7]"]
    io_reach.Completed [OF one_request_reach [of "openai_protocol (\<lambda>_. None)"], of "[(1, 0, 500)]"]
    one_request_reach [of "anthropic_protocol (\<lambda>_. None)"] one_request_reach [of "responses_protocol (\<lambda>_. None)"]
  by blast

lemma failed_request:
  "\<exists>out. pv_released (snd (process_multi_info [(1, 0, 500)] (one_request sp))) = [(7, out)]"
  if "\<And>i. st_request_id (sp_fresh sp i) = i" and "\<And>a ev. st_request_id (sp_on_event sp ev a) = st_request_id a"
  using that
  by (simp add: one_request_def provider_request_def send_request_def lucky_def idle_state_def http_request_start_def
      process_multi_info_def process_message_def find_request_def http_new_def finish_request_def transfer_done_cb_def
      put_transfer_def new_transfer_def transfer_unregister_def transfer_free_def end_stream_def sse_parser_finish_def
      sse_parser_new_def sse_flush_event_def report_failure_def http_success_def CURLE_OK_def)

section \<open>Cancelling and destroying\<close>

text \<open>C17: a cancel aborts the one request it names. It answers that request, and every other transfer that
  shares the model is exactly as it was.\<close>

theorem cancel_spares_siblings:
  "(io_reach (openai_protocol read) e s1 ids \<and> i \<in> set (request_ids (snd s1)) \<and> openai_cancel True i s1 = (rc, s1') \<longrightarrow>
      rc = AGENT_OK \<and> cancels_one i s1 s1') \<and>
   (io_reach (anthropic_protocol read) e s2 ids \<and> i \<in> set (request_ids (snd s2)) \<and> anthropic_cancel True i s2 = (rc, s2') \<longrightarrow>
      rc = AGENT_OK \<and> cancels_one i s2 s2') \<and>
   (io_reach (responses_protocol read) e s3 ids \<and> i \<in> set (request_ids (snd s3)) \<and> responses_cancel True i s3 = (rc, s3') \<longrightarrow>
      rc = AGENT_OK \<and> cancels_one i s3 s3')"
  using openai_stream.reach_cancel [of read e s1 ids i rc s1'] anthropic_stream.reach_cancel [of read e s2 ids i rc s2']
    responses_stream.reach_cancel [of read e s3 ids i rc s3']
  unfolding openai_cancel_def anthropic_cancel_def responses_cancel_def by fast

theorem cancel_spares_siblings_witness:
  "cancels_one 7 (one_request (openai_protocol (\<lambda>_. None))) (snd (openai_cancel True 7 (one_request (openai_protocol (\<lambda>_. None)))))"
  using cancel_spares_siblings [of "\<lambda>_. None" "\<lambda>_. []" "one_request (openai_protocol (\<lambda>_. None))" "[7]" 7
      "fst (openai_cancel True 7 (one_request (openai_protocol (\<lambda>_. None))))"
      "snd (openai_cancel True 7 (one_request (openai_protocol (\<lambda>_. None))))"]
    one_request_reach [of "openai_protocol (\<lambda>_. None)"]
  by (simp add: one_request_ids)

text \<open>Destroying a model ends. Its loop aborts every transfer in flight, and when it returns no HTTP request
  of the model is left and every accepted request has been answered.\<close>

theorem destroy_answers_all:
  "(io_reach (openai_protocol read) e s1 ids \<longrightarrow>
      (\<exists>s'. openai_destroy True s1 = Some s' \<and> h_requests (fst s') = [] \<and> answered_all s' ids)) \<and>
   (io_reach (anthropic_protocol read) e s2 ids \<longrightarrow>
      (\<exists>s'. anthropic_destroy True s2 = Some s' \<and> h_requests (fst s') = [] \<and> answered_all s' ids)) \<and>
   (io_reach (responses_protocol read) e s3 ids \<longrightarrow>
      (\<exists>s'. responses_destroy True s3 = Some s' \<and> h_requests (fst s') = [] \<and> answered_all s' ids))"
  using openai_stream.reach_drain anthropic_stream.reach_drain responses_stream.reach_drain
  unfolding openai_destroy_def anthropic_destroy_def responses_destroy_def by blast

theorem destroy_answers_all_witness:
  "\<exists>s'. responses_destroy True (one_request (responses_protocol (\<lambda>_. None))) = Some s' \<and> answered_all s' [7]"
  using destroy_answers_all [of "\<lambda>_. None" "\<lambda>_. []" _ "[7]" _ "one_request (responses_protocol (\<lambda>_. None))"]
    one_request_reach [of "responses_protocol (\<lambda>_. None)"] by blast

section \<open>With the agent loop\<close>

text \<open>An agent never waits forever for an answered request: when the events a provider delivered for the
  request of the agent reach it, its request is over, whether it was a turn or a summary.\<close>

theorem answer_ends_wait:
  assumes "answered_all s ids" and "(request_id c, out) \<in> set (pv_released (snd s))"
  shows "\<not> model_pending (deliver_events env c out)"
proof (rule deliver_events_done)
  from assms have "complete_stream (request_id c) out" by (auto simp: answered_all_def)
  then show "\<exists>ev\<in>set out. me_request_id ev = request_id c \<and> terminal_event (me_body ev)"
    unfolding complete_stream_def by (metis last_in_set)
qed

theorem answer_ends_wait_witness:
  "\<exists>out. (7, out) \<in> set (pv_released (snd (process_multi_info [(1, 0, 500)] (one_request (openai_protocol (\<lambda>_. None)))))) \<and>
     \<not> model_pending (deliver_events still_env ((loop_state (fst (agent_new 1 None None)) (0 :: nat))
        \<lparr>a_state := AGENT_WAIT_MODEL, request_id := 7\<rparr>) out)"
proof -
  let ?s = "process_multi_info [(1, 0, 500)] (one_request (openai_protocol (\<lambda>_. None)))"
  let ?c = "(loop_state (fst (agent_new 1 None None)) (0 :: nat))\<lparr>a_state := AGENT_WAIT_MODEL, request_id := 7\<rparr>"
  obtain out where o: "pv_released (snd ?s) = [(7, out)]"
    using failed_request [of "openai_protocol (\<lambda>_. None)"] openai_stream.fresh_id openai_stream.event_id by blast
  have "answered_all ?s [7]"
    by (rule openai_stream.reach_answered [OF io_reach.Completed [OF one_request_reach]])
  from answer_ends_wait [OF this, of ?c out still_env] o show ?thesis by auto
qed

text \<open>C18: what the OpenAI and the Responses provider deliver before the end is consistent. On a stream of one of them
  that ended with \<open>Done\<close> every tool call that was started was also ended, and the Responses provider
  starts no call without a call id.\<close>

theorem done_means_calls_complete:
  "(io_reach (openai_protocol read) e s1 ids \<and> (i, out) \<in> set (pv_released (snd s1)) \<and> is_done out \<longrightarrow> calls_ended out) \<and>
   (io_reach (responses_protocol read) e s2 ids \<and> (i, out) \<in> set (pv_released (snd s2)) \<longrightarrow>
      started_with_id out \<and> (is_done out \<longrightarrow> calls_ended out))"
proof -
  have "calls_ended out" if "io_reach (openai_protocol read) e s1 ids" "(i, out) \<in> set (pv_released (snd s1))" "is_done out"
  proof -
    from openai_stream.answered(2) [OF that(1)] that(2) have "final openai_ok i out" by blast
    with that(3) show ?thesis by (auto simp: final_def openai_ok_def)
  qed
  moreover have "started_with_id out \<and> (is_done out \<longrightarrow> calls_ended out)"
    if "io_reach (responses_protocol read) e s2 ids" "(i, out) \<in> set (pv_released (snd s2))"
  proof -
    from responses_stream.answered(2) [OF that(1)] that(2) have "final responses_ok i out" by blast
    then show ?thesis by (auto simp: final_def responses_ok_def)
  qed
  ultimately show ?thesis by blast
qed

text \<open>The Anthropic provider gives no such promise: at a \<open>message_stop\<close> that comes while the block of a
  tool call is open the call is left open, because \<open>finish_message\<close>, unlike the end of the stream, does not
  close the block first.\<close>

theorem anthropic_done_leaves_call_open:
  assumes "read d = Some (JObj [(''type'', JStr ''content_block_start''),
       (''content_block'', JObj [(''type'', JStr ''tool_use''), (''id'', JStr cid), (''name'', JStr name)])])"
    and "read d' = Some (JObj [(''type'', JStr ''message_stop'')])"
  shows "let a = foldl (\<lambda>a ev. anthropic_sse_cb read ev a) (anthropic_fresh i) [Sse_Data d, Sse_Data d'] in
     started (st_out a) = [0] \<and> is_done (st_out a) \<and> \<not> calls_ended (st_out a)"
proof -
  have s: "c_str ''content_block_start'' = ''content_block_start''" "c_str ''tool_use'' = ''tool_use''"
    "c_str ''message_stop'' = ''message_stop''" by (simp_all add: c_str_def)
  show ?thesis using assms s
    by (simp add: anthropic_sse_cb_def handle_event_def json_parse_def c_get_str_def json_simps on_block_start_def Let_def
        accum_ensure_call_def anthropic_fresh_def emit_defs finish_message_def anthropic_emit_usage_def
        is_done_def calls_ended_def MAX_TOOL_CALLS_def split: prod.split)
qed

theorem anthropic_done_leaves_call_open_witness:
  "let read = (\<lambda>d. if d = ''a''
       then Some (JObj [(''type'', JStr ''content_block_start''),
         (''content_block'', JObj [(''type'', JStr ''tool_use''), (''id'', JStr ''c1''), (''name'', JStr ''read'')])])
       else Some (JObj [(''type'', JStr ''message_stop'')]));
     a = foldl (\<lambda>a ev. anthropic_sse_cb read ev a) (anthropic_fresh 1) [Sse_Data ''a'', Sse_Data ''b''] in
   is_done (st_out a) \<and> \<not> calls_ended (st_out a)"
  using anthropic_done_leaves_call_open [of "\<lambda>d. if d = ''a''
       then Some (JObj [(''type'', JStr ''content_block_start''),
         (''content_block'', JObj [(''type'', JStr ''tool_use''), (''id'', JStr ''c1''), (''name'', JStr ''read'')])])
       else Some (JObj [(''type'', JStr ''message_stop'')])" "''a''" "''c1''" "''read''" "''b''" 1]
  by (simp add: Let_def)

section \<open>A phantom tool call\<close>

text \<open>One call of the Responses API, announced with its arguments as output item \<open>k\<close>.\<close>

definition item_event :: "nat \<Rightarrow> string \<Rightarrow> string \<Rightarrow> string \<Rightarrow> json" where
  "item_event k cid name args =
     JObj [(''type'', JStr ''response.output_item.done''), (''output_index'', JInt (int k)),
           (''item'', JObj [(''type'', JStr ''function_call''), (''call_id'', JStr cid),
                            (''name'', JStr name), (''arguments'', JStr args)])]"

definition announced_call :: "nat \<Rightarrow> string \<Rightarrow> string \<Rightarrow> string \<Rightarrow> responses_call" where
  "announced_call k cid name args = \<lparr>tcs_index = k, tcs_seen_start = True, rc_call_id = Some cid, rc_name = Some name,
     rc_pending = [], rc_argument_len = length args\<rparr>"

lemma item_accum:
  assumes "read d = Some (item_event k cid name args)" and "k < MAX_TOOL_CALLS"
    and "cid \<noteq> []" and "name \<noteq> []" and "args \<noteq> []" and "no_nul cid" and "no_nul name" and "no_nul args"
  shows "responses_sse_cb read (Sse_Data d) (responses_fresh i) = (responses_fresh i)
     \<lparr>st_out := [\<lparr>me_request_id = i, me_body = Tool_Call_Start k (Some cid) (Some name)\<rparr>, \<lparr>me_request_id = i, me_body = Tool_Call_Delta k args\<rparr>],
      rs_calls := [announced_call k cid name args]\<rparr>"
proof -
  have k: "int64_wrap (int k) = int k" using assms(2) by (simp add: int64_wrap_id MAX_TOOL_CALLS_def)
  have fc: "c_str ''function_call'' = ''function_call''" by (simp add: c_str_def)
  have "handle_response_event read d (responses_fresh i) = on_output_item (Some (item_event k cid name args)) (responses_fresh i)"
    using assms(1) by (simp add: handle_response_event_def json_parse_def c_get_str_def json_simps item_event_def c_str_def)
  also have "\<dots> = (AGENT_OK, (responses_fresh i)
      \<lparr>st_out := [\<lparr>me_request_id = i, me_body = Tool_Call_Start k (Some cid) (Some name)\<rparr>, \<lparr>me_request_id = i, me_body = Tool_Call_Delta k args\<rparr>],
       rs_calls := [announced_call k cid name args]\<rparr>)"
    using assms(2-) k fc
    by (simp add: on_output_item_def Let_def c_get_str_def json_simps item_event_def c_str_simps accum_ensure_call_def
        responses_fresh_def new_call_def call_state_set_def emit_call_start_if_needed_def has_call_id_def emit_defs announced_call_def)
  finally show ?thesis by (simp add: responses_event)
qed

lemma item_stream:
  assumes "read d = Some (item_event k cid name args)" and "k < MAX_TOOL_CALLS"
    and "cid \<noteq> []" and "name \<noteq> []" and "args \<noteq> []" and "no_nul cid" and "no_nul name" and "no_nul args"
  shows "st_out (foldl (\<lambda>a ev. responses_sse_cb read ev a) (responses_fresh i) [Sse_Data d, Sse_Done x]) =
     map (\<lambda>b. \<lparr>me_request_id = i, me_body = b\<rparr>)
       [Tool_Call_Start k (Some cid) (Some name), Tool_Call_Delta k args, Tool_Call_End k, Done_Event MODEL_STOP_UNKNOWN]"
  using item_accum [where read = read and d = d and i = i, OF assms] assms(3)
  by (simp add: responses_event finish_stream_def has_call_id_def emit_defs responses_fresh_def announced_call_def)

text \<open>C15: a function call that is not the first output item of a response breaks the conversation. The provider
  passes the index of the output item on as the index of the call, the agent loop fills the slots before it with
  empty calls, and from then on every request that contains the assistant message is refused, because an
  empty call has no id: with a text or a reasoning item before the call, as the API sends them, the turn cannot
  be completed.\<close>

theorem responses_phantom_call:
  assumes "read d = Some (item_event k cid name args)" and "0 < k" and "k < MAX_TOOL_CALLS"
    and "cid \<noteq> []" and "name \<noteq> []" and "args \<noteq> []" and "no_nul cid" and "no_nul name" and "no_nul args"
    and "lc_tool_calls (lctx c) = []"
    and out: "out = st_out (foldl (\<lambda>a ev. responses_sse_cb read ev a) (responses_fresh (request_id c)) [Sse_Data d, Sse_Done x])"
    and m: "m \<in> set (rq_messages (br_request br))" "m_role m = MSG_ASSISTANT"
      "m_tool_calls m = lc_tool_calls (lctx (foldl (on_model_event env) c out))"
  shows "lc_tool_calls (lctx (foldl (on_model_event env) c out)) =
       replicate k zero_tool_call @ [zero_tool_call\<lparr>tc_id := Some cid, tc_name := Some name, tc_arguments := Some args\<rparr>] \<and>
     responses_build_request_body read render chatgpt provider tools br = (AGENT_ERR_MODEL, [])"
proof -
  have fs: "lc_tool_calls (lctx (finish_stats env r c)) = lc_tool_calls (lctx c)" for r and c
    by (simp add: finish_stats_def ask_clock_def with_session_def Let_def split: prod.split option.split)
  have l: "lc_tool_calls (lctx (foldl (on_model_event env) c out)) =
       replicate k zero_tool_call @ [zero_tool_call\<lparr>tc_id := Some cid, tc_name := Some name, tc_arguments := Some args\<rparr>]"
    unfolding out item_stream [where read = read and d = d and i = "request_id c", OF assms(1,3-9)]
    using assms(9,10)
    by (simp add: on_model_event_def Let_def ensure_tool_call_def add_start_def add_delta_def fs zero_tool_call_def
        replicate_append_same [symmetric] nth_append list_update_append c_str_simps del: replicate_append_same)
  with m(2,3) \<open>0 < k\<close> have "\<not> sendable m"
    by (cases k) (auto simp: sendable_def zero_tool_call_def nonempty_def)
  with responses_body_refused [OF m(1)] l show ?thesis by blast
qed

theorem responses_phantom_call_witness:
  "\<exists>calls. length calls = 2 \<and> hd calls = zero_tool_call \<and>
     responses_build_request_body (\<lambda>_. Some (item_event 1 ''c'' ''read'' ''{}'')) write_two False None None
       (sample_body\<lparr>br_request := (br_request sample_body)\<lparr>rq_messages :=
          [(message_new MSG_ASSISTANT)\<lparr>m_tool_calls := calls\<rparr>]\<rparr>\<rparr>) = (AGENT_ERR_MODEL, [])"
proof -
  let ?read = "\<lambda>_. Some (item_event 1 ''c'' ''read'' ''{}'')"
  let ?c = "loop_state (fst (agent_new 1 None None)) (0 :: nat)"
  let ?out = "st_out (foldl (\<lambda>a ev. responses_sse_cb ?read ev a) (responses_fresh (request_id ?c)) [Sse_Data ''x'', Sse_Done []])"
  let ?calls = "lc_tool_calls (lctx (foldl (on_model_event still_env) ?c ?out))"
  let ?m = "(message_new MSG_ASSISTANT)\<lparr>m_tool_calls := ?calls\<rparr>"
  let ?br = "sample_body\<lparr>br_request := (br_request sample_body)\<lparr>rq_messages := [?m]\<rparr>\<rparr>"
  have r: "?calls = replicate 1 zero_tool_call @ [zero_tool_call\<lparr>tc_id := Some ''c'', tc_name := Some ''read'', tc_arguments := Some ''{}''\<rparr>] \<and>
     responses_build_request_body (\<lambda>_. Some (item_event 1 ''c'' ''read'' ''{}'')) write_two False None None ?br = (AGENT_ERR_MODEL, [])"
    by (rule responses_phantom_call [where read = ?read and d = "''x''" and x = "[]" and m = ?m and k = 1])
       (simp_all add: MAX_TOOL_CALLS_def no_nul_def loop_state_def agent.extend_def loop.fields_def agent_new_def Let_def zero_ctx_def
          message_new_def)
  from conjunct1 [OF r] have "length ?calls = 2 \<and> hd ?calls = zero_tool_call" by (rule ssubst) simp
  with r show ?thesis by blast
qed

text \<open>A response with one call, in two events, and a server that closes the connection properly.\<close>

definition read_call :: "string \<Rightarrow> json option" where
  "read_call t = (if t = ''S'' then Some (item_event 0 ''c'' ''read'' ''{}'')
     else if t = ''E'' then Some (JObj [(''type'', JStr ''response.completed'')]) else None)"

definition call_served :: "responses_accum provider_state" where
  "call_served = process_multi_info [(1, 0, 200)]
     (snd (http_write_cb 1 (sse_encode [''S'', ''E'']) (one_request (responses_protocol read_call))))"

lemma call_served_released:
  "pv_released (snd call_served) = [(7, map (\<lambda>b. \<lparr>me_request_id = 7, me_body = b\<rparr>)
     [Tool_Call_Start 0 (Some ''c'') (Some ''read''), Tool_Call_Delta 0 ''{}'', Tool_Call_End 0, Done_Event MODEL_STOP_TOOL_CALLS])]"
proof -
  have f: "sse_parser_feed sse_ok sse_parser_new (sse_encode [''S'', ''E'']) = (AGENT_OK, [Sse_Data ''S'', Sse_Data ''E''], sse_parser_new)"
    using drain_encoded [of "[''S'', ''E'']"] by (simp add: feed_new plain_payload_def SSE_MAX_LINE_BYTES_def)
  let ?a = "(responses_fresh 7)\<lparr>st_out := map (\<lambda>b. \<lparr>me_request_id = 7, me_body = b\<rparr>)
     [Tool_Call_Start 0 (Some ''c'') (Some ''read''), Tool_Call_Delta 0 ''{}'', Tool_Call_End 0, Done_Event MODEL_STOP_TOOL_CALLS],
     done_emitted := True, rs_calls := [announced_call 0 ''c'' ''read'' ''{}'']\<rparr>"
  have s: "responses_sse_cb read_call (Sse_Data ''S'') (responses_fresh 7) = (responses_fresh 7)
     \<lparr>st_out := [\<lparr>me_request_id = 7, me_body = Tool_Call_Start 0 (Some ''c'') (Some ''read'')\<rparr>, \<lparr>me_request_id = 7, me_body = Tool_Call_Delta 0 ''{}''\<rparr>],
      rs_calls := [announced_call 0 ''c'' ''read'' ''{}'']\<rparr>"
    by (rule item_accum) (simp_all add: read_call_def MAX_TOOL_CALLS_def no_nul_def)
  have ty: "c_get_str (json_parse read_call ''E'') ''type'' = Some ''response.completed''"
    "json_val_obj_get (json_parse read_call ''E'') ''response'' = None"
    by (simp_all add: json_parse_def read_call_def c_get_str_def json_simps c_str_def)
  have "handle_response_event read_call ''E'' a = (AGENT_OK, finish_stream MODEL_STOP_COMPLETE a)" for a
    unfolding handle_response_event_def Let_def ty by (simp add: on_response_end_def json_val_is_obj_def)
  then have a: "responses_sse_cb read_call (Sse_Data ''E'') (responses_sse_cb read_call (Sse_Data ''S'') (responses_fresh 7)) = ?a"
    unfolding s by (simp add: responses_event finish_stream_def has_call_id_def emit_defs responses_fresh_def announced_call_def)
  define s1 where "s1 = snd (http_write_cb 1 (sse_encode [''S'', ''E'']) (one_request (responses_protocol read_call)))"
  have e: "sse_encode [''S'', ''E''] \<noteq> []" by (simp add: sse_encode_def)
  obtain t where t: "pv_heap (snd s1) 1 = Some t" "tr_accum t = ?a" "tr_sse t = sse_parser_new" "\<not> tr_finished t"
    and io: "pv_released (snd s1) = []" "pv_mem (snd s1) = sse_ok"
    and r: "\<exists>r. h_requests (fst s1) = [r] \<and> hq_addr r = 1 \<and> \<not> hq_finished r \<and>
        hq_done_cb r = Some (transfer_done_cb (responses_protocol read_call) (\<lambda>_. []) 1)"
    using a e
    by (simp add: s1_def one_request_def provider_request_def send_request_def lucky_def idle_state_def http_request_start_def
        http_write_cb_def find_request_def http_new_def set_request_def cap_response_def write_cb_def feed_transfer_def
        put_transfer_def new_transfer_def f responses_protocol_def Let_def)
  from r obtain q where q: "h_requests (fst s1) = [q]" "hq_addr q = 1" "\<not> hq_finished q"
    "hq_done_cb q = Some (transfer_done_cb (responses_protocol read_call) (\<lambda>_. []) 1)" by blast
  have "call_served = process_multi_info [(1, 0, 200)] s1" by (simp add: call_served_def s1_def)
  also have "\<dots> = finish_request (q\<lparr>hq_rc := 0, hq_http_status := 200\<rparr>) s1"
    using q by (simp add: process_multi_info_def process_message_def find_request_def)
  finally have c: "call_served = finish_request (q\<lparr>hq_rc := 0, hq_http_status := 200\<rparr>) s1" .
  have "snd (finish_request (q\<lparr>hq_rc := 0, hq_http_status := 200\<rparr>) s1) = transfer_done_cb (responses_protocol read_call) (\<lambda>_. []) 1
      \<lparr>info_rc = 0, info_http_status = 200, info_body = hq_response q\<rparr> (snd s1)"
    using q by (simp add: finish_request_def)
  then show ?thesis
    unfolding c using t io
    by (simp add: responses_stream.done_cb_effect end_stream_def sse_parser_finish_def sse_parser_new_def sse_flush_event_def
        report_failure_def CURLE_OK_def responses_fresh_def)
qed

theorem done_means_calls_complete_witness:
  "\<exists>out. (7, out) \<in> set (pv_released (snd call_served)) \<and> started out = [0] \<and> started_with_id out \<and> calls_ended out"
proof -
  let ?out = "map (\<lambda>b. \<lparr>me_request_id = 7, me_body = b\<rparr>)
     [Tool_Call_Start 0 (Some ''c'') (Some ''read''), Tool_Call_Delta 0 ''{}'', Tool_Call_End 0, Done_Event MODEL_STOP_TOOL_CALLS]"
  have m: "(7, ?out) \<in> set (pv_released (snd call_served))" by (simp add: call_served_released)
  have d: "is_done ?out" "started ?out = [0]" by (simp_all add: is_done_def)
  have "io_reach (responses_protocol read_call) (\<lambda>_. []) call_served [7]"
    unfolding call_served_def
    by (rule io_reach.Completed, rule io_reach.Chunk [OF one_request_reach]) (rule surjective_pairing)
  with done_means_calls_complete m d show ?thesis by blast
qed

end
