(* ===== verification/Oauth_Codec.thy ===== *)
theory Oauth_Codec
  imports Prelude
begin

text \<open>
  The encodings of \<open>src/src/auth/oauth.c\<close>: base64url without padding, percent-decoding and the
  query string of a redirect, and the authorization URL of the login.  A byte array is a list
  of \<open>8 word\<close>; the bit accumulators are \<open>unsigned int\<close>, so \<open>32 word\<close>.  Random bytes, SHA-256 and
  the escaper of libcurl are parameters.  Allocations succeed.
\<close>

unbundle bit_operations_syntax

section \<open>Base64url\<close>

definition base64url_alphabet :: string where
  "base64url_alphabet = ''ABCDEFGHIJKLMNOPQRSTUVWXYZabcdefghijklmnopqrstuvwxyz0123456789-_''"

definition base64url_char :: "32 word \<Rightarrow> char" where
  "base64url_char value = base64url_alphabet ! unat (value AND 63)"

text \<open>The inner loop of the encoder: the characters it writes, and the bits left over.\<close>

fun drain_sextets :: "32 word \<Rightarrow> nat \<Rightarrow> string \<times> nat" where
  "drain_sextets accumulator bits =
     (if bits < 6 then ([], bits)
      else (let (cs, rest) = drain_sextets accumulator (bits - 6) in
            (base64url_char (drop_bit (bits - 6) accumulator) # cs, rest)))"

declare drain_sextets.simps [simp del]

fun encode_bytes :: "8 word list \<Rightarrow> 32 word \<Rightarrow> nat \<Rightarrow> string" where
  "encode_bytes [] accumulator bits =
     (if bits > 0 then [base64url_char (push_bit (6 - bits) accumulator)] else [])"
| "encode_bytes (d # ds) accumulator bits =
     (let acc' = push_bit 8 accumulator OR ucast d;
          (cs, rest) = drain_sextets acc' (bits + 8) in
      cs @ encode_bytes ds acc' rest)"

text \<open>\<open>None\<close> is the result 0: the buffer of \<open>cap\<close> bytes is too small and was not written.\<close>

definition base64url_encode :: "8 word list \<Rightarrow> nat \<Rightarrow> string option" where
  "base64url_encode data cap =
     (let needed = (length data * 8 + 5) div 6 in
      if cap \<le> needed then None else Some (encode_bytes data 0 0))"

definition base64url_value :: "char \<Rightarrow> int" where
  "base64url_value ch =
     (let c = int (of_char ch) in
      if 65 \<le> c \<and> c \<le> 90 then c - 65
      else if 97 \<le> c \<and> c \<le> 122 then c - 97 + 26
      else if 48 \<le> c \<and> c \<le> 57 then c - 48 + 52
      else if c = 45 then 62
      else if c = 95 then 63
      else - 1)"

text \<open>The decoder with \<open>room\<close> bytes left in its buffer; \<open>None\<close> is its early return of 0.\<close>

fun decode_chars :: "string \<Rightarrow> 32 word \<Rightarrow> nat \<Rightarrow> nat \<Rightarrow> 8 word list option" where
  "decode_chars [] accumulator bits room = Some []"
| "decode_chars (ch # chs) accumulator bits room =
     (let value = base64url_value ch in
      if value < 0 then None
      else
        (let acc' = push_bit 6 accumulator OR word_of_int value in
         if bits + 6 \<ge> 8 then
           (if room = 0 then None
            else map_option (\<lambda>ds. ucast (drop_bit (bits + 6 - 8) acc') # ds)
                   (decode_chars chs acc' (bits + 6 - 8) (room - 1)))
         else decode_chars chs acc' (bits + 6) room))"

definition base64url_decode :: "string \<Rightarrow> nat \<Rightarrow> 8 word list" where
  "base64url_decode txt0 cap =
     (case decode_chars (c_str txt0) 0 0 cap of None \<Rightarrow> [] | Some ds \<Rightarrow> ds)"

text \<open>A sextet survives the alphabet, whatever stands above it in the accumulator.\<close>

lemma base64url_alphabet_values:
  "map base64url_value base64url_alphabet = map int [0..<64]"
  by (simp add: base64url_alphabet_def base64url_value_def upt_rec)

lemma base64url_value_char:
  "base64url_value (base64url_char w) = uint (w AND 63)"
proof -
  have lt: "unat (w AND 63) < 64"
    using word_and_le2[of 63 w] by (simp add: word_le_nat_alt and.commute)
  have len: "length base64url_alphabet = 64" by (simp add: base64url_alphabet_def)
  have "base64url_value (base64url_alphabet ! unat (w AND 63)) = int (unat (w AND 63))"
    using arg_cong [OF base64url_alphabet_values, of "\<lambda>l. l ! unat (w AND 63)"] lt len by simp
  then show ?thesis by (simp add: base64url_char_def)
qed

lemma induct_list_by_three [case_names nil one two three]:
  assumes "P []" and "\<And>a. P [a]" and "\<And>a b. P [a, b]" and "\<And>a b c ds. P ds \<Longrightarrow> P (a # b # c # ds)"
  shows "P ds"
proof (induction ds rule: length_induct)
  case (1 ds)
  consider "ds = []" | a where "ds = [a]" | a b where "ds = [a, b]" | a b c es where "ds = a # b # c # es"
    by (metis list.exhaust)
  then show ?case
  proof cases
    case (4 a b c es)
    with 1 have "P es" by simp
    with assms(4) show ?thesis by (simp add: 4)
  qed (simp_all add: assms)
qed

text \<open>Three bytes are four characters, and no bits are left over.\<close>

lemma word8_eqI:
  fixes u v :: "8 word"
  assumes "\<And>n. n \<in> {0, 1, 2, 3, 4, 5, 6, 7} \<Longrightarrow> bit u n = bit v n"
  shows "u = v"
proof (rule bit_word_eqI)
  fix n assume "n < LENGTH(8)"
  then have "n \<in> {0, 1, 2, 3, 4, 5, 6, 7}" by auto
  then show "bit u n = bit v n" by (rule assms)
qed

lemma and_63: "(w :: 32 word) AND 63 = take_bit 6 w"
  by (simp add: take_bit_eq_mask mask_eq_exp_minus_1)

lemma bit_above_8: "8 \<le> n \<Longrightarrow> \<not> bit (w :: 8 word) n"
  using bit_imp_le_length [of w n] by auto

lemmas bit_steps = bit_above_8 bit_or_iff bit_take_bit_iff bit_push_bit_iff bit_drop_bit_eq bit_unsigned_iff

lemma decode_char:
  "decode_chars (base64url_char w # cs) d bits room =
     (let acc' = push_bit 6 d OR take_bit 6 w in
      if bits + 6 \<ge> 8 then
        (if room = 0 then None
         else map_option (\<lambda>ds. ucast (drop_bit (bits + 6 - 8) acc') # ds) (decode_chars cs acc' (bits + 6 - 8) (room - 1)))
      else decode_chars cs acc' (bits + 6) room)"
  by (simp add: base64url_value_char and_63)

lemma decode_char_0:
  "decode_chars (base64url_char w # cs) d 0 room = decode_chars cs (push_bit 6 d OR take_bit 6 w) 6 room"
  by (simp add: decode_char Let_def drop_bit_drop_bit del: decode_chars.simps)

lemma decode_char_6:
  "decode_chars (base64url_char w # cs) d 6 room =
     (if room = 0 then None
      else map_option (\<lambda>ds. ucast (drop_bit 4 (push_bit 6 d OR take_bit 6 w)) # ds)
             (decode_chars cs (push_bit 6 d OR take_bit 6 w) 4 (room - 1)))"
  by (simp add: decode_char Let_def drop_bit_drop_bit del: decode_chars.simps)

lemma decode_char_4:
  "decode_chars (base64url_char w # cs) d 4 room =
     (if room = 0 then None
      else map_option (\<lambda>ds. ucast (drop_bit 2 (push_bit 6 d OR take_bit 6 w)) # ds)
             (decode_chars cs (push_bit 6 d OR take_bit 6 w) 2 (room - 1)))"
  by (simp add: decode_char Let_def drop_bit_drop_bit del: decode_chars.simps)

lemma decode_char_2:
  "decode_chars (base64url_char w # cs) d 2 room =
     (if room = 0 then None
      else map_option (\<lambda>ds. ucast (push_bit 6 d OR take_bit 6 w) # ds)
             (decode_chars cs (push_bit 6 d OR take_bit 6 w) 0 (room - 1)))"
  by (simp add: decode_char Let_def drop_bit_drop_bit del: decode_chars.simps)

lemmas drain_now = drain_sextets.simps [where bits = 8] drain_sextets.simps [where bits = 10]
  drain_sextets.simps [where bits = 12] drain_sextets.simps [where bits = 2] drain_sextets.simps [where bits = 4]
  drain_sextets.simps [where bits = 6] drain_sextets.simps [where bits = 0]

lemma decode_group:
  assumes "3 \<le> room"
  shows "\<exists>d' acc'. decode_chars (encode_bytes (a # b # c # ds) acc 0) d 0 room =
      map_option (\<lambda>xs. a # b # c # xs) (decode_chars (encode_bytes ds acc' 0) d' 0 (room - 3))"
proof -
  define a1 where "a1 = push_bit 8 acc OR ucast a"
  define a2 where "a2 = push_bit 8 a1 OR ucast b"
  define a3 where "a3 = push_bit 8 a2 OR ucast c"
  define d1 where "d1 = push_bit 6 d OR take_bit 6 (drop_bit 2 a1)"
  define d2 where "d2 = push_bit 6 d1 OR take_bit 6 (drop_bit 4 a2)"
  define d3 where "d3 = push_bit 6 d2 OR take_bit 6 (drop_bit 6 a3)"
  define d4 where "d4 = push_bit 6 d3 OR take_bit 6 a3"
  have enc: "encode_bytes (a # b # c # ds) acc 0 =
      base64url_char (drop_bit 2 a1) # base64url_char (drop_bit 4 a2) # base64url_char (drop_bit 6 a3) #
      base64url_char a3 # encode_bytes ds a3 0"
    by (simp add: drain_now Let_def a1_def a2_def a3_def)
  have "ucast (drop_bit 4 d2) = a"
    by (rule word8_eqI) (elim insertE emptyE; simp add: d2_def d1_def a1_def a2_def bit_steps)
  moreover have "ucast (drop_bit 2 d3) = b"
    by (rule word8_eqI) (elim insertE emptyE; simp add: d3_def d2_def a2_def a3_def bit_steps)
  moreover have "ucast d4 = c"
    by (rule word8_eqI) (elim insertE emptyE; simp add: d4_def d3_def a3_def bit_steps)
  ultimately have "decode_chars (encode_bytes (a # b # c # ds) acc 0) d 0 room =
      map_option (\<lambda>xs. a # b # c # xs) (decode_chars (encode_bytes ds a3 0) d4 0 (room - 3))"
    using assms unfolding enc decode_char_0 decode_char_6 decode_char_4 decode_char_2
      d1_def [symmetric] d2_def [symmetric] d3_def [symmetric] d4_def [symmetric]
    by (simp add: option.map_comp comp_def numeral_3_eq_3)
  then show ?thesis by blast
qed

lemma decode_encode:
  "length ds \<le> room \<Longrightarrow> decode_chars (encode_bytes ds acc 0) d 0 room = Some ds"
proof (induction ds arbitrary: acc d room rule: induct_list_by_three)
  case (three a b c ds)
  then obtain d' acc' where
    "decode_chars (encode_bytes (a # b # c # ds) acc 0) d 0 room =
      map_option (\<lambda>xs. a # b # c # xs) (decode_chars (encode_bytes ds acc' 0) d' 0 (room - 3))"
    using decode_group [of room a b c ds acc d] by auto
  with three show ?case by simp
next
  case (one a)
  define a1 where "a1 = push_bit 8 acc OR ucast a"
  have "ucast (drop_bit 4 (push_bit 6 (push_bit 6 d OR take_bit 6 (drop_bit 2 a1)) OR take_bit 6 (push_bit 4 a1))) = a"
    by (rule word8_eqI; elim insertE emptyE; simp add: a1_def bit_steps)
  moreover have "encode_bytes [a] acc 0 = [base64url_char (drop_bit 2 a1), base64url_char (push_bit 4 a1)]"
    by (simp add: drain_now a1_def)
  ultimately show ?case using one unfolding decode_char_0 decode_char_6 by (simp add: decode_char_0 decode_char_6 del: decode_chars.simps(2))
next
  case (two a b)
  define a1 where "a1 = push_bit 8 acc OR ucast a"
  define a2 where "a2 = push_bit 8 a1 OR ucast b"
  define d1 where "d1 = push_bit 6 d OR take_bit 6 (drop_bit 2 a1)"
  define d2 where "d2 = push_bit 6 d1 OR take_bit 6 (drop_bit 4 a2)"
  have "ucast (drop_bit 4 d2) = a"
    by (rule word8_eqI; elim insertE emptyE; simp add: d1_def d2_def a1_def a2_def bit_steps)
  moreover have "ucast (drop_bit 2 (push_bit 6 d2 OR take_bit 6 (push_bit 2 a2))) = b"
    by (rule word8_eqI; elim insertE emptyE; simp add: d2_def a2_def bit_steps)
  moreover have "encode_bytes [a, b] acc 0 =
      [base64url_char (drop_bit 2 a1), base64url_char (drop_bit 4 a2), base64url_char (push_bit 2 a2)]"
    by (simp add: drain_now a1_def a2_def)
  ultimately show ?case using two
    by (simp add: decode_char_0 decode_char_6 decode_char_4 del: decode_chars.simps(2) flip: d1_def d2_def)
qed simp

lemma drain_length:
  "length (fst (drain_sextets acc bits)) = bits div 6 \<and> snd (drain_sextets acc bits) = bits mod 6"
proof (induction acc bits rule: drain_sextets.induct)
  case (1 acc bits)
  then show ?case
    by (subst (1 2) drain_sextets.simps) (auto simp: split_beta le_div_geq le_mod_geq not_less)
qed

lemma encode_length: "bits < 6 \<Longrightarrow> length (encode_bytes ds acc bits) = (length ds * 8 + bits + 5) div 6"
proof (induction ds acc bits rule: encode_bytes.induct)
  case (2 d ds acc bits)
  obtain cs rest where dr: "drain_sextets (push_bit 8 acc OR ucast d) (bits + 8) = (cs, rest)" by fastforce
  with drain_length [of "push_bit 8 acc OR ucast d" "bits + 8"]
  have "length cs = (bits + 8) div 6" "rest = (bits + 8) mod 6" by auto
  moreover have "(bits + 8) div 6 + (length ds * 8 + (bits + 8) mod 6 + 5) div 6 = (length ds * 8 + bits + 13) div 6"
  proof -
    have "length ds * 8 + (bits + 8) mod 6 + 5 + 6 * ((bits + 8) div 6) = length ds * 8 + bits + 13"
      using mult_div_mod_eq [of 6 "bits + 8"] by linarith
    then show ?thesis
      using div_mult_self2 [of 6 "length ds * 8 + (bits + 8) mod 6 + 5" "(bits + 8) div 6"] by simp
  qed
  ultimately show ?case using 2 dr by (simp add: Let_def add.commute)
qed auto

definition unreserved :: "char \<Rightarrow> bool" where
  "unreserved c \<longleftrightarrow> c \<in> set (''-._~'' @ base64url_alphabet)"

lemma base64url_char_unreserved: "unreserved (base64url_char w)"
proof -
  have "unat (w AND 63) < length base64url_alphabet"
    using word_and_le2 [of 63 w] by (simp add: base64url_alphabet_def word_le_nat_alt and.commute)
  then show ?thesis by (auto simp: base64url_char_def unreserved_def)
qed

lemma drain_unreserved: "c \<in> set (fst (drain_sextets acc bits)) \<Longrightarrow> unreserved c"
proof (induction acc bits rule: drain_sextets.induct)
  case (1 acc bits)
  then show ?case
    by (subst (asm) (2) drain_sextets.simps) (auto simp: split_beta base64url_char_unreserved split: if_splits)
qed

lemma encode_unreserved: "c \<in> set (encode_bytes ds acc bits) \<Longrightarrow> unreserved c"
proof (induction ds acc bits rule: encode_bytes.induct)
  case (2 d ds acc bits)
  obtain cs rest where dr: "drain_sextets (push_bit 8 acc OR ucast d) (bits + 8) = (cs, rest)" by fastforce
  with drain_unreserved [of c "push_bit 8 acc OR ucast d" "bits + 8"] 2 show ?case by (auto simp: Let_def)
qed (auto simp: base64url_char_unreserved split: if_splits)

lemma unreserved_not_nul: "unreserved c \<Longrightarrow> c \<noteq> CHR 0x00"
  by (auto simp: unreserved_def base64url_alphabet_def)

section \<open>Percent-encoding and query strings\<close>

definition hex_value :: "char \<Rightarrow> int" where
  "hex_value ch =
     (let c = int (of_char ch) in
      if 48 \<le> c \<and> c \<le> 57 then c - 48
      else if 97 \<le> c \<and> c \<le> 102 then c - 97 + 10
      else if 65 \<le> c \<and> c \<le> 70 then c - 65 + 10
      else - 1)"

text \<open>The bytes written so far are \<open>out\<close>; they stay in the (zeroed) buffer when the text is refused.\<close>

function url_decode_from :: "string \<Rightarrow> string \<Rightarrow> nat \<Rightarrow> agent_error \<times> string" where
  "url_decode_from [] out cap = (AGENT_OK, out)"
| "url_decode_from (c # src) out cap =
     (let pct = (c = CHR ''%'' \<and> length src \<ge> 2);
          hi = hex_value (src ! 0); lo = hex_value (src ! 1) in
      if pct \<and> (hi < 0 \<or> lo < 0) then (AGENT_ERR_AUTH, out)
      else
        (let d = (if pct then char_of (nat (hi * 16 + lo)) else if c = CHR ''+'' then CHR '' '' else c) in
         if length out + 1 \<ge> cap then (AGENT_ERR_OOM, out)
         else url_decode_from (if pct then drop 2 src else src) (out @ [d]) cap))"
  by pat_completeness auto
termination
  by (relation "measure (\<lambda>(src, _). length src)") auto

definition url_decode :: "string \<Rightarrow> nat \<Rightarrow> agent_error \<times> string" where
  "url_decode src cap = url_decode_from src [] cap"

function query_value :: "string \<Rightarrow> string \<Rightarrow> nat \<Rightarrow> agent_error \<times> string" where
  "query_value p wanted cap =
     (if p = [] then (AGENT_ERR_IO, [])
      else
        (let part = takeWhile (\<lambda>c. c \<noteq> CHR ''&'') p; key = takeWhile (\<lambda>c. c \<noteq> CHR ''='') part in
         if CHR ''='' \<in> set part \<and> key = wanted then url_decode (drop (length key + 1) part) cap
         else if length part = length p then (AGENT_ERR_IO, [])
         else query_value (drop (length part + 1) p) wanted cap))"
  by pat_completeness auto
termination
  by (relation "measure (\<lambda>(p, _). length p)") auto

declare query_value.simps [simp del]

section \<open>The login\<close>

definition OAUTH_ISSUER :: string where
  "OAUTH_ISSUER = ''https://auth.openai.com''"

definition OAUTH_CLIENT_ID :: string where
  "OAUTH_CLIENT_ID = ''app_EMoamEEZ73f0CkXaXp7hrann''"

definition OAUTH_CALLBACK_PATH :: string where
  "OAUTH_CALLBACK_PATH = ''/auth/callback''"

text \<open>
  \<open>random\<close> are the 32 random bytes, \<open>None\<close> when the source fails; the result is the verifier, the
  challenge and the state.
\<close>

definition make_pkce ::
  "8 word list option \<Rightarrow> (string \<Rightarrow> 8 word list) \<Rightarrow> nat \<Rightarrow> nat \<Rightarrow> nat \<Rightarrow> (string \<times> string \<times> string) option" where
  "make_pkce random sha verifier_cap challenge_cap state_cap =
     (case random of
        None \<Rightarrow> None
      | Some data \<Rightarrow>
          (case (base64url_encode data verifier_cap, base64url_encode data state_cap) of
             (Some verifier, Some state) \<Rightarrow>
               (if verifier = [] \<or> state = [] then None
                else
                  (case base64url_encode (sha verifier) challenge_cap of
                     Some challenge \<Rightarrow> if challenge = [] then None else Some (verifier, challenge, state)
                   | None \<Rightarrow> None))
           | _ \<Rightarrow> None))"

text \<open>A text under construction with the flag \<open>first\<close>.\<close>

definition append_query :: "(string \<Rightarrow> string) \<Rightarrow> string \<times> bool \<Rightarrow> string \<times> string \<Rightarrow> string \<times> bool" where
  "append_query esc st kv =
     (fst st @ (if snd st then ''?'' else ''&'') @ fst kv @ ''='' @ esc (snd kv), False)"

definition authorize_params :: "(string \<times> string) list" where
  "authorize_params =
     [(''response_type'', ''code''),
      (''client_id'', OAUTH_CLIENT_ID),
      (''scope'', ''openid profile email offline_access api.connectors.read api.connectors.invoke''),
      (''code_challenge_method'', ''S256''),
      (''id_token_add_organizations'', ''true''),
      (''codex_cli_simplified_flow'', ''true''),
      (''originator'', ''codex_cli_rs'')]"

definition build_authorize_url :: "(string \<Rightarrow> string) \<Rightarrow> string \<Rightarrow> string \<Rightarrow> string \<Rightarrow> string \<Rightarrow> string" where
  "build_authorize_url esc redirect_uri verifier challenge state =
     fst (foldl (append_query esc) (OAUTH_ISSUER @ ''/oauth/authorize'', True)
       (authorize_params @
        [(''redirect_uri'', redirect_uri), (''code_challenge'', challenge), (''state'', state)]))"

text \<open>The results of \<open>recv\<close> until it reports the end or an error.\<close>

fun read_http_request :: "string list \<Rightarrow> string \<Rightarrow> nat \<Rightarrow> agent_error \<times> string" where
  "read_http_request [] used cap = (if used \<noteq> [] then AGENT_OK else AGENT_ERR_IO, used)"
| "read_http_request (chunk # chunks) used cap =
     (let got = take (cap - length used - 1) chunk in
      if length used + 1 \<ge> cap \<or> got = [] then (if used \<noteq> [] then AGENT_OK else AGENT_ERR_IO, used)
      else if strstr (c_str (used @ got)) [CHR 0x0D, CHR 0x0A, CHR 0x0D, CHR 0x0A] \<noteq> None then (AGENT_OK, used @ got)
      else read_http_request chunks (used @ got) cap)"

definition callback_query :: "string \<Rightarrow> string option" where
  "callback_query request =
     (case strstr (c_str request) ''GET '' of
        None \<Rightarrow> None
      | Some k \<Rightarrow>
          (let path = drop (k + 4) (c_str request); n = length OAUTH_CALLBACK_PATH + 1 in
           if CHR '' '' \<notin> set path \<or> take n path \<noteq> OAUTH_CALLBACK_PATH @ ''?'' then None
           else Some (drop n (takeWhile (\<lambda>c. c \<noteq> CHR '' '') path))))"

text \<open>The checks of the redirect: the code, and \<open>AGENT_OK\<close> only when every one passes.\<close>

definition check_callback :: "string \<Rightarrow> string \<Rightarrow> nat \<Rightarrow> agent_error \<times> string" where
  "check_callback request expected_state code_cap =
     (case callback_query request of
        None \<Rightarrow> (AGENT_ERR_AUTH, [])
      | Some query \<Rightarrow>
          (let state = c_str (snd (query_value query ''state'' 256));
               error = c_str (snd (query_value query ''error'' 256));
               (rc, code) = query_value query ''code'' code_cap in
           if state = [] \<or> state \<noteq> expected_state then (AGENT_ERR_AUTH, [])
           else if error \<noteq> [] then (AGENT_ERR_AUTH, [])
           else if rc \<noteq> AGENT_OK \<or> c_str code = [] then (AGENT_ERR_AUTH, [])
           else (AGENT_OK, c_str code)))"

text \<open>
  \<open>poll\<close> is the result of waiting for the browser, \<open>accepted\<close> whether the connection could be
  accepted, \<open>recvs\<close> what it sent.  The last component is the page the browser gets.
\<close>

definition wait_for_callback ::
  "int \<Rightarrow> bool \<Rightarrow> string list \<Rightarrow> string \<Rightarrow> nat \<Rightarrow> agent_error \<times> string \<times> bool option" where
  "wait_for_callback poll accepted recvs expected_state code_cap =
     (if poll \<le> 0 \<or> \<not> accepted then (AGENT_ERR_AUTH, [], None)
      else
        (let (rc, request) = read_http_request recvs [] 16384 in
         if rc \<noteq> AGENT_OK then (AGENT_ERR_AUTH, [], Some False)
         else (let (rc, code) = check_callback request expected_state code_cap in (rc, code, Some (rc = AGENT_OK)))))"

section \<open>What the login promises\<close>

text \<open>
  \<open>curl_easy_escape\<close>, as its manual describes it: letters, digits and \<open>-._~\<close> stay, every
  other byte becomes \<open>%\<close> and two hexadecimal digits.
\<close>

definition hex_digit :: "nat \<Rightarrow> char" where
  "hex_digit n = (if n < 10 then char_of (48 + n) else char_of (55 + n))"

definition percent :: "char \<Rightarrow> string" where
  "percent c =
     (if unreserved c then [c] else [CHR ''%'', hex_digit (of_char c div 16), hex_digit (of_char c mod 16)])"

definition escapes :: "(string \<Rightarrow> string) \<Rightarrow> bool" where
  "escapes esc \<longleftrightarrow> (\<forall>s. no_nul s \<longrightarrow> esc s = concat (map percent s))"

lemma hex_value_digit: "n < 16 \<Longrightarrow> hex_value (hex_digit n) = int n"
  by (simp add: hex_value_def hex_digit_def)

lemma unreserved_plain: "unreserved c \<Longrightarrow> c \<notin> set (CHR 0x00 # ''%+&= '')"
  by (auto simp: unreserved_def base64url_alphabet_def)

lemma hex_digit_plain: "n < 16 \<Longrightarrow> hex_digit n \<notin> set (CHR 0x00 # ''%+&= '')"
  by (auto simp: hex_digit_def dest: arg_cong [where f = "of_char :: char \<Rightarrow> nat"] split: if_splits)

lemma byte_halves: "(of_char c :: nat) div 16 < 16" "(of_char c :: nat) mod 16 < 16"
  using nat_of_char_less_256 [of c] by (simp_all add: less_mult_imp_div_less)

lemma url_decode_percent:
  "length out + length s < cap \<Longrightarrow> url_decode_from (concat (map percent s)) out cap = (AGENT_OK, out @ s)"
proof (induction s arbitrary: out)
  case (Cons c s)
  have rebuild: "char_of (nat (int (of_char c div 16) * 16 + int (of_char c mod 16))) = c"
  proof -
    have "nat (int (of_char c div 16) * 16 + int (of_char c mod 16)) = of_char c"
      by (metis div_mult_mod_eq nat_int of_nat_add of_nat_mult of_nat_numeral)
    then show ?thesis by simp
  qed
  from Cons show ?case
    using unreserved_plain [of c] hex_value_digit [OF byte_halves(1)] hex_value_digit [OF byte_halves(2)] rebuild
    by (auto simp: percent_def Let_def)
qed simp

lemma percent_plain:
  assumes "c \<in> set (concat (map percent s))"
  shows "c \<notin> set (CHR 0x00 # ''&= '')"
proof -
  from assms obtain x where x: "c \<in> set (percent x)" by auto
  show ?thesis
  proof (cases "unreserved x")
    case True
    with x unreserved_plain [of x] show ?thesis by (simp add: percent_def)
  next
    case False
    with x hex_digit_plain [OF byte_halves(1), of x] hex_digit_plain [OF byte_halves(2), of x]
    show ?thesis by (auto simp: percent_def)
  qed
qed

lemma url_decode_esc:
  assumes "escapes esc" and "no_nul s" and "length s < cap"
  shows "url_decode (esc s) cap = (AGENT_OK, s)"
  using assms url_decode_percent [of "[]" s cap] by (simp add: escapes_def url_decode_def)

lemma esc_plain:
  assumes "escapes esc" and "no_nul s"
  shows "CHR ''&'' \<notin> set (esc s)" and "CHR ''='' \<notin> set (esc s)" and "CHR '' '' \<notin> set (esc s)"
    and "no_nul (esc s)"
  using assms percent_plain [of _ s] unfolding no_nul_def by (auto simp: escapes_def no_nul_def)

lemma takeWhile_until: "c \<notin> set xs \<Longrightarrow> takeWhile (\<lambda>x. x \<noteq> c) (xs @ ys) = xs @ takeWhile (\<lambda>x. x \<noteq> c) ys"
  by (induction xs) auto

text \<open>Reading a query string parameter by parameter.\<close>

lemma query_value_part:
  assumes "CHR ''&'' \<notin> set key" and "CHR ''='' \<notin> set key" and "CHR ''&'' \<notin> set v"
    and "rest = [] \<or> (\<exists>more. rest = CHR ''&'' # more)"
  shows "query_value (key @ CHR ''='' # v @ rest) wanted cap =
     (if key = wanted then url_decode v cap
      else if rest = [] then (AGENT_ERR_IO, []) else query_value (tl rest) wanted cap)"
proof -
  have "takeWhile (\<lambda>c. c \<noteq> CHR ''&'') rest = []" using assms(4) by auto
  moreover have "CHR ''&'' \<notin> set (key @ CHR ''='' # v)" using assms(1,3) by simp
  ultimately have part: "takeWhile (\<lambda>c. c \<noteq> CHR ''&'') (key @ CHR ''='' # v @ rest) = key @ CHR ''='' # v"
    using takeWhile_until [of "CHR ''&''" "key @ CHR ''='' # v" rest] by simp
  have key: "takeWhile (\<lambda>c. c \<noteq> CHR ''='') (key @ CHR ''='' # v) = key"
    using takeWhile_until [OF assms(2), of "CHR ''='' # v"] by simp
  have "query_value (key @ CHR ''='' # v @ rest) wanted cap =
      (if key = wanted then url_decode v cap
       else if rest = [] then (AGENT_ERR_IO, [])
       else query_value (drop (length (key @ CHR ''='' # v) + 1) (key @ CHR ''='' # v @ rest)) wanted cap)"
    by (subst query_value.simps, simp only: Let_def part key append_is_Nil_conv list.distinct simp_thms if_False)
      (intro if_cong refl; simp)
  then show ?thesis using assms(4) by auto
qed

fun params :: "(string \<Rightarrow> string) \<Rightarrow> (string \<times> string) list \<Rightarrow> string" where
  "params esc [] = []"
| "params esc ((k, v) # kvs) = k @ CHR ''='' # esc v @ (if kvs = [] then [] else CHR ''&'' # params esc kvs)"

definition plain_key :: "string \<Rightarrow> bool" where
  "plain_key k \<longleftrightarrow> CHR ''&'' \<notin> set k \<and> CHR ''='' \<notin> set k"

lemma query_params:
  assumes "escapes esc" and "distinct (map fst kvs)" and "\<forall>(k, v)\<in>set kvs. plain_key k \<and> no_nul v"
    and "(wanted, v) \<in> set kvs" and "length v < cap"
  shows "query_value (params esc kvs) wanted cap = (AGENT_OK, v)"
  using assms(2-4)
proof (induction kvs)
  case (Cons kv kvs)
  obtain k w where kv: "kv = (k, w)" by (cases kv)
  from Cons.prems kv have nn: "plain_key k" "no_nul w" by auto
  have step: "query_value (params esc (kv # kvs)) wanted cap =
      (if k = wanted then url_decode (esc w) cap
       else if kvs = [] then (AGENT_ERR_IO, []) else query_value (params esc kvs) wanted cap)"
    using query_value_part [of k "esc w" "if kvs = [] then [] else CHR ''&'' # params esc kvs" wanted cap]
      nn esc_plain [OF assms(1) nn(2)] by (simp add: kv plain_key_def)
  show ?case
  proof (cases "k = wanted")
    case True
    with Cons.prems kv have "w = v" by (force simp: image_iff)
    with True step nn url_decode_esc [OF assms(1), of v cap] assms(5) show ?thesis by simp
  next
    case False
    with Cons kv step show ?thesis by auto
  qed
qed simp

lemma query_absent:
  assumes "escapes esc" and "\<forall>(k, v)\<in>set kvs. plain_key k \<and> no_nul v \<and> k \<noteq> wanted"
  shows "query_value (params esc kvs) wanted cap = (AGENT_ERR_IO, [])"
  using assms(2)
proof (induction kvs)
  case (Cons kv kvs)
  obtain k w where kv: "kv = (k, w)" by (cases kv)
  from Cons.prems kv have "plain_key k" "no_nul w" "k \<noteq> wanted" by auto
  then show ?case
    using query_value_part [of k "esc w" "if kvs = [] then [] else CHR ''&'' # params esc kvs" wanted cap]
      esc_plain [OF assms(1), of w] Cons by (simp add: kv plain_key_def)
qed (simp add: query_value.simps)

lemma encode_some:
  assumes "base64url_encode data cap = Some s"
  shows "no_nul s" and "length s < cap" and "length s = (length data * 8 + 5) div 6"
    and "length data \<le> n \<Longrightarrow> base64url_decode s n = data"
proof -
  from assms have s: "s = encode_bytes data 0 0" and cap: "(length data * 8 + 5) div 6 < cap"
    by (auto simp: base64url_encode_def Let_def split: if_splits)
  show nn: "no_nul s"
    using encode_unreserved [of _ data 0 0] unreserved_not_nul by (auto simp: s no_nul_def)
  show len: "length s = (length data * 8 + 5) div 6"
    using encode_length [of 0 data 0] by (simp add: s)
  with cap show "length s < cap" by simp
  assume "length data \<le> n"
  with nn show "base64url_decode s n = data"
    by (simp add: base64url_decode_def c_str_id s decode_encode)
qed

text \<open>What \<open>base64url_encode\<close> writes fits the buffer with its terminator, is safe in a URL, and
  \<open>base64url_decode\<close> reads the same bytes back; the encoder refuses exactly when the buffer
  is too small.\<close>

theorem base64url_roundtrip:
  assumes "(length data * 8 + 5) div 6 < cap" and "length data \<le> n"
  shows "\<exists>s. base64url_encode data cap = Some s \<and> length s < cap \<and> (\<forall>c. c \<in> set s \<longrightarrow> unreserved c) \<and>
     base64url_decode s n = data"
proof -
  from assms(1) have e: "base64url_encode data cap = Some (encode_bytes data 0 0)"
    by (simp add: base64url_encode_def)
  show ?thesis
    using encode_some [OF e] encode_unreserved [of _ data 0 0] assms(2) e by auto
qed

theorem base64url_roundtrip_witness:
  "\<exists>s. base64url_encode [251, 255, 0, 7] 8 = Some s \<and> length s < 8 \<and> (\<forall>c. c \<in> set s \<longrightarrow> unreserved c) \<and>
     base64url_decode s 4 = [251, 255, 0, 7]"
  using base64url_roundtrip [of "[251, 255, 0, 7]" 8 4] by simp

lemma login_url_params:
  assumes "escapes esc" and "make_pkce (Some data) sha 128 128 128 = Some (verifier, challenge, state)"
    and "no_nul redirect" and "length redirect < 256" and "length (sha verifier) \<le> 32"
  shows "\<exists>q. build_authorize_url esc redirect verifier challenge state = OAUTH_ISSUER @ ''/oauth/authorize?'' @ q \<and>
     query_value q ''redirect_uri'' 256 = (AGENT_OK, redirect) \<and>
     query_value q ''code_challenge'' 256 = (AGENT_OK, challenge) \<and>
     base64url_decode challenge 32 = sha verifier \<and>
     query_value q ''state'' 256 = (AGENT_OK, verifier)"
proof -
  from assms(2) have enc: "base64url_encode data 128 = Some verifier" "state = verifier"
    "base64url_encode (sha verifier) 128 = Some challenge"
    by (auto simp: make_pkce_def split: option.splits if_splits)
  let ?kvs = "authorize_params @ [(''redirect_uri'', redirect), (''code_challenge'', challenge), (''state'', state)]"
  have dist: "distinct (map fst ?kvs)" by (simp add: authorize_params_def)
  have plain: "\<forall>(k, v)\<in>set ?kvs. plain_key k \<and> no_nul v"
    using assms(3) encode_some(1) [OF enc(1)] encode_some(1) [OF enc(3)] enc(2)
    by (simp add: authorize_params_def plain_key_def no_nul_def OAUTH_CLIENT_ID_def)
  have url: "build_authorize_url esc redirect verifier challenge state = OAUTH_ISSUER @ ''/oauth/authorize?'' @ params esc ?kvs"
    by (simp add: build_authorize_url_def authorize_params_def append_query_def)
  show ?thesis
    using query_params [OF assms(1) dist plain, of "''redirect_uri''" redirect 256]
      query_params [OF assms(1) dist plain, of "''code_challenge''" challenge 256]
      query_params [OF assms(1) dist plain, of "''state''" verifier 256]
      encode_some(2) [OF enc(1)] encode_some(2) [OF enc(3)] encode_some(4) [OF enc(3)] assms(4,5) enc(2) url
    by (auto simp: authorize_params_def)
qed

text \<open>The authorization URL carries the redirect, the challenge and the state as they are, and the
  challenge is the hash of the verifier.  The state is the verifier itself: both are made of the same
  random bytes, so the secret of PKCE travels in the URL.\<close>

theorem login_request_params:
  assumes "escapes esc" and "make_pkce (Some data) sha 128 128 128 = Some (verifier, challenge, state)"
    and "no_nul redirect" and "length redirect < 256" and "length (sha verifier) \<le> 32"
  shows "\<exists>q. build_authorize_url esc redirect verifier challenge state = OAUTH_ISSUER @ ''/oauth/authorize?'' @ q \<and>
     query_value q ''redirect_uri'' 256 = (AGENT_OK, redirect) \<and>
     query_value q ''code_challenge'' 256 = (AGENT_OK, challenge) \<and>
     base64url_decode challenge 32 = sha verifier \<and>
     query_value q ''state'' 256 = (AGENT_OK, verifier)"
  using assms by (rule login_url_params)

lemma percent_escapes: "escapes (\<lambda>s. concat (map percent s))"
  by (simp add: escapes_def)

theorem login_request_params_witness:
  "\<exists>q. build_authorize_url (\<lambda>s. concat (map percent s)) ''http://localhost:1455/auth/callback'' ''AQID'' ''Bw'' ''AQID'' =
       OAUTH_ISSUER @ ''/oauth/authorize?'' @ q \<and>
     query_value q ''redirect_uri'' 256 = (AGENT_OK, ''http://localhost:1455/auth/callback'') \<and>
     query_value q ''code_challenge'' 256 = (AGENT_OK, ''Bw'') \<and>
     base64url_decode ''Bw'' 32 = [7] \<and>
     query_value q ''state'' 256 = (AGENT_OK, ''AQID'')"
proof -
  have "make_pkce (Some [1, 2, 3]) (\<lambda>_. [7]) 128 128 128 = Some (''AQID'', ''Bw'', ''AQID'')"
    by code_simp
  from login_request_params [OF percent_escapes this, of "''http://localhost:1455/auth/callback''"]
  show ?thesis by (simp add: no_nul_def)
qed

text \<open>C21: a login goes on only with a redirect that asks for the callback path, carries the state that
  was sent out, reports no error and has a code; that code is the one the login continues with.\<close>

theorem callback_checked:
  assumes "wait_for_callback poll accepted recvs expected_state cap = (AGENT_OK, code, page)"
  shows "\<exists>request query. read_http_request recvs [] 16384 = (AGENT_OK, request) \<and>
     callback_query request = Some query \<and>
     c_str (snd (query_value query ''state'' 256)) = expected_state \<and> expected_state \<noteq> [] \<and>
     c_str (snd (query_value query ''error'' 256)) = [] \<and>
     query_value query ''code'' cap = (AGENT_OK, snd (query_value query ''code'' cap)) \<and>
     code = c_str (snd (query_value query ''code'' cap)) \<and> code \<noteq> [] \<and> page = Some True"
proof -
  obtain rc request where rd: "read_http_request recvs [] 16384 = (rc, request)" by fastforce
  with assms have ok: "rc = AGENT_OK" and chk: "check_callback request expected_state cap = (AGENT_OK, code)"
    and page: "page = Some True"
    by (auto simp: wait_for_callback_def split: if_splits prod.splits)
  obtain query where query: "callback_query request = Some query"
    using chk by (cases "callback_query request") (auto simp: check_callback_def)
  obtain rc2 raw where code: "query_value query ''code'' cap = (rc2, raw)" by fastforce
  show ?thesis
    using chk by (intro exI [of _ request] exI [of _ query])
      (auto simp: check_callback_def query code rd ok page Let_def split: if_splits)
qed

text \<open>The request of a browser that was redirected with a code and a state.\<close>

definition redirect_request :: "(string \<Rightarrow> string) \<Rightarrow> string \<Rightarrow> string \<Rightarrow> string" where
  "redirect_request esc code state =
     ''GET '' @ OAUTH_CALLBACK_PATH @ ''?'' @ params esc [(''code'', code), (''state'', state)] @
     '' HTTP/1.1'' @ [CHR 0x0D, CHR 0x0A, CHR 0x0D, CHR 0x0A]"

lemma strstr_suffix: "strstr (pre @ needle) needle \<noteq> None"
proof
  assume "strstr (pre @ needle) needle = None"
  from strstr_none [OF this, of "length pre"] show False by simp
qed

lemma redirect_accepted:
  assumes "escapes esc" and "no_nul code" and "code \<noteq> []" and "length code < cap"
    and "no_nul state" and "state \<noteq> []" and "length state < 256"
    and "length (redirect_request esc code state) < 16384" and "0 < poll"
  shows "wait_for_callback poll True [redirect_request esc code state] state cap = (AGENT_OK, code, Some True)"
proof -
  let ?kvs = "[(''code'', code), (''state'', state)]" and ?crlf = "[CHR 0x0D, CHR 0x0A, CHR 0x0D, CHR 0x0A]"
  define request where "request = redirect_request esc code state"
  have plain: "\<forall>(k, v)\<in>set ?kvs. plain_key k \<and> no_nul v" using assms by (simp add: plain_key_def)
  have nn: "no_nul (esc code)" "no_nul (esc state)"
    using assms by (simp_all add: esc_plain(4))
  have cs: "c_str request = request"
    using nn by (intro c_str_id) (simp add: request_def redirect_request_def no_nul_def OAUTH_CALLBACK_PATH_def)
  have crlf: "strstr request ?crlf \<noteq> None"
    using strstr_suffix [of "''GET '' @ OAUTH_CALLBACK_PATH @ ''?'' @ params esc ?kvs @ '' HTTP/1.1''" ?crlf]
    by (simp add: request_def redirect_request_def)
  have sp: "CHR '' '' \<notin> set (OAUTH_CALLBACK_PATH @ ''?'' @ params esc ?kvs)"
    using esc_plain(3) [OF assms(1)] assms by (simp add: OAUTH_CALLBACK_PATH_def)
  have drop4: "drop 4 request = (OAUTH_CALLBACK_PATH @ ''?'' @ params esc ?kvs) @ '' HTTP/1.1'' @ ?crlf"
    by (simp add: request_def redirect_request_def)
  have "take 4 request = ''GET ''" by (simp add: request_def redirect_request_def)
  then have "strstr request ''GET '' = Some 0" by (subst strstr.simps) (simp add: eval_nat_numeral)
  then have cq: "callback_query request = Some (params esc ?kvs)"
    unfolding callback_query_def cs
    by (simp only: option.case Let_def add_0 drop4 takeWhile_until [OF sp]) (simp add: OAUTH_CALLBACK_PATH_def)
  have code: "query_value (params esc ?kvs) ''code'' cap = (AGENT_OK, code)"
    by (rule query_params [OF assms(1) _ plain]) (use assms in auto)
  have state: "query_value (params esc ?kvs) ''state'' 256 = (AGENT_OK, state)"
    by (rule query_params [OF assms(1) _ plain]) (use assms in auto)
  have error: "query_value (params esc ?kvs) ''error'' 256 = (AGENT_ERR_IO, [])"
    by (rule query_absent [OF assms(1)]) (use plain in auto)
  have chk: "check_callback request state cap = (AGENT_OK, code)"
    unfolding check_callback_def cq option.case code state error using assms
    by (simp add: c_str_id) (simp add: c_str_def)
  have "take 16383 request = request" using assms(8) by (simp add: request_def)
  moreover have "request \<noteq> []" by (simp add: request_def redirect_request_def)
  ultimately have "read_http_request [request] [] 16384 = (AGENT_OK, request)"
    using crlf cs by (simp add: Let_def)
  with chk assms(9) show ?thesis by (simp add: wait_for_callback_def flip: request_def)
qed

text \<open>The redirect of a successful login is accepted, and the login continues with its code.\<close>

theorem callback_accepted:
  assumes "escapes esc" and "no_nul code" and "code \<noteq> []" and "length code < cap"
    and "no_nul state" and "state \<noteq> []" and "length state < 256"
    and "length (redirect_request esc code state) < 16384" and "0 < poll"
  shows "wait_for_callback poll True [redirect_request esc code state] state cap = (AGENT_OK, code, Some True)"
  using assms by (rule redirect_accepted)

theorem callback_accepted_witness:
  "wait_for_callback 1 True [redirect_request (\<lambda>s. concat (map percent s)) ''a+b/c'' ''AQID''] ''AQID'' 8192 =
     (AGENT_OK, ''a+b/c'', Some True)"
  by (rule callback_accepted [OF percent_escapes])
    (simp_all add: no_nul_def redirect_request_def percent_def hex_digit_def unreserved_def base64url_alphabet_def OAUTH_CALLBACK_PATH_def)

theorem callback_checked_witness:
  "\<exists>request query. read_http_request [redirect_request (\<lambda>s. concat (map percent s)) ''a+b/c'' ''AQID''] [] 16384 = (AGENT_OK, request) \<and>
     callback_query request = Some query \<and>
     c_str (snd (query_value query ''state'' 256)) = ''AQID'' \<and> ''AQID'' \<noteq> [] \<and>
     c_str (snd (query_value query ''error'' 256)) = [] \<and>
     query_value query ''code'' 8192 = (AGENT_OK, snd (query_value query ''code'' 8192)) \<and>
     ''a+b/c'' = c_str (snd (query_value query ''code'' 8192)) \<and> ''a+b/c'' \<noteq> [] \<and> Some True = Some True"
  by (rule callback_checked [OF redirect_accepted [OF percent_escapes, where poll = 1]])
    (simp_all add: no_nul_def redirect_request_def percent_def hex_digit_def unreserved_def base64url_alphabet_def OAUTH_CALLBACK_PATH_def)

end
