(* ===== verification/Oauth_Store.thy ===== *)
theory Oauth_Store
  imports Oauth_Codec Json
begin

text \<open>
  The credential file of \<open>src/src/auth/oauth.c\<close>, \<open>~/.config/cagent/auth.json\<close>: one member per
  provider, an OAuth token or an API key; older versions kept one token at the root, or in
  \<open>oauth.json\<close>.  A file system is the contents of its files; what the operating system answers
  during one operation is the record \<open>auth_io\<close>.  The JSON parser and printer are \<open>read\<close> and
  \<open>render\<close>.  Paths and provider names are present; the diagnostic text of \<open>oauth_last_error\<close>
  is not modelled; allocations succeed.
\<close>

section \<open>Files\<close>

type_synonym file_store = "string \<Rightarrow> string option"

record auth_io =
  au_open :: "string \<Rightarrow> bool"
  au_read :: bool
  au_parent :: bool
  au_pid :: nat
  au_create :: bool
  au_write :: bool
  au_newline :: bool
  au_sync :: bool
  au_close :: bool
  au_rename :: bool
  au_unlink :: bool

definition OAUTH_MAX_RESPONSE :: nat where
  "OAUTH_MAX_RESPONSE = 1024 * 1024"

definition AUTH_PATH_MAX :: nat where
  "AUTH_PATH_MAX = 4096"

definition read_file :: "auth_io \<Rightarrow> file_store \<Rightarrow> string \<Rightarrow> agent_error \<times> string" where
  "read_file io files path =
     (case files path of
        None \<Rightarrow> (AGENT_ERR_IO, [])
      | Some data \<Rightarrow>
          if \<not> au_open io path \<or> length data > OAUTH_MAX_RESPONSE \<or> \<not> au_read io then (AGENT_ERR_AUTH, [])
          else (AGENT_OK, data))"

text \<open>The new text is written to a temporary file that takes the place of the old one at the end.\<close>

definition write_auth_json :: "auth_io \<Rightarrow> file_store \<Rightarrow> string \<Rightarrow> string \<Rightarrow> agent_error \<times> file_store" where
  "write_auth_json io files path json =
     (let tmp = path @ ''.tmp.'' @ show_nat (au_pid io) in
      if length tmp \<ge> AUTH_PATH_MAX \<or> \<not> au_create io then (AGENT_ERR_AUTH, files)
      else if \<not> au_write io \<or> \<not> au_newline io \<or> \<not> au_sync io \<or> \<not> au_close io \<or> \<not> au_rename io
      then (AGENT_ERR_AUTH, files(tmp := None))
      else (AGENT_OK, files(tmp := None, path := Some (json @ [CHR 0x0A]))))"

definition legacy_path :: "string \<Rightarrow> string option" where
  "legacy_path path =
     (case strstr path ''/auth.json'' of
        None \<Rightarrow> None
      | Some k \<Rightarrow> if length path < AUTH_PATH_MAX then Some (take k path @ ''/oauth.json'') else None)"

definition read_auth_data :: "auth_io \<Rightarrow> file_store \<Rightarrow> string \<Rightarrow> agent_error \<times> string" where
  "read_auth_data io files path =
     (let (rc, data) = read_file io files path in
      if rc \<noteq> AGENT_OK then
        (case legacy_path path of None \<Rightarrow> (rc, data) | Some legacy \<Rightarrow> read_file io files legacy)
      else (rc, data))"

section \<open>Tokens\<close>

record oauth_token =
  to_access :: "string option"
  to_refresh :: "string option"
  to_account :: "string option"
  to_expires :: int

definition oauth_token_init :: oauth_token where
  "oauth_token_init = \<lparr>to_access = None, to_refresh = None, to_account = None, to_expires = 0\<rparr>"

definition either_str :: "json option \<Rightarrow> string \<Rightarrow> string \<Rightarrow> string option" where
  "either_str root k1 k2 = (case c_get_str root k1 of None \<Rightarrow> c_get_str root k2 | Some v \<Rightarrow> Some v)"

definition parse_expires :: "json option \<Rightarrow> int" where
  "parse_expires root =
     (let e0 = json_obj_get_int root ''expires_at'' 0;
          e = (if e0 = 0 then json_obj_get_int root ''expires'' 0 else e0) in
      if e \<ge> 100000000000 then e div 1000 else e)"

definition filled :: "string option \<Rightarrow> bool" where
  "filled s \<longleftrightarrow> s \<noteq> None \<and> s \<noteq> Some []"

definition parse_token_object :: "json option \<Rightarrow> agent_error \<times> oauth_token" where
  "parse_token_object root =
     (let access = either_str root ''access_token'' ''access'';
          refresh = either_str root ''refresh_token'' ''refresh'';
          account = either_str root ''account_id'' ''accountId'' in
      if \<not> filled access \<or> \<not> filled refresh \<or> \<not> filled account then (AGENT_ERR_AUTH, oauth_token_init)
      else (AGENT_OK, \<lparr>to_access = access, to_refresh = refresh, to_account = account,
                        to_expires = parse_expires root\<rparr>))"

definition oauth_token_expiring :: "int \<Rightarrow> oauth_token \<Rightarrow> int \<Rightarrow> bool" where
  "oauth_token_expiring now token within \<longleftrightarrow> to_expires token \<le> 0 \<or> to_expires token \<le> now + within"

section \<open>Loading\<close>

definition has_key :: "json option \<Rightarrow> string \<Rightarrow> bool" where
  "has_key root key \<longleftrightarrow> json_val_obj_get root key \<noteq> None"

definition token_entry :: "json option \<Rightarrow> string \<Rightarrow> json option" where
  "token_entry root name =
     (if json_val_is_obj root \<and> \<not> has_key root ''access_token'' \<and> \<not> has_key root ''access'' then
        (let entry = json_val_obj_get root name in
         if entry = None \<and> name = ''chatgpt'' then json_val_obj_get root ''openai-codex'' else entry)
      else root)"

definition oauth_load_provider ::
  "(string \<Rightarrow> json option) \<Rightarrow> auth_io \<Rightarrow> file_store \<Rightarrow> string \<Rightarrow> string \<Rightarrow> agent_error \<times> oauth_token" where
  "oauth_load_provider read io files path provider =
     (let (rc, data) = read_auth_data io files path in
      if rc \<noteq> AGENT_OK then (rc, oauth_token_init)
      else
        (case token_entry (json_parse read data) provider of
           None \<Rightarrow> (AGENT_ERR_AUTH, oauth_token_init)
         | Some entry \<Rightarrow> parse_token_object (Some entry)))"

definition oauth_provider_configured ::
  "(string \<Rightarrow> json option) \<Rightarrow> auth_io \<Rightarrow> file_store \<Rightarrow> string \<Rightarrow> string \<Rightarrow> bool" where
  "oauth_provider_configured read io files path provider \<longleftrightarrow>
     fst (oauth_load_provider read io files path provider) = AGENT_OK"

section \<open>Saving\<close>

text \<open>\<open>copy_auth_member\<close>: one member of the old file, added to the new root where it is kept.\<close>

definition copy_auth_member :: "string \<Rightarrow> string \<Rightarrow> json \<Rightarrow> json \<Rightarrow> agent_error \<times> json" where
  "copy_auth_member skip key v root =
     (let type = c_get_str (Some v) ''type''; api_key = either_str (Some v) ''key'' ''api_key'' in
      if \<not> json_val_is_obj (Some v) \<or> key = skip then (AGENT_OK, root)
      else if type = Some ''api_key'' then
        (if \<not> filled api_key then (AGENT_OK, root)
         else json_builder_obj_add_val_copy root key
                (Some (JObj [(''type'', JStr ''api_key''), (''key'', JStr (the api_key))])))
      else if type = Some ''oauth'' then json_builder_obj_add_val_copy root key (Some v)
      else (AGENT_OK, root))"

definition many_providers :: "json option \<Rightarrow> bool" where
  "many_providers root \<longleftrightarrow>
     json_val_is_obj root \<and> \<not> has_key root ''type'' \<and> \<not> has_key root ''access_token'' \<and> \<not> has_key root ''access''"

definition kept_entries ::
  "(string \<Rightarrow> json option) \<Rightarrow> auth_io \<Rightarrow> file_store \<Rightarrow> string \<Rightarrow> string \<Rightarrow> agent_error \<times> json" where
  "kept_entries read io files path skip =
     (let (rc, data) = read_file io files path; old = json_parse read data in
      if rc = AGENT_OK \<and> many_providers old then json_obj_foreach old (copy_auth_member skip) (JObj [])
      else (AGENT_OK, JObj []))"

definition store_entry ::
  "(string \<Rightarrow> json option) \<Rightarrow> (json \<Rightarrow> string option) \<Rightarrow> auth_io \<Rightarrow> file_store \<Rightarrow> string \<Rightarrow> string \<Rightarrow> json \<Rightarrow>
   agent_error \<times> file_store" where
  "store_entry read render io files path provider entry =
     (let (rc, root) = kept_entries read io files path provider in
      if rc \<noteq> AGENT_OK then (AGENT_ERR_JSON, files)
      else
        (let (rc2, json) = json_builder_stringify render (snd (json_builder_obj_add_val_copy root provider (Some entry))) [] in
         if rc2 \<noteq> AGENT_OK then (rc2, files) else write_auth_json io files path json))"

definition INT64_MAX :: int where
  "INT64_MAX = 2 ^ 63 - 1"

definition token_json :: "oauth_token \<Rightarrow> json" where
  "token_json token =
     JObj [(''type'', JStr ''oauth''), (''access'', JStr (the (to_access token))),
           (''refresh'', JStr (the (to_refresh token))),
           (''expires'', JInt (if to_expires token > INT64_MAX div 1000 then INT64_MAX else to_expires token * 1000)),
           (''accountId'', JStr (the (to_account token)))]"

definition save_token ::
  "(string \<Rightarrow> json option) \<Rightarrow> (json \<Rightarrow> string option) \<Rightarrow> auth_io \<Rightarrow> file_store \<Rightarrow> string \<Rightarrow> string \<Rightarrow> oauth_token \<Rightarrow>
   agent_error \<times> file_store" where
  "save_token read render io files path provider token =
     (if to_access token = None \<or> to_refresh token = None \<or> to_account token = None then (AGENT_ERR_AUTH, files)
      else if \<not> au_parent io then (AGENT_ERR_IO, files)
      else store_entry read render io files path provider (token_json token))"

definition auth_save_api_key ::
  "(string \<Rightarrow> json option) \<Rightarrow> (json \<Rightarrow> string option) \<Rightarrow> auth_io \<Rightarrow> file_store \<Rightarrow> string \<Rightarrow> string \<Rightarrow> string \<Rightarrow>
   agent_error \<times> file_store" where
  "auth_save_api_key read render io files path provider key =
     (if provider = [] \<or> key = [] then (AGENT_ERR_AUTH, files)
      else if \<not> au_parent io then (AGENT_ERR_IO, files)
      else store_entry read render io files path provider
             (JObj [(''type'', JStr ''api_key''), (''key'', JStr key)]))"

definition oauth_remove_provider ::
  "(string \<Rightarrow> json option) \<Rightarrow> (json \<Rightarrow> string option) \<Rightarrow> auth_io \<Rightarrow> file_store \<Rightarrow> string \<Rightarrow> string \<Rightarrow>
   agent_error \<times> file_store" where
  "oauth_remove_provider read render io files path provider =
     (if provider = [] then (AGENT_ERR_AUTH, files)
      else
        (let (rc, data) = read_auth_data io files path; old = json_parse read data in
         if rc \<noteq> AGENT_OK then (if rc = AGENT_ERR_IO then AGENT_OK else rc, files)
         else if \<not> many_providers old then
           (if files path = None then (AGENT_OK, files)
            else if au_unlink io then (AGENT_OK, files(path := None)) else (AGENT_ERR_IO, files))
         else
           (let (rc1, root) = json_obj_foreach old (copy_auth_member provider) (JObj []);
                (rc2, json) = json_builder_stringify render root [] in
            if rc1 \<noteq> AGENT_OK then (AGENT_ERR_OOM, files)
            else if rc2 \<noteq> AGENT_OK then (rc2, files)
            else write_auth_json io files path json)))"

definition oauth_remove ::
  "(string \<Rightarrow> json option) \<Rightarrow> (json \<Rightarrow> string option) \<Rightarrow> auth_io \<Rightarrow> file_store \<Rightarrow> string \<Rightarrow> agent_error \<times> file_store" where
  "oauth_remove read render io files path = oauth_remove_provider read render io files path ''openai-codex''"

section \<open>What is kept\<close>

text \<open>The member a save makes of a member it does not replace.\<close>

definition kept_member :: "json \<Rightarrow> json option" where
  "kept_member v =
     (let api_key = either_str (Some v) ''key'' ''api_key'' in
      if \<not> json_val_is_obj (Some v) then None
      else if c_get_str (Some v) ''type'' = Some ''api_key'' then
        (if filled api_key then Some (JObj [(''type'', JStr ''api_key''), (''key'', JStr (the api_key))]) else None)
      else if c_get_str (Some v) ''type'' = Some ''oauth'' then Some v
      else None)"

fun kept_members :: "string \<Rightarrow> (string \<times> json) list \<Rightarrow> (string \<times> json) list" where
  "kept_members skip [] = []"
| "kept_members skip ((k, v) # kvs) =
     (if k = skip then [] else case kept_member v of None \<Rightarrow> [] | Some w \<Rightarrow> [(k, w)]) @ kept_members skip kvs"

lemma copy_member:
  "copy_auth_member skip k v (JObj kvs) =
     (AGENT_OK, JObj (kvs @ (if k = skip then [] else case kept_member v of None \<Rightarrow> [] | Some w \<Rightarrow> [(k, w)])))"
  by (auto simp: copy_auth_member_def kept_member_def json_builder_obj_add_val_copy_def Let_def)

lemma copy_members:
  "foreach_members (copy_auth_member skip) kvs (JObj root) = (AGENT_OK, JObj (root @ kept_members skip kvs))"
  by (induction kvs arbitrary: root rule: kept_members.induct) (simp_all add: copy_member)

lemma kept_key: "map_of kvs k = None \<Longrightarrow> map_of (kept_members skip kvs) k = None"
  by (induction skip kvs rule: kept_members.induct) (auto split: option.splits if_splits)

lemma kept_other:
  assumes "distinct (map fst kvs)" and "name \<noteq> skip"
  shows "map_of (kept_members skip kvs) name = Option.bind (map_of kvs name) kept_member"
  using assms
proof (induction skip kvs rule: kept_members.induct)
  case (2 skip k v kvs)
  then have "map_of kvs k = None" by (simp add: map_of_eq_None_iff)
  then have "map_of (kept_members skip kvs) k = None" by (rule kept_key)
  with 2 show ?case by (auto split: option.splits)
qed simp

lemma kept_skipped: "map_of (kept_members skip kvs) skip = None"
  by (induction skip kvs rule: kept_members.induct) (auto split: option.splits)

text \<open>The members of the old file, if it has one with a member per provider.\<close>

definition old_members :: "(string \<Rightarrow> json option) \<Rightarrow> auth_io \<Rightarrow> file_store \<Rightarrow> string \<Rightarrow> (string \<times> json) list" where
  "old_members read io files path =
     (let (rc, data) = read_file io files path in
      case json_parse read data of
        Some (JObj kvs) \<Rightarrow> if rc = AGENT_OK \<and> many_providers (Some (JObj kvs)) then kvs else []
      | _ \<Rightarrow> [])"

lemma kept_entries_members:
  "kept_entries read io files path skip = (AGENT_OK, JObj (kept_members skip (old_members read io files path)))"
proof -
  obtain rc data where rd: "read_file io files path = (rc, data)" by fastforce
  have ok: "json_obj_foreach (Some (JObj kvs)) (copy_auth_member skip) (JObj []) = (AGENT_OK, JObj (kept_members skip kvs))" for kvs
    by (simp add: json_obj_foreach_def copy_members)
  show ?thesis
    by (cases "json_parse read data"; (cases "the (json_parse read data)")?)
      (auto simp: kept_entries_def old_members_def rd ok many_providers_def json_val_is_obj_def)
qed

lemma store_entry_ok:
  assumes "store_entry read render io files path provider entry = (AGENT_OK, files')" and "reads_back read render"
  shows "\<exists>data. files' path = Some data \<and>
     read data = Some (JObj (kept_members provider (old_members read io files path) @ [(provider, entry)]))"
  using assms
  by (auto simp: store_entry_def kept_entries_members json_builder_obj_add_val_copy_def json_builder_stringify_def
      write_auth_json_def reads_back_def Let_def split: option.splits if_splits)

lemma store_entry_other:
  assumes "store_entry read render io files path provider entry = (rc, files')" and "q \<noteq> path"
    and "q \<noteq> path @ ''.tmp.'' @ show_nat (au_pid io)"
  shows "files' q = files q"
  using assms
  by (auto simp: store_entry_def kept_entries_members json_builder_stringify_def write_auth_json_def Let_def
      split: option.splits if_splits)

section \<open>Saving and loading\<close>

text \<open>The file can be read back: it is not too large, and the system lets us.\<close>

definition readable :: "auth_io \<Rightarrow> file_store \<Rightarrow> string \<Rightarrow> bool" where
  "readable io files path \<longleftrightarrow> au_open io path \<and> au_read io \<and> (\<forall>d. files path = Some d \<longrightarrow> length d \<le> OAUTH_MAX_RESPONSE)"

lemma read_auth_data_ok:
  assumes "files path = Some data" and "readable io files path"
  shows "read_auth_data io files path = (AGENT_OK, data)"
  using assms by (simp add: read_auth_data_def read_file_def readable_def)

text \<open>A token as the program makes them: its strings are C strings, and an expiry of at least \<open>10 ^ 8\<close>
  seconds (1973) or none.\<close>

definition token_ok :: "oauth_token \<Rightarrow> bool" where
  "token_ok t \<longleftrightarrow>
     (\<forall>s \<in> {to_access t, to_refresh t, to_account t}. filled s \<and> no_nul (the s)) \<and>
     (to_expires t = 0 \<or> 100000000 \<le> to_expires t \<and> to_expires t \<le> INT64_MAX div 1000)"

lemma parse_token_json:
  assumes "token_ok t"
  shows "parse_token_object (Some (token_json t)) = (AGENT_OK, t)"
proof -
  from assms obtain a r c where t: "to_access t = Some a" "to_refresh t = Some r" "to_account t = Some c"
    and ne: "a \<noteq> []" "r \<noteq> []" "c \<noteq> []" and nn: "no_nul a" "no_nul r" "no_nul c"
    by (auto simp: token_ok_def filled_def)
  have strs: "either_str (Some (token_json t)) ''access_token'' ''access'' = Some a"
    "either_str (Some (token_json t)) ''refresh_token'' ''refresh'' = Some r"
    "either_str (Some (token_json t)) ''account_id'' ''accountId'' = Some c"
    by (simp_all add: either_str_def c_get_str_def json_simps token_json_def t c_str_id nn)
  have e: "parse_expires (Some (token_json t)) = to_expires t"
    using assms int64_wrap_id [of "to_expires t * 1000"]
    by (auto simp: parse_expires_def json_simps token_json_def token_ok_def INT64_MAX_def Let_def int64_wrap_id)
  show ?thesis
    by (cases t) (use t ne e strs in \<open>simp add: parse_token_object_def filled_def\<close>)
qed

definition free_name :: "string \<Rightarrow> bool" where
  "free_name name \<longleftrightarrow> name \<notin> {''access'', ''access_token''}"

lemma old_members_free:
  "map_of (old_members read io files path) ''access'' = None" 
  "map_of (old_members read io files path) ''access_token'' = None"
  by (auto simp: old_members_def many_providers_def has_key_def json_val_obj_get_def Let_def split: option.splits json.splits prod.splits)

lemma stored_entry:
  assumes "store_entry read render io files path provider entry = (AGENT_OK, files')" and "reads_back read render"
    and "readable io' files' path" and "free_name provider"
  shows "oauth_load_provider read io' files' path provider = parse_token_object (Some entry)"
proof -
  let ?root = "JObj (kept_members provider (old_members read io files path) @ [(provider, entry)])"
  from store_entry_ok [OF assms(1,2)] obtain data where data: "files' path = Some data" "read data = Some ?root"
    by blast
  have free: "map_of (kept_members provider (old_members read io files path)) k = None" if "k \<in> {''access'', ''access_token''}" for k
    using that by (auto intro!: kept_key simp: old_members_free)
  have "token_entry (Some ?root) provider = Some entry"
    using assms(4) free kept_skipped [of provider]
    by (auto simp: token_entry_def json_val_is_obj_def has_key_def json_val_obj_get_def map_add_def free_name_def Let_def)
  then show ?thesis
    by (simp add: oauth_load_provider_def read_auth_data_ok [OF data(1) assms(3)] json_parse_def data)
qed

text \<open>C23: a token that was saved is the token that is loaded, expiry included.\<close>

theorem oauth_save_load:
  assumes "save_token read render io files path provider token = (AGENT_OK, files')"
    and "reads_back read render" and "token_ok token" and "free_name provider" and "readable io' files' path"
  shows "oauth_load_provider read io' files' path provider = (AGENT_OK, token)"
  using assms stored_entry [OF _ assms(2,5,4)] parse_token_json [OF assms(3)]
  by (auto simp: save_token_def split: if_splits)

text \<open>The file before a save: a readable document with one member per provider.\<close>

definition auth_file :: "(string \<Rightarrow> json option) \<Rightarrow> auth_io \<Rightarrow> file_store \<Rightarrow> string \<Rightarrow> (string \<times> json) list \<Rightarrow> bool" where
  "auth_file read io files path kvs \<longleftrightarrow>
     (\<exists>data. files path = Some data \<and> readable io files path \<and> read data = Some (JObj kvs)) \<and>
     many_providers (Some (JObj kvs)) \<and> distinct (map fst kvs)"

lemma auth_file_members: "auth_file read io files path kvs \<Longrightarrow> old_members read io files path = kvs"
  by (auto simp: auth_file_def readable_def old_members_def read_file_def json_parse_def)

lemma store_keeps:
  assumes "store_entry read render io files path provider entry = (AGENT_OK, files')" and "reads_back read render"
    and "auth_file read io files path kvs" and "name \<noteq> provider"
  shows "\<exists>data. files' path = Some data \<and>
     json_val_obj_get (read data) name = Option.bind (map_of kvs name) kept_member"
proof -
  from store_entry_ok [OF assms(1,2)] auth_file_members [OF assms(3)]
  obtain data where data: "files' path = Some data"
    "read data = Some (JObj (kept_members provider kvs @ [(provider, entry)]))" by auto
  with kept_other [of kvs name provider] assms(3,4) show ?thesis
    by (auto simp: json_val_obj_get_def auth_file_def map_add_def split: option.splits)
qed

text \<open>Saving a token leaves the OAuth tokens of the other providers as they are and keeps their API
  keys, but drops an entry that names an environment variable (\<open>api_key_env\<close>) instead of a key.\<close>

theorem auth_entries_kept:
  assumes "save_token read render io files path provider token = (AGENT_OK, files')"
    and "reads_back read render" and "auth_file read io files path kvs" and "name \<noteq> provider"
    and "map_of kvs name = Some v" and "json_val_is_obj (Some v)"
  shows "\<exists>data. files' path = Some data \<and>
     (c_get_str (Some v) ''type'' = Some ''oauth'' \<longrightarrow> json_val_obj_get (read data) name = Some v) \<and>
     (c_get_str (Some v) ''type'' = Some ''api_key'' \<and> filled (either_str (Some v) ''key'' ''api_key'') \<longrightarrow>
        json_val_obj_get (read data) name =
          Some (JObj [(''type'', JStr ''api_key''), (''key'', JStr (the (either_str (Some v) ''key'' ''api_key'')))])) \<and>
     (c_get_str (Some v) ''type'' = Some ''api_key'' \<and> \<not> filled (either_str (Some v) ''key'' ''api_key'') \<longrightarrow>
        json_val_obj_get (read data) name = None)"
proof -
  from assms(1) have "store_entry read render io files path provider (token_json token) = (AGENT_OK, files')"
    by (auto simp: save_token_def split: if_splits)
  from store_keeps [OF this assms(2-4)] assms(5,6) show ?thesis
    by (auto simp: kept_member_def Let_def)
qed

text \<open>A login stores its token under \<open>openai-codex\<close>; a provider that is configured as \<open>chatgpt\<close> and
  has an entry of its own goes on with the old token.\<close>

theorem relogin_shadowed:
  assumes "save_token read render io files path ''openai-codex'' token = (AGENT_OK, files')"
    and "reads_back read render" and "auth_file read io files path kvs" and "readable io' files' path"
    and "map_of kvs ''chatgpt'' = Some v" and "json_val_is_obj (Some v)" and "c_get_str (Some v) ''type'' = Some ''oauth''"
  shows "oauth_load_provider read io' files' path ''chatgpt'' = parse_token_object (Some v)"
proof -
  from assms(1) have st: "store_entry read render io files path ''openai-codex'' (token_json token) = (AGENT_OK, files')"
    by (auto simp: save_token_def split: if_splits)
  have keeps: "\<exists>data. files' path = Some data \<and> json_val_obj_get (read data) name = Option.bind (map_of kvs name) kept_member"
    if "name \<noteq> ''openai-codex''" for name
    by (rule store_keeps [OF st assms(2,3) that])
  have "map_of kvs ''access'' = None" "map_of kvs ''access_token'' = None"
    using assms(3) by (auto simp: auth_file_def many_providers_def has_key_def json_val_obj_get_def)
  with keeps [of "''chatgpt''"] keeps [of "''access''"] keeps [of "''access_token''"] assms(5-7)
  obtain data where data: "files' path = Some data" "json_val_obj_get (read data) ''chatgpt'' = Some v"
    "json_val_obj_get (read data) ''access'' = None" "json_val_obj_get (read data) ''access_token'' = None"
    by (auto simp: kept_member_def)
  then have "token_entry (read data) ''chatgpt'' = Some v"
    by (auto simp: token_entry_def has_key_def json_val_is_obj_def json_val_obj_get_def Let_def split: option.splits json.splits)
  then show ?thesis
    by (simp add: oauth_load_provider_def read_auth_data_ok [OF data(1) assms(4)] json_parse_def)
qed

text \<open>\<open>--logout\<close> does not touch the tokens of an older version: they are left in \<open>oauth.json\<close>, and
  the next request uses them.\<close>

theorem logout_keeps_legacy:
  assumes "files path = None" and "legacy_path path = Some legacy" and "files legacy = Some data"
    and "readable io files legacy" and "has_key (read data) ''access_token''"
    and "parse_token_object (read data) = (AGENT_OK, token)"
  shows "oauth_remove read render io files path = (AGENT_OK, files) \<and>
     oauth_load_provider read io files path name = (AGENT_OK, token)"
proof -
  have auth: "read_auth_data io files path = (AGENT_OK, data)"
    using assms(1-4) by (simp add: read_auth_data_def read_file_def readable_def)
  have not: "\<not> many_providers (read data)" using assms(5) by (simp add: many_providers_def)
  have "token_entry (read data) name = read data" using assms(5) by (simp add: token_entry_def)
  moreover from assms(5) obtain root where "read data = Some root"
    by (cases "read data") (auto simp: has_key_def json_val_obj_get_def)
  ultimately show ?thesis
    using assms(1,6) not by (simp add: oauth_remove_def oauth_remove_provider_def oauth_load_provider_def auth json_parse_def)
qed

text \<open>After a logout the provider has no token in the file, and the others keep theirs.\<close>

theorem logout_forgets:
  assumes "oauth_remove_provider read render io files path provider = (AGENT_OK, files')"
    and "reads_back read render" and "auth_file read io files path kvs" and "readable io' files' path"
    and "provider \<noteq> ''chatgpt''"
  shows "oauth_load_provider read io' files' path provider = (AGENT_ERR_AUTH, oauth_token_init) \<and>
     (\<forall>name v. name \<noteq> provider \<and> map_of kvs name = Some v \<and> json_val_is_obj (Some v) \<and>
        c_get_str (Some v) ''type'' = Some ''oauth'' \<and> name \<noteq> ''chatgpt'' \<longrightarrow>
        oauth_load_provider read io' files' path name = parse_token_object (Some v))"
proof -
  from assms(3) obtain data0 where d0: "files path = Some data0" "readable io files path" "read data0 = Some (JObj kvs)"
    and many: "many_providers (Some (JObj kvs))" and dist: "distinct (map fst kvs)" by (auto simp: auth_file_def)
  have all: "json_obj_foreach (Some (JObj kvs)) (copy_auth_member provider) (JObj []) = (AGENT_OK, JObj (kept_members provider kvs))"
    by (simp add: json_obj_foreach_def copy_members)
  from assms(1) many obtain data where data: "files' path = Some data" "read data = Some (JObj (kept_members provider kvs))"
    using assms(2)
    by (auto simp: oauth_remove_provider_def read_auth_data_ok [OF d0(1,2)] json_parse_def d0(3) all reads_back_def
        json_builder_stringify_def write_auth_json_def Let_def split: option.splits if_splits)
  have free: "map_of (kept_members provider kvs) ''access'' = None" "map_of (kept_members provider kvs) ''access_token'' = None"
    using many by (auto intro!: kept_key simp: many_providers_def has_key_def json_val_obj_get_def)
  have entry: "token_entry (read data) name = map_of (kept_members provider kvs) name" if "name \<noteq> ''chatgpt''" for name
    using free that by (simp add: token_entry_def json_val_is_obj_def has_key_def json_val_obj_get_def data(2) Let_def)
  have load: "oauth_load_provider read io' files' path name =
      (case map_of (kept_members provider kvs) name of
         None \<Rightarrow> (AGENT_ERR_AUTH, oauth_token_init) | Some e \<Rightarrow> parse_token_object (Some e))" if "name \<noteq> ''chatgpt''" for name
    by (simp add: oauth_load_provider_def read_auth_data_ok [OF data(1) assms(4)] json_parse_def entry [OF that])
  show ?thesis
    using assms(5) kept_skipped [of provider kvs] kept_other [OF dist]
    by (auto simp: load kept_member_def split: option.splits)
qed

section \<open>Examples\<close>

definition smooth_auth :: auth_io where
  "smooth_auth = \<lparr>au_open = \<lambda>_. True, au_read = True, au_parent = True, au_pid = 7, au_create = True, au_write = True,
     au_newline = True, au_sync = True, au_close = True, au_rename = True, au_unlink = True\<rparr>"

definition sample_token :: oauth_token where
  "sample_token = \<lparr>to_access = Some ''at'', to_refresh = Some ''rt'', to_account = Some ''acc'', to_expires = 1800000000\<rparr>"

definition old_token :: oauth_token where
  "old_token = \<lparr>to_access = Some ''old'', to_refresh = Some ''r0'', to_account = Some ''acc'', to_expires = 1700000000\<rparr>"

text \<open>Two documents and a library that knows them: before and after.\<close>

definition old_doc :: json where
  "old_doc = JObj [(''chatgpt'', token_json old_token),
     (''openai'', JObj [(''type'', JStr ''api_key''), (''api_key_env'', JStr ''MY_KEY'')])]"

definition new_doc :: json where
  "new_doc = JObj [(''chatgpt'', token_json old_token), (''openai-codex'', token_json sample_token)]"

definition read_docs :: "string \<Rightarrow> json option" where
  "read_docs t = (if t = ''old'' then Some old_doc else if t = ''new'' @ [CHR 0x0A] then Some new_doc
     else if t = ''rest'' @ [CHR 0x0A] then Some (JObj [(''chatgpt'', token_json old_token)])
     else if t = ''{}'' then Some (JObj [(''chatgpt_account_id'', JStr ''acc'')])
     else if t = ''token'' then Some (JObj [(''access_token'', JStr ''at''), (''refresh_token'', JStr ''rt''),
       (''id_token'', JStr ''h.e30.s''), (''expires_in'', JInt 3600)])
     else if t = ''legacy'' then Some (JObj [(''access_token'', JStr ''at''), (''refresh_token'', JStr ''rt''), (''account_id'', JStr ''acc'')])
     else None)"

definition write_docs :: "json \<Rightarrow> string option" where
  "write_docs j = (if j = new_doc then Some ''new'' else if j = JObj [(''chatgpt'', token_json old_token)] then Some ''rest'' else None)"

lemma docs_read_back: "reads_back read_docs write_docs"
  by (auto simp: reads_back_def read_docs_def write_docs_def)

lemma smooth_readable: "(\<forall>d. files path = Some d \<longrightarrow> length d \<le> OAUTH_MAX_RESPONSE) \<Longrightarrow> readable smooth_auth files path"
  by (simp add: readable_def smooth_auth_def)

definition old_entries :: "(string \<times> json) list" where
  "old_entries = (case old_doc of JObj kvs \<Rightarrow> kvs | _ \<Rightarrow> [])"

lemma old_doc_file: "auth_file read_docs smooth_auth [''/a'' \<mapsto> ''old''] ''/a'' old_entries"
  by (auto simp: auth_file_def readable_def smooth_auth_def OAUTH_MAX_RESPONSE_def read_docs_def old_entries_def old_doc_def
      many_providers_def json_val_is_obj_def has_key_def json_val_obj_get_def)

lemma old_kept: "kept_members ''openai-codex'' old_entries = [(''chatgpt'', token_json old_token)]"
  by (simp add: old_entries_def old_doc_def kept_member_def either_str_def c_get_str_def json_simps filled_def token_json_def c_str_def)

lemma smooth_write:
  "write_auth_json smooth_auth [''/a'' \<mapsto> d] ''/a'' t = (AGENT_OK, [''/a'' \<mapsto> t @ [CHR 0x0A]])"
  by (auto simp: write_auth_json_def smooth_auth_def AUTH_PATH_MAX_def show_nat.simps digit_char_def fun_eq_iff)

lemma sample_saved:
  "save_token read_docs write_docs smooth_auth [''/a'' \<mapsto> ''old''] ''/a'' ''openai-codex'' sample_token =
     (AGENT_OK, [''/a'' \<mapsto> ''new'' @ [CHR 0x0A]])"
proof -
  have "kept_entries read_docs smooth_auth [''/a'' \<mapsto> ''old''] ''/a'' ''openai-codex'' = (AGENT_OK, JObj [(''chatgpt'', token_json old_token)])"
    by (simp add: kept_entries_members auth_file_members [OF old_doc_file] old_kept)
  then have "store_entry read_docs write_docs smooth_auth [''/a'' \<mapsto> ''old''] ''/a'' ''openai-codex'' (token_json sample_token) =
      (AGENT_OK, [''/a'' \<mapsto> ''new'' @ [CHR 0x0A]])"
    by (simp add: store_entry_def json_builder_obj_add_val_copy_def json_builder_stringify_def write_docs_def smooth_write flip: new_doc_def)
  then show ?thesis by (simp add: save_token_def sample_token_def smooth_auth_def)
qed

lemma old_doc_token:
  "map_of old_entries ''chatgpt'' = Some (token_json old_token)" "json_val_is_obj (Some (token_json old_token))"
  "c_get_str (Some (token_json old_token)) ''type'' = Some ''oauth''"
  by (simp_all add: old_entries_def old_doc_def json_val_is_obj_def token_json_def c_get_str_def json_simps c_str_def)

theorem oauth_save_load_witness:
  "oauth_load_provider read_docs smooth_auth [''/a'' \<mapsto> ''new'' @ [CHR 0x0A]] ''/a'' ''openai-codex'' = (AGENT_OK, sample_token)"
  by (rule oauth_save_load [OF sample_saved docs_read_back])
    (simp_all add: token_ok_def sample_token_def filled_def no_nul_def INT64_MAX_def free_name_def smooth_readable OAUTH_MAX_RESPONSE_def)

theorem auth_entries_kept_witness:
  "\<exists>data. [''/a'' \<mapsto> ''new'' @ [CHR 0x0A]] ''/a'' = Some data \<and> json_val_obj_get (read_docs data) ''chatgpt'' = Some (token_json old_token)"
  using auth_entries_kept [OF sample_saved docs_read_back old_doc_file _ old_doc_token(1,2)] old_doc_token(3) by simp

theorem relogin_shadowed_witness:
  "oauth_load_provider read_docs smooth_auth [''/a'' \<mapsto> ''new'' @ [CHR 0x0A]] ''/a'' ''chatgpt'' = parse_token_object (Some (token_json old_token))"
  by (rule relogin_shadowed [OF sample_saved docs_read_back old_doc_file _ old_doc_token])
    (simp add: smooth_readable OAUTH_MAX_RESPONSE_def)

theorem logout_keeps_legacy_witness:
  "oauth_remove read_docs write_docs smooth_auth [''/oauth.json'' \<mapsto> ''legacy''] ''/auth.json'' = (AGENT_OK, [''/oauth.json'' \<mapsto> ''legacy'']) \<and>
   oauth_load_provider read_docs smooth_auth [''/oauth.json'' \<mapsto> ''legacy''] ''/auth.json'' ''chatgpt'' =
     (AGENT_OK, \<lparr>to_access = Some ''at'', to_refresh = Some ''rt'', to_account = Some ''acc'', to_expires = 0\<rparr>)"
  by (rule logout_keeps_legacy [where legacy = "''/oauth.json''" and data = "''legacy''"])
    (simp_all add: legacy_path_def strstr.simps AUTH_PATH_MAX_def smooth_readable OAUTH_MAX_RESPONSE_def read_docs_def has_key_def
      json_simps parse_token_object_def either_str_def c_get_str_def c_str_def filled_def parse_expires_def)

lemma old_removed:
  "oauth_remove_provider read_docs write_docs smooth_auth [''/a'' \<mapsto> ''old''] ''/a'' ''openai'' = (AGENT_OK, [''/a'' \<mapsto> ''rest'' @ [CHR 0x0A]])"
proof -
  have many: "many_providers (Some (JObj old_entries))" using old_doc_file by (simp add: auth_file_def)
  have "kept_members ''openai'' old_entries = [(''chatgpt'', token_json old_token)]"
    by (simp add: old_entries_def old_doc_def kept_member_def either_str_def c_get_str_def json_simps filled_def token_json_def c_str_def)
  moreover have "read_docs ''old'' = Some (JObj old_entries)" by (simp add: read_docs_def old_entries_def old_doc_def)
  moreover have "read_auth_data smooth_auth [''/a'' \<mapsto> ''old''] ''/a'' = (AGENT_OK, ''old'')"
    by (rule read_auth_data_ok) (simp_all add: smooth_readable OAUTH_MAX_RESPONSE_def)
  moreover have "[(''chatgpt'', token_json old_token)] \<noteq> [(''chatgpt'', token_json old_token), (''openai-codex'', token_json sample_token)]"
    by simp
  ultimately show ?thesis
    using many by (simp add: oauth_remove_provider_def json_parse_def json_obj_foreach_def copy_members json_builder_stringify_def
        write_docs_def new_doc_def smooth_write)
qed

theorem logout_forgets_witness:
  "oauth_load_provider read_docs smooth_auth [''/a'' \<mapsto> ''rest'' @ [CHR 0x0A]] ''/a'' ''openai'' = (AGENT_ERR_AUTH, oauth_token_init)"
  using logout_forgets [OF old_removed docs_read_back old_doc_file, of smooth_auth]
  by (simp add: smooth_readable OAUTH_MAX_RESPONSE_def)

end
