(* ===== verification/Oauth_Login.thy ===== *)
theory Oauth_Login
  imports Oauth_Store
begin

text \<open>
  Obtaining and renewing tokens, \<open>src/src/auth/oauth.c\<close>: the token response and its JWT, the
  refresh, and the two login flows.  An HTTP request is the parameter \<open>post\<close>: it gets the URL, the body and the
  content type, and answers with a status and a body, or with \<open>None\<close> when the transfer fails.  What
  the user's terminal shows is not modelled.
\<close>

section \<open>Token responses\<close>

definition bytes_text :: "8 word list \<Rightarrow> string" where
  "bytes_text ds = map (\<lambda>d. char_of (unat d)) ds"

text \<open>The account and the expiry that the claims name, if any.\<close>

definition parse_jwt_claims :: "(string \<Rightarrow> json option) \<Rightarrow> string \<Rightarrow> agent_error \<times> string option \<times> int option" where
  "parse_jwt_claims read jwt =
     (let tail = drop (length (takeWhile (\<lambda>c. c \<noteq> CHR ''.'') jwt) + 1) jwt;
          encoded = takeWhile (\<lambda>c. c \<noteq> CHR ''.'') tail;
          decoded = base64url_decode encoded (length encoded + 1) in
      if CHR ''.'' \<notin> set jwt \<or> CHR ''.'' \<notin> set tail \<or> encoded = [] then (AGENT_ERR_JSON, None, None)
      else if decoded = [] then (AGENT_ERR_JSON, None, None)
      else
        (case json_parse read (bytes_text decoded) of
           None \<Rightarrow> (AGENT_ERR_JSON, None, None)
         | Some root \<Rightarrow>
             (let auth = json_val_obj_get (Some root) ''https://api.openai.com/auth'';
                  account = (case c_get_str auth ''chatgpt_account_id'' of
                               None \<Rightarrow> c_get_str (Some root) ''chatgpt_account_id'' | Some a \<Rightarrow> Some a);
                  exp = json_obj_get_int (Some root) ''exp'' 0 in
              (AGENT_OK, account, if exp > 0 then Some exp else None))))"

definition claims_of :: "(string \<Rightarrow> json option) \<Rightarrow> string option \<Rightarrow> string option \<times> int option" where
  "claims_of read jwt = (case jwt of None \<Rightarrow> (None, None) | Some t \<Rightarrow> snd (parse_jwt_claims read t))"

definition parse_token_response ::
  "(string \<Rightarrow> json option) \<Rightarrow> int \<Rightarrow> string \<Rightarrow> oauth_token option \<Rightarrow> agent_error \<times> oauth_token" where
  "parse_token_response read now body old =
     (let root = json_parse read body;
          access = c_get_str root ''access_token''; refresh = c_get_str root ''refresh_token'';
          expires_in = json_obj_get_int root ''expires_in'' 0;
          (account1, exp1) = claims_of read (c_get_str root ''id_token'');
          (account2, exp2) = (if account1 = None then claims_of read access else (None, None));
          account = (if account1 = None then account2 else account1);
          exp = (case exp2 of None \<Rightarrow> exp1 | Some e \<Rightarrow> Some e);
          token = \<lparr>to_access = access,
                   to_refresh = (if refresh = None then Option.bind old to_refresh else refresh),
                   to_account = (if account = None then Option.bind old to_account else account),
                   to_expires = (case (account, exp) of (Some _, Some e) \<Rightarrow> e
                                 | _ \<Rightarrow> if expires_in > 0 then now + expires_in else 0)\<rparr> in
      if root = None \<or> \<not> filled access then (AGENT_ERR_AUTH, oauth_token_init)
      else if \<not> filled (to_refresh token) \<or> \<not> filled (to_account token) then (AGENT_ERR_AUTH, oauth_token_init)
      else (AGENT_OK, token))"

section \<open>Refreshing\<close>

type_synonym http_post = "string \<Rightarrow> string \<Rightarrow> string \<Rightarrow> (int \<times> string) option"

definition token_url :: string where
  "token_url = OAUTH_ISSUER @ ''/oauth/token''"

definition quoted :: "string \<Rightarrow> string" where
  "quoted s = [CHR 0x22] @ s @ [CHR 0x22]"

definition refresh_body :: "string \<Rightarrow> string" where
  "refresh_body refresh =
     ''{'' @ quoted ''client_id'' @ '':'' @ quoted OAUTH_CLIENT_ID @ '','' @ quoted ''grant_type'' @ '':'' @ quoted ''refresh_token'' @ '','' @
     quoted ''refresh_token'' @ '':'' @ quoted refresh @ ''}''"

text \<open>The token after the call, and the files.\<close>

definition oauth_refresh_provider ::
  "(string \<Rightarrow> json option) \<Rightarrow> (json \<Rightarrow> string option) \<Rightarrow> auth_io \<Rightarrow> http_post \<Rightarrow> int \<Rightarrow> file_store \<Rightarrow> string \<Rightarrow> string \<Rightarrow>
   oauth_token \<Rightarrow> agent_error \<times> oauth_token \<times> file_store" where
  "oauth_refresh_provider read render io post now files path provider token =
     (if \<not> filled (to_refresh token) then (AGENT_ERR_AUTH, token, files)
      else
        (case post token_url (refresh_body (the (to_refresh token))) ''application/json'' of
           None \<Rightarrow> (AGENT_ERR_AUTH, token, files)
         | Some (status, response) \<Rightarrow>
             if status < 200 \<or> status \<ge> 300 then (AGENT_ERR_AUTH, token, files)
             else
               (let (rc, fresh) = parse_token_response read now response (Some token) in
                if rc \<noteq> AGENT_OK then (rc, token, files)
                else (let (rc2, files') = save_token read render io files path provider fresh in (rc2, fresh, files')))))"

section \<open>Logging in\<close>

definition exchange_body :: "(string \<Rightarrow> string) \<Rightarrow> string \<Rightarrow> string \<Rightarrow> string \<Rightarrow> string" where
  "exchange_body esc code redirect_uri verifier =
     ''grant_type=authorization_code&code='' @ esc code @ ''&redirect_uri='' @ esc redirect_uri @
     ''&client_id='' @ OAUTH_CLIENT_ID @ ''&code_verifier='' @ esc verifier"

definition exchange_code ::
  "(string \<Rightarrow> json option) \<Rightarrow> (string \<Rightarrow> string) \<Rightarrow> http_post \<Rightarrow> int \<Rightarrow> string \<Rightarrow> string \<Rightarrow> string \<Rightarrow> agent_error \<times> oauth_token" where
  "exchange_code read esc post now code redirect_uri verifier =
     (case post token_url (exchange_body esc code redirect_uri verifier) ''application/x-www-form-urlencoded'' of
        None \<Rightarrow> (AGENT_ERR_AUTH, oauth_token_init)
      | Some (status, response) \<Rightarrow>
          if status < 200 \<or> status \<ge> 300 then (AGENT_ERR_AUTH, oauth_token_init)
          else parse_token_response read now response None)"

text \<open>
  The browser flow.  \<open>random\<close>, \<open>port\<close> (the listener), \<open>poll\<close>, \<open>accepted\<close> and \<open>recvs\<close> are
  what the system and the browser do; the browser is sent the second component of the result.
\<close>

definition browser_login ::
  "(string \<Rightarrow> json option) \<Rightarrow> (json \<Rightarrow> string option) \<Rightarrow> auth_io \<Rightarrow> http_post \<Rightarrow> int \<Rightarrow> (string \<Rightarrow> string) \<Rightarrow> (string \<Rightarrow> 8 word list) \<Rightarrow>
   8 word list option \<Rightarrow> nat option \<Rightarrow> int \<Rightarrow> bool \<Rightarrow> (string \<Rightarrow> string list) \<Rightarrow> file_store \<Rightarrow> string \<Rightarrow>
   agent_error \<times> string option \<times> file_store" where
  "browser_login read render io post now esc sha random port poll accepted recvs files path =
     (case make_pkce random sha 128 128 128 of
        None \<Rightarrow> (AGENT_ERR_AUTH, None, files)
      | Some (verifier, challenge, state) \<Rightarrow>
          (case port of
             None \<Rightarrow> (AGENT_ERR_AUTH, None, files)
           | Some p \<Rightarrow>
               (let redirect_uri = ''http://localhost:'' @ show_nat p @ OAUTH_CALLBACK_PATH;
                    url = build_authorize_url esc redirect_uri verifier challenge state;
                    (rc, code, page) = wait_for_callback poll accepted (recvs url) state 8192 in
                if rc \<noteq> AGENT_OK then (rc, Some url, files)
                else
                  (let (rc2, token) = exchange_code read esc post now code redirect_uri verifier in
                   if rc2 \<noteq> AGENT_OK then (rc2, Some url, files)
                   else (let (rc3, files') = save_token read render io files path ''openai-codex'' token in (rc3, Some url, files'))))))"

definition parse_device_response :: "(string \<Rightarrow> json option) \<Rightarrow> string \<Rightarrow> string \<Rightarrow> nat \<Rightarrow> agent_error \<times> string" where
  "parse_device_response read response key cap =
     (case json_parse read response of
        None \<Rightarrow> (AGENT_ERR_JSON, [])
      | Some root \<Rightarrow>
          (case c_get_str (Some root) key of
             None \<Rightarrow> (AGENT_ERR_IO, [])
           | Some v \<Rightarrow> if length v < cap then (AGENT_OK, v) else (AGENT_ERR_OOM, take (cap - 1) v)))"

text \<open>
  The polling loop: each element is the time its \<open>while\<close> condition reads and the answer to its
  request.  \<open>None\<close> means that the loop is still running when the list ends.
\<close>

fun device_poll ::
  "(string \<Rightarrow> json option) \<Rightarrow> int \<Rightarrow> (int \<times> (int \<times> string) option) list \<Rightarrow> (agent_error \<times> string \<times> string) option" where
  "device_poll read deadline [] = None"
| "device_poll read deadline ((t, reply) # rest) =
     (if t \<ge> deadline then Some (AGENT_OK, [], [])
      else
        (case reply of
           None \<Rightarrow> Some (AGENT_ERR_AUTH, [], [])
         | Some (status, response) \<Rightarrow>
             if 200 \<le> status \<and> status < 300 then
               (let (rc1, code) = parse_device_response read response ''authorization_code'' 8192;
                    (rc2, verifier) = parse_device_response read response ''code_verifier'' 256 in
                if rc1 = AGENT_OK \<and> rc2 = AGENT_OK then Some (AGENT_OK, code, verifier) else Some (AGENT_ERR_AUTH, [], []))
             else if status \<noteq> 403 \<and> status \<noteq> 404 then Some (AGENT_ERR_AUTH, [], [])
             else device_poll read deadline rest))"

definition OAUTH_TIMEOUT_SECONDS :: int where
  "OAUTH_TIMEOUT_SECONDS = 600"

definition device_login ::
  "(string \<Rightarrow> json option) \<Rightarrow> (json \<Rightarrow> string option) \<Rightarrow> auth_io \<Rightarrow> http_post \<Rightarrow> int \<Rightarrow> (string \<Rightarrow> string) \<Rightarrow> int \<Rightarrow>
   (int \<times> (int \<times> string) option) list \<Rightarrow> file_store \<Rightarrow> string \<Rightarrow> (agent_error \<times> file_store) option" where
  "device_login read render io post now esc start polls files path =
     (case post (OAUTH_ISSUER @ ''/api/accounts/deviceauth/usercode'')
             (''{'' @ quoted ''client_id'' @ '':'' @ quoted OAUTH_CLIENT_ID @ ''}'') ''application/json'' of
        None \<Rightarrow> Some (AGENT_ERR_AUTH, files)
      | Some (status, response) \<Rightarrow>
          if status < 200 \<or> status \<ge> 300 then Some (AGENT_ERR_AUTH, files)
          else if fst (parse_device_response read response ''device_auth_id'' 512) \<noteq> AGENT_OK \<or>
                  fst (parse_device_response read response ''user_code'' 512) \<noteq> AGENT_OK then Some (AGENT_ERR_AUTH, files)
          else
            (case device_poll read (start + OAUTH_TIMEOUT_SECONDS) polls of
               None \<Rightarrow> None
             | Some (rc, code, verifier) \<Rightarrow>
                 if rc \<noteq> AGENT_OK then Some (rc, files)
                 else if code = [] \<or> verifier = [] then Some (AGENT_ERR_AUTH, files)
                 else
                   (let (rc2, token) = exchange_code read esc post now code (OAUTH_ISSUER @ ''/deviceauth/callback'') verifier in
                    if rc2 \<noteq> AGENT_OK then Some (rc2, files)
                    else Some (save_token read render io files path ''openai-codex'' token))))"

section \<open>What they promise\<close>

lemma device_poll_late:
  assumes "base + int (length polls) > deadline" and "polls \<noteq> []" and "fst (hd polls) \<ge> base"
    and "\<And>i. Suc i < length polls \<Longrightarrow> fst (polls ! Suc i) > fst (polls ! i)"
  shows "device_poll read deadline polls \<noteq> None"
  using assms
proof (induction polls arbitrary: base)
  case (Cons p polls)
  obtain t reply where p: "p = (t, reply)" by (cases p)
  show ?case
  proof (cases "t \<ge> deadline")
    case False
    from Cons.prems(1,3) False p have ne: "polls \<noteq> []" by (cases polls) auto
    then have later: "fst (hd polls) \<ge> base + 1" using Cons.prems(3) Cons.prems(4) [of 0] p by (cases polls) auto
    have steps: "fst (polls ! Suc i) > fst (polls ! i)" if "Suc i < length polls" for i
      using Cons.prems(4) [of "Suc i"] that by simp
    have "device_poll read deadline polls \<noteq> None"
      by (rule Cons.IH [of "base + 1"]) (use Cons.prems(1) ne later steps in auto)
    then show ?thesis by (auto simp: p Let_def split: option.splits prod.splits)
  qed (simp add: p)
qed simp

text \<open>The device login ends: it polls at most once per second until its deadline, whatever the server
  answers, and 601 polls are enough.\<close>

theorem device_login_ends:
  assumes "length polls > 600" and "fst (polls ! 0) \<ge> start"
    and "\<And>i. Suc i < length polls \<Longrightarrow> fst (polls ! Suc i) > fst (polls ! i)"
  shows "\<exists>r. device_login read render io post now esc start polls files path = Some r"
proof -
  have "device_poll read (start + OAUTH_TIMEOUT_SECONDS) polls \<noteq> None"
    by (rule device_poll_late [where base = start]) (use assms in \<open>auto simp: OAUTH_TIMEOUT_SECONDS_def hd_conv_nth length_greater_0_conv [symmetric] simp del: length_greater_0_conv\<close>)
  then show ?thesis by (auto simp: device_login_def Let_def split: option.splits prod.splits)
qed

theorem device_login_ends_witness:
  "\<exists>r. device_login (\<lambda>_. Some (JObj [(''device_auth_id'', JStr ''d''), (''user_code'', JStr ''c'')])) (\<lambda>_. None) smooth_auth
     (\<lambda>_ _ _. Some (200, ''{}'')) 0 id 0 (map (\<lambda>t. (int t, Some (403, []))) [0..<601]) Map.empty ''/a'' = Some r"
  by (rule device_login_ends) simp_all

text \<open>A refresh that succeeds replaces the token in the file by the one that was returned; what the
  server leaves out of its answer stays as it was.\<close>

theorem refresh_stores_token:
  assumes "oauth_refresh_provider read render io post now files path provider token = (AGENT_OK, token', files')"
    and "reads_back read render" and "token_ok token'" and "free_name provider" and "readable io' files' path"
  shows "oauth_load_provider read io' files' path provider = (AGENT_OK, token') \<and>
     (\<exists>status response. post token_url (refresh_body (the (to_refresh token))) ''application/json'' = Some (status, response) \<and>
        200 \<le> status \<and> status < 300 \<and> to_access token' = c_get_str (read response) ''access_token'' \<and>
        (c_get_str (read response) ''refresh_token'' = None \<longrightarrow> to_refresh token' = to_refresh token))"
proof -
  from assms(1) obtain status response where post:
    "post token_url (refresh_body (the (to_refresh token))) ''application/json'' = Some (status, response)"
    "200 \<le> status" "status < 300" and parse: "parse_token_response read now response (Some token) = (AGENT_OK, token')"
    and save: "save_token read render io files path provider token' = (AGENT_OK, files')"
    by (auto simp: oauth_refresh_provider_def split: if_splits option.splits prod.splits)
  have "to_access token' = c_get_str (read response) ''access_token''"
    "c_get_str (read response) ''refresh_token'' = None \<longrightarrow> to_refresh token' = to_refresh token"
    using parse by (auto simp: parse_token_response_def json_parse_def Let_def split: if_splits prod.splits)
  moreover have "oauth_load_provider read io' files' path provider = (AGENT_OK, token')"
    using save stored_entry [OF _ assms(2,5,4)] parse_token_json [OF assms(3)]
    by (auto simp: save_token_def split: if_splits)
  ultimately show ?thesis using post by simp
qed

text \<open>A browser that follows the authorization URL and comes back with a code.\<close>

definition url_state :: "string \<Rightarrow> string" where
  "url_state url = snd (query_value (drop (length (OAUTH_ISSUER @ ''/oauth/authorize?'')) url) ''state'' 256)"

lemma login_url_state:
  assumes "escapes esc" and "make_pkce (Some data) sha 128 128 128 = Some (verifier, challenge, state)"
    and "no_nul redirect" and "length redirect < 256" and "length (sha verifier) \<le> 32"
  shows "url_state (build_authorize_url esc redirect verifier challenge state) = state"
proof -
  from login_url_params [OF assms] obtain q where
    "build_authorize_url esc redirect verifier challenge state = OAUTH_ISSUER @ ''/oauth/authorize?'' @ q"
    "query_value q ''state'' 256 = (AGENT_OK, state)"
    using assms(2) by (auto simp: make_pkce_def split: option.splits if_splits)
  then show ?thesis by (simp add: url_state_def)
qed

lemma show_ports: "show_nat 1455 = ''1455''" "show_nat 1457 = ''1457''"
  by code_simp+

text \<open>C22: the browser login works from end to end: when the browser returns to the callback with the state of
  the URL and a code, and the server gives a token for that code and the verifier, the token is stored and is the
  one later requests load.\<close>

theorem browser_login_completes:
  assumes "escapes esc" and "length data = 32" and "base64url_encode data 128 = Some verifier" and "length (sha verifier) = 32"
    and "0 < poll" and "p \<in> {1455, 1457}" and "no_nul code" and "code \<noteq> []" and "length code < 8192"
    and "\<And>url. recvs url = [redirect_request esc code (url_state url)]"
    and "length (redirect_request esc code verifier) < 16384"
    and "post token_url (exchange_body esc code (''http://localhost:'' @ show_nat p @ OAUTH_CALLBACK_PATH) verifier)
           ''application/x-www-form-urlencoded'' = Some (200, response)"
    and "parse_token_response read now response None = (AGENT_OK, token)" and "token_ok token"
    and "save_token read render io files path ''openai-codex'' token = (AGENT_OK, files')"
    and "reads_back read render" and "readable io' files' path"
  shows "\<exists>url. browser_login read render io post now esc sha (Some data) (Some p) poll True recvs files path = (AGENT_OK, Some url, files') \<and>
     oauth_load_provider read io' files' path ''openai-codex'' = (AGENT_OK, token)"
proof -
  let ?redirect = "''http://localhost:'' @ show_nat p @ OAUTH_CALLBACK_PATH"
  have port: "show_nat p \<in> {''1455'', ''1457''}"
    using assms(6) show_ports by auto
  then have redirect: "no_nul ?redirect" "length ?redirect < 256"
    by (auto simp: OAUTH_CALLBACK_PATH_def no_nul_def)
  have verifier: "no_nul verifier" "verifier \<noteq> []" "length verifier < 256"
    using encode_some [OF assms(3)] assms(2) by auto
  have ch: "base64url_encode (sha verifier) 128 = Some (encode_bytes (sha verifier) 0 0)"
    by (simp add: base64url_encode_def assms(4))
  then have "length (encode_bytes (sha verifier) 0 0) = 43" using encode_some(3) [OF ch] assms(4) by simp
  then have ne: "encode_bytes (sha verifier) 0 0 \<noteq> []" by force
  let ?ch = "encode_bytes (sha verifier) 0 0"
  have pkce: "make_pkce (Some data) sha 128 128 128 = Some (verifier, ?ch, verifier)"
    using verifier ne by (simp add: make_pkce_def assms(3) ch)
  define url where "url = build_authorize_url esc ?redirect verifier ?ch verifier"
  have "url_state url = verifier"
    unfolding url_def by (rule login_url_state [OF assms(1) pkce redirect]) (simp add: assms(4))
  then have cb: "wait_for_callback poll True (recvs url) verifier 8192 = (AGENT_OK, code, Some True)"
    using assms(10) [of url] redirect_accepted [OF assms(1,7,8,9) verifier assms(11,5)] by simp
  have ex: "exchange_code read esc post now code ?redirect verifier = (AGENT_OK, token)"
    unfolding exchange_code_def assms(12) by (simp add: assms(13))
  have "browser_login read render io post now esc sha (Some data) (Some p) poll True recvs files path = (AGENT_OK, Some url, files')"
    using cb ex assms(15) unfolding url_def by (simp add: browser_login_def pkce Let_def)
  moreover have "oauth_load_provider read io' files' path ''openai-codex'' = (AGENT_OK, token)"
    using assms(15) stored_entry [OF _ assms(16,17)] parse_token_json [OF assms(14)]
    by (auto simp: save_token_def free_name_def split: if_splits)
  ultimately show ?thesis by blast
qed

section \<open>Examples\<close>

lemma sample_claims: "parse_jwt_claims read_docs ''h.e30.s'' = (AGENT_OK, Some ''acc'', None)"
proof -
  have d: "base64url_decode ''e30'' (Suc (Suc (Suc (Suc 0)))) = [123, 125]" by code_simp
  have t: "bytes_text [123, 125] = ''{}''" by code_simp
  have r: "read_docs ''{}'' = Some (JObj [(''chatgpt_account_id'', JStr ''acc'')])" by (simp add: read_docs_def)
  show ?thesis
    by (simp add: parse_jwt_claims_def Let_def json_parse_def d t r c_get_str_def json_simps c_str_def)
qed

lemma sample_response:
  "parse_token_response read_docs 1799996400 ''token'' old = (AGENT_OK, sample_token)"
proof -
  have "read_docs ''token'' = Some (JObj [(''access_token'', JStr ''at''), (''refresh_token'', JStr ''rt''),
       (''id_token'', JStr ''h.e30.s''), (''expires_in'', JInt 3600)])" by (simp add: read_docs_def)
  then show ?thesis
    by (simp add: parse_token_response_def json_parse_def c_get_str_def json_simps c_str_def claims_of_def sample_claims
        filled_def sample_token_def int64_wrap_id)
qed

lemma sample_token_ok: "token_ok sample_token"
  by (simp add: token_ok_def sample_token_def filled_def no_nul_def INT64_MAX_def)

definition sample_post :: http_post where
  "sample_post url body ctype = Some (200, ''token'')"

lemma sample_refreshed:
  "oauth_refresh_provider read_docs write_docs smooth_auth sample_post 1799996400 [''/a'' \<mapsto> ''old''] ''/a'' ''openai-codex'' old_token =
     (AGENT_OK, sample_token, [''/a'' \<mapsto> ''new'' @ [CHR 0x0A]])"
  by (simp add: oauth_refresh_provider_def sample_post_def sample_response sample_saved old_token_def filled_def)

theorem refresh_stores_token_witness:
  "oauth_load_provider read_docs smooth_auth [''/a'' \<mapsto> ''new'' @ [CHR 0x0A]] ''/a'' ''openai-codex'' = (AGENT_OK, sample_token)"
  using refresh_stores_token [OF sample_refreshed docs_read_back sample_token_ok, of smooth_auth]
  by (simp add: free_name_def smooth_readable OAUTH_MAX_RESPONSE_def)

lemma zeros_encoded: "base64url_encode (replicate 32 0) 128 = Some (replicate 43 (CHR ''A''))"
  by code_simp

theorem browser_login_completes_witness:
  "\<exists>url. browser_login read_docs write_docs smooth_auth sample_post 1799996400 (\<lambda>s. concat (map percent s)) (\<lambda>_. replicate 32 0)
       (Some (replicate 32 0)) (Some 1455) 1 True
       (\<lambda>url. [redirect_request (\<lambda>s. concat (map percent s)) ''c0de'' (url_state url)]) [''/a'' \<mapsto> ''old''] ''/a'' =
       (AGENT_OK, Some url, [''/a'' \<mapsto> ''new'' @ [CHR 0x0A]]) \<and>
     oauth_load_provider read_docs smooth_auth [''/a'' \<mapsto> ''new'' @ [CHR 0x0A]] ''/a'' ''openai-codex'' = (AGENT_OK, sample_token)"
  by (rule browser_login_completes [OF percent_escapes _ zeros_encoded, where response = "''token''" and code = "''c0de''"])
    (simp_all add: no_nul_def sample_post_def sample_response sample_token_ok sample_saved docs_read_back smooth_readable
      OAUTH_MAX_RESPONSE_def redirect_request_def OAUTH_CALLBACK_PATH_def percent_def unreserved_def base64url_alphabet_def)

end
