(* ===== verification/Provider_Auth.thy ===== *)
theory Provider_Auth
  imports Oauth_Login
begin

text \<open>
  The credentials of a provider, \<open>src/src/model/provider.c\<close>: an API key from the configuration, the
  environment or \<open>auth.json\<close>, or an OAuth token that is loaded and renewed before every request.
  The environment is the parameter \<open>getenv\<close>; files, HTTP and the JSON library are as in
  \<open>Oauth_Store\<close> and \<open>Oauth_Login\<close>.  Allocations succeed.
\<close>

section \<open>Providers\<close>

record provider =
  pr_base_url :: string
  pr_name :: "string option"
  pr_api_key :: "string option"
  pr_key_env :: "string option"
  pr_oauth :: bool
  pr_oauth_path :: "string option"
  pr_refresh :: "string option"
  pr_account :: "string option"
  pr_expires :: int
  pr_auth_error :: "string option"

definition provider_alloc :: "string \<Rightarrow> provider" where
  "provider_alloc base_url =
     \<lparr>pr_base_url = base_url, pr_name = None, pr_api_key = None, pr_key_env = None, pr_oauth = False,
      pr_oauth_path = None, pr_refresh = None, pr_account = None, pr_expires = 0, pr_auth_error = None\<rparr>"

text \<open>A source that starts with \<open>$\<close> names an environment variable; any other is the key.\<close>

definition provider_new :: "(string \<Rightarrow> string option) \<Rightarrow> string \<Rightarrow> string option \<Rightarrow> provider" where
  "provider_new getenv base_url api_key_env =
     (let p = provider_alloc base_url in
      case api_key_env of
        None \<Rightarrow> p
      | Some src \<Rightarrow>
          if src \<noteq> [] \<and> hd src = CHR ''$'' then
            p\<lparr>pr_key_env := Some src,
              pr_api_key := (case getenv (tl src) of Some key \<Rightarrow> if key \<noteq> [] then Some key else None | None \<Rightarrow> None)\<rparr>
          else p\<lparr>pr_key_env := Some src, pr_api_key := Some src\<rparr>)"

record auth_entry =
  ae_type :: "string option"
  ae_provider :: "string option"
  ae_key_env :: "string option"
  ae_key :: "string option"

definition no_entry :: auth_entry where
  "no_entry = \<lparr>ae_type = None, ae_provider = None, ae_key_env = None, ae_key = None\<rparr>"

definition auth_file_load ::
  "(string \<Rightarrow> json option) \<Rightarrow> auth_io \<Rightarrow> file_store \<Rightarrow> string option \<Rightarrow> string option \<Rightarrow> agent_error \<times> auth_entry" where
  "auth_file_load read io files path provider_name =
     (case path of
        None \<Rightarrow> (AGENT_ERR_IO, no_entry)
      | Some p \<Rightarrow>
          (case files p of
             None \<Rightarrow> (AGENT_OK, no_entry)
           | Some data \<Rightarrow>
               if \<not> au_open io p \<or> length data > 1024 * 1024 \<or> \<not> au_read io then (AGENT_ERR_IO, no_entry)
               else
                 (let root = json_parse read data;
                      selected = (case provider_name of None \<Rightarrow> ''opencode-go'' | Some n \<Rightarrow> n);
                      found = json_val_obj_get root selected;
                      entry = (if has_key root ''type'' then root
                               else if found = None \<and> selected = ''chatgpt'' then json_val_obj_get root ''openai-codex''
                               else found) in
                  if \<not> json_val_is_obj root then (AGENT_ERR_JSON, no_entry)
                  else if \<not> json_val_is_obj entry then (AGENT_ERR_JSON, no_entry)
                  else if c_get_str entry ''type'' = None then (AGENT_ERR_JSON, no_entry)
                  else (AGENT_OK, \<lparr>ae_type = c_get_str entry ''type'', ae_provider = c_get_str entry ''provider'',
                          ae_key_env = c_get_str entry ''api_key_env'', ae_key = either_str entry ''api_key'' ''key''\<rparr>))))"

section \<open>The built-in vendors\<close>

definition mimo_names :: "string set" where
  "mimo_names = {''xiaomi'', ''xiaomi-mimo'', ''mimo''}"

definition chatgpt_names :: "string set" where
  "chatgpt_names = {''chatgpt'', ''openai-codex''}"

definition provider_builtin_base_url :: "string option \<Rightarrow> string option" where
  "provider_builtin_base_url name =
     (if name = None \<or> name = Some ''opencode-go'' then Some ''https://opencode.ai/zen/go/v1''
      else if name = Some ''openai'' then Some ''https://api.openai.com/v1''
      else if name = Some ''anthropic'' then Some ''https://api.anthropic.com/v1''
      else if the name \<in> mimo_names then Some ''https://api.xiaomimimo.com/v1''
      else if the name \<in> chatgpt_names then Some ''https://chatgpt.com/backend-api/codex''
      else None)"

definition provider_builtin_protocol :: "string option \<Rightarrow> string option" where
  "provider_builtin_protocol name =
     (if name = Some ''anthropic'' then Some ''anthropic''
      else if name \<noteq> None \<and> the name \<in> chatgpt_names then Some ''responses''
      else if provider_builtin_base_url name \<noteq> None then Some ''openai''
      else None)"

definition provider_builtin_key_env :: "string option \<Rightarrow> string option" where
  "provider_builtin_key_env name =
     (if name = Some ''openai'' then Some ''$OPENAI_API_KEY''
      else if name = Some ''anthropic'' then Some ''$ANTHROPIC_API_KEY''
      else if name \<noteq> None \<and> the name \<in> mimo_names then Some ''$MIMO_API_KEY''
      else if name = None \<or> name = Some ''opencode-go'' then Some ''$OPENCODE_GO_API_KEY''
      else None)"

section \<open>Credentials before a request\<close>

definition provider_set_auth_error :: "string \<Rightarrow> provider \<Rightarrow> agent_error \<times> provider" where
  "provider_set_auth_error msg p = (AGENT_ERR_AUTH, p\<lparr>pr_auth_error := Some msg\<rparr>)"

definition provider_set_token :: "oauth_token \<Rightarrow> provider \<Rightarrow> agent_error \<times> provider" where
  "provider_set_token t p =
     (if to_access t = None \<or> to_refresh t = None \<or> to_account t = None then (AGENT_ERR_OOM, p)
      else (AGENT_OK, p\<lparr>pr_api_key := to_access t, pr_refresh := to_refresh t, pr_account := to_account t,
              pr_expires := to_expires t, pr_auth_error := None\<rparr>))"

definition auth_name :: "provider \<Rightarrow> string" where
  "auth_name p = (case pr_name p of None \<Rightarrow> ''openai-codex'' | Some n \<Rightarrow> n)"

definition provider_prepare_auth ::
  "(string \<Rightarrow> json option) \<Rightarrow> (json \<Rightarrow> string option) \<Rightarrow> auth_io \<Rightarrow> http_post \<Rightarrow> int \<Rightarrow> provider \<times> file_store \<Rightarrow>
   agent_error \<times> provider \<times> file_store" where
  "provider_prepare_auth read render io post now s =
     (let (p, files) = s in
      if \<not> pr_oauth p then (if pr_api_key p \<noteq> None then AGENT_OK else AGENT_ERR_AUTH, p, files)
      else
        (case pr_oauth_path p of
           None \<Rightarrow> (let (rc, p') = provider_set_auth_error ''ChatGPT OAuth path is not configured'' p in (rc, p', files))
         | Some path \<Rightarrow>
             (let (rc, token) = oauth_load_provider read io files path (auth_name p) in
              if rc \<noteq> AGENT_OK then
                (let (rc', p') = provider_set_auth_error ''ChatGPT OAuth is not configured; run cagent --login'' (p\<lparr>pr_api_key := None\<rparr>)
                 in (rc', p', files))
              else if oauth_token_expiring now token 300 then
                (let (rc2, token2, files') = oauth_refresh_provider read render io post now files path (auth_name p) token in
                 if rc2 \<noteq> AGENT_OK then
                   (let (rc', p') = provider_set_auth_error ''ChatGPT OAuth refresh failed; run cagent --login again'' (p\<lparr>pr_api_key := None\<rparr>)
                    in (rc', p', files'))
                 else (let (rc', p') = provider_set_token token2 p in (rc', p', files')))
              else (let (rc', p') = provider_set_token token p in (rc', p', files)))))"

definition provider_is_chatgpt :: "provider option \<Rightarrow> bool" where
  "provider_is_chatgpt p \<longleftrightarrow>
     (case p of None \<Rightarrow> False | Some q \<Rightarrow> pr_oauth q \<and> pr_name q \<noteq> None \<and> the (pr_name q) \<in> chatgpt_names)"

definition provider_is_oauth :: "provider option \<Rightarrow> bool" where
  "provider_is_oauth p \<longleftrightarrow> (case p of None \<Rightarrow> False | Some q \<Rightarrow> pr_oauth q)"

definition provider_account_id :: "provider option \<Rightarrow> string option" where
  "provider_account_id p = Option.bind p pr_account"

definition provider_auth_error :: "provider option \<Rightarrow> string" where
  "provider_auth_error p = (case Option.bind p pr_auth_error of None \<Rightarrow> ''missing API key'' | Some e \<Rightarrow> e)"

text \<open>What a request learns of its credentials: the key, or the text of the 401 error.\<close>

definition request_auth ::
  "(string \<Rightarrow> json option) \<Rightarrow> (json \<Rightarrow> string option) \<Rightarrow> auth_io \<Rightarrow> http_post \<Rightarrow> int \<Rightarrow> provider \<times> file_store \<Rightarrow>
   (string + string) \<times> provider \<times> file_store" where
  "request_auth read render io post now s =
     (let (rc, p, files) = provider_prepare_auth read render io post now s in
      (case pr_api_key p of
         Some key \<Rightarrow> if rc = AGENT_OK then Inr key else Inl (provider_auth_error (Some p))
       | None \<Rightarrow> Inl (provider_auth_error (Some p)), p, files))"

section \<open>Choosing the credentials\<close>

definition provider_new_chatgpt ::
  "(string \<Rightarrow> json option) \<Rightarrow> (json \<Rightarrow> string option) \<Rightarrow> auth_io \<Rightarrow> http_post \<Rightarrow> int \<Rightarrow> file_store \<Rightarrow> string \<Rightarrow> string option \<Rightarrow>
   provider \<times> file_store" where
  "provider_new_chatgpt read render io post now files base_url oauth_path =
     (let p = (provider_alloc base_url)\<lparr>pr_oauth := True, pr_name := Some ''chatgpt'', pr_key_env := Some ''oauth'',
                 pr_oauth_path := oauth_path\<rparr> in
      snd (provider_prepare_auth read render io post now (p, files)))"

definition key_source :: "auth_entry \<Rightarrow> string option \<Rightarrow> string option" where
  "key_source auth legacy_key_env =
     (if ae_type auth = Some ''api_key'' then
        (case ae_key_env auth of
           Some env \<Rightarrow> if env \<noteq> [] \<and> hd env = CHR ''$'' then Some env else Some (CHR ''$'' # env)
         | None \<Rightarrow> ae_key auth)
      else legacy_key_env)"

definition provider_new_auth ::
  "(string \<Rightarrow> json option) \<Rightarrow> (json \<Rightarrow> string option) \<Rightarrow> auth_io \<Rightarrow> http_post \<Rightarrow> int \<Rightarrow> (string \<Rightarrow> string option) \<Rightarrow> file_store \<Rightarrow>
   string \<Rightarrow> string option \<Rightarrow> string option \<Rightarrow> string option \<Rightarrow> provider option \<times> file_store" where
  "provider_new_auth read render io post now getenv files base_url provider_name auth_path legacy_key_env =
     (let (rc, auth) = auth_file_load read io files auth_path provider_name in
      if rc \<noteq> AGENT_OK \<and> rc \<noteq> AGENT_ERR_IO then (None, files)
      else if ae_provider auth \<noteq> None \<and> provider_name \<noteq> None \<and> ae_provider auth \<noteq> provider_name then (None, files)
      else if ae_type auth = Some ''oauth'' \<or> ae_type auth = None \<and> provider_name = Some ''chatgpt'' then
        (let owner = (case ae_provider auth of None \<Rightarrow> provider_name | Some q \<Rightarrow> Some q) in
         if owner = None \<or> the owner \<in> chatgpt_names then
           (let (p, files') = provider_new_chatgpt read render io post now files base_url auth_path in
            (Some (case provider_name of None \<Rightarrow> p | Some n \<Rightarrow> p\<lparr>pr_name := Some n\<rparr>), files'))
         else (None, files))
      else
        (let p = provider_new getenv base_url (key_source auth legacy_key_env) in
         (Some (case provider_name of None \<Rightarrow> p | Some n \<Rightarrow> p\<lparr>pr_name := Some n\<rparr>), files)))"

section \<open>What a request can rely on\<close>

lemma loaded_filled:
  "oauth_load_provider read io files path name = (AGENT_OK, t) \<Longrightarrow> to_access t \<noteq> None \<and> to_refresh t \<noteq> None \<and> to_account t \<noteq> None"
  by (auto simp: oauth_load_provider_def parse_token_object_def filled_def Let_def split: prod.splits if_splits option.splits)

lemma response_filled:
  "parse_token_response read now body old = (AGENT_OK, t) \<Longrightarrow> to_access t \<noteq> None \<and> to_refresh t \<noteq> None \<and> to_account t \<noteq> None"
  unfolding parse_token_response_def Let_def by (auto simp: filled_def split: prod.splits if_splits)

lemma refreshed_filled:
  assumes "oauth_refresh_provider read render io post now files path name t = (AGENT_OK, t', files')"
  shows "to_access t' \<noteq> None \<and> to_refresh t' \<noteq> None \<and> to_account t' \<noteq> None"
proof -
  from assms obtain response where "parse_token_response read now response (Some t) = (AGENT_OK, t')"
    by (auto simp: oauth_refresh_provider_def split: if_splits option.splits prod.splits)
  then show ?thesis by (rule response_filled)
qed

text \<open>C11: a request of an OAuth provider is sent with a key only if that key is the access token of the file and
  has more than five minutes left, or was issued just now and saved.  When the credentials cannot be
  prepared no key is left, and the request is refused with a text that says why.\<close>

theorem oauth_key_fresh:
  assumes "pr_oauth p" and "pr_oauth_path p = Some path"
    and "request_auth read render io post now (p, files) = (auth, p', files')"
  shows "case auth of
      Inr key \<Rightarrow>
        (\<exists>t. oauth_load_provider read io files path (auth_name p) = (AGENT_OK, t) \<and>
           (to_expires t > now + 300 \<and> to_access t = Some key \<and> files' = files \<or>
            (\<exists>t'. (to_expires t \<le> 0 \<or> to_expires t \<le> now + 300) \<and> to_access t' = Some key \<and>
               oauth_refresh_provider read render io post now files path (auth_name p) t = (AGENT_OK, t', files'))))
    | Inl msg \<Rightarrow> pr_api_key p' = None \<and> pr_auth_error p' = Some msg"
proof -
  obtain rc t where load: "oauth_load_provider read io files path (auth_name p) = (rc, t)" by fastforce
  obtain rc2 t2 files2 where fresh:
    "oauth_refresh_provider read render io post now files path (auth_name p) t = (rc2, t2, files2)" by (metis prod_cases3)
  note defs = request_auth_def provider_prepare_auth_def provider_set_auth_error_def provider_set_token_def provider_auth_error_def
    oauth_token_expiring_def
  show ?thesis
  proof (cases "rc = AGENT_OK")
    case False
    with assms load show ?thesis by (auto simp: defs)
  next
    case True
    with load have "to_access t \<noteq> None \<and> to_refresh t \<noteq> None \<and> to_account t \<noteq> None" by (simp add: loaded_filled)
    moreover have "rc2 = AGENT_OK \<Longrightarrow> to_access t2 \<noteq> None \<and> to_refresh t2 \<noteq> None \<and> to_account t2 \<noteq> None"
      using fresh by (simp add: refreshed_filled)
    ultimately show ?thesis using True assms load fresh
      by (auto simp: defs split: if_splits sum.splits)
  qed
qed

text \<open>Once \<open>auth.json\<close> exists, a vendor without an entry in it cannot be used: the key in the environment,
  which the documentation says remains supported, is not looked at.\<close>

theorem env_key_shadowed:
  assumes "auth_file read io files path kvs" and "map_of kvs name = None" and "name \<noteq> ''chatgpt''"
  shows "provider_new_auth read render io post now getenv files base_url (Some name) (Some path) key_env = (None, files)"
proof -
  from assms(1) obtain data where d: "files path = Some data" "readable io files path" "read data = Some (JObj kvs)"
    and many: "many_providers (Some (JObj kvs))" by (auto simp: auth_file_def)
  have "\<not> has_key (Some (JObj kvs)) ''type''" using many by (simp add: many_providers_def)
  then have "auth_file_load read io files (Some path) (Some name) = (AGENT_ERR_JSON, no_entry)"
    using d assms(2,3) by (simp add: auth_file_load_def readable_def OAUTH_MAX_RESPONSE_def json_parse_def json_val_is_obj_def
        json_val_obj_get_def Let_def)
  then show ?thesis by (simp add: provider_new_auth_def)
qed

section \<open>Examples\<close>

definition sample_provider :: provider where
  "sample_provider = (provider_alloc ''https://chatgpt.com/backend-api/codex'')
     \<lparr>pr_oauth := True, pr_name := Some ''openai-codex'', pr_oauth_path := Some ''/a''\<rparr>"

lemma sample_loaded:
  "oauth_load_provider read_docs smooth_auth [''/a'' \<mapsto> ''new'' @ [CHR 0x0A]] ''/a'' ''openai-codex'' = (AGENT_OK, sample_token)"
  using sample_saved stored_entry [OF _ docs_read_back, of smooth_auth "[''/a'' \<mapsto> ''old'']" "''/a''" "''openai-codex''" "token_json sample_token"]
    parse_token_json [OF sample_token_ok]
  by (auto simp: save_token_def smooth_readable OAUTH_MAX_RESPONSE_def free_name_def split: if_splits)

lemma sample_auth:
  "request_auth read_docs write_docs smooth_auth sample_post 1790000000 (sample_provider, [''/a'' \<mapsto> ''new'' @ [CHR 0x0A]]) =
     (Inr ''at'', sample_provider\<lparr>pr_api_key := Some ''at'', pr_refresh := Some ''rt'', pr_account := Some ''acc'', pr_expires := 1800000000\<rparr>,
      [''/a'' \<mapsto> ''new'' @ [CHR 0x0A]])"
  using sample_loaded
  by (simp add: request_auth_def provider_prepare_auth_def sample_provider_def provider_alloc_def auth_name_def
      oauth_token_expiring_def provider_set_token_def sample_token_def)

theorem oauth_key_fresh_witness:
  "\<exists>t. oauth_load_provider read_docs smooth_auth [''/a'' \<mapsto> ''new'' @ [CHR 0x0A]] ''/a'' ''openai-codex'' = (AGENT_OK, t) \<and>
     to_expires t > 1790000000 + 300 \<and> to_access t = Some ''at''"
  using oauth_key_fresh [OF _ _ sample_auth, of "''/a''"] sample_loaded
  by (auto simp: sample_provider_def auth_name_def sample_token_def)

theorem env_key_shadowed_witness:
  "provider_new_auth read_docs write_docs smooth_auth sample_post 0 (\<lambda>_. Some ''sk-1'') [''/a'' \<mapsto> ''old''] ''https://api.anthropic.com/v1''
     (Some ''anthropic'') (Some ''/a'') (Some ''$ANTHROPIC_API_KEY'') = (None, [''/a'' \<mapsto> ''old''])"
  by (rule env_key_shadowed [OF old_doc_file]) (simp_all add: old_entries_def old_doc_def)

end
