(* ===== verification/Process.thy ===== *)
theory Process
  imports Prelude
begin

text \<open>
  Child processes, \<open>src/src/runtime/process.c\<close>.  A task is its record of flags; what the
  operating system does reaches the operations as arguments: the results of \<open>read\<close> on a pipe, of
  \<open>waitpid\<close>, and whether the timer could be armed.  \<open>pt_signals\<close> lists the signals sent to the process group
  (or, where the group refuses, to its leader).  A task has a child (\<open>pid > 0\<close>), as every
  task that \<open>process_start\<close> hands out does.
\<close>

section \<open>The environment of a child\<close>

definition env_name :: "string \<Rightarrow> string" where
  "env_name entry = takeWhile (\<lambda>c. c \<noteq> CHR ''='') entry"

definition child_env_exact :: "string list" where
  "child_env_exact = [''PATH'', ''HOME'', ''USER'', ''LOGNAME'', ''SHELL'', ''TMPDIR'', ''TZ'', ''TERM'', ''COLORTERM'', ''PWD'']"

definition child_env_allowed :: "string \<Rightarrow> bool" where
  "child_env_allowed entry \<longleftrightarrow>
     env_name entry \<in> set child_env_exact \<or> take 4 (env_name entry) = ''LANG'' \<or> take 3 (env_name entry) = ''LC_''"

definition build_child_env :: "string list \<Rightarrow> string list" where
  "build_child_env environ = filter child_env_allowed environ"

section \<open>Tasks\<close>

datatype psignal = SIGTERM | SIGKILL

datatype wait_status = Exit_Status nat | Term_Signal nat | Other_Status

record process_result =
  pr_exit_code :: int
  pr_timed_out :: bool
  pr_output_capped :: bool
  pr_out :: string

record process_task =
  pt_out_open :: bool
  pt_err_open :: bool
  pt_timer_open :: bool
  pt_child_reaped :: bool
  pt_terminating :: bool
  pt_kill_sent :: bool
  pt_result_taken :: bool
  pt_wait_status :: wait_status
  pt_error :: agent_error
  pt_output_cap :: nat
  pt_result :: process_result
  pt_signals :: "psignal list"

definition empty_result :: process_result where
  "empty_result = \<lparr>pr_exit_code = -2, pr_timed_out = False, pr_output_capped = False, pr_out = []\<rparr>"

text \<open>The task of a child that has just been forked.\<close>

definition new_task :: "nat \<Rightarrow> process_task" where
  "new_task output_cap =
     \<lparr>pt_out_open = True, pt_err_open = True, pt_timer_open = False, pt_child_reaped = False,
      pt_terminating = False, pt_kill_sent = False, pt_result_taken = False, pt_wait_status = Exit_Status 0,
      pt_error = AGENT_OK, pt_output_cap = output_cap, pt_result = empty_result, pt_signals = []\<rparr>"

definition process_group_may_be_alive :: "process_task \<Rightarrow> bool" where
  "process_group_may_be_alive t \<longleftrightarrow> \<not> pt_child_reaped t \<or> pt_out_open t \<or> pt_err_open t"

definition signal_process_group :: "psignal \<Rightarrow> process_task \<Rightarrow> process_task" where
  "signal_process_group sig t = t\<lparr>pt_signals := pt_signals t @ [sig]\<rparr>"

section \<open>Output\<close>

definition close_stream :: "bool \<Rightarrow> process_task \<Rightarrow> process_task" where
  "close_stream stdout_stream t = (if stdout_stream then t\<lparr>pt_out_open := False\<rparr> else t\<lparr>pt_err_open := False\<rparr>)"

definition stream_open :: "bool \<Rightarrow> process_task \<Rightarrow> bool" where
  "stream_open stdout_stream t = (if stdout_stream then pt_out_open t else pt_err_open t)"

text \<open>\<open>mem\<close>: the append finds memory.\<close>

definition append_capped :: "bool \<Rightarrow> string \<Rightarrow> process_task \<Rightarrow> process_task" where
  "append_capped mem data t =
     (let r = pt_result t; cap = pt_output_cap t; room = cap - length (pr_out r);
          over = (cap > 0 \<and> length data > room);
          kept = (if over then take room data else data);
          r1 = (if over then r\<lparr>pr_output_capped := True\<rparr> else r) in
      if pr_output_capped r then t
      else if kept = [] then t\<lparr>pt_result := r1\<rparr>
      else if mem then t\<lparr>pt_result := r1\<lparr>pr_out := pr_out r1 @ kept\<rparr>\<rparr>
      else t\<lparr>pt_error := AGENT_ERR_OOM, pt_result := r1\<lparr>pr_output_capped := True\<rparr>\<rparr>)"

text \<open>What \<open>read\<close> returns; after the last element it would block.\<close>

datatype read_event = Read_Data bool string | Read_End | Read_Interrupted | Read_Error

fun drain_stream :: "bool \<Rightarrow> read_event list \<Rightarrow> process_task \<Rightarrow> process_task" where
  "drain_stream which [] t = t"
| "drain_stream which (ev # evs) t =
     (if \<not> stream_open which t then t
      else
        (case ev of
           Read_Data mem data \<Rightarrow> drain_stream which evs (append_capped mem data t)
         | Read_End \<Rightarrow> close_stream which t
         | Read_Interrupted \<Rightarrow> drain_stream which evs t
         | Read_Error \<Rightarrow> close_stream which t))"

text \<open>\<open>interest\<close>: the event mask has input, hang-up or error.\<close>

definition pipe_cb :: "bool \<Rightarrow> bool \<Rightarrow> read_event list \<Rightarrow> process_task \<Rightarrow> process_task" where
  "pipe_cb which interest evs t = (if stream_open which t \<and> interest then drain_stream which evs t else t)"

section \<open>Termination\<close>

definition PROCESS_KILL_GRACE_MS :: nat where
  "PROCESS_KILL_GRACE_MS = 2000"

text \<open>\<open>armed\<close>: the timer could be set to the grace period.\<close>

definition begin_termination :: "bool \<Rightarrow> bool \<Rightarrow> process_task \<Rightarrow> process_task" where
  "begin_termination armed timed_out t =
     (if \<not> process_group_may_be_alive t \<or> pt_terminating t then t
      else
        (let t1 = t\<lparr>pt_terminating := True\<rparr>;
             t2 = (if timed_out then t1\<lparr>pt_result := (pt_result t1)\<lparr>pr_timed_out := True\<rparr>\<rparr> else t1);
             t3 = signal_process_group SIGTERM t2 in
         if armed then t3 else (signal_process_group SIGKILL t3)\<lparr>pt_kill_sent := True\<rparr>))"

definition timer_cb :: "bool \<Rightarrow> process_task \<Rightarrow> process_task" where
  "timer_cb armed t =
     (if \<not> pt_timer_open t then t
      else if \<not> pt_terminating t then begin_termination armed True t
      else if process_group_may_be_alive t \<and> \<not> pt_kill_sent t then (signal_process_group SIGKILL t)\<lparr>pt_kill_sent := True\<rparr>
      else t)"

definition process_cancel :: "bool \<Rightarrow> process_task \<Rightarrow> process_task" where
  "process_cancel armed t = begin_termination armed False t"

section \<open>Starting, polling and freeing\<close>

datatype wait_event = Child_Status wait_status | No_Child | Still_Running | Wait_Error

definition exit_code_of :: "wait_status \<Rightarrow> int" where
  "exit_code_of st = (case st of Exit_Status n \<Rightarrow> int n | Term_Signal n \<Rightarrow> 128 + int n | Other_Status \<Rightarrow> -2)"

definition reap_child :: "wait_event \<Rightarrow> process_task \<Rightarrow> process_task" where
  "reap_child w t =
     (if pt_child_reaped t then t
      else
        (case w of
           Child_Status st \<Rightarrow> t\<lparr>pt_child_reaped := True, pt_wait_status := st\<rparr>
         | No_Child \<Rightarrow> t\<lparr>pt_child_reaped := True, pt_wait_status := Exit_Status 0\<rparr>
         | Still_Running \<Rightarrow> t
         | Wait_Error \<Rightarrow> t\<lparr>pt_error := AGENT_ERR_PROCESS\<rparr>))"

text \<open>The result is \<open>Some\<close> exactly when \<open>*done\<close> is set.\<close>

definition process_poll ::
  "wait_event \<Rightarrow> read_event list \<Rightarrow> read_event list \<Rightarrow> process_task \<Rightarrow> agent_error \<times> process_result option \<times> process_task" where
  "process_poll w out_evs err_evs t =
     (if pt_result_taken t then (AGENT_ERR_PROCESS, None, t)
      else
        (let t1 = reap_child w t;
             t2 = (if pt_child_reaped t1 then drain_stream False err_evs (drain_stream True out_evs t1) else t1) in
         if \<not> pt_child_reaped t2 \<or> pt_out_open t2 \<or> pt_err_open t2 then (pt_error t2, None, t2)
         else
           (let r = (pt_result t2)\<lparr>pr_exit_code := exit_code_of (pt_wait_status t2)\<rparr> in
            (pt_error t2, Some r,
             t2\<lparr>pt_timer_open := False, pt_result := r\<lparr>pr_out := []\<rparr>, pt_result_taken := True\<rparr>))))"

text \<open>Freeing kills what may be alive, closes both pipes and the timer, and waits for the child.\<close>

definition process_task_free :: "process_task \<Rightarrow> process_task" where
  "process_task_free t =
     (let t1 = (if process_group_may_be_alive t then signal_process_group SIGKILL t else t) in
      t1\<lparr>pt_out_open := False, pt_err_open := False, pt_timer_open := False, pt_child_reaped := True\<rparr>)"

record start_outcomes =
  so_env :: bool
  so_alloc :: bool
  so_pipes :: bool
  so_fork :: bool
  so_nonblock :: bool
  so_timerfd :: bool
  so_watchers :: bool
  so_armed :: bool

text \<open>The task, and the task that a failure after the fork leaves freed.\<close>

definition process_start :: "start_outcomes \<Rightarrow> nat \<Rightarrow> agent_error \<times> process_task option \<times> process_task option" where
  "process_start so output_cap =
     (if \<not> so_env so \<or> \<not> so_alloc so then (AGENT_ERR_OOM, None, None)
      else if \<not> so_pipes so \<or> \<not> so_fork so then (AGENT_ERR_PROCESS, None, None)
      else if \<not> so_nonblock so \<or> \<not> so_timerfd so \<or> \<not> so_watchers so \<or> \<not> so_armed so
      then (AGENT_ERR_PROCESS, None, Some (process_task_free (new_task output_cap)))
      else (AGENT_OK, Some ((new_task output_cap)\<lparr>pt_timer_open := True\<rparr>), None))"

section \<open>The life of a task\<close>

text \<open>The bytes a drain takes from its pipe.\<close>

fun taken_bytes :: "bool \<Rightarrow> read_event list \<Rightarrow> string" where
  "taken_bytes is_open [] = []"
| "taken_bytes is_open (ev # evs) =
     (if \<not> is_open then []
      else (case ev of Read_Data mem data \<Rightarrow> data @ taken_bytes True evs
            | Read_Interrupted \<Rightarrow> taken_bytes True evs | _ \<Rightarrow> []))"

text \<open>The bytes a poll drains, standard output first.\<close>

definition polled_bytes :: "wait_event \<Rightarrow> read_event list \<Rightarrow> read_event list \<Rightarrow> process_task \<Rightarrow> string" where
  "polled_bytes w out_evs err_evs t =
     (if pt_result_taken t \<or> \<not> pt_child_reaped (reap_child w t) then []
      else taken_bytes (pt_out_open t) out_evs @ taken_bytes (pt_err_open t) err_evs)"

text \<open>The tasks that any interleaving of pipe events, timer events, cancels and polls reaches, with all bytes
  read so far in the order they arrived.\<close>

inductive process_reach :: "nat \<Rightarrow> process_task \<Rightarrow> string \<Rightarrow> bool" for cap where
  started: "process_start so cap = (AGENT_OK, Some t, None) \<Longrightarrow> process_reach cap t []"
| piped: "process_reach cap t seen \<Longrightarrow> \<not> pt_result_taken t \<Longrightarrow>
    process_reach cap (pipe_cb which interest evs t) (seen @ (if interest then taken_bytes (stream_open which t) evs else []))"
| timed: "process_reach cap t seen \<Longrightarrow> process_reach cap (timer_cb armed t) seen"
| cancelled: "process_reach cap t seen \<Longrightarrow> process_reach cap (process_cancel armed t) seen"
| polled: "process_reach cap t seen \<Longrightarrow> process_poll w oe ee t = (rc, res, t') \<Longrightarrow>
    process_reach cap t' (seen @ polled_bytes w oe ee t)"

text \<open>The captured output, as a function of the bytes that arrived.\<close>

definition output_ok :: "nat \<Rightarrow> process_task \<Rightarrow> string \<Rightarrow> bool" where
  "output_ok cap t seen \<longleftrightarrow>
     pt_output_cap t = cap \<and>
     (let r = pt_result t in
      (cap > 0 \<longrightarrow> length (pr_out r) \<le> cap) \<and>
      (\<not> pr_output_capped r \<longrightarrow> pr_out r = seen) \<and>
      (pr_output_capped r \<and> pt_error t = AGENT_OK \<longrightarrow> 0 < cap \<and> cap < length seen \<and> pr_out r = take cap seen))"

definition signals_ok :: "process_task \<Rightarrow> bool" where
  "signals_ok t \<longleftrightarrow>
     (pt_kill_sent t \<longrightarrow> pt_terminating t) \<and> (pr_timed_out (pt_result t) \<longrightarrow> pt_terminating t) \<and>
     pt_signals t = (if \<not> pt_terminating t then [] else if pt_kill_sent t then [SIGTERM, SIGKILL] else [SIGTERM])"

definition task_ok :: "nat \<Rightarrow> process_task \<Rightarrow> string \<Rightarrow> bool" where
  "task_ok cap t seen \<longleftrightarrow>
     signals_ok t \<and> (\<not> pt_result_taken t \<longrightarrow> output_ok cap t seen) \<and>
     (pt_result_taken t \<longrightarrow> \<not> process_group_may_be_alive t \<and> \<not> pt_timer_open t)"

lemma append_ok:
  assumes "output_ok cap t seen"
  shows "output_ok cap (append_capped mem data t) (seen @ data)"
  using assms by (auto simp: output_ok_def append_capped_def Let_def not_le split: if_splits)

lemma capped_append_frame [simp]:
  "signals_ok (append_capped mem data t) = signals_ok t" "stream_open w (append_capped mem data t) = stream_open w t"
  "pt_result_taken (append_capped mem data t) = pt_result_taken t" "pt_child_reaped (append_capped mem data t) = pt_child_reaped t"
  "pt_timer_open (append_capped mem data t) = pt_timer_open t"
  "pt_out_open (append_capped mem data t) = pt_out_open t" "pt_err_open (append_capped mem data t) = pt_err_open t"
  by (auto simp: append_capped_def signals_ok_def stream_open_def Let_def)

lemma close_frame [simp]:
  "signals_ok (close_stream w t) = signals_ok t" "output_ok cap (close_stream w t) seen = output_ok cap t seen"
  "pt_result_taken (close_stream w t) = pt_result_taken t" "pt_child_reaped (close_stream w t) = pt_child_reaped t"
  "stream_open w (close_stream w t) = False" "stream_open (\<not> w) (close_stream w t) = stream_open (\<not> w) t"
  by (simp_all add: close_stream_def signals_ok_def output_ok_def stream_open_def)

lemma drain_ok:
  assumes "output_ok cap t seen"
  shows "output_ok cap (drain_stream which evs t) (seen @ taken_bytes (stream_open which t) evs)"
  using assms
proof (induction which evs t arbitrary: seen rule: drain_stream.induct)
  case (2 which ev evs t)
  then show ?case
    by (cases ev; cases "stream_open which t") (auto dest: append_ok simp flip: append_assoc)
qed simp

lemma drain_frame [simp]:
  "signals_ok (drain_stream which evs t) = signals_ok t"
  "pt_result_taken (drain_stream which evs t) = pt_result_taken t" "pt_child_reaped (drain_stream which evs t) = pt_child_reaped t"
  "stream_open (\<not> which) (drain_stream which evs t) = stream_open (\<not> which) t"
  by (induction which evs t rule: drain_stream.induct) (auto split: read_event.splits)

lemma terminate_ok:
  assumes "task_ok cap t seen"
  shows "task_ok cap (begin_termination armed timed_out t) seen"
  using assms
  by (auto simp: task_ok_def begin_termination_def signals_ok_def signal_process_group_def output_ok_def Let_def
      process_group_may_be_alive_def)

lemma timer_ok: "task_ok cap t seen \<Longrightarrow> task_ok cap (timer_cb armed t) seen"
  using terminate_ok [of cap t seen armed True]
  by (auto simp: timer_cb_def task_ok_def signals_ok_def signal_process_group_def output_ok_def Let_def
      process_group_may_be_alive_def)

lemma stream_open_frame: "pt_out_open t = stream_open True t" "pt_err_open t = stream_open False t"
  by (simp_all add: stream_open_def)

lemma drain_other_open [simp]:
  "pt_err_open (drain_stream True evs t) = pt_err_open t" "pt_out_open (drain_stream False evs t) = pt_out_open t"
  using drain_frame(4) [of True evs t] drain_frame(4) [of False evs t] by (simp_all add: stream_open_def)

lemma reap_frame [simp]:
  "signals_ok (reap_child w t) = signals_ok t" "pt_result_taken (reap_child w t) = pt_result_taken t"
  "pt_out_open (reap_child w t) = pt_out_open t" "pt_err_open (reap_child w t) = pt_err_open t"
  by (auto simp: reap_child_def signals_ok_def split: wait_event.splits)

lemma reap_output: "output_ok cap t seen \<Longrightarrow> output_ok cap (reap_child w t) seen"
  by (auto simp: reap_child_def output_ok_def Let_def split: wait_event.splits)

lemma poll_drained:
  assumes "output_ok cap t seen" and "\<not> pt_result_taken t"
  shows "output_ok cap (if pt_child_reaped (reap_child w t) then drain_stream False ee (drain_stream True oe (reap_child w t)) else reap_child w t)
     (seen @ polled_bytes w oe ee t)"
  using drain_ok [OF drain_ok [OF reap_output [OF assms(1)], where which = True and evs = oe], where which = False and evs = ee]
    assms reap_output [OF assms(1)]
  by (simp add: polled_bytes_def stream_open_def)

lemma poll_ok:
  assumes "task_ok cap t seen" and "process_poll w oe ee t = (rc, res, t')"
  shows "task_ok cap t' (seen @ polled_bytes w oe ee t)"
proof (cases "pt_result_taken t")
  case True
  with assms show ?thesis by (auto simp: process_poll_def task_ok_def)
next
  case False
  let ?t2 = "if pt_child_reaped (reap_child w t) then drain_stream False ee (drain_stream True oe (reap_child w t)) else reap_child w t"
  from assms(1) False have sig: "signals_ok ?t2" and out: "output_ok cap ?t2 (seen @ polled_bytes w oe ee t)"
    using poll_drained [of cap t seen w ee oe] by (auto simp: task_ok_def)
  have taken: "\<not> pt_result_taken ?t2" using False by simp
  show ?thesis
    using assms(2) sig out taken False
    unfolding process_poll_def Let_def
    by (auto simp: task_ok_def process_group_may_be_alive_def signals_ok_def split: if_splits)
qed

lemma taken_closed [simp]: "taken_bytes False evs = []"
  by (cases evs) simp_all

lemma task_reach_ok: "process_reach cap t seen \<Longrightarrow> task_ok cap t seen"
proof (induction rule: process_reach.induct)
  case (started so t)
  then show ?case
    by (auto simp: process_start_def new_task_def task_ok_def signals_ok_def output_ok_def empty_result_def split: if_splits)
next
  case (piped t seen which interest evs)
  then show ?case
    using drain_ok [of cap t seen which evs]
    by (auto simp: pipe_cb_def task_ok_def simp del: drain_stream.simps taken_bytes.simps)
next
  case (timed t seen armed)
  then show ?case by (simp add: timer_ok)
next
  case (cancelled t seen armed)
  then show ?case by (simp add: process_cancel_def terminate_ok)
next
  case (polled t seen w oe ee rc res t')
  then show ?case by (simp add: poll_ok)
qed

text \<open>C24: the result of a process has its exit code and exactly the bytes both pipes delivered, in the order they
  arrived, cut at the output cap; the flag tells whether anything was cut.  It is handed out only when
  the child is reaped and both pipes are at their end.\<close>

theorem process_result_complete:
  assumes "process_reach cap t seen" and "process_poll w oe ee t = (AGENT_OK, Some r, t')"
  shows "let seen' = seen @ polled_bytes w oe ee t in
     pr_out r = (if cap = 0 then seen' else take cap seen') \<and>
     (pr_output_capped r \<longleftrightarrow> 0 < cap \<and> cap < length seen') \<and>
     pr_exit_code r = exit_code_of (pt_wait_status t') \<and> \<not> process_group_may_be_alive t'"
proof -
  let ?t2 = "if pt_child_reaped (reap_child w t) then drain_stream False ee (drain_stream True oe (reap_child w t)) else reap_child w t"
  have taken: "\<not> pt_result_taken t" using assms(2) by (auto simp: process_poll_def)
  then have out: "output_ok cap ?t2 (seen @ polled_bytes w oe ee t)"
    using poll_drained task_reach_ok [OF assms(1)] by (simp add: task_ok_def)
  show ?thesis
    using assms(2) taken out unfolding process_poll_def Let_def
    by (auto simp: output_ok_def process_group_may_be_alive_def Let_def split: if_splits)
qed

text \<open>A task is asked to stop before it is killed, each at most once, and nothing is signalled
  unless a timeout or a cancel began the termination.\<close>

theorem process_signals_ordered:
  assumes "process_reach cap t seen"
  shows "pt_signals t = (if \<not> pt_terminating t then [] else if pt_kill_sent t then [SIGTERM, SIGKILL] else [SIGTERM]) \<and>
     (pr_timed_out (pt_result t) \<longrightarrow> pt_terminating t)"
  using task_reach_ok [OF assms] by (simp add: task_ok_def signals_ok_def)

text \<open>A process that outlives its timeout is killed: the first expiry of the timer asks it to stop, the second
  kills whatever of its group still runs or holds a pipe.\<close>

theorem timeout_kills:
  assumes "process_reach cap t seen" and "pt_timer_open t" and "process_group_may_be_alive t"
  shows "pt_signals (timer_cb b (timer_cb a t)) = [SIGTERM, SIGKILL] \<and> pt_terminating (timer_cb a t) \<and>
     (\<not> pt_terminating t \<longrightarrow> pr_timed_out (pt_result (timer_cb a t)))"
proof -
  from task_reach_ok [OF assms(1)] have "signals_ok t" by (simp add: task_ok_def)
  with assms(2,3) show ?thesis
    by (auto simp: timer_cb_def begin_termination_def signals_ok_def signal_process_group_def process_group_may_be_alive_def Let_def)
qed

text \<open>Freeing a task leaves no child, no pipe and no timer behind, and kills the group if anything of it
  was left.  So does a start that fails after the fork.\<close>

theorem process_free_clean:
  "\<not> process_group_may_be_alive (process_task_free t) \<and> \<not> pt_timer_open (process_task_free t) \<and>
   (process_group_may_be_alive t \<longrightarrow> last (pt_signals (process_task_free t)) = SIGKILL) \<and>
   (\<forall>so cap rc child freed. process_start so cap = (rc, child, freed) \<longrightarrow>
      (case child of None \<Rightarrow> rc \<noteq> AGENT_OK | Some c \<Rightarrow> rc = AGENT_OK \<and> freed = None) \<and>
      (case freed of None \<Rightarrow> True | Some f \<Rightarrow> \<not> process_group_may_be_alive f \<and> last (pt_signals f) = SIGKILL))"
  by (auto simp: process_task_free_def process_group_may_be_alive_def signal_process_group_def process_start_def
      new_task_def Let_def split: if_splits)

lemma kill_frame [simp]:
  "pt_kill_sent (drain_stream which evs t) = pt_kill_sent t" "pt_signals (drain_stream which evs t) = pt_signals t"
  "pt_kill_sent (reap_child w t) = pt_kill_sent t" "pt_signals (reap_child w t) = pt_signals t"
proof -
  show "pt_kill_sent (drain_stream which evs t) = pt_kill_sent t" "pt_signals (drain_stream which evs t) = pt_signals t"
    by (induction which evs t rule: drain_stream.induct)
      (auto simp: append_capped_def close_stream_def Let_def split: read_event.splits)
qed (simp_all add: reap_child_def split: wait_event.splits)

text \<open>Killing the process group is the last thing a timeout does.  While a process that left the group
  holds a pipe, polling never ends the task, and neither the timer nor a cancel acts on it again.\<close>

theorem escaped_pipe_waits:
  assumes "process_reach cap t seen" and "pt_kill_sent t" and "pt_out_open t"
    and "process_poll w [] err_evs t = (rc, res, t')"
  shows "timer_cb armed t = t \<and> process_cancel armed t = t \<and> res = None \<and> pt_kill_sent t' \<and> pt_out_open t' \<and>
     pt_signals t' = [SIGTERM, SIGKILL]"
proof -
  from task_reach_ok [OF assms(1)] have "signals_ok t" and taken: "\<not> pt_result_taken t"
    using assms(3) by (auto simp: task_ok_def process_group_may_be_alive_def)
  then have sig: "pt_terminating t" "pt_signals t = [SIGTERM, SIGKILL]" using assms(2) by (auto simp: signals_ok_def)
  show ?thesis
    using assms(2-4) taken sig
    by (auto simp: timer_cb_def process_cancel_def begin_termination_def process_poll_def Let_def stream_open_def [of True]
        drain_frame split: if_splits)
qed

section \<open>Examples\<close>

definition good_start :: start_outcomes where
  "good_start = \<lparr>so_env = True, so_alloc = True, so_pipes = True, so_fork = True, so_nonblock = True, so_timerfd = True,
     so_watchers = True, so_armed = True\<rparr>"

definition running_task :: process_task where
  "running_task = (new_task 4)\<lparr>pt_timer_open := True\<rparr>"

lemma running_reach: "process_reach 4 running_task []"
  by (rule process_reach.started [of good_start]) (simp add: process_start_def good_start_def running_task_def)

theorem process_result_complete_witness:
  "let r = the (fst (snd (process_poll (Child_Status (Exit_Status 3)) [Read_Data True ''abc'', Read_Data True ''def'', Read_End] [Read_End] running_task))) in
     pr_out r = ''abcd'' \<and> pr_output_capped r \<and> pr_exit_code r = 3"
proof -
  let ?p = "process_poll (Child_Status (Exit_Status 3)) [Read_Data True ''abc'', Read_Data True ''def'', Read_End] [Read_End] running_task"
  obtain r t' where p: "?p = (AGENT_OK, Some r, t')" "exit_code_of (pt_wait_status t') = 3"
    by (simp add: process_poll_def running_task_def new_task_def reap_child_def append_capped_def stream_open_def close_stream_def
        empty_result_def exit_code_of_def Let_def)
  from process_result_complete [OF running_reach p(1)] p show ?thesis
    by (simp add: polled_bytes_def reap_child_def running_task_def new_task_def Let_def)
qed

theorem process_signals_ordered_witness:
  "pt_signals running_task = [] \<and> (pr_timed_out (pt_result running_task) \<longrightarrow> pt_terminating running_task)"
  using process_signals_ordered [OF running_reach] by (simp add: running_task_def new_task_def)

theorem escaped_pipe_waits_witness:
  "\<exists>t t'. pt_signals t = [SIGTERM, SIGKILL] \<and>
     process_poll (Child_Status (Term_Signal 9)) [] [Read_End] t = (AGENT_OK, None, t') \<and> timer_cb True t = t"
proof -
  let ?t = "timer_cb True (timer_cb True running_task)"
  have r: "process_reach 4 ?t []" by (intro process_reach.timed running_reach)
  have k: "pt_kill_sent ?t" "pt_out_open ?t" "pt_signals ?t = [SIGTERM, SIGKILL]"
    by (simp_all add: timer_cb_def begin_termination_def running_task_def new_task_def process_group_may_be_alive_def
        signal_process_group_def Let_def)
  obtain rc res t' where p: "process_poll (Child_Status (Term_Signal 9)) [] [Read_End] ?t = (rc, res, t')"
    by (cases "process_poll (Child_Status (Term_Signal 9)) [] [Read_End] ?t") auto
  have "rc = AGENT_OK"
    using p by (simp add: process_poll_def timer_cb_def begin_termination_def running_task_def new_task_def reap_child_def
        process_group_may_be_alive_def signal_process_group_def stream_open_def close_stream_def Let_def)
  with escaped_pipe_waits [OF r k(1,2) p] p k(3) show ?thesis by metis
qed

theorem timeout_kills_witness: "pt_signals (timer_cb True (timer_cb True running_task)) = [SIGTERM, SIGKILL]"
  using timeout_kills [OF running_reach, of True True]
  by (simp add: running_task_def new_task_def process_group_may_be_alive_def)

end
