(* ===== verification/Shell_Tools.thy ===== *)
theory Shell_Tools
  imports Process File_Tools
begin

text \<open>
  The tools that run a command: \<open>src/src/tool/bash.c\<close> and \<open>src/src/tool/grep.c\<close>.  The synchronous
  entry points take the outcome of \<open>process_run\<close> as the parameter \<open>run\<close> on the argument vector and
  return the vectors they ran; the asynchronous tasks are on top of \<open>Process\<close>.  Allocations succeed.
\<close>

section \<open>Arguments\<close>

type_synonym runner = "string list \<Rightarrow> agent_error \<times> process_result"

definition clamp :: "int \<Rightarrow> int \<Rightarrow> int \<Rightarrow> int" where
  "clamp lo hi v = (if v < lo then lo else if v > hi then hi else v)"

definition bad_json :: tool_result where
  "bad_json = tool_error ''error: arguments are not valid JSON''"

definition dquote :: string where
  "dquote = [CHR 0x22]"

section \<open>The shell\<close>

definition BASH_OUTPUT_CAP :: nat where
  "BASH_OUTPUT_CAP = 64 * 1024"

definition BASH_DEFAULT_TIMEOUT :: int where
  "BASH_DEFAULT_TIMEOUT = 30"

definition BASH_MAX_TIMEOUT :: int where
  "BASH_MAX_TIMEOUT = 300"

text \<open>The command and its timeout in seconds, or the refusal.\<close>

definition bash_arguments :: "(string \<Rightarrow> json option) \<Rightarrow> string \<Rightarrow> tool_result + (string \<times> int)" where
  "bash_arguments read arguments =
     (case json_parse read arguments of
        None \<Rightarrow> Inl bad_json
      | Some root \<Rightarrow>
          (case arg_str root ''command'' of
             None \<Rightarrow> Inl (tool_error (''error: missing required argument '' @ dquote @ ''command'' @ dquote))
           | Some command \<Rightarrow>
               if command = [] then Inl (tool_error (''error: missing required argument '' @ dquote @ ''command'' @ dquote))
               else Inr (command, clamp 1 BASH_MAX_TIMEOUT (json_obj_get_int (Some root) ''timeout'' BASH_DEFAULT_TIMEOUT))))"

definition ascii_lower :: "char \<Rightarrow> char" where
  "ascii_lower c = (let n = of_char c in if 65 \<le> n \<and> n \<le> (90 :: nat) then char_of (n + 32) else c)"

definition strcasestr :: "string \<Rightarrow> string \<Rightarrow> bool" where
  "strcasestr hay needle \<longleftrightarrow> strstr (map ascii_lower hay) (map ascii_lower needle) \<noteq> None"

definition risky_patterns :: "string list" where
  "risky_patterns = [''rm -rf'', ''sudo '', ''curl |'', ''curl -'', ''wget '', ''git push --force'', ''git reset --hard'',
     ''dd if='', ''> /dev/'']"

definition bash_preview :: "(string \<Rightarrow> json option) \<Rightarrow> string option \<Rightarrow> string \<Rightarrow> tool_result" where
  "bash_preview read cwd arguments =
     (case bash_arguments read arguments of
        Inl refusal \<Rightarrow> refusal
      | Inr (command, timeout) \<Rightarrow>
          (let hits = filter (strcasestr command) risky_patterns in
           tool_text
             (''shell command (cwd: '' @ (case cwd of None \<Rightarrow> ''.'' | Some d \<Rightarrow> d) @ '', timeout: '' @ show_int timeout @
              ''s):'' @ [CHR 0x0A] @ ''$ '' @ take 4096 command @
              (if 4096 < length command then [CHR 0x0A] @ ''...[command preview truncated]'' else []) @
              (if hits \<noteq> [] then [CHR 0x0A, CHR 0x0A] @ ''warning: command matches risky patterns:'' @
                 concat (map (\<lambda>h. [CHR 0x0A] @ ''- '' @ h) hits) @
                 [CHR 0x0A] @ ''Heuristic warning only; review the complete command.'' else []))))"

definition build_bash_result :: "int \<Rightarrow> process_result \<Rightarrow> tool_result" where
  "build_bash_result timeout pr =
     tool_text
       (pr_out pr @
        (if pr_timed_out pr then [CHR 0x0A] @ ''[command timed out after '' @ show_int timeout @ ''s and was killed]'' @ [CHR 0x0A]
         else [CHR 0x0A] @ (if pr_exit_code pr < 0 then ''exit code: unknown'' else ''exit code: '' @ show_int (pr_exit_code pr))) @
        (if pr_output_capped pr then [CHR 0x0A] @ ''...[output truncated at 64 KiB]'' else []))"

definition bash_argv :: "string \<Rightarrow> string list" where
  "bash_argv command = [''/bin/sh'', ''-c'', command]"

definition bash_execute :: "(string \<Rightarrow> json option) \<Rightarrow> runner \<Rightarrow> string \<Rightarrow> tool_result \<times> string list list" where
  "bash_execute read run arguments =
     (case bash_arguments read arguments of
        Inl refusal \<Rightarrow> (refusal, [])
      | Inr (command, timeout) \<Rightarrow>
          (let (rc, pr) = run (bash_argv command) in
           (if rc \<noteq> AGENT_OK then tool_error ''error: failed to run command'' else build_bash_result timeout pr,
            [bash_argv command])))"

record bash_task =
  bt_process :: process_task
  bt_timeout :: int

text \<open>\<open>None\<close> for the result means that the poll is not done.\<close>

definition bash_task_poll ::
  "wait_event \<Rightarrow> read_event list \<Rightarrow> read_event list \<Rightarrow> bash_task \<Rightarrow> agent_error \<times> tool_result option \<times> bash_task" where
  "bash_task_poll w oe ee bt =
     (let (rc, res, p) = process_poll w oe ee (bt_process bt); bt' = bt\<lparr>bt_process := p\<rparr> in
      case res of
        None \<Rightarrow> (rc, None, bt')
      | Some pr \<Rightarrow>
          (AGENT_OK, Some (if rc \<noteq> AGENT_OK then tool_error ''error: failed while running command''
                           else build_bash_result (bt_timeout bt) pr), bt'))"

definition bash_task_cancel :: "bool \<Rightarrow> bash_task \<Rightarrow> bash_task" where
  "bash_task_cancel armed bt = bt\<lparr>bt_process := process_cancel armed (bt_process bt)\<rparr>"

definition bash_task_destroy :: "bash_task \<Rightarrow> process_task" where
  "bash_task_destroy bt = process_task_free (bt_process bt)"

definition bash_start :: "(string \<Rightarrow> json option) \<Rightarrow> start_outcomes \<Rightarrow> string \<Rightarrow> tool_result option \<times> bash_task option" where
  "bash_start read so arguments =
     (case bash_arguments read arguments of
        Inl refusal \<Rightarrow> (Some refusal, None)
      | Inr (command, timeout) \<Rightarrow>
          (case process_start so BASH_OUTPUT_CAP of
             (AGENT_OK, Some p, _) \<Rightarrow> (None, Some \<lparr>bt_process = p, bt_timeout = timeout\<rparr>)
           | _ \<Rightarrow> (Some (tool_error ''error: failed to run command''), None)))"

section \<open>Search\<close>

definition GREP_OUTPUT_CAP :: nat where
  "GREP_OUTPUT_CAP = 64 * 1024"

definition GREP_DEFAULT_MAX :: int where
  "GREP_DEFAULT_MAX = 50"

definition GREP_MAX_RESULTS :: int where
  "GREP_MAX_RESULTS = 500"

text \<open>\<open>executable\<close> is \<open>access(path, X_OK) == 0\<close>.\<close>

function find_in_dirs :: "(string \<Rightarrow> bool) \<Rightarrow> string \<Rightarrow> string \<Rightarrow> string option" where
  "find_in_dirs executable p name =
     (let dir = takeWhile (\<lambda>c. c \<noteq> CHR '':'') p; candidate = dir @ ''/'' @ name in
      if dir \<noteq> [] \<and> executable candidate then Some candidate
      else if length dir = length p then None
      else find_in_dirs executable (drop (length dir + 1) p) name)"
  by pat_completeness auto
termination
proof (relation "measure (\<lambda>(_, p, _). length p)")
  fix executable :: "string \<Rightarrow> bool" and p name dir candidate :: string
  assume "dir = takeWhile (\<lambda>c. c \<noteq> CHR '':'') p" and "length dir \<noteq> length p"
  then have "p \<noteq> []" by auto
  then show "((executable, drop (length dir + 1) p, name), (executable, p, name)) \<in> measure (\<lambda>(_, p, _). length p)"
    by (simp add: diff_less)
qed simp

text \<open>\<open>path_env\<close> is \<open>getenv("PATH")\<close>.\<close>

record exec_env =
  path_env :: "string option"
  executable :: "string \<Rightarrow> bool"

definition find_in_path :: "exec_env \<Rightarrow> string \<Rightarrow> string option" where
  "find_in_path env name = (case path_env env of None \<Rightarrow> None | Some p \<Rightarrow> find_in_dirs (executable env) p name)"

text \<open>\<open>build_result\<close> of \<open>grep.c\<close>.\<close>

definition build_grep_result :: "process_result \<Rightarrow> string \<Rightarrow> tool_result" where
  "build_grep_result pr pattern =
     tool_text
       ((if pr_out pr = [] then ''(no matches for '' @ pattern @ '' in scope)'' else pr_out pr) @
        (if pr_timed_out pr then [CHR 0x0A] @ ''[search timed out]'' else []) @
        (if pr_output_capped pr then [CHR 0x0A] @ ''...[results truncated]'' else []) @ [CHR 0x0A])"

text \<open>The pattern, the resolved path and the limit, or the refusal.\<close>

definition grep_arguments ::
  "(string \<Rightarrow> json option) \<Rightarrow> file_system \<Rightarrow> string option \<Rightarrow> string \<Rightarrow> tool_result + (string \<times> string \<times> int)" where
  "grep_arguments read fs cwd arguments =
     (case json_parse read arguments of
        None \<Rightarrow> Inl bad_json
      | Some root \<Rightarrow>
          (case arg_str root ''pattern'' of
             None \<Rightarrow> Inl (tool_error (''error: missing required argument '' @ dquote @ ''pattern'' @ dquote))
           | Some pattern \<Rightarrow>
               if pattern = [] then Inl (tool_error (''error: missing required argument '' @ dquote @ ''pattern'' @ dquote))
               else
                 (let path = (case arg_str root ''path'' of None \<Rightarrow> ''.'' | Some p \<Rightarrow> if p = [] then ''.'' else p) in
                  case tool_path_resolve fs cwd (Some path) False PATH_MAX of
                    None \<Rightarrow> Inl (tool_error ''error: path must stay inside the workspace'')
                  | Some safe_path \<Rightarrow>
                      Inr (pattern, safe_path,
                           clamp 1 GREP_MAX_RESULTS (json_obj_get_int (Some root) ''max_results'' GREP_DEFAULT_MAX)))))"

definition rg_argv :: "string \<Rightarrow> string \<Rightarrow> string \<Rightarrow> string \<Rightarrow> string list" where
  "rg_argv exe max_str pattern path = [exe, ''--no-heading'', ''-n'', ''-m'', max_str, pattern, path]"

definition grep_argv :: "string \<Rightarrow> string \<Rightarrow> string \<Rightarrow> string \<Rightarrow> string list" where
  "grep_argv exe max_str pattern path = [exe, ''-rn'', ''-m'', max_str, pattern, path]"

definition no_search_tool :: tool_result where
  "no_search_tool = tool_error ''error: neither ripgrep (rg) nor grep is available on PATH''"

text \<open>An exit status of 1 means that nothing matched.\<close>

definition rg_answered :: "process_result \<Rightarrow> bool" where
  "rg_answered pr \<longleftrightarrow> \<not> pr_timed_out pr \<and> (pr_exit_code pr = 0 \<or> pr_exit_code pr = 1)"

text \<open>The search with \<open>grep\<close>, after the argument vectors that ran before it.\<close>

definition run_grep :: "exec_env \<Rightarrow> runner \<Rightarrow> string \<Rightarrow> string \<Rightarrow> int \<Rightarrow> string list list \<Rightarrow> tool_result \<times> string list list" where
  "run_grep env run pattern safe_path max_results earlier =
     (case find_in_path env ''grep'' of
        None \<Rightarrow> (no_search_tool, earlier)
      | Some exe \<Rightarrow>
          (let argv = grep_argv exe (show_int max_results) pattern safe_path; (rc, pr) = run argv in
           (if rc \<noteq> AGENT_OK then tool_error ''error: failed to run grep'' else build_grep_result pr pattern,
            earlier @ [argv])))"

definition grep_execute ::
  "(string \<Rightarrow> json option) \<Rightarrow> file_system \<Rightarrow> string option \<Rightarrow> exec_env \<Rightarrow> runner \<Rightarrow> string \<Rightarrow> tool_result \<times> string list list" where
  "grep_execute read fs cwd env run arguments =
     (case grep_arguments read fs cwd arguments of
        Inl refusal \<Rightarrow> (refusal, [])
      | Inr (pattern, safe_path, max_results) \<Rightarrow>
          (case find_in_path env ''rg'' of
             None \<Rightarrow> run_grep env run pattern safe_path max_results []
           | Some rg \<Rightarrow>
               (let argv = rg_argv rg (show_int max_results) pattern safe_path; (rc, pr) = run argv in
                if rc = AGENT_OK \<and> rg_answered pr then (build_grep_result pr pattern, [argv])
                else run_grep env run pattern safe_path max_results [argv])))"

record grep_task =
  gt_process :: "process_task option"
  gt_pattern :: string
  gt_path :: string
  gt_max_results :: string
  gt_running_rg :: bool
  gt_cancelled :: bool

text \<open>Also the argument vector of the process, when one was started.\<close>

definition grep_task_start_process ::
  "exec_env \<Rightarrow> start_outcomes \<Rightarrow> bool \<Rightarrow> grep_task \<Rightarrow> agent_error \<times> grep_task \<times> string list list" where
  "grep_task_start_process env so use_rg t =
     (case find_in_path env (if use_rg then ''rg'' else ''grep'') of
        None \<Rightarrow> (AGENT_ERR_PROCESS, t, [])
      | Some exe \<Rightarrow>
          (let argv = (if use_rg then rg_argv else grep_argv) exe (gt_max_results t) (gt_pattern t) (gt_path t);
               (rc, child, _) = process_start so GREP_OUTPUT_CAP in
           (rc, t\<lparr>gt_process := child, gt_running_rg := use_rg\<rparr>, if rc = AGENT_OK then [argv] else [])))"

text \<open>\<open>process_poll\<close> on the task's process; without one it fails.\<close>

definition grep_process_poll ::
  "wait_event \<Rightarrow> read_event list \<Rightarrow> read_event list \<Rightarrow> grep_task \<Rightarrow> agent_error \<times> process_result option \<times> grep_task" where
  "grep_process_poll w oe ee t =
     (case gt_process t of
        None \<Rightarrow> (AGENT_ERR_PROCESS, None, t)
      | Some p \<Rightarrow> (let (rc, res, p') = process_poll w oe ee p in (rc, res, t\<lparr>gt_process := Some p'\<rparr>)))"

text \<open>\<open>None\<close> for the result means not done; last the vectors of the processes it started.\<close>

definition grep_task_poll ::
  "exec_env \<Rightarrow> start_outcomes \<Rightarrow> wait_event \<Rightarrow> read_event list \<Rightarrow> read_event list \<Rightarrow> grep_task
    \<Rightarrow> tool_result option \<times> grep_task \<times> string list list" where
  "grep_task_poll env so w oe ee t =
     (let (rc, res, t1) = grep_process_poll w oe ee t in
      if res = None \<and> rc = AGENT_OK then (None, t1, [])
      else
        (let t2 = t1\<lparr>gt_process := None\<rparr> in
         if gt_cancelled t1 then (Some (tool_error ''search cancelled''), t2, [])
         else if res \<noteq> None \<and> rc = AGENT_OK \<and> (\<not> gt_running_rg t1 \<or> rg_answered (the res))
         then (Some (build_grep_result (the res) (gt_pattern t1)), t2, [])
         else if gt_running_rg t1
         then (let (rc2, t3, started) = grep_task_start_process env so False t2 in
               if rc2 = AGENT_OK then (None, t3, started) else (Some no_search_tool, t3, started))
         else (Some (tool_error ''error: failed to run grep''), t2, [])))"

definition grep_task_cancel :: "bool \<Rightarrow> grep_task \<Rightarrow> grep_task" where
  "grep_task_cancel armed t = t\<lparr>gt_cancelled := True, gt_process := map_option (process_cancel armed) (gt_process t)\<rparr>"

definition grep_task_destroy :: "grep_task \<Rightarrow> process_task option" where
  "grep_task_destroy t = map_option process_task_free (gt_process t)"

definition grep_start ::
  "(string \<Rightarrow> json option) \<Rightarrow> file_system \<Rightarrow> string option \<Rightarrow> exec_env \<Rightarrow> start_outcomes \<Rightarrow> start_outcomes \<Rightarrow> string
    \<Rightarrow> tool_result option \<times> grep_task option \<times> string list list" where
  "grep_start read fs cwd env so so2 arguments =
     (case grep_arguments read fs cwd arguments of
        Inl refusal \<Rightarrow> (Some refusal, None, [])
      | Inr (pattern, safe_path, max_results) \<Rightarrow>
          (let t = \<lparr>gt_process = None, gt_pattern = pattern, gt_path = safe_path, gt_max_results = show_int max_results,
                    gt_running_rg = False, gt_cancelled = False\<rparr>;
               have_rg = (find_in_path env ''rg'' \<noteq> None);
               (rc, t1, earlier) = grep_task_start_process env so have_rg t;
               (rc2, t2, ran2) = (if rc \<noteq> AGENT_OK \<and> have_rg
                                  then grep_task_start_process env so2 False t1 else (rc, t1, []));
               started = earlier @ ran2 in
           if rc2 \<noteq> AGENT_OK then (Some no_search_tool, None, started) else (None, Some t2, started)))"

section \<open>What the commands are\<close>

lemma clamp_range: "lo \<le> hi \<Longrightarrow> lo \<le> clamp lo hi v \<and> clamp lo hi v \<le> hi"
  by (auto simp: clamp_def)

text \<open>The argument vector is a program, its options with the limit, the pattern and the path.\<close>

definition search_argv :: "string \<Rightarrow> string \<Rightarrow> string \<Rightarrow> string list \<Rightarrow> bool" where
  "search_argv max_str pattern path argv \<longleftrightarrow>
     (\<exists>exe opts. argv = exe # opts @ [max_str, pattern, path] \<and> opts \<in> {[''--no-heading'', ''-n'', ''-m''], [''-rn'', ''-m'']})"

lemma search_argv_built [simp]:
  "search_argv m pattern path (rg_argv exe m pattern path)" "search_argv m pattern path (grep_argv exe m pattern path)"
  by (auto simp: search_argv_def rg_argv_def grep_argv_def)

lemma grep_arguments_some:
  assumes "grep_arguments read fs cwd arguments = Inr (pattern, path, m)"
  shows "pattern \<noteq> [] \<and> 1 \<le> m \<and> m \<le> GREP_MAX_RESULTS \<and> (\<exists>p. tool_path_resolve fs cwd (Some p) False PATH_MAX = Some path)"
  using assms clamp_range [of 1 GREP_MAX_RESULTS]
  by (auto simp: grep_arguments_def Let_def GREP_MAX_RESULTS_def split: option.splits if_splits)

text \<open>A search runs only programs found in the search path, at most two, on one path that lies inside the
  workspace, with a limit between 1 and 500.  The pattern of the model is the
  argument before the path, with neither \<open>--\<close> nor \<open>-e\<close> before it, so that a pattern that starts with a dash reaches
  the program as an option.\<close>

theorem grep_runs_confined:
  assumes "grep_arguments read fs cwd arguments = Inr (pattern, path, m)"
  shows "(\<forall>argv \<in> set (snd (grep_execute read fs cwd env run arguments)). search_argv (show_int m) pattern path argv) \<and>
     length (snd (grep_execute read fs cwd env run arguments)) \<le> 2 \<and>
     1 \<le> m \<and> m \<le> GREP_MAX_RESULTS \<and> (\<exists>dir ws p. cwd = Some dir \<and> fs_realpath fs dir = Inr ws \<and> confined fs ws p path)"
proof -
  from grep_arguments_some [OF assms] obtain p where p: "tool_path_resolve fs cwd (Some p) False PATH_MAX = Some path" by blast
  from path_resolve_confined [OF p] grep_arguments_some [OF assms] show ?thesis
    by (auto simp: grep_execute_def run_grep_def assms Let_def split: option.splits prod.splits if_splits)
qed


text \<open>A search task while the runtime holds it, with the argument vectors it has started so far.\<close>

inductive grep_reach :: "grep_task \<Rightarrow> string list list \<Rightarrow> bool" where
  started: "grep_start read fs cwd env so so2 arguments = (None, Some t, argvs) \<Longrightarrow> grep_reach t argvs"
| polled: "grep_reach t argvs \<Longrightarrow> grep_task_poll env so w oe ee t = (None, t', new) \<Longrightarrow> grep_reach t' (argvs @ new)"
| cancelled: "grep_reach t argvs \<Longrightarrow> grep_reach (grep_task_cancel armed t) argvs"
| piped: "grep_reach t argvs \<Longrightarrow> grep_reach (t\<lparr>gt_process := map_option (pipe_cb which interest evs) (gt_process t)\<rparr>) argvs"
| timed: "grep_reach t argvs \<Longrightarrow> grep_reach (t\<lparr>gt_process := map_option (timer_cb armed) (gt_process t)\<rparr>) argvs"

definition grep_task_ok :: "grep_task \<Rightarrow> string list list \<Rightarrow> bool" where
  "grep_task_ok t argvs \<longleftrightarrow>
     gt_process t \<noteq> None \<and> 0 < length argvs \<and> length argvs \<le> (if gt_running_rg t then 1 else 2) \<and>
     (\<forall>argv \<in> set argvs. search_argv (gt_max_results t) (gt_pattern t) (gt_path t) argv)"

lemma process_start_some: "process_start so cap = (rc, child, freed) \<Longrightarrow> child \<noteq> None \<longleftrightarrow> rc = AGENT_OK"
  by (auto simp: process_start_def split: if_splits)

definition task_keys :: "grep_task \<Rightarrow> string \<times> string \<times> string \<times> bool" where
  "task_keys t = (gt_pattern t, gt_path t, gt_max_results t, gt_cancelled t)"

lemma start_process_ok:
  "grep_task_start_process env so use_rg t = (AGENT_OK, t', argvs)
    \<Longrightarrow> grep_task_ok t' argvs \<and> length argvs = 1 \<and> task_keys t' = task_keys t \<and> gt_running_rg t' = use_rg"
  by (auto simp: grep_task_start_process_def grep_task_ok_def task_keys_def Let_def dest: process_start_some
      split: option.splits prod.splits if_splits)

lemma start_process_failed:
  "grep_task_start_process env so use_rg t = (rc, t', argvs) \<Longrightarrow> rc \<noteq> AGENT_OK
    \<Longrightarrow> argvs = [] \<and> task_keys t' = task_keys t \<and> (gt_process t = None \<longrightarrow> gt_process t' = None)"
  by (auto simp: grep_task_start_process_def task_keys_def Let_def dest: process_start_some
      split: option.splits prod.splits if_splits)

lemma grep_start_ok:
  assumes "grep_start read fs cwd env so so2 arguments = (None, Some t, argvs)"
  shows "grep_task_ok t argvs"
proof -
  from assms obtain t0 have_rg rc t1 a rc2 t2 b where s: "grep_task_start_process env so have_rg t0 = (rc, t1, a)"
      "(if rc \<noteq> AGENT_OK \<and> have_rg then grep_task_start_process env so2 False t1 else (rc, t1, [])) = (rc2, t2, b)"
      "rc2 = AGENT_OK" "t = t2" "argvs = a @ b"
    by (auto simp: grep_start_def Let_def split: sum.splits prod.splits if_splits)
  then show ?thesis
    using start_process_failed [OF s(1)] start_process_ok [of env so have_rg t0 t1 a] start_process_ok [of env so2 False t1 t2 b]
    by (cases "rc = AGENT_OK") (simp_all split: if_splits)
qed

lemma grep_poll_step:
  assumes "grep_task_ok t argvs" and "grep_task_poll env so w oe ee t = (res, t', started)"
  shows "(res = None \<longrightarrow> grep_task_ok t' (argvs @ started)) \<and> (res \<noteq> None \<longrightarrow> gt_process t' = None \<and> started = []) \<and>
    (gt_cancelled t \<longrightarrow> started = [] \<and> (res = None \<or> res = Some (tool_error ''search cancelled''))) \<and>
    task_keys t' = task_keys t"
proof -
  obtain rc pr t1 where p: "grep_process_poll w oe ee t = (rc, pr, t1)" by (cases "grep_process_poll w oe ee t") auto
  with assms(1) have t1: "grep_task_ok t1 argvs" "task_keys t1 = task_keys t" "gt_running_rg t1 = gt_running_rg t"
    by (auto simp: grep_process_poll_def grep_task_ok_def task_keys_def split: option.splits prod.splits)
  let ?t2 = "t1\<lparr>gt_process := None\<rparr>"
  obtain rc2 t3 s where f: "grep_task_start_process env so False ?t2 = (rc2, t3, s)"
    by (cases "grep_task_start_process env so False ?t2") auto
  have "grep_task_ok t3 (argvs @ s)" if "rc2 = AGENT_OK" "gt_running_rg t1"
    using start_process_ok [OF f [unfolded that(1)]] that(2) t1(1)
    by (auto simp: grep_task_ok_def task_keys_def)
  then show ?thesis
    using assms(2) p t1 f start_process_failed [OF f] start_process_ok [of env so False ?t2 t3 s]
    by (simp add: grep_task_poll_def task_keys_def Let_def split: if_splits) auto
qed

lemma grep_reach_ok: "grep_reach t argvs \<Longrightarrow> grep_task_ok t argvs"
proof (induction rule: grep_reach.induct)
  case (polled t argvs env so w oe ee t' new)
  then show ?case using grep_poll_step by blast
qed (auto dest: grep_start_ok simp: grep_task_ok_def grep_task_cancel_def)

text \<open>A search task has a process until its result is there and none after, it starts at most two in its life,
  all for the same search, and once it is cancelled it starts no further
  one and can only report the cancellation.\<close>

theorem grep_task_bounded:
  assumes "grep_reach t argvs" and "grep_task_poll env so w oe ee t = (res, t', started)"
  shows "gt_process t \<noteq> None \<and> (res = None \<longleftrightarrow> gt_process t' \<noteq> None) \<and> length (argvs @ started) \<le> 2 \<and>
     (\<forall>argv \<in> set (argvs @ started). search_argv (gt_max_results t') (gt_pattern t') (gt_path t') argv) \<and>
     (gt_cancelled t \<longrightarrow> started = [] \<and> (res = None \<or> res = Some (tool_error ''search cancelled'')))"
proof -
  from grep_reach_ok [OF assms(1)] have ok: "grep_task_ok t argvs" .
  from grep_poll_step [OF ok assms(2)] ok show ?thesis
    by (cases "res = None") (auto simp: grep_task_ok_def task_keys_def split: if_splits)
qed

section \<open>What is approved and what is reported\<close>

text \<open>What a preview shows is what runs.  Both read the same command and the same timeout, between 1 and 300
  seconds, and refuse the same arguments; the preview shows the command itself, the
  first 4096 bytes of a longer one with a note, and a warning for each risky pattern anywhere in it.\<close>

theorem bash_preview_faithful:
  assumes "bash_arguments read arguments = Inr (command, timeout)"
  shows "snd (bash_execute read run arguments) = [[''/bin/sh'', ''-c'', command]] \<and> 1 \<le> timeout \<and> timeout \<le> BASH_MAX_TIMEOUT \<and>
     (\<exists>before after.
        tr_content (bash_preview read cwd arguments) = Some (before @ ''s):'' @ [CHR 0x0A] @ ''$ '' @ take 4096 command @ after) \<and>
        (length command \<le> 4096 \<or> take 31 after = [CHR 0x0A] @ ''...[command preview truncated]'') \<and>
        (\<forall>p \<in> set risky_patterns. strcasestr command p \<longrightarrow> (\<exists>u v. after = u @ ''- '' @ p @ v)))"
proof -
  let ?hits = "filter (strcasestr command) risky_patterns"
  let ?cut = "if 4096 < length command then [CHR 0x0A] @ ''...[command preview truncated]'' else []"
  let ?list = "concat (map (\<lambda>h. [CHR 0x0A] @ ''- '' @ h) ?hits)"
  let ?after = "?cut @ (if ?hits \<noteq> [] then [CHR 0x0A, CHR 0x0A] @ ''warning: command matches risky patterns:'' @ ?list @
                 [CHR 0x0A] @ ''Heuristic warning only; review the complete command.'' else [])"
  have shown: "tr_content (bash_preview read cwd arguments) =
     Some ((''shell command (cwd: '' @ (case cwd of None \<Rightarrow> ''.'' | Some d \<Rightarrow> d) @ '', timeout: '' @ show_int timeout) @
       ''s):'' @ [CHR 0x0A] @ ''$ '' @ take 4096 command @ ?after)"
    by (simp add: bash_preview_def assms tool_text_def Let_def)
  have listed: "\<exists>u v. ?after = u @ ''- '' @ p @ v" if "p \<in> set risky_patterns" "strcasestr command p" for p
  proof -
    from that have "p \<in> set ?hits" by simp
    then obtain xs ys where hits: "?hits = xs @ p # ys" by (blast dest: split_list)
    show ?thesis
      by (intro exI [of _ "?cut @ [CHR 0x0A, CHR 0x0A] @ ''warning: command matches risky patterns:'' @
            concat (map (\<lambda>h. [CHR 0x0A] @ ''- '' @ h) xs) @ [CHR 0x0A]"]
          exI [of _ "concat (map (\<lambda>h. [CHR 0x0A] @ ''- '' @ h) ys) @
            [CHR 0x0A] @ ''Heuristic warning only; review the complete command.''"])
        (simp add: hits)
  qed
  have range: "1 \<le> timeout \<and> timeout \<le> BASH_MAX_TIMEOUT"
    using assms clamp_range [of 1 BASH_MAX_TIMEOUT]
    by (auto simp: bash_arguments_def BASH_MAX_TIMEOUT_def split: option.splits if_splits)
  have argv: "snd (bash_execute read run arguments) = [[''/bin/sh'', ''-c'', command]]"
    by (simp add: bash_execute_def assms bash_argv_def Let_def split: prod.splits)
  have cut: "length command \<le> 4096 \<or> take 31 ?after = [CHR 0x0A] @ ''...[command preview truncated]''" by auto
  show ?thesis using shown listed range argv cut by blast
qed

lemma c_str_append: "c_str (a @ b) = (if CHR 0x00 \<in> set a then c_str a else a @ c_str b)"
  by (induction a) (auto simp: c_str_def)

lemma digit_char_not_nul: "d < 10 \<Longrightarrow> CHR 0x00 \<noteq> digit_char d"
proof
  assume d: "d < 10" and eq: "CHR 0x00 = digit_char d"
  have "(of_char (digit_char d) :: nat) = 48 + d" using d by (simp add: digit_char_def)
  then show False by (simp flip: eq)
qed

lemma show_nat_no_nul: "CHR 0x00 \<notin> set (show_nat n)"
proof (induction n rule: show_nat.induct)
  case (1 n)
  then show ?case by (cases "n < 10") (auto simp: show_nat.simps [of n] digit_char_not_nul)
qed

lemma show_int_no_nul: "CHR 0x00 \<notin> set (show_int i)"
  by (simp add: show_int_def show_nat_no_nul)

text \<open>The text of a result ends at the first zero byte of the output, since the tool hands it on as a C string.  What
  comes after it, the exit code and the notices of a timeout or of a cut output, does
  not reach the model.\<close>

theorem bash_status_hidden:
  "map_option c_str (tr_content (build_bash_result timeout pr)) =
     Some (if CHR 0x00 \<in> set (pr_out pr) then c_str (pr_out pr)
           else pr_out pr @
             (if pr_timed_out pr then [CHR 0x0A] @ ''[command timed out after '' @ show_int timeout @ ''s and was killed]'' @ [CHR 0x0A]
              else [CHR 0x0A] @ (if pr_exit_code pr < 0 then ''exit code: unknown'' else ''exit code: '' @ show_int (pr_exit_code pr))) @
             (if pr_output_capped pr then [CHR 0x0A] @ ''...[output truncated at 64 KiB]'' else []))"
proof -
  have plain: "c_str (pr_out pr @ rest) = (if CHR 0x00 \<in> set (pr_out pr) then c_str (pr_out pr) else pr_out pr @ rest)"
    if "CHR 0x00 \<notin> set rest" for rest
    using that by (simp add: c_str_append c_str_id no_nul_def)
  show ?thesis
    by (simp add: build_bash_result_def tool_text_def plain show_int_no_nul)
qed

section \<open>Examples\<close>

definition search_fs :: file_system where
  "search_fs = \<lparr>fs_realpath = (\<lambda>p. if p \<in> {''/w'', ''/w/.''} then Inr ''/w'' else Inl ENOENT), fs_lstat = (\<lambda>_. Some ENOENT)\<rparr>"

definition usr_bin :: exec_env where
  "usr_bin = \<lparr>path_env = Some ''/bin:/usr/bin'', executable = (\<lambda>p. p = ''/usr/bin/rg'')\<rparr>"

definition option_request :: json where
  "option_request = JObj [(''pattern'', JStr ''--pre=./x''), (''max_results'', JInt 900)]"

lemma option_arguments:
  "grep_arguments (\<lambda>_. Some option_request) search_fs (Some ''/w'') ''q'' = Inr (''--pre=./x'', ''/w'', 500)"
  by code_simp

theorem grep_runs_confined_witness:
  "snd (grep_execute (\<lambda>_. Some option_request) search_fs (Some ''/w'') usr_bin (\<lambda>_. (AGENT_OK, empty_result\<lparr>pr_exit_code := 0\<rparr>)) ''q'') =
     [[''/usr/bin/rg'', ''--no-heading'', ''-n'', ''-m'', ''500'', ''--pre=./x'', ''/w'']] \<and> confined search_fs ''/w'' ''.'' ''/w''"
proof -
  have ran: "snd (grep_execute (\<lambda>_. Some option_request) search_fs (Some ''/w'') usr_bin (\<lambda>_. (AGENT_OK, empty_result\<lparr>pr_exit_code := 0\<rparr>)) ''q'') =
     [[''/usr/bin/rg'', ''--no-heading'', ''-n'', ''-m'', ''500'', ''--pre=./x'', ''/w'']]" by code_simp
  have "\<exists>dir ws p. Some ''/w'' = Some dir \<and> fs_realpath search_fs dir = Inr ws \<and> confined search_fs ws p ''/w''"
    using grep_runs_confined [OF option_arguments] by blast
  then have "inside_root ''/w'' ''/w''" by (auto simp: confined_def search_fs_def)
  then have "confined search_fs ''/w'' ''.'' ''/w''" by (simp add: confined_def search_fs_def)
  with ran show ?thesis by blast
qed

definition rg_task :: grep_task where
  "rg_task = \<lparr>gt_process = Some ((new_task GREP_OUTPUT_CAP)\<lparr>pt_timer_open := True\<rparr>), gt_pattern = ''--pre=./x'', gt_path = ''/w'',
     gt_max_results = ''500'', gt_running_rg = True, gt_cancelled = False\<rparr>"

lemma rg_found: "find_in_path usr_bin ''rg'' = Some ''/usr/bin/rg''" "show_int 500 = ''500''" by code_simp+

lemma rg_task_reach:
  "grep_reach rg_task [[''/usr/bin/rg'', ''--no-heading'', ''-n'', ''-m'', ''500'', ''--pre=./x'', ''/w'']]"
  by (rule grep_reach.started [of "\<lambda>_. Some option_request" search_fs "Some ''/w''" usr_bin good_start good_start "''q''"])
    (simp add: grep_start_def option_arguments grep_task_start_process_def process_start_def good_start_def rg_found rg_task_def rg_argv_def)

theorem grep_task_bounded_witness:
  "\<exists>t'. grep_task_poll usr_bin good_start (Child_Status (Term_Signal 15)) [Read_End] [Read_End] (grep_task_cancel True rg_task) =
     (Some (tool_error ''search cancelled''), t', []) \<and> gt_process t' = None"
proof -
  let ?p = "grep_task_poll usr_bin good_start (Child_Status (Term_Signal 15)) [Read_End] [Read_End] (grep_task_cancel True rg_task)"
  have fin: "fst ?p \<noteq> None"
    by (simp add: grep_task_poll_def grep_process_poll_def grep_task_cancel_def rg_task_def process_poll_def process_cancel_def
        begin_termination_def new_task_def reap_child_def stream_open_def close_stream_def signal_process_group_def
        process_group_may_be_alive_def Let_def)
  obtain res t' started where p: "?p = (res, t', started)" by (cases ?p) auto
  from grep_task_bounded [OF grep_reach.cancelled [OF rg_task_reach] p] p fin show ?thesis
    by (auto simp: grep_task_cancel_def)
qed

theorem bash_preview_faithful_witness:
  "strcasestr ''SUDO rm'' ''sudo '' \<and>
   snd (bash_execute (\<lambda>_. Some (JObj [(''command'', JStr ''SUDO rm''), (''timeout'', JInt 0)])) (\<lambda>_. (AGENT_OK, empty_result)) ''q'') =
     [[''/bin/sh'', ''-c'', ''SUDO rm'']]"
proof -
  have "bash_arguments (\<lambda>_. Some (JObj [(''command'', JStr ''SUDO rm''), (''timeout'', JInt 0)])) ''q'' = Inr (''SUDO rm'', 1)" by code_simp
  note bash_preview_faithful [OF this, of "\<lambda>_. (AGENT_OK, empty_result)" None]
  moreover have "strcasestr ''SUDO rm'' ''sudo ''" by code_simp
  ultimately show ?thesis by blast
qed

end
