(* ===== verification/Git_Tools.thy ===== *)
theory Git_Tools
  imports Shell_Tools "HOL-Library.Word"
begin

unbundle bit_operations_syntax

text \<open>
  The git tools, \<open>src/src/tool/git.c\<close>.  A run of git is the parameter \<open>run\<close> on its timeout, its output
  cap and its argument vector; every operation also returns the vectors it ran, in order.  The checkpoint files are part of a
  store of files; what the operating system answers while one is written is the record \<open>checkpoint_io\<close>.
  Allocations succeed, and \<open>unlink\<close> removes the temporary file.
\<close>

section \<open>Running git\<close>

type_synonym git_runner = "nat \<Rightarrow> nat \<Rightarrow> string list \<Rightarrow> agent_error \<times> process_result"

definition GIT_TIMEOUT_MS :: nat where "GIT_TIMEOUT_MS = 30000"

definition GIT_PREVIEW_TIMEOUT_MS :: nat where "GIT_PREVIEW_TIMEOUT_MS = 3000"

definition GIT_OUTPUT_CAP :: nat where "GIT_OUTPUT_CAP = 128 * 1024"

definition GIT_PREVIEW_OUTPUT_CAP :: nat where "GIT_PREVIEW_OUTPUT_CAP = 16 * 1024"

definition safe_pathspec :: "string option \<Rightarrow> bool" where
  "safe_pathspec path = (case path of None \<Rightarrow> False | Some p \<Rightarrow> if p = [] \<or> hd p = CHR ''/'' then False else safe_components p)"

definition git_result :: "git_runner \<Rightarrow> string list \<Rightarrow> tool_result \<times> string list list" where
  "git_result run argv =
     (let (rc, pr) = run GIT_TIMEOUT_MS GIT_OUTPUT_CAP argv in
      (if rc \<noteq> AGENT_OK then tool_error ''error: failed to start git''
       else \<lparr>tr_content = Some (pr_out pr @
                (if pr_timed_out pr then [newline] @ ''git timed out after 30s''
                 else [newline] @ ''exit code: '' @ show_int (pr_exit_code pr)) @
                (if pr_output_capped pr then [newline] @ ''...[output truncated]'' else [])),
             tr_is_error = (pr_timed_out pr \<or> pr_exit_code pr \<noteq> 0)\<rparr>,
       [argv]))"

definition git_preview_result :: "git_runner \<Rightarrow> string list \<Rightarrow> tool_result \<times> string list list" where
  "git_preview_result run argv =
     (let (rc, pr) = run GIT_PREVIEW_TIMEOUT_MS GIT_PREVIEW_OUTPUT_CAP argv in
      (if rc \<noteq> AGENT_OK then tool_error ''preview unavailable: failed to start git''
       else \<lparr>tr_content = taken (pr_out pr @
                (if pr_timed_out pr then [newline] @ ''[git preview timed out after 3s]'' else []) @
                (if pr_output_capped pr then [newline] @ ''...[preview truncated]'' else [])),
             tr_is_error = (pr_timed_out pr \<or> pr_exit_code pr \<noteq> 0)\<rparr>,
       [argv]))"

definition parse_args :: "(string \<Rightarrow> json option) \<Rightarrow> string option \<Rightarrow> tool_result + json" where
  "parse_args read arguments =
     (case json_parse read (case arguments of None \<Rightarrow> ''{}'' | Some a \<Rightarrow> a) of
        None \<Rightarrow> Inl bad_json
      | Some root \<Rightarrow> if \<not> json_val_is_obj (Some root) then Inl (tool_error ''error: arguments must be a JSON object'') else Inr root)"

definition git :: "string list \<Rightarrow> string list" where
  "git args = ''/usr/bin/git'' # args"

section \<open>Checkpoints\<close>

definition checkpoint_hash :: "string option \<Rightarrow> 64 word" where
  "checkpoint_hash cwd =
     foldl (\<lambda>h c. (h XOR of_char c) * 1099511628211) 1469598103934665603 (case cwd of None \<Rightarrow> ''.'' | Some d \<Rightarrow> d)"

text \<open>\<open>printf\<close> of \<open>%016llx\<close>.\<close>

definition hex16 :: "64 word \<Rightarrow> string" where
  "hex16 h = map (\<lambda>i. ''0123456789abcdef'' ! (unat h div 16 ^ i mod 16)) (rev [0..<16])"

record checkpoint_io =
  ck_home :: "string option"
  ck_mkdir :: "string \<Rightarrow> bool"
  ck_pid :: nat
  ck_open :: bool
  ck_fdopen :: bool
  ck_wrote :: bool
  ck_closed :: bool
  ck_renamed :: bool

definition home_dir :: "string option \<Rightarrow> string" where
  "home_dir home = (case home of None \<Rightarrow> ''/tmp'' | Some h \<Rightarrow> if h = [] then ''/tmp'' else h)"

definition checkpoint_file :: "string option \<Rightarrow> string option \<Rightarrow> string" where
  "checkpoint_file home cwd = home_dir home @ ''/.local/state/cagent/checkpoints/'' @ hex16 (checkpoint_hash cwd) @ ''.json''"

definition checkpoint_dirs :: "string \<Rightarrow> string list" where
  "checkpoint_dirs home = map ((@) home) [''/.local'', ''/.local/state'', ''/.local/state/cagent'', ''/.local/state/cagent/checkpoints'']"

definition checkpoint_path :: "checkpoint_io \<Rightarrow> string option \<Rightarrow> nat \<Rightarrow> string option" where
  "checkpoint_path io cwd cap =
     (let path = checkpoint_file (ck_home io) cwd in
      if length path \<ge> cap then None
      else if list_all (\<lambda>dir. length dir < PATH_MAX \<and> ck_mkdir io dir) (checkpoint_dirs (home_dir (ck_home io))) then Some path
      else None)"

definition git_checkpoint_available :: "files \<Rightarrow> string option \<Rightarrow> string option \<Rightarrow> bool" where
  "git_checkpoint_available files home cwd =
     (let path = checkpoint_file home cwd in if length path \<ge> PATH_MAX then False else files path \<noteq> None)"

definition isxdigit :: "char \<Rightarrow> bool" where
  "isxdigit c = (let n = of_char c :: nat in (48 \<le> n \<and> n \<le> 57) \<or> (65 \<le> n \<and> n \<le> 70) \<or> (97 \<le> n \<and> n \<le> 102))"

definition isdigit :: "char \<Rightarrow> bool" where
  "isdigit c = (let n = of_char c :: nat in 48 \<le> n \<and> n \<le> 57)"

definition valid_commit_hash :: "string \<Rightarrow> bool" where
  "valid_commit_hash hash = (length hash = 40 \<and> list_all isxdigit hash)"

text \<open>The trailing newlines and carriage returns are cut off.\<close>

definition strip_eol :: "string \<Rightarrow> string" where
  "strip_eol s = rev (dropWhile (\<lambda>c. c = newline \<or> c = CHR 0x0D) (rev s))"

text \<open>The commit a run of \<open>git rev-parse HEAD\<close> names, as a C string.\<close>

definition resolve_head :: "git_runner \<Rightarrow> (string option) \<times> string list list" where
  "resolve_head run =
     (let argv = git [''rev-parse'', ''HEAD'']; (rc, pr) = run GIT_TIMEOUT_MS GIT_OUTPUT_CAP argv in
      (if rc = AGENT_OK \<and> pr_exit_code pr = 0 then Some (c_str (strip_eol (pr_out pr))) else None, [argv]))"

definition save_checkpoint :: "checkpoint_io \<Rightarrow> string \<Rightarrow> string \<Rightarrow> files \<Rightarrow> agent_error \<times> files" where
  "save_checkpoint io path head files =
     (let temp = path @ ''.tmp.'' @ show_nat (ck_pid io) in
      if length temp \<ge> PATH_MAX then (AGENT_ERR_IO, files)
      else if \<not> ck_open io then (AGENT_ERR_IO, files)
      else if \<not> ck_fdopen io then (AGENT_ERR_IO, files(temp := Some []))
      else if ck_wrote io \<and> ck_closed io \<and> ck_renamed io
      then (AGENT_OK, files(temp := None, path := Some (head @ [newline])))
      else (AGENT_ERR_IO, files(temp := None)))"

definition git_checkpoint_execute ::
  "git_runner \<Rightarrow> checkpoint_io \<Rightarrow> string option \<Rightarrow> files \<Rightarrow> tool_result \<times> string list list \<times> files" where
  "git_checkpoint_execute run io cwd files =
     (let status = git [''status'', ''--porcelain'']; (rc, st) = run GIT_TIMEOUT_MS GIT_OUTPUT_CAP status in
      if rc \<noteq> AGENT_OK \<or> pr_exit_code st \<noteq> 0 then (tool_error ''error: cannot inspect git working tree'', [status], files)
      else if pr_out st \<noteq> [] then (tool_error ''error: checkpoint requires a clean working tree'', [status], files)
      else
        (let (head, more) = resolve_head run; ran_all = status # more in
         case head of
           None \<Rightarrow> (tool_error ''error: cannot resolve git HEAD'', ran_all, files)
         | Some h \<Rightarrow>
             if \<not> valid_commit_hash h then (tool_error ''error: cannot resolve git HEAD'', ran_all, files)
             else
               (let (rc2, files') = (case checkpoint_path io cwd PATH_MAX of
                                       None \<Rightarrow> (AGENT_ERR_IO, files)
                                     | Some path \<Rightarrow> save_checkpoint io path h files) in
                (if rc2 = AGENT_OK then tool_text ''git checkpoint saved (clean HEAD)''
                 else tool_error ''error: cannot save git checkpoint'', ran_all, files'))))"

text \<open>\<open>fgets\<close> into 64 bytes, read as a C string; \<open>None\<close> where the tool reports that no valid checkpoint exists.\<close>

definition load_checkpoint :: "checkpoint_io \<Rightarrow> string option \<Rightarrow> files \<Rightarrow> string option" where
  "load_checkpoint io cwd files =
     (case checkpoint_path io cwd PATH_MAX of
        None \<Rightarrow> None
      | Some path \<Rightarrow>
          (case files path of
             None \<Rightarrow> None
           | Some data \<Rightarrow>
               if data = [] then None
               else
                 (let piece = take 63 data; line = takeWhile (\<lambda>c. c \<noteq> newline) piece;
                      head = strip_eol (c_str (if length line < length piece then line @ [newline] else piece)) in
                  if valid_commit_hash head then Some head else None)))"

definition no_checkpoint :: tool_result where
  "no_checkpoint = tool_error ''error: no valid clean-worktree checkpoint exists''"

definition git_restore_checkpoint_execute ::
  "git_runner \<Rightarrow> checkpoint_io \<Rightarrow> string option \<Rightarrow> files \<Rightarrow> tool_result \<times> string list list" where
  "git_restore_checkpoint_execute run io cwd files =
     (case load_checkpoint io cwd files of
        None \<Rightarrow> (no_checkpoint, [])
      | Some head \<Rightarrow>
          (let (current, argvs) = resolve_head run in
           if current \<noteq> Some head
           then (tool_error ''error: checkpoint HEAD differs from current HEAD; refusing reset'', argvs)
           else
             (let (res, more) = git_result run (git [''reset'', ''--hard'', head]) in
              (if \<not> tr_is_error res
               then tool_text (c_str (the (tr_content res)) @ [newline] @
                      ''tracked files restored; untracked files were left untouched'')
               else res, argvs @ more))))"

definition git_restore_checkpoint_preview ::
  "git_runner \<Rightarrow> checkpoint_io \<Rightarrow> string option \<Rightarrow> files \<Rightarrow> tool_result \<times> string list list" where
  "git_restore_checkpoint_preview run io cwd files =
     (case load_checkpoint io cwd files of
        None \<Rightarrow> (no_checkpoint, [])
      | Some head \<Rightarrow>
          (let argv = git [''status'', ''--short'']; (rc, st) = run GIT_PREVIEW_TIMEOUT_MS GIT_PREVIEW_OUTPUT_CAP argv in
           (if rc \<noteq> AGENT_OK \<or> pr_exit_code st \<noteq> 0 then tool_error ''error: cannot inspect working tree before reset''
            else tool_text (''git reset --hard '' @ head @ [newline] @ ''Current working tree (will be discarded):'' @ [newline] @
                   (if pr_out st = [] then ''(clean)'' @ [newline] else pr_out st) @
                   ''Tracked changes will be discarded; untracked files remain.'' @ [newline]), [argv])))"

section \<open>Status, diff, commit and revert\<close>

text \<open>The loop of \<open>git_status_execute\<close> over the lines of the output.\<close>

function count_changed :: "string \<Rightarrow> nat" where
  "count_changed p =
     (if p = [] then 0
      else (if hd p \<noteq> CHR ''#'' then 1 else 0) + count_changed (drop (length (takeWhile (\<lambda>c. c \<noteq> newline) p) + 1) p))"
  by pat_completeness auto
termination
  by (relation "measure length") (auto simp: neq_Nil_conv)

declare count_changed.simps [simp del]

definition git_status_execute :: "git_runner \<Rightarrow> tool_result \<times> string list list" where
  "git_status_execute run =
     (let argv = git [''status'', ''--short'', ''--branch'']; (rc, pr) = run GIT_TIMEOUT_MS GIT_OUTPUT_CAP argv;
          changed = count_changed (c_str (pr_out pr)) in
      (if rc \<noteq> AGENT_OK then tool_error ''error: failed to start git status''
       else \<lparr>tr_content = Some (''git status: '' @ (if changed = 0 then ''clean'' else ''dirty'') @ '' changed='' @
                show_nat changed @ '' exit='' @ show_int (pr_exit_code pr) @ [newline] @ pr_out pr),
             tr_is_error = (pr_timed_out pr \<or> pr_exit_code pr \<noteq> 0)\<rparr>,
       [argv]))"

definition git_diff_execute :: "(string \<Rightarrow> json option) \<Rightarrow> git_runner \<Rightarrow> string option \<Rightarrow> tool_result \<times> string list list" where
  "git_diff_execute read run arguments =
     (case parse_args read arguments of
        Inl refusal \<Rightarrow> (refusal, [])
      | Inr root \<Rightarrow>
          (let path = arg_str root ''path'' in
           if path \<noteq> None \<and> \<not> safe_pathspec path then (tool_error ''error: path must stay inside the repository'', [])
           else git_result run (git ([''diff'', ''--no-ext-diff'', ''--stat'', ''--name-status'', ''--''] @
                  (case path of None \<Rightarrow> [] | Some p \<Rightarrow> [p])))))"

definition git_commit_execute :: "(string \<Rightarrow> json option) \<Rightarrow> git_runner \<Rightarrow> string option \<Rightarrow> tool_result \<times> string list list" where
  "git_commit_execute read run arguments =
     (case parse_args read arguments of
        Inl refusal \<Rightarrow> (refusal, [])
      | Inr root \<Rightarrow>
          (case arg_str root ''message'' of
             None \<Rightarrow> (tool_error ''error: missing commit message'', [])
           | Some message \<Rightarrow>
               if message = [] then (tool_error ''error: missing commit message'', [])
               else git_result run (git [''commit'', ''-m'', message])))"

definition valid_target :: "string option \<Rightarrow> bool" where
  "valid_target target =
     (case target of
        None \<Rightarrow> False
      | Some t \<Rightarrow>
          if t = [] then False
          else if t = ''HEAD'' then True
          else if take 5 t = ''HEAD~'' \<and> drop 5 t \<noteq> [] then list_all isdigit (drop 5 t)
          else if length t < 7 \<or> length t > 40 then False
          else list_all isxdigit t)"

definition git_commit_preview :: "(string \<Rightarrow> json option) \<Rightarrow> git_runner \<Rightarrow> string option \<Rightarrow> tool_result \<times> string list list" where
  "git_commit_preview read run arguments =
     (case parse_args read arguments of
        Inl refusal \<Rightarrow> (refusal, [])
      | Inr root \<Rightarrow>
          (case arg_str root ''message'' of
             None \<Rightarrow> (tool_error ''error: missing commit message'', [])
           | Some message \<Rightarrow>
               if message = [] then (tool_error ''error: missing commit message'', [])
               else
                 (let (diff, argvs) = git_preview_result run (git [''diff'', ''--cached'', ''--stat'', ''--name-status'']) in
                  (\<lparr>tr_content = Some (''git commit message: '' @ message @ [newline, newline] @ ''staged changes:'' @ [newline] @
                       (case tr_content diff of None \<Rightarrow> [] | Some d \<Rightarrow> c_str d)),
                    tr_is_error = tr_is_error diff\<rparr>, argvs))))"

definition git_revert_preview :: "(string \<Rightarrow> json option) \<Rightarrow> git_runner \<Rightarrow> string option \<Rightarrow> tool_result \<times> string list list" where
  "git_revert_preview read run arguments =
     (case parse_args read arguments of
        Inl refusal \<Rightarrow> (refusal, [])
      | Inr root \<Rightarrow>
          (let target = arg_str root ''target'' in
           if \<not> valid_target target then (tool_error ''error: invalid revert target'', [])
           else git_preview_result run (git [''show'', ''-s'', ''--oneline'', the target])))"

definition git_revert_execute :: "(string \<Rightarrow> json option) \<Rightarrow> git_runner \<Rightarrow> string option \<Rightarrow> tool_result \<times> string list list" where
  "git_revert_execute read run arguments =
     (case parse_args read arguments of
        Inl refusal \<Rightarrow> (refusal, [])
      | Inr root \<Rightarrow>
          (let target = arg_str root ''target'' in
           if \<not> valid_target target then (tool_error ''error: target must be HEAD, HEAD~N, or a 7-40 digit commit id'', [])
           else git_result run (git [''revert'', ''--no-edit'', the target])))"

section \<open>What reaches git\<close>

text \<open>The argument vectors of the tools: every text of the model is behind \<open>--\<close> with no way out of
  the repository, the value of \<open>-m\<close>, or a revision that does not start with a dash.\<close>

definition guarded_argv :: "string list \<Rightarrow> bool" where
  "guarded_argv argv \<longleftrightarrow>
     argv \<in> {git [''status'', ''--porcelain''], git [''status'', ''--short''], git [''status'', ''--short'', ''--branch''],
             git [''rev-parse'', ''HEAD''], git [''diff'', ''--cached'', ''--stat'', ''--name-status''],
             git [''diff'', ''--no-ext-diff'', ''--stat'', ''--name-status'', ''--'']} \<or>
     (\<exists>path. argv = git [''diff'', ''--no-ext-diff'', ''--stat'', ''--name-status'', ''--'', path] \<and>
        path \<noteq> [] \<and> hd path \<noteq> CHR ''/'' \<and> safe_components path) \<or>
     (\<exists>message. argv = git [''commit'', ''-m'', message] \<and> message \<noteq> []) \<or>
     (\<exists>opts rev. argv = git (opts @ [rev]) \<and> opts \<in> {[''reset'', ''--hard''], [''show'', ''-s'', ''--oneline''], [''revert'', ''--no-edit'']} \<and>
        rev \<noteq> [] \<and> hd rev \<noteq> CHR ''-'')"

definition git_verb :: "string list \<Rightarrow> string" where
  "git_verb argv = argv ! 1"

lemma xdigit_no_dash: "list_all isxdigit t \<Longrightarrow> t \<noteq> [] \<Longrightarrow> hd t \<noteq> CHR ''-''"
  by (cases t) (auto simp: isxdigit_def Let_def)

lemma valid_target_no_dash: "valid_target (Some t) \<Longrightarrow> t \<noteq> [] \<and> hd t \<noteq> CHR ''-''"
  by (cases t) (auto simp: valid_target_def isxdigit_def Let_def split: if_splits)

lemma target_no_dash:
  assumes "valid_target t"
  shows "the t \<noteq> []" "hd (the t) \<noteq> CHR ''-''"
proof -
  from assms obtain a where "t = Some a" by (auto simp: valid_target_def split: option.splits)
  with assms valid_target_no_dash [of a] show "the t \<noteq> []" "hd (the t) \<noteq> CHR ''-''" by simp_all
qed

lemma valid_hash_no_dash: "valid_commit_hash h \<Longrightarrow> h \<noteq> [] \<and> hd h \<noteq> CHR ''-''"
  using xdigit_no_dash by (fastforce simp: valid_commit_hash_def)

lemma ran_one [simp]: "snd (git_result run argv) = [argv]" "snd (git_preview_result run argv) = [argv]"
    "snd (resolve_head run) = [git [''rev-parse'', ''HEAD'']]"
  by (simp_all add: git_result_def git_preview_result_def resolve_head_def Let_def split: prod.splits)

lemma load_valid: "load_checkpoint io cwd files = Some h \<Longrightarrow> valid_commit_hash h"
  by (auto simp: load_checkpoint_def Let_def split: option.splits if_splits)

lemma restore_runs:
  "snd (git_restore_checkpoint_execute run io cwd files) =
     (case load_checkpoint io cwd files of
        None \<Rightarrow> []
      | Some h \<Rightarrow> git [''rev-parse'', ''HEAD''] # (if fst (resolve_head run) = Some h then [git [''reset'', ''--hard'', h]] else []))"
proof (cases "load_checkpoint io cwd files")
  case (Some h)
  obtain c a where r: "resolve_head run = (c, a)" by (cases "resolve_head run") auto
  obtain res b where g: "git_result run (git [''reset'', ''--hard'', h]) = (res, b)" by (cases "git_result run (git [''reset'', ''--hard'', h])") auto
  have ab: "a = [git [''rev-parse'', ''HEAD'']]" "b = [git [''reset'', ''--hard'', h]]"
    using r g by (metis ran_one(1,3) snd_conv)+
  show ?thesis by (simp add: git_restore_checkpoint_execute_def Some r g ab Let_def)
qed (simp add: git_restore_checkpoint_execute_def)

lemma verb_of_git [simp]: "git_verb (git (v # args)) = v"
  by (simp add: git_verb_def git_def)

lemma guarded_fixed [simp]:
  "guarded_argv (git [''status'', ''--porcelain''])" "guarded_argv (git [''status'', ''--short''])"
  "guarded_argv (git [''status'', ''--short'', ''--branch''])" "guarded_argv (git [''rev-parse'', ''HEAD''])"
  "guarded_argv (git [''diff'', ''--cached'', ''--stat'', ''--name-status''])"
  "guarded_argv (git [''diff'', ''--no-ext-diff'', ''--stat'', ''--name-status'', ''--''])"
  by (simp_all only: guarded_argv_def insert_iff simp_thms)

lemma guarded_path [simp]:
  "safe_pathspec (Some p) \<Longrightarrow> guarded_argv (git [''diff'', ''--no-ext-diff'', ''--stat'', ''--name-status'', ''--'', p])"
  unfolding guarded_argv_def safe_pathspec_def by (intro disjI2 disjI1 exI [of _ p]) (simp split: if_splits)

lemma guarded_message [simp]: "m \<noteq> [] \<Longrightarrow> guarded_argv (git [''commit'', ''-m'', m])"
  unfolding guarded_argv_def by blast

lemma guarded_rev:
  assumes "opts \<in> {[''reset'', ''--hard''], [''show'', ''-s'', ''--oneline''], [''revert'', ''--no-edit'']}" "r \<noteq> []" "hd r \<noteq> CHR ''-''"
  shows "guarded_argv (git (opts @ [r]))"
  unfolding guarded_argv_def using assms by blast

lemmas guarded_revs [simp] = guarded_rev [of "[''reset'', ''--hard'']", simplified]
  guarded_rev [of "[''show'', ''-s'', ''--oneline'']", simplified] guarded_rev [of "[''revert'', ''--no-edit'']", simplified]

definition read_verbs :: "string set" where
  "read_verbs = {''status'', ''rev-parse'', ''diff'', ''show''}"

lemma in_read_verbs [simp]: "''status'' \<in> read_verbs" "''rev-parse'' \<in> read_verbs" "''diff'' \<in> read_verbs" "''show'' \<in> read_verbs"
  by (simp_all only: read_verbs_def insert_iff simp_thms)

lemma git_guarded:
  "(\<forall>argv \<in> set (snd (git_status_execute run)) \<union> set (snd (git_diff_execute read run arguments)) \<union>
       set (snd (git_commit_preview read run arguments)) \<union> set (snd (git_revert_preview read run arguments)) \<union>
       set (snd (git_restore_checkpoint_preview run io cwd files)) \<union> set (fst (snd (git_checkpoint_execute run io cwd files))).
      guarded_argv argv \<and> git_verb argv \<in> read_verbs) \<and>
   (\<forall>argv \<in> set (snd (git_commit_execute read run arguments)) \<union> set (snd (git_revert_execute read run arguments)) \<union>
       set (snd (git_restore_checkpoint_execute run io cwd files)). guarded_argv argv)"
proof -
  have status: "\<forall>argv \<in> set (snd (git_status_execute run)). guarded_argv argv \<and> git_verb argv \<in> read_verbs"
    by (simp add: git_status_execute_def Let_def split: prod.splits)
  have diff: "\<forall>argv \<in> set (snd (git_diff_execute read run arguments)). guarded_argv argv \<and> git_verb argv \<in> read_verbs"
    by (simp add: git_diff_execute_def Let_def split: sum.splits option.splits)
  have cp: "\<forall>argv \<in> set (snd (git_commit_preview read run arguments)). guarded_argv argv \<and> git_verb argv \<in> read_verbs"
    by (simp add: git_commit_preview_def case_prod_beta Let_def split: sum.splits option.splits)
  have rp: "\<forall>argv \<in> set (snd (git_revert_preview read run arguments)). guarded_argv argv \<and> git_verb argv \<in> read_verbs"
    by (simp add: git_revert_preview_def Let_def target_no_dash split: sum.splits)
  have pp: "\<forall>argv \<in> set (snd (git_restore_checkpoint_preview run io cwd files)). guarded_argv argv \<and> git_verb argv \<in> read_verbs"
    by (simp add: git_restore_checkpoint_preview_def Let_def split: option.splits prod.splits)
  have ck: "\<forall>argv \<in> set (fst (snd (git_checkpoint_execute run io cwd files))). guarded_argv argv \<and> git_verb argv \<in> read_verbs"
    by (simp add: git_checkpoint_execute_def case_prod_beta Let_def split: option.splits)
  have commit: "\<forall>argv \<in> set (snd (git_commit_execute read run arguments)). guarded_argv argv"
    by (simp add: git_commit_execute_def Let_def split: sum.splits option.splits)
  have revert: "\<forall>argv \<in> set (snd (git_revert_execute read run arguments)). guarded_argv argv"
    by (simp add: git_revert_execute_def Let_def target_no_dash split: sum.splits)
  have restore: "\<forall>argv \<in> set (snd (git_restore_checkpoint_execute run io cwd files)). guarded_argv argv"
  proof (cases "load_checkpoint io cwd files")
    case (Some h)
    with load_valid [OF Some] valid_hash_no_dash [of h] show ?thesis by (simp add: restore_runs)
  qed (simp add: restore_runs)
  show ?thesis unfolding ball_Un by (intro conjI status diff cp rp pp ck commit revert restore)
qed

section \<open>The tools\<close>

text \<open>The world of the git tools is the store of files and the vectors git was run on so far; what git answers may
  depend on both.  The six \<open>Tool\<close> objects at the end of the file have no asynchronous entry point.\<close>

record git_world =
  gw_files :: files
  gw_ran :: "string list list"

type_synonym git_entry = "git_runner \<Rightarrow> string option \<Rightarrow> files \<Rightarrow> tool_result \<times> string list list \<times> files"

definition on_git_world ::
  "(git_world \<Rightarrow> git_runner) \<Rightarrow> git_entry \<Rightarrow> string \<Rightarrow> git_world \<Rightarrow> (agent_error \<times> tool_result) \<times> git_world" where
  "on_git_world run f arguments w =
     (let (res, argvs, files) = f (run w) (Some arguments) (gw_files w) in
      ((AGENT_OK, res), \<lparr>gw_files = files, gw_ran = gw_ran w @ argvs\<rparr>))"

text \<open>An operation that touches no file of the store.\<close>

definition no_files :: "(git_runner \<Rightarrow> string option \<Rightarrow> files \<Rightarrow> tool_result \<times> string list list) \<Rightarrow> git_entry" where
  "no_files f = (\<lambda>run arguments files. let (res, argvs) = f run arguments files in (res, argvs, files))"

definition git_checkpoint_tool :: "(git_world \<Rightarrow> git_runner) \<Rightarrow> checkpoint_io \<Rightarrow> string option \<Rightarrow> git_world tool" where
  "git_checkpoint_tool run io cwd = \<lparr>t_name = ''git_checkpoint'',
     t_description = ''Save a clean HEAD checkpoint outside the repository for protected recovery.'',
     t_input_schema = ''{'' @ dquote @ ''type'' @ dquote @ '':'' @ dquote @ ''object'' @ dquote @ ''}'',
     t_flags = TOOL_FLAG_PARALLEL_SAFE, t_preview = None,
     t_execute = Some (on_git_world run (\<lambda>run _. git_checkpoint_execute run io cwd)), t_start = None\<rparr>"

definition git_restore_checkpoint_tool :: "(git_world \<Rightarrow> git_runner) \<Rightarrow> checkpoint_io \<Rightarrow> string option \<Rightarrow> git_world tool" where
  "git_restore_checkpoint_tool run io cwd = \<lparr>t_name = ''git_restore_checkpoint'',
     t_description = ''Restore tracked files to the saved clean checkpoint; untracked files remain untouched.'',
     t_input_schema = ''{'' @ dquote @ ''type'' @ dquote @ '':'' @ dquote @ ''object'' @ dquote @ ''}'',
     t_flags = TOOL_FLAG_APPROVAL_REQUIRED,
     t_preview = Some (on_git_world run (no_files (\<lambda>run _. git_restore_checkpoint_preview run io cwd))),
     t_execute = Some (on_git_world run (no_files (\<lambda>run _. git_restore_checkpoint_execute run io cwd))), t_start = None\<rparr>"

definition git_status_tool :: "(git_world \<Rightarrow> git_runner) \<Rightarrow> git_world tool" where
  "git_status_tool run = \<lparr>t_name = ''git_status'',
     t_description = ''Report branch and clean/dirty working-tree state for baseline checks.'',
     t_input_schema = ''{'' @ dquote @ ''type'' @ dquote @ '':'' @ dquote @ ''object'' @ dquote @ ''}'',
     t_flags = TOOL_FLAG_PARALLEL_SAFE, t_preview = None,
     t_execute = Some (on_git_world run (no_files (\<lambda>run _ _. git_status_execute run))), t_start = None\<rparr>"

text \<open>The schema of one string field.\<close>

definition field_schema :: "string \<Rightarrow> bool \<Rightarrow> string" where
  "field_schema name required =
     ''{'' @ dquote @ ''type'' @ dquote @ '':'' @ dquote @ ''object'' @ dquote @ '','' @ dquote @ ''properties'' @ dquote @ '':{'' @
     dquote @ name @ dquote @ '':{'' @ dquote @ ''type'' @ dquote @ '':'' @ dquote @ ''string'' @ dquote @ ''}}'' @
     (if required then '','' @ dquote @ ''required'' @ dquote @ '':['' @ dquote @ name @ dquote @ '']'' else []) @ ''}''"

definition git_diff_tool :: "(string \<Rightarrow> json option) \<Rightarrow> (git_world \<Rightarrow> git_runner) \<Rightarrow> git_world tool" where
  "git_diff_tool read run = \<lparr>t_name = ''git_diff'',
     t_description = ''Show a structured summary of tracked working-tree changes.'',
     t_input_schema = field_schema ''path'' False,
     t_flags = TOOL_FLAG_PARALLEL_SAFE, t_preview = None,
     t_execute = Some (on_git_world run (no_files (\<lambda>run arguments _. git_diff_execute read run arguments))), t_start = None\<rparr>"

definition git_commit_tool :: "(string \<Rightarrow> json option) \<Rightarrow> (git_world \<Rightarrow> git_runner) \<Rightarrow> git_world tool" where
  "git_commit_tool read run = \<lparr>t_name = ''git_commit'',
     t_description = ''Create a commit from already staged changes.'',
     t_input_schema = field_schema ''message'' True,
     t_flags = TOOL_FLAG_APPROVAL_REQUIRED,
     t_preview = Some (on_git_world run (no_files (\<lambda>run arguments _. git_commit_preview read run arguments))),
     t_execute = Some (on_git_world run (no_files (\<lambda>run arguments _. git_commit_execute read run arguments))), t_start = None\<rparr>"

definition git_revert_tool :: "(string \<Rightarrow> json option) \<Rightarrow> (git_world \<Rightarrow> git_runner) \<Rightarrow> git_world tool" where
  "git_revert_tool read run = \<lparr>t_name = ''git_revert'',
     t_description = ''Revert one validated commit target with --no-edit.'',
     t_input_schema = field_schema ''target'' True,
     t_flags = TOOL_FLAG_APPROVAL_REQUIRED,
     t_preview = Some (on_git_world run (no_files (\<lambda>run arguments _. git_revert_preview read run arguments))),
     t_execute = Some (on_git_world run (no_files (\<lambda>run arguments _. git_revert_execute read run arguments))), t_start = None\<rparr>"

definition git_tools ::
  "(string \<Rightarrow> json option) \<Rightarrow> (git_world \<Rightarrow> git_runner) \<Rightarrow> checkpoint_io \<Rightarrow> string option \<Rightarrow> git_world tool list" where
  "git_tools read run io cwd =
     [git_checkpoint_tool run io cwd, git_restore_checkpoint_tool run io cwd, git_status_tool run, git_diff_tool read run,
      git_commit_tool read run, git_revert_tool read run]"

text \<open>A step of the world that ran only vectors with \<open>ok\<close> and changed only files of \<open>own\<close>.\<close>

definition effects :: "(string list \<Rightarrow> bool) \<Rightarrow> string set \<Rightarrow> git_world \<Rightarrow> git_world \<Rightarrow> bool" where
  "effects ok own w w' \<longleftrightarrow>
     (\<exists>argvs. gw_ran w' = gw_ran w @ argvs \<and> (\<forall>argv \<in> set argvs. ok argv)) \<and>
     (\<forall>p. p \<notin> own \<longrightarrow> gw_files w' p = gw_files w p)"

definition reading :: "string list \<Rightarrow> bool" where
  "reading argv \<longleftrightarrow> guarded_argv argv \<and> git_verb argv \<in> read_verbs"

text \<open>The checkpoint of a directory and the temporary file it is written through.\<close>

definition checkpoint_files :: "checkpoint_io \<Rightarrow> string option \<Rightarrow> string set" where
  "checkpoint_files io cwd =
     {checkpoint_file (ck_home io) cwd, checkpoint_file (ck_home io) cwd @ ''.tmp.'' @ show_nat (ck_pid io)}"

lemma effects_no_files:
  "effects ok own w (snd (on_git_world run (no_files f) arguments w)) \<longleftrightarrow>
     (\<forall>argv \<in> set (snd (f (run w) (Some arguments) (gw_files w))). ok argv)"
  by (auto simp: effects_def on_git_world_def no_files_def case_prod_beta Let_def)

lemma checkpoint_writes:
  "p \<notin> checkpoint_files io cwd \<Longrightarrow> snd (snd (git_checkpoint_execute run io cwd files)) p = files p"
  by (auto simp: git_checkpoint_execute_def save_checkpoint_def checkpoint_path_def checkpoint_files_def case_prod_beta Let_def
      split: option.splits)

lemma effects_checkpoint:
  "effects reading (checkpoint_files io cwd) w
     (snd (on_git_world run (\<lambda>run _. git_checkpoint_execute run io cwd) arguments w))"
  using git_guarded [of _ undefined] checkpoint_writes
  by (simp add: effects_def on_git_world_def reading_def case_prod_beta Let_def ball_Un)


section \<open>Checkpoints and resets\<close>

lemma strip_plain: "x \<noteq> [] \<Longrightarrow> last x \<noteq> newline \<Longrightarrow> last x \<noteq> CHR 0x0D \<Longrightarrow> strip_eol (x @ [newline]) = x"
  by (cases x rule: rev_cases) (auto simp: strip_eol_def)

lemma xdigit_plain: "isxdigit c \<Longrightarrow> c \<noteq> newline \<and> c \<noteq> CHR 0x0D \<and> c \<noteq> CHR 0x00"
  by (auto simp: isxdigit_def Let_def)

lemma load_saved:
  assumes "valid_commit_hash h" "checkpoint_path io cwd PATH_MAX = Some path" "files path = Some (h @ [newline])"
  shows "load_checkpoint io cwd files = Some h"
proof -
  have plain: "\<forall>c \<in> set h. c \<noteq> newline \<and> c \<noteq> CHR 0x0D \<and> c \<noteq> CHR 0x00" and len: "length h = 40"
    using assms(1) xdigit_plain by (auto simp: valid_commit_hash_def list_all_iff)
  then have "takeWhile (\<lambda>c. c \<noteq> newline) (h @ [newline]) = h" by (induction h) auto
  moreover have "h \<noteq> []" using len by auto
  moreover have "c_str (h @ [newline]) = h @ [newline]"
    using plain by (intro c_str_id) (auto simp: no_nul_def)
  moreover have "last h \<noteq> newline" "last h \<noteq> CHR 0x0D" using plain \<open>h \<noteq> []\<close> last_in_set by blast+
  ultimately show ?thesis
    using assms len by (simp add: load_checkpoint_def Let_def strip_plain)
qed

text \<open>C25: a checkpoint that was saved is the commit of a clean working tree, and it is the one that is restored: with
  the same commit checked out, a restore resets to it, with any other it runs no reset.  A
  checkpoint that could not be saved leaves the one before it in place.\<close>

theorem checkpoint_roundtrip:
  assumes "git_checkpoint_execute run io cwd files = (res, argvs, files')"
  shows "if tr_is_error res
     then files' (checkpoint_file (ck_home io) cwd) = files (checkpoint_file (ck_home io) cwd)
     else \<exists>h. fst (resolve_head run) = Some h \<and> valid_commit_hash h \<and>
       pr_out (snd (run GIT_TIMEOUT_MS GIT_OUTPUT_CAP (git [''status'', ''--porcelain'']))) = [] \<and>
       git_checkpoint_available files' (ck_home io) cwd \<and>
       (\<forall>run'. snd (git_restore_checkpoint_execute run' io cwd files') =
          git [''rev-parse'', ''HEAD''] # (if fst (resolve_head run') = Some h then [git [''reset'', ''--hard'', h]] else []))"
proof -
  let ?path = "checkpoint_file (ck_home io) cwd"
  have path: "checkpoint_path io cwd PATH_MAX = Some p \<Longrightarrow> p = ?path \<and> length p < PATH_MAX" for p
    by (auto simp: checkpoint_path_def Let_def split: if_splits)
  have kept: "save_checkpoint io ?path h files = (rc, f) \<Longrightarrow> rc \<noteq> AGENT_OK \<Longrightarrow> f ?path = files ?path" for h rc f
    by (auto simp: save_checkpoint_def Let_def split: if_splits)
  have saved: "save_checkpoint io ?path h files = (AGENT_OK, f) \<Longrightarrow> f ?path = Some (h @ [newline])" for h f
    by (auto simp: save_checkpoint_def Let_def split: if_splits)
  show ?thesis
  proof (cases "tr_is_error res")
    case True
    with assms show ?thesis
      by (auto simp: git_checkpoint_execute_def tool_error_def tool_text_def case_prod_beta Let_def
          split: if_splits option.splits prod.splits dest: path intro: kept [OF prod.collapse [symmetric]])
  next
    case False
    with assms obtain h p where h: "fst (resolve_head run) = Some h" "valid_commit_hash h"
        "pr_out (snd (run GIT_TIMEOUT_MS GIT_OUTPUT_CAP (git [''status'', ''--porcelain'']))) = []"
        "checkpoint_path io cwd PATH_MAX = Some p" "save_checkpoint io p h files = (AGENT_OK, files')"
      by (auto simp: git_checkpoint_execute_def tool_error_def case_prod_beta Let_def prod_eq_iff
          split: if_splits option.splits)
    with path saved have stored: "files' p = Some (h @ [newline])" "p = ?path" "length p < PATH_MAX" by auto
    then have "load_checkpoint io cwd files' = Some h" using load_saved h by blast
    with h stored False show ?thesis by (auto simp: restore_runs git_checkpoint_available_def Let_def)
  qed
qed

text \<open>A reset runs only for the commit of a valid checkpoint, and only while that very commit is checked out, so
  that it never moves the branch.\<close>

theorem reset_same_head:
  assumes "argv \<in> set (snd (git_restore_checkpoint_execute run io cwd files))" and "git_verb argv \<noteq> ''rev-parse''"
  shows "\<exists>h. argv = git [''reset'', ''--hard'', h] \<and> valid_commit_hash h \<and> load_checkpoint io cwd files = Some h \<and>
     fst (resolve_head run) = Some h"
proof (cases "load_checkpoint io cwd files")
  case (Some h)
  with assms load_valid [OF Some] show ?thesis by (simp add: restore_runs split: if_splits) (metis verb_of_git)
qed (use assms in \<open>simp add: restore_runs\<close>)

section \<open>Examples\<close>

definition zeros :: string where
  "zeros = replicate 40 (CHR ''0'')"

definition clean_repo :: git_runner where
  "clean_repo timeout cap argv =
     (AGENT_OK, \<lparr>pr_exit_code = 0, pr_timed_out = False, pr_output_capped = False,
        pr_out = (if argv = git [''rev-parse'', ''HEAD''] then zeros @ [newline] else [])\<rparr>)"

definition home_io :: checkpoint_io where
  "home_io = \<lparr>ck_home = Some ''/h'', ck_mkdir = (\<lambda>_. True), ck_pid = 7, ck_open = True, ck_fdopen = True, ck_wrote = True,
     ck_closed = True, ck_renamed = True\<rparr>"

lemma clean_head: "fst (resolve_head clean_repo) = Some zeros"
proof -
  have "strip_eol (zeros @ [newline]) = zeros" by (rule strip_plain) (simp_all add: zeros_def)
  moreover have "c_str zeros = zeros" by (rule c_str_id) (simp add: no_nul_def zeros_def)
  ultimately show ?thesis by (simp add: resolve_head_def clean_repo_def)
qed

lemma zeros_valid: "valid_commit_hash zeros"
  by (simp add: valid_commit_hash_def zeros_def isxdigit_def list_all_iff)

lemma home_path: "checkpoint_path home_io (Some ''/w'') PATH_MAX = Some (checkpoint_file (Some ''/h'') (Some ''/w''))"
  by (simp add: checkpoint_path_def checkpoint_file_def checkpoint_dirs_def home_io_def home_dir_def hex16_def PATH_MAX_def)

lemma saved_example:
  "\<exists>argvs. git_checkpoint_execute clean_repo home_io (Some ''/w'') Map.empty =
     (tool_text ''git checkpoint saved (clean HEAD)'', argvs,
      Map.empty (checkpoint_file (Some ''/h'') (Some ''/w'') \<mapsto> zeros @ [newline]))"
proof -
  have short: "length (checkpoint_file (Some ''/h'') (Some ''/w'') @ ''.tmp.'' @ show_nat 7) < PATH_MAX"
    by (simp add: checkpoint_file_def home_dir_def hex16_def PATH_MAX_def show_nat.simps)
  have "git [''status'', ''--porcelain''] \<noteq> git [''rev-parse'', ''HEAD'']" by (simp add: git_def)
  moreover obtain a where "resolve_head clean_repo = (Some zeros, a)" by (metis clean_head prod.collapse)
  moreover have "save_checkpoint home_io (checkpoint_file (Some ''/h'') (Some ''/w'')) zeros Map.empty =
      (AGENT_OK, Map.empty (checkpoint_file (Some ''/h'') (Some ''/w'') \<mapsto> zeros @ [newline]))"
    using short by (simp add: save_checkpoint_def home_io_def Let_def)
  ultimately show ?thesis
    by (simp add: git_checkpoint_execute_def clean_repo_def [of _ _ "git [''status'', ''--porcelain'']"] zeros_valid home_path Let_def)
qed


theorem checkpoint_roundtrip_witness:
  "\<exists>res argvs files. git_checkpoint_execute clean_repo home_io (Some ''/w'') Map.empty = (res, argvs, files) \<and>
     snd (git_restore_checkpoint_execute clean_repo home_io (Some ''/w'') files) =
       [git [''rev-parse'', ''HEAD''], git [''reset'', ''--hard'', zeros]]"
proof -
  obtain argvs where s: "git_checkpoint_execute clean_repo home_io (Some ''/w'') Map.empty =
     (tool_text ''git checkpoint saved (clean HEAD)'', argvs,
      Map.empty (checkpoint_file (Some ''/h'') (Some ''/w'') \<mapsto> zeros @ [newline]))" using saved_example by blast
  from checkpoint_roundtrip [OF s] clean_head show ?thesis by (auto simp: tool_text_def s)
qed

theorem reset_same_head_witness:
  "git_verb (git [''reset'', ''--hard'', zeros]) \<noteq> ''rev-parse'' \<and> valid_commit_hash zeros"
proof -
  let ?files = "Map.empty (checkpoint_file (Some ''/h'') (Some ''/w'') \<mapsto> zeros @ [newline])"
  have "load_checkpoint home_io (Some ''/w'') ?files = Some zeros" by (rule load_saved [OF zeros_valid home_path]) simp
  then have m: "git [''reset'', ''--hard'', zeros] \<in> set (snd (git_restore_checkpoint_execute clean_repo home_io (Some ''/w'') ?files))"
    by (simp add: restore_runs clean_head)
  have v: "git_verb (git [''reset'', ''--hard'', zeros]) \<noteq> ''rev-parse''" by simp
  from reset_same_head [OF m v] have "valid_commit_hash zeros" by (auto simp: git_def)
  with v show ?thesis by blast
qed

end
