(* ===== verification/Plan_Tool.thy ===== *)
theory Plan_Tool
  imports File_Tools
begin

text \<open>
  The plan tool, \<open>src/src/tool/plan.c\<close>: steps with a status that live in \<open>.cagent/plan.json\<close>.  A file
  system is the contents of its files; what the operating system answers during one call is the
  record \<open>plan_io\<close>.  Allocations succeed, and \<open>unlink\<close> removes the temporary file.
\<close>

section \<open>Steps and their file\<close>

record plan_step =
  ps_id :: string
  ps_title :: string
  ps_acceptance :: string
  ps_status :: string
  ps_result :: "string option"
  ps_attempts :: int

text \<open>\<open>pl_read\<close> is what \<open>fread\<close> returns, at most the size; \<open>pl_suffix\<close> replaces the six letters of the
  template of \<open>mkstemp\<close>.\<close>

record plan_io =
  pl_open :: bool
  pl_seek :: bool
  pl_read :: nat
  pl_mkdir :: bool
  pl_suffix :: string
  pl_mkstemp :: bool
  pl_fdopen :: bool
  pl_write :: bool
  pl_flush :: bool
  pl_close :: bool
  pl_rename :: bool

definition plan_path :: "string option \<Rightarrow> nat \<Rightarrow> string option" where
  "plan_path cwd cap =
     (let path = (case cwd of None \<Rightarrow> ''.'' | Some d \<Rightarrow> d) @ ''/.cagent/plan.json'' in
      if length path \<ge> cap then None else Some path)"

definition PLAN_MAX_BYTES :: nat where
  "PLAN_MAX_BYTES = 1024 * 1024"

definition text_or :: "string \<Rightarrow> string option \<Rightarrow> string" where
  "text_or dflt s = (case s of None \<Rightarrow> dflt | Some t \<Rightarrow> t)"

text \<open>One element of \<open>steps\<close>; an element without id or title is skipped.\<close>

definition plan_item :: "json \<Rightarrow> plan_step option" where
  "plan_item item =
     (case (c_get_str (Some item) ''id'', c_get_str (Some item) ''title'') of
        (Some i, Some title) \<Rightarrow>
          if i = [] \<or> title = [] then None
          else Some \<lparr>ps_id = i, ps_title = title, ps_acceptance = text_or [] (c_get_str (Some item) ''acceptance''),
                     ps_status = text_or ''pending'' (c_get_str (Some item) ''status''),
                     ps_result = c_get_str (Some item) ''result'', ps_attempts = json_obj_get_int (Some item) ''attempts'' 0\<rparr>
      | _ \<Rightarrow> None)"

definition plan_load :: "(string \<Rightarrow> json option) \<Rightarrow> plan_io \<Rightarrow> files \<Rightarrow> string \<Rightarrow> agent_error \<times> plan_step list" where
  "plan_load read io files path =
     (case files path of
        None \<Rightarrow> (AGENT_OK, [])
      | Some content \<Rightarrow>
          if \<not> pl_open io then (AGENT_ERR_IO, [])
          else if \<not> pl_seek io \<or> length content > PLAN_MAX_BYTES then (AGENT_ERR_IO, [])
          else
            (case json_val_obj_get (json_parse read (take (pl_read io) content)) ''steps'' of
               Some (JArr vs) \<Rightarrow> (AGENT_OK, List.map_filter plan_item vs)
             | _ \<Rightarrow> (AGENT_ERR_JSON, [])))"

definition step_json :: "plan_step \<Rightarrow> json" where
  "step_json s =
     JObj ([(''id'', JStr (ps_id s)), (''title'', JStr (ps_title s)), (''acceptance'', JStr (ps_acceptance s)),
            (''status'', JStr (ps_status s)), (''attempts'', JInt (ps_attempts s))] @
           (case ps_result s of None \<Rightarrow> [] | Some r \<Rightarrow> [(''result'', JStr r)]))"

definition plan_json :: "plan_step list \<Rightarrow> json" where
  "plan_json plan = JObj [(''steps'', JArr (map step_json plan)), (''version'', JInt 1)]"

definition plan_save :: "(json \<Rightarrow> string option) \<Rightarrow> plan_io \<Rightarrow> files \<Rightarrow> string \<Rightarrow> plan_step list \<Rightarrow> agent_error \<times> files" where
  "plan_save render io files path plan =
     (if length path \<ge> PATH_MAX \<or> CHR ''/'' \<notin> set path \<or> \<not> pl_mkdir io then (AGENT_ERR_IO, files)
      else
        (let (rc, data) = json_builder_stringify render (plan_json plan) []; temp = path @ ''.tmp.'' @ pl_suffix io in
         if rc \<noteq> AGENT_OK then (rc, files)
         else if length temp \<ge> PATH_MAX \<or> \<not> pl_mkstemp io then (AGENT_ERR_IO, files)
         else if \<not> pl_fdopen io then (AGENT_ERR_IO, files(temp := None))
         else if \<not> pl_write io \<or> \<not> pl_flush io \<or> \<not> pl_close io \<or> \<not> pl_rename io then (AGENT_ERR_IO, files(temp := None))
         else (AGENT_OK, files(temp := None, path := Some (data @ [newline])))))"

section \<open>The tool\<close>

definition find_step :: "plan_step list \<Rightarrow> string \<Rightarrow> plan_step option" where
  "find_step plan i = find (\<lambda>s. ps_id s = i) plan"

text \<open>The step a pointer from \<open>find_step\<close> stands for is changed in place.\<close>

fun change_step :: "string \<Rightarrow> (plan_step \<Rightarrow> plan_step) \<Rightarrow> plan_step list \<Rightarrow> plan_step list" where
  "change_step i f [] = []"
| "change_step i f (s # ss) = (if ps_id s = i then f s # ss else s # change_step i f ss)"

definition set_status :: "string \<Rightarrow> string option \<Rightarrow> plan_step \<Rightarrow> plan_step" where
  "set_status status result step = step\<lparr>ps_status := status, ps_result := result\<rparr>"

definition step_text :: "plan_step \<Rightarrow> string" where
  "step_text s =
     ps_id s @ '' ['' @ ps_status s @ ''] '' @ ps_title s @ '' (attempts='' @ show_int (ps_attempts s) @ '')'' @ [newline] @
     ''  acceptance: '' @ ps_acceptance s @ [newline] @
     (case ps_result s of None \<Rightarrow> [] | Some r \<Rightarrow> ''  result: '' @ r @ [newline])"

definition new_step :: "string \<Rightarrow> string \<Rightarrow> string option \<Rightarrow> plan_step" where
  "new_step i title acceptance =
     \<lparr>ps_id = i, ps_title = title, ps_acceptance = text_or [] acceptance, ps_status = ''pending'', ps_result = None, ps_attempts = 0\<rparr>"

definition save_result :: "string \<Rightarrow> agent_error \<times> files \<Rightarrow> tool_result \<times> files" where
  "save_result done_text saved =
     (if fst saved = AGENT_OK then tool_text done_text else tool_error ''error: cannot save project plan'', snd saved)"

definition plan_add ::
  "(json \<Rightarrow> string option) \<Rightarrow> plan_io \<Rightarrow> files \<Rightarrow> string \<Rightarrow> plan_step list \<Rightarrow> json option \<Rightarrow> tool_result \<times> files" where
  "plan_add render io files path plan root =
     (case (c_get_str root ''id'', c_get_str root ''title'') of
        (Some i, Some title) \<Rightarrow>
          if find_step plan i \<noteq> None then (tool_error ''error: add requires a unique id and title'', files)
          else save_result ''plan step added''
                 (plan_save render io files path (plan @ [new_step i title (c_get_str root ''acceptance'')]))
      | _ \<Rightarrow> (tool_error ''error: add requires a unique id and title'', files))"

text \<open>What \<open>complete\<close>, \<open>fail\<close> and \<open>reset\<close> do to a step.\<close>

definition close_step :: "string \<Rightarrow> json option \<Rightarrow> plan_step \<Rightarrow> plan_step" where
  "close_step action root step =
     (let v = c_get_str root (if action = ''fail'' then ''error'' else ''result'');
          status = (if action = ''complete'' then ''completed'' else if action = ''fail'' then ''failed'' else ''pending'') in
      set_status status v (if action = ''fail'' then step\<lparr>ps_attempts := ps_attempts step + 1\<rparr> else step))"

definition plan_update ::
  "(json \<Rightarrow> string option) \<Rightarrow> plan_io \<Rightarrow> files \<Rightarrow> string \<Rightarrow> plan_step list \<Rightarrow> string \<Rightarrow> json option \<Rightarrow> tool_result \<times> files" where
  "plan_update render io files path plan action root =
     (case c_get_str root ''id'' of
        None \<Rightarrow> (tool_error ''error: unknown plan step id'', files)
      | Some i \<Rightarrow>
          if find_step plan i = None then (tool_error ''error: unknown plan step id'', files)
          else if action = ''start'' then
            save_result ''plan step started'' (plan_save render io files path (change_step i (set_status ''in_progress'' None) plan))
          else if action = ''complete'' \<or> action = ''fail'' \<or> action = ''reset'' then
            save_result ''plan step updated'' (plan_save render io files path (change_step i (close_step action root) plan))
          else (tool_error ''error: unknown plan action'', files))"

definition plan_list :: "agent_error \<times> plan_step list \<Rightarrow> tool_result" where
  "plan_list loaded =
     (if fst loaded \<noteq> AGENT_OK then tool_error ''error: plan operation failed''
      else tool_text (if snd loaded = [] then ''(no plan steps)'' @ [newline] else concat (map step_text (snd loaded))))"

definition plan_execute ::
  "(string \<Rightarrow> json option) \<Rightarrow> (json \<Rightarrow> string option) \<Rightarrow> plan_io \<Rightarrow> string option \<Rightarrow> string option \<Rightarrow> files \<Rightarrow> tool_result \<times> files" where
  "plan_execute read render io cwd arguments files =
     (let root = json_parse read (case arguments of None \<Rightarrow> ''{}'' | Some a \<Rightarrow> a) in
      case c_get_str root ''action'' of
        None \<Rightarrow> (tool_error ''error: missing plan action (list/add/start/complete/fail/reset)'', files)
      | Some action \<Rightarrow>
          (case plan_path cwd PATH_MAX of
             None \<Rightarrow> (tool_error ''error: cannot load project plan'', files)
           | Some path \<Rightarrow>
               (let (rc, plan) = plan_load read io files path in
                if action = ''list'' then (plan_list (rc, plan), files)
                else if rc \<noteq> AGENT_OK then (tool_error ''error: cannot load project plan'', files)
                else if action = ''add'' then plan_add render io files path plan root
                else plan_update render io files path plan action root)))"

definition plan_summary :: "(string \<Rightarrow> json option) \<Rightarrow> plan_io \<Rightarrow> string option \<Rightarrow> files \<Rightarrow> agent_error \<times> string" where
  "plan_summary read io cwd files =
     (case plan_path cwd PATH_MAX of
        None \<Rightarrow> (AGENT_ERR_IO, [])
      | Some path \<Rightarrow>
          (let (rc, plan) = plan_load read io files path in
           if rc \<noteq> AGENT_OK then (rc, []) else (AGENT_OK, concat (map step_text plan))))"

section \<open>Saving and loading\<close>

text \<open>The strings of a step are C strings, its counter an \<open>int64_t\<close>.\<close>

definition step_ok :: "plan_step \<Rightarrow> bool" where
  "step_ok s \<longleftrightarrow> no_nul (ps_id s) \<and> no_nul (ps_title s) \<and> no_nul (ps_acceptance s) \<and> no_nul (ps_status s) \<and>
     (case ps_result s of None \<Rightarrow> True | Some r \<Rightarrow> no_nul r) \<and> - (2 ^ 63) \<le> ps_attempts s \<and> ps_attempts s < 2 ^ 63"

text \<open>The steps that loading keeps.\<close>

definition named_step :: "plan_step \<Rightarrow> bool" where
  "named_step s \<longleftrightarrow> ps_id s \<noteq> [] \<and> ps_title s \<noteq> []"

definition plan_readable :: "plan_io \<Rightarrow> files \<Rightarrow> string \<Rightarrow> bool" where
  "plan_readable io files path \<longleftrightarrow>
     pl_open io \<and> pl_seek io \<and> (\<forall>d. files path = Some d \<longrightarrow> length d \<le> PLAN_MAX_BYTES \<and> length d \<le> pl_read io)"

lemma int64_wrap_range: "- (2 ^ 63) \<le> int64_wrap i \<and> int64_wrap i < 2 ^ 63"
  by (simp add: int64_wrap_def)

lemma get_int_range: "- (2 ^ 63) \<le> json_obj_get_int obj key 0 \<and> json_obj_get_int obj key 0 < 2 ^ 63"
  using int64_wrap_range by (auto simp: json_obj_get_int_def split: option.splits json.splits)

lemma c_get_str_no_nul: "c_get_str obj key = Some s \<Longrightarrow> no_nul s"
  by (auto simp: c_get_str_def)

lemma text_or_no_nul: "no_nul dflt \<Longrightarrow> no_nul (text_or dflt (c_get_str obj key))"
  by (auto simp: text_or_def dest: c_get_str_no_nul split: option.splits)

lemma plan_item_ok: "plan_item item = Some s \<Longrightarrow> step_ok s \<and> named_step s"
  using get_int_range [of "Some item" "''attempts''"] text_or_no_nul [of "''pending''" "Some item" "''status''"]
    text_or_no_nul [of "[]" "Some item" "''acceptance''"]
  by (auto simp: plan_item_def step_ok_def named_step_def no_nul_def dest: c_get_str_no_nul [unfolded no_nul_def]
      split: option.splits if_splits)

lemma plan_item_json: "step_ok s \<Longrightarrow> plan_item (step_json s) = (if named_step s then Some s else None)"
  by (cases s; cases "ps_result s")
    (auto simp: plan_item_def step_json_def step_ok_def named_step_def text_or_def c_get_str_def json_simps json_val_str_def
      c_str_simps int64_wrap_id)

lemma plan_items_json: "\<forall>s \<in> set plan. step_ok s \<Longrightarrow> List.map_filter plan_item (map step_json plan) = filter named_step plan"
  by (induction plan) (auto simp: List.map_filter_simps plan_item_json)

lemma map_filter_member: "y \<in> set (List.map_filter f xs) \<longleftrightarrow> (\<exists>x \<in> set xs. f x = Some y)"
  by (induction xs) (auto simp: List.map_filter_simps split: option.splits)

lemma plan_load_ok: "plan_load read io files path = (AGENT_OK, plan) \<Longrightarrow> \<forall>s \<in> set plan. step_ok s \<and> named_step s"
  by (auto simp: plan_load_def map_filter_member plan_item_ok split: option.splits json.splits if_splits)

lemma plan_save_ok:
  assumes "plan_save render io files path plan = (AGENT_OK, files')"
  shows "\<exists>data. render (plan_json plan) = Some data \<and> files' path = Some (data @ [newline])"
  using assms by (auto simp: plan_save_def json_builder_stringify_def Let_def split: option.splits if_splits)

lemma plan_save_failed:
  assumes "plan_save render io files path plan = (rc, files')" and "rc \<noteq> AGENT_OK"
  shows "files' path = files path"
  using assms by (auto simp: plan_save_def Let_def split: prod.splits if_splits)

lemma saved_plan_loads:
  assumes "plan_save render io files path plan = (AGENT_OK, files')" and "reads_back read render"
    and "\<forall>s \<in> set plan. step_ok s" and "plan_readable io' files' path"
  shows "plan_load read io' files' path = (AGENT_OK, filter named_step plan)"
proof -
  from plan_save_ok [OF assms(1)] obtain data where d: "render (plan_json plan) = Some data" "files' path = Some (data @ [newline])"
    by blast
  with assms(2) have "read (data @ [newline]) = Some (plan_json plan)" by (simp add: reads_back_def)
  moreover have "take (pl_read io') (data @ [newline]) = data @ [newline]" using d(2) assms(4) by (auto simp: plan_readable_def)
  ultimately show ?thesis
    using d(2) assms(4) plan_items_json [OF assms(3)] by (simp del: take_append add: plan_load_def plan_readable_def json_parse_def plan_json_def json_val_obj_get_def)
qed

text \<open>A plan that was saved is loaded back as it was, as long as its steps have an id and a title.\<close>

theorem plan_save_load:
  assumes "plan_save render io files path plan = (AGENT_OK, files')" and "reads_back read render"
    and "\<forall>s \<in> set plan. step_ok s \<and> named_step s" and "plan_readable io' files' path"
  shows "plan_load read io' files' path = (AGENT_OK, plan)"
  using saved_plan_loads [OF assms(1,2) _ assms(4)] assms(3) by (simp add: filter_id_conv)

section \<open>What a call does to the plan\<close>

text \<open>The plan as a list of steps: the list after an accepted call, \<open>None\<close> where the call changes nothing.\<close>

definition plan_effect :: "string \<Rightarrow> json option \<Rightarrow> plan_step list \<Rightarrow> plan_step list option" where
  "plan_effect action root plan =
     (let i = c_get_str root ''id''; known = (\<exists>s \<in> set plan. Some (ps_id s) = i) in
      if action = ''add'' then
        (if i = None \<or> c_get_str root ''title'' = None \<or> known then None
         else Some (plan @ [new_step (the i) (the (c_get_str root ''title'')) (c_get_str root ''acceptance'')]))
      else if \<not> known then None
      else if action = ''start'' then Some (change_step (the i) (set_status ''in_progress'' None) plan)
      else if action = ''complete'' \<or> action = ''fail'' \<or> action = ''reset'' then Some (change_step (the i) (close_step action root) plan)
      else None)"

lemma find_step_known: "find_step plan i \<noteq> None \<longleftrightarrow> (\<exists>s \<in> set plan. ps_id s = i)"
  by (auto simp: find_step_def find_None_iff)

lemma step_ok_status:
  "step_ok s \<Longrightarrow> no_nul status \<Longrightarrow> (case r of None \<Rightarrow> True | Some t \<Rightarrow> no_nul t) \<Longrightarrow> step_ok (set_status status r s)"
  by (simp add: step_ok_def set_status_def)

lemma step_ok_close:
  assumes "step_ok s" and "ps_attempts s < 2 ^ 63 - 1"
  shows "step_ok (close_step action root s)"
proof -
  have "no_nul ''completed''" "no_nul ''failed''" "no_nul ''pending''" by (simp_all add: no_nul_def)
  moreover have "case c_get_str root k of None \<Rightarrow> True | Some t \<Rightarrow> no_nul t" for k
    by (auto dest: c_get_str_no_nul split: option.splits)
  moreover have "step_ok (s\<lparr>ps_attempts := ps_attempts s + 1\<rparr>)" using assms by (simp add: step_ok_def)
  ultimately show ?thesis using assms(1) by (simp add: close_step_def step_ok_status Let_def)
qed

lemma change_step_all: "\<forall>s \<in> set plan. P s \<Longrightarrow> \<forall>s \<in> set plan. P (f s) \<Longrightarrow> \<forall>s \<in> set (change_step i f plan). P s"
  by (induction plan) auto

lemma change_step_ids: "(\<And>s. ps_id (f s) = ps_id s) \<Longrightarrow> map ps_id (change_step i f plan) = map ps_id plan"
  by (induction plan) auto

lemma set_status_id [simp]: "ps_id (set_status status r s) = ps_id s" "ps_id (close_step action root s) = ps_id s"
  "ps_title (set_status status r s) = ps_title s" "ps_title (close_step action root s) = ps_title s"
  by (simp_all add: set_status_def close_step_def Let_def)

lemma plan_effect_cases:
  assumes "plan_effect action root plan = Some plan1"
  shows "(\<exists>i t. c_get_str root ''id'' = Some i \<and> c_get_str root ''title'' = Some t \<and> (\<forall>s \<in> set plan. ps_id s \<noteq> i) \<and>
        plan1 = plan @ [new_step i t (c_get_str root ''acceptance'')]) \<or>
     (\<exists>i f. c_get_str root ''id'' = Some i \<and> plan1 = change_step i f plan \<and>
        (f = set_status ''in_progress'' None \<or> f = close_step action root))"
proof (cases "action = ''add''")
  case True
  with assms show ?thesis by (auto simp: plan_effect_def Let_def split: if_splits)
next
  case False
  with assms have "plan1 = change_step (the (c_get_str root ''id'')) (set_status ''in_progress'' None) plan \<or>
      plan1 = change_step (the (c_get_str root ''id'')) (close_step action root) plan"
    and "\<exists>s \<in> set plan. Some (ps_id s) = c_get_str root ''id''"
    unfolding plan_effect_def Let_def by (metis (no_types, lifting) option.distinct(1) option.inject)+
  then show ?thesis by (metis option.sel)
qed

lemma plan_effect_ok:
  assumes "plan_effect action root plan = Some plan1" and "\<forall>s \<in> set plan. step_ok s \<and> ps_attempts s < 2 ^ 63 - 1"
  shows "\<forall>s \<in> set plan1. step_ok s"
  using plan_effect_cases [OF assms(1)]
proof (elim disjE exE conjE)
  fix i t assume n: "c_get_str root ''id'' = Some i" "c_get_str root ''title'' = Some t"
    "plan1 = plan @ [new_step i t (c_get_str root ''acceptance'')]"
  have "step_ok (new_step i t (c_get_str root ''acceptance''))"
    using n(1,2) text_or_no_nul [of "[]" root "''acceptance''"]
    by (auto simp: step_ok_def new_step_def no_nul_def dest: c_get_str_no_nul [unfolded no_nul_def])
  with n(3) assms(2) show ?thesis by auto
next
  fix i f assume "plan1 = change_step i f plan" "f = set_status ''in_progress'' None"
  moreover have "step_ok s \<Longrightarrow> step_ok (set_status ''in_progress'' None s)" for s by (simp add: step_ok_status no_nul_def)
  ultimately show ?thesis using change_step_all [of plan step_ok f i] assms(2) by blast
next
  fix i f assume "plan1 = change_step i f plan" "f = close_step action root"
  then show ?thesis using change_step_all [of plan step_ok f i] assms(2) step_ok_close by blast
qed

lemma save_result_saved:
  "save_result txt saved = (res, files') \<Longrightarrow> \<exists>rc. saved = (rc, files') \<and> (tr_is_error res \<longleftrightarrow> rc \<noteq> AGENT_OK)"
  by (cases saved) (auto simp: save_result_def tool_text_def tool_error_def)

lemma plan_effect_saved:
  assumes "plan_load read io files path = (AGENT_OK, plan)" and "plan_path cwd PATH_MAX = Some path"
    and "c_get_str (json_parse read (text_or ''{}'' arguments)) ''action'' = Some action"
    and "plan_execute read render io cwd arguments files = (res, files')"
  shows "case plan_effect action (json_parse read (text_or ''{}'' arguments)) plan of
      None \<Rightarrow> files' = files \<and> (action \<noteq> ''list'' \<longrightarrow> tr_is_error res)
    | Some plan1 \<Rightarrow> (\<exists>rc. plan_save render io files path plan1 = (rc, files') \<and> (tr_is_error res \<longleftrightarrow> rc \<noteq> AGENT_OK))"
proof -
  let ?root = "json_parse read (text_or ''{}'' arguments)"
  have run: "plan_execute read render io cwd arguments files =
      (if action = ''list'' then (plan_list (AGENT_OK, plan), files)
       else if action = ''add'' then plan_add render io files path plan ?root
       else plan_update render io files path plan action ?root)"
    using assms(1-3) by (simp add: plan_execute_def text_or_def Let_def)
  note defs = plan_effect_def plan_add_def plan_update_def tool_error_def Let_def
  have known: "find_step plan i = None \<longleftrightarrow> (\<forall>s \<in> set plan. ps_id s \<noteq> i)" for i using find_step_known [of plan i] by auto
  show ?thesis
  proof (cases "action = ''list''")
    case True
    with run assms(4) show ?thesis by (simp add: plan_effect_def Let_def)
  next
    case no_list: False
    show ?thesis
    proof (cases "action = ''add''")
      case True
      with run assms(4) show ?thesis
        by (cases "c_get_str ?root ''id''"; cases "c_get_str ?root ''title''") (auto simp: defs known dest: save_result_saved [OF sym] split: if_splits)
    next
      case False
      note upd = no_list False
      show ?thesis
      proof (cases "\<exists>s \<in> set plan. Some (ps_id s) = c_get_str ?root ''id''")
        case False
        with upd run assms(4) show ?thesis
          by (cases "c_get_str ?root ''id''") (auto simp: plan_effect_def plan_update_def tool_error_def known Let_def)
      next
        case True
        then obtain i where i: "c_get_str ?root ''id'' = Some i" "find_step plan i \<noteq> None"
          by (metis find_step_known)
        let ?go = "\<lambda>f txt. save_result txt (plan_save render io files path (change_step i f plan))"
        consider (start) "action = ''start''" | (close) "action \<noteq> ''start''" "action = ''complete'' \<or> action = ''fail'' \<or> action = ''reset''"
          | (none) "action \<noteq> ''start''" "\<not> (action = ''complete'' \<or> action = ''fail'' \<or> action = ''reset'')" by blast
        then show ?thesis
        proof cases
          case start
          with upd run assms(4) i have "?go (set_status ''in_progress'' None) ''plan step started'' = (res, files')"
            by (simp add: plan_update_def)
          with save_result_saved [OF this] start upd i True show ?thesis by (auto simp: plan_effect_def Let_def)
        next
          case close
          then have e: "plan_effect action ?root plan = Some (change_step i (close_step action ?root) plan)"
            using upd i True by (simp only: plan_effect_def Let_def if_False if_True option.sel simp_thms not_True_eq_False)
          from close upd run assms(4) i have "?go (close_step action ?root) ''plan step updated'' = (res, files')"
            by (simp only: plan_update_def if_False if_True option.simps)
          from save_result_saved [OF this] e show ?thesis by simp
        next
          case none
          with upd i True have "plan_effect action ?root plan = None" by (simp only: plan_effect_def Let_def if_False if_True simp_thms not_True_eq_False)
          moreover from none upd run assms(4) i have "res = tool_error ''error: unknown plan action''" "files' = files"
            by (simp_all only: plan_update_def if_False simp_thms option.simps prod.inject)
          ultimately show ?thesis by (simp add: tool_error_def)
        qed
      qed
    qed
  qed
qed

text \<open>C26: a call of the tool is an operation on the list of steps.  Whatever fails while the file is written, the plan
  that is loaded afterwards is the old one when the call reports an error, and the changed one, less steps
  without a name, when it reports success.\<close>

theorem plan_execute_refines:
  assumes "plan_load read io files path = (AGENT_OK, plan)" and "plan_path cwd PATH_MAX = Some path"
    and "c_get_str (json_parse read (text_or ''{}'' arguments)) ''action'' = Some action"
    and "plan_execute read render io cwd arguments files = (res, files')"
    and "reads_back read render" and "\<forall>s \<in> set plan. ps_attempts s < 2 ^ 63 - 1"
    and "plan_readable io files path" and "plan_readable io' files' path"
  shows "plan_load read io' files' path = (AGENT_OK,
     case plan_effect action (json_parse read (text_or ''{}'' arguments)) plan of
       None \<Rightarrow> plan
     | Some plan1 \<Rightarrow> if tr_is_error res then plan else filter named_step plan1)"
proof -
  have same: "plan_load read io' files' path = (AGENT_OK, plan)" if "files' path = files path"
    using assms(1,7,8) that by (auto simp: plan_load_def plan_readable_def split: option.splits)
  have ok: "\<forall>s \<in> set plan. step_ok s \<and> ps_attempts s < 2 ^ 63 - 1" using plan_load_ok [OF assms(1)] assms(6) by blast
  note effect = plan_effect_saved [OF assms(1-4)]
  show ?thesis
  proof (cases "plan_effect action (json_parse read (text_or ''{}'' arguments)) plan")
    case None
    with effect same show ?thesis by simp
  next
    case (Some plan1)
    with effect obtain rc where rc: "plan_save render io files path plan1 = (rc, files')" "tr_is_error res \<longleftrightarrow> rc \<noteq> AGENT_OK"
      by auto
    show ?thesis
    proof (cases "rc = AGENT_OK")
      case True
      with rc saved_plan_loads [OF _ assms(5) plan_effect_ok [OF Some ok] assms(8)] Some show ?thesis by simp
    next
      case False
      with rc plan_save_failed [OF rc(1)] same Some show ?thesis by simp
    qed
  qed
qed

lemma distinct_map_filter: "distinct (map f xs) \<Longrightarrow> distinct (map f (filter P xs))"
  by (induction xs) auto

text \<open>The ids of a plan stay distinct: no call can add a second step of one id, or change an id.\<close>

theorem plan_ids_distinct:
  assumes "distinct (map ps_id plan)" and "plan_effect action root plan = Some plan1"
  shows "distinct (map ps_id (filter named_step plan1))"
proof (rule distinct_map_filter)
  from plan_effect_cases [OF assms(2)] show "distinct (map ps_id plan1)"
  proof (elim disjE exE conjE)
    fix i f assume "plan1 = change_step i f plan" "f = set_status ''in_progress'' None"
    then show ?thesis using assms(1) change_step_ids [of f i plan] by simp
  next
    fix i f assume "plan1 = change_step i f plan" "f = close_step action root"
    then show ?thesis using assms(1) change_step_ids [of f i plan] by simp
  qed (use assms(1) in \<open>auto simp: new_step_def\<close>)
qed

text \<open>A step that is added without an id or a title is reported as added and is gone when the plan is loaded.\<close>

theorem plan_add_lost:
  assumes "plan_load read io files path = (AGENT_OK, plan)"
    and "plan_add render io files path plan root = (res, files')" and "\<not> tr_is_error res"
    and "c_get_str root ''title'' = Some []" and "reads_back read render" and "plan_readable io' files' path"
  shows "res = tool_text ''plan step added'' \<and> plan_load read io' files' path = (AGENT_OK, plan)"
proof -
  from assms(2-4) obtain i where i: "c_get_str root ''id'' = Some i" "res = tool_text ''plan step added''"
      "plan_save render io files path (plan @ [new_step i [] (c_get_str root ''acceptance'')]) = (AGENT_OK, files')"
    by (auto simp: plan_add_def save_result_def tool_error_def prod_eq_iff split: option.splits if_splits)
  have "step_ok (new_step i [] (c_get_str root ''acceptance''))"
    using c_get_str_no_nul [OF i(1)] text_or_no_nul [of "[]" root "''acceptance''"] by (auto simp: step_ok_def new_step_def no_nul_def)
  with plan_load_ok [OF assms(1)] have "\<forall>s \<in> set (plan @ [new_step i [] (c_get_str root ''acceptance'')]). step_ok s" by auto
  from saved_plan_loads [OF i(3) assms(5) this assms(6)] plan_load_ok [OF assms(1)] i(2) show ?thesis
    by (simp add: new_step_def named_step_def filter_id_conv)
qed

section \<open>Examples\<close>

definition smooth_plan :: plan_io where
  "smooth_plan = \<lparr>pl_open = True, pl_seek = True, pl_read = 4096, pl_mkdir = True, pl_suffix = ''abcdef'', pl_mkstemp = True,
     pl_fdopen = True, pl_write = True, pl_flush = True, pl_close = True, pl_rename = True\<rparr>"

definition one_step :: plan_step where
  "one_step = \<lparr>ps_id = ''1'', ps_title = ''build'', ps_acceptance = [], ps_status = ''pending'', ps_result = None, ps_attempts = 0\<rparr>"

text \<open>A library that prints the documents of the examples as one letter.\<close>

definition failed_step :: plan_step where
  "failed_step = one_step\<lparr>ps_status := ''failed'', ps_result := Some ''no compiler'', ps_attempts := 1\<rparr>"

definition fail_call :: json where
  "fail_call = JObj [(''action'', JStr ''fail''), (''id'', JStr ''1''), (''error'', JStr ''no compiler'')]"

definition print_plan :: "json \<Rightarrow> string option" where
  "print_plan j = (if j = plan_json [one_step] then Some ''a'' else if j = plan_json [failed_step] then Some ''b''
     else if j = plan_json [new_step ''2'' [] None] then Some ''c'' else None)"

definition parse_plan :: "string \<Rightarrow> json option" where
  "parse_plan s = (if s = ''a'' @ [newline] then Some (plan_json [one_step]) else if s = ''b'' @ [newline] then Some (plan_json [failed_step])
     else if s = ''c'' @ [newline] then Some (plan_json [new_step ''2'' [] None]) else if s = ''fail'' then Some fail_call else None)"

lemma plans_read_back: "reads_back parse_plan print_plan"
  by (auto simp: reads_back_def parse_plan_def print_plan_def)

lemma one_saved:
  "plan_save print_plan smooth_plan Map.empty ''/w/.cagent/plan.json'' [one_step] =
     (AGENT_OK, Map.empty (''/w/.cagent/plan.json'' \<mapsto> ''a'' @ [newline]))"
  by (auto simp: plan_save_def smooth_plan_def print_plan_def json_builder_stringify_def PATH_MAX_def Let_def)

lemma one_readable: "length d \<le> 4096 \<Longrightarrow> plan_readable smooth_plan (Map.empty (p \<mapsto> d)) p"
  by (simp add: plan_readable_def smooth_plan_def PLAN_MAX_BYTES_def)

theorem plan_save_load_witness:
  "plan_load parse_plan smooth_plan (Map.empty (''/w/.cagent/plan.json'' \<mapsto> ''a'' @ [newline])) ''/w/.cagent/plan.json'' =
     (AGENT_OK, [one_step])"
  using plan_save_load [OF one_saved plans_read_back _ one_readable] by (simp add: one_step_def step_ok_def named_step_def no_nul_def)

theorem plan_execute_refines_witness:
  "\<exists>res files'. plan_execute parse_plan print_plan smooth_plan (Some ''/w'') (Some ''fail'')
       (Map.empty (''/w/.cagent/plan.json'' \<mapsto> ''a'' @ [newline])) = (res, files') \<and> \<not> tr_is_error res \<and>
     plan_load parse_plan smooth_plan files' ''/w/.cagent/plan.json'' = (AGENT_OK, [failed_step])"
proof -
  let ?p = "''/w/.cagent/plan.json''"
  let ?f = "Map.empty (?p \<mapsto> ''a'' @ [newline])"
  have l: "plan_load parse_plan smooth_plan ?f ?p = (AGENT_OK, [one_step])"
    using saved_plan_loads [OF one_saved plans_read_back _ one_readable] by (simp add: one_step_def step_ok_def named_step_def no_nul_def)
  have p: "plan_path (Some ''/w'') PATH_MAX = Some ?p" by (simp add: plan_path_def PATH_MAX_def)
  have root: "json_parse parse_plan (text_or ''{}'' (Some ''fail'')) = Some fail_call"
    by (simp add: json_parse_def text_or_def parse_plan_def)
  have args: "c_get_str (Some fail_call) ''action'' = Some ''fail''" "c_get_str (Some fail_call) ''id'' = Some ''1''"
    "c_get_str (Some fail_call) ''error'' = Some ''no compiler''" by code_simp+
  have e: "plan_effect ''fail'' (Some fail_call) [one_step] = Some [failed_step]"
    by (simp add: plan_effect_def args one_step_def failed_step_def close_step_def set_status_def)
  obtain res files' where run: "plan_execute parse_plan print_plan smooth_plan (Some ''/w'') (Some ''fail'') ?f = (res, files')" by fastforce
  have "plan_save print_plan smooth_plan ?f ?p [failed_step] = (AGENT_OK, Map.empty (?p \<mapsto> ''b'' @ [newline]))"
    by (auto simp: plan_save_def smooth_plan_def print_plan_def json_builder_stringify_def PATH_MAX_def plan_json_def step_json_def
        failed_step_def one_step_def Let_def)
  with plan_effect_saved [OF l p _ run] root args e have r: "\<not> tr_is_error res" "files' = Map.empty (?p \<mapsto> ''b'' @ [newline])" by auto
  have a: "\<forall>s \<in> set [one_step]. ps_attempts s < 2 ^ 63 - 1" by (simp add: one_step_def)
  have act: "c_get_str (json_parse parse_plan (text_or ''{}'' (Some ''fail''))) ''action'' = Some ''fail''" by (simp add: root args)
  have rd: "plan_readable smooth_plan ?f ?p" "plan_readable smooth_plan files' ?p" by (simp_all add: r one_readable)
  from plan_execute_refines [OF l p act run plans_read_back a rd] root args e r
  have "plan_load parse_plan smooth_plan files' ?p = (AGENT_OK, filter named_step [failed_step])" by (simp add: one_readable)
  with run r show ?thesis by (auto simp: failed_step_def one_step_def named_step_def)
qed

theorem plan_ids_distinct_witness:
  "distinct (map ps_id (filter named_step [failed_step]))"
proof -
  have args: "c_get_str (Some fail_call) ''id'' = Some ''1''" "c_get_str (Some fail_call) ''error'' = Some ''no compiler''" by code_simp+
  have "plan_effect ''fail'' (Some fail_call) [one_step] = Some [failed_step]"
    by (simp add: plan_effect_def args one_step_def failed_step_def close_step_def set_status_def)
  from plan_ids_distinct [OF _ this] show ?thesis by simp
qed

theorem plan_add_lost_witness:
  "\<exists>res files'. plan_add print_plan smooth_plan Map.empty ''/w/.cagent/plan.json'' []
       (Some (JObj [(''id'', JStr ''2''), (''title'', JStr [])])) = (res, files') \<and>
     res = tool_text ''plan step added'' \<and> plan_load parse_plan smooth_plan files' ''/w/.cagent/plan.json'' = (AGENT_OK, [])"
proof -
  let ?p = "''/w/.cagent/plan.json''"
  let ?root = "Some (JObj [(''id'', JStr ''2''), (''title'', JStr [])])"
  have args: "c_get_str ?root ''id'' = Some ''2''" "c_get_str ?root ''title'' = Some []" "c_get_str ?root ''acceptance'' = None" by code_simp+
  have other: "plan_json [new_step ''2'' [] None] \<noteq> plan_json [one_step]" "plan_json [new_step ''2'' [] None] \<noteq> plan_json [failed_step]"
    by (simp_all add: plan_json_def step_json_def new_step_def one_step_def failed_step_def)
  have "plan_save print_plan smooth_plan Map.empty ?p [new_step ''2'' [] None] = (AGENT_OK, Map.empty (?p \<mapsto> ''c'' @ [newline]))"
    by (auto simp: plan_save_def smooth_plan_def print_plan_def other json_builder_stringify_def PATH_MAX_def Let_def)
  then have run: "plan_add print_plan smooth_plan Map.empty ?p [] ?root = (tool_text ''plan step added'', Map.empty (?p \<mapsto> ''c'' @ [newline]))"
    by (simp add: plan_add_def args find_step_def save_result_def)
  have "plan_load parse_plan smooth_plan Map.empty ?p = (AGENT_OK, [])" by (simp add: plan_load_def)
  from plan_add_lost [OF this run _ args(2) plans_read_back one_readable] run show ?thesis by (simp add: tool_text_def)
qed

end
