(* ===== verification/Tool_Format.thy ===== *)
theory Tool_Format
  imports Json
begin

text \<open>
  The one-line summaries of tool calls, \<open>src/src/tui/format.c\<close>.  A text under construction is the
  string written so far; every \<open>snprintf\<close> into a small buffer keeps what fits.  The one thing the code
  reads of a double besides its truncation, the text \<open>%g\<close> makes of the member \<open>key\<close>, is the
  parameter \<open>real_text key\<close>.  Appends find memory.
\<close>

section \<open>Text\<close>

definition SUMMARY_MAX_BYTES :: nat where
  "SUMMARY_MAX_BYTES = 512"

definition TUI_TOOL_SUMMARY_MAX_CELLS :: nat where
  "TUI_TOOL_SUMMARY_MAX_CELLS = 96"

definition code :: "char \<Rightarrow> nat" where
  "code c = of_char c"

definition sanitized :: "char \<Rightarrow> char" where
  "sanitized c =
     (if code c = 10 \<or> code c = 13 \<or> code c = 9 then CHR '' ''
      else if code c < 32 \<or> code c = 127 then CHR ''?''
      else c)"

definition append_sanitized :: "string \<Rightarrow> string option \<Rightarrow> nat \<Rightarrow> string" where
  "append_sanitized out s n = (case s of None \<Rightarrow> out | Some t \<Rightarrow> out @ map sanitized (take n t))"

definition append_field_preview :: "string \<Rightarrow> string option \<Rightarrow> string" where
  "append_field_preview out value =
     (case value of None \<Rightarrow> out | Some v \<Rightarrow> append_sanitized out (Some (c_str v)) (length (c_str v)))"

text \<open>\<open>snprintf\<close> into a buffer of \<open>n\<close> bytes.\<close>

definition printed :: "nat \<Rightarrow> string \<Rightarrow> string" where
  "printed n s = take (n - 1) s"

text \<open>Whether the member was appended, and the text.\<close>

definition append_kv :: "(string \<Rightarrow> string) \<Rightarrow> string \<Rightarrow> json option \<Rightarrow> string \<Rightarrow> bool \<times> string" where
  "append_kv real_text out obj key =
     (let v = json_val_obj_get obj key; out1 = out @ '' '' @ key @ ''='' in
      if v = None then (False, out)
      else if \<not> json_val_is_str v \<and> \<not> is_int v \<and> \<not> is_real v \<and> \<not> is_bool v then (False, out)
      else (True,
        if json_val_is_str v then append_field_preview out1 (json_val_str v)
        else if is_int v then out1 @ printed 32 (show_int (json_val_int v))
        else if is_real v then out1 @ printed 32 (real_text key)
        else out1 @ (if json_val_bool v then ''true'' else ''false'')))"

text \<open>The number of bytes that the loop of \<open>truncate_to_cells\<close> steps over at a byte.\<close>

definition cell_step :: "char \<Rightarrow> nat" where
  "cell_step c =
     (if code c < 128 then 1 else if code c div 32 = 6 then 2 else if code c div 16 = 14 then 3
      else if code c div 8 = 30 then 4 else 1)"

lemma cell_step_pos [simp]: "0 < cell_step c"
  by (simp add: cell_step_def)

lemma cell_step_le: "cell_step c \<le> 4"
  by (simp add: cell_step_def)

text \<open>The three bytes of the ellipsis in UTF-8.\<close>

definition ellipsis :: string where
  "ellipsis = [CHR 0xE2, CHR 0x80, CHR 0xA6]"

text \<open>The loop: the rest of the text and the cells that are left; \<open>None\<close> when the text fits.\<close>

function cut_cells :: "nat \<Rightarrow> string \<Rightarrow> string option" where
  "cut_cells cells s =
     (if s = [] then None
      else if cell_step (hd s) > length s then None
      else if cells = 0 then Some []
      else map_option ((@) (take (cell_step (hd s)) s)) (cut_cells (cells - 1) (drop (cell_step (hd s)) s)))"
  by pat_completeness auto
termination
  by (relation "measure (\<lambda>(cells, s). length s)") auto

declare cut_cells.simps [simp del]

definition truncate_to_cells :: "string \<Rightarrow> nat \<Rightarrow> string" where
  "truncate_to_cells out max_cells = (case cut_cells max_cells out of None \<Rightarrow> out | Some kept \<Rightarrow> kept @ ellipsis)"

definition append_separator :: "string \<Rightarrow> string" where
  "append_separator out = (if out \<noteq> [] \<and> last out \<noteq> CHR '' '' then out @ '' '' else out)"

definition append_raw_fallback :: "string \<Rightarrow> string \<Rightarrow> string" where
  "append_raw_fallback out args =
     (let blank = (\<lambda>c. c \<noteq> CHR 0x00 \<and> code c \<le> 32); p = dropWhile blank args;
          p1 = (if p \<noteq> [] \<and> hd p = CHR 0x7B then tl p else p); p2 = dropWhile blank p1 in
      if args = [] then out else append_sanitized out (Some p2) (length p2))"

section \<open>One summary per tool\<close>

text \<open>An integer or a double as \<open>%lld\<close> prints it, when the member is one.\<close>

definition number_member :: "json option \<Rightarrow> string \<Rightarrow> string option" where
  "number_member args key =
     (let v = json_val_obj_get args key in if is_int v \<or> is_real v then Some (show_int (json_val_int v)) else None)"

definition summary_bash :: "string \<Rightarrow> json option \<Rightarrow> string" where
  "summary_bash out args =
     (let out1 = append_field_preview out (c_get_str args ''command'') in
      case number_member args ''timeout'' of
        None \<Rightarrow> out1
      | Some n \<Rightarrow> out1 @ printed 32 ('' (timeout='' @ n @ ''s)''))"

definition summary_read :: "(string \<Rightarrow> string) \<Rightarrow> string \<Rightarrow> json option \<Rightarrow> string" where
  "summary_read real_text out args =
     (let (ok, out1) = append_kv real_text out args ''path'' in
      if ok then snd (append_kv real_text (snd (append_kv real_text out1 args ''offset'')) args ''limit'') else out1)"

definition summary_write :: "string \<Rightarrow> json option \<Rightarrow> string" where
  "summary_write out args =
     (let out1 = append_field_preview out (c_get_str args ''path'') in
      case c_get_str args ''content'' of
        None \<Rightarrow> out1
      | Some s \<Rightarrow> out1 @ printed 32 ('' ('' @ show_nat (length s) @ '' bytes)''))"

definition summary_edit :: "(string \<Rightarrow> string) \<Rightarrow> string \<Rightarrow> json option \<Rightarrow> string" where
  "summary_edit real_text out args =
     (let (ok, out1) = append_kv real_text out args ''path'' in
      if \<not> ok then out1
      else
        (case (c_get_str args ''old_text'', c_get_str args ''new_text'') of
           (Some old, Some new) \<Rightarrow> out1 @ printed 48 ('' (-'' @ show_nat (length old) @ ''/+'' @ show_nat (length new) @ '')'')
         | _ \<Rightarrow> out1))"

definition nonempty_preview :: "string \<Rightarrow> string option \<Rightarrow> string" where
  "nonempty_preview out s = (if s = Some [] then out else append_field_preview out s)"

definition summary_list :: "(string \<Rightarrow> string) \<Rightarrow> string \<Rightarrow> json option \<Rightarrow> string" where
  "summary_list real_text out args =
     (let out1 = nonempty_preview out (c_get_str args ''path'');
          out2 = snd (append_kv real_text out1 args ''depth'');
          out3 = snd (append_kv real_text out2 args ''max_results'') in
      if out3 = [] then ''.'' else out3)"

definition summary_find :: "(string \<Rightarrow> string) \<Rightarrow> string \<Rightarrow> json option \<Rightarrow> string" where
  "summary_find real_text out args =
     (let (ok, out1) = append_kv real_text out args ''pattern'' in
      if ok then snd (append_kv real_text (snd (append_kv real_text out1 args ''path'')) args ''max_depth'') else out1)"

definition summary_grep :: "(string \<Rightarrow> string) \<Rightarrow> string \<Rightarrow> json option \<Rightarrow> string" where
  "summary_grep real_text out args =
     (let (ok, out1) = append_kv real_text out args ''pattern'' in
      if \<not> ok then out1
      else
        (let out2 = snd (append_kv real_text out1 args ''path'') in
         case number_member args ''max_results'' of
           None \<Rightarrow> out2
         | Some n \<Rightarrow> out2 @ printed 32 ('' (-n '' @ n @ '')'')))"

definition summary_subagent :: "string \<Rightarrow> json option \<Rightarrow> string" where
  "summary_subagent out args =
     (let tasks = json_val_obj_get args ''tasks''; n = json_val_arr_size tasks; first = json_val_arr_get tasks 0 in
      if json_val_is_arr tasks then
        (let out1 = out @ printed 32 (show_nat n @ '' subagent'' @ (if n = 1 then [] else ''s'')) in
         if json_val_is_obj first then append_field_preview (out1 @ '': '') (c_get_str first ''task'') else out1)
      else append_field_preview out (c_get_str args ''task''))"

definition summary_memory :: "string \<Rightarrow> json option \<Rightarrow> string" where
  "summary_memory out args =
     (let out1 = (case c_get_str args ''kind'' of None \<Rightarrow> out | Some k \<Rightarrow> out @ k @ '': '') in
      append_field_preview out1 (c_get_str args ''content''))"

text \<open>The dash between id and title, in UTF-8.\<close>

definition long_dash :: string where
  "long_dash = [CHR 0xE2, CHR 0x80, CHR 0x94]"

definition summary_plan :: "string \<Rightarrow> json option \<Rightarrow> string" where
  "summary_plan out args =
     (let out1 = (case c_get_str args ''action'' of None \<Rightarrow> out | Some a \<Rightarrow> out @ a) in
      case c_get_str args ''id'' of
        None \<Rightarrow> out1
      | Some s \<Rightarrow>
          (let out2 = (if s \<noteq> [] then out1 @ '' '' @ s else out1) in
           case c_get_str args ''title'' of
             None \<Rightarrow> out2
           | Some t \<Rightarrow> append_field_preview (out2 @ '' '' @ long_dash @ '' '') (Some t)))"

definition summary_git_commit :: "string \<Rightarrow> json option \<Rightarrow> string" where
  "summary_git_commit out args = append_field_preview out (c_get_str args ''message'')"

definition summary_git_revert :: "string \<Rightarrow> json option \<Rightarrow> string" where
  "summary_git_revert out args = append_field_preview out (c_get_str args ''target'')"

definition summary_git_diff :: "string \<Rightarrow> json option \<Rightarrow> string" where
  "summary_git_diff out args =
     (let out1 = nonempty_preview out (c_get_str args ''path'') in if out1 = [] then ''working tree'' else out1)"

definition summary_test :: "(string \<Rightarrow> string) \<Rightarrow> string \<Rightarrow> json option \<Rightarrow> string" where
  "summary_test real_text out args =
     (let out1 = snd (append_kv real_text out args ''action'') in
      case c_get_str args ''build_dir'' of
        None \<Rightarrow> out1
      | Some s \<Rightarrow> if s = [] then out1 else out1 @ '' ('' @ s @ '')'')"

definition summary_bench :: "string \<Rightarrow> json option \<Rightarrow> string" where
  "summary_bench out args =
     (case c_get_str args ''build_dir'' of
        None \<Rightarrow> out @ ''default build''
      | Some s \<Rightarrow> if s = [] then out @ ''default build'' else out @ s)"

definition summary_kv_only :: "string \<Rightarrow> json option \<Rightarrow> string \<Rightarrow> string" where
  "summary_kv_only out args key = nonempty_preview out (c_get_str args key)"

section \<open>The line\<close>

text \<open>The dispatch table; the tools without a formatter have none, like unknown ones.\<close>

definition kDispatch :: "(string \<Rightarrow> string) \<Rightarrow> (string \<times> (string \<Rightarrow> json option \<Rightarrow> string)) list" where
  "kDispatch real_text =
     [(''bash'', summary_bash), (''read'', summary_read real_text), (''write'', summary_write),
      (''edit'', summary_edit real_text), (''list'', summary_list real_text), (''find'', summary_find real_text),
      (''grep'', summary_grep real_text), (''subagent'', summary_subagent), (''memory'', summary_memory),
      (''plan'', summary_plan), (''git_commit'', summary_git_commit), (''git_revert'', summary_git_revert),
      (''git_diff'', summary_git_diff), (''test'', summary_test real_text), (''bench'', summary_bench)]"

text \<open>The line before it is cut.  \<open>None\<close> is \<open>strlen\<close> of a name that is \<open>NULL\<close>.\<close>

definition summary_line ::
  "(string \<Rightarrow> json option) \<Rightarrow> (string \<Rightarrow> string) \<Rightarrow> string option \<Rightarrow> string option \<Rightarrow> string option" where
  "summary_line read real_text name arguments =
     (let out = (case name of None \<Rightarrow> ''?'' | Some n \<Rightarrow> n) in
      case arguments of
        None \<Rightarrow> Some out
      | Some args \<Rightarrow>
          if args = [] then Some out
          else
            (let out1 = append_separator out in
             case json_parse read args of
               None \<Rightarrow> Some (append_raw_fallback out1 args)
             | Some root \<Rightarrow>
                 if \<not> json_val_is_obj (Some root) then Some (append_raw_fallback out1 args)
                 else
                   (case Option.bind name (map_of (kDispatch real_text)) of
                      Some fn \<Rightarrow> Some (out1 @ fn [] (Some root))
                    | None \<Rightarrow>
                        (let out2 = summary_kv_only out1 (Some root) ''path'' in
                         case name of
                           None \<Rightarrow> None
                         | Some n \<Rightarrow> Some (if length out2 = length n + 1 then take (length n) out2 else out2)))))"

definition tui_format_tool_call_summary ::
  "(string \<Rightarrow> json option) \<Rightarrow> (string \<Rightarrow> string) \<Rightarrow> string option \<Rightarrow> string option \<Rightarrow> string option" where
  "tui_format_tool_call_summary read real_text name arguments =
     (case summary_line read real_text name arguments of
        None \<Rightarrow> None
      | Some out \<Rightarrow>
          (let out1 = (if length out > SUMMARY_MAX_BYTES then take SUMMARY_MAX_BYTES out @ ellipsis else out) in
           Some (truncate_to_cells out1 TUI_TOOL_SUMMARY_MAX_CELLS)))"

section \<open>Control bytes\<close>

definition control :: "char \<Rightarrow> bool" where
  "control c \<longleftrightarrow> code c < 32 \<or> code c = 127"

definition printable :: "string \<Rightarrow> bool" where
  "printable s \<longleftrightarrow> (\<forall>c \<in> set s. \<not> control c)"

lemma printable_Nil [simp]: "printable []"
  by (simp add: printable_def)

lemma printable_Cons [simp]: "printable (c # s) \<longleftrightarrow> \<not> control c \<and> printable s"
  by (simp add: printable_def)

lemma printable_append [simp]: "printable (a @ b) \<longleftrightarrow> printable a \<and> printable b"
  by (auto simp: printable_def)

lemma printable_take [intro]: "printable s \<Longrightarrow> printable (take n s)"
  by (auto simp: printable_def dest: in_set_takeD)

lemma printable_drop [intro]: "printable s \<Longrightarrow> printable (drop n s)"
  by (auto simp: printable_def dest: in_set_dropD)

lemma sanitized_plain [simp]: "\<not> control (sanitized c)"
  by (simp add: sanitized_def control_def code_def)

lemma printable_sanitized [simp]: "printable (map sanitized s)"
  by (simp add: printable_def)

lemma append_sanitized_printable [simp]: "printable out \<Longrightarrow> printable (append_sanitized out s n)"
  by (simp add: append_sanitized_def split: option.splits)

lemma preview_printable [simp]: "printable out \<Longrightarrow> printable (append_field_preview out s)"
  by (simp add: append_field_preview_def split: option.splits)

lemma digit_plain: "d < 10 \<Longrightarrow> \<not> control (digit_char d)"
  by (simp add: control_def code_def digit_char_def)

lemma show_nat_printable [simp]: "printable (show_nat n)"
proof (induction n rule: show_nat.induct)
  case (1 n)
  then show ?case by (cases "n < 10") (simp_all add: show_nat.simps [of n] digit_plain)
qed

lemma control_Char [simp]:
  "control (Char b0 b1 b2 b3 b4 b5 b6 b7) \<longleftrightarrow> \<not> b7 \<and> (\<not> b5 \<and> \<not> b6 \<or> b0 \<and> b1 \<and> b2 \<and> b3 \<and> b4 \<and> b5 \<and> b6)"
  by (auto simp: control_def code_def)

lemma show_int_printable [simp]: "printable (show_int i)"
  by (simp add: show_int_def)

lemma printed_printable [simp]: "printable s \<Longrightarrow> printable (printed n s)"
  by (auto simp: printed_def)

lemma number_printable: "number_member args key = Some n \<Longrightarrow> printable n"
  by (auto simp: number_member_def Let_def split: if_splits)

lemma nonempty_printable [simp]: "printable out \<Longrightarrow> printable (nonempty_preview out s)"
  by (simp add: nonempty_preview_def)

lemma separator_printable [simp]: "printable out \<Longrightarrow> printable (append_separator out)"
  by (simp add: append_separator_def)

lemma fallback_printable [simp]: "printable out \<Longrightarrow> printable (append_raw_fallback out args)"
  by (simp add: append_raw_fallback_def Let_def)

lemma kv_printable:
  assumes "printable out" and "printable key" and "\<And>k. printable (real_text k)"
  shows "printable (snd (append_kv real_text out obj key))"
  using assms by (simp add: append_kv_def Let_def)

text \<open>The tools whose formatter copies an argument as it is.\<close>

definition copies_arguments :: "string set" where
  "copies_arguments = {''memory'', ''plan'', ''test'', ''bench''}"

lemma plain_formatters [simp]:
  "printable (summary_bash [] args)" "printable (summary_write [] args)" "printable (summary_subagent [] args)"
  "printable (summary_git_commit [] args)" "printable (summary_git_revert [] args)" "printable (summary_git_diff [] args)"
  by (simp_all add: summary_bash_def summary_write_def summary_subagent_def summary_git_commit_def summary_git_revert_def
      summary_git_diff_def number_printable Let_def split: option.splits)

lemma kv_formatters:
  assumes "\<And>k. printable (real_text k)"
  shows "printable (summary_read real_text [] args)" "printable (summary_edit real_text [] args)"
    "printable (summary_list real_text [] args)" "printable (summary_find real_text [] args)" "printable (summary_grep real_text [] args)"
proof -
  have kv: "printable out \<Longrightarrow> printable key \<Longrightarrow> printable (snd (append_kv real_text out args key))" for out key
    by (rule kv_printable [OF _ _ assms])
  note defs = summary_read_def summary_edit_def summary_list_def summary_find_def summary_grep_def Let_def case_prod_beta
  show "printable (summary_read real_text [] args)" "printable (summary_edit real_text [] args)"
    "printable (summary_list real_text [] args)" "printable (summary_find real_text [] args)" "printable (summary_grep real_text [] args)"
    by (simp_all add: defs kv number_printable split: option.splits)
qed

lemma formatter_printable:
  assumes "map_of (kDispatch real_text) n = Some fn" and "n \<notin> copies_arguments" and "\<And>k. printable (real_text k)"
  shows "printable (fn [] args)"
proof -
  have "list_all (\<lambda>(n, fn). n \<in> copies_arguments \<or> printable (fn [] args)) (kDispatch real_text)"
    by (simp add: kDispatch_def kv_formatters [OF assms(3)] copies_arguments_def)
  with map_of_SomeD [OF assms(1)] assms(2) show ?thesis by (fastforce simp: list_all_iff)
qed

lemma cut_cells_some:
  "cut_cells m s = Some k \<Longrightarrow> length k \<le> 4 * m \<and> (\<exists>r. s = k @ r)"
proof (induction m s arbitrary: k rule: cut_cells.induct)
  case (1 m s)
  let ?n = "cell_step (hd s)"
  from "1.prems" have s: "s \<noteq> []" "?n \<le> length s" by (auto simp: cut_cells.simps [of m s] split: if_splits)
  show ?case
  proof (cases "m = 0")
    case False
    with "1.prems" s obtain k' where k: "k = take ?n s @ k'" "cut_cells (m - 1) (drop ?n s) = Some k'"
      by (auto simp: cut_cells.simps [of m s] split: if_splits)
    from "1.IH" [OF s(1) _ False k(2)] s(2) obtain r where r: "length k' \<le> 4 * (m - 1)" "drop ?n s = k' @ r" by auto
    then have "length k \<le> 4 * m" using k(1) s(2) cell_step_le [of "hd s"] False by simp
    moreover have "s = k @ r" using k(1) r(2) by (metis append.assoc append_take_drop_id)
    ultimately show ?thesis by blast
  qed (use "1.prems" in \<open>auto simp: cut_cells.simps [of 0 s] split: if_splits\<close>)
qed

lemma cut_cells_none: "cut_cells m s = None \<Longrightarrow> length s \<le> 4 * m + 3"
proof (induction m s rule: cut_cells.induct)
  case (1 m s)
  let ?n = "cell_step (hd s)"
  show ?case
  proof (cases "s = [] \<or> ?n > length s")
    case False
    with "1.prems" have m: "m \<noteq> 0" "cut_cells (m - 1) (drop ?n s) = None" by (auto simp: cut_cells.simps [of m s] split: if_splits)
    from "1.IH" [OF _ _ m] False have "length (drop ?n s) \<le> 4 * (m - 1) + 3" by simp
    with m(1) cell_step_le [of "hd s"] show ?thesis by simp
  qed (use cell_step_le [of "hd s"] in auto)
qed

text \<open>The line of a tool call has at most 387 bytes, whatever the arguments are.\<close>

theorem summary_bounded:
  assumes "tui_format_tool_call_summary read real_text name arguments = Some line"
  shows "length line \<le> 4 * TUI_TOOL_SUMMARY_MAX_CELLS + 3"
proof -
  obtain out where "line = truncate_to_cells out TUI_TOOL_SUMMARY_MAX_CELLS"
    using assms by (auto simp: tui_format_tool_call_summary_def Let_def split: option.splits)
  then show ?thesis
    by (auto simp: truncate_to_cells_def ellipsis_def dest: cut_cells_some cut_cells_none split: option.splits)
qed

lemma truncate_printable: "printable out \<Longrightarrow> printable (truncate_to_cells out m)"
  by (auto simp: truncate_to_cells_def ellipsis_def dest!: cut_cells_some split: option.splits)

text \<open>No control byte reaches the terminal from the arguments of a tool call, well formed or not, unless the
  formatter of the tool copies one of them: the summaries of \<open>memory\<close>, \<open>plan\<close>, \<open>test\<close> and
  \<open>bench\<close> do.\<close>

theorem summary_printable:
  assumes "tui_format_tool_call_summary read real_text (Some n) arguments = Some line"
    and "printable n" and "n \<notin> copies_arguments" and "\<And>k. printable (real_text k)"
  shows "printable line"
proof -
  obtain out where out: "summary_line read real_text (Some n) arguments = Some out"
      "line = truncate_to_cells (if length out > SUMMARY_MAX_BYTES then take SUMMARY_MAX_BYTES out @ ellipsis else out) TUI_TOOL_SUMMARY_MAX_CELLS"
    using assms(1) by (auto simp: tui_format_tool_call_summary_def Let_def split: option.splits)
  have "printable out"
    using out(1) assms(2) formatter_printable [OF _ assms(3,4)]
    by (auto simp: summary_line_def summary_kv_only_def Let_def split: option.splits if_splits)
  then show ?thesis by (auto simp: out(2) ellipsis_def intro!: truncate_printable)
qed

text \<open>The summary of a plan call copies action and id to the terminal byte by byte, escape sequences included.\<close>

theorem plan_summary_copies:
  assumes "read args = Some (JObj kvs)" and "args \<noteq> []"
    and "c_get_str (Some (JObj kvs)) ''action'' = Some a" and "c_get_str (Some (JObj kvs)) ''id'' = Some s" and "s \<noteq> []"
    and "c_get_str (Some (JObj kvs)) ''title'' = None" and "length a + length s + 6 \<le> TUI_TOOL_SUMMARY_MAX_CELLS"
  shows "tui_format_tool_call_summary read real_text (Some ''plan'') (Some args) = Some (''plan '' @ a @ '' '' @ s)"
proof -
  have fits: "cut_cells m t = None" if "length t \<le> m" for m t
    using that
  proof (induction m t rule: cut_cells.induct)
    case (1 m t)
    show ?case
    proof (cases "t = [] \<or> cell_step (hd t) > length t")
      case False
      then have "length (drop (cell_step (hd t)) t) \<le> m - 1" "m \<noteq> 0"
        using "1.prems" cell_step_pos [of "hd t"] by (auto simp del: cell_step_pos)
      with "1.IH" False show ?thesis by (simp add: cut_cells.simps [of m t])
    qed (auto simp: cut_cells.simps [of m t])
  qed
  have "summary_line read real_text (Some ''plan'') (Some args) = Some (''plan '' @ a @ '' '' @ s)"
    using assms(1-6) by (simp add: summary_line_def json_parse_def json_val_is_obj_def kDispatch_def summary_plan_def append_separator_def Let_def)
  then show ?thesis
    using assms(7) by (simp add: tui_format_tool_call_summary_def truncate_to_cells_def fits SUMMARY_MAX_BYTES_def
        TUI_TOOL_SUMMARY_MAX_CELLS_def Let_def)
qed


text \<open>A call without a name whose arguments are an object ends in \<open>strlen(NULL)\<close>.\<close>

theorem nameless_summary_faults:
  assumes "read args = Some (JObj kvs)" and "args \<noteq> []"
  shows "tui_format_tool_call_summary read real_text None (Some args) = None"
  using assms by (simp add: tui_format_tool_call_summary_def summary_line_def json_parse_def json_val_is_obj_def)

section \<open>Examples\<close>

definition escape_call :: json where
  "escape_call = JObj [(''command'', JStr (''ls'' @ [CHR 0x1B, CHR 0x0A] @ ''x'')), (''timeout'', JInt 5)]"

theorem summary_printable_witness:
  "tui_format_tool_call_summary (\<lambda>_. Some escape_call) (\<lambda>_. []) (Some ''bash'') (Some ''q'') = Some ''bash ls? x (timeout=5s)'' \<and>
   printable ''bash ls? x (timeout=5s)''"
proof -
  have line: "tui_format_tool_call_summary (\<lambda>_. Some escape_call) (\<lambda>_. []) (Some ''bash'') (Some ''q'') = Some ''bash ls? x (timeout=5s)''"
    by code_simp
  have "''bash'' \<notin> copies_arguments" by (simp add: copies_arguments_def)
  with summary_printable [OF line] line show ?thesis by simp
qed

theorem summary_bounded_witness:
  "\<exists>line. tui_format_tool_call_summary (\<lambda>_. None) (\<lambda>_. []) (Some ''list'') (Some (replicate 1000 (CHR ''x''))) = Some line \<and>
     length line \<le> 387"
proof -
  obtain line where line: "tui_format_tool_call_summary (\<lambda>_. None) (\<lambda>_. []) (Some ''list'') (Some (replicate 1000 (CHR ''x''))) = Some line"
    by (simp add: tui_format_tool_call_summary_def summary_line_def json_parse_def)
  from summary_bounded [OF this] line show ?thesis by (simp add: TUI_TOOL_SUMMARY_MAX_CELLS_def)
qed

theorem plan_summary_copies_witness:
  "\<exists>line. tui_format_tool_call_summary (\<lambda>_. Some (JObj [(''action'', JStr ''add''), (''id'', JStr [CHR 0x1B, CHR ''['', CHR ''J''])]))
       (\<lambda>_. []) (Some ''plan'') (Some ''q'') = Some line \<and> CHR 0x1B \<in> set line"
proof -
  let ?kvs = "[(''action'', JStr ''add''), (''id'', JStr [CHR 0x1B, CHR ''['', CHR ''J''])]"
  have m: "c_get_str (Some (JObj ?kvs)) ''action'' = Some ''add''" "c_get_str (Some (JObj ?kvs)) ''id'' = Some [CHR 0x1B, CHR ''['', CHR ''J'']"
    "c_get_str (Some (JObj ?kvs)) ''title'' = None" by code_simp+
  from plan_summary_copies [OF _ _ m(1,2) _ m(3), of "\<lambda>_. Some (JObj ?kvs)" "''q''" "\<lambda>_. []"] show ?thesis
    by (simp add: TUI_TOOL_SUMMARY_MAX_CELLS_def)
qed

theorem nameless_summary_faults_witness:
  "tui_format_tool_call_summary (\<lambda>_. Some (JObj [])) (\<lambda>_. []) None (Some ''q'') = None"
  by (rule nameless_summary_faults) simp_all

end
