(* ===== verification/Subagent.thy ===== *)
theory Subagent
  imports Scheduler Loop_Approval Loop_Cancel
begin

text \<open>
  The sub-agent tool of \<open>src/src/tool/subagent.c\<close>, on top of the agent loop.  The children are
  agents that act on the world of their parent; it is handed to each child before it runs and taken
  back afterwards.  A child is \<open>None\<close> when \<open>agent_spawn\<close> got no memory for it (\<open>spawned i\<close> says
  whether the \<open>i\<close>-th call did); every other allocation succeeds.  In the environment of the children
  \<open>e_clock\<close> is the monotonic clock and \<open>e_ancestors\<close> begins with the token of the parent.
\<close>

section \<open>Tasks\<close>

record sub_task =
  st_task :: string
  st_role :: "string option"
  st_system_prompt :: "string option"
  st_model :: "string option"
  st_timeout_s :: int

definition SUBAGENT_DEFAULT_TIMEOUT_S :: int where
  "SUBAGENT_DEFAULT_TIMEOUT_S = 120"

text \<open>One element of \<open>tasks\<close>; what is no object or has no task is skipped.\<close>

definition sub_task_of :: "json \<Rightarrow> sub_task option" where
  "sub_task_of item =
     (case (json_val_is_obj (Some item), c_get_str (Some item) ''task'') of
        (True, Some task) \<Rightarrow>
          (let timeout = json_obj_get_int (Some item) ''timeout'' SUBAGENT_DEFAULT_TIMEOUT_S in
           Some \<lparr>st_task = task, st_role = c_get_str (Some item) ''role'',
                 st_system_prompt = c_get_str (Some item) ''system_prompt'', st_model = c_get_str (Some item) ''model'',
                 st_timeout_s = (if timeout < 1 then 1 else timeout)\<rparr>)
      | _ \<Rightarrow> None)"

definition single_task :: "string \<Rightarrow> sub_task" where
  "single_task task =
     \<lparr>st_task = task, st_role = None, st_system_prompt = None, st_model = None, st_timeout_s = SUBAGENT_DEFAULT_TIMEOUT_S\<rparr>"

definition parse_tasks :: "(string \<Rightarrow> json option) \<Rightarrow> string \<Rightarrow> agent_error \<times> sub_task list" where
  "parse_tasks read arguments =
     (let root = json_parse read arguments in
      if \<not> json_val_is_obj root then (AGENT_ERR_JSON, [])
      else
        (let out = (case json_val_obj_get root ''tasks'' of
                      Some (JArr vs) \<Rightarrow> List.map_filter sub_task_of vs
                    | _ \<Rightarrow> (case c_get_str root ''task'' of Some task \<Rightarrow> [single_task task] | None \<Rightarrow> [])) in
         (if out \<noteq> [] then AGENT_OK else AGENT_ERR_JSON, out)))"

section \<open>Children\<close>

definition subtask_finished :: "'w loop \<Rightarrow> bool" where
  "subtask_finished a \<longleftrightarrow> a_state a = AGENT_DONE \<or> a_state a = AGENT_ERROR \<or> a_state a = AGENT_CANCELLED"

text \<open>The content of the last message of the assistant that has one.\<close>

definition last_answer :: "message list \<Rightarrow> string option" where
  "last_answer ms =
     (case find (\<lambda>m. m_role m = MSG_ASSISTANT \<and> m_content m \<noteq> None) (rev ms) of
        None \<Rightarrow> None
      | Some m \<Rightarrow> map_option c_str (m_content m))"

definition append_child_result :: "string \<Rightarrow> string option \<Rightarrow> 'w loop \<Rightarrow> string" where
  "append_child_result out role child =
     (let out1 = out @ ''['' @ (case role of None \<Rightarrow> ''subagent'' | Some r \<Rightarrow> r) @ ''] '' in
      if a_state child = AGENT_ERROR \<or> a_state child = AGENT_CANCELLED then out1 @ ''(failed or cancelled)\<newline>''
      else out1 @ (case last_answer (items child) of None \<Rightarrow> ''(no answer)'' | Some s \<Rightarrow> s) @ ''\<newline>'')"

record 'w subagent_task =
  sg_tasks :: "sub_task list"
  sg_children :: "'w loop option list"
  sg_deadline_ms :: int
  sg_cancelled :: bool

definition monotonic_ms :: "'w env \<Rightarrow> 'w \<Rightarrow> int \<times> 'w" where
  "monotonic_ms env w = (let ((sec, nsec), w') = e_clock env w in (int64_wrap (sec * 1000 + nsec div 1000000), w'))"

definition cancel_child :: "'w loop option \<Rightarrow> 'w loop option" where
  "cancel_child child =
     map_option (\<lambda>c. if subtask_finished c then c else c\<lparr>a_cancel := cancel_token_cancel (a_cancel c)\<rparr>) child"

definition subagent_task_cancel :: "'w subagent_task \<Rightarrow> 'w subagent_task" where
  "subagent_task_cancel task = task\<lparr>sg_cancelled := True, sg_children := map cancel_child (sg_children task)\<rparr>"

text \<open>\<open>agent_destroy\<close> cleans up the loop of the child; the rest releases storage.\<close>

fun destroy_children :: "'w env \<Rightarrow> 'w loop option list \<Rightarrow> 'w \<Rightarrow> 'w" where
  "destroy_children env [] w = w"
| "destroy_children env (None # children) w = destroy_children env children w"
| "destroy_children env (Some c # children) w =
     destroy_children env children (world (agent_loop_state_cleanup env (c\<lparr>world := w\<rparr>)))"

definition subagent_task_destroy :: "'w env \<Rightarrow> 'w subagent_task \<Rightarrow> 'w \<Rightarrow> 'w" where
  "subagent_task_destroy env task w = destroy_children env (sg_children (subagent_task_cancel task)) w"

text \<open>The first loop of the poll: every child that is not finished runs once.\<close>

definition resume_child :: "'w env \<Rightarrow> 'w loop option \<Rightarrow> 'w \<Rightarrow> ('w loop option \<times> 'w) option" where
  "resume_child env child w =
     (case child of
        None \<Rightarrow> Some (None, w)
      | Some c \<Rightarrow>
          if subtask_finished c then Some (Some c, w)
          else (case agent_resume env (c\<lparr>world := w\<rparr>) of None \<Rightarrow> None | Some (r, c') \<Rightarrow> Some (Some c', world c')))"

fun resume_children :: "'w env \<Rightarrow> 'w loop option list \<Rightarrow> 'w \<Rightarrow> ('w loop option list \<times> 'w) option" where
  "resume_children env [] w = Some ([], w)"
| "resume_children env (child # children) w =
     (case resume_child env child w of
        None \<Rightarrow> None
      | Some (child', w1) \<Rightarrow>
          (case resume_children env children w1 of
             None \<Rightarrow> None
           | Some (children', w2) \<Rightarrow> Some (child' # children', w2)))"

fun append_results :: "string \<Rightarrow> sub_task list \<Rightarrow> 'w loop option list \<Rightarrow> string" where
  "append_results out (t # tasks) (Some c # children) = append_results (append_child_result out (st_role t) c) tasks children"
| "append_results out (t # tasks) (None # children) = append_results out tasks children"
| "append_results out tasks children = out"

text \<open>A result without any byte is the \<open>NULL\<close> of \<open>string_take\<close>.\<close>

definition subagent_task_poll ::
  "'w env \<Rightarrow> 'w subagent_task \<Rightarrow> 'w \<Rightarrow> ((agent_error \<times> tool_result \<times> bool) \<times> 'w subagent_task \<times> 'w) option" where
  "subagent_task_poll env task w =
     (let (now, w1) = (if sg_cancelled task then (0, w) else monotonic_ms env w);
          task1 = (if \<not> sg_cancelled task \<and> now \<ge> sg_deadline_ms task then subagent_task_cancel task else task) in
      case resume_children env (sg_children task1) w1 of
        None \<Rightarrow> None
      | Some (children, w2) \<Rightarrow>
          (let task2 = task1\<lparr>sg_children := children\<rparr> in
           if \<not> list_all (pred_option subtask_finished) children then Some ((AGENT_OK, zero_result, False), task2, w2)
           else
             (let out = append_results [] (sg_tasks task2) children in
              Some ((if out \<noteq> [] then AGENT_OK else AGENT_ERR_OOM,
                     \<lparr>tr_content = (if out \<noteq> [] then Some out else None), tr_is_error = False\<rparr>, True), task2, w2))))"

section \<open>Start\<close>

definition sub_config :: "'w loop \<Rightarrow> sub_task \<Rightarrow> agent_config" where
  "sub_config parent t =
     \<lparr>cfg_system_prompt = st_system_prompt t, cfg_model_name = st_model t, cfg_cwd = cfg_cwd (a_config parent)\<rparr>"

definition quote_mark :: string where
  "quote_mark = [CHR 0x22]"

text \<open>The children, the next agent id and the world; the result of \<open>agent_start\<close> is ignored.\<close>

fun start_children ::
  "'w env \<Rightarrow> (nat \<Rightarrow> bool) \<Rightarrow> 'w loop \<Rightarrow> sub_task list \<Rightarrow> nat \<Rightarrow> 64 word \<Rightarrow> 'w \<Rightarrow>
   ('w loop option list \<times> 64 word \<times> 'w) option" where
  "start_children env spawned parent [] i next_id w = Some ([], next_id, w)"
| "start_children env spawned parent (t # tasks) i next_id w =
     (if \<not> spawned i then
        map_option (\<lambda>(children, next2, w2). (None # children, next2, w2))
          (start_children env spawned parent tasks (i + 1) next_id w)
      else
        (let (child, next1) = agent_spawn next_id parent (Some (sub_config parent t)) in
         case agent_start env (st_task t) (loop_state child w) of
           None \<Rightarrow> None
         | Some (rc, c) \<Rightarrow>
             map_option (\<lambda>(children, next2, w2). (Some c # children, next2, w2))
               (start_children env spawned parent tasks (i + 1) next1 (world c))))"

text \<open>The largest timeout of all tasks, at least a second.\<close>

definition max_timeout_ms :: "sub_task list \<Rightarrow> int" where
  "max_timeout_ms tasks = foldl (\<lambda>m t. let ms = int64_wrap (st_timeout_s t * 1000) in if ms > m then ms else m) 1000 tasks"

definition subagent_start ::
  "'w env \<Rightarrow> (nat \<Rightarrow> bool) \<Rightarrow> 'w loop option \<Rightarrow> 'w runtime option \<Rightarrow> string \<Rightarrow> 64 word \<Rightarrow> 'w \<Rightarrow>
   ((agent_error \<times> tool_result \<times> 'w subagent_task option) \<times> 64 word \<times> 'w) option" where
  "subagent_start env spawned agent rt arguments next_id w =
     (case (agent, rt) of
        (Some parent, Some _) \<Rightarrow>
          (let (rc, tasks) = parse_tasks (e_read env) arguments in
           if rc \<noteq> AGENT_OK \<or> tasks = [] then
             Some ((AGENT_OK, \<lparr>tr_content = Some (''error: need '' @ quote_mark @ ''task'' @ quote_mark @ '' (string) or '' @
                               quote_mark @ ''tasks'' @ quote_mark @ '' (array of {task, role?})''),
                               tr_is_error = True\<rparr>, None), next_id, w)
           else
             (case start_children env spawned parent tasks 0 next_id w of
                None \<Rightarrow> None
              | Some (children, next', w1) \<Rightarrow>
                  (let (now, w2) = monotonic_ms env w1 in
                   Some ((AGENT_OK, zero_result,
                          Some \<lparr>sg_tasks = tasks, sg_children = children,
                                sg_deadline_ms = int64_wrap (now + max_timeout_ms tasks), sg_cancelled = False\<rparr>),
                         next', w2))))
      | _ \<Rightarrow> Some ((AGENT_OK, \<lparr>tr_content = Some ''error: subagent tool requires an agent context'', tr_is_error = True\<rparr>, None),
                  next_id, w))"

section \<open>Every poll returns\<close>

lemma subtask_finished_terminal: "subtask_finished c = agent_terminal c"
  by (simp add: subtask_finished_def agent_terminal_def)

text \<open>What can happen to a running task: polls and cancels by the parent's loop, events of the model for one
  of the children, and changes of the world outside.\<close>

inductive subagent_step ::
  "'w env \<Rightarrow> ('w \<Rightarrow> 'w \<Rightarrow> bool) \<Rightarrow> 'w subagent_task \<times> 'w \<Rightarrow> 'w subagent_task \<times> 'w \<Rightarrow> bool"
  for env :: "'w env" and W :: "'w \<Rightarrow> 'w \<Rightarrow> bool" where
  Poll: "subagent_task_poll env t w = Some (out, t', w') \<Longrightarrow> subagent_step env W (t, w) (t', w')"
| Cancel: "subagent_step env W (t, w) (subagent_task_cancel t, w)"
| Events: "i < length (sg_children t) \<Longrightarrow> sg_children t ! i = Some c \<Longrightarrow>
    c' = deliver_events env (c\<lparr>world := w\<rparr>) evs \<Longrightarrow>
    subagent_step env W (t, w) (t\<lparr>sg_children := (sg_children t)[i := Some c']\<rparr>, world c')"
| World: "W w w' \<Longrightarrow> subagent_step env W (t, w) (t, w')"

text \<open>A property of a child and the world it is given.\<close>

definition all_children :: "('w loop \<Rightarrow> bool) \<Rightarrow> 'w loop option list \<Rightarrow> bool" where
  "all_children Q children \<longleftrightarrow> list_all (pred_option Q) children"

lemma all_children_simps [simp]:
  "all_children Q []" "all_children Q (c # cs) \<longleftrightarrow> pred_option Q c \<and> all_children Q cs"
  by (simp_all add: all_children_def)

lemma all_children_update: "all_children Q cs \<Longrightarrow> Q c \<Longrightarrow> all_children Q (cs[i := Some c])"
  by (induction cs arbitrary: i) (auto split: nat.splits)

lemma all_children_cancel:
  assumes "\<And>c. Q c \<Longrightarrow> Q (c\<lparr>a_cancel := cancel_token_cancel (a_cancel c)\<rparr>)" and "all_children Q cs"
  shows "all_children Q (map cancel_child cs)"
  using assms(2)
proof (induction cs)
  case (Cons c cs)
  then show ?case using assms(1) by (cases c) (simp_all add: cancel_child_def)
qed simp

text \<open>\<open>Q\<close> is what the children keep, \<open>P\<close> what the world keeps while they run.\<close>

locale child_invariant =
  fixes env :: "'w env" and Q :: "'w loop \<Rightarrow> bool" and P :: "'w \<Rightarrow> bool"
  assumes given: "Q c \<Longrightarrow> P w \<Longrightarrow> Q (c\<lparr>world := w\<rparr>)"
    and cancelled: "Q c \<Longrightarrow> Q (c\<lparr>a_cancel := cancel_token_cancel (a_cancel c)\<rparr>)"
    and resumed: "Q c \<Longrightarrow> P (world c) \<Longrightarrow> \<exists>r c'. agent_resume env c = Some (r, c') \<and> Q c' \<and> P (world c')"
    and delivered: "Q c \<Longrightarrow> P (world c) \<Longrightarrow> Q (deliver_events env c evs) \<and> P (world (deliver_events env c evs))"
    and clock: "P w \<Longrightarrow> P (snd (e_clock env w))"
begin

lemma resume_child_keeps:
  assumes "pred_option Q child" and "P w"
  shows "\<exists>child' w'. resume_child env child w = Some (child', w') \<and> pred_option Q child' \<and> P w'"
proof (cases child)
  case (Some c)
  then have "Q (c\<lparr>world := w\<rparr>)" using given assms by simp
  from resumed [OF this] assms(2) obtain r c' where "agent_resume env (c\<lparr>world := w\<rparr>) = Some (r, c')" "Q c'" "P (world c')" by auto
  with Some assms show ?thesis by (simp add: resume_child_def)
qed (use assms in \<open>simp add: resume_child_def\<close>)

lemma resume_children_keep:
  assumes "all_children Q cs" and "P w"
  shows "\<exists>cs' w'. resume_children env cs w = Some (cs', w') \<and> all_children Q cs' \<and> P w'"
  using assms
proof (induction cs arbitrary: w)
  case (Cons c cs)
  from Cons.prems resume_child_keeps [of c w] obtain c' w1 where c: "resume_child env c w = Some (c', w1)"
    "pred_option Q c'" "P w1" by auto
  from Cons.IH [OF _ c(3)] Cons.prems obtain cs' w2 where "resume_children env cs w1 = Some (cs', w2)" "all_children Q cs'" "P w2"
    by auto
  with c show ?case by simp
qed simp

lemma clock_keeps: "P w \<Longrightarrow> P (snd (monotonic_ms env w))"
  using clock [of w] by (simp add: monotonic_ms_def split_beta)

lemma poll_keeps:
  assumes "all_children Q (sg_children t)" and "P w"
  shows "\<exists>out t' w'. subagent_task_poll env t w = Some (out, t', w') \<and> all_children Q (sg_children t') \<and> P w'"
proof -
  obtain now w1 where n: "(if sg_cancelled t then (0, w) else monotonic_ms env w) = (now, w1)" by (metis surj_pair)
  have "P w1" using n assms(2) clock_keeps [of w] by (auto split: if_splits)
  moreover have "all_children Q (sg_children (if \<not> sg_cancelled t \<and> now \<ge> sg_deadline_ms t then subagent_task_cancel t else t))"
    using assms(1) all_children_cancel [of Q] cancelled by (simp add: subagent_task_cancel_def)
  ultimately obtain cs w2 where "resume_children env (sg_children (if \<not> sg_cancelled t \<and> now \<ge> sg_deadline_ms t
      then subagent_task_cancel t else t)) w1 = Some (cs, w2)" "all_children Q cs" "P w2"
    using resume_children_keep by blast
  then show ?thesis by (cases "list_all (pred_option subtask_finished) cs") (auto simp: subagent_task_poll_def n Let_def)
qed

lemma step_keeps:
  assumes "subagent_step env W (t, w) (t', w')" and "all_children Q (sg_children t)" and "P w"
    and "\<And>w w'. W w w' \<Longrightarrow> P w \<Longrightarrow> P w'"
  shows "all_children Q (sg_children t') \<and> P w'"
  using assms(1)
proof (cases rule: subagent_step.cases)
  case (Poll out)
  with poll_keeps [OF assms(2,3)] show ?thesis by auto
next
  case Cancel
  with assms(2,3) all_children_cancel [of Q] cancelled show ?thesis by (simp add: subagent_task_cancel_def)
next
  case (Events i c c' evs)
  then have "Q c" using assms(2) by (auto simp: all_children_def list_all_length)
  then have "Q c' \<and> P (world c')" using Events delivered [of "c\<lparr>world := w\<rparr>" evs] given [of c w] assms(3) by simp
  with Events assms(2) show ?thesis by (simp add: all_children_update)
next
  case World
  with assms(2-4) show ?thesis by auto
qed

lemma reach_keeps:
  assumes "(subagent_step env W)\<^sup>*\<^sup>* s s'" and "all_children Q (sg_children (fst s))" and "P (snd s)"
    and "\<And>w w'. W w w' \<Longrightarrow> P w \<Longrightarrow> P w'"
  shows "all_children Q (sg_children (fst s')) \<and> P (snd s')"
  using assms(1-3)
proof (induction rule: rtranclp_induct)
  case (step s1 s2)
  then show ?case using step_keeps [of W "fst s1" "snd s1" "fst s2" "snd s2"] assms(4) by (cases s1; cases s2) auto
qed simp

end

interpretation live: child_invariant env resumable "\<lambda>_. True" for env :: "'w env"
proof
  fix c :: "'w loop" and w :: 'w and evs
  show "resumable (c\<lparr>world := w\<rparr>)" if "resumable c" using that by (rule resumable_world)
  show "resumable (c\<lparr>a_cancel := cancel_token_cancel (a_cancel c)\<rparr>)" if "resumable c"
    using that history_ok_steady [OF _ quiet_steady [OF do_host_call_quiet [of c Cancel]]]
    by (simp add: resumable_def)
  show "\<exists>r c'. agent_resume env c = Some (r, c') \<and> resumable c' \<and> True" if "resumable c"
    using resumable_resume [OF that] by blast
  show "resumable (deliver_events env c evs) \<and> True" if "resumable c"
    using that history_ok_steady [OF _ deliver_events_steady [of c env evs]] steady_state [OF deliver_events_steady [of c env evs]]
    by (simp add: resumable_def)
qed simp

interpretation gated_live: child_invariant env "\<lambda>c. resumable c \<and> unapproved env P c"
  "\<lambda>w. P w \<and> (\<forall>w. P w \<longrightarrow> P (snd (e_clock env w)))" for env :: "'w env" and P
proof
  fix c :: "'w loop" and w :: 'w and evs
  assume c: "resumable c \<and> unapproved env P c"
  show "resumable (c\<lparr>world := w\<rparr>) \<and> unapproved env P (c\<lparr>world := w\<rparr>)" if "P w \<and> (\<forall>w. P w \<longrightarrow> P (snd (e_clock env w)))"
    using resumable_world [of c w] unapproved_world [of env P c w] c conjunct1 [OF that] by simp
  show "resumable (c\<lparr>a_cancel := cancel_token_cancel (a_cancel c)\<rparr>) \<and> unapproved env P (c\<lparr>a_cancel := cancel_token_cancel (a_cancel c)\<rparr>)"
    using c live.cancelled [of c] by simp
  assume p: "P (world c) \<and> (\<forall>w. P w \<longrightarrow> P (snd (e_clock env w)))"
  obtain r c' where r: "agent_resume env c = Some (r, c')" "resumable c'" using live.resumed [OF conjunct1 [OF c], of env] by blast
  have "unapproved env P c'" using unapproved_resume [OF _ _ r(1)] c by (simp add: resumable_def)
  with r p show "\<exists>r c'. agent_resume env c = Some (r, c') \<and> (resumable c' \<and> unapproved env P c') \<and>
      P (world c') \<and> (\<forall>w. P w \<longrightarrow> P (snd (e_clock env w)))"
    by (auto simp: unapproved_def)
  show "(resumable (deliver_events env c evs) \<and> unapproved env P (deliver_events env c evs)) \<and>
      P (world (deliver_events env c evs)) \<and> (\<forall>w. P w \<longrightarrow> P (snd (e_clock env w)))"
    using c p live.delivered [of c env evs] unapproved_deliver [of env P c evs] by (auto simp: unapproved_def)
qed blast

lemma fresh_at_rest:
  assumes "a_state a = AGENT_READY" and "mitems (a_messages a) = []"
  shows "at_rest (loop_state a w)"
  using assms by (simp add: at_rest_def history_ok_def loop_state_def agent.extend_def loop.fields_def tool_grouped_def)

lemma spawned_at_rest: "agent_spawn next_id parent cfg = (child, next') \<Longrightarrow> at_rest (loop_state child w)"
  using agent_spawn_spec [of next_id parent cfg child next'] by (intro fresh_at_rest) blast+

lemma start_resumable:
  assumes "at_rest a"
  shows "\<exists>rc a1. agent_start env txt a = Some (rc, a1) \<and> resumable a1"
proof (cases "a_model a = None")
  case True
  with assms show ?thesis by (auto simp: agent_start_def at_rest_def resumable_def)
next
  case False
  from assms have "resumable (begin_turn env txt a)"
    using history_ok_begin at_rest_fields by (fastforce simp: resumable_def begin_turn_def Let_def)
  from resumable_resume [OF this] obtain r a1 where "agent_resume env (begin_turn env txt a) = Some (r, a1)" "resumable a1" by blast
  with False show ?thesis by (cases "a_model a") (auto simp: agent_start_def)
qed

lemma start_children_live:
  "\<exists>cs next' w'. start_children env spawned parent tasks i next_id w = Some (cs, next', w') \<and>
     all_children resumable cs \<and> length cs = length tasks"
proof (induction tasks arbitrary: i next_id w)
  case (Cons t tasks)
  obtain child next1 where s: "agent_spawn next_id parent (Some (sub_config parent t)) = (child, next1)" by (metis surj_pair)
  from start_resumable [OF spawned_at_rest [OF s, of w]] obtain rc c where
    c: "agent_start env (st_task t) (loop_state child w) = Some (rc, c)" "resumable c" by blast
  from Cons.IH [of "i + 1" next_id w] Cons.IH [of "i + 1" next1 "world c"] show ?case
    by (cases "spawned i") (auto simp: s c Let_def)
qed simp

section \<open>Children need no approval because they get none\<close>

text \<open>What the runtime of the parent offers its children: its models and its tools.\<close>

definition harmless_runtime :: "('w \<Rightarrow> bool) \<Rightarrow> 'w runtime \<Rightarrow> bool" where
  "harmless_runtime P rt \<longleftrightarrow>
     (\<exists>m. rt_model rt = Some m \<and> harmless_model P m) \<and>
     (\<forall>name. pred_option (harmless_model P) (rt_model_by_name rt name)) \<and>
     pred_option (guarded_registry P) (rt_tools rt)"

lemma spawned_unapproved:
  assumes "agent_spawn next_id parent cfg = (child, next')" and "a_runtime parent = Some rt" and "harmless_runtime P rt"
    and "\<exists>m. a_model parent = Some m \<and> harmless_model P m" and "\<forall>w. P w \<longrightarrow> P (snd (e_clock env w))" and "P w"
  shows "unapproved env P (loop_state child w)"
proof -
  have m: "\<exists>m. a_model child = Some m \<and> harmless_model P m"
  proof (cases "cfg = None \<or> cfg_model_name (the cfg) = None")
    case True
    with agent_spawn_spec [OF assms(1)] assms(4) show ?thesis by simp
  next
    case False
    then obtain g name where "cfg = Some g" "cfg_model_name g = Some name" by auto
    then have "a_model child = (case rt_model_by_name rt name of Some m \<Rightarrow> Some m | None \<Rightarrow> rt_model rt)"
      using assms(1,2) by (auto simp: agent_spawn_def agent_new_def Let_def)
    with assms(3) show ?thesis by (cases "rt_model_by_name rt name") (auto simp: harmless_runtime_def dest: spec [of _ name])
  qed
  have f: "a_tools child = rt_tools rt" "a_parent child = Some (a_id parent)" "a_event_cb child = None"
    "a_approval_cb child = None"
    using assms(1,2) by (auto simp: agent_spawn_def agent_new_def Let_def split: if_splits)
  have "a_model (loop_state child w) = a_model child" "a_tools (loop_state child w) = a_tools child"
    "a_parent (loop_state child w) = a_parent child" "a_event_cb (loop_state child w) = a_event_cb child"
    "a_approval_cb (loop_state child w) = a_approval_cb child" "tool_task (loop_state child w) = None"
    "parallel_tools (loop_state child w) = []" "world (loop_state child w) = w"
    by (simp_all add: loop_state_def agent.extend_def loop.fields_def)
  with m f assms(3,5,6) show ?thesis by (auto simp: unapproved_defs harmless_runtime_def)
qed

lemma start_unapproved:
  assumes "at_rest a" and "unapproved env P a" and "agent_start env txt a = Some (rc, a1)"
  shows "unapproved env P a1"
proof (cases "a_model a = None")
  case False
  from history_ok_begin at_rest_fields [OF assms(1)] have h: "history_ok (begin_turn env txt a)" by blast
  from resume_returns [OF h] obtain r d where "agent_resume env (begin_turn env txt a) = Some (r, d)" by blast
  with unapproved_resume [OF h unapproved_begin_turn [OF assms(2)] this] assms(3) False show ?thesis
    by (simp add: agent_start_def)
qed (use assms in \<open>simp add: agent_start_def\<close>)

lemma start_children_unapproved:
  assumes "start_children env spawned parent tasks i next_id w = Some (cs, next', w')"
    and "a_runtime parent = Some rt" and "harmless_runtime P rt"
    and "\<exists>m. a_model parent = Some m \<and> harmless_model P m" and "\<forall>w. P w \<longrightarrow> P (snd (e_clock env w))" and "P w"
  shows "all_children (\<lambda>c. resumable c \<and> unapproved env P c) cs \<and> P w'"
  using assms(1,6)
proof (induction tasks arbitrary: i next_id w cs next')
  case (Cons t tasks)
  obtain child next1 where s: "agent_spawn next_id parent (Some (sub_config parent t)) = (child, next1)" by (metis surj_pair)
  have rest: "at_rest (loop_state child w)" by (rule spawned_at_rest [OF s])
  from start_resumable [OF this] obtain rc c where
    c: "agent_start env (st_task t) (loop_state child w) = Some (rc, c)" "resumable c" by blast
  have u: "unapproved env P c"
    by (rule start_unapproved [OF rest spawned_unapproved [OF s assms(2-5) Cons.prems(2)] c(1)])
  then have "P (world c)" by (simp add: unapproved_def)
  show ?case
  proof (cases "spawned i")
    case True
    with Cons.prems(1) obtain cs1 next2 where "start_children env spawned parent tasks (i + 1) next1 (world c) = Some (cs1, next2, w')"
      "cs = Some c # cs1" by (auto simp: s c(1) Let_def)
    with Cons.IH [OF this(1) \<open>P (world c)\<close>] u c(2) show ?thesis by simp
  next
    case False
    with Cons.prems(1) obtain cs1 next2 where "start_children env spawned parent tasks (i + 1) next_id w = Some (cs1, next2, w')"
      "cs = None # cs1" by auto
    with Cons.IH [OF this(1) Cons.prems(2)] show ?thesis by simp
  qed
qed simp

lemma subagent_start_cases:
  assumes "subagent_start env spawned (Some parent) rt arguments next_id w = Some ((rc, res, Some task), next', w')"
  obtains tasks cs w1 where "parse_tasks (e_read env) arguments = (AGENT_OK, tasks)" "tasks \<noteq> []"
    "start_children env spawned parent tasks 0 next_id w = Some (cs, next', w1)" "w' = snd (monotonic_ms env w1)"
    "task = \<lparr>sg_tasks = tasks, sg_children = cs,
             sg_deadline_ms = int64_wrap (fst (monotonic_ms env w1) + max_timeout_ms tasks), sg_cancelled = False\<rparr>"
proof -
  obtain rc1 tasks where p: "parse_tasks (e_read env) arguments = (rc1, tasks)" by (metis surj_pair)
  with assms that show ?thesis
    by (auto simp: subagent_start_def Let_def split_beta split: option.splits if_splits)
qed

text \<open>C5: sub-agents are no way around approval.  Let \<open>P\<close> be a property of the world that everything but the tools
  with the approval flag preserves: the models, the clock, the other tools and what happens outside.  It holds after the
  children of a \<open>subagent\<close> call were started, and after any polls, cancels and model events, whatever the
  children are told.\<close>

theorem subagents_unapproved:
  assumes "subagent_start env spawned (Some parent) rt arguments next_id w0 = Some ((rc, res, Some task), next', w1)"
    and "a_runtime parent = Some runtime" and "harmless_runtime P runtime"
    and "\<exists>m. a_model parent = Some m \<and> harmless_model P m" and "\<forall>w. P w \<longrightarrow> P (snd (e_clock env w))"
    and "\<forall>w w'. W w w' \<longrightarrow> P w \<longrightarrow> P w'" and "P w0"
    and "(subagent_step env W)\<^sup>*\<^sup>* (task, w1) (task', w')"
  shows "P w'"
proof -
  from subagent_start_cases [OF assms(1)] obtain tasks cs w2 where
    s: "start_children env spawned parent tasks 0 next_id w0 = Some (cs, next', w2)" "w1 = snd (monotonic_ms env w2)"
       "sg_children task = cs" by (metis subagent_task.select_convs(2))
  from start_children_unapproved [OF s(1) assms(2-5,7)]
  have c: "all_children (\<lambda>c. resumable c \<and> unapproved env P c) cs" and p: "P w2" by blast+
  have "P w1" using p assms(5) by (simp add: s(2) monotonic_ms_def split_beta)
  with gated_live.reach_keeps [OF assms(8), of P] c s(3) assms(5,6) show ?thesis by simp
qed

lemma subagent_start_returns: "\<exists>out next' w'. subagent_start env spawned agent rt arguments next_id w = Some (out, next', w')"
proof -
  obtain rc tasks where p: "parse_tasks (e_read env) arguments = (rc, tasks)" by (metis surj_pair)
  show ?thesis
  proof (cases agent)
    case (Some parent)
    from start_children_live [of env spawned parent tasks 0 next_id w] obtain cs next' w1 where
      "start_children env spawned parent tasks 0 next_id w = Some (cs, next', w1)" by blast
    with p Some show ?thesis by (cases rt) (simp_all add: subagent_start_def Let_def split_beta)
  qed (simp add: subagent_start_def)
qed

section \<open>What a poll reports\<close>

text \<open>The block of a child in the result; a child that was never spawned has none.\<close>

definition child_block :: "sub_task \<Rightarrow> 'w loop option \<Rightarrow> string" where
  "child_block t child = (case child of None \<Rightarrow> [] | Some c \<Rightarrow> append_child_result [] (st_role t) c)"

lemma append_child_result_block: "append_child_result out r c = out @ append_child_result [] r c"
  by (simp add: append_child_result_def Let_def)

lemma append_results_blocks: "append_results out ts cs = out @ concat (map2 child_block ts cs)"
proof (induction out ts cs rule: append_results.induct)
  case (1 out t tasks c children)
  then show ?case using append_child_result_block [of out "st_role t" c] by (simp add: child_block_def)
qed (simp_all add: child_block_def)

lemma child_block_nonempty: "child_block t (Some c) \<noteq> []"
  by (simp add: child_block_def append_child_result_def Let_def)

lemma blocks_nonempty:
  "length ts = length cs \<Longrightarrow> Some c \<in> set cs \<Longrightarrow> concat (map2 child_block ts cs) \<noteq> []"
proof (induction ts cs rule: list_induct2)
  case (Cons t ts d cs)
  then show ?case using child_block_nonempty [of t c] by (cases "d = Some c") auto
qed simp

lemma resume_children_length: "resume_children env cs w = Some (cs', w') \<Longrightarrow> length cs' = length cs"
  by (induction cs arbitrary: w cs' w') (auto split: option.splits)

lemma cancel_fields [simp]:
  "sg_tasks (subagent_task_cancel t) = sg_tasks t" "length (sg_children (subagent_task_cancel t)) = length (sg_children t)"
  by (simp_all add: subagent_task_cancel_def)

text \<open>The poll once its first loop is known.\<close>

lemma poll_result:
  assumes "length (sg_tasks t) = length (sg_children t)"
    and "subagent_task_poll env t w = Some ((rc, res, dn), t', w')"
  shows "sg_tasks t' = sg_tasks t \<and> length (sg_children t') = length (sg_children t) \<and>
    (dn \<longleftrightarrow> all_children subtask_finished (sg_children t')) \<and> (\<not> dn \<longrightarrow> rc = AGENT_OK \<and> res = zero_result) \<and>
    (dn \<and> (\<exists>c. Some c \<in> set (sg_children t')) \<longrightarrow> rc = AGENT_OK \<and>
       res = \<lparr>tr_content = Some (concat (map2 child_block (sg_tasks t) (sg_children t'))), tr_is_error = False\<rparr>)"
proof -
  obtain now w1 where n: "(if sg_cancelled t then (0, w) else monotonic_ms env w) = (now, w1)" by (metis surj_pair)
  define t1 where "t1 = (if \<not> sg_cancelled t \<and> now \<ge> sg_deadline_ms t then subagent_task_cancel t else t)"
  have f: "sg_tasks t1 = sg_tasks t" "length (sg_children t1) = length (sg_children t)" by (simp_all add: t1_def)
  from assms(2) obtain cs where r: "resume_children env (sg_children t1) w1 = Some (cs, w')" "t' = t1\<lparr>sg_children := cs\<rparr>"
    "(rc, res, dn) =
       (if \<not> list_all (pred_option subtask_finished) cs then (AGENT_OK, zero_result, False)
        else (if append_results [] (sg_tasks t) cs \<noteq> [] then AGENT_OK else AGENT_ERR_OOM,
              \<lparr>tr_content = (if append_results [] (sg_tasks t) cs \<noteq> [] then Some (append_results [] (sg_tasks t) cs) else None),
               tr_is_error = False\<rparr>, True))"
    by (auto simp: subagent_task_poll_def n Let_def t1_def [symmetric] f split: option.splits if_splits)
  have l: "length (sg_tasks t) = length cs" using assms(1) f(2) resume_children_length [OF r(1)] by simp
  show ?thesis
    using r(3) blocks_nonempty [OF l] by (auto simp: r(2) f l assms(1) [symmetric] all_children_def append_results_blocks split: if_splits)
qed

lemma step_shape:
  assumes "subagent_step env W s s'" and "length (sg_tasks (fst s)) = length (sg_children (fst s))"
  shows "sg_tasks (fst s') = sg_tasks (fst s) \<and> length (sg_tasks (fst s')) = length (sg_children (fst s'))"
  using assms(1)
proof (cases rule: subagent_step.cases)
  case (Poll t w out t' w')
  obtain rc res dn where "out = (rc, res, dn)" by (metis surj_pair)
  with Poll assms(2) poll_result [of t env w rc res dn t' w'] show ?thesis by simp
qed (use assms(2) in auto)

lemma reach_shape:
  assumes "(subagent_step env W)\<^sup>*\<^sup>* s s'" and "length (sg_tasks (fst s)) = length (sg_children (fst s))"
  shows "sg_tasks (fst s') = sg_tasks (fst s) \<and> length (sg_tasks (fst s')) = length (sg_children (fst s'))"
  using assms by (induction rule: rtranclp_induct) (use step_shape in force)+

text \<open>C9: a \<open>subagent\<close> call never hangs the loop of its parent, and it ends with one block for each child: whatever
  happens after the start, a poll returns, it is done exactly when every child is finished, and then
  its text is the blocks of the children in the order of the tasks.\<close>

theorem subagent_polls_report:
  assumes "subagent_start env spawned (Some parent) rt arguments next_id w0 = Some ((rc0, res0, Some task), next', w1)"
    and "(subagent_step env W)\<^sup>*\<^sup>* (task, w1) (t, w)"
  shows "\<exists>rc res dn t' w'. subagent_task_poll env t w = Some ((rc, res, dn), t', w') \<and>
    (dn \<longleftrightarrow> all_children subtask_finished (sg_children t')) \<and>
    (dn \<and> (\<exists>c. Some c \<in> set (sg_children t')) \<longrightarrow> rc = AGENT_OK \<and>
       tr_content res = Some (concat (map2 child_block (snd (parse_tasks (e_read env) arguments)) (sg_children t'))))"
proof -
  from subagent_start_cases [OF assms(1)] obtain tasks cs w2 where
    s: "parse_tasks (e_read env) arguments = (AGENT_OK, tasks)" "start_children env spawned parent tasks 0 next_id w0 = Some (cs, next', w2)"
       "sg_children task = cs" "sg_tasks task = tasks" by (metis subagent_task.select_convs(1,2))
  from start_children_live [of env spawned parent tasks 0 next_id w0] s(2) have l: "all_children resumable cs" "length cs = length tasks"
    by auto
  have t: "sg_tasks t = tasks" "length (sg_tasks t) = length (sg_children t)"
    using reach_shape [OF assms(2)] s(3,4) l(2) by auto
  have "all_children resumable (sg_children t)" using live.reach_keeps [OF assms(2)] s(3) l(1) by simp
  from live.poll_keeps [OF this] obtain rc res dn t' w' where "subagent_task_poll env t w = Some ((rc, res, dn), t', w')"
    by (metis prod_cases3)
  with poll_result [OF t(2) this] t(1) s(1) show ?thesis by auto
qed

section \<open>The deadline\<close>

text \<open>The block of a child at the deadline.\<close>

definition late_block :: "sub_task \<Rightarrow> 'w loop option \<Rightarrow> string" where
  "late_block t child =
     (case child of
        Some c \<Rightarrow>
          if subtask_finished c then child_block t child
          else ''['' @ (case st_role t of None \<Rightarrow> ''subagent'' | Some r \<Rightarrow> r) @ ''] (failed or cancelled)\<newline>''
      | None \<Rightarrow> [])"

text \<open>A child after the deadline, against the same child at it: a finished one is what it was; of another one
  the token stays set, the history stays what it was and the only state it may still enter is the cancelled one.\<close>

definition frozen :: "'w loop \<Rightarrow> 'w loop \<Rightarrow> bool" where
  "frozen c d \<longleftrightarrow> a_messages d = a_messages c \<and>
     (if subtask_finished c then a_state d = a_state c
      else ct_cancelled (a_cancel d) \<and> (a_state d = a_state c \<or> a_state d = AGENT_CANCELLED))"

abbreviation all_frozen :: "'w loop option list \<Rightarrow> 'w loop option list \<Rightarrow> bool" where
  "all_frozen \<equiv> list_all2 (rel_option frozen)"

lemma frozen_finished: "frozen c d \<Longrightarrow> subtask_finished c \<Longrightarrow> subtask_finished d"
  by (simp add: frozen_def subtask_finished_def)

lemma frozen_cancel:
  "\<not> subtask_finished c \<Longrightarrow> frozen c (c\<lparr>a_cancel := cancel_token_cancel (a_cancel c)\<rparr>)"
  "subtask_finished c \<Longrightarrow> frozen c c"
  by (simp_all add: frozen_def cancel_token_cancel_def)

lemma frozen_resumed:
  assumes "frozen c d" and "\<not> subtask_finished d" and "agent_resume env (d\<lparr>world := w\<rparr>) = Some (r, d')"
  shows "frozen c d' \<and> (\<not> outstanding d \<longrightarrow> a_state d' = AGENT_CANCELLED)"
proof -
  let ?d = "d\<lparr>world := w\<rparr>"
  have nf: "\<not> subtask_finished c" using assms(1,2) frozen_finished by blast
  then have tok: "ct_cancelled (a_cancel d)" using assms(1) by (simp add: frozen_def)
  obtain o1 e where e: "cancel_step env ?d = (o1, e)" by (cases "cancel_step env ?d")
  have "stays_cancelled env ?d" using tok by (simp add: stays_cancelled_def)
  from cancelled_resume [OF this e] assms(3) have o: "o1 = Some r" "e = d'" by auto
  from cancel_step_token [OF e] tok o have t: "ct_cancelled (a_cancel d')" "\<not> outstanding ?d \<longrightarrow> r = AGENT_STEP_CANCELLED"
    by (auto simp: token_kept_def)
  have "outstanding ?d = outstanding d" by (simp add: outstanding_def model_pending_def tasks_of_def)
  with cancel_step_effect [OF e] o t assms(1) nf show ?thesis by (auto simp: frozen_def)
qed

lemma frozen_delivered: "frozen c d \<Longrightarrow> frozen c (deliver_events env (d\<lparr>world := w\<rparr>) evs)"
  using deliver_events_steady [of "d\<lparr>world := w\<rparr>" env evs] token_kept_events [of "d\<lparr>world := w\<rparr>" env evs]
  by (simp add: frozen_def steady_def token_kept_def split: if_splits)

lemma frozen_children_resumed:
  assumes "all_frozen cs0 cs" and "resume_children env cs w = Some (cs', w')"
  shows "all_frozen cs0 cs' \<and>
    list_all2 (rel_option (\<lambda>d d'. \<not> subtask_finished d \<and> \<not> outstanding d \<longrightarrow> a_state d' = AGENT_CANCELLED)) cs cs'"
  using assms
proof (induction arbitrary: w cs' rule: list_all2_induct)
  case (Cons c0 cs0 c cs)
  from Cons.prems obtain c' w1 cs1 where r: "resume_child env c w = Some (c', w1)" "resume_children env cs w1 = Some (cs1, w')"
    "cs' = c' # cs1" by (auto split: option.splits)
  have "rel_option frozen c0 c' \<and> rel_option (\<lambda>d d'. \<not> subtask_finished d \<and> \<not> outstanding d \<longrightarrow> a_state d' = AGENT_CANCELLED) c c'"
  proof (cases c)
    case None
    with Cons.hyps(1) r(1) show ?thesis by (simp add: resume_child_def)
  next
    case (Some d)
    with Cons.hyps(1) obtain d0 where d0: "c0 = Some d0" "frozen d0 d" by (cases c0) auto
    show ?thesis
    proof (cases "subtask_finished d")
      case True
      with r(1) Some d0 show ?thesis by (auto simp: resume_child_def)
    next
      case False
      with r(1) Some obtain rr d' where "agent_resume env (d\<lparr>world := w\<rparr>) = Some (rr, d')" "c' = Some d'"
        by (auto simp: resume_child_def split: option.splits)
      with frozen_resumed [OF d0(2) False] Some d0(1) show ?thesis by auto
    qed
  qed
  with Cons.IH [OF r(2)] r(3) show ?case by auto
qed simp

lemma frozen_cancel_again: "all_frozen cs0 cs \<Longrightarrow> all_frozen cs0 (map cancel_child cs)"
  unfolding list_all2_map2
proof (rule list_all2_mono)
  fix c0 c :: "'a loop option"
  assume "rel_option frozen c0 c"
  then show "rel_option frozen c0 (cancel_child c)"
    by (cases c0; cases c) (auto simp: cancel_child_def frozen_def cancel_token_cancel_def)
qed

lemma frozen_first_cancel: "all_frozen cs (map cancel_child cs)"
proof -
  have "rel_option frozen c (cancel_child c)" for c :: "'a loop option"
    by (cases c) (simp_all add: cancel_child_def frozen_cancel)
  then show ?thesis by (simp add: list_all2_map2 list_all2_same)
qed

lemma frozen_step:
  assumes "subagent_step env W s s'" and "all_frozen cs0 (sg_children (fst s))"
  shows "all_frozen cs0 (sg_children (fst s'))"
  using assms(1)
proof (cases rule: subagent_step.cases)
  case (Poll t w out t' w')
  obtain now w1 where n: "(if sg_cancelled t then (0, w) else monotonic_ms env w) = (now, w1)" by (metis surj_pair)
  define t1 where "t1 = (if \<not> sg_cancelled t \<and> now \<ge> sg_deadline_ms t then subagent_task_cancel t else t)"
  have "all_frozen cs0 (sg_children t1)"
    using assms(2) Poll(1) frozen_cancel_again by (auto simp: t1_def subagent_task_cancel_def)
  moreover obtain cs where cs: "resume_children env (sg_children t1) w1 = Some (cs, w')" "sg_children t' = cs"
    using Poll(3) by (auto simp: subagent_task_poll_def n Let_def t1_def [symmetric] split: option.splits if_splits)
  ultimately have "all_frozen cs0 cs" by (blast dest: frozen_children_resumed)
  with cs(2) Poll(2) show ?thesis by simp
next
  case (Cancel t w)
  with assms(2) frozen_cancel_again show ?thesis by (simp add: subagent_task_cancel_def)
next
  case (Events i t c c' w evs)
  from assms(2) Events(1,3,4) have "rel_option frozen (cs0 ! i) (Some c)" by (auto simp: list_all2_conv_all_nth)
  then have "rel_option frozen (cs0 ! i) (Some c')" using frozen_delivered Events(5) by (cases "cs0 ! i") auto
  with assms(2) Events(1-3) show ?thesis by (auto simp: list_all2_conv_all_nth nth_list_update)
next
  case World
  with assms(2) show ?thesis by simp
qed

lemma frozen_reach:
  assumes "(subagent_step env W)\<^sup>*\<^sup>* s s'" and "all_frozen cs0 (sg_children (fst s))"
  shows "all_frozen cs0 (sg_children (fst s'))"
  using assms by induction (auto dest: frozen_step)

lemma frozen_blocks:
  assumes "all_frozen cs0 cs" and "all_children subtask_finished cs" and "length ts = length cs0"
  shows "map2 child_block ts cs = map2 late_block ts cs0"
proof -
  have "length cs0 = length cs" using assms(1) by (rule list_all2_lengthD)
  from assms(3) this assms(1,2) show ?thesis
  proof (induction ts cs0 cs rule: list_induct3)
    case (Cons t ts c0 cs0 c cs)
    have "child_block t c = late_block t c0"
    proof (cases c0)
      case None
      with Cons.prems show ?thesis by (cases c) (simp_all add: child_block_def late_block_def)
    next
      case (Some d0)
      with Cons.prems obtain d where d: "c = Some d" "frozen d0 d" "subtask_finished d" by (cases c) auto
      show ?thesis
      proof (cases "subtask_finished d0")
        case True
        with d show ?thesis by (simp add: Some child_block_def late_block_def frozen_def append_child_result_def Let_def)
      next
        case False
        then have "a_state d = AGENT_CANCELLED" using d(2,3) by (auto simp: frozen_def subtask_finished_def)
        with False show ?thesis by (simp add: Some d(1) child_block_def late_block_def append_child_result_def Let_def)
      qed
    qed
    with Cons show ?case by simp
  qed simp
qed

text \<open>C10: the deadline stops a \<open>subagent\<close> call.  A poll at or after it cancels every child that is not finished:
  one that has no request and no tool outstanding is cancelled in that very poll, and whatever happens
  afterwards, none of the others does anything any more but end as cancelled, with the history it had at
  the deadline.  When the call is done, its text is the answers of the children that had finished by the
  deadline and \<open>failed or cancelled\<close> for the others.\<close>

theorem subagent_deadline_stops:
  assumes "\<not> sg_cancelled t" and "fst (monotonic_ms env w) \<ge> sg_deadline_ms t"
    and "length (sg_tasks t) = length (sg_children t)"
    and "subagent_task_poll env t w = Some (out, t', w')"
  shows "sg_cancelled t' \<and>
    list_all2 (rel_option (\<lambda>c d. \<not> subtask_finished c \<and> \<not> outstanding c \<longrightarrow> a_state d = AGENT_CANCELLED))
      (sg_children t) (sg_children t') \<and>
    (\<forall>s. (subagent_step env W)\<^sup>*\<^sup>* (t', w') s \<longrightarrow>
       all_frozen (sg_children t) (sg_children (fst s)) \<and>
       (all_children subtask_finished (sg_children (fst s)) \<longrightarrow>
          map2 child_block (sg_tasks t) (sg_children (fst s)) = map2 late_block (sg_tasks t) (sg_children t)))"
proof -
  obtain now w1 where n: "monotonic_ms env w = (now, w1)" by (metis surj_pair)
  with assms obtain cs where r: "resume_children env (map cancel_child (sg_children t)) w1 = Some (cs, w')"
    "sg_children t' = cs" "sg_cancelled t'"
    by (auto simp: subagent_task_poll_def subagent_task_cancel_def Let_def split: option.splits if_splits)
  note f = frozen_children_resumed [OF frozen_first_cancel r(1)]
  have "list_all2 (rel_option (\<lambda>c d. \<not> subtask_finished c \<and> \<not> outstanding c \<longrightarrow> a_state d = AGENT_CANCELLED))
      (sg_children t) (sg_children t')"
    using conjunct2 [OF f] unfolding r(2) list_all2_map1
  proof (rule list_all2_mono)
    fix c d :: "'a loop option"
    assume "rel_option (\<lambda>d d'. \<not> subtask_finished d \<and> \<not> outstanding d \<longrightarrow> a_state d' = AGENT_CANCELLED) (cancel_child c) d"
    then show "rel_option (\<lambda>c d. \<not> subtask_finished c \<and> \<not> outstanding c \<longrightarrow> a_state d = AGENT_CANCELLED) c d"
      by (cases c; cases d) (auto simp: cancel_child_def outstanding_def model_pending_def tasks_of_def subtask_finished_def split: if_splits)
  qed
  moreover have "all_frozen (sg_children t) (sg_children (fst s))" if "(subagent_step env W)\<^sup>*\<^sup>* (t', w') s" for s
    using frozen_reach [OF that] conjunct1 [OF f] r(2) by simp
  ultimately show ?thesis using r(3) frozen_blocks assms(3) by blast
qed

text \<open>All children share one deadline, the one of the longest timeout.\<close>

lemma max_timeout_bounds:
  "1000 \<le> max_timeout_ms ts" "t \<in> set ts \<Longrightarrow> int64_wrap (st_timeout_s t * 1000) \<le> max_timeout_ms ts"
proof -
  have g: "m \<le> foldl (\<lambda>m t. let ms = int64_wrap (st_timeout_s t * 1000) in if ms > m then ms else m) m ts \<and>
      (\<forall>t\<in>set ts. int64_wrap (st_timeout_s t * 1000) \<le> foldl (\<lambda>m t. let ms = int64_wrap (st_timeout_s t * 1000) in if ms > m then ms else m) m ts)" for m
  proof (induction ts arbitrary: m)
    case (Cons t ts)
    from Cons [of m] Cons [of "int64_wrap (st_timeout_s t * 1000)"] show ?case by (auto simp: Let_def)
  qed simp
  then show "1000 \<le> max_timeout_ms ts" "t \<in> set ts \<Longrightarrow> int64_wrap (st_timeout_s t * 1000) \<le> max_timeout_ms ts"
    by (simp_all add: max_timeout_ms_def)
qed

section \<open>Examples\<close>

definition task_env :: "bool env" where
  "task_env = still_env\<lparr>e_read := (\<lambda>_. Some (JObj [(''task'', JStr ''erase it'')]))\<rparr>"

text \<open>A runtime whose only tool needs approval, with a model that always calls it.\<close>

definition erase_runtime :: "bool runtime" where
  "erase_runtime = \<lparr>rt_model = Some eager_model, rt_tools = Some \<lparr>r_tools = [erase_tool], r_enabled = [True], r_cap = 8\<rparr>,
     rt_cwd = None, rt_max_tokens = 0, rt_max_retries = 0, rt_model_by_name = (\<lambda>_. None)\<rparr>"

definition erase_parent :: "bool loop" where
  "erase_parent = loop_state (fst (agent_new 1 (Some erase_runtime) None)) False"

lemma erase_parent_fields [simp]: "a_runtime erase_parent = Some erase_runtime" "a_model erase_parent = Some eager_model"
  by (simp_all add: erase_parent_def loop_state_def agent.extend_def loop.fields_def agent_new_def erase_runtime_def Let_def)

lemma erase_tasks: "parse_tasks (e_read task_env) args = (AGENT_OK, [single_task ''erase it''])"
  by (simp add: parse_tasks_def task_env_def json_parse_def json_val_is_obj_def json_val_obj_get_def c_get_str_def
      json_obj_get_str_def json_val_str_def c_str_def Let_def)

lemma erase_start:
  "\<exists>task next' w'. subagent_start task_env (\<lambda>_. True) (Some erase_parent) (Some erase_runtime) args 7 False =
     Some ((AGENT_OK, zero_result, Some task), next', w') \<and> sg_tasks task = [single_task ''erase it'']"
proof -
  from start_children_live [of task_env "\<lambda>_. True" erase_parent "[single_task ''erase it'']" 0 7 False] obtain cs next' w1 where
    "start_children task_env (\<lambda>_. True) erase_parent [single_task ''erase it''] 0 7 False = Some (cs, next', w1)" by blast
  then show ?thesis by (simp add: subagent_start_def erase_tasks Let_def split_beta)
qed

theorem subagents_unapproved_witness:
  "\<exists>task next' w'. subagent_start task_env (\<lambda>_. True) (Some erase_parent) (Some erase_runtime) ''x'' 7 False =
     Some ((AGENT_OK, zero_result, Some task), next', w') \<and> \<not> w'"
proof -
  obtain task next' w' where s: "subagent_start task_env (\<lambda>_. True) (Some erase_parent) (Some erase_runtime) ''x'' 7 False =
     Some ((AGENT_OK, zero_result, Some task), next', w')" using erase_start by blast
  have m: "harmless_model Not eager_model" by (simp add: harmless_model_def eager_model_def)
  have r: "harmless_runtime Not erase_runtime"
    by (simp add: harmless_runtime_def erase_runtime_def m guarded_registry_def harmless_preview_def erase_tool_def
        approval_required_def parallel_safe_def TOOL_FLAG_APPROVAL_REQUIRED_def TOOL_FLAG_PARALLEL_SAFE_def)
  have "\<forall>w. \<not> w \<longrightarrow> \<not> snd (e_clock task_env w)" by (simp add: task_env_def still_env_def)
  from subagents_unapproved [OF s erase_parent_fields(1) r _ this, of "\<lambda>_ _. False" task w'] m have "\<not> w'" by simp
  with s show ?thesis by blast
qed

theorem subagent_polls_report_witness:
  "\<exists>task next' w' rc res dn t' w2. subagent_start task_env (\<lambda>_. True) (Some erase_parent) (Some erase_runtime) ''x'' 7 False =
     Some ((AGENT_OK, zero_result, Some task), next', w') \<and>
     subagent_task_poll task_env (subagent_task_cancel task) w' = Some ((rc, res, dn), t', w2) \<and>
     (dn \<longleftrightarrow> all_children subtask_finished (sg_children t'))"
proof -
  obtain task next' w' where s: "subagent_start task_env (\<lambda>_. True) (Some erase_parent) (Some erase_runtime) ''x'' 7 False =
     Some ((AGENT_OK, zero_result, Some task), next', w')" using erase_start by blast
  have "(subagent_step task_env (\<lambda>_ _. False))\<^sup>*\<^sup>* (task, w') (subagent_task_cancel task, w')"
    by (rule r_into_rtranclp) (rule subagent_step.Cancel)
  from subagent_polls_report [OF s this] s show ?thesis by blast
qed

definition ready_child :: "nat loop" where
  "ready_child = loop_state (fst (agent_new 2 None None)) 0"

theorem subagent_deadline_stops_witness:
  "\<exists>out t' w'. subagent_task_poll still_env
       \<lparr>sg_tasks = [single_task ''go''], sg_children = [Some ready_child], sg_deadline_ms = 0, sg_cancelled = False\<rparr> 0 =
     Some (out, t', w') \<and> all_children subtask_finished (sg_children t') \<and>
     map2 child_block [single_task ''go''] (sg_children t') = [''[subagent] (failed or cancelled)\<newline>'']"
proof -
  let ?t = "\<lparr>sg_tasks = [single_task ''go''], sg_children = [Some ready_child], sg_deadline_ms = 0, sg_cancelled = False\<rparr>"
  have f: "a_state ready_child = AGENT_READY" "tool_task ready_child = None" "parallel_tools ready_child = []"
    by (simp_all add: ready_child_def loop_state_def agent.extend_def loop.fields_def agent_new_def Let_def)
  have c: "fst (monotonic_ms still_env (0 :: nat)) \<ge> 0" by (simp add: monotonic_ms_def still_env_def int64_wrap_def)
  have b: "late_block (single_task ''go'') (Some ready_child) = ''[subagent] (failed or cancelled)\<newline>''"
    by (simp add: late_block_def subtask_finished_def single_task_def f)
  have "at_rest ready_child" unfolding ready_child_def by (rule at_rest_fresh)
  then have "all_children resumable (sg_children ?t)" by (simp add: resumable_def at_rest_def f)
  from live.poll_keeps [OF this, of still_env 0] obtain out t' w' where
    p: "subagent_task_poll still_env ?t 0 = Some (out, t', w')" by blast
  have o: "\<not> subtask_finished ready_child \<and> \<not> outstanding ready_child"
    by (simp add: subtask_finished_def outstanding_def tasks_of_def f)
  from subagent_deadline_stops [OF _ _ _ p, of "\<lambda>_ _. False"] c
  have s: "list_all2 (rel_option (\<lambda>c d. \<not> subtask_finished c \<and> \<not> outstanding c \<longrightarrow> a_state d = AGENT_CANCELLED))
      [Some ready_child] (sg_children t')"
    and e: "all_children subtask_finished (sg_children t') \<Longrightarrow>
      map2 child_block [single_task ''go''] (sg_children t') = map2 late_block [single_task ''go''] [Some ready_child]" by auto
  from s o have "all_children subtask_finished (sg_children t')"
    by (auto simp: list_all2_Cons1 option_rel_Some1 subtask_finished_def)
  moreover from this e b have "map2 child_block [single_task ''go''] (sg_children t') =
      [''[subagent] (failed or cancelled)\<newline>'']" by simp
  ultimately show ?thesis using p by (intro exI conjI)
qed

end
