(* ===== verification/Config.thy ===== *)
theory Config
  imports Provider_Auth
begin

text \<open>
  The configuration in \<open>src/src/runtime/runtime.c\<close>: \<open>config.json\<close> and what is saved of a selection,
  \<open>custom_provider.json\<close>, and the cached catalogs of \<open>models.json\<close>.  What the operating system answers
  during one operation is the record \<open>config_io\<close>; \<open>home\<close> is the variable \<open>HOME\<close>; the JSON library
  is \<open>read\<close> and \<open>render\<close>.  Pointers to the configuration are present, allocations succeed, and the
  prices, which are only displayed, are left out.
\<close>

section \<open>Providers by name\<close>

definition DEFAULT_MAX_TOKENS :: int where "DEFAULT_MAX_TOKENS = 4096"
definition DEFAULT_CONTEXT_WINDOW :: int where "DEFAULT_CONTEXT_WINDOW = 1000 * 1000"
definition DEFAULT_MAX_OUTPUT :: int where "DEFAULT_MAX_OUTPUT = 8192"
definition DEFAULT_MAX_RETRIES :: int where "DEFAULT_MAX_RETRIES = 5"
definition DEFAULT_PROJECT_MEMORY_MAX_BYTES :: int where "DEFAULT_PROJECT_MEMORY_MAX_BYTES = 4 * 1024"

definition legacy_auth_is_chatgpt :: "string option \<Rightarrow> bool" where
  "legacy_auth_is_chatgpt auth \<longleftrightarrow> auth = Some ''chatgpt''"

definition provider_name_is_chatgpt :: "string option \<Rightarrow> bool" where
  "provider_name_is_chatgpt p \<longleftrightarrow> p = Some ''chatgpt'' \<or> p = Some ''openai-codex''"

definition provider_names_equal :: "string option \<Rightarrow> string option \<Rightarrow> bool" where
  "provider_names_equal left right \<longleftrightarrow>
     (if left = None \<or> right = None then left = right
      else left = right \<or> provider_name_is_chatgpt left \<and> provider_name_is_chatgpt right)"

definition builtin_provider_for_base_url :: "string option \<Rightarrow> string option" where
  "builtin_provider_for_base_url base_url =
     (if base_url = None then None
      else find (\<lambda>n. provider_builtin_base_url (Some n) = base_url) [''opencode-go'', ''openai'', ''anthropic'', ''chatgpt''])"

section \<open>The configuration\<close>

record model_config =
  mc_name :: string
  mc_label :: "string option"
  mc_provider :: "string option"
  mc_base_url :: "string option"
  mc_api_key_env :: "string option"
  mc_auth :: "string option"
  mc_protocol :: "string option"
  mc_models_path :: "string option"
  mc_context_window :: int
  mc_max_output :: int
  mc_subscription :: bool

record custom_provider_config =
  cp_name :: string
  cp_base_url :: string
  cp_protocol :: string

record config =
  cf_provider :: "string option"
  cf_base_url :: "string option"
  cf_api_key_env :: "string option"
  cf_auth :: "string option"
  cf_protocol :: "string option"
  cf_models_path :: "string option"
  cf_model_name :: "string option"
  cf_thinking_level :: "string option"
  cf_cwd :: "string option"
  cf_max_tokens :: int
  cf_context_window :: int
  cf_max_output :: int
  cf_memory_max :: int
  cf_memory_max_set :: bool
  cf_context_window_set :: bool
  cf_subscription :: bool
  cf_max_agents :: int
  cf_max_retries :: int
  cf_models :: "model_config list"
  cf_custom :: "custom_provider_config list"

definition config_default :: config where
  "config_default =
     \<lparr>cf_provider = Some ''opencode-go'', cf_base_url = None, cf_api_key_env = None, cf_auth = None, cf_protocol = None,
      cf_models_path = None, cf_model_name = None, cf_thinking_level = None, cf_cwd = None,
      cf_max_tokens = DEFAULT_MAX_TOKENS, cf_context_window = DEFAULT_CONTEXT_WINDOW, cf_max_output = DEFAULT_MAX_OUTPUT,
      cf_memory_max = DEFAULT_PROJECT_MEMORY_MAX_BYTES, cf_memory_max_set = False, cf_context_window_set = False,
      cf_subscription = False, cf_max_agents = 16, cf_max_retries = DEFAULT_MAX_RETRIES, cf_models = [], cf_custom = []\<rparr>"

section \<open>Files\<close>

text \<open>\<open>ci_read\<close> is how many bytes \<open>fread\<close> delivers at most; \<open>ci_mkdir\<close> says of a directory that
  \<open>mkdir\<close> made it or found it; \<open>ci_suffix\<close> replaces the six letters of the template of \<open>mkstemp\<close>.\<close>

record config_io =
  ci_open :: "string \<Rightarrow> bool"
  ci_seek :: bool
  ci_read :: nat
  ci_read_close :: bool
  ci_mkdir :: "string \<Rightarrow> bool"
  ci_suffix :: string
  ci_mkstemp :: bool
  ci_fdopen :: bool
  ci_write :: bool
  ci_newline :: bool
  ci_close :: bool
  ci_rename :: bool

definition CONFIG_MAX_BYTES :: nat where
  "CONFIG_MAX_BYTES = 1024 * 1024"

text \<open>What the readers of this file do before they parse: the data, with whether all of it was read and the
  file was closed without an error.\<close>

datatype file_answer = No_File | No_Access | No_Size | Bytes string bool

definition slurp :: "config_io \<Rightarrow> file_store \<Rightarrow> string \<Rightarrow> file_answer" where
  "slurp io files path =
     (case files path of
        None \<Rightarrow> No_File
      | Some content \<Rightarrow>
          if \<not> ci_open io path then No_Access
          else if \<not> ci_seek io \<or> length content > CONFIG_MAX_BYTES then No_Size
          else Bytes (take (ci_read io) content) (length content \<le> ci_read io \<and> ci_read_close io))"

section \<open>Loading config.json\<close>

text \<open>A member that is present replaces the current value.\<close>

definition overlay :: "json option \<Rightarrow> string \<Rightarrow> string option \<Rightarrow> string option" where
  "overlay root key old = (case c_get_str root key of Some v \<Rightarrow> Some v | None \<Rightarrow> old)"

definition load_strings :: "json option \<Rightarrow> config \<Rightarrow> config" where
  "load_strings root c =
     (let provider = overlay root ''provider'' (cf_provider c);
          provider1 = (if c_get_str root ''auth'' = Some ''chatgpt'' \<and> provider = Some ''opencode-go''
                       then Some ''chatgpt'' else provider);
          thinking = (case c_get_str root ''thinking_level'' of Some v \<Rightarrow> Some v
                      | None \<Rightarrow> (case c_get_str root ''thinking'' of Some v \<Rightarrow> Some v
                                | None \<Rightarrow> c_get_str root ''thinkingLevel'')) in
      c\<lparr>cf_provider := provider1, cf_base_url := overlay root ''base_url'' (cf_base_url c),
        cf_api_key_env := overlay root ''api_key_env'' (cf_api_key_env c), cf_auth := overlay root ''auth'' (cf_auth c),
        cf_protocol := overlay root ''protocol'' (cf_protocol c), cf_models_path := overlay root ''models_path'' (cf_models_path c),
        cf_model_name := overlay root ''model'' (cf_model_name c),
        cf_thinking_level := (if thinking \<noteq> None then thinking else cf_thinking_level c)\<rparr>)"

text \<open>The text before and after the first slash.\<close>

definition not_slash_char :: "char \<Rightarrow> bool" where
  "not_slash_char ch \<longleftrightarrow> ch \<noteq> CHR ''/''"

definition split_selector :: "string \<Rightarrow> (string \<times> string) option" where
  "split_selector s =
     (if CHR ''/'' \<in> set s then Some (takeWhile not_slash_char s, tl (dropWhile not_slash_char s)) else None)"

definition infer_provider :: "json option \<Rightarrow> config \<Rightarrow> config" where
  "infer_provider root c =
     (if c_get_str root ''provider'' \<noteq> None then c
      else
        (case Option.bind (cf_model_name c) split_selector of
           Some (provider, bare) \<Rightarrow>
             if provider \<noteq> [] then c\<lparr>cf_provider := Some provider, cf_model_name := Some bare\<rparr> else c
         | None \<Rightarrow> c))"

text \<open>An integer member that passes a test.\<close>

definition int_member :: "json option \<Rightarrow> string \<Rightarrow> (int \<Rightarrow> bool) \<Rightarrow> int option" where
  "int_member root key ok =
     (if is_int (json_val_obj_get root key) \<and> ok (json_obj_get_int root key 0) then Some (json_obj_get_int root key 0) else None)"

definition int_or :: "int option \<Rightarrow> int \<Rightarrow> int" where
  "int_or v old = (case v of Some i \<Rightarrow> i | None \<Rightarrow> old)"

definition load_numbers :: "json option \<Rightarrow> config \<Rightarrow> config" where
  "load_numbers root c =
     (let pos = (\<lambda>i. i > (0 :: int)); window = int_member root ''context_window'' pos;
          memory = int_member root ''project_memory_max_bytes'' (\<lambda>i. 0 \<le> i \<and> i \<le> 128 * 1024) in
      c\<lparr>cf_max_tokens := int_or (int_member root ''max_tokens'' pos) (cf_max_tokens c),
        cf_context_window := int_or window (cf_context_window c),
        cf_context_window_set := (window \<noteq> None \<or> cf_context_window_set c),
        cf_max_output := int_or (int_member root ''max_output'' pos) (cf_max_output c),
        cf_subscription := json_obj_get_bool root ''subscription'' False,
        cf_max_agents := int_or (int_member root ''max_concurrent_agents'' pos) (cf_max_agents c),
        cf_max_retries := int_or (int_member root ''max_retries'' (\<lambda>i. 0 \<le> i \<and> i \<le> 10)) (cf_max_retries c),
        cf_memory_max := int_or memory (cf_memory_max c),
        cf_memory_max_set := (memory \<noteq> None \<or> cf_memory_max_set c)\<rparr>)"

definition config_model_entry :: "json \<Rightarrow> model_config option" where
  "config_model_entry item =
     (let v = Some item in
      case (json_val_is_obj v, c_get_str v ''name'') of
        (True, Some name) \<Rightarrow>
          if name = [] then None
          else Some \<lparr>mc_name = name, mc_label = c_get_str v ''label'', mc_provider = c_get_str v ''provider'',
                     mc_base_url = c_get_str v ''base_url'', mc_api_key_env = c_get_str v ''api_key_env'',
                     mc_auth = c_get_str v ''auth'', mc_protocol = c_get_str v ''protocol'',
                     mc_models_path = c_get_str v ''models_path'', mc_context_window = json_obj_get_int v ''context_window'' 0,
                     mc_max_output = json_obj_get_int v ''max_output'' 0, mc_subscription = json_obj_get_bool v ''subscription'' False\<rparr>
      | _ \<Rightarrow> None)"

definition load_models :: "json option \<Rightarrow> config \<Rightarrow> config" where
  "load_models root c =
     (case json_val_obj_get root ''models'' of
        Some (JArr vs) \<Rightarrow>
          (let entries = List.map_filter config_model_entry vs in if entries \<noteq> [] then c\<lparr>cf_models := entries\<rparr> else c)
      | _ \<Rightarrow> c)"

text \<open>Entries without a provider stay with the built-in provider whose endpoint is still configured.\<close>

definition adopt_legacy :: "config \<Rightarrow> config" where
  "adopt_legacy c =
     (let legacy = builtin_provider_for_base_url (cf_base_url c) in
      if legacy \<noteq> None \<and> \<not> provider_names_equal legacy (cf_provider c) then
        c\<lparr>cf_models := map (\<lambda>m. if mc_provider m = None then m\<lparr>mc_provider := legacy\<rparr> else m) (cf_models c)\<rparr>
      else c)"

definition config_load_file :: "(string \<Rightarrow> json option) \<Rightarrow> config_io \<Rightarrow> file_store \<Rightarrow> string option \<Rightarrow> config \<Rightarrow> agent_error \<times> config" where
  "config_load_file read io files path c =
     (case path of
        None \<Rightarrow> (AGENT_OK, c)
      | Some p \<Rightarrow>
          (case slurp io files p of
             No_File \<Rightarrow> (AGENT_OK, c)
           | No_Access \<Rightarrow> (AGENT_OK, c)
           | No_Size \<Rightarrow> (AGENT_ERR_IO, c)
           | Bytes data complete \<Rightarrow>
               (let root = json_parse read data in
                if \<not> json_val_is_obj root then (AGENT_ERR_JSON, c)
                else (AGENT_OK, adopt_legacy (load_models root (load_numbers root (infer_provider root (load_strings root c))))))))"

section \<open>Saving\<close>

text \<open>The directories that \<open>config_ensure_parent_dirs\<close> makes, in order.\<close>

definition parent_dirs :: "string \<Rightarrow> string list" where
  "parent_dirs path =
     (let parent = rev (tl (dropWhile not_slash_char (rev path))) in
      if CHR ''/'' \<notin> set path \<or> parent = [] then []
      else map (\<lambda>k. take k parent) (filter (\<lambda>k. parent ! k = CHR ''/'') [1..<length parent]) @ [parent])"

definition config_ensure_parent_dirs :: "config_io \<Rightarrow> string \<Rightarrow> agent_error" where
  "config_ensure_parent_dirs io path =
     (if length path \<ge> AUTH_PATH_MAX then AGENT_ERR_IO
      else if list_all (ci_mkdir io) (parent_dirs path) then AGENT_OK else AGENT_ERR_IO)"

definition config_write_json :: "(json \<Rightarrow> string option) \<Rightarrow> config_io \<Rightarrow> file_store \<Rightarrow> string \<Rightarrow> json \<Rightarrow> agent_error \<times> file_store" where
  "config_write_json render io files path doc =
     (let (rc, text) = json_builder_stringify render doc []; rc2 = config_ensure_parent_dirs io path;
          temp = path @ ''.tmp.'' @ ci_suffix io in
      if rc \<noteq> AGENT_OK then (rc, files)
      else if rc2 \<noteq> AGENT_OK then (rc2, files)
      else if length temp \<ge> AUTH_PATH_MAX \<or> \<not> ci_mkstemp io then (AGENT_ERR_IO, files)
      else if \<not> ci_fdopen io \<or> \<not> ci_write io \<or> \<not> ci_newline io \<or> \<not> ci_close io \<or> \<not> ci_rename io
      then (AGENT_ERR_IO, files(temp := None))
      else (AGENT_OK, files(temp := None, path := Some (text @ [CHR 0x0A]))))"

definition config_save_selection_impl ::
  "(json \<Rightarrow> string option) \<Rightarrow> config_io \<Rightarrow> file_store \<Rightarrow> string option \<Rightarrow> string option \<Rightarrow> string option \<Rightarrow> string option \<Rightarrow> bool \<Rightarrow>
   agent_error \<times> file_store" where
  "config_save_selection_impl render io files path provider_name model_name thinking_level qualify_model =
     (case (path, model_name) of
        (Some p, Some model) \<Rightarrow>
          if p = [] \<or> model = [] \<or> provider_name = Some [] then (AGENT_ERR_IO, files)
          else
            (let saved = (case provider_name of
                            Some provider \<Rightarrow> if qualify_model \<and> CHR ''/'' \<notin> set model then provider @ ''/'' @ model else model
                          | None \<Rightarrow> model);
                 (rc, root) = json_builder_obj_add_str (JObj []) ''model'' (Some saved);
                 (rc, root) = (if rc = AGENT_OK \<and> thinking_level \<noteq> None \<and> thinking_level \<noteq> Some []
                               then json_builder_obj_add_str root ''thinking_level'' thinking_level else (rc, root)) in
             if rc \<noteq> AGENT_OK then (rc, files) else config_write_json render io files p root)
      | _ \<Rightarrow> (AGENT_ERR_IO, files))"

definition legacy_config_save_member :: "string \<Rightarrow> string \<Rightarrow> json \<Rightarrow> json \<Rightarrow> agent_error \<times> json" where
  "legacy_config_save_member model_name key value root =
     (if key = ''model'' then json_builder_obj_add_str root ''model'' (Some model_name)
      else json_builder_obj_add_val_copy root key (Some value))"

definition config_save_model_legacy ::
  "(string \<Rightarrow> json option) \<Rightarrow> (json \<Rightarrow> string option) \<Rightarrow> config_io \<Rightarrow> file_store \<Rightarrow> string \<Rightarrow> string \<Rightarrow> agent_error \<times> file_store" where
  "config_save_model_legacy read render io files path model_name =
     (case slurp io files path of
        No_File \<Rightarrow> config_save_selection_impl render io files (Some path) None (Some model_name) None False
      | No_Access \<Rightarrow> (AGENT_ERR_IO, files)
      | No_Size \<Rightarrow> (AGENT_ERR_IO, files)
      | Bytes data complete \<Rightarrow>
          (let old_root = json_parse read data in
           if \<not> json_val_is_obj old_root then (AGENT_ERR_JSON, files)
           else
             (let (rc, root) = json_obj_foreach old_root (legacy_config_save_member model_name) (JObj []);
                  (rc, root) = (if rc = AGENT_OK \<and> json_val_obj_get (Some root) ''model'' = None
                                then json_builder_obj_add_str root ''model'' (Some model_name) else (rc, root));
                  (rc, root) = (case split_selector model_name of
                                  Some (provider, bare) \<Rightarrow>
                                    if rc = AGENT_OK \<and> json_val_obj_get (Some root) ''provider'' = None
                                    then json_builder_obj_add_str root ''provider'' (Some provider) else (rc, root)
                                | None \<Rightarrow> (rc, root)) in
              if rc \<noteq> AGENT_OK then (rc, files) else config_write_json render io files path root)))"

definition config_save_model ::
  "(string \<Rightarrow> json option) \<Rightarrow> (json \<Rightarrow> string option) \<Rightarrow> config_io \<Rightarrow> file_store \<Rightarrow> string option \<Rightarrow> string option \<Rightarrow> agent_error \<times> file_store" where
  "config_save_model read render io files path model_name =
     (case (path, model_name) of
        (Some p, Some m) \<Rightarrow> if m = [] then (AGENT_ERR_IO, files) else config_save_model_legacy read render io files p m
      | _ \<Rightarrow> (AGENT_ERR_IO, files))"

definition config_save_selection ::
  "(json \<Rightarrow> string option) \<Rightarrow> config_io \<Rightarrow> file_store \<Rightarrow> string option \<Rightarrow> string option \<Rightarrow> string option \<Rightarrow> agent_error \<times> file_store" where
  "config_save_selection render io files path provider_name model_name =
     config_save_selection_impl render io files path provider_name model_name None True"

definition config_save_selection_with_thinking ::
  "(json \<Rightarrow> string option) \<Rightarrow> config_io \<Rightarrow> file_store \<Rightarrow> string option \<Rightarrow> string option \<Rightarrow> string option \<Rightarrow> string option \<Rightarrow> agent_error \<times> file_store" where
  "config_save_selection_with_thinking render io files path provider_name model_name thinking_level =
     config_save_selection_impl render io files path provider_name model_name thinking_level True"

section \<open>Custom providers\<close>

definition model_config_append :: "config \<Rightarrow> model_config \<Rightarrow> config" where
  "model_config_append c m = c\<lparr>cf_models := cf_models c @ [m]\<rparr>"

definition custom_json_str :: "json option \<Rightarrow> string \<Rightarrow> string \<Rightarrow> string option" where
  "custom_json_str obj primary fallback = (case c_get_str obj primary of Some v \<Rightarrow> Some v | None \<Rightarrow> c_get_str obj fallback)"

definition custom_model_seen :: "config \<Rightarrow> string \<Rightarrow> string \<Rightarrow> bool" where
  "custom_model_seen c provider name \<longleftrightarrow>
     (\<exists>m \<in> set (cf_models c). (case mc_provider m of None \<Rightarrow> cf_provider c | Some p \<Rightarrow> Some p) = Some provider \<and> mc_name m = name)"

definition custom_provider_find :: "config \<Rightarrow> string \<Rightarrow> custom_provider_config option" where
  "custom_provider_find c name = find (\<lambda>p. cp_name p = name) (cf_custom c)"

definition custom_provider_add_meta :: "config \<Rightarrow> string \<Rightarrow> string \<Rightarrow> string \<Rightarrow> config" where
  "custom_provider_add_meta c name base_url protocol =
     (if custom_provider_find c name \<noteq> None then c
      else c\<lparr>cf_custom := cf_custom c @ [\<lparr>cp_name = name, cp_base_url = base_url, cp_protocol = protocol\<rparr>]\<rparr>)"

text \<open>The endpoint of the selected provider, where the configuration has none.\<close>

definition fill_endpoint :: "string \<Rightarrow> string \<Rightarrow> string \<Rightarrow> string option \<Rightarrow> config \<Rightarrow> config" where
  "fill_endpoint name base_url protocol models_path c =
     (if cf_provider c = Some name then
        c\<lparr>cf_base_url := (if cf_base_url c = None then Some base_url else cf_base_url c),
          cf_protocol := (if cf_protocol c = None then Some protocol else cf_protocol c),
          cf_models_path := (if cf_models_path c = None then models_path else cf_models_path c)\<rparr>
      else c)"

text \<open>The first of two integer members that is positive, or the value of the second.\<close>

definition int_alias :: "json option \<Rightarrow> string \<Rightarrow> string \<Rightarrow> int" where
  "int_alias v primary fallback =
     (let i = json_obj_get_int v primary 0 in if i \<le> 0 then json_obj_get_int v fallback 0 else i)"

definition select_first :: "string \<Rightarrow> string \<Rightarrow> config \<Rightarrow> config" where
  "select_first provider name c =
     (if cf_provider c = Some provider \<and> cf_model_name c = None then c\<lparr>cf_model_name := Some name\<rparr> else c)"

text \<open>One element of the \<open>models\<close> of a custom provider.\<close>

definition custom_add_model :: "string \<Rightarrow> string \<Rightarrow> string \<Rightarrow> string option \<Rightarrow> config \<Rightarrow> json \<Rightarrow> config" where
  "custom_add_model name base_url protocol models_path c item =
     (let v = Some item; obj = json_val_is_obj v;
          model_name = (if json_val_is_str v then map_option c_str (json_val_str v)
                        else if obj then custom_json_str v ''name'' ''id'' else None) in
      case model_name of
        None \<Rightarrow> c
      | Some n \<Rightarrow>
          if n = [] \<or> custom_model_seen c name n then c
          else select_first name n (model_config_append c
                 \<lparr>mc_name = n, mc_label = (if obj then c_get_str v ''label'' else None), mc_provider = Some name,
                  mc_base_url = Some base_url, mc_api_key_env = None, mc_auth = None, mc_protocol = Some protocol,
                  mc_models_path = models_path,
                  mc_context_window = (if obj then int_alias v ''contextWindow'' ''context_window'' else 0),
                  mc_max_output = (if obj then int_alias v ''maxOutput'' ''max_output'' else 0),
                  mc_subscription = (obj \<and> json_obj_get_bool v ''subscription'' False)\<rparr>))"

definition custom_provider_add_spec :: "string option \<Rightarrow> json \<Rightarrow> config \<Rightarrow> agent_error \<times> config" where
  "custom_provider_add_spec map_name spec c =
     (let v = Some spec; own = custom_json_str v ''name'' ''provider'';
          name = (if (own = None \<or> own = Some []) \<and> map_name \<noteq> None then map_name else own);
          models_path = custom_json_str v ''modelsPath'' ''models_path'' in
      if \<not> json_val_is_obj v then (AGENT_ERR_JSON, c)
      else
        (case (name, custom_json_str v ''baseUrl'' ''base_url'', custom_json_str v ''type'' ''protocol'') of
           (Some n, Some base_url, Some protocol) \<Rightarrow>
             if n = [] \<or> base_url = [] \<or> protocol \<notin> {''openai'', ''anthropic'', ''responses''} then (AGENT_ERR_JSON, c)
             else
               (let c1 = fill_endpoint n base_url protocol models_path (custom_provider_add_meta c n base_url protocol) in
                (AGENT_OK, case json_val_obj_get v ''models'' of
                             Some (JArr vs) \<Rightarrow> foldl (custom_add_model n base_url protocol models_path) c1 vs
                           | _ \<Rightarrow> c1))
         | _ \<Rightarrow> (AGENT_ERR_JSON, c)))"

text \<open>The callback of \<open>json_obj_foreach\<close>; an error stops the iteration and is the result.\<close>

definition custom_provider_map_entry :: "string \<Rightarrow> json \<Rightarrow> config \<Rightarrow> agent_error \<times> config" where
  "custom_provider_map_entry key value c = custom_provider_add_spec (Some key) value c"

fun add_specs :: "json list \<Rightarrow> config \<Rightarrow> agent_error \<times> config" where
  "add_specs [] c = (AGENT_OK, c)"
| "add_specs (v # vs) c =
     (let (rc, c1) = custom_provider_add_spec None v c in if rc \<noteq> AGENT_OK then (rc, c1) else add_specs vs c1)"

definition home_file :: "string \<Rightarrow> string \<Rightarrow> string option" where
  "home_file home name =
     (let path = home @ ''/.config/cagent/'' @ name in if length path \<ge> AUTH_PATH_MAX then None else Some path)"

definition load_custom_root :: "json option \<Rightarrow> config \<Rightarrow> agent_error \<times> config" where
  "load_custom_root root c =
     (case root of
        Some (JArr vs) \<Rightarrow> add_specs vs c
      | Some (JObj kvs) \<Rightarrow>
          (case map_of kvs ''providers'' of
             Some (JArr vs) \<Rightarrow> add_specs vs c
           | Some (JObj ps) \<Rightarrow> foreach_members custom_provider_map_entry ps c
           | Some _ \<Rightarrow> (AGENT_ERR_JSON, c)
           | None \<Rightarrow>
               if c_get_str root ''name'' \<noteq> None then custom_provider_add_spec None (JObj kvs) c
               else foreach_members custom_provider_map_entry kvs c)
      | _ \<Rightarrow> (AGENT_ERR_JSON, c))"

definition config_load_custom_providers ::
  "(string \<Rightarrow> json option) \<Rightarrow> config_io \<Rightarrow> string option \<Rightarrow> file_store \<Rightarrow> config \<Rightarrow> agent_error \<times> config" where
  "config_load_custom_providers read io home files c =
     (case home of
        None \<Rightarrow> (AGENT_OK, c)
      | Some h \<Rightarrow>
          (case home_file h ''custom_provider.json'' of
             None \<Rightarrow> (AGENT_ERR_IO, c)
           | Some path \<Rightarrow>
               (case slurp io files path of
                  No_File \<Rightarrow> (AGENT_OK, c)
                | No_Access \<Rightarrow> (AGENT_ERR_IO, c)
                | No_Size \<Rightarrow> (AGENT_ERR_IO, c)
                | Bytes data complete \<Rightarrow>
                    if \<not> complete then (AGENT_ERR_IO, c) else load_custom_root (json_parse read data) c)))"

section \<open>Cached catalogs\<close>

definition model_json_name :: "json \<Rightarrow> string option" where
  "model_json_name value =
     (case value of JStr s \<Rightarrow> Some (c_str s) | JObj _ \<Rightarrow> custom_json_str (Some value) ''name'' ''id'' | _ \<Rightarrow> None)"

definition catalog_add_model :: "string \<Rightarrow> string \<Rightarrow> string \<Rightarrow> config \<Rightarrow> json \<Rightarrow> config" where
  "catalog_add_model provider base_url protocol c item =
     (let v = Some item; obj = json_val_is_obj v in
      case model_json_name item of
        None \<Rightarrow> c
      | Some n \<Rightarrow>
          if n = [] \<or> custom_model_seen c provider n then c
          else select_first provider n (model_config_append c
                 \<lparr>mc_name = n, mc_label = (if obj then c_get_str v ''label'' else None), mc_provider = Some provider,
                  mc_base_url = Some base_url, mc_api_key_env = None, mc_auth = None, mc_protocol = Some protocol,
                  mc_models_path = None,
                  mc_context_window = (if obj then int_alias v ''context_window'' ''contextWindow'' else 0),
                  mc_max_output = (if obj then int_alias v ''max_output'' ''maxOutput'' else 0),
                  mc_subscription = (obj \<and> json_obj_get_bool v ''subscription'' False)\<rparr>))"

definition models_add_provider_array :: "string \<Rightarrow> json \<Rightarrow> config \<Rightarrow> agent_error \<times> config" where
  "models_add_provider_array provider models c =
     (case models of
        JArr vs \<Rightarrow>
          (let custom = custom_provider_find c provider;
               base_url = (case custom of Some p \<Rightarrow> Some (cp_base_url p) | None \<Rightarrow> provider_builtin_base_url (Some provider));
               protocol = (case custom of Some p \<Rightarrow> Some (cp_protocol p) | None \<Rightarrow> provider_builtin_protocol (Some provider)) in
           case (base_url, protocol) of
             (Some b, Some p) \<Rightarrow> (AGENT_OK, foldl (catalog_add_model provider b p) (fill_endpoint provider b p None c) vs)
           | _ \<Rightarrow> (AGENT_OK, c))
      | _ \<Rightarrow> (AGENT_ERR_JSON, c))"

definition models_load_entry :: "string \<Rightarrow> json \<Rightarrow> config \<Rightarrow> agent_error \<times> config" where
  "models_load_entry key value c = models_add_provider_array key value c"

definition config_home_file :: "string option \<Rightarrow> string \<Rightarrow> string option" where
  "config_home_file home name = Option.bind home (\<lambda>h. home_file h name)"

definition config_load_models_file ::
  "(string \<Rightarrow> json option) \<Rightarrow> config_io \<Rightarrow> string option \<Rightarrow> file_store \<Rightarrow> config \<Rightarrow> agent_error \<times> config" where
  "config_load_models_file read io home files c =
     (case config_home_file home ''models.json'' of
        None \<Rightarrow> (AGENT_OK, c)
      | Some path \<Rightarrow>
          (case slurp io files path of
             No_File \<Rightarrow> (AGENT_OK, c)
           | No_Access \<Rightarrow> (AGENT_ERR_IO, c)
           | No_Size \<Rightarrow> (AGENT_ERR_IO, c)
           | Bytes data complete \<Rightarrow>
               if \<not> complete then (AGENT_ERR_IO, c)
               else
                 (case json_parse read data of
                    Some (JObj kvs) \<Rightarrow> foreach_members models_load_entry kvs c
                  | _ \<Rightarrow> (AGENT_ERR_JSON, c))))"

text \<open>The builder holds one array per provider, in the order of their first models.\<close>

definition strip_provider :: "string \<Rightarrow> string \<Rightarrow> string" where
  "strip_provider provider name =
     (if take (length provider) name = provider \<and> length provider < length name \<and> name ! length provider = CHR ''/''
      then drop (length provider + 1) name else name)"

definition arr_member :: "json option \<Rightarrow> json list" where
  "arr_member v = (case v of Some (JArr vs) \<Rightarrow> vs | _ \<Rightarrow> [])"

definition catalog_member :: "string option \<Rightarrow> (string \<times> json) list \<Rightarrow> model_config \<Rightarrow> (string \<times> json) list" where
  "catalog_member dflt kvs m =
     (case (case mc_provider m of None \<Rightarrow> dflt | Some p \<Rightarrow> Some p) of
        None \<Rightarrow> kvs
      | Some provider \<Rightarrow>
          if mc_name m = [] then kvs
          else
            (let name = JStr (strip_provider provider (mc_name m)) in
             if map_of kvs provider = None then kvs @ [(provider, JArr [name])]
             else map (\<lambda>(k, v). if k = provider then (k, json_builder_arr_add v name) else (k, v)) kvs))"

definition catalog_json :: "config \<Rightarrow> json" where
  "catalog_json c = JObj (foldl (catalog_member (cf_provider c)) [] (cf_models c))"

definition config_save_models_file ::
  "(json \<Rightarrow> string option) \<Rightarrow> config_io \<Rightarrow> string option \<Rightarrow> file_store \<Rightarrow> config \<Rightarrow> agent_error \<times> file_store" where
  "config_save_models_file render io home files c =
     (case config_home_file home ''models.json'' of
        None \<Rightarrow> (AGENT_ERR_IO, files)
      | Some path \<Rightarrow> config_write_json render io files path (catalog_json c))"

section \<open>Facts\<close>

text \<open>The values \<open>config_load_file\<close> lets through.\<close>

definition config_ok :: "config \<Rightarrow> bool" where
  "config_ok c \<longleftrightarrow> 0 < cf_max_tokens c \<and> 0 < cf_context_window c \<and> 0 < cf_max_output c \<and> 0 < cf_max_agents c \<and>
     0 \<le> cf_max_retries c \<and> cf_max_retries c \<le> 10 \<and> 0 \<le> cf_memory_max c \<and> cf_memory_max c \<le> 128 * 1024"

lemma int_or_member: "ok old \<Longrightarrow> ok (int_or (int_member root key ok) old)"
  by (auto simp: int_or_def int_member_def)

lemma load_numbers_ok:
  assumes "config_ok c"
  shows "config_ok (load_numbers root c)"
proof -
  note m = int_or_member [of "\<lambda>i. i > 0"] int_or_member [of "\<lambda>i. 0 \<le> i \<and> i \<le> 10"]
    int_or_member [of "\<lambda>i. 0 \<le> i \<and> i \<le> 128 * 1024"]
  show ?thesis
    using assms m(2) [of "cf_max_retries c" root "''max_retries''"] m(3) [of "cf_memory_max c" root "''project_memory_max_bytes''"]
    by (simp add: config_ok_def load_numbers_def Let_def m(1))
qed

lemma config_ok_others:
  "config_ok (load_strings root c) = config_ok c" "config_ok (infer_provider root c) = config_ok c"
  "config_ok (load_models root c) = config_ok c" "config_ok (adopt_legacy c) = config_ok c"
  by (auto simp: config_ok_def load_strings_def infer_provider_def load_models_def adopt_legacy_def Let_def
      split: option.splits json.splits)

lemma config_default_ok: "config_ok config_default"
  by (simp add: config_ok_def config_default_def DEFAULT_MAX_TOKENS_def DEFAULT_CONTEXT_WINDOW_def DEFAULT_MAX_OUTPUT_def
      DEFAULT_MAX_RETRIES_def DEFAULT_PROJECT_MEMORY_MAX_BYTES_def)

text \<open>Whatever the configuration file holds, the limits stay usable: tokens, window, output and agents are positive,
  the retries are at most ten, and the excerpt of the project notes is at most 128 KiB.\<close>

theorem config_limits_usable:
  assumes "config_ok c" and "config_load_file read io files path c = (rc, c')"
  shows "config_ok c'"
  using assms
  by (auto simp: config_load_file_def Let_def load_numbers_ok config_ok_others split: option.splits file_answer.splits if_splits)

section \<open>A selection that is saved\<close>

definition config_readable :: "config_io \<Rightarrow> file_store \<Rightarrow> string \<Rightarrow> bool" where
  "config_readable io files path \<longleftrightarrow>
     ci_open io path \<and> ci_seek io \<and>
     (\<forall>content. files path = Some content \<longrightarrow> length content \<le> CONFIG_MAX_BYTES \<and> length content \<le> ci_read io)"

lemma slurp_readable:
  "files path = Some content \<Longrightarrow> config_readable io files path \<Longrightarrow> slurp io files path = Bytes content (ci_read_close io)"
  by (simp add: slurp_def config_readable_def)

lemma write_json_cases:
  assumes "config_write_json render io files path doc = (AGENT_OK, files')"
  shows "\<exists>out1. render doc = Some out1 \<and> files' path = Some (out1 @ [CHR 0x0A])"
  using assms by (auto simp: config_write_json_def json_builder_stringify_def Let_def split: option.splits if_splits)

lemma saved_reads_back:
  assumes "config_write_json render io files path doc = (AGENT_OK, files')" and "reads_back read render"
    and "config_readable io' files' path"
  shows "\<exists>data. slurp io' files' path = Bytes data (ci_read_close io') \<and> read data = Some doc"
  using write_json_cases [OF assms(1)] assms(2) slurp_readable [OF _ assms(3)] by (auto simp: reads_back_def)

definition selection_json :: "string \<Rightarrow> string option \<Rightarrow> json" where
  "selection_json saved thinking =
     JObj ((''model'', JStr saved) # (case thinking of None \<Rightarrow> [] | Some t \<Rightarrow> if t = [] then [] else [(''thinking_level'', JStr t)]))"

lemma save_selection_writes:
  assumes "config_save_selection_impl render io files (Some path) provider (Some model) thinking q = (AGENT_OK, files')"
  shows "\<exists>saved. config_write_json render io files path (selection_json saved thinking) = (AGENT_OK, files') \<and>
     saved = (case provider of Some p \<Rightarrow> if q \<and> CHR ''/'' \<notin> set model then p @ ''/'' @ model else model | None \<Rightarrow> model)"
  using assms
  by (auto simp: config_save_selection_impl_def selection_json_def json_builder_obj_add_str_def Let_def
      split: if_splits option.splits)

lemma split_selector_at: "CHR ''/'' \<notin> set a \<Longrightarrow> split_selector (a @ CHR ''/'' # b) = Some (a, b)"
proof -
  assume a: "CHR ''/'' \<notin> set a"
  then have "takeWhile not_slash_char (a @ CHR ''/'' # b) = a" "dropWhile not_slash_char (a @ CHR ''/'' # b) = CHR ''/'' # b"
    by (induction a) (auto simp: not_slash_char_def)
  then show ?thesis by (simp add: split_selector_def)
qed

lemma split_selector_none: "CHR ''/'' \<notin> set s \<Longrightarrow> split_selector s = None"
  by (simp add: split_selector_def)

lemma selection_members:
  assumes "no_nul saved"
  shows "c_get_str (Some (selection_json saved thinking)) ''model'' = Some saved"
    "k \<noteq> ''model'' \<Longrightarrow> k \<noteq> ''thinking_level'' \<Longrightarrow> json_val_obj_get (Some (selection_json saved thinking)) k = None"
    "json_val_is_obj (Some (selection_json saved thinking))"
  using assms by (auto simp: selection_json_def c_get_str_def json_simps c_str_id split: option.splits)

text \<open>Loading what a selection wrote, over any configuration.\<close>

lemma selection_loaded:
  assumes "no_nul saved" and "config_readable io files path" and "files path = Some content"
    and "read content = Some (selection_json saved thinking)"
  shows "\<exists>c'. config_load_file read io files (Some path) c = (AGENT_OK, c') \<and>
     (case split_selector saved of
        Some (p, bare) \<Rightarrow> if p \<noteq> [] then cf_provider c' = Some p \<and> cf_model_name c' = Some bare
                          else cf_provider c' = cf_provider c \<and> cf_model_name c' = Some saved
      | None \<Rightarrow> cf_provider c' = cf_provider c \<and> cf_model_name c' = Some saved)"
proof -
  let ?r = "Some (selection_json saved thinking)"
  note m = selection_members [OF assms(1), where thinking = thinking]
  have g: "c_get_str ?r k = None" if "k \<noteq> ''model''" "k \<noteq> ''thinking_level''" for k
    using m(2) [OF that] by (simp add: c_get_str_def json_obj_get_str_def json_val_str_def)
  have s: "cf_provider (load_strings ?r c) = cf_provider c" "cf_model_name (load_strings ?r c) = Some saved"
    by (simp_all add: load_strings_def overlay_def Let_def g m(1))
  have i: "cf_provider (infer_provider ?r d) = (case Option.bind (cf_model_name d) split_selector of
        Some (p, b) \<Rightarrow> if p \<noteq> [] then Some p else cf_provider d | None \<Rightarrow> cf_provider d)"
    "cf_model_name (infer_provider ?r d) = (case Option.bind (cf_model_name d) split_selector of
        Some (p, b) \<Rightarrow> if p \<noteq> [] then Some b else cf_model_name d | None \<Rightarrow> cf_model_name d)" for d
    by (auto simp: infer_provider_def g split: option.splits)
  have n: "cf_provider (adopt_legacy (load_models ?r (load_numbers ?r d))) = cf_provider d"
    "cf_model_name (adopt_legacy (load_models ?r (load_numbers ?r d))) = cf_model_name d" for d
    by (simp_all add: adopt_legacy_def load_models_def load_numbers_def Let_def split: option.splits json.splits)
  have "config_load_file read io files (Some path) c = (AGENT_OK, adopt_legacy (load_models ?r (load_numbers ?r (infer_provider ?r (load_strings ?r c)))))"
    using slurp_readable [OF assms(3,2)] assms(4) m(3) by (simp add: config_load_file_def json_parse_def Let_def)
  then show ?thesis by (auto simp: n i s split: option.splits)
qed

text \<open>C33: a selection of provider and model is restored at the next start, unless the name of the model has a slash.\<close>

theorem selection_roundtrip:
  assumes "config_save_selection_impl render io files (Some path) (Some provider) (Some model) thinking True = (AGENT_OK, files')"
    and "CHR ''/'' \<notin> set provider" and "CHR ''/'' \<notin> set model" and "no_nul provider" and "no_nul model"
    and "reads_back read render" and "config_readable io' files' path"
  shows "\<exists>c'. config_load_file read io' files' (Some path) c = (AGENT_OK, c') \<and>
     cf_provider c' = Some provider \<and> cf_model_name c' = Some model"
proof -
  let ?s = "provider @ ''/'' @ model"
  from save_selection_writes [OF assms(1)] assms(3) have w: "config_write_json render io files path (selection_json ?s thinking) = (AGENT_OK, files')"
    by simp
  from write_json_cases [OF w] obtain out1 where t: "render (selection_json ?s thinking) = Some out1"
    "files' path = Some (out1 @ [CHR 0x0A])" by blast
  with assms(6) have "read (out1 @ [CHR 0x0A]) = Some (selection_json ?s thinking)" by (auto simp: reads_back_def)
  moreover have "no_nul ?s" using assms(4,5) by (simp add: no_nul_def)
  moreover have "provider \<noteq> []" using assms(1) by (auto simp: config_save_selection_impl_def split: if_splits)
  ultimately show ?thesis
    using selection_loaded [OF _ assms(7) t(2), of ?s read thinking c] split_selector_at [OF assms(2), of model] by auto
qed

text \<open>A model whose name has a slash, as in the catalogs of gateways, is saved without its provider, and the part before
  the slash is taken for the provider when the file is loaded.\<close>

theorem slashed_selection_misread:
  assumes "config_save_selection_impl render io files (Some path) (Some provider) (Some (org @ ''/'' @ bare)) thinking True = (AGENT_OK, files')"
    and "CHR ''/'' \<notin> set org" and "org \<noteq> []" and "no_nul (org @ bare)" and "reads_back read render" and "config_readable io' files' path"
  shows "\<exists>c'. config_load_file read io' files' (Some path) c = (AGENT_OK, c') \<and>
     cf_provider c' = Some org \<and> cf_model_name c' = Some bare"
proof -
  let ?s = "org @ ''/'' @ bare"
  from save_selection_writes [OF assms(1)] have w: "config_write_json render io files path (selection_json ?s thinking) = (AGENT_OK, files')"
    by simp
  from write_json_cases [OF w] obtain out1 where t: "render (selection_json ?s thinking) = Some out1"
    "files' path = Some (out1 @ [CHR 0x0A])" by blast
  with assms(5) have "read (out1 @ [CHR 0x0A]) = Some (selection_json ?s thinking)" by (auto simp: reads_back_def)
  moreover have "no_nul ?s" using assms(4) by (simp add: no_nul_def)
  ultimately show ?thesis
    using selection_loaded [OF _ assms(6) t(2), of ?s read thinking c] split_selector_at [OF assms(2), of bare] assms(3) by auto
qed

section \<open>The cached catalogs\<close>

definition owner :: "string option \<Rightarrow> model_config \<Rightarrow> string option" where
  "owner dflt m = (case mc_provider m of None \<Rightarrow> dflt | Some p \<Rightarrow> Some p)"

text \<open>A provider whose endpoint is known.\<close>

definition known_provider :: "config \<Rightarrow> string \<Rightarrow> bool" where
  "known_provider c p \<longleftrightarrow> custom_provider_find c p \<noteq> None \<or> provider_builtin_base_url (Some p) \<noteq> None"

text \<open>The names of the catalog of a provider in the document.\<close>

definition listed :: "(string \<times> json) list \<Rightarrow> string \<Rightarrow> string \<Rightarrow> bool" where
  "listed kvs p n \<longleftrightarrow> (\<exists>vs. (p, JArr vs) \<in> set kvs \<and> JStr n \<in> set vs)"

definition all_arrays :: "(string \<times> json) list \<Rightarrow> bool" where
  "all_arrays kvs \<longleftrightarrow> distinct (map fst kvs) \<and> (\<forall>(k, v) \<in> set kvs. \<exists>ns. v = JArr (map JStr ns))"

lemma catalog_member_ok:
  assumes "all_arrays kvs"
  shows "all_arrays (catalog_member d kvs m) \<and>
    (listed (catalog_member d kvs m) p n \<longleftrightarrow>
       listed kvs p n \<or> owner d m = Some p \<and> mc_name m \<noteq> [] \<and> strip_provider p (mc_name m) = n)"
proof (cases "owner d m")
  case None
  then show ?thesis using assms by (simp add: catalog_member_def owner_def)
next
  case (Some q)
  show ?thesis
  proof (cases "mc_name m = []")
    case True
    with Some assms show ?thesis by (simp add: catalog_member_def owner_def)
  next
    case False
    let ?n = "strip_provider q (mc_name m)"
    let ?f = "\<lambda>(k, v). if k = q then (k, json_builder_arr_add v (JStr ?n)) else (k, v)"
    show ?thesis
    proof (cases "map_of kvs q")
      case None
      then have "q \<notin> fst ` set kvs" by (simp add: map_of_eq_None_iff)
      moreover have "catalog_member d kvs m = kvs @ [(q, JArr [JStr ?n])]"
        using Some False None by (simp add: catalog_member_def owner_def)
      moreover have "\<exists>ns. JArr [JStr ?n] = JArr (map JStr ns)" by (rule exI [of _ "[?n]"]) simp
      ultimately show ?thesis using assms Some False by (auto simp: all_arrays_def listed_def)
    next
      case (Some v)
      then have c: "catalog_member d kvs m = map ?f kvs"
        using \<open>owner d m = Some q\<close> False by (simp add: catalog_member_def owner_def Let_def)
      from Some have v: "(q, v) \<in> set kvs" by (rule map_of_SomeD)
      have d: "distinct (map fst kvs)" using assms by (simp add: all_arrays_def)
      obtain ns where ns: "v = JArr (map JStr ns)" using assms v by (auto simp: all_arrays_def)
      have only: "w = v" if "(q, w) \<in> set kvs" for w using d v that by (meson eq_key_imp_eq_value)
      have mf: "map fst (map ?f kvs) = map fst kvs" by (induction kvs) auto
      have arr: "\<exists>ns. w = JArr (map JStr ns)" if "(k, w) \<in> set (map ?f kvs)" for k w
      proof -
        from that obtain w0 where "(k, w0) \<in> set kvs" "w = (if k = q then json_builder_arr_add w0 (JStr ?n) else w0)"
          by (auto split: if_splits)
        moreover then obtain ms where "w0 = JArr (map JStr ms)" using assms by (auto simp: all_arrays_def)
        ultimately have "w = JArr (map JStr (if k = q then ms @ [?n] else ms))" by (simp add: json_builder_arr_add_def)
        then show ?thesis by blast
      qed
      have a: "all_arrays (map ?f kvs)"
        unfolding all_arrays_def mf
      proof (intro conjI ballI)
        fix x assume "x \<in> set (map ?f kvs)"
        then show "case x of (k, v) \<Rightarrow> \<exists>ns. v = JArr (map JStr ns)" using arr [of "fst x" "snd x"] by (simp only: prod.collapse split_beta)
      qed (rule d)
      have "listed (map ?f kvs) p n \<longleftrightarrow> listed kvs p n \<or> p = q \<and> n = ?n"
      proof (cases "p = q")
        case False
        then have "(p, w) \<in> set (map ?f kvs) \<longleftrightarrow> (p, w) \<in> set kvs" for w
          using image_eqI [of "(p, w)" ?f "(p, w)" "set kvs"] by (auto split: if_splits)
        with False show ?thesis by (simp add: listed_def del: set_map)
      next
        case True
        have m: "(q, w) \<in> set (map ?f kvs) \<longleftrightarrow> (\<exists>w0. (q, w0) \<in> set kvs \<and> w = json_builder_arr_add w0 (JStr ?n))" for w
          using image_eqI [of "(q, w)" ?f "(q, _)" "set kvs"] by (auto split: if_splits)
        have o: "(q, w) \<in> set kvs \<longleftrightarrow> w = JArr (map JStr ns)" for w using v ns only by auto
        show ?thesis unfolding True listed_def m o by (auto simp: json_builder_arr_add_def)
      qed
      with a c \<open>owner d m = Some q\<close> False show ?thesis by auto
    qed
  qed
qed

lemma catalog_fold:
  assumes "all_arrays kvs"
  shows "all_arrays (foldl (catalog_member d) kvs ms) \<and>
    (listed (foldl (catalog_member d) kvs ms) p n \<longleftrightarrow>
       listed kvs p n \<or> (\<exists>m \<in> set ms. owner d m = Some p \<and> mc_name m \<noteq> [] \<and> strip_provider p (mc_name m) = n))"
  using assms
proof (induction ms arbitrary: kvs)
  case (Cons m ms)
  from Cons.IH [of "catalog_member d kvs m"] catalog_member_ok [OF Cons.prems, of d m p n] show ?case by auto
qed simp

lemma seen_owner:
  "custom_model_seen c p n \<longleftrightarrow> (\<exists>m \<in> set (cf_models c). owner (cf_provider c) m = Some p \<and> mc_name m = n)"
  by (simp add: custom_model_seen_def owner_def)

lemma seen_append:
  assumes "mc_provider m = Some q"
  shows "custom_model_seen (model_config_append c m) p n \<longleftrightarrow> custom_model_seen c p n \<or> p = q \<and> n = mc_name m"
proof -
  have "owner d m = Some q" for d using assms by (simp add: owner_def)
  then show ?thesis by (auto simp: seen_owner model_config_append_def)
qed

lemma keeps_providers [simp]:
  "cf_provider (catalog_add_model q b pr c v) = cf_provider c" "cf_custom (catalog_add_model q b pr c v) = cf_custom c"
  "cf_provider (fill_endpoint q b pr mp c) = cf_provider c" "cf_custom (fill_endpoint q b pr mp c) = cf_custom c"
  "custom_model_seen (fill_endpoint q b pr mp c) = custom_model_seen c"
  "custom_model_seen (select_first q n c) = custom_model_seen c"
  by (auto simp: catalog_add_model_def fill_endpoint_def select_first_def model_config_append_def custom_model_seen_def fun_eq_iff Let_def
      split: option.splits)

lemma catalog_add_seen:
  assumes "no_nul s"
  shows "custom_model_seen (catalog_add_model q b pr c (JStr s)) p n \<longleftrightarrow> custom_model_seen c p n \<or> s \<noteq> [] \<and> p = q \<and> n = s"
  using assms by (auto simp: catalog_add_model_def model_json_name_def c_str_id seen_append Let_def)

lemma catalog_adds_seen:
  assumes "\<forall>s \<in> set ns. no_nul s"
  shows "custom_model_seen (foldl (catalog_add_model q b pr) c (map JStr ns)) p n \<longleftrightarrow>
           custom_model_seen c p n \<or> n \<noteq> [] \<and> p = q \<and> n \<in> set ns"
    "cf_custom (foldl (catalog_add_model q b pr) c (map JStr ns)) = cf_custom c"
  using assms by (induction ns arbitrary: c) (auto simp: catalog_add_seen)

lemma builtin_protocol: "provider_builtin_base_url (Some q) \<noteq> None \<Longrightarrow> \<exists>pr. provider_builtin_protocol (Some q) = Some pr"
  by (cases "q = ''anthropic''"; cases "q \<in> chatgpt_names") (simp_all add: provider_builtin_protocol_def)

lemma load_entry_ok:
  assumes "\<forall>s \<in> set ns. no_nul s"
  shows "\<exists>c'. models_load_entry q (JArr (map JStr ns)) c = (AGENT_OK, c') \<and> cf_custom c' = cf_custom c \<and>
     (\<forall>p n. custom_model_seen c' p n \<longleftrightarrow> custom_model_seen c p n \<or> known_provider c q \<and> n \<noteq> [] \<and> p = q \<and> n \<in> set ns)"
proof (cases "known_provider c q")
  case True
  then obtain b pr where "(case custom_provider_find c q of Some p \<Rightarrow> Some (cp_base_url p) | None \<Rightarrow> provider_builtin_base_url (Some q)) = Some b"
    "(case custom_provider_find c q of Some p \<Rightarrow> Some (cp_protocol p) | None \<Rightarrow> provider_builtin_protocol (Some q)) = Some pr"
    using builtin_protocol [of q] by (cases "custom_provider_find c q") (auto simp: known_provider_def)
  then have "models_load_entry q (JArr (map JStr ns)) c =
      (AGENT_OK, foldl (catalog_add_model q b pr) (fill_endpoint q b pr None c) (map JStr ns))"
    by (simp add: models_load_entry_def models_add_provider_array_def Let_def)
  with catalog_adds_seen [OF assms, of q b pr "fill_endpoint q b pr None c"] True show ?thesis by simp
next
  case False
  then show ?thesis by (simp add: models_load_entry_def models_add_provider_array_def known_provider_def Let_def)
qed

lemma load_entries_ok:
  assumes "all_arrays kvs" and "\<forall>p n. listed kvs p n \<longrightarrow> no_nul n"
  shows "\<exists>c'. foreach_members models_load_entry kvs c = (AGENT_OK, c') \<and> cf_custom c' = cf_custom c \<and>
     (\<forall>p n. custom_model_seen c' p n \<longleftrightarrow> custom_model_seen c p n \<or> known_provider c p \<and> n \<noteq> [] \<and> listed kvs p n)"
  using assms
proof (induction kvs arbitrary: c)
  case Nil
  then show ?case by (simp add: listed_def)
next
  case (Cons kv kvs)
  obtain k ns where kv: "kv = (k, JArr (map JStr ns))" using Cons.prems(1) by (cases kv) (auto simp: all_arrays_def)
  have l: "listed (kv # kvs) p n \<longleftrightarrow> p = k \<and> n \<in> set ns \<or> listed kvs p n" for p n by (auto simp: listed_def kv)
  have "\<forall>s \<in> set ns. no_nul s" using Cons.prems(2) l by blast
  from load_entry_ok [OF this, of k c] obtain c1 where c1: "models_load_entry k (JArr (map JStr ns)) c = (AGENT_OK, c1)" "cf_custom c1 = cf_custom c"
    "\<forall>p n. custom_model_seen c1 p n \<longleftrightarrow> custom_model_seen c p n \<or> known_provider c k \<and> n \<noteq> [] \<and> p = k \<and> n \<in> set ns" by blast
  have kn: "known_provider c1 = known_provider c" using c1(2) by (auto simp: known_provider_def custom_provider_find_def fun_eq_iff)
  have "all_arrays kvs" "\<forall>p n. listed kvs p n \<longrightarrow> no_nul n" using Cons.prems l by (auto simp: all_arrays_def)
  from Cons.IH [OF this, of c1] obtain c' where "foreach_members models_load_entry kvs c1 = (AGENT_OK, c')" "cf_custom c' = cf_custom c1"
    "\<forall>p n. custom_model_seen c' p n \<longleftrightarrow> custom_model_seen c1 p n \<or> known_provider c1 p \<and> n \<noteq> [] \<and> listed kvs p n" by blast
  with c1 kn l show ?case by (auto simp: kv)
qed

text \<open>The catalogs that were saved are loaded again: afterwards exactly those models are offered that were offered
  before and those of the saved configuration whose provider is known, each under the name without its provider.\<close>

theorem catalogs_roundtrip:
  assumes "config_save_models_file render io home files c = (AGENT_OK, files')"
    and "config_home_file home ''models.json'' = Some path" and "reads_back read render"
    and "config_readable io' files' path" and "ci_read_close io'" and "\<forall>m \<in> set (cf_models c). no_nul (mc_name m)"
  shows "\<exists>c'. config_load_models_file read io' home files' c0 = (AGENT_OK, c') \<and>
     (\<forall>p n. custom_model_seen c' p n \<longleftrightarrow> custom_model_seen c0 p n \<or>
        known_provider c0 p \<and> n \<noteq> [] \<and>
        (\<exists>m \<in> set (cf_models c). owner (cf_provider c) m = Some p \<and> mc_name m \<noteq> [] \<and> strip_provider p (mc_name m) = n))"
proof -
  let ?kvs = "foldl (catalog_member (cf_provider c)) [] (cf_models c)"
  from assms(1,2) have w: "config_write_json render io files path (JObj ?kvs) = (AGENT_OK, files')"
    by (simp add: config_save_models_file_def catalog_json_def)
  from saved_reads_back [OF w assms(3,4)] obtain data where d: "slurp io' files' path = Bytes data (ci_read_close io')"
    "read data = Some (JObj ?kvs)" by blast
  have e: "all_arrays []" "listed [] p n = False" for p n by (simp_all add: all_arrays_def listed_def)
  have l: "listed ?kvs p n \<longleftrightarrow> (\<exists>m \<in> set (cf_models c). owner (cf_provider c) m = Some p \<and> mc_name m \<noteq> [] \<and>
      strip_provider p (mc_name m) = n)" for p n
    using conjunct2 [OF catalog_fold [OF e(1), of "cf_provider c" "cf_models c" p n]] by (simp add: e(2))
  have a: "all_arrays ?kvs" by (rule conjunct1 [OF catalog_fold [OF e(1)]])
  have "no_nul (strip_provider p s)" if "no_nul s" for p s
    using that by (auto simp: strip_provider_def no_nul_def dest: in_set_dropD)
  with assms(6) have "\<forall>p n. listed ?kvs p n \<longrightarrow> no_nul n" unfolding l by blast
  from load_entries_ok [OF a this, of c0] d assms(2,5) show ?thesis
    by (auto simp: config_load_models_file_def json_parse_def l)
qed

section \<open>Examples\<close>

text \<open>A library that prints the documents of the examples as one letter, and a file system without faults.\<close>

definition catalog_doc :: json where
  "catalog_doc = JObj [(''openai'', JArr [JStr ''gpt''])]"

definition print_doc :: "json \<Rightarrow> string option" where
  "print_doc j =
     (if j = selection_json ''openai/gpt'' None then Some ''s''
      else if j = selection_json ''meta/llama'' None then Some ''m''
      else if j = catalog_doc then Some ''c'' else None)"

definition parse_doc :: "string \<Rightarrow> json option" where
  "parse_doc s =
     (if s = ''s'' @ [CHR 0x0A] then Some (selection_json ''openai/gpt'' None)
      else if s = ''m'' @ [CHR 0x0A] then Some (selection_json ''meta/llama'' None)
      else if s = ''c'' @ [CHR 0x0A] then Some catalog_doc else None)"

definition smooth_config :: config_io where
  "smooth_config = \<lparr>ci_open = (\<lambda>_. True), ci_seek = True, ci_read = 100, ci_read_close = True, ci_mkdir = (\<lambda>_. True),
     ci_suffix = ''abcdef'', ci_mkstemp = True, ci_fdopen = True, ci_write = True, ci_newline = True, ci_close = True, ci_rename = True\<rparr>"

lemma docs_print: "reads_back parse_doc print_doc"
  by (auto simp: reads_back_def print_doc_def parse_doc_def split: if_splits)

lemma smooth_config_write:
  assumes "print_doc doc = Some out1" and "length path < 4000"
  shows "config_write_json print_doc smooth_config files path doc =
     (AGENT_OK, files(path @ ''.tmp.abcdef'' := None, path := Some (out1 @ [CHR 0x0A])))"
proof -
  have "list_all (\<lambda>_. True) xs" for xs :: "string list" by (induction xs) auto
  then show ?thesis
    using assms by (simp add: config_write_json_def json_builder_stringify_def config_ensure_parent_dirs_def smooth_config_def AUTH_PATH_MAX_def)
qed

lemma smooth_config_readable: "files path = Some [a, b] \<Longrightarrow> config_readable smooth_config files path"
  by (simp add: config_readable_def smooth_config_def CONFIG_MAX_BYTES_def)

definition saved_config :: "string \<Rightarrow> file_store" where
  "saved_config out1 = (\<lambda>_. None)(''c.json'' @ ''.tmp.abcdef'' := None, ''c.json'' := Some (out1 @ [CHR 0x0A]))"

lemma sample_selections:
  "config_save_selection_impl print_doc smooth_config (\<lambda>_. None) (Some ''c.json'') (Some ''openai'') (Some ''gpt'') None True =
     (AGENT_OK, saved_config ''s'')"
  "config_save_selection_impl print_doc smooth_config (\<lambda>_. None) (Some ''c.json'') (Some ''openrouter'') (Some (''meta'' @ ''/'' @ ''llama'')) None True =
     (AGENT_OK, saved_config ''m'')"
proof -
  have d: "print_doc (selection_json ''openai/gpt'' None) = Some ''s''" "print_doc (selection_json ''meta/llama'' None) = Some ''m''"
    by (simp_all add: print_doc_def selection_json_def)
  show "config_save_selection_impl print_doc smooth_config (\<lambda>_. None) (Some ''c.json'') (Some ''openai'') (Some ''gpt'') None True =
     (AGENT_OK, saved_config ''s'')"
    using smooth_config_write [OF d(1), of "''c.json''" "\<lambda>_. None"]
    by (simp add: config_save_selection_impl_def json_builder_obj_add_str_def selection_json_def saved_config_def)
  show "config_save_selection_impl print_doc smooth_config (\<lambda>_. None) (Some ''c.json'') (Some ''openrouter'') (Some (''meta'' @ ''/'' @ ''llama'')) None True =
     (AGENT_OK, saved_config ''m'')"
    using smooth_config_write [OF d(2), of "''c.json''" "\<lambda>_. None"]
    by (simp add: config_save_selection_impl_def json_builder_obj_add_str_def selection_json_def saved_config_def)
qed

theorem selection_roundtrip_witness:
  "\<exists>c'. config_load_file parse_doc smooth_config (saved_config ''s'') (Some ''c.json'') config_default = (AGENT_OK, c') \<and>
     cf_provider c' = Some ''openai'' \<and> cf_model_name c' = Some ''gpt''"
  using selection_roundtrip [OF sample_selections(1) _ _ _ _ docs_print smooth_config_readable [of _ _ "CHR ''s''" "CHR 0x0A"]]
  by (simp add: saved_config_def no_nul_def)

theorem slashed_selection_misread_witness:
  "\<exists>c'. config_load_file parse_doc smooth_config (saved_config ''m'') (Some ''c.json'') config_default = (AGENT_OK, c') \<and>
     cf_provider c' = Some ''meta'' \<and> cf_model_name c' = Some ''llama''"
  using slashed_selection_misread [OF sample_selections(2) _ _ _ docs_print smooth_config_readable [of _ _ "CHR ''m''" "CHR 0x0A"]]
  by (simp add: saved_config_def no_nul_def)

theorem config_limits_usable_witness:
  "\<exists>c'. config_load_file parse_doc smooth_config (saved_config ''s'') (Some ''c.json'') config_default = (AGENT_OK, c') \<and> config_ok c'"
proof -
  obtain rc c' where l: "config_load_file parse_doc smooth_config (saved_config ''s'') (Some ''c.json'') config_default = (rc, c')"
    by (metis surj_pair)
  moreover have "rc = AGENT_OK"
    using l by (auto simp: config_load_file_def slurp_def saved_config_def smooth_config_def CONFIG_MAX_BYTES_def json_parse_def
        parse_doc_def json_val_is_obj_def selection_json_def Let_def)
  ultimately show ?thesis using config_limits_usable [OF config_default_ok l] by simp
qed

definition one_model :: config where
  "one_model = config_default\<lparr>cf_models := [\<lparr>mc_name = ''openai/gpt'', mc_label = None, mc_provider = Some ''openai'', mc_base_url = None,
     mc_api_key_env = None, mc_auth = None, mc_protocol = None, mc_models_path = None, mc_context_window = 0, mc_max_output = 0,
     mc_subscription = False\<rparr>]\<rparr>"

definition cached_files :: file_store where
  "cached_files = (\<lambda>_. None)(''/h/.config/cagent/models.json'' @ ''.tmp.abcdef'' := None,
     ''/h/.config/cagent/models.json'' := Some (''c'' @ [CHR 0x0A]))"

lemma one_model_saved: "config_save_models_file print_doc smooth_config (Some ''/h'') (\<lambda>_. None) one_model = (AGENT_OK, cached_files)"
proof -
  have j: "catalog_json one_model = catalog_doc"
    by (simp add: catalog_json_def one_model_def catalog_member_def strip_provider_def catalog_doc_def)
  have "print_doc catalog_doc = Some ''c''" by (simp add: print_doc_def catalog_doc_def selection_json_def)
  from smooth_config_write [OF this, of "''/h/.config/cagent/models.json''" "\<lambda>_. None"] show ?thesis
    by (simp add: config_save_models_file_def config_home_file_def home_file_def AUTH_PATH_MAX_def j cached_files_def)
qed

theorem catalogs_roundtrip_witness:
  "\<exists>c'. config_load_models_file parse_doc smooth_config (Some ''/h'') cached_files config_default = (AGENT_OK, c') \<and>
     custom_model_seen c' ''openai'' ''gpt''"
proof -
  have p: "config_home_file (Some ''/h'') ''models.json'' = Some ''/h/.config/cagent/models.json''"
    by (simp add: config_home_file_def home_file_def AUTH_PATH_MAX_def)
  have r: "config_readable smooth_config cached_files ''/h/.config/cagent/models.json''"
    by (rule smooth_config_readable [of _ _ "CHR ''c''" "CHR 0x0A"]) (simp add: cached_files_def)
  have k: "known_provider config_default ''openai''" by (simp add: known_provider_def provider_builtin_base_url_def)
  have m: "\<forall>m \<in> set (cf_models one_model). no_nul (mc_name m)" by (simp add: one_model_def no_nul_def)
  have o: "\<exists>m \<in> set (cf_models one_model). owner (cf_provider one_model) m = Some ''openai'' \<and> mc_name m \<noteq> [] \<and>
      strip_provider ''openai'' (mc_name m) = ''gpt''"
    by (simp add: one_model_def owner_def strip_provider_def)
  from catalogs_roundtrip [OF one_model_saved p docs_print r _ m, of config_default] k o show ?thesis
    by (auto simp: smooth_config_def)
qed

end
