(* ===== verification/Runtime_Models.thy ===== *)
theory Runtime_Models
  imports Config
begin

text \<open>
  Providers, models and catalogs in \<open>src/src/runtime/runtime.c\<close>: which endpoint and which
  credentials a model gets, the discovery of catalogs, the table of live models and how a selector names
  one.  The JSON library, the clock, the environment and the answers of the operating system are the record
  \<open>run_env\<close>, with \<open>rn_get\<close> for one HTTP GET.  The event loop, the HTTP runtime, the tools and the
  scheduler of a \<open>Runtime\<close> are modelled in their own theories; allocations succeed, and billing is left out.
\<close>

section \<open>Environment and objects\<close>

text \<open>The answer to a GET: the text of a transport error, the status, the body.\<close>

record http_answer =
  ha_error :: "string option"
  ha_status :: int
  ha_body :: "string option"

text \<open>\<open>rn_get url headers\<close> is what starting the request returns and the answer, if it came before the
  deadline.\<close>

record run_env =
  rn_read :: "string \<Rightarrow> json option"
  rn_render :: "json \<Rightarrow> string option"
  rn_auth :: auth_io
  rn_io :: config_io
  rn_post :: http_post
  rn_now :: int
  rn_getenv :: "string \<Rightarrow> string option"
  rn_cwd :: "string option"
  rn_get :: "string \<Rightarrow> string list \<Rightarrow> agent_error \<times> http_answer option"

datatype wire = Openai_Wire | Anthropic_Wire | Responses_Wire

record live_model =
  lm_name :: string
  lm_wire :: wire
  lm_window :: int
  lm_max_output :: int
  lm_window_verified :: bool

text \<open>A model of the table owns its provider, the default model uses \<open>rm_provider\<close>.\<close>

record runtime_models =
  rm_config :: config
  rm_provider :: provider
  rm_model :: live_model
  rm_table :: "(provider \<times> live_model) list"

definition oauth_default_path :: "(string \<Rightarrow> string option) \<Rightarrow> string option" where
  "oauth_default_path getenv =
     (case getenv ''HOME'' of
        None \<Rightarrow> None
      | Some home \<Rightarrow> if home = [] then None else home_file home ''auth.json'')"

definition provider_from_config ::
  "run_env \<Rightarrow> file_store \<Rightarrow> string \<Rightarrow> string option \<Rightarrow> string option \<Rightarrow> string option \<Rightarrow> provider option \<times> file_store" where
  "provider_from_config env files base_url provider_name api_key_env auth =
     (let path = oauth_default_path (rn_getenv env) in
      if legacy_auth_is_chatgpt auth \<and> (provider_name_is_chatgpt provider_name \<or> provider_name = Some ''opencode-go'') then
        (let (p, files') = provider_new_chatgpt (rn_read env) (rn_render env) (rn_auth env) (rn_post env) (rn_now env) files base_url path in
         (Some (p\<lparr>pr_name := provider_name\<rparr>), files'))
      else provider_new_auth (rn_read env) (rn_render env) (rn_auth env) (rn_post env) (rn_now env) (rn_getenv env) files
             base_url provider_name path api_key_env)"

section \<open>Endpoint and protocol of the selected provider\<close>

text \<open>The member \<open>provider\<close> of \<open>auth.json\<close>, for a configuration that names none.\<close>

definition auth_file_provider :: "run_env \<Rightarrow> file_store \<Rightarrow> string option" where
  "auth_file_provider env files =
     (case oauth_default_path (rn_getenv env) of
        None \<Rightarrow> None
      | Some path \<Rightarrow>
          (case slurp (rn_io env) files path of
             Bytes data complete \<Rightarrow> if files path = Some [] then None else c_get_str (json_parse (rn_read env) data) ''provider''
           | _ \<Rightarrow> None))"

definition choose_provider :: "run_env \<Rightarrow> file_store \<Rightarrow> config \<Rightarrow> config" where
  "choose_provider env files c =
     (if cf_provider c \<noteq> None then c
      else if legacy_auth_is_chatgpt (cf_auth c) then c\<lparr>cf_provider := Some ''chatgpt''\<rparr>
      else c\<lparr>cf_provider := (case auth_file_provider env files of Some p \<Rightarrow> Some p | None \<Rightarrow> Some ''opencode-go'')\<rparr>)"

text \<open>Settings that belong to another built-in provider are dropped.\<close>

definition drop_stale :: "config \<Rightarrow> config" where
  "drop_stale c =
     (let base_provider = builtin_provider_for_base_url (cf_base_url c) in
      if base_provider \<noteq> None \<and> \<not> provider_names_equal base_provider (cf_provider c)
      then c\<lparr>cf_base_url := None, cf_protocol := None, cf_api_key_env := None, cf_models_path := None\<rparr> else c)"

definition or_else :: "'a option \<Rightarrow> 'a option \<Rightarrow> 'a option" where
  "or_else a b = (case a of None \<Rightarrow> b | Some x \<Rightarrow> Some x)"

definition resolve_builtin :: "config \<Rightarrow> agent_error \<times> config" where
  "resolve_builtin c =
     (let c1 = drop_stale c;
          c2 = c1\<lparr>cf_base_url := or_else (cf_base_url c1) (provider_builtin_base_url (cf_provider c)),
                  cf_protocol := or_else (cf_protocol c1) (provider_builtin_protocol (cf_provider c)),
                  cf_api_key_env := or_else (cf_api_key_env c1) (provider_builtin_key_env (cf_provider c))\<rparr> in
      (if cf_base_url c2 \<noteq> None \<and> cf_protocol c2 \<noteq> None then AGENT_OK else AGENT_ERR_OOM, c2))"

text \<open>A provider that is neither built in nor in \<open>custom_provider.json\<close> is looked up in \<open>providers.json\<close>.\<close>

definition resolve_registry :: "run_env \<Rightarrow> file_store \<Rightarrow> config \<Rightarrow> agent_error \<times> config" where
  "resolve_registry env files c =
     (case Option.bind (rn_getenv env ''HOME'') (\<lambda>home. home_file home ''providers.json'') of
        None \<Rightarrow> (AGENT_ERR_IO, c)
      | Some path \<Rightarrow>
          (case slurp (rn_io env) files path of
             Bytes data complete \<Rightarrow>
               (let root = json_parse (rn_read env) data; name = (case cf_provider c of None \<Rightarrow> [] | Some p \<Rightarrow> p);
                    spec = or_else (json_val_obj_get (json_val_obj_get root ''providers'') name) (json_val_obj_get root name) in
                if \<not> json_val_is_obj spec then (AGENT_ERR_IO, c)
                else
                  (let c1 = c\<lparr>cf_base_url := or_else (cf_base_url c) (c_get_str spec ''base_url''),
                              cf_protocol := or_else (cf_protocol c) (c_get_str spec ''protocol''),
                              cf_models_path := or_else (cf_models_path c) (c_get_str spec ''models_path''),
                              cf_api_key_env := or_else (cf_api_key_env c) (c_get_str spec ''api_key_env'')\<rparr> in
                   (if cf_base_url c1 \<noteq> None \<and> cf_protocol c1 \<noteq> None then AGENT_OK else AGENT_ERR_JSON, c1)))
           | _ \<Rightarrow> (AGENT_ERR_IO, c)))"

definition config_resolve_provider :: "run_env \<Rightarrow> file_store \<Rightarrow> config \<Rightarrow> agent_error \<times> config" where
  "config_resolve_provider env files c =
     (let (rc, c1) = config_load_custom_providers (rn_read env) (rn_io env) (rn_getenv env ''HOME'') files c in
      if rc \<noteq> AGENT_OK \<and> rc \<noteq> AGENT_ERR_JSON then (rc, c1)
      else
        (let c2 = choose_provider env files c1 in
         if provider_builtin_base_url (cf_provider c2) \<noteq> None then resolve_builtin c2
         else if cf_base_url c2 \<noteq> None \<and> cf_protocol c2 \<noteq> None then (AGENT_OK, c2)
         else resolve_registry env files c2))"

section \<open>The table of live models\<close>

definition wire_of :: "string \<Rightarrow> wire" where
  "wire_of proto = (if proto = ''anthropic'' then Anthropic_Wire else if proto = ''responses'' then Responses_Wire else Openai_Wire)"

text \<open>Endpoint, key source and legacy flag of an entry; the endpoint of the configuration is present.\<close>

definition entry_base :: "config \<Rightarrow> model_config \<Rightarrow> string option" where
  "entry_base c mc =
     (let provider = or_else (mc_provider mc) (cf_provider c) in
      if mc_base_url mc = None \<and> provider \<noteq> None \<and> (cf_provider c = None \<or> provider \<noteq> cf_provider c) then
        or_else (provider_builtin_base_url provider) (cf_base_url c)
      else or_else (mc_base_url mc) (cf_base_url c))"

definition entry_key_env :: "config \<Rightarrow> model_config \<Rightarrow> string option" where
  "entry_key_env c mc =
     (let provider = or_else (mc_provider mc) (cf_provider c) in
      or_else (mc_api_key_env mc)
        (if provider_names_equal provider (cf_provider c) then cf_api_key_env c else provider_builtin_key_env provider))"

definition entry_auth :: "config \<Rightarrow> model_config \<Rightarrow> string option" where
  "entry_auth c mc =
     (let provider = or_else (mc_provider mc) (cf_provider c) in
      or_else (mc_auth mc) (if provider_names_equal provider (cf_provider c) then cf_auth c else None))"

definition table_model :: "config \<Rightarrow> model_config \<Rightarrow> provider \<Rightarrow> live_model" where
  "table_model c mc p =
     (let provider = or_else (mc_provider mc) (cf_provider c);
          proto = (case mc_protocol mc of
                     Some s \<Rightarrow> s
                   | None \<Rightarrow> if provider_is_oauth (Some p) then ''responses''
                             else (case provider_builtin_protocol provider of Some s \<Rightarrow> s | None \<Rightarrow> ''openai'')) in
      \<lparr>lm_name = mc_name mc, lm_wire = wire_of proto,
       lm_window = (if mc_context_window mc > 0 then mc_context_window mc else cf_context_window c),
       lm_max_output = (if mc_max_output mc > 0 then mc_max_output mc else cf_max_output c),
       lm_window_verified = (mc_context_window mc > 0 \<or> cf_context_window_set c)\<rparr>)"

text \<open>Entries without a provider are skipped; the others move up.\<close>

fun build_table :: "run_env \<Rightarrow> config \<Rightarrow> file_store \<Rightarrow> model_config list \<Rightarrow> (provider \<times> live_model) list \<times> file_store" where
  "build_table env c files [] = ([], files)"
| "build_table env c files (mc # mcs) =
     (case entry_base c mc of
        None \<Rightarrow> build_table env c files mcs
      | Some base \<Rightarrow>
          (let (p, files1) = provider_from_config env files base (or_else (mc_provider mc) (cf_provider c)) (entry_key_env c mc) (entry_auth c mc);
               (rest, files2) = build_table env c files1 mcs in
           (case p of None \<Rightarrow> rest | Some q \<Rightarrow> (q, table_model c mc q) # rest, files2)))"

definition runtime_build_models :: "run_env \<Rightarrow> file_store \<Rightarrow> runtime_models \<Rightarrow> runtime_models \<times> file_store" where
  "runtime_build_models env files rt =
     (let (table, files') = build_table env (rm_config rt) files (cf_models (rm_config rt)) in (rt\<lparr>rm_table := table\<rparr>, files'))"

text \<open>The entry whose numbers the default model takes over: the first of that name, plain or with the name of the
  selected provider, whichever provider the entry has.\<close>

definition follows :: "runtime_models \<Rightarrow> model_config \<Rightarrow> bool" where
  "follows rt mc \<longleftrightarrow>
     mc_name mc = lm_name (rm_model rt) \<or>
     (case cf_provider (rm_config rt) of
        None \<Rightarrow> False
      | Some p \<Rightarrow> mc_name mc = take 511 (p @ ''/'' @ lm_name (rm_model rt)))"

definition follow_catalog :: "runtime_models \<Rightarrow> runtime_models" where
  "follow_catalog rt =
     (case find (follows rt) (cf_models (rm_config rt)) of
        None \<Rightarrow> rt
      | Some mc \<Rightarrow>
          (let m = rm_model rt;
               m1 = (if mc_context_window mc > 0 then m\<lparr>lm_window := mc_context_window mc, lm_window_verified := True\<rparr> else m);
               m2 = (if mc_max_output mc > 0 then m1\<lparr>lm_max_output := mc_max_output mc\<rparr> else m1) in
           rt\<lparr>rm_model := m2\<rparr>))"

definition runtime_apply_catalog :: "run_env \<Rightarrow> file_store \<Rightarrow> runtime_models \<Rightarrow> config \<Rightarrow> agent_error \<times> runtime_models \<times> file_store" where
  "runtime_apply_catalog env files rt catalog =
     (if \<exists>mc \<in> set (cf_models catalog). mc_provider mc = None \<or> mc_base_url mc = None \<or> mc_protocol mc = None
      then (AGENT_ERR_OOM, rt, files)
      else
        (let (rt1, files') = runtime_build_models env files (rt\<lparr>rm_config := (rm_config rt)\<lparr>cf_models := cf_models catalog\<rparr>\<rparr>) in
         (AGENT_OK, follow_catalog rt1, files')))"

section \<open>Selectors\<close>

text \<open>\<open>None\<close>: the text does not fit.\<close>

definition runtime_model_selector :: "runtime_models \<Rightarrow> provider \<Rightarrow> live_model \<Rightarrow> nat \<Rightarrow> string option" where
  "runtime_model_selector rt p m cap =
     (let provider = (case pr_name p of
                        Some n \<Rightarrow> if n \<noteq> [] then n else (case cf_provider (rm_config rt) of Some q \<Rightarrow> q | None \<Rightarrow> ''unknown'')
                      | None \<Rightarrow> (case cf_provider (rm_config rt) of Some q \<Rightarrow> q | None \<Rightarrow> ''unknown''));
          out = (if strip_provider provider (lm_name m) \<noteq> lm_name m then lm_name m else provider @ ''/'' @ lm_name m) in
      if length out \<ge> cap then None else Some out)"

definition runtime_model_matches :: "runtime_models \<Rightarrow> provider \<Rightarrow> live_model \<Rightarrow> string \<Rightarrow> bool" where
  "runtime_model_matches rt p m selector \<longleftrightarrow>
     runtime_model_selector rt p m AUTH_PATH_MAX = Some selector \<or> lm_name m = selector"

datatype model_ref = Default_Model | Table_Model nat

text \<open>The table is searched by index; a label is the one of the configured entry with that index.\<close>

definition table_matches :: "runtime_models \<Rightarrow> string \<Rightarrow> nat \<Rightarrow> bool" where
  "table_matches rt name i \<longleftrightarrow>
     runtime_model_matches rt (fst (rm_table rt ! i)) (snd (rm_table rt ! i)) name \<or>
     (i < length (cf_models (rm_config rt)) \<and> mc_label (cf_models (rm_config rt) ! i) = Some name)"

definition runtime_model_by_name :: "runtime_models \<Rightarrow> string \<Rightarrow> model_ref option" where
  "runtime_model_by_name rt name =
     (if runtime_model_matches rt (rm_provider rt) (rm_model rt) name then Some Default_Model
      else map_option Table_Model (find (table_matches rt name) [0..<length (rm_table rt)]))"

definition runtime_set_base_url :: "runtime_models \<Rightarrow> string option \<Rightarrow> agent_error \<times> runtime_models" where
  "runtime_set_base_url rt url =
     (case url of
        None \<Rightarrow> (AGENT_ERR_IO, rt)
      | Some u \<Rightarrow> (AGENT_OK, rt\<lparr>rm_provider := (rm_provider rt)\<lparr>pr_base_url := u\<rparr>, rm_config := (rm_config rt)\<lparr>cf_base_url := Some u\<rparr>\<rparr>))"

definition runtime_set_api_key :: "runtime_models \<Rightarrow> string option \<Rightarrow> agent_error \<times> runtime_models" where
  "runtime_set_api_key rt key =
     (case key of
        None \<Rightarrow> (AGENT_ERR_IO, rt)
      | Some k \<Rightarrow> (AGENT_OK, rt\<lparr>rm_provider := (rm_provider rt)\<lparr>pr_api_key := Some k\<rparr>\<rparr>))"

section \<open>Discovery of a catalog\<close>

text \<open>The first positive of several members, or the last one.\<close>

fun first_positive :: "json option \<Rightarrow> string list \<Rightarrow> int" where
  "first_positive v [] = 0"
| "first_positive v [k] = json_obj_get_int v k 0"
| "first_positive v (k # ks) = (let i = json_obj_get_int v k 0 in if i \<le> 0 then first_positive v ks else i)"

definition nested_limit :: "json option \<Rightarrow> string list \<Rightarrow> int \<Rightarrow> int" where
  "nested_limit v ks i = (if json_val_is_obj v \<and> i \<le> 0 then first_positive v ks else i)"

definition discovered_window :: "config \<Rightarrow> string \<Rightarrow> json option \<Rightarrow> int" where
  "discovered_window c name v =
     (let w = first_positive v [''context_window'', ''contextWindow'', ''context_length'', ''contextLength'', ''max_input_tokens'', ''input_token_limit''];
          w1 = (if w \<le> 0 \<and> cf_provider c = Some ''opencode-go'' \<and> name = ''gpt-5.6-luna'' then DEFAULT_CONTEXT_WINDOW else w);
          limits = or_else (json_val_obj_get v ''limit'') (json_val_obj_get v ''limits'') in
      nested_limit (json_val_obj_get v ''top_provider'') [''context_length''] (nested_limit limits [''context'', ''context_length''] w1))"

definition discovered_output :: "json option \<Rightarrow> int" where
  "discovered_output v =
     (let limits = or_else (json_val_obj_get v ''limit'') (json_val_obj_get v ''limits'') in
      nested_limit (json_val_obj_get v ''top_provider'') [''max_completion_tokens'']
        (nested_limit limits [''output'', ''max_output_tokens'']
          (first_positive v [''max_output_tokens'', ''max_output'', ''max_completion_tokens''])))"

definition text_member :: "string option \<Rightarrow> string option \<Rightarrow> string option" where
  "text_member a b = (if a = None \<or> a = Some [] then (if b = Some [] then None else b) else a)"

definition discovered_name :: "json option \<Rightarrow> string option" where
  "discovered_name v =
     (if \<not> json_val_is_obj v \<or> c_get_str v ''visibility'' = Some ''hide'' \<or> \<not> json_obj_get_bool v ''supported_in_api'' True then None
      else text_member (c_get_str v ''slug'') (c_get_str v ''id''))"

definition discovered_entry :: "config \<Rightarrow> string \<Rightarrow> json option \<Rightarrow> model_config" where
  "discovered_entry c name v =
     \<lparr>mc_name = name, mc_label = text_member (c_get_str v ''display_name'') (c_get_str v ''name''), mc_provider = cf_provider c,
      mc_base_url = cf_base_url c, mc_api_key_env = cf_api_key_env c, mc_auth = None, mc_protocol = cf_protocol c,
      mc_models_path = cf_models_path c, mc_context_window = discovered_window c name v, mc_max_output = discovered_output v,
      mc_subscription = json_obj_get_bool v ''subscription'' False\<rparr>"

definition add_discovered :: "config \<Rightarrow> model_config list \<Rightarrow> json \<Rightarrow> model_config list" where
  "add_discovered c entries item =
     (case discovered_name (Some item) of
        None \<Rightarrow> entries
      | Some name \<Rightarrow> if name \<in> set (map mc_name entries) then entries else entries @ [discovered_entry c name (Some item)])"

text \<open>Whether the current selection means an entry: its name, its label, or provider and name.\<close>

definition selects :: "string \<Rightarrow> model_config \<Rightarrow> bool" where
  "selects selected e \<longleftrightarrow>
     selected = mc_name e \<or>
     (case (split_selector selected, mc_provider e) of (Some (p, bare), Some q) \<Rightarrow> p = q \<and> bare = mc_name e | _ \<Rightarrow> False) \<or>
     mc_label e = Some selected"

definition select_model :: "model_config list \<Rightarrow> string option \<Rightarrow> string option" where
  "select_model entries selected =
     (case Option.bind selected (\<lambda>s. find (selects s) entries) of
        Some e \<Rightarrow> Some (mc_name e)
      | None \<Rightarrow> Some (mc_name (hd entries)))"

text \<open>An entry needs provider, endpoint and protocol; their absence is reported as exhaustion.\<close>

definition model_discovery_done :: "run_env \<Rightarrow> config \<Rightarrow> http_answer \<Rightarrow> agent_error \<times> config" where
  "model_discovery_done env c a =
     (if ha_error a \<noteq> None \<or> ha_status a < 200 \<or> ha_status a \<ge> 300 then (AGENT_ERR_HTTP, c)
      else
        (let root = Option.bind (ha_body a) (json_parse (rn_read env)) in
         case or_else (json_val_obj_get root ''models'') (json_val_obj_get root ''data'') of
           Some (JArr items) \<Rightarrow>
             (let entries = foldl (add_discovered c) [] items in
              if entries = [] then (AGENT_ERR_MODEL, c)
              else if cf_provider c = None \<or> cf_base_url c = None \<or> cf_protocol c = None then (AGENT_ERR_OOM, c)
              else (AGENT_OK, c\<lparr>cf_model_name := select_model entries (cf_model_name c), cf_models := entries\<rparr>))
         | _ \<Rightarrow> (AGENT_ERR_JSON, c)))"

definition not_slashes :: "string \<Rightarrow> string" where
  "not_slashes s = rev (dropWhile (\<lambda>ch. ch = CHR ''/'') (rev s))"

definition models_url :: "config \<Rightarrow> provider \<Rightarrow> string" where
  "models_url c p =
     (let path = (case cf_models_path c of None \<Rightarrow> ''/models'' | Some s \<Rightarrow> s) in
      not_slashes (case cf_base_url c of None \<Rightarrow> [] | Some b \<Rightarrow> b) @
      (if path \<noteq> [] \<and> hd path = CHR ''/'' then path else ''/'' @ path) @
      (if provider_is_chatgpt (Some p) then ''?client_version=1.0.0'' else []))"

definition models_headers :: "config \<Rightarrow> provider \<Rightarrow> string \<Rightarrow> string list" where
  "models_headers c p key =
     ''Accept: application/json'' #
     (if cf_protocol c = Some ''anthropic'' then [''x-api-key: '' @ key, ''anthropic-version: 2023-06-01'']
      else [''Authorization: Bearer '' @ key]) @
     (case pr_account p of
        Some account \<Rightarrow>
          if provider_is_chatgpt (Some p) \<and> account \<noteq> [] then [''ChatGPT-Account-Id: '' @ account, ''originator: codex_cli_rs''] else []
      | None \<Rightarrow> [])"

text \<open>The reason of a failure, before it is cut to the buffer of the caller.\<close>

definition discovery_detail :: "agent_error \<Rightarrow> http_answer option \<Rightarrow> string" where
  "discovery_detail rc answer =
     (let failed = (case answer of Some a \<Rightarrow> if rc = AGENT_ERR_HTTP then Some a else None | None \<Rightarrow> None);
          rest = (if rc = AGENT_ERR_JSON then ''invalid model list response''
                  else if rc = AGENT_ERR_MODEL then ''empty model list'' else error_name rc) in
      case failed of
        None \<Rightarrow> rest
      | Some a \<Rightarrow>
          if ha_status a > 0 then ''HTTP '' @ show_int (ha_status a)
          else (case ha_error a of Some e \<Rightarrow> ''network error ('' @ e @ '')'' | None \<Rightarrow> rest))"

definition runtime_discover_models :: "run_env \<Rightarrow> file_store \<Rightarrow> nat \<Rightarrow> config \<Rightarrow> (agent_error \<times> string) \<times> config \<times> file_store" where
  "runtime_discover_models env files detail_cap c =
     (let (rc, c1) = config_resolve_provider env files c; cut = (\<lambda>s. take (detail_cap - 1) s) in
      if rc \<noteq> AGENT_OK then ((rc, cut (''invalid provider configuration ('' @ error_name rc @ '')'')), c1, files)
      else
        (let (p, files1) = provider_from_config env files (case cf_base_url c1 of None \<Rightarrow> [] | Some b \<Rightarrow> b)
                             (cf_provider c1) (cf_api_key_env c1) (cf_auth c1) in
         case (p, Option.bind p pr_api_key) of
           (Some q, Some key) \<Rightarrow>
             (let (rc2, answer) = rn_get env (models_url c1 q) (models_headers c1 q key) in
              if rc2 \<noteq> AGENT_OK then ((rc2, cut (discovery_detail rc2 None)), c1, files1)
              else
                (case answer of
                   None \<Rightarrow> ((AGENT_ERR_HTTP, cut (error_name AGENT_ERR_HTTP)), c1, files1)
                 | Some a \<Rightarrow>
                     (let (rc3, c2) = model_discovery_done env c1 a in
                      ((rc3, if rc3 = AGENT_OK then [] else cut (discovery_detail rc3 (Some a))), c2, files1))))
         | _ \<Rightarrow> ((AGENT_ERR_AUTH, cut (provider_auth_error p)), c1, files1)))"

section \<open>Discovery of all catalogs\<close>

definition configured_chatgpt_provider :: "run_env \<Rightarrow> file_store \<Rightarrow> string option" where
  "configured_chatgpt_provider env files =
     (case oauth_default_path (rn_getenv env) of
        None \<Rightarrow> None
      | Some path \<Rightarrow>
          if oauth_provider_configured (rn_read env) (rn_auth env) files path ''chatgpt'' then Some ''chatgpt''
          else if oauth_provider_configured (rn_read env) (rn_auth env) files path ''openai-codex'' then Some ''openai-codex''
          else None)"

definition config_has_chatgpt_model :: "config \<Rightarrow> string \<Rightarrow> bool" where
  "config_has_chatgpt_model c name \<longleftrightarrow>
     (\<exists>m \<in> set (cf_models c). provider_name_is_chatgpt (or_else (mc_provider m) (cf_provider c)) \<and> mc_name m = name)"

definition chatgpt_fallback :: "config \<Rightarrow> string \<Rightarrow> config" where
  "chatgpt_fallback c name =
     (if config_has_chatgpt_model c name then c
      else model_config_append c
        \<lparr>mc_name = name, mc_label = None, mc_provider = Some ''chatgpt'', mc_base_url = Some ''https://chatgpt.com/backend-api/codex'',
         mc_api_key_env = None, mc_auth = None, mc_protocol = Some ''responses'', mc_models_path = None,
         mc_context_window = DEFAULT_CONTEXT_WINDOW, mc_max_output = DEFAULT_MAX_OUTPUT, mc_subscription = True\<rparr>)"

definition config_add_chatgpt_fallbacks :: "run_env \<Rightarrow> file_store \<Rightarrow> config \<Rightarrow> config" where
  "config_add_chatgpt_fallbacks env files c =
     (if configured_chatgpt_provider env files = None then c
      else foldl chatgpt_fallback c [''gpt-5.6-sol'', ''gpt-5.6-terra''])"

definition discover_provider_probe :: "config \<Rightarrow> string \<Rightarrow> model_config option \<Rightarrow> config" where
  "discover_provider_probe source provider hint =
     (let is_default = (cf_provider source = Some provider); custom = custom_provider_find source provider;
          pick = (\<lambda>own top. or_else (Option.bind hint own) (if is_default then top else None)) in
      config_default\<lparr>cf_provider := Some provider,
        cf_base_url := or_else (Option.bind hint mc_base_url) (if is_default then cf_base_url source else map_option cp_base_url custom),
        cf_api_key_env := pick mc_api_key_env (cf_api_key_env source), cf_auth := pick mc_auth (cf_auth source),
        cf_protocol := or_else (Option.bind hint mc_protocol) (if is_default then cf_protocol source else map_option cp_protocol custom),
        cf_models_path := pick mc_models_path (cf_models_path source),
        cf_model_name := (if is_default then cf_model_name source else map_option mc_name hint)\<rparr>)"

definition append_failure :: "nat \<Rightarrow> string \<Rightarrow> string \<Rightarrow> string \<Rightarrow> string" where
  "append_failure cap out provider reason =
     (if length out + 1 \<ge> cap then out else out @ take (cap - length out - 1) (provider @ '': '' @ reason @ ''; ''))"

definition add_name :: "string list \<Rightarrow> string \<Rightarrow> string list" where
  "add_name names n = (if n \<in> set names then names else names @ [n])"

text \<open>The copies of the configured entries, each with its provider.\<close>

definition static_models :: "config \<Rightarrow> model_config list" where
  "static_models c = map (\<lambda>m. m\<lparr>mc_provider := or_else (mc_provider m) (cf_provider c)\<rparr>) (cf_models c)"

definition opencode_available :: "run_env \<Rightarrow> file_store \<Rightarrow> bool \<times> file_store" where
  "opencode_available env files =
     (let (p, files') = provider_new_auth (rn_read env) (rn_render env) (rn_auth env) (rn_post env) (rn_now env) (rn_getenv env) files
            ''https://opencode.ai/zen/go/v1'' (Some ''opencode-go'') (oauth_default_path (rn_getenv env)) (Some ''$OPENCODE_GO_API_KEY'') in
      (case Option.bind p pr_api_key of Some key \<Rightarrow> key \<noteq> [] | None \<Rightarrow> False, files'))"

definition discovery_providers :: "run_env \<Rightarrow> file_store \<Rightarrow> config \<Rightarrow> string list \<times> file_store" where
  "discovery_providers env files c =
     (let names = foldl add_name [case cf_provider c of None \<Rightarrow> [] | Some p \<Rightarrow> p]
                    (map (\<lambda>m. case mc_provider m of None \<Rightarrow> [] | Some p \<Rightarrow> p) (static_models c) @ map cp_name (cf_custom c));
          names1 = (case configured_chatgpt_provider env files of
                      Some p \<Rightarrow> if ''chatgpt'' \<in> set names \<or> ''openai-codex'' \<in> set names then names else names @ [p]
                    | None \<Rightarrow> names) in
      if ''opencode-go'' \<in> set names1 then (names1, files)
      else (let (ok, files') = opencode_available env files in (if ok then names1 @ [''opencode-go''] else names1, files')))"

text \<open>The loop over the providers; \<open>cancelled k\<close> is what the flag says before the \<open>k\<close>-th probe.\<close>

fun discover_each ::
  "run_env \<Rightarrow> (nat \<Rightarrow> bool) \<Rightarrow> nat \<Rightarrow> model_config list \<Rightarrow> string list \<Rightarrow> nat \<Rightarrow> config \<times> string \<times> file_store \<Rightarrow> config \<times> string \<times> file_store" where
  "discover_each env cancelled cap static [] k s = s"
| "discover_each env cancelled cap static (provider # providers) k (c, failures, files) =
     (if cancelled k then (c, failures, files)
      else
        (let own = filter (\<lambda>m. mc_provider m = Some provider) static;
             hint = (case own of [] \<Rightarrow> None | m # _ \<Rightarrow> Some m);
             ((rc, detail), probe, files1) = runtime_discover_models env files 128 (discover_provider_probe c provider hint) in
         discover_each env cancelled cap static providers (k + 1)
           (if rc = AGENT_OK then
              (c\<lparr>cf_model_name := (if cf_provider c = Some provider \<and> cf_model_name probe \<noteq> None then cf_model_name probe else cf_model_name c),
                 cf_models := cf_models c @ cf_models probe\<rparr>, failures, files1)
            else
              (c\<lparr>cf_models := cf_models c @ own\<rparr>,
               append_failure cap failures provider (if detail \<noteq> [] then detail else error_name rc), files1))))"

definition runtime_discover_all_models ::
  "run_env \<Rightarrow> (nat \<Rightarrow> bool) \<Rightarrow> nat \<Rightarrow> file_store \<Rightarrow> config \<Rightarrow> agent_error \<times> string \<times> config \<times> file_store" where
  "runtime_discover_all_models env cancelled cap files c =
     (let (rc, c1) = config_resolve_provider env files c in
      if rc \<noteq> AGENT_OK then (rc, [], c1, files)
      else
        (let (providers, files1) = discovery_providers env files c1;
             (c2, failures, files2) = discover_each env cancelled cap (static_models c1) providers 0 (c1\<lparr>cf_models := []\<rparr>, [], files1) in
         (AGENT_OK, failures, c2,
          snd (config_save_models_file (rn_render env) (rn_io env) (rn_getenv env ''HOME'') files2 c2))))"

section \<open>Assembly\<close>

text \<open>The copy that \<open>runtime_new\<close> makes of the configuration it is given.\<close>

definition copy_config :: "config \<Rightarrow> config" where
  "copy_config cfg =
     (let d = config_default; pos = (\<lambda>i dflt. if i > (0 :: int) then i else dflt);
          memory = (cf_memory_max_set cfg \<or> cf_memory_max cfg > 0) in
      d\<lparr>cf_provider := cf_provider cfg, cf_base_url := cf_base_url cfg, cf_api_key_env := cf_api_key_env cfg,
        cf_auth := cf_auth cfg, cf_protocol := cf_protocol cfg, cf_models_path := cf_models_path cfg,
        cf_model_name := cf_model_name cfg, cf_cwd := cf_cwd cfg,
        cf_max_tokens := pos (cf_max_tokens cfg) (cf_max_tokens d), cf_context_window := pos (cf_context_window cfg) (cf_context_window d),
        cf_context_window_set := cf_context_window_set cfg, cf_max_output := pos (cf_max_output cfg) (cf_max_output d),
        cf_subscription := cf_subscription cfg, cf_max_agents := pos (cf_max_agents cfg) (cf_max_agents d),
        cf_max_retries := (if cf_max_retries cfg \<ge> 0 then cf_max_retries cfg else cf_max_retries d),
        cf_memory_max := (if memory then cf_memory_max cfg else cf_memory_max d), cf_memory_max_set := memory,
        cf_models := cf_models cfg\<rparr>)"

text \<open>The name of the default model: without its provider, and the name behind a label.\<close>

definition normalize_model :: "config \<Rightarrow> config" where
  "normalize_model c =
     (case (cf_model_name c, cf_provider c) of
        (Some name, Some provider) \<Rightarrow>
          (let bare = strip_provider provider name in
           c\<lparr>cf_model_name := (case find (\<lambda>m. mc_label m = Some bare) (cf_models c) of Some m \<Rightarrow> Some (mc_name m) | None \<Rightarrow> Some bare)\<rparr>)
      | _ \<Rightarrow> c)"

definition carry_subscription :: "config \<Rightarrow> config" where
  "carry_subscription c =
     (case find (\<lambda>m. Some (mc_name m) = cf_model_name c) (cf_models c) of
        Some m \<Rightarrow> c\<lparr>cf_subscription := mc_subscription m\<rparr> | None \<Rightarrow> c)"

definition default_model :: "config \<Rightarrow> provider \<Rightarrow> string \<Rightarrow> live_model" where
  "default_model c p name =
     (let proto = (case cf_protocol c of Some s \<Rightarrow> s | None \<Rightarrow> if provider_is_oauth (Some p) then ''responses'' else ''openai'') in
      \<lparr>lm_name = name, lm_wire = wire_of proto, lm_window = cf_context_window c, lm_max_output = cf_max_output c,
       lm_window_verified = cf_context_window_set c\<rparr>)"

definition prepare_config :: "run_env \<Rightarrow> file_store \<Rightarrow> config \<Rightarrow> config" where
  "prepare_config env files c =
     (let c1 = config_add_chatgpt_fallbacks env files c in
      c1\<lparr>cf_model_name := or_else (cf_model_name c1) (Some ''glm-5.2''), cf_cwd := or_else (cf_cwd c1) (rn_cwd env)\<rparr>)"

definition runtime_new :: "run_env \<Rightarrow> file_store \<Rightarrow> config option \<Rightarrow> runtime_models option \<times> file_store" where
  "runtime_new env files cfg =
     (let (rc, c) = config_resolve_provider env files (case cfg of None \<Rightarrow> config_default | Some c \<Rightarrow> copy_config c) in
      if rc \<noteq> AGENT_OK then (None, files)
      else
        (let c1 = prepare_config env files c in
         case cf_base_url c1 of
           None \<Rightarrow> (None, files)
         | Some base \<Rightarrow>
             (let (p, files1) = provider_from_config env files base (cf_provider c1) (cf_api_key_env c1) (cf_auth c1);
                  c2 = carry_subscription (normalize_model c1) in
              case (p, cf_model_name c2) of
                (Some q, Some name) \<Rightarrow>
                  (let (rt, files2) = runtime_build_models env files1
                         \<lparr>rm_config = c2, rm_provider = q, rm_model = default_model c2 q name, rm_table = []\<rparr> in
                   (Some rt, files2))
              | _ \<Rightarrow> (None, files1))))"

section \<open>Endpoints and credentials\<close>

text \<open>An endpoint that a built-in vendor has is the vendor's own.\<close>

definition builtin_home :: "string option \<Rightarrow> string option \<Rightarrow> bool" where
  "builtin_home base provider \<longleftrightarrow>
     (\<forall>v. base \<noteq> None \<and> provider_builtin_base_url (Some v) = base \<longrightarrow> provider_builtin_base_url provider = base)"

definition MIMO_URL :: string where
  "MIMO_URL = ''https://api.xiaomimimo.com/v1''"

lemma builtin_base_home: "provider_builtin_base_url (Some p) = Some base \<Longrightarrow> builtin_home (Some base) (Some p)"
  by (simp add: builtin_home_def)

text \<open>The table of \<open>builtin_provider_for_base_url\<close> knows every built-in endpoint but Xiaomi's.\<close>

lemma base_url_known:
  assumes "provider_builtin_base_url (Some v) = Some base" and "base \<noteq> MIMO_URL"
  shows "\<exists>q. builtin_provider_for_base_url (Some base) = Some q \<and> provider_builtin_base_url (Some q) = Some base"
proof -
  have "base = ''https://opencode.ai/zen/go/v1'' \<or> base = ''https://api.openai.com/v1'' \<or>
     base = ''https://api.anthropic.com/v1'' \<or> base = ''https://chatgpt.com/backend-api/codex''"
    using assms by (auto simp: provider_builtin_base_url_def MIMO_URL_def split: if_splits)
  then show ?thesis
    by (elim disjE) (auto simp: builtin_provider_for_base_url_def provider_builtin_base_url_def mimo_names_def chatgpt_names_def)
qed

lemma names_equal_base: "provider_names_equal (Some q) (Some p) \<Longrightarrow> provider_builtin_base_url (Some p) = provider_builtin_base_url (Some q)"
  by (auto simp: provider_names_equal_def provider_name_is_chatgpt_def provider_builtin_base_url_def mimo_names_def chatgpt_names_def)

lemma resolve_builtin_home:
  assumes "resolve_builtin c = (AGENT_OK, c')" and "cf_provider c = Some p" and "provider_builtin_base_url (Some p) = Some base"
  shows "cf_provider c' = Some p \<and> (builtin_home (cf_base_url c') (Some p) \<or> cf_base_url c' = Some MIMO_URL)"
proof (cases "builtin_provider_for_base_url (cf_base_url c) \<noteq> None \<and> \<not> provider_names_equal (builtin_provider_for_base_url (cf_base_url c)) (Some p)")
  case True
  then have "cf_base_url c' = Some base \<and> cf_provider c' = Some p"
    using assms by (auto simp: resolve_builtin_def drop_stale_def Let_def or_else_def)
  with builtin_base_home [OF assms(3)] show ?thesis by simp
next
  case False
  then have d: "drop_stale c = c" using assms(2) by (auto simp: drop_stale_def Let_def)
  have c': "cf_base_url c' = or_else (cf_base_url c) (Some base)" "cf_provider c' = Some p"
    using assms by (auto simp: resolve_builtin_def d Let_def)
  show ?thesis
  proof (cases "cf_base_url c")
    case None
    with c' builtin_base_home [OF assms(3)] show ?thesis by (simp add: or_else_def)
  next
    case (Some b)
    have "builtin_home (Some b) (Some p)" if "b \<noteq> MIMO_URL"
      unfolding builtin_home_def
    proof (intro allI impI)
      fix v assume "Some b \<noteq> None \<and> provider_builtin_base_url (Some v) = Some b"
      with base_url_known [OF _ that] obtain q where q: "builtin_provider_for_base_url (Some b) = Some q"
        "provider_builtin_base_url (Some q) = Some b" by blast
      with False Some have "provider_names_equal (Some q) (Some p)" by simp
      from names_equal_base [OF this] q(2) show "provider_builtin_base_url (Some p) = Some b" by simp
    qed
    with Some c' show ?thesis by (auto simp: or_else_def)
  qed
qed

text \<open>C12: the token of a built-in provider does not reach the endpoint of another one, with one exception.  When the
  configuration is resolved, an endpoint left over from another built-in provider is gone, and every model entry of a built-in
  provider that names no endpoint itself (\<open>mc_base_url = None\<close>) uses the endpoint of its own provider or one that no built-in
  provider has; the exception is the endpoint of Xiaomi, which the configuration keeps under any provider.\<close>

theorem builtin_endpoints_match:
  assumes "config_resolve_provider env files c = (AGENT_OK, c')" and "cf_provider c' = Some p0"
    and "provider_builtin_base_url (Some p0) \<noteq> None" and "mc_base_url mc = None" and "or_else (mc_provider mc) (cf_provider c') = Some p"
    and "provider_builtin_base_url (Some p) \<noteq> None"
  shows "(builtin_home (cf_base_url c') (Some p0) \<or> cf_base_url c' = Some MIMO_URL) \<and>
         (builtin_home (entry_base c' mc) (Some p) \<or> p = p0 \<and> entry_base c' mc = Some MIMO_URL)"
proof -
  obtain rc c1 where l: "config_load_custom_providers (rn_read env) (rn_io env) (rn_getenv env ''HOME'') files c = (rc, c1)"
    by (metis surj_pair)
  define c2 where "c2 = choose_provider env files c1"
  have "cf_provider c2 \<noteq> None" by (simp add: c2_def choose_provider_def split: option.split)
  then obtain q where q: "cf_provider c2 = Some q" by blast
  have kept: "cf_provider c' = Some q \<and> (provider_builtin_base_url (Some q) \<noteq> None \<longrightarrow> resolve_builtin c2 = (AGENT_OK, c'))"
    using assms(1) l q
    by (auto simp: config_resolve_provider_def c2_def [symmetric] resolve_builtin_def drop_stale_def resolve_registry_def Let_def
        split: if_splits option.splits file_answer.splits)
  with assms(2,3) obtain base where b: "provider_builtin_base_url (Some q) = Some base" "q = p0" by auto
  with kept resolve_builtin_home [OF _ q b(1), of c']
  have h: "builtin_home (cf_base_url c') (Some p0) \<or> cf_base_url c' = Some MIMO_URL" by simp
  moreover have "builtin_home (entry_base c' mc) (Some p) \<or> p = p0 \<and> entry_base c' mc = Some MIMO_URL"
  proof (cases "p = p0")
    case True
    with assms(2,4,5) h show ?thesis by (simp add: entry_base_def or_else_def)
  next
    case False
    obtain pb where pb: "provider_builtin_base_url (Some p) = Some pb" using assms(6) by blast
    with False assms(2,4,5) have "entry_base c' mc = Some pb" by (simp add: entry_base_def or_else_def)
    with builtin_base_home [OF pb] show ?thesis by simp
  qed
  ultimately show ?thesis ..
qed

text \<open>The exception is real: the table of \<open>builtin_provider_for_base_url\<close> has no entry for Xiaomi, so this endpoint is kept
  under another built-in provider, together with that provider's key.\<close>

theorem mimo_endpoint_kept:
  assumes "cf_provider c = Some ''openai''" and "cf_base_url c = Some MIMO_URL" and "cf_api_key_env c = None"
  shows "cf_base_url (snd (resolve_builtin c)) = Some MIMO_URL \<and>
         cf_api_key_env (snd (resolve_builtin c)) = provider_builtin_key_env (Some ''openai'') \<and>
         \<not> builtin_home (Some MIMO_URL) (Some ''openai'')"
proof -
  have n: "builtin_provider_for_base_url (Some MIMO_URL) = None"
    by (simp add: builtin_provider_for_base_url_def provider_builtin_base_url_def MIMO_URL_def mimo_names_def chatgpt_names_def)
  have "provider_builtin_base_url (Some ''mimo'') = Some MIMO_URL" "provider_builtin_base_url (Some ''openai'') \<noteq> Some MIMO_URL"
    by (simp_all add: provider_builtin_base_url_def MIMO_URL_def mimo_names_def)
  then have "\<not> builtin_home (Some MIMO_URL) (Some ''openai'')" by (auto simp: builtin_home_def)
  with assms n show ?thesis by (simp add: resolve_builtin_def drop_stale_def or_else_def Let_def)
qed

text \<open>A model of a provider that is not built in and that names no endpoint is sent to the endpoint of the selected provider,
  with the key that \<open>auth.json\<close> holds for its own provider.\<close>

theorem foreign_key_sent:
  assumes "mc_provider mc = Some v" and "provider_builtin_base_url (Some v) = None" and "cf_provider c = Some p0" and "v \<noteq> p0"
    and "mc_base_url mc = None" and "cf_base_url c = Some base" and "v \<notin> chatgpt_names"
    and "auth_file_load (rn_read env) (rn_auth env) files (oauth_default_path (rn_getenv env)) (Some v) =
           (AGENT_OK, \<lparr>ae_type = Some ''api_key'', ae_provider = None, ae_key_env = None, ae_key = Some (ch # key)\<rparr>)"
    and "ch \<noteq> CHR ''$''"
  shows "\<exists>p m. build_table env c files [mc] = ([(p, m)], files) \<and> pr_base_url p = base \<and> pr_api_key p = Some (ch # key)"
proof -
  have base: "entry_base c mc = Some base" using assms(1-6) by (simp add: entry_base_def or_else_def)
  have n: "\<not> provider_name_is_chatgpt (Some v)" "v \<noteq> ''opencode-go''"
    using assms(2,7) by (auto simp: provider_name_is_chatgpt_def chatgpt_names_def provider_builtin_base_url_def)
  have "\<exists>p. provider_from_config env files base (Some v) (entry_key_env c mc) (entry_auth c mc) = (Some p, files) \<and>
      pr_base_url p = base \<and> pr_api_key p = Some (ch # key)"
    using assms(8,9) n by (simp add: provider_from_config_def provider_new_auth_def key_source_def provider_new_def provider_alloc_def Let_def)
  with base assms(1) show ?thesis by (auto simp: or_else_def)
qed

section \<open>Selectors name models\<close>

lemma selector_length: "runtime_model_selector rt p m cap = Some s \<Longrightarrow> length s < cap"
  by (auto simp: runtime_model_selector_def Let_def split: if_splits)

text \<open>A model of the runtime with its provider.\<close>

fun model_at :: "runtime_models \<Rightarrow> model_ref \<Rightarrow> provider \<times> live_model" where
  "model_at rt Default_Model = (rm_provider rt, rm_model rt)"
| "model_at rt (Table_Model i) = rm_table rt ! i"

definition model_refs :: "runtime_models \<Rightarrow> model_ref list" where
  "model_refs rt = Default_Model # map Table_Model [0..<length (rm_table rt)]"

definition selector_of :: "runtime_models \<Rightarrow> model_ref \<Rightarrow> string option" where
  "selector_of rt r = runtime_model_selector rt (fst (model_at rt r)) (snd (model_at rt r)) AUTH_PATH_MAX"

text \<open>No model has \<open>s\<close> as its selector, its bare name or, as far as the table is aligned with the entries, its label.\<close>

definition names_it :: "runtime_models \<Rightarrow> string \<Rightarrow> model_ref \<Rightarrow> bool" where
  "names_it rt s r \<longleftrightarrow>
     selector_of rt r = Some s \<or> lm_name (snd (model_at rt r)) = s \<or>
     (case r of Default_Model \<Rightarrow> False
      | Table_Model i \<Rightarrow> i < length (cf_models (rm_config rt)) \<and> mc_label (cf_models (rm_config rt) ! i) = Some s)"

lemma by_name_first: "runtime_model_by_name rt s = find (names_it rt s) (model_refs rt)"
proof -
  have t: "find P (map f xs) = map_option f (find (P \<circ> f) xs)" for P f and xs :: "nat list"
    by (induction xs) auto
  have "names_it rt s \<circ> Table_Model = table_matches rt s"
    by (auto simp: fun_eq_iff names_it_def table_matches_def runtime_model_matches_def selector_of_def)
  then show ?thesis
    by (simp add: runtime_model_by_name_def model_refs_def t names_it_def runtime_model_matches_def selector_of_def)
qed

text \<open>A selector leads back to its model.  \<open>runtime_model_by_name\<close> finds the first model, the default one before the table, of which
  the text is the selector, the bare name or the label; so the selector of a model finds that model whenever it means no other.\<close>

theorem selector_finds_model:
  assumes "r \<in> set (model_refs rt)" and "selector_of rt r = Some s" and "\<And>r'. r' \<in> set (model_refs rt) \<Longrightarrow> names_it rt s r' \<Longrightarrow> r' = r"
  shows "runtime_model_by_name rt s = Some r"
proof -
  from assms(2) have n: "names_it rt s r" by (simp add: names_it_def)
  have "find (names_it rt s) xs = Some r" if "r \<in> set xs" "\<And>r'. r' \<in> set xs \<Longrightarrow> names_it rt s r' \<Longrightarrow> r' = r" for xs
    using that
  proof (induction xs)
    case (Cons x xs)
    show ?case
    proof (cases "names_it rt s x")
      case True
      with Cons.prems(2) [of x] show ?thesis by simp
    next
      case False
      with n Cons.prems(1) have "r \<in> set xs" by auto
      from Cons.IH [OF this] Cons.prems(2) False show ?thesis by simp
    qed
  qed simp
  from this [OF assms(1,3)] show ?thesis by (simp add: by_name_first)
qed

lemma build_table_length: "length (fst (build_table env c fs xs)) \<le> length xs"
proof (induction xs arbitrary: fs)
  case (Cons x xs)
  show ?case
  proof (cases "entry_base c x")
    case None
    with Cons.IH [of fs] show ?thesis by (simp add: le_SucI)
  next
    case (Some base)
    obtain p fs1 where "provider_from_config env fs base (or_else (mc_provider x) (cf_provider c)) (entry_key_env c x) (entry_auth c x) = (p, fs1)"
      by (metis surj_pair)
    with Some Cons.IH [of fs1] show ?thesis by (cases p) (simp_all add: split_beta le_SucI)
  qed
qed simp

text \<open>A table in which no entry was skipped.\<close>

lemma build_table_names:
  "length (fst (build_table env c fs xs)) = length xs \<Longrightarrow> map (lm_name \<circ> snd) (fst (build_table env c fs xs)) = map mc_name xs"
proof (induction xs arbitrary: fs)
  case (Cons x xs)
  show ?case
  proof (cases "entry_base c x")
    case None
    with Cons.prems build_table_length [of env c fs xs] show ?thesis by simp
  next
    case (Some base)
    obtain p fs1 where p: "provider_from_config env fs base (or_else (mc_provider x) (cf_provider c)) (entry_key_env c x) (entry_auth c x) = (p, fs1)"
      by (metis surj_pair)
    from Some p Cons.prems Cons.IH [of fs1] build_table_length [of env c fs1 xs] show ?thesis
      by (cases p) (simp_all add: split_beta table_model_def)
  qed
qed simp

text \<open>Once an entry of the configuration was skipped because its provider has no credentials, the labels of the entries
  after it mean the models one place further on.\<close>

theorem label_shifted:
  assumes "cf_models (rm_config rt0) = [a, b, d]" and "mc_label b = Some s"
    and "runtime_build_models env files rt0 = (rt, files')" and "length (rm_table rt) = 2"
    and "\<And>fs. fst (build_table env (rm_config rt0) fs [a]) = []"
    and "\<not> names_it rt s Default_Model" and "\<not> names_it rt s (Table_Model 0)"
  shows "runtime_model_by_name rt s = Some (Table_Model 1) \<and> lm_name (snd (model_at rt (Table_Model 1))) = mc_name d"
proof -
  have f: "cf_models (rm_config rt) = [a, b, d]" "rm_table rt = fst (build_table env (rm_config rt0) files [a, b, d])"
    using assms(1,3) by (auto simp: runtime_build_models_def split_beta)
  have skip: "\<exists>fs. build_table env (rm_config rt0) files (a # xs) = build_table env (rm_config rt0) fs xs" for xs
    using assms(5) [of files] by (auto simp: split_beta split: option.splits)
  obtain fs where t: "rm_table rt = fst (build_table env (rm_config rt0) fs [b, d])" using skip [of "[b, d]"] f(2) by auto
  have "map (lm_name \<circ> snd) (rm_table rt) = [mc_name b, mc_name d]"
    using build_table_names [of env "rm_config rt0" fs "[b, d]"] assms(4) by (simp add: t)
  then have "lm_name (snd (rm_table rt ! 1)) = mc_name d" using assms(4)
    by (cases "rm_table rt"; cases "tl (rm_table rt)") auto
  moreover have "names_it rt s (Table_Model 1)" using f(1) assms(2) by (simp add: names_it_def)
  moreover have "model_refs rt = [Default_Model, Table_Model 0, Table_Model 1]" using assms(4) by (simp add: model_refs_def upt_rec)
  ultimately show ?thesis using assms(6,7) by (simp add: by_name_first)
qed

section \<open>Discovered catalogs\<close>

lemma add_discovered_ok:
  "distinct (map mc_name es) \<and> (\<forall>e \<in> set es. e \<in> range (\<lambda>(n, v). discovered_entry c n v)) \<Longrightarrow>
   distinct (map mc_name (add_discovered c es item)) \<and> (\<forall>e \<in> set (add_discovered c es item). e \<in> range (\<lambda>(n, v). discovered_entry c n v))"
  by (auto simp: add_discovered_def discovered_entry_def split: option.splits intro: range_eqI [of _ _ "(_, _)"])

lemma discovered_entries_ok:
  "distinct (map mc_name es) \<and> (\<forall>e \<in> set es. e \<in> range (\<lambda>(n, v). discovered_entry c n v)) \<Longrightarrow>
   distinct (map mc_name (foldl (add_discovered c) es items)) \<and>
   (\<forall>e \<in> set (foldl (add_discovered c) es items). e \<in> range (\<lambda>(n, v). discovered_entry c n v))"
proof (induction items arbitrary: es)
  case (Cons item items)
  from Cons.IH [OF add_discovered_ok [OF Cons.prems, of item]] show ?case by simp
qed simp

lemma select_model_listed: "es \<noteq> [] \<Longrightarrow> \<exists>e \<in> set es. select_model es s = Some (mc_name e)"
proof (cases "Option.bind s (\<lambda>s. find (selects s) es)")
  case None
  assume "es \<noteq> []"
  with None show ?thesis by (intro bexI [of _ "hd es"]) (simp_all add: select_model_def)
next
  case (Some e)
  then have "e \<in> set es" by (auto simp: find_Some_iff split: bind_splits)
  with Some show ?thesis by (auto simp: select_model_def)
qed

text \<open>A discovered catalog is usable: it is not empty, no name is listed twice, every entry has the provider, endpoint and protocol
  it was asked from, and the model that is selected afterwards is one of them.\<close>

theorem discovery_selects_listed:
  assumes "model_discovery_done env c a = (AGENT_OK, c')"
  shows "cf_models c' \<noteq> [] \<and> distinct (map mc_name (cf_models c')) \<and>
    (\<exists>m \<in> set (cf_models c'). cf_model_name c' = Some (mc_name m)) \<and>
    (\<forall>m \<in> set (cf_models c'). mc_provider m = cf_provider c \<and> mc_base_url m = cf_base_url c \<and> mc_protocol m = cf_protocol c \<and>
       mc_provider m \<noteq> None \<and> mc_base_url m \<noteq> None \<and> mc_protocol m \<noteq> None)"
proof -
  from assms obtain items where i: "cf_models c' = foldl (add_discovered c) [] items" "cf_models c' \<noteq> []"
    "cf_provider c \<noteq> None" "cf_base_url c \<noteq> None" "cf_protocol c \<noteq> None" "cf_model_name c' = select_model (cf_models c') (cf_model_name c)"
    by (auto simp: model_discovery_done_def Let_def split: if_splits option.splits json.splits)
  have "distinct (map mc_name (cf_models c')) \<and> (\<forall>e \<in> set (cf_models c'). e \<in> range (\<lambda>(n, v). discovered_entry c n v))"
    unfolding i(1) by (rule discovered_entries_ok) simp
  moreover have "\<exists>m \<in> set (cf_models c'). cf_model_name c' = Some (mc_name m)" using select_model_listed [OF i(2)] i(6) by metis
  ultimately show ?thesis using i(2-5) by (auto simp: discovered_entry_def)
qed

section \<open>What discovery does to the configured entries\<close>

text \<open>No request is answered.\<close>

definition offline :: "run_env \<Rightarrow> bool" where
  "offline env \<longleftrightarrow>
     (\<forall>url headers. fst (rn_get env url headers) \<noteq> AGENT_OK \<or>
        (case snd (rn_get env url headers) of None \<Rightarrow> True | Some a \<Rightarrow> ha_error a \<noteq> None))"

lemma offline_fails:
  assumes "offline env"
  shows "fst (fst (runtime_discover_models env files cap c)) \<noteq> AGENT_OK"
proof -
  obtain rc c1 where r: "config_resolve_provider env files c = (rc, c1)" by (metis surj_pair)
  obtain p files1 where p: "provider_from_config env files (case cf_base_url c1 of None \<Rightarrow> [] | Some b \<Rightarrow> b)
      (cf_provider c1) (cf_api_key_env c1) (cf_auth c1) = (p, files1)" by (metis surj_pair)
  show ?thesis
  proof (cases "rc = AGENT_OK \<and> p \<noteq> None \<and> Option.bind p pr_api_key \<noteq> None")
    case False
    then show ?thesis by (auto simp: runtime_discover_models_def r p Let_def split: option.splits)
  next
    case True
    then obtain q key where q: "p = Some q" "pr_api_key q = Some key" by auto
    obtain rc2 answer where g: "rn_get env (models_url c1 q) (models_headers c1 q key) = (rc2, answer)" by (metis surj_pair)
    with assms have "rc2 \<noteq> AGENT_OK \<or> (case answer of None \<Rightarrow> True | Some a \<Rightarrow> ha_error a \<noteq> None)"
      unfolding offline_def by (metis fst_conv snd_conv)
    with True q g show ?thesis
      by (auto simp: runtime_discover_models_def r p Let_def model_discovery_done_def split: option.splits)
  qed
qed

lemma offline_each:
  assumes "offline env"
  shows "cf_models (fst (discover_each env (\<lambda>_. False) cap static providers k (c, failures, files))) =
    cf_models c @ concat (map (\<lambda>p. filter (\<lambda>m. mc_provider m = Some p) static) providers)"
proof (induction providers arbitrary: k c failures files)
  case (Cons p providers)
  let ?own = "filter (\<lambda>m. mc_provider m = Some p) static"
  obtain rc detail probe files1 where d: "runtime_discover_models env files 128
      (discover_provider_probe c p (case ?own of [] \<Rightarrow> None | m # _ \<Rightarrow> Some m)) = ((rc, detail), probe, files1)" by (metis prod_cases3 surj_pair)
  have "rc \<noteq> AGENT_OK" using offline_fails [OF assms(1)] d by (metis fst_conv)
  with d show ?case by (simp add: Let_def Cons.IH)
qed simp

lemma add_names_set: "set (foldl add_name ns xs) = set ns \<union> set xs"
  by (induction xs arbitrary: ns) (auto simp: add_name_def)

lemma static_provider_probed:
  assumes "m \<in> set (static_models c)" and "mc_provider m = Some p"
  shows "p \<in> set (fst (discovery_providers env files c))"
proof -
  from assms have "p \<in> set (map (\<lambda>m. case mc_provider m of None \<Rightarrow> [] | Some p \<Rightarrow> p) (static_models c))" by force
  then show ?thesis by (auto simp: discovery_providers_def add_names_set Let_def split_beta split: option.splits)
qed

text \<open>Without a network no configured entry is lost, each keeps its endpoint; but if one of them has no endpoint or no protocol of its
  own, the catalog that discovery hands back is refused as if memory were exhausted, and the runtime keeps its old table.\<close>

theorem offline_catalog_refused:
  assumes "config_resolve_provider env files c = (AGENT_OK, c1)" and "cf_provider c1 \<noteq> None" and "offline env"
    and "mc \<in> set (cf_models c1)" and "mc_base_url mc = None \<or> mc_protocol mc = None"
  shows "\<exists>failures c2 files'. runtime_discover_all_models env (\<lambda>_. False) cap files c = (AGENT_OK, failures, c2, files') \<and>
     set (cf_models c2) = set (static_models c1) \<and> runtime_apply_catalog env fs rt c2 = (AGENT_ERR_OOM, rt, fs)"
proof -
  obtain providers files1 where p: "discovery_providers env files c1 = (providers, files1)" by (metis surj_pair)
  obtain c2 failures files2 where e: "discover_each env (\<lambda>_. False) cap (static_models c1) providers 0 (c1\<lparr>cf_models := []\<rparr>, [], files1) =
      (c2, failures, files2)" by (metis prod_cases3)
  have m: "cf_models c2 = concat (map (\<lambda>p. filter (\<lambda>m. mc_provider m = Some p) (static_models c1)) providers)"
    using offline_each [OF assms(3), of cap "static_models c1" providers 0 "c1\<lparr>cf_models := []\<rparr>" "[]" files1] e by simp
  have own: "\<exists>p. mc_provider m = Some p" if "m \<in> set (static_models c1)" for m
    using that assms(2) by (auto simp: static_models_def or_else_def split: option.splits)
  have "\<exists>p \<in> set providers. mc_provider m = Some p" if "m \<in> set (static_models c1)" for m
    using own [OF that] static_provider_probed [OF that] p by (metis fst_conv)
  then have all: "set (cf_models c2) = set (static_models c1)" by (auto simp: m)
  have "mc\<lparr>mc_provider := or_else (mc_provider mc) (cf_provider c1)\<rparr> \<in> set (cf_models c2)"
    using assms(4) by (auto simp: all static_models_def)
  then have "\<exists>m \<in> set (cf_models c2). mc_provider m = None \<or> mc_base_url m = None \<or> mc_protocol m = None"
    by (rule rev_bexI) (use assms(5) in auto)
  then have "runtime_apply_catalog env fs rt c2 = (AGENT_ERR_OOM, rt, fs)" by (simp add: runtime_apply_catalog_def)
  with all show ?thesis using assms(1) p e by (simp add: runtime_discover_all_models_def)
qed

text \<open>A discovery that is cancelled before its first probe reports success with an empty catalog, and replaces the cached
  catalogs of \<open>models.json\<close> by an empty document.\<close>

theorem cancelled_discovery_erases:
  assumes "config_resolve_provider env files c = (AGENT_OK, c1)" and "cancelled 0"
    and "config_home_file (rn_getenv env ''HOME'') ''models.json'' = Some path"
    and "\<And>fs. fst (config_write_json (rn_render env) (rn_io env) fs path (JObj [])) = AGENT_OK"
  shows "\<exists>failures c2 files' out1. runtime_discover_all_models env cancelled cap files c = (AGENT_OK, failures, c2, files') \<and>
     cf_models c2 = [] \<and> rn_render env (JObj []) = Some out1 \<and> files' path = Some (out1 @ [CHR 0x0A])"
proof -
  obtain providers files1 where p: "discovery_providers env files c1 = (providers, files1)" by (metis surj_pair)
  have e: "discover_each env cancelled cap (static_models c1) providers 0 (c1\<lparr>cf_models := []\<rparr>, [], files1) = (c1\<lparr>cf_models := []\<rparr>, [], files1)"
    using assms(2) by (cases providers) simp_all
  obtain files' where w: "config_write_json (rn_render env) (rn_io env) files1 path (JObj []) = (AGENT_OK, files')"
    using assms(4) [of files1] by (metis prod.collapse)
  have "config_save_models_file (rn_render env) (rn_io env) (rn_getenv env ''HOME'') files1 (c1\<lparr>cf_models := []\<rparr>) = (AGENT_OK, files')"
    using assms(3) w by (simp add: config_save_models_file_def catalog_json_def)
  with e p assms(1) write_json_cases [OF w] show ?thesis by (simp add: runtime_discover_all_models_def)
qed

text \<open>No step of the assembly sets the thinking level.\<close>

lemma keeps_thinking_simps [simp]:
  "cf_thinking_level (custom_add_model n b pr mp c v) = cf_thinking_level c"
  "cf_thinking_level (fill_endpoint n b pr mp c) = cf_thinking_level c"
  "cf_thinking_level (custom_provider_add_meta c n b pr) = cf_thinking_level c"
  "cf_thinking_level (choose_provider env files c) = cf_thinking_level c"
  "cf_thinking_level (chatgpt_fallback c n) = cf_thinking_level c"
  "cf_thinking_level (normalize_model c) = cf_thinking_level c"
  "cf_thinking_level (carry_subscription c) = cf_thinking_level c"
  "cf_thinking_level (drop_stale c) = cf_thinking_level c"
  by (auto simp: custom_add_model_def fill_endpoint_def custom_provider_add_meta_def choose_provider_def chatgpt_fallback_def
      normalize_model_def carry_subscription_def drop_stale_def model_config_append_def select_first_def Let_def split: option.splits)

lemma keeps_thinking_fold [simp]: "cf_thinking_level (foldl (custom_add_model n b pr mp) c vs) = cf_thinking_level c"
  by (induction vs arbitrary: c) simp_all

lemma keeps_thinking_spec [simp]: "cf_thinking_level (snd (custom_provider_add_spec n v c)) = cf_thinking_level c"
  by (auto simp: custom_provider_add_spec_def Let_def split: option.splits json.splits)

lemma keeps_thinking_specs [simp]: "cf_thinking_level (snd (add_specs vs c)) = cf_thinking_level c"
proof (induction vs arbitrary: c)
  case (Cons v vs)
  then show ?case using keeps_thinking_spec [of None v c] by (auto simp: split_beta)
qed simp

lemma keeps_thinking_members [simp]: "cf_thinking_level (snd (foreach_members custom_provider_map_entry kvs c)) = cf_thinking_level c"
proof (induction kvs arbitrary: c)
  case (Cons kv kvs)
  then show ?case using keeps_thinking_spec [of "Some (fst kv)" "snd kv" c] by (cases kv) (auto simp: split_beta custom_provider_map_entry_def)
qed simp

lemma keeps_thinking_load [simp]: "cf_thinking_level (snd (config_load_custom_providers r io h f c)) = cf_thinking_level c"
  by (auto simp: config_load_custom_providers_def load_custom_root_def split: option.splits json.splits file_answer.splits)

lemma keeps_thinking_resolve: "cf_thinking_level (snd (config_resolve_provider env files c)) = cf_thinking_level c"
proof -
  obtain rc c1 where l: "config_load_custom_providers (rn_read env) (rn_io env) (rn_getenv env ''HOME'') files c = (rc, c1)" by (metis surj_pair)
  then have "cf_thinking_level c1 = cf_thinking_level c" using keeps_thinking_load by (metis snd_conv)
  with l show ?thesis
    by (auto simp: config_resolve_provider_def resolve_builtin_def resolve_registry_def Let_def split: option.splits file_answer.splits)
qed

lemma runtime_without_thinking:
  assumes "runtime_new env files (Some cfg) = (Some rt, files1)"
  shows "cf_thinking_level (rm_config rt) = None"
proof -
  obtain rc c where r: "config_resolve_provider env files (copy_config cfg) = (rc, c)" by (metis surj_pair)
  then have "cf_thinking_level c = None"
    using keeps_thinking_resolve [of env files "copy_config cfg"] by (simp add: copy_config_def config_default_def Let_def)
  then have "cf_thinking_level (prepare_config env files c) = None"
    by (simp add: prepare_config_def config_add_chatgpt_fallbacks_def Let_def)
  moreover have "rm_config rt = carry_subscription (normalize_model (prepare_config env files c))"
  proof (cases "cf_base_url (prepare_config env files c)")
    case None
    then show ?thesis using assms r by (simp add: runtime_new_def split: if_splits)
  next
    case (Some base)
    define c1 where "c1 = prepare_config env files c"
    obtain p fs where p: "provider_from_config env files base (cf_provider c1) (cf_api_key_env c1) (cf_auth c1) = (p, fs)" by (metis surj_pair)
    have "cf_base_url c1 = Some base" using Some by (simp add: c1_def)
    with assms r p show ?thesis
      unfolding c1_def [symmetric]
      by (cases p; cases "cf_model_name (carry_subscription (normalize_model c1))")
        (auto simp: runtime_new_def runtime_build_models_def split_beta c1_def [symmetric] Let_def split: if_splits)
  qed
  ultimately show ?thesis by simp
qed

lemma keeps_thinking_rest: "cf_thinking_level (adopt_legacy (load_models r (load_numbers r (infer_provider r c)))) = cf_thinking_level c"
proof -
  have "cf_thinking_level (infer_provider r c) = cf_thinking_level c"
    by (simp add: infer_provider_def Let_def split: option.splits)
  moreover have "cf_thinking_level (load_numbers r c) = cf_thinking_level c" for c by (simp add: load_numbers_def Let_def)
  moreover have "cf_thinking_level (load_models r c) = cf_thinking_level c" for c by (simp add: load_models_def Let_def split: option.splits json.splits)
  moreover have "cf_thinking_level (adopt_legacy c) = cf_thinking_level c" for c by (simp add: adopt_legacy_def Let_def)
  ultimately show ?thesis by simp
qed

text \<open>The thinking level of the configuration does not survive the choice of a model: the runtime has no copy of it, and saving the
  selection with the runtime's copy, as the application does, removes it from the file.\<close>

theorem thinking_level_lost:
  assumes "runtime_new env files (Some cfg) = (Some rt, files1)"
    and "config_save_selection_with_thinking render io files1 (Some path) (Some provider) (Some model) (cf_thinking_level (rm_config rt)) = (AGENT_OK, files2)"
    and "no_nul provider" and "no_nul model" and "reads_back read render" and "config_readable io' files2 path" and "cf_thinking_level c = None"
  shows "\<exists>c'. config_load_file read io' files2 (Some path) c = (AGENT_OK, c') \<and> cf_thinking_level c' = None"
proof -
  define s where "s = (if CHR ''/'' \<notin> set model then provider @ ''/'' @ model else model)"
  have "config_save_selection_impl render io files1 (Some path) (Some provider) (Some model) None True = (AGENT_OK, files2)"
    using assms(2) runtime_without_thinking [OF assms(1)] by (simp add: config_save_selection_with_thinking_def)
  from save_selection_writes [OF this] s_def have w: "config_write_json render io files1 path (selection_json s None) = (AGENT_OK, files2)" by simp
  from saved_reads_back [OF w assms(5,6)] obtain data where d: "slurp io' files2 path = Bytes data (ci_read_close io')"
    "read data = Some (selection_json s None)" by blast
  let ?r = "Some (selection_json s None)"
  let ?c = "adopt_legacy (load_models ?r (load_numbers ?r (infer_provider ?r (load_strings ?r c))))"
  have "c_get_str ?r k = None" if "k \<noteq> ''model''" for k
    using that by (simp add: selection_json_def c_get_str_def json_simps)
  then have "cf_thinking_level (load_strings ?r c) = None" using assms(7) by (simp add: load_strings_def Let_def)
  then have none: "cf_thinking_level ?c = None" by (simp only: keeps_thinking_rest)
  have "json_val_is_obj ?r" by (simp add: selection_json_def json_val_is_obj_def)
  with d have "config_load_file read io' files2 (Some path) c = (AGENT_OK, ?c)"
    by (simp only: config_load_file_def json_parse_def, simp, simp only: Let_def)
  with none show ?thesis by blast
qed

section \<open>Samples\<close>

text \<open>A machine with the directory \<open>/h\<close>, no files and one server that lists two models.\<close>

definition listing :: json where
  "listing = JObj [(''data'', JArr [JObj [(''id'', JStr ''m1'')], JObj [(''id'', JStr ''m1'')], JObj [(''id'', JStr ''m2'')]])]"

definition plain_env :: run_env where
  "plain_env = \<lparr>rn_read = (\<lambda>s. if s = ''list'' then Some listing else None), rn_render = (\<lambda>_. Some ''{}''), rn_auth = smooth_auth,
     rn_io = smooth_config, rn_post = sample_post, rn_now = 0, rn_getenv = (\<lambda>n. if n = ''HOME'' then Some ''/h'' else None),
     rn_cwd = None, rn_get = (\<lambda>_ _. (AGENT_OK, None))\<rparr>"

definition stale_config :: config where
  "stale_config = config_default\<lparr>cf_provider := Some ''anthropic'', cf_base_url := Some ''https://api.openai.com/v1'', cf_protocol := Some ''openai''\<rparr>"

definition openai_entry :: model_config where
  "openai_entry = \<lparr>mc_name = ''gpt'', mc_label = Some ''G'', mc_provider = Some ''openai'', mc_base_url = None,
     mc_api_key_env = None, mc_auth = None, mc_protocol = None, mc_models_path = None, mc_context_window = 0, mc_max_output = 0,
     mc_subscription = False\<rparr>"

lemma plain_resolves:
  "provider_builtin_base_url (cf_provider c) \<noteq> None \<Longrightarrow> cf_provider c \<noteq> None \<Longrightarrow>
    config_resolve_provider plain_env (\<lambda>_. None) c = resolve_builtin c"
  by (auto simp: config_resolve_provider_def config_load_custom_providers_def plain_env_def home_file_def AUTH_PATH_MAX_def
      slurp_def choose_provider_def split: if_splits)

lemma stale_resolved:
  "config_resolve_provider plain_env (\<lambda>_. None) stale_config =
    (AGENT_OK, stale_config\<lparr>cf_base_url := Some ''https://api.anthropic.com/v1'', cf_protocol := Some ''anthropic'',
       cf_api_key_env := provider_builtin_key_env (Some ''anthropic'')\<rparr>)"
  by (simp add: plain_resolves stale_config_def config_default_def provider_builtin_base_url_def resolve_builtin_def drop_stale_def
      builtin_provider_for_base_url_def provider_names_equal_def provider_name_is_chatgpt_def or_else_def
      provider_builtin_protocol_def mimo_names_def chatgpt_names_def)

theorem builtin_endpoints_match_witness:
  "builtin_home (Some ''https://api.anthropic.com/v1'') (Some ''anthropic'') \<and>
   builtin_home (entry_base (snd (config_resolve_provider plain_env (\<lambda>_. None) stale_config)) openai_entry) (Some ''openai'')"
proof -
  have "cf_provider (snd (config_resolve_provider plain_env (\<lambda>_. None) stale_config)) = Some ''anthropic''"
    and b: "cf_base_url (snd (config_resolve_provider plain_env (\<lambda>_. None) stale_config)) = Some ''https://api.anthropic.com/v1''"
    by (simp_all add: stale_resolved) (simp add: stale_config_def)
  moreover have "mc_base_url openai_entry = None" "mc_provider openai_entry = Some ''openai''" by (simp_all add: openai_entry_def)
  ultimately show ?thesis
    using builtin_endpoints_match [of plain_env "\<lambda>_. None" stale_config _ "''anthropic''" openai_entry "''openai''"] b
    by (simp add: stale_resolved provider_builtin_base_url_def or_else_def MIMO_URL_def)
qed

lemma named_entry: "discovered_name (Some (JObj [(''id'', JStr ''m1'')])) = Some ''m1''" "discovered_name (Some (JObj [(''id'', JStr ''m2'')])) = Some ''m2''"
  by (simp_all add: discovered_name_def json_val_is_obj_def c_get_str_def json_simps json_obj_get_bool_def text_member_def c_str_def)

lemma listing_entries:
  "foldl (add_discovered c) [] [JObj [(''id'', JStr ''m1'')], JObj [(''id'', JStr ''m1'')], JObj [(''id'', JStr ''m2'')]] \<noteq> []"
  by (simp add: add_discovered_def named_entry)

theorem discovery_selects_listed_witness:
  "\<exists>c'. model_discovery_done plain_env (stale_config\<lparr>cf_model_name := Some ''anthropic/m2''\<rparr>) \<lparr>ha_error = None, ha_status = 200, ha_body = Some ''list''\<rparr> =
     (AGENT_OK, c') \<and> cf_models c' \<noteq> [] \<and> distinct (map mc_name (cf_models c')) \<and> (\<exists>m \<in> set (cf_models c'). cf_model_name c' = Some (mc_name m))"
proof -
  let ?c = "stale_config\<lparr>cf_model_name := Some ''anthropic/m2''\<rparr>"
  let ?a = "\<lparr>ha_error = None, ha_status = 200, ha_body = Some ''list''\<rparr>"
  have f: "cf_provider ?c \<noteq> None" "cf_base_url ?c \<noteq> None" "cf_protocol ?c \<noteq> None" by (simp_all add: stale_config_def)
  have "rn_read plain_env ''list'' = Some listing" by (simp add: plain_env_def)
  then have "fst (model_discovery_done plain_env c ?a) = AGENT_OK" if "cf_provider c \<noteq> None" "cf_base_url c \<noteq> None" "cf_protocol c \<noteq> None" for c
    using that listing_entries [of c]
    by (simp add: model_discovery_done_def json_parse_def json_val_obj_get_def or_else_def listing_def Let_def)
  with f have "fst (model_discovery_done plain_env ?c ?a) = AGENT_OK" by blast
  then obtain c' where c: "model_discovery_done plain_env ?c ?a = (AGENT_OK, c')" by (metis prod.collapse)
  with discovery_selects_listed [OF c] show ?thesis by blast
qed

definition two_models :: runtime_models where
  "two_models = \<lparr>rm_config = config_default\<lparr>cf_models := [openai_entry]\<rparr>, rm_provider = (provider_alloc ''u'')\<lparr>pr_name := Some ''opencode-go''\<rparr>,
     rm_model = \<lparr>lm_name = ''gpt'', lm_wire = Openai_Wire, lm_window = 1, lm_max_output = 1, lm_window_verified = True\<rparr>,
     rm_table = [((provider_alloc ''v'')\<lparr>pr_name := Some ''openai''\<rparr>,
       \<lparr>lm_name = ''gpt'', lm_wire = Openai_Wire, lm_window = 1, lm_max_output = 1, lm_window_verified = True\<rparr>)]\<rparr>"

lemma two_models_selectors:
  "selector_of two_models Default_Model = Some ''opencode-go/gpt''" "selector_of two_models (Table_Model 0) = Some ''openai/gpt''"
  by (simp_all add: selector_of_def two_models_def runtime_model_selector_def strip_provider_def provider_alloc_def AUTH_PATH_MAX_def Let_def)

theorem selector_finds_model_witness: "runtime_model_by_name two_models ''openai/gpt'' = Some (Table_Model 0)"
proof (rule selector_finds_model [OF _ two_models_selectors(2)])
  show "Table_Model 0 \<in> set (model_refs two_models)" by (simp add: model_refs_def two_models_def)
  fix r' assume "r' \<in> set (model_refs two_models)" and n: "names_it two_models ''openai/gpt'' r'"
  then have "r' = Default_Model \<or> r' = Table_Model 0" by (auto simp: model_refs_def two_models_def)
  with n show "r' = Table_Model 0"
    by (auto simp: names_it_def two_models_selectors) (simp add: two_models_def)
qed

lemma plain_writes:
  assumes "length path < 4000"
  shows "fst (config_write_json (rn_render plain_env) (rn_io plain_env) fs path doc) = AGENT_OK"
proof -
  have "list_all (\<lambda>_. True) xs" for xs :: "string list" by (induction xs) auto
  then show ?thesis
    using assms by (simp add: plain_env_def config_write_json_def json_builder_stringify_def config_ensure_parent_dirs_def smooth_config_def AUTH_PATH_MAX_def)
qed

theorem cancelled_discovery_erases_witness:
  "\<exists>failures c2 files'. runtime_discover_all_models plain_env (\<lambda>_. True) 100 (\<lambda>_. None) stale_config = (AGENT_OK, failures, c2, files') \<and>
     cf_models c2 = [] \<and> files' ''/h/.config/cagent/models.json'' = Some (''{}'' @ [CHR 0x0A])"
proof -
  have "config_home_file (rn_getenv plain_env ''HOME'') ''models.json'' = Some ''/h/.config/cagent/models.json''"
    by (simp add: plain_env_def config_home_file_def home_file_def AUTH_PATH_MAX_def)
  from cancelled_discovery_erases [OF stale_resolved _ this plain_writes, of "\<lambda>_. True" 100] show ?thesis
    by (auto simp: plain_env_def)
qed

end
