(* ===== verification/Report.thy ===== *)
theory Report
  imports Prelude
begin

text \<open>
  The static assessment of \<open>src/src/report/report.c\<close>.  Texts are bytes: a run of ASCII is a
  literal, the other characters are the bytes of their UTF-8 encoding.
\<close>

definition utf8 :: "nat list \<Rightarrow> string" where
  "utf8 bs = map char_of bs"

record report_dimension =
  rd_label :: string
  rd_weight :: int
  rd_current :: int

record report_gap =
  rg_priority :: int
  rg_title :: string
  rg_completeness :: int
  rg_items :: "string list"

definition report_dimensions :: "report_dimension list" where
  "report_dimensions =
    [\<lparr>rd_label = utf8 [232, 175, 187] @ ''-'' @ utf8 [230, 148, 185] @ ''-'' @ utf8 [229, 187, 186] @ ''-'' @ utf8 [230, 181,
        139, 233, 151, 173, 231, 142, 175],
        rd_weight = 30, rd_current = 92\<rparr>,
     \<lparr>rd_label = utf8 [229, 174, 137, 229, 133, 168] @ ''/'' @ utf8 [229, 174, 161, 230, 137, 185] @ ''/'' @ utf8 [229, 155,
        158, 230, 187, 154],
        rd_weight = 25, rd_current = 75\<rparr>,
     \<lparr>rd_label = utf8 [232, 167, 132, 229, 136, 146, 228, 184, 142, 230, 137, 167, 232, 161, 140, 232, 183, 159, 232, 184, 170],
        rd_weight = 15, rd_current = 90\<rparr>,
     \<lparr>rd_label = utf8 [232, 174, 176, 229, 191, 134, 228, 184, 142, 231, 138, 182, 230, 128, 129, 230, 129, 162, 229, 164, 141],
        rd_weight = 15, rd_current = 88\<rparr>,
     \<lparr>rd_label = utf8 [229, 183, 165, 229, 133, 183, 229, 174, 140, 229, 164, 135, 230, 128, 167],
        rd_weight = 10, rd_current = 88\<rparr>,
     \<lparr>rd_label = utf8 [232, 135, 170, 232, 175, 138, 230, 150, 173],
        rd_weight = 5, rd_current = 75\<rparr>]"

definition g_gap_approval :: "string list" where
  "g_gap_approval =
    [utf8 [229, 162, 158, 229, 138, 160, 229, 174, 185, 229, 153, 168] @ ''/seccomp '' @ utf8 [231, 173, 137, 229,
      188, 186, 230, 178, 153, 231, 174, 177],
     utf8 [233, 153, 144, 229, 136, 182, 230, 151, 162, 230, 156, 137] @ '' read/write/edit '' @ utf8 [231, 154, 132]
      @ '' workspace '' @ utf8 [232, 182, 138, 231, 149, 140, 232, 183, 175, 229, 190, 132],
     utf8 [230, 147, 166, 230, 180, 151, 229, 173, 144, 232, 191, 155, 231, 168, 139, 231, 187, 167, 230, 137, 191,
      231, 154, 132, 230, 149, 143, 230, 132, 159, 231, 142, 175, 229, 162, 131, 229, 143, 152, 233, 135, 143],
     utf8 [230, 140, 129, 228, 185, 133, 229, 140, 150, 229, 174, 161, 230, 137, 185, 229, 174, 161, 232, 174, 161,
      232, 174, 176, 229, 189, 149]]"

definition g_gap_git :: "string list" where
  "g_gap_git =
    [utf8 [229, 174, 161, 230, 137, 185, 229, 137, 141, 230, 143, 144, 228, 190, 155, 229, 174, 140, 230, 149, 180]
      @ '' staged patch '' @ utf8 [230, 181, 143, 232, 167, 136],
     utf8 [230, 143, 144, 228, 190, 155, 231, 187, 147, 230, 158, 132, 229, 140, 150] @ '' git add/path staging'',
     utf8 [230, 181, 139, 232, 175, 149, 229, 164, 177, 232, 180, 165, 229, 144, 142, 229, 187, 186, 232, 174, 174,
      232, 128, 140, 233, 157, 158, 232, 135, 170, 229, 138, 168, 230, 137, 167, 232, 161, 140, 229, 155, 158, 230,
      187, 154]]"

definition g_gap_plan :: "string list" where
  "g_gap_plan =
    [utf8 [229, 176, 134, 232, 174, 161, 229, 136, 146, 230, 137, 185, 229, 135, 134, 231, 187, 145, 229, 174, 154,
      229, 136, 176, 232, 131, 189, 229, 138, 155, 229, 146, 140, 232, 183, 175, 229, 190, 132, 232, 140, 131, 229,
      155, 180],
     utf8 [230, 143, 144, 228, 190, 155, 229, 164, 177, 232, 180, 165, 230, 173, 165, 233, 170, 164, 231, 154, 132,
      228, 186, 164, 228, 186, 146, 229, 188, 143, 233, 135, 141, 232, 167, 132, 229, 136, 146],
     utf8 [228, 184, 186, 233, 149, 191, 228, 187, 187, 229, 138, 161, 229, 162, 158, 229, 138, 160] @ '' token/''
      @ utf8 [232, 180, 185, 231, 148, 168, 233, 162, 132, 231, 174, 151]]"

definition g_gap_memory :: "string list" where
  "g_gap_memory =
    [utf8 [230, 143, 144, 228, 190, 155] @ '' session '' @ utf8 [229, 136, 151, 232, 161, 168, 228, 184, 142, 229,
      143, 175, 232, 167, 134, 229, 140, 150, 233, 128, 137, 230, 139, 169, 229, 153, 168],
     utf8 [230, 152, 190, 231, 164, 186] @ '' compaction '' @ utf8 [228, 184, 142, 230, 140, 129, 228, 185, 133, 229,
      140, 150, 229, 164, 177, 232, 180, 165],
     utf8 [233, 152, 178, 230, 173, 162, 228, 184, 141, 229, 143, 175, 228, 191, 161, 233, 161, 185, 231, 155, 174,
      229, 134, 133, 229, 174, 185, 230, 177, 161, 230, 159, 147, 233, 149, 191, 230, 156, 159] @ '' memory'']"

definition g_gap_tests :: "string list" where
  "g_gap_tests =
    [utf8 [229, 162, 158, 229, 138, 160, 231, 156, 159, 229, 174, 158] @ '' PTY '' @ utf8 [231, 154, 132, 229, 174,
      161, 230, 137, 185] @ ''/resize '' @ utf8 [229, 155, 158, 229, 189, 146],
     utf8 [229, 162, 158, 229, 138, 160, 229, 143, 175, 233, 128, 137, 231, 156, 159, 229, 174, 158] @ '' provider ''
      @ utf8 [232, 129, 148, 232, 176, 131, 229, 165, 151, 228, 187, 182],
     utf8 [232, 166, 134, 231, 155, 150, 231, 163, 129, 231, 155, 152, 230, 187, 161, 229, 146, 140] @ '' session ''
      @ utf8 [229, 134, 153, 229, 133, 165, 229, 164, 177, 232, 180, 165]]"

definition g_gap_parallel :: "string list" where
  "g_gap_parallel =
    [utf8 [229, 162, 158, 229, 138, 160, 229, 185, 182, 232, 161, 140, 229, 134, 153, 229, 134, 178, 231, 170, 129,
      230, 163, 128, 230, 181, 139],
     utf8 [230, 143, 144, 228, 190, 155] @ '' batch edit '' @ utf8 [229, 142, 159, 229, 173, 144, 232, 175, 173, 228,
      185, 137],
     utf8 [233, 153, 144, 229, 136, 182, 229, 164, 167, 229, 158, 139, 229, 144, 140, 230, 173, 165, 231, 155, 174,
      229, 189, 149, 233, 129, 141, 229, 142, 134, 231, 154, 132, 228, 186, 139, 228, 187, 182, 229, 190, 170, 231,
      142, 175, 229, 141, 160, 231, 148, 168]]"

definition g_gap_diagnostics :: "string list" where
  "g_gap_diagnostics =
    [utf8 [229, 176, 134] @ '' retry/compaction '' @ utf8 [231, 138, 182, 230, 128, 129, 230, 152, 190, 231, 164,
      186, 229, 156, 168] @ '' TUI'',
     utf8 [228, 191, 157, 229, 173, 152, 229, 142, 134, 229, 143, 178] @ '' bench '' @ utf8 [229, 159, 186, 231, 186,
      191, 229, 185, 182, 230, 175, 148, 232, 190, 131, 229, 155, 158, 229, 189, 146],
     utf8 [229, 162, 158, 229, 138, 160, 232, 180, 185, 231, 148, 168, 228, 184, 142, 230, 175, 143, 232, 189, 174]
      @ '' token '' @ utf8 [233, 162, 132, 231, 174, 151, 230, 140, 135, 230, 160, 135]]"

definition report_gaps :: "report_gap list" where
  "report_gaps =
    [\<lparr>rg_priority = 0, rg_title = utf8 [229, 174, 161, 230, 137, 185, 228, 184, 142, 229, 174, 137, 229, 133, 168, 232, 190, 185, 231, 149, 140],
        rg_completeness = 70, rg_items = g_gap_approval\<rparr>,
     \<lparr>rg_priority = 0, rg_title = ''git '' @ utf8 [233, 155, 134, 230, 136, 144, 228, 184, 142, 229, 155, 158, 230, 187, 154],
        rg_completeness = 70, rg_items = g_gap_git\<rparr>,
     \<lparr>rg_priority = 1, rg_title = utf8 [228, 187, 187, 229, 138, 161, 232, 167, 132, 229, 136, 146, 228, 184, 142, 230, 137, 167, 232, 161, 140,
        232, 183, 159, 232, 184, 170],
        rg_completeness = 85, rg_items = g_gap_plan\<rparr>,
     \<lparr>rg_priority = 1, rg_title = utf8 [232, 183, 168, 228, 188, 154, 232, 175, 157, 233, 161, 185, 231, 155, 174, 232, 174, 176, 229, 191, 134],
        rg_completeness = 80, rg_items = g_gap_memory\<rparr>,
     \<lparr>rg_priority = 2, rg_title = utf8 [230, 181, 139, 232, 175, 149, 231, 187, 147, 230, 158, 156, 231, 187, 147, 230, 158, 132, 229, 140, 150,
        231, 144, 134, 232, 167, 163],
        rg_completeness = 80, rg_items = g_gap_tests\<rparr>,
     \<lparr>rg_priority = 2, rg_title = utf8 [229, 185, 182, 232, 161, 140] @ '' tool-call'',
        rg_completeness = 70, rg_items = g_gap_parallel\<rparr>,
     \<lparr>rg_priority = 3, rg_title = utf8 [232, 135, 170, 230, 136, 145, 232, 175, 138, 230, 150, 173, 228, 184, 142] @ '' profile'',
        rg_completeness = 75, rg_items = g_gap_diagnostics\<rparr>]"

definition report_dones :: "string list" where
  "report_dones =
    [utf8 [228, 187, 163, 231, 160, 129, 231, 144, 134, 232, 167, 163, 239, 188, 154] @ ''read/list/find/grep ''
      @ utf8 [228, 184, 142, 233, 161, 185, 231, 155, 174, 230, 140, 135, 228, 187, 164, 231, 187, 167, 230, 137, 191],
     utf8 [228, 187, 163, 231, 160, 129, 228, 191, 174, 230, 148, 185, 239, 188, 154] @ ''write/edit '' @ utf8 [231,
      178, 190, 231, 161, 174, 228, 191, 174, 230, 148, 185],
     utf8 [230, 158, 132, 229, 187, 186, 228, 184, 142, 230, 181, 139, 232, 175, 149, 239, 188, 154] @ ''cmake''
      @ utf8 [227, 128, 129] @ ''ninja'' @ utf8 [227, 128, 129] @ ''ctest '' @ utf8 [233, 151, 173, 231, 142, 175],
     utf8 [229, 164, 154, 230, 173, 165, 230, 137, 167, 232, 161, 140, 239, 188, 154, 230, 168, 161, 229, 158, 139,
      226, 134, 146, 229, 183, 165, 229, 133, 183, 226, 134, 146, 231, 187, 147, 230, 158, 156, 231, 138, 182, 230,
      128, 129, 230, 156, 186],
     utf8 [228, 184, 138, 228, 184, 139, 230, 150, 135, 231, 174, 161, 231, 144, 134, 239, 188, 154]
      @ ''compaction '' @ utf8 [228, 184, 142, 230, 145, 152, 232, 166, 129] @ '' fallback'',
     utf8 [228, 188, 154, 232, 175, 157, 230, 140, 129, 228, 185, 133, 229, 140, 150, 239, 188, 154] @ ''JSONL ''
      @ utf8 [228, 184, 142] @ '' resume'',
     utf8 [229, 185, 182, 229, 143, 145, 229, 173, 144, 228, 187, 187, 229, 138, 161, 239, 188, 154] @ ''subagent ''
      @ utf8 [229, 185, 182, 232, 161, 140, 228, 184, 142, 229, 143, 150, 230, 182, 136, 228, 188, 160, 230, 146, 173],
     utf8 [232, 191, 158, 231, 187, 173, 229, 183, 165, 228, 189, 156, 239, 188, 154, 229, 174, 158, 230, 151, 182,
      230, 181, 129, 229, 188, 143, 227, 128, 129, 229, 142, 134, 229, 143, 178, 229, 155, 158, 230, 152, 190, 227,
      128, 129, 230, 156, 137, 233, 153, 144, 233, 135, 141, 232, 175, 149, 228, 184, 142, 232, 189, 174, 230, 172,
      161, 228, 184, 138, 233, 153, 144],
     utf8 [229, 143, 151, 231, 155, 145, 231, 157, 163, 229, 143, 152, 230, 155, 180, 239, 188, 154, 233, 128, 144,
      229, 183, 165, 229, 133, 183, 229, 174, 161, 230, 137, 185, 228, 184, 142] @ '' write/edit/bash/git '' @ utf8
      [233, 162, 132, 232, 167, 136],
     utf8 [230, 181, 139, 232, 175, 149, 230, 137, 167, 232, 161, 140, 229, 143, 151, 229, 174, 161, 230, 137, 185,
      233, 151, 168, 230, 142, 167, 239, 188, 154] @ ''test '' @ utf8 [229, 184, 166, 233, 162, 132, 232, 167, 136,
      239, 188, 140, 229, 164, 177, 232, 180, 165, 232, 190, 147, 229, 135, 186, 230, 129, 162, 229, 164, 141, 230,
      140, 135, 228, 187, 164, 239, 188, 136, 229, 144, 171] @ '' checkpoint '' @ utf8 [231, 138, 182, 230, 128, 129,
      239, 188, 137],
     utf8 [228, 187, 187, 229, 138, 161, 228, 184, 138, 228, 184, 139, 230, 150, 135, 230, 140, 129, 228, 185, 133,
      229, 140, 150, 239, 188, 154] @ ''plan '' @ utf8 [230, 145, 152, 232, 166, 129] @ '' resume '' @ utf8 [230, 179,
      168, 229, 133, 165, 239, 188, 140, 228, 188, 154, 232, 175, 157, 232, 174, 176, 229, 191, 134, 230, 175, 143,
      232, 189, 174, 230, 156, 137, 231, 149, 140, 230, 179, 168, 229, 133, 165]]"

definition report_roadmap :: "string list" where
  "report_roadmap =
    [''P0 '' @ utf8 [229, 174, 137, 229, 133, 168, 232, 190, 185, 231, 149, 140, 239, 188, 154] @ ''workspace ''
      @ utf8 [232, 183, 175, 229, 190, 132, 233, 154, 148, 231, 166, 187, 227, 128, 129, 231, 142, 175, 229, 162, 131,
      230, 147, 166, 230, 180, 151, 228, 184, 142, 229, 188, 186, 230, 178, 153, 231, 174, 177],
     ''P1 '' @ utf8 [229, 143, 175, 232, 167, 130, 230, 181, 139, 230, 128, 167, 239, 188, 154]
      @ ''retry/compaction/'' @ utf8 [233, 162, 132, 231, 174, 151, 231, 138, 182, 230, 128, 129, 228, 184, 142]
      @ '' session '' @ utf8 [233, 128, 137, 230, 139, 169, 229, 153, 168],
     ''P1 git '' @ utf8 [228, 189, 147, 233, 170, 140, 239, 188, 154, 229, 174, 140, 230, 149, 180] @ '' patch ''
      @ utf8 [230, 181, 143, 232, 167, 136, 227, 128, 129, 231, 187, 147, 230, 158, 132, 229, 140, 150]
      @ '' staging '' @ utf8 [228, 184, 142, 230, 129, 162, 229, 164, 141, 229, 187, 186, 232, 174, 174],
     ''P2 '' @ utf8 [229, 185, 182, 232, 161, 140, 229, 134, 153, 229, 134, 178, 231, 170, 129, 230, 163, 128, 230,
      181, 139, 227, 128, 129] @ ''batch edit '' @ utf8 [228, 184, 142, 229, 188, 130, 230, 173, 165, 231, 155, 174,
      229, 189, 149, 233, 129, 141, 229, 142, 134]]"

definition report_title :: string where
  "report_title =
     ''cagent '' @ utf8 [232, 135, 170, 228, 184, 190, 229, 188, 128, 229, 143, 145, 232, 131, 189, 229, 138, 155,
     232, 175, 132, 228, 188, 176, 230, 138, 165, 229, 145, 138]"

definition report_conclusion :: string where
  "report_conclusion =
     utf8 [229, 159, 186, 231, 161, 128, 232, 175, 187, 230, 148, 185, 229, 187, 186, 230, 181, 139, 233, 151, 173,
     231, 142, 175, 229, 183, 178, 229, 133, 183, 229, 164, 135, 239, 188, 140, 228, 189, 134, 229, 174, 161, 230,
     137, 185, 229, 174, 137, 229, 133, 168, 228, 184, 142, 229, 155, 158, 230, 187, 154, 232, 131, 189, 229, 138,
     155, 228, 187, 141, 230, 152, 175, 229, 188, 128, 229, 144, 175, 232, 135, 170, 228, 184, 187, 232, 191, 173,
     228, 187, 163, 231, 154, 132, 229, 137, 141, 231, 189, 174, 230, 157, 161, 228, 187, 182, 227, 128, 130]"

definition report_overall_percent :: int where
  "report_overall_percent =
     (let weighted = sum_list (map (\<lambda>d. rd_weight d * rd_current d) report_dimensions);
          weight_total = sum_list (map rd_weight report_dimensions) in
      if weight_total \<le> 0 then 0 else (weighted + weight_total div 2) div weight_total)"

text \<open>The weights are shares of a hundred, so the overall value is the weighted mean, rounded.\<close>

lemma report_weights: "sum_list (map rd_weight report_dimensions) = 100"
  by (simp add: report_dimensions_def)

lemma report_overall: "report_overall_percent = 86"
  by (simp add: report_overall_percent_def report_dimensions_def)

end
