(* ===== verification/Tui_Screen.thy ===== *)
theory Tui_Screen
  imports Report
begin

text \<open>
  The screen model and the renderer, \<open>src/src/tui/render.c\<close>.  Appends find memory, so a \<open>String\<close> is
  the bytes written so far.  The locale is a parameter: \<open>mb s\<close> is what \<open>mbrtowc\<close> and \<open>wcwidth\<close> say of the
  character at the front of \<open>s\<close>, its bytes and its cells, and \<open>None\<close> where \<open>mbrtowc\<close> reports an
  error.  The texts that \<open>printf\<close> makes of doubles are parameters too.
\<close>

section \<open>The model\<close>

datatype line_kind = LINE_USER | LINE_ASSISTANT | LINE_TOOL | LINE_TOOL_END | LINE_TOOL_ERROR | LINE_SYSTEM

datatype row_section = TUI_ROW_HEADER | TUI_ROW_BODY | TUI_ROW_STATUS | TUI_ROW_INPUT

record screen_line =
  ln_kind :: line_kind
  ln_text :: string

record tui_model =
  tm_lines :: "screen_line list"
  tm_header :: string
  tm_input :: string
  tm_secret :: bool
  tm_cursor :: nat
  tm_status :: string
  tm_usage :: string
  tm_busy :: bool
  tm_streaming :: bool
  tm_choices :: "string list"
  tm_choice_mode :: bool
  tm_choice_selected :: nat
  tm_report_mode :: bool
  tm_report_scroll :: nat
  tm_history_scroll :: nat
  tm_rows :: int
  tm_cols :: int

definition tui_model_init :: tui_model where
  "tui_model_init =
     \<lparr>tm_lines = [], tm_header = '' cagent'', tm_input = [], tm_secret = False, tm_cursor = 0, tm_status = [], tm_usage = [],
      tm_busy = False, tm_streaming = False, tm_choices = [], tm_choice_mode = False, tm_choice_selected = 0,
      tm_report_mode = False, tm_report_scroll = 0, tm_history_scroll = 0, tm_rows = 24, tm_cols = 80\<rparr>"

definition spinner_frames :: "string list" where
  "spinner_frames =
     (let full = utf8 [226, 151, 143]; hollow = utf8 [226, 151, 139] in
      [full, full @ hollow, full @ hollow @ hollow, full @ hollow @ hollow @ hollow,
       hollow @ full @ hollow @ hollow, hollow @ hollow @ full @ hollow, hollow @ hollow @ hollow @ full])"

definition tui_spinner_frame :: "nat \<Rightarrow> string" where
  "tui_spinner_frame i = spinner_frames ! (i mod length spinner_frames)"

section \<open>History\<close>

definition hex_upper :: "nat \<Rightarrow> char" where
  "hex_upper n = ''0123456789ABCDEF'' ! n"

definition display_char :: "char \<Rightarrow> string" where
  "display_char c =
     (let n = of_char c in
      if (n < 32 \<and> n \<noteq> 10 \<and> n \<noteq> 9) \<or> n = (127 :: nat) then [CHR 0x5C, CHR ''x'', hex_upper (n div 16), hex_upper (n mod 16)] else [c])"

definition append_display_text :: "string \<Rightarrow> string \<Rightarrow> string" where
  "append_display_text out t = out @ concat (map display_char t)"

definition tui_model_append_n :: "tui_model \<Rightarrow> line_kind \<Rightarrow> string \<Rightarrow> tui_model" where
  "tui_model_append_n m kind t =
     m\<lparr>tm_streaming := False, tm_lines := tm_lines m @ [\<lparr>ln_kind = kind, ln_text = append_display_text [] t\<rparr>], tm_history_scroll := 0\<rparr>"

definition tui_model_append :: "tui_model \<Rightarrow> line_kind \<Rightarrow> string \<Rightarrow> tui_model" where
  "tui_model_append m kind t = tui_model_append_n m kind (c_str t)"

definition tui_model_append_stream_n :: "tui_model \<Rightarrow> string \<Rightarrow> tui_model" where
  "tui_model_append_stream_n m t =
     (if t = [] then m
      else if tm_streaming m \<and> tm_lines m \<noteq> [] \<and> ln_kind (last (tm_lines m)) = LINE_ASSISTANT then
        m\<lparr>tm_lines := butlast (tm_lines m) @ [(last (tm_lines m))\<lparr>ln_text := append_display_text (ln_text (last (tm_lines m))) t\<rparr>],
          tm_history_scroll := 0\<rparr>
      else (tui_model_append_n m LINE_ASSISTANT t)\<lparr>tm_streaming := True\<rparr>)"

definition tui_model_end_stream :: "tui_model \<Rightarrow> tui_model" where
  "tui_model_end_stream m = m\<lparr>tm_streaming := False\<rparr>"

text \<open>The offset saturates at \<open>SIZE_MAX\<close> and at zero.\<close>

definition tui_model_scroll :: "tui_model \<Rightarrow> int \<Rightarrow> tui_model" where
  "tui_model_scroll m delta =
     (if delta = 0 then m
      else if delta > 0 then
        m\<lparr>tm_history_scroll := (if SIZE_MAX - tm_history_scroll m < nat delta then SIZE_MAX else tm_history_scroll m + nat delta)\<rparr>
      else m\<lparr>tm_history_scroll := tm_history_scroll m - nat (- delta)\<rparr>)"

definition tui_model_scroll_to_bottom :: "tui_model \<Rightarrow> tui_model" where
  "tui_model_scroll_to_bottom m = m\<lparr>tm_history_scroll := 0\<rparr>"

section \<open>Choices\<close>

definition tolower :: "char \<Rightarrow> nat" where
  "tolower c = (let n = of_char c in if 65 \<le> n \<and> n \<le> 90 then n + 32 else n)"

text \<open>The query is a subsequence of the choice, up to the case of ASCII letters.\<close>

fun choice_matches :: "string \<Rightarrow> string \<Rightarrow> bool" where
  "choice_matches choice [] \<longleftrightarrow> True"
| "choice_matches [] (q # qs) \<longleftrightarrow> False"
| "choice_matches (c # cs) (q # qs) \<longleftrightarrow> (if tolower q = tolower c then choice_matches cs qs else choice_matches cs (q # qs))"

definition matching :: "tui_model \<Rightarrow> nat list" where
  "matching m = filter (\<lambda>i. choice_matches (tm_choices m ! i) (tm_input m)) [0..<length (tm_choices m)]"

definition tui_choice_match_count :: "tui_model \<Rightarrow> nat" where
  "tui_choice_match_count m = (if tm_choice_mode m then length (matching m) else 0)"

definition tui_choice_match_at :: "tui_model \<Rightarrow> nat \<Rightarrow> nat" where
  "tui_choice_match_at m k = (if tm_choice_mode m \<and> k < length (matching m) then matching m ! k else SIZE_MAX)"

section \<open>Widths\<close>

type_synonym mb_locale = "string \<Rightarrow> (nat \<times> int) option"

text \<open>Bytes and cells of the character at the front: one each for bytes that are no character.\<close>

definition utf8_char_width :: "mb_locale \<Rightarrow> string \<Rightarrow> nat \<times> int" where
  "utf8_char_width mb s =
     (case mb s of
        None \<Rightarrow> (1, 1)
      | Some (n, width) \<Rightarrow> if n = 0 then (1, 1) else (n, if width > 0 then width else 1))"

lemma char_width_pos: "utf8_char_width mb s = (n, w) \<Longrightarrow> 0 < n \<and> 0 < w"
  by (auto simp: utf8_char_width_def split: option.splits if_splits)

function utf8_fit_width :: "mb_locale \<Rightarrow> string \<Rightarrow> int \<Rightarrow> nat" where
  "utf8_fit_width mb s max_width =
     (if s = [] \<or> max_width \<le> 0 then 0
      else (let (n, w) = utf8_char_width mb s in
            if w > max_width then 0 else n + utf8_fit_width mb (drop n s) (max_width - w)))"
  by pat_completeness auto
termination
  by (relation "measure (\<lambda>(mb, s, w). length s)") (auto dest!: char_width_pos [OF sym])

declare utf8_fit_width.simps [simp del]

function utf8_width :: "mb_locale \<Rightarrow> string \<Rightarrow> int" where
  "utf8_width mb s =
     (if s = [] then 0 else (let (n, w) = utf8_char_width mb s in w + utf8_width mb (drop n s)))"
  by pat_completeness auto
termination
  by (relation "measure (\<lambda>(mb, s). length s)") (auto dest!: char_width_pos [OF sym])

declare utf8_width.simps [simp del]

section \<open>Lines\<close>

text \<open>The pieces that \<open>append_wrapped\<close> writes; a piece has at least one byte.\<close>

function wrap_pieces :: "mb_locale \<Rightarrow> int \<Rightarrow> string \<Rightarrow> string list" where
  "wrap_pieces mb available s =
     (if s = [] then []
      else (let n = utf8_fit_width mb s available; m = (if n = 0 then 1 else n) in take m s # wrap_pieces mb available (drop m s)))"
  by pat_completeness auto
termination
  by (relation "measure (\<lambda>(mb, a, s). length s)") (auto simp: Let_def)

declare wrap_pieces.simps [simp del]

definition wrap_width :: "int \<Rightarrow> bool \<Rightarrow> int" where
  "wrap_width cols prefix = max 1 ((if cols > 0 then cols else 1) - (if prefix then 2 else 0))"

definition append_wrapped :: "mb_locale \<Rightarrow> string \<Rightarrow> string \<Rightarrow> int \<Rightarrow> bool \<Rightarrow> string" where
  "append_wrapped mb out t cols prefix =
     (let pieces = wrap_pieces mb (wrap_width cols prefix) t in
      out @ (if prefix then ''> '' else []) @
      (if pieces = [] then [CHR 0x0A] else concat (map (\<lambda>p. p @ [CHR 0x0A]) pieces)))"

fun line_badge :: "line_kind \<Rightarrow> string" where
  "line_badge LINE_USER = utf8 [226, 157, 175] @ '' ''"
| "line_badge LINE_ASSISTANT = utf8 [226, 151, 137] @ '' ''"
| "line_badge LINE_TOOL = utf8 [226, 154, 161] @ '' ''"
| "line_badge LINE_TOOL_END = utf8 [226, 156, 147] @ '' ''"
| "line_badge LINE_TOOL_ERROR = utf8 [226, 156, 151] @ '' ''"
| "line_badge LINE_SYSTEM = ''! ''"

definition append_line :: "mb_locale \<Rightarrow> string \<Rightarrow> screen_line \<Rightarrow> int \<Rightarrow> string" where
  "append_line mb out l cols =
     (if ln_kind l = LINE_USER then append_wrapped mb out (ln_text l) cols True
      else append_wrapped mb (out @ line_badge (ln_kind l)) (ln_text l) (cols - 2) False)"

definition append_clipped :: "mb_locale \<Rightarrow> string \<Rightarrow> string \<Rightarrow> int \<Rightarrow> string" where
  "append_clipped mb out t cols = (if cols \<le> 0 then out else out @ take (utf8_fit_width mb t cols) t)"

section \<open>The report\<close>

definition report_append_bar :: "string \<Rightarrow> int \<Rightarrow> string" where
  "report_append_bar out current =
     (let filled = nat (current * 20 div 100) in
      out @ ''['' @ concat (map (\<lambda>i. if i < filled then utf8 [226, 150, 136] else utf8 [226, 150, 145]) [0..<20]) @ '']'')"

definition report_dimension_row :: "report_dimension \<Rightarrow> string" where
  "report_dimension_row d =
     report_append_bar (rd_label d @ replicate (18 - length (rd_label d)) CHR '' '' @ '' '') (rd_current d) @
     '' '' @ show_int (rd_current d) @ ''%'' @ utf8 [239, 188, 136, 230, 157, 131, 233, 135, 141] @ '' '' @ show_int (rd_weight d) @
     ''%'' @ utf8 [239, 188, 137] @ [CHR 0x0A]"

definition report_gap_rows :: "report_gap \<Rightarrow> string" where
  "report_gap_rows g =
     ''P'' @ show_int (rg_priority g) @ ''  '' @ rg_title g @ utf8 [239, 188, 136, 229, 189, 147, 229, 137, 141] @ '' '' @
     show_int (rg_completeness g) @ ''%'' @ utf8 [239, 188, 137] @ [CHR 0x0A] @
     concat (map (\<lambda>i. ''  - '' @ i @ [CHR 0x0A]) (rg_items g))"

definition report_append_body :: "string \<Rightarrow> string" where
  "report_append_body out =
     out @ report_title @ [CHR 0x0A] @ report_conclusion @ [CHR 0x0A] @
     utf8 [230, 128, 187, 229, 174, 140, 230, 136, 144, 229, 186, 166] @ '': '' @ show_int report_overall_percent @ ''%'' @
     utf8 [239, 188, 136, 230, 140, 137, 231, 187, 180, 229, 186, 166, 230, 157, 131, 233, 135, 141, 232, 174, 161, 231, 174, 151,
       239, 188, 137] @ [CHR 0x0A] @
     [CHR 0x0A] @ utf8 [232, 131, 189, 229, 138, 155, 231, 187, 180, 229, 186, 166] @ [CHR 0x0A] @
     concat (map report_dimension_row report_dimensions) @
     [CHR 0x0A] @ utf8 [229, 136, 134, 231, 186, 167, 231, 188, 186, 229, 143, 163] @ [CHR 0x0A] @
     concat (map report_gap_rows report_gaps) @
     [CHR 0x0A] @ utf8 [229, 183, 178, 229, 133, 183, 229, 164, 135] @ [CHR 0x0A] @
     concat (map (\<lambda>d. ''  + '' @ d @ [CHR 0x0A]) report_dones) @
     [CHR 0x0A] @ utf8 [230, 142, 168, 232, 191, 155, 233, 161, 186, 229, 186, 143] @ [CHR 0x0A] @
     concat (map (\<lambda>(i, r). ''  '' @ show_nat (i + 1) @ ''. '' @ r @ [CHR 0x0A]) (enumerate 0 report_roadmap))"

definition tui_report_content_lines :: nat where
  "tui_report_content_lines =
     4 + (1 + length report_dimensions) + (1 + 1) + sum_list (map (\<lambda>g. 1 + length (rg_items g)) report_gaps) +
     (1 + 1 + length report_dones) + (1 + 1 + length report_roadmap)"

section \<open>Usage\<close>

text \<open>\<open>mega n\<close> is \<open>n / 1000000\<close> printed with \<open>%.1f\<close>.\<close>

definition append_scaled :: "(int \<Rightarrow> string) \<Rightarrow> string \<Rightarrow> int \<Rightarrow> string" where
  "append_scaled mega s n =
     (if n \<ge> 1000000 then
        (let buf = take 31 (mega n @ ''M''); bl = length buf in
         s @ (if bl > 3 \<and> buf ! (bl - 3) = CHR ''.'' \<and> buf ! (bl - 2) = CHR ''0'' then take (bl - 3) buf @ [buf ! (bl - 1)] else buf))
      else if n \<ge> 1000 then s @ show_int ((n + 500) div 1000) @ ''k''
      else s @ show_int n)"

text \<open>The texts of the doubles: the share of cached tokens, the cost if it is positive, the share of the window.\<close>

record usage_texts =
  ut_mega :: "int \<Rightarrow> string"
  ut_hit :: string
  ut_cost :: "string option"
  ut_share :: string

definition segment :: "string \<Rightarrow> string \<Rightarrow> string" where
  "segment s t = (if s = [] then t else s @ '' '' @ t)"

definition tui_format_usage ::
  "usage_texts \<Rightarrow> nat \<Rightarrow> int \<Rightarrow> int \<Rightarrow> int \<Rightarrow> bool \<Rightarrow> int \<Rightarrow> bool \<Rightarrow> agent_error \<times> string option" where
  "tui_format_usage texts cap tokens_in tokens_out tokens_cached subscription context_window window_verified =
     (if cap = 0 then (AGENT_ERR_IO, None)
      else
        (let s1 = (if tokens_in > 0 then append_scaled (ut_mega texts) (utf8 [226, 134, 145]) tokens_in else []);
             s2 = (if tokens_out > 0 then segment s1 (append_scaled (ut_mega texts) (utf8 [226, 134, 147]) tokens_out) else s1);
             s3 = (if tokens_cached > 0 \<and> tokens_in > 0 then segment s2 (''(hit '' @ ut_hit texts @ ''%)'') else s2);
             s4 = (if subscription then segment s3 ''(sub)''
                   else (case ut_cost texts of None \<Rightarrow> s3 | Some c \<Rightarrow> segment s3 (''$'' @ c)));
             s5 = (if context_window > 0
                   then segment s4 (append_scaled (ut_mega texts) (ut_share texts @ ''%/'' @ (if window_verified then [] else ''~'')) context_window)
                   else s4);
             s6 = segment s5 ''(auto)'' in
         if length s6 + 1 > cap then (AGENT_ERR_IO, None) else (AGENT_OK, Some s6)))"

section \<open>The screen\<close>

definition newlines :: "string \<Rightarrow> nat" where
  "newlines s = length (filter (\<lambda>c. c = CHR 0x0A) s)"

text \<open>The rows of a text, with what follows the last newline.\<close>

fun split_rows :: "string \<Rightarrow> string list" where
  "split_rows [] = [[]]"
| "split_rows (c # s) = (if c = CHR 0x0A then [] # split_rows s else (case split_rows s of r # rs \<Rightarrow> (c # r) # rs))"

text \<open>The rows of a text that are visible, and the offset after it was limited.\<close>

definition viewport :: "string \<Rightarrow> nat \<Rightarrow> nat \<Rightarrow> string list \<times> nat" where
  "viewport all scroll0 middle_rows =
     (let total = newlines all;
          scroll = min scroll0 (total - middle_rows);
          end_line = total - scroll;
          start_line = end_line - middle_rows in
      (take (end_line - start_line) (drop start_line (split_rows all)), scroll))"

definition choice_rows :: "mb_locale \<Rightarrow> tui_model \<Rightarrow> int \<Rightarrow> nat \<Rightarrow> string list" where
  "choice_rows mb m cols middle_rows =
     (let matches = tui_choice_match_count m;
          selected = (if matches > 0 \<and> tm_choice_selected m \<ge> matches then matches - 1 else tm_choice_selected m);
          start = (if matches > middle_rows \<and> selected \<ge> middle_rows then selected - middle_rows + 1 else 0);
          stop = min matches (start + middle_rows) in
      map (\<lambda>k. append_clipped mb (if k = selected then ''> '' else ''  '') (tm_choices m ! tui_choice_match_at m k) (cols - 2)) [start..<stop] @
      (if matches = 0 \<and> middle_rows > 0 then [''  (no matching models)''] else []))"

text \<open>The rows of the middle and the offset the status row looks at.\<close>

definition middle_part :: "mb_locale \<Rightarrow> tui_model \<Rightarrow> int \<Rightarrow> nat \<Rightarrow> string list \<times> nat" where
  "middle_part mb m cols middle_rows =
     (if tm_report_mode m then viewport (report_append_body []) (tm_report_scroll m) middle_rows
      else if tm_choice_mode m then (choice_rows mb m cols middle_rows, 0)
      else viewport (foldl (\<lambda>all l. append_line mb all l cols) [] (tm_lines m)) (tm_history_scroll m) middle_rows)"

definition status_row :: "mb_locale \<Rightarrow> tui_model \<Rightarrow> int \<Rightarrow> nat \<Rightarrow> string" where
  "status_row mb m cols scroll =
     (let out = (if tm_report_mode m \<and> scroll > 0 then ''[report scrolling older content] ''
                 else if \<not> tm_choice_mode m \<and> scroll > 0 then ''[scrolling older messages] '' else []);
          usage_width = utf8_width mb (tm_usage m) in
      if usage_width > 0 \<and> usage_width + 1 < cols then
        append_clipped mb out (tm_status m) (cols - usage_width - 1) @ '' '' @ take (utf8_fit_width mb (tm_usage m) cols) (tm_usage m)
      else append_clipped mb out (tm_status m) cols)"

definition continuation :: "char \<Rightarrow> bool" where
  "continuation c \<longleftrightarrow> of_char c div 64 = (2 :: nat)"

definition masked :: "string \<Rightarrow> string" where
  "masked s = map (\<lambda>_. CHR ''*'') (filter (\<lambda>c. \<not> continuation c) s)"

definition display_input :: "tui_model \<Rightarrow> string" where
  "display_input m = (if tm_report_mode m then [] else if tm_secret m then masked (tm_input m) else tm_input m)"

definition display_cursor :: "tui_model \<Rightarrow> nat" where
  "display_cursor m =
     (let cursor = (if tm_report_mode m then 0 else min (tm_cursor m) (length (tm_input m))) in
      if \<not> tm_report_mode m \<and> tm_secret m then length (masked (take cursor (tm_input m))) else cursor)"

definition sections_of :: "int \<Rightarrow> nat \<Rightarrow> row_section list" where
  "sections_of rows cap =
     map (\<lambda>i. if int i = rows - 1 then TUI_ROW_INPUT else if rows \<ge> 2 \<and> int i = rows - 2 then TUI_ROW_STATUS
              else if rows \<ge> 3 \<and> i = 0 then TUI_ROW_HEADER else TUI_ROW_BODY) [0..<min (nat rows) cap]"

text \<open>The text of the screen, the position of the cursor, and the sections of the rows.\<close>

definition tui_render_screen_sections :: "mb_locale \<Rightarrow> tui_model \<Rightarrow> nat \<Rightarrow> string \<times> (int \<times> int) \<times> row_section list" where
  "tui_render_screen_sections mb m cap =
     (let rows = (if tm_rows m > 0 then tm_rows m else 1);
          cols = (if tm_cols m > 0 then tm_cols m else 1);
          show_header = (rows \<ge> 3); show_status = (rows \<ge> 2);
          middle_rows = nat (rows - (if show_header then 1 else 0) - (if show_status then 1 else 0) - 1);
          header = (if show_header then append_clipped mb [] (tm_header m) cols @ [CHR 0x0A] else []);
          (body, scroll) = middle_part mb m cols middle_rows;
          middle = concat (map (\<lambda>r. r @ [CHR 0x0A]) (body @ replicate (middle_rows - length body) []));
          status = (if show_status then status_row mb m cols scroll @ [CHR 0x0A] else []);
          shown = utf8_fit_width mb (display_input m) (max 0 (cols - 2));
          column = 3 + utf8_width mb (take (min (display_cursor m) shown) (display_input m)) in
      (header @ middle @ status @ ''> '' @ take shown (display_input m) @ [CHR 0x0A],
       (rows, max 1 (min column cols)), sections_of rows cap))"

definition tui_render_screen :: "mb_locale \<Rightarrow> tui_model \<Rightarrow> string \<times> int \<times> int" where
  "tui_render_screen mb m = (let (out, position, _) = tui_render_screen_sections mb m 0 in (out, position))"

section \<open>Rows\<close>

lemma newlines_simps [simp]:
  "newlines [] = 0" "newlines (c # s) = (if c = CHR 0x0A then 1 else 0) + newlines s" "newlines (s @ t) = newlines s + newlines t"
  by (simp_all add: newlines_def)

definition one_row :: "string \<Rightarrow> bool" where
  "one_row s \<longleftrightarrow> CHR 0x0A \<notin> set s"

lemma newlines_one_row: "one_row s \<Longrightarrow> newlines s = 0"
  by (auto simp: newlines_def one_row_def filter_empty_conv)

lemma one_row_take [simp]: "one_row s \<Longrightarrow> one_row (take n s)"
  by (auto simp: one_row_def dest: in_set_takeD)

lemma one_row_append [simp]: "one_row (s @ t) \<longleftrightarrow> one_row s \<and> one_row t"
  by (auto simp: one_row_def)

lemma one_row_Cons [simp]: "one_row (c # s) \<longleftrightarrow> c \<noteq> CHR 0x0A \<and> one_row s"
  by (auto simp: one_row_def)

lemma one_row_clipped: "one_row out \<Longrightarrow> one_row t \<Longrightarrow> one_row (append_clipped mb out t n)"
  by (simp add: append_clipped_def)

lemma one_row_masked [simp]: "one_row (masked s)"
  by (auto simp: one_row_def masked_def)

lemma one_row_Nil [simp]: "one_row []"
  by (simp add: one_row_def)

lemma split_rows_length [simp]: "length (split_rows s) = newlines s + 1"
  by (induction s) (auto split: list.splits)

lemma split_rows_one_row: "r \<in> set (split_rows s) \<Longrightarrow> one_row r"
proof (induction s arbitrary: r)
  case (Cons c s)
  have "split_rows s \<noteq> []" by (metis split_rows_length list.size(3) add_is_0 one_neq_zero)
  with Cons show ?case by (cases "split_rows s") (auto simp: one_row_def split: if_splits)
qed (simp add: one_row_def)

lemma viewport_rows:
  "length (fst (viewport all k middle)) \<le> middle" "r \<in> set (fst (viewport all k middle)) \<Longrightarrow> one_row r"
  by (simp add: viewport_def Let_def min.coboundedI2) (auto simp: viewport_def Let_def dest!: in_set_takeD in_set_dropD split_rows_one_row)

lemma matching_index: "k < length (matching m) \<Longrightarrow> matching m ! k < length (tm_choices m)"
  using nth_mem [of k "matching m"] by (auto simp: matching_def)

lemma choice_rows_rows:
  assumes "tm_choice_mode m"
  shows "length (choice_rows mb m cols middle) \<le> middle"
    and "\<forall>c \<in> set (tm_choices m). one_row c \<Longrightarrow> r \<in> set (choice_rows mb m cols middle) \<Longrightarrow> one_row r"
proof -
  show "length (choice_rows mb m cols middle) \<le> middle" by (auto simp: choice_rows_def Let_def)
  assume c: "\<forall>c \<in> set (tm_choices m). one_row c" and r: "r \<in> set (choice_rows mb m cols middle)"
  have "one_row (tm_choices m ! tui_choice_match_at m k)" if "k < tui_choice_match_count m" for k
    using that assms c matching_index [of k m] by (auto simp: tui_choice_match_count_def tui_choice_match_at_def)
  with r show "one_row r" by (auto simp: choice_rows_def Let_def intro!: one_row_clipped split: if_splits)
qed

lemma middle_rows_rows:
  assumes "\<forall>c \<in> set (tm_choices m). one_row c"
  shows "length (fst (middle_part mb m cols middle)) \<le> middle"
    and "r \<in> set (fst (middle_part mb m cols middle)) \<Longrightarrow> one_row r"
  using assms by (auto simp: middle_part_def viewport_rows choice_rows_rows dest: viewport_rows(2) split: if_splits)

lemma newlines_rows: "(\<And>r. r \<in> set rs \<Longrightarrow> one_row r) \<Longrightarrow> newlines (concat (map (\<lambda>r. r @ [CHR 0x0A]) rs)) = length rs"
  by (induction rs) (auto simp: newlines_one_row)

lemma status_one_row: "one_row (tm_status m) \<Longrightarrow> one_row (tm_usage m) \<Longrightarrow> one_row (status_row mb m cols scroll)"
  by (simp add: status_row_def Let_def one_row_clipped)

text \<open>The texts of the frame hold no line break: only then does each of them take one row.\<close>

definition plain_frame :: "tui_model \<Rightarrow> bool" where
  "plain_frame m \<longleftrightarrow> one_row (tm_status m) \<and> one_row (tm_usage m) \<and> one_row (tm_input m) \<and> (\<forall>c \<in> set (tm_choices m). one_row c)"

definition header_breaks :: "mb_locale \<Rightarrow> tui_model \<Rightarrow> nat" where
  "header_breaks mb m = (if tm_rows m \<ge> 3 then newlines (append_clipped mb [] (tm_header m) (tm_cols m)) else 0)"

lemma screen_rows:
  assumes "tui_render_screen_sections mb m cap = (out, (row, col), sections)" and "0 < tm_rows m" and "0 < tm_cols m"
  shows "last out = CHR 0x0A \<and> row = tm_rows m \<and> 1 \<le> col \<and> col \<le> tm_cols m \<and> sections = sections_of (tm_rows m) cap \<and>
    (plain_frame m \<longrightarrow> newlines out = nat (tm_rows m) + header_breaks mb m)"
proof -
  define middle where "middle = nat (tm_rows m - (if tm_rows m \<ge> 3 then 1 else 0) - (if tm_rows m \<ge> 2 then 1 else 0) - 1)"
  obtain body scroll where b: "middle_part mb m (tm_cols m) middle = (body, scroll)" by (metis surj_pair)
  define mid where "mid = concat (map (\<lambda>r. r @ [CHR 0x0A]) (body @ replicate (middle - length body) []))"
  let ?shown = "utf8_fit_width mb (display_input m) (max 0 (tm_cols m - 2))"
  have "tui_render_screen_sections mb m cap =
      ((if tm_rows m \<ge> 3 then append_clipped mb [] (tm_header m) (tm_cols m) @ [CHR 0x0A] else []) @ mid @
       (if tm_rows m \<ge> 2 then status_row mb m (tm_cols m) scroll @ [CHR 0x0A] else []) @ ''> '' @ take ?shown (display_input m) @ [CHR 0x0A],
       (tm_rows m, max 1 (min (3 + utf8_width mb (take (min (display_cursor m) ?shown) (display_input m))) (tm_cols m))),
       sections_of (tm_rows m) cap)"
    unfolding tui_render_screen_sections_def Let_def if_P [OF assms(2)] if_P [OF assms(3)] middle_def [symmetric] b prod.case mid_def ..
  with assms(1) have out: "out = (if tm_rows m \<ge> 3 then append_clipped mb [] (tm_header m) (tm_cols m) @ [CHR 0x0A] else []) @ mid @
       (if tm_rows m \<ge> 2 then status_row mb m (tm_cols m) scroll @ [CHR 0x0A] else []) @ ''> '' @ take ?shown (display_input m) @ [CHR 0x0A]"
    and pos: "row = tm_rows m" "col = max 1 (min (3 + utf8_width mb (take (min (display_cursor m) ?shown) (display_input m))) (tm_cols m))"
    and s: "sections = sections_of (tm_rows m) cap"
    by (metis prod.inject)+
  have "newlines out = nat (tm_rows m) + header_breaks mb m" if plain: "plain_frame m"
  proof -
    from plain have ch: "\<forall>c \<in> set (tm_choices m). one_row c" by (simp add: plain_frame_def)
    have rows: "one_row r" if "r \<in> set (body @ replicate (middle - length body) [])" for r
      using that middle_rows_rows(2) [OF ch, of r mb "tm_cols m" middle] b by auto
    have len: "length body \<le> middle" using middle_rows_rows(1) [OF ch, of mb "tm_cols m" middle] b by simp
    have n: "newlines mid = middle" unfolding mid_def by (subst newlines_rows) (use rows len in auto)
    have d: "one_row (display_input m)" using plain by (simp add: display_input_def plain_frame_def)
    have "newlines out = header_breaks mb m + (if tm_rows m \<ge> 3 then 1 else 0) + middle + (if tm_rows m \<ge> 2 then 1 else 0) + 1"
      using plain d by (simp add: plain_frame_def header_breaks_def out n newlines_one_row status_one_row)
    then show ?thesis using assms(2) unfolding middle_def by auto
  qed
  moreover have "last out = CHR 0x0A" by (simp add: out)
  ultimately show ?thesis using pos s assms(3) by simp
qed

text \<open>C29: the cursor stays on the last row and inside the terminal and every row has its section, whatever the model holds; and as long as
  the header, the status, the usage, the input and the labels of the choices hold no line break, the screen
  has exactly as many rows as the terminal: the history may hold any bytes, it is cut into rows.\<close>

theorem screen_fits_rows:
  assumes "tui_render_screen_sections mb m cap = (out, (row, col), sections)" and "0 < tm_rows m" and "0 < tm_cols m"
  shows "last out = CHR 0x0A \<and> row = tm_rows m \<and> 1 \<le> col \<and> col \<le> tm_cols m \<and>
    length sections = min (nat (tm_rows m)) cap \<and> (nat (tm_rows m) \<le> cap \<longrightarrow> last sections = TUI_ROW_INPUT) \<and>
    (one_row (tm_header m) \<and> plain_frame m \<longrightarrow> newlines out = nat (tm_rows m))"
proof -
  note rows = screen_rows [OF assms]
  then have "length sections = min (nat (tm_rows m)) cap" by (simp add: sections_of_def)
  moreover from rows assms(2) have "nat (tm_rows m) \<le> cap \<Longrightarrow> last sections = TUI_ROW_INPUT"
    by (simp add: sections_of_def last_map)
  moreover have "one_row (tm_header m) \<Longrightarrow> header_breaks mb m = 0"
    by (simp add: header_breaks_def newlines_one_row one_row_clipped)
  ultimately show ?thesis using rows by simp
qed

text \<open>The condition is needed: header and labels are drawn as they are, and each line break in the part of the header that is
  shown makes the screen one row longer than the terminal.\<close>

theorem header_break_adds_row:
  assumes "tui_render_screen_sections mb m cap = (out, pos, sections)" and "0 < tm_cols m" and "3 \<le> tm_rows m" and "plain_frame m"
  shows "newlines out = nat (tm_rows m) + newlines (append_clipped mb [] (tm_header m) (tm_cols m))"
  using screen_rows [of mb m cap out "fst pos" "snd pos" sections] assms by (simp add: header_breaks_def)

text \<open>Every byte is a character of one cell.\<close>

definition byte_locale :: mb_locale where
  "byte_locale s = (if s = [] then None else Some (1, 1))"

theorem screen_fits_rows_witness:
  "\<exists>out row col sections. tui_render_screen_sections byte_locale (tui_model_init\<lparr>tm_rows := 3, tm_cols := 20\<rparr>) 10 = (out, (row, col), sections) \<and>
     newlines out = 3 \<and> row = 3 \<and> length sections = 3 \<and> last sections = TUI_ROW_INPUT"
proof -
  let ?m = "tui_model_init\<lparr>tm_rows := 3, tm_cols := 20\<rparr>"
  obtain out row col sections where r: "tui_render_screen_sections byte_locale ?m 10 = (out, (row, col), sections)"
    by (metis surj_pair)
  have "one_row (tm_header ?m)" "plain_frame ?m" by (simp_all add: tui_model_init_def plain_frame_def)
  with screen_fits_rows [OF r] have "newlines out = nat (tm_rows ?m) \<and> row = tm_rows ?m \<and> length sections = min (nat (tm_rows ?m)) 10 \<and>
    (nat (tm_rows ?m) \<le> 10 \<longrightarrow> last sections = TUI_ROW_INPUT)" by simp
  then have "newlines out = 3 \<and> row = 3 \<and> length sections = 3 \<and> last sections = TUI_ROW_INPUT" by simp
  with r show ?thesis by blast
qed

theorem header_break_adds_row_witness:
  "\<exists>out pos sections. tui_render_screen_sections byte_locale
       (tui_model_init\<lparr>tm_rows := 3, tm_cols := 20, tm_header := [CHR ''a'', CHR 0x0A, CHR ''b'']\<rparr>) 10 = (out, pos, sections) \<and> newlines out = 4"
proof -
  let ?m = "tui_model_init\<lparr>tm_rows := 3, tm_cols := 20, tm_header := [CHR ''a'', CHR 0x0A, CHR ''b'']\<rparr>"
  obtain out pos sections where r: "tui_render_screen_sections byte_locale ?m 10 = (out, pos, sections)" by (metis surj_pair)
  have "newlines (append_clipped byte_locale [] (tm_header ?m) 20) = 1" by code_simp
  with header_break_adds_row [OF r] have "newlines out = 4" by (simp add: tui_model_init_def plain_frame_def)
  with r show ?thesis by blast
qed

text \<open>The mark of a scrolled history stands before a status that was cut to the whole width: a row of 47 cells on a
  terminal of 20.\<close>

theorem status_row_overflows:
  "utf8_width byte_locale (status_row byte_locale (tui_model_init\<lparr>tm_status := replicate 20 (CHR ''s'')\<rparr>) 20 1) = 47"
  by code_simp

end
