(* ===== verification/Tui_Display.thy ===== *)
theory Tui_Display
  imports Tui_Screen
begin

text \<open>
  What a screen shows: the pieces a long line is cut into, the rows of the report, the bytes that can
  reach the terminal, and what a masked input discloses.
\<close>

section \<open>Wrapping\<close>

text \<open>\<open>mbrtowc\<close> looks at the bytes of the character it reports and at no others.\<close>

definition locale_ok :: "mb_locale \<Rightarrow> bool" where
  "locale_ok mb \<longleftrightarrow>
     (\<forall>s n w. mb s = Some (n, w) \<longrightarrow> n \<le> length s \<and> (\<forall>t. take n t = take n s \<longrightarrow> n \<le> length t \<longrightarrow> mb t = Some (n, w)))"

lemma locale_ok_length: "locale_ok mb \<Longrightarrow> mb s = Some (n, w) \<Longrightarrow> n \<le> length s"
  unfolding locale_ok_def by blast

lemma locale_ok_same:
  "locale_ok mb \<Longrightarrow> mb s = Some (n, w) \<Longrightarrow> take n t = take n s \<Longrightarrow> n \<le> length t \<Longrightarrow> mb t = Some (n, w)"
  unfolding locale_ok_def by blast

lemma char_width_cut:
  assumes "locale_ok mb" and "utf8_char_width mb s = (n, w)" and "n \<le> k" and "s \<noteq> []"
  shows "utf8_char_width mb (take k s) = (n, w) \<and> n \<le> length s"
proof (cases "mb s")
  case (Some p)
  obtain n' w' where p: "mb s = Some (n', w')" using Some by (cases p) simp
  then have "n' \<le> k" using assms(2,3) by (auto simp: utf8_char_width_def split: if_splits)
  then have "mb (take k s) = Some (n', w')"
    by (intro locale_ok_same [OF assms(1) p]) (use locale_ok_length [OF assms(1) p] in simp_all)
  moreover have "n \<le> length s"
    using assms(2,4) p locale_ok_length [OF assms(1) p] by (cases s) (auto simp: utf8_char_width_def split: if_splits)
  ultimately show ?thesis using assms(2) p by (simp add: utf8_char_width_def)
next
  case None
  then have nw: "n = 1" "w = 1" using assms(2) by (auto simp: utf8_char_width_def)
  have "mb (take k s) = None"
  proof (cases "mb (take k s)")
    case (Some p)
    obtain n' w' where p: "mb (take k s) = Some (n', w')" using Some by (cases p) simp
    then have "n' \<le> length s" "n' \<le> k" using locale_ok_length [OF assms(1) p] by simp_all
    then have "mb s = Some (n', w')" by (intro locale_ok_same [OF assms(1) p]) (auto simp: min_def split: if_splits)
    with None show ?thesis by simp
  qed
  with nw assms(4) show ?thesis by (cases s) (simp_all add: utf8_char_width_def)
qed

lemma fit_width_fits:
  "locale_ok mb \<Longrightarrow> 0 \<le> a \<Longrightarrow> utf8_fit_width mb s a \<le> length s \<and> utf8_width mb (take (utf8_fit_width mb s a) s) \<le> a"
proof (induction mb s a rule: utf8_fit_width.induct)
  case (1 mb s a)
  obtain n w where c: "utf8_char_width mb s = (n, w)" by (metis surj_pair)
  show ?case
  proof (cases "s = [] \<or> a \<le> 0 \<or> w > a")
    case True
    then show ?thesis using "1.prems" c by (auto simp: utf8_fit_width.simps [of mb s] utf8_width.simps [of mb "[]"])
  next
    case False
    define f where "f = utf8_fit_width mb (drop n s) (a - w)"
    have fit: "utf8_fit_width mb s a = n + f" using False c by (simp add: utf8_fit_width.simps [of mb s] f_def)
    have cut: "utf8_char_width mb (take (n + f) s) = (n, w)" "n \<le> length s"
      using char_width_cut [OF "1.prems"(1) c, of "n + f"] False by auto
    have IH: "f \<le> length (drop n s) \<and> utf8_width mb (take f (drop n s)) \<le> a - w"
      unfolding f_def by (rule "1.IH" [OF _ c [symmetric]]) (use False "1.prems" in auto)
    have "take (n + f) s \<noteq> []" using False char_width_pos [OF c] by auto
    then have "utf8_width mb (take (n + f) s) = w + utf8_width mb (take f (drop n s))"
      using utf8_width.simps [of mb "take (n + f) s"] by (simp only: cut if_False prod.case Let_def drop_take) simp
    moreover have "n + f \<le> length s" using IH cut(2) by auto
    ultimately show ?thesis using IH by (simp add: fit)
  qed
qed

text \<open>Wrapping loses nothing: the pieces of a line are the line, none is empty, and each fits into the width, unless it is a
  single byte of a character that is wider than the whole row.\<close>

theorem wrapping_lossless:
  assumes "locale_ok mb" and "p \<in> set (wrap_pieces mb available s)" and "0 \<le> available"
  shows "concat (wrap_pieces mb available s) = s \<and> p \<noteq> [] \<and> (utf8_width mb p \<le> available \<or> length p = 1)"
  using assms
proof (induction mb available s arbitrary: p rule: wrap_pieces.induct)
  case (1 mb a s)
  define n where "n = utf8_fit_width mb s a"
  define m where "m = (if n = 0 then 1 else n)"
  have s: "s \<noteq> []" using "1.prems"(2) by (auto simp: wrap_pieces.simps [of mb a s])
  have w: "wrap_pieces mb a s = take m s # wrap_pieces mb a (drop m s)"
    using s by (simp add: wrap_pieces.simps [of mb a s] Let_def n_def m_def)
  have fits: "utf8_width mb (take m s) \<le> a \<or> length (take m s) = 1" and ne: "take m s \<noteq> []"
    using fit_width_fits [OF "1.prems"(1,3), of s] s by (cases s; auto simp: m_def n_def split: if_splits)+
  have "concat (wrap_pieces mb a (drop m s)) = drop m s \<and> (p \<in> set (wrap_pieces mb a (drop m s)) \<longrightarrow> p \<noteq> [] \<and> (utf8_width mb p \<le> a \<or> length p = 1))"
  proof (cases "wrap_pieces mb a (drop m s) = []")
    case True
    then have "drop m s = []" using wrap_pieces.simps [of mb a "drop m s"] by (simp add: Let_def split: if_splits)
    with True show ?thesis by simp
  next
    case False
    then show ?thesis using "1.IH" [OF s n_def m_def _ _ "1.prems"(3)] "1.prems"(1) by (metis list.set_sel(1))
  qed
  with fits ne "1.prems"(2) show ?case by (auto simp: w)
qed

section \<open>Texts without control bytes\<close>

definition plain_char :: "char \<Rightarrow> bool" where
  "plain_char c \<longleftrightarrow> 32 \<le> (of_char c :: nat) \<and> (of_char c :: nat) \<noteq> 127"

abbreviation plain_text :: "string \<Rightarrow> bool" where
  "plain_text s \<equiv> list_all plain_char s"

lemma plain_one_row: "plain_text s \<Longrightarrow> one_row s"
  by (auto simp: one_row_def list_all_iff plain_char_def)

lemma plain_utf8 [simp]: "plain_text (utf8 bs) \<longleftrightarrow> list_all (\<lambda>b. 32 \<le> b mod 256 \<and> b mod 256 \<noteq> 127) bs"
  by (simp add: utf8_def list_all_iff plain_char_def)

lemma plain_concat_map [simp]: "plain_text (concat (map f xs)) \<longleftrightarrow> (\<forall>x \<in> set xs. plain_text (f x))"
  by (auto simp: list_all_iff)

lemma plain_report:
  "plain_text report_title" "plain_text report_conclusion" "\<forall>d \<in> set report_dimensions. plain_text (rd_label d)"
  "\<forall>r \<in> set report_dones. plain_text r" "\<forall>r \<in> set report_roadmap. plain_text r"
  by (simp_all add: report_title_def report_conclusion_def report_dimensions_def report_dones_def report_roadmap_def plain_char_def)

lemma plain_gaps: "\<forall>g \<in> set report_gaps. plain_text (rg_title g) \<and> (\<forall>i \<in> set (rg_items g). plain_text i)"
  by (simp add: report_gaps_def g_gap_approval_def g_gap_git_def g_gap_plan_def g_gap_memory_def g_gap_tests_def g_gap_parallel_def
      g_gap_diagnostics_def plain_char_def)

lemma plain_show_nat [simp]: "plain_text (show_nat n)"
proof (induction n rule: show_nat.induct)
  case (1 n)
  have "plain_char (digit_char k)" if "k < 10" for k using that by (simp add: digit_char_def plain_char_def)
  with 1 show ?case by (subst show_nat.simps) auto
qed

lemma plain_show_int [simp]: "plain_text (show_int i)"
  by (simp add: show_int_def plain_char_def)

text \<open>What \<open>append_display_text\<close> leaves of a text: lines of plain bytes and tabs.\<close>

definition displayable :: "char \<Rightarrow> bool" where
  "displayable c \<longleftrightarrow> c = CHR 0x0A \<or> c = CHR 0x09 \<or> plain_char c"

abbreviation shown_text :: "string \<Rightarrow> bool" where
  "shown_text s \<equiv> list_all displayable s"

lemma displayable_newline [simp]: "displayable (CHR 0x0A)"
  by (simp add: displayable_def)

lemma plain_shown [simp]: "plain_text s \<Longrightarrow> shown_text s"
  by (auto simp: list_all_iff displayable_def)

lemma shown_concat_map [simp]: "shown_text (concat (map f xs)) \<longleftrightarrow> (\<forall>x \<in> set xs. shown_text (f x))"
  by (auto simp: list_all_iff)

lemma plain_bar: "plain_text out \<Longrightarrow> plain_text (report_append_bar out n)"
  by (simp add: report_append_bar_def Let_def plain_char_def)

lemma newlines_concat_map: "newlines (concat (map f xs)) = sum_list (map (\<lambda>x. newlines (f x)) xs)"
  by (induction xs) simp_all

lemma newlines_plain [simp]: "plain_text s \<Longrightarrow> newlines s = 0"
  by (simp add: newlines_one_row plain_one_row)

lemma dimension_row:
  assumes "plain_text (rd_label d)"
  shows "newlines (report_dimension_row d) = 1" "shown_text (report_dimension_row d)"
proof -
  have "plain_text (report_append_bar (rd_label d @ replicate (18 - length (rd_label d)) CHR '' '' @ '' '') (rd_current d))"
    using assms by (intro plain_bar) (auto simp: list_all_iff plain_char_def)
  then show "newlines (report_dimension_row d) = 1" "shown_text (report_dimension_row d)"
    by (simp_all add: report_dimension_row_def displayable_def plain_char_def)
qed

lemma gap_rows:
  assumes "plain_text (rg_title g) \<and> (\<forall>i \<in> set (rg_items g). plain_text i)"
  shows "newlines (report_gap_rows g) = 1 + length (rg_items g)" "shown_text (report_gap_rows g)"
proof -
  have "newlines (concat (map (\<lambda>i. ''  - '' @ i @ [CHR 0x0A]) is)) = length is" if "\<forall>i \<in> set is. plain_text i" for "is"
    using that by (induction "is") simp_all
  with assms show "newlines (report_gap_rows g) = 1 + length (rg_items g)" "shown_text (report_gap_rows g)"
    by (simp_all add: report_gap_rows_def displayable_def plain_char_def)
qed

lemma listed_rows:
  assumes "\<forall>d \<in> set ds. plain_text d"
  shows "newlines (concat (map (\<lambda>d. ''  + '' @ d @ [CHR 0x0A]) ds)) = length ds"
    and "newlines (concat (map (\<lambda>(i, r). ''  '' @ show_nat (i + 1) @ ''. '' @ r @ [CHR 0x0A]) (enumerate k ds))) = length ds"
    and "shown_text (concat (map (\<lambda>(i, r). ''  '' @ show_nat (i + 1) @ ''. '' @ r @ [CHR 0x0A]) (enumerate k ds)))"
  using assms by (induction ds arbitrary: k) (simp_all add: displayable_def plain_char_def)

lemma sum_list_same: "\<forall>x \<in> set xs. f x = (g x :: nat) \<Longrightarrow> sum_list (map f xs) = sum_list (map g xs)"
  by (metis map_eq_conv)

text \<open>The number of report lines that the scrolling of \<open>tui.c\<close> counts on is the number of lines the renderer
  writes, and no byte of the report is a control byte.\<close>

theorem report_lines:
  "newlines (report_append_body []) = tui_report_content_lines \<and> shown_text (report_append_body [])"
proof -
  have d: "newlines (concat (map report_dimension_row report_dimensions)) = length report_dimensions"
    using sum_list_same [of report_dimensions "\<lambda>d. newlines (report_dimension_row d)" "\<lambda>_. 1"] plain_report(3)
    by (simp add: newlines_concat_map dimension_row sum_list_triv)
  have g: "newlines (concat (map report_gap_rows report_gaps)) = sum_list (map (\<lambda>g. 1 + length (rg_items g)) report_gaps)"
    using sum_list_same [of report_gaps "\<lambda>g. newlines (report_gap_rows g)" "\<lambda>g. 1 + length (rg_items g)"] plain_gaps
    by (simp add: newlines_concat_map gap_rows)
  have s: "shown_text (concat (map report_dimension_row report_dimensions))" "shown_text (concat (map report_gap_rows report_gaps))"
    using plain_report(3) plain_gaps by (simp_all add: dimension_row gap_rows)
  have "newlines (report_append_body []) = tui_report_content_lines"
    using plain_report listed_rows(1) [OF plain_report(4)] listed_rows(2) [OF plain_report(5), of 0]
    by (simp add: report_append_body_def tui_report_content_lines_def d g plain_char_def)
  moreover have "shown_text (report_append_body [])"
    using plain_report s listed_rows(3) [OF plain_report(5), of 0] by (simp add: report_append_body_def displayable_def plain_char_def)
  ultimately show ?thesis ..
qed

section \<open>Bytes that reach the terminal\<close>

definition model_plain :: "tui_model \<Rightarrow> bool" where
  "model_plain m \<longleftrightarrow>
     plain_text (tm_header m) \<and> plain_text (tm_status m) \<and> plain_text (tm_usage m) \<and> plain_text (tm_input m) \<and>
     (\<forall>c \<in> set (tm_choices m). plain_text c) \<and> (\<forall>l \<in> set (tm_lines m). shown_text (ln_text l))"

lemma hex_upper_plain: "n < 16 \<Longrightarrow> plain_char (hex_upper n)"
proof -
  assume "n < 16"
  then have "hex_upper n \<in> set ''0123456789ABCDEF''" unfolding hex_upper_def by (intro nth_mem) simp
  then show ?thesis by (auto simp: plain_char_def)
qed

lemma display_char_shown: "shown_text (display_char c)"
proof -
  have "(of_char c :: nat) < 16 * 16" using nat_of_char_less_256 [of c] by (simp del: nat_of_char_less_256)
  then have "(of_char c :: nat) div 16 < 16" by (rule less_mult_imp_div_less)
  then have "plain_char (hex_upper ((of_char c :: nat) div 16))" "plain_char (hex_upper ((of_char c :: nat) mod 16))"
    by (auto intro!: hex_upper_plain)
  moreover have "(of_char (CHR 0x0A) :: nat) = 10" "(of_char (CHR 0x09) :: nat) = 9" by simp_all
  then have "((of_char c :: nat) = 10 \<longrightarrow> c = CHR 0x0A) \<and> ((of_char c :: nat) = 9 \<longrightarrow> c = CHR 0x09)"
    by (metis of_char_eq_iff)
  ultimately show ?thesis by (auto simp: display_char_def Let_def displayable_def plain_char_def)
qed

lemma append_display_shown: "shown_text out \<Longrightarrow> shown_text (append_display_text out t)"
  by (simp add: append_display_text_def display_char_shown)

lemma append_plain: "model_plain m \<Longrightarrow> model_plain (tui_model_append_n m kind t)"
  by (auto simp: model_plain_def tui_model_append_n_def append_display_shown)

lemma stream_plain: "model_plain m \<Longrightarrow> model_plain (tui_model_append_stream_n m t)"
  using append_plain [of m LINE_ASSISTANT t]
  by (auto simp: model_plain_def tui_model_append_stream_n_def append_display_shown dest: in_set_butlastD)

lemma scroll_plain [simp]: "model_plain (tui_model_scroll m d) = model_plain m"
  by (simp add: model_plain_def tui_model_scroll_def)

lemma shown_take [simp]: "shown_text s \<Longrightarrow> shown_text (take n s)"
  by (auto simp: list_all_iff dest: in_set_takeD)

lemma shown_clipped: "shown_text out \<Longrightarrow> shown_text t \<Longrightarrow> shown_text (append_clipped mb out t n)"
  by (simp add: append_clipped_def)

lemma shown_pieces: "shown_text s \<Longrightarrow> p \<in> set (wrap_pieces mb a s) \<Longrightarrow> shown_text p"
proof (induction mb a s rule: wrap_pieces.induct)
  case (1 mb a s)
  have "shown_text (drop n s)" for n using "1.prems"(1) by (auto simp: list_all_iff dest: in_set_dropD)
  then show ?case using 1 by (auto simp: wrap_pieces.simps [of mb a s] Let_def split: if_splits)
qed

lemma shown_badge: "shown_text (line_badge k)"
  by (cases k) (simp_all add: displayable_def plain_char_def)

lemma shown_line: "shown_text out \<Longrightarrow> shown_text (ln_text l) \<Longrightarrow> shown_text (append_line mb out l cols)"
  using shown_pieces [of "ln_text l" _ mb] shown_badge
  by (auto simp: append_line_def append_wrapped_def Let_def displayable_def plain_char_def)

lemma shown_rows:
  assumes "shown_text s" and "r \<in> set (split_rows s)"
  shows "shown_text r"
  using assms
proof (induction s arbitrary: r)
  case (Cons c s)
  have "split_rows s \<noteq> []" by (metis split_rows_length list.size(3) add_is_0 one_neq_zero)
  with Cons show ?case by (cases "split_rows s") (auto split: if_splits)
qed simp

lemma masked_shown [simp]: "plain_text (masked s)"
  by (auto simp: masked_def list_all_iff plain_char_def)

lemma shown_middle:
  assumes "model_plain m" and "r \<in> set (fst (middle_part mb m cols middle))"
  shows "shown_text r"
proof -
  have lines: "shown_text (foldl (\<lambda>all l. append_line mb all l cols) out ls)"
    if "shown_text out" "\<forall>l \<in> set ls. shown_text (ln_text l)" for out ls
    using that by (induction ls arbitrary: out) (simp_all add: shown_line)
  have view: "shown_text r" if "shown_text all" "r \<in> set (fst (viewport all k middle))" for all k
    using that by (auto simp: viewport_def Let_def dest!: in_set_takeD in_set_dropD intro: shown_rows)
  have choice: "shown_text r" if c: "tm_choice_mode m" and r: "r \<in> set (choice_rows mb m cols middle)"
  proof -
    have "shown_text (tm_choices m ! tui_choice_match_at m k)" if "k < tui_choice_match_count m" for k
      using that c assms(1) matching_index [of k m] by (auto simp: tui_choice_match_count_def tui_choice_match_at_def model_plain_def)
    with r show ?thesis
      by (auto simp: choice_rows_def Let_def displayable_def plain_char_def intro!: shown_clipped split: if_splits)
  qed
  have m: "\<forall>l \<in> set (tm_lines m). shown_text (ln_text l)" using assms(1) by (simp add: model_plain_def)
  show ?thesis
    using assms(2) view [OF conjunct2 [OF report_lines]] choice view [OF lines [OF _ m, of "[]"]]
    by (auto simp: middle_part_def split: if_splits)
qed

lemma shown_status: "model_plain m \<Longrightarrow> shown_text (status_row mb m cols scroll)"
  by (auto simp: model_plain_def status_row_def Let_def displayable_def plain_char_def intro!: shown_clipped shown_take)

text \<open>No control byte but newline and tab reaches the terminal, whatever the model and the tools write into the history.\<close>

theorem screen_no_escapes:
  assumes "model_plain m"
  shows "shown_text (fst (tui_render_screen mb m))"
proof -
  define middle where "middle rows = nat (rows - (if rows \<ge> 3 then 1 else 0) - (if rows \<ge> 2 then 1 else (0 :: int)) - 1)" for rows
  have mid: "shown_text (concat (map (\<lambda>r. r @ [CHR 0x0A]) (fst (middle_part mb m cols k) @ replicate n [])))" for cols k n
    unfolding shown_concat_map
  proof
    fix r assume "r \<in> set (fst (middle_part mb m cols k) @ replicate n [])"
    then have "shown_text r" using shown_middle [OF assms, of r mb cols k] by auto
    then show "shown_text (r @ [CHR 0x0A])" by simp
  qed
  have display: "shown_text (display_input m)" using assms by (auto simp: display_input_def model_plain_def)
  have header: "shown_text (append_clipped mb [] (tm_header m) cols)" for cols using assms by (intro shown_clipped) (auto simp: model_plain_def)
  show ?thesis
    using mid display header shown_status [OF assms]
    by (simp add: tui_render_screen_def tui_render_screen_sections_def Let_def split_beta displayable_def plain_char_def)
qed

section \<open>Masked input\<close>

text \<open>C30: a masked input discloses no more than its number of characters: two inputs that agree in it, and in the characters
  before the cursor, give the same screen with the same cursor.\<close>

theorem masked_input_hidden:
  assumes "tm_secret m" and "\<not> tm_choice_mode m" and "c \<le> length i" and "d \<le> length j"
    and "length (masked i) = length (masked j)" and "length (masked (take c i)) = length (masked (take d j))"
  shows "tui_render_screen_sections mb (m\<lparr>tm_input := i, tm_cursor := c\<rparr>) cap =
    tui_render_screen_sections mb (m\<lparr>tm_input := j, tm_cursor := d\<rparr>) cap"
proof -
  let ?m = "m\<lparr>tm_input := i, tm_cursor := c\<rparr>" and ?n = "m\<lparr>tm_input := j, tm_cursor := d\<rparr>"
  have "masked i = masked j" using assms(5) by (simp add: masked_def map_replicate_const)
  then have "display_input ?m = display_input ?n" using assms(1) by (simp add: display_input_def)
  moreover have "display_cursor ?m = display_cursor ?n" using assms(1,3,4,6) by (simp add: display_cursor_def Let_def min_absorb1)
  moreover have "middle_part mb ?m cols k = middle_part mb ?n cols k" for cols k using assms(2) by (simp add: middle_part_def)
  moreover have "status_row mb ?m cols k = status_row mb ?n cols k" for cols k by (simp add: status_row_def Let_def)
  ultimately show ?thesis unfolding tui_render_screen_sections_def Let_def by simp
qed

theorem masked_input_hidden_witness:
  "tui_render_screen_sections byte_locale (tui_model_init\<lparr>tm_secret := True, tm_input := ''secret'', tm_cursor := 2\<rparr>) 24 =
   tui_render_screen_sections byte_locale (tui_model_init\<lparr>tm_secret := True, tm_input := ''hidden'', tm_cursor := 2\<rparr>) 24"
proof -
  let ?m = "tui_model_init\<lparr>tm_secret := True\<rparr>"
  have "\<not> continuation c" if "c \<in> set ''secrethidden''" for c using that by (auto simp: continuation_def)
  then have "length (masked ''secret'') = length (masked ''hidden'')" "length (masked (take 2 ''secret'')) = length (masked (take 2 ''hidden''))"
    by (simp_all add: masked_def)
  then have "tui_render_screen_sections byte_locale (?m\<lparr>tm_input := ''secret'', tm_cursor := 2\<rparr>) 24 =
      tui_render_screen_sections byte_locale (?m\<lparr>tm_input := ''hidden'', tm_cursor := 2\<rparr>) 24"
    by (intro masked_input_hidden) (simp_all add: tui_model_init_def)
  then show ?thesis by simp
qed

end
