(* ===== verification/Tui_Input.thy ===== *)
theory Tui_Input
  imports Tui_Display Tool_Format Agent
begin

text \<open>
  The terminal front end, \<open>src/src/tui/tui.c\<close>: keys, the input line, the choice list, the report and the
  events of the agent.  A callback of the application may change the front end, so it is a function on
  the pair of the front end and the state of the application.  Drawing reads the model and
  changes nothing; the size of the terminal is what the backend answers.
\<close>

section \<open>State\<close>

definition TUI_INPUT_MAX :: nat where
  "TUI_INPUT_MAX = 8192"

text \<open>\<open>t_esc_state\<close> is 0 outside of an escape sequence, 1 after ESC, 2 after its prefix, 3 inside its number.\<close>

record tui =
  t_model :: tui_model
  t_esc_state :: nat
  t_esc_code :: int

record 'w handlers =
  h_submit :: "(string \<Rightarrow> tui \<times> 'w \<Rightarrow> tui \<times> 'w) option"
  h_cancel :: "(tui \<times> 'w \<Rightarrow> tui \<times> 'w) option"
  h_escape :: "(tui \<times> 'w \<Rightarrow> tui \<times> 'w) option"
  h_choice_cancel :: "(tui \<times> 'w \<Rightarrow> tui \<times> 'w) option"
  h_report_cancel :: "(tui \<times> 'w \<Rightarrow> tui \<times> 'w) option"

definition tui_new :: "int \<Rightarrow> int \<Rightarrow> tui" where
  "tui_new rows cols = \<lparr>t_model = tui_model_init\<lparr>tm_rows := rows, tm_cols := cols\<rparr>, t_esc_state = 0, t_esc_code = 0\<rparr>"

definition on_model :: "(tui_model \<Rightarrow> tui_model) \<Rightarrow> tui \<Rightarrow> tui" where
  "on_model f t = t\<lparr>t_model := f (t_model t)\<rparr>"

definition tui_set_header :: "string option \<Rightarrow> tui \<Rightarrow> tui" where
  "tui_set_header s = on_model (tm_header_update (\<lambda>_. case s of None \<Rightarrow> [] | Some h \<Rightarrow> c_str h))"

definition tui_set_status :: "string option \<Rightarrow> tui \<Rightarrow> tui" where
  "tui_set_status s = on_model (tm_status_update (\<lambda>_. case s of None \<Rightarrow> [] | Some h \<Rightarrow> c_str h))"

definition tui_set_usage :: "string option \<Rightarrow> tui \<Rightarrow> tui" where
  "tui_set_usage s = on_model (tm_usage_update (\<lambda>_. case s of None \<Rightarrow> [] | Some h \<Rightarrow> c_str h))"

definition tui_set_busy :: "bool \<Rightarrow> tui \<Rightarrow> tui" where
  "tui_set_busy busy = on_model (\<lambda>m. m\<lparr>tm_busy := busy,
     tm_status := (if busy then utf8 [226, 151, 143] @ '' running... (Ctrl+C to cancel)''
                   else ''ready. type a message, Ctrl+D or /exit to quit'')\<rparr>)"

definition tui_set_input_secret :: "bool \<Rightarrow> tui \<Rightarrow> tui" where
  "tui_set_input_secret secret = on_model (\<lambda>m. m\<lparr>tm_secret := secret\<rparr>)"

definition tui_check_resize :: "int \<Rightarrow> int \<Rightarrow> tui \<Rightarrow> bool \<times> tui" where
  "tui_check_resize rows cols t =
     (if rows \<noteq> tm_rows (t_model t) \<or> cols \<noteq> tm_cols (t_model t) then (True, on_model (\<lambda>m. m\<lparr>tm_rows := rows, tm_cols := cols\<rparr>) t)
      else (False, t))"

section \<open>Choices and the report\<close>

definition tui_choice_start :: "string option list \<Rightarrow> nat \<Rightarrow> tui \<Rightarrow> tui" where
  "tui_choice_start labels selected = on_model (\<lambda>m.
     m\<lparr>tm_choices := map (\<lambda>l. case l of None \<Rightarrow> [] | Some s \<Rightarrow> c_str s) labels, tm_report_mode := False, tm_report_scroll := 0,
       tm_choice_mode := True, tm_choice_selected := (if selected < length labels then selected else 0), tm_input := [], tm_cursor := 0\<rparr>)"

definition tui_choice_stop :: "tui \<Rightarrow> tui" where
  "tui_choice_stop = on_model (\<lambda>m.
     m\<lparr>tm_choice_mode := False, tm_choice_selected := 0, tm_choices := [], tm_input := [], tm_cursor := 0\<rparr>)"

definition tui_choice_active :: "tui \<Rightarrow> bool" where
  "tui_choice_active t \<longleftrightarrow> tm_choice_mode (t_model t)"

definition tui_choice_selected_index :: "tui \<Rightarrow> nat" where
  "tui_choice_selected_index t =
     (if tm_choice_mode (t_model t) then tui_choice_match_at (t_model t) (tm_choice_selected (t_model t)) else SIZE_MAX)"

definition report_middle_rows :: "tui_model \<Rightarrow> nat" where
  "report_middle_rows m = nat (max 1 ((if tm_rows m > 0 then tm_rows m else 1) - 3))"

definition tui_report_start :: "tui \<Rightarrow> tui" where
  "tui_report_start t =
     on_model (\<lambda>m. m\<lparr>tm_report_mode := True, tm_report_scroll := tui_report_content_lines - report_middle_rows m, tm_input := [],
                     tm_cursor := 0, tm_secret := False\<rparr>)
       (if tm_choice_mode (t_model t) then tui_choice_stop t else t)"

definition tui_report_stop :: "tui \<Rightarrow> tui" where
  "tui_report_stop = on_model (\<lambda>m. m\<lparr>tm_report_mode := False, tm_report_scroll := 0, tm_input := [], tm_cursor := 0\<rparr>)"

definition tui_report_active :: "tui \<Rightarrow> bool" where
  "tui_report_active t \<longleftrightarrow> tm_report_mode (t_model t)"

definition tui_report_scroll :: "int \<Rightarrow> tui \<Rightarrow> tui" where
  "tui_report_scroll delta t =
     (let m = t_model t; max_scroll = tui_report_content_lines - report_middle_rows m; now = min (tm_report_scroll m) max_scroll in
      if \<not> tm_report_mode m \<or> delta = 0 then t
      else on_model (\<lambda>m. m\<lparr>tm_report_scroll :=
             (if delta > 0 then (if nat delta > max_scroll - now then max_scroll else now + nat delta)
              else now - nat (- delta))\<rparr>) t)"

section \<open>The conversation\<close>

text \<open>The summary of a call; a name that is \<open>NULL\<close> is replaced before the line reaches the screen.\<close>

definition call_line :: "(string \<Rightarrow> json option) \<Rightarrow> (string \<Rightarrow> string) \<Rightarrow> string option \<Rightarrow> string option \<Rightarrow> string" where
  "call_line read real_text name arguments =
     (case tui_format_tool_call_summary read real_text name arguments of None \<Rightarrow> [] | Some s \<Rightarrow> s)"

definition mark :: "bool \<Rightarrow> string" where
  "mark is_error = (if is_error then utf8 [226, 156, 151] else utf8 [226, 156, 147]) @ '' ''"

definition history_tool_name :: "message list \<Rightarrow> nat \<Rightarrow> string option \<Rightarrow> string" where
  "history_tool_name msgs before call_id =
     (case call_id of
        None \<Rightarrow> ''tool''
      | Some i \<Rightarrow>
          (case find (\<lambda>tc. tc_id tc = Some i)
                  (concat (map m_tool_calls (filter (\<lambda>m. m_role m = MSG_ASSISTANT) (rev (take before msgs))))) of
             None \<Rightarrow> ''tool''
           | Some tc \<Rightarrow> (case tc_name tc of Some n \<Rightarrow> n | None \<Rightarrow> ''tool'')))"

definition replay_message ::
  "(string \<Rightarrow> json option) \<Rightarrow> (string \<Rightarrow> string) \<Rightarrow> message list \<Rightarrow> nat \<Rightarrow> tui_model \<Rightarrow> tui_model" where
  "replay_message read real_text msgs i m =
     (let msg = msgs ! i in
      case m_role msg of
        MSG_USER \<Rightarrow> (case m_content msg of None \<Rightarrow> m | Some s \<Rightarrow> tui_model_append m LINE_USER s)
      | MSG_ASSISTANT \<Rightarrow>
          foldl (\<lambda>m tc. tui_model_append_n m LINE_TOOL (call_line read real_text (tc_name tc) (tc_arguments tc)))
            (case m_content msg of None \<Rightarrow> m | Some s \<Rightarrow> if c_str s = [] then m else tui_model_append m LINE_ASSISTANT s)
            (m_tool_calls msg)
      | MSG_TOOL \<Rightarrow> tui_model_append_n m LINE_TOOL_END (mark (m_is_error msg) @ history_tool_name msgs i (m_tool_call_id msg))
      | MSG_SYSTEM \<Rightarrow> m)"

definition tui_replay_history :: "(string \<Rightarrow> json option) \<Rightarrow> (string \<Rightarrow> string) \<Rightarrow> message list \<Rightarrow> tui \<Rightarrow> tui" where
  "tui_replay_history read real_text msgs =
     on_model (\<lambda>m. tui_model_end_stream (foldl (\<lambda>m i. replay_message read real_text msgs i m) m [0..<length msgs]))"

definition approval_line :: "string \<Rightarrow> string \<Rightarrow> string" where
  "approval_line name preview =
     utf8 [229, 174, 161, 230, 137, 185, 232, 175, 183, 230, 177, 130, 239, 188, 154] @ name @ [CHR 0x0A] @
     utf8 [229, 143, 152, 230, 155, 180, 233, 162, 132, 232, 167, 136, 239, 188, 154] @ [CHR 0x0A] @ preview @ [CHR 0x0A] @
     utf8 [232, 190, 147, 229, 133, 165] @ '' /approve '' @ utf8 [230, 137, 167, 232, 161, 140, 239, 188, 140] @ ''/reject '' @
     utf8 [230, 139, 146, 231, 187, 157, 239, 188, 140] @ utf8 [230, 136, 150] @ '' /trust on '' @
     utf8 [229, 188, 128, 229, 144, 175, 230, 156, 172, 232, 191, 155, 231, 168, 139, 232, 135, 170, 229, 138, 168, 230, 137, 185,
       229, 135, 134]"

text \<open>The text of an event is its bytes; a text event without bytes has none to add.\<close>

definition tui_on_agent_event :: "(string \<Rightarrow> json option) \<Rightarrow> (string \<Rightarrow> string) \<Rightarrow> agent_event \<Rightarrow> tui \<Rightarrow> tui" where
  "tui_on_agent_event read real_text ev =
     on_model (\<lambda>m.
       case ev_type ev of
         AGENT_EVT_TEXT \<Rightarrow> (case ev_text ev of None \<Rightarrow> m | Some s \<Rightarrow> tui_model_append_stream_n m s)
       | AGENT_EVT_TOOL_START \<Rightarrow> tui_model_append_n m LINE_TOOL (call_line read real_text (ev_name ev) (ev_text ev))
       | AGENT_EVT_TOOL_APPROVAL \<Rightarrow>
           tui_model_append_n m LINE_SYSTEM
             (approval_line (case ev_name ev of None \<Rightarrow> ''?'' | Some n \<Rightarrow> c_str n)
                (case ev_preview ev of Some p \<Rightarrow> c_str p | None \<Rightarrow> c_str (call_line read real_text (ev_name ev) (ev_text ev))))
       | AGENT_EVT_TOOL_END \<Rightarrow>
           tui_model_append_n m LINE_TOOL_END (mark (ev_is_error ev) @ (case ev_name ev of None \<Rightarrow> ''?'' | Some n \<Rightarrow> c_str n))
       | AGENT_EVT_STATUS \<Rightarrow> m
       | AGENT_EVT_ERROR \<Rightarrow> (case ev_text ev of None \<Rightarrow> m | Some s \<Rightarrow> tui_model_append m LINE_SYSTEM s))"

section \<open>The input line\<close>

definition tui_insert_char :: "char \<Rightarrow> tui_model \<Rightarrow> tui_model" where
  "tui_insert_char c m =
     (if length (tm_input m) \<ge> TUI_INPUT_MAX then m
      else
        (let cursor = min (tm_cursor m) (length (tm_input m)) in
         m\<lparr>tm_input := take cursor (tm_input m) @ c # drop cursor (tm_input m), tm_cursor := cursor + 1,
           tm_choice_selected := (if tm_choice_mode m then 0 else tm_choice_selected m)\<rparr>))"

text \<open>The start of the character before a position and the end of the one at it.\<close>

definition utf8_prev :: "string \<Rightarrow> nat \<Rightarrow> nat" where
  "utf8_prev s pos = (if pos = 0 then 0 else length (dropWhile continuation (rev (take pos s))) - 1)"

definition utf8_next :: "string \<Rightarrow> nat \<Rightarrow> nat" where
  "utf8_next s pos = (if pos \<ge> length s then length s else pos + 1 + length (takeWhile continuation (drop (pos + 1) s)))"

definition tui_backspace :: "tui_model \<Rightarrow> tui_model" where
  "tui_backspace m =
     (if tm_cursor m = 0 \<or> tm_input m = [] then m
      else
        (let cursor = min (tm_cursor m) (length (tm_input m)); start = utf8_prev (tm_input m) cursor in
         m\<lparr>tm_input := take start (tm_input m) @ drop cursor (tm_input m), tm_cursor := start,
           tm_choice_selected := (if tm_choice_mode m then 0 else tm_choice_selected m)\<rparr>))"

section \<open>Keys\<close>

definition tui_submit_line :: "'w handlers \<Rightarrow> tui \<times> 'w \<Rightarrow> tui \<times> 'w" where
  "tui_submit_line h s =
     (let t = fst s; m = t_model t; line = c_str (tm_input m);
          t1 = (if tm_secret m then t else on_model (\<lambda>m. tui_model_append m LINE_USER line) t) in
      if tm_input m = [] \<and> \<not> tm_choice_mode m then s
      else
        (case h_submit h of
           Some submit \<Rightarrow>
             if tm_choice_mode m then submit line (t1, snd s)
             else submit line (on_model (\<lambda>m. m\<lparr>tm_input := [], tm_cursor := 0\<rparr>) t1, snd s)
         | None \<Rightarrow> (on_model (\<lambda>m. m\<lparr>tm_input := [], tm_cursor := 0\<rparr>) t1, snd s)))"

definition tui_report_request_close :: "'w handlers \<Rightarrow> tui \<times> 'w \<Rightarrow> tui \<times> 'w" where
  "tui_report_request_close h s = (case h_report_cancel h of Some f \<Rightarrow> f s | None \<Rightarrow> (tui_report_stop (fst s), snd s))"

text \<open>The key that leaves a mode: the report first, then the choice list, then what the key does otherwise.\<close>

definition leave_mode :: "'w handlers \<Rightarrow> (tui \<times> 'w \<Rightarrow> tui \<times> 'w) option \<Rightarrow> tui \<times> 'w \<Rightarrow> tui \<times> 'w" where
  "leave_mode h otherwise s =
     (if tm_report_mode (t_model (fst s)) then tui_report_request_close h s
      else if tm_choice_mode (t_model (fst s)) \<and> h_choice_cancel h \<noteq> None then the (h_choice_cancel h) s
      else (case otherwise of Some f \<Rightarrow> f s | None \<Rightarrow> s))"

definition normal_key :: "'w handlers \<Rightarrow> nat \<Rightarrow> tui \<times> 'w \<Rightarrow> tui \<times> 'w" where
  "normal_key h c s =
     (let (t, w) = s; report = tm_report_mode (t_model t) in
      if c = 27 then (t\<lparr>t_esc_state := 1\<rparr>, w)
      else if c = 13 \<or> c = 10 then (if report then tui_report_request_close h s else tui_submit_line h s)
      else if c = 127 \<or> c = 8 then (if report then s else (on_model tui_backspace t, w))
      else if c = 3 then leave_mode h (h_cancel h) s
      else if c = 4 then leave_mode h (map_option (\<lambda>submit. submit ''/quit'') (h_submit h)) s
      else if c \<ge> 32 \<and> c \<noteq> 127 \<and> \<not> report then (on_model (tui_insert_char (char_of c)) t, w)
      else s)"

text \<open>A page is half of the rows.\<close>

definition page :: "tui_model \<Rightarrow> int" where
  "page m = (if tm_rows m > 4 then tm_rows m div 2 else 1)"

definition arrow :: "int \<Rightarrow> tui \<Rightarrow> tui" where
  "arrow delta t =
     (if tm_report_mode (t_model t) then tui_report_scroll delta t
      else if tm_choice_mode (t_model t) then
        on_model (\<lambda>m. let matches = tui_choice_match_count m; k = tm_choice_selected m in
          if delta > 0 then (if matches > 0 \<and> k > 0 then m\<lparr>tm_choice_selected := k - 1\<rparr> else m)
          else (if matches > 0 \<and> k + 1 < matches then m\<lparr>tm_choice_selected := k + 1\<rparr> else m)) t
      else on_model (\<lambda>m. tui_model_scroll m delta) t)"

definition move_to :: "(tui_model \<Rightarrow> nat) \<Rightarrow> tui \<Rightarrow> tui" where
  "move_to f t = (if tm_report_mode (t_model t) then t else on_model (\<lambda>m. m\<lparr>tm_cursor := f m\<rparr>) t)"

definition tilde_key :: "tui \<Rightarrow> tui" where
  "tilde_key t =
     (let n = t_esc_code t; m = t_model t in
      if tm_report_mode m then (if n = 5 then tui_report_scroll (page m) t else if n = 6 then tui_report_scroll (- page m) t else t)
      else if n = 1 then move_to (\<lambda>_. 0) t
      else if n = 4 then move_to (\<lambda>m. length (tm_input m)) t
      else if n = 5 then on_model (\<lambda>m. tui_model_scroll m (page m)) t
      else if n = 6 then on_model (\<lambda>m. tui_model_scroll m (- page m)) t
      else t)"

text \<open>The number of a sequence is an \<open>int\<close>; beyond 32 bits it wraps around here, which C leaves undefined.\<close>

definition int32_wrap :: "int \<Rightarrow> int" where
  "int32_wrap i = (i + 2 ^ 31) mod 2 ^ 32 - 2 ^ 31"

definition sequence_key :: "nat \<Rightarrow> tui \<Rightarrow> tui" where
  "sequence_key c t =
     (if 48 \<le> c \<and> c \<le> 57 then t\<lparr>t_esc_code := int32_wrap (t_esc_code t * 10 + int (c - 48)), t_esc_state := 3\<rparr>
      else if c = 65 then (arrow 1 t)\<lparr>t_esc_state := 0\<rparr>
      else if c = 66 then (arrow (- 1) t)\<lparr>t_esc_state := 0\<rparr>
      else if c = 68 then (move_to (\<lambda>m. utf8_prev (tm_input m) (tm_cursor m)) t)\<lparr>t_esc_state := 0\<rparr>
      else if c = 67 then (move_to (\<lambda>m. utf8_next (tm_input m) (tm_cursor m)) t)\<lparr>t_esc_state := 0\<rparr>
      else if c = 72 then (move_to (\<lambda>_. 0) t)\<lparr>t_esc_state := 0\<rparr>
      else if c = 70 then (move_to (\<lambda>m. length (tm_input m)) t)\<lparr>t_esc_state := 0\<rparr>
      else if c = 126 then (tilde_key t)\<lparr>t_esc_state := 0, t_esc_code := 0\<rparr>
      else t\<lparr>t_esc_state := 0, t_esc_code := 0\<rparr>)"

definition feed_byte :: "'w handlers \<Rightarrow> tui \<times> 'w \<Rightarrow> char \<Rightarrow> tui \<times> 'w" where
  "feed_byte h s ch =
     (let (t, w) = s; c = of_char ch in
      if t_esc_state t = 0 then normal_key h c s
      else if t_esc_state t = 1 then
        (if c = 91 \<or> c = 79 then (t\<lparr>t_esc_state := 2, t_esc_code := 0\<rparr>, w) else leave_mode h (h_escape h) (t\<lparr>t_esc_state := 0\<rparr>, w))
      else if t_esc_state t = 2 \<or> t_esc_state t = 3 then (sequence_key c t, w)
      else (t\<lparr>t_esc_state := 0\<rparr>, w))"

text \<open>An ESC at the end of the bytes is the key by itself.\<close>

definition tui_feed_bytes :: "'w handlers \<Rightarrow> string \<Rightarrow> tui \<times> 'w \<Rightarrow> tui \<times> 'w" where
  "tui_feed_bytes h data s =
     (let (t, w) = foldl (feed_byte h) s data in
      if t_esc_state t = 1 then leave_mode h (h_escape h) (t\<lparr>t_esc_state := 0\<rparr>, w) else (t, w))"

end
