(* ===== verification/Tui_Editor.thy ===== *)
theory Tui_Editor
  imports Tui_Input
begin

text \<open>
  The input line of \<open>Tui_Input\<close> against an abstract editor on characters, the invariant of the
  front end, and what a masked input leaves behind.
\<close>

section \<open>An editor on characters\<close>

text \<open>A character is a byte that starts one followed by the bytes that continue it; a buffer is the characters before and after
  the cursor.\<close>

definition utf8_character :: "string \<Rightarrow> bool" where
  "utf8_character u \<longleftrightarrow> u \<noteq> [] \<and> \<not> continuation (hd u) \<and> list_all continuation (tl u) \<and> plain_text u"

datatype buffer = Buffer (before: "string list") (after: "string list")

datatype edit = Type string | Backspace | Left | Right | Home | End

fun edit_buffer :: "edit \<Rightarrow> buffer \<Rightarrow> buffer" where
  "edit_buffer (Type u) (Buffer xs ys) = Buffer (xs @ [u]) ys"
| "edit_buffer Backspace (Buffer xs ys) = Buffer (butlast xs) ys"
| "edit_buffer Left (Buffer xs ys) = (if xs = [] then Buffer xs ys else Buffer (butlast xs) (last xs # ys))"
| "edit_buffer Right (Buffer xs ys) = (case ys of [] \<Rightarrow> Buffer xs ys | y # zs \<Rightarrow> Buffer (xs @ [y]) zs)"
| "edit_buffer Home (Buffer xs ys) = Buffer [] (xs @ ys)"
| "edit_buffer End (Buffer xs ys) = Buffer (xs @ ys) []"

text \<open>The bytes the terminal sends for an operation.\<close>

fun edit_bytes :: "edit \<Rightarrow> string" where
  "edit_bytes (Type u) = u"
| "edit_bytes Backspace = [CHR 0x7F]"
| "edit_bytes Left = [CHR 0x1B, CHR ''['', CHR ''D'']"
| "edit_bytes Right = [CHR 0x1B, CHR ''['', CHR ''C'']"
| "edit_bytes Home = [CHR 0x1B, CHR ''['', CHR ''H'']"
| "edit_bytes End = [CHR 0x1B, CHR ''['', CHR ''F'']"

fun edit_ok :: "edit \<Rightarrow> bool" where
  "edit_ok (Type u) = utf8_character u"
| "edit_ok e = True"

fun editor_ok :: "buffer \<Rightarrow> bool" where
  "editor_ok (Buffer xs ys) = list_all utf8_character (xs @ ys)"

fun buffer_text :: "buffer \<Rightarrow> string" where
  "buffer_text (Buffer xs ys) = concat (xs @ ys)"

text \<open>The front end shows the buffer: outside of report and escape sequences, with its text and the cursor between its two parts.\<close>

definition shows_buffer :: "tui \<Rightarrow> buffer \<Rightarrow> bool" where
  "shows_buffer t b \<longleftrightarrow>
     t_esc_state t = 0 \<and> \<not> tm_report_mode (t_model t) \<and> editor_ok b \<and>
     tm_input (t_model t) = buffer_text b \<and> tm_cursor (t_model t) = length (concat (before b))"

section \<open>Characters and positions\<close>

lemma character_cases:
  assumes "utf8_character u"
  obtains c cs where "u = c # cs" and "\<not> continuation c" and "\<forall>x \<in> set cs. continuation x"
  using assms by (cases u) (auto simp: utf8_character_def list_all_iff)

lemma prev_character:
  assumes "utf8_character u"
  shows "utf8_prev (s @ u @ r) (length (s @ u)) = length s"
proof -
  from assms obtain c cs where u: "u = c # cs" "\<not> continuation c" "\<forall>x \<in> set cs. continuation x" by (rule character_cases)
  have "dropWhile continuation (rev cs @ c # rev s) = c # rev s" using u by (subst dropWhile_append2) auto
  then show ?thesis by (simp add: utf8_prev_def u(1))
qed

lemma head_no_continuation: "list_all utf8_character ys \<Longrightarrow> takeWhile continuation (concat ys) = []"
proof (induction ys)
  case (Cons y ys)
  then obtain c cs where "y = c # cs" "\<not> continuation c" by (auto elim: character_cases)
  then show ?case by simp
qed simp

lemma next_character:
  assumes "utf8_character u" and "list_all utf8_character ys"
  shows "utf8_next (s @ u @ concat ys) (length s) = length (s @ u)"
proof -
  from assms(1) obtain c cs where u: "u = c # cs" "\<not> continuation c" "\<forall>x \<in> set cs. continuation x" by (rule character_cases)
  then have "takeWhile continuation (cs @ concat ys) = cs" using head_no_continuation [OF assms(2)] by simp
  then show ?thesis by (simp add: utf8_next_def u(1))
qed

section \<open>Each key does what the editor does\<close>

lemma type_byte:
  assumes "plain_char c" and "t_esc_state t = 0" and "\<not> tm_report_mode (t_model t)" and "length (tm_input (t_model t)) < TUI_INPUT_MAX"
  shows "feed_byte h (t, w) c = (on_model (tui_insert_char c) t, w)"
proof -
  have "(of_char c :: nat) \<ge> 32 \<and> (of_char c :: nat) \<noteq> 127" using assms(1) by (simp add: plain_char_def)
  then show ?thesis using assms(2,3) by (simp add: feed_byte_def normal_key_def)
qed

lemma type_bytes:
  "list_all plain_char cs \<Longrightarrow> t_esc_state t = 0 \<Longrightarrow> \<not> tm_report_mode (t_model t) \<Longrightarrow> tm_input (t_model t) = s @ r \<Longrightarrow>
    tm_cursor (t_model t) = length s \<Longrightarrow> length (s @ r) + length cs \<le> TUI_INPUT_MAX \<Longrightarrow>
    \<exists>t'. foldl (feed_byte h) (t, w) cs = (t', w) \<and> t_esc_state t' = 0 \<and> \<not> tm_report_mode (t_model t') \<and>
      tm_input (t_model t') = s @ cs @ r \<and> tm_cursor (t_model t') = length (s @ cs)"
proof (induction cs arbitrary: t s)
  case (Cons c cs)
  let ?t = "on_model (tui_insert_char c) t"
  have "feed_byte h (t, w) c = (?t, w)" using Cons.prems by (intro type_byte) auto
  moreover have "tm_input (t_model ?t) = (s @ [c]) @ r" "tm_cursor (t_model ?t) = length (s @ [c])" "t_esc_state ?t = 0"
      "\<not> tm_report_mode (t_model ?t)"
    using Cons.prems by (auto simp: on_model_def tui_insert_char_def Let_def)
  ultimately show ?case using Cons.IH [of ?t "s @ [c]"] Cons.prems by auto
qed auto

lemma sequence_bytes:
  assumes "t_esc_state t = 0"
  shows "foldl (feed_byte h) (t, w) [CHR 0x1B, CHR ''['', k] = (sequence_key (of_char k) (t\<lparr>t_esc_state := 2, t_esc_code := 0\<rparr>), w)"
  using assms by (simp add: feed_byte_def normal_key_def)

lemma move_shows:
  assumes "shows_buffer t b" and "buffer_text b' = buffer_text b" and "editor_ok b'"
    and "f (t_model t) = length (concat (before b'))"
  shows "shows_buffer ((move_to f (t\<lparr>t_esc_state := 2, t_esc_code := 0\<rparr>))\<lparr>t_esc_state := 0\<rparr>) b'"
  using assms by (auto simp: shows_buffer_def move_to_def on_model_def)

lemma shows_parts:
  assumes "shows_buffer t (Buffer xs ys)"
  shows "t_esc_state t = 0" "\<not> tm_report_mode (t_model t)" "list_all utf8_character xs" "list_all utf8_character ys"
    "tm_input (t_model t) = concat xs @ concat ys" "tm_cursor (t_model t) = length (concat xs)"
  using assms by (auto simp: shows_buffer_def)

lemma sequence_refines:
  assumes "shows_buffer t b"
    and "sequence_key (of_char k) (t\<lparr>t_esc_state := 2, t_esc_code := 0\<rparr>) = (move_to f (t\<lparr>t_esc_state := 2, t_esc_code := 0\<rparr>))\<lparr>t_esc_state := 0\<rparr>"
    and "buffer_text b' = buffer_text b" and "editor_ok b'" and "f (t_model t) = length (concat (before b'))"
  shows "\<exists>t'. tui_feed_bytes h [CHR 0x1B, CHR ''['', k] (t, w) = (t', w) \<and> shows_buffer t' b'"
proof -
  have "t_esc_state t = 0" using assms(1) by (simp add: shows_buffer_def)
  from sequence_bytes [OF this, of h w k] assms(2) move_shows [of t b b' f, OF assms(1,3-5)] show ?thesis
    by (simp add: tui_feed_bytes_def shows_buffer_def del: foldl.simps)
qed

lemma type_refines:
  assumes "shows_buffer t b" and "utf8_character u" and "length (buffer_text b) + length u \<le> TUI_INPUT_MAX"
  shows "\<exists>t'. tui_feed_bytes h u (t, w) = (t', w) \<and> shows_buffer t' (edit_buffer (Type u) b)"
proof -
  obtain xs ys where b: "b = Buffer xs ys" by (cases b)
  note s = shows_parts [OF assms(1) [unfolded b]]
  have u: "list_all plain_char u" using assms(2) by (simp add: utf8_character_def)
  from type_bytes [OF u s(1,2,5,6), of h w] assms(3) obtain t' where
    "foldl (feed_byte h) (t, w) u = (t', w)" "t_esc_state t' = 0" "\<not> tm_report_mode (t_model t')"
    "tm_input (t_model t') = concat xs @ u @ concat ys" "tm_cursor (t_model t') = length (concat xs @ u)"
    by (auto simp: b)
  with assms(2) s(3,4) show ?thesis by (auto simp: tui_feed_bytes_def shows_buffer_def b)
qed

lemma backspace_refines:
  assumes "shows_buffer t b"
  shows "\<exists>t'. tui_feed_bytes h [CHR 0x7F] (t, w) = (t', w) \<and> shows_buffer t' (edit_buffer Backspace b)"
proof -
  obtain xs ys where b: "b = Buffer xs ys" by (cases b)
  note s = shows_parts [OF assms [unfolded b]]
  have "feed_byte h (t, w) (CHR 0x7F) = (on_model tui_backspace t, w)" using s(1,2) by (simp add: feed_byte_def normal_key_def)
  moreover have "shows_buffer (on_model tui_backspace t) (edit_buffer Backspace b)"
  proof (cases xs rule: rev_cases)
    case Nil
    then show ?thesis using assms s(6) by (simp add: b tui_backspace_def on_model_def shows_buffer_def)
  next
    case (snoc zs z)
    then have "utf8_prev (concat zs @ z @ concat ys) (length (concat zs @ z)) = length (concat zs)"
      using s(3) by (intro prev_character) simp
    moreover have "z \<noteq> []" using s(3) by (simp add: snoc utf8_character_def)
    moreover note snoc
    ultimately show ?thesis using s by (simp add: b tui_backspace_def on_model_def shows_buffer_def Let_def)
  qed
  ultimately show ?thesis by (auto simp: tui_feed_bytes_def shows_buffer_def)
qed

lemma left_refines:
  assumes "shows_buffer t b"
  shows "\<exists>t'. tui_feed_bytes h (edit_bytes Left) (t, w) = (t', w) \<and> shows_buffer t' (edit_buffer Left b)"
proof -
  obtain xs ys where b: "b = Buffer xs ys" by (cases b)
  note s = shows_parts [OF assms [unfolded b]]
  let ?f = "\<lambda>m. utf8_prev (tm_input m) (tm_cursor m)"
  show ?thesis
  proof (cases xs rule: rev_cases)
    case Nil
    then show ?thesis using sequence_refines [OF assms, of "CHR ''D''" ?f b] s by (simp add: b sequence_key_def utf8_prev_def)
  next
    case (snoc zs z)
    then have "utf8_prev (concat zs @ z @ concat ys) (length (concat zs @ z)) = length (concat zs)"
      using s(3) by (intro prev_character) simp
    then show ?thesis using sequence_refines [OF assms, of "CHR ''D''" ?f "Buffer zs (z # ys)"] s by (simp add: b snoc sequence_key_def)
  qed
qed

lemma right_refines:
  assumes "shows_buffer t b"
  shows "\<exists>t'. tui_feed_bytes h (edit_bytes Right) (t, w) = (t', w) \<and> shows_buffer t' (edit_buffer Right b)"
proof -
  obtain xs ys where b: "b = Buffer xs ys" by (cases b)
  note s = shows_parts [OF assms [unfolded b]]
  let ?f = "\<lambda>m. utf8_next (tm_input m) (tm_cursor m)"
  show ?thesis
  proof (cases ys)
    case Nil
    then show ?thesis using sequence_refines [OF assms, of "CHR ''C''" ?f b] s by (simp add: b sequence_key_def utf8_next_def)
  next
    case (Cons y zs)
    then have "utf8_next (concat xs @ y @ concat zs) (length (concat xs)) = length (concat xs @ y)"
      using s(4) by (intro next_character) simp_all
    then show ?thesis using sequence_refines [OF assms, of "CHR ''C''" ?f "Buffer (xs @ [y]) zs"] s by (simp add: b Cons sequence_key_def)
  qed
qed

text \<open>C27: the input line is an editor on characters.  Whatever the text and wherever the cursor, a typed character, backspace, the
  arrows, Home and End do to the bytes what the abstract editor does to the list of characters, so no character is ever cut
  as long as the line has room.\<close>

theorem input_line_refines:
  assumes "shows_buffer t b" and "edit_ok e" and "length (buffer_text b) + length (edit_bytes e) \<le> TUI_INPUT_MAX"
  shows "\<exists>t'. tui_feed_bytes h (edit_bytes e) (t, w) = (t', w) \<and> shows_buffer t' (edit_buffer e b)"
proof (cases e)
  case (Type u)
  then show ?thesis using type_refines [OF assms(1), of u] assms(2,3) by simp
next
  case Backspace
  then show ?thesis using backspace_refines [OF assms(1)] by simp
next
  case Left
  then show ?thesis using left_refines [OF assms(1)] by simp
next
  case Right
  then show ?thesis using right_refines [OF assms(1)] by simp
next
  case Home
  obtain xs ys where b: "b = Buffer xs ys" by (cases b)
  show ?thesis using sequence_refines [OF assms(1), of "CHR ''H''" "\<lambda>_. 0" "Buffer [] (xs @ ys)"] shows_parts [OF assms(1) [unfolded b]]
    by (simp add: b Home sequence_key_def)
next
  case End
  obtain xs ys where b: "b = Buffer xs ys" by (cases b)
  show ?thesis
    using sequence_refines [OF assms(1), of "CHR ''F''" "\<lambda>m. length (tm_input m)" "Buffer (xs @ ys) []"] shows_parts [OF assms(1) [unfolded b]]
    by (simp add: b End sequence_key_def)
qed

text \<open>A line that is full still takes part of a character.\<close>

theorem full_line_cuts:
  assumes "shows_buffer t (Buffer xs [])" and "length (concat xs) = TUI_INPUT_MAX - 1"
  shows "\<exists>t'. tui_feed_bytes h (utf8 [195, 164]) (t, w) = (t', w) \<and> tm_input (t_model t') = concat xs @ utf8 [195]"
proof -
  note s = shows_parts [OF assms(1)]
  let ?t = "on_model (tui_insert_char (char_of (195 :: nat))) t"
  have "feed_byte h (t, w) (char_of (195 :: nat)) = (?t, w)"
    using s assms(2) by (intro type_byte) (auto simp: plain_char_def TUI_INPUT_MAX_def)
  moreover have t: "tm_input (t_model ?t) = concat xs @ utf8 [195]" "t_esc_state ?t = 0" "\<not> tm_report_mode (t_model ?t)"
    using s assms(2) by (auto simp: on_model_def tui_insert_char_def Let_def utf8_def TUI_INPUT_MAX_def)
  moreover have "feed_byte h (?t, w) (char_of (164 :: nat)) = (?t, w)"
  proof -
    have "length (tm_input (t_model ?t)) = TUI_INPUT_MAX" using t(1) assms(2) by (simp add: TUI_INPUT_MAX_def utf8_def)
    then have "on_model (tui_insert_char (char_of (164 :: nat))) ?t = ?t" by (simp add: on_model_def tui_insert_char_def)
    then show ?thesis using t(2,3) by (simp add: feed_byte_def normal_key_def del: on_model_def)
  qed
  ultimately show ?thesis by (simp add: tui_feed_bytes_def utf8_def)
qed

section \<open>A secret line\<close>

lemma typed_exactly:
  "list_all plain_char cs \<Longrightarrow> t_esc_state t = 0 \<Longrightarrow> \<not> tm_report_mode (t_model t) \<Longrightarrow> \<not> tm_choice_mode (t_model t) \<Longrightarrow>
    tm_cursor (t_model t) = length (tm_input (t_model t)) \<Longrightarrow> length (tm_input (t_model t)) + length cs \<le> TUI_INPUT_MAX \<Longrightarrow>
    foldl (feed_byte h) (t, w) cs =
      (on_model (\<lambda>m. m\<lparr>tm_input := tm_input m @ cs, tm_cursor := length (tm_input m) + length cs\<rparr>) t, w)"
proof (induction cs arbitrary: t)
  case (Cons c cs)
  let ?t = "on_model (\<lambda>m. m\<lparr>tm_input := tm_input m @ [c], tm_cursor := length (tm_input m) + 1\<rparr>) t"
  have "on_model (tui_insert_char c) t = ?t" using Cons.prems by (simp add: on_model_def tui_insert_char_def Let_def)
  moreover have "feed_byte h (t, w) c = (on_model (tui_insert_char c) t, w)" using Cons.prems by (intro type_byte) auto
  ultimately show ?case using Cons.IH [of ?t] Cons.prems by (simp add: on_model_def)
qed (simp add: on_model_def)

lemma plain_no_nul: "plain_text s \<Longrightarrow> no_nul s"
  by (auto simp: no_nul_def list_all_iff plain_char_def)

text \<open>A secret leaves nothing behind.  When characters and Enter arrive while the input is masked, the application gets the
  line together with a front end that is exactly the one before the first character: history, input and choices do not know the line.\<close>

theorem secret_line_leaves_nothing:
  assumes "shows_buffer t (Buffer [] [])" and "tm_secret (t_model t)" and "\<not> tm_choice_mode (t_model t)" and "h_submit h = Some submit"
    and "plain_text line" and "line \<noteq> []" and "length line \<le> TUI_INPUT_MAX"
  shows "foldl (feed_byte h) (t, w) (line @ [CHR 0x0D]) = submit line (t, w)"
proof -
  note s = shows_parts [OF assms(1)]
  let ?t = "on_model (\<lambda>m. m\<lparr>tm_input := line, tm_cursor := length line\<rparr>) t"
  have "foldl (feed_byte h) (t, w) line = (?t, w)"
    using typed_exactly [OF assms(5) s(1,2) assms(3), of h w] s(5,6) assms(7) by (simp add: on_model_def)
  moreover have "feed_byte h (?t, w) (CHR 0x0D) = tui_submit_line h (?t, w)"
    using s(1,2) by (simp add: feed_byte_def normal_key_def on_model_def)
  moreover have "tui_submit_line h (?t, w) = submit line (t, w)"
  proof -
    have "on_model (\<lambda>m. m\<lparr>tm_input := [], tm_cursor := 0\<rparr>) ?t = t" using s(5,6) by (simp add: on_model_def)
    then show ?thesis
      using assms(2-4,6) c_str_id [OF plain_no_nul [OF assms(5)]] by (simp add: tui_submit_line_def on_model_def Let_def)
  qed
  ultimately show ?thesis by simp
qed

section \<open>The invariant\<close>

definition front_end_ok :: "tui \<Rightarrow> bool" where
  "front_end_ok t \<longleftrightarrow>
     t_esc_state t \<le> 3 \<and> tm_cursor (t_model t) \<le> length (tm_input (t_model t)) \<and> length (tm_input (t_model t)) \<le> TUI_INPUT_MAX \<and>
     plain_text (tm_input (t_model t)) \<and> (\<forall>l \<in> set (tm_lines (t_model t)). shown_text (ln_text l)) \<and>
     tm_history_scroll (t_model t) \<le> SIZE_MAX"

text \<open>A change the front end makes by itself keeps its invariant and the modes.\<close>

definition edited :: "tui \<Rightarrow> tui \<Rightarrow> bool" where
  "edited t t' \<longleftrightarrow>
     front_end_ok t' \<and> tm_secret (t_model t') = tm_secret (t_model t) \<and> tm_choice_mode (t_model t') = tm_choice_mode (t_model t) \<and>
     tm_report_mode (t_model t') = tm_report_mode (t_model t) \<and> tm_choices (t_model t') = tm_choices (t_model t)"

lemma utf8_prev_le: "utf8_prev s pos \<le> pos"
proof -
  have "length (dropWhile continuation (rev (take pos s))) \<le> pos"
    by (rule order_trans [OF length_dropWhile_le]) simp
  then have "length (dropWhile continuation (rev (take pos s))) - 1 \<le> pos" by linarith
  then show ?thesis by (simp add: utf8_prev_def)
qed

lemma utf8_next_le: "utf8_next s pos \<le> length s"
proof -
  have "length (takeWhile continuation (drop (pos + 1) s)) \<le> length s - (pos + 1)"
    by (rule order_trans [OF length_takeWhile_le]) simp
  then show ?thesis by (auto simp: utf8_next_def)
qed

lemma scroll_bounded: "tm_history_scroll m \<le> SIZE_MAX \<Longrightarrow> tm_history_scroll (tui_model_scroll m d) \<le> SIZE_MAX"
  by (auto simp: tui_model_scroll_def)

lemma plain_take [simp]: "plain_text s \<Longrightarrow> plain_text (take n s)"
  by (auto simp: list_all_iff dest: in_set_takeD)

lemma plain_drop [simp]: "plain_text s \<Longrightarrow> plain_text (drop n s)"
  by (auto simp: list_all_iff dest: in_set_dropD)

lemma edited_refl: "front_end_ok t \<Longrightarrow> edited t t"
  by (simp add: edited_def)

lemma edited_trans: "edited t u \<Longrightarrow> edited u v \<Longrightarrow> edited t v"
  by (simp add: edited_def)

lemma edited_insert: "front_end_ok t \<Longrightarrow> plain_char c \<Longrightarrow> edited t (on_model (tui_insert_char c) t)"
  by (simp add: edited_def front_end_ok_def on_model_def tui_insert_char_def Let_def)

lemma edited_backspace: "front_end_ok t \<Longrightarrow> edited t (on_model tui_backspace t)"
  using utf8_prev_le [of "tm_input (t_model t)" "tm_cursor (t_model t)"]
  by (auto simp: edited_def front_end_ok_def on_model_def tui_backspace_def Let_def min_absorb1)

lemma edited_echo: "front_end_ok t \<Longrightarrow> edited t (on_model (\<lambda>m. tui_model_append m kind s) t)"
  by (auto simp: edited_def front_end_ok_def on_model_def tui_model_append_def tui_model_append_n_def append_display_shown SIZE_MAX_def)

lemma edited_scroll: "front_end_ok t \<Longrightarrow> edited t (on_model (\<lambda>m. tui_model_scroll m (d m)) t)"
  using scroll_bounded [of "t_model t" "d (t_model t)"] by (auto simp: edited_def front_end_ok_def on_model_def tui_model_scroll_def)

lemma edited_report_scroll: "front_end_ok t \<Longrightarrow> edited t (tui_report_scroll d t)"
  by (simp add: edited_def front_end_ok_def on_model_def tui_report_scroll_def Let_def)

lemma edited_arrow: "front_end_ok t \<Longrightarrow> edited t (arrow d t)"
  by (simp add: arrow_def edited_report_scroll edited_scroll)
    (simp add: edited_def front_end_ok_def on_model_def Let_def)

lemma edited_move: "front_end_ok t \<Longrightarrow> f (t_model t) \<le> length (tm_input (t_model t)) \<Longrightarrow> edited t (move_to f t)"
  by (simp add: edited_def front_end_ok_def move_to_def on_model_def)

lemma edited_tilde: "front_end_ok t \<Longrightarrow> edited t (tilde_key t)"
  by (simp add: tilde_key_def edited_report_scroll edited_scroll edited_move edited_refl Let_def)

lemma edited_state: "edited t t' \<Longrightarrow> n \<le> 3 \<Longrightarrow> edited t (t'\<lparr>t_esc_state := n\<rparr>)" "edited t t' \<Longrightarrow> edited t (t'\<lparr>t_esc_code := i\<rparr>)"
  by (simp_all add: edited_def front_end_ok_def)

lemma edited_sequence: "front_end_ok t \<Longrightarrow> edited t (sequence_key c t)"
proof -
  assume t: "front_end_ok t"
  then have c: "tm_cursor (t_model t) \<le> length (tm_input (t_model t))" by (simp add: front_end_ok_def)
  then have "edited t (move_to (\<lambda>m. utf8_prev (tm_input m) (tm_cursor m)) t)"
    using t utf8_prev_le [of "tm_input (t_model t)" "tm_cursor (t_model t)"] by (intro edited_move) simp_all
  moreover have "edited t (move_to (\<lambda>m. utf8_next (tm_input m) (tm_cursor m)) t)" using t utf8_next_le by (intro edited_move) simp_all
  ultimately show ?thesis
    using t by (simp add: sequence_key_def edited_state edited_arrow edited_move edited_tilde edited_refl)
qed

text \<open>What an application promises of its callbacks about an invariant of both sides: they keep it, and it survives what the front end
  does by itself.\<close>

locale front_end_client =
  fixes h :: "'w handlers" and inv :: "tui \<times> 'w \<Rightarrow> bool"
  assumes inv_ok: "inv s \<Longrightarrow> front_end_ok (fst s)"
    and inv_edited: "inv (t, w) \<Longrightarrow> edited t t' \<Longrightarrow> inv (t', w)"
    and inv_cleared: "inv (t, w) \<Longrightarrow> inv (on_model (\<lambda>m. m\<lparr>tm_input := [], tm_cursor := 0\<rparr>) t, w)"
    and inv_report_stop: "inv (t, w) \<Longrightarrow> inv (tui_report_stop t, w)"
    and inv_submit: "h_submit h = Some submit \<Longrightarrow> inv s \<Longrightarrow> inv (submit line s)"
    and inv_cancel: "h_cancel h = Some f \<or> h_escape h = Some f \<or> h_choice_cancel h = Some f \<or> h_report_cancel h = Some f \<Longrightarrow> inv s \<Longrightarrow> inv (f s)"
begin

lemma close_keeps: "inv s \<Longrightarrow> inv (tui_report_request_close h s)"
  by (cases s; cases "h_report_cancel h") (auto simp: tui_report_request_close_def inv_report_stop intro: inv_cancel)

lemma leave_keeps:
  assumes "inv s" and "\<And>f. otherwise = Some f \<Longrightarrow> inv (f s)"
  shows "inv (leave_mode h otherwise s)"
  using close_keeps [OF assms(1)] assms by (auto simp: leave_mode_def intro: inv_cancel split: option.split)

lemma submit_keeps:
  assumes "inv s"
  shows "inv (tui_submit_line h s)"
proof -
  obtain t w where s: "s = (t, w)" by (cases s)
  define t1 where "t1 = (if tm_secret (t_model t) then t else on_model (\<lambda>m. tui_model_append m LINE_USER (c_str (tm_input (t_model t)))) t)"
  have "front_end_ok t" using inv_ok [OF assms] s by simp
  then have "edited t t1" by (simp add: t1_def edited_refl edited_echo)
  then have "inv (t1, w)" using assms s inv_edited by blast
  moreover from this have "inv (on_model (\<lambda>m. m\<lparr>tm_input := [], tm_cursor := 0\<rparr>) t1, w)" by (rule inv_cleared)
  ultimately show ?thesis
    using assms inv_submit unfolding s tui_submit_line_def Let_def fst_conv snd_conv t1_def [symmetric]
    by (cases "h_submit h") simp_all
qed

lemma byte_keeps:
  assumes "inv s"
  shows "inv (feed_byte h s ch)"
proof -
  obtain t w where s: "s = (t, w)" by (cases s)
  have t: "front_end_ok t" using inv_ok [OF assms] s by simp
  have same: "inv (t', w)" if "edited t t'" for t' using that assms s inv_edited by blast
  have n: "inv (t\<lparr>t_esc_state := n\<rparr>, w)" if "n \<le> 3" for n using that t by (intro same edited_state edited_refl)
  have quit: "inv (leave_mode h (map_option (\<lambda>submit. submit ''/quit'') (h_submit h)) s)"
    by (rule leave_keeps [OF assms]) (use assms in \<open>auto intro: inv_submit\<close>)
  have cancel: "inv (leave_mode h (h_cancel h) s)" by (rule leave_keeps [OF assms]) (use assms in \<open>auto intro: inv_cancel\<close>)
  have "inv (on_model (tui_insert_char ch) t, w)" if "32 \<le> (of_char ch :: nat)" "(of_char ch :: nat) \<noteq> 127"
    using that by (intro same edited_insert [OF t]) (simp add: plain_char_def)
  then have "inv (normal_key h (of_char ch) s)"
    using assms n [of 1] same [OF edited_backspace [OF t]] submit_keeps [OF assms] close_keeps [OF assms] quit cancel
    by (simp add: s normal_key_def Let_def)
  moreover have "inv (leave_mode h (h_escape h) (t\<lparr>t_esc_state := 0\<rparr>, w))" by (rule leave_keeps) (auto intro: inv_cancel n)
  moreover have "inv (t\<lparr>t_esc_state := 2, t_esc_code := 0\<rparr>, w)" using t by (intro same edited_state edited_refl) simp_all
  moreover have "inv (sequence_key c t, w)" for c by (rule same) (rule edited_sequence [OF t])
  ultimately show ?thesis using n by (simp add: s feed_byte_def Let_def)
qed

lemma bytes_keep: "inv s \<Longrightarrow> inv (tui_feed_bytes h bytes s)"
proof -
  assume s: "inv s"
  have "inv (foldl (feed_byte h) s bytes)" using s by (induction bytes arbitrary: s) (simp_all add: byte_keeps)
  moreover obtain t w where f: "foldl (feed_byte h) s bytes = (t, w)" by (cases "foldl (feed_byte h) s bytes")
  ultimately have i: "inv (t, w)" by simp
  then have "inv (t\<lparr>t_esc_state := 0\<rparr>, w)" using inv_ok [OF i] by (intro inv_edited [OF i]) (simp add: edited_state edited_refl)
  then have "inv (leave_mode h (h_escape h) (t\<lparr>t_esc_state := 0\<rparr>, w))" by (rule leave_keeps) (auto intro: inv_cancel \<open>inv (t\<lparr>t_esc_state := 0\<rparr>, w)\<close>)
  with f i show ?thesis by (simp add: tui_feed_bytes_def)
qed

end

text \<open>A front end without an application.\<close>

definition no_handlers :: "'w handlers" where
  "no_handlers = \<lparr>h_submit = None, h_cancel = None, h_escape = None, h_choice_cancel = None, h_report_cancel = None\<rparr>"

theorem input_line_refines_witness:
  "\<exists>t'. tui_feed_bytes (no_handlers :: unit handlers) (utf8 [195, 164]) (on_model (\<lambda>m. m\<lparr>tm_input := ''ab'', tm_cursor := 1\<rparr>) (tui_new 24 80), ()) = (t', ()) \<and>
     tm_input (t_model t') = ''a'' @ utf8 [195, 164] @ ''b'' \<and> tm_cursor (t_model t') = 3"
proof -
  let ?t = "on_model (\<lambda>m. m\<lparr>tm_input := ''ab'', tm_cursor := 1\<rparr>) (tui_new 24 80)"
  have "shows_buffer ?t (Buffer [''a''] [''b''])"
    by (simp add: shows_buffer_def utf8_character_def continuation_def plain_char_def on_model_def tui_new_def tui_model_init_def)
  moreover have "edit_ok (Type (utf8 [195, 164]))" by (simp add: utf8_character_def utf8_def continuation_def plain_char_def)
  ultimately show ?thesis
    using input_line_refines [of ?t "Buffer [''a''] [''b'']" "Type (utf8 [195, 164])" no_handlers "()"]
    by (auto simp: shows_buffer_def utf8_def TUI_INPUT_MAX_def)
qed

end
