(* ===== verification/App.thy ===== *)
theory App
  imports Tui_Editor Runtime_Models Loop
begin

text \<open>
  The interactive application, \<open>src/src/main.c\<close>: what the front end calls on Enter and on the keys that
  leave a mode, the commands, the model picker, the login, and the ends of a turn, of a login and of a
  discovery.  The world of the agent records its events; they are handled when the call that raised
  them returns, which only the counters of the status line could tell.  Signals, the pump, the process
  of the browser login and the plain line mode are outside; what their system calls answer is part of the
  environment.  Texts that are not ASCII are their bytes.
\<close>

section \<open>State\<close>

type_synonym 'o logged = "agent_event list \<times> 'o"

datatype login_step = LOGIN_NONE | LOGIN_MENU | LOGIN_API_PROVIDER | LOGIN_API_KEY

text \<open>\<open>ap_model\<close> is the entry of the table that the model of the agent is.\<close>

record 'o app =
  ap_agent :: "'o logged loop"
  ap_rt :: runtime_models
  ap_model :: "model_ref option"
  ap_files :: file_store
  ap_oauth :: bool
  ap_login :: login_step
  ap_login_provider :: string
  ap_selectors :: "string list"
  ap_picker :: bool
  ap_approval :: bool
  ap_quit :: bool
  ap_quit_pending :: bool
  ap_busy :: bool

text \<open>\<open>ae_object\<close> is the object behind an entry, \<open>ae_usage\<close> the printed doubles, \<open>ae_flat\<close> whether the model of the
  agent is billed flat; the rest are the answers to starting the process of the browser login.\<close>

record 'o app_env =
  ae_loop :: "'o logged env"
  ae_run :: run_env
  ae_config_path :: "string option"
  ae_object :: "provider \<times> live_model \<Rightarrow> 'o logged model"
  ae_usage :: "'o logged loop \<Rightarrow> usage_texts"
  ae_flat :: "'o logged loop \<Rightarrow> bool"
  ae_real_text :: "string \<Rightarrow> string"
  ae_pipe :: bool
  ae_fork :: bool
  ae_watch :: bool

type_synonym 'o ui = "tui \<times> 'o app"

definition record_event :: "agent_event \<Rightarrow> 'o logged \<Rightarrow> host_call list \<times> 'o logged" where
  "record_event ev w = ([], (fst w @ [ev], snd w))"

definition on_tui :: "(tui \<Rightarrow> tui) \<Rightarrow> 'o ui \<Rightarrow> 'o ui" where
  "on_tui f s = (f (fst s), snd s)"

definition on_app :: "('o app \<Rightarrow> 'o app) \<Rightarrow> 'o ui \<Rightarrow> 'o ui" where
  "on_app f s = (fst s, f (snd s))"

definition say :: "string \<Rightarrow> 'o ui \<Rightarrow> 'o ui" where
  "say line = on_tui (on_model (\<lambda>m. tui_model_append m LINE_SYSTEM line))"

definition status :: "string \<Rightarrow> 'o ui \<Rightarrow> 'o ui" where
  "status line = on_tui (tui_set_status (Some line))"

section \<open>Texts\<close>

definition msg_approval_open :: string where
  "msg_approval_open =
     utf8 [229, 174, 161, 230, 137, 185, 228, 184, 173, 239, 188, 154] @ ''/approve'' @ utf8 [227, 128, 129]
      @ ''/reject'' @ utf8 [239, 188, 140, 230, 136, 150] @ '' /trust on '' @ utf8 [229, 144, 142, 231, 187, 173, 232,
      135, 170, 229, 138, 168, 230, 137, 185, 229, 135, 134]"

definition msg_no_auth_path :: string where
  "msg_no_auth_path =
     utf8 [230, 151, 160, 230, 179, 149, 229, 174, 154, 228, 189, 141] @ '' auth.json'' @ utf8 [227, 128, 130]"

definition msg_no_oauth_pipe :: string where
  "msg_no_oauth_pipe =
     utf8 [230, 151, 160, 230, 179, 149, 229, 144, 175, 229, 138, 168] @ '' OAuth '' @ utf8 [231, 153, 187, 229, 189,
      149, 232, 191, 155, 231, 168, 139, 227, 128, 130]"

definition msg_no_oauth_fork :: string where
  "msg_no_oauth_fork =
     utf8 [230, 151, 160, 230, 179, 149] @ '' fork OAuth '' @ utf8 [231, 153, 187, 229, 189, 149, 232, 191, 155, 231,
      168, 139, 227, 128, 130]"

definition msg_no_oauth_watch :: string where
  "msg_no_oauth_watch =
     utf8 [230, 151, 160, 230, 179, 149, 231, 155, 145, 229, 144, 172] @ '' OAuth '' @ utf8 [231, 153, 187, 229, 189,
      149, 232, 191, 155, 231, 168, 139, 227, 128, 130]"

definition msg_oauth_running :: string where
  "msg_oauth_running =
     utf8 [230, 181, 143, 232, 167, 136, 229, 153, 168] @ '' OAuth '' @ utf8 [231, 153, 187, 229, 189, 149, 232, 191,
      155, 232, 161, 140, 228, 184, 173, 239, 188, 155, 229, 174, 140, 230, 136, 144, 229, 144, 142, 228, 188, 154,
      232, 135, 170, 229, 138, 168, 232, 191, 148, 229, 155, 158]"

definition msg_oauth_failed :: string where
  "msg_oauth_failed =
     ''OAuth '' @ utf8 [231, 153, 187, 229, 189, 149, 229, 164, 177, 232, 180, 165, 230, 136, 150, 232, 162, 171,
      229, 143, 150, 230, 182, 136, 239, 188, 155, 229, 135, 173, 230, 141, 174, 230, 156, 170, 230, 155, 180, 230,
      150, 176, 227, 128, 130]"

definition msg_oauth_applied :: string where
  "msg_oauth_applied =
     ''ChatGPT OAuth '' @ utf8 [229, 183, 178, 229, 174, 140, 230, 136, 144, 239, 188, 140, 229, 135, 173, 230, 141,
      174, 229, 183, 178, 228, 191, 157, 229, 173, 152, 229, 185, 182, 229, 186, 148, 231, 148, 168, 227, 128, 130]"

definition msg_oauth_unloaded :: string where
  "msg_oauth_unloaded =
     ''OAuth '' @ utf8 [229, 183, 178, 228, 191, 157, 229, 173, 152, 239, 188, 140, 228, 189, 134, 229, 189, 147,
      229, 137, 141] @ '' provider '' @ utf8 [230, 156, 170, 232, 131, 189, 229, 138, 160, 232, 189, 189, 229, 135,
      173, 230, 141, 174, 239, 188, 155, 232, 175, 183, 233, 135, 141, 229, 144, 175, 229, 144, 142, 233, 135, 141,
      232, 175, 149, 227, 128, 130]"

definition msg_oauth_saved :: string where
  "msg_oauth_saved =
     ''OAuth '' @ utf8 [229, 183, 178, 228, 191, 157, 229, 173, 152, 229, 136, 176] @ '' auth.json'' @ utf8 [239,
      188, 155, 233, 135, 141, 229, 144, 175, 229, 144, 142] @ '' ChatGPT '' @ utf8 [230, 168, 161, 229, 158, 139,
      228, 188, 154, 232, 135, 170, 229, 138, 168, 229, 138, 160, 229, 133, 165] @ '' /model'' @ utf8 [227, 128, 130]"

definition msg_choice_oauth :: string where
  "msg_choice_oauth =
     utf8 [232, 174, 162, 233, 152, 133, 239, 188, 136] @ ''ChatGPT OAuth'' @ utf8 [239, 188, 137]"

definition msg_choose_provider :: string where
  "msg_choose_provider =
     utf8 [233, 128, 137, 230, 139, 169] @ '' API key provider'' @ utf8 [239, 188, 154]"

definition msg_no_login_match :: string where
  "msg_no_login_match =
     utf8 [230, 178, 161, 230, 156, 137, 229, 140, 185, 233, 133, 141, 231, 154, 132, 231, 153, 187, 229, 189, 149,
      229, 133, 165, 229, 143, 163]"

definition msg_no_provider_match :: string where
  "msg_no_provider_match =
     utf8 [230, 178, 161, 230, 156, 137, 229, 140, 185, 233, 133, 141, 231, 154, 132] @ '' API key provider''"

definition msg_enter_key :: string where
  "msg_enter_key =
     utf8 [232, 175, 183, 232, 190, 147, 229, 133, 165] @ '' API key'' @ utf8 [239, 188, 136, 232, 190, 147, 229,
      133, 165, 228, 184, 141, 228, 188, 154, 229, 155, 158, 230, 152, 190, 239, 188, 137, 239, 188, 154]"

definition msg_key_failed :: string where
  "msg_key_failed =
     ''API key '' @ utf8 [228, 191, 157, 229, 173, 152, 229, 164, 177, 232, 180, 165, 227, 128, 130]"

definition msg_key_applied :: string where
  "msg_key_applied =
     ''API key '' @ utf8 [229, 183, 178, 228, 191, 157, 229, 173, 152, 229, 185, 182, 229, 186, 148, 231, 148, 168,
      229, 136, 176, 229, 189, 147, 229, 137, 141] @ '' provider'' @ utf8 [227, 128, 130]"

definition msg_key_saved :: string where
  "msg_key_saved =
     ''API key '' @ utf8 [229, 183, 178, 228, 191, 157, 229, 173, 152, 239, 188, 155, 232, 175, 183, 229, 176, 134]
      @ '' config.json '' @ utf8 [231, 154, 132] @ '' provider '' @ utf8 [232, 174, 190, 228, 184, 186, 229, 189, 147,
      229, 137, 141, 229, 133, 165, 229, 143, 163, 229, 144, 142, 233, 135, 141, 229, 144, 175, 227, 128, 130]"

definition msg_login :: string where
  "msg_login =
     utf8 [231, 153, 187, 229, 189, 149, 229, 133, 165, 229, 143, 163, 239, 188, 154]"

definition msg_trust_off_pending :: string where
  "msg_trust_off_pending =
     ''trusted '' @ utf8 [229, 183, 178, 229, 133, 179, 233, 151, 173, 239, 188, 155, 229, 189, 147, 229, 137, 141,
      232, 176, 131, 231, 148, 168, 228, 187, 141, 233, 156, 128] @ '' /approve '' @ utf8 [230, 136, 150]
      @ '' /reject''"

definition msg_answer_needed :: string where
  "msg_answer_needed =
     utf8 [232, 175, 183, 232, 190, 147, 229, 133, 165] @ '' /approve'' @ utf8 [227, 128, 129] @ ''/reject'' @ utf8
      [239, 188, 140, 230, 136, 150] @ '' /trust on''"

definition msg_approval_stale :: string where
  "msg_approval_stale =
     utf8 [229, 174, 161, 230, 137, 185, 232, 175, 183, 230, 177, 130, 229, 183, 178, 229, 164, 177, 230, 149, 136]"

definition msg_approved_trusted :: string where
  "msg_approved_trusted =
     ''TRUSTED'' @ utf8 [239, 188, 154, 229, 183, 178, 230, 137, 185, 229, 135, 134, 239, 188, 140, 229, 144, 142,
      231, 187, 173, 232, 135, 170, 229, 138, 168, 230, 137, 167, 232, 161, 140]"

definition msg_approved :: string where
  "msg_approved =
     utf8 [229, 183, 178, 230, 137, 185, 229, 135, 134, 239, 188, 140, 231, 187, 167, 231, 187, 173, 230, 137, 167,
      232, 161, 140]"

definition msg_rejected :: string where
  "msg_rejected =
     utf8 [229, 183, 178, 230, 139, 146, 231, 187, 157, 239, 188, 140, 232, 191, 148, 229, 155, 158, 230, 168, 161,
      229, 158, 139, 229, 164, 132, 231, 144, 134]"

definition msg_oauth_cancelled :: string where
  "msg_oauth_cancelled =
     ''OAuth '' @ utf8 [231, 153, 187, 229, 189, 149, 229, 183, 178, 229, 143, 150, 230, 182, 136, 239, 188, 140,
      232, 191, 148, 229, 155, 158, 233, 166, 150, 233, 161, 181, 227, 128, 130]"

definition msg_login_cancelled :: string where
  "msg_login_cancelled =
     utf8 [231, 153, 187, 229, 189, 149, 229, 183, 178, 229, 143, 150, 230, 182, 136, 239, 188, 140, 232, 191, 148,
      229, 155, 158, 233, 166, 150, 233, 161, 181, 227, 128, 130]"

definition msg_approval_cancelled :: string where
  "msg_approval_cancelled =
     utf8 [229, 174, 161, 230, 137, 185, 229, 183, 178, 229, 143, 150, 230, 182, 136, 239, 188, 140, 232, 191, 148,
      229, 155, 158, 233, 166, 150, 233, 161, 181, 227, 128, 130]"

definition msg_catalog_updated :: string where
  "msg_catalog_updated =
     utf8 [230, 168, 161, 229, 158, 139, 231, 155, 174, 229, 189, 149, 229, 183, 178, 230, 155, 180, 230, 150, 176,
      239, 188, 155] @ ''/model '' @ utf8 [229, 143, 175, 230, 159, 165, 231, 156, 139]"

definition msg_catalog_failed :: string where
  "msg_catalog_failed =
     utf8 [230, 168, 161, 229, 158, 139, 231, 155, 174, 229, 189, 149, 232, 142, 183, 229, 143, 150, 229, 164, 177,
      232, 180, 165, 239, 188, 140, 232, 175, 166, 230, 131, 133, 232, 167, 129, 230, 182, 136, 230, 129, 175, 229,
      140, 186]"

definition msg_catalog_reason :: string where
  "msg_catalog_reason =
     utf8 [230, 168, 161, 229, 158, 139, 231, 155, 174, 229, 189, 149, 232, 142, 183, 229, 143, 150, 229, 164, 177,
      232, 180, 165, 239, 188, 154]"

definition msg_catalog_hint :: string where
  "msg_catalog_hint =
     utf8 [227, 128, 130, 229, 183, 178, 228, 189, 191, 231, 148, 168, 233, 133, 141, 231, 189, 174, 228, 184, 173,
      231, 154, 132, 233, 157, 153, 230, 128, 129, 230, 168, 161, 229, 158, 139, 229, 136, 151, 232, 161, 168, 239,
      188, 155, 232, 175, 183, 230, 163, 128, 230, 159, 165, 231, 189, 145, 231, 187, 156] @ ''/'' @ utf8 [228, 187,
      163, 231, 144, 134, 228, 184, 142, 231, 153, 187, 229, 189, 149, 231, 138, 182, 230, 128, 129]"

section \<open>Header and status line\<close>

definition current_model :: "'o app \<Rightarrow> (provider \<times> live_model) option" where
  "current_model a = map_option (model_at (ap_rt a)) (ap_model a)"

definition app_update_statusline :: "'o app_env \<Rightarrow> 'o ui \<Rightarrow> 'o ui" where
  "app_update_statusline env s =
     (let a = snd s; c = ap_agent a; u = a_usage_total c in
      case tui_format_usage (ae_usage env c) 192 (input_tokens u) (output_tokens u) (cached_tokens u) (ae_flat env c)
             (case current_model a of Some (p, m) \<Rightarrow> lm_window m | None \<Rightarrow> 0)
             (case current_model a of Some (p, m) \<Rightarrow> lm_window_verified m | None \<Rightarrow> False) of
        (AGENT_OK, Some line) \<Rightarrow> on_tui (tui_set_usage (Some line)) s
      | _ \<Rightarrow> s)"

definition app_model_bare_name :: "runtime_models \<Rightarrow> provider \<times> live_model \<Rightarrow> string" where
  "app_model_bare_name rt pm =
     (let own = pr_name (fst pm); provider = (if own = None \<or> own = Some [] then cf_provider (rm_config rt) else own) in
      case provider of None \<Rightarrow> lm_name (snd pm) | Some p \<Rightarrow> strip_provider p (lm_name (snd pm)))"

definition app_update_header :: "'o ui \<Rightarrow> 'o ui" where
  "app_update_header s =
     (let a = snd s; c = ap_agent a;
          model = (case current_model a of Some pm \<Rightarrow> app_model_bare_name (ap_rt a) pm | None \<Rightarrow> ''(none)'');
          session = (case a_session c of Some se \<Rightarrow> s_id se | None \<Rightarrow> ''(none)'') in
      on_tui (tui_set_header (Some ('' cagent'' @ (if agent_session_trusted c then '' [TRUSTED]'' else []) @ '' | model: '' @ model @
        '' | session: '' @ session @ '' | PgUp/PgDn | Ctrl+C cancel''))) s)"

section \<open>Events of the agent\<close>

definition app_agent_event :: "'o app_env \<Rightarrow> agent_event \<Rightarrow> 'o ui \<Rightarrow> 'o ui" where
  "app_agent_event env ev s =
     (let s1 = on_tui (tui_on_agent_event (rn_read (ae_run env)) (ae_real_text env) ev) s;
          s2 = (if ev_type ev = AGENT_EVT_TOOL_APPROVAL then
                  status msg_approval_open (on_app (ap_approval_update (\<lambda>_. True)) s1)
                else if ev_type ev = AGENT_EVT_STATUS \<and> ev_text ev \<noteq> None then on_tui (tui_set_status (ev_text ev)) s1
                else s1) in
      if ev_type ev = AGENT_EVT_TOOL_END \<or> ev_type ev = AGENT_EVT_ERROR then app_update_statusline env s2 else s2)"

text \<open>The events an agent has raised so far.\<close>

definition deliver :: "'o app_env \<Rightarrow> 'o ui \<Rightarrow> 'o ui" where
  "deliver env s =
     (let c = ap_agent (snd s) in
      foldl (\<lambda>s ev. app_agent_event env ev s) (on_app (ap_agent_update (\<lambda>c. c\<lparr>world := ([], snd (world c))\<rparr>)) s) (fst (world c)))"

section \<open>Login\<close>

definition app_selected_provider :: "'o app \<Rightarrow> string \<Rightarrow> bool" where
  "app_selected_provider a name \<longleftrightarrow> cf_provider (rm_config (ap_rt a)) = Some name"

definition app_login_reset :: "'o ui \<Rightarrow> 'o ui" where
  "app_login_reset s =
     on_tui (tui_set_input_secret False) (on_app (\<lambda>a. a\<lparr>ap_login := LOGIN_NONE, ap_login_provider := []\<rparr>)
       (if tui_choice_active (fst s) then on_tui tui_choice_stop s else s))"

definition app_start_oauth :: "'o app_env \<Rightarrow> 'o ui \<Rightarrow> 'o ui" where
  "app_start_oauth env s =
     (if ap_oauth (snd s) then status ''OAuth login is already running'' s
      else if oauth_default_path (rn_getenv (ae_run env)) = None then app_login_reset (say msg_no_auth_path s)
      else if \<not> ae_pipe env then app_login_reset (say msg_no_oauth_pipe s)
      else if \<not> ae_fork env then app_login_reset (say msg_no_oauth_fork s)
      else if \<not> ae_watch env then say msg_no_oauth_watch (app_login_reset s)
      else status msg_oauth_running (on_app (ap_oauth_update (\<lambda>_. True)) s))"

definition app_stop_oauth :: "'o ui \<Rightarrow> 'o ui" where
  "app_stop_oauth = on_app (ap_oauth_update (\<lambda>_. False))"

text \<open>The process of the browser login has ended; \<open>ok\<close> says that it wrote its success.\<close>

definition app_oauth_done :: "'o app_env \<Rightarrow> bool \<Rightarrow> 'o ui \<Rightarrow> 'o ui" where
  "app_oauth_done env ok s =
     (let s1 = app_login_reset (on_app (ap_oauth_update (\<lambda>_. False)) s); a = snd s1; run = ae_run env in
      if \<not> ok then status ''OAuth login failed'' (say msg_oauth_failed s1)
      else if provider_is_chatgpt (Some (rm_provider (ap_rt a))) then
        (let (rc, p, files') = provider_prepare_auth (rn_read run) (rn_render run) (rn_auth run) (rn_post run) (rn_now run)
               (rm_provider (ap_rt a), ap_files a);
             s2 = on_app (\<lambda>a. a\<lparr>ap_rt := (ap_rt a)\<lparr>rm_provider := p\<rparr>, ap_files := files'\<rparr>) s1 in
         if rc = AGENT_OK then status ''OAuth ready'' (say msg_oauth_applied s2)
         else status ''OAuth saved; reload failed'' (say msg_oauth_unloaded s2))
      else status ''OAuth saved; restart to refresh /model''
             (say msg_oauth_saved s1))"

definition login_choices :: "string option list" where
  "login_choices = [Some msg_choice_oauth, Some ''API key'']"

definition login_providers :: "string option list" where
  "login_providers = [Some ''opencode-go'', Some ''xiaomi-mimo'']"

definition login_menu_input :: "'o app_env \<Rightarrow> 'o ui \<Rightarrow> 'o ui" where
  "login_menu_input env s =
     (let selected = tui_choice_selected_index (fst s) in
      if selected = 0 then app_start_oauth env (app_login_reset s)
      else if selected = 1 then
        status ''API key provider: type to filter, Up/Down choose, Enter select, Esc cancel''
          (say msg_choose_provider
            (on_app (ap_login_update (\<lambda>_. LOGIN_API_PROVIDER)) (on_tui (tui_choice_start login_providers 0) s)))
      else status msg_no_login_match s)"

definition login_provider_input :: "'o ui \<Rightarrow> 'o ui" where
  "login_provider_input s =
     (let selected = tui_choice_selected_index (fst s);
          provider = (if selected = 0 then Some ''opencode-go'' else if selected = 1 then Some ''xiaomi'' else None) in
      case provider of
        None \<Rightarrow> status msg_no_provider_match s
      | Some p \<Rightarrow>
          status ''API key input'' (say msg_enter_key
            (on_tui (tui_set_input_secret True)
              (on_app (\<lambda>a. a\<lparr>ap_login_provider := p, ap_login := LOGIN_API_KEY\<rparr>) (on_tui tui_choice_stop s)))))"

definition login_key_input :: "'o app_env \<Rightarrow> string \<Rightarrow> 'o ui \<Rightarrow> 'o ui" where
  "login_key_input env line s =
     (let a = snd s; run = ae_run env;
          (rc, files') = (case oauth_default_path (rn_getenv run) of
                            None \<Rightarrow> (AGENT_ERR_IO, ap_files a)
                          | Some path \<Rightarrow> auth_save_api_key (rn_read run) (rn_render run) (rn_auth run) (ap_files a) path (ap_login_provider a) line);
          s1 = on_app (ap_files_update (\<lambda>_. files')) s in
      if rc \<noteq> AGENT_OK then say msg_key_failed (app_login_reset s1)
      else if app_selected_provider a (ap_login_provider a) then
        app_login_reset (status ''API key ready'' (say msg_key_applied
          (on_app (ap_rt_update (\<lambda>rt. snd (runtime_set_api_key rt (Some line)))) s1)))
      else app_login_reset (status ''API key saved; restart to use it''
             (say msg_key_saved s1)))"

definition app_login_input :: "'o app_env \<Rightarrow> string \<Rightarrow> 'o ui \<Rightarrow> 'o ui" where
  "app_login_input env line s =
     (case ap_login (snd s) of
        LOGIN_MENU \<Rightarrow> login_menu_input env s
      | LOGIN_API_PROVIDER \<Rightarrow> login_provider_input s
      | LOGIN_API_KEY \<Rightarrow> login_key_input env line s
      | LOGIN_NONE \<Rightarrow> s)"

section \<open>The model picker\<close>

definition app_model_picker_close :: "'o ui \<Rightarrow> 'o ui" where
  "app_model_picker_close s =
     (if \<not> ap_picker (snd s) then s else on_app (\<lambda>a. a\<lparr>ap_selectors := [], ap_picker := False\<rparr>) (on_tui tui_choice_stop s))"

definition app_model_picker_cancel :: "'o ui \<Rightarrow> 'o ui" where
  "app_model_picker_cancel s = status ''model selection cancelled'' (app_model_picker_close s)"

definition app_choice_cancel :: "'o ui \<Rightarrow> 'o ui" where
  "app_choice_cancel s =
     (if ap_login (snd s) \<noteq> LOGIN_NONE then status ''login selection cancelled'' (app_login_reset s) else app_model_picker_cancel s)"

definition app_apply_model :: "'o app_env \<Rightarrow> model_ref \<Rightarrow> 'o ui \<Rightarrow> 'o ui" where
  "app_apply_model env r s =
     (let pm = model_at (ap_rt (snd s)) r; run = ae_run env;
          s1 = on_app (\<lambda>a. a\<lparr>ap_agent := (ap_agent a)\<lparr>a_model := Some (ae_object env pm)\<rparr>, ap_model := Some r\<rparr>) s in
      case runtime_model_selector (ap_rt (snd s)) (fst pm) (snd pm) AUTH_PATH_MAX of
        None \<Rightarrow> app_update_header (say ''active model selected (cannot persist selector)'' s1)
      | Some selector \<Rightarrow>
          (let name = (case pr_name (fst pm) of None \<Rightarrow> lm_name (snd pm) | Some p \<Rightarrow> strip_provider p (lm_name (snd pm)));
               (rc, files') = (case pr_name (fst pm) of
                   None \<Rightarrow> (AGENT_ERR_OOM, ap_files (snd s))
                 | Some p \<Rightarrow> config_save_selection_with_thinking (rn_render run) (rn_io run) (ap_files (snd s)) (ae_config_path env) (Some p)
                               (Some name) (cf_thinking_level (rm_config (ap_rt (snd s)))));
               s2 = on_app (\<lambda>a. a\<lparr>ap_rt := (ap_rt a)\<lparr>rm_config := (rm_config (ap_rt a))\<lparr>cf_model_name := Some name\<rparr>\<rparr>, ap_files := files'\<rparr>) s1 in
           app_update_header (say (''active model: '' @ name @
             (if rc = AGENT_OK then '' (saved)'' else '' (not saved: '' @ error_name rc @ '')'')) s2)))"

definition app_model_picker_submit :: "'o app_env \<Rightarrow> 'o ui \<Rightarrow> 'o ui" where
  "app_model_picker_submit env s =
     (let index = tui_choice_selected_index (fst s);
          selector = (if index < length (ap_selectors (snd s)) then Some (ap_selectors (snd s) ! index) else None);
          s1 = app_model_picker_close s in
      case selector of
        None \<Rightarrow> status ''model selection cancelled'' (say ''no model matches the current query'' s1)
      | Some sel \<Rightarrow>
          (case runtime_model_by_name (ap_rt (snd s1)) sel of
             None \<Rightarrow> status ''model selection cancelled'' (say ''selected model is no longer available'' s1)
           | Some r \<Rightarrow> app_apply_model env r s1))"

text \<open>Whether the models come from more than one provider.\<close>

definition multiple_providers :: "runtime_models \<Rightarrow> bool" where
  "multiple_providers rt =
     snd (foldl (\<lambda>(first, multi) r.
            let own = pr_name (fst (model_at rt r)); provider = (if own = None \<or> own = Some [] then cf_provider (rm_config rt) else own) in
            if first = None then (provider, multi) else (first, multi \<or> provider \<noteq> first)) (None, False) (model_refs rt))"

definition picker_entries :: "runtime_models \<Rightarrow> (model_ref \<times> string \<times> string) list" where
  "picker_entries rt =
     List.map_filter (\<lambda>r. case selector_of rt r of
         None \<Rightarrow> None
       | Some selector \<Rightarrow> Some (r, selector, if multiple_providers rt then selector else app_model_bare_name rt (model_at rt r)))
       (model_refs rt)"

definition app_model_picker_open :: "'o ui \<Rightarrow> 'o ui" where
  "app_model_picker_open s =
     (let entries = picker_entries (ap_rt (snd s));
          before = takeWhile (\<lambda>(r, _). Some r \<noteq> ap_model (snd s)) entries;
          selected = (if length before < length entries then length before else 0) in
      if entries = [] then say ''(no models available)'' s
      else status ''model: type to fuzzy-filter, Up/Down choose, Enter select, Esc cancel''
             (on_tui (tui_choice_start (map (\<lambda>(_, _, label). Some label) entries) selected)
               (on_app (\<lambda>a. a\<lparr>ap_selectors := map (\<lambda>(_, selector, _). selector) entries, ap_picker := True\<rparr>) s)))"

section \<open>Commands\<close>

definition app_report_restore :: "'o ui \<Rightarrow> 'o ui" where
  "app_report_restore s = on_tui (tui_set_busy (ap_busy (snd s))) (app_update_header s)"

definition app_report_cancel :: "'o ui \<Rightarrow> 'o ui" where
  "app_report_cancel s = app_report_restore (on_tui tui_report_stop s)"

text \<open>What follows a prefix, if anything does.\<close>

definition str_after_prefix :: "string \<Rightarrow> string \<Rightarrow> string option" where
  "str_after_prefix line prefix =
     (if take (length prefix) line = prefix \<and> length prefix < length line then Some (drop (length prefix) line) else None)"

definition trust :: "bool \<Rightarrow> 'o ui \<Rightarrow> 'o ui" where
  "trust on s = app_update_header (on_app (ap_agent_update (\<lambda>c. agent_set_session_trusted c on)) s)"

definition settings_text :: "'o app \<Rightarrow> bool \<Rightarrow> string" where
  "settings_text a help =
     (let rt = ap_rt a; or_unset = (\<lambda>v. case v of Some t \<Rightarrow> t | None \<Rightarrow> ''(unset)'') in
      ''base_url: '' @ or_unset (cf_base_url (rm_config rt)) @ [CHR 0x0A] @
      ''model:    '' @ app_model_bare_name rt (rm_provider rt, rm_model rt) @ '' (default)'' @ [CHR 0x0A] @
      (case ap_model a of
         Some (Table_Model i) \<Rightarrow> ''active:   '' @ app_model_bare_name rt (model_at rt (Table_Model i)) @ [CHR 0x0A]
       | _ \<Rightarrow> []) @
      ''key:      '' @ (if pr_api_key (rm_provider rt) \<noteq> None then ''(set)'' else ''(not set)'') @ [CHR 0x0A] @
      (if help then ''commands: /login /settings /session /report /trust [on|off] '' @
         ''/base-url <url> /key <value> /model [provider/model] '' @ ''(Up/Down + fuzzy search) /help'' @ [CHR 0x0A] else []))"

definition app_command :: "'o app_env \<Rightarrow> string \<Rightarrow> 'o ui \<Rightarrow> 'o ui" where
  "app_command env line s =
     (if line = ''/login'' then
        (if ap_oauth (snd s) then status ''OAuth login is already running'' s
         else status ''login: type to filter, Up/Down choose, Enter select, Esc cancel'' (say msg_login
                (on_tui (\<lambda>t. tui_choice_start login_choices 0 (tui_set_input_secret False t)) (on_app (ap_login_update (\<lambda>_. LOGIN_MENU)) s))))
      else if line = ''/session'' then
        (case a_session (ap_agent (snd s)) of
           Some se \<Rightarrow> on_tui (on_model (\<lambda>m. tui_model_append_n m LINE_SYSTEM
                        (''session: '' @ s_id se @ [CHR 0x0A] @ ''resume: cagent -r '' @ s_id se))) s
         | None \<Rightarrow> say ''session persistence is unavailable'' s)
      else if line = ''/trust'' then
        say (if agent_session_trusted (ap_agent (snd s)) then ''trusted mode: on'' else ''trusted mode: off'') s
      else if line = ''/trust on'' then
        status ''TRUSTED: use /trust off to restore per-tool approval''
          (say (''WARNING: trusted mode enabled for this process; top-level bash/write/edit '' @
                ''and git writes are auto-approved until /trust off'') (trust True s))
      else if line = ''/trust off'' then
        status ''per-tool approval enabled'' (say ''trusted mode disabled; per-tool approval restored'' (trust False s))
      else if line = ''/report'' then
        status ''/report: Up/Down scroll, PgUp/PgDn page, Enter/Esc return'' (on_tui tui_report_start s)
      else if line = ''/settings'' \<or> line = ''/help'' then
        on_tui (on_model (\<lambda>m. tui_model_append_n m LINE_SYSTEM (settings_text (snd s) (line = ''/help'')))) s
      else
        (case str_after_prefix line ''/base-url '' of
           Some v \<Rightarrow> say ''base_url updated (in-memory)'' (on_app (ap_rt_update (\<lambda>rt. snd (runtime_set_base_url rt (Some v)))) s)
         | None \<Rightarrow>
        (case str_after_prefix line ''/key '' of
           Some v \<Rightarrow> say ''API key updated (in-memory, not persisted)'' (on_app (ap_rt_update (\<lambda>rt. snd (runtime_set_api_key rt (Some v)))) s)
         | None \<Rightarrow>
        (if line = ''/model'' then app_model_picker_open s
         else
           (case str_after_prefix line ''/model '' of
              Some v \<Rightarrow>
                (case runtime_model_by_name (ap_rt (snd s)) v of
                   Some r \<Rightarrow> app_apply_model env r s
                 | None \<Rightarrow> say ''unknown model; use /model to list selectors'' s)
            | None \<Rightarrow> say ''unknown command; /help for the list'' s)))))"

section \<open>Lines\<close>

definition trust_words :: "string list" where
  "trust_words = [''/trust on'', ''always'']"

definition approve_words :: "string list" where
  "approve_words = trust_words @ [''/approve'', ''approve'', ''y'', ''Y'']"

definition reject_words :: "string list" where
  "reject_words = [''/reject'', ''reject'', ''n'', ''N'']"

text \<open>A line while a call waits for its approval.\<close>

definition answer_approval :: "string \<Rightarrow> 'o ui \<Rightarrow> 'o ui" where
  "answer_approval line s =
     (let trust_on = (line \<in> set trust_words); approved = (line \<in> set approve_words); rejected = (line \<in> set reject_words) in
      if line = ''/trust off'' then
        status msg_trust_off_pending (trust False s)
      else if \<not> approved \<and> \<not> rejected then status msg_answer_needed s
      else
        (let s1 = (if trust_on then say (''WARNING: trusted mode enabled; subsequent top-level side-effecting '' @
                                         ''tools are auto-approved until /trust off'') (trust True s) else s);
             (rc, c) = agent_set_approval_result (ap_agent (snd s1)) approved;
             s2 = on_app (\<lambda>a. a\<lparr>ap_agent := c, ap_approval := False\<rparr>) s1 in
         if rc \<noteq> AGENT_OK then status msg_approval_stale s2
         else status (if trust_on then msg_approved_trusted else if approved then msg_approved
                      else msg_rejected) s2))"

definition cancel_agent :: "'o app \<Rightarrow> 'o app" where
  "cancel_agent a = a\<lparr>ap_agent := (ap_agent a)\<lparr>a_cancel := cancel_token_cancel (a_cancel (ap_agent a))\<rparr>\<rparr>"

definition request_quit :: "'o ui \<Rightarrow> 'o ui" where
  "request_quit s =
     (if ap_busy (snd s) then status ''cancelling before exit...'' (on_app (\<lambda>a. cancel_agent (a\<lparr>ap_quit_pending := True\<rparr>)) s)
      else on_app (ap_quit_update (\<lambda>_. True)) s)"

definition start_turn :: "'o app_env \<Rightarrow> string \<Rightarrow> 'o ui \<Rightarrow> 'o ui" where
  "start_turn env line s =
     (case agent_start (ae_loop env) line (ap_agent (snd s)) of
        None \<Rightarrow> s
      | Some (rc, c) \<Rightarrow>
          (let s1 = deliver env (on_app (ap_agent_update (\<lambda>_. c)) s) in
           if rc = AGENT_OK then on_tui (tui_set_busy True) (app_update_statusline env (on_app (ap_busy_update (\<lambda>_. True)) s1))
           else status ''failed to start the agent'' s1))"

definition app_submit :: "'o app_env \<Rightarrow> string \<Rightarrow> 'o ui \<Rightarrow> 'o ui" where
  "app_submit env line s =
     (let a = snd s in
      if ap_approval a then answer_approval line s
      else if tui_report_active (fst s) then app_report_restore (on_tui tui_report_stop s)
      else if ap_picker a then app_model_picker_submit env s
      else if line \<in> {''/quit'', ''/exit'', ''exit'', ''quit''} then request_quit s
      else if ap_login a \<noteq> LOGIN_NONE then app_login_input env line s
      else if line \<noteq> [] \<and> hd line = CHR ''/'' then app_command env line s
      else if ap_busy a then status ''agent is running; wait or press Ctrl+C'' s
      else start_turn env line s)"

section \<open>Keys that leave\<close>

definition deny_pending :: "'o app \<Rightarrow> 'o app" where
  "deny_pending a =
     (if ap_approval a then a\<lparr>ap_approval := False, ap_agent := snd (agent_set_approval_result (ap_agent a) False)\<rparr> else a)"

definition app_cancel :: "'o ui \<Rightarrow> 'o ui" where
  "app_cancel s =
     (if ap_oauth (snd s) then status ''ready'' (say msg_oauth_cancelled (app_login_reset (app_stop_oauth s)))
      else if ap_login (snd s) \<noteq> LOGIN_NONE then status msg_login_cancelled (app_login_reset s)
      else
        (let s1 = on_app deny_pending s in
         if ap_busy (snd s1) then status ''cancelling...'' (on_app cancel_agent s1) else on_app (ap_quit_update (\<lambda>_. True)) s1))"

definition app_escape :: "'o ui \<Rightarrow> 'o ui" where
  "app_escape s =
     (if ap_oauth (snd s) \<or> ap_login (snd s) \<noteq> LOGIN_NONE then app_cancel s
      else if ap_approval (snd s) then status msg_approval_cancelled (on_app deny_pending s)
      else if ap_busy (snd s) then status ''cancelling...'' (on_app cancel_agent s)
      else s)"

definition app_handlers :: "'o app_env \<Rightarrow> 'o app handlers" where
  "app_handlers env =
     \<lparr>h_submit = Some (app_submit env), h_cancel = Some app_cancel, h_escape = Some app_escape,
      h_choice_cancel = Some app_choice_cancel, h_report_cancel = Some app_report_cancel\<rparr>"

text \<open>What was read from the terminal; nothing at its end.\<close>

definition app_stdin_cb :: "'o app_env \<Rightarrow> string \<Rightarrow> 'o ui \<Rightarrow> 'o ui" where
  "app_stdin_cb env bytes s = (if bytes = [] then request_quit s else tui_feed_bytes (app_handlers env) bytes s)"

section \<open>Ends of turns and discoveries\<close>

definition discovery_apply :: "'o app_env \<Rightarrow> config \<Rightarrow> 'o app \<Rightarrow> 'o app" where
  "discovery_apply env catalog a =
     (let selected = Option.bind (ap_model a) (selector_of (ap_rt a));
          (rc, rt, files') = runtime_apply_catalog (ae_run env) (ap_files a) (ap_rt a) catalog;
          a1 = a\<lparr>ap_rt := rt, ap_files := files'\<rparr> in
      case selected of
        Some sel \<Rightarrow>
          if rc = AGENT_OK then
            (let r = (case runtime_model_by_name rt sel of Some r \<Rightarrow> r | None \<Rightarrow> Default_Model) in
             a1\<lparr>ap_model := Some r, ap_agent := (ap_agent a1)\<lparr>a_model := Some (ae_object env (model_at rt r))\<rparr>\<rparr>)
          else a1
      | None \<Rightarrow> a1)"

definition strip_separator :: "string \<Rightarrow> string" where
  "strip_separator s = (if length s \<ge> 2 \<and> drop (length s - 2) s = ''; '' then take (length s - 2) s else s)"

definition app_discovery_cb :: "'o app_env \<Rightarrow> config \<Rightarrow> string \<Rightarrow> 'o ui \<Rightarrow> 'o ui" where
  "app_discovery_cb env catalog failures s =
     (if ap_busy (snd s) then s
      else
        (let s1 = app_update_statusline env (on_tui (tui_set_busy False) (on_app (discovery_apply env catalog) s)) in
         if failures = [] then status msg_catalog_updated s1
         else status msg_catalog_failed
                (say (take 799 (msg_catalog_reason @ strip_separator failures @
                   msg_catalog_hint)) s1)))"

text \<open>One turn of the main loop for a busy agent.\<close>

definition app_advance :: "'o app_env \<Rightarrow> 'o ui \<Rightarrow> 'o ui" where
  "app_advance env s =
     (if \<not> ap_busy (snd s) then s
      else
        (case agent_resume (ae_loop env) (ap_agent (snd s)) of
           None \<Rightarrow> s
         | Some (r, c) \<Rightarrow>
             (let s1 = deliver env (on_app (ap_agent_update (\<lambda>_. c)) s) in
              if r = AGENT_STEP_BUSY then s1
              else
                (let s2 = on_tui (tui_set_busy False) (app_update_statusline env (on_app (ap_busy_update (\<lambda>_. False)) s1));
                     s3 = status (case r of AGENT_STEP_ERROR \<Rightarrow> ''agent finished with an error''
                                          | AGENT_STEP_CANCELLED \<Rightarrow> ''cancelled; ready for the next request'' | _ \<Rightarrow> ''ready'') s2 in
                 if ap_quit_pending (snd s3) then on_app (ap_quit_update (\<lambda>_. True)) s3 else s3))))"

definition app_sigint :: "'o ui \<Rightarrow> 'o ui" where
  "app_sigint s =
     (if ap_busy (snd s) then status ''cancelling...'' (on_app cancel_agent s) else on_app (ap_quit_update (\<lambda>_. True)) s)"

text \<open>The application before its first event.\<close>

definition tui_run_start :: "'o app_env \<Rightarrow> int \<Rightarrow> int \<Rightarrow> 'o logged loop \<Rightarrow> runtime_models \<Rightarrow> model_ref option \<Rightarrow> file_store \<Rightarrow> 'o ui" where
  "tui_run_start env rows cols c rt r files =
     (let c1 = agent_set_approval_available (c\<lparr>a_event_cb := Some record_event\<rparr>) True;
          t = tui_replay_history (rn_read (ae_run env)) (ae_real_text env) (mitems (a_messages c1)) (tui_new rows cols);
          a = \<lparr>ap_agent = c1, ap_rt = rt, ap_model = r, ap_files = files, ap_oauth = False, ap_login = LOGIN_NONE, ap_login_provider = [],
               ap_selectors = [], ap_picker = False, ap_approval = False, ap_quit = False, ap_quit_pending = False, ap_busy = False\<rparr> in
      app_update_statusline env (on_tui (tui_set_busy False) (app_update_header (t, a))))"

end
