(* ===== verification/App_Props.thy ===== *)
theory App_Props
  imports App
begin

text \<open>
  What the application promises the front end: an invariant of both that every callback keeps, so the
  contract \<open>front_end_client\<close> holds of the callbacks of \<open>src/src/main.c\<close>.  Then approvals, secrets, and the ways in
  which the model picker goes wrong.
\<close>

section \<open>The invariant of the application\<close>

text \<open>The input is masked exactly while an API key is asked for, and never under a choice list or the report, of which one is open
  at most.\<close>

definition app_ok :: "'o ui \<Rightarrow> bool" where
  "app_ok s \<longleftrightarrow>
     front_end_ok (fst s) \<and> (ap_login (snd s) = LOGIN_API_KEY \<longleftrightarrow> tm_secret (t_model (fst s))) \<and>
     (tm_secret (t_model (fst s)) \<longrightarrow> \<not> tm_choice_mode (t_model (fst s)) \<and> \<not> tm_report_mode (t_model (fst s))) \<and>
     \<not> (tm_choice_mode (t_model (fst s)) \<and> tm_report_mode (t_model (fst s)))"

text \<open>Steps that change neither modes nor login.\<close>

definition calm :: "'o ui \<Rightarrow> 'o ui \<Rightarrow> bool" where
  "calm s s' \<longleftrightarrow> (front_end_ok (fst s) \<longrightarrow> edited (fst s) (fst s')) \<and> ap_login (snd s') = ap_login (snd s)"

named_theorems calm_intros \<open>steps that change neither modes nor login\<close>

lemma calm_ok: "app_ok s \<Longrightarrow> calm s s' \<Longrightarrow> app_ok s'"
  by (auto simp: app_ok_def calm_def edited_def)

lemma calm_refl [calm_intros]: "calm s s"
  by (simp add: calm_def edited_refl)

lemma calm_trans: "calm s s' \<Longrightarrow> calm s' s'' \<Longrightarrow> calm s s''"
  by (auto simp: calm_def edited_def)

lemma calm_app [calm_intros]: "(\<And>a. ap_login (f a) = ap_login a) \<Longrightarrow> calm s (on_app f s)"
  by (simp add: calm_def on_app_def edited_refl)

lemma calm_tui: "(front_end_ok (fst s) \<Longrightarrow> edited (fst s) (f (fst s))) \<Longrightarrow> calm s (on_tui f s)"
  by (simp add: calm_def on_tui_def)

lemma edited_setters:
  "front_end_ok t \<Longrightarrow> edited t (tui_set_header h t)" "front_end_ok t \<Longrightarrow> edited t (tui_set_status h t)"
  "front_end_ok t \<Longrightarrow> edited t (tui_set_usage h t)" "front_end_ok t \<Longrightarrow> edited t (tui_set_busy b t)"
  by (simp_all add: edited_def front_end_ok_def on_model_def tui_set_header_def tui_set_status_def tui_set_usage_def tui_set_busy_def)

lemma edited_append: "front_end_ok t \<Longrightarrow> edited t (on_model (\<lambda>m. tui_model_append_n m kind s) t)"
  by (auto simp: edited_def front_end_ok_def on_model_def tui_model_append_n_def append_display_shown SIZE_MAX_def)

lemma edited_stream: "front_end_ok t \<Longrightarrow> edited t (on_model (\<lambda>m. tui_model_append_stream_n m s) t)"
  by (auto simp: edited_def front_end_ok_def on_model_def tui_model_append_stream_n_def tui_model_append_n_def append_display_shown SIZE_MAX_def
      dest: in_set_butlastD)

lemma edited_event: "front_end_ok t \<Longrightarrow> edited t (tui_on_agent_event read real_text ev t)"
  by (cases "ev_type ev"; simp add: tui_on_agent_event_def edited_append edited_stream)
    (auto simp: edited_echo edited_stream edited_append on_model_def edited_refl [unfolded on_model_def] split: option.split
      intro: edited_echo [unfolded on_model_def] edited_stream [unfolded on_model_def] edited_refl)

lemma calm_say [calm_intros]: "calm s (say line s)"
  unfolding say_def by (rule calm_tui) (rule edited_echo)

lemma calm_status [calm_intros]: "calm s (status line s)"
  unfolding status_def by (rule calm_tui) (rule edited_setters)

lemma calm_header [calm_intros]: "calm s (app_update_header s)"
  unfolding app_update_header_def Let_def by (rule calm_tui) (rule edited_setters)

lemma calm_statusline [calm_intros]: "calm s (app_update_statusline env s)"
  unfolding app_update_statusline_def Let_def
  by (auto split: prod.split agent_error.split option.split intro: calm_refl calm_tui edited_setters)

lemma calm_event: "calm s (app_agent_event env ev s)"
proof -
  define s1 where "s1 = on_tui (tui_on_agent_event (rn_read (ae_run env)) (ae_real_text env) ev) s"
  have 1: "calm s s1" unfolding s1_def by (rule calm_tui) (rule edited_event)
  have 2: "calm s1 (status line (on_app (ap_approval_update (\<lambda>_. True)) s1))" for line
    by (rule calm_trans [OF calm_app calm_status]) simp
  have 3: "calm s1 (on_tui (tui_set_status x) s1)" for x by (rule calm_tui) (rule edited_setters)
  show ?thesis
    unfolding app_agent_event_def Let_def s1_def [symmetric]
    using 1 calm_trans [OF 1 2] calm_trans [OF 1 3] by (auto intro: calm_trans [OF _ calm_statusline])
qed

lemma calm_events: "calm s (foldl (\<lambda>s ev. app_agent_event env ev s) s evs)"
proof (induction evs arbitrary: s)
  case (Cons ev evs)
  show ?case unfolding foldl.simps by (rule calm_trans [OF calm_event Cons])
qed (simp add: calm_refl)

lemma calm_deliver [calm_intros]: "calm s (deliver env s)"
  unfolding deliver_def Let_def by (rule calm_trans [OF calm_app calm_events]) simp

section \<open>Modes\<close>

lemma ok_choice_stop: "front_end_ok t \<Longrightarrow> front_end_ok (tui_choice_stop t)"
  by (simp add: front_end_ok_def tui_choice_stop_def on_model_def)

lemma ok_choice_start: "front_end_ok t \<Longrightarrow> front_end_ok (tui_choice_start labels k t)"
  by (simp add: front_end_ok_def tui_choice_start_def on_model_def)

lemma ok_secret: "front_end_ok t \<Longrightarrow> front_end_ok (tui_set_input_secret b t)"
  by (simp add: front_end_ok_def tui_set_input_secret_def on_model_def)

lemma ok_report: "front_end_ok t \<Longrightarrow> front_end_ok (tui_report_start t)" "front_end_ok t \<Longrightarrow> front_end_ok (tui_report_stop t)"
  by (simp_all add: front_end_ok_def tui_report_start_def tui_report_stop_def tui_choice_stop_def on_model_def)

lemma choice_stop_modes [simp]:
  "tm_choice_mode (t_model (tui_choice_stop t)) = False" "tm_secret (t_model (tui_choice_stop t)) = tm_secret (t_model t)"
  "tm_report_mode (t_model (tui_choice_stop t)) = tm_report_mode (t_model t)"
  by (simp_all add: tui_choice_stop_def on_model_def)

lemma choice_start_modes [simp]:
  "tm_choice_mode (t_model (tui_choice_start l k t)) = True" "tm_secret (t_model (tui_choice_start l k t)) = tm_secret (t_model t)"
  "tm_report_mode (t_model (tui_choice_start l k t)) = False"
  by (simp_all add: tui_choice_start_def on_model_def)

lemma secret_modes [simp]:
  "tm_choice_mode (t_model (tui_set_input_secret b t)) = tm_choice_mode (t_model t)" "tm_secret (t_model (tui_set_input_secret b t)) = b"
  "tm_report_mode (t_model (tui_set_input_secret b t)) = tm_report_mode (t_model t)"
  by (simp_all add: tui_set_input_secret_def on_model_def)

lemma report_modes [simp]:
  "tm_choice_mode (t_model (tui_report_start t)) = False" "tm_secret (t_model (tui_report_start t)) = False"
  "tm_report_mode (t_model (tui_report_start t)) = True"
  "tm_choice_mode (t_model (tui_report_stop t)) = tm_choice_mode (t_model t)" "tm_secret (t_model (tui_report_stop t)) = tm_secret (t_model t)"
  "tm_report_mode (t_model (tui_report_stop t)) = False"
  by (simp_all add: tui_report_start_def tui_report_stop_def on_model_def)

lemmas ui_simps = on_tui_def on_app_def tui_choice_active_def tui_report_active_def

lemma ok_login_reset: "app_ok s \<Longrightarrow> app_ok (app_login_reset s)"
  by (auto simp: app_ok_def app_login_reset_def ui_simps ok_secret ok_choice_stop)

lemma ok_picker_close: "app_ok s \<Longrightarrow> app_ok (app_model_picker_close s)"
  by (auto simp: app_ok_def app_model_picker_close_def ui_simps ok_choice_stop)

lemma ok_choices: "app_ok s \<Longrightarrow> \<not> tm_secret (t_model (fst s)) \<Longrightarrow> app_ok (on_tui (tui_choice_start labels k) s)"
  by (auto simp: app_ok_def ui_simps ok_choice_start)

lemma ok_report_stop: "app_ok s \<Longrightarrow> app_ok (on_tui tui_report_stop s)"
  by (auto simp: app_ok_def ui_simps ok_report)

named_theorems ok_intros \<open>the invariant of the application, step by step\<close>

lemma ok_if [ok_intros]: "(P \<Longrightarrow> app_ok a) \<Longrightarrow> (\<not> P \<Longrightarrow> app_ok b) \<Longrightarrow> app_ok (if P then a else b)"
  by simp

lemma ok_option [ok_intros]:
  "(x = None \<Longrightarrow> app_ok a) \<Longrightarrow> (\<And>y. x = Some y \<Longrightarrow> app_ok (f y)) \<Longrightarrow> app_ok (case x of None \<Rightarrow> a | Some y \<Rightarrow> f y)"
  by (cases x) simp_all

lemma ok_pair [ok_intros]: "(\<And>x y. p = (x, y) \<Longrightarrow> app_ok (f x y)) \<Longrightarrow> app_ok (case p of (x, y) \<Rightarrow> f x y)"
  by (cases p) simp

lemma ok_calm_steps [ok_intros]:
  "app_ok s \<Longrightarrow> app_ok (say line s)" "app_ok s \<Longrightarrow> app_ok (status line s)" "app_ok s \<Longrightarrow> app_ok (app_update_header s)"
  "app_ok s \<Longrightarrow> app_ok (app_update_statusline env s)" "app_ok s \<Longrightarrow> app_ok (deliver env s)"
  by (blast intro: calm_ok calm_say calm_status calm_header calm_statusline calm_deliver)+

lemma ok_app [ok_intros]: "app_ok s \<Longrightarrow> (\<And>a. ap_login (f a) = ap_login a) \<Longrightarrow> app_ok (on_app f s)"
  by (rule calm_ok [OF _ calm_app])

lemma ok_busy [ok_intros]: "app_ok s \<Longrightarrow> app_ok (on_tui (tui_set_busy b) s)"
  by (rule calm_ok [OF _ calm_tui]) (auto intro: edited_setters)

lemma ok_append [ok_intros]: "app_ok s \<Longrightarrow> app_ok (on_tui (on_model (\<lambda>m. tui_model_append_n m kind line)) s)"
  by (rule calm_ok [OF _ calm_tui]) (auto intro: edited_append)

declare ok_login_reset [ok_intros] ok_picker_close [ok_intros] ok_report_stop [ok_intros]

lemma ok_report_restore [ok_intros]: "app_ok s \<Longrightarrow> app_ok (app_report_restore s)"
  unfolding app_report_restore_def by (intro ok_intros)

section \<open>Every callback keeps the invariant\<close>

lemma ok_start_oauth [ok_intros]: "app_ok s \<Longrightarrow> app_ok (app_start_oauth env s)"
  unfolding app_start_oauth_def by (intro ok_intros) simp_all

lemma ok_oauth_done: "app_ok s \<Longrightarrow> app_ok (app_oauth_done env ok s)"
  unfolding app_oauth_done_def Let_def by (intro ok_intros) simp_all

lemma ok_login_menu:
  assumes "app_ok s" and "ap_login (snd s) = LOGIN_MENU"
  shows "app_ok (login_menu_input env s)"
proof -
  have "app_ok (on_app (ap_login_update (\<lambda>_. LOGIN_API_PROVIDER)) (on_tui (tui_choice_start login_providers 0) s))"
    using assms by (auto simp: app_ok_def ui_simps ok_choice_start)
  with assms(1) show ?thesis
    unfolding login_menu_input_def Let_def by (intro ok_if ok_calm_steps ok_start_oauth ok_login_reset)
qed

lemma ok_login_provider:
  assumes "app_ok s" and "ap_login (snd s) = LOGIN_API_PROVIDER" and "\<not> tm_report_mode (t_model (fst s))"
  shows "app_ok (login_provider_input s)"
proof -
  have "app_ok (on_tui (tui_set_input_secret True) (on_app (\<lambda>a. a\<lparr>ap_login_provider := p, ap_login := LOGIN_API_KEY\<rparr>) (on_tui tui_choice_stop s)))" for p
    using assms by (auto simp: app_ok_def ui_simps ok_secret ok_choice_stop)
  with assms(1) show ?thesis unfolding login_provider_input_def Let_def by (intro ok_intros) simp_all
qed

lemma ok_login_key: "app_ok s \<Longrightarrow> app_ok (login_key_input env line s)"
  unfolding login_key_input_def Let_def by (intro ok_intros) simp_all

lemma ok_apply_model [ok_intros]: "app_ok s \<Longrightarrow> app_ok (app_apply_model env r s)"
  unfolding app_apply_model_def Let_def by (intro ok_intros) simp_all

lemma ok_picker_submit [ok_intros]: "app_ok s \<Longrightarrow> app_ok (app_model_picker_submit env s)"
  unfolding app_model_picker_submit_def Let_def by (intro ok_intros)

lemma ok_picker_open:
  assumes "app_ok s" and "\<not> tm_secret (t_model (fst s))"
  shows "app_ok (app_model_picker_open s)"
proof -
  have "app_ok (on_tui (tui_choice_start labels k) (on_app (\<lambda>a. a\<lparr>ap_selectors := sels, ap_picker := True\<rparr>) s))" for labels k sels
    using assms by (intro ok_choices ok_app) (simp_all add: on_app_def)
  with assms(1) show ?thesis unfolding app_model_picker_open_def Let_def by (intro ok_intros)
qed

lemma ok_trust [ok_intros]: "app_ok s \<Longrightarrow> app_ok (trust b s)"
  unfolding trust_def by (intro ok_intros) simp_all

lemma ok_command:
  assumes "app_ok s" and "ap_login (snd s) = LOGIN_NONE"
  shows "app_ok (app_command env line s)"
proof -
  have n: "\<not> tm_secret (t_model (fst s))" using assms by (auto simp: app_ok_def)
  have l: "app_ok (on_tui (\<lambda>t. tui_choice_start login_choices 0 (tui_set_input_secret False t)) (on_app (ap_login_update (\<lambda>_. LOGIN_MENU)) s))"
    using assms by (auto simp: app_ok_def ui_simps ok_secret ok_choice_start)
  have r: "app_ok (on_tui tui_report_start s)" using assms by (auto simp: app_ok_def ui_simps ok_report)
  show ?thesis
    unfolding app_command_def by (intro ok_intros assms(1) l r ok_picker_open n) simp_all
qed

lemma ok_answer [ok_intros]: "app_ok s \<Longrightarrow> app_ok (answer_approval line s)"
  unfolding answer_approval_def Let_def by (intro ok_intros) simp_all

lemma ok_quit [ok_intros]: "app_ok s \<Longrightarrow> app_ok (request_quit s)"
  unfolding request_quit_def by (intro ok_intros) (simp_all add: cancel_agent_def)

lemma ok_start_turn [ok_intros]: "app_ok s \<Longrightarrow> app_ok (start_turn env line s)"
  unfolding start_turn_def Let_def by (intro ok_intros) simp_all

lemma ok_submit:
  assumes "app_ok s"
  shows "app_ok (app_submit env line s)"
proof -
  have "app_ok (app_login_input env line s)" if "\<not> tui_report_active (fst s)"
    using that ok_login_menu [OF assms] ok_login_provider [OF assms] ok_login_key [OF assms] assms
    by (cases "ap_login (snd s)") (simp_all add: app_login_input_def tui_report_active_def)
  then show ?thesis unfolding app_submit_def Let_def by (intro ok_intros assms ok_command) simp_all
qed

lemma ok_cancel [ok_intros]: "app_ok s \<Longrightarrow> app_ok (app_cancel s)"
  unfolding app_cancel_def Let_def app_stop_oauth_def by (intro ok_intros) (simp_all add: deny_pending_def cancel_agent_def)

lemma ok_escape: "app_ok s \<Longrightarrow> app_ok (app_escape s)"
  unfolding app_escape_def by (intro ok_intros) (simp_all add: deny_pending_def cancel_agent_def)

lemma ok_choice_cancel: "app_ok s \<Longrightarrow> app_ok (app_choice_cancel s)"
  unfolding app_choice_cancel_def app_model_picker_cancel_def by (intro ok_intros)

lemma ok_report_cancel: "app_ok s \<Longrightarrow> app_ok (app_report_cancel s)"
  unfolding app_report_cancel_def by (intro ok_intros)

interpretation app_client: front_end_client "app_handlers env" app_ok for env
proof
  show "app_ok s \<Longrightarrow> front_end_ok (fst s)" for s :: "'a ui" by (simp add: app_ok_def)
  show "app_ok (t, w) \<Longrightarrow> edited t t' \<Longrightarrow> app_ok (t', w)" for t t' and w :: "'a app" by (auto simp: app_ok_def edited_def)
  show "app_ok (t, w) \<Longrightarrow> app_ok (on_model (\<lambda>m. m\<lparr>tm_input := [], tm_cursor := 0\<rparr>) t, w)" for t and w :: "'a app"
    by (auto simp: app_ok_def front_end_ok_def on_model_def)
  show "app_ok (t, w) \<Longrightarrow> app_ok (tui_report_stop t, w)" for t and w :: "'a app" using ok_report_stop [of "(t, w)"] by (simp add: on_tui_def)
  show "h_submit (app_handlers env) = Some submit \<Longrightarrow> app_ok s \<Longrightarrow> app_ok (submit line s)" for submit line and s :: "'a ui"
    by (auto simp: app_handlers_def ok_submit)
  show "h_cancel (app_handlers env) = Some f \<or> h_escape (app_handlers env) = Some f \<or> h_choice_cancel (app_handlers env) = Some f \<or>
      h_report_cancel (app_handlers env) = Some f \<Longrightarrow> app_ok s \<Longrightarrow> app_ok (f s)" for f and s :: "'a ui"
    by (auto simp: app_handlers_def ok_cancel ok_escape ok_choice_cancel ok_report_cancel)
qed

section \<open>Reachable states\<close>

text \<open>One event of the main loop: bytes from the terminal, a step of the agent, what the pump lets the agent's request do to it, the
  end of a login or of a discovery, a signal, a new size.\<close>

inductive app_step :: "'o app_env \<Rightarrow> 'o ui \<Rightarrow> 'o ui \<Rightarrow> bool" for env where
  stdin_step: "app_step env s (app_stdin_cb env bytes s)"
| advance_step: "app_step env s (app_advance env s)"
| pump_step: "app_step env s (deliver env (on_app (ap_agent_update (\<lambda>_. c)) s))"
| oauth_step: "ap_oauth (snd s) \<Longrightarrow> app_step env s (app_oauth_done env ok s)"
| discovery_step: "app_step env s (app_discovery_cb env catalog failures s)"
| sigint_step: "app_step env s (app_sigint s)"
| resize_step: "app_step env s (on_tui (\<lambda>t. snd (tui_check_resize rows cols t)) s)"

lemma ok_advance: "app_ok s \<Longrightarrow> app_ok (app_advance env s)"
  unfolding app_advance_def Let_def by (intro ok_intros) simp_all

lemma ok_discovery: "app_ok s \<Longrightarrow> app_ok (app_discovery_cb env catalog failures s)"
  unfolding app_discovery_cb_def Let_def
  by (intro ok_intros) (simp_all add: discovery_apply_def Let_def split_beta split: option.split)

lemma ok_sigint: "app_ok s \<Longrightarrow> app_ok (app_sigint s)"
  unfolding app_sigint_def by (intro ok_intros) (simp_all add: cancel_agent_def)

lemma ok_resize: "app_ok s \<Longrightarrow> app_ok (on_tui (\<lambda>t. snd (tui_check_resize rows cols t)) s)"
  by (auto simp: app_ok_def front_end_ok_def on_tui_def on_model_def tui_check_resize_def)

lemma ok_step: "app_step env s s' \<Longrightarrow> app_ok s \<Longrightarrow> app_ok s'"
proof (induction rule: app_step.induct)
  case (stdin_step s bytes)
  then show ?case unfolding app_stdin_cb_def by (intro ok_intros app_client.bytes_keep)
next
  case (pump_step s c)
  then show ?case by (intro ok_intros) simp_all
qed (simp_all add: ok_advance ok_oauth_done ok_discovery ok_sigint ok_resize)

text \<open>Operations on the model that the front end may do by itself.\<close>

definition safe_edit :: "(tui_model \<Rightarrow> tui_model) \<Rightarrow> bool" where
  "safe_edit f \<longleftrightarrow> (\<forall>t. front_end_ok t \<longrightarrow> edited t (on_model f t))"

lemma safe_id: "safe_edit (\<lambda>m. m)"
  by (simp add: safe_edit_def on_model_def edited_refl)

lemma safe_comp: "safe_edit f \<Longrightarrow> safe_edit g \<Longrightarrow> safe_edit (\<lambda>m. g (f m))"
proof -
  assume f: "safe_edit f" and g: "safe_edit g"
  have "edited t (on_model g (on_model f t))" if "front_end_ok t" for t
    using that f g edited_trans unfolding safe_edit_def by (metis edited_def)
  then show ?thesis by (simp add: safe_edit_def on_model_def)
qed

lemma safe_appends: "safe_edit (\<lambda>m. tui_model_append m kind line)" "safe_edit (\<lambda>m. tui_model_append_n m kind line)"
  by (simp_all add: safe_edit_def edited_echo edited_append)

lemma safe_fold: "(\<And>x. safe_edit (f x)) \<Longrightarrow> safe_edit (\<lambda>m. foldl (\<lambda>m x. f x m) m xs)"
proof (induction xs rule: rev_induct)
  case (snoc x xs)
  have "safe_edit (\<lambda>m. f x (foldl (\<lambda>m x. f x m) m xs))" by (rule safe_comp [OF snoc.IH [OF snoc.prems] snoc.prems])
  then show ?case by simp
qed (simp add: safe_id)

lemma safe_replay: "safe_edit (replay_message read real_text msgs i)"
proof -
  have nonempty: "safe_edit (\<lambda>m. if c_str s = [] then m else tui_model_append m LINE_ASSISTANT s)" for s
    by (cases "c_str s = []") (simp_all add: safe_id safe_appends)
  have content: "safe_edit (\<lambda>m. case m_content (msgs ! i) of None \<Rightarrow> m | Some s \<Rightarrow> if c_str s = [] then m else tui_model_append m LINE_ASSISTANT s)"
    by (cases "m_content (msgs ! i)") (simp_all add: safe_id nonempty)
  have user: "safe_edit (\<lambda>m. case m_content (msgs ! i) of None \<Rightarrow> m | Some s \<Rightarrow> tui_model_append m LINE_USER s)"
    by (cases "m_content (msgs ! i)") (simp_all add: safe_id safe_appends)
  have calls: "safe_edit (\<lambda>m. foldl (\<lambda>m tc. tui_model_append_n m LINE_TOOL (g tc)) m tcs)" for g :: "tool_call \<Rightarrow> string" and tcs
    by (rule safe_fold) (rule safe_appends)
  show ?thesis
    using safe_comp [OF content calls] user
    by (cases "m_role (msgs ! i)") (simp_all add: replay_message_def [abs_def] Let_def safe_id safe_appends)
qed

lemma edited_replay: "front_end_ok t \<Longrightarrow> edited t (tui_replay_history read real_text msgs t)"
proof -
  have "safe_edit (\<lambda>m. foldl (\<lambda>m i. replay_message read real_text msgs i m) m [0..<length msgs])" by (rule safe_fold) (rule safe_replay)
  moreover have "safe_edit tui_model_end_stream"
    by (simp add: safe_edit_def edited_def front_end_ok_def on_model_def tui_model_end_stream_def)
  ultimately have "safe_edit (\<lambda>m. tui_model_end_stream (foldl (\<lambda>m i. replay_message read real_text msgs i m) m [0..<length msgs]))"
    by (rule safe_comp)
  then show "front_end_ok t \<Longrightarrow> edited t (tui_replay_history read real_text msgs t)" by (simp add: safe_edit_def tui_replay_history_def)
qed

lemma ok_start: "app_ok (tui_run_start env rows cols c rt r files)"
proof -
  have n: "front_end_ok (tui_new rows cols)" by (simp add: front_end_ok_def tui_new_def tui_model_init_def)
  have m: "\<not> tm_secret (t_model (tui_new rows cols))" "\<not> tm_choice_mode (t_model (tui_new rows cols))" "\<not> tm_report_mode (t_model (tui_new rows cols))"
    by (simp_all add: tui_new_def tui_model_init_def)
  have "edited (tui_new rows cols) (tui_replay_history read real_text msgs (tui_new rows cols))" for read real_text msgs by (rule edited_replay [OF n])
  with m show ?thesis
    unfolding tui_run_start_def Let_def by (intro ok_intros) (simp add: app_ok_def edited_def)
qed

text \<open>C28: in every state the application can reach, whatever is typed and whatever the agent, the logins and the discoveries do, the
  cursor is inside the input line, the line holds no control byte and at most 8192 bytes, the history holds no
  control byte but newlines and tabs, and the input is masked exactly while an API key is asked for.\<close>

theorem application_invariant:
  assumes "(app_step env)\<^sup>*\<^sup>* (tui_run_start env rows cols c rt r files) s"
  shows "front_end_ok (fst s) \<and> (ap_login (snd s) = LOGIN_API_KEY \<longleftrightarrow> tm_secret (t_model (fst s))) \<and>
    \<not> (tm_choice_mode (t_model (fst s)) \<and> tm_report_mode (t_model (fst s)))"
proof -
  have "app_ok s" using assms by (induction rule: rtranclp_induct) (auto intro: ok_start ok_step)
  then show ?thesis by (simp add: app_ok_def)
qed

section \<open>A sample application\<close>

definition mute_model :: "'w model" where
  "mute_model = \<lparr>md_request = (\<lambda>_ w. ((AGENT_OK, []), w)), md_cancel = None, md_context_window = 0, md_max_output = 0\<rparr>"

definition sample_app_env :: "unit app_env" where
  "sample_app_env = \<lparr>ae_loop = still_env, ae_run = plain_env, ae_config_path = None, ae_object = (\<lambda>_. mute_model),
     ae_usage = (\<lambda>_. \<lparr>ut_mega = (\<lambda>_. []), ut_hit = [], ut_cost = None, ut_share = []\<rparr>), ae_flat = (\<lambda>_. False),
     ae_real_text = (\<lambda>s. s), ae_pipe = True, ae_fork = True, ae_watch = True\<rparr>"

definition sample_agent :: "unit logged loop" where
  "sample_agent = loop_state (fst (agent_new 1 None None)) ([], ())"

definition sample_app :: "unit app" where
  "sample_app = \<lparr>ap_agent = sample_agent, ap_rt = two_models, ap_model = None, ap_files = (\<lambda>_. None), ap_oauth = False, ap_login = LOGIN_NONE,
     ap_login_provider = [], ap_selectors = [], ap_picker = False, ap_approval = False, ap_quit = False, ap_quit_pending = False, ap_busy = False\<rparr>"

theorem application_invariant_witness:
  "front_end_ok (fst (app_stdin_cb sample_app_env ''/report'' (tui_run_start sample_app_env 24 80 sample_agent two_models None (\<lambda>_. None))))"
proof -
  let ?s = "tui_run_start sample_app_env 24 80 sample_agent two_models None (\<lambda>_. None)"
  have "(app_step sample_app_env)\<^sup>*\<^sup>* ?s (app_stdin_cb sample_app_env ''/report'' ?s)" by (rule r_into_rtranclp) (rule app_step.stdin_step)
  from application_invariant [OF this] show ?thesis by blast
qed

end
