(* ===== verification/App_Approval.thy ===== *)
theory App_Approval
  imports App_Props
begin

text \<open>
  Which lines grant a tool call, and what goes wrong between the modes of the application: an open picker
  that answers an approval, a picker that outlives its list, a key in the history, a model that is replaced under a
  running request.
\<close>

section \<open>Grants\<close>

text \<open>A call may run: it has been approved, or the session is trusted.\<close>

definition consent :: "'o logged loop \<Rightarrow> bool" where
  "consent c \<longleftrightarrow> approval_granted c \<or> agent_session_trusted c"

definition granted :: "'o ui \<Rightarrow> bool" where
  "granted s \<longleftrightarrow> consent (ap_agent (snd s))"

lemma consent_updates [simp]: "consent (c\<lparr>a_model := m\<rparr>) \<longleftrightarrow> consent c" "consent (c\<lparr>a_cancel := k\<rparr>) \<longleftrightarrow> consent c"
  by (simp_all add: consent_def agent_session_trusted_def)

named_theorems grant_intros \<open>steps that grant nothing\<close>

lemma not_granted_if [grant_intros]: "(P \<Longrightarrow> \<not> granted a) \<Longrightarrow> (\<not> P \<Longrightarrow> \<not> granted b) \<Longrightarrow> \<not> granted (if P then a else b)"
  by simp

lemma not_granted_option [grant_intros]:
  "(x = None \<Longrightarrow> \<not> granted a) \<Longrightarrow> (\<And>y. x = Some y \<Longrightarrow> \<not> granted (f y)) \<Longrightarrow> \<not> granted (case x of None \<Rightarrow> a | Some y \<Rightarrow> f y)"
  by (cases x) simp_all

lemma not_granted_pair [grant_intros]: "(\<And>x y. p = (x, y) \<Longrightarrow> \<not> granted (f x y)) \<Longrightarrow> \<not> granted (case p of (x, y) \<Rightarrow> f x y)"
  by (cases p) simp

lemma not_granted_tui [grant_intros]: "\<not> granted s \<Longrightarrow> \<not> granted (on_tui f s)"
  by (simp add: granted_def on_tui_def)

lemma not_granted_app [grant_intros]:
  "\<not> granted s \<Longrightarrow> (\<And>a. \<not> consent (ap_agent a) \<Longrightarrow> \<not> consent (ap_agent (f a))) \<Longrightarrow> \<not> granted (on_app f s)"
  by (simp add: granted_def on_app_def)

lemma not_granted_shown [grant_intros]:
  "\<not> granted s \<Longrightarrow> \<not> granted (say line s)" "\<not> granted s \<Longrightarrow> \<not> granted (status line s)" "\<not> granted s \<Longrightarrow> \<not> granted (app_update_header s)"
  unfolding say_def status_def app_update_header_def Let_def by (intro grant_intros; assumption)+

lemma not_granted_statusline [grant_intros]: "\<not> granted s \<Longrightarrow> \<not> granted (app_update_statusline env s)"
  unfolding app_update_statusline_def Let_def
  by (simp add: not_granted_tui split: prod.split agent_error.split option.split)

lemma not_granted_login [grant_intros]:
  "\<not> granted s \<Longrightarrow> \<not> granted (app_login_reset s)" "\<not> granted s \<Longrightarrow> \<not> granted (app_start_oauth env s)"
  unfolding app_start_oauth_def app_login_reset_def by (intro grant_intros; simp)+

lemma not_granted_login_input: "\<not> granted s \<Longrightarrow> \<not> granted (app_login_input env line s)"
proof -
  assume s: "\<not> granted s"
  have "\<not> granted (login_menu_input env s)" unfolding login_menu_input_def Let_def by (intro grant_intros s) simp
  moreover have "\<not> granted (login_provider_input s)" unfolding login_provider_input_def Let_def by (intro grant_intros s) simp
  moreover have "\<not> granted (login_key_input env line s)" unfolding login_key_input_def Let_def by (intro grant_intros s) simp_all
  ultimately show ?thesis using s by (simp add: app_login_input_def split: login_step.split)
qed

lemma not_granted_picker [grant_intros]: "\<not> granted s \<Longrightarrow> \<not> granted (app_model_picker_close s)"
  unfolding app_model_picker_close_def by (intro grant_intros) simp_all

lemma not_granted_apply [grant_intros]: "\<not> granted s \<Longrightarrow> \<not> granted (app_apply_model env r s)"
  unfolding app_apply_model_def Let_def by (intro grant_intros) simp_all

lemma not_granted_picker_submit: "\<not> granted s \<Longrightarrow> \<not> granted (app_model_picker_submit env s)"
  unfolding app_model_picker_submit_def Let_def by (intro grant_intros) simp_all

lemma not_granted_picker_open [grant_intros]: "\<not> granted s \<Longrightarrow> \<not> granted (app_model_picker_open s)"
  unfolding app_model_picker_open_def Let_def by (intro grant_intros) simp_all

lemma not_granted_trust [grant_intros]: "\<not> granted s \<Longrightarrow> \<not> granted (trust False s)"
  unfolding trust_def by (intro grant_intros) (simp_all add: consent_def agent_session_trusted_def agent_set_session_trusted_def)

lemma not_granted_command: "\<not> granted s \<Longrightarrow> line \<noteq> ''/trust on'' \<Longrightarrow> \<not> granted (app_command env line s)"
  unfolding app_command_def by (intro grant_intros) simp_all

lemma not_granted_quit: "\<not> granted s \<Longrightarrow> \<not> granted (request_quit s)"
  unfolding request_quit_def by (intro grant_intros) (simp_all add: cancel_agent_def)

lemma not_granted_report [grant_intros]: "\<not> granted s \<Longrightarrow> \<not> granted (app_report_restore s)"
  unfolding app_report_restore_def by (intro grant_intros)

lemma not_granted_deny: "\<not> consent (ap_agent a) \<Longrightarrow> \<not> consent (ap_agent (deny_pending a))"
  by (simp add: consent_def agent_session_trusted_def deny_pending_def agent_set_approval_result_def)

lemma not_granted_cancel [grant_intros]:
  assumes "\<not> granted s"
  shows "\<not> granted (app_cancel s)"
  using assms unfolding app_cancel_def Let_def app_stop_oauth_def by (intro grant_intros) (simp_all add: not_granted_deny cancel_agent_def)

lemma not_granted_escape: "\<not> granted s \<Longrightarrow> \<not> granted (app_escape s)"
  unfolding app_escape_def by (intro grant_intros) (simp_all add: not_granted_deny cancel_agent_def)

lemma not_granted_leave:
  "\<not> granted s \<Longrightarrow> \<not> granted (app_choice_cancel s)" "\<not> granted s \<Longrightarrow> \<not> granted (app_report_cancel s)"
  unfolding app_choice_cancel_def app_model_picker_cancel_def app_report_cancel_def by (intro grant_intros; assumption)+

text \<open>A line grants only as the answer to a question.\<close>

lemma submit_grants:
  assumes "granted (app_submit env line s)" and "\<not> granted s" and "ap_busy (snd s)"
  shows "line = ''/trust on'' \<or> ap_approval (snd s) \<and> line \<in> set approve_words"
proof (cases "ap_approval (snd s)")
  case True
  have "\<not> granted (answer_approval line s)" if "line \<notin> set approve_words"
    using that assms(2) unfolding answer_approval_def Let_def
    by (intro grant_intros) (auto simp: granted_def on_app_def agent_set_approval_result_def say_def on_tui_def trust_words_def approve_words_def
        consent_def agent_session_trusted_def split: if_splits dest: arg_cong [of _ _ "\<lambda>c. consent (snd c)"])
  with True assms(1) show ?thesis by (auto simp: app_submit_def)
next
  case False
  have "\<not> granted (app_submit env line s)" if "line \<noteq> ''/trust on''"
    using False assms(2,3) that unfolding app_submit_def Let_def
    by (simp only: if_False) (intro grant_intros not_granted_picker_submit not_granted_quit not_granted_login_input not_granted_command; simp)
  with assms(1) show ?thesis by blast
qed

text \<open>C6: consent is given only by a line that says so.  While a turn runs, a byte from the terminal grants the call that waits or makes
  the session trusted only if it is Enter and the input line is \<open>/trust on\<close>, or a question is open and the line is one
  of the six words of consent; no other key, command, login or picker entry does.\<close>

theorem approval_needs_answer:
  assumes "granted (feed_byte (app_handlers env) s ch)" and "\<not> granted s" and "ap_busy (snd s)"
  shows "(ch = CHR 0x0D \<or> ch = CHR 0x0A) \<and>
    (c_str (tm_input (t_model (fst s))) = ''/trust on'' \<or> ap_approval (snd s) \<and> c_str (tm_input (t_model (fst s))) \<in> set approve_words)"
proof -
  obtain t a where s: "s = (t, a)" by (cases s)
  let ?gives = "c_str (tm_input (t_model t)) = ''/trust on'' \<or> ap_approval a \<and> c_str (tm_input (t_model t)) \<in> set approve_words"
  have h: "h_submit (app_handlers env) = Some (app_submit env)" "h_cancel (app_handlers env) = Some app_cancel"
      "h_escape (app_handlers env) = Some app_escape" "h_choice_cancel (app_handlers env) = Some app_choice_cancel"
      "h_report_cancel (app_handlers env) = Some app_report_cancel"
    by (simp_all add: app_handlers_def)
  have same: "\<not> granted (t', a)" for t' using assms(2) by (simp add: granted_def s)
  have quit: "\<not> granted (app_submit env ''/quit'' s)"
    using submit_grants [of env "''/quit''" s] assms(2,3) by (auto simp: approve_words_def trust_words_def)
  have leave: "\<not> granted (leave_mode (app_handlers env) (Some f) (t', a))" if "\<not> granted (f (t', a))" for f t'
    using that not_granted_leave [OF same, of t'] by (simp add: leave_mode_def tui_report_request_close_def h)
  have close: "\<not> granted (tui_report_request_close (app_handlers env) s)"
    using not_granted_leave(2) [OF assms(2)] by (simp add: tui_report_request_close_def h)
  have escape: "\<not> granted (leave_mode (app_handlers env) (Some app_escape) (t', a))" for t' by (rule leave) (rule not_granted_escape [OF same])
  have line: "\<not> granted (tui_submit_line (app_handlers env) s)"
    if "\<not> ?gives"
  proof -
    have "\<not> granted (app_submit env (c_str (tm_input (t_model t))) (t', a))" for t'
      using submit_grants [of env _ "(t', a)"] same [of t'] assms(3) that by (fastforce simp: s)
    then show ?thesis using assms(2) by (auto simp: tui_submit_line_def s h Let_def)
  qed
  have key: "(of_char ch = (13 :: nat) \<or> of_char ch = (10 :: nat)) \<and> ?gives"
  proof (rule ccontr)
    assume n: "\<not> ?thesis"
    have l: "\<not> granted (tui_submit_line (app_handlers env) (t, a))" if "of_char ch = (13 :: nat) \<or> of_char ch = (10 :: nat)"
      using n that line by (auto simp: s)
    have c: "\<not> granted (leave_mode (app_handlers env) (Some app_cancel) (t, a))"
      using leave [of app_cancel t] not_granted_cancel [OF assms(2)] by (simp add: s)
    have q: "\<not> granted (leave_mode (app_handlers env) (Some (app_submit env ''/quit'')) (t, a))" using leave quit by (simp add: s)
    have "\<not> granted (normal_key (app_handlers env) (of_char ch) (t, a))"
      unfolding normal_key_def Let_def prod.case h option.map
      by (intro not_granted_if same close [unfolded s] l c q)
    moreover have "\<not> granted (leave_mode (app_handlers env) (Some app_escape) (t\<lparr>t_esc_state := 0\<rparr>, a))" by (rule escape)
    ultimately have "\<not> granted (feed_byte (app_handlers env) s ch)"
      unfolding feed_byte_def Let_def s prod.case h by (intro not_granted_if same)
    with assms(1) show False by simp
  qed
  moreover have "ch = CHR 0x0D \<or> ch = CHR 0x0A"
  proof -
    have "(of_char (CHR 0x0D) :: nat) = 13" "(of_char (CHR 0x0A) :: nat) = 10" by simp_all
    with key show ?thesis by (metis of_char_eq_iff)
  qed
  ultimately show ?thesis by (simp add: s)
qed

section \<open>Where modes get in each other's way\<close>

text \<open>The list of models answers the approval.  While the picker is open over a call that waits, the text typed to filter the list
  is taken for the answer: with \<open>y\<close> in the filter, Enter approves the call and selects no model.\<close>

theorem picker_query_approves:
  assumes "ap_approval a" and "tm_choice_mode (t_model t)" and "\<not> tm_report_mode (t_model t)" and "t_esc_state t = 0"
    and "tm_input (t_model t) = ''y''" and "a_state (ap_agent a) = AGENT_WAIT_USER" and "approval_pending (ap_agent a)"
    and "\<not> approval_decided (ap_agent a)"
  shows "approval_granted (ap_agent (snd (feed_byte (app_handlers env) (t, a) (CHR 0x0D)))) \<and>
    ap_model (snd (feed_byte (app_handlers env) (t, a) (CHR 0x0D))) = ap_model a \<and>
    tm_choice_mode (t_model (fst (feed_byte (app_handlers env) (t, a) (CHR 0x0D))))"
proof -
  have c: "c_str (tm_input (t_model t)) = ''y''" using assms(5) by (simp add: c_str_def)
  define t1 where "t1 = (if tm_secret (t_model t) then t else on_model (\<lambda>m. tui_model_append m LINE_USER ''y'') t)"
  have m: "tm_choice_mode (t_model t1)"
    using assms(2) by (simp add: t1_def on_model_def tui_model_append_def tui_model_append_n_def)
  have "feed_byte (app_handlers env) (t, a) (CHR 0x0D) = tui_submit_line (app_handlers env) (t, a)"
    using assms(3,4) by (simp add: feed_byte_def normal_key_def)
  also have "\<dots> = app_submit env ''y'' (t1, a)"
    using assms(2) c by (simp add: tui_submit_line_def app_handlers_def t1_def Let_def)
  also have "\<dots> = answer_approval ''y'' (t1, a)" using assms(1) by (simp add: app_submit_def)
  also have "\<dots> = status msg_approved (t1, a\<lparr>ap_agent := (ap_agent a)\<lparr>approval_decided := True, approval_granted := True\<rparr>, ap_approval := False\<rparr>)"
    using assms(6-8) by (simp add: answer_approval_def approve_words_def trust_words_def reject_words_def agent_set_approval_result_def on_app_def)
  finally show ?thesis using m by (simp add: status_def on_tui_def tui_set_status_def on_model_def)
qed

text \<open>The end of a browser login closes the list of the model picker but not the picker.  The next line, whatever it says, is
  taken for a choice and does not reach the agent.\<close>

theorem oauth_done_strands_picker:
  assumes "ap_picker a" and "ap_selectors a \<noteq> []" and "tm_choice_mode (t_model t)" and "\<not> tm_report_mode (t_model t)" and "\<not> ap_approval a"
    and "length (ap_selectors a) < SIZE_MAX"
  shows "\<exists>t' a'. app_oauth_done env False (t, a) = (t', a') \<and> ap_picker a' \<and> \<not> tm_choice_mode (t_model t') \<and>
    ap_agent (snd (app_submit env line (t', a'))) = ap_agent a"
proof -
  obtain t' a' where d: "app_oauth_done env False (t, a) = (t', a')" by (metis surj_pair)
  have a': "ap_picker a'" "ap_selectors a' = ap_selectors a" "\<not> ap_approval a'" "ap_agent a' = ap_agent a"
    and t': "\<not> tm_choice_mode (t_model t')" "\<not> tm_report_mode (t_model t')"
    using d assms by (auto simp: app_oauth_done_def app_login_reset_def status_def say_def on_tui_def on_app_def tui_choice_active_def
        on_model_def tui_set_status_def tui_set_input_secret_def tui_choice_stop_def tui_model_append_def tui_model_append_n_def)
  have "tui_choice_selected_index t' = SIZE_MAX" using t' by (simp add: tui_choice_selected_index_def)
  then have "app_submit env line (t', a') =
      status ''model selection cancelled'' (say ''no model matches the current query'' (app_model_picker_close (t', a')))"
    using a' t' assms(6) by (simp add: app_submit_def tui_report_active_def app_model_picker_submit_def)
  then have "ap_agent (snd (app_submit env line (t', a'))) = ap_agent a"
    using a'(4) by (simp add: status_def say_def on_tui_def app_model_picker_close_def on_app_def)
  with d a' t' show ?thesis by blast
qed

lemma shown_app [simp]:
  "snd (say line s) = snd s" "snd (status line s) = snd s" "snd (app_update_header s) = snd s" "snd (on_tui f s) = snd s"
  "snd (on_app g s) = g (snd s)"
  by (simp_all add: say_def status_def app_update_header_def on_tui_def on_app_def Let_def)

lemma apply_model_agent:
  "ap_agent (snd (app_apply_model env r s)) = (ap_agent (snd s))\<lparr>a_model := Some (ae_object env (model_at (ap_rt (snd s)) r))\<rparr>"
  by (cases "runtime_model_selector (ap_rt (snd s)) (fst (model_at (ap_rt (snd s)) r)) (snd (model_at (ap_rt (snd s)) r)) AUTH_PATH_MAX")
    (simp_all add: app_apply_model_def Let_def split_beta)

text \<open>A model can be replaced under the request that runs.  The command changes the model of a busy agent, the request stays, and
  its cancellation is then sent to a model that does not know it.\<close>

theorem busy_model_switch:
  assumes "\<not> ap_approval a" and "\<not> tm_report_mode (t_model t)" and "\<not> ap_picker a" and "ap_login a = LOGIN_NONE" and "ap_busy a"
    and "runtime_model_by_name (ap_rt a) name = Some r" and "name \<noteq> []"
  shows "\<exists>t' a'. app_submit env (''/model '' @ name) (t, a) = (t', a') \<and>
    a_model (ap_agent a') = Some (ae_object env (model_at (ap_rt a) r)) \<and>
    request_id (ap_agent a') = request_id (ap_agent a) \<and> request_done (ap_agent a') = request_done (ap_agent a) \<and>
    a_state (ap_agent a') = a_state (ap_agent a)"
proof -
  have p: "str_after_prefix (''/model '' @ name) ''/base-url '' = None" "str_after_prefix (''/model '' @ name) ''/key '' = None"
      "str_after_prefix (''/model '' @ name) ''/model '' = Some name"
    using assms(7) by (simp_all add: str_after_prefix_def)
  have "app_submit env (''/model '' @ name) (t, a) = app_apply_model env r (t, a)"
    using assms p by (simp add: app_submit_def tui_report_active_def app_command_def)
  moreover obtain t' a' where d: "app_apply_model env r (t, a) = (t', a')" by (metis surj_pair)
  moreover have "ap_agent a' = (ap_agent a)\<lparr>a_model := Some (ae_object env (model_at (ap_rt a) r))\<rparr>"
    using apply_model_agent [of env r "(t, a)"] d by simp
  ultimately show ?thesis by simp
qed

section \<open>Keys in the history\<close>

definition key_notices :: "string list" where
  "key_notices = [msg_key_failed, msg_key_applied, msg_key_saved]"

lemma history_of:
  "tm_lines (t_model (fst (say line s))) = tm_lines (t_model (fst s)) @ [\<lparr>ln_kind = LINE_SYSTEM, ln_text = append_display_text [] (c_str line)\<rparr>]"
  "tm_lines (t_model (fst (status line s))) = tm_lines (t_model (fst s))"
  "tm_lines (t_model (fst (on_app f s))) = tm_lines (t_model (fst s))"
  "tm_lines (t_model (fst (app_login_reset s))) = tm_lines (t_model (fst s))"
  by (simp_all add: say_def status_def on_tui_def on_app_def on_model_def tui_model_append_def tui_model_append_n_def tui_set_status_def
      app_login_reset_def tui_choice_stop_def tui_set_input_secret_def)

lemma reset_state:
  "ap_login (snd (app_login_reset s)) = LOGIN_NONE" "\<not> tm_secret (t_model (fst (app_login_reset s)))"
  "tm_input (t_model (fst s)) = [] \<Longrightarrow> tm_input (t_model (fst (app_login_reset s))) = []"
  by (simp_all add: app_login_reset_def on_tui_def on_app_def on_model_def tui_choice_stop_def tui_set_input_secret_def)

lemma shown_input [simp]:
  "tm_input (t_model (fst (say line s))) = tm_input (t_model (fst s))" "tm_input (t_model (fst (status line s))) = tm_input (t_model (fst s))"
  "tm_input (t_model (fst (on_app f s))) = tm_input (t_model (fst s))"
  "tm_secret (t_model (fst (say line s))) = tm_secret (t_model (fst s))" 
  by (simp_all add: say_def status_def on_tui_def on_app_def on_model_def tui_model_append_def tui_model_append_n_def tui_set_status_def)

text \<open>C13: an API key entered in the login never reaches the screen.  Its characters and Enter add one line to the history, which is one
  of three fixed notices; the input line is empty again and the login is over, whether the key could be saved or not.\<close>

theorem api_key_never_shown:
  assumes "app_ok (t, a)" and "ap_login a = LOGIN_API_KEY" and "shows_buffer t (Buffer [] [])" and "\<not> ap_approval a" and "\<not> ap_picker a"
    and "plain_text key" and "key \<noteq> []" and "length key \<le> TUI_INPUT_MAX" and "key \<notin> {''/quit'', ''/exit'', ''exit'', ''quit''}"
  shows "\<exists>t' a' notice. foldl (feed_byte (app_handlers env)) (t, a) (key @ [CHR 0x0D]) = (t', a') \<and> notice \<in> set key_notices \<and>
    tm_lines (t_model t') = tm_lines (t_model t) @ [\<lparr>ln_kind = LINE_SYSTEM, ln_text = append_display_text [] (c_str notice)\<rparr>] \<and>
    tm_input (t_model t') = [] \<and> ap_login a' = LOGIN_NONE \<and> \<not> tm_secret (t_model t')"
proof -
  have m: "tm_secret (t_model t)" "\<not> tm_choice_mode (t_model t)" "\<not> tm_report_mode (t_model t)" using assms(1,2) by (auto simp: app_ok_def)
  have i: "tm_input (t_model t) = []" using assms(3) by (simp add: shows_buffer_def)
  let ?s = "login_key_input env key (t, a)"
  have "foldl (feed_byte (app_handlers env)) (t, a) (key @ [CHR 0x0D]) = app_submit env key (t, a)"
    by (rule secret_line_leaves_nothing [OF assms(3) m(1,2)]) (use assms(6-8) in \<open>simp_all add: app_handlers_def\<close>)
  also have "\<dots> = ?s" using assms(2,4,5,9) m by (simp add: app_submit_def tui_report_active_def app_login_input_def)
  finally have f: "foldl (feed_byte (app_handlers env)) (t, a) (key @ [CHR 0x0D]) = ?s" .
  have "\<exists>notice \<in> set key_notices. tm_lines (t_model (fst ?s)) =
      tm_lines (t_model t) @ [\<lparr>ln_kind = LINE_SYSTEM, ln_text = append_display_text [] (c_str notice)\<rparr>]"
    by (simp add: login_key_input_def Let_def split_beta history_of key_notices_def)
  moreover have "tm_input (t_model (fst ?s)) = []" "ap_login (snd ?s) = LOGIN_NONE" "\<not> tm_secret (t_model (fst ?s))"
    using i by (simp_all add: login_key_input_def Let_def split_beta reset_state)
  ultimately show ?thesis using f by (metis prod.collapse)
qed

text \<open>The command that sets a key does show it: the line with the key is echoed into the history.\<close>

theorem key_command_echoed:
  assumes "\<not> tm_secret (t_model t)" and "\<not> tm_choice_mode (t_model t)" and "\<not> tm_report_mode (t_model t)" and "t_esc_state t = 0"
    and "tm_input (t_model t) = ''/key '' @ key" and "key \<noteq> []" and "plain_text key" and "\<not> ap_approval a" and "\<not> ap_picker a" and "ap_login a = LOGIN_NONE"
  shows "\<exists>t' a'. feed_byte (app_handlers env) (t, a) (CHR 0x0D) = (t', a') \<and> pr_api_key (rm_provider (ap_rt a')) = Some key \<and>
    \<lparr>ln_kind = LINE_USER, ln_text = append_display_text [] (''/key '' @ key)\<rparr> \<in> set (tm_lines (t_model t'))"
proof -
  have plain: "plain_text (''/key '' @ key)" using assms(7) by (simp add: plain_char_def)
  then have c: "c_str (''/key '' @ key) = ''/key '' @ key" by (intro c_str_id plain_no_nul)
  define t1 where "t1 = on_model (\<lambda>m. m\<lparr>tm_input := [], tm_cursor := 0\<rparr>) (on_model (\<lambda>m. tui_model_append m LINE_USER (''/key '' @ key)) t)"
  have "feed_byte (app_handlers env) (t, a) (CHR 0x0D) = tui_submit_line (app_handlers env) (t, a)"
    using assms(3,4) by (simp add: feed_byte_def normal_key_def)
  also have "\<dots> = app_submit env (''/key '' @ key) (t1, a)"
    using assms(1,2,5) c by (simp add: tui_submit_line_def app_handlers_def t1_def Let_def)
  also have "\<dots> = app_command env (''/key '' @ key) (t1, a)"
    using assms(3,8-10) by (simp add: app_submit_def tui_report_active_def t1_def on_model_def tui_model_append_def tui_model_append_n_def)
  also have "\<dots> = say ''API key updated (in-memory, not persisted)'' (on_app (ap_rt_update (\<lambda>rt. snd (runtime_set_api_key rt (Some key)))) (t1, a))"
    using assms(6) by (simp add: app_command_def str_after_prefix_def)
  finally have f: "feed_byte (app_handlers env) (t, a) (CHR 0x0D) = \<dots>" .
  have "\<lparr>ln_kind = LINE_USER, ln_text = append_display_text [] (''/key '' @ key)\<rparr> \<in> set (tm_lines (t_model t1))"
    using c by (simp add: t1_def on_model_def tui_model_append_def tui_model_append_n_def)
  then show ?thesis
    unfolding f by (simp add: say_def on_tui_def on_app_def on_model_def tui_model_append_def tui_model_append_n_def runtime_set_api_key_def)
qed

section \<open>Witnesses\<close>

text \<open>A running turn whose call waits for the approval, with an answer on the input line.\<close>

definition asked_app :: "unit app" where
  "asked_app = sample_app\<lparr>ap_busy := True, ap_approval := True,
     ap_agent := sample_agent\<lparr>a_state := AGENT_WAIT_USER, approval_pending := True\<rparr>\<rparr>"

definition typed_tui :: "string \<Rightarrow> tui" where
  "typed_tui line = on_model (\<lambda>m. m\<lparr>tm_input := line, tm_cursor := length line\<rparr>) (tui_new 24 80)"

theorem approval_needs_answer_witness:
  "granted (feed_byte (app_handlers sample_app_env) (typed_tui ''y'', asked_app) (CHR 0x0D)) \<and> ''y'' \<in> set approve_words"
proof -
  let ?s = "(typed_tui ''y'', asked_app)"
  have g: "granted (feed_byte (app_handlers sample_app_env) ?s (CHR 0x0D))"
    by (simp add: feed_byte_def normal_key_def typed_tui_def on_model_def tui_new_def tui_model_init_def tui_submit_line_def app_handlers_def Let_def
        app_submit_def asked_app_def answer_approval_def approve_words_def trust_words_def reject_words_def agent_set_approval_result_def
        c_str_def granted_def consent_def agent_session_trusted_def sample_agent_def loop_state_def agent.extend_def loop.fields_def agent_new_def)
  moreover have "\<not> granted ?s"
    by (simp add: granted_def consent_def agent_session_trusted_def asked_app_def sample_agent_def loop_state_def agent.extend_def loop.fields_def agent_new_def Let_def)
  moreover have "ap_busy (snd ?s)" by (simp add: asked_app_def)
  ultimately have "c_str (tm_input (t_model (typed_tui ''y''))) = ''/trust on'' \<or> ap_approval asked_app \<and> c_str (tm_input (t_model (typed_tui ''y''))) \<in> set approve_words"
    using approval_needs_answer [of sample_app_env ?s "CHR 0x0D"] by simp
  with g show ?thesis by (simp add: typed_tui_def on_model_def c_str_def)
qed

definition key_app :: "unit app" where
  "key_app = sample_app\<lparr>ap_login := LOGIN_API_KEY, ap_login_provider := ''opencode-go''\<rparr>"

definition key_tui :: tui where
  "key_tui = tui_set_input_secret True (tui_new 24 80)"

theorem api_key_never_shown_witness:
  "\<exists>t' a' notice. foldl (feed_byte (app_handlers sample_app_env)) (key_tui, key_app) (''sk-1'' @ [CHR 0x0D]) = (t', a') \<and>
     notice \<in> set key_notices \<and> tm_lines (t_model t') = [\<lparr>ln_kind = LINE_SYSTEM, ln_text = append_display_text [] (c_str notice)\<rparr>] \<and>
     tm_input (t_model t') = [] \<and> ap_login a' = LOGIN_NONE \<and> \<not> tm_secret (t_model t')"
proof -
  have a: "app_ok (key_tui, key_app)"
    by (simp add: app_ok_def front_end_ok_def key_tui_def key_app_def tui_set_input_secret_def on_model_def tui_new_def tui_model_init_def)
  have s: "shows_buffer key_tui (Buffer [] [])"
    by (simp add: shows_buffer_def key_tui_def tui_set_input_secret_def on_model_def tui_new_def tui_model_init_def)
  have l: "tm_lines (t_model key_tui) = []" by (simp add: key_tui_def tui_set_input_secret_def on_model_def tui_new_def tui_model_init_def)
  show ?thesis
    using api_key_never_shown [OF a _ s, of "''sk-1''" sample_app_env] l by (simp add: key_app_def sample_app_def plain_char_def TUI_INPUT_MAX_def)
qed

end
