(* ===== verification/Spec2Isabelle.thy ===== *)
theory Spec2Isabelle
  imports Byte_Store Vector Hash_Map Loop_Approval Loop_Asks Loop_Protocol Loop_Props Loop_Cancel Scheduler File_Tools Providers Provider_Auth Git_Tools Plan_Tool Tool_Format Subagent Runtime_Models App_Approval
begin

text \<open>
  A verification library for cagent, a coding agent in C (all source names are relative to
  \<open>src/src/\<close>).  An agent holds a conversation.  Its loop sends the conversation to a model,
  receives the answer as a stream of events, runs the tools the model calls, asks the host for
  approval where a tool demands it, shortens a conversation that outgrows the context window, and
  records everything in a session file.  A scheduler runs several agents; the providers turn
  a request into HTTP and the bytes of the response into events.

  \<^bold>\<open>Data structures.\<close>  \<open>Prelude\<close> has the error codes of \<open>util/error.c\<close>, the wrap-around of
  \<open>size_t\<close>, the allocator (an oracle that says which calls of \<open>malloc\<close> fail) and C strings.
  \<open>Byte_Store\<close> is \<open>util/string.c\<close> and \<open>util/buffer.c\<close> with their allocated arrays; both
  interpret the locale \<open>byte_sink\<close> (an append either fails and changes nothing, or appends).
  \<open>Vector\<close> is \<open>util/vector.c\<close> (\<open>sequence_store\<close>), \<open>Hash_Map\<close> is \<open>util/hashmap.c\<close>
  (\<open>keyed_store\<close>: a finite map, with the real FNV-1a hash, growth and chain order).  \<open>Json\<close> is
  the adapter \<open>util/json.c\<close>; the yyjson parser and printer behind it are parameters.

  \<^bold>\<open>The conversation.\<close>  \<open>Messages\<close> is \<open>agent/message.c\<close>.  Its predicate \<open>tool_grouped\<close> is the
  half of the protocol of the providers that cutting a conversation can break (the answers of tool calls directly follow the
  message that made them; \<open>Loop_Protocol\<close> has the whole) and \<open>message_list_tool_safe_prefix_count\<close> finds the cuts that keep it.  \<open>Context\<close> is
  \<open>agent/context.c\<close>: token estimates, the choice of a range to compact, the transcript, and both
  ways of applying a compaction.  \<open>Session\<close> is \<open>session/session.c\<close>: lines of JSON are appended and
  read back, where \<open>s_writes\<close> says how many bytes of each coming line the operating system
  takes, because the code does not look at that; the round trips assume \<open>json_roundtrips read render\<close>, which says that the printer
  writes one line that the parser reads back.

  \<^bold>\<open>The agent.\<close>  \<open>Registry\<close> is \<open>tool/tool.h\<close> and \<open>tool/registry.c\<close>, \<open>Agent\<close> is
  \<open>agent/agent.c\<close> with the interface of \<open>model/model.h\<close>.  \<open>Loop\<close> is \<open>agent/loop.c\<close>: the record
  \<open>loop\<close> is \<open>AgentLoopState\<close> with the agent and the world, \<open>resume_iter\<close> is one pass of the
  \<open>for (;;)\<close> of \<open>agent_resume\<close> (\<open>wait_model_step\<close>, \<open>wait_tool_step\<close> and \<open>wait_user_step\<close> are its
  states) and every helper of the file has its own definition.  Callbacks, tools and the model are
  functions on an arbitrary world, given by the environment \<open>env\<close>; a callback answers with the
  list of calls the host makes.  \<open>Loop_Frames\<close> says what each helper leaves alone, and its locale
  \<open>pass_loop\<close> turns "a pass keeps the invariant and lowers a rank" into "the loop returns and
  keeps the invariant"; \<open>agent_loop\<close> (in \<open>Loop_Pass\<close>) and \<open>resume_loop\<close> (in \<open>Scheduler\<close>)
  interpret it.  \<open>agent_resume\<close> is \<open>partial_function (option)\<close>, so that it returns is a theorem.
  \<open>Loop_History\<close> has the invariant \<open>history_ok\<close> of the conversation for every pass, \<open>Loop_Protocol\<close>
  the tool protocol of whole conversations: \<open>protocol False\<close> says that tool messages answer the open calls in call order,
  \<open>protocol True\<close> that nothing comes between, which the providers ask for and which holds until a turn is started after one that
  failed or was cancelled.  \<open>Loop_Approval\<close> has the approval gate and the digest that binds a grant to a call, \<open>Loop_Asks\<close> that
  the host is asked once for each call, \<open>Loop_Props\<close> retries, truncated answers, request ids and the losses of
  compaction.  \<open>Loop_Cancel\<close> has cancellation, under the contract \<open>stops\<close> of \<open>tool.h\<close>: a task ends after finitely many
  polls once its \<open>cancel\<close> was called, and without that it need not end.  \<open>Scheduler\<close> is
  \<open>runtime/scheduler.c\<close> on top of the loop.

  \<^bold>\<open>The providers.\<close>  \<open>Sse\<close> is the stream parser \<open>model/stream.c\<close>.  \<open>Http\<close> has the
  transfers of \<open>runtime/http.c\<close>: what libcurl does with a transfer arrives as chunks and completion
  messages.  \<open>Model_Transfer\<close> is the code that \<open>openai.c\<close>, \<open>anthropic.c\<close> and \<open>responses.c\<close> each
  hold a copy of (its lines are those of \<open>openai.c\<close>).  \<open>Model_Streams\<close> states what a provider
  promises of its accumulator as the locale \<open>stream_protocol\<close>, and proves once what transfers,
  requests and the table of a model do together: \<open>io_reach\<close> are the states any sequence of
  requests, chunks, completions and cancels can reach.  \<open>Openai\<close>, \<open>Anthropic\<close> and \<open>Responses\<close>
  hold the three accumulators and interpret the locale (a stream that refuses a chunk is fed no more, \<open>sse_feed_all\<close>); \<open>Request_Bodies\<close> builds the three request
  bodies; \<open>Providers\<close> has the three vtables and the properties that span HTTP, provider and
  agent loop.

  \<^bold>\<open>The file tools.\<close>  \<open>Path_Policy\<close> is \<open>tool/path_policy.c\<close> over a parameter that answers
  \<open>realpath\<close> and \<open>lstat\<close>; \<open>Diff\<close> is \<open>util/diff.c\<close>; \<open>File_Tools\<close> is \<open>tool/edit.c\<close>,
  \<open>tool/write.c\<close> and \<open>tool/read.c\<close>, where the answers of the operating system during one execution are a
  record.  A store of files is flat; the one symbolic link that matters, under the temporary name an edit opens, is a field
  of that record, as is the number of bytes a read delivers.  \<open>Plan_Tool\<close> is \<open>tool/plan.c\<close>: a call is an operation on the list of steps that the file holds
  (\<open>plan_effect\<close>), whatever fails while the file is written.

  \<^bold>\<open>Display.\<close>  \<open>Tool_Format\<close> is \<open>tui/format.c\<close>, the line shown for a tool call: what it may contain and
  how long it can be.  \<open>Report\<close> is the static data of \<open>report/report.c\<close>.  \<open>Tui_Screen\<close> is \<open>tui/render.c\<close>, a
  function from the model of the screen to its text and the place of the cursor; \<open>Tui_Display\<close> shows what
  reaches the terminal.  \<open>Tui_Input\<close> is \<open>tui/tui.c\<close>: keys, input line, choice list and events, with the
  callbacks of the application as functions on the whole state; \<open>Tui_Editor\<close> compares the input line with an
  editor on characters.

  \<^bold>\<open>Application.\<close>  \<open>App\<close> is the interactive part of \<open>main.c\<close>: the record \<open>app\<close> is the struct \<open>App\<close>, and
  \<open>app_submit\<close>, \<open>app_cancel\<close>, \<open>app_escape\<close> and the two other callbacks are what \<open>Tui_Input\<close> calls.  The events of
  the agent are recorded by its world and handled when the call that raised them returns (\<open>deliver\<close>).
  \<open>App_Props\<close> interprets the contract \<open>front_end_client\<close> on these callbacks, so that one
  invariant holds in every state the main loop can reach (\<open>app_step\<close>); \<open>App_Approval\<close> says which lines grant a
  call and where the modes of the application get in each other's way.

  \<^bold>\<open>Commands.\<close>  \<open>Process\<close> is \<open>runtime/process.c\<close>: a child process is the record of its flags,
  and \<open>process_reach\<close> are the states any order of pipe events, timer events, cancels and polls can reach.
  \<open>Shell_Tools\<close> is \<open>tool/bash.c\<close> and \<open>tool/grep.c\<close> on top of it, with what is shown for
  approval and what runs; \<open>Git_Tools\<close> is \<open>tool/git.c\<close>, where every operation also returns the argument
  vectors it ran, and the six tools act with their flags on a world that records them, so that what reaches git, and what
  does so without approval, is a theorem (\<open>guarded_argv\<close>, \<open>effects\<close>).

  \<^bold>\<open>Credentials.\<close>  \<open>Oauth_Codec\<close>, \<open>Oauth_Store\<close> and \<open>Oauth_Login\<close> are \<open>auth/oauth.c\<close>: base64url, PKCE,
  the authorization URL and its callback; the file \<open>auth.json\<close>; refresh and the two logins over a parameter
  for the HTTP post.  \<open>Provider_Auth\<close> is \<open>model/provider.c\<close>: where the key of a provider comes from,
  and the preparation of credentials before each request.

  \<^bold>\<open>Bounds and loops.\<close>  No definition uses fuel.  Loops over lists are structural;
  \<open>agent_resume\<close> and \<open>drain_transfers\<close>, whose ends depend on an invariant, are partial functions whose
  results are proved to exist.  \<open>size_t\<close> arithmetic wraps at \<open>2 ^ 64\<close> where the code can reach it;
  request ids are \<open>64 word\<close>.

  \<^bold>\<open>Assumptions.\<close>  In the containers, the parser and the messages every allocation is an outcome.
  In the loop, the session and the request bodies allocations succeed; the branches that only report
  exhaustion are left out.  The event callback of a request is present, as the agent loop always
  passes one.  An agent whose turn has started has a model (\<open>model_of\<close>; the code tests for it in
  \<open>agent_start\<close>, and only \<open>agent_set_model\<close> with NULL in the middle of a turn would undo it), and the token counters of a
  \<open>usage\<close> are integers that wrap at 64 bits where they are written and read as JSON.  SHA-256, the clock, the file system, the network and the random source are parameters.

  \<^bold>\<open>Sub-agents.\<close>  \<open>Subagent\<close> is \<open>tool/subagent.c\<close>: the children of a call are agents of \<open>Loop\<close>, a
  poll resumes each of them once, and a locale states what every child keeps, so that the safety of
  the loop carries over to the children.

  \<^bold>\<open>Configuration.\<close>  \<open>Config\<close> and \<open>Runtime_Models\<close> are the two halves of \<open>runtime/runtime.c\<close> that decide
  which model is asked: \<open>Config\<close> reads and writes \<open>config.json\<close>, \<open>custom_provider.json\<close> and
  \<open>models.json\<close>; \<open>Runtime_Models\<close> chooses endpoint, protocol and credentials, discovers catalogs
  and finds the model a selector names.  The lemmas show that a saved choice is read back and
  where it is not, and that endpoints stay with their providers, except that of Xiaomi, which the table of built-in endpoints lacks.

  \<^bold>\<open>Not modelled.\<close>  The rest of the wiring (the objects \<open>runtime_new\<close> creates, options, the plain line mode and the
  worker thread of \<open>main.c\<close>, prices), the event loop, the system calls of sockets, timers and child processes, the remaining tools (directory walks, test
  runs, memory), and the terminal backend.
\<close>

end
